(* ===== verification/Prelude.thy ===== *)
theory Prelude
  imports Complex_Main "HOL-Library.AList" "HOL-Library.Sublist" "HOL-Library.Char_ord"
    "HOL-Library.List_Lexorder" "HOL-Library.Code_Target_Nat"
begin

text \<open>
  What every component shares: Python dictionaries as association lists in insertion order,
  Python strings as UTF-8 byte strings, floating-point numbers, dynamic values, and the clamp
  that the whole program applies to confidences (\<open>core/models.py\<close>).

  Conventions of the whole development.
  \<^item> A \<open>dict\<close> is an association list with distinct keys, oldest key first, as CPython keeps it:
    assigning to a present key keeps its place, a new key goes to the end
    (\<open>AList.update\<close>), \<open>del\<close> removes it (\<open>AList.delete\<close>), \<open>next(iter(d))\<close> is the head.
  \<^item> A \<open>str\<close> is its UTF-8 encoding, a list of bytes (\<open>char\<close>). Prefix, containment,
    equality and order of code points agree with those of the encodings; \<open>len\<close> counts the bytes
    that start a code point (\<open>py_len\<close>). Case mapping and stripping are those of ASCII.
  \<^item> A \<open>float\<close> is a rational number: a double is one, its comparisons are exact, and the
    rounding of sums and products is not modelled.
  \<^item> \<open>time.time()\<close> is an argument \<open>now\<close> of the operation that reads it. A lock that only
    serialises calls has no trace in the model: an operation is one atomic step.
\<close>

named_theorems dict_simps \<open>lookups, key lists and distinctness of updated dictionaries\<close>

section \<open>Dictionaries\<close>

type_synonym ('k, 'v) dict = "('k \<times> 'v) list"

abbreviation dkeys :: "('k, 'v) dict \<Rightarrow> 'k list" where
  "dkeys d \<equiv> map fst d"

abbreviation dget :: "('k, 'v) dict \<Rightarrow> 'k \<Rightarrow> 'v option" where
  "dget d k \<equiv> map_of d k"

abbreviation dset :: "'k \<Rightarrow> 'v \<Rightarrow> ('k, 'v) dict \<Rightarrow> ('k, 'v) dict" where
  "dset k v d \<equiv> AList.update k v d"

abbreviation ddel :: "'k \<Rightarrow> ('k, 'v) dict \<Rightarrow> ('k, 'v) dict" where
  "ddel k d \<equiv> AList.delete k d"

definition wf_dict :: "('k, 'v) dict \<Rightarrow> bool" where
  "wf_dict d \<longleftrightarrow> distinct (dkeys d)"

definition dget_default :: "('k, 'v) dict \<Rightarrow> 'k \<Rightarrow> 'v \<Rightarrow> 'v" where
  "dget_default d k v = (case dget d k of None \<Rightarrow> v | Some x \<Rightarrow> x)"

lemma dget_dset [dict_simps, simp]: "dget (dset k v d) k' = (if k = k' then Some v else dget d k')"
  by (simp add: update_conv')

lemma dget_ddel [dict_simps, simp]: "dget (ddel k d) k' = (if k = k' then None else dget d k')"
  by (simp add: delete_conv')

lemma wf_dict_Nil [dict_simps, simp]: "wf_dict []"
  by (simp add: wf_dict_def)

lemma wf_dict_dset [dict_simps, simp, intro]: "wf_dict d \<Longrightarrow> wf_dict (dset k v d)"
  by (simp add: wf_dict_def distinct_update)

lemma wf_dict_ddel [dict_simps, simp, intro]: "wf_dict d \<Longrightarrow> wf_dict (ddel k d)"
  by (simp add: wf_dict_def distinct_delete)

lemma dkeys_dset [dict_simps]:
  "dkeys (dset k v d) = (if k \<in> set (dkeys d) then dkeys d else dkeys d @ [k])"
  by (simp add: update_keys)

lemma dkeys_ddel [dict_simps]: "dkeys (ddel k d) = filter (\<lambda>k'. k' \<noteq> k) (dkeys d)"
  by (induction d) (auto simp: AList.delete_eq)

lemma dget_None_iff: "dget d k = None \<longleftrightarrow> k \<notin> set (dkeys d)"
  by (induction d) auto

lemma dget_in_keys: "dget d k = Some v \<Longrightarrow> k \<in> set (dkeys d)"
  using dget_None_iff [of d k] by auto

lemma set_dset: "set (dkeys (dset k v d)) = insert k (set (dkeys d))"
  by (auto simp: dkeys_dset)

lemma length_dset: "length (dset k v d) = (if k \<in> set (dkeys d) then length d else Suc (length d))"
  by (metis dkeys_dset length_append_singleton length_map)

lemma length_ddel_le: "length (ddel k d) \<le> length d"
  by (simp add: AList.delete_eq)

lemma length_ddel_in: "wf_dict d \<Longrightarrow> k \<in> set (dkeys d) \<Longrightarrow> Suc (length (ddel k d)) = length d"
proof (induction d)
  case Nil
  then show ?case by simp
next
  case (Cons p d)
  obtain k' v' where p: "p = (k', v')" by (cases p)
  show ?case
  proof (cases "k = k'")
    case True
    with Cons.prems(1) p have "k \<notin> set (dkeys d)" by (simp add: wf_dict_def)
    then have "ddel k d = d" by (force simp: AList.delete_eq filter_id_conv)
    with p True show ?thesis by (simp add: AList.delete_eq)
  next
    case False
    with Cons p have "Suc (length (ddel k d)) = length d" by (simp add: wf_dict_def)
    with p False show ?thesis by (simp add: AList.delete_eq)
  qed
qed

lemma wf_dict_map_val [dict_simps, simp]: "wf_dict (map (\<lambda>(k, v). (k, f k v)) d) = wf_dict d"
  by (simp add: wf_dict_def comp_def case_prod_beta)

lemma dget_map_val [dict_simps]: "dget (map (\<lambda>(k, v). (k, f v)) d) k = map_option f (dget d k)"
  by (induction d) auto

lemma wf_dict_filter [dict_simps, simp]: "wf_dict d \<Longrightarrow> wf_dict (filter P d)"
  by (simp add: wf_dict_def distinct_map_filter)

lemma dget_filter_val:
  "wf_dict d \<Longrightarrow> dget (filter (\<lambda>(k, v). P k v) d) k
     = (case dget d k of None \<Rightarrow> None | Some v \<Rightarrow> if P k v then Some v else None)"
  by (induction d) (auto simp: wf_dict_def dget_None_iff split: option.splits)

text \<open>Two dictionaries that answer every lookup alike are equal up to the order of keys.\<close>

definition dict_eq :: "('k, 'v) dict \<Rightarrow> ('k, 'v) dict \<Rightarrow> bool" where
  "dict_eq d e \<longleftrightarrow> map_of d = map_of e"

lemma wf_dict_Cons [dict_simps]: "wf_dict ((k, v) # d) \<longleftrightarrow> k \<notin> set (dkeys d) \<and> wf_dict d"
  by (simp add: wf_dict_def)

section \<open>Strings\<close>

text \<open>\<open>s.startswith(p)\<close>, \<open>p in s\<close> for strings.\<close>

definition starts_with :: "string \<Rightarrow> string \<Rightarrow> bool" where
  "starts_with s p \<longleftrightarrow> take (length p) s = p"

fun contains_str :: "string \<Rightarrow> string \<Rightarrow> bool" where
  "contains_str [] p = (p = [])"
| "contains_str (c # s) p = (starts_with (c # s) p \<or> contains_str s p)"

lemma starts_with_iff_prefix: "starts_with s p \<longleftrightarrow> prefix p s"
  by (metis append_take_drop_id prefix_def append_eq_conv_conj starts_with_def)

lemma contains_str_iff_sublist: "contains_str s p \<longleftrightarrow> sublist p s"
  by (induction s) (auto simp: starts_with_iff_prefix sublist_Cons_right)

lemma starts_with_append [simp]: "starts_with (p @ s) p"
  by (simp add: starts_with_def)

definition ends_with :: "string \<Rightarrow> string \<Rightarrow> bool" where
  "ends_with s p = starts_with (rev s) (rev p)"

text \<open>\<open>str.lower\<close> on ASCII letters: the bytes of other code points are left alone.\<close>

definition lower_char :: "char \<Rightarrow> char" where
  "lower_char c = (let n = of_char c :: nat in if 65 \<le> n \<and> n \<le> 90 then char_of (n + 32) else c)"

definition py_lower :: "string \<Rightarrow> string" where
  "py_lower s = map lower_char s"

text \<open>\<open>str.strip()\<close> on ASCII white space.\<close>

definition is_space :: "char \<Rightarrow> bool" where
  "is_space c = (let n = of_char c :: nat in n = 32 \<or> (9 \<le> n \<and> n \<le> 13) \<or> (28 \<le> n \<and> n \<le> 31))"

definition py_strip :: "string \<Rightarrow> string" where
  "py_strip s = rev (dropWhile is_space (rev (dropWhile is_space s)))"

definition is_digit :: "char \<Rightarrow> bool" where
  "is_digit c = (let n = of_char c :: nat in 48 \<le> n \<and> n \<le> 57)"

text \<open>\<open>len(s)\<close>: the bytes \<open>10xxxxxx\<close> continue a code point.\<close>

definition is_continuation_byte :: "char \<Rightarrow> bool" where
  "is_continuation_byte c = (let n = of_char c :: nat in 128 \<le> n \<and> n < 192)"

definition py_len :: "string \<Rightarrow> nat" where
  "py_len s = length (filter (\<lambda>c. \<not> is_continuation_byte c) s)"

lemma py_len_le: "py_len s \<le> length s"
  by (simp add: py_len_def)

text \<open>
  \<open>s.split(sep, n)\<close> for a one-character separator: at most \<open>n\<close> cuts, from the left; and
  \<open>s.split(sep)\<close>.
\<close>

fun py_split_max :: "char \<Rightarrow> nat \<Rightarrow> string \<Rightarrow> string list" where
  "py_split_max c n [] = [[]]"
| "py_split_max c 0 (x # xs) = [x # xs]"
| "py_split_max c (Suc n) (x # xs) =
     (if x = c then [] # py_split_max c n xs
      else (case py_split_max c (Suc n) xs of
              [] \<Rightarrow> [[x]]
            | p # ps \<Rightarrow> (x # p) # ps))"

fun py_split :: "char \<Rightarrow> string \<Rightarrow> string list" where
  "py_split c [] = [[]]"
| "py_split c (x # xs) =
     (if x = c then [] # py_split c xs
      else (case py_split c xs of [] \<Rightarrow> [[x]] | p # ps \<Rightarrow> (x # p) # ps))"

lemma py_split_max_nonempty [simp]: "py_split_max c n s \<noteq> []"
  by (induction c n s rule: py_split_max.induct) (auto split: list.splits)

lemma py_split_nonempty [simp]: "py_split c s \<noteq> []"
  by (induction c s rule: py_split.induct) (auto split: list.splits)

text \<open>\<open>sep.join(parts)\<close>.\<close>

fun py_join :: "string \<Rightarrow> string list \<Rightarrow> string" where
  "py_join sep [] = []"
| "py_join sep [p] = p"
| "py_join sep (p # ps) = p @ sep @ py_join sep ps"

lemma join_split: "py_join [c] (py_split c s) = s"
proof (induction c s rule: py_split.induct)
  case (2 c x xs)
  then show ?case
  proof (cases "py_split c xs")
    case (Cons p ps)
    with 2 show ?thesis by (cases ps) auto
  qed simp
qed simp

lemma py_split_no_sep: "c \<notin> set s \<Longrightarrow> py_split c s = [s]"
  by (induction s) auto

lemma py_split_append: "c \<notin> set s \<Longrightarrow> py_split c (s @ c # t) = s # py_split c t"
  by (induction s) auto

text \<open>\<open>s.replace(p, t)\<close> for a non-empty \<open>p\<close>: the occurrences found from the left, without overlap.\<close>

function py_replace :: "string \<Rightarrow> string \<Rightarrow> string \<Rightarrow> string" where
  "py_replace p t [] = []"
| "py_replace p t (c # s) =
     (if p \<noteq> [] \<and> starts_with (c # s) p then t @ py_replace p t (drop (length p) (c # s))
      else c # py_replace p t s)"
  by pat_completeness auto
termination by (relation "measure (\<lambda>(p, t, s). length s)") auto

text \<open>ASCII hexadecimal digits, as \<open>[a-fA-F0-9]\<close>.\<close>

definition is_hex_char :: "char \<Rightarrow> bool" where
  "is_hex_char c =
     (let n = of_char c :: nat in (48 \<le> n \<and> n \<le> 57) \<or> (65 \<le> n \<and> n \<le> 70) \<or> (97 \<le> n \<and> n \<le> 102))"

text \<open>Decimal notation of integers, \<open>str(n)\<close>.\<close>

fun nat_digits :: "nat \<Rightarrow> string" where
  "nat_digits n = (if n < 10 then [char_of (48 + n)] else nat_digits (n div 10) @ [char_of (48 + n mod 10)])"

declare nat_digits.simps [simp del]

definition int_str :: "int \<Rightarrow> string" where
  "int_str i = (if i < 0 then CHR ''-'' # nat_digits (nat (- i)) else nat_digits (nat i))"

text \<open>Reading the digits back, which shows that distinct numbers are printed differently.\<close>

definition digits_val :: "string \<Rightarrow> nat" where
  "digits_val s = foldl (\<lambda>a c. 10 * a + (of_char c - 48)) 0 s"

lemma digits_val_snoc: "digits_val (s @ [c]) = 10 * digits_val s + (of_char c - 48)"
  by (simp add: digits_val_def)

lemma digits_val_nat_digits: "digits_val (nat_digits n) = n"
proof (induction n rule: nat_digits.induct)
  case (1 n)
  show ?case
  proof (cases "n < 10")
    case True
    then show ?thesis
      by (subst nat_digits.simps) (simp add: digits_val_def)
  next
    case False
    with 1 have "digits_val (nat_digits (n div 10)) = n div 10" by simp
    with False show ?thesis
      by (subst nat_digits.simps) (simp add: digits_val_snoc)
  qed
qed

lemma nat_digits_inject: "nat_digits m = nat_digits n \<Longrightarrow> m = n"
  by (metis digits_val_nat_digits)

lemma nat_digits_are_digits: "\<forall>c \<in> set (nat_digits n). is_digit c"
proof (induction n rule: nat_digits.induct)
  case (1 n)
  show ?case
  proof (cases "n < 10")
    case True
    then show ?thesis by (subst nat_digits.simps) (simp add: is_digit_def)
  next
    case False
    then have "n mod 10 < 10" by simp
    with False 1 show ?thesis
      by (subst nat_digits.simps) (auto simp: is_digit_def)
  qed
qed

lemma colon_not_in_nat_digits: "CHR '':'' \<notin> set (nat_digits n)"
  using nat_digits_are_digits [of n] by (auto simp: is_digit_def)

lemma minus_not_in_nat_digits: "CHR ''-'' \<notin> set (nat_digits n)"
  using nat_digits_are_digits [of n] by (auto simp: is_digit_def)

lemma nat_digits_nonempty [simp]: "nat_digits n \<noteq> []"
  by (subst nat_digits.simps) simp

lemma int_str_inject: "int_str i = int_str j \<Longrightarrow> i = j"
proof -
  assume eq: "int_str i = int_str j"
  have neg: False if "a < 0" "\<not> b < 0" "int_str a = int_str b" for a b :: int
  proof -
    from that have "CHR ''-'' \<in> set (nat_digits (nat b))"
      by (metis int_str_def list.set_intros(1))
    then show False by (simp add: minus_not_in_nat_digits)
  qed
  from eq neg have "(i < 0) = (j < 0)" by metis
  with eq have "nat \<bar>i\<bar> = nat \<bar>j\<bar>"
    by (auto simp: int_str_def split: if_splits dest!: nat_digits_inject)
  with \<open>(i < 0) = (j < 0)\<close> show "i = j" by linarith
qed

lemma colon_not_in_int_str: "CHR '':'' \<notin> set (int_str i)"
  by (simp add: int_str_def colon_not_in_nat_digits)

section \<open>Dynamic values\<close>

text \<open>\<open>Any\<close>: the JSON-like values that flow through the stores, and their truth value.\<close>

datatype pyval = VNone | VBool bool | VInt int | VFloat rat | VStr string
  | VList "pyval list" | VDict "(string \<times> pyval) list"

fun truthy :: "pyval \<Rightarrow> bool" where
  "truthy VNone = False"
| "truthy (VBool b) = b"
| "truthy (VInt i) = (i \<noteq> 0)"
| "truthy (VFloat r) = (r \<noteq> 0)"
| "truthy (VStr s) = (s \<noteq> [])"
| "truthy (VList xs) = (xs \<noteq> [])"
| "truthy (VDict d) = (d \<noteq> [])"

type_synonym meta = "(string, pyval) dict"

text \<open>\<open>bool(meta.get(k))\<close> and \<open>bool(meta.get(k, False))\<close>.\<close>

definition meta_flag :: "meta \<Rightarrow> string \<Rightarrow> bool" where
  "meta_flag m k = (case dget m k of None \<Rightarrow> False | Some v \<Rightarrow> truthy v)"

lemma meta_flag_dset [simp]:
  "meta_flag (dset k v m) k' = (if k = k' then truthy v else meta_flag m k')"
  by (simp add: meta_flag_def)

text \<open>
  \<open>str(v)\<close>. The text of floats, lists and dictionaries is CPython's \<open>repr\<close>, the parameter \<open>rp\<close>.
\<close>

fun py_str :: "(pyval \<Rightarrow> string) \<Rightarrow> pyval \<Rightarrow> string" where
  "py_str rp VNone = ''None''"
| "py_str rp (VBool b) = (if b then ''True'' else ''False'')"
| "py_str rp (VInt i) = int_str i"
| "py_str rp (VStr s) = s"
| "py_str rp v = rp v"

text \<open>\<open>m.get(k)\<close>, where a missing key is \<open>None\<close>, and \<open>a or b\<close>.\<close>

definition meta_get :: "meta \<Rightarrow> string \<Rightarrow> pyval" where
  "meta_get m k = dget_default m k VNone"

definition py_or :: "pyval \<Rightarrow> pyval \<Rightarrow> pyval" where
  "py_or a b = (if truthy a then a else b)"

lemma meta_flag_get: "meta_flag m k = truthy (meta_get m k)"
  by (simp add: meta_flag_def meta_get_def dget_default_def split: option.splits)

section \<open>Clamping confidences\<close>

text \<open>
  The argument of \<open>float(val)\<close> in \<open>clamp_conf\<close>: \<open>None\<close>, a number, an infinity, a NaN, or a value
  for which \<open>float\<close> raises \<open>TypeError\<close> or \<open>ValueError\<close>.
\<close>

datatype float_arg = FNone | FNum rat | FPosInf | FNegInf | FNaN | FInvalid

fun clamp_conf :: "float_arg \<Rightarrow> rat" where
  "clamp_conf FNone = max 0 (min 1 1)"
| "clamp_conf (FNum r) = max 0 (min 1 r)"
| "clamp_conf FPosInf = max 0 1"
| "clamp_conf FNegInf = max 0 0"
| "clamp_conf FNaN = max 0 (min 1 1)"
| "clamp_conf FInvalid = max 0 (min 1 1)"

lemma clamp_conf_range: "0 \<le> clamp_conf v \<and> clamp_conf v \<le> 1"
  by (cases v) auto

lemma clamp_conf_id: "0 \<le> r \<Longrightarrow> r \<le> 1 \<Longrightarrow> clamp_conf (FNum r) = r"
  by simp

lemma clamp_conf_idem: "clamp_conf (FNum (clamp_conf v)) = clamp_conf v"
  using clamp_conf_range [of v] by simp

text \<open>Pages of a list.\<close>

lemma concat_pages: "concat (map (\<lambda>i. take n (drop (i * n) xs)) [0..<m]) = take (m * n) xs"
proof (induction m)
  case (Suc m)
  then show ?case by (simp add: take_add [of "m * n" n xs, symmetric] add.commute)
qed simp

text \<open>An order of sets, as \<open>for x in s\<close> has some: it lists every element once.\<close>

definition lists_sets :: "(string set \<Rightarrow> string list) \<Rightarrow> bool" where
  "lists_sets order \<longleftrightarrow> (\<forall>S. finite S \<longrightarrow> set (order S) = S \<and> distinct (order S))"

lemma lists_sets_sorted: "lists_sets sorted_list_of_set"
  by (simp add: lists_sets_def)

text \<open>The key under which the vector index and the graph know a fact (\<open>normalize_upsert_key\<close>).\<close>

definition normalize_upsert_key :: "string \<Rightarrow> string" where
  "normalize_upsert_key k =
     (let s = py_strip k in if starts_with s ''kv:'' then py_strip (drop 3 s) else s)"

end
