(* ===== verification/Json.thy ===== *)
theory Json
  imports Prelude
begin

text \<open>
  \<open>json.dumps\<close> and \<open>json.loads\<close> as the stores use them (\<open>ensure_ascii\<close>, default separators,
  strict parsing). Texts that are parsed are lists of code points (\<open>ustr\<close>), since the program
  rewrites them character by character first; a parsed string is put back into UTF-8, with lone
  surrogates encoded in three bytes. The text of a float is \<open>float.__repr__\<close>, the parameter \<open>fr\<close>,
  and \<open>float(text)\<close> the parameter \<open>fp\<close>.
\<close>

type_synonym ustr = "nat list"

section \<open>UTF-8\<close>

fun utf8_decode :: "nat list \<Rightarrow> ustr" where
  "utf8_decode [] = []"
| "utf8_decode (a # bs) =
     (if a < 128 then a # utf8_decode bs
      else if a < 224 then
        (case bs of b # cs \<Rightarrow> ((a - 192) * 64 + (b - 128)) # utf8_decode cs | _ \<Rightarrow> [])
      else if a < 240 then
        (case bs of b # c # cs \<Rightarrow> ((a - 224) * 4096 + (b - 128) * 64 + (c - 128)) # utf8_decode cs
         | _ \<Rightarrow> [])
      else
        (case bs of b # c # d # cs \<Rightarrow>
             ((a - 240) * 262144 + (b - 128) * 4096 + (c - 128) * 64 + (d - 128)) # utf8_decode cs
         | _ \<Rightarrow> []))"

definition utf8_char :: "nat \<Rightarrow> nat list" where
  "utf8_char n =
     (if n < 128 then [n]
      else if n < 2048 then [192 + n div 64, 128 + n mod 64]
      else if n < 65536 then [224 + n div 4096, 128 + n div 64 mod 64, 128 + n mod 64]
      else [240 + n div 262144, 128 + n div 4096 mod 64, 128 + n div 64 mod 64, 128 + n mod 64])"

definition to_ustr :: "string \<Rightarrow> ustr" where
  "to_ustr s = utf8_decode (map of_char s)"

definition of_ustr :: "ustr \<Rightarrow> string" where
  "of_ustr u = map char_of (concat (map utf8_char u))"

lemma utf8_decode_char:
  assumes "n < 1114112"
  shows "utf8_decode (utf8_char n @ bs) = n # utf8_decode bs"
proof -
  define x y z where "x = n div 64" and "y = x div 64" and "z = y div 64"
  have e: "n div 4096 = y" "n div 262144 = z" "n div 64 = x"
    by (simp_all add: x_def y_def z_def div_mult2_eq [symmetric])
  have d: "n = 64 * x + n mod 64" "x = 64 * y + x mod 64" "y = 64 * z + y mod 64"
    by (simp_all add: x_def y_def z_def)
  consider "n < 128" | "128 \<le> n" "n < 2048" | "2048 \<le> n" "n < 65536" | "65536 \<le> n" by linarith
  then show ?thesis
  proof cases
    case 2
    with d have "x < 32" by linarith
    with 2 d show ?thesis by (simp add: utf8_char_def e)
  next
    case 3
    with d have "y < 16" by linarith
    with 3 d show ?thesis by (simp add: utf8_char_def e)
  next
    case 4
    with d assms have "z < 5" by linarith
    with 4 d show ?thesis by (simp add: utf8_char_def e)
  qed (simp add: utf8_char_def)
qed

lemma to_of_ustr: "\<forall>n \<in> set u. n < 1114112 \<Longrightarrow> to_ustr (of_ustr u) = u"
proof -
  have small: "x < 256" if "n < 1114112" "x \<in> set (utf8_char n)" for n x
    using that by (auto simp: utf8_char_def split: if_splits)
  assume u: "\<forall>n \<in> set u. n < 1114112"
  then have "\<forall>b \<in> set (concat (map utf8_char u)). b < 256" by (auto dest: small)
  then have "map of_char (of_ustr u) = concat (map utf8_char u)"
    unfolding of_ustr_def map_map by (intro map_idI) (force intro: mod_less)
  moreover have "utf8_decode (concat (map utf8_char u)) = u"
    using u by (induction u) (simp_all add: utf8_decode_char)
  ultimately show ?thesis by (simp add: to_ustr_def)
qed

section \<open>Printing\<close>

definition hex_digit :: "nat \<Rightarrow> char" where
  "hex_digit d = (if d < 10 then char_of (48 + d) else char_of (87 + d))"

definition u_escape :: "nat \<Rightarrow> string" where
  "u_escape n = [CHR 0x5C, CHR ''u'', hex_digit (n div 4096), hex_digit (n div 256 mod 16),
     hex_digit (n div 16 mod 16), hex_digit (n mod 16)]"

definition json_escape_char :: "nat \<Rightarrow> string" where
  "json_escape_char n =
     (if n = 34 then [CHR 0x5C, CHR 0x22]
      else if n = 92 then [CHR 0x5C, CHR 0x5C]
      else if n = 10 then [CHR 0x5C, CHR ''n'']
      else if n = 13 then [CHR 0x5C, CHR ''r'']
      else if n = 9 then [CHR 0x5C, CHR ''t'']
      else if n = 12 then [CHR 0x5C, CHR ''f'']
      else if n = 8 then [CHR 0x5C, CHR ''b'']
      else if 32 \<le> n \<and> n \<le> 126 then [char_of n]
      else if n < 65536 then u_escape n
      else u_escape (55296 + (n - 65536) div 1024) @ u_escape (56320 + (n - 65536) mod 1024))"

definition json_quote :: "string \<Rightarrow> string" where
  "json_quote s = [CHR 0x22] @ concat (map json_escape_char (to_ustr s)) @ [CHR 0x22]"

fun json_dumps :: "(rat \<Rightarrow> string) \<Rightarrow> pyval \<Rightarrow> string"
  and json_items :: "(rat \<Rightarrow> string) \<Rightarrow> pyval list \<Rightarrow> string list"
  and json_members :: "(rat \<Rightarrow> string) \<Rightarrow> (string \<times> pyval) list \<Rightarrow> string list" where
  "json_dumps fr VNone = ''null''"
| "json_dumps fr (VBool b) = (if b then ''true'' else ''false'')"
| "json_dumps fr (VInt i) = int_str i"
| "json_dumps fr (VFloat r) = fr r"
| "json_dumps fr (VStr s) = json_quote s"
| "json_dumps fr (VList xs) = ''['' @ py_join '', '' (json_items fr xs) @ '']''"
| "json_dumps fr (VDict d) = ''{'' @ py_join '', '' (json_members fr d) @ ''}''"
| "json_items fr [] = []"
| "json_items fr (x # xs) = json_dumps fr x # json_items fr xs"
| "json_members fr [] = []"
| "json_members fr ((k, v) # d) = (json_quote k @ '': '' @ json_dumps fr v) # json_members fr d"

text \<open>The argument \<open>sort_keys=True\<close>: every dictionary in the value is printed in the order of its keys.\<close>

fun sort_keys :: "pyval \<Rightarrow> pyval"
  and sort_keys_items :: "pyval list \<Rightarrow> pyval list"
  and sort_keys_members :: "(string \<times> pyval) list \<Rightarrow> (string \<times> pyval) list" where
  "sort_keys (VList xs) = VList (sort_keys_items xs)"
| "sort_keys (VDict d) = VDict (sort_key fst (sort_keys_members d))"
| "sort_keys v = v"
| "sort_keys_items [] = []"
| "sort_keys_items (x # xs) = sort_keys x # sort_keys_items xs"
| "sort_keys_members [] = []"
| "sort_keys_members ((k, v) # d) = (k, sort_keys v) # sort_keys_members d"

section \<open>Parsing\<close>

definition is_json_space :: "nat \<Rightarrow> bool" where
  "is_json_space c \<longleftrightarrow> c \<in> {32, 9, 10, 13}"

definition skip_space :: "ustr \<Rightarrow> ustr" where
  "skip_space s = dropWhile is_json_space s"

definition hex_val :: "nat \<Rightarrow> nat option" where
  "hex_val c =
     (if 48 \<le> c \<and> c \<le> 57 then Some (c - 48)
      else if 97 \<le> c \<and> c \<le> 102 then Some (c - 87)
      else if 65 \<le> c \<and> c \<le> 70 then Some (c - 55)
      else None)"

fun hex4 :: "ustr \<Rightarrow> nat option" where
  "hex4 (a # b # c # d # s) =
     (case (hex_val a, hex_val b, hex_val c, hex_val d) of
        (Some a', Some b', Some c', Some d') \<Rightarrow> Some (a' * 4096 + b' * 256 + c' * 16 + d')
      | _ \<Rightarrow> None)"
| "hex4 _ = None"

definition simple_escape :: "nat \<Rightarrow> nat option" where
  "simple_escape c =
     (if c = 34 \<or> c = 92 \<or> c = 47 then Some c
      else if c = 98 then Some 8 else if c = 102 then Some 12 else if c = 110 then Some 10
      else if c = 114 then Some 13 else if c = 116 then Some 9 else None)"

text \<open>The code point of an escape \<open>\uXXXX\<close>, joined with a second one into a pair, and how much it took.\<close>

definition unicode_escape :: "ustr \<Rightarrow> (nat \<times> nat) option" where
  "unicode_escape s =
     (case hex4 s of
        None \<Rightarrow> None
      | Some hi \<Rightarrow>
          if 55296 \<le> hi \<and> hi \<le> 56319 \<and> take 2 (drop 4 s) = [92, 117] then
            (case hex4 (drop 6 s) of
               None \<Rightarrow> None
             | Some lo \<Rightarrow>
                 if 56320 \<le> lo \<and> lo \<le> 57343
                 then Some (65536 + (hi - 55296) * 1024 + (lo - 56320), 10)
                 else Some (hi, 4))
          else Some (hi, 4))"

function scan_string :: "ustr \<Rightarrow> (ustr \<times> ustr) option" where
  "scan_string [] = None"
| "scan_string (c # cs) =
     (if c = 34 then Some ([], cs)
      else if c = 92 then
        (case cs of
           [] \<Rightarrow> None
         | e # es \<Rightarrow>
             if e = 117 then
               (case unicode_escape es of
                  None \<Rightarrow> None
                | Some (n, k) \<Rightarrow>
                    map_option (\<lambda>(t, rest). (n # t, rest)) (scan_string (drop k es)))
             else
               (case simple_escape e of
                  None \<Rightarrow> None
                | Some n \<Rightarrow> map_option (\<lambda>(t, rest). (n # t, rest)) (scan_string es)))
      else if c < 32 then None
      else map_option (\<lambda>(t, rest). (c # t, rest)) (scan_string cs))"
  by pat_completeness auto
termination by (relation "measure length") auto

definition is_udigit :: "nat \<Rightarrow> bool" where
  "is_udigit c \<longleftrightarrow> 48 \<le> c \<and> c \<le> 57"

definition udigits_val :: "ustr \<Rightarrow> int" where
  "udigits_val s = foldl (\<lambda>a c. 10 * a + (int c - 48)) 0 s"

text \<open>\<open>(-?(?:0|[1-9]\d*))(\.\d+)?([eE][-+]?\d+)?\<close> at the start of the text.\<close>

definition frac_part :: "ustr \<Rightarrow> nat" where
  "frac_part s =
     (let ds = takeWhile is_udigit (tl s) in if s \<noteq> [] \<and> hd s = 46 \<and> ds \<noteq> [] then Suc (length ds) else 0)"

definition exp_part :: "ustr \<Rightarrow> nat" where
  "exp_part s =
     (let sg = (if tl s \<noteq> [] \<and> hd (tl s) \<in> {43, 45} then 1 else 0);
          ds = takeWhile is_udigit (drop (Suc sg) s)
      in if s \<noteq> [] \<and> hd s \<in> {101, 69} \<and> ds \<noteq> [] then Suc sg + length ds else 0)"

definition scan_number :: "(ustr \<Rightarrow> rat) \<Rightarrow> ustr \<Rightarrow> (pyval \<times> ustr) option" where
  "scan_number fp s =
     (let sg = (if s \<noteq> [] \<and> hd s = 45 then 1 else 0);
          ds = takeWhile is_udigit (drop sg s);
          n = (if ds \<noteq> [] \<and> hd ds = 48 then 1 else length ds);
          rest = drop (sg + n) s;
          f = frac_part rest;
          e = exp_part (drop f rest)
      in if n = 0 then None
         else if f = 0 \<and> e = 0
         then Some (VInt ((if sg = 1 then -1 else 1) * udigits_val (take n ds)), rest)
         else Some (VFloat (fp (take (sg + n + f + e) s)), drop (f + e) rest))"

definition lit :: "string \<Rightarrow> ustr" where
  "lit s = map of_char s"

definition has_lit :: "string \<Rightarrow> ustr \<Rightarrow> bool" where
  "has_lit p s \<longleftrightarrow> take (length p) s = lit p"

text \<open>
  Every call gets one unit of fuel less than its caller; each consumes at least one character, so
  \<open>length s\<close> units suffice. \<open>NaN\<close> and the infinities, which are no values of the model, are
  rejected.
\<close>

fun parse_value :: "(ustr \<Rightarrow> rat) \<Rightarrow> nat \<Rightarrow> ustr \<Rightarrow> (pyval \<times> ustr) option"
  and parse_items :: "(ustr \<Rightarrow> rat) \<Rightarrow> nat \<Rightarrow> ustr \<Rightarrow> (pyval list \<times> ustr) option"
  and parse_members ::
    "(ustr \<Rightarrow> rat) \<Rightarrow> nat \<Rightarrow> ustr \<Rightarrow> (string, pyval) dict \<Rightarrow> ((string, pyval) dict \<times> ustr) option" where
  "parse_value fp 0 s = None"
| "parse_value fp (Suc n) s =
     (case s of
        [] \<Rightarrow> None
      | c # cs \<Rightarrow>
          if c = 34 then map_option (\<lambda>(t, rest). (VStr (of_ustr t), rest)) (scan_string cs)
          else if c = 123 then
            (case skip_space cs of
               [] \<Rightarrow> None
             | d # ds \<Rightarrow>
                 if d = 125 then Some (VDict [], ds)
                 else map_option (\<lambda>(m, rest). (VDict m, rest)) (parse_members fp n (d # ds) []))
          else if c = 91 then
            (case skip_space cs of
               [] \<Rightarrow> None
             | d # ds \<Rightarrow>
                 if d = 93 then Some (VList [], ds)
                 else map_option (\<lambda>(xs, rest). (VList xs, rest)) (parse_items fp n (d # ds)))
          else if has_lit ''null'' s then Some (VNone, drop 4 s)
          else if has_lit ''true'' s then Some (VBool True, drop 4 s)
          else if has_lit ''false'' s then Some (VBool False, drop 5 s)
          else scan_number fp s)"
| "parse_items fp 0 s = None"
| "parse_items fp (Suc n) s =
     (case parse_value fp n s of
        None \<Rightarrow> None
      | Some (v, r) \<Rightarrow>
          (case skip_space r of
             [] \<Rightarrow> None
           | c # cs \<Rightarrow>
               if c = 93 then Some ([v], cs)
               else if c = 44
               then map_option (\<lambda>(vs, rest). (v # vs, rest)) (parse_items fp n (skip_space cs))
               else None))"
| "parse_members fp 0 s acc = None"
| "parse_members fp (Suc n) s acc =
     (case s of
        [] \<Rightarrow> None
      | q # qs \<Rightarrow>
          if q \<noteq> 34 then None
          else case scan_string qs of
              None \<Rightarrow> None
            | Some (k, r) \<Rightarrow>
                (case skip_space r of
                   [] \<Rightarrow> None
                 | c # cs \<Rightarrow>
                     if c \<noteq> 58 then None
                     else case parse_value fp n (skip_space cs) of
                         None \<Rightarrow> None
                       | Some (v, r') \<Rightarrow>
                           (case skip_space r' of
                              [] \<Rightarrow> None
                            | d # ds \<Rightarrow>
                                if d = 125 then Some (dset (of_ustr k) v acc, ds)
                                else if d = 44
                                then parse_members fp n (skip_space ds) (dset (of_ustr k) v acc)
                                else None)))"

definition json_loads :: "(ustr \<Rightarrow> rat) \<Rightarrow> ustr \<Rightarrow> pyval option" where
  "json_loads fp s =
     (case parse_value fp (Suc (length s)) (skip_space s) of
        None \<Rightarrow> None
      | Some (v, rest) \<Rightarrow> if skip_space rest = [] then Some v else None)"

end
