(* ===== verification/AuditLedger.thy ===== *)
theory AuditLedger
  imports Sha256 Json
begin

text \<open>
  The hash-chained audit ledger of \<open>l2_semantic/repositories/audit_repository.py\<close>.

  \<open>db\<close> is what the program keeps in SQLite. \<open>state_audit_log\<close> has an integer primary key, so the
  table is the list of its rows in the order of \<open>seq\<close> (\<open>ORDER BY seq ASC\<close> is the list itself, and
  \<open>wf_log\<close> says that it is one). \<open>audit_redactions\<close> is a dictionary by \<open>seq\<close>, \<open>state_variables\<close>
  a dictionary by \<open>key\<close>: an upsert of a present key keeps the row's place, as it does in a
  rowid table. The connection is opened with \<open>autocommit=True\<close>, where the statement
  \<open>with conn:\<close> has no effect: every SQL statement commits by itself.

  The theorems show that appending keeps a valid chain valid, that a valid chain with the same
  tip is the same chain or exhibits a collision of SHA-256, what redaction and healing preserve,
  and which changes the verification does not see.
\<close>

section \<open>Tables\<close>

record audit_row =
  a_seq :: int
  a_timestamp :: rat
  a_key :: string
  a_value_hash :: string
  a_prev_hash :: string
  a_entry_hash :: string
  a_new_value :: "string option"
  a_confidence :: float_arg
  a_reason :: string

record redaction =
  r_key :: string
  r_value_hash :: string
  r_reason :: string
  r_created_at :: rat

record state_row =
  s_value :: string
  s_confidence :: rat
  s_timestamp :: rat
  s_metadata :: "string option"
  s_value_hash :: "string option"

record db =
  audit_log :: "audit_row list"
  redactions :: "(int, redaction) dict"
  state_vars :: "(string, state_row) dict"

record audit_cols =
  has_new_value :: bool
  has_confidence :: bool

datatype db_error = IntegrityError

definition wf_log :: "audit_row list \<Rightarrow> bool" where
  "wf_log rows \<longleftrightarrow> sorted_wrt (<) (map a_seq rows)"

definition wf_db :: "db \<Rightarrow> bool" where
  "wf_db d \<longleftrightarrow> wf_log (audit_log d) \<and> wf_dict (redactions d) \<and> wf_dict (state_vars d)"

definition zeros64 :: string where
  "zeros64 = replicate 64 CHR ''0''"

definition redaction_marker_prefix :: string where
  "redaction_marker_prefix = ''[REDACTED-''"

section \<open>Appending\<close>

text \<open>\<open>f"{seq}:{timestamp}:{key}:{value_hash}:{prev_hash}"\<close>, where \<open>fr\<close> is the text of a float.\<close>

definition entry_payload :: "(rat \<Rightarrow> string) \<Rightarrow> int \<Rightarrow> rat \<Rightarrow> string \<Rightarrow> string \<Rightarrow> string \<Rightarrow> string" where
  "entry_payload fr seq timestamp key value_hash prev_hash =
     int_str seq @ '':'' @ fr timestamp @ '':'' @ key @ '':'' @ value_hash @ '':'' @ prev_hash"

definition compute_entry_hash ::
  "(rat \<Rightarrow> string) \<Rightarrow> int \<Rightarrow> rat \<Rightarrow> string \<Rightarrow> string \<Rightarrow> string \<Rightarrow> string" where
  "compute_entry_hash fr seq timestamp key value_hash prev_hash =
     sha256 (entry_payload fr seq timestamp key value_hash prev_hash)"

definition get_last_entry :: "db \<Rightarrow> int \<times> string" where
  "get_last_entry d =
     (if audit_log d \<noteq> [] \<and> a_entry_hash (last (audit_log d)) \<noteq> []
      then (a_seq (last (audit_log d)) + 1, a_entry_hash (last (audit_log d)))
      else (1, zeros64))"

definition insert_audit_entry :: "audit_cols \<Rightarrow> audit_row \<Rightarrow> db \<Rightarrow> db_error + db" where
  "insert_audit_entry cols row d =
     (if a_seq row \<in> a_seq ` set (audit_log d) then Inl IntegrityError
      else
        let row' = (if has_new_value cols then row
                    else row\<lparr>a_new_value := None, a_confidence := FNum 1, a_reason := ''update''\<rparr>)
        in Inr (d\<lparr>audit_log := insort_key a_seq row' (audit_log d)\<rparr>))"

text \<open>The dictionary given to \<open>append_audit_log\<close>; \<open>None\<close> is an absent key, and a value of \<open>None\<close> is absent too.\<close>

record audit_entry =
  n_timestamp :: "rat option"
  n_key :: "string option"
  n_value :: pyval
  n_value_hash :: "string option"
  n_confidence :: "rat option"
  n_reason :: "string option"

definition opt_or :: "'a option \<Rightarrow> 'a \<Rightarrow> 'a" where
  "opt_or x v = (case x of None \<Rightarrow> v | Some y \<Rightarrow> y)"

definition sorted_json :: "(rat \<Rightarrow> string) \<Rightarrow> pyval \<Rightarrow> string" where
  "sorted_json fr v = (if v = VNone then [] else json_dumps fr (sort_keys v))"

definition append_audit_log ::
  "(rat \<Rightarrow> string) \<Rightarrow> rat \<Rightarrow> audit_cols \<Rightarrow> audit_entry \<Rightarrow> db \<Rightarrow> db_error + db \<times> string" where
  "append_audit_log fr clock cols entry d =
     (let (next_seq, prev_h) = get_last_entry d;
          now = opt_or (n_timestamp entry) clock;
          key = opt_or (n_key entry) [];
          raw_val = n_value entry;
          value_hash = (case n_value_hash entry of
              Some h \<Rightarrow> h
            | None \<Rightarrow> sha256 (sorted_json fr raw_val));
          entry_hash = compute_entry_hash fr next_seq now key value_hash prev_h;
          val_json = sorted_json fr raw_val
      in case insert_audit_entry cols
                \<lparr>a_seq = next_seq, a_timestamp = now, a_key = key, a_value_hash = value_hash,
                 a_prev_hash = prev_h, a_entry_hash = entry_hash, a_new_value = Some val_json,
                 a_confidence = FNum (opt_or (n_confidence entry) 1),
                 a_reason = opt_or (n_reason entry) ''append_audit''\<rparr> d of
           Inl err \<Rightarrow> Inl err
         | Inr d' \<Rightarrow> Inr (d', entry_hash))"

section \<open>Redaction\<close>

definition redaction_is_authorized :: "db \<Rightarrow> int \<Rightarrow> string \<Rightarrow> string \<Rightarrow> bool" where
  "redaction_is_authorized d seq key value_hash =
     (case dget (redactions d) seq of
        None \<Rightarrow> False
      | Some r \<Rightarrow> r_key r = key \<and> r_value_hash r = value_hash)"

datatype redaction_result = EmptyReason | InvalidMarker | EntryNotFound | RedactionOk

text \<open>\<open>INSERT OR IGNORE\<close>: a registration of a known \<open>seq\<close> changes nothing and still answers \<open>ok\<close>.\<close>

definition authorize_redaction ::
  "rat \<Rightarrow> int \<Rightarrow> string \<Rightarrow> string \<Rightarrow> string \<Rightarrow> db \<Rightarrow> db \<times> redaction_result" where
  "authorize_redaction now seq key value_hash reason d =
     (if py_strip reason = [] then (d, EmptyReason)
      else
        (if seq \<in> set (dkeys (redactions d)) then d
         else d\<lparr>redactions := dset seq \<lparr>r_key = key, r_value_hash = value_hash, r_reason = reason,
                                      r_created_at = now\<rparr> (redactions d)\<rparr>, RedactionOk))"

definition set_new_value :: "int \<Rightarrow> string \<Rightarrow> audit_row list \<Rightarrow> audit_row list" where
  "set_new_value seq v rows = map (\<lambda>r. if a_seq r = seq then r\<lparr>a_new_value := Some v\<rparr> else r) rows"

text \<open>\<open>today\<close> is \<open>time.strftime('%Y-%m-%d')\<close>. \<open>INSERT OR REPLACE\<close> deletes the old row first.\<close>

definition redact_audit_entry ::
  "rat \<Rightarrow> string \<Rightarrow> int \<Rightarrow> string \<Rightarrow> string option \<Rightarrow> db \<Rightarrow> db \<times> redaction_result" where
  "redact_audit_entry now today seq reason redacted_value d =
     (let marker = (case redacted_value of
          Some v \<Rightarrow> v
        | None \<Rightarrow> redaction_marker_prefix @ reason @ '' '' @ today) in
      if \<not> starts_with marker redaction_marker_prefix then (d, InvalidMarker)
      else if py_strip reason = [] then (d, EmptyReason)
      else case filter (\<lambda>r. a_seq r = seq) (audit_log d) of
          [] \<Rightarrow> (d, EntryNotFound)
        | row # _ \<Rightarrow>
            (let d1 = d\<lparr>audit_log := set_new_value seq marker (audit_log d)\<rparr>;
                 d2 = d1\<lparr>redactions := dset (a_seq row)
                        \<lparr>r_key = a_key row, r_value_hash = a_value_hash row, r_reason = reason,
                         r_created_at = now\<rparr> (ddel (a_seq row) (redactions d1))\<rparr>
             in (d2, RedactionOk)))"

section \<open>Verification\<close>

definition deleted_json :: string where
  "deleted_json = [CHR 0x22] @ ''__DELETED__'' @ [CHR 0x22]"

text \<open>\<open>nv_raw.strip('"')\<close>.\<close>

definition strip_quotes :: "string \<Rightarrow> string" where
  "strip_quotes s = rev (dropWhile (\<lambda>c. c = CHR 0x22) (rev (dropWhile (\<lambda>c. c = CHR 0x22) s)))"

definition value_accepted :: "db \<Rightarrow> audit_row \<Rightarrow> bool" where
  "value_accepted d row =
     (case a_new_value row of
        None \<Rightarrow> True
      | Some nv_raw \<Rightarrow>
          let calc_val_h = sha256 nv_raw; val_h = a_value_hash row in
          if calc_val_h \<noteq> val_h then
            let is_legacy_tombstone =
                  strip_quotes nv_raw = ''__DELETED__''
                  \<and> val_h \<in> {sha256 ''__DELETED__'', sha256 deleted_json};
                is_security_redaction = starts_with nv_raw redaction_marker_prefix
            in is_legacy_tombstone
               \<or> is_security_redaction \<and> redaction_is_authorized d (a_seq row) (a_key row) val_h
          else True)"

fun verify_rows ::
  "(rat \<Rightarrow> string) \<Rightarrow> audit_cols \<Rightarrow> bool \<Rightarrow> db \<Rightarrow> audit_row list \<Rightarrow> string \<Rightarrow> bool \<times> int \<times> string" where
  "verify_rows fr cols deep d [] expected_prev = (True, 0, expected_prev)"
| "verify_rows fr cols deep d (row # rows) expected_prev =
     (if a_prev_hash row \<noteq> expected_prev then (False, a_seq row, expected_prev)
      else if deep \<and> has_new_value cols \<and> \<not> value_accepted d row then (False, a_seq row, expected_prev)
      else if compute_entry_hash fr (a_seq row) (a_timestamp row) (a_key row) (a_value_hash row)
                (a_prev_hash row) \<noteq> a_entry_hash row
      then (False, a_seq row, expected_prev)
      else verify_rows fr cols deep d rows (a_entry_hash row))"

definition latest_audit :: "db \<Rightarrow> string \<Rightarrow> audit_row option" where
  "latest_audit d k =
     (case rev (filter (\<lambda>r. a_key r = k) (audit_log d)) of [] \<Rightarrow> None | r # _ \<Rightarrow> Some r)"

fun verify_states :: "db \<Rightarrow> (string, state_row) dict \<Rightarrow> int option" where
  "verify_states d [] = None"
| "verify_states d ((k, sv) # svs) =
     (case s_value_hash sv of
        None \<Rightarrow> verify_states d svs
      | Some sv_h \<Rightarrow>
          if sv_h = [] then verify_states d svs
          else if sha256 (s_value sv) \<noteq> sv_h then Some (-1)
          else case latest_audit d k of
              None \<Rightarrow> verify_states d svs
            | Some r \<Rightarrow>
                if a_reason r = ''delete'' then Some (a_seq r)
                else if a_value_hash r \<noteq> sv_h then Some (a_seq r)
                else verify_states d svs)"

definition verify_audit_log ::
  "(rat \<Rightarrow> string) \<Rightarrow> audit_cols \<Rightarrow> bool \<Rightarrow> db \<Rightarrow> bool \<times> int \<times> string" where
  "verify_audit_log fr cols deep d =
     (let (ok, seq, expected_prev) = verify_rows fr cols deep d (audit_log d) zeros64 in
      if \<not> ok then (False, seq, expected_prev)
      else if deep then
        (case verify_states d (state_vars d) of
           Some s \<Rightarrow> (False, s, expected_prev)
         | None \<Rightarrow> (True, 0, expected_prev))
      else (True, 0, expected_prev))"

section \<open>Healing\<close>

fun heal_rows :: "(rat \<Rightarrow> string) \<Rightarrow> bool \<Rightarrow> audit_row list \<Rightarrow> string \<Rightarrow> audit_row list \<times> string" where
  "heal_rows fr hc [] expected_prev = ([], expected_prev)"
| "heal_rows fr hc (row # rows) expected_prev =
     (let entry_h = compute_entry_hash fr (a_seq row) (a_timestamp row) (a_key row) (a_value_hash row)
                      expected_prev;
          row1 = row\<lparr>a_prev_hash := expected_prev, a_entry_hash := entry_h\<rparr>;
          row2 = (if hc then row1\<lparr>a_confidence := FNum (clamp_conf (a_confidence row))\<rparr> else row1);
          (rest, last_h) = heal_rows fr hc rows entry_h
      in (row2 # rest, last_h))"

definition clamp_state_row :: "state_row \<Rightarrow> state_row" where
  "clamp_state_row sv =
     (let sv1 = (if s_confidence sv > 1 then sv\<lparr>s_confidence := 1\<rparr> else sv)
      in if s_confidence sv1 < 0 then sv1\<lparr>s_confidence := 0\<rparr> else sv1)"

definition heal_audit_log_chain ::
  "(rat \<Rightarrow> string) \<Rightarrow> audit_cols \<Rightarrow> db \<Rightarrow> db \<times> nat \<times> bool \<times> string" where
  "heal_audit_log_chain fr cols d =
     (let (rows, last_h) = heal_rows fr (has_confidence cols) (audit_log d) zeros64 in
      (d\<lparr>audit_log := rows, state_vars := map (\<lambda>(k, sv). (k, clamp_state_row sv)) (state_vars d)\<rparr>,
       length (audit_log d), True, last_h))"

definition count_audit_entries :: "db \<Rightarrow> nat" where
  "count_audit_entries d = length (audit_log d)"

text \<open>
  What \<open>init_schema\<close> does to the rows: when the redaction registry did not exist, every entry that
  carries a redaction marker (\<open>LIKE\<close> ignores the case of ASCII letters) is registered; then the
  tip is read.
\<close>

definition legacy_redactions :: "audit_row list \<Rightarrow> (int, redaction) dict" where
  "legacy_redactions rows =
     map (\<lambda>r. (a_seq r, \<lparr>r_key = a_key r, r_value_hash = a_value_hash r,
                r_reason = ''grandfathered-pre-registry-v87'', r_created_at = a_timestamp r\<rparr>))
       (filter (\<lambda>r. case a_new_value r of None \<Rightarrow> False
                  | Some v \<Rightarrow> starts_with (py_lower v) (py_lower redaction_marker_prefix)) rows)"

definition init_audit :: "bool \<Rightarrow> db \<Rightarrow> db \<times> string" where
  "init_audit registry_preexisting d =
     (let d1 = (if registry_preexisting then d
                else d\<lparr>redactions := legacy_redactions (audit_log d)\<rparr>);
          prev_hash = (if audit_log d1 \<noteq> [] \<and> a_entry_hash (last (audit_log d1)) \<noteq> []
                       then a_entry_hash (last (audit_log d1)) else zeros64)
      in (d1, prev_hash))"

section \<open>The chain\<close>

definition row_payload :: "(rat \<Rightarrow> string) \<Rightarrow> audit_row \<Rightarrow> string" where
  "row_payload fr r =
     entry_payload fr (a_seq r) (a_timestamp r) (a_key r) (a_value_hash r) (a_prev_hash r)"

fun linked :: "(rat \<Rightarrow> string) \<Rightarrow> string \<Rightarrow> audit_row list \<Rightarrow> bool" where
  "linked fr p [] = True"
| "linked fr p (r # rs) =
     (a_prev_hash r = p \<and> a_entry_hash r = sha256 (row_payload fr r) \<and> linked fr (a_entry_hash r) rs)"

definition chain_tip :: "string \<Rightarrow> audit_row list \<Rightarrow> string" where
  "chain_tip p rs = (if rs = [] then p else a_entry_hash (last rs))"

named_theorems chain_simps \<open>links and tips of ledgers\<close>

lemma chain_tip_simps [chain_simps]:
  "chain_tip p [] = p" "chain_tip p (r # rs) = chain_tip (a_entry_hash r) rs"
  "chain_tip p (rs @ [r]) = a_entry_hash r"
  by (simp_all add: chain_tip_def)

lemma linked_snoc [chain_simps]:
  "linked fr p (rs @ [r]) \<longleftrightarrow>
     linked fr p rs \<and> a_prev_hash r = chain_tip p rs \<and> a_entry_hash r = sha256 (row_payload fr r)"
  by (induction rs arbitrary: p) (auto simp: chain_simps)

lemma linked_append:
  "linked fr p (rs @ ss) \<longleftrightarrow> linked fr p rs \<and> linked fr (chain_tip p rs) ss"
  by (induction rs arbitrary: p) (auto simp: chain_simps)

lemma verify_rows_iff:
  "verify_rows fr cols deep d rows p = (True, n, t) \<longleftrightarrow>
     linked fr p rows \<and> n = 0 \<and> t = chain_tip p rows
     \<and> (deep \<and> has_new_value cols \<longrightarrow> (\<forall>r \<in> set rows. value_accepted d r))"
  by (induction rows arbitrary: p)
    (auto simp: chain_simps row_payload_def compute_entry_hash_def)

lemma verify_shallow_iff:
  "verify_audit_log fr cols False d = (True, n, t) \<longleftrightarrow>
     linked fr zeros64 (audit_log d) \<and> n = 0 \<and> t = chain_tip zeros64 (audit_log d)"
proof -
  obtain ok s e where v: "verify_rows fr cols False d (audit_log d) zeros64 = (ok, s, e)"
    by (metis prod_cases3)
  show ?thesis
    using verify_rows_iff [of fr cols False d "audit_log d" zeros64 s e]
      verify_rows_iff [of fr cols False d "audit_log d" zeros64 n t] v
    by (cases ok) (auto simp: verify_audit_log_def v)
qed

lemma verify_deep_iff:
  "verify_audit_log fr cols True d = (True, n, t) \<longleftrightarrow>
     linked fr zeros64 (audit_log d) \<and> n = 0 \<and> t = chain_tip zeros64 (audit_log d)
     \<and> (has_new_value cols \<longrightarrow> (\<forall>r \<in> set (audit_log d). value_accepted d r))
     \<and> verify_states d (state_vars d) = None"
proof -
  obtain ok s e where v: "verify_rows fr cols True d (audit_log d) zeros64 = (ok, s, e)"
    by (metis prod_cases3)
  show ?thesis
    using verify_rows_iff [of fr cols True d "audit_log d" zeros64 s e]
      verify_rows_iff [of fr cols True d "audit_log d" zeros64 n t] v
    by (cases ok) (auto simp: verify_audit_log_def v split: option.splits)
qed

lemma linked_last_nonempty: "linked fr p rs \<Longrightarrow> rs \<noteq> [] \<Longrightarrow> a_entry_hash (last rs) \<noteq> []"
  by (cases rs rule: rev_cases) (auto simp: chain_simps)

lemma get_last_linked:
  "linked fr zeros64 (audit_log d) \<Longrightarrow>
     get_last_entry d =
       (if audit_log d = [] then 1 else a_seq (last (audit_log d)) + 1, chain_tip zeros64 (audit_log d))"
  using linked_last_nonempty [of fr zeros64 "audit_log d"]
  by (auto simp: get_last_entry_def chain_tip_def)

lemma wf_log_snoc: "wf_log (rs @ [r]) \<longleftrightarrow> wf_log rs \<and> (rs = [] \<or> a_seq (last rs) < a_seq r)"
proof (cases rs rule: rev_cases)
  case (snoc ss s)
  have "wf_log (ss @ [s]) \<Longrightarrow> x \<in> set ss \<Longrightarrow> a_seq x < a_seq s" for x
    by (auto simp: wf_log_def sorted_wrt_append)
  with snoc show ?thesis by (fastforce simp: wf_log_def sorted_wrt_append)
qed (simp add: wf_log_def)

lemma wf_log_last: "wf_log rs \<Longrightarrow> r \<in> set rs \<Longrightarrow> a_seq r \<le> a_seq (last rs)"
  by (cases rs rule: rev_cases) (auto simp: wf_log_def sorted_wrt_append)

lemma insort_last: "\<forall>y \<in> set xs. f y < f x \<Longrightarrow> insort_key f x xs = xs @ [x]"
  by (induction xs) auto

text \<open>Inserting behind the last entry: the shape that every writer of the ledger uses.\<close>

lemma insert_next:
  assumes "wf_log (audit_log d)" "linked fr zeros64 (audit_log d)" "has_new_value cols"
    and "get_last_entry d = (s, p)" "a_seq r = s"
  shows "insert_audit_entry cols r d = Inr (d\<lparr>audit_log := audit_log d @ [r]\<rparr>)"
proof -
  have s: "s = (if audit_log d = [] then 1 else a_seq (last (audit_log d)) + 1)"
    using assms(4) get_last_linked [OF assms(2)] by simp
  have lt: "\<forall>y \<in> set (audit_log d). a_seq y < a_seq r"
    using wf_log_last [OF assms(1)] s assms(5) by fastforce
  then have "a_seq r \<notin> a_seq ` set (audit_log d)" by auto
  with assms(3) show ?thesis by (simp add: insert_audit_entry_def insort_last [OF lt])
qed

lemma wf_log_next:
  assumes "wf_log (audit_log d)" "linked fr zeros64 (audit_log d)" "get_last_entry d = (s, p)" "a_seq r = s"
  shows "wf_log (audit_log d @ [r])"
  using assms(1,3,4) get_last_linked [OF assms(2)] by (auto simp: wf_log_snoc split: if_splits)

section \<open>What the chain commits to\<close>

lemma split_first_colon:
  "c \<notin> set a \<Longrightarrow> c \<notin> set b \<Longrightarrow> a @ c # x = b @ c # y \<Longrightarrow> a = b \<and> x = y"
proof (induction a arbitrary: b)
  case Nil
  then show ?case by (cases b) auto
next
  case (Cons z a)
  then show ?case by (cases b) auto
qed

lemma split_last_colon:
  assumes "c \<notin> set a" "c \<notin> set b" "x @ c # a = y @ c # b"
  shows "x = y \<and> a = b"
proof -
  have "rev a @ c # rev x = rev b @ c # rev y" using arg_cong [OF assms(3), of rev] by simp
  from split_first_colon [OF _ _ this] assms(1,2) show ?thesis by simp
qed

definition float_text_ok :: "(rat \<Rightarrow> string) \<Rightarrow> bool" where
  "float_text_ok fr \<longleftrightarrow> inj fr \<and> (\<forall>r. CHR '':'' \<notin> set (fr r))"

lemma entry_payload_inject:
  assumes "float_text_ok fr"
    and "CHR '':'' \<notin> set vh" "CHR '':'' \<notin> set vh'" "CHR '':'' \<notin> set ph" "CHR '':'' \<notin> set ph'"
    and "entry_payload fr s t k vh ph = entry_payload fr s' t' k' vh' ph'"
  shows "s = s' \<and> t = t' \<and> k = k' \<and> vh = vh' \<and> ph = ph'"
proof -
  have eq: "int_str s @ CHR '':'' # fr t @ CHR '':'' # k @ CHR '':'' # vh @ CHR '':'' # ph
      = int_str s' @ CHR '':'' # fr t' @ CHR '':'' # k' @ CHR '':'' # vh' @ CHR '':'' # ph'"
    using assms(6) by (simp add: entry_payload_def)
  from split_first_colon [OF colon_not_in_int_str colon_not_in_int_str eq]
  have s: "int_str s = int_str s'"
    and 1: "fr t @ CHR '':'' # k @ CHR '':'' # vh @ CHR '':'' # ph
      = fr t' @ CHR '':'' # k' @ CHR '':'' # vh' @ CHR '':'' # ph'" by auto
  have nc: "CHR '':'' \<notin> set (fr r)" for r using assms(1) by (simp add: float_text_ok_def)
  from split_first_colon [OF nc nc 1] have t: "fr t = fr t'"
    and 2: "(k @ CHR '':'' # vh) @ CHR '':'' # ph = (k' @ CHR '':'' # vh') @ CHR '':'' # ph'" by auto
  from split_last_colon [OF assms(4,5) 2] have ph: "ph = ph'"
    and 3: "k @ CHR '':'' # vh = k' @ CHR '':'' # vh'" by auto
  from split_last_colon [OF assms(2,3) 3] have "k = k'" "vh = vh'" by auto
  with s t ph assms(1) show ?thesis
    by (auto simp: float_text_ok_def dest: int_str_inject injD)
qed

text \<open>What an entry says, without the links.\<close>

definition row_content :: "audit_row \<Rightarrow> int \<times> rat \<times> string \<times> string" where
  "row_content r = (a_seq r, a_timestamp r, a_key r, a_value_hash r)"

definition collision :: "(rat \<Rightarrow> string) \<Rightarrow> audit_row list \<Rightarrow> audit_row list \<Rightarrow> bool" where
  "collision fr rs ss \<longleftrightarrow> (\<exists>r \<in> set rs. \<exists>s \<in> set ss. row_payload fr r \<noteq> row_payload fr s
     \<and> sha256 (row_payload fr r) = sha256 (row_payload fr s))"

definition zero_preimage :: "(rat \<Rightarrow> string) \<Rightarrow> audit_row list \<Rightarrow> bool" where
  "zero_preimage fr rs \<longleftrightarrow> (\<exists>r \<in> set rs. sha256 (row_payload fr r) = zeros64)"

definition hex_hashes :: "audit_row list \<Rightarrow> bool" where
  "hex_hashes rs \<longleftrightarrow> (\<forall>r \<in> set rs. CHR '':'' \<notin> set (a_value_hash r))"

lemma colon_not_in_tip: "linked fr zeros64 rs \<Longrightarrow> CHR '':'' \<notin> set (chain_tip zeros64 rs)"
  by (cases rs rule: rev_cases) (auto simp: chain_simps zeros64_def colon_not_in_sha256)

text \<open>Two chains with the same tip hold the same entries, or two named texts collide.\<close>

lemma same_tip_same_content:
  assumes "float_text_ok fr" "linked fr zeros64 rs" "linked fr zeros64 ss"
    and "hex_hashes rs" "hex_hashes ss" "chain_tip zeros64 rs = chain_tip zeros64 ss"
  shows "map row_content rs = map row_content ss \<or> collision fr rs ss
    \<or> zero_preimage fr rs \<or> zero_preimage fr ss"
  using assms(2-6)
proof (induction rs arbitrary: ss rule: rev_induct)
  case Nil
  show ?case
  proof (cases ss rule: rev_cases)
    case (snoc ys y)
    with Nil show ?thesis by (auto simp: chain_simps zero_preimage_def)
  qed simp
next
  case (snoc r rs)
  show ?case
  proof (cases ss rule: rev_cases)
    case Nil
    with snoc.prems show ?thesis by (auto simp: chain_simps zero_preimage_def)
  next
    case (snoc ys y)
    have h: "sha256 (row_payload fr r) = sha256 (row_payload fr y)"
      using snoc.prems snoc by (auto simp: chain_simps)
    show ?thesis
    proof (cases "row_payload fr r = row_payload fr y")
      case False
      with h snoc show ?thesis by (auto simp: collision_def)
    next
      case True
      have p: "CHR '':'' \<notin> set (a_prev_hash r)" "CHR '':'' \<notin> set (a_prev_hash y)"
        using snoc.prems snoc by (auto simp: linked_snoc dest: colon_not_in_tip)
      have vh: "CHR '':'' \<notin> set (a_value_hash r)" "CHR '':'' \<notin> set (a_value_hash y)"
        using snoc.prems(3,4) snoc by (auto simp: hex_hashes_def)
      have "row_content r = row_content y \<and> a_prev_hash r = a_prev_hash y"
        using entry_payload_inject [OF assms(1) vh p True [unfolded row_payload_def]]
        by (simp add: row_content_def)
      moreover have "map row_content rs = map row_content ys \<or> collision fr rs ys
          \<or> zero_preimage fr rs \<or> zero_preimage fr ys"
        using snoc.prems snoc calculation
        by (intro snoc.IH) (auto simp: linked_snoc hex_hashes_def)
      ultimately show ?thesis using snoc
        by (auto simp: collision_def zero_preimage_def)
    qed
  qed
qed

section \<open>Lemmas for the writers of the ledger\<close>

lemma value_accepted_cong: "redactions d = redactions d' \<Longrightarrow> value_accepted d r = value_accepted d' r"
  by (simp add: value_accepted_def redaction_is_authorized_def Let_def split: option.split)

lemma value_accepted_sha: "a_new_value r = Some v \<Longrightarrow> a_value_hash r = sha256 v \<Longrightarrow> value_accepted d r"
  by (simp add: value_accepted_def)

lemma latest_audit_snoc [simp]:
  "latest_audit (d\<lparr>audit_log := rs @ [r]\<rparr>) k =
     (if a_key r = k then Some r else latest_audit (d\<lparr>audit_log := rs\<rparr>) k)"
  by (simp add: latest_audit_def)

lemma latest_audit_same [simp]: "latest_audit (d\<lparr>audit_log := audit_log d\<rparr>) k = latest_audit d k"
  by (simp add: latest_audit_def)

lemma latest_audit_state [simp]: "latest_audit (d\<lparr>state_vars := svs\<rparr>) k = latest_audit d k"
  by (simp add: latest_audit_def)

definition state_ok :: "db \<Rightarrow> string \<times> state_row \<Rightarrow> bool" where
  "state_ok d = (\<lambda>(k, sv). case s_value_hash sv of None \<Rightarrow> True | Some h \<Rightarrow>
     h = [] \<or> sha256 (s_value sv) = h \<and>
       (case latest_audit d k of None \<Rightarrow> True | Some r \<Rightarrow> a_reason r \<noteq> ''delete'' \<and> a_value_hash r = h))"

lemma verify_states_None: "verify_states d svs = None \<longleftrightarrow> (\<forall>p \<in> set svs. state_ok d p)"
  by (induction d svs rule: verify_states.induct) (auto simp: state_ok_def split: option.splits)

lemma state_ok_cong: "latest_audit d k = latest_audit d' k \<Longrightarrow> state_ok d (k, sv) = state_ok d' (k, sv)"
  by (simp add: state_ok_def split: option.split)

text \<open>A row written behind the tip keeps the chain; the deep check looks at its value only.\<close>

lemma verify_snoc:
  assumes "audit_log d' = audit_log d @ [r]" "redactions d' = redactions d"
    and "verify_audit_log fr cols False d = (True, 0, t)"
    and "a_prev_hash r = t" "a_entry_hash r = sha256 (row_payload fr r)"
  shows "verify_audit_log fr cols False d' = (True, 0, a_entry_hash r)"
    and "verify_audit_log fr cols True d = (True, 0, t) \<Longrightarrow> value_accepted d r \<Longrightarrow>
      \<forall>p \<in> set (state_vars d'). state_ok d' p \<Longrightarrow>
      verify_audit_log fr cols True d' = (True, 0, a_entry_hash r)"
  using assms value_accepted_cong [OF assms(2)]
  by (auto simp: verify_shallow_iff verify_deep_iff chain_simps verify_states_None)

definition next_row ::
  "(rat \<Rightarrow> string) \<Rightarrow> db \<Rightarrow> rat \<Rightarrow> string \<Rightarrow> string \<Rightarrow> string \<Rightarrow> rat \<Rightarrow> string \<Rightarrow> audit_row" where
  "next_row fr d now key vh val conf reason =
     (let (s, p) = get_last_entry d in
      \<lparr>a_seq = s, a_timestamp = now, a_key = key, a_value_hash = vh, a_prev_hash = p,
       a_entry_hash = compute_entry_hash fr s now key vh p, a_new_value = Some val,
       a_confidence = FNum conf, a_reason = reason\<rparr>)"

lemma next_row_simps [simp]:
  "a_seq (next_row fr d now key vh val conf reason) = fst (get_last_entry d)"
  "a_key (next_row fr d now key vh val conf reason) = key"
  "a_value_hash (next_row fr d now key vh val conf reason) = vh"
  "a_prev_hash (next_row fr d now key vh val conf reason) = snd (get_last_entry d)"
  "a_new_value (next_row fr d now key vh val conf reason) = Some val"
  "a_reason (next_row fr d now key vh val conf reason) = reason"
  "a_entry_hash (next_row fr d now key vh val conf reason) =
     sha256 (row_payload fr (next_row fr d now key vh val conf reason))"
  by (simp_all add: next_row_def case_prod_beta row_payload_def compute_entry_hash_def)

lemma insert_next_row:
  assumes "wf_log (audit_log d)" "verify_audit_log fr cols False d = (True, 0, t)" "has_new_value cols"
    and "r = next_row fr d now key vh val conf reason"
  shows "insert_audit_entry cols r d = Inr (d\<lparr>audit_log := audit_log d @ [r]\<rparr>)"
    and "wf_log (audit_log d @ [r])" and "a_prev_hash r = t"
proof -
  have l: "linked fr zeros64 (audit_log d)" and t: "t = chain_tip zeros64 (audit_log d)"
    using assms(2) by (simp_all add: verify_shallow_iff)
  show "insert_audit_entry cols r d = Inr (d\<lparr>audit_log := audit_log d @ [r]\<rparr>)"
    by (rule insert_next [OF assms(1) l assms(3) prod.collapse [symmetric]]) (simp add: assms(4))
  show "wf_log (audit_log d @ [r])"
    by (rule wf_log_next [OF assms(1) l prod.collapse [symmetric]]) (simp add: assms(4))
  show "a_prev_hash r = t" using get_last_linked [OF l] by (simp add: assms(4) t)
qed

section \<open>Properties\<close>

text \<open>
  C1: Appending to a ledger that verifies succeeds, adds exactly one entry behind the tip, and the
  new ledger verifies with the returned hash as its tip. The deep verification is kept too when the
  entry brings no hash of its own and its key is not a state variable.
\<close>

theorem append_extends_chain:
  assumes "wf_log (audit_log d)" "has_new_value cols" "verify_audit_log fr cols False d = (True, 0, t)"
  shows "\<exists>d' h r. append_audit_log fr clock cols e d = Inr (d', h)
    \<and> audit_log d' = audit_log d @ [r] \<and> a_prev_hash r = t \<and> wf_log (audit_log d')
    \<and> verify_audit_log fr cols False d' = (True, 0, h)
    \<and> (verify_audit_log fr cols True d = (True, 0, t) \<and> n_value_hash e = None
        \<and> opt_or (n_key e) [] \<notin> set (dkeys (state_vars d)) \<longrightarrow>
       verify_audit_log fr cols True d' = (True, 0, h))"
proof -
  define vh where "vh = (case n_value_hash e of Some h \<Rightarrow> h | None \<Rightarrow> sha256 (sorted_json fr (n_value e)))"
  define r where "r = next_row fr d (opt_or (n_timestamp e) clock) (opt_or (n_key e) []) vh
    (sorted_json fr (n_value e)) (opt_or (n_confidence e) 1) (opt_or (n_reason e) ''append_audit'')"
  note ins = insert_next_row [OF assms(1,3,2) r_def]
  let ?d = "d\<lparr>audit_log := audit_log d @ [r]\<rparr>"
  have app: "append_audit_log fr clock cols e d = Inr (?d, a_entry_hash r)"
    using ins(1) by (simp add: append_audit_log_def Let_def case_prod_beta r_def next_row_def vh_def)
  have h: "a_entry_hash r = sha256 (row_payload fr r)" by (simp add: r_def)
  note v = verify_snoc [OF _ _ assms(3) ins(3) h, of ?d]
  have deep: "verify_audit_log fr cols True ?d = (True, 0, a_entry_hash r)"
    if "verify_audit_log fr cols True d = (True, 0, t)" "n_value_hash e = None"
      "opt_or (n_key e) [] \<notin> set (dkeys (state_vars d))"
  proof (rule v(2) [OF _ _ that(1)])
    show "value_accepted d r" using that(2) by (intro value_accepted_sha) (auto simp: r_def vh_def)
    show "\<forall>p \<in> set (state_vars ?d). state_ok ?d p"
    proof
      fix p assume p: "p \<in> set (state_vars ?d)"
      then have "state_ok d p" using that(1) by (simp add: verify_deep_iff verify_states_None)
      moreover have "fst p \<in> set (dkeys (state_vars d))" using p by simp
      then have "fst p \<noteq> a_key r" using that(3) unfolding r_def next_row_simps(2) by metis
      ultimately show "state_ok ?d p" by (cases p) (auto simp: state_ok_def split: option.splits)
    qed
  qed simp_all
  show ?thesis using app ins v(1) deep by (intro exI [of _ ?d] exI [of _ "a_entry_hash r"] exI [of _ r]) simp
qed

definition empty_db :: db where
  "empty_db = \<lparr>audit_log = [], redactions = [], state_vars = []\<rparr>"

definition full_cols :: audit_cols where
  "full_cols = \<lparr>has_new_value = True, has_confidence = True\<rparr>"

definition plain_entry :: "string \<Rightarrow> pyval \<Rightarrow> audit_entry" where
  "plain_entry k v = \<lparr>n_timestamp = Some 1, n_key = Some k, n_value = v, n_value_hash = None,
     n_confidence = None, n_reason = None\<rparr>"

text \<open>A text of rational numbers that is injective and has no colon.\<close>

definition rat_text :: "rat \<Rightarrow> string" where
  "rat_text r = int_str (fst (quotient_of r)) @ ''/'' @ int_str (snd (quotient_of r))"

lemma empty_db_verifies: "verify_audit_log fr cols deep empty_db = (True, 0, zeros64)"
  by (simp add: verify_audit_log_def empty_db_def)

theorem append_extends_chain_witness:
  "\<exists>d' h. append_audit_log rat_text 7 full_cols (plain_entry ''fact:a'' (VInt 3)) empty_db = Inr (d', h)
    \<and> verify_audit_log rat_text full_cols True d' = (True, 0, h)"
proof -
  have "wf_log (audit_log empty_db)" by (simp add: empty_db_def wf_log_def)
  moreover have "has_new_value full_cols" by (simp add: full_cols_def)
  ultimately show ?thesis
    using append_extends_chain [OF _ _ empty_db_verifies, of full_cols rat_text 7 "plain_entry ''fact:a'' (VInt 3)"]
    by (auto simp: empty_db_verifies) (auto simp: plain_entry_def empty_db_def)
qed

text \<open>
  C22: Tamper evidence. Two ledgers that verify, whose value hashes contain no colon and whose tips
  are equal, record the same entries (number, time, key and value hash) in the same order, unless
  two of their entries' texts collide under SHA-256 or one is a preimage of the zero hash.
\<close>

theorem tip_commits_to_ledger:
  assumes "float_text_ok fr" "hex_hashes (audit_log d)" "hex_hashes (audit_log d')"
    and "verify_audit_log fr cols deep d = (True, 0, t)" "verify_audit_log fr cols' deep' d' = (True, 0, t)"
  shows "map row_content (audit_log d) = map row_content (audit_log d')
    \<or> collision fr (audit_log d) (audit_log d')
    \<or> zero_preimage fr (audit_log d) \<or> zero_preimage fr (audit_log d')"
proof -
  have sh: "linked fr zeros64 (audit_log x) \<and> t = chain_tip zeros64 (audit_log x)"
    if "verify_audit_log fr c b x = (True, 0, t)" for x c b
    using that by (cases b) (simp_all add: verify_shallow_iff verify_deep_iff)
  from sh [OF assms(4)] sh [OF assms(5)] show ?thesis
    using same_tip_same_content [OF assms(1) _ _ assms(2,3)] by simp
qed

lemma float_text_ok_rat_text: "float_text_ok rat_text"
proof -
  have slash: "CHR ''/'' \<notin> set (int_str i)" for i
  proof -
    have "CHR ''/'' \<notin> set (nat_digits n)" for n
      using nat_digits_are_digits [of n] by (auto simp: is_digit_def)
    then show ?thesis by (simp add: int_str_def)
  qed
  have "x = y" if "rat_text x = rat_text y" for x y
  proof -
    have "int_str (fst (quotient_of x)) = int_str (fst (quotient_of y))
        \<and> int_str (snd (quotient_of x)) = int_str (snd (quotient_of y))"
      using that split_first_colon [OF slash slash] by (simp add: rat_text_def)
    then have "quotient_of x = quotient_of y" by (auto intro: prod_eqI dest: int_str_inject)
    then show ?thesis by (rule quotient_of_inject)
  qed
  then show ?thesis
    by (auto simp: float_text_ok_def rat_text_def inj_def colon_not_in_int_str)
qed

theorem tip_commits_to_ledger_witness:
  "\<exists>d' h. append_audit_log rat_text 7 full_cols (plain_entry ''fact:a'' (VInt 3)) empty_db = Inr (d', h)
    \<and> (map row_content (audit_log d') = map row_content (audit_log d')
       \<or> collision rat_text (audit_log d') (audit_log d')
       \<or> zero_preimage rat_text (audit_log d') \<or> zero_preimage rat_text (audit_log d'))"
proof -
  have "wf_log (audit_log empty_db)" by (simp add: empty_db_def wf_log_def)
  then have r: "insert_audit_entry full_cols (next_row rat_text empty_db 1 ''fact:a'' (sha256 ''3'') ''3'' 1 ''append_audit'') empty_db
      = Inr (empty_db\<lparr>audit_log := [next_row rat_text empty_db 1 ''fact:a'' (sha256 ''3'') ''3'' 1 ''append_audit'']\<rparr>)"
    by (simp add: insert_audit_entry_def empty_db_def full_cols_def)
  let ?d = "empty_db\<lparr>audit_log := [next_row rat_text empty_db 1 ''fact:a'' (sha256 ''3'') ''3'' 1 ''append_audit'']\<rparr>"
  let ?h = "a_entry_hash (next_row rat_text empty_db 1 ''fact:a'' (sha256 ''3'') ''3'' 1 ''append_audit'')"
  have three: "nat_digits 3 = ''3''" by code_simp
  have a: "append_audit_log rat_text 7 full_cols (plain_entry ''fact:a'' (VInt 3)) empty_db = Inr (?d, ?h)"
    using r by (simp add: append_audit_log_def Let_def case_prod_beta next_row_def plain_entry_def
        sorted_json_def int_str_def three opt_or_def)
  have "verify_audit_log rat_text full_cols False ?d = (True, 0, ?h)"
    by (simp add: verify_shallow_iff chain_simps get_last_entry_def) (simp add: empty_db_def)
  from tip_commits_to_ledger [OF float_text_ok_rat_text _ _ this this]
  have "map row_content (audit_log ?d) = map row_content (audit_log ?d)
       \<or> collision rat_text (audit_log ?d) (audit_log ?d)
       \<or> zero_preimage rat_text (audit_log ?d) \<or> zero_preimage rat_text (audit_log ?d)"
    by (simp add: hex_hashes_def colon_not_in_sha256)
  with a show ?thesis by blast
qed

text \<open>
  What the chain does not see. The text that is hashed does not mark where the key ends: in an
  entry whose key has a colon, the part behind it can be moved to the front of the value hash, and
  the value removed, and the ledger verifies as before, deeply too where no state variable is looked up.
\<close>

theorem key_boundary_is_not_protected:
  assumes "verify_audit_log fr cols deep d = (True, 0, t)" "audit_log d = pre @ r # post"
    and "a_key r = k @ '':'' @ w" "deep \<longrightarrow> state_vars d = []"
    and "forged = r\<lparr>a_key := k, a_value_hash := w @ '':'' @ a_value_hash r, a_new_value := None\<rparr>"
  shows "verify_audit_log fr cols deep (d\<lparr>audit_log := pre @ forged # post\<rparr>) = (True, 0, t)
    \<and> row_content forged \<noteq> row_content r"
proof -
  have p: "row_payload fr forged = row_payload fr r"
    by (simp add: assms(3,5) row_payload_def entry_payload_def)
  have f: "a_prev_hash forged = a_prev_hash r" "a_entry_hash forged = a_entry_hash r"
    by (simp_all add: assms(5))
  have acc: "value_accepted x forged" for x by (simp add: assms(5) value_accepted_def)
  have acc': "value_accepted (d\<lparr>audit_log := y\<rparr>) x = value_accepted d x" for x y
    by (rule value_accepted_cong) simp
  have tip: "chain_tip q (pre @ forged # post) = chain_tip q (pre @ r # post)" for q
    by (simp add: chain_tip_def f)
  have lk: "linked fr q (pre @ forged # post) = linked fr q (pre @ r # post)" for q
    by (simp add: linked_append p f)
  have "k \<noteq> k @ '':'' @ w" by simp
  then have "row_content forged \<noteq> row_content r" by (simp add: row_content_def assms(3,5))
  moreover have "verify_audit_log fr cols deep (d\<lparr>audit_log := pre @ forged # post\<rparr>) = (True, 0, t)"
    using assms(1,2,4)
    by (cases deep) (auto simp: verify_shallow_iff verify_deep_iff tip lk acc acc')
  ultimately show ?thesis by blast
qed

theorem key_boundary_is_not_protected_witness:
  "\<exists>r d. verify_audit_log rat_text full_cols True d = (True, 0, a_entry_hash r) \<and> audit_log d = [r]
    \<and> a_key r = ''fact:a''
    \<and> verify_audit_log rat_text full_cols True
        (d\<lparr>audit_log := [r\<lparr>a_key := ''fact'', a_value_hash := ''a:'' @ a_value_hash r, a_new_value := None\<rparr>]\<rparr>)
      = (True, 0, a_entry_hash r)"
proof -
  let ?r = "next_row rat_text empty_db 1 ''fact:a'' (sha256 ''3'') ''3'' 1 ''append_audit''"
  let ?d = "empty_db\<lparr>audit_log := [?r]\<rparr>"
  have v: "verify_audit_log rat_text full_cols True ?d = (True, 0, a_entry_hash ?r)"
    using verify_snoc(2) [of ?d empty_db ?r rat_text full_cols zeros64]
    by (simp add: empty_db_verifies value_accepted_sha get_last_entry_def) (simp add: empty_db_def)
  have "verify_audit_log rat_text full_cols True
      (?d\<lparr>audit_log := [] @ ?r\<lparr>a_key := ''fact'', a_value_hash := ''a'' @ '':'' @ a_value_hash ?r, a_new_value := None\<rparr> # []\<rparr>)
      = (True, 0, a_entry_hash ?r)"
    using key_boundary_is_not_protected [OF v, of "[]" ?r "[]" "''fact''" "''a''"]
    by (simp add: empty_db_def)
  with v show ?thesis by (intro exI [of _ ?r] exI [of _ ?d]) simp
qed

lemma wf_log_seq_inject: "wf_log rs \<Longrightarrow> r \<in> set rs \<Longrightarrow> s \<in> set rs \<Longrightarrow> a_seq r = a_seq s \<Longrightarrow> r = s"
  by (induction rs) (auto simp: wf_log_def)

lemma linked_map:
  assumes "\<And>r. row_payload fr (f r) = row_payload fr r" "\<And>r. a_prev_hash (f r) = a_prev_hash r"
    and "\<And>r. a_entry_hash (f r) = a_entry_hash r"
  shows "linked fr p (map f rs) = linked fr p rs \<and> chain_tip p (map f rs) = chain_tip p rs"
  using assms by (induction rs arbitrary: p) (auto simp: chain_simps)

lemma set_new_value_chain:
  "linked fr p (set_new_value seq v rs) = linked fr p rs"
  "chain_tip p (set_new_value seq v rs) = chain_tip p rs"
  using linked_map [of fr "\<lambda>r. if a_seq r = seq then r\<lparr>a_new_value := Some v\<rparr> else r" p rs]
  by (auto simp: set_new_value_def row_payload_def)

lemma latest_audit_new_value:
  "latest_audit (d\<lparr>audit_log := set_new_value seq v rs, redactions := x\<rparr>) k =
     map_option (\<lambda>r. if a_seq r = seq then r\<lparr>a_new_value := Some v\<rparr> else r)
       (latest_audit (d\<lparr>audit_log := rs\<rparr>) k)"
proof -
  have "filter (\<lambda>r. a_key r = k) (set_new_value seq v rs) =
      set_new_value seq v (filter (\<lambda>r. a_key r = k) rs)"
    by (induction rs) (auto simp: set_new_value_def)
  then show ?thesis
    by (auto simp: latest_audit_def set_new_value_def rev_map split: list.splits)
qed

text \<open>
  An authorised redaction replaces the value of one entry by the marker and nothing else of the
  ledger, and a ledger that passes the deep verification passes it afterwards with the same tip.
\<close>

theorem redaction_keeps_verification:
  assumes "wf_log (audit_log d)" "verify_audit_log fr cols True d = (True, 0, t)"
    and "redact_audit_entry now today seq reason rv d = (d', RedactionOk)"
  shows "verify_audit_log fr cols True d' = (True, 0, t)
    \<and> map row_content (audit_log d') = map row_content (audit_log d)
    \<and> state_vars d' = state_vars d
    \<and> (\<exists>r' \<in> set (audit_log d'). a_seq r' = seq
        \<and> a_new_value r' = Some (case rv of Some v \<Rightarrow> v | None \<Rightarrow> redaction_marker_prefix @ reason @ '' '' @ today))"
proof -
  define m where "m = (case rv of Some v \<Rightarrow> v | None \<Rightarrow> redaction_marker_prefix @ reason @ '' '' @ today)"
  obtain row rest where row: "filter (\<lambda>r. a_seq r = seq) (audit_log d) = row # rest"
    and mk: "starts_with m redaction_marker_prefix"
    and d': "d' = d\<lparr>audit_log := set_new_value seq m (audit_log d),
        redactions := dset (a_seq row) \<lparr>r_key = a_key row, r_value_hash = a_value_hash row,
          r_reason = reason, r_created_at = now\<rparr> (ddel (a_seq row) (redactions d))\<rparr>"
    using assms(3) unfolding redact_audit_entry_def m_def [symmetric] Let_def
    by (auto split: if_splits list.splits)
  have in_row: "row \<in> set (audit_log d)" "a_seq row = seq"
    using arg_cong [OF row, of set] by auto
  have v: "linked fr zeros64 (audit_log d)" "t = chain_tip zeros64 (audit_log d)"
    "verify_states d (state_vars d) = None"
    and acc: "has_new_value cols \<Longrightarrow> r \<in> set (audit_log d) \<Longrightarrow> value_accepted d r" for r
    using assms(2) by (auto simp: verify_deep_iff)
  have acc': "value_accepted d' r'" if hc: "has_new_value cols" and r': "r' \<in> set (audit_log d')" for r'
  proof -
    obtain r where r: "r \<in> set (audit_log d)"
      and r'_eq: "r' = (if a_seq r = seq then r\<lparr>a_new_value := Some m\<rparr> else r)"
      using r' by (auto simp: d' set_new_value_def)
    show ?thesis
    proof (cases "a_seq r = seq")
      case True
      then have "r = row" using wf_log_seq_inject [OF assms(1) r in_row(1)] in_row(2) by simp
      then show ?thesis using True r'_eq mk
        by (simp add: value_accepted_def redaction_is_authorized_def d' Let_def)
    next
      case False
      then have "redaction_is_authorized d' (a_seq r) k h = redaction_is_authorized d (a_seq r) k h" for k h
        using in_row(2) by (simp add: redaction_is_authorized_def d')
      then show ?thesis using acc [OF hc r] False r'_eq
        by (auto simp: value_accepted_def Let_def split: option.splits if_splits)
    qed
  qed
  have st: "state_ok d' p" if "state_ok d p" for p
    using that by (cases p) (auto simp: state_ok_def d' latest_audit_new_value split: option.splits)
  have "verify_audit_log fr cols True d' = (True, 0, t)"
    using v acc' st by (auto simp: verify_deep_iff verify_states_None d' set_new_value_chain)
  moreover have "map row_content (audit_log d') = map row_content (audit_log d)"
    by (auto simp: d' set_new_value_def row_content_def)
  moreover have "row\<lparr>a_new_value := Some m\<rparr> \<in> set (audit_log d')"
    using in_row by (force simp: d' set_new_value_def)
  ultimately show ?thesis using in_row(2) unfolding m_def [symmetric]
    by (auto simp: d' intro!: bexI [of _ "row\<lparr>a_new_value := Some m\<rparr>"])
qed

theorem redaction_keeps_verification_witness:
  "\<exists>d d' t. verify_audit_log rat_text full_cols True d = (True, 0, t)
    \<and> redact_audit_entry 5 ''2026-01-01'' 1 ''SEC-001'' None d = (d', RedactionOk)
    \<and> verify_audit_log rat_text full_cols True d' = (True, 0, t)"
proof -
  let ?r = "next_row rat_text empty_db 1 ''fact:a'' (sha256 ''3'') ''3'' 1 ''append_audit''"
  let ?d = "empty_db\<lparr>audit_log := [?r]\<rparr>"
  have v: "verify_audit_log rat_text full_cols True ?d = (True, 0, a_entry_hash ?r)"
    using verify_snoc(2) [of ?d empty_db ?r rat_text full_cols zeros64]
    by (simp add: empty_db_verifies value_accepted_sha get_last_entry_def) (simp add: empty_db_def)
  have s: "fst (get_last_entry empty_db) = 1" by (simp add: get_last_entry_def empty_db_def)
  have strip: "py_strip ''SEC-001'' \<noteq> []" by code_simp
  have w: "wf_log (audit_log ?d)" by (simp add: wf_log_def)
  have r: "\<exists>d'. redact_audit_entry 5 ''2026-01-01'' 1 ''SEC-001'' None ?d = (d', RedactionOk)"
    using strip by (simp add: redact_audit_entry_def Let_def s)
  then obtain d' where d': "redact_audit_entry 5 ''2026-01-01'' 1 ''SEC-001'' None ?d = (d', RedactionOk)" by blast
  from redaction_keeps_verification [OF w v d'] v d' show ?thesis by blast
qed

lemma verify_rows_break:
  "verify_rows fr cols deep d pre p = (True, 0, e) \<Longrightarrow>
     verify_rows fr cols deep d (pre @ rest) p = verify_rows fr cols deep d rest e"
  by (induction pre arbitrary: p) (auto split: if_splits)

text \<open>
  A change of a stored value is located: in a ledger that passes the deep verification, if the
  value of one entry is replaced by a text with another hash, which is neither a deletion tombstone
  nor a registered redaction, the deep verification fails at that entry.
\<close>

theorem changed_value_is_located:
  assumes "verify_audit_log fr cols True d = (True, 0, t)" "has_new_value cols"
    and "audit_log d = pre @ r # post" "sha256 v \<noteq> a_value_hash r"
    and "strip_quotes v \<noteq> ''__DELETED__''"
    and "\<not> starts_with v redaction_marker_prefix \<or> \<not> redaction_is_authorized d (a_seq r) (a_key r) (a_value_hash r)"
  shows "verify_audit_log fr cols True (d\<lparr>audit_log := pre @ r\<lparr>a_new_value := Some v\<rparr> # post\<rparr>)
    = (False, a_seq r, chain_tip zeros64 pre)"
proof -
  let ?r = "r\<lparr>a_new_value := Some v\<rparr>"
  let ?d = "d\<lparr>audit_log := pre @ ?r # post\<rparr>"
  have acc: "value_accepted ?d x = value_accepted d x" for x by (rule value_accepted_cong) simp
  have "verify_rows fr cols True ?d pre zeros64 = (True, 0, chain_tip zeros64 pre)"
    using assms(1,3) by (auto simp: verify_rows_iff verify_deep_iff linked_append acc)
  note b = verify_rows_break [OF this, of "?r # post"]
  have "a_prev_hash r = chain_tip zeros64 pre"
    using assms(1,3) by (simp add: verify_deep_iff linked_append)
  moreover have "\<not> value_accepted d ?r"
    using assms(4-6) by (auto simp: value_accepted_def Let_def)
  ultimately have "verify_rows fr cols True ?d (audit_log ?d) zeros64 = (False, a_seq r, chain_tip zeros64 pre)"
    using b assms(2) by (simp add: acc)
  then show ?thesis by (simp add: verify_audit_log_def)
qed

theorem changed_value_is_located_witness:
  "\<exists>d r t. verify_audit_log rat_text full_cols True d = (True, 0, t) \<and> audit_log d = [r]
    \<and> verify_audit_log rat_text full_cols True (d\<lparr>audit_log := [r\<lparr>a_new_value := Some ''[REDACTED-x''\<rparr>]\<rparr>)
      = (False, 1, zeros64)"
proof -
  let ?r = "next_row rat_text empty_db 1 ''fact:a'' ''not-a-digest'' ''3'' 1 ''append_audit''"
  let ?r0 = "?r\<lparr>a_new_value := None\<rparr>"
  let ?d = "empty_db\<lparr>audit_log := [?r0]\<rparr>"
  have s: "fst (get_last_entry empty_db) = 1" "snd (get_last_entry empty_db) = zeros64"
    by (simp_all add: get_last_entry_def empty_db_def)
  have p: "row_payload rat_text ?r0 = row_payload rat_text ?r" by (simp add: row_payload_def)
  have v: "verify_audit_log rat_text full_cols True ?d = (True, 0, a_entry_hash ?r0)"
    by (simp add: verify_deep_iff chain_simps s row_payload_def value_accepted_def)
      (simp add: empty_db_def)
  have n: "sha256 ''[REDACTED-x'' \<noteq> a_value_hash ?r0"
    by (rule notI, drule arg_cong [where f = length]) simp
  have "verify_audit_log rat_text full_cols True (?d\<lparr>audit_log := [] @ ?r0\<lparr>a_new_value := Some ''[REDACTED-x''\<rparr> # []\<rparr>)
      = (False, a_seq ?r0, chain_tip zeros64 [])"
  proof (rule changed_value_is_located [OF v])
    show "strip_quotes ''[REDACTED-x'' \<noteq> ''__DELETED__''" by code_simp
    show "\<not> starts_with ''[REDACTED-x'' redaction_marker_prefix
      \<or> \<not> redaction_is_authorized ?d (a_seq ?r0) (a_key ?r0) (a_value_hash ?r0)"
      by (simp add: redaction_is_authorized_def empty_db_def)
  qed (use n in \<open>simp_all add: full_cols_def\<close>)
  with v show ?thesis by (intro exI [of _ ?d] exI [of _ ?r0]) (simp add: s chain_simps)
qed

lemma heal_rows_linked:
  "heal_rows fr hc rows p = (rows', t) \<Longrightarrow>
     linked fr p rows' \<and> t = chain_tip p rows' \<and> map row_content rows' = map row_content rows
     \<and> map a_new_value rows' = map a_new_value rows \<and> map a_reason rows' = map a_reason rows"
proof (induction rows arbitrary: p rows' t)
  case (Cons r rows)
  let ?h = "compute_entry_hash fr (a_seq r) (a_timestamp r) (a_key r) (a_value_hash r) p"
  obtain rest l where rl: "heal_rows fr hc rows ?h = (rest, l)" by (cases "heal_rows fr hc rows ?h")
  from Cons.IH [OF rl] Cons.prems rl show ?case
    by (auto simp: Let_def row_content_def row_payload_def compute_entry_hash_def chain_simps)
qed (auto simp: chain_simps)

lemma heal_rows_fixed:
  "linked fr p rows \<Longrightarrow> fst (heal_rows fr False rows p) = rows"
  by (induction rows arbitrary: p)
    (auto simp: Let_def case_prod_beta row_payload_def compute_entry_hash_def)

lemma clamp_state_row_range:
  "0 \<le> s_confidence (clamp_state_row sv) \<and> s_confidence (clamp_state_row sv) \<le> 1
   \<and> s_value (clamp_state_row sv) = s_value sv \<and> s_value_hash (clamp_state_row sv) = s_value_hash sv"
  by (auto simp: clamp_state_row_def Let_def)

text \<open>
  Healing makes any ledger verify: it rewrites only links and confidences, keeps number, time, key,
  value hash, value and reason of every entry, clamps every state variable's confidence into [0, 1],
  and returns the tip. In particular a ledger that was tampered with verifies after it.
\<close>

theorem healing_validates:
  "heal_audit_log_chain fr cols d = (d', n, ok, t) \<longrightarrow>
     verify_audit_log fr cols False d' = (True, 0, t) \<and> ok \<and> n = length (audit_log d')
     \<and> map row_content (audit_log d') = map row_content (audit_log d)
     \<and> map a_new_value (audit_log d') = map a_new_value (audit_log d)
     \<and> (\<forall>p \<in> set (state_vars d'). 0 \<le> s_confidence (snd p) \<and> s_confidence (snd p) \<le> 1)"
proof
  assume h: "heal_audit_log_chain fr cols d = (d', n, ok, t)"
  obtain rows where r: "heal_rows fr (has_confidence cols) (audit_log d) zeros64 = (rows, t)"
    and d': "audit_log d' = rows"
      "state_vars d' = map (\<lambda>(k, sv). (k, clamp_state_row sv)) (state_vars d)"
    and n: "n = length (audit_log d)" "ok"
    using h unfolding heal_audit_log_chain_def by (auto split: prod.splits)
  note l = heal_rows_linked [OF r]
  have "length rows = length (audit_log d)" using l by (metis length_map)
  with l n show "verify_audit_log fr cols False d' = (True, 0, t) \<and> ok \<and> n = length (audit_log d')
     \<and> map row_content (audit_log d') = map row_content (audit_log d)
     \<and> map a_new_value (audit_log d') = map a_new_value (audit_log d)
     \<and> (\<forall>p \<in> set (state_vars d'). 0 \<le> s_confidence (snd p) \<and> s_confidence (snd p) \<le> 1)"
    using clamp_state_row_range by (auto simp: d' verify_shallow_iff)
qed

theorem healing_validates_witness:
  "\<exists>d' n ok t. heal_audit_log_chain rat_text full_cols empty_db = (d', n, ok, t)
    \<and> verify_audit_log rat_text full_cols False d' = (True, 0, t)"
proof -
  obtain d' n ok t where "heal_audit_log_chain rat_text full_cols empty_db = (d', n, ok, t)"
    by (metis prod_cases4)
  with healing_validates show ?thesis by blast
qed

end
