(* ===== verification/TextNorm.thy ===== *)
theory TextNorm
  imports Json
begin

text \<open>
  \<open>normalize_stored_text\<close> (\<open>l2_semantic/textnorm.py\<close>): undoes doubly encoded JSON escapes in a
  text read from the database and repairs surrogates. Texts are lists of code points. Each regular
  expression is the function that matches it at a position; \<open>re.sub\<close> replaces the matches from the
  left. \<open>chr\<close> raises above \<open>0x10FFFF\<close>, which the model gives as \<open>None\<close>.

  The theorems show that a text without escapes and surrogates is unchanged, that a repaired text
  has no surrogates, and where the contract of the module's documentation fails.
\<close>

section \<open>Escapes\<close>

definition is_uhex :: "nat \<Rightarrow> bool" where
  "is_uhex c \<longleftrightarrow> hex_val c \<noteq> None"

definition hex_run :: "nat \<Rightarrow> ustr \<Rightarrow> bool" where
  "hex_run k s \<longleftrightarrow> k \<le> length s \<and> list_all is_uhex (take k s)"

definition hex_num :: "ustr \<Rightarrow> nat" where
  "hex_num s = foldl (\<lambda>a c. 16 * a + (case hex_val c of Some d \<Rightarrow> d | None \<Rightarrow> 0)) 0 s"

text \<open>\<open>_LITERAL_ESCAPE_RE\<close> at the start of the text.\<close>

fun literal_escape_at :: "ustr \<Rightarrow> bool" where
  "literal_escape_at (b # c # s) =
     (b = 92 \<and> (c = 117 \<and> hex_run 4 s \<or> c = 85 \<and> hex_run 8 s \<or> c = 120 \<and> hex_run 2 s
        \<or> c \<in> {110, 116, 114, 98, 102, 47, 92, 39}))"
| "literal_escape_at _ = False"

fun has_literal_escape :: "ustr \<Rightarrow> bool" where
  "has_literal_escape [] = False"
| "has_literal_escape (c # s) = (literal_escape_at (c # s) \<or> has_literal_escape s)"

text \<open>\<open>re.sub\<close> of a backslash, the letter \<open>c\<close> and \<open>k\<close> hexadecimal digits by their code point.\<close>

function sub_hex :: "nat \<Rightarrow> nat \<Rightarrow> ustr \<Rightarrow> ustr option" where
  "sub_hex c k [] = Some []"
| "sub_hex c k (x # s) =
     (if x = 92 \<and> s \<noteq> [] \<and> hd s = c \<and> hex_run k (tl s) then
        (let n = hex_num (take k (tl s)) in
         if 1114112 \<le> n then None
         else map_option (\<lambda>t. n # t) (sub_hex c k (drop k (tl s))))
      else map_option (\<lambda>t. x # t) (sub_hex c k s))"
  by pat_completeness auto
termination by (relation "measure (\<lambda>(c, k, s). length s)") auto

text \<open>\<open>_UNESCAPE_TABLE\<close> and the substitution of \<open>_SIMPLE_ESCAPE_RE\<close>.\<close>

definition unescape_table :: "nat \<Rightarrow> nat option" where
  "unescape_table c =
     (if c = 110 then Some 10 else if c = 116 then Some 9 else if c = 114 then Some 13
      else if c = 98 then Some 8 else if c = 102 then Some 12
      else if c \<in> {47, 92, 39, 34} then Some c else None)"

fun sub_simple :: "ustr \<Rightarrow> ustr" where
  "sub_simple (x # y # s) =
     (if x = 92 then (case unescape_table y of Some n \<Rightarrow> n # sub_simple s | None \<Rightarrow> x # sub_simple (y # s))
      else x # sub_simple (y # s))"
| "sub_simple s = s"

text \<open>
  \<open>_regex_unescape\<close>; its last substitution, \<open>_UNKNOWN_ESCAPE_RE\<close>, replaces every match by itself.
\<close>

definition regex_unescape :: "ustr \<Rightarrow> ustr option" where
  "regex_unescape text =
     (case sub_hex 117 4 text of
        None \<Rightarrow> None
      | Some out1 \<Rightarrow>
          (case sub_hex 85 8 out1 of
             None \<Rightarrow> None
           | Some out2 \<Rightarrow>
               (case sub_hex 120 2 out2 of
                  None \<Rightarrow> None
                | Some out3 \<Rightarrow> Some (sub_simple out3))))"

text \<open>White space of \<open>str.strip\<close>.\<close>

definition is_uspace :: "nat \<Rightarrow> bool" where
  "is_uspace c \<longleftrightarrow> (9 \<le> c \<and> c \<le> 13) \<or> (28 \<le> c \<and> c \<le> 32) \<or> c = 133 \<or> c = 160 \<or> c = 5760
     \<or> (8192 \<le> c \<and> c \<le> 8202) \<or> c \<in> {8232, 8233, 8239, 8287, 12288}"

definition ustrip :: "ustr \<Rightarrow> ustr" where
  "ustrip s = rev (dropWhile is_uspace (rev (dropWhile is_uspace s)))"

text \<open>\<open>json.loads\<close> of a text that starts with a quote.\<close>

definition loads_string :: "ustr \<Rightarrow> ustr option" where
  "loads_string s =
     (case scan_string (tl s) of
        None \<Rightarrow> None
      | Some (t, rest) \<Rightarrow> if skip_space rest = [] then Some t else None)"

definition unescape_one_pass :: "ustr \<Rightarrow> ustr option" where
  "unescape_one_pass text =
     (let stripped = ustrip text in
      if 2 \<le> length stripped \<and> hd stripped = 34 \<and> last stripped = 34 then
        (case loads_string stripped of
           Some result \<Rightarrow> Some result
         | None \<Rightarrow> regex_unescape text)
      else regex_unescape text)"

section \<open>Surrogates\<close>

definition is_surrogate :: "nat \<Rightarrow> bool" where
  "is_surrogate c \<longleftrightarrow> 55296 \<le> c \<and> c \<le> 57343"

definition surrogate_free :: "ustr \<Rightarrow> bool" where
  "surrogate_free s = list_all (\<lambda>c. \<not> is_surrogate c) s"

fun repair_loop :: "ustr \<Rightarrow> ustr" where
  "repair_loop [] = []"
| "repair_loop [c] = (if is_surrogate c then [] else [c])"
| "repair_loop (c # d # s) =
     (if 55296 \<le> c \<and> c \<le> 56319 \<and> 56320 \<le> d \<and> d \<le> 57343
      then (65536 + (c - 55296) * 1024 + (d - 56320)) # repair_loop s
      else if is_surrogate c then repair_loop (d # s)
      else c # repair_loop (d # s))"

definition repair_surrogates :: "ustr \<Rightarrow> ustr" where
  "repair_surrogates text = (if surrogate_free text then text else repair_loop text)"

section \<open>Normalisation\<close>

definition max_unescape_passes :: nat where
  "max_unescape_passes = 8"

fun unescape_loop :: "nat \<Rightarrow> ustr \<Rightarrow> ustr option" where
  "unescape_loop 0 s = Some s"
| "unescape_loop (Suc n) s =
     (case unescape_one_pass s of
        None \<Rightarrow> None
      | Some candidate \<Rightarrow> if candidate = s then Some s else unescape_loop n candidate)"

definition normalize_stored_text :: "ustr \<Rightarrow> ustr" where
  "normalize_stored_text text =
     (if text = [] then text
      else case (if has_literal_escape text then unescape_loop max_unescape_passes text else Some text) of
          None \<Rightarrow> text
        | Some normalized \<Rightarrow> repair_surrogates normalized)"

section \<open>Properties\<close>

lemma repair_loop_surrogate_free: "surrogate_free (repair_loop s)"
  by (induction s rule: repair_loop.induct) (auto simp: surrogate_free_def is_surrogate_def)

lemma repair_surrogate_free: "surrogate_free (repair_surrogates s)"
  by (simp add: repair_surrogates_def repair_loop_surrogate_free)

lemma repair_length: "length (repair_surrogates s) \<le> length s"
proof -
  have "length (repair_loop t) \<le> length t" for t
    by (induction t rule: repair_loop.induct) auto
  then show ?thesis by (simp add: repair_surrogates_def)
qed

text \<open>
  A text without literal escapes and without surrogates comes back unchanged; and a text all of
  whose escapes could be decoded comes back without surrogates, so that it can be encoded in UTF-8.
\<close>

theorem normalize_contract:
  "(\<not> has_literal_escape u \<and> surrogate_free u \<longrightarrow> normalize_stored_text u = u)
   \<and> (\<not> has_literal_escape u \<or> unescape_loop max_unescape_passes u \<noteq> None \<longrightarrow>
        surrogate_free (normalize_stored_text u))"
proof
  show "\<not> has_literal_escape u \<and> surrogate_free u \<longrightarrow> normalize_stored_text u = u"
    by (simp add: normalize_stored_text_def repair_surrogates_def)
  show "\<not> has_literal_escape u \<or> unescape_loop max_unescape_passes u \<noteq> None \<longrightarrow>
      surrogate_free (normalize_stored_text u)"
  proof (cases "u = []")
    case False
    then show ?thesis
      using repair_surrogate_free by (simp add: normalize_stored_text_def split: option.split)
  qed (simp add: normalize_stored_text_def surrogate_free_def)
qed

theorem normalize_contract_witness:
  "normalize_stored_text (lit ''plain'') = lit ''plain''"
  using normalize_contract [of "lit ''plain''"] by code_simp

text \<open>
  The documented idempotence fails: a backslash, an unpaired surrogate and the letter n become
  a backslash and an n when the surrogate is cut out, and those become a line feed the next time.
  An escape that names no code point makes the function return its input, surrogates included.
\<close>

theorem normalize_not_idempotent:
  "normalize_stored_text [92, 55357, 110] = [92, 110]
   \<and> normalize_stored_text (normalize_stored_text [92, 55357, 110]) = [10]
   \<and> normalize_stored_text (55357 # lit [CHR 0x5C, CHR ''U'', CHR ''0'', CHR ''0'', CHR ''1'', CHR ''1'',
       CHR ''0'', CHR ''0'', CHR ''0'', CHR ''0'']) =
     55357 # lit [CHR 0x5C, CHR ''U'', CHR ''0'', CHR ''0'', CHR ''1'', CHR ''1'',
       CHR ''0'', CHR ''0'', CHR ''0'', CHR ''0'']"
  by code_simp

end
