(* ===== verification/KvStore.thy ===== *)
theory KvStore
  imports AuditLedger TextNorm
begin

text \<open>
  The verified key-value store: \<open>VerifiedKVStore\<close> (\<open>l2_semantic/kv_store.py\<close>) over the repositories
  \<open>state_repository.py\<close>, \<open>transaction_repository.py\<close>, \<open>checkpoint_repository.py\<close> and
  \<open>l0_counter_repository.py\<close>.

  \<open>tables\<close> is the content of the database, \<open>kv\<close> the store object: the tables, the cached tip
  (\<open>_prev_hash\<close>), the columns of the audit table, SQLite's stack of savepoints with the
  tables they return to, the saved tips, and whether the connection is open. The \<open>async\<close> methods
  take a lock and call the synchronous one. An unordered \<open>SELECT\<close> lists the rows in the order of
  the table. Every writer of the store writes the state and then the ledger.
\<close>

section \<open>Tables\<close>

datatype tx_status = PENDING | COMMITTED | COMPENSATING | FAILED

record intent =
  i_subject :: string
  i_predicate :: string
  i_object :: string
  i_status :: tx_status
  i_timestamp :: rat
  i_error :: "string option"

record checkpoint =
  c_timestamp :: rat
  c_last_step :: int
  c_sessions :: int
  c_sops :: int
  c_facts :: int
  c_duration :: rat

record l0_counter =
  l_step_count :: int
  l_total_energy :: rat
  l_updated_at :: rat

record tables =
  base :: db
  intents :: "(string, intent) dict"
  checkpoints :: "(string, checkpoint) dict"
  counters :: "(string, l0_counter) dict"

record kv =
  tables :: tables
  prev_hash :: string
  cols :: audit_cols
  savepoints :: "(string \<times> tables) list"
  saved_hashes :: "(string, string) dict"
  conn_open :: bool

datatype kv_error = ConnectionClosed | Integrity | NoSuchSavepoint | ValueError

definition set_base :: "db \<Rightarrow> kv \<Rightarrow> kv" where
  "set_base d s = s\<lparr>tables := (tables s)\<lparr>base := d\<rparr>\<rparr>"

abbreviation kdb :: "kv \<Rightarrow> db" where
  "kdb s \<equiv> base (tables s)"

section \<open>Rows of state variables\<close>

record state_dict =
  sd_key :: string
  sd_value :: pyval
  sd_confidence :: rat
  sd_timestamp :: rat
  sd_metadata :: meta
  sd_value_hash :: "string option"
  sd_tampered :: bool

definition row_tampered :: "state_row \<Rightarrow> bool" where
  "row_tampered row =
     (case s_value_hash row of
        None \<Rightarrow> False
      | Some h \<Rightarrow> h \<noteq> [] \<and> sha256 (s_value row) \<noteq> h)"

definition stored_value :: "(ustr \<Rightarrow> rat) \<Rightarrow> string \<Rightarrow> pyval" where
  "stored_value fp val_raw =
     (let text = normalize_stored_text (to_ustr val_raw);
          val = (case json_loads fp text of Some v \<Rightarrow> v | None \<Rightarrow> VStr (of_ustr text))
      in case val of VStr s \<Rightarrow> VStr (of_ustr (normalize_stored_text (to_ustr s))) | v \<Rightarrow> v)"

definition stored_meta :: "(ustr \<Rightarrow> rat) \<Rightarrow> string option \<Rightarrow> meta" where
  "stored_meta fp meta_raw =
     (case meta_raw of
        None \<Rightarrow> []
      | Some m \<Rightarrow>
          if m = [] then []
          else case json_loads fp (normalize_stored_text (to_ustr m)) of
              Some (VDict d) \<Rightarrow> d
            | _ \<Rightarrow> [])"

definition row_to_state_dict :: "(ustr \<Rightarrow> rat) \<Rightarrow> string \<Rightarrow> state_row \<Rightarrow> state_dict" where
  "row_to_state_dict fp key row =
     (let tampered = row_tampered row; meta = stored_meta fp (s_metadata row) in
      \<lparr>sd_key = key, sd_value = stored_value fp (s_value row), sd_confidence = s_confidence row,
       sd_timestamp = s_timestamp row,
       sd_metadata = (if tampered then dset ''tampered'' (VBool True) meta else meta),
       sd_value_hash = s_value_hash row, sd_tampered = tampered\<rparr>)"

section \<open>Writing\<close>

definition set_state_row ::
  "string \<Rightarrow> string \<Rightarrow> rat \<Rightarrow> rat \<Rightarrow> string \<Rightarrow> string \<Rightarrow> db \<Rightarrow> db" where
  "set_state_row key val_json confidence timestamp meta_json val_hash d =
     d\<lparr>state_vars := dset key \<lparr>s_value = val_json, s_confidence = confidence, s_timestamp = timestamp,
         s_metadata = Some meta_json, s_value_hash = Some val_hash\<rparr> (state_vars d)\<rparr>"

definition delete_state_row :: "string \<Rightarrow> db \<Rightarrow> db \<times> bool" where
  "delete_state_row key d =
     (d\<lparr>state_vars := ddel key (state_vars d)\<rparr>, key \<in> set (dkeys (state_vars d)))"

text \<open>
  The second half of every writer: the ledger entry behind the last one, and the cached tip. When
  the insertion raises, what was written before stays, as the connection commits by itself.
\<close>

definition write_audit ::
  "(rat \<Rightarrow> string) \<Rightarrow> rat \<Rightarrow> string \<Rightarrow> string \<Rightarrow> string \<Rightarrow> rat \<Rightarrow> string \<Rightarrow> kv \<Rightarrow> kv \<times> (kv_error + unit)" where
  "write_audit fr now key val_hash val_json confidence reason s =
     (let r = next_row fr (kdb s) now key val_hash val_json confidence reason in
      case insert_audit_entry (cols s) r (kdb s) of
        Inl _ \<Rightarrow> (s, Inl Integrity)
      | Inr d \<Rightarrow> ((set_base d s)\<lparr>prev_hash := a_entry_hash r\<rparr>, Inr ()))"

definition ttl_meta :: "rat \<Rightarrow> int option \<Rightarrow> meta \<Rightarrow> meta" where
  "ttl_meta now ttl metadata =
     (case ttl of
        None \<Rightarrow> metadata
      | Some t \<Rightarrow> dset ''expires_at'' (VFloat (now + of_int t))
          (dset ''is_temporary'' (VBool True) (dset ''ttl'' (VInt t) metadata)))"

definition set_sync ::
  "(rat \<Rightarrow> string) \<Rightarrow> rat \<Rightarrow> string \<Rightarrow> pyval \<Rightarrow> float_arg \<Rightarrow> meta \<Rightarrow> string \<Rightarrow> int option \<Rightarrow> kv \<Rightarrow>
     kv \<times> (kv_error + unit)" where
  "set_sync fr now key value conf metadata reason ttl s =
     (let confidence = clamp_conf conf;
          meta = ttl_meta now ttl metadata;
          val_json = json_dumps fr value;
          meta_json = json_dumps fr (VDict meta);
          val_hash = sha256 val_json
      in if \<not> conn_open s then (s, Inl ConnectionClosed)
         else
           let s1 = set_base (set_state_row key val_json confidence now meta_json val_hash (kdb s)) s
           in write_audit fr now key val_hash val_json confidence reason s1)"

definition delete_sync :: "(rat \<Rightarrow> string) \<Rightarrow> rat \<Rightarrow> string \<Rightarrow> kv \<Rightarrow> kv \<times> (kv_error + bool)" where
  "delete_sync fr now key s =
     (if \<not> conn_open s then (s, Inl ConnectionClosed)
      else
        let (d, deleted) = delete_state_row key (kdb s);
            s1 = set_base d s
        in if deleted then
             (case write_audit fr now key (sha256 deleted_json) deleted_json 0 ''delete'' s1 of
                (s2, Inl e) \<Rightarrow> (s2, Inl e)
              | (s2, Inr _) \<Rightarrow> (s2, Inr True))
           else (s1, Inr False))"

section \<open>Reading\<close>

definition get_state :: "(ustr \<Rightarrow> rat) \<Rightarrow> db \<Rightarrow> string \<Rightarrow> state_dict option" where
  "get_state fp d key =
     (case dget (state_vars d) key of
        Some row \<Rightarrow> Some (row_to_state_dict fp key row)
      | None \<Rightarrow>
          (case filter (\<lambda>(k, _). py_lower k = py_lower key) (state_vars d) of
             [] \<Rightarrow> None
           | (k, row) # _ \<Rightarrow> Some (row_to_state_dict fp k row)))"

definition get_sync :: "(ustr \<Rightarrow> rat) \<Rightarrow> string \<Rightarrow> kv \<Rightarrow> kv_error + state_dict option" where
  "get_sync fp key s = (if conn_open s then Inr (get_state fp (kdb s) key) else Inl ConnectionClosed)"

definition rows_to_dict :: "(ustr \<Rightarrow> rat) \<Rightarrow> (string, state_row) dict \<Rightarrow> (string, state_dict) dict" where
  "rows_to_dict fp rows = map (\<lambda>(k, row). (k, row_to_state_dict fp k row)) rows"

fun dict_join :: "('k, 'v) dict \<Rightarrow> ('k, 'v) dict \<Rightarrow> ('k, 'v) dict" where
  "dict_join d [] = d"
| "dict_join d ((k, v) # e) = dict_join (dset k v d) e"

definition get_states :: "(ustr \<Rightarrow> rat) \<Rightarrow> db \<Rightarrow> string list \<Rightarrow> (string, state_dict) dict" where
  "get_states fp d ks =
     (if ks = [] then []
      else
        let rows = filter (\<lambda>(k, _). k \<in> set ks) (state_vars d);
            found_keys = set (dkeys rows) \<union> py_lower ` set (dkeys rows);
            result = rows_to_dict fp rows;
            missing = filter (\<lambda>k. k \<notin> found_keys \<and> py_lower k \<notin> found_keys) ks
        in if missing = [] then result
           else dict_join result
                  (rows_to_dict fp (filter (\<lambda>(k, _). py_lower k \<in> py_lower ` set missing) (state_vars d))))"

fun chunk500 :: "nat \<Rightarrow> string list \<Rightarrow> string list list" where
  "chunk500 0 xs = []"
| "chunk500 (Suc n) xs = (if xs = [] then [] else take 500 xs # chunk500 n (drop 500 xs))"

definition existing_in_chunk :: "db \<Rightarrow> string set \<Rightarrow> string list \<Rightarrow> string set" where
  "existing_in_chunk d found chunk =
     (let found1 = found \<union> {k \<in> set (dkeys (state_vars d)). k \<in> set chunk};
          missing = filter (\<lambda>k. k \<notin> found1 \<and> py_lower k \<notin> py_lower ` found1) chunk
      in found1 \<union> {k \<in> set (dkeys (state_vars d)). py_lower k \<in> py_lower ` set missing})"

definition filter_existing_keys :: "db \<Rightarrow> string list \<Rightarrow> string set" where
  "filter_existing_keys d ks =
     (let clean_keys = filter (\<lambda>k. k \<noteq> []) ks in
      foldl (existing_in_chunk d) {} (chunk500 (length clean_keys) clean_keys))"

definition count_sync :: "kv \<Rightarrow> kv_error + nat" where
  "count_sync s = (if conn_open s then Inr (length (state_vars (kdb s))) else Inl ConnectionClosed)"

definition get_all :: "(ustr \<Rightarrow> rat) \<Rightarrow> int \<Rightarrow> int \<Rightarrow> db \<Rightarrow> (string, state_dict) dict" where
  "get_all fp limit offset d =
     (let eff_limit = max 1 (min limit 5000); eff_offset = max 0 offset in
      rows_to_dict fp (take (nat eff_limit) (drop (nat eff_offset) (sort_key fst (state_vars d)))))"

definition get_all_sync ::
  "(ustr \<Rightarrow> rat) \<Rightarrow> int \<Rightarrow> int \<Rightarrow> bool \<Rightarrow> kv \<Rightarrow> kv_error + (string, state_dict) dict" where
  "get_all_sync fp limit offset paged s =
     (if \<not> paged then Inl ValueError
      else if \<not> conn_open s then Inl ConnectionClosed
      else Inr (get_all fp limit offset (kdb s)))"

text \<open>\<open>ORDER BY timestamp DESC LIMIT ?\<close>; a negative limit is none. The answer is oldest first.\<close>

definition get_recent :: "(ustr \<Rightarrow> rat) \<Rightarrow> rat \<Rightarrow> rat \<Rightarrow> int \<Rightarrow> db \<Rightarrow> state_dict list" where
  "get_recent fp now max_age_seconds limit d =
     (let cutoff_ts = now - max_age_seconds;
          rows = sort_key (\<lambda>(k, row). - s_timestamp row)
                   (filter (\<lambda>(k, row). cutoff_ts \<le> s_timestamp row) (state_vars d));
          rows' = (if limit < 0 then rows else take (nat limit) rows)
      in rev (map (\<lambda>(k, row). row_to_state_dict fp k row) rows'))"

text \<open>SQL \<open>LIKE\<close> on code points: \<open>%\<close> any text, \<open>_\<close> one code point, ASCII letters of either case.\<close>

definition ulower :: "nat \<Rightarrow> nat" where
  "ulower c = (if 65 \<le> c \<and> c \<le> 90 then c + 32 else c)"

function sql_like_u :: "ustr \<Rightarrow> ustr \<Rightarrow> bool" where
  "sql_like_u [] s = (s = [])"
| "sql_like_u (p # ps) [] = (p = 37 \<and> sql_like_u ps [])"
| "sql_like_u (p # ps) (c # s) =
     (if p = 37 then sql_like_u ps (c # s) \<or> sql_like_u (p # ps) s
      else (p = 95 \<or> ulower p = ulower c) \<and> sql_like_u ps s)"
  by pat_completeness auto
termination by (relation "measure (\<lambda>(p, s). length p + length s)") auto

definition sql_like :: "string \<Rightarrow> string \<Rightarrow> bool" where
  "sql_like pat s = sql_like_u (to_ustr pat) (to_ustr s)"

definition purge_match :: "string \<Rightarrow> string \<Rightarrow> bool" where
  "purge_match p k = (if CHR ''%'' \<in> set p then sql_like p k else k = p)"

fun purge_loop :: "string list \<Rightarrow> db \<Rightarrow> nat \<Rightarrow> db \<times> nat" where
  "purge_loop [] d total_deleted = (d, total_deleted)"
| "purge_loop (p # ps) d total_deleted =
     (let rest = filter (\<lambda>(k, _). \<not> purge_match p k) (state_vars d) in
      purge_loop ps (d\<lparr>state_vars := rest\<rparr>) (total_deleted + (length (state_vars d) - length rest)))"

definition purge_stale_probe_keys :: "string list \<Rightarrow> kv \<Rightarrow> kv \<times> (kv_error + nat)" where
  "purge_stale_probe_keys pats s =
     (if pats = [] then (s, Inl ValueError)
      else if \<not> conn_open s then (s, Inl ConnectionClosed)
      else let (d, n) = purge_loop pats (kdb s) 0 in (set_base d s, Inr n))"

section \<open>Ledger operations of the store\<close>

definition verify_audit_log_sync ::
  "(rat \<Rightarrow> string) \<Rightarrow> bool \<Rightarrow> kv \<Rightarrow> kv \<times> (kv_error + bool \<times> int)" where
  "verify_audit_log_sync fr deep s =
     (if \<not> conn_open s then (s, Inl ConnectionClosed)
      else
        let (is_valid, broken_seq, last_hash) = verify_audit_log fr (cols s) deep (kdb s) in
        (if is_valid \<and> last_hash \<noteq> zeros64 then s\<lparr>prev_hash := last_hash\<rparr> else s,
         Inr (is_valid, broken_seq)))"

definition heal_chain_sync :: "(rat \<Rightarrow> string) \<Rightarrow> kv \<Rightarrow> kv \<times> (kv_error + nat \<times> bool)" where
  "heal_chain_sync fr s =
     (if \<not> conn_open s then (s, Inl ConnectionClosed)
      else
        let (d, count, ok, last_hash) = heal_audit_log_chain fr (cols s) (kdb s) in
        ((set_base d s)\<lparr>prev_hash := last_hash\<rparr>, Inr (count, ok)))"

definition append_log_sync ::
  "(rat \<Rightarrow> string) \<Rightarrow> rat \<Rightarrow> audit_entry \<Rightarrow> kv \<Rightarrow> kv \<times> (kv_error + string)" where
  "append_log_sync fr clock entry s =
     (if \<not> conn_open s then (s, Inl ConnectionClosed)
      else case append_audit_log fr clock (cols s) entry (kdb s) of
          Inl _ \<Rightarrow> (s, Inl Integrity)
        | Inr (d, entry_hash) \<Rightarrow> ((set_base d s)\<lparr>prev_hash := entry_hash\<rparr>, Inr entry_hash))"

definition redact_sync ::
  "rat \<Rightarrow> string \<Rightarrow> int \<Rightarrow> string \<Rightarrow> string option \<Rightarrow> kv \<Rightarrow> kv \<times> (kv_error + redaction_result)" where
  "redact_sync now today seq reason redacted_value s =
     (if \<not> conn_open s then (s, Inl ConnectionClosed)
      else let (d, r) = redact_audit_entry now today seq reason redacted_value (kdb s)
           in (set_base d s, Inr r))"

definition authorize_sync ::
  "rat \<Rightarrow> int \<Rightarrow> string \<Rightarrow> string \<Rightarrow> string \<Rightarrow> kv \<Rightarrow> kv \<times> (kv_error + redaction_result)" where
  "authorize_sync now seq key value_hash reason s =
     (if \<not> conn_open s then (s, Inl ConnectionClosed)
      else let (d, r) = authorize_redaction now seq key value_hash reason (kdb s)
           in (set_base d s, Inr r))"

definition get_latest_audit_hash :: "kv \<Rightarrow> kv_error + string" where
  "get_latest_audit_hash s =
     (if conn_open s then Inr (snd (get_last_entry (kdb s))) else Inl ConnectionClosed)"

section \<open>Transaction intents\<close>

definition set_intents :: "(string, intent) dict \<Rightarrow> kv \<Rightarrow> kv" where
  "set_intents d s = s\<lparr>tables := (tables s)\<lparr>intents := d\<rparr>\<rparr>"

definition create_intent ::
  "rat \<Rightarrow> string \<Rightarrow> string \<Rightarrow> string \<Rightarrow> string \<Rightarrow> kv \<Rightarrow> kv \<times> (kv_error + unit)" where
  "create_intent now tx_id subj predicate obj s =
     (if \<not> conn_open s then (s, Inl ConnectionClosed)
      else if tx_id \<in> set (dkeys (intents (tables s))) then (s, Inl Integrity)
      else (set_intents (dset tx_id \<lparr>i_subject = subj, i_predicate = predicate, i_object = obj,
               i_status = PENDING, i_timestamp = now, i_error = None\<rparr> (intents (tables s))) s, Inr ()))"

definition update_intent :: "string \<Rightarrow> (intent \<Rightarrow> intent) \<Rightarrow> (string, intent) dict \<Rightarrow> (string, intent) dict" where
  "update_intent tx_id f d = map (\<lambda>(k, i). (k, if k = tx_id then f i else i)) d"

definition mark_committed :: "string \<Rightarrow> kv \<Rightarrow> kv \<times> (kv_error + unit)" where
  "mark_committed tx_id s =
     (if \<not> conn_open s then (s, Inl ConnectionClosed)
      else (set_intents (update_intent tx_id (\<lambda>i. i\<lparr>i_status := COMMITTED\<rparr>) (intents (tables s))) s, Inr ()))"

definition mark_failed :: "string \<Rightarrow> string \<Rightarrow> kv \<Rightarrow> kv \<times> (kv_error + unit)" where
  "mark_failed tx_id err s =
     (if \<not> conn_open s then (s, Inl ConnectionClosed)
      else (set_intents (update_intent tx_id (\<lambda>i. i\<lparr>i_status := FAILED, i_error := Some err\<rparr>)
              (intents (tables s))) s, Inr ()))"

definition get_dangling_intents :: "kv \<Rightarrow> kv_error + (string \<times> intent) list" where
  "get_dangling_intents s =
     (if \<not> conn_open s then Inl ConnectionClosed
      else Inr (filter (\<lambda>(k, i). i_status i = PENDING) (intents (tables s))))"

section \<open>Sleep checkpoints\<close>

definition record_checkpoint ::
  "string \<Rightarrow> checkpoint \<Rightarrow> (string, checkpoint) dict \<Rightarrow> kv_error + (string, checkpoint) dict \<times> bool" where
  "record_checkpoint checkpoint_id c d =
     (if checkpoint_id = [] then Inl ValueError
      else if checkpoint_id \<in> set (dkeys d) then Inr (d, False)
      else Inr (dset checkpoint_id c d, True))"

definition checkpoint_json :: "(rat \<Rightarrow> string) \<Rightarrow> checkpoint \<Rightarrow> string" where
  "checkpoint_json fr c =
     json_dumps fr (VDict [(''last_processed_step_id'', VInt (c_last_step c)),
       (''sessions_consolidated'', VInt (c_sessions c)), (''sops_baked'', VInt (c_sops c)),
       (''facts_superseded'', VInt (c_facts c)), (''duration_ms'', VFloat (c_duration c))])"

definition record_sleep_checkpoint ::
  "(rat \<Rightarrow> string) \<Rightarrow> string \<Rightarrow> checkpoint \<Rightarrow> kv \<Rightarrow> kv \<times> (kv_error + bool)" where
  "record_sleep_checkpoint fr checkpoint_id c s =
     (if checkpoint_id = [] then (s, Inl ValueError)
      else if \<not> conn_open s then (s, Inl ConnectionClosed)
      else case record_checkpoint checkpoint_id c (checkpoints (tables s)) of
          Inl e \<Rightarrow> (s, Inl e)
        | Inr (d, created) \<Rightarrow>
            (let s1 = s\<lparr>tables := (tables s)\<lparr>checkpoints := d\<rparr>\<rparr>; val_json = checkpoint_json fr c in
             if \<not> created then (s1, Inr False)
             else case write_audit fr (c_timestamp c) checkpoint_id (sha256 val_json) val_json 1
                         ''sleep_checkpoint'' s1 of
                 (s2, Inl e) \<Rightarrow> (s2, Inl e)
               | (s2, Inr _) \<Rightarrow> (s2, Inr True)))"

definition get_checkpoint :: "string \<Rightarrow> kv \<Rightarrow> kv_error + checkpoint option" where
  "get_checkpoint checkpoint_id s =
     (if conn_open s then Inr (dget (checkpoints (tables s)) checkpoint_id) else Inl ConnectionClosed)"

definition list_checkpoints :: "int \<Rightarrow> kv \<Rightarrow> kv_error + (string \<times> checkpoint) list" where
  "list_checkpoints limit s =
     (if conn_open s
      then Inr (take (nat (max 1 (min limit 5000)))
                  (sort_key (\<lambda>(k, c). - c_timestamp c) (checkpoints (tables s))))
      else Inl ConnectionClosed)"

definition count_checkpoints :: "kv \<Rightarrow> kv_error + nat" where
  "count_checkpoints s =
     (if conn_open s then Inr (length (checkpoints (tables s))) else Inl ConnectionClosed)"

section \<open>The step counter\<close>

definition ttt_counter :: string where
  "ttt_counter = ''ttt''"

definition save_step_counter ::
  "rat \<Rightarrow> int \<Rightarrow> rat \<Rightarrow> (string, l0_counter) dict \<Rightarrow> (string, l0_counter) dict" where
  "save_step_counter now step_count total_energy d =
     (case dget d ttt_counter of
        None \<Rightarrow> dset ttt_counter \<lparr>l_step_count = step_count, l_total_energy = total_energy,
                  l_updated_at = now\<rparr> d
      | Some c \<Rightarrow> dset ttt_counter \<lparr>l_step_count = max (l_step_count c) step_count,
                  l_total_energy = max (l_total_energy c) total_energy, l_updated_at = now\<rparr> d)"

definition save_l0_step_counter :: "rat \<Rightarrow> int \<Rightarrow> rat \<Rightarrow> kv \<Rightarrow> kv \<times> (kv_error + unit)" where
  "save_l0_step_counter now step_count total_energy s =
     (if \<not> conn_open s then (s, Inl ConnectionClosed)
      else (s\<lparr>tables := (tables s)\<lparr>counters :=
              save_step_counter now step_count total_energy (counters (tables s))\<rparr>\<rparr>, Inr ()))"

definition load_l0_step_counter :: "kv \<Rightarrow> kv_error + l0_counter option" where
  "load_l0_step_counter s =
     (if conn_open s then Inr (dget (counters (tables s)) ttt_counter) else Inl ConnectionClosed)"

section \<open>Savepoints\<close>

definition savepoint :: "string \<Rightarrow> kv \<Rightarrow> kv \<times> (kv_error + unit)" where
  "savepoint name s =
     (if \<not> conn_open s then (s, Inl ConnectionClosed)
      else (s\<lparr>savepoints := (name, tables s) # savepoints s,
              saved_hashes := dset name (prev_hash s) (saved_hashes s)\<rparr>, Inr ()))"

text \<open>\<open>ROLLBACK TO\<close> and \<open>RELEASE\<close> find the innermost savepoint of that name and drop what is inside it.\<close>

definition find_savepoint :: "string \<Rightarrow> (string \<times> tables) list \<Rightarrow> (string \<times> tables) list" where
  "find_savepoint name sps = dropWhile (\<lambda>(n, _). n \<noteq> name) sps"

definition rollback_savepoint :: "string \<Rightarrow> kv \<Rightarrow> kv \<times> (kv_error + unit)" where
  "rollback_savepoint name s =
     (if \<not> conn_open s then (s, Inl ConnectionClosed)
      else case find_savepoint name (savepoints s) of
          [] \<Rightarrow> (s, Inl NoSuchSavepoint)
        | (_, saved) # outer \<Rightarrow>
            (let s1 = s\<lparr>tables := saved, savepoints := outer\<rparr> in
             case dget (saved_hashes s) name of
               Some h \<Rightarrow> (s1\<lparr>prev_hash := h, saved_hashes := ddel name (saved_hashes s)\<rparr>, Inr ())
             | None \<Rightarrow> (s1\<lparr>prev_hash := snd (get_last_entry (kdb s1))\<rparr>, Inr ())))"

definition release_savepoint :: "string \<Rightarrow> kv \<Rightarrow> kv \<times> (kv_error + unit)" where
  "release_savepoint name s =
     (if \<not> conn_open s then (s, Inl ConnectionClosed)
      else case find_savepoint name (savepoints s) of
          [] \<Rightarrow> (s, Inl NoSuchSavepoint)
        | _ # outer \<Rightarrow>
            (s\<lparr>savepoints := outer, saved_hashes := ddel name (saved_hashes s)\<rparr>, Inr ()))"

text \<open>Closing the connection rolls an open savepoint back, as SQLite does.\<close>

definition close_sync :: "kv \<Rightarrow> kv" where
  "close_sync s =
     (if \<not> conn_open s then s
      else s\<lparr>conn_open := False,
             tables := (if savepoints s = [] then tables s else snd (last (savepoints s))),
             savepoints := []\<rparr>)"

section \<open>What every write leaves alone\<close>

definition kv_frame :: "kv \<Rightarrow> kv \<Rightarrow> bool" where
  "kv_frame s s' \<longleftrightarrow> cols s' = cols s \<and> conn_open s' = conn_open s \<and> savepoints s' = savepoints s
     \<and> saved_hashes s' = saved_hashes s"

lemma kv_frame_refl [simp, intro]: "kv_frame s s"
  by (simp add: kv_frame_def)

lemma kv_frame_trans: "kv_frame s s' \<Longrightarrow> kv_frame s' s'' \<Longrightarrow> kv_frame s s''"
  by (simp add: kv_frame_def)

named_theorems kv_simps \<open>fields of the store after a write\<close>

lemma set_base_simps [kv_simps, simp]:
  "kdb (set_base d s) = d" "cols (set_base d s) = cols s" "conn_open (set_base d s) = conn_open s"
  "savepoints (set_base d s) = savepoints s" "saved_hashes (set_base d s) = saved_hashes s"
  "prev_hash (set_base d s) = prev_hash s" "intents (tables (set_base d s)) = intents (tables s)"
  "checkpoints (tables (set_base d s)) = checkpoints (tables s)"
  "counters (tables (set_base d s)) = counters (tables s)"
  by (simp_all add: set_base_def)

lemma frame_set_base [intro, simp]: "kv_frame s (set_base d s)"
  by (simp add: kv_frame_def)

lemma frame_write_audit: "kv_frame s (fst (write_audit fr now k vh vj c reason s))"
  by (auto simp: write_audit_def Let_def kv_frame_def split: sum.split)

lemma frame_set: "kv_frame s (fst (set_sync fr now key v c md reason ttl s))"
  by (auto simp: set_sync_def Let_def intro: kv_frame_trans [OF frame_set_base frame_write_audit])

lemma frame_delete: "kv_frame s (fst (delete_sync fr now key s))"
proof -
  let ?s = "set_base (fst (delete_state_row key (kdb s))) s"
  have "kv_frame s (fst (write_audit fr now key (sha256 deleted_json) deleted_json 0 ''delete'' ?s))"
    by (rule kv_frame_trans [OF frame_set_base frame_write_audit])
  then show ?thesis
    by (auto simp: delete_sync_def Let_def case_prod_beta split: sum.split)
qed

lemma frame_purge: "kv_frame s (fst (purge_stale_probe_keys ps s))"
  by (auto simp: purge_stale_probe_keys_def case_prod_beta)

lemma frame_heal: "kv_frame s (fst (heal_chain_sync fr s))"
  by (auto simp: heal_chain_sync_def case_prod_beta kv_frame_def)

lemma frame_append: "kv_frame s (fst (append_log_sync fr clock e s))"
  by (auto simp: append_log_sync_def kv_frame_def split: sum.split)

lemma frame_redact: "kv_frame s (fst (redact_sync now today seq reason rv s))"
  by (auto simp: redact_sync_def case_prod_beta)

lemma frame_authorize: "kv_frame s (fst (authorize_sync now seq key vh reason s))"
  by (auto simp: authorize_sync_def case_prod_beta)

lemma frame_intents:
  "kv_frame s (fst (create_intent now tx a b c s))"
  "kv_frame s (fst (mark_committed tx s))"
  "kv_frame s (fst (mark_failed tx err s))"
  by (simp_all add: create_intent_def mark_committed_def mark_failed_def kv_frame_def set_intents_def)

lemma frame_counter: "kv_frame s (fst (save_l0_step_counter now n e s))"
  by (simp add: save_l0_step_counter_def kv_frame_def)

lemma frame_checkpoint: "kv_frame s (fst (record_sleep_checkpoint fr cid c s))"
proof -
  have "kv_frame s (s\<lparr>tables := t\<rparr>)" for t by (simp add: kv_frame_def)
  note kv_frame_trans [OF this frame_write_audit]
  then show ?thesis
    by (auto simp: record_sleep_checkpoint_def record_checkpoint_def Let_def case_prod_beta kv_frame_def
        split: sum.split)
qed

lemma frame_verify: "kv_frame s (fst (verify_audit_log_sync fr deep s))"
  by (auto simp: verify_audit_log_sync_def case_prod_beta kv_frame_def)

text \<open>The writes of the store, as steps.\<close>

inductive kv_step :: "kv \<Rightarrow> kv \<Rightarrow> bool" where
  kv_set: "kv_step s (fst (set_sync fr now key v c md reason ttl s))"
| kv_delete: "kv_step s (fst (delete_sync fr now key s))"
| kv_purge: "kv_step s (fst (purge_stale_probe_keys ps s))"
| kv_heal: "kv_step s (fst (heal_chain_sync fr s))"
| kv_append: "kv_step s (fst (append_log_sync fr clock e s))"
| kv_redact: "kv_step s (fst (redact_sync now today seq reason rv s))"
| kv_authorize: "kv_step s (fst (authorize_sync now seq key vh reason s))"
| kv_create: "kv_step s (fst (create_intent now tx a b c' s))"
| kv_commit: "kv_step s (fst (mark_committed tx s))"
| kv_fail: "kv_step s (fst (mark_failed tx err s))"
| kv_counter: "kv_step s (fst (save_l0_step_counter now n en s))"
| kv_checkpoint: "kv_step s (fst (record_sleep_checkpoint fr cid ck s))"
| kv_verify: "kv_step s (fst (verify_audit_log_sync fr deep s))"

lemma frame_step: "kv_step s s' \<Longrightarrow> kv_frame s s'"
  by (induction rule: kv_step.induct)
    (simp_all add: frame_set frame_delete frame_purge frame_heal frame_append frame_redact
      frame_authorize frame_intents frame_counter frame_checkpoint frame_verify)

lemma frame_steps: "kv_step\<^sup>*\<^sup>* s s' \<Longrightarrow> kv_frame s s'"
  by (induction rule: rtranclp_induct) (auto intro: kv_frame_trans frame_step)

section \<open>Valid stores\<close>

definition kv_valid :: "(rat \<Rightarrow> string) \<Rightarrow> kv \<Rightarrow> bool" where
  "kv_valid fr s \<longleftrightarrow> conn_open s \<and> has_new_value (cols s) \<and> wf_db (kdb s)
     \<and> verify_audit_log fr (cols s) True (kdb s) = (True, 0, prev_hash s)"

lemma in_set_dset: "wf_dict d \<Longrightarrow> p \<in> set (dset k v d) \<Longrightarrow> p = (k, v) \<or> p \<in> set d \<and> fst p \<noteq> k"
  by (induction d) (auto simp: wf_dict_Cons split: if_splits)

lemma in_set_ddel: "p \<in> set (ddel k d) \<longleftrightarrow> p \<in> set d \<and> fst p \<noteq> k"
  by (auto simp: AList.delete_eq)

text \<open>A write to the ledger of a store whose chain verifies succeeds.\<close>

lemma write_audit_ok:
  assumes "wf_log (audit_log (kdb s))" "has_new_value (cols s)"
    and "verify_audit_log fr (cols s) False (kdb s) = (True, 0, t)"
    and "r = next_row fr (kdb s) now key vh vj c reason"
  shows "write_audit fr now key vh vj c reason s =
      ((set_base ((kdb s)\<lparr>audit_log := audit_log (kdb s) @ [r]\<rparr>) s)\<lparr>prev_hash := a_entry_hash r\<rparr>, Inr ())"
    and "wf_log (audit_log (kdb s) @ [r])"
    and "a_prev_hash r = t"
  using insert_next_row [OF assms(1,3,2,4)] unfolding assms(4)
  by (auto simp: write_audit_def Let_def)

lemma verify_shallow_of_deep:
  "verify_audit_log fr c True d = (True, 0, t) \<Longrightarrow> verify_audit_log fr c False d = (True, 0, t)"
  by (simp add: verify_deep_iff verify_shallow_iff)

lemma verify_shallow_log:
  "audit_log d' = audit_log d \<Longrightarrow> verify_audit_log fr c False d' = (True, 0, t) \<longleftrightarrow>
     verify_audit_log fr c False d = (True, 0, t)"
  by (simp add: verify_shallow_iff)

text \<open>
  The shape of \<open>set\<close> and \<open>delete\<close>: state first, ledger second. The deep verification of the
  result needs the new entry's value to match its hash and every state variable to match its
  latest entry.
\<close>

lemma state_then_audit:
  assumes "kv_valid fr s" "audit_log d = audit_log (kdb s)" "redactions d = redactions (kdb s)"
    and "wf_dict (state_vars d)"
    and "r = next_row fr d now key (sha256 vj) vj c reason"
    and "\<forall>p \<in> set (state_vars d). state_ok (d\<lparr>audit_log := audit_log d @ [r]\<rparr>) p"
  shows "\<exists>s'. write_audit fr now key (sha256 vj) vj c reason (set_base d s) = (s', Inr ())
    \<and> kv_valid fr s' \<and> kdb s' = d\<lparr>audit_log := audit_log d @ [r]\<rparr> \<and> prev_hash s' = a_entry_hash r"
proof -
  have v: "conn_open s" "has_new_value (cols s)" "wf_log (audit_log d)" "wf_dict (redactions d)"
    and deep: "verify_audit_log fr (cols s) True (kdb s) = (True, 0, prev_hash s)"
    using assms(1-3) by (simp_all add: kv_valid_def wf_db_def)
  have sh: "verify_audit_log fr (cols s) False d = (True, 0, prev_hash s)"
    using verify_shallow_of_deep [OF deep] verify_shallow_log [OF assms(2)] by simp
  note w = write_audit_ok [of "set_base d s", unfolded set_base_simps, OF v(3,2) sh assms(5)]
  let ?d = "d\<lparr>audit_log := audit_log d @ [r]\<rparr>"
  let ?s = "(set_base ?d (set_base d s))\<lparr>prev_hash := a_entry_hash r\<rparr>"
  have h: "a_entry_hash r = sha256 (row_payload fr r)" by (simp add: assms(5))
  have acc: "value_accepted d r" by (rule value_accepted_sha) (simp_all add: assms(5))
  have old: "\<forall>x \<in> set (audit_log d). value_accepted d x"
    using deep v(2) assms(2) value_accepted_cong [OF assms(3)] by (auto simp: verify_deep_iff)
  have "verify_audit_log fr (cols s) True ?d = (True, 0, a_entry_hash r)"
    using sh w(3) h acc old assms(6) value_accepted_cong [of ?d d]
    by (auto simp: verify_deep_iff verify_shallow_iff chain_simps verify_states_None)
  then have "kv_valid fr ?s"
    using v w(2) assms(4) by (simp add: kv_valid_def wf_db_def)
  with w(1) show ?thesis by (intro exI [of _ ?s]) simp
qed

section \<open>The store as an interface\<close>

text \<open>
  What the components above the store rely on: operations that keep it valid and only append to
  its ledger.
\<close>

locale append_only_store =
  fixes valid :: "'s \<Rightarrow> bool"
    and ledger :: "'s \<Rightarrow> 'r list"
    and exec :: "'op \<Rightarrow> 's \<Rightarrow> 's"
    and allowed :: "'op \<Rightarrow> bool"
  assumes exec_valid: "valid s \<Longrightarrow> allowed op \<Longrightarrow> valid (exec op s)"
    and exec_ledger: "valid s \<Longrightarrow> allowed op \<Longrightarrow> prefix (ledger s) (ledger (exec op s))"
begin

definition execs :: "'op list \<Rightarrow> 's \<Rightarrow> 's" where
  "execs ops s = foldl (\<lambda>s op. exec op s) s ops"

lemma execs_simps [simp]: "execs [] s = s" "execs (op # ops) s = execs ops (exec op s)"
  by (simp_all add: execs_def)

lemma execs_valid: "valid s \<Longrightarrow> list_all allowed ops \<Longrightarrow> valid (execs ops s)"
  by (induction ops arbitrary: s) (auto intro: exec_valid)

lemma execs_ledger: "valid s \<Longrightarrow> list_all allowed ops \<Longrightarrow> prefix (ledger s) (ledger (execs ops s))"
proof (induction ops arbitrary: s)
  case (Cons op ops)
  then have "prefix (ledger s) (ledger (exec op s))" by (auto intro: exec_ledger)
  also have "prefix (ledger (exec op s)) (ledger (execs ops (exec op s)))"
    using Cons by (auto intro: exec_valid)
  finally show ?case by simp
qed simp

end

text \<open>The two operations on state variables, as the store executes them.\<close>

datatype kv_op =
    OpSet rat string pyval float_arg meta string "int option"
  | OpDelete rat string

fun kv_exec :: "(rat \<Rightarrow> string) \<Rightarrow> kv_op \<Rightarrow> kv \<Rightarrow> kv" where
  "kv_exec fr (OpSet now key v c md reason ttl) s = fst (set_sync fr now key v c md reason ttl s)"
| "kv_exec fr (OpDelete now key) s = fst (delete_sync fr now key s)"

fun op_allowed :: "kv_op \<Rightarrow> bool" where
  "op_allowed (OpSet now key v c md reason ttl) = (reason \<noteq> ''delete'')"
| "op_allowed (OpDelete now key) = True"

fun op_key :: "kv_op \<Rightarrow> string" where
  "op_key (OpSet now key v c md reason ttl) = key"
| "op_key (OpDelete now key) = key"

lemma set_sync_valid:
  assumes "kv_valid fr s" "reason \<noteq> ''delete''"
  shows "\<exists>s' r. set_sync fr now key v c md reason ttl s = (s', Inr ()) \<and> kv_valid fr s'
    \<and> audit_log (kdb s') = audit_log (kdb s) @ [r]
    \<and> a_key r = key \<and> a_new_value r = Some (json_dumps fr v) \<and> a_confidence r = FNum (clamp_conf c)
    \<and> a_reason r = reason
    \<and> dget (state_vars (kdb s')) key = Some \<lparr>s_value = json_dumps fr v, s_confidence = clamp_conf c,
        s_timestamp = now, s_metadata = Some (json_dumps fr (VDict (ttl_meta now ttl md))),
        s_value_hash = Some (sha256 (json_dumps fr v))\<rparr>
    \<and> (\<forall>k. k \<noteq> key \<longrightarrow> dget (state_vars (kdb s')) k = dget (state_vars (kdb s)) k)
    \<and> prev_hash s' = a_entry_hash r \<and> a_prev_hash r = prev_hash s"
proof -
  define vj where "vj = json_dumps fr v"
  define row where "row = \<lparr>s_value = vj, s_confidence = clamp_conf c, s_timestamp = now,
    s_metadata = Some (json_dumps fr (VDict (ttl_meta now ttl md))), s_value_hash = Some (sha256 vj)\<rparr>"
  define d where "d = (kdb s)\<lparr>state_vars := dset key row (state_vars (kdb s))\<rparr>"
  define r where "r = next_row fr d now key (sha256 vj) vj (clamp_conf c) reason"
  have wf: "wf_dict (state_vars (kdb s))" and co: "conn_open s"
    and deep: "verify_audit_log fr (cols s) True (kdb s) = (True, 0, prev_hash s)"
    using assms(1) by (simp_all add: kv_valid_def wf_db_def)
  have "\<forall>p \<in> set (state_vars d). state_ok (d\<lparr>audit_log := audit_log d @ [r]\<rparr>) p"
  proof
    fix p assume "p \<in> set (state_vars d)"
    then consider "p = (key, row)" | "p \<in> set (state_vars (kdb s))" "fst p \<noteq> key"
      using in_set_dset [OF wf, of p key row] by (auto simp: d_def)
    then show "state_ok (d\<lparr>audit_log := audit_log d @ [r]\<rparr>) p"
    proof cases
      case 1
      then show ?thesis using assms(2) by (simp add: state_ok_def row_def r_def)
    next
      case 2
      then have "state_ok (kdb s) p" using deep by (simp add: verify_deep_iff verify_states_None)
      with 2 show ?thesis
        by (cases p) (auto simp: state_ok_def d_def r_def latest_audit_def split: option.splits)
    qed
  qed
  then obtain s' where s': "write_audit fr now key (sha256 vj) vj (clamp_conf c) reason (set_base d s) = (s', Inr ())"
      "kv_valid fr s'" "kdb s' = d\<lparr>audit_log := audit_log d @ [r]\<rparr>" "prev_hash s' = a_entry_hash r"
    using state_then_audit [OF assms(1) _ _ _ r_def] wf by (auto simp: d_def)
  have "set_sync fr now key v c md reason ttl s = (s', Inr ())"
    using s'(1) co by (simp add: set_sync_def Let_def set_state_row_def d_def row_def vj_def)
  moreover have "a_prev_hash r = prev_hash s"
  proof -
    have "get_last_entry d = get_last_entry (kdb s)" by (simp add: get_last_entry_def d_def)
    then show ?thesis
      using deep get_last_linked [of fr "kdb s"] by (simp add: r_def verify_deep_iff)
  qed
  ultimately show ?thesis using s'
    by (intro exI [of _ s'] exI [of _ r]) (simp add: d_def r_def row_def vj_def next_row_def case_prod_beta)
qed

lemma delete_sync_valid:
  assumes "kv_valid fr s"
  shows "\<exists>s'. delete_sync fr now key s = (s', Inr (key \<in> set (dkeys (state_vars (kdb s)))))
    \<and> kv_valid fr s' \<and> dget (state_vars (kdb s')) key = None
    \<and> (\<forall>k. k \<noteq> key \<longrightarrow> dget (state_vars (kdb s')) k = dget (state_vars (kdb s)) k)
    \<and> (if key \<in> set (dkeys (state_vars (kdb s)))
       then \<exists>r. audit_log (kdb s') = audit_log (kdb s) @ [r] \<and> a_key r = key
         \<and> a_new_value r = Some deleted_json \<and> a_confidence r = FNum 0 \<and> a_reason r = ''delete''
       else s' = s)"
proof -
  define d where "d = (kdb s)\<lparr>state_vars := ddel key (state_vars (kdb s))\<rparr>"
  define r where "r = next_row fr d now key (sha256 deleted_json) deleted_json 0 ''delete''"
  have wf: "wf_dict (state_vars (kdb s))" and co: "conn_open s"
    and deep: "verify_audit_log fr (cols s) True (kdb s) = (True, 0, prev_hash s)"
    using assms(1) by (simp_all add: kv_valid_def wf_db_def)
  show ?thesis
  proof (cases "key \<in> set (dkeys (state_vars (kdb s)))")
    case False
    then have "ddel key (state_vars (kdb s)) = state_vars (kdb s)"
      by (force simp: AList.delete_eq filter_id_conv)
    then have "delete_sync fr now key s = (s, Inr False)"
      using co False by (simp add: delete_sync_def delete_state_row_def set_base_def)
    moreover have "dget (state_vars (kdb s)) key = None" using False dget_None_iff by metis
    ultimately show ?thesis using assms False by auto
  next
    case True
    have "\<forall>p \<in> set (state_vars d). state_ok (d\<lparr>audit_log := audit_log d @ [r]\<rparr>) p"
    proof
      fix p assume "p \<in> set (state_vars d)"
      then have p: "p \<in> set (state_vars (kdb s))" "fst p \<noteq> key" by (simp_all add: d_def in_set_ddel)
      then have "state_ok (kdb s) p" using deep by (simp add: verify_deep_iff verify_states_None)
      with p show "state_ok (d\<lparr>audit_log := audit_log d @ [r]\<rparr>) p"
        by (cases p) (auto simp: state_ok_def d_def r_def latest_audit_def split: option.splits)
    qed
    then obtain s' where s': "write_audit fr now key (sha256 deleted_json) deleted_json 0 ''delete'' (set_base d s) = (s', Inr ())"
        "kv_valid fr s'" "kdb s' = d\<lparr>audit_log := audit_log d @ [r]\<rparr>"
      using state_then_audit [OF assms _ _ _ r_def] wf by (auto simp: d_def)
    have "delete_sync fr now key s = (s', Inr True)"
      using s'(1) co True by (simp add: delete_sync_def delete_state_row_def d_def)
    then show ?thesis using s' True by (auto simp: d_def r_def next_row_def case_prod_beta)
  qed
qed

lemma delete_sync_present:
  assumes "kv_valid fr s" "key \<in> set (dkeys (state_vars (kdb s)))" "delete_sync fr now key s = (s', x)"
  shows "\<exists>r. audit_log (kdb s') = audit_log (kdb s) @ [r] \<and> a_key r = key
    \<and> a_new_value r = Some deleted_json \<and> a_confidence r = FNum 0 \<and> a_reason r = ''delete''"
    and "kv_valid fr s'"
  using delete_sync_valid [OF assms(1), of now key] assms(2,3) by (simp_all only: if_True prod.inject) auto

lemma kv_exec_keeps:
  assumes "kv_valid fr s" "op_allowed op"
  shows "kv_valid fr (kv_exec fr op s) \<and> prefix (audit_log (kdb s)) (audit_log (kdb (kv_exec fr op s)))"
proof (cases op)
  case (OpSet now key v c md reason ttl)
  then show ?thesis
    using assms set_sync_valid [of fr s reason now key v c md ttl] by auto
next
  case (OpDelete now key)
  then show ?thesis
    using assms delete_sync_valid [of fr s now key] by (auto split: if_splits)
qed

interpretation kvs: append_only_store "kv_valid fr" "\<lambda>s. audit_log (kdb s)" "kv_exec fr" op_allowed
  for fr
  by unfold_locales (simp_all add: kv_exec_keeps)

section \<open>Properties\<close>

text \<open>
  C2: On a store that passes the deep verification, \<open>set\<close> succeeds (unless its reason is the word
  \<open>delete\<close>), the state variable holds the printed value with its hash, exactly one ledger entry is
  added, and the store passes the deep verification again with the new entry as its cached tip.
\<close>

theorem set_keeps_store_valid:
  assumes "kv_valid fr s" "reason \<noteq> ''delete''"
  shows "\<exists>s' r row. set_sync fr now key v c md reason ttl s = (s', Inr ())
    \<and> kv_valid fr s' \<and> audit_log (kdb s') = audit_log (kdb s) @ [r] \<and> prev_hash s' = a_entry_hash r
    \<and> a_key r = key \<and> a_prev_hash r = prev_hash s
    \<and> dget (state_vars (kdb s')) key = Some row \<and> s_value row = json_dumps fr v
    \<and> s_confidence row = clamp_conf c
    \<and> (\<forall>k. k \<noteq> key \<longrightarrow> dget (state_vars (kdb s')) k = dget (state_vars (kdb s)) k)"
  using set_sync_valid [OF assms, of now key v c md ttl] by fastforce

definition new_kv :: kv where
  "new_kv = \<lparr>tables = \<lparr>base = empty_db, intents = [], checkpoints = [], counters = []\<rparr>,
     prev_hash = zeros64, cols = full_cols, savepoints = [], saved_hashes = [], conn_open = True\<rparr>"

lemma new_kv_valid: "kv_valid fr new_kv"
  by (simp add: kv_valid_def new_kv_def full_cols_def wf_db_def wf_log_def empty_db_verifies)
    (simp add: empty_db_def)

theorem set_keeps_store_valid_witness:
  "\<exists>s' row. set_sync rat_text 5 ''fact:a'' (VInt 3) FNone [] ''update'' None new_kv = (s', Inr ())
    \<and> kv_valid rat_text s' \<and> dget (state_vars (kdb s')) ''fact:a'' = Some row"
  using set_keeps_store_valid [OF new_kv_valid, of "''update''" rat_text 5 "''fact:a''" "VInt 3" FNone "[]" None]
  by auto

text \<open>
  The reason of a write is free text, but the deep verification reads the word \<open>delete\<close> in it as a tombstone: a value written
  with that reason is stored and entered in the ledger, and the store it leaves fails its deep verification.
\<close>

theorem delete_as_reason_breaks_verification:
  assumes "kv_valid fr s"
  shows "\<exists>s' row. set_sync fr now key v c md ''delete'' ttl s = (s', Inr ())
    \<and> dget (state_vars (kdb s')) key = Some row \<and> s_value row = json_dumps fr v
    \<and> \<not> fst (verify_audit_log fr (cols s') True (kdb s'))"
proof -
  define vj where "vj = json_dumps fr v"
  define row where "row = \<lparr>s_value = vj, s_confidence = clamp_conf c, s_timestamp = now,
    s_metadata = Some (json_dumps fr (VDict (ttl_meta now ttl md))), s_value_hash = Some (sha256 vj)\<rparr>"
  define d where "d = (kdb s)\<lparr>state_vars := dset key row (state_vars (kdb s))\<rparr>"
  define r where "r = next_row fr d now key (sha256 vj) vj (clamp_conf c) ''delete''"
  have v: "conn_open s" "has_new_value (cols s)" "wf_log (audit_log d)"
    and deep: "verify_audit_log fr (cols s) True (kdb s) = (True, 0, prev_hash s)"
    using assms by (simp_all add: kv_valid_def wf_db_def d_def)
  have sh: "verify_audit_log fr (cols s) False d = (True, 0, prev_hash s)"
    using verify_shallow_of_deep [OF deep] verify_shallow_log [of d "kdb s"] by (simp add: d_def)
  let ?d = "d\<lparr>audit_log := audit_log d @ [r]\<rparr>"
  let ?s = "(set_base ?d (set_base d s))\<lparr>prev_hash := a_entry_hash r\<rparr>"
  have s': "set_sync fr now key v c md ''delete'' ttl s = (?s, Inr ())"
    using write_audit_ok(1) [of "set_base d s", unfolded set_base_simps, OF v(3,2) sh r_def] v(1)
    by (simp add: set_sync_def Let_def set_state_row_def d_def row_def vj_def)
  have get: "dget (state_vars ?d) key = Some row" by (simp add: d_def)
  then have "(key, row) \<in> set (state_vars ?d)" by (rule map_of_SomeD)
  moreover have "\<not> state_ok ?d (key, row)" by (simp add: state_ok_def row_def r_def)
  ultimately have "verify_states ?d (state_vars ?d) \<noteq> None" by (auto simp: verify_states_None)
  then have "\<not> fst (verify_audit_log fr (cols ?s) True (kdb ?s))"
    by (auto simp: verify_audit_log_def split: prod.splits option.splits)
  with s' get show ?thesis by (intro exI [of _ ?s] exI [of _ row]) (simp add: row_def vj_def)
qed

theorem delete_as_reason_breaks_verification_witness:
  "\<exists>s'. set_sync rat_text 5 ''fact:a'' (VInt 3) FNone [] ''delete'' None new_kv = (s', Inr ())
    \<and> \<not> fst (verify_audit_log rat_text (cols s') True (kdb s'))"
  using delete_as_reason_breaks_verification [OF new_kv_valid, of rat_text 5 "''fact:a''" "VInt 3" FNone "[]" None] by auto

text \<open>
  On a store that passes the deep verification, \<open>delete\<close> answers whether the key was there, removes
  it and only it, records a tombstone exactly if it was there, and leaves a store that passes again.
\<close>

theorem delete_keeps_store_valid:
  assumes "kv_valid fr s"
  shows "\<exists>s'. delete_sync fr now key s = (s', Inr (key \<in> set (dkeys (state_vars (kdb s)))))
    \<and> kv_valid fr s' \<and> dget (state_vars (kdb s')) key = None
    \<and> (\<forall>k. k \<noteq> key \<longrightarrow> dget (state_vars (kdb s')) k = dget (state_vars (kdb s)) k)
    \<and> length (audit_log (kdb s')) = length (audit_log (kdb s)) +
        (if key \<in> set (dkeys (state_vars (kdb s))) then 1 else 0)"
  using delete_sync_valid [OF assms, of now key] by (fastforce split: if_splits)

theorem delete_keeps_store_valid_witness:
  "\<exists>s'. delete_sync rat_text 5 ''fact:a'' new_kv = (s', Inr False) \<and> kv_valid rat_text s'"
  using delete_keeps_store_valid [OF new_kv_valid, of rat_text 5 "''fact:a''"]
  by (auto simp: new_kv_def empty_db_def)

text \<open>
  Compensation: whatever writes the store makes after a savepoint, rolling back to it restores
  all tables and the cached tip, and drops the savepoint.
\<close>

theorem rollback_restores:
  assumes "savepoint name s = (s1, Inr ())" "kv_step\<^sup>*\<^sup>* s1 s2"
  shows "\<exists>s3. rollback_savepoint name s2 = (s3, Inr ()) \<and> tables s3 = tables s
    \<and> prev_hash s3 = prev_hash s \<and> savepoints s3 = savepoints s"
proof -
  have o: "conn_open s" and s1: "s1 = s\<lparr>savepoints := (name, tables s) # savepoints s,
      saved_hashes := dset name (prev_hash s) (saved_hashes s)\<rparr>"
    using assms(1) by (auto simp: savepoint_def split: if_splits)
  have "kv_frame s1 s2" using assms(2) by (rule frame_steps)
  then show ?thesis
    using o by (simp add: rollback_savepoint_def kv_frame_def s1 find_savepoint_def Let_def)
qed

theorem rollback_restores_witness:
  "\<exists>s3. rollback_savepoint ''saga_tx''
      (fst (set_sync rat_text 5 ''fact:a'' (VInt 3) FNone [] ''update'' None (fst (savepoint ''saga_tx'' new_kv)))) = (s3, Inr ())
    \<and> tables s3 = tables new_kv"
proof -
  have "savepoint ''saga_tx'' new_kv = (fst (savepoint ''saga_tx'' new_kv), Inr ())"
    by (simp add: savepoint_def new_kv_def)
  from rollback_restores [OF this r_into_rtranclp [of kv_step, OF kv_set]] show ?thesis by blast
qed

text \<open>
  Between the two statements of a write the store is inconsistent, and since every statement
  commits by itself (the connection is in autocommit mode) a crash there leaves it so: the state
  variable is changed, and the deep verification fails.
\<close>

theorem interrupted_set_is_visible:
  assumes "kv_valid fr s" "latest_audit (kdb s) key = Some r" "a_value_hash r \<noteq> sha256 (json_dumps fr v)"
  shows "\<not> fst (verify_audit_log fr (cols s) True
    (set_state_row key (json_dumps fr v) c now mj (sha256 (json_dumps fr v)) (kdb s)))"
proof
  let ?d = "set_state_row key (json_dumps fr v) c now mj (sha256 (json_dumps fr v)) (kdb s)"
  assume "fst (verify_audit_log fr (cols s) True ?d)"
  moreover obtain ok n t where v: "verify_audit_log fr (cols s) True ?d = (ok, n, t)" by (metis prod_cases3)
  ultimately have ok by simp
  with v have "n = 0" by (auto simp: verify_audit_log_def Let_def split: prod.splits option.splits if_splits)
  with v \<open>ok\<close> have "verify_audit_log fr (cols s) True ?d = (True, 0, t)" by simp
  then have ok: "\<forall>p \<in> set (state_vars ?d). state_ok ?d p"
    by (simp add: verify_deep_iff verify_states_None)
  have "dget (state_vars ?d) key = Some \<lparr>s_value = json_dumps fr v, s_confidence = c, s_timestamp = now,
      s_metadata = Some mj, s_value_hash = Some (sha256 (json_dumps fr v))\<rparr>"
    by (simp add: set_state_row_def)
  from map_of_SomeD [OF this] ok have "state_ok ?d (key, \<lparr>s_value = json_dumps fr v, s_confidence = c,
      s_timestamp = now, s_metadata = Some mj, s_value_hash = Some (sha256 (json_dumps fr v))\<rparr>)" by blast
  then show False using assms(2,3) by (simp add: state_ok_def set_state_row_def)
qed

definition bare_row :: audit_row where
  "bare_row = (next_row rat_text empty_db 1 ''fact:a'' ''x'' [] 1 ''update'')\<lparr>a_new_value := None\<rparr>"

definition bare_kv :: kv where
  "bare_kv = (set_base (empty_db\<lparr>audit_log := [bare_row]\<rparr>) new_kv)\<lparr>prev_hash := a_entry_hash bare_row\<rparr>"

lemma bare_kv_valid: "kv_valid rat_text bare_kv"
proof -
  have "get_last_entry empty_db = (1, zeros64)" by (simp add: get_last_entry_def empty_db_def)
  then have "verify_audit_log rat_text full_cols True (empty_db\<lparr>audit_log := [bare_row]\<rparr>) = (True, 0, a_entry_hash bare_row)"
    by (simp add: verify_deep_iff chain_simps bare_row_def row_payload_def value_accepted_def)
      (simp add: empty_db_def)
  then show ?thesis
    by (simp add: kv_valid_def bare_kv_def wf_db_def wf_log_def)
      (simp add: new_kv_def full_cols_def empty_db_def)
qed

theorem interrupted_set_is_visible_witness:
  "\<not> fst (verify_audit_log rat_text (cols bare_kv) True
    (set_state_row ''fact:a'' (json_dumps rat_text VNone) 1 5 ''{}'' (sha256 (json_dumps rat_text VNone)) (kdb bare_kv)))"
proof (rule interrupted_set_is_visible [OF bare_kv_valid])
  show "latest_audit (kdb bare_kv) ''fact:a'' = Some bare_row"
    by (simp add: latest_audit_def bare_kv_def) (simp add: bare_row_def)
  show "a_value_hash bare_row \<noteq> sha256 (json_dumps rat_text VNone)"
    by (rule notI, drule arg_cong [where f = length]) (simp add: bare_row_def)
qed

text \<open>
  Reading does not invert writing: the text normalisation decodes the escapes inside the stored
  JSON before it is parsed. A dictionary with a line feed in one of its strings is read back as a
  text, metadata with one as no metadata at all, and the string of the word true with a line feed
  behind it as the truth value.
\<close>

theorem stored_escapes_are_lost:
  "stored_value (\<lambda>_. 0) (json_dumps (\<lambda>_. []) (VDict [(''note'', VStr [CHR ''a'', CHR 0x0A, CHR ''b''])])) =
     VStr ([CHR ''{'', CHR 0x22] @ ''note'' @ [CHR 0x22] @ '': '' @ [CHR 0x22, CHR ''a'', CHR 0x0A, CHR ''b'', CHR 0x22, CHR ''}''])
   \<and> stored_meta (\<lambda>_. 0) (Some (json_dumps (\<lambda>_. []) (VDict [(''session_id'', VStr ''s1''), (''quote'', VStr [CHR ''a'', CHR 0x0A])]))) = []
   \<and> stored_value (\<lambda>_. 0) (json_dumps (\<lambda>_. []) (VStr (''true'' @ [CHR 0x0A]))) = VBool True"
  by code_simp

text \<open>
  Paging: for every page size from 1 to 5000 the pages at the multiples of the size list every
  state variable exactly once, in the order of the keys.
\<close>

theorem pages_partition_the_store:
  assumes "0 < n" "n \<le> 5000" "length (state_vars d) \<le> m * n"
  shows "concat (map (\<lambda>i. get_all fp (int n) (int (i * n)) d) [0..<m]) =
    rows_to_dict fp (sort_key fst (state_vars d))"
proof -
  have "get_all fp (int n) (int (i * n)) d =
      map (\<lambda>(k, row). (k, row_to_state_dict fp k row)) (take n (drop (i * n) (sort_key fst (state_vars d))))" for i
    using assms(1,2) by (simp add: get_all_def rows_to_dict_def Let_def nat_mult_distrib)
  then have "concat (map (\<lambda>i. get_all fp (int n) (int (i * n)) d) [0..<m]) =
      map (\<lambda>(k, row). (k, row_to_state_dict fp k row))
        (concat (map (\<lambda>i. take n (drop (i * n) (sort_key fst (state_vars d)))) [0..<m]))"
    by (simp add: map_concat comp_def)
  also have "\<dots> = map (\<lambda>(k, row). (k, row_to_state_dict fp k row)) (sort_key fst (state_vars d))"
    using assms(3) by (simp add: concat_pages)
  finally show ?thesis by (simp add: rows_to_dict_def)
qed

theorem pages_partition_the_store_witness:
  "concat (map (\<lambda>i. get_all (\<lambda>_. 0) (int 2) (int (i * 2)) empty_db) [0..<1]) =
    rows_to_dict (\<lambda>_. 0) (sort_key fst (state_vars empty_db))"
  by (rule pages_partition_the_store) (simp_all add: empty_db_def)

text \<open>The step counter only grows: after any sequence of saves it is the largest step saved.\<close>

theorem step_counter_is_maximum:
  "map_option l_step_count
     (dget (foldl (\<lambda>d (now, n, en). save_step_counter now n en d) [] saves) ttt_counter) =
   (if saves = [] then None else Some (Max ((\<lambda>(now, n, en). n) ` set saves)))"
proof (induction saves rule: rev_induct)
  case (snoc x saves)
  obtain now n en where x: "x = (now, n, en)" by (cases x)
  let ?d = "foldl (\<lambda>d (now, n, en). save_step_counter now n en d) [] saves"
  show ?case
  proof (cases "saves = []")
    case True
    then show ?thesis by (simp add: x save_step_counter_def)
  next
    case False
    with snoc.IH obtain c where c: "dget ?d ttt_counter = Some c"
        "l_step_count c = Max ((\<lambda>(now, n, en). n) ` set saves)"
      by auto
    with False show ?thesis
      by (simp add: x save_step_counter_def Max_insert [where A = "(\<lambda>(now, n, en). n) ` set saves"] max.commute)
  qed
qed simp

end
