(* ===== verification/Convergence.thy ===== *)
theory Convergence
  imports Prelude
begin

text \<open>
  The contract of a state-based replicated data type: a \<open>merge\<close> of states that, on the states
  \<open>ok\<close> and seen through the abstraction \<open>abs\<close>, is a join. What the clients of such a type rely
  on (gossip deliveries that are lost, repeated and reordered) is proved here once. The vector
  clocks (\<open>VectorClock\<close>) and the element sets (\<open>LwwSet\<close>) provide it.
\<close>

locale join_state =
  fixes merge :: "'s \<Rightarrow> 's \<Rightarrow> 's"
    and abs :: "'s \<Rightarrow> 'a"
    and ok :: "'s \<Rightarrow> bool"
  assumes merge_ok: "ok a \<Longrightarrow> ok b \<Longrightarrow> ok (merge a b)"
    and merge_comm: "ok a \<Longrightarrow> ok b \<Longrightarrow> abs (merge a b) = abs (merge b a)"
    and merge_assoc: "ok a \<Longrightarrow> ok b \<Longrightarrow> ok c \<Longrightarrow>
      abs (merge (merge a b) c) = abs (merge a (merge b c))"
    and merge_idem: "ok a \<Longrightarrow> abs (merge a a) = abs a"
    and merge_cong: "ok a \<Longrightarrow> ok a' \<Longrightarrow> ok b \<Longrightarrow> ok b' \<Longrightarrow> abs a = abs a' \<Longrightarrow> abs b = abs b' \<Longrightarrow>
      abs (merge a b) = abs (merge a' b')"
begin

text \<open>State \<open>b\<close> already contains what \<open>a\<close> knows.\<close>

definition below :: "'s \<Rightarrow> 's \<Rightarrow> bool" where
  "below a b \<longleftrightarrow> abs (merge a b) = abs b"

lemma below_refl: "ok a \<Longrightarrow> below a a"
  by (simp add: below_def merge_idem)

lemma below_antisym: "ok a \<Longrightarrow> ok b \<Longrightarrow> below a b \<Longrightarrow> below b a \<Longrightarrow> abs a = abs b"
  by (metis below_def merge_comm)

lemma below_trans:
  assumes "ok a" "ok b" "ok c" "below a b" "below b c"
  shows "below a c"
proof -
  have "abs (merge a c) = abs (merge a (merge b c))"
    using assms by (intro merge_cong) (auto simp: below_def merge_ok)
  also have "\<dots> = abs (merge (merge a b) c)"
    using assms by (simp add: merge_assoc)
  also have "\<dots> = abs (merge b c)"
    using assms by (intro merge_cong) (auto simp: below_def merge_ok)
  also have "\<dots> = abs c"
    using assms by (simp add: below_def)
  finally show ?thesis by (simp add: below_def)
qed

lemma below_merge1: "ok a \<Longrightarrow> ok b \<Longrightarrow> below a (merge a b)"
proof -
  assume ok: "ok a" "ok b"
  then have "abs (merge a (merge a b)) = abs (merge (merge a a) b)"
    by (simp add: merge_assoc)
  also have "\<dots> = abs (merge a b)"
    using ok by (intro merge_cong) (auto simp: merge_idem merge_ok)
  finally show ?thesis by (simp add: below_def)
qed

lemma below_merge2: "ok a \<Longrightarrow> ok b \<Longrightarrow> below b (merge a b)"
proof -
  assume ok: "ok a" "ok b"
  have "abs (merge b (merge a b)) = abs (merge b (merge b a))"
    by (rule merge_cong [OF ok(2) ok(2) _ _ refl merge_comm [OF ok]]) (simp_all add: ok merge_ok)
  also have "\<dots> = abs (merge b a)"
    using below_merge1 [OF ok(2) ok(1)] by (simp add: below_def)
  finally show ?thesis using ok by (simp add: below_def merge_comm)
qed

lemma merge_least:
  assumes "ok a" "ok b" "ok c" "below a c" "below b c"
  shows "below (merge a b) c"
proof -
  have "abs (merge (merge a b) c) = abs (merge a (merge b c))"
    using assms by (simp add: merge_assoc)
  also have "\<dots> = abs (merge a c)"
    using assms by (intro merge_cong) (auto simp: below_def merge_ok)
  finally show ?thesis using assms by (simp add: below_def)
qed

text \<open>Delivering a sequence of peer states, in the order they arrive.\<close>

definition deliver :: "'s \<Rightarrow> 's list \<Rightarrow> 's" where
  "deliver s ds = foldl merge s ds"

lemma deliver_Nil [simp]: "deliver s [] = s"
  by (simp add: deliver_def)

lemma deliver_Cons [simp]: "deliver s (d # ds) = deliver (merge s d) ds"
  by (simp add: deliver_def)

lemma deliver_ok: "ok s \<Longrightarrow> list_all ok ds \<Longrightarrow> ok (deliver s ds)"
  by (induction ds arbitrary: s) (auto simp: merge_ok)

lemma deliver_upper:
  assumes "ok s" "list_all ok ds"
  shows "below s (deliver s ds) \<and> (\<forall>d \<in> set ds. below d (deliver s ds))"
  using assms
proof (induction ds arbitrary: s)
  case Nil
  then show ?case by (simp add: below_refl)
next
  case (Cons d ds)
  then have ok: "ok s" "ok d" "ok (merge s d)" "list_all ok ds" "ok (deliver (merge s d) ds)"
    by (auto simp: merge_ok deliver_ok)
  with Cons.IH [of "merge s d"]
  have ih: "below (merge s d) (deliver (merge s d) ds)"
    "\<forall>x \<in> set ds. below x (deliver (merge s d) ds)"
    by auto
  from ok ih(1) have "below s (deliver (merge s d) ds)" "below d (deliver (merge s d) ds)"
    by (meson below_merge1 below_merge2 below_trans)+
  with ih(2) show ?case by simp
qed

lemma deliver_least:
  assumes "ok s" "list_all ok ds" "ok c" "below s c" "\<forall>d \<in> set ds. below d c"
  shows "below (deliver s ds) c"
  using assms by (induction ds arbitrary: s) (auto simp: merge_ok merge_least)

text \<open>
  Convergence: two replicas that start alike and have received the same states, in any order
  and any number of times each, are in the same abstract state.
\<close>

lemma convergence:
  assumes ok: "ok s" "list_all ok ds" "list_all ok es" and same: "set ds = set es"
  shows "abs (deliver s ds) = abs (deliver s es)"
proof (rule below_antisym)
  show "below (deliver s ds) (deliver s es)"
    using ok same deliver_upper [of s es] by (intro deliver_least) (auto simp: deliver_ok)
  show "below (deliver s es) (deliver s ds)"
    using ok same deliver_upper [of s ds] by (intro deliver_least) (auto simp: deliver_ok)
qed (use ok in \<open>auto simp: deliver_ok\<close>)

text \<open>A state delivered again changes nothing.\<close>

lemma redelivery:
  assumes "ok s" "list_all ok ds" "d \<in> set ds"
  shows "abs (merge (deliver s ds) d) = abs (deliver s ds)"
  using assms deliver_upper [OF assms(1,2)]
  by (metis below_def deliver_ok list_all_iff merge_comm)

end

end
