(* ===== verification/VectorClock.thy ===== *)
theory VectorClock
  imports Convergence
begin

text \<open>
  \<open>CompactVectorClock\<close> of \<open>sync/crdt.py\<close>: logical clocks per node, their merge, the receive
  event, and the causal order. The counters are Python integers; a node without an entry counts
  as 0 (\<open>clocks.get(k, 0)\<close>). The key set of a merged clock is built in an unspecified order by
  the code (a set union); here the own keys come first.
\<close>

type_synonym vclock = "(string, int) dict"

definition vc_get :: "vclock \<Rightarrow> string \<Rightarrow> int" where
  "vc_get c k = dget_default c k 0"

definition increment :: "string \<Rightarrow> vclock \<Rightarrow> vclock" where
  "increment node c = dset node (vc_get c node + 1) c"

definition all_keys :: "vclock \<Rightarrow> vclock \<Rightarrow> string list" where
  "all_keys a b = dkeys a @ filter (\<lambda>k. k \<notin> set (dkeys a)) (dkeys b)"

definition vc_merge :: "vclock \<Rightarrow> vclock \<Rightarrow> vclock" where
  "vc_merge a b = map (\<lambda>k. (k, max (vc_get a k) (vc_get b k))) (all_keys a b)"

definition receive :: "vclock \<Rightarrow> vclock \<Rightarrow> string \<Rightarrow> vclock" where
  "receive a b node = (let m = vc_merge a b in dset node (vc_get m node + 1) m)"

text \<open>The loop of \<open>happens_before\<close>: the first component that is greater ends it.\<close>

fun hb_loop :: "vclock \<Rightarrow> vclock \<Rightarrow> bool \<Rightarrow> string list \<Rightarrow> bool" where
  "hb_loop a b lt [] = lt"
| "hb_loop a b lt (k # ks) =
     (if vc_get a k > vc_get b k then False
      else hb_loop a b (lt \<or> vc_get a k < vc_get b k) ks)"

definition happens_before :: "vclock \<Rightarrow> vclock \<Rightarrow> bool" where
  "happens_before a b = hb_loop a b False (all_keys a b)"

text \<open>Equality of Python dictionaries ignores the order of the keys.\<close>

definition dict_same :: "vclock \<Rightarrow> vclock \<Rightarrow> bool" where
  "dict_same a b = list_all (\<lambda>k. dget a k = dget b k) (all_keys a b)"

definition concurrent :: "vclock \<Rightarrow> vclock \<Rightarrow> bool" where
  "concurrent a b = (if dict_same a b then False else \<not> happens_before a b \<and> \<not> happens_before b a)"

section \<open>The clock as a function, and the operations on it\<close>

lemma set_all_keys: "set (all_keys a b) = set (dkeys a) \<union> set (dkeys b)"
  by (auto simp: all_keys_def)

lemma vc_get_absent: "k \<notin> set (dkeys c) \<Longrightarrow> vc_get c k = 0"
  by (simp add: vc_get_def dget_default_def dget_None_iff [THEN iffD2])

lemma vc_get_dset [simp]: "vc_get (dset k v c) k' = (if k = k' then v else vc_get c k')"
  by (simp add: vc_get_def dget_default_def)

lemma dget_key_map: "dget (map (\<lambda>k. (k, f k)) ks) k = (if k \<in> set ks then Some (f k) else None)"
  by (induction ks) auto

lemma vc_get_merge: "vc_get (vc_merge a b) k = max (vc_get a k) (vc_get b k)"
proof (cases "k \<in> set (all_keys a b)")
  case True
  then have "dget (vc_merge a b) k = Some (max (vc_get a k) (vc_get b k))"
    by (simp add: vc_merge_def dget_key_map)
  then show ?thesis
    by (simp add: vc_get_def [of "vc_merge a b"] dget_default_def)
next
  case False
  then have "vc_get a k = 0" "vc_get b k = 0" by (auto simp: set_all_keys intro!: vc_get_absent)
  moreover have "vc_get (vc_merge a b) k = 0"
    using False by (intro vc_get_absent) (auto simp: vc_merge_def comp_def)
  ultimately show ?thesis by simp
qed

lemma distinct_all_keys: "wf_dict a \<Longrightarrow> wf_dict b \<Longrightarrow> distinct (all_keys a b)"
  by (auto simp: all_keys_def wf_dict_def)

lemma wf_vc_merge: "wf_dict a \<Longrightarrow> wf_dict b \<Longrightarrow> wf_dict (vc_merge a b)"
  using distinct_all_keys [of a b] by (simp add: wf_dict_def vc_merge_def comp_def)

lemma vc_get_increment: "vc_get (increment n c) k = (if k = n then vc_get c n + 1 else vc_get c k)"
  by (simp add: increment_def)

lemma vc_get_receive:
  "vc_get (receive a b n) k = max (vc_get a k) (vc_get b k) + (if k = n then 1 else 0)"
  by (simp add: receive_def Let_def vc_get_merge)

lemma wf_receive: "wf_dict a \<Longrightarrow> wf_dict b \<Longrightarrow> wf_dict (receive a b n)"
  by (simp add: receive_def Let_def wf_vc_merge wf_dict_dset)

text \<open>The component-wise order, and the loop computes its strict part.\<close>

definition vc_le :: "vclock \<Rightarrow> vclock \<Rightarrow> bool" where
  "vc_le a b \<longleftrightarrow> (\<forall>k. vc_get a k \<le> vc_get b k)"

lemma hb_loop_iff:
  "hb_loop a b lt ks \<longleftrightarrow>
     (\<forall>k \<in> set ks. vc_get a k \<le> vc_get b k) \<and> (lt \<or> (\<exists>k \<in> set ks. vc_get a k < vc_get b k))"
  by (induction ks arbitrary: lt) auto

lemma vc_le_on_keys: "vc_le a b \<longleftrightarrow> (\<forall>k \<in> set (all_keys a b). vc_get a k \<le> vc_get b k)"
proof -
  have "vc_get a k \<le> vc_get b k" if "k \<notin> set (all_keys a b)" for k
    using that by (simp add: set_all_keys vc_get_absent)
  then show ?thesis by (auto simp: vc_le_def)
qed

lemma vc_lt_on_keys: "vc_get a k < vc_get b k \<Longrightarrow> k \<in> set (all_keys a b)"
  by (rule ccontr) (simp add: set_all_keys vc_get_absent)

lemma happens_before_iff: "happens_before a b \<longleftrightarrow> vc_le a b \<and> \<not> vc_le b a"
  unfolding happens_before_def hb_loop_iff vc_le_on_keys [symmetric]
  by (auto simp: vc_le_def not_le dest: vc_lt_on_keys)

lemma vc_le_refl [simp]: "vc_le a a"
  by (simp add: vc_le_def)

lemma vc_le_trans: "vc_le a b \<Longrightarrow> vc_le b c \<Longrightarrow> vc_le a c"
  unfolding vc_le_def by (meson order_trans)

lemma vc_le_merge: "vc_le a (vc_merge a b)" "vc_le b (vc_merge a b)"
  by (simp_all add: vc_le_def vc_get_merge)

lemma vc_merge_le_iff: "vc_le (vc_merge a b) c \<longleftrightarrow> vc_le a c \<and> vc_le b c"
  by (auto simp: vc_le_def vc_get_merge)

lemma dict_same_iff: "dict_same a b \<longleftrightarrow> dict_eq a b"
proof -
  have "dget a k = dget b k" if "k \<notin> set (all_keys a b)" for k
    using that by (metis UnCI dget_None_iff set_all_keys)
  then show ?thesis by (auto simp: dict_same_def dict_eq_def list_all_iff fun_eq_iff)
qed

text \<open>The merge is a join of clocks seen as functions.\<close>

interpretation clock_join: join_state vc_merge vc_get wf_dict
  by unfold_locales (auto simp: wf_vc_merge vc_get_merge fun_eq_iff max.commute max.assoc)

section \<open>What the clocks promise\<close>

text \<open>
  The loop of \<open>happens_before\<close> decides the strict part of the component-wise order of the
  clocks read with \<open>get(k, 0)\<close>; so it is irreflexive, asymmetric and transitive.
\<close>

theorem happens_before_strict_order:
  "(happens_before a b \<longleftrightarrow> (\<forall>k. vc_get a k \<le> vc_get b k) \<and> (\<exists>k. vc_get a k < vc_get b k)) \<and>
   irreflp happens_before \<and> asymp happens_before \<and> transp happens_before"
proof -
  have "happens_before a b \<longleftrightarrow> (\<forall>k. vc_get a k \<le> vc_get b k) \<and> (\<exists>k. vc_get a k < vc_get b k)"
    by (auto simp: happens_before_iff vc_le_def not_le)
  moreover have "irreflp happens_before" "asymp happens_before"
    by (auto simp: happens_before_iff irreflp_on_def asymp_on_def)
  moreover have "transp happens_before"
    unfolding transp_def happens_before_iff by (meson vc_le_trans)
  ultimately show ?thesis by simp
qed

text \<open>
  A receive is a local event (Lamport): the receiver's new clock comes strictly after its old
  clock and strictly after the delivered one, and it differs from their least upper bound exactly
  by one tick of the receiving node.
\<close>

theorem receive_strictly_after:
  "happens_before a (receive a b n) \<and> happens_before b (receive a b n) \<and>
   vc_get (receive a b n) k = max (vc_get a k) (vc_get b k) + (if k = n then 1 else 0)"
proof -
  have le: "vc_get a k \<le> vc_get (receive a b n) k" "vc_get b k \<le> vc_get (receive a b n) k" for k
    by (auto simp: vc_get_receive le_max_iff_disj intro: add_increasing2)
  have lt: "vc_get a n < vc_get (receive a b n) n" "vc_get b n < vc_get (receive a b n) n"
    by (simp_all add: vc_get_receive)
  show ?thesis
    using le lt by (auto simp: happens_before_iff vc_le_def not_le vc_get_receive)
qed

text \<open>
  Replicas that merge the same peer clocks, in whatever order and however often each arrives,
  hold the same clock, and that clock is the least one above everything received.
\<close>

theorem clock_merge_converges:
  assumes "wf_dict s" and "list_all wf_dict ds" and "list_all wf_dict es" and "set ds = set es"
  shows "vc_get (foldl vc_merge s ds) = vc_get (foldl vc_merge s es)"
  using clock_join.convergence [OF assms] by (simp add: clock_join.deliver_def)

theorem clock_merge_converges_witness:
  "vc_get (foldl vc_merge [(''a'', 1)] [[(''b'', 2)], [(''a'', 4)], [(''b'', 2)]]) =
   vc_get (foldl vc_merge [(''a'', 1)] [[(''a'', 4)], [(''b'', 2)]])"
  by (rule clock_merge_converges) (auto simp: wf_dict_def)

text \<open>
  \<open>concurrent\<close> compares dictionaries before it compares clocks: two clocks are reported
  concurrent exactly when neither dominates the other, or when they are the same clock written
  with different explicit zero entries.
\<close>

theorem concurrent_iff:
  "concurrent a b \<longleftrightarrow>
     \<not> dict_eq a b \<and> ((\<not> vc_le a b \<and> \<not> vc_le b a) \<or> vc_get a = vc_get b)"
proof -
  have "vc_get a = vc_get b \<longleftrightarrow> vc_le a b \<and> vc_le b a"
    by (auto simp: vc_le_def fun_eq_iff intro: antisym)
  then show ?thesis
    by (auto simp: concurrent_def dict_same_iff happens_before_iff)
qed

text \<open>
  A fresh node's clock \<open>{node: 0}\<close> and a peer registered without a clock \<open>{}\<close> are the same
  clock, yet \<open>concurrent\<close> answers \<open>True\<close> for them.
\<close>

lemma fresh_clocks_concurrent: "concurrent [(n, 0)] [] \<and> vc_get [(n, 0)] = vc_get []"
proof -
  have "vc_get [(n, 0)] = vc_get []"
    by (auto simp: fun_eq_iff vc_get_def dget_default_def)
  moreover have "\<not> dict_eq [(n, 0 :: int)] []"
    by (auto simp: dict_eq_def fun_eq_iff)
  ultimately show ?thesis by (simp add: concurrent_iff)
qed

end
