(* ===== verification/SyncBridge.thy ===== *)
theory SyncBridge
  imports KvStore VectorClock
begin

text \<open>
  \<open>StateSyncBridge\<close> (\<open>sync/bridge.py\<close>): exports the entries of the audit ledger as mutations and
  applies those of a peer to the store.

  \<open>bridge\<close> is the object's state: the store (\<open>None\<close> when the bridge has none), the write path, the
  clock, and the keys that were purged from the vector store. The write path is the record of what the
  bridge calls of it: \<open>wp_write\<close>, a function on the store, and whether it has a vector store; the
  vector record that is built for it carries the same key, text, confidence and metadata. Without a
  write path the bridge writes to the store itself; \<open>SyncWrite\<close> has the bridge with the modelled write path.

  A delta is the dictionary that \<open>export_delta_from_audit\<close> builds; an optional field is \<open>None\<close>
  where the key is absent. \<open>fp\<close> is \<open>float(text)\<close> in JSON, \<open>fs\<close> \<open>float(s)\<close> of a string, \<open>None\<close>
  where it raises.
\<close>

section \<open>State\<close>

record mutation =
  m_key :: string
  m_value :: pyval
  m_confidence :: "rat option"
  m_precision :: "rat option"
  m_meta_precision :: "pyval option"
  m_reason :: "string option"
  m_timestamp :: "rat option"

record delta =
  d_source :: string
  d_clock :: vclock
  d_max_seq :: int
  d_mutations :: "mutation list"

record write_path =
  wp_write :: "string \<Rightarrow> pyval \<Rightarrow> rat \<Rightarrow> meta \<Rightarrow> string \<Rightarrow> kv \<Rightarrow> kv \<times> (kv_error + unit)"
  wp_has_vectors :: bool

record bridge =
  b_kv :: "kv option"
  b_write_path :: "write_path option"
  b_node :: string
  b_clock :: vclock
  b_vec_purged :: "string list"

definition new_bridge :: "kv option \<Rightarrow> write_path option \<Rightarrow> string \<Rightarrow> bridge" where
  "new_bridge store wp nid =
     \<lparr>b_kv = store, b_write_path = wp, b_node = nid, b_clock = [(nid, 0)], b_vec_purged = []\<rparr>"

section \<open>Export\<close>

text \<open>A closed connection raises, and the query answers with no rows.\<close>

definition query_audit_rows :: "kv \<Rightarrow> int \<Rightarrow> int \<Rightarrow> audit_row list" where
  "query_audit_rows s since_seq limit =
     (if conn_open s then take (nat limit) (filter (\<lambda>r. since_seq < a_seq r) (audit_log (kdb s))) else [])"

fun conf_column :: "float_arg \<Rightarrow> rat" where
  "conf_column (FNum c) = c"
| "conf_column _ = 1"

definition mutation_of_row :: "audit_row \<Rightarrow> mutation" where
  "mutation_of_row row =
     \<lparr>m_key = a_key row,
      m_value = (case a_new_value row of None \<Rightarrow> VNone | Some v \<Rightarrow> VStr v),
      m_confidence = Some (conf_column (a_confidence row)), m_precision = None, m_meta_precision = None,
      m_reason = Some (a_reason row), m_timestamp = Some (a_timestamp row)\<rparr>"

fun export_loop :: "audit_row list \<Rightarrow> int \<Rightarrow> mutation list \<Rightarrow> int \<times> mutation list" where
  "export_loop [] max_seq ms = (max_seq, ms)"
| "export_loop (row # rows) max_seq ms =
     export_loop rows (if a_seq row > max_seq then a_seq row else max_seq) (ms @ [mutation_of_row row])"

definition export_delta_from_audit :: "int \<Rightarrow> int \<Rightarrow> bridge \<Rightarrow> bridge \<times> delta" where
  "export_delta_from_audit since_seq limit b =
     (case b_kv b of
        None \<Rightarrow> (b, \<lparr>d_source = b_node b, d_clock = b_clock b, d_max_seq = since_seq, d_mutations = []\<rparr>)
      | Some s \<Rightarrow>
          (let safe_limit = max 1 (min limit 1000);
               rows = query_audit_rows s since_seq safe_limit;
               (max_seq, mutations) = export_loop rows since_seq [];
               b1 = b\<lparr>b_clock := increment (b_node b) (b_clock b)\<rparr>
           in (b1, \<lparr>d_source = b_node b, d_clock = b_clock b1, d_max_seq = max_seq,
                   d_mutations = mutations\<rparr>)))"

section \<open>Applying a delta\<close>

fun py_float :: "(string \<Rightarrow> rat option) \<Rightarrow> pyval \<Rightarrow> rat option" where
  "py_float fs (VInt i) = Some (of_int i)"
| "py_float fs (VFloat r) = Some r"
| "py_float fs (VBool b) = Some (if b then 1 else 0)"
| "py_float fs (VStr s) = fs s"
| "py_float fs v = None"

definition float_or :: "(string \<Rightarrow> rat option) \<Rightarrow> pyval option \<Rightarrow> rat \<Rightarrow> rat" where
  "float_or fs v d =
     (case v of None \<Rightarrow> d
      | Some x \<Rightarrow> (case py_float fs x of None \<Rightarrow> d | Some r \<Rightarrow> r))"

definition incoming_precision :: "(string \<Rightarrow> rat option) \<Rightarrow> mutation \<Rightarrow> rat" where
  "incoming_precision fs m = float_or fs (m_meta_precision m) (opt_or (m_precision m) 1)"

definition incoming_lambda :: "(string \<Rightarrow> rat option) \<Rightarrow> mutation \<Rightarrow> rat" where
  "incoming_lambda fs m = incoming_precision fs m * opt_or (m_confidence m) (9 / 10)"

definition local_lambda :: "(string \<Rightarrow> rat option) \<Rightarrow> state_dict \<Rightarrow> rat" where
  "local_lambda fs existing =
     float_or fs (dget (sd_metadata existing) ''precision'') 1 * sd_confidence existing"

definition low_precision :: "(ustr \<Rightarrow> rat) \<Rightarrow> (string \<Rightarrow> rat option) \<Rightarrow> string \<Rightarrow> mutation \<Rightarrow> kv \<Rightarrow> bool" where
  "low_precision fp fs key m s =
     (case get_state fp (kdb s) key of
        None \<Rightarrow> False
      | Some existing \<Rightarrow> incoming_lambda fs m < local_lambda fs existing - 1 / 1000000)"

definition is_deletion :: "mutation \<Rightarrow> bool" where
  "is_deletion m \<longleftrightarrow> m_value m \<in> {VStr deleted_json, VStr ''__DELETED__''}
     \<or> m_reason m \<in> {Some ''delete'', Some ''agent_delete''}"

definition decode_value :: "(ustr \<Rightarrow> rat) \<Rightarrow> pyval \<Rightarrow> pyval" where
  "decode_value fp v =
     (case v of
        VStr s \<Rightarrow> (case json_loads fp (to_ustr s) of Some x \<Rightarrow> x | None \<Rightarrow> VStr s)
      | _ \<Rightarrow> v)"

text \<open>The subject, predicate and object for the graph, from the key and the text of the value.\<close>

definition infer_triple :: "string \<Rightarrow> string \<Rightarrow> string \<times> string \<times> string" where
  "infer_triple key val_text =
     (let parts = py_split_max CHR '':'' 2 key in
      if length parts = 3 then (parts ! 0, parts ! 1, if val_text = [] then parts ! 2 else val_text)
      else if length parts = 2 then (parts ! 0, parts ! 1, val_text)
      else (key, ''has_state'', val_text))"

definition mutation_meta :: "string \<Rightarrow> string \<Rightarrow> string \<Rightarrow> rat \<Rightarrow> meta" where
  "mutation_meta source_node key val_text prec =
     (let (sub_val, pred_val, obj_val) = infer_triple key val_text in
      [(''source_type'', VStr ''peer_replication''), (''origin'', VStr (''sync_'' @ source_node)),
       (''subject'', VStr sub_val), (''predicate'', VStr pred_val), (''object'', VStr obj_val),
       (''kv_key'', VStr key), (''precision'', VFloat prec)])"

record texts =
  t_float :: "rat \<Rightarrow> string"
  t_repr :: "pyval \<Rightarrow> string"
  t_json_float :: "ustr \<Rightarrow> rat"
  t_parse :: "string \<Rightarrow> rat option"

text \<open>One turn of the loop: the new state and whether the mutation was applied.\<close>

definition apply_deletion :: "texts \<Rightarrow> rat \<Rightarrow> string \<Rightarrow> bridge \<Rightarrow> bridge \<times> (kv_error + bool)" where
  "apply_deletion T now key b =
     (let (b1, r) = (case b_kv b of
            None \<Rightarrow> (b, Inr ())
          | Some s \<Rightarrow> (case delete_sync (t_float T) now key s of
                (s', Inl e) \<Rightarrow> (b\<lparr>b_kv := Some s'\<rparr>, Inl e)
              | (s', Inr _) \<Rightarrow> (b\<lparr>b_kv := Some s'\<rparr>, Inr ()))) in
      case r of
        Inl e \<Rightarrow> (b1, Inl e)
      | Inr _ \<Rightarrow>
          (case b_write_path b of
             Some wp \<Rightarrow> if wp_has_vectors wp
               then (b1\<lparr>b_vec_purged := b_vec_purged b1 @ [''kv:'' @ key, key]\<rparr>, Inr True)
               else (b1, Inr True)
           | None \<Rightarrow> (b1, Inr True)))"

definition apply_write :: "texts \<Rightarrow> rat \<Rightarrow> string \<Rightarrow> string \<Rightarrow> mutation \<Rightarrow> bridge \<Rightarrow> bridge \<times> (kv_error + bool)" where
  "apply_write T now source_node key m b =
     (let val = decode_value (t_json_float T) (m_value m);
          conf = opt_or (m_confidence m) (9 / 10);
          reason = ''sync_from_'' @ source_node;
          val_text = py_str (t_repr T) val;
          meta_dict = mutation_meta source_node key val_text (incoming_precision (t_parse T) m)
      in case b_kv b of
           None \<Rightarrow> (b, Inr True)
         | Some s \<Rightarrow>
             (let (s', r) = (case b_write_path b of
                    Some wp \<Rightarrow> wp_write wp key val conf meta_dict reason s
                  | None \<Rightarrow> set_sync (t_float T) now key val (FNum conf) meta_dict reason None s)
              in (b\<lparr>b_kv := Some s'\<rparr>, case r of Inl e \<Rightarrow> Inl e | Inr _ \<Rightarrow> Inr True)))"

definition apply_mutation :: "texts \<Rightarrow> rat \<Rightarrow> string \<Rightarrow> mutation \<Rightarrow> bridge \<Rightarrow> bridge \<times> (kv_error + bool)" where
  "apply_mutation T now source_node m b =
     (let key = py_strip (m_key m) in
      if key = [] then (b, Inr False)
      else
        (case b_kv b of
           Some s \<Rightarrow>
             if \<not> conn_open s then (b, Inl ConnectionClosed)
             else if low_precision (t_json_float T) (t_parse T) key m s then (b, Inr False)
             else if is_deletion m then apply_deletion T now key b
             else apply_write T now source_node key m b
         | None \<Rightarrow>
             if is_deletion m then apply_deletion T now key b else apply_write T now source_node key m b))"

fun apply_loop ::
  "texts \<Rightarrow> rat \<Rightarrow> string \<Rightarrow> mutation list \<Rightarrow> bridge \<Rightarrow> nat \<Rightarrow> bridge \<times> (kv_error + nat)" where
  "apply_loop T now src [] b applied_count = (b, Inr applied_count)"
| "apply_loop T now src (m # ms) b applied_count =
     (case apply_mutation T now src m b of
        (b', Inl e) \<Rightarrow> (b', Inl e)
      | (b', Inr applied) \<Rightarrow> apply_loop T now src ms b' (if applied then applied_count + 1 else applied_count))"

text \<open>The own clock dominates a peer's clock that is not empty.\<close>

definition stale :: "vclock \<Rightarrow> vclock \<Rightarrow> bool" where
  "stale own peer_clocks \<longleftrightarrow> peer_clocks \<noteq> [] \<and> list_all (\<lambda>(k, v). vc_get own k \<ge> v) peer_clocks"

definition apply_remote_delta :: "texts \<Rightarrow> rat \<Rightarrow> delta \<Rightarrow> bridge \<Rightarrow> bridge \<times> (kv_error + nat)" where
  "apply_remote_delta T now d b =
     (if stale (b_clock b) (d_clock d) then (b, Inr 0)
      else case apply_loop T now (d_source d) (d_mutations d) b 0 of
          (b', Inl e) \<Rightarrow> (b', Inl e)
        | (b', Inr n) \<Rightarrow>
            (if d_clock d = [] then (b', Inr n)
             else (b'\<lparr>b_clock := receive (b_clock b') (d_clock d) (b_node b')\<rparr>, Inr n)))"

section \<open>Export in pages\<close>

fun export_pages :: "nat \<Rightarrow> int \<Rightarrow> int \<Rightarrow> bridge \<Rightarrow> mutation list" where
  "export_pages 0 since_seq limit b = []"
| "export_pages (Suc n) since_seq limit b =
     (let (b', d) = export_delta_from_audit since_seq limit b in
      d_mutations d @ export_pages n (d_max_seq d) limit b')"

lemma export_loop_mutations: "snd (export_loop rows mx ms) = ms @ map mutation_of_row rows"
  by (induction rows arbitrary: mx ms) simp_all

lemma export_loop_max:
  "wf_log rows \<Longrightarrow> \<forall>r \<in> set rows. mx < a_seq r \<Longrightarrow>
     fst (export_loop rows mx ms) = (if rows = [] then mx else a_seq (last rows))"
proof (induction rows arbitrary: mx ms)
  case (Cons r rows)
  then have "\<forall>x \<in> set rows. a_seq r < a_seq x" "wf_log rows" by (auto simp: wf_log_def)
  with Cons show ?case by simp
qed simp

lemma wf_log_filter: "wf_log rows \<Longrightarrow> wf_log (filter P rows)"
  by (induction rows) (auto simp: wf_log_def)

lemma wf_log_take: "wf_log rows \<Longrightarrow> wf_log (take n rows)"
  by (simp add: wf_log_def sorted_wrt_take take_map [symmetric])

lemma filter_after_take:
  assumes "wf_log rows" "\<forall>r \<in> set rows. s < a_seq r" "n > 0"
  shows "filter (\<lambda>r. (if take n rows = [] then s else a_seq (last (take n rows))) < a_seq r) rows = drop n rows"
proof (cases "rows = []")
  case False
  define m where "m = a_seq (last (take n rows))"
  have ne: "take n rows \<noteq> []" using False assms(3) by simp
  have w: "sorted_wrt (<) (map a_seq (take n rows @ drop n rows))" using assms(1) by (simp add: wf_log_def)
  have le: "r \<in> set (take n rows) \<Longrightarrow> a_seq r \<le> m" for r
    unfolding m_def by (rule wf_log_last [OF wf_log_take [OF assms(1)]])
  have gt: "r \<in> set (drop n rows) \<Longrightarrow> m < a_seq r" for r
    using w ne unfolding m_def by (auto simp: sorted_wrt_append simp del: append_take_drop_id)
  have "filter (\<lambda>r. m < a_seq r) (take n rows @ drop n rows) = drop n rows"
    using le gt by (auto simp: filter_empty_conv not_less intro!: filter_True simp del: append_take_drop_id)
  with ne show ?thesis by (simp add: m_def)
qed simp

lemma export_page:
  assumes "b_kv b = Some s" "conn_open s" "wf_log (audit_log (kdb s))" "0 < n" "n \<le> 1000"
    and "export_delta_from_audit since (int n) b = (b', d)"
  shows "d_mutations d = map mutation_of_row (take n (filter (\<lambda>r. since < a_seq r) (audit_log (kdb s))))"
    and "filter (\<lambda>r. d_max_seq d < a_seq r) (audit_log (kdb s)) =
      drop n (filter (\<lambda>r. since < a_seq r) (audit_log (kdb s)))"
    and "b' = b\<lparr>b_clock := increment (b_node b) (b_clock b)\<rparr>" and "d_clock d = b_clock b'"
    and "since \<le> d_max_seq d"
proof -
  let ?F = "filter (\<lambda>r. since < a_seq r) (audit_log (kdb s))"
  have lim: "nat (max 1 (min (int n) 1000)) = n" using assms(4,5) by simp
  have wf: "wf_log ?F" by (rule wf_log_filter [OF assms(3)])
  have d: "d_mutations d = snd (export_loop (take n ?F) since [])"
      "d_max_seq d = fst (export_loop (take n ?F) since [])"
    and b': "b' = b\<lparr>b_clock := increment (b_node b) (b_clock b)\<rparr>" "d_clock d = b_clock b'"
    using assms(6) unfolding export_delta_from_audit_def Let_def query_audit_rows_def lim
    by (auto simp: assms(1,2) case_prod_beta)
  from d(1) show "d_mutations d = map mutation_of_row (take n ?F)" by (simp add: export_loop_mutations)
  have gt: "\<forall>r \<in> set ?F. since < a_seq r" by simp
  then have gt': "\<forall>r \<in> set (take n ?F). since < a_seq r" by (meson in_set_takeD)
  have mx: "d_max_seq d = (if take n ?F = [] then since else a_seq (last (take n ?F)))"
    unfolding d(2) by (rule export_loop_max [OF wf_log_take [OF wf] gt'])
  show le: "since \<le> d_max_seq d"
  proof (cases "take n ?F = []")
    case False
    from gt' [rule_format, OF last_in_set [OF False]] False show ?thesis by (simp add: mx)
  qed (simp add: mx)
  have "filter (\<lambda>r. d_max_seq d < a_seq r) (audit_log (kdb s)) = filter (\<lambda>r. d_max_seq d < a_seq r) ?F"
    using le by (auto intro!: filter_cong simp: filter_filter)
  then show "filter (\<lambda>r. d_max_seq d < a_seq r) (audit_log (kdb s)) = drop n ?F"
    using filter_after_take [OF wf gt assms(4)] unfolding mx by simp
  show "b' = b\<lparr>b_clock := increment (b_node b) (b_clock b)\<rparr>" "d_clock d = b_clock b'" by (rule b')+
qed

lemma export_pages_take:
  assumes "conn_open s" "wf_log (audit_log (kdb s))" "0 < n" "n \<le> 1000" "b_kv b = Some s"
  shows "export_pages m since (int n) b =
    map mutation_of_row (take (m * n) (filter (\<lambda>r. since < a_seq r) (audit_log (kdb s))))"
  using assms(5)
proof (induction m arbitrary: since b)
  case (Suc m)
  obtain b' d where e: "export_delta_from_audit since (int n) b = (b', d)"
    by (cases "export_delta_from_audit since (int n) b")
  note p = export_page [OF Suc.prems assms(1-4) e]
  from p(3) Suc.prems have "b_kv b' = Some s" by simp
  note ih = Suc.IH [OF this, of "d_max_seq d"]
  show ?case by (simp add: e ih p(1,2) take_add map_append [symmetric] del: map_append)
qed simp

section \<open>What applying a delta changes\<close>

lemma apply_loop_frame:
  "b_clock (fst (apply_loop T now src ms b n)) = b_clock b \<and> b_node (fst (apply_loop T now src ms b n)) = b_node b
   \<and> b_write_path (fst (apply_loop T now src ms b n)) = b_write_path b"
proof (induction ms arbitrary: b n)
  case (Cons m ms)
  have "b_clock (fst (apply_mutation T now src m b)) = b_clock b \<and> b_node (fst (apply_mutation T now src m b)) = b_node b
      \<and> b_write_path (fst (apply_mutation T now src m b)) = b_write_path b"
    by (auto simp: apply_mutation_def apply_deletion_def apply_write_def Let_def case_prod_beta
        split: option.splits sum.splits prod.splits)
  with Cons show ?case by (auto split: prod.splits sum.splits)
qed simp

lemma stale_receive:
  assumes "wf_dict c" "c \<noteq> []" "\<forall>k. vc_get c k \<le> vc_get c' k"
  shows "stale (receive own c' n) c"
proof -
  have "v \<le> vc_get (receive own c' n) k" if "(k, v) \<in> set c" for k v
  proof -
    have "vc_get c k = v"
      using that assms(1) by (simp add: vc_get_def dget_default_def wf_dict_def)
    then have "v \<le> vc_get c' k" using assms(3) by metis
    then show ?thesis by (cases "k = n") (simp_all add: vc_get_receive)
  qed
  with assms(2) show ?thesis by (auto simp: stale_def list_all_iff)
qed

lemma apply_then_clock:
  assumes "apply_remote_delta T now d b = (b', Inr n)" "\<not> stale (b_clock b) (d_clock d)" "d_clock d \<noteq> []"
  shows "b_clock b' = receive (b_clock b) (d_clock d) (b_node b)"
  using assms apply_loop_frame [of T now "d_source d" "d_mutations d" b 0]
  by (auto simp: apply_remote_delta_def split: prod.splits sum.splits)

section \<open>Properties\<close>

text \<open>
  Exporting page by page, each page from the cursor the last one returned, yields the ledger's
  entries behind the starting cursor in order, none twice and none missing.
\<close>

theorem export_covers_ledger:
  assumes "b_kv b = Some s" "conn_open s" "wf_log (audit_log (kdb s))" "0 < n" "n \<le> 1000"
    and "length (audit_log (kdb s)) \<le> m * n"
  shows "export_pages m since (int n) b =
    map mutation_of_row (filter (\<lambda>r. since < a_seq r) (audit_log (kdb s)))"
proof -
  have "length (filter (\<lambda>r. since < a_seq r) (audit_log (kdb s))) \<le> m * n"
    using assms(6) by (meson le_trans length_filter_le)
  then show ?thesis using export_pages_take [OF assms(2-5,1), of m since] by simp
qed

theorem export_covers_ledger_witness:
  "export_pages 1 0 (int 5) (new_bridge (Some bare_kv) None ''n'') = [mutation_of_row bare_row]"
proof -
  have "export_pages 1 0 (int 5) (new_bridge (Some bare_kv) None ''n'') =
      map mutation_of_row (filter (\<lambda>r. 0 < a_seq r) (audit_log (kdb bare_kv)))"
    by (rule export_covers_ledger)
      (simp_all add: new_bridge_def bare_kv_def wf_log_def, simp_all add: new_kv_def)
  then show ?thesis by (simp add: bare_kv_def bare_row_def get_last_entry_def) (simp add: empty_db_def)
qed

text \<open>
  A replayed delta is recognised: after a delta with a clock has been applied, applying it again
  changes nothing and answers 0.
\<close>

theorem replay_is_rejected:
  assumes "apply_remote_delta T now d b = (b', Inr n)" "wf_dict (d_clock d)" "d_clock d \<noteq> []"
  shows "apply_remote_delta T now' d b' = (b', Inr 0)"
proof (cases "stale (b_clock b) (d_clock d)")
  case True
  with assms(1) show ?thesis by (simp add: apply_remote_delta_def)
next
  case False
  have "stale (b_clock b') (d_clock d)"
    unfolding apply_then_clock [OF assms(1) False assms(3)] by (rule stale_receive [OF assms(2,3)]) simp
  then show ?thesis by (simp add: apply_remote_delta_def)
qed

definition plain_texts :: texts where
  "plain_texts = \<lparr>t_float = rat_text, t_repr = (\<lambda>_. []), t_json_float = (\<lambda>_. 0), t_parse = (\<lambda>_. None)\<rparr>"

theorem replay_is_rejected_witness:
  "apply_remote_delta plain_texts 6
     \<lparr>d_source = ''m'', d_clock = [(''m'', 1)], d_max_seq = 0, d_mutations = []\<rparr>
     (fst (apply_remote_delta plain_texts 5
       \<lparr>d_source = ''m'', d_clock = [(''m'', 1)], d_max_seq = 0, d_mutations = []\<rparr> (new_bridge (Some new_kv) None ''n'')))
   = (fst (apply_remote_delta plain_texts 5
       \<lparr>d_source = ''m'', d_clock = [(''m'', 1)], d_max_seq = 0, d_mutations = []\<rparr> (new_bridge (Some new_kv) None ''n'')), Inr 0)"
proof (rule replay_is_rejected)
  show "apply_remote_delta plain_texts 5
       \<lparr>d_source = ''m'', d_clock = [(''m'', 1)], d_max_seq = 0, d_mutations = []\<rparr> (new_bridge (Some new_kv) None ''n'')
     = (fst (apply_remote_delta plain_texts 5
       \<lparr>d_source = ''m'', d_clock = [(''m'', 1)], d_max_seq = 0, d_mutations = []\<rparr> (new_bridge (Some new_kv) None ''n'')), Inr 0)"
    by (simp add: apply_remote_delta_def)
qed (simp_all add: wf_dict_def)

text \<open>
  The staleness check assumes delivery in order: of two deltas that a node exports one after
  the other, the first is dropped by a peer that has applied the second, whatever it contains.
\<close>

theorem reordered_delta_is_dropped:
  assumes "b_kv b = Some s" "wf_dict (b_clock b)" "\<forall>k. 0 \<le> vc_get (b_clock b) k"
    and "export_delta_from_audit since limit b = (b1, d1)"
    and "export_delta_from_audit since' limit' b1 = (b2, d2)"
    and "apply_remote_delta T now d2 p = (p', Inr n)"
  shows "apply_remote_delta T now' d1 p' = (p', Inr 0)"
proof -
  have c1: "d_clock d1 = increment (b_node b) (b_clock b)" "b_clock b1 = d_clock d1" "b_node b1 = b_node b"
      "b_kv b1 = Some s"
    using assms(1,4) by (auto simp: export_delta_from_audit_def Let_def case_prod_beta)
  have c2: "d_clock d2 = increment (b_node b) (d_clock d1)"
    using assms(5) c1(2-4) by (auto simp: export_delta_from_audit_def Let_def case_prod_beta)
  have wf: "wf_dict (d_clock d1)" using assms(2) by (simp add: c1 increment_def)
  have ne: "d_clock d1 \<noteq> []" "d_clock d2 \<noteq> []" by (simp_all add: c1 c2 increment_def update_nonempty)
  have le: "\<forall>k. vc_get (d_clock d1) k \<le> vc_get (d_clock d2) k" by (simp add: c2 vc_get_increment)
  have "stale (b_clock p') (d_clock d1)"
  proof (cases "stale (b_clock p) (d_clock d2)")
    case True
    then have p': "p' = p" using assms(6) by (simp add: apply_remote_delta_def)
    have "v \<le> vc_get (b_clock p) k" if "(k, v) \<in> set (d_clock d1)" for k v
    proof -
      have v: "vc_get (d_clock d1) k = v"
        using that wf by (simp add: vc_get_def dget_default_def wf_dict_def)
      have "k \<in> set (dkeys (d_clock d1))" using that by (metis fst_conv image_eqI set_map)
      then have "k \<in> set (dkeys (d_clock d2))" unfolding c2 increment_def set_dset by simp
      then obtain w where w: "(k, w) \<in> set (d_clock d2)" by auto
      moreover have "wf_dict (d_clock d2)" using wf by (simp add: c2 increment_def)
      ultimately have "vc_get (d_clock d2) k = w"
        by (simp add: vc_get_def dget_default_def wf_dict_def)
      moreover have "w \<le> vc_get (b_clock p) k" using True w by (auto simp: stale_def list_all_iff)
      ultimately show ?thesis using le v by (metis order_trans)
    qed
    then show ?thesis using ne by (auto simp: stale_def list_all_iff p')
  next
    case False
    show ?thesis unfolding apply_then_clock [OF assms(6) False ne(2)]
      by (rule stale_receive [OF wf ne(1) le])
  qed
  then show ?thesis by (simp add: apply_remote_delta_def)
qed

text \<open>With a single store, without a write path: the deltas act on it as sets and deletions.\<close>

definition only_store :: "bridge \<Rightarrow> kv \<Rightarrow> bool" where
  "only_store b s \<longleftrightarrow> b_kv b = Some s \<and> b_write_path b = None"

lemma apply_deletion_store:
  assumes "only_store b s"
  shows "only_store (fst (apply_deletion T now key b)) (kv_exec (t_float T) (OpDelete now key) s)"
    and "kv_valid (t_float T) s \<Longrightarrow> snd (apply_deletion T now key b) = Inr True"
proof -
  obtain s' r where d: "delete_sync (t_float T) now key s = (s', r)" by (cases "delete_sync (t_float T) now key s")
  show "only_store (fst (apply_deletion T now key b)) (kv_exec (t_float T) (OpDelete now key) s)"
    using assms d by (cases r) (simp_all add: apply_deletion_def only_store_def)
  show "snd (apply_deletion T now key b) = Inr True" if "kv_valid (t_float T) s"
    using assms d delete_sync_valid [OF that, of now key]
    by (auto simp: apply_deletion_def only_store_def)
qed

definition write_op :: "texts \<Rightarrow> rat \<Rightarrow> string \<Rightarrow> string \<Rightarrow> mutation \<Rightarrow> kv_op" where
  "write_op T now src key m =
     (let val = decode_value (t_json_float T) (m_value m) in
      OpSet now key val (FNum (opt_or (m_confidence m) (9 / 10)))
        (mutation_meta src key (py_str (t_repr T) val) (incoming_precision (t_parse T) m))
        (''sync_from_'' @ src) None)"

lemma write_op_simps [simp]: "op_key (write_op T now src key m) = key" "op_allowed (write_op T now src key m)"
  by (simp_all add: write_op_def Let_def)

lemma apply_write_store:
  assumes "only_store b s"
  shows "only_store (fst (apply_write T now src key m b)) (kv_exec (t_float T) (write_op T now src key m) s)"
    and "kv_valid (t_float T) s \<Longrightarrow> snd (apply_write T now src key m b) = Inr True"
proof -
  show "only_store (fst (apply_write T now src key m b)) (kv_exec (t_float T) (write_op T now src key m) s)"
    using assms by (simp add: apply_write_def only_store_def write_op_def Let_def case_prod_beta)
  show "snd (apply_write T now src key m b) = Inr True" if v: "kv_valid (t_float T) s"
  proof -
    define val where "val = decode_value (t_json_float T) (m_value m)"
    obtain s' where "set_sync (t_float T) now key val (FNum (opt_or (m_confidence m) (9 / 10)))
        (mutation_meta src key (py_str (t_repr T) val) (incoming_precision (t_parse T) m))
        (''sync_from_'' @ src) None s = (s', Inr ())"
      using set_sync_valid [OF v, of "''sync_from_'' @ src" now key val "FNum (opt_or (m_confidence m) (9 / 10))"
          "mutation_meta src key (py_str (t_repr T) val) (incoming_precision (t_parse T) m)" None]
      by auto
    then show ?thesis
      using assms by (simp add: apply_write_def only_store_def Let_def val_def)
  qed
qed

lemma apply_mutation_cases:
  assumes "only_store b s" "conn_open s"
  shows "apply_mutation T now src m b = (b, Inr False) \<or>
    (\<exists>op. op_key op = py_strip (m_key m) \<and> op_allowed op
       \<and> only_store (fst (apply_mutation T now src m b)) (kv_exec (t_float T) op s)
       \<and> \<not> low_precision (t_json_float T) (t_parse T) (py_strip (m_key m)) m s
       \<and> (kv_valid (t_float T) s \<longrightarrow> snd (apply_mutation T now src m b) = Inr True))"
proof -
  let ?k = "py_strip (m_key m)"
  have kv: "b_kv b = Some s" using assms(1) by (simp add: only_store_def)
  consider "?k = [] \<or> low_precision (t_json_float T) (t_parse T) ?k m s"
    | "?k \<noteq> []" "\<not> low_precision (t_json_float T) (t_parse T) ?k m s" "is_deletion m"
    | "?k \<noteq> []" "\<not> low_precision (t_json_float T) (t_parse T) ?k m s" "\<not> is_deletion m" by blast
  then show ?thesis
  proof cases
    case 1
    then show ?thesis using kv assms(2) by (auto simp: apply_mutation_def Let_def)
  next
    case 2
    then have "apply_mutation T now src m b = apply_deletion T now ?k b"
      using kv assms(2) by (simp add: apply_mutation_def)
    with 2 apply_deletion_store [OF assms(1), of T now ?k] show ?thesis
      by (intro disjI2 exI [of _ "OpDelete now ?k"]) simp
  next
    case 3
    then have "apply_mutation T now src m b = apply_write T now src ?k m b"
      using kv assms(2) by (simp add: apply_mutation_def)
    with 3 apply_write_store [OF assms(1), of T now src ?k m] show ?thesis
      by (intro disjI2 exI [of _ "write_op T now src ?k m"]) simp
  qed
qed

lemma kv_exec_open: "conn_open (kv_exec fr op s) = conn_open s"
proof -
  have "kv_frame s (kv_exec fr op s)" by (cases op) (simp_all add: frame_set frame_delete)
  then show ?thesis by (simp add: kv_frame_def)
qed

lemma kv_exec_other:
  "k \<noteq> op_key op \<Longrightarrow> dget (state_vars (kdb (kv_exec fr op s))) k = dget (state_vars (kdb s)) k"
  by (cases op)
    (auto simp: set_sync_def delete_sync_def write_audit_def insert_audit_entry_def set_state_row_def
      delete_state_row_def Let_def case_prod_beta split: sum.splits if_splits)

text \<open>A key whose mutations in the delta all have a lower potential keeps its row.\<close>

lemma apply_loop_keeps_row:
  assumes "only_store b s" "conn_open s" "dget (state_vars (kdb s)) k = Some row"
    and "\<forall>m \<in> set ms. py_strip (m_key m) = k \<longrightarrow>
      incoming_lambda (t_parse T) m < local_lambda (t_parse T) (row_to_state_dict (t_json_float T) k row) - 1 / 1000000"
  shows "\<exists>s'. only_store (fst (apply_loop T now src ms b n)) s' \<and> dget (state_vars (kdb s')) k = Some row"
  using assms
proof (induction ms arbitrary: b s n)
  case Nil
  then show ?case by auto
next
  case (Cons m ms)
  obtain b' r where e: "apply_mutation T now src m b = (b', r)" by (cases "apply_mutation T now src m b")
  have "\<exists>s'. only_store b' s' \<and> conn_open s' \<and> dget (state_vars (kdb s')) k = Some row"
    using apply_mutation_cases [OF Cons.prems(1,2), of T now src m]
  proof
    assume "\<exists>op. op_key op = py_strip (m_key m) \<and> op_allowed op
       \<and> only_store (fst (apply_mutation T now src m b)) (kv_exec (t_float T) op s)
       \<and> \<not> low_precision (t_json_float T) (t_parse T) (py_strip (m_key m)) m s
       \<and> (kv_valid (t_float T) s \<longrightarrow> snd (apply_mutation T now src m b) = Inr True)"
    then obtain op where op: "op_key op = py_strip (m_key m)" "only_store b' (kv_exec (t_float T) op s)"
        "\<not> low_precision (t_json_float T) (t_parse T) (py_strip (m_key m)) m s" by (auto simp: e)
    have "py_strip (m_key m) \<noteq> k"
      using op(3) Cons.prems(3,4) by (auto simp: low_precision_def get_state_def)
    then have "dget (state_vars (kdb (kv_exec (t_float T) op s))) k = Some row"
      using kv_exec_other [of k op] op(1) Cons.prems(3) by simp
    with op(2) Cons.prems(2) show ?thesis by (auto simp: kv_exec_open)
  qed (use e Cons.prems in auto)
  then obtain s' where s': "only_store b' s'" "conn_open s'" "dget (state_vars (kdb s')) k = Some row" by blast
  with Cons.IH [OF s'] Cons.prems(4) e show ?case by (cases r) auto
qed

lemma apply_delta_keeps_row:
  assumes "only_store b s" "conn_open s" "dget (state_vars (kdb s)) k = Some row"
    and "\<forall>m \<in> set (d_mutations d). py_strip (m_key m) = k \<longrightarrow>
      incoming_lambda (t_parse T) m < local_lambda (t_parse T) (row_to_state_dict (t_json_float T) k row) - 1 / 1000000"
  shows "\<exists>s'. only_store (fst (apply_remote_delta T now d b)) s' \<and> dget (state_vars (kdb s')) k = Some row"
proof (cases "stale (b_clock b) (d_clock d)")
  case True
  then show ?thesis using assms by (auto simp: apply_remote_delta_def)
next
  case False
  obtain b' r where e: "apply_loop T now (d_source d) (d_mutations d) b 0 = (b', r)"
    by (cases "apply_loop T now (d_source d) (d_mutations d) b 0")
  with apply_loop_keeps_row [OF assms(1-3), of "d_mutations d" T now "d_source d" 0] assms(4)
  obtain s' where "only_store b' s'" "dget (state_vars (kdb s')) k = Some row" by auto
  with False e show ?thesis
    by (auto simp: apply_remote_delta_def only_store_def split: sum.splits)
qed

text \<open>
  Precision guards the state: a key is not touched by a delta whose mutations of that key all have
  a product of precision and confidence below the local one, whatever their time stamps are.
\<close>

theorem low_precision_never_overwrites:
  assumes "b_kv b = Some s" "b_write_path b = None" "conn_open s" "dget (state_vars (kdb s)) k = Some row"
    and "\<forall>m \<in> set (d_mutations d). py_strip (m_key m) = k \<longrightarrow>
      incoming_lambda (t_parse T) m < local_lambda (t_parse T) (row_to_state_dict (t_json_float T) k row) - 1 / 1000000"
  shows "\<exists>s'. b_kv (fst (apply_remote_delta T now d b)) = Some s' \<and> dget (state_vars (kdb s')) k = Some row"
  using apply_delta_keeps_row [of b s k row d T now] assms by (auto simp: only_store_def)

definition fact_row :: "rat \<Rightarrow> state_row" where
  "fact_row c = \<lparr>s_value = ''3'', s_confidence = c, s_timestamp = 1, s_metadata = None, s_value_hash = None\<rparr>"

definition fact_kv :: "rat \<Rightarrow> kv" where
  "fact_kv c = set_base (empty_db\<lparr>state_vars := [(''fact:a'', fact_row c)]\<rparr>) new_kv"

lemma local_lambda_fact: "local_lambda fs (row_to_state_dict fp k (fact_row c)) = c"
  by (simp add: local_lambda_def row_to_state_dict_def fact_row_def stored_meta_def row_tampered_def
      float_or_def)

lemma fact_kv_simps: "conn_open (fact_kv c)" "state_vars (kdb (fact_kv c)) = [(''fact:a'', fact_row c)]"
  by (simp_all add: fact_kv_def) (simp add: new_kv_def)

theorem low_precision_never_overwrites_witness:
  "\<exists>s'. b_kv (fst (apply_remote_delta plain_texts 6
      \<lparr>d_source = ''m'', d_clock = [(''m'', 1)], d_max_seq = 1,
       d_mutations = [\<lparr>m_key = ''fact:a'', m_value = VStr ''9'', m_confidence = Some (1 / 2), m_precision = None,
         m_meta_precision = None, m_reason = Some ''update'', m_timestamp = Some 4000000000\<rparr>]\<rparr>
      (new_bridge (Some (fact_kv 1)) None ''n''))) = Some s'
    \<and> dget (state_vars (kdb s')) ''fact:a'' = Some (fact_row 1)"
proof (rule low_precision_never_overwrites)
  show "b_kv (new_bridge (Some (fact_kv 1)) None ''n'') = Some (fact_kv 1)" by (simp add: new_bridge_def)
  show "b_write_path (new_bridge (Some (fact_kv 1)) None ''n'') = None" by (simp add: new_bridge_def)
qed (simp_all add: fact_kv_simps local_lambda_fact incoming_lambda_def incoming_precision_def
    float_or_def opt_or_def)

text \<open>
  Deletions are not replicated: \<open>delete\<close> records its tombstone with confidence 0, so the mutation
  that a node exports for it has potential 0, and a peer that holds the key with a potential above
  the tolerance rejects it and keeps the row.
\<close>

theorem deletion_is_not_replicated:
  assumes "kv_valid fr s" "key \<in> set (dkeys (state_vars (kdb s)))" "py_strip key = key"
    and "delete_sync fr now key s = (s1, Inr True)" "b_kv a = Some s1"
    and "since = a_seq (last (audit_log (kdb s1))) - 1"
    and "export_delta_from_audit since limit a = (a', d)"
    and "b_kv p = Some sp" "b_write_path p = None" "conn_open sp" "dget (state_vars (kdb sp)) key = Some row"
    and "1 / 1000000 < local_lambda (t_parse T) (row_to_state_dict (t_json_float T) key row)"
  shows "\<exists>sp'. map m_key (d_mutations d) = [key] \<and> is_deletion (hd (d_mutations d))
    \<and> b_kv (fst (apply_remote_delta T now' d p)) = Some sp' \<and> dget (state_vars (kdb sp')) key = Some row"
proof -
  obtain r where r: "audit_log (kdb s1) = audit_log (kdb s) @ [r]" "a_key r = key"
      "a_new_value r = Some deleted_json" "a_confidence r = FNum 0" "a_reason r = ''delete''"
    and v: "kv_valid fr s1"
    using delete_sync_present [OF assms(1,2,4)] by blast
  have wf: "wf_log (audit_log (kdb s1))" and op: "conn_open s1" using v by (simp_all add: kv_valid_def wf_db_def)
  have "filter (\<lambda>x. since < a_seq x) (audit_log (kdb s)) = []"
    using wf unfolding r(1) assms(6) by (force simp: wf_log_snoc filter_empty_conv dest: wf_log_last)
  then have "filter (\<lambda>x. since < a_seq x) (audit_log (kdb s1)) = [r]"
    by (simp add: r(1) assms(6))
  then have q: "query_audit_rows s1 since (max 1 (min limit 1000)) = [r]"
    using op by (simp add: query_audit_rows_def)
  have d: "d_mutations d = [mutation_of_row r]"
    using assms(7) by (auto simp: export_delta_from_audit_def assms(5) q Let_def)
  have lam: "incoming_lambda (t_parse T) (mutation_of_row r) = 0"
    by (simp add: incoming_lambda_def mutation_of_row_def r(4) opt_or_def)
  have del: "is_deletion (mutation_of_row r)"
    by (simp add: is_deletion_def mutation_of_row_def r(3))
  have "m_key (mutation_of_row r) = key" by (simp add: mutation_of_row_def r(2))
  moreover obtain sp' where "only_store (fst (apply_remote_delta T now' d p)) sp'"
      "dget (state_vars (kdb sp')) key = Some row"
    using apply_delta_keeps_row [of p sp key row d T now'] assms(8-12)
    by (auto simp: only_store_def d lam)
  ultimately show ?thesis using del by (auto simp: d only_store_def)
qed

lemma set_fact_valid:
  "\<exists>s r. set_sync rat_text 1 ''fact:a'' (VInt 3) FNone [] ''update'' None new_kv = (s, Inr ())
    \<and> kv_valid rat_text s \<and> audit_log (kdb s) = [r] \<and> ''fact:a'' \<in> set (dkeys (state_vars (kdb s)))"
proof -
  have e: "audit_log (kdb new_kv) = []" by (simp add: new_kv_def empty_db_def)
  obtain s r where "set_sync rat_text 1 ''fact:a'' (VInt 3) FNone [] ''update'' None new_kv = (s, Inr ())"
      "kv_valid rat_text s" "audit_log (kdb s) = [r]" "dget (state_vars (kdb s)) ''fact:a'' \<noteq> None"
    using set_sync_valid [OF new_kv_valid, of "''update''" rat_text 1 "''fact:a''" "VInt 3" FNone "[]" None]
    by (auto simp: e)
  then show ?thesis by (metis dget_None_iff)
qed

theorem deletion_is_not_replicated_witness:
  "\<exists>s s1 d. set_sync rat_text 1 ''fact:a'' (VInt 3) FNone [] ''update'' None new_kv = (s, Inr ())
    \<and> delete_sync rat_text 2 ''fact:a'' s = (s1, Inr True)
    \<and> snd (export_delta_from_audit (a_seq (last (audit_log (kdb s1))) - 1) 200 (new_bridge (Some s1) None ''n'')) = d
    \<and> is_deletion (hd (d_mutations d))
    \<and> (\<exists>sp'. b_kv (fst (apply_remote_delta plain_texts 3 d (new_bridge (Some (fact_kv 1)) None ''m''))) = Some sp'
        \<and> dget (state_vars (kdb sp')) ''fact:a'' = Some (fact_row 1))"
proof -
  obtain s where s: "set_sync rat_text 1 ''fact:a'' (VInt 3) FNone [] ''update'' None new_kv = (s, Inr ())"
      "kv_valid rat_text s" "''fact:a'' \<in> set (dkeys (state_vars (kdb s)))"
    using set_fact_valid by blast
  obtain s1 where s1: "delete_sync rat_text 2 ''fact:a'' s = (s1, Inr True)"
    using delete_sync_valid [OF s(2), of 2 "''fact:a''"] s(3) by auto
  let ?since = "a_seq (last (audit_log (kdb s1))) - 1"
  let ?e = "export_delta_from_audit ?since 200 (new_bridge (Some s1) None ''n'')"
  have strip: "py_strip ''fact:a'' = ''fact:a''" by code_simp
  have nb: "b_kv (new_bridge (Some x) None n) = Some x" "b_write_path (new_bridge (Some x) None n) = None" for x n
    by (simp_all add: new_bridge_def)
  have row: "dget (state_vars (kdb (fact_kv 1))) ''fact:a'' = Some (fact_row 1)" by (simp add: fact_kv_simps)
  have lam: "1 / 1000000 < local_lambda (t_parse plain_texts) (row_to_state_dict (t_json_float plain_texts) ''fact:a'' (fact_row 1))"
    by (simp add: local_lambda_fact)
  have "\<exists>sp'. map m_key (d_mutations (snd ?e)) = [''fact:a''] \<and> is_deletion (hd (d_mutations (snd ?e)))
    \<and> b_kv (fst (apply_remote_delta plain_texts 3 (snd ?e) (new_bridge (Some (fact_kv 1)) None ''m''))) = Some sp'
    \<and> dget (state_vars (kdb sp')) ''fact:a'' = Some (fact_row 1)"
    by (rule deletion_is_not_replicated [OF s(2,3) strip s1 nb(1) refl prod.collapse [symmetric] nb fact_kv_simps(1) row lam])
  then show ?thesis using s(1) s1 by (intro exI [of _ s] exI [of _ s1]) auto
qed

theorem reordered_delta_is_dropped_witness:
  "\<exists>d1 d2 p'. export_delta_from_audit 0 1 (new_bridge (Some bare_kv) None ''n'') = (fst (export_delta_from_audit 0 1 (new_bridge (Some bare_kv) None ''n'')), d1)
    \<and> d_mutations d1 = [mutation_of_row bare_row]
    \<and> apply_remote_delta plain_texts 5 d2 (new_bridge (Some new_kv) None ''m'') = (p', Inr 0)
    \<and> apply_remote_delta plain_texts 6 d1 p' = (p', Inr 0)"
proof -
  let ?b = "new_bridge (Some bare_kv) None ''n''"
  let ?e1 = "export_delta_from_audit 0 1 ?b"
  let ?e2 = "export_delta_from_audit 1 1 (fst ?e1)"
  have open': "conn_open bare_kv" by (simp add: bare_kv_def) (simp add: new_kv_def)
  have log: "audit_log (kdb bare_kv) = [bare_row]" "a_seq bare_row = 1"
    by (simp_all add: bare_kv_def bare_row_def get_last_entry_def) (simp add: empty_db_def)
  have m1: "d_mutations (snd ?e1) = [mutation_of_row bare_row]" and k1: "b_kv (fst ?e1) = Some bare_kv"
    using open' log by (simp_all add: export_delta_from_audit_def new_bridge_def query_audit_rows_def Let_def)
  have m2: "d_mutations (snd ?e2) = []"
    using open' log k1 by (simp add: export_delta_from_audit_def query_audit_rows_def Let_def)
  let ?p = "new_bridge (Some new_kv) None ''m''"
  obtain p' where p': "apply_remote_delta plain_texts 5 (snd ?e2) ?p = (p', Inr 0)"
    by (cases "stale (b_clock ?p) (d_clock (snd ?e2))"; cases "d_clock (snd ?e2) = []")
      (simp_all add: apply_remote_delta_def m2)
  have "apply_remote_delta plain_texts 6 (snd ?e1) p' = (p', Inr 0)"
  proof (rule reordered_delta_is_dropped [where b = ?b and s = bare_kv])
    show "export_delta_from_audit 0 1 ?b = (fst ?e1, snd ?e1)" by simp
    show "export_delta_from_audit 1 1 (fst ?e1) = (fst ?e2, snd ?e2)" by simp
    show "apply_remote_delta plain_texts 5 (snd ?e2) ?p = (p', Inr 0)" by (rule p')
  qed (simp_all add: new_bridge_def wf_dict_def vc_get_def dget_default_def)
  with m1 p' show ?thesis by (intro exI [of _ "snd ?e1"] exI [of _ "snd ?e2"] exI [of _ p']) simp
qed

text \<open>Applying mutations is a sequence of the store's operations.\<close>

lemma apply_loop_execs:
  assumes "only_store b s" "kv_valid (t_float T) s"
  shows "\<exists>ops k. list_all op_allowed ops
    \<and> only_store (fst (apply_loop T now src ms b n)) (kvs.execs (t_float T) ops s)
    \<and> snd (apply_loop T now src ms b n) = Inr k \<and> k \<le> n + length ms"
  using assms
proof (induction ms arbitrary: b s n)
  case Nil
  then show ?case by (intro exI [of _ "[]"]) simp
next
  case (Cons m ms)
  have open': "conn_open s" using Cons.prems(2) by (simp add: kv_valid_def)
  from apply_mutation_cases [OF Cons.prems(1) open', of T now src m] show ?case
  proof
    assume e: "apply_mutation T now src m b = (b, Inr False)"
    from Cons.IH [OF Cons.prems, of n] show ?thesis by (fastforce simp: e)
  next
    assume "\<exists>op. op_key op = py_strip (m_key m) \<and> op_allowed op
       \<and> only_store (fst (apply_mutation T now src m b)) (kv_exec (t_float T) op s)
       \<and> \<not> low_precision (t_json_float T) (t_parse T) (py_strip (m_key m)) m s
       \<and> (kv_valid (t_float T) s \<longrightarrow> snd (apply_mutation T now src m b) = Inr True)"
    then obtain op b' where op: "op_allowed op" "apply_mutation T now src m b = (b', Inr True)"
        "only_store b' (kv_exec (t_float T) op s)"
      using Cons.prems(2) by (metis prod.collapse)
    have v: "kv_valid (t_float T) (kv_exec (t_float T) op s)"
      by (rule kvs.exec_valid [OF Cons.prems(2) op(1)])
    obtain ops k where "list_all op_allowed ops"
      "only_store (fst (apply_loop T now src ms b' (n + 1))) (kvs.execs (t_float T) ops (kv_exec (t_float T) op s))"
      "snd (apply_loop T now src ms b' (n + 1)) = Inr k" "k \<le> n + 1 + length ms"
      using Cons.IH [OF op(3) v, of "n + 1"] by blast
    then show ?thesis using op by (intro exI [of _ "op # ops"] exI [of _ k]) simp
  qed
qed

text \<open>A delta through a bridge without a write path, which never raises on a valid store.\<close>

lemma store_delta_valid:
  assumes "b_kv b = Some s" "b_write_path b = None" "kv_valid (t_float T) s"
  shows "\<exists>b' n s'. apply_remote_delta T now d b = (b', Inr n) \<and> b_kv b' = Some s'
    \<and> kv_valid (t_float T) s' \<and> prefix (audit_log (kdb s)) (audit_log (kdb s'))
    \<and> n \<le> length (d_mutations d)"
proof (cases "stale (b_clock b) (d_clock d)")
  case True
  then show ?thesis using assms by (auto simp: apply_remote_delta_def)
next
  case False
  have "only_store b s" using assms by (simp add: only_store_def)
  from apply_loop_execs [OF this assms(3), of now "d_source d" "d_mutations d" 0]
  obtain ops k where ops: "list_all op_allowed ops"
    "only_store (fst (apply_loop T now (d_source d) (d_mutations d) b 0)) (kvs.execs (t_float T) ops s)"
    "snd (apply_loop T now (d_source d) (d_mutations d) b 0) = Inr k" "k \<le> length (d_mutations d)" by auto
  note kvs.execs_valid [OF assms(3) ops(1)] kvs.execs_ledger [OF assms(3) ops(1)]
  with ops False show ?thesis
    by (cases "apply_loop T now (d_source d) (d_mutations d) b 0")
      (auto simp: apply_remote_delta_def only_store_def)
qed

end
