(* ===== verification/LwwSet.thy ===== *)
theory LwwSet
  imports VectorClock "HOL-Library.Product_Lexorder"
begin

text \<open>
  \<open>CompactLWWSet\<close> of \<open>sync/crdt.py\<close>: element sets whose adds and tombstones carry a precedence
  \<open>(lambda, clock rank, timestamp, node)\<close>, the dominance test with its tolerance, the merge, the
  tombstone collector, and writing and reading a set.

  A metadata tuple is given by its length and its components at the types the code converts
  them to (\<open>float\<close>, \<open>int\<close>, \<open>str\<close>); a component for which the conversion raises is not modelled.
  The tolerance \<open>1e-6\<close> is the rational \<open>1/1000000\<close>.
\<close>

section \<open>Precedence of writes\<close>

datatype raw_meta =
    Meta4 rat int rat string
  | Meta3 rat rat string
  | Meta2 rat string
  | MetaShort
  | MetaNoTuple

record crdt_meta =
  lam :: rat
  rank :: int
  tstamp :: rat
  node :: string

definition mk_meta :: "rat \<Rightarrow> int \<Rightarrow> rat \<Rightarrow> string \<Rightarrow> crdt_meta" where
  "mk_meta l r t n = \<lparr>lam = l, rank = r, tstamp = t, node = n\<rparr>"

lemma mk_meta_sel [simp]:
  "lam (mk_meta l r t n) = l" "rank (mk_meta l r t n) = r" "tstamp (mk_meta l r t n) = t"
  "node (mk_meta l r t n) = n"
  by (simp_all add: mk_meta_def)

lemma mk_meta_collapse [simp]: "mk_meta (lam m) (rank m) (tstamp m) (node m) = m"
  by (cases m) (simp add: mk_meta_def)

fun normalize_meta :: "raw_meta \<Rightarrow> crdt_meta" where
  "normalize_meta (Meta4 l r t n) = mk_meta l r t n"
| "normalize_meta (Meta2 t n) = mk_meta 1 0 t n"
| "normalize_meta (Meta3 l t n) = mk_meta l 0 t n"
| "normalize_meta MetaShort = mk_meta 1 0 0 []"
| "normalize_meta MetaNoTuple = mk_meta 1 0 0 []"

definition lambda_eps :: rat where
  "lambda_eps = 1 / 1000000"

definition norm_dominates :: "crdt_meta \<Rightarrow> crdt_meta \<Rightarrow> bool" where
  "norm_dominates a b =
     (if lam a > lam b + lambda_eps then True
      else if lam a < lam b - lambda_eps then False
      else if rank a > rank b then True
      else if rank a < rank b then False
      else if tstamp a > tstamp b then True
      else if tstamp a < tstamp b then False
      else node a \<ge> node b)"

definition meta_dominates :: "raw_meta \<Rightarrow> raw_meta option \<Rightarrow> bool" where
  "meta_dominates a b =
     (case b of None \<Rightarrow> True | Some b' \<Rightarrow> norm_dominates (normalize_meta a) (normalize_meta b'))"

lemma meta_dominates_Some [simp]:
  "meta_dominates a (Some b) = norm_dominates (normalize_meta a) (normalize_meta b)"
  by (simp add: meta_dominates_def)

lemma norm_dominates_total: "norm_dominates a b \<or> norm_dominates b a"
  by (auto simp: norm_dominates_def lambda_eps_def)

section \<open>The element set\<close>

record lww_set =
  adds :: "(string, raw_meta) dict"
  removes :: "(string, raw_meta) dict"
  tombstone_ttl :: "rat option"

definition empty_set :: lww_set where
  "empty_set = \<lparr>adds = [], removes = [], tombstone_ttl = None\<rparr>"

text \<open>The optional clock argument: a vector clock counts with the sum of its components.\<close>

datatype clock_arg = NoClock | ClockArg vclock | RankArg int

fun clock_rank :: "clock_arg \<Rightarrow> int" where
  "clock_rank NoClock = 0"
| "clock_rank (ClockArg c) = sum_list (map snd c)"
| "clock_rank (RankArg n) = n"

definition write_meta ::
  "rat \<Rightarrow> rat option \<Rightarrow> string \<Rightarrow> rat \<Rightarrow> rat \<Rightarrow> clock_arg \<Rightarrow> raw_meta" where
  "write_meta now timestamp node_id precision confidence vc =
     Meta4 (precision * confidence) (clock_rank vc)
       (case timestamp of None \<Rightarrow> now | Some t \<Rightarrow> t) node_id"

text \<open>The guarded assignment of \<open>add\<close>, \<open>remove\<close> and \<open>merge\<close>.\<close>

definition put_if_dominates ::
  "string \<Rightarrow> raw_meta \<Rightarrow> (string, raw_meta) dict \<Rightarrow> (string, raw_meta) dict" where
  "put_if_dominates e m d =
     (if dget d e = None \<or> meta_dominates m (dget d e) then dset e m d else d)"

definition lww_add ::
  "rat \<Rightarrow> string \<Rightarrow> rat option \<Rightarrow> string \<Rightarrow> rat \<Rightarrow> rat \<Rightarrow> clock_arg \<Rightarrow> lww_set \<Rightarrow> lww_set" where
  "lww_add now e timestamp node_id precision confidence vc s =
     s\<lparr>adds := put_if_dominates e (write_meta now timestamp node_id precision confidence vc) (adds s)\<rparr>"

definition lww_remove ::
  "rat \<Rightarrow> string \<Rightarrow> rat option \<Rightarrow> string \<Rightarrow> rat \<Rightarrow> rat \<Rightarrow> clock_arg \<Rightarrow> lww_set \<Rightarrow> lww_set" where
  "lww_remove now e timestamp node_id precision confidence vc s =
     s\<lparr>removes := put_if_dominates e (write_meta now timestamp node_id precision confidence vc) (removes s)\<rparr>"

definition lww_lookup :: "lww_set \<Rightarrow> string \<Rightarrow> bool" where
  "lww_lookup s e =
     (case dget (adds s) e of
        None \<Rightarrow> False
      | Some add_meta \<Rightarrow>
          (case dget (removes s) e of
             None \<Rightarrow> True
           | Some rem_meta \<Rightarrow> meta_dominates add_meta (Some rem_meta)))"

fun merge_side ::
  "(string, raw_meta) dict \<Rightarrow> (string, raw_meta) dict \<Rightarrow> (string, raw_meta) dict" where
  "merge_side new [] = new"
| "merge_side new ((e, m) # items) = merge_side (put_if_dominates e m new) items"

text \<open>The receiver keeps its own time to live; \<open>other\<close> is not changed.\<close>

definition lww_merge :: "lww_set \<Rightarrow> lww_set \<Rightarrow> lww_set" where
  "lww_merge s other =
     s\<lparr>adds := merge_side (adds s) (adds other), removes := merge_side (removes s) (removes other)\<rparr>"

text \<open>\<open>gc\<close>: the expired tombstones, and with each of them an expired add of its element.\<close>

definition expired :: "rat \<Rightarrow> raw_meta \<Rightarrow> bool" where
  "expired cutoff m = (tstamp (normalize_meta m) < cutoff)"

definition expired_keys :: "rat \<Rightarrow> (string, raw_meta) dict \<Rightarrow> string list" where
  "expired_keys cutoff d = map fst (filter (\<lambda>(e, m). expired cutoff m) d)"

fun gc_loop :: "rat \<Rightarrow> string list \<Rightarrow> lww_set \<Rightarrow> lww_set" where
  "gc_loop cutoff [] s = s"
| "gc_loop cutoff (e # es) s =
     (let s1 = s\<lparr>removes := ddel e (removes s)\<rparr>;
          s2 = (case dget (adds s1) e of
                  None \<Rightarrow> s1
                | Some m \<Rightarrow> if expired cutoff m then s1\<lparr>adds := ddel e (adds s1)\<rparr> else s1)
      in gc_loop cutoff es s2)"

definition gc :: "rat \<Rightarrow> lww_set \<Rightarrow> nat \<times> lww_set" where
  "gc now s =
     (case tombstone_ttl s of
        None \<Rightarrow> (0, s)
      | Some ttl \<Rightarrow>
          let cutoff = now - ttl; ks = expired_keys cutoff (removes s)
          in (length ks, gc_loop cutoff ks s))"

definition wf_lww :: "lww_set \<Rightarrow> bool" where
  "wf_lww s \<longleftrightarrow> wf_dict (adds s) \<and> wf_dict (removes s)"

section \<open>Serialisation\<close>

text \<open>
  \<open>model_dump\<close> turns the tuples into lists (here: the same components); \<open>model_validate\<close> of a
  dictionary keeps the entries that are lists or tuples, normalised to four components.
\<close>

record wire_set =
  w_adds :: "(string, raw_meta) dict"
  w_removes :: "(string, raw_meta) dict"
  w_ttl :: "rat option"

definition model_dump :: "lww_set \<Rightarrow> wire_set" where
  "model_dump s = \<lparr>w_adds = adds s, w_removes = removes s, w_ttl = tombstone_ttl s\<rparr>"

fun renormalize :: "(string, raw_meta) dict \<Rightarrow> (string, raw_meta) dict \<Rightarrow> (string, raw_meta) dict" where
  "renormalize acc [] = acc"
| "renormalize acc ((k, v) # items) =
     renormalize
       (if v = MetaNoTuple then acc
        else (let m = normalize_meta v in dset k (Meta4 (lam m) (rank m) (tstamp m) (node m)) acc))
       items"

definition model_validate :: "wire_set \<Rightarrow> lww_set" where
  "model_validate w = \<lparr>adds = renormalize [] (w_adds w), removes = renormalize [] (w_removes w),
     tombstone_ttl = w_ttl w\<rparr>"

section \<open>Sets seen through their normalised metadata\<close>

definition abs_side :: "(string, raw_meta) dict \<Rightarrow> string \<Rightarrow> crdt_meta option" where
  "abs_side d e = map_option normalize_meta (dget d e)"

definition lww_abs :: "lww_set \<Rightarrow> (string \<Rightarrow> crdt_meta option) \<times> (string \<Rightarrow> crdt_meta option)" where
  "lww_abs s = (abs_side (adds s), abs_side (removes s))"

definition pick :: "crdt_meta option \<Rightarrow> crdt_meta option \<Rightarrow> crdt_meta option" where
  "pick x y =
     (case y of None \<Rightarrow> x
      | Some b \<Rightarrow> (case x of None \<Rightarrow> Some b
                 | Some a \<Rightarrow> if norm_dominates b a then Some b else Some a))"

lemma pick_simps [simp]:
  "pick x None = x" "pick None y = y"
  "pick (Some a) (Some b) = (if norm_dominates b a then Some b else Some a)"
  by (auto simp: pick_def split: option.splits)

lemma abs_side_Nil [simp]: "abs_side [] e = None"
  by (simp add: abs_side_def)

lemma abs_side_put:
  "abs_side (put_if_dominates k m d) e =
     (if e = k then pick (abs_side d k) (Some (normalize_meta m)) else abs_side d e)"
  by (cases "dget d k") (auto simp: put_if_dominates_def abs_side_def)

lemma wf_put [simp]: "wf_dict d \<Longrightarrow> wf_dict (put_if_dominates k m d)"
  by (simp add: put_if_dominates_def)

lemma wf_merge_side: "wf_dict d \<Longrightarrow> wf_dict (merge_side d items)"
  by (induction d items rule: merge_side.induct) auto

lemma abs_side_Cons: "abs_side ((k, m) # d) e = (if e = k then Some (normalize_meta m) else abs_side d e)"
  by (auto simp: abs_side_def)

lemma abs_side_absent: "e \<notin> set (dkeys d) \<Longrightarrow> abs_side d e = None"
  by (simp add: abs_side_def dget_None_iff [THEN iffD2])

lemma abs_merge_side:
  "wf_dict items \<Longrightarrow> abs_side (merge_side d items) e = pick (abs_side d e) (abs_side items e)"
proof (induction d items rule: merge_side.induct)
  case (2 d k m items)
  then have "k \<notin> set (dkeys items)" "wf_dict items" by (simp_all add: wf_dict_Cons)
  with 2 show ?case
    by (cases "e = k") (simp_all add: abs_side_put abs_side_Cons abs_side_absent)
qed simp

lemma wf_lww_merge: "wf_lww s \<Longrightarrow> wf_lww (lww_merge s t)"
  by (simp add: wf_lww_def lww_merge_def wf_merge_side)

lemma abs_adds_merge:
  "wf_lww t \<Longrightarrow> abs_side (adds (lww_merge s t)) = (\<lambda>e. pick (abs_side (adds s) e) (abs_side (adds t) e))"
  by (simp add: lww_merge_def wf_lww_def abs_merge_side fun_eq_iff)

lemma abs_removes_merge:
  "wf_lww t \<Longrightarrow>
     abs_side (removes (lww_merge s t)) = (\<lambda>e. pick (abs_side (removes s) e) (abs_side (removes t) e))"
  by (simp add: lww_merge_def wf_lww_def abs_merge_side fun_eq_iff)

lemmas lww_abs_merge = lww_abs_def abs_adds_merge abs_removes_merge

lemma lww_lookup_abs:
  "lww_lookup s e =
     (case abs_side (adds s) e of None \<Rightarrow> False
      | Some a \<Rightarrow> (case abs_side (removes s) e of None \<Rightarrow> True | Some r \<Rightarrow> norm_dominates a r))"
  by (auto simp: lww_lookup_def abs_side_def split: option.splits)

lemma lww_lookup_cong: "lww_abs s = lww_abs t \<Longrightarrow> lww_lookup s = lww_lookup t"
  by (rule ext) (simp add: lww_lookup_abs lww_abs_def cong: option.case_cong)

section \<open>Convergence away from the tolerance\<close>

text \<open>
  On metadata whose potentials are equal or further apart than the tolerance, dominance is the
  lexicographic order.
\<close>

definition separated :: "crdt_meta set \<Rightarrow> bool" where
  "separated U \<longleftrightarrow> (\<forall>a \<in> U. \<forall>b \<in> U. lam a = lam b \<or> lambda_eps < \<bar>lam a - lam b\<bar>)"

definition metas_in :: "crdt_meta set \<Rightarrow> (string \<Rightarrow> crdt_meta option) \<Rightarrow> bool" where
  "metas_in U f \<longleftrightarrow> (\<forall>e m. f e = Some m \<longrightarrow> m \<in> U)"

definition lww_ok :: "crdt_meta set \<Rightarrow> lww_set \<Rightarrow> bool" where
  "lww_ok U s \<longleftrightarrow> wf_lww s \<and> metas_in U (abs_side (adds s)) \<and> metas_in U (abs_side (removes s))"

definition meta_key :: "crdt_meta \<Rightarrow> rat \<times> int \<times> rat \<times> string" where
  "meta_key m = (lam m, rank m, tstamp m, node m)"

lemma meta_key_inject: "meta_key a = meta_key b \<longleftrightarrow> a = b"
  by (cases a; cases b) (simp add: meta_key_def)

definition opt_in :: "crdt_meta set \<Rightarrow> crdt_meta option \<Rightarrow> bool" where
  "opt_in U x \<longleftrightarrow> (\<forall>m. x = Some m \<longrightarrow> m \<in> U)"

lemma metas_in_iff: "metas_in U f \<longleftrightarrow> (\<forall>e. opt_in U (f e))"
  by (auto simp: metas_in_def opt_in_def)

lemma opt_in_pick: "opt_in U x \<Longrightarrow> opt_in U y \<Longrightarrow> opt_in U (pick x y)"
  by (cases x; cases y) (auto simp: opt_in_def)

lemma norm_dominates_key:
  assumes "lam a = lam b \<or> lambda_eps < \<bar>lam a - lam b\<bar>"
  shows "norm_dominates a b \<longleftrightarrow> meta_key b \<le> meta_key a"
proof (cases "lam a = lam b")
  case True
  moreover have "0 < lambda_eps" by (simp add: lambda_eps_def)
  ultimately show ?thesis
    by (auto simp: norm_dominates_def meta_key_def less_eq_prod_def)
next
  case False
  moreover have "0 < lambda_eps" by (simp add: lambda_eps_def)
  ultimately show ?thesis
    using assms by (auto simp: norm_dominates_def meta_key_def less_eq_prod_def abs_if split: if_splits)
qed

locale lambda_separated =
  fixes U :: "crdt_meta set"
  assumes sep: "separated U"
begin

lemma dominates_key: "a \<in> U \<Longrightarrow> b \<in> U \<Longrightarrow> norm_dominates a b \<longleftrightarrow> meta_key b \<le> meta_key a"
  using sep by (intro norm_dominates_key) (auto simp: separated_def)

lemma pick_comm: "opt_in U x \<Longrightarrow> opt_in U y \<Longrightarrow> pick x y = pick y x"
  by (cases x; cases y) (auto simp: opt_in_def dominates_key meta_key_inject [symmetric])

lemma pick_assoc:
  "opt_in U x \<Longrightarrow> opt_in U y \<Longrightarrow> opt_in U z \<Longrightarrow> pick (pick x y) z = pick x (pick y z)"
  by (cases x; cases y; cases z) (auto simp: opt_in_def dominates_key)

lemma pick_idem: "pick x x = x"
  by (cases x) auto

lemma lww_ok_merge: "lww_ok U s \<Longrightarrow> lww_ok U t \<Longrightarrow> lww_ok U (lww_merge s t)"
  by (auto simp: lww_ok_def wf_lww_merge metas_in_iff lww_abs_merge opt_in_pick)

end

sublocale lambda_separated \<subseteq> join_state lww_merge lww_abs "lww_ok U"
proof unfold_locales
  fix s t u s' t'
  assume s: "lww_ok U s" and t: "lww_ok U t"
  then show ok: "lww_ok U (lww_merge s t)" by (rule lww_ok_merge)
  have wf: "wf_lww s" "wf_lww t" using s t by (auto simp: lww_ok_def)
  have st: "opt_in U (abs_side (adds s) e)" "opt_in U (abs_side (adds t) e)"
    "opt_in U (abs_side (removes s) e)" "opt_in U (abs_side (removes t) e)" for e
    using s t by (auto simp: lww_ok_def metas_in_iff)
  show "lww_abs (lww_merge s t) = lww_abs (lww_merge t s)"
    using wf st by (simp add: lww_abs_merge pick_comm)
  show "lww_abs (lww_merge s s) = lww_abs s"
    using wf by (simp add: lww_abs_merge pick_idem)
  assume u: "lww_ok U u"
  then have wfu: "wf_lww u" "wf_lww (lww_merge t u)" using wf(2)
    by (auto simp: lww_ok_def wf_lww_merge)
  have ou: "opt_in U (abs_side (adds u) e)" "opt_in U (abs_side (removes u) e)" for e
    using u by (auto simp: lww_ok_def metas_in_iff)
  show "lww_abs (lww_merge (lww_merge s t) u) = lww_abs (lww_merge s (lww_merge t u))"
    using wf wfu st ou by (simp add: lww_abs_merge pick_assoc)
  assume s': "lww_ok U s'" and t': "lww_ok U t'"
    and eq: "lww_abs s = lww_abs s'" "lww_abs t = lww_abs t'"
  have "wf_lww t'" using t' by (simp add: lww_ok_def)
  with eq wf show "lww_abs (lww_merge s t) = lww_abs (lww_merge s' t')"
    by (simp add: lww_abs_merge)
qed

context lambda_separated
begin

lemma lookup_converges:
  assumes "lww_ok U s" "list_all (lww_ok U) ds" "list_all (lww_ok U) es" "set ds = set es"
  shows "lww_lookup (foldl lww_merge s ds) = lww_lookup (foldl lww_merge s es)"
  using convergence [OF assms] by (intro lww_lookup_cong) (simp add: deliver_def)

lemma lookup_redelivery:
  assumes "lww_ok U s" "list_all (lww_ok U) ds" "d \<in> set ds"
  shows "lww_lookup (lww_merge (foldl lww_merge s ds) d) = lww_lookup (foldl lww_merge s ds)"
  using redelivery [OF assms] by (intro lww_lookup_cong) (simp add: deliver_def)

end

text \<open>
  The program's potentials are products of precisions and confidences; where these are decimal
  fractions with five digits in all, the metadata are separated.
\<close>

definition decimal_metas :: "crdt_meta set" where
  "decimal_metas = {m. \<exists>n :: int. lam m = of_int n / 100000}"

lemma separated_decimal: "separated decimal_metas"
proof -
  have grid: "of_int m / 100000 = (of_int n / 100000 :: rat) \<or>
      lambda_eps < \<bar>of_int m / 100000 - of_int n / 100000\<bar>" for m n :: int
  proof (cases "m = n")
    case False
    then have "1 \<le> \<bar>m - n\<bar>" by simp
    then have "(1 :: rat) \<le> \<bar>of_int m - of_int n\<bar>"
      by (metis of_int_1_le_iff of_int_abs of_int_diff)
    moreover have "\<bar>of_int m / 100000 - of_int n / 100000\<bar> = \<bar>of_int m - of_int n\<bar> / (100000 :: rat)"
      by (simp add: diff_divide_distrib [symmetric])
    ultimately show ?thesis by (simp add: lambda_eps_def)
  qed simp
  show ?thesis
    unfolding separated_def
  proof (intro ballI)
    fix a b assume "a \<in> decimal_metas" "b \<in> decimal_metas"
    then obtain m n :: int where "lam a = of_int m / 100000" "lam b = of_int n / 100000"
      by (auto simp: decimal_metas_def)
    with grid [of m n] show "lam a = lam b \<or> lambda_eps < \<bar>lam a - lam b\<bar>" by metis
  qed
qed

interpretation decimal: lambda_separated decimal_metas
  by unfold_locales (rule separated_decimal)

section \<open>What the sets promise\<close>

text \<open>
  C12: Replicas that merge the same element sets, in any order and any number of times each, agree
  on every lookup, as long as no two potentials in play differ by a positive amount of at most the
  tolerance.
\<close>

theorem lww_merge_converges:
  assumes "separated U" and "lww_ok U s" and "list_all (lww_ok U) ds" and "list_all (lww_ok U) es"
    and "set ds = set es"
  shows "lww_lookup (foldl lww_merge s ds) = lww_lookup (foldl lww_merge s es)"
  using lambda_separated.lookup_converges [OF lambda_separated.intro [OF assms(1)] assms(2-5)] .

definition set_a :: lww_set where
  "set_a = empty_set\<lparr>adds := [(''x'', Meta4 1 0 10 ''a'')]\<rparr>"

definition set_b :: lww_set where
  "set_b = empty_set\<lparr>removes := [(''x'', Meta4 (1/2) 0 20 ''b'')]\<rparr>"

lemma lww_ok_samples: "lww_ok decimal_metas empty_set" "lww_ok decimal_metas set_a" "lww_ok decimal_metas set_b"
proof -
  have "mk_meta 1 r t n \<in> decimal_metas" "mk_meta (1/2) r t n \<in> decimal_metas" for r t n
    using of_int_numeral [of "num.One"]
    by (auto simp: decimal_metas_def mk_meta_def intro: exI [of _ 100000] exI [of _ 50000])
  then show "lww_ok decimal_metas empty_set" "lww_ok decimal_metas set_a" "lww_ok decimal_metas set_b"
    by (auto simp: lww_ok_def wf_lww_def empty_set_def set_a_def set_b_def metas_in_def abs_side_def
        wf_dict_def split: if_splits)
qed

theorem lww_merge_converges_witness:
  "lww_lookup (foldl lww_merge empty_set [set_a, set_b]) = lww_lookup (foldl lww_merge empty_set [set_b, set_a, set_b])
   \<and> lww_lookup (foldl lww_merge empty_set [set_a, set_b]) ''x''"
proof
  show "lww_lookup (foldl lww_merge empty_set [set_a, set_b]) =
      lww_lookup (foldl lww_merge empty_set [set_b, set_a, set_b])"
    by (rule lww_merge_converges [OF separated_decimal]) (auto simp: lww_ok_samples)
  show "lww_lookup (foldl lww_merge empty_set [set_a, set_b]) ''x''"
    by code_simp
qed

definition cyc :: "rat \<Rightarrow> int \<Rightarrow> rat \<Rightarrow> lww_set" where
  "cyc l r t = empty_set\<lparr>adds := [(''x'', Meta4 l r t ''n'')]\<rparr>"

definition cyc_tomb :: lww_set where
  "cyc_tomb = empty_set\<lparr>removes := [(''x'', Meta4 (1 + 17/10000000) 0 0 ''n'')]\<rparr>"

text \<open>
  Within the tolerance dominance is not transitive: three adds of one element, each of which
  the next one beats, are folded to different winners in different orders, and a tombstone then
  hides the element on one replica and not on the other.
\<close>

theorem lww_merge_order_matters:
  "lww_lookup (foldl lww_merge cyc_tomb [cyc 1 2 5, cyc (1 + 6/10000000) 1 5, cyc (1 + 12/10000000) 0 5]) ''x'' \<and>
   \<not> lww_lookup (foldl lww_merge cyc_tomb [cyc 1 2 5, cyc (1 + 12/10000000) 0 5, cyc (1 + 6/10000000) 1 5]) ''x''"
  by code_simp

text \<open>
  A tombstone whose potential exceeds that of a later add by more than the tolerance keeps the
  element absent, whatever timestamp, node and clock the add claims: a drifted or forged physical
  clock cannot resurrect it.
\<close>

theorem precise_tombstone_resists_clock:
  assumes "\<not> lww_lookup s e" and "dget (removes s) e = Some r"
    and "precision * confidence + lambda_eps < lam (normalize_meta r)"
  shows "\<not> lww_lookup (lww_add now e timestamp node_id precision confidence vc s) e"
proof -
  let ?m = "write_meta now timestamp node_id precision confidence vc"
  have new: "\<not> norm_dominates (normalize_meta ?m) (normalize_meta r)"
    using assms(3) by (auto simp: norm_dominates_def write_meta_def mk_meta_def lambda_eps_def)
  show ?thesis
    using assms(1,2) new
    by (auto simp: lww_lookup_def lww_add_def put_if_dominates_def split: option.splits)
qed

theorem precise_tombstone_resists_clock_witness:
  "\<not> lww_lookup (lww_add 50 ''x'' (Some 999999999) ''evil'' (1/2) 1 (RankArg 77) (set_b\<lparr>removes := [(''x'', Meta4 2 0 20 ''b'')]\<rparr>)) ''x''"
  by (rule precise_tombstone_resists_clock [where r = "Meta4 2 0 20 ''b''"])
     (simp_all add: set_b_def empty_set_def lww_lookup_def lambda_eps_def)

subsection \<open>The tombstone collector\<close>

lemma gc_loop_removes:
  "dget (removes (gc_loop c es s)) e = (if e \<in> set es then None else dget (removes s) e)"
  by (induction c es s rule: gc_loop.induct) (auto simp: Let_def split: option.splits)

lemma gc_loop_adds:
  "dget (adds (gc_loop c es s)) e =
     (if e \<in> set es \<and> (\<exists>m. dget (adds s) e = Some m \<and> expired c m) then None else dget (adds s) e)"
  by (induction c es s rule: gc_loop.induct) (auto simp: Let_def split: option.splits)

lemma gc_loop_ttl: "tombstone_ttl (gc_loop c es s) = tombstone_ttl s"
  by (induction c es s rule: gc_loop.induct) (auto simp: Let_def split: option.splits)

lemma gc_loop_wf: "wf_lww s \<Longrightarrow> wf_lww (gc_loop c es s)"
  by (induction c es s rule: gc_loop.induct) (auto simp: Let_def wf_lww_def split: option.splits)

lemma set_expired_keys:
  "wf_dict d \<Longrightarrow> e \<in> set (expired_keys c d) \<longleftrightarrow> (\<exists>m. dget d e = Some m \<and> expired c m)"
  by (force simp: expired_keys_def wf_dict_def)

lemma gc_disabled: "tombstone_ttl s = None \<Longrightarrow> gc now s = (0, s)"
  by (simp add: gc_def)

lemma gc_wf: "wf_lww s \<Longrightarrow> wf_lww (snd (gc now s))"
  by (simp add: gc_def gc_loop_wf Let_def split: option.split)

lemma gc_loop_length:
  "distinct es \<Longrightarrow> set es \<subseteq> set (dkeys (removes s)) \<Longrightarrow> wf_dict (removes s) \<Longrightarrow>
     length (removes (gc_loop c es s)) + length es = length (removes s)"
proof (induction c es s rule: gc_loop.induct)
  case (2 c e es s)
  let ?s1 = "s\<lparr>removes := ddel e (removes s)\<rparr>"
  let ?s2 = "case dget (adds ?s1) e of None \<Rightarrow> ?s1
             | Some m \<Rightarrow> if expired c m then ?s1\<lparr>adds := ddel e (adds ?s1)\<rparr> else ?s1"
  have r2: "removes ?s2 = ddel e (removes s)" by (simp split: option.split)
  have shorter: "Suc (length (ddel e (removes s))) = length (removes s)"
    using "2.prems" by (intro length_ddel_in) auto
  have "set es \<subseteq> set (dkeys (removes ?s2))"
    unfolding r2 using "2.prems" by (auto simp: dkeys_ddel)
  moreover have "wf_dict (removes ?s2)" unfolding r2 using "2.prems" by simp
  ultimately have "length (removes (gc_loop c es ?s2)) + length es = length (removes ?s2)"
    using "2.prems" "2.IH" [OF refl refl] by simp
  then show ?case unfolding r2 using shorter by (simp add: Let_def)
qed simp

lemma distinct_expired_keys: "wf_dict d \<Longrightarrow> distinct (expired_keys c d)"
  by (simp add: expired_keys_def wf_dict_def distinct_map_filter)

lemma expired_keys_subset: "set (expired_keys c d) \<subseteq> set (dkeys d)"
  by (auto simp: expired_keys_def)

text \<open>
  The collector returns the number of tombstones it removed, leaves no expired one behind and
  touches no fresh one.
\<close>

theorem gc_purges_exactly_expired:
  assumes "wf_lww s" and "tombstone_ttl s = Some ttl"
  shows "fst (gc now s) + length (removes (snd (gc now s))) = length (removes s) \<and>
    dget (removes (snd (gc now s))) e =
      (case dget (removes s) e of None \<Rightarrow> None
       | Some r \<Rightarrow> if tstamp (normalize_meta r) < now - ttl then None else Some r)"
proof -
  let ?ks = "expired_keys (now - ttl) (removes s)"
  have wf: "wf_dict (removes s)" using assms(1) by (simp add: wf_lww_def)
  have "length (removes (gc_loop (now - ttl) ?ks s)) + length ?ks = length (removes s)"
    using wf by (intro gc_loop_length distinct_expired_keys expired_keys_subset)
  then show ?thesis
    using assms wf
    by (auto simp: gc_def Let_def gc_loop_removes set_expired_keys expired_def split: option.splits)
qed

theorem gc_purges_exactly_expired_witness:
  "fst (gc 1000 (set_b\<lparr>tombstone_ttl := Some 100\<rparr>)) +
     length (removes (snd (gc 1000 (set_b\<lparr>tombstone_ttl := Some 100\<rparr>)))) = 1"
  using gc_purges_exactly_expired [of "set_b\<lparr>tombstone_ttl := Some 100\<rparr>" 100 1000 "''x''"]
  by (simp add: set_b_def empty_set_def wf_lww_def wf_dict_def)

text \<open>
  What the collector does to membership: an element with an expired tombstone is present
  afterwards exactly when it has a fresh add, whether or not it was present before.
\<close>

theorem gc_membership:
  assumes "wf_lww s" and "tombstone_ttl s = Some ttl"
  shows "lww_lookup (snd (gc now s)) e =
    (case dget (removes s) e of
       None \<Rightarrow> lww_lookup s e
     | Some r \<Rightarrow>
         if tstamp (normalize_meta r) < now - ttl
         then (case dget (adds s) e of None \<Rightarrow> False | Some a \<Rightarrow> now - ttl \<le> tstamp (normalize_meta a))
         else lww_lookup s e)"
proof -
  have wf: "wf_dict (removes s)" using assms(1) by (simp add: wf_lww_def)
  show ?thesis
    using assms(2) wf
    by (auto simp: gc_def Let_def lww_lookup_def gc_loop_removes gc_loop_adds set_expired_keys
        expired_def not_less split: option.splits)
qed

theorem gc_membership_witness:
  "lww_lookup (snd (gc 1000 (set_b\<lparr>tombstone_ttl := Some 100, adds := [(''x'', Meta4 0 0 950 ''a'')]\<rparr>))) ''x''"
  by (subst gc_membership [where ttl = 100]) (simp_all add: set_b_def empty_set_def wf_lww_def wf_dict_def)

text \<open>
  Hence collecting is not invisible. An element removed and added again before the cutoff is
  present before the collection and gone after it; an element hidden by an old tombstone of
  greater potential is absent before and present after.
\<close>

theorem gc_changes_membership:
  "(let s = lww_add 0 ''x'' (Some 10) ''n'' 1 1 NoClock
              (lww_remove 0 ''x'' (Some 5) ''n'' 1 1 NoClock (empty_set\<lparr>tombstone_ttl := Some 100\<rparr>))
    in lww_lookup s ''x'' \<and> \<not> lww_lookup (snd (gc 1000 s)) ''x'') \<and>
   (let s = lww_add 0 ''x'' (Some 950) ''n'' 1 (1/2) NoClock
              (lww_remove 0 ''x'' (Some 5) ''n'' 2 1 NoClock (empty_set\<lparr>tombstone_ttl := Some 100\<rparr>))
    in \<not> lww_lookup s ''x'' \<and> lww_lookup (snd (gc 1000 s)) ''x'')"
  by code_simp

subsection \<open>Writing a set out and reading it back\<close>

lemma normalize_mk: "normalize_meta (Meta4 (lam m) (rank m) (tstamp m) (node m)) = m"
  by simp

lemma wf_renormalize: "wf_dict acc \<Longrightarrow> wf_dict (renormalize acc items)"
  by (induction acc items rule: renormalize.induct) (auto simp: Let_def)

lemma abs_renormalize:
  "wf_dict items \<Longrightarrow> abs_side (renormalize acc items) e =
     (case dget items e of None \<Rightarrow> abs_side acc e
      | Some m \<Rightarrow> if m = MetaNoTuple then abs_side acc e else Some (normalize_meta m))"
proof (induction acc items rule: renormalize.induct)
  case (2 acc k v items)
  then have k: "dget items k = None" and wf: "wf_dict items"
    by (auto simp: wf_dict_Cons dget_None_iff)
  show ?case
    using "2.IH" [OF wf] k by (cases "e = k") (simp_all add: Let_def abs_side_def split: option.splits)
qed simp

definition tuples_only :: "lww_set \<Rightarrow> bool" where
  "tuples_only s \<longleftrightarrow> MetaNoTuple \<notin> snd ` set (adds s) \<and> MetaNoTuple \<notin> snd ` set (removes s)"

lemma renormalize_side:
  "wf_dict d \<Longrightarrow> MetaNoTuple \<notin> snd ` set d \<Longrightarrow> abs_side (renormalize [] d) = abs_side d"
proof (rule ext)
  fix e assume "wf_dict d" "MetaNoTuple \<notin> snd ` set d"
  moreover from this have "dget d e \<noteq> Some MetaNoTuple" by (force dest: map_of_SomeD)
  ultimately show "abs_side (renormalize [] d) e = abs_side d e"
    by (cases "dget d e") (simp_all add: abs_renormalize abs_side_def [of d])
qed

text \<open>
  Reading back a written set gives a set with the same precedences, hence the same members,
  and the same time to live; legacy two- and three-component tuples come back as four.
\<close>

theorem dump_validate_roundtrip:
  assumes "wf_lww s" and "tuples_only s"
  shows "lww_abs (model_validate (model_dump s)) = lww_abs s \<and>
    lww_lookup (model_validate (model_dump s)) = lww_lookup s \<and>
    tombstone_ttl (model_validate (model_dump s)) = tombstone_ttl s"
proof -
  have "lww_abs (model_validate (model_dump s)) = lww_abs s"
    using assms by (simp add: lww_abs_def model_validate_def model_dump_def wf_lww_def tuples_only_def
        renormalize_side)
  then show ?thesis
    by (simp add: lww_lookup_cong [of "model_validate (model_dump s)" s])
       (simp add: model_validate_def model_dump_def)
qed

theorem dump_validate_roundtrip_witness:
  "lww_lookup (model_validate (model_dump (empty_set\<lparr>adds := [(''x'', Meta2 7 ''n'')]\<rparr>))) ''x''"
  using dump_validate_roundtrip [of "empty_set\<lparr>adds := [(''x'', Meta2 7 ''n'')]\<rparr>"]
  by (simp add: empty_set_def wf_lww_def wf_dict_def tuples_only_def lww_lookup_def)

end
