(* ===== verification/DeltaCrdt.thy ===== *)
theory DeltaCrdt
  imports LwwSet
begin

text \<open>
  \<open>SyncDelta\<close> and \<open>DeltaCRDT\<close> of \<open>sync/crdt.py\<close>: a replica is a node name, its vector clock and
  a dictionary of element sets; it exports its whole state as a delta and merges the deltas of
  its peers, key by key.
\<close>

record sync_delta =
  source_node :: string
  vector_clock :: vclock
  payload_state :: "(string, wire_set) dict option" \<comment> \<open>\<open>payload.get("state")\<close>\<close>
  encrypted_payload :: "string option"

record delta_crdt =
  node_id :: string
  clock :: vclock
  state :: "(string, lww_set) dict"

definition new_crdt :: "string \<Rightarrow> delta_crdt" where
  "new_crdt n = \<lparr>node_id = n, clock = [(n, 0)], state = []\<rparr>"

definition get_set :: "string \<Rightarrow> delta_crdt \<Rightarrow> lww_set \<times> delta_crdt" where
  "get_set key c =
     (case dget (state c) key of
        Some s \<Rightarrow> (s, c)
      | None \<Rightarrow> (empty_set, c\<lparr>state := dset key empty_set (state c)\<rparr>))"

fun gc_sets :: "rat \<Rightarrow> (string, lww_set) dict \<Rightarrow> nat \<times> (string, lww_set) dict" where
  "gc_sets now [] = (0, [])"
| "gc_sets now ((k, s) # sets) =
     (let (n, s') = gc now s; (m, sets') = gc_sets now sets in (n + m, (k, s') # sets'))"

definition auto_gc :: "rat \<Rightarrow> delta_crdt \<Rightarrow> nat \<times> delta_crdt" where
  "auto_gc now c = (let (n, sets) = gc_sets now (state c) in (n, c\<lparr>state := sets\<rparr>))"

text \<open>\<open>since_vector\<close> is accepted and not used: the whole state is exported.\<close>

definition export_delta :: "delta_crdt \<Rightarrow> vclock option \<Rightarrow> sync_delta" where
  "export_delta c since_vector =
     \<lparr>source_node = node_id c, vector_clock = clock c,
      payload_state = Some (map (\<lambda>(k, s). (k, model_dump s)) (state c)), encrypted_payload = None\<rparr>"

fun apply_state :: "(string, lww_set) dict \<Rightarrow> (string, wire_set) dict \<Rightarrow> (string, lww_set) dict" where
  "apply_state st [] = st"
| "apply_state st ((key, set_data) # items) =
     (let incoming_set = model_validate set_data
      in apply_state
           (case dget st key of
              Some s \<Rightarrow> dset key (lww_merge s incoming_set) st
            | None \<Rightarrow> dset key incoming_set st)
           items)"

definition apply_delta :: "rat \<Rightarrow> delta_crdt \<Rightarrow> sync_delta \<Rightarrow> delta_crdt" where
  "apply_delta now c delta =
     (let items = (case payload_state delta of None \<Rightarrow> [] | Some st \<Rightarrow> st);
          c1 = c\<lparr>state := apply_state (state c) items\<rparr>;
          c2 = c1\<lparr>clock := vc_merge (clock c1) (vector_clock delta)\<rparr>
      in snd (auto_gc now c2))"

definition crdt_lookup :: "delta_crdt \<Rightarrow> string \<Rightarrow> string \<Rightarrow> bool" where
  "crdt_lookup c key e = (case dget (state c) key of None \<Rightarrow> False | Some s \<Rightarrow> lww_lookup s e)"

section \<open>A replica's sets as one state\<close>

type_synonym sets_abs = "string \<Rightarrow> (string \<Rightarrow> crdt_meta option) \<times> (string \<Rightarrow> crdt_meta option)"

definition sets_abs :: "(string, lww_set) dict \<Rightarrow> sets_abs" where
  "sets_abs st k = lww_abs (dget_default st k empty_set)"

definition merge_sets :: "(string, lww_set) dict \<Rightarrow> (string, lww_set) dict \<Rightarrow> (string, lww_set) dict" where
  "merge_sets st st' = apply_state st (map (\<lambda>(k, s). (k, model_dump s)) st')"

definition set_ok :: "crdt_meta set \<Rightarrow> lww_set \<Rightarrow> bool" where
  "set_ok U s \<longleftrightarrow> lww_ok U s \<and> tuples_only s \<and> tombstone_ttl s = None"

definition sets_ok :: "crdt_meta set \<Rightarrow> (string, lww_set) dict \<Rightarrow> bool" where
  "sets_ok U st \<longleftrightarrow> wf_dict st \<and> (\<forall>k s. dget st k = Some s \<longrightarrow> set_ok U s)"

lemma set_ok_empty [simp]: "set_ok U empty_set"
  by (simp add: set_ok_def lww_ok_def wf_lww_def empty_set_def tuples_only_def metas_in_def abs_side_def)

lemma sets_ok_default: "sets_ok U st \<Longrightarrow> set_ok U (dget_default st k empty_set)"
  by (auto simp: sets_ok_def dget_default_def split: option.split)

lemma crdt_lookup_abs: "crdt_lookup c k e = lww_lookup (dget_default (state c) k empty_set) e"
  by (simp add: crdt_lookup_def dget_default_def lww_lookup_def empty_set_def split: option.split)

lemma crdt_lookup_cong: "sets_abs (state c) = sets_abs (state d) \<Longrightarrow> crdt_lookup c = crdt_lookup d"
  by (rule ext)+ (metis crdt_lookup_abs lww_lookup_cong sets_abs_def)

subsection \<open>Tuples stay tuples\<close>

lemma values_dset: "snd ` set (dset k v d) \<subseteq> insert v (snd ` set d)"
  by (induction d) auto

lemma tuples_put: "v \<noteq> x \<Longrightarrow> x \<notin> snd ` set d \<Longrightarrow> x \<notin> snd ` set (put_if_dominates k v d)"
  using values_dset [of k v d] by (auto simp: put_if_dominates_def)

lemma tuples_merge_side:
  "x \<notin> snd ` set d \<Longrightarrow> x \<notin> snd ` set items \<Longrightarrow> x \<notin> snd ` set (merge_side d items)"
proof (induction d items rule: merge_side.induct)
  case (2 d k m items)
  then have "x \<notin> snd ` set (put_if_dominates k m d)" by (intro tuples_put) auto
  with 2 show ?case by simp
qed simp

lemma tuples_only_merge: "tuples_only s \<Longrightarrow> tuples_only t \<Longrightarrow> tuples_only (lww_merge s t)"
  by (simp add: tuples_only_def lww_merge_def tuples_merge_side)

lemma tuples_renormalize: "MetaNoTuple \<notin> snd ` set acc \<Longrightarrow> MetaNoTuple \<notin> snd ` set (renormalize acc items)"
proof (induction acc items rule: renormalize.induct)
  case (2 acc k v items)
  have "MetaNoTuple \<notin> snd ` set (dset k (Meta4 l r t n) acc)" for l r t n
    using 2(2) values_dset [of k "Meta4 l r t n" acc] by blast
  with 2 show ?case by (simp add: Let_def)
qed simp

lemma tuples_only_validate: "tuples_only (model_validate w)"
  by (simp add: tuples_only_def model_validate_def tuples_renormalize)

lemma wf_validate: "wf_lww (model_validate w)"
  by (simp add: wf_lww_def model_validate_def wf_renormalize)

lemma set_ok_validate_dump:
  assumes "set_ok U s"
  shows "set_ok U (model_validate (model_dump s)) \<and> lww_abs (model_validate (model_dump s)) = lww_abs s"
proof -
  have wf: "wf_lww s" "tuples_only s" and ttl: "tombstone_ttl s = None"
    using assms by (simp_all add: set_ok_def lww_ok_def)
  have sides: "abs_side (renormalize [] (adds s)) = abs_side (adds s)"
    "abs_side (renormalize [] (removes s)) = abs_side (removes s)"
    using wf by (simp_all add: renormalize_side wf_lww_def tuples_only_def)
  show ?thesis
    using assms wf ttl sides
    by (simp add: set_ok_def lww_ok_def wf_validate tuples_only_validate)
       (simp add: model_validate_def model_dump_def lww_abs_def)
qed

subsection \<open>The merge of containers is a join\<close>

definition join_abs ::
  "(string \<Rightarrow> crdt_meta option) \<times> (string \<Rightarrow> crdt_meta option) \<Rightarrow>
   (string \<Rightarrow> crdt_meta option) \<times> (string \<Rightarrow> crdt_meta option) \<Rightarrow>
   (string \<Rightarrow> crdt_meta option) \<times> (string \<Rightarrow> crdt_meta option)" where
  "join_abs x y = ((\<lambda>e. pick (fst x e) (fst y e)), (\<lambda>e. pick (snd x e) (snd y e)))"

lemma lww_abs_merge_join: "wf_lww t \<Longrightarrow> lww_abs (lww_merge s t) = join_abs (lww_abs s) (lww_abs t)"
  by (simp add: lww_abs_merge join_abs_def)

lemma join_abs_empty [simp]: "join_abs (lww_abs empty_set) x = x" "join_abs x (lww_abs empty_set) = x"
  by (simp_all add: join_abs_def lww_abs_def empty_set_def abs_side_def)

lemma sets_abs_dset: "sets_abs (dset k s st) k' = (if k = k' then lww_abs s else sets_abs st k')"
  by (simp add: sets_abs_def dget_default_def)

lemma sets_ok_dset: "sets_ok U st \<Longrightarrow> set_ok U s \<Longrightarrow> sets_ok U (dset k s st)"
  by (simp add: sets_ok_def)

lemma sets_ok_Cons:
  "sets_ok U ((k, s) # st) \<longleftrightarrow> set_ok U s \<and> sets_ok U st \<and> k \<notin> set (dkeys st)"
proof -
  have "ka \<noteq> k" if "k \<notin> set (dkeys st)" "dget st ka = Some sa" for ka sa
    using that dget_in_keys [of st ka sa] by metis
  then show ?thesis unfolding sets_ok_def wf_dict_Cons by auto metis
qed

lemma sets_abs_Cons:
  "sets_abs ((k, s) # st) k' = (if k' = k then lww_abs s else sets_abs st k')"
  by (auto simp: sets_abs_def dget_default_def)

lemma sets_abs_absent: "k \<notin> set (dkeys st) \<Longrightarrow> sets_abs st k = lww_abs empty_set"
  by (simp add: sets_abs_def dget_default_def dget_None_iff [THEN iffD2])

context lambda_separated
begin

lemma set_ok_merge: "set_ok U s \<Longrightarrow> set_ok U t \<Longrightarrow> set_ok U (lww_merge s t)"
  using lww_ok_merge [of s t] by (simp add: set_ok_def tuples_only_merge) (simp add: lww_merge_def)

lemma merge_sets_join:
  "sets_ok U st \<Longrightarrow> sets_ok U st' \<Longrightarrow>
     sets_ok U (merge_sets st st') \<and>
     sets_abs (merge_sets st st') = (\<lambda>k. join_abs (sets_abs st k) (sets_abs st' k))"
proof (induction st' arbitrary: st)
  case Nil
  then show ?case by (simp add: merge_sets_def sets_abs_absent)
next
  case (Cons p rest)
  obtain key s where p: "p = (key, s)" by (cases p)
  let ?inc = "model_validate (model_dump s)"
  let ?st1 = "case dget st key of Some s0 \<Rightarrow> dset key (lww_merge s0 ?inc) st | None \<Rightarrow> dset key ?inc st"
  have ok: "set_ok U s" "sets_ok U rest" "key \<notin> set (dkeys rest)"
    using Cons.prems(2) p by (auto simp: sets_ok_Cons)
  have inc: "set_ok U ?inc" "lww_abs ?inc = lww_abs s"
    using set_ok_validate_dump [OF ok(1)] by auto
  have wfi: "wf_lww ?inc" by (rule wf_validate)
  have old: "set_ok U s0" if "dget st key = Some s0" for s0
    using Cons.prems(1) that by (auto simp: sets_ok_def)
  have st1: "sets_ok U ?st1"
    using Cons.prems(1) inc old by (auto intro!: sets_ok_dset set_ok_merge split: option.split)
  have abs1: "sets_abs ?st1 k = (if k = key then join_abs (sets_abs st key) (lww_abs s) else sets_abs st k)" for k
  proof (cases "dget st key")
    case None
    then have "sets_abs st key = lww_abs empty_set" by (simp add: sets_abs_def dget_default_def)
    with None inc show ?thesis by (simp add: sets_abs_dset)
  next
    case (Some s0)
    then have "sets_abs st key = lww_abs s0" by (simp add: sets_abs_def dget_default_def)
    with Some inc wfi show ?thesis by (simp add: sets_abs_dset lww_abs_merge_join)
  qed
  have unfold: "merge_sets st ((key, s) # rest) = merge_sets ?st1 rest"
    by (simp add: merge_sets_def Let_def)
  from Cons.IH [OF st1 ok(2)] show ?case
    unfolding p unfold
    by (auto simp: fun_eq_iff abs1 sets_abs_Cons sets_abs_absent [OF ok(3)])
qed

lemma join_abs_pick_comm:
  assumes "set_ok U s" "set_ok U t"
  shows "join_abs (lww_abs s) (lww_abs t) = join_abs (lww_abs t) (lww_abs s)"
  using assms
  by (auto simp: join_abs_def lww_abs_def set_ok_def lww_ok_def metas_in_iff fun_eq_iff intro: pick_comm)

lemma join_abs_assoc:
  assumes "set_ok U s" "set_ok U t" "set_ok U u"
  shows "join_abs (join_abs (lww_abs s) (lww_abs t)) (lww_abs u) =
    join_abs (lww_abs s) (join_abs (lww_abs t) (lww_abs u))"
  using assms
  by (auto simp: join_abs_def lww_abs_def set_ok_def lww_ok_def metas_in_iff fun_eq_iff intro: pick_assoc)

lemma join_abs_idem: "join_abs x x = x"
  by (simp add: join_abs_def pick_idem)

lemma merge_sets_ok: "sets_ok U a \<Longrightarrow> sets_ok U b \<Longrightarrow> sets_ok U (merge_sets a b)"
  using merge_sets_join by blast

lemma sets_abs_merge:
  "sets_ok U a \<Longrightarrow> sets_ok U b \<Longrightarrow> sets_abs (merge_sets a b) = (\<lambda>k. join_abs (sets_abs a k) (sets_abs b k))"
  using merge_sets_join by blast

lemma join_sets_comm:
  "sets_ok U a \<Longrightarrow> sets_ok U b \<Longrightarrow> join_abs (sets_abs a k) (sets_abs b k) = join_abs (sets_abs b k) (sets_abs a k)"
  unfolding sets_abs_def by (intro join_abs_pick_comm sets_ok_default)

lemma join_sets_assoc:
  "sets_ok U a \<Longrightarrow> sets_ok U b \<Longrightarrow> sets_ok U c \<Longrightarrow>
     join_abs (join_abs (sets_abs a k) (sets_abs b k)) (sets_abs c k) =
     join_abs (sets_abs a k) (join_abs (sets_abs b k) (sets_abs c k))"
  unfolding sets_abs_def by (intro join_abs_assoc sets_ok_default)

end

sublocale lambda_separated \<subseteq> container: join_state merge_sets sets_abs "sets_ok U"
proof unfold_locales
  fix a b c a' b'
  assume a: "sets_ok U a" and b: "sets_ok U b"
  then show "sets_ok U (merge_sets a b)" by (rule merge_sets_ok)
  show "sets_abs (merge_sets a b) = sets_abs (merge_sets b a)"
    by (simp only: sets_abs_merge a b join_sets_comm [OF a b])
  show "sets_abs (merge_sets a a) = sets_abs a"
    by (simp only: sets_abs_merge a join_abs_idem)
  assume c: "sets_ok U c"
  show "sets_abs (merge_sets (merge_sets a b) c) = sets_abs (merge_sets a (merge_sets b c))"
    by (simp only: sets_abs_merge merge_sets_ok a b c join_sets_assoc [OF a b c])
  assume a': "sets_ok U a'" and b': "sets_ok U b'"
    and "sets_abs a = sets_abs a'" "sets_abs b = sets_abs b'"
  then show "sets_abs (merge_sets a b) = sets_abs (merge_sets a' b')"
    by (simp only: sets_abs_merge a b a' b')
qed

section \<open>Applying deltas\<close>

lemma gc_sets_disabled:
  "(\<And>k s. (k, s) \<in> set st \<Longrightarrow> tombstone_ttl s = None) \<Longrightarrow> gc_sets now st = (0, st)"
proof (induction st)
  case (Cons p st)
  obtain k s where p: "p = (k, s)" by (cases p)
  have "tombstone_ttl s = None" using Cons.prems [of k s] p by simp
  moreover have "gc_sets now st = (0, st)"
  proof (rule Cons.IH)
    fix k s assume "(k, s) \<in> set st"
    then show "tombstone_ttl s = None" by (intro Cons.prems [of k s]) simp
  qed
  ultimately show ?case by (simp add: p gc_disabled)
qed simp

lemma sets_ok_ttl: "sets_ok U st \<Longrightarrow> (k, s) \<in> set st \<Longrightarrow> tombstone_ttl s = None"
  by (metis sets_ok_def set_ok_def wf_dict_def map_of_eq_Some_iff)

lemma apply_exported:
  assumes "lambda_separated U" "sets_ok U (state c)" "sets_ok U (state p)"
  shows "state (apply_delta now c (export_delta p since)) = merge_sets (state c) (state p)"
    and "clock (apply_delta now c (export_delta p since)) = vc_merge (clock c) (clock p)"
proof -
  have "sets_ok U (merge_sets (state c) (state p))"
    using lambda_separated.merge_sets_join [OF assms] by simp
  then have "gc_sets now (merge_sets (state c) (state p)) = (0, merge_sets (state c) (state p))"
    by (intro gc_sets_disabled) (rule sets_ok_ttl)
  then show "state (apply_delta now c (export_delta p since)) = merge_sets (state c) (state p)"
    and "clock (apply_delta now c (export_delta p since)) = vc_merge (clock c) (clock p)"
    by (simp_all add: apply_delta_def export_delta_def auto_gc_def merge_sets_def Let_def)
qed

text \<open>Receiving the exports of a sequence of peers.\<close>

definition gossip_round :: "rat \<Rightarrow> vclock option \<Rightarrow> delta_crdt \<Rightarrow> delta_crdt list \<Rightarrow> delta_crdt" where
  "gossip_round now since c ps = foldl (\<lambda>c p. apply_delta now c (export_delta p since)) c ps"

lemma gossip_round_state:
  assumes "lambda_separated U"
  shows "sets_ok U (state c) \<Longrightarrow> list_all (\<lambda>p. sets_ok U (state p)) ps \<Longrightarrow>
    state (gossip_round now since c ps) = foldl merge_sets (state c) (map state ps)"
proof (induction ps arbitrary: c)
  case (Cons p ps)
  let ?c1 = "apply_delta now c (export_delta p since)"
  have st: "state ?c1 = merge_sets (state c) (state p)"
    using Cons.prems by (intro apply_exported [OF assms]) auto
  then have "sets_ok U (state ?c1)"
    using Cons.prems lambda_separated.merge_sets_join [OF assms] by simp
  with Cons.IH [of ?c1] Cons.prems st show ?case by (simp add: gossip_round_def)
qed (simp add: gossip_round_def)

context lambda_separated
begin

lemma container_converges:
  assumes "sets_ok U st" "list_all (sets_ok U) ds" "list_all (sets_ok U) es" "set ds = set es"
  shows "sets_abs (foldl merge_sets st ds) = sets_abs (foldl merge_sets st es)"
  using container.convergence [OF assms] by (simp add: container.deliver_def)

end

text \<open>
  C13: Replicas that start alike and apply the deltas of the same peers, in any order and with any
  repetitions, answer every lookup of every key alike, when collection is off and the potentials in
  play are separated by more than the tolerance.
\<close>

theorem delta_exchange_converges:
  assumes "separated U" and "sets_ok U (state c)"
    and "list_all (\<lambda>p. sets_ok U (state p)) ps" and "list_all (\<lambda>p. sets_ok U (state p)) qs"
    and "set ps = set qs"
  shows "crdt_lookup (gossip_round now since c ps) = crdt_lookup (gossip_round now' since' c qs)"
proof (rule crdt_lookup_cong)
  have loc: "lambda_separated U" by (rule lambda_separated.intro [OF assms(1)])
  have "sets_abs (foldl merge_sets (state c) (map state ps)) = sets_abs (foldl merge_sets (state c) (map state qs))"
    using assms(2-5) by (intro lambda_separated.container_converges [OF loc]) (auto simp: list_all_iff)
  then show "sets_abs (state (gossip_round now since c ps)) = sets_abs (state (gossip_round now' since' c qs))"
    using assms by (simp add: gossip_round_state [OF loc])
qed

definition peer_a :: delta_crdt where
  "peer_a = (new_crdt ''b'')\<lparr>state := [(''k'', set_a)]\<rparr>"

definition peer_b :: delta_crdt where
  "peer_b = (new_crdt ''c'')\<lparr>state := [(''k'', set_b)]\<rparr>"

lemma samples_ok: "sets_ok decimal_metas (state peer_a)" "sets_ok decimal_metas (state peer_b)"
  "sets_ok decimal_metas (state (new_crdt n))"
proof -
  have "set_ok decimal_metas set_a" "set_ok decimal_metas set_b"
    using lww_ok_samples by (simp_all add: set_ok_def) (simp_all add: tuples_only_def set_a_def set_b_def empty_set_def)
  then show "sets_ok decimal_metas (state peer_a)" "sets_ok decimal_metas (state peer_b)"
    "sets_ok decimal_metas (state (new_crdt n))"
    by (simp_all add: peer_a_def peer_b_def sets_ok_Cons) (simp_all add: sets_ok_def new_crdt_def)
qed

theorem delta_exchange_converges_witness:
  "crdt_lookup (gossip_round 5 None (new_crdt ''a'') [peer_a, peer_b]) =
   crdt_lookup (gossip_round 6 None (new_crdt ''a'') [peer_b, peer_a])"
  by (rule delta_exchange_converges [OF separated_decimal]) (auto simp: samples_ok)

text \<open>
  A fresh replica that applies one exported delta holds exactly the exporter's members, and its
  clock is at least the exporter's.
\<close>

theorem delta_bootstrap:
  assumes "separated U" and "sets_ok U (state p)"
  shows "crdt_lookup (apply_delta now (new_crdt n) (export_delta p since)) = crdt_lookup p \<and>
    vc_le (clock p) (clock (apply_delta now (new_crdt n) (export_delta p since)))"
proof
  have loc: "lambda_separated U" by (rule lambda_separated.intro [OF assms(1)])
  have fresh: "sets_ok U (state (new_crdt n))" by (simp add: sets_ok_def new_crdt_def)
  have "sets_abs (state (new_crdt n)) = (\<lambda>_. lww_abs empty_set)"
    by (simp add: new_crdt_def sets_abs_def dget_default_def fun_eq_iff)
  then show "crdt_lookup (apply_delta now (new_crdt n) (export_delta p since)) = crdt_lookup p"
    using lambda_separated.merge_sets_join [OF loc fresh assms(2)] assms
    by (intro crdt_lookup_cong) (simp add: apply_exported [OF loc fresh])
  show "vc_le (clock p) (clock (apply_delta now (new_crdt n) (export_delta p since)))"
    using assms by (simp add: apply_exported [OF loc fresh] vc_le_merge)
qed

theorem delta_bootstrap_witness:
  "crdt_lookup (apply_delta 9 (new_crdt ''n'') (export_delta peer_a None)) ''k'' ''x''"
proof -
  have "crdt_lookup (apply_delta 9 (new_crdt ''n'') (export_delta peer_a None)) = crdt_lookup peer_a"
    using delta_bootstrap [OF separated_decimal samples_ok(1)] by blast
  then show ?thesis by (simp add: peer_a_def crdt_lookup_def lww_lookup_def set_a_def empty_set_def)
qed

end
