(* ===== verification/PeerTrust.thy ===== *)
theory PeerTrust
  imports Prelude
begin

text \<open>
  What a node keeps about its peers: \<open>EpistemicReputation\<close> (\<open>sync/epistemic_reputation.py\<close>),
  \<open>PeerIdentity\<close> (\<open>sync/peer_identity.py\<close>), and the deletion guard (\<open>security/delete_guard.py\<close>).
  Both registries are dictionaries of at most 100 peers that drop the first key when a new peer
  arrives; their common contract is the locale \<open>fifo_registry\<close>.

  Ed25519 (package \<open>cryptography\<close>) is a parameter: the functions \<open>ed_from_public\<close>,
  \<open>ed_public\<close>, \<open>ed_sign\<close> and \<open>ed_verify\<close> of the definitions that use it.
\<close>

section \<open>A bounded registry that evicts its oldest key\<close>

locale fifo_registry =
  fixes put :: "string \<Rightarrow> 'x \<Rightarrow> 's \<Rightarrow> 's"
    and entries :: "'s \<Rightarrow> (string, 'v) dict"
    and upd :: "'x \<Rightarrow> 'v option \<Rightarrow> 'v"
    and limit :: nat
  assumes limit_pos: "0 < limit"
    and entries_put: "entries (put k x s) =
      dset k (upd x (dget (entries s) k))
        (if limit \<le> length (entries s) \<and> k \<notin> set (dkeys (entries s))
         then ddel (fst (hd (entries s))) (entries s) else entries s)"
begin

definition bounded :: "'s \<Rightarrow> bool" where
  "bounded s \<longleftrightarrow> wf_dict (entries s) \<and> length (entries s) \<le> limit"

definition puts :: "'s \<Rightarrow> (string \<times> 'x) list \<Rightarrow> 's" where
  "puts s ops = foldl (\<lambda>s (k, x). put k x s) s ops"

text \<open>The number of keys younger than \<open>k\<close>.\<close>

definition younger :: "string \<Rightarrow> 's \<Rightarrow> nat" where
  "younger k s = length (takeWhile (\<lambda>k'. k' \<noteq> k) (rev (dkeys (entries s))))"

lemma ddel_hd: "wf_dict d \<Longrightarrow> d \<noteq> [] \<Longrightarrow> ddel (fst (hd d)) d = tl d"
  by (cases d) (force simp: wf_dict_def AList.delete_eq filter_id_conv)+

lemma put_bounded: "bounded s \<Longrightarrow> bounded (put k x s)"
proof -
  assume "bounded s"
  then have wf: "wf_dict (entries s)" and le: "length (entries s) \<le> limit"
    by (simp_all add: bounded_def)
  have tl: "ddel (fst (hd (entries s))) (entries s) = tl (entries s)" if "limit \<le> length (entries s)"
    using wf that limit_pos by (intro ddel_hd) auto
  have tl_wf: "wf_dict (tl (entries s))"
    using wf by (cases "entries s") (simp_all add: wf_dict_def)
  show ?thesis
    using wf le limit_pos tl tl_wf unfolding bounded_def entries_put length_dset
    by (auto intro: wf_dict_dset)
qed

lemma puts_bounded: "bounded s \<Longrightarrow> bounded (puts s ops)"
  unfolding puts_def by (induction ops arbitrary: s) (auto intro: put_bounded)

lemma put_present: "dget (entries (put k x s)) k = Some (upd x (dget (entries s) k))"
  by (simp add: entries_put)

lemma put_keys:
  assumes "wf_dict (entries s)"
  shows "dkeys (entries (put k x s)) =
    (if k \<in> set (dkeys (entries s)) then dkeys (entries s)
     else (if limit \<le> length (entries s) then tl (dkeys (entries s)) else dkeys (entries s)) @ [k])"
proof -
  have "ddel (fst (hd (entries s))) (entries s) = tl (entries s)" if "limit \<le> length (entries s)"
    using assms that limit_pos by (intro ddel_hd) auto
  moreover have "k \<notin> set (dkeys (tl (entries s)))" if "k \<notin> set (dkeys (entries s))"
    using that by (cases "entries s") auto
  ultimately show ?thesis
    unfolding entries_put dkeys_dset
    by (cases "k \<in> set (dkeys (entries s))"; cases "limit \<le> length (entries s)") (simp_all del: list.set_map add: map_tl)
qed

lemma younger_step:
  assumes wf: "wf_dict (entries s)" and le: "length (entries s) \<le> limit"
    and k: "k \<in> set (dkeys (entries s))" and y: "younger k s + 1 < limit"
  shows "k \<in> set (dkeys (entries (put k' x s))) \<and> younger k (put k' x s) \<le> younger k s + 1"
proof (cases "k' \<in> set (dkeys (entries s))")
  case True
  then show ?thesis using k wf by (simp add: put_keys younger_def)
next
  case False
  then have kk: "k' \<noteq> k" using k by auto
  obtain h t where ht: "dkeys (entries s) = h # t" using k by (cases "dkeys (entries s)") auto
  have tk: "k \<in> set t" if "limit \<le> length (entries s)"
  proof (rule ccontr)
    assume "k \<notin> set t"
    then have "takeWhile (\<lambda>k'. k' \<noteq> k) (rev (h # t)) = rev t"
      using k ht by (force simp: takeWhile_append)
    then have "younger k s = length t" by (simp add: younger_def ht)
    moreover have "Suc (length t) = length (entries s)" using ht by (metis length_Cons length_map)
    ultimately show False using y that by simp
  qed
  have "takeWhile (\<lambda>k'. k' \<noteq> k) (rev t @ [h]) = takeWhile (\<lambda>k'. k' \<noteq> k) (rev t)" if "k \<in> set t"
    using that by (subst takeWhile_append1 [where x = k]) auto
  with kk tk k ht show ?thesis
    by (auto simp: put_keys [OF wf] younger_def)
qed

lemma put_value:
  assumes "wf_dict (entries s)" "k \<noteq> k'" "k \<in> set (dkeys (entries (put k' x s)))"
  shows "dget (entries (put k' x s)) k = dget (entries s) k"
proof -
  have "k \<noteq> fst (hd (entries s))" if "limit \<le> length (entries s)" "k' \<notin> set (dkeys (entries s))"
  proof
    assume "k = fst (hd (entries s))"
    then have "k \<notin> set (dkeys (ddel (fst (hd (entries s))) (entries s)))"
      unfolding dkeys_ddel by simp
    with that assms(2,3) show False unfolding entries_put set_dset by auto
  qed
  with assms(2) show ?thesis by (auto simp: entries_put)
qed

lemma set_ddel_subset: "set (ddel k d) \<subseteq> set d"
  by (auto simp: AList.delete_eq)

lemma put_absent:
  "k \<noteq> k' \<Longrightarrow> k \<notin> set (dkeys (entries s)) \<Longrightarrow> k \<notin> set (dkeys (entries (put k' x s)))"
  unfolding entries_put set_dset by (auto dest: set_ddel_subset [THEN subsetD])

lemma puts_absent:
  "k \<notin> fst ` set ops \<Longrightarrow> k \<notin> set (dkeys (entries s)) \<Longrightarrow> k \<notin> set (dkeys (entries (puts s ops)))"
proof (induction ops arbitrary: s)
  case (Cons op ops)
  obtain k' x where op: "op = (k', x)" by (cases op)
  with Cons.prems have "k \<notin> set (dkeys (entries (put k' x s)))" by (intro put_absent) auto
  with Cons.IH [of "put k' x s"] Cons.prems op show ?case by (simp add: puts_def)
qed (simp add: puts_def)

text \<open>As long as nobody registers the key again, it keeps its value or is gone for good.\<close>

lemma puts_value:
  "bounded s \<Longrightarrow> k \<notin> fst ` set ops \<Longrightarrow> k \<in> set (dkeys (entries (puts s ops))) \<Longrightarrow>
     dget (entries s) k = Some v \<Longrightarrow> dget (entries (puts s ops)) k = Some v"
proof (induction ops arbitrary: s)
  case (Cons op ops)
  obtain k' x where op: "op = (k', x)" by (cases op)
  have ne: "k \<noteq> k'" and rest: "k \<notin> fst ` set ops" using Cons.prems(2) op by auto
  have step: "puts s (op # ops) = puts (put k' x s) ops" by (simp add: puts_def op)
  have "k \<in> set (dkeys (entries (put k' x s)))"
    using puts_absent [OF rest, of "put k' x s"] Cons.prems(3) unfolding step by blast
  then have "dget (entries (put k' x s)) k = Some v"
    using Cons.prems(1,4) ne by (subst put_value) (simp_all add: bounded_def)
  with Cons.IH [of "put k' x s"] Cons.prems(1,3) rest put_bounded show ?case
    unfolding step by blast
qed (simp add: puts_def)

text \<open>A key that is in the registry stays for as many registrations as there is room behind it.\<close>

lemma survives:
  "bounded s \<Longrightarrow> k \<in> set (dkeys (entries s)) \<Longrightarrow> younger k s + length ops < limit \<Longrightarrow>
     k \<in> set (dkeys (entries (puts s ops)))"
proof (induction ops arbitrary: s)
  case (Cons op ops)
  obtain k' x where op: "op = (k', x)" by (cases op)
  have "k \<in> set (dkeys (entries (put k' x s)))" "younger k (put k' x s) \<le> younger k s + 1"
    using younger_step [of s k k' x] Cons.prems by (auto simp: bounded_def)
  with Cons.IH [of "put k' x s"] Cons.prems show ?case
    by (simp add: puts_def op put_bounded)
qed (simp add: puts_def)

lemma survives_after_first_put:
  assumes "bounded s" "k \<notin> set (dkeys (entries s))" "length ops < limit"
  shows "k \<in> set (dkeys (entries (puts (put k x s) ops)))"
proof (rule survives)
  show "bounded (put k x s)" by (rule put_bounded [OF assms(1)])
  have keys: "dkeys (entries (put k x s)) =
      (if limit \<le> length (entries s) then tl (dkeys (entries s)) else dkeys (entries s)) @ [k]"
    using assms by (simp add: put_keys bounded_def)
  then show "k \<in> set (dkeys (entries (put k x s)))" by simp
  have "younger k (put k x s) = 0" by (simp add: younger_def keys)
  with assms(3) show "younger k (put k x s) + length ops < limit" by simp
qed

text \<open>Registering a present key again does not move it: the oldest one is evicted by the next newcomer.\<close>

lemma refresh_does_not_protect:
  assumes "bounded s" "length (entries s) = limit" "k = fst (hd (entries s))"
    "k' \<notin> set (dkeys (entries s))"
  shows "k \<notin> set (dkeys (entries (put k' y (put k x s))))"
proof -
  obtain v t where e: "entries s = (k, v) # t"
    using assms(2,3) limit_pos by (cases "entries s") auto
  have keys: "dkeys (entries (put k x s)) = k # dkeys t"
    using assms(1) e by (simp add: put_keys bounded_def)
  have b: "bounded (put k x s)" by (rule put_bounded [OF assms(1)])
  have len: "length (entries (put k x s)) = limit"
    using assms(2) keys e by (metis length_Cons length_map)
  have "k \<notin> set (dkeys t)" using b keys by (metis bounded_def distinct.simps(2) wf_dict_def)
  with b keys len assms(4) e show ?thesis by (auto simp: put_keys bounded_def)
qed

end

section \<open>Reputation\<close>

definition max_tracked_peers :: nat where
  "max_tracked_peers = 100"

definition max_clock_drift_seconds :: rat where
  "max_clock_drift_seconds = 120"

record reputation =
  threshold :: rat
  history :: "(string, int \<times> int) dict"

definition record_validation :: "string \<Rightarrow> bool \<Rightarrow> reputation \<Rightarrow> reputation" where
  "record_validation pid validated r =
     (let h = (if max_tracked_peers \<le> length (history r) \<and> pid \<notin> set (dkeys (history r))
               then ddel (fst (hd (history r))) (history r) else history r);
          (validated_count, total_count) = dget_default h pid (0, 0);
          new_validated = validated_count + (if validated then 1 else 0);
          new_total = total_count + 1
      in r\<lparr>history := dset pid (new_validated, new_total) h\<rparr>)"

definition validate_timestamp :: "rat \<Rightarrow> rat \<Rightarrow> rat option \<Rightarrow> rat option \<Rightarrow> bool" where
  "validate_timestamp now msg_timestamp local_timestamp max_drift =
     (let now' = (case local_timestamp of None \<Rightarrow> now | Some t \<Rightarrow> t);
          drift_limit = (case max_drift of None \<Rightarrow> max_clock_drift_seconds | Some d \<Rightarrow> d)
      in \<bar>msg_timestamp - now'\<bar> \<le> drift_limit)"

definition score :: "reputation \<Rightarrow> string \<Rightarrow> rat" where
  "score r pid =
     (case dget (history r) pid of
        None \<Rightarrow> 0
      | Some (validated_count, total_count) \<Rightarrow>
          if total_count = 0 then 0 else of_int validated_count / of_int total_count)"

definition is_trusted :: "reputation \<Rightarrow> string \<Rightarrow> bool" where
  "is_trusted r pid = (score r pid \<ge> threshold r)"

fun disconnect_untrusted :: "reputation \<Rightarrow> string list \<Rightarrow> string list" where
  "disconnect_untrusted r [] = []"
| "disconnect_untrusted r (p # ps) =
     (if \<not> is_trusted r p then p # disconnect_untrusted r ps else disconnect_untrusted r ps)"

definition bump :: "bool \<Rightarrow> (int \<times> int) option \<Rightarrow> int \<times> int" where
  "bump validated h =
     (let (v, n) = (case h of None \<Rightarrow> (0, 0) | Some p \<Rightarrow> p) in (v + (if validated then 1 else 0), n + 1))"

lemma history_record:
  "history (record_validation pid v r) =
     dset pid (bump v (dget (history r) pid))
       (if max_tracked_peers \<le> length (history r) \<and> pid \<notin> set (dkeys (history r))
        then ddel (fst (hd (history r))) (history r) else history r)"
  by (cases "dget (history r) pid")
    (auto simp: record_validation_def Let_def bump_def dget_default_def dget_None_iff
      dest: dget_in_keys split: option.splits prod.splits)

interpretation rep: fifo_registry record_validation history bump max_tracked_peers
  by unfold_locales (simp_all add: history_record max_tracked_peers_def)

lemma rep_bounded_iff: "rep.bounded r \<longleftrightarrow> wf_dict (history r) \<and> length (history r) \<le> 100"
  by (subst rep.bounded_def) (simp add: max_tracked_peers_def)

definition counts_ok :: "reputation \<Rightarrow> bool" where
  "counts_ok r \<longleftrightarrow> (\<forall>p v n. dget (history r) p = Some (v, n) \<longrightarrow> 0 \<le> v \<and> v \<le> n \<and> 0 < n)"

lemma counts_ok_record: "counts_ok r \<Longrightarrow> counts_ok (record_validation pid v r)"
  unfolding counts_ok_def history_record
  by (fastforce simp: bump_def split: if_splits option.splits)

lemma counts_ok_puts: "counts_ok r \<Longrightarrow> counts_ok (rep.puts r ops)"
  unfolding rep.puts_def
proof (induction ops arbitrary: r)
  case (Cons op ops)
  then show ?case using counts_ok_record [of r "fst op" "snd op"] by (simp add: case_prod_beta)
qed simp

lemma score_range:
  assumes "counts_ok r"
  shows "0 \<le> score r p \<and> score r p \<le> 1"
proof (cases "dget (history r) p")
  case (Some c)
  obtain v n where c: "c = (v, n)" by (cases c)
  with assms Some have "0 \<le> v" "v \<le> n" "0 < n" by (auto simp: counts_ok_def)
  then show ?thesis by (simp add: score_def Some c)
qed (simp add: score_def)

section \<open>Peer identities\<close>

definition max_trusted_peers :: nat where
  "max_trusted_peers = 100"

text \<open>
  A node's identity: its name, its private key and the raw public keys of its peers. Keys are of the
  parameter's type \<open>'k\<close>; \<open>ed_generate\<close> is the key that \<open>Ed25519PrivateKey.generate()\<close> returned.
\<close>

record 'k identity =
  node_id :: string
  private_key :: 'k
  peer_public_keys :: "(string, string) dict"

definition new_identity ::
  "(string \<Rightarrow> 'k) \<Rightarrow> 'k \<Rightarrow> string \<Rightarrow> string option \<Rightarrow> 'k identity" where
  "new_identity ed_private ed_generate nid signing_key_bytes =
     \<lparr>node_id = nid,
      private_key =
        (case signing_key_bytes of
           Some b \<Rightarrow> if 32 \<le> length b then ed_private (take 32 b) else ed_generate
         | None \<Rightarrow> ed_generate),
      peer_public_keys = []\<rparr>"

definition register_peer :: "string \<Rightarrow> string \<Rightarrow> 'k identity \<Rightarrow> 'k identity" where
  "register_peer pid public_key_bytes i =
     (let d = (if max_trusted_peers \<le> length (peer_public_keys i) \<and> pid \<notin> set (dkeys (peer_public_keys i))
               then ddel (fst (hd (peer_public_keys i))) (peer_public_keys i)
               else peer_public_keys i)
      in i\<lparr>peer_public_keys := dset pid (take 32 public_key_bytes) d\<rparr>)"

definition is_peer_registered :: "'k identity \<Rightarrow> string \<Rightarrow> bool" where
  "is_peer_registered i pid = (pid \<in> set (dkeys (peer_public_keys i)) \<or> pid = node_id i)"

definition sign :: "('k \<Rightarrow> string \<Rightarrow> string) \<Rightarrow> 'k identity \<Rightarrow> string \<Rightarrow> string" where
  "sign ed_sign i data = ed_sign (private_key i) data"

text \<open>
  \<open>from_public_bytes\<close> stands outside the \<open>try\<close>: on a key it does not accept, its exception leaves
  \<open>verify\<close>. Every exception of \<open>pub.verify\<close> is the answer \<open>False\<close>.
\<close>

datatype identity_error = InvalidPublicKey

definition verify_signature ::
  "('k \<Rightarrow> 'p) \<Rightarrow> (string \<Rightarrow> 'p option) \<Rightarrow> ('p \<Rightarrow> string \<Rightarrow> string \<Rightarrow> bool) \<Rightarrow>
     'k identity \<Rightarrow> string \<Rightarrow> string \<Rightarrow> string \<Rightarrow> identity_error + bool" where
  "verify_signature ed_public ed_from_public ed_verify i pid data signature =
     (if pid = node_id i then Inr (ed_verify (ed_public (private_key i)) signature data)
      else case dget (peer_public_keys i) pid of
        None \<Rightarrow> Inr False
      | Some pub_bytes \<Rightarrow>
          (case ed_from_public pub_bytes of
             None \<Rightarrow> Inl InvalidPublicKey
           | Some pub \<Rightarrow> Inr (ed_verify pub signature data)))"

lemma keys_register:
  "peer_public_keys (register_peer pid b i) =
     dset pid (take 32 b)
       (if max_trusted_peers \<le> length (peer_public_keys i) \<and> pid \<notin> set (dkeys (peer_public_keys i))
        then ddel (fst (hd (peer_public_keys i))) (peer_public_keys i) else peer_public_keys i)"
  by (simp add: register_peer_def Let_def)

lemma node_id_register [simp]: "node_id (register_peer pid b i) = node_id i"
  by (simp add: register_peer_def Let_def)

lemma private_key_register [simp]: "private_key (register_peer pid b i) = private_key i"
  by (simp add: register_peer_def Let_def)

interpretation reg: fifo_registry register_peer peer_public_keys "\<lambda>b _. take 32 b" max_trusted_peers
  by unfold_locales (simp_all add: keys_register max_trusted_peers_def)

lemma reg_bounded_iff:
  "reg.bounded i \<longleftrightarrow> wf_dict (peer_public_keys i) \<and> length (peer_public_keys i) \<le> 100"
  by (subst reg.bounded_def) (simp add: max_trusted_peers_def)

lemma node_id_puts [simp]: "node_id (reg.puts i ops) = node_id i"
  unfolding reg.puts_def by (induction ops arbitrary: i) auto

section \<open>The deletion guard\<close>

definition delete_protected_prefixes :: "string list" where
  "delete_protected_prefixes =
     [''hermes:'', ''fact:'', ''prompt-'', ''mnemosyne:'', ''rule:'', ''preference:'',
      ''constraint:'', ''config:'']"

fun match_prefix :: "string list \<Rightarrow> string \<Rightarrow> bool \<times> string" where
  "match_prefix [] key = (False, [])"
| "match_prefix (p # ps) key = (if starts_with key p then (True, p) else match_prefix ps key)"

definition is_delete_protected :: "string \<Rightarrow> bool \<times> string" where
  "is_delete_protected key = match_prefix delete_protected_prefixes key"

lemma match_prefix_iff: "fst (match_prefix ps key) \<longleftrightarrow> (\<exists>p \<in> set ps. prefix p key)"
  by (induction ps) (auto simp: starts_with_iff_prefix)

lemma match_prefix_sound:
  "match_prefix ps key = (True, p) \<Longrightarrow> p \<in> set ps \<and> prefix p key"
  by (induction ps) (auto simp: starts_with_iff_prefix split: if_splits)

section \<open>Properties\<close>

text \<open>
  Whatever validations are recorded, starting from no history, at most 100 peers are tracked and
  every score lies between 0 and 1.
\<close>

theorem reputation_bounded:
  "length (history (rep.puts \<lparr>threshold = t, history = []\<rparr> ops)) \<le> 100
   \<and> 0 \<le> score (rep.puts \<lparr>threshold = t, history = []\<rparr> ops) p
   \<and> score (rep.puts \<lparr>threshold = t, history = []\<rparr> ops) p \<le> 1"
proof -
  let ?r = "rep.puts \<lparr>threshold = t, history = []\<rparr> ops"
  have "rep.bounded \<lparr>threshold = t, history = []\<rparr>" by (simp add: rep_bounded_iff)
  then have "rep.bounded ?r" by (rule rep.puts_bounded)
  then have 1: "length (history ?r) \<le> 100" by (simp add: rep_bounded_iff)
  have "counts_ok ?r" by (rule counts_ok_puts) (simp add: counts_ok_def)
  then have "0 \<le> score ?r p \<and> score ?r p \<le> 1" by (rule score_range)
  with 1 show ?thesis by simp
qed

text \<open>
  \<open>disconnect_untrusted\<close> returns exactly the peers whose score is below the threshold, in the
  order given.
\<close>

theorem disconnects_below_threshold:
  "disconnect_untrusted r ps = filter (\<lambda>p. score r p < threshold r) ps"
  by (induction ps) (auto simp: is_trusted_def not_le)

text \<open>
  A newly registered public key stays in the registry of at most 100 keys through the next 99
  registrations of whatever peers, and the signatures made with the matching private key verify.
\<close>

theorem registered_key_verifies:
  assumes "reg.bounded i" "pid \<notin> set (dkeys (peer_public_keys i))" "pid \<noteq> node_id i"
    and "length later < 100" "pid \<notin> fst ` set later"
    and "ed_from_public (take 32 b) = Some (ed_public (private_key j))"
    and "ed_verify (ed_public (private_key j)) (sign ed_sign j data) data"
  shows "verify_signature ed_public ed_from_public ed_verify
           (reg.puts (register_peer pid b i) later) pid data (sign ed_sign j data) = Inr True"
proof -
  have "pid \<in> set (dkeys (peer_public_keys (reg.puts (register_peer pid b i) later)))"
    using reg.survives_after_first_put [of i pid later b] assms by (simp add: max_trusted_peers_def)
  then have "dget (peer_public_keys (reg.puts (register_peer pid b i) later)) pid = Some (take 32 b)"
    using assms reg.put_present [of pid b i] reg.put_bounded by (intro reg.puts_value) auto
  with assms show ?thesis
    by (simp add: verify_signature_def)
qed

definition witness_identity :: "string identity" where
  "witness_identity = new_identity id ''kkkkkkkkkkkkkkkkkkkkkkkkkkkkkkkk'' ''node-a'' None"

theorem registered_key_verifies_witness:
  "verify_signature id Some (\<lambda>p s d. s = p @ d)
     (reg.puts (register_peer ''node-b'' ''kkkkkkkkkkkkkkkkkkkkkkkkkkkkkkkkxx'' witness_identity)
        [(''node-c'', ''a''), (''node-d'', ''b'')])
     ''node-b'' ''delta'' (sign (\<lambda>k d. k @ d) witness_identity ''delta'') = Inr True"
  by (rule registered_key_verifies)
    (simp_all add: witness_identity_def new_identity_def reg_bounded_iff sign_def)

text \<open>
  Registering a peer again refreshes its key but not its age: when the registry is full, the
  oldest peer is evicted by the next newcomer even if it has just been registered again.
\<close>

theorem reregistration_does_not_protect:
  assumes "reg.bounded i" "length (peer_public_keys i) = 100" "pid = fst (hd (peer_public_keys i))"
    and "newcomer \<notin> set (dkeys (peer_public_keys i))" "pid \<noteq> node_id i"
  shows "\<not> is_peer_registered (register_peer newcomer b' (register_peer pid b i)) pid"
  using reg.refresh_does_not_protect [of i pid newcomer b' b] assms
  by (simp add: is_peer_registered_def max_trusted_peers_def)

definition full_identity :: "string identity" where
  "full_identity = \<lparr>node_id = ''n'', private_key = ''k'',
     peer_public_keys = map (\<lambda>i. (replicate i CHR ''p'', ''pk'')) [0..<100]\<rparr>"

theorem reregistration_does_not_protect_witness:
  "\<not> is_peer_registered (register_peer ''new'' ''b'' (register_peer [] ''b'' full_identity)) []"
proof (rule reregistration_does_not_protect)
  have "inj_on (\<lambda>i. replicate i CHR ''p'') {0..<100}" by (auto simp: inj_on_def)
  then show "reg.bounded full_identity"
    by (simp add: reg_bounded_iff full_identity_def wf_dict_def comp_def distinct_map)
  show "[] = fst (hd (peer_public_keys full_identity))"
    by (simp add: full_identity_def hd_map)
  show "''new'' \<notin> set (dkeys (peer_public_keys full_identity))"
    by (auto simp: full_identity_def Cons_replicate_eq)
qed (simp_all add: full_identity_def)

text \<open>The guard protects a key exactly when the key starts with one of the eight prefixes, and
  names a prefix the key has.\<close>

theorem delete_guard_spec:
  "(fst (is_delete_protected key) \<longleftrightarrow> (\<exists>p \<in> set delete_protected_prefixes. prefix p key))
   \<and> (fst (is_delete_protected key) = (snd (is_delete_protected key) \<in> set delete_protected_prefixes
        \<and> prefix (snd (is_delete_protected key)) key))"
proof -
  have "fst (match_prefix ps key) = (snd (match_prefix ps key) \<in> set ps \<and>
      prefix (snd (match_prefix ps key)) key)" if "[] \<notin> set ps" for ps
    using that by (induction ps) (auto simp: starts_with_iff_prefix)
  from this [of delete_protected_prefixes] match_prefix_iff [of delete_protected_prefixes key]
  show ?thesis by (simp add: is_delete_protected_def delete_protected_prefixes_def [THEN arg_cong [where f = set]])
qed

end
