(* ===== verification/Gossip.thy ===== *)
theory Gossip
  imports SyncBridge DeltaCrdt PeerTrust
begin

text \<open>
  The gossip protocol of \<open>sync/protocol.py\<close> with the payload encryption of \<open>sync/crypto.py\<close> and
  the in-memory transport of \<open>sync/transport.py\<close>. It joins the replica (\<open>DeltaCrdt\<close>), the bridge to
  the store (\<open>SyncBridge\<close>), the identities and the reputation (\<open>PeerTrust\<close>).

  Parameters, collected in the record \<open>env\<close>: AES-GCM and Ed25519 of the package \<open>cryptography\<close>, and
  the JSON text of a delta (\<open>SyncDelta.model_dump_json\<close> and its reader). \<open>env_ok\<close> states what the
  theorems use of them: decryption with the key, nonce and associated data of the encryption
  returns the text, the ciphertext is 16 bytes longer, and signatures verify under the public key. Envelopes are records of the fields the code reads.
\<close>

section \<open>Encryption\<close>

datatype gossip_error =
    BadKey | BadPsk | ShortBlob | InvalidTag | BadEnvelope | BadDelta | PermissionDenied
  | StoreError kv_error | NoTransport

definition new_crypto :: "string \<Rightarrow> gossip_error + string" where
  "new_crypto key = (if length key \<noteq> 32 then Inl BadKey else Inr key)"

definition hex_value :: "char \<Rightarrow> nat option" where
  "hex_value c =
     (let n = of_char c :: nat in
      if 48 \<le> n \<and> n \<le> 57 then Some (n - 48)
      else if 97 \<le> n \<and> n \<le> 102 then Some (n - 87)
      else if 65 \<le> n \<and> n \<le> 70 then Some (n - 55)
      else None)"

definition is_hex_space :: "char \<Rightarrow> bool" where
  "is_hex_space c = (let n = of_char c :: nat in n = 32 \<or> (9 \<le> n \<and> n \<le> 13))"

text \<open>\<open>bytes.fromhex\<close>: pairs of digits, with ASCII white space between the pairs.\<close>

fun from_hex :: "string \<Rightarrow> string option" where
  "from_hex [] = Some []"
| "from_hex [a] = (if is_hex_space a then Some [] else None)"
| "from_hex (a # b # s) =
     (if is_hex_space a then from_hex (b # s)
      else case (hex_value a, hex_value b) of
          (Some x, Some y) \<Rightarrow> map_option (\<lambda>t. char_of (16 * x + y) # t) (from_hex s)
        | _ \<Rightarrow> None)"

definition to_hex :: "string \<Rightarrow> string" where
  "to_hex s = concat (map (\<lambda>c. let n = of_char c :: nat in [hex_digit (n div 16), hex_digit (n mod 16)]) s)"

text \<open>\<open>hashlib.sha256(data).digest()\<close>, the bytes of the hexadecimal digest.\<close>

definition sha256_digest :: "string \<Rightarrow> string" where
  "sha256_digest s = (case from_hex (sha256 s) of Some d \<Rightarrow> d | None \<Rightarrow> [])"

datatype psk = PskStr string | PskBytes string | PskOther

fun crypto_from_psk :: "psk \<Rightarrow> gossip_error + string" where
  "crypto_from_psk (PskStr p) =
     (if py_len p = 64 then
        (case from_hex p of
           Some k \<Rightarrow> (if length k = 32 then Inr k else new_crypto (sha256_digest p))
         | None \<Rightarrow> new_crypto (sha256_digest p))
      else new_crypto (sha256_digest p))"
| "crypto_from_psk (PskBytes p) = (if length p = 32 then Inr p else new_crypto (sha256_digest p))"
| "crypto_from_psk PskOther = Inl BadPsk"

definition crypto_encrypt :: "(string \<Rightarrow> string \<Rightarrow> string \<Rightarrow> string \<Rightarrow> string) \<Rightarrow> string \<Rightarrow> string \<Rightarrow> string \<Rightarrow> string \<Rightarrow> string" where
  "crypto_encrypt aes_encrypt key nonce plaintext aad = nonce @ aes_encrypt key nonce plaintext aad"

definition crypto_decrypt ::
  "(string \<Rightarrow> string \<Rightarrow> string \<Rightarrow> string \<Rightarrow> string option) \<Rightarrow> string \<Rightarrow> string \<Rightarrow> string \<Rightarrow> gossip_error + string" where
  "crypto_decrypt aes_decrypt key blob aad =
     (if length blob < 28 then Inl ShortBlob
      else let nonce = take 12 blob; ciphertext = drop 12 blob in
        case aes_decrypt key nonce ciphertext aad of None \<Rightarrow> Inl InvalidTag | Some p \<Rightarrow> Inr p)"

section \<open>State and messages\<close>

text \<open>The payload of a delta: the bridge's mutations, at the top or nested, or the replica's state.\<close>

datatype payload = PMutations delta | PNested delta | PState "(string, wire_set) dict option"

record gossip_delta =
  gd_source :: string
  gd_clock :: vclock
  gd_payload :: payload

record peer_status =
  ps_clock :: vclock
  ps_last_seen :: rat

record 'k gossip =
  g_node :: string
  g_crdt :: delta_crdt
  g_key :: string
  g_bridge :: "bridge option"
  g_identity :: "'k identity option"
  g_reputation :: "reputation option"
  g_peers :: "(string, peer_status) dict"
  g_cursors :: "(string, int) dict"

record envelope =
  v_source :: "string option"
  v_target :: string
  v_aad :: string
  v_ciphertext_hex :: string
  v_signature_hex :: "string option"

record ('k, 'p) env =
  aes_encrypt :: "string \<Rightarrow> string \<Rightarrow> string \<Rightarrow> string \<Rightarrow> string"
  aes_decrypt :: "string \<Rightarrow> string \<Rightarrow> string \<Rightarrow> string \<Rightarrow> string option"
  ed_public :: "'k \<Rightarrow> 'p"
  ed_from_public :: "string \<Rightarrow> 'p option"
  ed_sign :: "'k \<Rightarrow> string \<Rightarrow> string"
  ed_verify :: "'p \<Rightarrow> string \<Rightarrow> string \<Rightarrow> bool"
  delta_text :: "gossip_delta \<Rightarrow> string"
  delta_read :: "string \<Rightarrow> gossip_delta option"
  texts :: texts

definition register_gossip_peer :: "rat \<Rightarrow> string \<Rightarrow> vclock option \<Rightarrow> 'k gossip \<Rightarrow> 'k gossip" where
  "register_gossip_peer now peer_id vc g =
     g\<lparr>g_peers := dset peer_id \<lparr>ps_clock = (case vc of Some c \<Rightarrow> c | None \<Rightarrow> []), ps_last_seen = now\<rparr> (g_peers g)\<rparr>"

definition clock_json :: "(rat \<Rightarrow> string) \<Rightarrow> vclock \<Rightarrow> string" where
  "clock_json fr c = json_dumps fr (sort_keys (VDict (map (\<lambda>(k, v). (k, VInt v)) c)))"

section \<open>Sending\<close>

text \<open>
  \<open>create_sync_request\<close>; \<open>nonce\<close> is what \<open>secrets.token_bytes(12)\<close> returned. The cursor of the
  target is advanced here, before anything is sent.
\<close>

definition create_sync_request ::
  "('k, 'p) env \<Rightarrow> string \<Rightarrow> string \<Rightarrow> int option \<Rightarrow> 'k gossip \<Rightarrow> 'k gossip \<times> envelope" where
  "create_sync_request E nonce target since_seq g =
     (let (g1, d, local_clocks) =
        (case g_bridge g of
           Some b \<Rightarrow>
             (let since = (case since_seq of Some s \<Rightarrow> s | None \<Rightarrow> dget_default (g_cursors g) target 0);
                  (b1, audit_delta) = export_delta_from_audit since 200 b
              in (g\<lparr>g_bridge := Some b1, g_cursors := dset target (d_max_seq audit_delta) (g_cursors g)\<rparr>,
                  \<lparr>gd_source = g_node g, gd_clock = b_clock b1, gd_payload = PMutations audit_delta\<rparr>,
                  b_clock b1))
         | None \<Rightarrow>
             (let sd = export_delta (g_crdt g) (map_option ps_clock (dget (g_peers g) target))
              in (g, \<lparr>gd_source = source_node sd, gd_clock = vector_clock sd,
                      gd_payload = PState (payload_state sd)\<rparr>, clock (g_crdt g))));
          raw_payload = delta_text E d;
          signature = (case g_identity g of None \<Rightarrow> None
                       | Some i \<Rightarrow> Some (to_hex (sign (ed_sign E) i raw_payload)));
          aad = clock_json (t_float (texts E)) local_clocks;
          blob = crypto_encrypt (aes_encrypt E) (g_key g) nonce raw_payload aad
      in (g1, \<lparr>v_source = Some (g_node g), v_target = target, v_aad = aad,
              v_ciphertext_hex = to_hex blob,
              v_signature_hex = (if signature = Some [] then None else signature)\<rparr>))"

section \<open>Receiving\<close>

definition record_rep :: "string \<Rightarrow> bool \<Rightarrow> 'k gossip \<Rightarrow> 'k gossip" where
  "record_rep source validated g =
     g\<lparr>g_reputation := map_option (record_validation source validated) (g_reputation g)\<rparr>"

definition verify_envelope_signature ::
  "('k, 'p) env \<Rightarrow> envelope \<Rightarrow> string \<Rightarrow> string \<Rightarrow> 'k gossip \<Rightarrow> 'k gossip \<times> (gossip_error + unit)" where
  "verify_envelope_signature E v source decrypted g =
     (case g_identity g of
        None \<Rightarrow> (g, Inr ())
      | Some i \<Rightarrow>
          (case v_signature_hex v of
             None \<Rightarrow> (record_rep source False g, Inl PermissionDenied)
           | Some sig_hex \<Rightarrow>
               if sig_hex = [] then (record_rep source False g, Inl PermissionDenied)
               else case from_hex sig_hex of
                   None \<Rightarrow> (record_rep source False g, Inl PermissionDenied)
                 | Some sg \<Rightarrow>
                     (case verify_signature (ed_public E) (ed_from_public E) (ed_verify E) i source decrypted sg of
                        Inl _ \<Rightarrow> (record_rep source False g, Inl PermissionDenied)
                      | Inr False \<Rightarrow> (record_rep source False g, Inl PermissionDenied)
                      | Inr True \<Rightarrow> (record_rep source True g, Inr ()))))"

fun payload_mutations :: "payload \<Rightarrow> delta option" where
  "payload_mutations (PMutations d) = Some d"
| "payload_mutations (PNested d) = Some d"
| "payload_mutations (PState s) = None"

definition to_sync_delta :: "gossip_delta \<Rightarrow> sync_delta" where
  "to_sync_delta d =
     \<lparr>source_node = gd_source d, vector_clock = gd_clock d,
      payload_state = (case gd_payload d of PState s \<Rightarrow> s | _ \<Rightarrow> None), encrypted_payload = None\<rparr>"

definition apply_payload :: "('k, 'p) env \<Rightarrow> rat \<Rightarrow> gossip_delta \<Rightarrow> 'k gossip \<Rightarrow> 'k gossip \<times> (gossip_error + unit)" where
  "apply_payload E now d g =
     (case (g_bridge g, payload_mutations (gd_payload d)) of
        (Some b, Some ms) \<Rightarrow>
          (case apply_remote_delta (texts E) now ms b of
             (b', Inl e) \<Rightarrow> (g\<lparr>g_bridge := Some b'\<rparr>, Inl (StoreError e))
           | (b', Inr _) \<Rightarrow> (g\<lparr>g_bridge := Some b'\<rparr>, Inr ()))
      | _ \<Rightarrow> (g\<lparr>g_crdt := apply_delta now (g_crdt g) (to_sync_delta d)\<rparr>, Inr ()))"

definition update_peer :: "rat \<Rightarrow> string \<Rightarrow> vclock \<Rightarrow> 'k gossip \<Rightarrow> 'k gossip" where
  "update_peer now source vc g =
     (if source = [] then g
      else case dget (g_peers g) source of
          Some p \<Rightarrow> g\<lparr>g_peers := dset source \<lparr>ps_clock = vc_merge (ps_clock p) vc, ps_last_seen = now\<rparr> (g_peers g)\<rparr>
        | None \<Rightarrow> register_gossip_peer now source (Some vc) g)"

definition open_envelope :: "('k, 'p) env \<Rightarrow> envelope \<Rightarrow> 'k gossip \<Rightarrow> gossip_error + string \<times> gossip_delta" where
  "open_envelope E v g =
     (case from_hex (v_ciphertext_hex v) of
        None \<Rightarrow> Inl BadEnvelope
      | Some blob \<Rightarrow>
          (case crypto_decrypt (aes_decrypt E) (g_key g) blob (v_aad v) of
             Inl e \<Rightarrow> Inl e
           | Inr decrypted \<Rightarrow>
               (case delta_read E decrypted of None \<Rightarrow> Inl BadDelta | Some d \<Rightarrow> Inr (decrypted, d))))"

definition envelope_source :: "envelope \<Rightarrow> gossip_delta \<Rightarrow> string" where
  "envelope_source v d = (case v_source v of Some s \<Rightarrow> if s = [] then gd_source d else s | None \<Rightarrow> gd_source d)"

definition process_sync_response ::
  "('k, 'p) env \<Rightarrow> rat \<Rightarrow> envelope \<Rightarrow> 'k gossip \<Rightarrow> 'k gossip \<times> (gossip_error + gossip_delta)" where
  "process_sync_response E now v g =
     (case open_envelope E v g of
        Inl e \<Rightarrow> (g, Inl e)
      | Inr (decrypted, d) \<Rightarrow>
          (let source = envelope_source v d in
           case verify_envelope_signature E v source decrypted g of
             (g1, Inl e) \<Rightarrow> (g1, Inl e)
           | (g1, Inr _) \<Rightarrow>
               (case apply_payload E now d g1 of
                  (g2, Inl e) \<Rightarrow> (g2, Inl e)
                | (g2, Inr _) \<Rightarrow> (update_peer now source (gd_clock d) g2, Inr d))))"

definition detect_conflicts :: "'k gossip \<Rightarrow> (string \<times> vclock \<times> vclock) list" where
  "detect_conflicts g =
     (let clock_source = (case g_bridge g of Some b \<Rightarrow> b_clock b | None \<Rightarrow> clock (g_crdt g)) in
      map (\<lambda>(pid, p). (pid, clock_source, ps_clock p))
        (filter (\<lambda>(pid, p). concurrent clock_source (ps_clock p)) (g_peers g)))"

section \<open>The in-memory transport\<close>

text \<open>The queues of all transports by the transport's name; \<open>peers\<close> maps peers to transports.\<close>

type_synonym queues = "(string, envelope list) dict"

definition mem_send :: "(string, string) dict \<Rightarrow> string \<Rightarrow> string \<Rightarrow> envelope \<Rightarrow> queues \<Rightarrow> queues" where
  "mem_send peers own peer_id msg q =
     (let target = (case dget peers peer_id of Some t \<Rightarrow> t | None \<Rightarrow> own)
      in dset target (dget_default q target [] @ [msg]) q)"

definition mem_receive :: "string \<Rightarrow> queues \<Rightarrow> queues \<times> envelope option" where
  "mem_receive own q =
     (case dget_default q own [] of
        [] \<Rightarrow> (q, None)
      | m # ms \<Rightarrow> (dset own ms q, Some m))"

definition send_sync ::
  "('k, 'p) env \<Rightarrow> string \<Rightarrow> string \<Rightarrow> ((string, string) dict \<times> string) option \<Rightarrow> 'k gossip \<Rightarrow> queues \<Rightarrow>
     gossip_error + 'k gossip \<times> queues" where
  "send_sync E nonce target transport g q =
     (case transport of
        None \<Rightarrow> Inl NoTransport
      | Some (peers, own) \<Rightarrow>
          (let (g1, v) = create_sync_request E nonce target None g
           in Inr (g1, mem_send peers own target v q)))"

section \<open>Hexadecimal text\<close>

lemma hex_digit_value: "d < 16 \<Longrightarrow> hex_value (hex_digit d) = Some d \<and> \<not> is_hex_space (hex_digit d)"
proof -
  assume "d < 16"
  then have "d \<in> set [0..<16]" by simp
  moreover have "\<forall>d \<in> set [0..<16]. hex_value (hex_digit d) = Some d \<and> \<not> is_hex_space (hex_digit d)"
    by code_simp
  ultimately show ?thesis by blast
qed

lemma from_to_hex [simp]: "from_hex (to_hex s) = Some s"
proof (induction s)
  case Nil
  then show ?case by (simp add: to_hex_def)
next
  case (Cons c s)
  have c: "(of_char c :: nat) div 16 < 16" "(of_char c :: nat) mod 16 < 16"
    using nat_of_char_less_256 [of c] by (simp_all add: less_mult_imp_div_less)
  have "16 * ((of_char c :: nat) div 16) + of_char c mod 16 = of_char c" by simp
  then have "char_of (16 * ((of_char c :: nat) div 16) + of_char c mod 16) = c" by (metis char_of_char)
  with Cons hex_digit_value [OF c(1)] hex_digit_value [OF c(2)] show ?case
    by (simp add: to_hex_def Let_def)
qed

lemma to_hex_Nil [simp]: "to_hex s = [] \<longleftrightarrow> s = []"
  by (cases s) (simp_all add: to_hex_def Let_def)

section \<open>What the theorems use of the parameters\<close>

definition env_ok :: "('k, 'p) env \<Rightarrow> bool" where
  "env_ok E \<longleftrightarrow>
     (\<forall>k n t a. aes_decrypt E k n (aes_encrypt E k n t a) a = Some t) \<and>
     (\<forall>k n t a. length (aes_encrypt E k n t a) = length t + 16) \<and>
     (\<forall>k t. ed_sign E k t \<noteq> [] \<and> ed_verify E (ed_public E k) (ed_sign E k t) t)"

lemma decrypt_encrypt:
  assumes "env_ok E" "length nonce = 12"
  shows "crypto_decrypt (aes_decrypt E) k (crypto_encrypt (aes_encrypt E) k nonce t a) a = Inr t"
  using assms by (simp add: crypto_decrypt_def crypto_encrypt_def env_ok_def)

lemma record_rep_simps [simp]:
  "g_bridge (record_rep p b g) = g_bridge g" "g_crdt (record_rep p b g) = g_crdt g"
  "g_peers (record_rep p b g) = g_peers g" "g_cursors (record_rep p b g) = g_cursors g"
  "g_identity (record_rep p b g) = g_identity g" "g_key (record_rep p b g) = g_key g"
  "g_node (record_rep p b g) = g_node g"
  "g_reputation (record_rep p b g) = map_option (record_validation p b) (g_reputation g)"
  by (simp_all add: record_rep_def)

definition signature_valid :: "('k, 'p) env \<Rightarrow> 'k identity \<Rightarrow> string \<Rightarrow> string \<Rightarrow> envelope \<Rightarrow> bool" where
  "signature_valid E i source decrypted v \<longleftrightarrow>
     (\<exists>hx sg. v_signature_hex v = Some hx \<and> hx \<noteq> [] \<and> from_hex hx = Some sg
        \<and> verify_signature (ed_public E) (ed_from_public E) (ed_verify E) i source decrypted sg = Inr True)"

lemma verify_envelope_iff:
  assumes "g_identity g = Some i"
  shows "verify_envelope_signature E v source decrypted g =
    (if signature_valid E i source decrypted v then (record_rep source True g, Inr ())
     else (record_rep source False g, Inl PermissionDenied))"
  using assms
  by (auto simp: verify_envelope_signature_def signature_valid_def split: option.splits sum.splits bool.splits)

section \<open>Properties\<close>

text \<open>
  C10: The signature gate of a node with an identity. Whatever envelope it is given: either the envelope opens, and carries a non-empty
  signature of the decrypted text that the public key registered for the claimed source (for its own name, its own key) verifies, and
  one successful validation of that source is recorded; or the answer is an error, and store, replica, peers and cursors are as before;
  if the envelope had opened, the error is a refused permission and all that changes is one failed validation of the source.
\<close>

theorem signature_gate:
  assumes "g_identity g = Some i" "process_sync_response E now v g = (g', res)"
  shows "(\<exists>t d hx sg pub. open_envelope E v g = Inr (t, d)
      \<and> v_signature_hex v = Some hx \<and> hx \<noteq> [] \<and> from_hex hx = Some sg \<and> ed_verify E pub sg t
      \<and> (if envelope_source v d = node_id i then pub = ed_public E (private_key i)
         else \<exists>pk. dget (peer_public_keys i) (envelope_source v d) = Some pk \<and> ed_from_public E pk = Some pub)
      \<and> g_reputation g' = map_option (record_validation (envelope_source v d) True) (g_reputation g))
    \<or> (\<exists>e. res = Inl e \<and> g_bridge g' = g_bridge g \<and> g_crdt g' = g_crdt g \<and> g_peers g' = g_peers g \<and> g_cursors g' = g_cursors g
        \<and> (\<forall>t d. open_envelope E v g = Inr (t, d) \<longrightarrow>
             e = PermissionDenied \<and> g' = record_rep (envelope_source v d) False g))"
proof (cases "open_envelope E v g")
  case (Inl e)
  with assms show ?thesis by (auto simp: process_sync_response_def)
next
  case (Inr x)
  obtain t d where x: "x = (t, d)" by fastforce
  let ?src = "envelope_source v d"
  show ?thesis
  proof (cases "signature_valid E i ?src t v")
    case False
    then have "process_sync_response E now v g = (record_rep ?src False g, Inl PermissionDenied)"
      using Inr by (simp add: x process_sync_response_def verify_envelope_iff [OF assms(1)] Let_def)
    with assms(2) Inr x show ?thesis by auto
  next
    case True
    then obtain hx sg where s: "v_signature_hex v = Some hx" "hx \<noteq> []" "from_hex hx = Some sg"
      "verify_signature (ed_public E) (ed_from_public E) (ed_verify E) i ?src t sg = Inr True"
      and ok: "verify_envelope_signature E v ?src t g = (record_rep ?src True g, Inr ())"
      by (auto simp: signature_valid_def verify_envelope_iff [OF assms(1)])
    obtain pub where pub: "ed_verify E pub sg t" "if ?src = node_id i then pub = ed_public E (private_key i)
         else \<exists>pk. dget (peer_public_keys i) ?src = Some pk \<and> ed_from_public E pk = Some pub"
      using s(4) by (auto simp: verify_signature_def split: if_splits option.splits)
    have rep: "g_reputation (fst (apply_payload E now d g0)) = g_reputation g0" for g0
      by (auto simp: apply_payload_def split: option.split prod.split sum.split)
    have upd: "g_reputation (update_peer now s c g0) = g_reputation g0" for s c g0
      by (simp add: update_peer_def register_gossip_peer_def split: option.split)
    have "g_reputation g' = map_option (record_validation ?src True) (g_reputation g)"
      using assms(2) Inr ok rep [of "record_rep ?src True g"]
      by (auto simp: x process_sync_response_def Let_def upd split: prod.splits sum.splits)
    with Inr x s(1-3) pub show ?thesis by blast
  qed
qed

definition toy_env :: "(string, string) env" where
  "toy_env = \<lparr>aes_encrypt = (\<lambda>k n t a. replicate 16 CHR ''t'' @ t), aes_decrypt = (\<lambda>k n c a. Some (drop 16 c)),
     ed_public = id, ed_from_public = Some, ed_sign = (\<lambda>k t. ''s'' @ k), ed_verify = (\<lambda>p sg t. sg = ''s'' @ p),
     delta_text = (\<lambda>d. gd_source d),
     delta_read = (\<lambda>t. Some \<lparr>gd_source = t, gd_clock = [(t, 1)], gd_payload = PState None\<rparr>), texts = plain_texts\<rparr>"

definition toy_node :: "string gossip" where
  "toy_node = \<lparr>g_node = ''n'', g_crdt = new_crdt ''n'', g_key = [], g_bridge = None,
     g_identity = Some \<lparr>PeerTrust.identity.node_id = ''n'', private_key = ''kn'', peer_public_keys = [(''m'', ''km'')]\<rparr>,
     g_reputation = Some \<lparr>threshold = 1 / 2, history = []\<rparr>, g_peers = [], g_cursors = []\<rparr>"

text \<open>The node \<open>n\<close> knows the key of \<open>m\<close>; an envelope without a signature, and one signed by a key it does not know.\<close>

definition unsigned_envelope :: envelope where
  "unsigned_envelope = \<lparr>v_source = Some ''m'', v_target = ''n'', v_aad = [],
     v_ciphertext_hex = to_hex (replicate 28 CHR ''t'' @ ''m''), v_signature_hex = None\<rparr>"

definition signed_by :: "string \<Rightarrow> string \<Rightarrow> envelope" where
  "signed_by source sg = unsigned_envelope\<lparr>v_source := Some source, v_signature_hex := Some (to_hex sg)\<rparr>"

theorem signature_gate_witness:
  "(\<exists>g' d. process_sync_response toy_env 5 (signed_by ''m'' ''skm'') toy_node = (g', Inr d))
    \<and> snd (process_sync_response toy_env 5 (signed_by ''x'' ''skx'') toy_node) = Inl PermissionDenied
    \<and> snd (process_sync_response toy_env 5 unsigned_envelope toy_node) = Inl PermissionDenied"
proof -
  let ?d = "\<lparr>gd_source = ''m'', gd_clock = [(''m'', 1)], gd_payload = PState None\<rparr>"
  let ?i = "\<lparr>PeerTrust.identity.node_id = ''n'', private_key = ''kn'', peer_public_keys = [(''m'', ''km'')]\<rparr>"
  have open_it: "open_envelope toy_env unsigned_envelope toy_node = Inr (''m'', ?d)"
    "open_envelope toy_env (signed_by s sg) toy_node = Inr (''m'', ?d)" for s sg
    by (simp_all add: open_envelope_def unsigned_envelope_def signed_by_def crypto_decrypt_def toy_env_def)
  have id: "g_identity toy_node = Some ?i" by (simp add: toy_node_def)
  have src: "envelope_source (signed_by (a # s) sg) ?d = a # s" "envelope_source unsigned_envelope ?d = ''m''" for a s sg
    by (simp_all add: envelope_source_def signed_by_def unsigned_envelope_def)
  have refused: "snd (process_sync_response toy_env 5 v toy_node) = Inl PermissionDenied"
    if "open_envelope toy_env v toy_node = Inr (''m'', ?d)" "envelope_source v ?d = ''x'' \<or> v_signature_hex v = None" for v
  proof -
    from signature_gate [OF id prod.collapse [symmetric], where E = toy_env and now = 5 and v = v] that
    show ?thesis by (auto simp: toy_node_def split: if_splits)
  qed
  have "process_sync_response toy_env 5 (signed_by ''m'' ''skm'') toy_node =
      (fst (process_sync_response toy_env 5 (signed_by ''m'' ''skm'') toy_node), Inr ?d)"
    by (simp add: process_sync_response_def open_it src verify_envelope_iff [OF id] Let_def apply_payload_def)
      (simp add: signature_valid_def signed_by_def unsigned_envelope_def verify_signature_def toy_env_def toy_node_def record_rep_def)
  then show ?thesis using refused [OF open_it(1)] refused [OF open_it(2)] src(1) [of "CHR ''x''" "[]"]
    by (auto simp: unsigned_envelope_def)
qed

text \<open>What \<open>create_sync_request\<close> sends, when the node has a bridge and an identity.\<close>

lemma create_request_bridge:
  assumes "g_bridge g = Some b"
    and "export_delta_from_audit (dget_default (g_cursors g) target 0) 200 b = (b1, ad)"
    and "create_sync_request E nonce target None g = (g1, v)"
  shows "g1 = g\<lparr>g_bridge := Some b1, g_cursors := dset target (d_max_seq ad) (g_cursors g)\<rparr>"
    and "v_source v = Some (g_node g)"
    and "v_ciphertext_hex v = to_hex (crypto_encrypt (aes_encrypt E) (g_key g) nonce
      (delta_text E \<lparr>gd_source = g_node g, gd_clock = b_clock b1, gd_payload = PMutations ad\<rparr>) (v_aad v))"
    and "\<And>i. g_identity g = Some i \<Longrightarrow> env_ok E \<Longrightarrow> v_signature_hex v = Some (to_hex (sign (ed_sign E) i
      (delta_text E \<lparr>gd_source = g_node g, gd_clock = b_clock b1, gd_payload = PMutations ad\<rparr>)))"
  using assms by (auto simp: create_sync_request_def Let_def sign_def env_ok_def)

text \<open>
  C25: A request that reaches its target is applied: if the target holds the key that the nodes share and has registered the sender's
  public key, the target's bridge becomes exactly the result of applying a delta whose mutations are the next page (at most 200
  entries) of the sender's ledger behind the cursor; one successful validation of the sender is recorded, and the sender's clock is
  known if the delta was applied. If applying it raised, which a bridge without a write path over a valid store never does, the
  target answers with that error. Used of the cryptography: decryption inverts encryption and a node's signatures verify; used of the
  JSON text of this delta: reading it gives the delta back.
\<close>

theorem delivered_request_is_applied:
  assumes "env_ok E" "length nonce = 12" "g_key r = g_key g" "g_node g \<noteq> []"
    and "g_bridge g = Some b" "b_kv b = Some s" "conn_open s" "wf_log (audit_log (kdb s))"
    and "g_identity g = Some i" "g_identity r = Some j" "g_bridge r = Some c"
    and "node_id j \<noteq> g_node g" "dget (peer_public_keys j) (g_node g) = Some pk"
    and "ed_from_public E pk = Some (ed_public E (private_key i))"
    and "export_delta_from_audit (dget_default (g_cursors g) target 0) 200 b = (b1, ad)"
    and "create_sync_request E nonce target None g = (g1, v)"
    and reads: "delta_read E (delta_text E \<lparr>gd_source = g_node g, gd_clock = b_clock b1, gd_payload = PMutations ad\<rparr>)
      = Some \<lparr>gd_source = g_node g, gd_clock = b_clock b1, gd_payload = PMutations ad\<rparr>"
    and "apply_remote_delta (texts E) now ad c = (c', res)" "process_sync_response E now v r = (r', res')"
  shows "d_mutations ad = map mutation_of_row (take 200 (filter (\<lambda>x. dget_default (g_cursors g) target 0 < a_seq x) (audit_log (kdb s))))
    \<and> g_bridge r' = Some c' \<and> g_reputation r' = map_option (record_validation (g_node g) True) (g_reputation r)
    \<and> (case res of
         Inr n \<Rightarrow> res' = Inr \<lparr>gd_source = g_node g, gd_clock = b_clock b1, gd_payload = PMutations ad\<rparr> \<and> (\<exists>p. dget (g_peers r') (g_node g) = Some p \<and> vc_le (b_clock b1) (ps_clock p))
       | Inl e \<Rightarrow> res' = Inl (StoreError e) \<and> g_peers r' = g_peers r)
    \<and> (\<forall>sc. b_kv c = Some sc \<and> b_write_path c = None \<and> kv_valid (t_float (texts E)) sc \<longrightarrow> (\<exists>n \<le> 200. res = Inr n))"
proof -
  let ?d = "\<lparr>gd_source = g_node g, gd_clock = b_clock b1, gd_payload = PMutations ad\<rparr>"
  note q = create_request_bridge [OF assms(5,15,16)]
  have page: "d_mutations ad = map mutation_of_row (take 200 (filter (\<lambda>x. dget_default (g_cursors g) target 0 < a_seq x) (audit_log (kdb s))))"
    using export_page(1) [of b s 200 "dget_default (g_cursors g) target 0" b1 ad] assms(6-8,15) by simp
  have o: "open_envelope E v r = Inr (delta_text E ?d, ?d)"
    using decrypt_encrypt [OF assms(1,2)] assms(3) reads by (simp add: open_envelope_def q(3))
  have src: "envelope_source v ?d = g_node g" using assms(4) by (simp add: envelope_source_def q(2))
  have "signature_valid E j (g_node g) (delta_text E ?d) v"
    using assms(1,12-14) q(4) [OF assms(9) assms(1)]
    by (auto simp: signature_valid_def verify_signature_def sign_def env_ok_def)
  then have ver: "verify_envelope_signature E v (g_node g) (delta_text E ?d) r
      = (record_rep (g_node g) True r, Inr ())"
    by (simp add: verify_envelope_iff [OF assms(10)])
  let ?r = "(record_rep (g_node g) True r)\<lparr>g_bridge := Some c'\<rparr>"
  have upd: "g_bridge (update_peer now (g_node g) (b_clock b1) ?r) = Some c'"
      "g_reputation (update_peer now (g_node g) (b_clock b1) ?r) = map_option (record_validation (g_node g) True) (g_reputation r)"
      "\<exists>p. dget (g_peers (update_peer now (g_node g) (b_clock b1) ?r)) (g_node g) = Some p \<and> vc_le (b_clock b1) (ps_clock p)"
    using assms(4)
    by (auto simp: update_peer_def register_gossip_peer_def vc_le_def vc_get_merge split: option.split)
  have proc: "(r', res') = (case res of Inr n \<Rightarrow> (update_peer now (g_node g) (b_clock b1) ?r, Inr ?d) | Inl e \<Rightarrow> (?r, Inl (StoreError e)))"
    using assms(11,18,19) by (cases res) (simp_all add: process_sync_response_def o src ver apply_payload_def Let_def)
  have "\<exists>n \<le> 200. res = Inr n" if sc: "b_kv c = Some sc" "b_write_path c = None" "kv_valid (t_float (texts E)) sc" for sc
    using store_delta_valid [OF sc, of now ad] assms(18) by (auto simp: page)
  with page proc upd show ?thesis by (cases res) auto
qed

text \<open>A ledger of one entry, sent by \<open>m\<close> to a node with an empty store.\<close>

definition sender_bridge :: bridge where
  "sender_bridge = new_bridge (Some bare_kv) None ''m''"

definition sent_delta :: gossip_delta where
  "sent_delta = \<lparr>gd_source = ''m'', gd_clock = b_clock (fst (export_delta_from_audit 0 200 sender_bridge)),
     gd_payload = PMutations (snd (export_delta_from_audit 0 200 sender_bridge))\<rparr>"

definition sender_node :: "string gossip" where
  "sender_node = toy_node\<lparr>g_node := ''m'', g_bridge := Some sender_bridge,
     g_identity := Some \<lparr>PeerTrust.identity.node_id = ''m'', private_key = ''km'', peer_public_keys = []\<rparr>\<rparr>"

definition receiver_node :: "string gossip" where
  "receiver_node = toy_node\<lparr>g_bridge := Some (new_bridge (Some new_kv) None ''n'')\<rparr>"

theorem delivered_request_is_applied_witness:
  "\<exists>ad c' n r' d. d_mutations ad = [mutation_of_row bare_row]
    \<and> apply_remote_delta plain_texts 5 ad (new_bridge (Some new_kv) None ''n'') = (c', Inr n)
    \<and> process_sync_response (toy_env\<lparr>delta_read := \<lambda>_. Some sent_delta\<rparr>) 5
         (snd (create_sync_request (toy_env\<lparr>delta_read := \<lambda>_. Some sent_delta\<rparr>) (replicate 12 CHR ''0'') ''n'' None sender_node))
         receiver_node = (r', Inr d)
    \<and> g_bridge r' = Some c'"
proof -
  let ?E = "toy_env\<lparr>delta_read := \<lambda>_. Some sent_delta\<rparr>"
  let ?q = "create_sync_request ?E (replicate 12 CHR ''0'') ''n'' None sender_node"
  let ?e = "export_delta_from_audit (dget_default (g_cursors sender_node) ''n'' 0) 200 sender_bridge"
  let ?c = "new_bridge (Some new_kv) None ''n''"
  let ?a = "apply_remote_delta (texts ?E) 5 (snd ?e) ?c" and ?p = "process_sync_response ?E 5 (snd ?q) receiver_node"
  have E: "env_ok ?E" by (simp add: env_ok_def toy_env_def)
  have cur: "dget_default (g_cursors sender_node) ''n'' 0 = 0"
    by (simp add: sender_node_def toy_node_def dget_default_def)
  have s: "b_kv sender_bridge = Some bare_kv" "conn_open bare_kv" "wf_log (audit_log (kdb bare_kv))"
    using bare_kv_valid by (simp_all add: sender_bridge_def new_bridge_def kv_valid_def wf_db_def)
  have log: "audit_log (kdb bare_kv) = [bare_row]" "a_seq bare_row = 1"
    by (simp_all add: bare_kv_def bare_row_def get_last_entry_def) (simp add: empty_db_def)
  have "d_mutations (snd ?e) = map mutation_of_row (take 200 (filter (\<lambda>x. dget_default (g_cursors sender_node) ''n'' 0 < a_seq x) (audit_log (kdb bare_kv))))
    \<and> g_bridge (fst ?p) = Some (fst ?a) \<and> g_reputation (fst ?p) = map_option (record_validation (g_node sender_node) True) (g_reputation receiver_node)
    \<and> (case snd ?a of
         Inr n \<Rightarrow> snd ?p = Inr \<lparr>gd_source = g_node sender_node, gd_clock = b_clock (fst ?e), gd_payload = PMutations (snd ?e)\<rparr> \<and> (\<exists>p. dget (g_peers (fst ?p)) (g_node sender_node) = Some p \<and> vc_le (b_clock (fst ?e)) (ps_clock p))
       | Inl e \<Rightarrow> snd ?p = Inl (StoreError e) \<and> g_peers (fst ?p) = g_peers receiver_node)
    \<and> (\<forall>sc. b_kv ?c = Some sc \<and> b_write_path ?c = None \<and> kv_valid (t_float (texts ?E)) sc \<longrightarrow> (\<exists>n \<le> 200. snd ?a = Inr n))"
    by (rule delivered_request_is_applied [OF E _ _ _ _ s _ _ _ _ _ _ prod.collapse [symmetric] prod.collapse [symmetric] _
          prod.collapse [symmetric] prod.collapse [symmetric], where pk = "''km''"])
      (simp_all add: sender_node_def receiver_node_def toy_node_def toy_env_def sent_delta_def dget_default_def, simp_all)
  note all = this
  have "kv_valid (t_float (texts ?E)) new_kv" by (rule new_kv_valid)
  with all obtain n where n: "snd ?a = Inr n" by (auto simp: new_bridge_def)
  with all obtain d where d: "snd ?p = Inr d" by auto
  have "texts ?E = plain_texts" by (simp add: toy_env_def)
  then show ?thesis
    using all n d by (intro exI [of _ "snd ?e"] exI [of _ "fst ?a"] exI [of _ n] exI [of _ "fst ?p"] exI [of _ d])
      (simp add: cur log prod_eq_iff)
qed

text \<open>
  The cursor moves when a request is created, not when it is delivered: the mutations of a request
  that gets lost are not in the next one, which continues behind them.
\<close>

theorem lost_request_is_not_resent:
  assumes "g_bridge g = Some b" "b_kv b = Some s" "conn_open s" "wf_log (audit_log (kdb s))"
    and "create_sync_request E n1 target None g = (g1, v1)"
    and "create_sync_request E n2 target None g1 = (g2, v2)"
  shows "\<exists>d1 d2 c1 c2.
    v_ciphertext_hex v1 = to_hex (crypto_encrypt (aes_encrypt E) (g_key g) n1
      (delta_text E \<lparr>gd_source = g_node g, gd_clock = c1, gd_payload = PMutations d1\<rparr>) (v_aad v1))
    \<and> v_ciphertext_hex v2 = to_hex (crypto_encrypt (aes_encrypt E) (g_key g) n2
      (delta_text E \<lparr>gd_source = g_node g, gd_clock = c2, gd_payload = PMutations d2\<rparr>) (v_aad v2))
    \<and> d_mutations d1 = map mutation_of_row (take 200
        (filter (\<lambda>r. dget_default (g_cursors g) target 0 < a_seq r) (audit_log (kdb s))))
    \<and> d_mutations d2 = map mutation_of_row (take 200 (drop 200
        (filter (\<lambda>r. dget_default (g_cursors g) target 0 < a_seq r) (audit_log (kdb s)))))"
proof -
  let ?c = "dget_default (g_cursors g) target 0"
  obtain b1 d1 where e1: "export_delta_from_audit ?c (int 200) b = (b1, d1)"
    by (cases "export_delta_from_audit ?c (int 200) b")
  note p1 = export_page [OF assms(2-4) _ _ e1, simplified]
  note q1 = create_request_bridge [OF assms(1) _ assms(5), of b1 d1] 
  have g1: "g_bridge g1 = Some b1" "g_key g1 = g_key g" "g_node g1 = g_node g"
      "dget_default (g_cursors g1) target 0 = d_max_seq d1"
    using q1(1) e1 by (simp_all add: dget_default_def)
  have k1: "b_kv b1 = Some s" using p1(3) assms(2) by simp
  obtain b2 d2 where e2: "export_delta_from_audit (d_max_seq d1) (int 200) b1 = (b2, d2)"
    by (cases "export_delta_from_audit (d_max_seq d1) (int 200) b1")
  note p2 = export_page [OF k1 assms(3,4) _ _ e2, simplified]
  note q2 = create_request_bridge [OF g1(1) _ assms(6), of b2 d2]
  show ?thesis
    using q1(3) q2(3) e1 e2 g1 p1(1,2) p2(1)
    by (intro exI [of _ d1] exI [of _ d2] exI [of _ "b_clock b1"] exI [of _ "b_clock b2"]) simp
qed

theorem lost_request_is_not_resent_witness:
  "\<exists>d1 (d2 :: delta). d_mutations d1 = [mutation_of_row bare_row] \<and> d_mutations d2 = []
    \<and> (\<exists>v1 a1. create_sync_request toy_env [] ''p'' None (toy_node\<lparr>g_bridge := Some (new_bridge (Some bare_kv) None ''n'')\<rparr>) = (a1, v1)
      \<and> (\<exists>c. v_ciphertext_hex v1 = to_hex (crypto_encrypt (aes_encrypt toy_env) [] []
          (delta_text toy_env \<lparr>gd_source = ''n'', gd_clock = c, gd_payload = PMutations d1\<rparr>) (v_aad v1))))"
proof -
  let ?g = "toy_node\<lparr>g_bridge := Some (new_bridge (Some bare_kv) None ''n'')\<rparr>"
  obtain g1 v1 where c1: "create_sync_request toy_env [] ''p'' None ?g = (g1, v1)"
    by (cases "create_sync_request toy_env [] ''p'' None ?g")
  obtain g2 v2 where c2: "create_sync_request toy_env [] ''p'' None g1 = (g2, v2)"
    by (cases "create_sync_request toy_env [] ''p'' None g1")
  have b: "g_bridge ?g = Some (new_bridge (Some bare_kv) None ''n'')" by simp
  have k: "b_kv (new_bridge (Some bare_kv) None ''n'') = Some bare_kv" by (simp add: new_bridge_def)
  have o: "conn_open bare_kv" "wf_log (audit_log (kdb bare_kv))"
    using bare_kv_valid by (simp_all add: kv_valid_def wf_db_def)
  have log: "audit_log (kdb bare_kv) = [bare_row]" "a_seq bare_row = 1"
    by (simp_all add: bare_kv_def bare_row_def get_last_entry_def) (simp add: empty_db_def)
  have cur: "dget_default (g_cursors ?g) ''p'' 0 = 0" by (simp add: toy_node_def dget_default_def)
  have f: "g_key ?g = []" "g_node ?g = ''n''" by (simp_all add: toy_node_def)
  obtain d1 d2 k1 k2 where w: "v_ciphertext_hex v1 = to_hex (crypto_encrypt (aes_encrypt toy_env) (g_key ?g) []
      (delta_text toy_env \<lparr>gd_source = g_node ?g, gd_clock = k1, gd_payload = PMutations d1\<rparr>) (v_aad v1))"
    "v_ciphertext_hex v2 = to_hex (crypto_encrypt (aes_encrypt toy_env) (g_key ?g) []
      (delta_text toy_env \<lparr>gd_source = g_node ?g, gd_clock = k2, gd_payload = PMutations d2\<rparr>) (v_aad v2))"
    and m: "d_mutations d1 = map mutation_of_row (take 200 (filter (\<lambda>r. dget_default (g_cursors ?g) ''p'' 0 < a_seq r) (audit_log (kdb bare_kv))))"
    "d_mutations d2 = map mutation_of_row (take 200 (drop 200 (filter (\<lambda>r. dget_default (g_cursors ?g) ''p'' 0 < a_seq r) (audit_log (kdb bare_kv)))))"
    using lost_request_is_not_resent [OF b k o c1 c2] by (elim exE conjE) (rule that)
  have "d_mutations d1 = [mutation_of_row bare_row]" "d_mutations d2 = []"
    using m by (simp_all only: cur) (simp_all add: log)
  then show ?thesis using c1 w(1) [unfolded f] by blast
qed

end
