(* ===== verification/HotBuffer.thy ===== *)
theory HotBuffer
  imports Prelude
begin

text \<open>
  The working-memory buffer of \<open>l1_working/hot_buffer.py\<close>: at most \<open>maxlen\<close> recent entries,
  read through filters of age, supersession, conversational noise and session.

  \<open>hot_buffer\<close> is the object's state. The deque is a list, oldest entry first;
  \<open>deque(xs, maxlen=n)\<close> and \<open>append\<close> keep the last \<open>n\<close> elements. Every method is a
  definition of the same name; methods that may raise return a sum. The theorems show that the
  buffer never holds two entries of one key nor more than \<open>maxlen\<close> entries, what exactly
  \<open>get_active\<close> returns, and that a session never reads another session's entries.
\<close>

section \<open>Noise and sessions\<close>

definition noise_indicators :: "string list" where
  "noise_indicators =
     [''[user]'', ''[assistant]'', ''mission order'', ''### session'',
      ''traceback (most recent call last)'', ''conversation___user'',
      ''chcia'' @ [CHR 0xC5, CHR 0x82] @ ''bym, aby'' @ [CHR 0xC5, CHR 0x9B],
      ''test 1: test'', ''test aktywnego u'' @ [CHR 0xC5, CHR 0xBC] @ ''ycia'']"

definition noise_prefixes :: "string list" where
  "noise_prefixes =
     [''fact:conversation___user'', ''fact:conversation'', ''conversation___user'', ''conversation:'']"

definition is_conversational_churn :: "string \<Rightarrow> string \<Rightarrow> bool" where
  "is_conversational_churn key content =
     (let s_lower = py_lower key; c_lower = py_lower content in
      if list_ex (\<lambda>ind. contains_str s_lower ind \<or> contains_str c_lower ind) noise_indicators then True
      else if list_ex (starts_with s_lower) noise_prefixes then True
      else False)"

definition persistent_key_prefixes :: "string list" where
  "persistent_key_prefixes =
     [''fact:'', ''rule:'', ''preference:'', ''constraint:'', ''config:'',
      ''system:'', ''user:'', ''hermes:'', ''prompt-'', ''mnemosyne:'']"

definition hermes_default_session :: string where
  "hermes_default_session = ''hermes_default''"

definition hermes_global_session :: string where
  "hermes_global_session = ''global''"

text \<open>\<open>re.match(r"^session_(\d{8}_\d{6}_[a-f0-9]+)", key, re.I)\<close>, after the prefix \<open>session_\<close>: group 1.\<close>

definition match_full_id :: "string \<Rightarrow> string option" where
  "match_full_id rest =
     (let hex = takeWhile is_hex_char (drop 16 rest) in
      if 16 \<le> length rest \<and> list_all is_digit (take 8 rest) \<and> rest ! 8 = CHR ''_''
         \<and> list_all is_digit (take 6 (drop 9 rest)) \<and> rest ! 15 = CHR ''_'' \<and> hex \<noteq> []
      then Some (take 16 rest @ hex) else None)"

definition extract_effective_session :: "(pyval \<Rightarrow> string) \<Rightarrow> string \<Rightarrow> meta \<Rightarrow> string option" where
  "extract_effective_session rp key metadata =
     (let k_lower = py_lower key; rest = drop (length ''session_'') key in
      if starts_with k_lower ''session:'' then Some (py_split_max CHR '':'' 2 key ! 1)
      else if starts_with k_lower ''session_'' then
        (if CHR '':'' \<in> set key then Some (py_split_max CHR '':'' 1 rest ! 0)
         else case match_full_id rest of
             Some m \<Rightarrow> Some m
           | None \<Rightarrow>
               (let parts = py_split_max CHR ''_'' 2 key in
                if 3 \<le> length parts \<and> py_lower (parts ! 0) = ''session'' then Some (parts ! 1)
                else Some rest))
      else if list_ex (starts_with k_lower) persistent_key_prefixes then Some hermes_global_session
      else
        (let rec_session = py_or (meta_get metadata ''session_id'') (meta_get metadata ''source_session_id'') in
         if truthy rec_session then
           (let rec_s_str = py_str rp rec_session in
            if rec_s_str \<in> {''hermes_persistent'', ''global'', hermes_global_session}
            then Some hermes_global_session
            else Some rec_s_str)
         else None))"

definition clean_session :: "string \<Rightarrow> string" where
  "clean_session s = py_strip (py_replace ''session_'' [] s)"

definition is_session_accessible :: "string option \<Rightarrow> string option \<Rightarrow> bool" where
  "is_session_accessible effective_session requested_session_id =
     (case effective_session of
        None \<Rightarrow> True
      | Some eff \<Rightarrow>
          if eff = hermes_global_session then True
          else
            (let clean_req = (case requested_session_id of None \<Rightarrow> [] | Some r \<Rightarrow> clean_session r);
                 clean_eff = clean_session eff in
             if clean_eff \<in> {hermes_default_session, ''default''} \<or> clean_eff = []
             then clean_req \<in> {hermes_default_session, ''default'', []}
             else clean_req \<noteq> [] \<and> clean_req = clean_eff))"

section \<open>Entries and the buffer\<close>

record hot_entry =
  e_key :: string
  e_value :: pyval
  e_confidence :: rat
  e_source_type :: string
  e_timestamp :: rat
  e_is_superseded :: bool
  e_metadata :: meta

record hot_buffer =
  maxlen :: nat
  ttl_seconds :: rat
  buffer :: "hot_entry list"
  superseded_history :: "string set"

datatype hot_error = KeyMissing | ValidationError | NotAContainer

definition new_hot_buffer :: "nat \<Rightarrow> rat \<Rightarrow> hot_buffer" where
  "new_hot_buffer n ttl = \<lparr>maxlen = n, ttl_seconds = ttl, buffer = [], superseded_history = {}\<rparr>"

text \<open>\<open>HotBufferEntry(...)\<close>: the model's field constraint \<open>0 <= confidence <= 1\<close> is checked.\<close>

definition make_entry ::
  "string \<Rightarrow> pyval \<Rightarrow> rat \<Rightarrow> string \<Rightarrow> rat \<Rightarrow> bool \<Rightarrow> meta \<Rightarrow> hot_error + hot_entry" where
  "make_entry k v c st ts sp md =
     (if 0 \<le> c \<and> c \<le> 1
      then Inr \<lparr>e_key = k, e_value = v, e_confidence = c, e_source_type = st, e_timestamp = ts,
                e_is_superseded = sp, e_metadata = md\<rparr>
      else Inl ValidationError)"

text \<open>\<open>deque(xs, maxlen=n)\<close>.\<close>

definition keep_last :: "nat \<Rightarrow> 'a list \<Rightarrow> 'a list" where
  "keep_last n xs = drop (length xs - n) xs"

definition purge :: "string \<Rightarrow> hot_buffer \<Rightarrow> hot_buffer \<times> nat" where
  "purge key b =
     (let initial_len = length (buffer b);
          remaining = filter (\<lambda>e. e_key e \<noteq> key) (buffer b);
          buf = keep_last (maxlen b) remaining;
          purged = initial_len - length buf
      in (b\<lparr>buffer := buf\<rparr>, purged))"

definition push :: "hot_entry \<Rightarrow> hot_buffer \<Rightarrow> hot_buffer" where
  "push e b = b\<lparr>buffer := keep_last (maxlen b) (buffer b @ [e])\<rparr>"

definition append_entry :: "hot_entry \<Rightarrow> hot_buffer \<Rightarrow> hot_buffer" where
  "append_entry ent b =
     (let b1 = (if e_is_superseded ent
                then b\<lparr>superseded_history := insert (e_key ent) (superseded_history b)\<rparr> else b)
      in push ent (fst (purge (e_key ent) b1)))"

text \<open>The dictionary form of an entry: \<open>None\<close> is a key that is absent.\<close>

record entry_dict =
  d_key :: "string option"
  d_value :: "pyval option"
  d_object :: "pyval option"
  d_confidence :: "rat option"
  d_source_type :: "string option"
  d_timestamp :: "rat option"
  d_is_superseded :: "bool option"
  d_metadata :: "meta option"

definition or_default :: "'a option \<Rightarrow> 'a \<Rightarrow> 'a" where
  "or_default x d = (case x of None \<Rightarrow> d | Some v \<Rightarrow> v)"

definition entry_of_dict :: "rat \<Rightarrow> entry_dict \<Rightarrow> hot_error + hot_entry" where
  "entry_of_dict now d =
     (case d_key d of
        None \<Rightarrow> Inl KeyMissing
      | Some k \<Rightarrow>
          make_entry k
            (or_default (d_value d) (or_default (d_object d) (VStr [])))
            (or_default (d_confidence d) 1)
            (or_default (d_source_type d) ''user_explicit'')
            (or_default (d_timestamp d) now)
            (or_default (d_is_superseded d) False)
            (or_default (d_metadata d) []))"

definition append_dict :: "rat \<Rightarrow> entry_dict \<Rightarrow> hot_buffer \<Rightarrow> hot_error + hot_buffer" where
  "append_dict now d b =
     (case entry_of_dict now d of
        Inl err \<Rightarrow> Inl err
      | Inr ent \<Rightarrow> Inr (append_entry ent b))"

text \<open>
  \<open>update\<close> records a superseded key before it builds the entry: when the confidence is out of
  range it raises, and the history keeps the key.
\<close>

definition update ::
  "rat \<Rightarrow> string \<Rightarrow> pyval \<Rightarrow> rat \<Rightarrow> meta \<Rightarrow> string \<Rightarrow> rat option \<Rightarrow> hot_buffer \<Rightarrow>
     hot_buffer \<times> (hot_error + hot_entry)" where
  "update now key value confidence metadata source_type timestamp b =
     (let ts = or_default timestamp now;
          is_sup = meta_flag metadata ''is_superseded'';
          b1 = (if is_sup then b\<lparr>superseded_history := insert key (superseded_history b)\<rparr> else b)
      in case make_entry key value confidence source_type ts is_sup metadata of
           Inl err \<Rightarrow> (b1, Inl err)
         | Inr entry \<Rightarrow> (push entry (fst (purge key b1)), Inr entry))"

definition mark_superseded :: "string \<Rightarrow> hot_buffer \<Rightarrow> hot_buffer \<times> nat" where
  "mark_superseded key b =
     (let b1 = b\<lparr>superseded_history := insert key (superseded_history b)\<rparr>;
          count = length (filter (\<lambda>e. e_key e = key) (buffer b1));
          b2 = b1\<lparr>buffer := map (\<lambda>e. if e_key e = key then e\<lparr>e_is_superseded := True\<rparr> else e) (buffer b1)\<rparr>
      in (fst (purge key b2), count))"

fun reconcile_superseded :: "string list \<Rightarrow> hot_buffer \<Rightarrow> hot_buffer \<times> nat" where
  "reconcile_superseded [] b = (b, 0)"
| "reconcile_superseded (k # ks) b =
     (if k = [] then reconcile_superseded ks b
      else
        (let b1 = b\<lparr>superseded_history := insert k (superseded_history b)\<rparr>;
             (b2, n) = mark_superseded k b1;
             (b3, m) = reconcile_superseded ks b2
         in (b3, n + m)))"

definition clear :: "hot_buffer \<Rightarrow> hot_buffer" where
  "clear b = b\<lparr>buffer := [], superseded_history := {}\<rparr>"

section \<open>Reading\<close>

text \<open>\<open>session_id in consolidated_sessions\<close>: membership, substring, key, or a \<open>TypeError\<close>.\<close>

fun py_in :: "string \<Rightarrow> pyval \<Rightarrow> hot_error + bool" where
  "py_in x (VList xs) = Inr (VStr x \<in> set xs)"
| "py_in x (VStr s) = Inr (contains_str s x)"
| "py_in x (VDict d) = Inr (x \<in> set (dkeys d))"
| "py_in x v = Inl NotAContainer"

definition superseded_entry :: "hot_entry \<Rightarrow> bool" where
  "superseded_entry e \<longleftrightarrow> e_is_superseded e \<or> meta_flag (e_metadata e) ''is_superseded''"

text \<open>Whether \<open>get_session_entries\<close> passes over the entry because its session has consolidated it.\<close>

definition consolidated_for :: "string option \<Rightarrow> hot_entry \<Rightarrow> hot_error + bool" where
  "consolidated_for sid e =
     (let cs = meta_get (e_metadata e) ''l2_consolidated_sessions'' in
      if cs \<noteq> VNone then
        (case sid of
           None \<Rightarrow> Inr False
         | Some s \<Rightarrow> if s = [] then Inr False else py_in s cs)
      else Inr (meta_flag (e_metadata e) ''l2_consolidated''))"

definition belongs_to_session :: "(pyval \<Rightarrow> string) \<Rightarrow> string option \<Rightarrow> hot_entry \<Rightarrow> bool" where
  "belongs_to_session rp sid e =
     (let raw_sess = py_str rp (py_or (py_or (meta_get (e_metadata e) ''session_id'')
                                        (meta_get (e_metadata e) ''source_session_id'')) (VStr []));
          eff_sess = or_default (extract_effective_session rp (e_key e) (e_metadata e)) []
      in case sid of
           None \<Rightarrow> True
         | Some s \<Rightarrow>
             s = [] \<or> raw_sess = s \<or> eff_sess = s
             \<or> (s \<noteq> ''idle_sess'' \<and> \<not> meta_flag (e_metadata e) ''seeded_from_kv''
                \<and> raw_sess \<in> {[], ''default'', hermes_default_session, hermes_global_session}))"

fun session_loop ::
  "(pyval \<Rightarrow> string) \<Rightarrow> string option \<Rightarrow> hot_entry list \<Rightarrow> hot_error + hot_entry list" where
  "session_loop rp sid [] = Inr []"
| "session_loop rp sid (e # es) =
     (if superseded_entry e then session_loop rp sid es
      else case consolidated_for sid e of
          Inl err \<Rightarrow> Inl err
        | Inr True \<Rightarrow> session_loop rp sid es
        | Inr False \<Rightarrow>
            (case session_loop rp sid es of
               Inl err \<Rightarrow> Inl err
             | Inr out \<Rightarrow> Inr (if belongs_to_session rp sid e then e # out else out)))"

definition get_session_entries ::
  "(pyval \<Rightarrow> string) \<Rightarrow> string option \<Rightarrow> hot_buffer \<Rightarrow> hot_error + hot_entry list" where
  "get_session_entries rp sid b = session_loop rp sid (buffer b)"

definition readable :: "(pyval \<Rightarrow> string) \<Rightarrow> rat \<Rightarrow> string option \<Rightarrow> hot_entry \<Rightarrow> bool" where
  "readable rp cutoff sid e =
     (if e_timestamp e < cutoff then False
      else if superseded_entry e then False
      else if is_conversational_churn (e_key e) (py_str rp (e_value e)) then False
      else
        (let eff_sess = extract_effective_session rp (e_key e) (e_metadata e) in
         if sid \<noteq> None \<and> sid \<noteq> Some [] \<and> \<not> is_session_accessible eff_sess sid then False else True))"

fun dedup_loop :: "hot_entry list \<Rightarrow> string set \<Rightarrow> hot_entry list" where
  "dedup_loop [] seen_keys = []"
| "dedup_loop (e # es) seen_keys =
     (if e_key e \<notin> seen_keys then e # dedup_loop es (insert (e_key e) seen_keys)
      else dedup_loop es seen_keys)"

definition get_active ::
  "(pyval \<Rightarrow> string) \<Rightarrow> rat \<Rightarrow> string option \<Rightarrow> rat option \<Rightarrow> hot_buffer \<Rightarrow> hot_entry list" where
  "get_active rp clock sid now b =
     (let current_time = or_default now clock;
          cutoff = current_time - ttl_seconds b;
          valid_items = filter (readable rp cutoff sid) (buffer b)
      in rev (dedup_loop (rev valid_items) {}))"

text \<open>
  \<open>seed_from_kv\<close> on the items that \<open>get_recent_sync\<close> returned (\<open>None\<close>: no store, no such
  method, or it raised). An item that cannot be appended stops the loop with its exception.
\<close>

definition seed_item :: "rat \<Rightarrow> entry_dict \<Rightarrow> meta \<Rightarrow> string \<Rightarrow> entry_dict" where
  "seed_item now it meta source_type =
     \<lparr>d_key = d_key it, d_value = Some (or_default (d_value it) (VStr [])), d_object = None,
      d_confidence = Some (or_default (d_confidence it) 1), d_source_type = Some source_type,
      d_timestamp = Some (or_default (d_timestamp it) now), d_is_superseded = None,
      d_metadata = Some meta\<rparr>"

definition append_seed :: "rat \<Rightarrow> entry_dict \<Rightarrow> meta \<Rightarrow> hot_buffer \<Rightarrow> hot_error + hot_buffer" where
  "append_seed now it meta b =
     (case dget meta ''source_type'' of
        None \<Rightarrow> append_dict now (seed_item now it meta ''user_explicit'') b
      | Some (VStr s) \<Rightarrow> append_dict now (seed_item now it meta s) b
      | Some _ \<Rightarrow> (if d_key it = None then Inl KeyMissing else Inl ValidationError))"

fun seed_loop :: "rat \<Rightarrow> entry_dict list \<Rightarrow> hot_buffer \<Rightarrow> nat \<Rightarrow> hot_buffer \<times> (hot_error + nat)" where
  "seed_loop now [] b seeded = (b, Inr seeded)"
| "seed_loop now (it # its) b seeded =
     (let meta = or_default (d_metadata it) [] in
      if meta_flag meta ''is_superseded'' then seed_loop now its b seeded
      else case append_seed now it meta b of
             Inl err \<Rightarrow> (b, Inl err)
           | Inr b' \<Rightarrow> seed_loop now its b' (seeded + 1))"

definition seed_from_kv ::
  "rat \<Rightarrow> entry_dict list option \<Rightarrow> hot_buffer \<Rightarrow> hot_buffer \<times> (hot_error + nat)" where
  "seed_from_kv now recent b =
     (case recent of
        None \<Rightarrow> (b, Inr 0)
      | Some items \<Rightarrow> if items = [] then (b, Inr 0) else seed_loop now items b 0)"

section \<open>The buffer as a state machine\<close>

text \<open>One call of a method that changes the buffer.\<close>

inductive hot_step :: "hot_buffer \<Rightarrow> hot_buffer \<Rightarrow> bool" where
  step_append: "hot_step b (append_entry e b)" if "0 \<le> e_confidence e" "e_confidence e \<le> 1"
| step_append_dict: "hot_step b b'" if "append_dict now d b = Inr b'"
| step_update: "hot_step b (fst (update now k v c md st ts b))"
| step_purge: "hot_step b (fst (purge k b))"
| step_mark: "hot_step b (fst (mark_superseded k b))"
| step_reconcile: "hot_step b (fst (reconcile_superseded ks b))"
| step_seed: "hot_step b (fst (seed_from_kv now items b))"
| step_clear: "hot_step b (clear b)"

inductive hot_reach :: "nat \<Rightarrow> rat \<Rightarrow> hot_buffer \<Rightarrow> bool" for n ttl where
  reach_new: "hot_reach n ttl (new_hot_buffer n ttl)"
| reach_step: "hot_reach n ttl b \<Longrightarrow> hot_step b b' \<Longrightarrow> hot_reach n ttl b'"

definition hot_inv :: "nat \<Rightarrow> rat \<Rightarrow> hot_buffer \<Rightarrow> bool" where
  "hot_inv n ttl b \<longleftrightarrow> maxlen b = n \<and> ttl_seconds b = ttl \<and> length (buffer b) \<le> n
     \<and> distinct (map e_key (buffer b))
     \<and> (\<forall>e \<in> set (buffer b). 0 \<le> e_confidence e \<and> e_confidence e \<le> 1)"

lemma keep_last_short [simp]: "length xs \<le> n \<Longrightarrow> keep_last n xs = xs"
  by (simp add: keep_last_def)

lemma length_keep_last: "length (keep_last n xs) \<le> n"
  by (simp add: keep_last_def)

lemma set_keep_last: "x \<in> set (keep_last n xs) \<Longrightarrow> x \<in> set xs"
  by (auto simp: keep_last_def dest: in_set_dropD)

lemma keep_last_snoc: "n > 0 \<Longrightarrow> keep_last n (xs @ [x]) = keep_last (n - 1) xs @ [x]"
  by (cases n) (auto simp: keep_last_def Suc_diff_le)

lemma map_keep_last: "map f (keep_last n xs) = keep_last n (map f xs)"
  by (simp add: keep_last_def drop_map)

lemma distinct_keep_last: "distinct xs \<Longrightarrow> distinct (keep_last n xs)"
  by (simp add: keep_last_def)

lemma distinct_filter_key: "distinct (map e_key xs) \<Longrightarrow> distinct (map e_key (filter P xs))"
  by (simp add: distinct_map_filter)

named_theorems hot_simps \<open>the fields of the buffer after each method\<close>

lemma purge_simps [hot_simps]:
  "maxlen (fst (purge k b)) = maxlen b"
  "ttl_seconds (fst (purge k b)) = ttl_seconds b"
  "superseded_history (fst (purge k b)) = superseded_history b"
  "buffer (fst (purge k b)) = keep_last (maxlen b) (filter (\<lambda>e. e_key e \<noteq> k) (buffer b))"
  by (simp_all add: purge_def Let_def)

lemma push_simps [hot_simps]:
  "maxlen (push e b) = maxlen b"
  "ttl_seconds (push e b) = ttl_seconds b"
  "superseded_history (push e b) = superseded_history b"
  "buffer (push e b) = keep_last (maxlen b) (buffer b @ [e])"
  by (simp_all add: push_def)

lemma mark_simps [hot_simps]:
  "maxlen (fst (mark_superseded k b)) = maxlen b"
  "ttl_seconds (fst (mark_superseded k b)) = ttl_seconds b"
  "superseded_history (fst (mark_superseded k b)) = insert k (superseded_history b)"
  "buffer (fst (mark_superseded k b)) = keep_last (maxlen b) (filter (\<lambda>e. e_key e \<noteq> k) (buffer b))"
proof -
  have f: "filter (\<lambda>e. e_key e \<noteq> k)
      (map (\<lambda>e. if e_key e = k then e\<lparr>e_is_superseded := True\<rparr> else e) xs)
    = filter (\<lambda>e. e_key e \<noteq> k) xs" for xs
    by (induction xs) auto
  show "maxlen (fst (mark_superseded k b)) = maxlen b"
    "ttl_seconds (fst (mark_superseded k b)) = ttl_seconds b"
    "superseded_history (fst (mark_superseded k b)) = insert k (superseded_history b)"
    "buffer (fst (mark_superseded k b)) = keep_last (maxlen b) (filter (\<lambda>e. e_key e \<noteq> k) (buffer b))"
    by (simp_all add: mark_superseded_def Let_def hot_simps f)
qed

lemma hot_inv_purge: "hot_inv n ttl b \<Longrightarrow> hot_inv n ttl (fst (purge k b))"
  by (auto simp: hot_inv_def hot_simps map_keep_last length_keep_last dest!: set_keep_last
      intro: distinct_keep_last distinct_filter_key)

lemma hot_inv_mark: "hot_inv n ttl b \<Longrightarrow> hot_inv n ttl (fst (mark_superseded k b))"
  by (auto simp: hot_inv_def hot_simps map_keep_last length_keep_last dest!: set_keep_last
      intro: distinct_keep_last distinct_filter_key)

lemma hot_inv_push:
  assumes "hot_inv n ttl b" "0 \<le> e_confidence e" "e_confidence e \<le> 1" "e_key e \<notin> e_key ` set (buffer b)"
  shows "hot_inv n ttl (push e b)"
  using assms
  by (auto simp: hot_inv_def hot_simps map_keep_last length_keep_last dest!: set_keep_last
      intro!: distinct_keep_last)

lemma purge_key: "e \<in> set (buffer (fst (purge k b))) \<Longrightarrow> e_key e \<noteq> k"
  by (auto simp: hot_simps dest: set_keep_last)

lemma hot_inv_history: "hot_inv n ttl (b\<lparr>superseded_history := h\<rparr>) = hot_inv n ttl b"
  by (simp add: hot_inv_def)

lemma hot_inv_append:
  assumes "hot_inv n ttl b" "0 \<le> e_confidence e" "e_confidence e \<le> 1"
  shows "hot_inv n ttl (append_entry e b)"
  unfolding append_entry_def Let_def
  using assms by (auto intro!: hot_inv_push hot_inv_purge simp: hot_inv_history dest!: purge_key)

lemma make_entry_Inr:
  "make_entry k v c st ts sp md = Inr e \<longleftrightarrow> 0 \<le> c \<and> c \<le> 1 \<and>
     e = \<lparr>e_key = k, e_value = v, e_confidence = c, e_source_type = st, e_timestamp = ts,
          e_is_superseded = sp, e_metadata = md\<rparr>"
  by (auto simp: make_entry_def)

lemma hot_inv_append_dict: "append_dict now d b = Inr b' \<Longrightarrow> hot_inv n ttl b \<Longrightarrow> hot_inv n ttl b'"
  by (auto simp: append_dict_def entry_of_dict_def make_entry_Inr
      split: sum.splits option.splits intro!: hot_inv_append)

lemma hot_inv_update: "hot_inv n ttl b \<Longrightarrow> hot_inv n ttl (fst (update now k v c md st ts b))"
  unfolding update_def Let_def
  by (auto split: sum.splits simp: make_entry_Inr hot_inv_history dest!: purge_key
      intro!: hot_inv_push hot_inv_purge)

lemma hot_inv_reconcile: "hot_inv n ttl b \<Longrightarrow> hot_inv n ttl (fst (reconcile_superseded ks b))"
  by (induction ks arbitrary: b)
    (simp_all add: Let_def case_prod_beta hot_inv_mark hot_inv_history)

lemma append_seed_dict: "append_seed now it meta b = Inr b' \<Longrightarrow> \<exists>d. append_dict now d b = Inr b'"
  by (auto simp: append_seed_def split: option.splits pyval.splits if_splits)

lemma hot_inv_seed_loop: "hot_inv n ttl b \<Longrightarrow> hot_inv n ttl (fst (seed_loop now its b m))"
proof (induction its arbitrary: b m)
  case (Cons it its)
  then show ?case
    by (auto simp: Let_def split: sum.splits dest!: append_seed_dict intro: hot_inv_append_dict)
qed simp

lemma hot_inv_seed: "hot_inv n ttl b \<Longrightarrow> hot_inv n ttl (fst (seed_from_kv now items b))"
  by (simp add: seed_from_kv_def hot_inv_seed_loop split: option.split)

lemma hot_inv_step: "hot_step b b' \<Longrightarrow> hot_inv n ttl b \<Longrightarrow> hot_inv n ttl b'"
proof (induction rule: hot_step.induct)
  case (step_clear b)
  then show ?case by (simp add: hot_inv_def clear_def)
qed (blast intro: hot_inv_append hot_inv_append_dict hot_inv_update hot_inv_purge hot_inv_mark
    hot_inv_reconcile hot_inv_seed)+

lemma hot_inv_reach: "hot_reach n ttl b \<Longrightarrow> hot_inv n ttl b"
proof (induction rule: hot_reach.induct)
  case reach_new
  then show ?case by (simp add: hot_inv_def new_hot_buffer_def)
qed (rule hot_inv_step)

lemma dedup_loop_distinct:
  "distinct (map e_key es) \<Longrightarrow> e_key ` set es \<inter> seen = {} \<Longrightarrow> dedup_loop es seen = es"
  by (induction es arbitrary: seen) auto

lemma get_active_filter:
  assumes "hot_inv n ttl b"
  shows "get_active rp clock sid now b =
    filter (readable rp (or_default now clock - ttl_seconds b) sid) (buffer b)"
proof -
  let ?v = "filter (readable rp (or_default now clock - ttl_seconds b) sid) (buffer b)"
  have "distinct (map e_key (rev ?v))"
    using assms by (simp add: hot_inv_def rev_map [symmetric] distinct_filter_key)
  then show ?thesis by (simp add: get_active_def Let_def dedup_loop_distinct)
qed

section \<open>Session isolation\<close>

lemma clean_session_id: "is_session_accessible (Some eff) (Some req) \<Longrightarrow> eff \<noteq> hermes_global_session \<Longrightarrow>
    clean_session eff \<notin> {hermes_default_session, ''default'', []} \<Longrightarrow> clean_session req = clean_session eff"
  by (auto simp: is_session_accessible_def Let_def)

section \<open>Properties\<close>

text \<open>
  Whatever sequence of calls filled the buffer, it holds at most \<open>maxlen\<close> entries, no two of
  the same key, each with a confidence between 0 and 1; so the deduplication in \<open>get_active\<close> never
  drops anything, and the answer is the readable entries in the order of insertion.
\<close>

theorem hot_buffer_invariant:
  assumes "hot_reach n ttl b"
  shows "length (buffer b) \<le> n \<and> distinct (map e_key (buffer b))
    \<and> (\<forall>e \<in> set (buffer b). 0 \<le> e_confidence e \<and> e_confidence e \<le> 1)
    \<and> get_active rp clock sid now b =
        filter (readable rp (or_default now clock - ttl) sid) (buffer b)"
  using hot_inv_reach [OF assms] get_active_filter [OF hot_inv_reach [OF assms], of rp clock sid now]
  by (simp add: hot_inv_def)

definition sample_entry :: hot_entry where
  "sample_entry = \<lparr>e_key = ''user:name'', e_value = VStr ''Ada'', e_confidence = 1,
     e_source_type = ''user_explicit'', e_timestamp = 10, e_is_superseded = False, e_metadata = []\<rparr>"

theorem hot_buffer_invariant_witness:
  "length (buffer (append_entry sample_entry (new_hot_buffer 2 900))) \<le> 2"
proof -
  have "hot_reach 2 900 (append_entry sample_entry (new_hot_buffer 2 900))"
    by (rule reach_step [OF reach_new], rule step_append) (simp_all add: sample_entry_def)
  from hot_buffer_invariant [OF this] show ?thesis by blast
qed

text \<open>
  An update that is not superseded, not noise and accessible is read back by the session until
  its age exceeds the window, as the last (newest) active entry.
\<close>

theorem update_is_read_back:
  assumes "hot_reach n ttl b" "0 < n" "0 \<le> c" "c \<le> 1"
    and "\<not> meta_flag md ''is_superseded''" "\<not> is_conversational_churn k (py_str rp v)"
    and "is_session_accessible (extract_effective_session rp k md) (Some sid)" "t \<le> ts + ttl"
  shows "\<exists>e. snd (update now k v c md src (Some ts) b) = Inr e
    \<and> e_key e = k \<and> e_value e = v
    \<and> get_active rp clock (Some sid) (Some t) (fst (update now k v c md src (Some ts) b)) \<noteq> []
    \<and> last (get_active rp clock (Some sid) (Some t) (fst (update now k v c md src (Some ts) b))) = e"
proof -
  let ?b = "fst (update now k v c md src (Some ts) b)"
  let ?e = "\<lparr>e_key = k, e_value = v, e_confidence = c, e_source_type = src, e_timestamp = ts,
    e_is_superseded = False, e_metadata = md\<rparr>"
  have inv: "hot_inv n ttl b" using assms(1) by (rule hot_inv_reach)
  have upd: "update now k v c md src (Some ts) b = (push ?e (fst (purge k b)), Inr ?e)"
    using assms(3-5) by (simp add: update_def Let_def make_entry_def or_default_def)
  have inv': "hot_inv n ttl ?b" by (rule hot_inv_update [OF inv])
  have buf: "buffer ?b = keep_last (n - 1) (buffer (fst (purge k b))) @ [?e]"
    using inv assms(2) by (simp add: upd hot_simps hot_inv_def keep_last_snoc)
  have r: "readable rp (t - ttl) (Some sid) ?e"
    using assms(5-8) by (simp add: readable_def superseded_entry_def Let_def)
  have "get_active rp clock (Some sid) (Some t) ?b =
      filter (readable rp (t - ttl) (Some sid)) (keep_last (n - 1) (buffer (fst (purge k b)))) @ [?e]"
    using inv' r unfolding get_active_filter [OF inv'] buf
    by (simp add: or_default_def hot_inv_def)
  then show ?thesis by (simp add: upd)
qed

theorem update_is_read_back_witness:
  "\<exists>e. snd (update 0 ''user:name'' (VStr ''Ada'') 1 [] ''user_explicit'' (Some 10) (new_hot_buffer 25 900)) = Inr e
    \<and> e_key e = ''user:name'' \<and> e_value e = VStr ''Ada''
    \<and> get_active (\<lambda>_. []) 0 (Some ''s1'') (Some 910)
        (fst (update 0 ''user:name'' (VStr ''Ada'') 1 [] ''user_explicit'' (Some 10) (new_hot_buffer 25 900))) \<noteq> []
    \<and> last (get_active (\<lambda>_. []) 0 (Some ''s1'') (Some 910)
        (fst (update 0 ''user:name'' (VStr ''Ada'') 1 [] ''user_explicit'' (Some 10) (new_hot_buffer 25 900)))) = e"
proof (rule update_is_read_back)
  show "hot_reach 25 900 (new_hot_buffer 25 900)" by (rule reach_new)
  show "\<not> is_conversational_churn ''user:name'' (py_str (\<lambda>_. []) (VStr ''Ada''))" by code_simp
  show "is_session_accessible (extract_effective_session (\<lambda>_. []) ''user:name'' []) (Some ''s1'')"
    by code_simp
qed (simp_all add: meta_flag_def)

lemma reconcile_buffer:
  "length (buffer b) \<le> maxlen b \<Longrightarrow>
   buffer (fst (reconcile_superseded ks b)) = filter (\<lambda>e. e_key e \<notin> set ks \<or> e_key e = []) (buffer b)
   \<and> superseded_history (fst (reconcile_superseded ks b)) = superseded_history b \<union> (set ks - {[]})"
proof (induction ks arbitrary: b)
  case (Cons k ks)
  show ?case
  proof (cases "k = []")
    case True
    have "filter (\<lambda>e. e_key e \<notin> set ks \<or> e_key e = []) (buffer b) =
        filter (\<lambda>e. e_key e \<notin> set ([] # ks) \<or> e_key e = []) (buffer b)"
      by (rule filter_cong) auto
    with True Cons.IH [OF Cons.prems] show ?thesis by simp
  next
    case False
    let ?b = "fst (mark_superseded k (b\<lparr>superseded_history := insert k (superseded_history b)\<rparr>))"
    have buf: "buffer ?b = filter (\<lambda>e. e_key e \<noteq> k) (buffer b)"
      using Cons.prems by (simp add: hot_simps) (meson keep_last_short le_trans length_filter_le)
    then have "length (buffer ?b) \<le> maxlen ?b"
      using Cons.prems by (simp add: hot_simps) (meson le_trans length_filter_le)
    from Cons.IH [OF this] False show ?thesis
      by (simp add: Let_def case_prod_beta buf mark_simps(3)) (auto intro!: filter_cong)
  qed
qed simp

text \<open>
  Supersession purges: after \<open>reconcile_superseded ks\<close> a reader sees exactly the entries it saw
  before, less those whose key is a non-empty element of \<open>ks\<close>, and the keys are remembered.
\<close>

theorem reconciliation_purges:
  assumes "hot_reach n ttl b"
  shows "get_active rp clock sid now (fst (reconcile_superseded ks b)) =
      filter (\<lambda>e. e_key e \<notin> set ks \<or> e_key e = []) (get_active rp clock sid now b)
    \<and> set ks - {[]} \<subseteq> superseded_history (fst (reconcile_superseded ks b))"
proof -
  have inv: "hot_inv n ttl b" using assms by (rule hot_inv_reach)
  then have "length (buffer b) \<le> maxlen b" by (simp add: hot_inv_def)
  note buf = reconcile_buffer [OF this, of ks]
  have inv': "hot_inv n ttl (fst (reconcile_superseded ks b))" by (rule hot_inv_reconcile [OF inv])
  have ttl: "ttl_seconds (fst (reconcile_superseded ks b)) = ttl_seconds b"
    using inv inv' by (simp add: hot_inv_def)
  show ?thesis
    using buf by (simp add: get_active_filter [OF inv] get_active_filter [OF inv'] ttl conj_commute)
qed

theorem reconciliation_purges_witness:
  "get_active (\<lambda>_. []) 0 None None (fst (reconcile_superseded [''user:name''] (append_entry sample_entry (new_hot_buffer 2 900)))) =
     filter (\<lambda>e. e_key e \<notin> set [''user:name''] \<or> e_key e = [])
       (get_active (\<lambda>_. []) 0 None None (append_entry sample_entry (new_hot_buffer 2 900)))"
proof -
  have "hot_reach 2 900 (append_entry sample_entry (new_hot_buffer 2 900))"
    by (rule reach_step [OF reach_new], rule step_append) (simp_all add: sample_entry_def)
  from reconciliation_purges [OF this] show ?thesis by blast
qed

text \<open>
  Isolation: an entry whose effective session is private is returned by \<open>get_active\<close> to a
  caller that names a session only if that session, without its \<open>session_\<close> prefix, is the entry's.
\<close>

theorem private_entries_are_isolated:
  assumes "e \<in> set (get_active rp clock (Some req) now b)" "req \<noteq> []"
    and "extract_effective_session rp (e_key e) (e_metadata e) = Some eff"
    and "eff \<noteq> hermes_global_session" "clean_session eff \<notin> {hermes_default_session, ''default'', []}"
  shows "clean_session req = clean_session eff"
proof -
  have "set (dedup_loop es seen) \<subseteq> set es" for es seen
    by (induction es seen rule: dedup_loop.induct) auto
  with assms(1) have "e \<in> set (rev (filter (readable rp (or_default now clock - ttl_seconds b) (Some req)) (buffer b)))"
    unfolding get_active_def Let_def by (metis set_rev subsetD)
  with assms(2-4) have "is_session_accessible (Some eff) (Some req)"
    by (simp add: readable_def Let_def split: if_splits)
  with assms(4,5) show ?thesis by (intro clean_session_id)
qed

definition private_entry :: hot_entry where
  "private_entry = sample_entry\<lparr>e_key := ''session:alpha:note''\<rparr>"

theorem private_entries_are_isolated_witness:
  "private_entry \<in> set (get_active (\<lambda>_. []) 0 (Some ''session_alpha'') None (append_entry private_entry (new_hot_buffer 2 900)))
   \<and> clean_session ''session_alpha'' = clean_session ''alpha''"
proof -
  have m: "private_entry \<in> set (get_active (\<lambda>_. []) 0 (Some ''session_alpha'') None (append_entry private_entry (new_hot_buffer 2 900)))"
    by code_simp
  moreover have "clean_session ''session_alpha'' = clean_session ''alpha''"
    by (rule private_entries_are_isolated [OF m]) code_simp+
  ultimately show ?thesis ..
qed

end
