(* ===== verification/Regex.thy ===== *)
theory Regex
  imports Prelude
begin

text \<open>
  The part of Python's \<open>re\<close> that the retrieval code uses: classes, sequence, alternatives from the
  left, greedy repetition with bounds, and word boundaries, matched by backtracking. \<open>ends r s i\<close>
  lists the positions where a match from \<open>i\<close> can end, in the order the matcher tries them; its
  head is what \<open>re\<close> reports. Texts are bytes: a byte above 127 counts as a word character, which
  is right for the Latin letters the program's patterns are about.

  A repetition makes progress in every step, so \<open>length s - i\<close> steps are enough; patterns that
  match the empty text inside a repetition are not used by the code.
\<close>

section \<open>Patterns and matching\<close>

datatype re =
    Eps
  | Chr "char \<Rightarrow> bool"
  | Seq re re
  | Alt re re
  | Rep nat "nat option" re
  | WordB

definition is_word_char :: "char \<Rightarrow> bool" where
  "is_word_char c =
     (let n = of_char c :: nat in
      (48 \<le> n \<and> n \<le> 57) \<or> (65 \<le> n \<and> n \<le> 90) \<or> (97 \<le> n \<and> n \<le> 122) \<or> n = 95 \<or> 128 \<le> n)"

definition word_at :: "string \<Rightarrow> nat \<Rightarrow> bool" where
  "word_at s i = (i < length s \<and> is_word_char (s ! i))"

fun greedy :: "(nat \<Rightarrow> nat list) \<Rightarrow> nat \<Rightarrow> nat \<Rightarrow> nat option \<Rightarrow> nat \<Rightarrow> nat list" where
  "greedy f 0 lo hi i = (if lo = 0 then [i] else [])"
| "greedy f (Suc k) lo hi i =
     (if hi = Some 0 then []
      else concat (map (\<lambda>j. if j \<le> i then [] else greedy f k (lo - 1) (map_option (\<lambda>h. h - 1) hi) j) (f i)))
     @ (if lo = 0 then [i] else [])"

fun ends :: "re \<Rightarrow> string \<Rightarrow> nat \<Rightarrow> nat list" where
  "ends Eps s i = [i]"
| "ends (Chr p) s i = (if i < length s \<and> p (s ! i) then [Suc i] else [])"
| "ends (Seq a b) s i = concat (map (ends b s) (ends a s i))"
| "ends (Alt a b) s i = ends a s i @ ends b s i"
| "ends (Rep lo hi r) s i = greedy (ends r s) (length s - i) lo hi i"
| "ends WordB s i = (if (0 < i \<and> word_at s (i - 1)) \<noteq> word_at s i then [i] else [])"

text \<open>A literal text, and alternatives of literals.\<close>

fun lit :: "string \<Rightarrow> re" where
  "lit [] = Eps"
| "lit (c # s) = Seq (Chr (\<lambda>x. x = c)) (lit s)"

fun lits :: "string list \<Rightarrow> re" where
  "lits [] = Chr (\<lambda>x. False)"
| "lits [w] = lit w"
| "lits (w # ws) = Alt (lit w) (lits ws)"

text \<open>\<open>pattern.sub(t, s)\<close> from position \<open>i\<close> on, for a pattern that does not match the empty text.\<close>

fun sub_from :: "re \<Rightarrow> string \<Rightarrow> string \<Rightarrow> nat \<Rightarrow> nat \<Rightarrow> string" where
  "sub_from r t s 0 i = drop i s"
| "sub_from r t s (Suc k) i =
     (if length s \<le> i then []
      else case ends r s i of
          [] \<Rightarrow> s ! i # sub_from r t s k (Suc i)
        | j # _ \<Rightarrow> (if j \<le> i then s ! i # sub_from r t s k (Suc i) else t @ sub_from r t s k j))"

definition re_sub :: "re \<Rightarrow> string \<Rightarrow> string \<Rightarrow> string" where
  "re_sub r t s = sub_from r t s (length s) 0"

text \<open>The same for a pattern that starts with \<open>^\<close>.\<close>

definition re_sub_start :: "re \<Rightarrow> string \<Rightarrow> string \<Rightarrow> string" where
  "re_sub_start r t s = (case ends r s 0 of [] \<Rightarrow> s | j # _ \<Rightarrow> t @ drop j s)"

text \<open>\<open>pattern.findall(s)\<close> for a pattern without groups.\<close>

fun find_from :: "re \<Rightarrow> string \<Rightarrow> nat \<Rightarrow> nat \<Rightarrow> string list" where
  "find_from r s 0 i = []"
| "find_from r s (Suc k) i =
     (if length s \<le> i then []
      else case ends r s i of
          [] \<Rightarrow> find_from r s k (Suc i)
        | j # _ \<Rightarrow> (if j \<le> i then find_from r s k (Suc i)
                   else take (j - i) (drop i s) # find_from r s k j))"

definition re_findall :: "re \<Rightarrow> string \<Rightarrow> string list" where
  "re_findall r s = find_from r s (length s) 0"

section \<open>Ends lie in the text\<close>

lemma greedy_bounds:
  assumes "\<And>i j. i \<le> n \<Longrightarrow> j \<in> set (f i) \<Longrightarrow> i \<le> j \<and> j \<le> n"
  shows "i \<le> n \<Longrightarrow> j \<in> set (greedy f k lo hi i) \<Longrightarrow> i \<le> j \<and> j \<le> n"
proof (induction k arbitrary: lo hi i)
  case (Suc k)
  from Suc.prems(2) consider "j = i"
    | l where "l \<in> set (f i)" "i < l" "j \<in> set (greedy f k (lo - 1) (map_option (\<lambda>h. h - 1) hi) l)"
    by (cases "hi = Some 0"; cases "lo = 0") (auto simp: if_distrib [of set] split: if_split_asm)
  then show ?case
  proof cases
    case 2
    from assms [OF Suc.prems(1) 2(1)] Suc.IH [OF _ 2(3)] show ?thesis by simp
  qed (use Suc.prems in simp)
qed (auto split: if_splits)

lemma ends_bounds: "i \<le> length s \<Longrightarrow> j \<in> set (ends r s i) \<Longrightarrow> i \<le> j \<and> j \<le> length s"
proof (induction r arbitrary: i j)
  case (Seq a b)
  from Seq.prems(2) obtain k where k: "k \<in> set (ends a s i)" "j \<in> set (ends b s k)" by auto
  from Seq.IH(1) [OF Seq.prems(1) k(1)] Seq.IH(2) [OF _ k(2)] show ?case by simp
next
  case (Alt a b)
  from Alt.prems(2) consider "j \<in> set (ends a s i)" | "j \<in> set (ends b s i)" by auto
  then show ?case using Alt.IH Alt.prems(1) by cases blast+
next
  case (Rep lo hi r)
  show ?case
    by (rule greedy_bounds [OF Rep.IH Rep.prems(1)]) (use Rep.prems(2) in simp_all)
qed (simp_all split: if_splits)

section \<open>A class of characters collapsed to one\<close>

text \<open>
  Substituting \<open>[p]+\<close> by a text of one character \<open>c\<close> leaves no character of the class but \<open>c\<close>, and
  no two of them in a row.
\<close>

lemma class_rep_end:
  assumes "i < length s" "p (s ! i)"
  shows "\<exists>j js. ends (Rep 1 None (Chr p)) s i = j # js \<and> i < j \<and> j \<le> length s
    \<and> (j < length s \<longrightarrow> \<not> p (s ! j))"
proof -
  define f where "f = ends (Chr p) s"
  have f: "\<And>i. f i = (if i < length s \<and> p (s ! i) then [Suc i] else [])" by (simp add: f_def)
  have g: "\<exists>j js. greedy f k lo None i = j # js \<and> i + lo \<le> j \<and> j \<le> length s
      \<and> (j < length s \<longrightarrow> \<not> p (s ! j))"
    if "length s - i = k" "i \<le> length s" "lo = 0 \<or> (lo = 1 \<and> i < length s \<and> p (s ! i))" for i k lo
    using that
  proof (induction k arbitrary: i lo)
    case (Suc k)
    then have i: "i < length s" by simp
    show ?case
    proof (cases "p (s ! i)")
      case True
      from Suc.prems i have "length s - Suc i = k" "Suc i \<le> length s" by simp_all
      from Suc.IH [OF this, of 0] obtain j js where
        j: "greedy f k 0 None (Suc i) = j # js" "Suc i \<le> j" "j \<le> length s"
        "j < length s \<longrightarrow> \<not> p (s ! j)" by auto
      have "greedy f (Suc k) lo None i = j # js @ (if lo = 0 then [i] else [])"
        using True i j(1) Suc.prems(3) by (auto simp: f)
      with j Suc.prems(3) show ?thesis by auto
    next
      case False
      with i Suc.prems show ?thesis by (auto simp: f)
    qed
  qed auto
  from g [of i "length s - i" 1] assms show ?thesis by (auto simp: f_def)
qed

lemma class_rep_none: "\<not> (i < length s \<and> p (s ! i)) \<Longrightarrow> ends (Rep 1 None (Chr p)) s i = []"
  by (cases "length s - i") auto

definition spaced :: "(char \<Rightarrow> bool) \<Rightarrow> char \<Rightarrow> string \<Rightarrow> bool" where
  "spaced p c t \<longleftrightarrow> (\<forall>x \<in> set t. p x \<longrightarrow> x = c) \<and> successively (\<lambda>x y. \<not> (x = c \<and> y = c)) t"

lemma sub_class_spaced:
  assumes "p c" "length s - i \<le> k"
  shows "spaced p c (sub_from (Rep 1 None (Chr p)) [c] s k i)
    \<and> (i < length s \<longrightarrow> \<not> p (s ! i) \<longrightarrow> hd (sub_from (Rep 1 None (Chr p)) [c] s k i) = s ! i)"
  using assms(2)
proof (induction k arbitrary: i)
  case (Suc k)
  show ?case
  proof (cases "i < length s")
    case True
    show ?thesis
    proof (cases "p (s ! i)")
      case True
      with \<open>i < length s\<close> obtain j js where e: "ends (Rep 1 None (Chr p)) s i = j # js" "i < j"
        "j \<le> length s" "j < length s \<longrightarrow> \<not> p (s ! j)" using class_rep_end by blast
      let ?t = "sub_from (Rep 1 None (Chr p)) [c] s k j"
      from e Suc.prems have l: "length s - j \<le> k" by linarith
      note IH = Suc.IH [OF l]
      have "?t = [] \<or> hd ?t \<noteq> c"
      proof (cases "j < length s")
        case True
        with IH e(4) have "hd ?t = s ! j" by blast
        with e(4) True assms(1) show ?thesis by metis
      next
        case False
        then show ?thesis by (cases k) auto
      qed
      with IH have "spaced p c (c # ?t)"
        by (cases ?t) (auto simp: spaced_def)
      with e \<open>i < length s\<close> True show ?thesis by (simp del: ends.simps)
    next
      case False
      with \<open>i < length s\<close> have e: "ends (Rep 1 None (Chr p)) s i = []" by (intro class_rep_none) simp
      from Suc have IH: "spaced p c (sub_from (Rep 1 None (Chr p)) [c] s k (Suc i))" by simp
      from False assms(1) have "s ! i \<noteq> c" by auto
      with IH False have "spaced p c (s ! i # sub_from (Rep 1 None (Chr p)) [c] s k (Suc i))"
        by (cases "sub_from (Rep 1 None (Chr p)) [c] s k (Suc i)") (auto simp: spaced_def)
      with e True show ?thesis by (simp del: ends.simps)
    qed
  next
    case False
    then show ?thesis by (simp add: spaced_def)
  qed
qed (simp add: spaced_def)

lemma re_sub_class_spaced: "p c \<Longrightarrow> spaced p c (re_sub (Rep 1 None (Chr p)) [c] s)"
  using sub_class_spaced [of p c s 0 "length s"] by (simp add: re_sub_def)

end
