(* ===== verification/RecordText.thy ===== *)
theory RecordText
  imports Regex
begin

text \<open>
  How the packing code of \<open>cognitive/retrieval/render.py\<close> reads a record: its text, its entity root,
  its slot, the bag of its words, and what it costs in tokens. A record is a dictionary; the branches for
  objects read the same fields as attributes.

  The record \<open>render_env\<close> collects what is not under \<open>src/\<close> or not computed exactly: \<open>repr\<close> of
  containers, the reader of floating-point texts, square root and exponential, the stemmer (spaCy),
  the rank of a record without a score, and the order in which CPython iterates a set of integers,
  given by the table position \<open>r_slot xs j\<close> of the element \<open>j\<close> of the set \<open>xs\<close>.
\<close>

record render_env =
  r_repr :: "pyval \<Rightarrow> string"
  r_float :: "string \<Rightarrow> rat option"
  r_sqrt :: "rat \<Rightarrow> rat"
  r_exp :: "rat \<Rightarrow> rat"
  r_stem :: "string \<Rightarrow> string"
  r_rank :: "meta \<Rightarrow> rat"
  r_slot :: "nat list \<Rightarrow> nat \<Rightarrow> nat"
  r_dedup_sim :: rat
  r_now :: rat

section \<open>Fields\<close>

text \<open>\<open>r.get(a, r.get(b, ""))\<close> and \<open>float(v)\<close>, which fails on a container, \<open>None\<close> or a text that is no number.\<close>

definition get2 :: "meta \<Rightarrow> string \<Rightarrow> string \<Rightarrow> pyval" where
  "get2 r a b = dget_default r a (dget_default r b (VStr []))"

fun to_float :: "(string \<Rightarrow> rat option) \<Rightarrow> pyval \<Rightarrow> rat option" where
  "to_float fl (VFloat q) = Some q"
| "to_float fl (VInt i) = Some (of_int i)"
| "to_float fl (VBool b) = Some (if b then 1 else 0)"
| "to_float fl (VStr s) = fl s"
| "to_float fl _ = None"

text \<open>\<open>str(x or "")\<close>.\<close>

definition str_or_empty :: "render_env \<Rightarrow> pyval \<Rightarrow> string" where
  "str_or_empty E v = py_str (r_repr E) (py_or v (VStr []))"

text \<open>\<open>s[:n]\<close>: the first \<open>n\<close> code points.\<close>

fun py_take :: "nat \<Rightarrow> string \<Rightarrow> string" where
  "py_take n [] = []"
| "py_take n (c # s) =
     (if is_continuation_byte c then c # py_take n s
      else case n of 0 \<Rightarrow> [] | Suc m \<Rightarrow> c # py_take m s)"

lemma py_len_py_take: "py_len (py_take n s) = min n (py_len s)"
  by (induction n s rule: py_take.induct) (auto simp: py_len_def split: nat.split)

section \<open>The root of an entity\<close>

fun seqs :: "re list \<Rightarrow> re" where
  "seqs [] = Eps"
| "seqs [r] = r"
| "seqs (r # rs) = Seq r (seqs rs)"

definition opt :: "re \<Rightarrow> re" where
  "opt r = Rep 0 (Some 1) r"

definition dig :: "nat \<Rightarrow> nat option \<Rightarrow> re" where
  "dig lo hi = Rep lo hi (Chr is_digit)"

definition is_lower_hex :: "char \<Rightarrow> bool" where
  "is_lower_hex c = (let n = of_char c :: nat in (48 \<le> n \<and> n \<le> 57) \<or> (97 \<le> n \<and> n \<le> 102))"

definition is_lower_letter :: "char \<Rightarrow> bool" where
  "is_lower_letter c = (let n = of_char c :: nat in 97 \<le> n \<and> n \<le> 122)"

text \<open>The text is in lower case when the patterns see it, so \<open>re.IGNORECASE\<close> has no effect.\<close>

definition transport_prefix_re :: re where
  "transport_prefix_re = Rep 1 None (lits [''hermes:memory_md:'', ''memory_md:'', ''hermes:'', ''kv:'',
     ''fact:'', ''sop::'', ''sop:'', ''rule:'', ''preference:'', ''constraint:''])"

definition version_re :: re where
  "version_re = seqs [WordB, lit ''v'', dig 1 None, Rep 0 None (Seq (lit ''.'') (dig 1 None)), WordB]"

definition iso_date_re :: re where
  "iso_date_re = seqs [WordB, dig 4 (Some 4), lit ''-'', dig 2 (Some 2), lit ''-'', dig 2 (Some 2),
     opt (seqs [Chr (\<lambda>c. c = CHR ''T'' \<or> c = CHR '' ''), dig 2 (Some 2), lit '':'', dig 2 (Some 2),
       opt (Seq (lit '':'') (dig 2 (Some 2)))]), WordB]"

definition dotted_date_re :: re where
  "dotted_date_re = seqs [WordB, dig 1 (Some 2), lit ''.'', dig 1 (Some 2), opt (Seq (lit ''.'') (dig 1 (Some 4))), WordB]"

definition hex_run :: re where
  "hex_run = Rep 7 (Some 40) (Chr is_lower_hex)"

definition hex_hash_re :: re where
  "hex_hash_re = seqs [WordB, hex_run, WordB]"

definition noise_words_re :: re where
  "noise_words_re = seqs [WordB, lits [''final'', ''release'', ''tag'', ''starego'', ''nowy'', ''nowa'', ''nowe'',
     ''wydanie'', ''wydania''], WordB]"

definition noise_suffix_re :: re where
  "noise_suffix_re = seqs [WordB, lits [''backup'', ''plus'', ''main'', ''branch''], WordB]"

definition kv_assign_re :: re where
  "kv_assign_re = seqs [WordB, Chr (\<lambda>c. is_lower_letter c \<or> c = CHR ''_''),
     Rep 1 (Some 30) (Chr (\<lambda>c. is_lower_letter c \<or> is_digit c \<or> c = CHR ''_'')), lit ''='', hex_run, WordB]"

definition is_separator :: "char \<Rightarrow> bool" where
  "is_separator c = (is_space c \<or> c \<in> set ''(),=:/|+'')"

definition separators_re :: re where
  "separators_re = Rep 1 None (Chr is_separator)"

definition entity_root :: "string \<Rightarrow> string" where
  "entity_root subject =
     (let raw = py_lower (py_strip subject) in
      if raw = [] then []
      else
        let raw = re_sub_start transport_prefix_re [] raw;
            raw = re_sub version_re '' '' raw;
            raw = re_sub iso_date_re '' '' raw;
            raw = re_sub dotted_date_re '' '' raw;
            raw = re_sub noise_words_re '' '' raw;
            raw = re_sub noise_suffix_re '' '' raw;
            raw = re_sub kv_assign_re '' '' raw;
            raw = re_sub hex_hash_re '' '' raw;
            raw = re_sub separators_re '' '' raw
        in py_strip raw)"

definition record_slot :: "render_env \<Rightarrow> meta \<Rightarrow> string \<times> string" where
  "record_slot E r =
     (let p = py_lower (py_strip (py_str (r_repr E) (dget_default r ''predicate'' (VStr []))));
          st = get2 r ''source_type'' ''provenance'';
          st = (if st = VNone then VStr [] else st)
      in (if p = [] then ''stated'' else p, py_lower (py_strip (str_or_empty E st))))"

section \<open>Words, similarity, cost\<close>

text \<open>\<open>[a-z0-9\<close> and the nine Polish letters \<open>]{2,}\<close>; each of these letters is two bytes.\<close>

definition polish_letters :: "(nat \<times> nat) list" where
  "polish_letters = [(196, 133), (196, 135), (196, 153), (197, 130), (197, 132), (195, 179), (197, 155), (197, 186), (197, 188)]"

definition word_token_re :: re where
  "word_token_re = Rep 2 None (foldr Alt
     (map (\<lambda>(a, b). Seq (Chr (\<lambda>c. of_char c = a)) (Chr (\<lambda>c. of_char c = b))) polish_letters)
     (Chr (\<lambda>c. is_lower_letter c \<or> is_digit c)))"

fun count_words :: "string list \<Rightarrow> (string, nat) dict \<Rightarrow> (string, nat) dict" where
  "count_words [] d = d"
| "count_words (w # ws) d = count_words ws (dset w (dget_default d w 0 + 1) d)"

definition record_text_tokens :: "render_env \<Rightarrow> meta \<Rightarrow> (string, nat) dict" where
  "record_text_tokens E r =
     (let text = py_lower (str_or_empty E (get2 r ''subject'' ''key'') @ '' '' @ str_or_empty E (get2 r ''object'' ''value''));
          toks = re_findall word_token_re text
      in count_words (map (\<lambda>t. if r_stem E t = [] then t else r_stem E t) toks) [])"

definition bag_cosine :: "(rat \<Rightarrow> rat) \<Rightarrow> (string, nat) dict \<Rightarrow> (string, nat) dict \<Rightarrow> rat" where
  "bag_cosine sq a b =
     (if a = [] \<or> b = [] then 0
      else
        let dot = (\<Sum>(t, n) \<leftarrow> a. case dget b t of None \<Rightarrow> 0 | Some m \<Rightarrow> of_nat (n * m));
            na = sq (of_nat (\<Sum>(t, n) \<leftarrow> a. n * n));
            nb = sq (of_nat (\<Sum>(t, n) \<leftarrow> b. n * n))
        in if na \<le> 0 \<or> nb \<le> 0 then 0 else dot / (na * nb))"

definition estimate_tokens :: "render_env \<Rightarrow> meta \<Rightarrow> int" where
  "estimate_tokens E r =
     (let s_len = py_len (str_or_empty E (get2 r ''subject'' ''key''));
          o_len = min (py_len (str_or_empty E (get2 r ''object'' ''value''))) 1200
      in max 1 (\<lceil>(of_nat (s_len + o_len + 5) :: rat) / (7 / 2)\<rceil> + 1))"

lemma estimate_tokens_pos: "1 \<le> estimate_tokens E r"
  by (simp add: estimate_tokens_def Let_def)

section \<open>Properties\<close>

lemma spaced_tl: "spaced p c (x # t) \<Longrightarrow> spaced p c t"
  by (cases t) (auto simp: spaced_def)

lemma spaced_dropWhile: "spaced p c t \<Longrightarrow> spaced p c (dropWhile q t)"
  by (induction t) (auto dest: spaced_tl)

lemma spaced_rev: "spaced p c (rev t) = spaced p c t"
proof -
  have "(\<lambda>x y. \<not> (y = c \<and> x = c)) = (\<lambda>x y. \<not> (x = c \<and> y = c))" by auto
  then show ?thesis unfolding spaced_def successively_rev set_rev by (simp only:)
qed

lemma spaced_py_strip: "spaced p c t \<Longrightarrow> spaced p c (py_strip t)"
  unfolding py_strip_def by (subst spaced_rev) (intro spaced_dropWhile iffD2 [OF spaced_rev])

lemma py_strip_ends:
  "py_strip t \<noteq> [] \<Longrightarrow> \<not> is_space (hd (py_strip t)) \<and> \<not> is_space (last (py_strip t))"
proof -
  assume ne: "py_strip t \<noteq> []"
  let ?u = "dropWhile is_space t"
  let ?w = "dropWhile is_space (rev ?u)"
  from ne have w: "?w \<noteq> []" by (simp add: py_strip_def)
  obtain v where v: "rev ?u = v @ ?w" by (metis takeWhile_dropWhile_id)
  then have u: "?u = rev ?w @ rev v" by (metis rev_append rev_rev_ident)
  then have "hd ?u = hd (rev ?w)" using w by (metis hd_append2 rev_is_Nil_conv)
  moreover have "?u \<noteq> []" using w by (cases "?u = []") simp_all
  ultimately have "\<not> is_space (hd (rev ?w))" using hd_dropWhile [of is_space t] by simp
  moreover have "\<not> is_space (last (rev ?w))" using w hd_dropWhile [of is_space "rev ?u"] by (simp add: last_rev)
  ultimately show ?thesis by (simp add: py_strip_def)
qed

text \<open>
  The root of an entity is canonical in its separators: none but the blank is left, no two blanks
  follow each other, and none is at either end.
\<close>

theorem entity_root_is_spaced:
  "spaced is_separator CHR '' '' (entity_root s)
   \<and> (entity_root s = [] \<or> hd (entity_root s) \<noteq> CHR '' '' \<and> last (entity_root s) \<noteq> CHR '' '')"
proof (cases "py_lower (py_strip s) = []")
  case True
  then show ?thesis by (simp add: entity_root_def spaced_def)
next
  case False
  then obtain t where t: "entity_root s = py_strip (re_sub separators_re '' '' t)"
    unfolding entity_root_def Let_def by (simp only: if_False)
  have "is_separator CHR '' ''" by (simp add: is_separator_def is_space_def)
  then have "spaced is_separator CHR '' '' (re_sub separators_re '' '' t)"
    unfolding separators_re_def by (rule re_sub_class_spaced)
  moreover have "is_space CHR '' ''" by (simp add: is_space_def)
  ultimately show ?thesis
    using py_strip_ends [of "re_sub separators_re '' '' t"] by (auto simp: t spaced_py_strip)
qed

text \<open>
  Prefix, version, date, hash and noise do not matter for the root, but a date with its time in ISO
  notation does: the text is in lower case when the pattern asks for the capital T, so it stays.
\<close>

theorem entity_root_examples:
  "entity_root ''hermes:memory_md:ATLAS v2.0.1 release'' = ''atlas''
   \<and> entity_root ''kv:Atlas main=0873d87'' = ''atlas''
   \<and> entity_root ''atlas (2024-05-01)'' = ''atlas''
   \<and> entity_root ''atlas 2024-05-01 10:30'' = ''atlas''
   \<and> entity_root ''atlas 2024-05-01T10:30'' = ''atlas 2024-05-01t10 30''"
  by code_simp

end
