(* ===== verification/Dedup.thy ===== *)
theory Dedup
  imports RecordText "HOL-Library.Product_Lexorder"
begin

text \<open>
  \<open>knapsack_semantic_dedup\<close> of \<open>cognitive/retrieval/render.py\<close>: records that state the same fact are
  joined in a union-find forest with path halving, and of every group the freshest record is kept.
  The search for a root is a loop over the forest, so it is a partial function; that it ends is proved
  from the invariant that parents never point upwards. \<open>None\<close> is an exception of \<open>float\<close>.
\<close>

section \<open>Union-find\<close>

partial_function (option) uf_find :: "nat list \<Rightarrow> nat \<Rightarrow> (nat list \<times> nat) option" where
  "uf_find ps i =
     (if ps ! i \<noteq> i then
        let ps' = ps[i := ps ! (ps ! i)] in uf_find ps' (ps' ! i)
      else Some (ps, i))"

declare uf_find.simps [code]

definition uf_union :: "nat list \<Rightarrow> nat \<Rightarrow> nat \<Rightarrow> nat list option" where
  "uf_union ps i j =
     (case uf_find ps i of None \<Rightarrow> None
      | Some (ps1, ri) \<Rightarrow>
          (case uf_find ps1 j of None \<Rightarrow> None
           | Some (ps2, rj) \<Rightarrow> Some (if ri \<noteq> rj then ps2[max ri rj := min ri rj] else ps2)))"

section \<open>Which records state the same fact\<close>

definition norm_subject :: "render_env \<Rightarrow> meta \<Rightarrow> string" where
  "norm_subject E r = py_lower (py_strip (str_or_empty E (get2 r ''subject'' ''key'')))"

definition root_or_subject :: "string \<Rightarrow> string" where
  "root_or_subject s = (if entity_root s \<noteq> [] then entity_root s else s)"

definition same_subject :: "string \<Rightarrow> string \<Rightarrow> bool" where
  "same_subject si sj =
     (si = sj \<or> (6 \<le> py_len si \<and> starts_with sj si) \<or> (6 \<le> py_len sj \<and> starts_with si sj))"

definition same_fact :: "render_env \<Rightarrow> rat \<Rightarrow> meta list \<Rightarrow> nat \<Rightarrow> nat \<Rightarrow> bool" where
  "same_fact E sim docs i j =
     (let token_bags = map (record_text_tokens E) docs;
          subjects = map (norm_subject E) docs;
          roots = map root_or_subject subjects;
          slots = map (record_slot E) docs;
          si = subjects ! i; sj = subjects ! j; ri = roots ! i; rj = roots ! j
      in if same_subject si sj \<and> sim \<le> bag_cosine (r_sqrt E) (token_bags ! i) (token_bags ! j) then True
         else si \<noteq> sj \<and> ri \<noteq> [] \<and> rj \<noteq> [] \<and> ri = rj \<and> slots ! i = slots ! j)"

definition pairs_below :: "nat \<Rightarrow> (nat \<times> nat) list" where
  "pairs_below n = concat (map (\<lambda>i. map (Pair i) [Suc i..<n]) [0..<n])"

fun union_loop :: "(nat \<Rightarrow> nat \<Rightarrow> bool) \<Rightarrow> (nat \<times> nat) list \<Rightarrow> nat list \<Rightarrow> nat list option" where
  "union_loop P [] ps = Some ps"
| "union_loop P ((i, j) # ijs) ps =
     (if P i j then case uf_union ps i j of None \<Rightarrow> None | Some ps' \<Rightarrow> union_loop P ijs ps'
      else union_loop P ijs ps)"

fun group_loop :: "nat list \<Rightarrow> nat list \<Rightarrow> (nat, nat list) dict \<Rightarrow> (nat, nat list) dict option" where
  "group_loop [] ps groups = Some groups"
| "group_loop (i # is) ps groups =
     (case uf_find ps i of None \<Rightarrow> None
      | Some (ps', r) \<Rightarrow> group_loop is ps' (dset r (dget_default groups r [] @ [i]) groups))"

section \<open>The freshest record of a group\<close>

text \<open>\<open>float(r.get(k, d) or 0.0)\<close>.\<close>

definition float_field :: "render_env \<Rightarrow> meta \<Rightarrow> string \<Rightarrow> rat \<Rightarrow> rat option" where
  "float_field E r k d = to_float (r_float E) (py_or (dget_default r k (VFloat d)) (VFloat 0))"

definition freshness_key :: "render_env \<Rightarrow> meta \<Rightarrow> (rat \<times> rat) option" where
  "freshness_key E r =
     (case (float_field E r ''confidence'' 1, float_field E r ''timestamp'' 0) of
        (Some conf, Some ts) \<Rightarrow>
          (let ts_seconds = (if 10 ^ 12 < ts then ts / 1000 else ts);
               age_days = (if 0 < ts_seconds then max 0 ((r_now E - ts_seconds) / 86400) else 0);
               decay = r_exp E (- (35 / 1000) * age_days)
           in Some (conf * decay, ts))
      | _ \<Rightarrow> None)"

text \<open>\<open>max(xs, key=k)\<close>: the first of the greatest.\<close>

fun max_by :: "('a \<Rightarrow> 'b::linorder) \<Rightarrow> 'a \<Rightarrow> 'a list \<Rightarrow> 'a" where
  "max_by k b [] = b"
| "max_by k b (x # xs) = max_by k (if k b < k x then x else b) xs"

fun those_list :: "'a option list \<Rightarrow> 'a list option" where
  "those_list [] = Some []"
| "those_list (None # xs) = None"
| "those_list (Some x # xs) = map_option (Cons x) (those_list xs)"

definition group_dropped :: "render_env \<Rightarrow> meta list \<Rightarrow> nat list \<Rightarrow> nat list option" where
  "group_dropped E docs members =
     (if length members < 2 then Some []
      else case those_list (map (\<lambda>i. freshness_key E (docs ! i)) members) of
          None \<Rightarrow> None
        | Some _ \<Rightarrow>
            (let canonical = max_by (\<lambda>i. the (freshness_key E (docs ! i))) (hd members) (tl members)
             in Some (filter (\<lambda>i. i \<noteq> canonical) members)))"

definition knapsack_semantic_dedup :: "render_env \<Rightarrow> rat option \<Rightarrow> meta list \<Rightarrow> meta list option" where
  "knapsack_semantic_dedup E dedup_sim docs =
     (let sim = (case dedup_sim of None \<Rightarrow> r_dedup_sim E | Some s \<Rightarrow> s); n = length docs in
      if sim \<le> 0 \<or> 1 \<le> sim \<or> n < 2 then Some docs
      else case union_loop (same_fact E sim docs) (pairs_below n) [0..<n] of
          None \<Rightarrow> None
        | Some ps \<Rightarrow>
            (case group_loop [0..<n] ps [] of
               None \<Rightarrow> None
             | Some groups \<Rightarrow>
                 if length groups = n then Some docs
                 else map_option (\<lambda>ds. map (\<lambda>i. docs ! i) (filter (\<lambda>i. i \<notin> set (concat ds)) [0..<n]))
                        (those_list (map (group_dropped E docs) (map snd groups)))))"

section \<open>The forest\<close>

text \<open>Parents never point upwards; then following them ends in the root of the tree.\<close>

definition uf_inv :: "nat \<Rightarrow> nat list \<Rightarrow> bool" where
  "uf_inv n ps \<longleftrightarrow> length ps = n \<and> (\<forall>i < n. ps ! i \<le> i)"

function uf_root :: "nat list \<Rightarrow> nat \<Rightarrow> nat" where
  "uf_root ps i = (if i < length ps \<and> ps ! i < i then uf_root ps (ps ! i) else i)"
  by pat_completeness auto
termination by (relation "measure snd") auto

declare uf_root.simps [simp del]

lemma uf_le: "uf_inv n ps \<Longrightarrow> i < n \<Longrightarrow> ps ! i \<le> i \<and> ps ! (ps ! i) \<le> ps ! i"
  unfolding uf_inv_def by (meson le_less_trans)

lemma uf_root_step: "uf_inv n ps \<Longrightarrow> i < n \<Longrightarrow> uf_root ps (ps ! i) = uf_root ps i"
  by (metis le_neq_implies_less uf_inv_def uf_root.simps)

lemma uf_root_fix: "uf_inv n ps \<Longrightarrow> i < n \<Longrightarrow> ps ! i = i \<Longrightarrow> uf_root ps i = i"
  by (subst uf_root.simps) simp

lemma uf_root_props:
  assumes "uf_inv n ps"
  shows "i < n \<Longrightarrow> uf_root ps i \<le> i \<and> ps ! uf_root ps i = uf_root ps i"
proof (induction i rule: less_induct)
  case (less i)
  have le: "ps ! i \<le> i" using assms less.prems by (simp add: uf_inv_def)
  show ?case
  proof (cases "ps ! i = i")
    case True
    then show ?thesis using uf_root_fix [OF assms less.prems] by simp
  next
    case False
    with le less uf_root_step [OF assms less.prems] show ?thesis
      by (metis le_neq_implies_less less_le_trans order_less_imp_le le_trans)
  qed
qed

lemma uf_root_idem: "uf_inv n ps \<Longrightarrow> i < n \<Longrightarrow> uf_root ps (uf_root ps i) = uf_root ps i"
  using uf_root_props uf_root_fix by (metis le_less_trans)

text \<open>Halving a path changes no root, linking a root under a smaller one joins two trees.\<close>

lemma uf_halve:
  assumes "uf_inv n ps" "i < n"
  shows "uf_inv n (ps[i := ps ! (ps ! i)])"
    and "j < n \<Longrightarrow> uf_root (ps[i := ps ! (ps ! i)]) j = uf_root ps j"
proof -
  have le: "ps ! (ps ! i) \<le> ps ! i" "ps ! i \<le> i" using uf_le [OF assms] by simp_all
  let ?q = "ps[i := ps ! (ps ! i)]"
  from assms le order_trans [OF le] show inv: "uf_inv n ?q" by (auto simp: uf_inv_def nth_list_update)
  show "j < n \<Longrightarrow> uf_root ?q j = uf_root ps j"
  proof (induction j rule: less_induct)
    case (less j)
    show ?case
    proof (cases "?q ! j = j")
      case True
      have "ps ! j = j"
      proof (cases "j = i")
        case True
        with \<open>?q ! j = j\<close> le assms show ?thesis by (simp add: uf_inv_def)
      next
        case False
        with \<open>?q ! j = j\<close> show ?thesis by simp
      qed
      with True less.prems show ?thesis by (simp add: uf_root_fix [OF inv] uf_root_fix [OF assms(1)])
    next
      case False
      with inv less.prems have lt: "?q ! j < j" by (simp add: uf_inv_def le_neq_implies_less)
      then have "uf_root ?q j = uf_root ps (?q ! j)"
        using less uf_root_step [OF inv less.prems] by simp
      also have "\<dots> = uf_root ps j"
      proof (cases "j = i")
        case True
        have "ps ! i < n" using le assms by simp
        then have "uf_root ps (ps ! (ps ! i)) = uf_root ps i"
          using uf_root_step [OF assms(1)] assms(2) by simp
        with True assms show ?thesis by (simp add: uf_inv_def)
      next
        case False
        then show ?thesis using uf_root_step [OF assms(1) less.prems] by simp
      qed
      finally show ?thesis .
    qed
  qed
qed

lemma uf_link:
  assumes "uf_inv n ps" "b < n" "a < b" "ps ! a = a" "ps ! b = b"
  shows "uf_inv n (ps[b := a])"
    and "j < n \<Longrightarrow> uf_root (ps[b := a]) j = (if uf_root ps j = b then a else uf_root ps j)"
proof -
  let ?q = "ps[b := a]"
  from assms show inv: "uf_inv n ?q" by (auto simp: uf_inv_def nth_list_update)
  have a: "a < n" using assms by simp
  show "j < n \<Longrightarrow> uf_root ?q j = (if uf_root ps j = b then a else uf_root ps j)"
  proof (induction j rule: less_induct)
    case (less j)
    show ?case
    proof (cases "j = b")
      case True
      have "?q ! b = a" using assms by (simp add: uf_inv_def)
      then have "uf_root ?q b = uf_root ?q a" using uf_root_step [OF inv assms(2)] by simp
      moreover have "?q ! a = a" using assms by simp
      ultimately show ?thesis
        using True uf_root_fix [OF inv a] uf_root_fix [OF assms(1,2,5)] by simp
    next
      case False
      then have q: "?q ! j = ps ! j" by simp
      show ?thesis
      proof (cases "ps ! j = j")
        case True
        with False q less.prems show ?thesis
          by (simp add: uf_root_fix [OF inv] uf_root_fix [OF assms(1)])
      next
        case False
        with assms(1) less.prems have "ps ! j < j" by (simp add: uf_inv_def le_neq_implies_less)
        with less q show ?thesis
          using uf_root_step [OF inv less.prems] uf_root_step [OF assms(1) less.prems]
          by (metis order_less_trans)
      qed
    qed
  qed
qed

lemma uf_find_root:
  assumes "uf_inv n ps" "i < n"
  shows "\<exists>ps'. uf_find ps i = Some (ps', uf_root ps i) \<and> uf_inv n ps'
    \<and> (\<forall>j < n. uf_root ps' j = uf_root ps j)"
  using assms
proof (induction i arbitrary: ps rule: less_induct)
  case (less i)
  show ?case
  proof (cases "ps ! i = i")
    case True
    with less.prems show ?thesis by (subst uf_find.simps) (simp add: uf_root_fix)
  next
    case False
    let ?q = "ps[i := ps ! (ps ! i)]"
    from uf_le [OF less.prems] have le: "ps ! i \<le> i" "ps ! (ps ! i) \<le> ps ! i" by simp_all
    with False have lt: "ps ! (ps ! i) < i" by simp
    have q: "?q ! i = ps ! (ps ! i)" using less.prems by (simp add: uf_inv_def)
    note halve = uf_halve [OF less.prems]
    from less.IH [OF lt halve(1)] lt less.prems(2) obtain ps' where
      p: "uf_find ?q (ps ! (ps ! i)) = Some (ps', uf_root ?q (ps ! (ps ! i)))" "uf_inv n ps'"
        "\<forall>j < n. uf_root ps' j = uf_root ?q j" by auto
    have "uf_root ?q (ps ! (ps ! i)) = uf_root ps i"
      using halve(2) lt less.prems le uf_root_step [OF less.prems(1)] by (metis less_trans le_less_trans)
    with p q False halve(2) show ?thesis by (subst uf_find.simps) (simp add: Let_def)
  qed
qed

lemma uf_union_root:
  assumes "uf_inv n ps" "i < n" "j < n"
  shows "\<exists>ps'. uf_union ps i j = Some ps' \<and> uf_inv n ps' \<and>
    (\<forall>k < n. uf_root ps' k = (if uf_root ps k = max (uf_root ps i) (uf_root ps j)
       then min (uf_root ps i) (uf_root ps j) else uf_root ps k))"
proof -
  from uf_find_root [OF assms(1,2)] obtain p1 where
    p1: "uf_find ps i = Some (p1, uf_root ps i)" "uf_inv n p1" "\<forall>k < n. uf_root p1 k = uf_root ps k" by blast
  from uf_find_root [OF p1(2) assms(3)] p1(3) assms(3) obtain p2 where
    p2: "uf_find p1 j = Some (p2, uf_root ps j)" "uf_inv n p2" "\<forall>k < n. uf_root p2 k = uf_root ps k" by auto
  let ?i = "uf_root ps i" and ?j = "uf_root ps j"
  show ?thesis
  proof (cases "?i = ?j")
    case True
    with p1 p2 show ?thesis by (auto simp: uf_union_def)
  next
    case False
    have fx: "p2 ! r = r" "r < n" if "r = ?i \<or> r = ?j" for r
    proof -
      have "?i \<le> i" "?j \<le> j" using uf_root_props [OF assms(1)] assms(2,3) by simp_all
      with that assms(2,3) show "r < n" by auto
      have "uf_root ps r = r" using that uf_root_idem [OF assms(1)] assms(2,3) by auto
      with p2(3) \<open>r < n\<close> have "uf_root p2 r = r" by simp
      then show "p2 ! r = r" using uf_root_props [OF p2(2) \<open>r < n\<close>] by simp
    qed
    let ?a = "min ?i ?j" and ?b = "max ?i ?j"
    have ab: "?a < ?b" "?a = ?i \<or> ?a = ?j" "?b = ?i \<or> ?b = ?j" using False by auto
    note link = uf_link [OF p2(2) fx(2) [OF ab(3)] ab(1) fx(1) [OF ab(2)] fx(1) [OF ab(3)]]
    have "uf_union ps i j = Some (p2[?b := ?a])" using p1(1) p2(1) False by (simp add: uf_union_def)
    with link p2(3) show ?thesis by simp
  qed
qed

text \<open>The trees are the classes of the pairs joined so far.\<close>

definition classes :: "nat \<Rightarrow> (nat \<times> nat) set \<Rightarrow> nat list \<Rightarrow> bool" where
  "classes n R ps \<longleftrightarrow> uf_inv n ps \<and> R \<subseteq> {..<n} \<times> {..<n} \<and> sym R
     \<and> (\<forall>k < n. \<forall>l < n. uf_root ps k = uf_root ps l \<longleftrightarrow> (k, l) \<in> R\<^sup>*)"

lemma classes_init: "classes n {} [0..<n]"
proof -
  have "uf_root [0..<n] k = k" if "k < n" for k using that by (subst uf_root.simps) simp
  then show ?thesis by (simp add: classes_def uf_inv_def sym_def)
qed

lemma classes_union:
  assumes c: "classes n R ps" and ij: "i < n" "j < n"
  shows "\<exists>ps'. uf_union ps i j = Some ps' \<and> classes n (insert (i, j) (insert (j, i) R)) ps'"
proof -
  let ?R = "insert (i, j) (insert (j, i) R)"
  have inv: "uf_inv n ps" using c by (simp add: classes_def)
  from uf_union_root [OF inv ij] obtain ps' where ps': "uf_union ps i j = Some ps'" "uf_inv n ps'"
    and root: "\<And>k. k < n \<Longrightarrow> uf_root ps' k = (if uf_root ps k = max (uf_root ps i) (uf_root ps j)
       then min (uf_root ps i) (uf_root ps j) else uf_root ps k)" by blast
  have sub: "?R \<subseteq> {..<n} \<times> {..<n}" "sym ?R" "R \<subseteq> ?R"
    using c ij by (auto simp: classes_def sym_def)
  have old: "uf_root ps k = uf_root ps l \<longleftrightarrow> (k, l) \<in> R\<^sup>*" if "k < n" "l < n" for k l
    using c that by (simp add: classes_def)
  have mono: "(k, l) \<in> R\<^sup>* \<Longrightarrow> (k, l) \<in> ?R\<^sup>*" for k l using rtrancl_mono [OF sub(3)] by blast
  have new: "uf_root ps' k = uf_root ps' l \<longleftrightarrow> (k, l) \<in> ?R\<^sup>*" if kl: "k < n" "l < n" for k l
  proof
    assume "uf_root ps' k = uf_root ps' l"
    with root [OF kl(1)] root [OF kl(2)] consider "uf_root ps k = uf_root ps l"
      | "uf_root ps k = uf_root ps i" "uf_root ps l = uf_root ps j"
      | "uf_root ps k = uf_root ps j" "uf_root ps l = uf_root ps i"
      by (fastforce simp: max_def min_def split: if_splits)
    then show "(k, l) \<in> ?R\<^sup>*"
    proof cases
      case 1
      with old kl mono show ?thesis by blast
    next
      case 2
      with old kl ij have "(k, i) \<in> R\<^sup>*" "(j, l) \<in> R\<^sup>*" by metis+
      then show ?thesis using mono by (meson insertI1 r_into_rtrancl rtrancl_trans)
    next
      case 3
      with old kl ij have "(k, j) \<in> R\<^sup>*" "(i, l) \<in> R\<^sup>*" by metis+
      then show ?thesis using mono by (meson insertI1 insertI2 r_into_rtrancl rtrancl_trans)
    qed
  next
    assume "(k, l) \<in> ?R\<^sup>*"
    then have "l < n \<and> uf_root ps' k = uf_root ps' l"
    proof (induction rule: rtrancl_induct)
      case (step l m)
      then have "l < n" "m < n" using sub by blast+
      have "uf_root ps' l = uf_root ps' m"
      proof (cases "(l, m) \<in> R")
        case True
        then have "uf_root ps l = uf_root ps m" using old [OF \<open>l < n\<close> \<open>m < n\<close>] by blast
        then show ?thesis using root \<open>l < n\<close> \<open>m < n\<close> by simp
      next
        case False
        with step have "l = i \<and> m = j \<or> l = j \<and> m = i" by blast
        then show ?thesis using root ij by (auto simp: max_def min_def)
      qed
      with step \<open>m < n\<close> show ?case by simp
    qed (use kl in simp)
    then show "uf_root ps' k = uf_root ps' l" by simp
  qed
  show ?thesis using ps' sub new by (auto simp: classes_def)
qed

lemma union_loop_classes:
  assumes "classes n R ps" "\<forall>(i, j) \<in> set ijs. i < n \<and> j < n"
  shows "\<exists>ps'. union_loop P ijs ps = Some ps' \<and>
    classes n (R \<union> {(i, j). (i, j) \<in> set ijs \<and> P i j} \<union> {(j, i). (i, j) \<in> set ijs \<and> P i j}) ps'"
  using assms
proof (induction P ijs ps arbitrary: R rule: union_loop.induct)
  case (2 P i j ijs ps)
  show ?case
  proof (cases "P i j")
    case True
    from classes_union [OF 2(3), of i j] 2(4) obtain ps' where
      u: "uf_union ps i j = Some ps'" "classes n (insert (i, j) (insert (j, i) R)) ps'" by auto
    from 2(1) [OF True u(1) u(2)] 2(4) obtain q where q: "union_loop P ijs ps' = Some q"
      "classes n (insert (i, j) (insert (j, i) R) \<union> {(i, j). (i, j) \<in> set ijs \<and> P i j}
         \<union> {(j, i). (i, j) \<in> set ijs \<and> P i j}) q" by auto
    have "insert (i, j) (insert (j, i) R) \<union> {(i, j). (i, j) \<in> set ijs \<and> P i j} \<union> {(j, i). (i, j) \<in> set ijs \<and> P i j}
      = R \<union> {(i', j'). (i', j') \<in> set ((i, j) # ijs) \<and> P i' j'} \<union> {(j', i'). (i', j') \<in> set ((i, j) # ijs) \<and> P i' j'}"
      using True by auto
    with q u True show ?thesis by simp
  next
    case False
    from 2(2) [OF False 2(3)] 2(4) obtain q where q: "union_loop P ijs ps = Some q"
      "classes n (R \<union> {(i, j). (i, j) \<in> set ijs \<and> P i j} \<union> {(j, i). (i, j) \<in> set ijs \<and> P i j}) q" by auto
    have "{(i', j'). (i', j') \<in> set ((i, j) # ijs) \<and> P i' j'} = {(i', j'). (i', j') \<in> set ijs \<and> P i' j'}"
      "{(j', i'). (i', j') \<in> set ((i, j) # ijs) \<and> P i' j'} = {(j', i'). (i', j') \<in> set ijs \<and> P i' j'}"
      using False by auto
    with q False show ?thesis by (simp only: union_loop.simps if_False) blast
  qed
qed simp

lemma set_pairs_below: "set (pairs_below n) = {(i, j). i < j \<and> j < n}"
  by (force simp: pairs_below_def)

text \<open>The relation whose classes are the groups.\<close>

definition fact_pairs :: "render_env \<Rightarrow> rat \<Rightarrow> meta list \<Rightarrow> (nat \<times> nat) set" where
  "fact_pairs E sim docs = {(i, j). i < j \<and> j < length docs \<and> same_fact E sim docs i j}"

definition same_group :: "render_env \<Rightarrow> rat \<Rightarrow> meta list \<Rightarrow> nat \<Rightarrow> nat \<Rightarrow> bool" where
  "same_group E sim docs i j \<longleftrightarrow> (i, j) \<in> (fact_pairs E sim docs \<union> (fact_pairs E sim docs)\<inverse>)\<^sup>*"

lemma union_loop_groups:
  "\<exists>ps. union_loop (same_fact E sim docs) (pairs_below (length docs)) [0..<length docs] = Some ps
     \<and> uf_inv (length docs) ps
     \<and> (\<forall>k < length docs. \<forall>l < length docs. uf_root ps k = uf_root ps l \<longleftrightarrow> same_group E sim docs k l)"
proof -
  let ?n = "length docs" and ?P = "same_fact E sim docs"
  have "\<forall>(i, j) \<in> set (pairs_below ?n). i < ?n \<and> j < ?n" by (auto simp: set_pairs_below)
  from union_loop_classes [OF classes_init this, of ?P]
  obtain ps where ps: "union_loop ?P (pairs_below ?n) [0..<?n] = Some ps"
    "classes ?n ({} \<union> {(i, j). (i, j) \<in> set (pairs_below ?n) \<and> ?P i j} \<union> {(j, i). (i, j) \<in> set (pairs_below ?n) \<and> ?P i j}) ps"
    by blast
  have "{} \<union> {(i, j). (i, j) \<in> set (pairs_below ?n) \<and> ?P i j} \<union> {(j, i). (i, j) \<in> set (pairs_below ?n) \<and> ?P i j}
      = fact_pairs E sim docs \<union> (fact_pairs E sim docs)\<inverse>"
    by (auto simp: fact_pairs_def set_pairs_below)
  with ps show ?thesis by (auto simp: classes_def same_group_def)
qed

section \<open>The groups\<close>

lemma group_loop_spec:
  assumes "uf_inv n ps" "\<forall>i \<in> set is. i < n" "\<forall>j < n. uf_root ps j = f j"
  shows "\<exists>g'. group_loop is ps g = Some g' \<and>
    (\<forall>r. dget g' r = (let m = filter (\<lambda>i. f i = r) is in if m = [] then dget g r else Some (dget_default g r [] @ m)))
    \<and> (wf_dict g \<longrightarrow> wf_dict g')"
  using assms
proof (induction "is" arbitrary: ps g)
  case (Cons i "is")
  from Cons.prems uf_find_root [OF Cons.prems(1), of i] obtain p where
    p: "uf_find ps i = Some (p, f i)" "uf_inv n p" "\<forall>j < n. uf_root p j = f j" by auto
  let ?g = "dset (f i) (dget_default g (f i) [] @ [i]) g"
  from Cons.IH [OF p(2) _ p(3), of ?g] Cons.prems(2) obtain g' where
    g': "group_loop is p ?g = Some g'" "\<And>r. dget g' r = (let m = filter (\<lambda>i. f i = r) is in
      if m = [] then dget ?g r else Some (dget_default ?g r [] @ m))" "wf_dict ?g \<longrightarrow> wf_dict g'" by auto
  have "dget g' r = (let m = filter (\<lambda>k. f k = r) (i # is) in
      if m = [] then dget g r else Some (dget_default g r [] @ m))" for r
    by (simp add: g'(2) Let_def dget_default_def)
  with g' p(1) show ?case by simp
qed simp

lemma group_loop_all:
  assumes "uf_inv n ps"
  shows "\<exists>g. group_loop [0..<n] ps [] = Some g \<and> wf_dict g \<and>
    (\<forall>r. dget g r = (let m = filter (\<lambda>i. uf_root ps i = r) [0..<n] in if m = [] then None else Some m))"
proof -
  have "\<forall>i \<in> set [0..<n]. i < n" "\<forall>j < n. uf_root ps j = uf_root ps j" by simp_all
  from group_loop_spec [OF assms this, of "[]"] obtain g where
    "group_loop [0..<n] ps [] = Some g" "wf_dict g"
    "\<forall>r. dget g r = (let m = filter (\<lambda>i. uf_root ps i = r) [0..<n] in
       if m = [] then dget [] r else Some (dget_default [] r [] @ m))" by auto
  then show ?thesis by (intro exI [of _ g]) (simp add: dget_default_def Let_def)
qed

lemma max_by_in: "max_by k b xs \<in> insert b (set xs)"
  by (induction k b xs rule: max_by.induct) auto

lemma max_by_ge: "y \<in> insert b (set xs) \<Longrightarrow> k y \<le> k (max_by k b xs)"
proof (induction k b xs arbitrary: y rule: max_by.induct)
  case (2 k b x xs)
  let ?b = "if k b < k x then x else b"
  have "k y \<le> k ?b \<or> y \<in> set xs" using 2(2) by auto
  moreover have "k ?b \<le> k (max_by k b (x # xs))" using 2(1) [of ?b] by simp
  moreover have "k y \<le> k (max_by k b (x # xs))" if "y \<in> set xs" using 2(1) [of y] that by simp
  ultimately show ?case by (meson order_trans)
qed simp

lemma those_list_Some: "\<forall>x \<in> set xs. x \<noteq> None \<Longrightarrow> those_list xs = Some (map the xs)"
  by (induction xs rule: those_list.induct) auto

definition canon :: "render_env \<Rightarrow> meta list \<Rightarrow> nat list \<Rightarrow> nat" where
  "canon E docs m = max_by (\<lambda>i. the (freshness_key E (docs ! i))) (hd m) (tl m)"

lemma canon_in: "m \<noteq> [] \<Longrightarrow> canon E docs m \<in> set m"
  using max_by_in [of _ "hd m" "tl m"] by (cases m) (auto simp: canon_def)

lemma canon_ge: "i \<in> set m \<Longrightarrow>
    the (freshness_key E (docs ! i)) \<le> the (freshness_key E (docs ! canon E docs m))"
  using max_by_ge [of i "hd m" "tl m" "\<lambda>i. the (freshness_key E (docs ! i))"] by (cases m) (auto simp: canon_def)

lemma group_dropped_spec:
  assumes "m \<noteq> []" "\<forall>i \<in> set m. freshness_key E (docs ! i) \<noteq> None"
  shows "group_dropped E docs m = Some (filter (\<lambda>i. i \<noteq> canon E docs m) m)"
proof (cases "length m < 2")
  case True
  with assms(1) obtain a where "m = [a]" by (cases m; cases "tl m") auto
  then show ?thesis by (simp add: group_dropped_def canon_def)
next
  case False
  with assms(2) show ?thesis by (simp add: group_dropped_def those_list_Some canon_def)
qed

lemma dropped_spec:
  assumes "\<And>r. dget g r = (let m = filter (\<lambda>i. f i = r) [0..<n] in if m = [] then None else Some m)"
    and "wf_dict g" and "\<forall>i < n. freshness_key E (docs ! i) \<noteq> None"
  shows "\<exists>ds. those_list (map (group_dropped E docs) (map snd g)) = Some ds
    \<and> (\<forall>i < n. i \<in> set (concat ds) \<longleftrightarrow> i \<noteq> canon E docs (filter (\<lambda>k. f k = f i) [0..<n]))"
proof -
  have ent: "m = filter (\<lambda>i. f i = r) [0..<n] \<and> m \<noteq> []" if "(r, m) \<in> set g" for r m
  proof -
    from assms(2) that have "dget g r = Some m" by (simp add: wf_dict_def)
    with assms(1) [of r] show ?thesis by (auto simp: Let_def split: if_splits)
  qed
  have d: "group_dropped E docs m = Some (filter (\<lambda>i. i \<noteq> canon E docs m) m)" if "m \<in> snd ` set g" for m
  proof -
    from that obtain r where r: "(r, m) \<in> set g" by auto
    from ent [OF r] have "m = filter (\<lambda>i. f i = r) [0..<n]" "m \<noteq> []" by blast+
    moreover from this(1) have "set m \<subseteq> {..<n}" by auto
    ultimately show ?thesis using assms(3) by (intro group_dropped_spec) auto
  qed
  let ?ds = "map (\<lambda>m. filter (\<lambda>i. i \<noteq> canon E docs m) m) (map snd g)"
  have "map (group_dropped E docs) (map snd g) = map Some ?ds" using d by simp
  then have "those_list (map (group_dropped E docs) (map snd g)) = Some ?ds"
    by (simp only:) (subst those_list_Some, simp_all add: comp_def)
  moreover have "i \<in> set (concat ?ds) \<longleftrightarrow> i \<noteq> canon E docs (filter (\<lambda>k. f k = f i) [0..<n])" if "i < n" for i
  proof
    assume "i \<in> set (concat ?ds)"
    then obtain r m where rm: "(r, m) \<in> set g" "i \<in> set m" "i \<noteq> canon E docs m" by auto
    with ent [OF rm(1)] show "i \<noteq> canon E docs (filter (\<lambda>k. f k = f i) [0..<n])" by auto
  next
    assume i: "i \<noteq> canon E docs (filter (\<lambda>k. f k = f i) [0..<n])"
    from that have ne: "i \<in> set (filter (\<lambda>k. f k = f i) [0..<n])" by simp
    then have "filter (\<lambda>k. f k = f i) [0..<n] \<noteq> []" by fastforce
    then have "dget g (f i) = Some (filter (\<lambda>k. f k = f i) [0..<n])" using assms(1) by (simp add: Let_def)
    then have e: "(f i, filter (\<lambda>k. f k = f i) [0..<n]) \<in> set g" by (rule map_of_SomeD)
    have "filter (\<lambda>j. j \<noteq> canon E docs (filter (\<lambda>k. f k = f i) [0..<n])) (filter (\<lambda>k. f k = f i) [0..<n])
        \<in> set ?ds"
      unfolding set_map image_image
      by (rule image_eqI [where x = "(f i, filter (\<lambda>k. f k = f i) [0..<n])", OF _ e]) (simp only: snd_conv)
    moreover have "i \<in> set (filter (\<lambda>j. j \<noteq> canon E docs (filter (\<lambda>k. f k = f i) [0..<n])) (filter (\<lambda>k. f k = f i) [0..<n]))"
      using i ne by simp
    ultimately show "i \<in> set (concat ?ds)" unfolding set_concat by blast
  qed
  ultimately show ?thesis by blast
qed

text \<open>When every index is the root of its own group nothing is dropped.\<close>

lemma groups_all_single:
  assumes "\<And>r. dget g r = (let m = filter (\<lambda>i. f i = r) [0..<n] in if m = [] then None else Some m)"
    and "wf_dict g" "length g = n" "i < n"
  shows "filter (\<lambda>k. f k = f i) [0..<n] = [i]"
proof -
  have keys: "set (dkeys g) = f ` {..<n}"
  proof (rule set_eqI)
    fix r
    have "r \<in> set (dkeys g) \<longleftrightarrow> dget g r \<noteq> None" using dget_None_iff [of g r] by auto
    also have "\<dots> \<longleftrightarrow> r \<in> f ` {..<n}" by (auto simp: assms(1) Let_def filter_empty_conv)
    finally show "r \<in> set (dkeys g) \<longleftrightarrow> r \<in> f ` {..<n}" .
  qed
  have "card (set (dkeys g)) = n"
    using assms(2,3) distinct_card [of "dkeys g"] by (simp add: wf_dict_def)
  with keys have "inj_on f {..<n}" by (intro eq_card_imp_inj_on) simp_all
  then have "f k = f i \<longleftrightarrow> k = i" if "k < n" for k using that assms(4) by (auto simp: inj_on_def)
  then have "filter (\<lambda>k. f k = f i) [0..<n] = filter (\<lambda>k. k = i) [0..<n]" by (intro filter_cong) auto
  also have "\<dots> = [i]"
    using assms(4) by (induction n) (auto simp: filter_empty_conv)
  finally show ?thesis .
qed

lemma dedup_keeps:
  assumes "0 < sim" "sim < 1" "\<forall>r \<in> set docs. freshness_key E r \<noteq> None"
  shows "\<exists>cf. knapsack_semantic_dedup E (Some sim) docs
      = Some (map ((!) docs) (filter (\<lambda>i. i = cf i) [0..<length docs]))
    \<and> (\<forall>i < length docs. cf i < length docs \<and> same_group E sim docs i (cf i)
      \<and> the (freshness_key E (docs ! i)) \<le> the (freshness_key E (docs ! cf i)))
    \<and> (\<forall>i < length docs. \<forall>k < length docs. same_group E sim docs i k \<longrightarrow> cf i = cf k)"
proof -
  let ?n = "length docs"
  from union_loop_groups [of E sim docs] obtain ps where ps: "union_loop (same_fact E sim docs) (pairs_below ?n) [0..<?n] = Some ps"
    "uf_inv ?n ps" and eq': "\<forall>k < ?n. \<forall>l < ?n. uf_root ps k = uf_root ps l \<longleftrightarrow> same_group E sim docs k l"
    by (elim exE conjE)
  then have eq: "\<And>k l. k < ?n \<Longrightarrow> l < ?n \<Longrightarrow> uf_root ps k = uf_root ps l \<longleftrightarrow> same_group E sim docs k l"
    by blast
  let ?f = "uf_root ps"
  from group_loop_all [OF ps(2)] obtain g where
    g: "group_loop [0..<?n] ps [] = Some g" and wf: "wf_dict g"
    and look': "\<forall>r. dget g r = (let m = filter (\<lambda>i. ?f i = r) [0..<?n] in if m = [] then None else Some m)"
    by (elim exE conjE)
  note look = spec [OF look']
  let ?m = "\<lambda>i. filter (\<lambda>k. ?f k = ?f i) [0..<?n]"
  let ?c = "\<lambda>i. canon E docs (?m i)"
  have fresh: "\<forall>i < ?n. freshness_key E (docs ! i) \<noteq> None" using assms(3) by simp
  have mem: "i \<in> set (?m i)" if "i < ?n" for i using that by simp
  have ne: "?m i \<noteq> []" if "i < ?n" for i using mem [OF that] by (metis empty_iff empty_set)
  have cm: "?c i \<in> set (?m i)" if "i < ?n" for i using canon_in [OF ne [OF that]] .
  have c1: "?c i < ?n \<and> same_group E sim docs i (?c i)
      \<and> the (freshness_key E (docs ! i)) \<le> the (freshness_key E (docs ! ?c i))" if i: "i < ?n" for i
    using cm [OF i] eq [of i "?c i"] i canon_ge [OF mem [OF i], of E docs] by auto
  have c2: "?c i = ?c k" if "i < ?n" "k < ?n" "same_group E sim docs i k" for i k
    using eq [OF that(1,2)] that(3) by simp
  have all: "map ((!) docs) [0..<?n] = docs" by (rule map_nth)
  have res: "knapsack_semantic_dedup E (Some sim) docs = Some (map ((!) docs) (filter (\<lambda>i. i = ?c i) [0..<?n]))"
  proof (cases "?n < 2")
    case True
    then have "i = ?c i" if "i < ?n" for i using c1 [OF that] that by linarith
    then have "filter (\<lambda>i. i = ?c i) [0..<?n] = [0..<?n]" by (intro filter_True) simp
    with True all show ?thesis by (simp add: knapsack_semantic_dedup_def)
  next
    case False
    show ?thesis
    proof (cases "length g = ?n")
      case True
      have "i = ?c i" if "i < ?n" for i
        using cm [OF that] groups_all_single [OF look wf True that] by simp
      then have "filter (\<lambda>i. i = ?c i) [0..<?n] = [0..<?n]" by (intro filter_True) simp
      with False True all assms(1,2) ps(1) g show ?thesis by (simp add: knapsack_semantic_dedup_def Let_def)
    next
      case 2: False
      from dropped_spec [OF look wf fresh] obtain ds where
        ds: "those_list (map (group_dropped E docs) (map snd g)) = Some ds"
        "\<And>i. i < ?n \<Longrightarrow> i \<in> set (concat ds) \<longleftrightarrow> i \<noteq> ?c i" by blast
      have "filter (\<lambda>i. i \<notin> set (concat ds)) [0..<?n] = filter (\<lambda>i. i = ?c i) [0..<?n]"
        by (intro filter_cong) (use ds(2) in auto)
      with False 2 assms(1,2) ps(1) g ds(1) show ?thesis
        by (simp only: knapsack_semantic_dedup_def Let_def option.case) simp
    qed
  qed
  show ?thesis
    by (intro exI [of _ ?c] conjI allI impI; (rule res c2 | rule c1 [THEN conjunct1] c1 [THEN conjunct2, THEN conjunct1]
        c1 [THEN conjunct2, THEN conjunct2]); assumption)
qed

section \<open>Property\<close>

text \<open>
  C27: If the threshold lies strictly between 0 and 1 and the confidences and time stamps of the records are numbers, deduplication
  returns, and what it returns is the input in its order less some records: of every class of records that the code links, directly or
  through others, exactly one is kept, and it is at least as fresh as every record of its class. Two records are linked if their
  subjects agree (are equal, or one of six characters or more begins the other) and the cosine of their words reaches the threshold,
  whatever their slots, which the comments of the code deny (\<open>slots_are_joined_by_their_text\<close>), or if different subjects have the same
  root and the slots are equal.
\<close>

theorem dedup_keeps_one_per_fact:
  assumes "0 < sim" "sim < 1" "\<forall>r \<in> set docs. freshness_key E r \<noteq> None"
  shows "\<exists>keep. knapsack_semantic_dedup E (Some sim) docs = Some (map ((!) docs) (filter keep [0..<length docs]))
    \<and> (\<forall>i < length docs. \<exists>!k. k < length docs \<and> keep k \<and> same_group E sim docs i k)
    \<and> (\<forall>i < length docs. \<forall>k < length docs. keep k \<and> same_group E sim docs i k \<longrightarrow>
        the (freshness_key E (docs ! i)) \<le> the (freshness_key E (docs ! k)))"
proof -
  from dedup_keeps [OF assms] obtain cf where
    res: "knapsack_semantic_dedup E (Some sim) docs = Some (map ((!) docs) (filter (\<lambda>i. i = cf i) [0..<length docs]))"
    and c1: "\<forall>i < length docs. cf i < length docs \<and> same_group E sim docs i (cf i)
      \<and> the (freshness_key E (docs ! i)) \<le> the (freshness_key E (docs ! cf i))"
    and c2: "\<forall>i < length docs. \<forall>k < length docs. same_group E sim docs i k \<longrightarrow> cf i = cf k" by (elim exE conjE)
  have "\<exists>!k. k < length docs \<and> k = cf k \<and> same_group E sim docs i k" if "i < length docs" for i
    by (rule ex1I [of _ "cf i"]) (use c1 c2 that in metis)+
  moreover have "the (freshness_key E (docs ! i)) \<le> the (freshness_key E (docs ! k))"
    if "i < length docs" "k < length docs" "k = cf k \<and> same_group E sim docs i k" for i k
    using c1 c2 that by metis
  ultimately show ?thesis using res by (intro exI [of _ "\<lambda>i. i = cf i"]) blast
qed

definition toy_render_env :: render_env where
  "toy_render_env = \<lparr>r_repr = (\<lambda>_. []), r_float = (\<lambda>_. None), r_sqrt = (\<lambda>q. q), r_exp = (\<lambda>q. 1 / (1 - q)),
     r_stem = (\<lambda>s. []), r_rank = (\<lambda>_. 1), r_slot = (\<lambda>_ j. j), r_dedup_sim = 88 / 100, r_now = 0\<rparr>"

definition toy_docs :: "meta list" where
  "toy_docs =
     [[(''subject'', VStr ''kv:atlas v1''), (''object'', VStr ''port 1''), (''confidence'', VFloat (1 / 2))],
      [(''subject'', VStr ''Atlas 2024-05-01''), (''object'', VStr ''port 2''), (''confidence'', VFloat (3 / 4))],
      [(''subject'', VStr ''kuzu''), (''object'', VStr ''graph'')]]"

theorem dedup_keeps_one_per_fact_witness:
  "(\<exists>keep. knapsack_semantic_dedup toy_render_env (Some (88 / 100)) toy_docs
      = Some (map ((!) toy_docs) (filter keep [0..<3]))
    \<and> (\<forall>i < 3. \<exists>!k. k < 3 \<and> keep k \<and> same_group toy_render_env (88 / 100) toy_docs i k))
   \<and> knapsack_semantic_dedup toy_render_env (Some (88 / 100)) toy_docs = Some (tl toy_docs)"
proof
  have l: "length toy_docs = 3" by (simp add: toy_docs_def)
  have f: "\<forall>r \<in> set toy_docs. freshness_key toy_render_env r \<noteq> None" by code_simp
  show "\<exists>keep. knapsack_semantic_dedup toy_render_env (Some (88 / 100)) toy_docs
      = Some (map ((!) toy_docs) (filter keep [0..<3]))
    \<and> (\<forall>i < 3. \<exists>!k. k < 3 \<and> keep k \<and> same_group toy_render_env (88 / 100) toy_docs i k)"
    using dedup_keeps_one_per_fact [of "88 / 100" toy_docs toy_render_env, OF _ _ f] unfolding l by auto
  show "knapsack_semantic_dedup toy_render_env (Some (88 / 100)) toy_docs = Some (tl toy_docs)"
    by code_simp
qed

text \<open>
  Records of different slots are joined by their text: the status and the release date of one entity, with the same words, become one
  record. The comments of \<open>render.py\<close> say that records are never joined across slots; that holds for the root-and-slot rule only.
\<close>

definition slot_env :: render_env where
  "slot_env = toy_render_env\<lparr>r_sqrt := \<lambda>q. if q = 4 then 2 else q, r_stem := id\<rparr>"

definition slot_record :: "string \<Rightarrow> meta" where
  "slot_record p = [(''subject'', VStr ''atlas core''), (''predicate'', VStr p), (''object'', VStr ''next week''), (''confidence'', VFloat 1)]"

theorem slots_are_joined_by_their_text:
  "knapsack_semantic_dedup slot_env (Some (88/100)) [slot_record ''status'', slot_record ''release_date''] = Some [slot_record ''status'']
    \<and> record_slot slot_env (slot_record ''status'') \<noteq> record_slot slot_env (slot_record ''release_date'')"
  by code_simp

end
