(* ===== verification/Knapsack.thy ===== *)
theory Knapsack
  imports Dedup "HOL-Library.Multiset"
begin

text \<open>
  \<open>pack_knapsack_01\<close> of \<open>cognitive/retrieval/render.py\<close>: the records are deduplicated, long objects are
  shortened if the records exceed the budget by half, the valid ones are joined to components by the
  entities they share, and components, or the best of their records, are packed greedily by density.
  \<open>None\<close> is an exception: a score that is no number, or metadata that is no dictionary.
\<close>

section \<open>Compaction and rank\<close>

definition compact_record :: "render_env \<Rightarrow> meta \<Rightarrow> meta" where
  "compact_record E r =
     (let obj = py_str (r_repr E) (get2 r ''object'' ''value'') in
      if 150 < py_len obj \<and> \<not> ends_with obj ''... [compacted]'' then
        let v = VStr (py_take 80 obj @ ''... [compacted]'') in
        if ''object'' \<in> set (dkeys r) then dset ''object'' v r else dset ''value'' v r
      else r)"

definition eff_records :: "render_env \<Rightarrow> bool \<Rightarrow> int \<Rightarrow> meta list \<Rightarrow> meta list" where
  "eff_records E compact_flag budget records =
     (if compact_flag \<and> 3 * budget < 2 * (\<Sum>r \<leftarrow> records. estimate_tokens E r) \<and> 3 \<le> length records
      then map (compact_record E) records else records)"

definition rank :: "render_env \<Rightarrow> meta \<Rightarrow> rat option" where
  "rank E r =
     (let is_sup = (meta_flag r ''is_superseded'' \<or>
            (case dget_default r ''metadata'' (VDict []) of VDict m \<Rightarrow> meta_flag m ''is_superseded'' | _ \<Rightarrow> False))
      in if is_sup then Some (- 5)
         else case dget r ''score'' of Some v \<Rightarrow> to_float (r_float E) v | None \<Rightarrow> Some (r_rank E r))"

record kitem =
  k_rec :: meta
  k_rank :: rat
  k_cost :: int

definition make_item :: "render_env \<Rightarrow> meta \<Rightarrow> kitem" where
  "make_item E r = \<lparr>k_rec = r, k_rank = the (rank E r), k_cost = estimate_tokens E r\<rparr>"

definition valid_items :: "render_env \<Rightarrow> meta list \<Rightarrow> kitem list option" where
  "valid_items E rs =
     (if \<exists>r \<in> set rs. rank E r = None then None
      else Some (filter (\<lambda>it. 0 \<le> k_rank it) (map (make_item E) rs)))"

section \<open>Components\<close>

record endpoints =
  ep_s :: string
  ep_o :: string
  ep_steps :: "string list"

definition norm_text :: "render_env \<Rightarrow> pyval \<Rightarrow> string" where
  "norm_text E v = py_lower (py_strip (py_str (r_repr E) v))"

fun step_nodes :: "render_env \<Rightarrow> pyval \<Rightarrow> string list" where
  "step_nodes E (VList sts) =
     filter (\<lambda>s. s \<noteq> []) (concat (map (\<lambda>st. case st of
         VDict d \<Rightarrow> [norm_text E (dget_default d ''source'' (VStr [])), norm_text E (dget_default d ''target'' (VStr []))]
       | _ \<Rightarrow> []) sts))"
| "step_nodes E _ = []"

definition extract_endpoints :: "render_env \<Rightarrow> meta \<Rightarrow> endpoints option" where
  "extract_endpoints E r =
     (let s = norm_text E (get2 r ''subject'' ''key'');
          o' = norm_text E (get2 r ''object'' ''value'');
          meta_dict = py_or (meta_get r ''metadata'') (VDict [])
      in if truthy (meta_get r ''steps'') then
           Some \<lparr>ep_s = s, ep_o = o', ep_steps = step_nodes E (meta_get r ''steps'')\<rparr>
         else case meta_dict of
             VDict m \<Rightarrow> Some \<lparr>ep_s = s, ep_o = o', ep_steps = step_nodes E (meta_get m ''steps'')\<rparr>
           | _ \<Rightarrow> None)"

definition overlaps :: "string \<Rightarrow> string \<Rightarrow> bool" where
  "overlaps a b = (a \<noteq> [] \<and> b \<noteq> [] \<and> (a = b \<or> contains_str a b \<or> contains_str b a))"

definition is_connected :: "endpoints \<Rightarrow> endpoints \<Rightarrow> bool" where
  "is_connected a b =
     (if overlaps (ep_o a) (ep_s b) \<or> overlaps (ep_o b) (ep_s a) then True
      else if ep_steps a \<noteq> [] \<and> ep_steps b \<noteq> [] \<and> (\<exists>x \<in> set (ep_steps a). x \<in> set (ep_steps b)) then True
      else if ep_steps a \<noteq> [] \<and> (ep_s b \<in> set (ep_steps a) \<or> ep_o b \<in> set (ep_steps a)) then True
      else if ep_steps b \<noteq> [] \<and> (ep_s a \<in> set (ep_steps b) \<or> ep_o a \<in> set (ep_steps b)) then True
      else ep_s a \<noteq> [] \<and> ep_s b \<noteq> [] \<and> ep_s a = ep_s b \<and> 3 \<le> py_len (ep_s a))"

definition linked :: "endpoints list \<Rightarrow> nat \<Rightarrow> nat \<Rightarrow> bool" where
  "linked eps i j =
     (if i < j then is_connected (eps ! i) (eps ! j)
      else if j < i then is_connected (eps ! j) (eps ! i) else False)"

definition adj :: "endpoints list \<Rightarrow> nat \<Rightarrow> nat list" where
  "adj eps i = filter (linked eps i) [0..<length eps]"

text \<open>The neighbours in the order in which CPython iterates the set \<open>adj[i]\<close>.\<close>

definition nbrs :: "render_env \<Rightarrow> endpoints list \<Rightarrow> nat \<Rightarrow> nat list" where
  "nbrs E eps i = sort_key (r_slot E (adj eps i)) (adj eps i)"

lemma set_nbrs [simp]: "set (nbrs E eps i) = {j. j < length eps \<and> linked eps i j}"
  by (auto simp: nbrs_def adj_def)

lemma distinct_nbrs [simp]: "distinct (nbrs E eps i)"
  by (simp add: nbrs_def adj_def)

text \<open>The breadth-first search; the neighbours that are appended are distinct, so one filter does it.\<close>

function bfs :: "render_env \<Rightarrow> endpoints list \<Rightarrow> nat list \<Rightarrow> nat list \<Rightarrow> nat list \<Rightarrow> nat list \<times> nat list" where
  "bfs E eps [] visited cmp = (cmp, visited)"
| "bfs E eps (cur # queue) visited cmp =
     (let new = filter (\<lambda>j. j \<notin> set visited) (nbrs E eps cur)
      in bfs E eps (queue @ new) (visited @ new) (cmp @ [cur]))"
  by pat_completeness auto
termination
proof (relation "measure (\<lambda>(E, eps, queue, visited, cmp). card ({..<length eps} - set visited) + length queue)")
  fix E :: render_env and eps cur queue visited cmp new
  assume new: "new = filter (\<lambda>j. j \<notin> set visited) (nbrs E eps cur)"
  let ?U = "{..<length eps} - set visited"
  have sub: "set new \<subseteq> ?U" and d: "distinct new" using new by auto
  have "{..<length eps} - set (visited @ new) = ?U - set new" by auto
  moreover have "card (?U - set new) = card ?U - length new"
    using sub d by (simp add: card_Diff_subset distinct_card)
  moreover have "length new \<le> card ?U"
    using card_mono [OF _ sub] d by (simp add: distinct_card)
  ultimately show "((E, eps, queue @ new, visited @ new, cmp @ [cur]), E, eps, cur # queue, visited, cmp)
      \<in> measure (\<lambda>(E, eps, queue, visited, cmp). card ({..<length eps} - set visited) + length queue)"
    by simp
qed simp

fun comp_loop :: "render_env \<Rightarrow> endpoints list \<Rightarrow> nat list \<Rightarrow> nat list \<Rightarrow> nat list list" where
  "comp_loop E eps [] visited = []"
| "comp_loop E eps (i # is) visited =
     (if i \<in> set visited then comp_loop E eps is visited
      else case bfs E eps [i] (visited @ [i]) [] of
          (cmp, visited') \<Rightarrow> cmp # comp_loop E eps is visited')"

definition components :: "render_env \<Rightarrow> endpoints list \<Rightarrow> nat list list" where
  "components E eps = comp_loop E eps [0..<length eps] []"

section \<open>Packing\<close>

record comp_info =
  c_items :: "kitem list"
  c_cost :: int
  c_utility :: rat
  c_density :: rat

definition cpof_severity :: "render_env \<Rightarrow> meta \<Rightarrow> rat option" where
  "cpof_severity E r =
     (case dget_default r ''metadata'' (VDict []) of
        VDict m \<Rightarrow> to_float (r_float E) (py_or (dget_default m ''cpof_severity'' (VFloat 0)) (VFloat 0))
      | _ \<Rightarrow> None)"

definition internal_edges :: "endpoints list \<Rightarrow> nat list \<Rightarrow> nat" where
  "internal_edges eps cmp = (\<Sum>i \<leftarrow> cmp. length (filter (\<lambda>j. j \<in> set cmp) (adj eps i))) div 2"

definition evaluate_comp :: "render_env \<Rightarrow> kitem list \<Rightarrow> endpoints list \<Rightarrow> nat list \<Rightarrow> comp_info option" where
  "evaluate_comp E items eps cmp =
     (let recs = map (\<lambda>i. items ! i) cmp;
          base = (\<Sum>it \<leftarrow> recs. k_rank it);
          cost = (\<Sum>it \<leftarrow> recs. k_cost it);
          edges = internal_edges eps cmp
      in case those_list (map (\<lambda>it. cpof_severity E (k_rec it)) recs) of
           None \<Rightarrow> None
         | Some sev \<Rightarrow>
             (let utility = base * (1 + 35 / 100 * of_nat edges + 1 / 2 * sum_list sev)
              in Some \<lparr>c_items = recs, c_cost = cost, c_utility = utility,
                       c_density = utility / of_int (max 1 cost)\<rparr>))"

definition item_density :: "kitem \<Rightarrow> rat \<times> rat" where
  "item_density it = (k_rank it / of_int (max 1 (k_cost it)), k_rank it)"

text \<open>\<open>sorted(xs, key=k, reverse=True)\<close> keeps the order of equal elements.\<close>

definition sort_desc :: "('a \<Rightarrow> rat \<times> rat) \<Rightarrow> 'a list \<Rightarrow> 'a list" where
  "sort_desc k xs = sort_key (\<lambda>x. (- fst (k x), - snd (k x))) xs"

fun pack_nodes :: "int \<Rightarrow> kitem list \<Rightarrow> int \<times> kitem list \<Rightarrow> int \<times> kitem list" where
  "pack_nodes budget [] st = st"
| "pack_nodes budget (it # its) (cost, packed) =
     pack_nodes budget its
       (if cost + k_cost it \<le> budget then (cost + k_cost it, packed @ [it]) else (cost, packed))"

fun pack_comps :: "int \<Rightarrow> comp_info list \<Rightarrow> int \<times> kitem list \<Rightarrow> int \<times> kitem list" where
  "pack_comps budget [] st = st"
| "pack_comps budget (c # cs) (cost, packed) =
     pack_comps budget cs
       (if cost + c_cost c \<le> budget then (cost + c_cost c, packed @ c_items c)
        else pack_nodes budget (sort_desc item_density (c_items c)) (cost, packed))"

definition pack_valid :: "render_env \<Rightarrow> int \<Rightarrow> kitem list \<Rightarrow> meta list option" where
  "pack_valid E budget items =
     (if items = [] then Some []
      else case those_list (map (\<lambda>it. extract_endpoints E (k_rec it)) items) of
          None \<Rightarrow> None
        | Some eps \<Rightarrow>
            (case those_list (map (evaluate_comp E items eps) (components E eps)) of
               None \<Rightarrow> None
             | Some comps \<Rightarrow>
                 (let comps = sort_desc (\<lambda>c. (c_density c, c_utility c)) comps;
                      packed = snd (pack_comps budget comps (0, []));
                      packed = (if packed = [] \<and> 0 < budget then [max_by item_density (hd items) (tl items)] else packed)
                  in Some (map k_rec (sort_key (\<lambda>it. - k_rank it) packed)))))"

definition pack_knapsack_01 :: "render_env \<Rightarrow> bool \<Rightarrow> int \<Rightarrow> meta list \<Rightarrow> meta list option" where
  "pack_knapsack_01 E compact_flag budget records =
     (case knapsack_semantic_dedup E None records of
        None \<Rightarrow> None
      | Some rs \<Rightarrow>
          (case valid_items E (eff_records E compact_flag budget rs) of
             None \<Rightarrow> None
           | Some items \<Rightarrow> pack_valid E budget items))"

section \<open>The components\<close>

lemma linked_sym: "linked eps i j = linked eps j i"
  by (auto simp: linked_def)

text \<open>What a search adds: each index once, none seen before.\<close>

lemma bfs_adds:
  assumes "bfs E eps queue visited cmp = (cmp', visited')"
  shows "\<exists>new. visited' = visited @ new \<and> mset cmp' = mset cmp + mset queue + mset new
    \<and> distinct new \<and> set new \<inter> set visited = {} \<and> set new \<subseteq> {..<length eps}"
  using assms
proof (induction E eps queue visited cmp rule: bfs.induct)
  case (2 E eps cur queue visited cmp)
  let ?new = "filter (\<lambda>j. j \<notin> set visited) (nbrs E eps cur)"
  from 2(1) [OF refl] 2(2) obtain new where new: "visited' = (visited @ ?new) @ new"
    "mset cmp' = mset (cmp @ [cur]) + mset (queue @ ?new) + mset new" "distinct new"
    "set new \<inter> set (visited @ ?new) = {}" "set new \<subseteq> {..<length eps}"
    by (auto simp: Let_def)
  have "distinct (?new @ new)" using new(3,4) by auto
  moreover have "set (?new @ new) \<inter> set visited = {}" "set (?new @ new) \<subseteq> {..<length eps}"
    using new(4,5) by auto
  ultimately show ?case using new(1,2) by (intro exI [of _ "?new @ new"]) simp
qed simp

lemma comp_loop_adds:
  "distinct is \<Longrightarrow> set is \<subseteq> {..<length eps} \<Longrightarrow>
   distinct (concat (comp_loop E eps is visited)) \<and> set (concat (comp_loop E eps is visited)) \<inter> set visited = {}
   \<and> set is \<subseteq> set visited \<union> set (concat (comp_loop E eps is visited))
   \<and> set (concat (comp_loop E eps is visited)) \<subseteq> {..<length eps}"
proof (induction E eps "is" visited rule: comp_loop.induct)
  case (2 E eps i "is" visited)
  show ?case
  proof (cases "i \<in> set visited")
    case True
    with 2 show ?thesis by auto
  next
    case False
    obtain cmp visited' where b: "bfs E eps [i] (visited @ [i]) [] = (cmp, visited')" by (cases "bfs E eps [i] (visited @ [i]) []")
    from bfs_adds [OF b] obtain new where new: "visited' = visited @ [i] @ new" "mset cmp = mset (i # new)"
      "distinct new" "set new \<inter> set (visited @ [i]) = {}" "set new \<subseteq> {..<length eps}" by auto
    from new(2) have c: "set cmp = insert i (set new)" by (metis list.set(2) set_mset_mset)
    have "distinct (i # new)" using new(3,4) by auto
    then have d: "distinct cmp" using mset_eq_imp_distinct_iff [OF new(2)] by simp
    from 2(2) [OF False b [symmetric]] 2(3,4) have IH: "distinct (concat (comp_loop E eps is visited'))"
      "set (concat (comp_loop E eps is visited')) \<inter> set visited' = {}"
      "set is \<subseteq> set visited' \<union> set (concat (comp_loop E eps is visited'))"
      "set (concat (comp_loop E eps is visited')) \<subseteq> {..<length eps}" by simp_all
    have r: "comp_loop E eps (i # is) visited = cmp # comp_loop E eps is visited'" using False b by simp
    have "set visited' = set visited \<union> set cmp" using new(1) c by auto
    moreover have "set cmp \<inter> set visited = {}" using c new(4) False by auto
    moreover have "set cmp \<subseteq> {..<length eps}" "i \<in> set cmp" using c new(5) 2(4) by auto
    ultimately show ?thesis using d IH unfolding r concat.simps distinct_append set_append by auto
  qed
qed simp

lemma mset_components: "mset (concat (components E eps)) = mset [0..<length eps]"
proof -
  have "distinct (concat (components E eps))" "set (concat (components E eps)) = set [0..<length eps]"
    using comp_loop_adds [of "[0..<length eps]" eps E "[]"] by (auto simp: components_def atLeast0LessThan)
  then show ?thesis using set_eq_iff_mset_eq_distinct [of _ "[0..<length eps]"] distinct_upt by blast
qed

text \<open>The graph of the links, and that a search returns a class of its reachability.\<close>

definition link_graph :: "endpoints list \<Rightarrow> (nat \<times> nat) set" where
  "link_graph eps = {(i, j). i < length eps \<and> j < length eps \<and> linked eps i j}"

lemma sym_link_graph: "sym (link_graph eps)"
  using linked_sym by (auto simp: link_graph_def sym_def)

lemma bfs_closed:
  assumes "bfs E eps queue visited cmp = (cmp', visited')" "\<forall>q \<in> set queue. q < length eps"
  shows "(\<forall>x \<in> set cmp'. x \<in> set cmp \<or> link_graph eps `` {x} \<subseteq> set visited')
    \<and> (\<forall>x \<in> set cmp'. x \<in> set cmp \<or> (\<exists>q \<in> set queue. (q, x) \<in> (link_graph eps)\<^sup>*))"
  using assms
proof (induction E eps queue visited cmp rule: bfs.induct)
  case (2 E eps cur queue visited cmp)
  let ?new = "filter (\<lambda>j. j \<notin> set visited) (nbrs E eps cur)"
  have b: "bfs E eps (queue @ ?new) (visited @ ?new) (cmp @ [cur]) = (cmp', visited')"
    using 2(2) by (simp add: Let_def)
  have q: "\<forall>q \<in> set (queue @ ?new). q < length eps" using 2(3) by auto
  note IH = 2(1) [OF refl b q]
  obtain new where new: "visited' = (visited @ ?new) @ new" using bfs_adds [OF b] by blast
  have cur: "link_graph eps `` {cur} \<subseteq> set visited'" unfolding new by (auto simp: link_graph_def)
  have step: "(cur, j) \<in> link_graph eps" if "j \<in> set ?new" for j
    using that 2(3) by (auto simp: link_graph_def)
  have "x \<in> set cmp \<or> (\<exists>q \<in> set (cur # queue). (q, x) \<in> (link_graph eps)\<^sup>*)" if "x \<in> set cmp'" for x
  proof -
    from IH that consider "x \<in> set cmp" | "x = cur" | q where "q \<in> set queue" "(q, x) \<in> (link_graph eps)\<^sup>*"
      | q where "q \<in> set ?new" "(q, x) \<in> (link_graph eps)\<^sup>*" by fastforce
    then show ?thesis
    proof cases
      case 4
      with step have "(cur, x) \<in> (link_graph eps)\<^sup>*" by (meson converse_rtrancl_into_rtrancl)
      then show ?thesis by simp
    qed auto
  qed
  with IH cur show ?case by auto
qed simp

lemma comp_loop_classes:
  assumes "set is \<subseteq> {..<length eps}" "link_graph eps `` set visited \<subseteq> set visited"
    and "c \<in> set (comp_loop E eps is visited)" "i \<in> set c"
  shows "j \<in> set c \<longleftrightarrow> (i, j) \<in> (link_graph eps)\<^sup>*"
  using assms
proof (induction E eps "is" visited rule: comp_loop.induct)
  case (2 E eps k "is" visited)
  let ?L = "link_graph eps"
  show ?case
  proof (cases "k \<in> set visited")
    case True
    with 2 show ?thesis by simp
  next
    case False
    obtain cmp visited' where b: "bfs E eps [k] (visited @ [k]) [] = (cmp, visited')" by (cases "bfs E eps [k] (visited @ [k]) []")
    from bfs_adds [OF b] obtain new where new: "visited' = visited @ [k] @ new" "mset cmp = mset (k # new)"
      "set new \<inter> set (visited @ [k]) = {}" by auto
    from new(2) have c: "set cmp = insert k (set new)" by (metis list.set(2) set_mset_mset)
    have "\<forall>q \<in> set [k]. q < length eps" using 2(3) by simp
    note cl = bfs_closed [OF b this]
    have closed: "?L `` set cmp \<subseteq> set cmp"
    proof
      fix y assume "y \<in> ?L `` set cmp"
      then obtain x where x: "x \<in> set cmp" "(x, y) \<in> ?L" by blast
      with cl have "y \<in> set visited'" by fastforce
      moreover have "y \<notin> set visited"
      proof
        assume "y \<in> set visited"
        with 2(4) x(2) sym_link_graph have "x \<in> set visited" by (metis ImageI subsetD symD)
        with x(1) c new(3) False show False by auto
      qed
      ultimately show "y \<in> set cmp" using new(1) c by auto
    qed
    have reach: "x \<in> set cmp \<longleftrightarrow> (k, x) \<in> ?L\<^sup>*" for x
    proof
      assume "(k, x) \<in> ?L\<^sup>*"
      then show "x \<in> set cmp" by (induction rule: rtrancl_induct) (use c closed in auto)
    qed (use cl in auto)
    have sym: "(a, x) \<in> ?L\<^sup>* \<Longrightarrow> (x, a) \<in> ?L\<^sup>*" for a x
      using sym_rtrancl [OF sym_link_graph] by (metis symD)
    show ?thesis
    proof (cases "c = cmp")
      case True
      with 2(6) reach have "(k, i) \<in> ?L\<^sup>*" by simp
      with sym True reach show ?thesis by (meson rtrancl_trans)
    next
      case other: False
      with 2(5) False b have "c \<in> set (comp_loop E eps is visited')" by auto
      moreover have "set visited' = set visited \<union> set cmp" using new(1) c by auto
      with 2(4) closed have "?L `` set visited' \<subseteq> set visited'" by blast
      ultimately show ?thesis using 2(2) [OF False b [symmetric]] 2(3,6) by auto
    qed
  qed
qed simp

section \<open>What is packed\<close>

lemma those_list_SomeD: "those_list xs = Some ys \<Longrightarrow> xs = map Some ys"
  by (induction xs arbitrary: ys rule: those_list.induct) auto

lemma mset_sort_desc [simp]: "mset (sort_desc k xs) = mset xs"
  by (simp add: sort_desc_def)

text \<open>The components carry the items, each once, and their costs.\<close>

lemma evaluated_comps:
  assumes "those_list (map (evaluate_comp E items eps) cs) = Some comps"
  shows "map c_items comps = map (map ((!) items)) cs"
    and "c \<in> set comps \<Longrightarrow> c_cost c = (\<Sum>it \<leftarrow> c_items c. k_cost it)"
proof -
  have 1: "evaluate_comp E items eps x = Some c \<Longrightarrow>
      c_items c = map ((!) items) x \<and> c_cost c = (\<Sum>it \<leftarrow> c_items c. k_cost it)" for x c
    by (auto simp: evaluate_comp_def Let_def split: option.splits)
  from those_list_SomeD [OF assms] have m: "map (evaluate_comp E items eps) cs = map Some comps" .
  then have l: "length cs = length comps" by (metis length_map)
  have e: "evaluate_comp E items eps (cs ! k) = Some (comps ! k)" if "k < length comps" for k
    using m that l by (metis nth_map)
  from 1 [OF e] l show "map c_items comps = map (map ((!) items)) cs" by (intro nth_equalityI) simp_all
  from 1 [OF e] show "c \<in> set comps \<Longrightarrow> c_cost c = (\<Sum>it \<leftarrow> c_items c. k_cost it)" by (metis in_set_conv_nth)
qed

lemma comps_items:
  assumes "those_list (map (evaluate_comp E items eps) (components E eps)) = Some comps" "length eps = length items"
  shows "mset (concat (map c_items comps)) = mset items"
proof -
  have "concat (map c_items comps) = map ((!) items) (concat (components E eps))"
    using evaluated_comps(1) [OF assms(1)] by (simp add: map_concat)
  then have "mset (concat (map c_items comps)) = image_mset ((!) items) (mset [0..<length items])"
    using mset_components [of E eps] assms(2) by (metis mset_map)
  also have "\<dots> = mset items" by (metis map_nth mset_map)
  finally show ?thesis .
qed

abbreviation total_cost :: "kitem list \<Rightarrow> int" where
  "total_cost its \<equiv> (\<Sum>it \<leftarrow> its. k_cost it)"

definition packed_ok :: "int \<Rightarrow> int \<times> kitem list \<Rightarrow> bool" where
  "packed_ok budget st \<longleftrightarrow> fst st = total_cost (snd st) \<and> (fst st \<le> budget \<or> snd st = [])"

lemma pack_nodes_spec:
  assumes "packed_ok budget st"
  shows "packed_ok budget (pack_nodes budget its st)
    \<and> (\<exists>m. m \<subseteq># mset its \<and> mset (snd (pack_nodes budget its st)) = mset (snd st) + m)
    \<and> (snd (pack_nodes budget its st) = [] \<longrightarrow> (\<forall>it \<in> set its. budget < k_cost it))"
  using assms
proof (induction budget its st rule: pack_nodes.induct)
  case (2 budget it its cost packed)
  let ?st = "if cost + k_cost it \<le> budget then (cost + k_cost it, packed @ [it]) else (cost, packed)"
  from 2(2) have "packed_ok budget ?st" by (auto simp: packed_ok_def)
  from 2(1) [OF this] obtain m where m: "packed_ok budget (pack_nodes budget its ?st)" "m \<subseteq># mset its"
    "mset (snd (pack_nodes budget its ?st)) = mset (snd ?st) + m"
    "snd (pack_nodes budget its ?st) = [] \<longrightarrow> (\<forall>it \<in> set its. budget < k_cost it)" by blast
  have sub: "m \<subseteq># add_mset it (mset its)" "add_mset it m \<subseteq># add_mset it (mset its)"
    using m(2) by (simp_all add: subset_mset.le_iff_add) (metis union_mset_add_mset_right)
  show ?case
  proof (cases "cost + k_cost it \<le> budget")
    case True
    with m sub(2) show ?thesis by (auto intro!: exI [of _ "add_mset it m"])
  next
    case False
    have "budget < k_cost it" if "packed = []" using that False 2(2) by (simp add: packed_ok_def)
    with False m sub(1) show ?thesis by (fastforce intro!: exI [of _ m])
  qed
qed simp

lemma pack_comps_spec:
  assumes "packed_ok budget st" "\<forall>c \<in> set cs. c_cost c = total_cost (c_items c)"
    and "\<forall>c \<in> set cs. \<forall>it \<in> set (c_items c). 0 < k_cost it"
  shows "packed_ok budget (pack_comps budget cs st)
    \<and> (\<exists>m. m \<subseteq># mset (concat (map c_items cs)) \<and> mset (snd (pack_comps budget cs st)) = mset (snd st) + m)
    \<and> (snd (pack_comps budget cs st) = [] \<longrightarrow> (\<forall>it \<in> set (concat (map c_items cs)). budget < k_cost it))"
  using assms
proof (induction budget cs st rule: pack_comps.induct)
  case (2 budget c cs cost packed)
  let ?nodes = "pack_nodes budget (sort_desc item_density (c_items c)) (cost, packed)"
  let ?st = "if cost + c_cost c \<le> budget then (cost + c_cost c, packed @ c_items c) else ?nodes"
  have n: "set (sort_desc item_density (c_items c)) = set (c_items c)" by (simp add: sort_desc_def)
  have step: "packed_ok budget ?st \<and> (\<exists>m. m \<subseteq># mset (c_items c) \<and> mset (snd ?st) = mset packed + m)
      \<and> (snd ?st = [] \<longrightarrow> (\<forall>it \<in> set (c_items c). budget < k_cost it))"
  proof (cases "cost + c_cost c \<le> budget")
    case True
    with 2(2,3) show ?thesis by (auto simp: packed_ok_def intro!: exI [of _ "mset (c_items c)"])
  next
    case False
    with pack_nodes_spec [OF 2(2), of "sort_desc item_density (c_items c)"] n show ?thesis by simp
  qed
  then obtain m where m: "m \<subseteq># mset (c_items c)" "mset (snd ?st) = mset packed + m" by blast
  from 2(1) step 2(3,4) obtain m' where m': "packed_ok budget (pack_comps budget cs ?st)"
    "m' \<subseteq># mset (concat (map c_items cs))" "mset (snd (pack_comps budget cs ?st)) = mset (snd ?st) + m'"
    "snd (pack_comps budget cs ?st) = [] \<longrightarrow> (\<forall>it \<in> set (concat (map c_items cs)). budget < k_cost it)"
    by auto
  have "m + m' \<subseteq># mset (concat (map c_items (c # cs)))" using subset_mset.add_mono [OF m(1) m'(2)] by simp
  moreover have "mset (snd (pack_comps budget (c # cs) (cost, packed))) = mset packed + (m + m')"
    using m(2) m'(3) by simp
  moreover have "snd (pack_comps budget (c # cs) (cost, packed)) = [] \<longrightarrow>
      (\<forall>it \<in> set (concat (map c_items (c # cs))). budget < k_cost it)"
  proof
    assume e: "snd (pack_comps budget (c # cs) (cost, packed)) = []"
    with m'(3) have "snd ?st = []" by simp
    with step m'(4) e show "\<forall>it \<in> set (concat (map c_items (c # cs))). budget < k_cost it" by auto
  qed
  ultimately show ?case using m'(1) by (auto simp del: map_map)
qed simp

lemma pack_comps_all:
  "cost + total_cost (concat (map c_items cs)) \<le> budget \<Longrightarrow> \<forall>c \<in> set cs. c_cost c = total_cost (c_items c) \<Longrightarrow>
   \<forall>c \<in> set cs. \<forall>it \<in> set (c_items c). 0 < k_cost it \<Longrightarrow>
   snd (pack_comps budget cs (cost, packed)) = packed @ concat (map c_items cs)"
proof (induction cs arbitrary: cost packed)
  case (Cons c cs)
  have "0 \<le> total_cost (concat (map c_items cs))"
    using Cons.prems(3) by (intro sum_list_nonneg) (auto simp: less_imp_le)
  with Cons.prems have "cost + c_cost c \<le> budget" by simp
  with Cons show ?case by simp
qed simp

lemma total_cost_mset: "mset xs = mset ys \<Longrightarrow> total_cost xs = total_cost ys"
  by (metis mset_map sum_mset_sum_list)

lemma mset_concat_cong: "mset xs = mset ys \<Longrightarrow> mset (concat xs) = mset (concat ys)"
proof -
  assume "mset xs = mset ys"
  then have "sum_mset (image_mset mset (mset xs)) = sum_mset (image_mset mset (mset ys))" by simp
  then show ?thesis by (simp only: mset_concat sum_mset_sum_list flip: mset_map)
qed

text \<open>What \<open>pack_valid\<close> packs, before the last sorting.\<close>

lemma pack_valid_spec:
  assumes "pack_valid E budget items = Some out" "\<forall>it \<in> set items. 0 < k_cost it"
  shows "\<exists>packed. out = map k_rec (sort_key (\<lambda>it. - k_rank it) packed) \<and> mset packed \<subseteq># mset items
    \<and> (total_cost items \<le> budget \<longrightarrow> mset packed = mset items)
    \<and> (packed = [] \<longleftrightarrow> items = [] \<or> budget \<le> 0)
    \<and> (total_cost packed \<le> budget \<or> packed = []
       \<or> (\<exists>x. packed = [x] \<and> (\<forall>it \<in> set items. budget < k_cost it \<and> k_rank it / of_int (k_cost it) \<le> k_rank x / of_int (k_cost x))))"
proof (cases "items = []")
  case True
  with assms show ?thesis by (simp add: pack_valid_def)
next
  case False
  with assms(1) obtain eps comps where
    e: "those_list (map (\<lambda>it. extract_endpoints E (k_rec it)) items) = Some eps"
    and c: "those_list (map (evaluate_comp E items eps) (components E eps)) = Some comps"
    by (auto simp: pack_valid_def split: option.splits)
  have l: "length eps = length items" using those_list_SomeD [OF e] by (metis length_map)
  let ?cs = "sort_desc (\<lambda>c. (c_density c, c_utility c)) comps"
  let ?p = "snd (pack_comps budget ?cs (0, []))"
  let ?x = "max_by item_density (hd items) (tl items)"
  let ?q = "if ?p = [] \<and> 0 < budget then [?x] else ?p"
  have out: "out = map k_rec (sort_key (\<lambda>it. - k_rank it) ?q)"
    using assms(1) False e c by (simp add: pack_valid_def Let_def)
  have s: "set ?cs = set comps" by (simp add: sort_desc_def)
  have "mset (map c_items ?cs) = mset (map c_items comps)" by (simp add: sort_desc_def)
  then have ms: "mset (concat (map c_items ?cs)) = mset items"
    using comps_items [OF c l] mset_concat_cong by metis
  then have st: "set (concat (map c_items ?cs)) = set items" by (metis set_mset_mset)
  have cost: "\<forall>c \<in> set ?cs. c_cost c = total_cost (c_items c)" using evaluated_comps(2) [OF c] s by simp
  have pos: "\<forall>c \<in> set ?cs. \<forall>it \<in> set (c_items c). 0 < k_cost it" using st assms(2) by auto
  have "packed_ok budget (0, [])" by (simp add: packed_ok_def)
  from pack_comps_spec [OF this cost pos] ms st have spec: "packed_ok budget (pack_comps budget ?cs (0, []))"
    "mset ?p \<subseteq># mset items" "?p = [] \<longrightarrow> (\<forall>it \<in> set items. budget < k_cost it)" by auto
  have all: "mset ?p = mset items" if "total_cost items \<le> budget"
    using pack_comps_all [of 0 ?cs budget "[]"] cost pos ms that total_cost_mset [OF ms] by simp
  have hd: "insert (hd items) (set (tl items)) = set items" using False by (cases items) auto
  have mx: "?x \<in> set items" using max_by_in [of item_density "hd items" "tl items"] hd by simp
  have dense: "k_rank it / of_int (k_cost it) \<le> k_rank ?x / of_int (k_cost ?x)" if "it \<in> set items" for it
  proof -
    have "item_density it \<le> item_density ?x" by (rule max_by_ge) (use that hd in simp)
    then have "k_rank it / of_int (max 1 (k_cost it)) \<le> k_rank ?x / of_int (max 1 (k_cost ?x))"
      by (auto simp: item_density_def less_eq_prod_def)
    moreover have "max 1 (k_cost it) = k_cost it" "max 1 (k_cost ?x) = k_cost ?x" using assms(2) that mx by force+
    ultimately show ?thesis by simp
  qed
  have nil: "?p = []" if "budget \<le> 0"
  proof (rule ccontr)
    assume ne: "?p \<noteq> []"
    have "\<forall>it \<in> set ?p. 0 < k_cost it" using spec(2) assms(2) by (metis set_mset_mono set_mset_mset subsetD)
    with ne have "0 < total_cost ?p"
      by (cases ?p) (auto intro!: add_pos_nonneg sum_list_nonneg simp: less_imp_le)
    with spec(1) ne that show False by (simp add: packed_ok_def)
  qed
  have "mset ?q \<subseteq># mset items" using spec(2) mx by simp
  moreover have "total_cost items \<le> budget \<longrightarrow> mset ?q = mset items"
    using all False by (cases "?p = []") auto
  moreover have "?q = [] \<longleftrightarrow> items = [] \<or> budget \<le> 0" using False nil by auto
  moreover have "total_cost ?q \<le> budget \<or> ?q = []
       \<or> (\<exists>x. ?q = [x] \<and> (\<forall>it \<in> set items. budget < k_cost it \<and> k_rank it / of_int (k_cost it) \<le> k_rank x / of_int (k_cost x)))"
    using spec(1,3) dense by (auto simp: packed_ok_def)
  ultimately show ?thesis using out by blast
qed

section \<open>Properties\<close>

lemma valid_items_cost: "valid_items E rs = Some items \<Longrightarrow> it \<in> set items \<Longrightarrow>
    k_cost it = estimate_tokens E (k_rec it) \<and> 0 < k_cost it \<and> k_rec it \<in> set rs
    \<and> rank E (k_rec it) = Some (k_rank it) \<and> 0 \<le> k_rank it"
  using estimate_tokens_pos [of E "k_rec it"] by (auto simp: valid_items_def make_item_def split: if_splits)

lemma valid_items_mset: "valid_items E rs = Some items \<Longrightarrow>
    mset (map k_rec items) = mset (filter (\<lambda>r. 0 \<le> the (rank E r)) rs)"
proof -
  assume "valid_items E rs = Some items"
  then have i: "items = filter (\<lambda>it. 0 \<le> k_rank it) (map (make_item E) rs)"
    by (auto simp: valid_items_def split: if_splits)
  have "map k_rec (filter (\<lambda>it. 0 \<le> k_rank it) (map (make_item E) xs)) = filter (\<lambda>r. 0 \<le> the (rank E r)) xs" for xs
    by (induction xs) (auto simp: make_item_def)
  with i show ?thesis by simp
qed

text \<open>The records that compete for the budget.\<close>

definition candidates :: "render_env \<Rightarrow> bool \<Rightarrow> int \<Rightarrow> meta list \<Rightarrow> meta list" where
  "candidates E compact_flag budget records =
     (case knapsack_semantic_dedup E None records of
        None \<Rightarrow> []
      | Some rs \<Rightarrow> filter (\<lambda>r. 0 \<le> the (rank E r)) (eff_records E compact_flag budget rs))"

lemma map_insort_key: "\<forall>y \<in> insert x (set xs). f (g y) = h y \<Longrightarrow>
    map g (insort_key h x xs) = insort_key f (g x) (map g xs)"
  by (induction xs) auto

lemma map_sort_key: "\<forall>x \<in> set xs. f (g x) = h x \<Longrightarrow> map g (sort_key h xs) = sort_key f (map g xs)"
proof (induction xs)
  case (Cons x xs)
  then have "map g (insort_key h x (sort_key h xs)) = insort_key f (g x) (map g (sort_key h xs))"
    by (intro map_insort_key) simp
  with Cons show ?case by (simp add: sort_key_def)
qed simp

lemma pack_spec:
  assumes "pack_knapsack_01 E compact_flag budget records = Some out"
  defines "cs \<equiv> candidates E compact_flag budget records"
  shows "\<exists>packed. out = sort_key (\<lambda>r. - the (rank E r)) packed
    \<and> mset packed \<subseteq># mset cs
    \<and> ((\<Sum>r \<leftarrow> cs. estimate_tokens E r) \<le> budget \<longrightarrow> mset packed = mset cs)
    \<and> (packed = [] \<longleftrightarrow> cs = [] \<or> budget \<le> 0)
    \<and> ((\<Sum>r \<leftarrow> packed. estimate_tokens E r) \<le> budget \<or> packed = []
       \<or> (\<exists>x. packed = [x] \<and> (\<forall>r \<in> set cs. budget < estimate_tokens E r
            \<and> the (rank E r) / of_int (estimate_tokens E r) \<le> the (rank E x) / of_int (estimate_tokens E x))))"
proof -
  from assms(1) obtain rs items where rs: "knapsack_semantic_dedup E None records = Some rs"
    and it: "valid_items E (eff_records E compact_flag budget rs) = Some items"
    and p: "pack_valid E budget items = Some out"
    by (auto simp: pack_knapsack_01_def split: option.splits)
  have c: "mset (map k_rec items) = mset cs" using valid_items_mset [OF it] rs by (simp add: cs_def candidates_def)
  then have sc: "set cs = k_rec ` set items" by (metis set_mset_mset list.set_map)
  note vc = valid_items_cost [OF it]
  from pack_valid_spec [OF p] vc obtain packed where
    q: "out = map k_rec (sort_key (\<lambda>it. - k_rank it) packed)" "mset packed \<subseteq># mset items"
      "total_cost items \<le> budget \<longrightarrow> mset packed = mset items" "packed = [] \<longleftrightarrow> items = [] \<or> budget \<le> 0"
      "total_cost packed \<le> budget \<or> packed = []
       \<or> (\<exists>x. packed = [x] \<and> (\<forall>it \<in> set items. budget < k_cost it \<and> k_rank it / of_int (k_cost it) \<le> k_rank x / of_int (k_cost x)))"
    by blast
  have sub: "set packed \<subseteq> set items" using q(2) by (metis set_mset_mono set_mset_mset)
  have est: "total_cost xs = (\<Sum>r \<leftarrow> map k_rec xs. estimate_tokens E r)" if "set xs \<subseteq> set items" for xs
  proof -
    have "map k_cost xs = map (estimate_tokens E) (map k_rec xs)" using that vc by auto
    then show ?thesis by (simp only:)
  qed
  have ci: "(\<Sum>r \<leftarrow> map k_rec items. estimate_tokens E r) = (\<Sum>r \<leftarrow> cs. estimate_tokens E r)"
    using c by (metis mset_map sum_mset_sum_list)
  have "\<forall>it \<in> set packed. - the (rank E (k_rec it)) = - k_rank it" using sub vc by fastforce
  from map_sort_key [of packed "\<lambda>r. - the (rank E r)" k_rec, OF this] q(1)
  have out: "out = sort_key (\<lambda>r. - the (rank E r)) (map k_rec packed)" by simp
  have "mset (map k_rec packed) \<subseteq># mset cs" using image_mset_subseteq_mono [OF q(2), of k_rec] c by simp
  moreover have "mset (map k_rec packed) = mset cs" if "(\<Sum>r \<leftarrow> cs. estimate_tokens E r) \<le> budget"
    using that q(3) est [of items] ci c by (metis mset_map subset_refl)
  moreover have "map k_rec packed = [] \<longleftrightarrow> cs = [] \<or> budget \<le> 0" using q(4) sc by auto
  moreover have "(\<Sum>r \<leftarrow> map k_rec packed. estimate_tokens E r) \<le> budget \<or> map k_rec packed = []
       \<or> (\<exists>x. map k_rec packed = [x] \<and> (\<forall>r \<in> set cs. budget < estimate_tokens E r
            \<and> the (rank E r) / of_int (estimate_tokens E r) \<le> the (rank E x) / of_int (estimate_tokens E x)))"
    using q(5)
  proof (elim disjE exE conjE)
    fix x assume x: "packed = [x]"
      and all: "\<forall>it \<in> set items. budget < k_cost it \<and> k_rank it / of_int (k_cost it) \<le> k_rank x / of_int (k_cost x)"
    from x sub have xi: "x \<in> set items" by simp
    have "budget < estimate_tokens E r
        \<and> the (rank E r) / of_int (estimate_tokens E r) \<le> the (rank E (k_rec x)) / of_int (estimate_tokens E (k_rec x))"
      if r: "r \<in> set cs" for r
    proof -
      from r sc obtain i where i: "i \<in> set items" "r = k_rec i" by auto
      with all vc [OF i(1)] vc [OF xi] show ?thesis by fastforce
    qed
    with x show ?thesis by simp
  qed (use est [OF sub] in simp_all)
  ultimately show ?thesis using out by (intro exI [of _ "map k_rec packed"] conjI impI)
qed

text \<open>
  C29: The components are the connected parts of the graph of shared entities: they list every candidate exactly
  once, and two candidates are in one component exactly if a chain of links joins them; whatever the order
  in which the sets of neighbours are iterated.
\<close>

theorem components_are_connected_parts:
  assumes "c \<in> set (components E eps)" "i \<in> set c"
  shows "mset (concat (components E eps)) = mset [0..<length eps]
    \<and> (\<forall>j. j \<in> set c \<longleftrightarrow> (i, j) \<in> (link_graph eps)\<^sup>*)"
  using mset_components comp_loop_classes [of "[0..<length eps]" eps "[]" c E i] assms
  by (auto simp: components_def atLeast0LessThan)

text \<open>
  C28: The token budget and its one exception. The candidates are the deduplicated records of non-negative rank; each is packed at most
  once, in descending order of rank. Nothing is packed exactly if there is no candidate or the budget is not positive. If some
  candidate fits the budget, what is packed costs at most the budget. If none fits a positive budget, exactly one candidate is packed
  all the same, of the greatest rank per token: contrary to the README, the budget is then exceeded.
\<close>

theorem packing_respects_budget:
  assumes "pack_knapsack_01 E compact_flag budget records = Some out"
  shows "let cs = candidates E compact_flag budget records; cost = estimate_tokens E; rk = (\<lambda>r. the (rank E r)) in
    mset out \<subseteq># mset cs \<and> sorted_wrt (\<lambda>a b. rk b \<le> rk a) out
    \<and> (out = [] \<longleftrightarrow> cs = [] \<or> budget \<le> 0)
    \<and> ((\<exists>r \<in> set cs. cost r \<le> budget) \<or> budget \<le> 0 \<longrightarrow> (\<Sum>r \<leftarrow> out. cost r) \<le> max 0 budget)
    \<and> (cs \<noteq> [] \<and> 0 < budget \<and> (\<forall>r \<in> set cs. budget < cost r) \<longrightarrow>
        (\<exists>x \<in> set cs. out = [x] \<and> (\<forall>r \<in> set cs. rk r / of_int (cost r) \<le> rk x / of_int (cost x))))"
proof -
  let ?c = "candidates E compact_flag budget records"
  from pack_spec [OF assms] obtain packed where p: "out = sort_key (\<lambda>r. - the (rank E r)) packed"
    "mset packed \<subseteq># mset ?c" "packed = [] \<longleftrightarrow> ?c = [] \<or> budget \<le> 0"
    "(\<Sum>r \<leftarrow> packed. estimate_tokens E r) \<le> budget \<or> packed = []
       \<or> (\<exists>x. packed = [x] \<and> (\<forall>r \<in> set ?c. budget < estimate_tokens E r
            \<and> the (rank E r) / of_int (estimate_tokens E r) \<le> the (rank E x) / of_int (estimate_tokens E x)))" by blast
  have m: "mset out = mset packed" using p(1) by simp
  then have cost: "(\<Sum>r \<leftarrow> out. estimate_tokens E r) = (\<Sum>r \<leftarrow> packed. estimate_tokens E r)"
    by (metis mset_map sum_mset_sum_list)
  have nil: "out = [] \<longleftrightarrow> packed = []" using m by (metis mset_zero_iff)
  have sub: "set packed \<subseteq> set ?c" using p(2) by (metis set_mset_mono set_mset_mset)
  have "sorted (map (\<lambda>r. - the (rank E r)) out)" using p(1) by simp
  then have "sorted_wrt (\<lambda>a b. the (rank E b) \<le> the (rank E a)) out" by (simp add: sorted_map)
  moreover have "(\<Sum>r \<leftarrow> out. estimate_tokens E r) \<le> max 0 budget"
    if "(\<exists>r \<in> set ?c. estimate_tokens E r \<le> budget) \<or> budget \<le> 0"
    using that p(3,4) cost by (auto simp: nil)
  moreover have "\<exists>x \<in> set ?c. out = [x] \<and> (\<forall>r \<in> set ?c. the (rank E r) / of_int (estimate_tokens E r)
      \<le> the (rank E x) / of_int (estimate_tokens E x))"
    if none: "?c \<noteq> []" "0 < budget" "\<forall>r \<in> set ?c. budget < estimate_tokens E r"
  proof -
    have ne: "packed \<noteq> []" using none p(3) by simp
    then obtain y where y: "y \<in> set packed" by (cases packed) auto
    have "estimate_tokens E y \<le> (\<Sum>r \<leftarrow> packed. estimate_tokens E r)"
      using y by (intro member_le_sum_list) (auto intro: order_trans [OF _ estimate_tokens_pos])
    moreover have "budget < estimate_tokens E y" using y sub none(3) by auto
    ultimately obtain x where x: "packed = [x]" "\<forall>r \<in> set ?c. the (rank E r) / of_int (estimate_tokens E r)
        \<le> the (rank E x) / of_int (estimate_tokens E x)" using p(4) ne by auto
    with p(1) sub show ?thesis by auto
  qed
  ultimately show ?thesis using m p(2,3) nil unfolding Let_def by auto
qed

text \<open>What fits is packed completely: if the candidates together cost at most the budget, none is left out.\<close>

theorem packing_is_complete:
  assumes "pack_knapsack_01 E compact_flag budget records = Some out"
    and "(\<Sum>r \<leftarrow> candidates E compact_flag budget records. estimate_tokens E r) \<le> budget"
  shows "mset out = mset (candidates E compact_flag budget records)"
  using pack_spec [OF assms(1)] assms(2) by (metis mset_sort)

theorem components_are_connected_parts_witness:
  "\<exists>eps. length eps = 3 \<and> [0, 2] \<in> set (components toy_render_env eps)
    \<and> mset (concat (components toy_render_env eps)) = {#0, 1, 2#}
    \<and> (\<forall>j. j \<in> set [0, 2] \<longleftrightarrow> (2, j) \<in> (link_graph eps)\<^sup>*)"
proof -
  let ?eps = "[\<lparr>ep_s = ''a'', ep_o = ''b'', ep_steps = []\<rparr>, \<lparr>ep_s = ''x'', ep_o = ''y'', ep_steps = []\<rparr>,
    \<lparr>ep_s = ''b'', ep_o = ''c'', ep_steps = []\<rparr>]"
  have c: "[0, 2] \<in> set (components toy_render_env ?eps)" by code_simp
  show ?thesis using components_are_connected_parts [OF c, of 2] c by (intro exI [of _ ?eps]) (simp add: numeral_2_eq_2)
qed

definition pack_env :: render_env where
  "pack_env = toy_render_env\<lparr>r_dedup_sim := 1\<rparr>"

text \<open>A record costs \<open>\<lceil>(s + o + 5) / 3.5\<rceil> + 1\<close> tokens, where \<open>s\<close> and \<open>o\<close> are its lengths.\<close>

definition scored :: "string \<Rightarrow> string \<Rightarrow> rat \<Rightarrow> meta" where
  "scored s obj q = [(''subject'', VStr s), (''object'', VStr obj), (''score'', VFloat q)]"

definition rec_a :: meta where "rec_a = scored ''aa'' ''bb'' 4"
definition rec_b :: meta where "rec_b = scored ''cccccccccccccc'' ''dddddddddddddddd'' 9"
definition rec_old :: meta where "rec_old = (''is_superseded'', VBool True) # scored ''ee'' ''ff'' 50"

text \<open>Within a budget of 8 one of two records is packed, and a single record that costs more than 8 is packed over it.\<close>

theorem packing_respects_budget_witness:
  "\<exists>out. pack_knapsack_01 pack_env False 8 [rec_b, rec_old] = Some out \<and> out = [rec_b] \<and> 8 < estimate_tokens pack_env rec_b
    \<and> (\<exists>x \<in> set (candidates pack_env False 8 [rec_b, rec_old]). out = [x])
    \<and> pack_knapsack_01 pack_env False 8 [rec_a, rec_b, rec_old] = Some [rec_a]
    \<and> (\<Sum>r \<leftarrow> [rec_a]. estimate_tokens pack_env r) \<le> 8"
proof -
  have p: "pack_knapsack_01 pack_env False 8 [rec_b, rec_old] = Some [rec_b]"
    "pack_knapsack_01 pack_env False 8 [rec_a, rec_b, rec_old] = Some [rec_a]" by code_simp+
  have c: "candidates pack_env False 8 [rec_b, rec_old] = [rec_b]" by code_simp
  have b: "8 < estimate_tokens pack_env rec_b" "\<exists>r \<in> set (candidates pack_env False 8 [rec_a, rec_b, rec_old]). estimate_tokens pack_env r \<le> 8"
    by code_simp+
  show ?thesis
    using p b(1) packing_respects_budget [OF p(1)] packing_respects_budget [OF p(2)] b(2) c by (intro exI [of _ "[rec_b]"]) (simp add: Let_def)
qed

theorem packing_is_complete_witness:
  "\<exists>out. pack_knapsack_01 pack_env False 30 [rec_a, rec_b, rec_old] = Some out
    \<and> mset out = mset (candidates pack_env False 30 [rec_a, rec_b, rec_old]) \<and> out = [rec_b, rec_a]"
proof -
  have p: "pack_knapsack_01 pack_env False 30 [rec_a, rec_b, rec_old] = Some [rec_b, rec_a]" by code_simp
  have c: "(\<Sum>r \<leftarrow> candidates pack_env False 30 [rec_a, rec_b, rec_old]. estimate_tokens pack_env r) \<le> 30" by code_simp
  show ?thesis using p packing_is_complete [OF p c] by (intro exI [of _ "[rec_b, rec_a]"]) simp
qed

text \<open>
  The packing is greedy, not the dynamic programme of the documentation: with 14 tokens it packs the denser
  record of rank 4 where the other one, of rank 9, fits alone; and a single record is packed whatever the budget.
\<close>

theorem packing_is_not_optimal:
  "pack_knapsack_01 pack_env False 14 [rec_a, rec_b] = Some [rec_a]
   \<and> pack_knapsack_01 pack_env False 14 [rec_b] = Some [rec_b]
   \<and> estimate_tokens pack_env rec_a = 4 \<and> estimate_tokens pack_env rec_b = 11
   \<and> pack_knapsack_01 pack_env False 1 [rec_b] = Some [rec_b]"
  by code_simp

text \<open>
  A record whose metadata is \<open>None\<close> makes the packing raise, although the reading of its end points
  and of its rank provides for that.
\<close>

theorem packing_raises_on_no_metadata:
  "pack_knapsack_01 pack_env False 30 [dset ''metadata'' VNone rec_a] = None
   \<and> rank pack_env (dset ''metadata'' VNone rec_a) = Some 4
   \<and> extract_endpoints pack_env (dset ''metadata'' VNone rec_a) \<noteq> None"
  by code_simp

end
