(* ===== verification/ContextBlock.thy ===== *)
theory ContextBlock
  imports RecordText
begin

text \<open>
  \<open>render_context_block\<close> of \<open>cognitive/retrieval/render.py\<close>: the text block that is put into the prompt.
  \<open>None\<close> is the exception of \<open>dict(...)\<close> on metadata that is no dictionary.
\<close>

section \<open>Lines\<close>

definition upper_char :: "char \<Rightarrow> char" where
  "upper_char c = (let n = of_char c :: nat in if 97 \<le> n \<and> n \<le> 122 then char_of (n - 32) else c)"

definition nl :: char where
  "nl = CHR 0x0A"

definition block_header :: string where
  "block_header = ''## ATLAS Memory Context''"

definition bullet :: string where
  "bullet = [CHR 0xE2, CHR 0x80, CHR 0xA2, CHR '' '']"

definition sciezka :: string where
  "sciezka = [CHR 0xC5, CHR 0x9B] @ ''cie'' @ [CHR 0xC5, CHR 0xBC] @ ''ka: ''"

fun step_str :: "render_env \<Rightarrow> pyval \<Rightarrow> string" where
  "step_str E (VDict d) =
     (let f = (\<lambda>k. py_str (r_repr E) (dget_default d k (VStr [])))
      in f ''source'' @ '' -['' @ f ''predicate'' @ '']-> '' @ f ''target'')"
| "step_str E _ = '' -[]-> ''"

definition str_field :: "render_env \<Rightarrow> meta \<Rightarrow> string \<Rightarrow> string" where
  "str_field E r k = py_str (r_repr E) (dget_default r k (VStr []))"

text \<open>\<open>dict(r.get("metadata") or {})\<close>.\<close>

definition record_meta :: "meta \<Rightarrow> meta option" where
  "record_meta r = (case py_or (meta_get r ''metadata'') (VDict []) of VDict m \<Rightarrow> Some m | _ \<Rightarrow> None)"

definition is_hidden :: "render_env \<Rightarrow> meta \<Rightarrow> meta \<Rightarrow> bool" where
  "is_hidden E r m =
     (let subj = str_field E r ''subject''; pred = str_field E r ''predicate''; obj = str_field E r ''object'';
          is_sup = (meta_flag r ''is_superseded'' \<or> meta_flag m ''is_superseded'' \<or> meta_flag m ''superseded'')
      in map upper_char pred = ''SUPERSEDED_BY'' \<or> (subj \<noteq> [] \<and> subj = obj) \<or> is_sup)"

definition record_line :: "render_env \<Rightarrow> int \<Rightarrow> bool \<Rightarrow> meta \<Rightarrow> meta \<Rightarrow> string" where
  "record_line E max_object_chars include_provenance r m =
     (let subj = str_field E r ''subject''; pred = str_field E r ''predicate''; obj = str_field E r ''object'';
          store = str_field E r ''source'';
          obj = (if 0 < max_object_chars \<and> max_object_chars < int (py_len obj)
                 then py_take (nat max_object_chars) obj @ '' ...[truncated]'' else obj);
          prov_str = (if include_provenance \<and> store \<noteq> [] then '' ['' @ store @ '']'' else []);
          path_steps = py_or (meta_get r ''steps'') (meta_get m ''steps'');
          risk = py_or (meta_get r ''risk_level'') (meta_get m ''risk_level'');
          impact = py_or (meta_get r ''impact_type'') (meta_get m ''impact_type'');
          named = (pred \<noteq> [] \<and> pred \<noteq> ''stated_memory'' \<and> pred \<noteq> ''state_is'')
      in case path_steps of
           VList (s # ss) \<Rightarrow>
             (let path_chain = py_join '' -> '' (map (step_str E) (s # ss));
                  risk_tag = (if truthy risk then '', ryzyko: '' @ py_str (r_repr E) risk else []);
                  rel_label = (if named then '' -('' @ pred @ '')->'' else [])
              in bullet @ ''['' @ subj @ '']'' @ rel_label @ '' ['' @ obj @ ''] ('' @ sciezka @ path_chain @ risk_tag @ '')'' @ prov_str)
         | _ \<Rightarrow>
             if truthy impact then
               (let rel_label = (if pred \<noteq> [] then '' -('' @ pred @ '')->'' else [])
                in bullet @ ''['' @ subj @ '']'' @ rel_label @ '' ['' @ obj @ ''] (typ: '' @ py_str (r_repr E) impact @ '')'' @ prov_str)
             else if store = ''graph'' \<and> named then
               bullet @ ''['' @ subj @ ''] -('' @ pred @ '')-> ['' @ obj @ '']'' @ prov_str
             else bullet @ ''['' @ subj @ ''] '' @ obj @ prov_str)"

fun block_lines :: "render_env \<Rightarrow> int \<Rightarrow> bool \<Rightarrow> meta list \<Rightarrow> string list option" where
  "block_lines E mo pr [] = Some []"
| "block_lines E mo pr (r # rs) =
     (case record_meta r of
        None \<Rightarrow> None
      | Some m \<Rightarrow>
          if is_hidden E r m then block_lines E mo pr rs
          else map_option (Cons (record_line E mo pr r m)) (block_lines E mo pr rs))"

section \<open>The block\<close>

text \<open>The text before the last line end of \<open>s[:n]\<close>: \<open>result.rfind("\\n", 0, n)\<close> is its length.\<close>

definition before_last_nl :: "string \<Rightarrow> string option" where
  "before_last_nl s = (if nl \<in> set s then Some (rev (tl (dropWhile (\<lambda>c. c \<noteq> nl) (rev s)))) else None)"

definition cut_block :: "int \<Rightarrow> string \<Rightarrow> string" where
  "cut_block max_total_chars result =
     (if 0 < max_total_chars \<and> max_total_chars < int (py_len result) then
        (case before_last_nl (py_take (nat max_total_chars) result) of
           Some s \<Rightarrow> if py_len block_header < py_len s then s else py_take (nat max_total_chars) result
         | None \<Rightarrow> py_take (nat max_total_chars) result)
      else result)"

definition render_context_block :: "render_env \<Rightarrow> int \<Rightarrow> int \<Rightarrow> bool \<Rightarrow> meta list \<Rightarrow> string option" where
  "render_context_block E max_object_chars max_total_chars include_provenance records =
     (if records = [] then Some []
      else map_option (\<lambda>ls. cut_block max_total_chars (py_join [nl] (block_header # ls)))
             (block_lines E max_object_chars include_provenance records))"

section \<open>Cutting\<close>

lemma py_take_prefix: "prefix (py_take n s) s"
  by (induction n s rule: py_take.induct) (auto split: nat.split)

lemma before_last_nl_prefix: "before_last_nl s = Some t \<Longrightarrow> \<exists>u. s = t @ nl # u"
proof -
  assume a: "before_last_nl s = Some t"
  then have "nl \<in> set (rev s)" by (auto simp: before_last_nl_def split: if_splits)
  then obtain u v where uv: "rev s = u @ nl # v" "nl \<notin> set u" by (metis split_list_first)
  then have "dropWhile (\<lambda>c. c \<noteq> nl) (rev s) = nl # v"
    unfolding uv(1) by (subst dropWhile_append2) (use uv(2) in auto)
  with a have "t = rev v" by (auto simp: before_last_nl_def split: if_splits)
  moreover have "s = rev v @ nl # rev u" using uv(1) by (metis append.assoc append_Cons append_Nil rev.simps(2) rev_append rev_rev_ident)
  ultimately show ?thesis by blast
qed

lemma py_len_prefix: "prefix s t \<Longrightarrow> py_len s \<le> py_len t"
  by (auto simp: prefix_def py_len_def)

lemma cut_block_spec:
  "prefix (cut_block mx s) s \<and> (0 < mx \<longrightarrow> int (py_len (cut_block mx s)) \<le> mx)
   \<and> (cut_block mx s = s \<or> (\<exists>u. s = cut_block mx s @ nl # u) \<or> cut_block mx s = py_take (nat mx) s)"
proof (cases "0 < mx \<and> mx < int (py_len s)")
  case True
  let ?t = "py_take (nat mx) s"
  have l: "int (py_len ?t) \<le> mx" using True by (auto simp: py_len_py_take)
  show ?thesis
  proof (cases "before_last_nl ?t")
    case None
    with True l show ?thesis by (simp add: cut_block_def py_take_prefix)
  next
    case (Some b)
    from before_last_nl_prefix [OF this] obtain u where u: "?t = b @ nl # u" by blast
    then have pb: "prefix b ?t" by simp
    with py_take_prefix have "prefix b s" by (metis prefix_order.trans)
    moreover have "int (py_len b) \<le> mx" using py_len_prefix [OF pb] l by linarith
    moreover obtain w where "s = ?t @ w" using py_take_prefix [of "nat mx" s] by (auto simp: prefix_def)
    then have "s = b @ nl # (u @ w)" using u by simp
    ultimately show ?thesis using True Some l py_take_prefix by (auto simp: cut_block_def)
  qed
next
  case False
  then show ?thesis by (auto simp: cut_block_def)
qed

section \<open>Properties\<close>

text \<open>
  The block is what fits of the full text: a prefix of it, at most \<open>max_total_chars\<close> characters long if that is
  positive, cut at the end of a line, or after exactly \<open>max_total_chars\<close> characters when no line but the heading fits.
\<close>

theorem block_is_bounded:
  assumes "render_context_block E mo mx pr records = Some t"
  shows "\<exists>full. render_context_block E mo 0 pr records = Some full \<and> prefix t full
    \<and> (0 < mx \<longrightarrow> int (py_len t) \<le> mx)
    \<and> (t = full \<or> (\<exists>u. full = t @ nl # u) \<or> t = py_take (nat mx) full)"
proof (cases "records = []")
  case True
  with assms show ?thesis by (simp add: render_context_block_def py_len_def)
next
  case False
  with assms obtain ls where "block_lines E mo pr records = Some ls"
    "t = cut_block mx (py_join [nl] (block_header # ls))" by (auto simp: render_context_block_def)
  moreover have "cut_block 0 s = s" for s by (simp add: cut_block_def)
  ultimately show ?thesis using False cut_block_spec [of mx "py_join [nl] (block_header # ls)"]
    by (simp add: render_context_block_def)
qed

definition block_recs :: "meta list" where
  "block_recs =
     [[(''subject'', VStr ''Atlas''), (''object'', VStr ''runs on port 1'')],
      [(''subject'', VStr ''Atlas''), (''object'', VStr ''runs on port 2''), (''is_superseded'', VBool True)],
      [(''subject'', VStr ''Kuzu''), (''object'', VStr ''is a graph store'')]]"

definition block_env :: render_env where
  "block_env = \<lparr>r_repr = (\<lambda>_. []), r_float = (\<lambda>_. None), r_sqrt = (\<lambda>q. q), r_exp = (\<lambda>q. q),
     r_stem = (\<lambda>s. []), r_rank = (\<lambda>_. 1), r_slot = (\<lambda>_ j. j), r_dedup_sim = 1, r_now = 0\<rparr>"

theorem block_is_bounded_witness:
  "\<exists>t full. render_context_block block_env 1200 60 False block_recs = Some t
    \<and> render_context_block block_env 1200 0 False block_recs = Some full \<and> prefix t full
    \<and> int (py_len t) \<le> 60 \<and> py_len t = 48 \<and> py_len full = 74"
proof -
  have l: "map_option py_len (render_context_block block_env 1200 60 False block_recs) = Some 48" by code_simp
  then obtain t where t: "render_context_block block_env 1200 60 False block_recs = Some t" "py_len t = 48" by auto
  have f: "map_option py_len (render_context_block block_env 1200 0 False block_recs) = Some 74" by code_simp
  from block_is_bounded [OF t(1)] f t show ?thesis by auto
qed

text \<open>A record that is superseded, on its own word or that of its metadata, or that states a supersession.\<close>

definition obsolete :: "meta \<Rightarrow> bool" where
  "obsolete r =
     (case record_meta r of
        None \<Rightarrow> False
      | Some m \<Rightarrow>
          meta_flag r ''is_superseded'' \<or> meta_flag m ''is_superseded'' \<or> meta_flag m ''superseded''
          \<or> dget r ''predicate'' \<in> {Some (VStr ''SUPERSEDED_BY''), Some (VStr ''superseded_by'')})"

lemma superseded_by_upper: "map upper_char ''superseded_by'' = ''SUPERSEDED_BY''" "map upper_char ''SUPERSEDED_BY'' = ''SUPERSEDED_BY''"
  by code_simp+

lemma obsolete_hidden: "obsolete r \<Longrightarrow> record_meta r = Some m \<Longrightarrow> is_hidden E r m"
  using superseded_by_upper by (auto simp: obsolete_def is_hidden_def str_field_def dget_default_def Let_def)

lemma block_lines_obsolete: "block_lines E mo pr (filter (\<lambda>r. \<not> obsolete r) rs) = block_lines E mo pr rs"
proof (induction rs)
  case (Cons r rs)
  then show ?case using obsolete_hidden [of r] by (cases "record_meta r") (auto simp: obsolete_def)
qed simp

text \<open>
  What is superseded leaves no trace: records that are superseded, by a flag of their own or of their metadata, or that
  state a supersession can be removed from the list without changing the block, unless that leaves no record.
\<close>

theorem superseded_leaves_no_trace:
  assumes "\<exists>r \<in> set records. \<not> obsolete r"
  shows "render_context_block E mo mx pr (filter (\<lambda>r. \<not> obsolete r) records) = render_context_block E mo mx pr records"
proof -
  have "records \<noteq> []" "filter (\<lambda>r. \<not> obsolete r) records \<noteq> []" using assms by (auto simp: filter_empty_conv)
  then show ?thesis by (simp add: render_context_block_def block_lines_obsolete)
qed

theorem superseded_leaves_no_trace_witness:
  "render_context_block block_env 1200 6000 False [hd block_recs, last block_recs]
   = render_context_block block_env 1200 6000 False block_recs"
proof -
  have o: "\<not> obsolete (hd block_recs)" "obsolete (hd (tl block_recs))" "\<not> obsolete (last block_recs)" by code_simp+
  have r: "block_recs = [hd block_recs, hd (tl block_recs), last block_recs]" by (simp add: block_recs_def)
  have s: "\<exists>r \<in> set block_recs. \<not> obsolete r" using o(1) by (auto simp: block_recs_def)
  have "filter (\<lambda>r. \<not> obsolete r) block_recs = [hd block_recs, last block_recs]"
    by (subst r) (simp add: o)
  with superseded_leaves_no_trace [OF s, of block_env 1200 6000 False] show ?thesis by simp
qed

end
