(* ===== verification/Trajectory.thy ===== *)
theory Trajectory
  imports Json
begin

text \<open>
  \<open>l1_working/trajectory_buffer.py\<close>: the columnar buffer of agent trajectories, its batches, its table
  and how a table is read back, and the success labels of the sessions. A table is the record of its columns;
  Arrow and Parquet keep columns as they are. An exception in the middle of an operation leaves the columns
  as they are at that point, so operations return the buffer together with their outcome.

  \<open>traj_env\<close> collects the parameters: the texts of floats and \<open>float(text)\<close> in JSON, \<open>repr\<close> of
  containers, \<open>dict(x)\<close> of a value that is no dictionary (\<open>None\<close> if it raises), and the rounding
  to single precision.
\<close>

section \<open>State\<close>

record traj_env =
  tv_fr :: "rat \<Rightarrow> string"
  tv_fp :: "ustr \<Rightarrow> rat"
  tv_repr :: "pyval \<Rightarrow> string"
  tv_dict :: "pyval \<Rightarrow> meta option"
  tv_f32 :: "rat \<Rightarrow> rat"

record table =
  tb_steps :: "int list"
  tb_times :: "rat list"
  tb_sess :: "string list"
  tb_lat :: "rat list list"
  tb_acts :: "string list"
  tb_rews :: "rat list"
  tb_uncs :: "rat list"
  tb_metas :: "string list"

record tbuf =
  t_dim :: nat
  t_cap :: nat
  t_lat :: "rat list list"
  t_steps :: "int list"
  t_times :: "rat list"
  t_sess :: "string list"
  t_acts :: "string list"
  t_rews :: "rat list"
  t_uncs :: "rat list"
  t_metas :: "string list"
  t_table :: "table option"

definition zero_rows :: "nat \<Rightarrow> nat \<Rightarrow> rat list list" where
  "zero_rows n d = replicate n (replicate d 0)"

definition new_tbuf :: "nat \<Rightarrow> nat \<Rightarrow> tbuf" where
  "new_tbuf state_dim capacity =
     (let c = max capacity 1000
      in \<lparr>t_dim = state_dim, t_cap = c, t_lat = zero_rows c state_dim, t_steps = [], t_times = [], t_sess = [],
          t_acts = [], t_rews = [], t_uncs = [], t_metas = [], t_table = None\<rparr>)"

definition ensure_capacity :: "nat \<Rightarrow> tbuf \<Rightarrow> tbuf" where
  "ensure_capacity needed b =
     (if t_cap b < needed then
        let new_cap = max (t_cap b * 2) (needed + 1024)
        in b\<lparr>t_lat := take (t_cap b) (t_lat b) @ zero_rows (new_cap - t_cap b) (t_dim b), t_cap := new_cap\<rparr>
      else b)"

section \<open>Recording\<close>

datatype traj_error = BadParameters | BadVector | IntRange | BadBatchSize

text \<open>The columns get their new entries in this order; the metadata comes last.\<close>

definition push_front_columns :: "int \<Rightarrow> rat \<Rightarrow> string \<Rightarrow> tbuf \<Rightarrow> tbuf" where
  "push_front_columns step time sid b =
     b\<lparr>t_steps := t_steps b @ [step], t_times := t_times b @ [time], t_sess := t_sess b @ [sid]\<rparr>"

definition push_back_columns :: "string \<Rightarrow> rat \<Rightarrow> rat \<Rightarrow> tbuf \<Rightarrow> tbuf" where
  "push_back_columns act rew unc b =
     b\<lparr>t_acts := t_acts b @ [act], t_rews := t_rews b @ [rew], t_uncs := t_uncs b @ [unc]\<rparr>"

definition py_dict :: "traj_env \<Rightarrow> pyval \<Rightarrow> meta option" where
  "py_dict E v = (case v of VDict d \<Rightarrow> Some d | _ \<Rightarrow> tv_dict E v)"

definition step_name :: "traj_env \<Rightarrow> meta \<Rightarrow> string" where
  "step_name E step =
     py_str (tv_repr E) (py_or (py_or (py_or (py_or (meta_get step ''tool_name'') (meta_get step ''action''))
       (meta_get step ''tool'')) (meta_get step ''name'')) (VStr ''unknown_tool''))"

definition step_success :: "meta \<Rightarrow> bool" where
  "step_success step = truthy (dget_default step ''success'' (VBool True))"

definition real_meta :: "traj_env \<Rightarrow> meta \<Rightarrow> meta \<Rightarrow> string" where
  "real_meta E step params =
     json_dumps (tv_fr E) (VDict [(''origin'', VStr ''real''), (''success'', VBool (step_success step)),
       (''parameters'', VDict params), (''error'', meta_get step ''error'')])"

definition record_step :: "traj_env \<Rightarrow> string \<Rightarrow> rat \<Rightarrow> nat \<Rightarrow> nat \<Rightarrow> meta \<Rightarrow> tbuf \<Rightarrow> tbuf \<times> bool" where
  "record_step E sid now base i step b =
     (let b1 = push_front_columns (int (base + i + 1)) (now + of_nat i / 1000) sid b;
          b2 = b1\<lparr>t_lat := (t_lat b1)[base + i := replicate (t_dim b1) 0]\<rparr>;
          b3 = push_back_columns (step_name E step) (if step_success step then 1 else - 1) 0 b2
      in case py_dict E (py_or (meta_get step ''parameters'') (VDict [])) of
           None \<Rightarrow> (b3, False)
         | Some params \<Rightarrow> (b3\<lparr>t_metas := t_metas b3 @ [real_meta E step params]\<rparr>, True))"

fun record_loop :: "traj_env \<Rightarrow> string \<Rightarrow> rat \<Rightarrow> nat \<Rightarrow> nat \<Rightarrow> meta list \<Rightarrow> tbuf \<Rightarrow> tbuf \<times> bool" where
  "record_loop E sid now base i [] b = (b, True)"
| "record_loop E sid now base i (s # ss) b =
     (case record_step E sid now base i s b of
        (b', False) \<Rightarrow> (b', False)
      | (b', True) \<Rightarrow> record_loop E sid now base (Suc i) ss b')"

definition record_real_trajectory ::
  "traj_env \<Rightarrow> rat \<Rightarrow> meta list \<Rightarrow> string \<Rightarrow> tbuf \<Rightarrow> tbuf \<times> (traj_error + nat)" where
  "record_real_trajectory E now steps session_id b =
     (let base_step = length (t_steps b); n = length steps
      in case record_loop E session_id now base_step 0 steps (ensure_capacity (base_step + n) b) of
           (b', False) \<Rightarrow> (b', Inl BadParameters)
         | (b', True) \<Rightarrow> (b'\<lparr>t_table := None\<rparr>, Inr n))"

record transition =
  x_step :: int
  x_time :: rat
  x_vector :: "rat list"
  x_action :: string
  x_reward :: rat
  x_uncertainty :: rat

text \<open>\<open>array[idx, :] = vector\<close>: a vector of length one is broadcast, another wrong length raises.\<close>

definition assign_row :: "traj_env \<Rightarrow> nat \<Rightarrow> rat list \<Rightarrow> rat list option" where
  "assign_row E d v =
     (if length v = d then Some (map (tv_f32 E) v)
      else if length v = 1 then Some (replicate d (tv_f32 E (hd v)))
      else None)"

definition push_transition :: "traj_env \<Rightarrow> string \<Rightarrow> string \<Rightarrow> nat \<Rightarrow> transition \<Rightarrow> tbuf \<Rightarrow> tbuf \<times> bool" where
  "push_transition E sid meta_json idx x b =
     (let b1 = push_front_columns (x_step x) (x_time x) sid b in
      case assign_row E (t_dim b1) (x_vector x) of
        None \<Rightarrow> (b1, False)
      | Some row \<Rightarrow>
          (let b2 = push_back_columns (x_action x) (x_reward x) (x_uncertainty x) (b1\<lparr>t_lat := (t_lat b1)[idx := row]\<rparr>)
           in (b2\<lparr>t_metas := t_metas b2 @ [meta_json]\<rparr>, True)))"

definition dump_metadata :: "traj_env \<Rightarrow> meta option \<Rightarrow> string" where
  "dump_metadata E metadata = json_dumps (tv_fr E) (VDict (case metadata of None \<Rightarrow> [] | Some m \<Rightarrow> m))"

definition append_transition ::
  "traj_env \<Rightarrow> transition \<Rightarrow> string \<Rightarrow> meta option \<Rightarrow> tbuf \<Rightarrow> tbuf \<times> (traj_error + unit)" where
  "append_transition E x session_id metadata b =
     (let idx = length (t_steps b)
      in case push_transition E session_id (dump_metadata E metadata) idx x (ensure_capacity (idx + 1) b) of
           (b', False) \<Rightarrow> (b', Inl BadVector)
         | (b', True) \<Rightarrow> (b'\<lparr>t_table := None\<rparr>, Inr ()))"

fun transitions_loop :: "traj_env \<Rightarrow> string \<Rightarrow> string \<Rightarrow> nat \<Rightarrow> nat \<Rightarrow> transition list \<Rightarrow> tbuf \<Rightarrow> tbuf \<times> bool" where
  "transitions_loop E sid mj base i [] b = (b, True)"
| "transitions_loop E sid mj base i (x # xs) b =
     (case push_transition E sid mj (base + i) x b of
        (b', False) \<Rightarrow> (b', False)
      | (b', True) \<Rightarrow> transitions_loop E sid mj base (Suc i) xs b')"

definition append_transitions ::
  "traj_env \<Rightarrow> transition list \<Rightarrow> string \<Rightarrow> meta option \<Rightarrow> tbuf \<Rightarrow> tbuf \<times> (traj_error + unit)" where
  "append_transitions E xs session_id metadata b =
     (if xs = [] then (b, Inr ())
      else
        let base = length (t_steps b)
        in case transitions_loop E session_id (dump_metadata E metadata) base 0 xs (ensure_capacity (base + length xs) b) of
             (b', False) \<Rightarrow> (b', Inl BadVector)
           | (b', True) \<Rightarrow> (b'\<lparr>t_table := None\<rparr>, Inr ()))"

definition clear_tbuf :: "tbuf \<Rightarrow> tbuf" where
  "clear_tbuf b =
     b\<lparr>t_steps := [], t_times := [], t_sess := [], t_lat := map (map (\<lambda>_. 0)) (t_lat b), t_acts := [],
       t_rews := [], t_uncs := [], t_metas := [], t_table := None\<rparr>"

section \<open>Reading\<close>

definition latent_matrix :: "tbuf \<Rightarrow> rat list list" where
  "latent_matrix b = take (length (t_steps b)) (t_lat b)"

definition build_table :: "tbuf \<Rightarrow> table" where
  "build_table b =
     \<lparr>tb_steps = t_steps b, tb_times = t_times b, tb_sess = t_sess b, tb_lat = latent_matrix b, tb_acts = t_acts b,
      tb_rews = t_rews b, tb_uncs = t_uncs b, tb_metas = t_metas b\<rparr>"

text \<open>\<open>to_arrow_table\<close> with Arrow installed: the cached table, nothing for an empty buffer, or a new table.\<close>

definition to_arrow_table :: "tbuf \<Rightarrow> tbuf \<times> (traj_error + table option)" where
  "to_arrow_table b =
     (case t_table b of
        Some t \<Rightarrow> (b, Inr (Some t))
      | None \<Rightarrow>
          if t_steps b = [] then (b, Inr None)
          else if \<exists>s \<in> set (t_steps b). s < - (2 ^ 63) \<or> 2 ^ 63 \<le> s then (b, Inl IntRange)
          else (b\<lparr>t_table := Some (build_table b)\<rparr>, Inr (Some (build_table b))))"

record batch =
  b_steps :: "int list"
  b_times :: "rat list"
  b_lat :: "rat list list"
  b_acts :: "string list"
  b_rews :: "rat list"
  b_uncs :: "rat list"
  b_size :: nat

definition py_slice :: "nat \<Rightarrow> nat \<Rightarrow> 'a list \<Rightarrow> 'a list" where
  "py_slice s e xs = take (e - s) (drop s xs)"

definition batch_at :: "tbuf \<Rightarrow> nat \<Rightarrow> nat \<Rightarrow> batch" where
  "batch_at b bs start =
     (let e = min (start + bs) (length (t_steps b))
      in \<lparr>b_steps = py_slice start e (t_steps b), b_times = py_slice start e (t_times b),
          b_lat = py_slice start e (t_lat b), b_acts = py_slice start e (t_acts b),
          b_rews = py_slice start e (t_rews b), b_uncs = py_slice start e (t_uncs b), b_size = e - start\<rparr>)"

text \<open>\<open>range(0, total, batch_size)\<close>: no step for a negative size, an exception for zero.\<close>

definition stream_batches :: "int \<Rightarrow> tbuf \<Rightarrow> traj_error + batch list" where
  "stream_batches batch_size b =
     (let total = length (t_steps b) in
      if total = 0 then Inr []
      else if batch_size = 0 then Inl BadBatchSize
      else if batch_size < 0 then Inr []
      else let bs = nat batch_size
           in Inr (map (\<lambda>k. batch_at b bs (k * bs)) [0..<(total + bs - 1) div bs]))"

text \<open>
  \<open>load_from_parquet\<close>: a file may lack columns. If the values of the latent column do not fill the
  matrix exactly, its rows are assigned as they are, which raises on rows of different lengths.
\<close>

record parquet =
  pq_steps :: "int list option"
  pq_times :: "rat list option"
  pq_sess :: "string list option"
  pq_lat :: "rat list list option"
  pq_acts :: "string list option"
  pq_rews :: "rat list option"
  pq_uncs :: "rat list option"
  pq_metas :: "string list option"

definition col :: "'a list option \<Rightarrow> 'a list" where
  "col c = (case c of None \<Rightarrow> [] | Some xs \<Rightarrow> xs)"

fun reshape :: "nat \<Rightarrow> nat \<Rightarrow> 'a list \<Rightarrow> 'a list list" where
  "reshape 0 d xs = []"
| "reshape (Suc n) d xs = take d xs # reshape n d (drop d xs)"

text \<open>\<open>array[:len(rows)] = rows\<close>.\<close>

definition overwrite :: "rat list list \<Rightarrow> rat list list \<Rightarrow> rat list list" where
  "overwrite rows lat = rows @ drop (length rows) lat"

definition set_latent_vectors :: "rat list list \<Rightarrow> tbuf \<Rightarrow> tbuf option" where
  "set_latent_vectors rows b =
     (let b1 = ensure_capacity (length rows) b in
      if rows = [] then Some b1
      else if \<forall>r \<in> set rows. length r = t_dim b then Some (b1\<lparr>t_lat := overwrite rows (t_lat b1)\<rparr>)
      else if \<forall>r \<in> set rows. length r = 1
      then Some (b1\<lparr>t_lat := overwrite (map (\<lambda>r. replicate (t_dim b) (hd r)) rows) (t_lat b1)\<rparr>)
      else None)"

definition load_latent :: "rat list list \<Rightarrow> tbuf \<Rightarrow> tbuf option" where
  "load_latent rows b =
     (let flat = concat rows; n = length (t_steps b); b1 = ensure_capacity n b in
      if length flat = n * t_dim b \<and> 0 < n
      then Some (b1\<lparr>t_lat := overwrite (reshape n (t_dim b) flat) (t_lat b1)\<rparr>)
      else set_latent_vectors rows b1)"

definition load_from_parquet :: "nat \<Rightarrow> parquet \<Rightarrow> tbuf option" where
  "load_from_parquet state_dim p =
     (let b = (new_tbuf state_dim 10000)\<lparr>t_steps := col (pq_steps p), t_times := col (pq_times p), t_sess := col (pq_sess p)\<rparr>
      in case (case pq_lat p of None \<Rightarrow> Some b | Some rows \<Rightarrow> load_latent rows b) of
           None \<Rightarrow> None
         | Some b' \<Rightarrow>
             Some (b'\<lparr>t_acts := col (pq_acts p), t_rews := col (pq_rews p), t_uncs := col (pq_uncs p), t_metas := col (pq_metas p)\<rparr>))"

text \<open>The file that \<open>dump_to_parquet\<close> writes.\<close>

definition parquet_of_table :: "table \<Rightarrow> parquet" where
  "parquet_of_table t =
     \<lparr>pq_steps = Some (tb_steps t), pq_times = Some (tb_times t), pq_sess = Some (tb_sess t), pq_lat = Some (tb_lat t),
      pq_acts = Some (tb_acts t), pq_rews = Some (tb_rews t), pq_uncs = Some (tb_uncs t), pq_metas = Some (tb_metas t)\<rparr>"

definition max_step_id :: "tbuf \<Rightarrow> int" where
  "max_step_id b = (if t_steps b = [] then 0 else Max (set (t_steps b)))"

section \<open>Trajectories of the sessions\<close>

record item =
  i_id :: int
  i_act :: string
  i_rew :: rat
  i_meta :: string

record tstep =
  ts_id :: int
  ts_act :: string
  ts_extra :: "(pyval \<times> pyval) option"

record trajectory =
  tj_session :: string
  tj_steps :: "tstep list"
  tj_success :: bool
  tj_max :: int

fun items_of :: "string list \<Rightarrow> int list \<Rightarrow> string list \<Rightarrow> rat list \<Rightarrow> string list \<Rightarrow> (string \<times> item) list" where
  "items_of (s # ss) (i # is) (a # as) (r # rs) (m # ms) =
     (s, \<lparr>i_id = i, i_act = a, i_rew = r, i_meta = m\<rparr>) # items_of ss is as rs ms"
| "items_of _ _ _ _ _ = []"

fun group_items :: "(string \<times> item) list \<Rightarrow> (string, item list) dict \<Rightarrow> (string, item list) dict" where
  "group_items [] g = g"
| "group_items ((s, x) # xs) g = group_items xs (dset s (dget_default g s [] @ [x]) g)"

text \<open>The metadata of a step that comes from a real trajectory.\<close>

definition real_item_meta :: "traj_env \<Rightarrow> string \<Rightarrow> meta option" where
  "real_item_meta E mj =
     (case (if mj = [] then Some (VDict []) else json_loads (tv_fp E) (to_ustr mj)) of
        Some (VDict m) \<Rightarrow> if dget m ''origin'' = Some (VStr ''real'') \<and> dget m ''success'' \<noteq> None then Some m else None
      | _ \<Rightarrow> None)"

definition make_tstep :: "traj_env \<Rightarrow> item \<Rightarrow> tstep" where
  "make_tstep E x =
     \<lparr>ts_id = i_id x, ts_act = i_act x,
      ts_extra = map_option (\<lambda>m. (py_or (meta_get m ''parameters'') (VDict []), meta_get m ''error''))
        (real_item_meta E (i_meta x))\<rparr>"

definition real_flags :: "traj_env \<Rightarrow> item list \<Rightarrow> bool list" where
  "real_flags E xs = List.map_filter (\<lambda>x. map_option (\<lambda>m. meta_flag m ''success'') (real_item_meta E (i_meta x))) xs"

definition is_success :: "bool list \<Rightarrow> rat list \<Rightarrow> bool" where
  "is_success flags rewards =
     (if length flags = length rewards \<and> flags \<noteq> [] then
        (\<forall>f \<in> set flags. f) \<or> (last flags \<and> length flags \<le> 2 * length (filter id flags))
      else if rewards = [] then True
      else (0 \<le> sum_list rewards / of_nat (length rewards) \<and> 0 \<le> last rewards) \<or> 0 < sum_list rewards)"

definition make_trajectory :: "traj_env \<Rightarrow> string \<times> item list \<Rightarrow> trajectory" where
  "make_trajectory E g =
     (case g of (sid, xs) \<Rightarrow>
        \<lparr>tj_session = sid, tj_steps = map (make_tstep E) xs, tj_success = is_success (real_flags E xs) (map i_rew xs),
         tj_max = Max (set (map i_id xs))\<rparr>)"

definition trajectories :: "traj_env \<Rightarrow> tbuf \<Rightarrow> trajectory list" where
  "trajectories E b =
     (if t_steps b = [] then []
      else map (make_trajectory E) (group_items (items_of (t_sess b) (t_steps b) (t_acts b) (t_rews b) (t_metas b)) []))"

definition get_session_trajectories :: "traj_env \<Rightarrow> string \<Rightarrow> tbuf \<Rightarrow> trajectory list" where
  "get_session_trajectories E sid b = filter (\<lambda>t. tj_session t = sid) (trajectories E b)"

section \<open>The columns\<close>

text \<open>
  Every column has one entry per step, the matrix has a row of the right length for every unit of capacity, which
  is at least the number of steps, and a cached table is the table of the current columns.
\<close>

definition aligned :: "tbuf \<Rightarrow> bool" where
  "aligned b \<longleftrightarrow>
     (let n = length (t_steps b) in
      length (t_times b) = n \<and> length (t_sess b) = n \<and> length (t_acts b) = n \<and> length (t_rews b) = n
      \<and> length (t_uncs b) = n \<and> length (t_metas b) = n \<and> n \<le> t_cap b \<and> length (t_lat b) = t_cap b
      \<and> (\<forall>r \<in> set (t_lat b). length r = t_dim b))"

definition cache_ok :: "tbuf \<Rightarrow> bool" where
  "cache_ok b \<longleftrightarrow> (case t_table b of None \<Rightarrow> True | Some t \<Rightarrow> t = build_table b)"

lemma zero_rows_simps [simp]: "length (zero_rows n d) = n" "r \<in> set (zero_rows n d) \<Longrightarrow> length r = d"
  by (simp_all add: zero_rows_def)

lemma aligned_new: "aligned (new_tbuf d c)"
  by (simp add: aligned_def new_tbuf_def Let_def)

lemma ensure_capacity_simps [simp]:
  "t_steps (ensure_capacity n b) = t_steps b" "t_times (ensure_capacity n b) = t_times b"
  "t_sess (ensure_capacity n b) = t_sess b" "t_acts (ensure_capacity n b) = t_acts b"
  "t_rews (ensure_capacity n b) = t_rews b" "t_uncs (ensure_capacity n b) = t_uncs b"
  "t_metas (ensure_capacity n b) = t_metas b" "t_dim (ensure_capacity n b) = t_dim b"
  "t_table (ensure_capacity n b) = t_table b"
  by (simp_all add: ensure_capacity_def Let_def)

lemma ensure_capacity_cap: "n \<le> t_cap (ensure_capacity n b) \<and> t_cap b \<le> t_cap (ensure_capacity n b)"
  by (auto simp: ensure_capacity_def Let_def)

lemma ensure_capacity_aligned: "aligned b \<Longrightarrow> aligned (ensure_capacity n b)"
  by (auto simp: aligned_def ensure_capacity_def Let_def dest: in_set_takeD)

lemma ensure_capacity_latent: "aligned b \<Longrightarrow> k \<le> t_cap b \<Longrightarrow> take k (t_lat (ensure_capacity n b)) = take k (t_lat b)"
  by (auto simp: aligned_def ensure_capacity_def Let_def min_def)

text \<open>What one step adds, if it does not raise.\<close>

definition extends :: "tbuf \<Rightarrow> int \<Rightarrow> string \<Rightarrow> rat list \<Rightarrow> tbuf \<Rightarrow> bool" where
  "extends b step sid row b' \<longleftrightarrow>
     t_steps b' = t_steps b @ [step] \<and> t_sess b' = t_sess b @ [sid] \<and> latent_matrix b' = latent_matrix b @ [row]
     \<and> t_cap b' = t_cap b \<and> t_dim b' = t_dim b"

lemma take_Suc_update: "n < length xs \<Longrightarrow> take (Suc n) (xs[n := x]) = take n xs @ [x]"
  by (simp add: take_Suc_conv_app_nth)

lemma row_added:
  assumes "aligned b" "length (t_steps b) < t_cap b" "length row = t_dim b"
  shows "aligned (push_back_columns a r u ((push_front_columns s t sid b)
      \<lparr>t_lat := (t_lat (push_front_columns s t sid b))[length (t_steps b) := row]\<rparr>)
      \<lparr>t_metas := t_metas b @ [m]\<rparr>)"
    and "extends b s sid row (push_back_columns a r u ((push_front_columns s t sid b)
      \<lparr>t_lat := (t_lat (push_front_columns s t sid b))[length (t_steps b) := row]\<rparr>)
      \<lparr>t_metas := t_metas b @ [m]\<rparr>)"
  using assms set_update_subset_insert [of "t_lat b" "length (t_steps b)" row]
  by (auto simp: aligned_def push_back_columns_def push_front_columns_def Let_def extends_def latent_matrix_def take_Suc_update)

lemma assign_row_length: "assign_row E d v = Some row \<Longrightarrow> length row = d"
  by (auto simp: assign_row_def split: if_splits)

lemma push_transition_ok:
  assumes "aligned b" "length (t_steps b) < t_cap b" "push_transition E sid mj (length (t_steps b)) x b = (b', True)"
  shows "\<exists>row. assign_row E (t_dim b) (x_vector x) = Some row \<and> aligned b' \<and> extends b (x_step x) sid row b'"
proof -
  from assms(3) obtain row where r: "assign_row E (t_dim b) (x_vector x) = Some row"
    by (auto simp: push_transition_def push_front_columns_def Let_def split: option.splits)
  have "b' = push_back_columns (x_action x) (x_reward x) (x_uncertainty x)
      ((push_front_columns (x_step x) (x_time x) sid b)
        \<lparr>t_lat := (t_lat (push_front_columns (x_step x) (x_time x) sid b))[length (t_steps b) := row]\<rparr>)
      \<lparr>t_metas := t_metas b @ [mj]\<rparr>"
    using assms(3) r by (simp add: push_transition_def push_front_columns_def push_back_columns_def Let_def)
  with row_added [OF assms(1,2) assign_row_length [OF r]] r show ?thesis by blast
qed

lemma record_step_ok:
  assumes "aligned b" "base + i = length (t_steps b)" "base + i < t_cap b" "record_step E sid now base i s b = (b', True)"
  shows "aligned b' \<and> extends b (int (base + i + 1)) sid (replicate (t_dim b) 0) b'"
proof -
  from assms(4) obtain ps where p: "py_dict E (py_or (meta_get s ''parameters'') (VDict [])) = Some ps"
    by (auto simp: record_step_def Let_def split: option.splits)
  have "b' = push_back_columns (step_name E s) (if step_success s then 1 else - 1) 0
      ((push_front_columns (int (base + i + 1)) (now + of_nat i / 1000) sid b)
        \<lparr>t_lat := (t_lat (push_front_columns (int (base + i + 1)) (now + of_nat i / 1000) sid b))[length (t_steps b) := replicate (t_dim b) 0]\<rparr>)
      \<lparr>t_metas := t_metas b @ [real_meta E s ps]\<rparr>"
    using assms(2,4) p by (simp add: record_step_def push_front_columns_def push_back_columns_def Let_def)
  with row_added [OF assms(1), of "replicate (t_dim b) 0"] assms(2,3) show ?thesis by (metis length_replicate)
qed

lemma record_loop_ok:
  "aligned b \<Longrightarrow> base + i = length (t_steps b) \<Longrightarrow> base + i + length ss \<le> t_cap b \<Longrightarrow>
   record_loop E sid now base i ss b = (b', True) \<Longrightarrow>
   aligned b' \<and> t_steps b' = t_steps b @ map int [base + i + 1..<base + i + 1 + length ss]
   \<and> t_sess b' = t_sess b @ replicate (length ss) sid
   \<and> latent_matrix b' = latent_matrix b @ replicate (length ss) (replicate (t_dim b) 0)"
proof (induction ss arbitrary: i b)
  case (Cons s ss)
  from Cons.prems(4) obtain b1 where s: "record_step E sid now base i s b = (b1, True)"
    and l: "record_loop E sid now base (Suc i) ss b1 = (b', True)" by (auto split: prod.splits bool.splits)
  have x: "aligned b1 \<and> extends b (int (base + i + 1)) sid (replicate (t_dim b) 0) b1"
    by (rule record_step_ok [OF Cons.prems(1,2) _ s]) (use Cons.prems(3) in simp)
  have "base + Suc i = length (t_steps b1)" "base + Suc i + length ss \<le> t_cap b1"
    using x Cons.prems(2,3) by (auto simp: extends_def)
  moreover have "[base + i + 1..<base + i + 1 + length (s # ss)] = (base + i + 1) # [base + Suc i + 1..<base + Suc i + 1 + length ss]"
    by (subst upt_conv_Cons) simp_all
  ultimately show ?case using Cons.IH [OF _ _ _ l] x by (simp add: extends_def del: upt_Suc)
qed simp

lemma transitions_loop_ok:
  "aligned b \<Longrightarrow> base + i = length (t_steps b) \<Longrightarrow> base + i + length xs \<le> t_cap b \<Longrightarrow>
   transitions_loop E sid mj base i xs b = (b', True) \<Longrightarrow>
   aligned b' \<and> t_steps b' = t_steps b @ map x_step xs \<and> t_sess b' = t_sess b @ replicate (length xs) sid
   \<and> map Some (latent_matrix b') = map Some (latent_matrix b) @ map (\<lambda>x. assign_row E (t_dim b) (x_vector x)) xs"
proof (induction xs arbitrary: i b)
  case (Cons x xs)
  from Cons.prems(4) obtain b1 where s: "push_transition E sid mj (base + i) x b = (b1, True)"
    and l: "transitions_loop E sid mj base (Suc i) xs b1 = (b', True)" by (auto split: prod.splits bool.splits)
  have "length (t_steps b) < t_cap b" using Cons.prems(2,3) by simp
  from push_transition_ok [OF Cons.prems(1) this s [unfolded Cons.prems(2)]] obtain row where
    x: "assign_row E (t_dim b) (x_vector x) = Some row" "aligned b1" "extends b (x_step x) sid row b1" by blast
  have "base + Suc i = length (t_steps b1)" "base + Suc i + length xs \<le> t_cap b1"
    using x Cons.prems(2,3) by (auto simp: extends_def)
  from Cons.IH [OF x(2) this l] x show ?case by (simp add: extends_def)
qed simp

text \<open>The operations that write, in any order.\<close>

datatype traj_op =
    RecordReal rat "meta list" string
  | AppendOne transition string "meta option"
  | AppendAll "transition list" string "meta option"
  | ToTable
  | ClearAll

fun traj_exec :: "traj_env \<Rightarrow> traj_op \<Rightarrow> tbuf \<Rightarrow> tbuf \<times> bool" where
  "traj_exec E (RecordReal now ss sid) b =
     (case record_real_trajectory E now ss sid b of (b', Inl _) \<Rightarrow> (b', False) | (b', Inr _) \<Rightarrow> (b', True))"
| "traj_exec E (AppendOne x sid m) b =
     (case append_transition E x sid m b of (b', Inl _) \<Rightarrow> (b', False) | (b', Inr _) \<Rightarrow> (b', True))"
| "traj_exec E (AppendAll xs sid m) b =
     (case append_transitions E xs sid m b of (b', Inl _) \<Rightarrow> (b', False) | (b', Inr _) \<Rightarrow> (b', True))"
| "traj_exec E ToTable b =
     (case to_arrow_table b of (b', Inl _) \<Rightarrow> (b', False) | (b', Inr _) \<Rightarrow> (b', True))"
| "traj_exec E ClearAll b = (clear_tbuf b, True)"

fun steps_of :: "traj_op \<Rightarrow> int list \<Rightarrow> int list" where
  "steps_of (RecordReal now ss sid) old = old @ map int [length old + 1..<length old + 1 + length ss]"
| "steps_of (AppendOne x sid m) old = old @ [x_step x]"
| "steps_of (AppendAll xs sid m) old = old @ map x_step xs"
| "steps_of ToTable old = old"
| "steps_of ClearAll old = []"

lemma traj_exec_ok:
  assumes "aligned b" "cache_ok b" "traj_exec E op b = (b', True)"
  shows "aligned b' \<and> cache_ok b' \<and> t_steps b' = steps_of op (t_steps b)"
proof -
  have nc: "aligned (c\<lparr>t_table := None\<rparr>) = aligned c" "cache_ok (c\<lparr>t_table := None\<rparr>)" for c
    by (simp_all add: aligned_def cache_ok_def)
  show ?thesis
  proof (cases op)
    case (RecordReal now ss sid)
    let ?c = "ensure_capacity (length (t_steps b) + length ss) b"
    from assms(3) RecordReal obtain c where c: "record_loop E sid now (length (t_steps b)) 0 ss ?c = (c, True)"
      "b' = c\<lparr>t_table := None\<rparr>" by (auto simp: record_real_trajectory_def Let_def split: prod.splits bool.splits sum.splits)
    have "aligned c \<and> t_steps c = t_steps ?c @ map int [length (t_steps b) + 0 + 1..<length (t_steps b) + 0 + 1 + length ss]"
      using record_loop_ok [OF ensure_capacity_aligned [OF assms(1)] _ _ c(1)]
        ensure_capacity_cap [of "length (t_steps b) + length ss" b] by auto
    with c(2) nc RecordReal show ?thesis by simp
  next
    case (AppendOne x sid m)
    let ?c = "ensure_capacity (length (t_steps b) + 1) b"
    from assms(3) AppendOne obtain c where c: "push_transition E sid (dump_metadata E m) (length (t_steps ?c)) x ?c = (c, True)"
      "b' = c\<lparr>t_table := None\<rparr>" by (auto simp: append_transition_def Let_def split: prod.splits bool.splits sum.splits)
    have "length (t_steps ?c) < t_cap ?c" using ensure_capacity_cap [of "length (t_steps b) + 1" b] by simp
    from push_transition_ok [OF ensure_capacity_aligned [OF assms(1)] this c(1)] c(2) nc AppendOne
    show ?thesis by (auto simp: extends_def)
  next
    case (AppendAll xs sid m)
    show ?thesis
    proof (cases "xs = []")
      case True
      with assms AppendAll show ?thesis by (simp add: append_transitions_def)
    next
      case False
      let ?c = "ensure_capacity (length (t_steps b) + length xs) b"
      from assms(3) AppendAll False obtain c where
        c: "transitions_loop E sid (dump_metadata E m) (length (t_steps b)) 0 xs ?c = (c, True)"
        "b' = c\<lparr>t_table := None\<rparr>" by (auto simp: append_transitions_def Let_def split: prod.splits bool.splits sum.splits)
      have "aligned c \<and> t_steps c = t_steps ?c @ map x_step xs"
        using transitions_loop_ok [OF ensure_capacity_aligned [OF assms(1)] _ _ c(1)]
          ensure_capacity_cap [of "length (t_steps b) + length xs" b] by auto
      with c(2) nc AppendAll show ?thesis by simp
    qed
  next
    case ToTable
    have "aligned (b\<lparr>t_table := x\<rparr>) = aligned b" "build_table (b\<lparr>t_table := x\<rparr>) = build_table b" for x
      by (simp_all add: aligned_def build_table_def latent_matrix_def)
    with assms ToTable show ?thesis
      by (auto simp: to_arrow_table_def cache_ok_def split: option.splits if_splits)
  next
    case ClearAll
    with assms show ?thesis by (auto simp: clear_tbuf_def aligned_def cache_ok_def Let_def)
  qed
qed

section \<open>Properties\<close>

fun traj_run :: "traj_env \<Rightarrow> traj_op list \<Rightarrow> tbuf \<Rightarrow> tbuf \<times> bool" where
  "traj_run E [] b = (b, True)"
| "traj_run E (op # ops) b = (case traj_exec E op b of (b', False) \<Rightarrow> (b', False) | (b', True) \<Rightarrow> traj_run E ops b')"

lemma traj_run_ok:
  "aligned b \<Longrightarrow> cache_ok b \<Longrightarrow> traj_run E ops b = (b', True) \<Longrightarrow>
   aligned b' \<and> cache_ok b' \<and> t_steps b' = fold steps_of ops (t_steps b)"
proof (induction ops arbitrary: b)
  case (Cons op ops)
  from Cons.prems(3) obtain b1 where b1: "traj_exec E op b = (b1, True)" "traj_run E ops b1 = (b', True)"
    by (auto split: prod.splits bool.splits)
  from traj_exec_ok [OF Cons.prems(1,2) b1(1)] Cons.IH [of b1] b1(2) show ?case by simp
qed simp

text \<open>
  As long as no operation raises, the columns stay aligned: whatever is recorded, appended, converted and cleared,
  every column has one entry per step, the matrix has room for them, the cached table is the table of the
  current columns, and the steps are those of the operations in their order.
\<close>

theorem columns_stay_aligned:
  assumes "traj_run E ops (new_tbuf d c) = (b, True)"
  shows "aligned b \<and> cache_ok b \<and> t_steps b = fold steps_of ops []"
  using traj_run_ok [OF aligned_new _ assms] by (simp add: cache_ok_def new_tbuf_def Let_def)

definition toy_traj_env :: traj_env where
  "toy_traj_env = \<lparr>tv_fr = (\<lambda>_. ''0.5''), tv_fp = (\<lambda>_. 0), tv_repr = (\<lambda>_. []), tv_dict = (\<lambda>_. None), tv_f32 = (\<lambda>q. q)\<rparr>"

definition toy_move :: "rat list \<Rightarrow> transition" where
  "toy_move v = \<lparr>x_step = 7, x_time = 1, x_vector = v, x_action = ''look'', x_reward = 1, x_uncertainty = 0\<rparr>"

definition toy_real :: "meta list" where
  "toy_real = [[(''tool'', VStr ''ls'')], [(''tool'', VStr ''rm''), (''success'', VBool False)]]"

lemma traj_exec_snd: "traj_exec E op b = (b', True) \<Longrightarrow> traj_run E (op # ops) b = traj_run E ops b'"
  by simp

theorem columns_stay_aligned_witness:
  "\<exists>b. traj_run toy_traj_env [RecordReal 0 toy_real ''s'', AppendOne (toy_move [1, 2]) ''s'' None, ToTable] (new_tbuf 2 0) = (b, True)
    \<and> aligned b \<and> cache_ok b \<and> t_steps b = [1, 2, 7]"
proof -
  let ?ops = "[RecordReal 0 toy_real ''s'', AppendOne (toy_move [1, 2]) ''s'' None, ToTable]"
  have "snd (traj_run toy_traj_env ?ops (new_tbuf 2 0))"
    by (simp add: toy_real_def record_real_trajectory_def record_step_def py_dict_def meta_get_def dget_default_def
        py_or_def Let_def append_transition_def push_transition_def assign_row_def toy_move_def new_tbuf_def
        ensure_capacity_def push_front_columns_def push_back_columns_def to_arrow_table_def)
  then obtain b where b: "traj_run toy_traj_env ?ops (new_tbuf 2 0) = (b, True)"
    by (cases "traj_run toy_traj_env ?ops (new_tbuf 2 0)") auto
  from columns_stay_aligned [OF b] b show ?thesis by (auto simp: toy_real_def toy_move_def)
qed

definition toy_ops :: "traj_op list" where
  "toy_ops = [RecordReal 0 toy_real ''s'', AppendOne (toy_move [1, 2]) ''u'' None]"

definition toy_buf :: tbuf where
  "toy_buf = fst (traj_run toy_traj_env toy_ops (new_tbuf 2 0))"

lemma toy_buf_run: "traj_run toy_traj_env toy_ops (new_tbuf 2 0) = (toy_buf, True)"
proof -
  have "snd (traj_run toy_traj_env toy_ops (new_tbuf 2 0))"
    by (simp add: toy_ops_def toy_real_def record_real_trajectory_def record_step_def py_dict_def meta_get_def dget_default_def
        py_or_def Let_def append_transition_def push_transition_def assign_row_def toy_move_def new_tbuf_def
        ensure_capacity_def push_front_columns_def push_back_columns_def)
  then show ?thesis by (simp add: toy_buf_def prod_eq_iff)
qed

lemma toy_buf_facts: "aligned toy_buf" "cache_ok toy_buf" "t_steps toy_buf = [1, 2, 7]" "t_sess toy_buf = [''s'', ''s'', ''u'']"
  "t_table toy_buf = None"
proof -
  have "cache_ok (new_tbuf 2 0)" by (simp add: cache_ok_def new_tbuf_def Let_def)
  from traj_run_ok [OF aligned_new this toy_buf_run]
  show "aligned toy_buf" "cache_ok toy_buf" "t_steps toy_buf = [1, 2, 7]"
    by (simp_all add: toy_ops_def toy_real_def toy_move_def new_tbuf_def Let_def)
  show "t_sess toy_buf = [''s'', ''s'', ''u'']" "t_table toy_buf = None"
    by (simp_all add: toy_buf_def toy_ops_def toy_real_def record_real_trajectory_def record_step_def py_dict_def meta_get_def
        dget_default_def py_or_def Let_def append_transition_def push_transition_def assign_row_def toy_move_def new_tbuf_def
        ensure_capacity_def push_front_columns_def push_back_columns_def)
qed

text \<open>
  A transition whose vector has the wrong length raises after three of the columns got their entry: the
  buffer is misaligned from then on, and the entries of later steps stand beside the wrong step.
\<close>

theorem failed_append_misaligns:
  assumes "aligned b" "length (x_vector x) \<noteq> t_dim b" "length (x_vector x) \<noteq> 1"
  shows "\<exists>b'. append_transition E x sid m b = (b', Inl BadVector) \<and> \<not> aligned b'
    \<and> length (t_steps b') = Suc (length (t_steps b)) \<and> t_acts b' = t_acts b \<and> t_metas b' = t_metas b"
proof -
  let ?c = "ensure_capacity (length (t_steps b) + 1) b"
  let ?b = "push_front_columns (x_step x) (x_time x) sid ?c"
  have "assign_row E (t_dim b) (x_vector x) = None" using assms(2,3) by (simp add: assign_row_def)
  then have "append_transition E x sid m b = (?b, Inl BadVector)"
    by (simp add: append_transition_def push_transition_def push_front_columns_def Let_def)
  moreover have "length (t_steps ?b) = Suc (length (t_steps b))" "t_acts ?b = t_acts b" "t_metas ?b = t_metas b"
    by (simp_all add: push_front_columns_def)
  moreover from this assms(1) have "\<not> aligned ?b" by (auto simp: aligned_def Let_def)
  ultimately show ?thesis by blast
qed

theorem failed_append_misaligns_witness:
  "\<exists>b'. append_transition toy_traj_env (toy_move [1, 2, 3]) ''s'' None (new_tbuf 2 0) = (b', Inl BadVector) \<and> \<not> aligned b'"
  using failed_append_misaligns [OF aligned_new, of "toy_move [1, 2, 3]" 2 0 toy_traj_env "''s''" None]
  by (auto simp: toy_move_def new_tbuf_def Let_def)

lemma slice_take: "py_slice s (min (s + k) (length xs)) xs = take k (drop s xs)"
  by (simp add: py_slice_def min_def)

lemma slices_all:
  assumes "0 < bs" "n = length xs"
  shows "concat (map (\<lambda>k. py_slice (k * bs) (min (k * bs + bs) n) xs) [0..<(n + bs - Suc 0) div bs]) = xs"
proof -
  have "(n + bs - 1) mod bs < bs" using assms(1) by simp
  moreover have "n + bs - 1 = (n + bs - 1) div bs * bs + (n + bs - 1) mod bs" by simp
  ultimately have "n \<le> (n + bs - 1) div bs * bs" using assms(1) by linarith
  then show ?thesis by (simp add: assms(2) slice_take concat_pages)
qed

text \<open>
  The batches of a positive size are the columns in pieces: put together again they give every column and the matrix
  of the recorded steps, each holds at least one and at most that many steps. A size of zero raises, a negative
  one yields no batch.
\<close>

theorem batches_partition_the_columns:
  assumes "aligned b" "0 < batch_size"
  shows "\<exists>bs. stream_batches batch_size b = Inr bs
    \<and> concat (map b_steps bs) = t_steps b \<and> concat (map b_acts bs) = t_acts b \<and> concat (map b_rews bs) = t_rews b
    \<and> concat (map b_times bs) = t_times b \<and> concat (map b_uncs bs) = t_uncs b \<and> concat (map b_lat bs) = latent_matrix b
    \<and> (\<forall>x \<in> set bs. 0 < b_size x \<and> int (b_size x) \<le> batch_size \<and> length (b_steps x) = b_size x)"
proof (cases "t_steps b = []")
  case True
  with assms(1) show ?thesis by (simp add: stream_batches_def latent_matrix_def aligned_def Let_def)
next
  case False
  let ?n = "length (t_steps b)" and ?k = "nat batch_size"
  let ?bs = "map (\<lambda>k. batch_at b ?k (k * ?k)) [0..<(?n + ?k - 1) div ?k]"
  have k: "0 < ?k" "int ?k = batch_size" using assms(2) by simp_all
  have r: "stream_batches batch_size b = Inr ?bs" using False assms(2) by (simp add: stream_batches_def Let_def)
  have l: "length (t_acts b) = ?n" "length (t_rews b) = ?n" "length (t_times b) = ?n" "length (t_uncs b) = ?n"
    "length (latent_matrix b) = ?n"
    using assms(1) by (simp_all add: aligned_def latent_matrix_def Let_def)
  have lat: "py_slice s (min e ?n) (t_lat b) = py_slice s (min e ?n) (latent_matrix b)" for s e
    by (simp add: py_slice_def latent_matrix_def drop_take min_def)
  have cols: "concat (map b_steps ?bs) = t_steps b" "concat (map b_acts ?bs) = t_acts b" "concat (map b_rews ?bs) = t_rews b"
    "concat (map b_times ?bs) = t_times b" "concat (map b_uncs ?bs) = t_uncs b" "concat (map b_lat ?bs) = latent_matrix b"
    using slices_all [OF k(1) refl, of "t_steps b"] slices_all [OF k(1), of ?n "t_acts b"]
      slices_all [OF k(1), of ?n "t_rews b"] slices_all [OF k(1), of ?n "t_times b"]
      slices_all [OF k(1), of ?n "t_uncs b"] slices_all [OF k(1), of ?n "latent_matrix b"] l
    by (simp_all add: comp_def batch_at_def Let_def lat)
  have "0 < b_size x \<and> int (b_size x) \<le> batch_size \<and> length (b_steps x) = b_size x" if x: "x \<in> set ?bs" for x
  proof -
    from x obtain j where j: "x = batch_at b ?k (j * ?k)" "j < (?n + ?k - 1) div ?k" by auto
    then have "Suc j * ?k \<le> (?n + ?k - 1) div ?k * ?k" by (intro mult_le_mono1) simp
    also have "\<dots> \<le> ?n + ?k - 1" by simp
    finally have "j * ?k < ?n" using k(1) by simp
    with j(1) k have "0 < b_size x \<and> b_size x \<le> ?k \<and> length (b_steps x) = b_size x"
      by (auto simp: batch_at_def Let_def py_slice_def min_def)
    with k(2) show ?thesis by linarith
  qed
  with r cols show ?thesis by blast
qed

theorem batches_partition_the_columns_witness:
  "\<exists>bs. stream_batches 2 toy_buf = Inr bs \<and> concat (map b_steps bs) = [1, 2, 7]"
  using batches_partition_the_columns [OF toy_buf_facts(1), of 2] by (auto simp: toy_buf_facts)

lemma reshape_concat:
  "length rows = n \<Longrightarrow> \<forall>r \<in> set rows. length r = d \<Longrightarrow> reshape n d (concat rows) = rows"
  by (induction rows arbitrary: n) auto

lemma length_concat_rows: "\<forall>r \<in> set rows. length r = d \<Longrightarrow> length (concat rows) = length rows * d"
  by (induction rows) auto

lemma table_of_buffer: "cache_ok b \<Longrightarrow> to_arrow_table b = (b', Inr (Some t)) \<Longrightarrow> t = build_table b"
  by (auto simp: to_arrow_table_def cache_ok_def split: option.splits if_splits)

lemma load_latent_rows:
  assumes "length rows = length (t_steps b)" "rows \<noteq> []" "\<forall>r \<in> set rows. length r = t_dim b"
  shows "load_latent rows b = Some ((ensure_capacity (length rows) b)
    \<lparr>t_lat := rows @ drop (length rows) (t_lat (ensure_capacity (length rows) b))\<rparr>)"
  using assms length_concat_rows [OF assms(3)] reshape_concat [of rows "length (t_steps b)" "t_dim b"]
  by (simp add: load_latent_def overwrite_def Let_def) (metis assms(1) length_0_conv list.size(3))

text \<open>
  Round trip through a Parquet file: the table of a buffer with at least one step, written and loaded again
  with the same dimension, gives a buffer with the same columns and the same latent matrix, and it is aligned
  again, ready for more steps.
\<close>

theorem parquet_roundtrip:
  assumes "aligned b" "cache_ok b" "to_arrow_table b = (b', Inr (Some t))" "t_steps b \<noteq> []"
  shows "\<exists>c. load_from_parquet (t_dim b) (parquet_of_table t) = Some c \<and> aligned c \<and> build_table c = build_table b"
proof -
  let ?n = "length (t_steps b)" and ?rows = "latent_matrix b"
  define e where "e = (new_tbuf (t_dim b) 10000)\<lparr>t_steps := t_steps b, t_times := t_times b, t_sess := t_sess b\<rparr>"
  define c where "c = ((ensure_capacity ?n e)\<lparr>t_lat := ?rows @ drop ?n (t_lat (ensure_capacity ?n e))\<rparr>)
    \<lparr>t_acts := t_acts b, t_rews := t_rews b, t_uncs := t_uncs b, t_metas := t_metas b\<rparr>"
  have t: "t = build_table b" using table_of_buffer assms(2,3) .
  have rows: "length ?rows = ?n" "\<forall>r \<in> set ?rows. length r = t_dim b" "?rows \<noteq> []"
    using assms(1,4) by (auto simp: aligned_def latent_matrix_def Let_def dest: in_set_takeD)
  have e: "t_steps e = t_steps b" "t_dim e = t_dim b" by (simp_all add: e_def new_tbuf_def Let_def)
  have "load_latent ?rows e = Some ((ensure_capacity ?n e)\<lparr>t_lat := ?rows @ drop ?n (t_lat (ensure_capacity ?n e))\<rparr>)"
    using load_latent_rows [of ?rows e] rows e by simp
  then have "load_from_parquet (t_dim b) (parquet_of_table t) = Some c"
    by (simp add: load_from_parquet_def parquet_of_table_def t build_table_def col_def c_def e_def Let_def)
  moreover have lat: "length (t_lat (ensure_capacity ?n e)) = t_cap (ensure_capacity ?n e)"
    "\<forall>r \<in> set (t_lat (ensure_capacity ?n e)). length r = t_dim b"
    by (auto simp: e_def new_tbuf_def ensure_capacity_def Let_def dest: in_set_takeD)
  moreover have "aligned c"
    using assms(1) lat rows ensure_capacity_cap [of ?n e]
    by (auto simp: aligned_def c_def e_def new_tbuf_def Let_def dest: in_set_dropD)
  moreover have "build_table c = build_table b"
    using rows(1) by (simp add: build_table_def c_def e_def new_tbuf_def Let_def) (simp add: latent_matrix_def)
  ultimately show ?thesis by blast
qed

theorem parquet_roundtrip_witness:
  "\<exists>t c. to_arrow_table toy_buf = (toy_buf\<lparr>t_table := Some t\<rparr>, Inr (Some t))
    \<and> load_from_parquet (t_dim toy_buf) (parquet_of_table t) = Some c \<and> aligned c \<and> t_steps c = [1, 2, 7]"
proof -
  have t: "to_arrow_table toy_buf = (toy_buf\<lparr>t_table := Some (build_table toy_buf)\<rparr>, Inr (Some (build_table toy_buf)))"
    by (simp add: to_arrow_table_def toy_buf_facts)
  from parquet_roundtrip [OF toy_buf_facts(1,2) t] toy_buf_facts(3) obtain c where
    "load_from_parquet (t_dim toy_buf) (parquet_of_table (build_table toy_buf)) = Some c" "aligned c"
    "build_table c = build_table toy_buf" by auto
  moreover from this(3) toy_buf_facts(3) have "t_steps c = [1, 2, 7]" by (simp add: build_table_def)
  ultimately show ?thesis using t by blast
qed

lemma group_items_spec:
  "wf_dict g \<Longrightarrow> wf_dict (group_items xs g)
    \<and> set (dkeys (group_items xs g)) = set (dkeys g) \<union> fst ` set xs
    \<and> dget_default (group_items xs g) s [] = dget_default g s [] @ map snd (filter (\<lambda>p. fst p = s) xs)"
proof (induction xs arbitrary: g)
  case (Cons p xs)
  obtain k x where p: "p = (k, x)" by (cases p)
  let ?g = "dset k (dget_default g k [] @ [x]) g"
  have "wf_dict ?g" using Cons.prems by simp
  moreover have "set (dkeys ?g) = insert k (set (dkeys g))" by (rule set_dset)
  moreover have "dget_default ?g s [] = dget_default g s [] @ (if k = s then [x] else [])"
    by (simp add: dget_default_def)
  ultimately show ?case using Cons.IH [of ?g] by (simp add: p del: set_map)
qed (simp add: dget_default_def)

lemma items_of_zip:
  "length ss = length is \<Longrightarrow> length as = length is \<Longrightarrow> length rs = length is \<Longrightarrow> length ms = length is \<Longrightarrow>
   map (\<lambda>(s, x). (s, i_id x)) (items_of ss is as rs ms) = zip ss is"
  by (induction ss "is" as rs ms rule: items_of.induct) auto

text \<open>
  The trajectories are the steps grouped by session: there is exactly one for every session that recorded a
  step, it has all the step ids of that session in the order they were recorded, and its watermark is the largest
  of them.
\<close>

theorem trajectories_group_by_session:
  assumes "aligned b"
  shows "distinct (map tj_session (trajectories E b)) \<and> set (map tj_session (trajectories E b)) = set (t_sess b)
    \<and> (\<forall>t \<in> set (trajectories E b).
        map ts_id (tj_steps t) = map snd (filter (\<lambda>p. fst p = tj_session t) (zip (t_sess b) (t_steps b)))
        \<and> tj_max t = Max (set (map ts_id (tj_steps t))))"
proof (cases "t_steps b = []")
  case True
  with assms show ?thesis by (simp add: trajectories_def aligned_def Let_def)
next
  case False
  let ?xs = "items_of (t_sess b) (t_steps b) (t_acts b) (t_rews b) (t_metas b)"
  let ?g = "group_items ?xs []"
  have z: "map (\<lambda>(s, x). (s, i_id x)) ?xs = zip (t_sess b) (t_steps b)"
    by (rule items_of_zip) (use assms in \<open>simp_all add: aligned_def Let_def\<close>)
  have g: "wf_dict ?g" "set (dkeys ?g) = fst ` set ?xs"
    "dget_default ?g s [] = map snd (filter (\<lambda>p. fst p = s) ?xs)" for s
    using group_items_spec [of "[]" ?xs] by (simp_all add: dget_default_def)
  have tr: "trajectories E b = map (make_trajectory E) ?g" using False by (simp add: trajectories_def)
  have ses: "map tj_session (trajectories E b) = dkeys ?g"
    by (simp add: tr make_trajectory_def comp_def case_prod_beta)
  have "map fst ?xs = t_sess b"
    using arg_cong [OF z, of "map fst"] assms by (simp add: comp_def case_prod_beta aligned_def Let_def)
  then have "set (dkeys ?g) = set (t_sess b)" using g(2) by (metis set_map)
  moreover have "map ts_id (tj_steps t) = map snd (filter (\<lambda>p. fst p = tj_session t) (zip (t_sess b) (t_steps b)))
      \<and> tj_max t = Max (set (map ts_id (tj_steps t)))" if "t \<in> set (trajectories E b)" for t
  proof -
    from that obtain s ys where t: "t = make_trajectory E (s, ys)" "(s, ys) \<in> set ?g" unfolding tr by auto
    then have "ys = map snd (filter (\<lambda>p. fst p = s) ?xs)"
      using g(1) g(3) [of s] by (simp add: dget_default_def wf_dict_def map_of_eq_Some_iff [THEN iffD2])
    then have "map i_id ys = map snd (filter (\<lambda>p. fst p = s) (map (\<lambda>(s, x). (s, i_id x)) ?xs))"
      by (simp add: filter_map comp_def case_prod_beta)
    moreover have "map ts_id (tj_steps t) = map i_id ys" "tj_session t = s" "tj_max t = Max (set (map i_id ys))"
      by (simp_all add: t(1) make_trajectory_def make_tstep_def comp_def)
    ultimately show ?thesis by (metis z)
  qed
  ultimately show ?thesis using ses g(1) unfolding wf_dict_def by (intro conjI ballI) (simp only:, simp only:, metis+)
qed

theorem trajectories_group_by_session_witness:
  "set (map tj_session (trajectories toy_traj_env toy_buf)) = {''s'', ''u''}
    \<and> (\<exists>t \<in> set (trajectories toy_traj_env toy_buf). tj_session t = ''s'' \<and> map ts_id (tj_steps t) = [1, 2])"
proof -
  have p: "set (map tj_session (trajectories toy_traj_env toy_buf)) = set (t_sess toy_buf)"
    "t \<in> set (trajectories toy_traj_env toy_buf) \<Longrightarrow>
      map ts_id (tj_steps t) = map snd (filter (\<lambda>p. fst p = tj_session t) (zip (t_sess toy_buf) (t_steps toy_buf)))" for t
    using trajectories_group_by_session [OF toy_buf_facts(1), of toy_traj_env] by blast+
  then have s: "set (map tj_session (trajectories toy_traj_env toy_buf)) = {''s'', ''u''}" by (simp add: toy_buf_facts)
  then have "''s'' \<in> tj_session ` set (trajectories toy_traj_env toy_buf)" by simp
  then obtain t where t: "t \<in> set (trajectories toy_traj_env toy_buf)" "tj_session t = ''s''" by auto
  then have "map ts_id (tj_steps t) = [1, 2]" using p(2) [OF t(1)] by (simp add: toy_buf_facts)
  with t have "\<exists>t \<in> set (trajectories toy_traj_env toy_buf). tj_session t = ''s'' \<and> map ts_id (tj_steps t) = [1, 2]" by metis
  with s show ?thesis by (rule conjI)
qed

text \<open>
  When every step of a session comes from a real transcript, the rewards play no part in its label: it
  succeeded if no step failed, or if the last step succeeded and at least half of the steps did. A session without
  real flags is judged by its rewards.
\<close>

theorem success_of_real_sessions:
  "is_success flags rewards =
    (if flags \<noteq> [] \<and> length flags = length rewards
     then set flags \<subseteq> {True} \<or> last flags \<and> count_list flags False \<le> count_list flags True
     else 0 < sum_list rewards \<or> (0 \<le> sum_list rewards \<and> (rewards = [] \<or> 0 \<le> last rewards)))"
proof -
  have c: "count_list flags True + count_list flags False = length flags" "length (filter id flags) = count_list flags True"
    by (induction flags) auto
  have "0 \<le> sum_list rewards / of_nat (length rewards) \<longleftrightarrow> 0 \<le> sum_list rewards" if "rewards \<noteq> []"
    using that by (simp add: zero_le_divide_iff)
  moreover have "(\<forall>f \<in> set flags. f) \<longleftrightarrow> set flags \<subseteq> {True}" by auto
  ultimately show ?thesis using c by (auto simp: is_success_def)
qed

end
