(* ===== verification/StateSearch.thy ===== *)
theory StateSearch
  imports KvStore Regex
begin

text \<open>
  The two searches of \<open>l2_semantic/repositories/state_repository.py\<close> over the state variables: candidates for a query, and
  the records that the write path compares an incoming write with.

  The full-text index is SQLite's FTS5 and a parameter: \<open>fts d q n\<close> are the keys it answers for the query \<open>q\<close> on the
  database \<open>d\<close> with limit \<open>n\<close>, \<open>None\<close> when the query raises, which the code swallows. The join with the table drops
  keys that are not there. Limits that are no numbers are not modelled.
\<close>

type_synonym fts_index = "db \<Rightarrow> string \<Rightarrow> nat \<Rightarrow> string list option"

section \<open>Rows and tokens\<close>

definition exact_row :: "(ustr \<Rightarrow> rat) \<Rightarrow> db \<Rightarrow> string \<Rightarrow> (string, state_dict) dict" where
  "exact_row fp d key =
     (case dget (state_vars d) key of None \<Rightarrow> [] | Some row \<Rightarrow> [(key, row_to_state_dict fp key row)])"

definition like_rows :: "(ustr \<Rightarrow> rat) \<Rightarrow> db \<Rightarrow> string \<Rightarrow> nat \<Rightarrow> (string, state_dict) dict" where
  "like_rows fp d pat cap = rows_to_dict fp (take cap (filter (\<lambda>(k, _). sql_like pat k) (state_vars d)))"

definition fts_rows :: "(ustr \<Rightarrow> rat) \<Rightarrow> fts_index \<Rightarrow> db \<Rightarrow> string \<Rightarrow> nat \<Rightarrow> (string, state_dict) dict" where
  "fts_rows fp fts d query cap =
     (case fts d query cap of
        None \<Rightarrow> []
      | Some ks \<Rightarrow> rows_to_dict fp (take cap (List.map_filter (\<lambda>k. map_option (Pair k) (dget (state_vars d) k)) ks)))"

text \<open>The loops that add what is not there yet, the second while the result has room.\<close>

fun add_rows :: "(nat \<Rightarrow> bool) \<Rightarrow> (string, state_dict) dict \<Rightarrow> (string, state_dict) dict \<Rightarrow> (string, state_dict) dict" where
  "add_rows room [] results = results"
| "add_rows room ((k, r) # rows) results =
     (if k \<notin> set (dkeys results) \<and> room (length results) then add_rows room rows (dset k r results)
      else add_rows room rows results)"

definition search_word :: "nat \<Rightarrow> string \<Rightarrow> bool" where
  "search_word n w \<longleftrightarrow> n \<le> py_len w \<and> \<not> list_ex (\<lambda>c. c \<in> set ([CHR 0x22] @ '':*^()'')) w"

definition words_of :: "string \<Rightarrow> string list" where
  "words_of s = re_findall (Rep 1 None (Chr is_word_char)) s"

definition fts_query :: "string list \<Rightarrow> string" where
  "fts_query ts = py_join '' OR '' (map (\<lambda>t. [CHR 0x22] @ t @ [CHR 0x22, CHR ''*'']) ts)"

definition add_fts ::
  "(ustr \<Rightarrow> rat) \<Rightarrow> fts_index \<Rightarrow> db \<Rightarrow> string list \<Rightarrow> nat \<Rightarrow> (string, state_dict) dict \<Rightarrow> (string, state_dict) dict" where
  "add_fts fp fts d ts cap results =
     (if ts \<noteq> [] \<and> length results < cap then add_rows (\<lambda>n. n < cap) (fts_rows fp fts d (fts_query ts) cap) results
      else results)"

section \<open>The searches\<close>

definition search_candidates ::
  "(ustr \<Rightarrow> rat) \<Rightarrow> fts_index \<Rightarrow> string \<Rightarrow> int \<Rightarrow> string list \<Rightarrow> string list \<Rightarrow> db \<Rightarrow> (string, state_dict) dict" where
  "search_candidates fp fts query limit words stems d =
     (if query = [] \<and> words = [] \<and> stems = [] then []
      else
        let cap = nat (max 1 (min limit 500));
            q_clean = py_strip query;
            found = (if q_clean = [] then [] else exact_row fp d q_clean);
            results = (if 3 \<le> py_len q_clean \<and> CHR '':'' \<in> set q_clean
                       then add_rows (\<lambda>_. True) (like_rows fp d (q_clean @ ''%'') cap) found else found);
            given_tokens = filter (search_word 3) words @ filter (search_word 4) stems;
            search_tokens = (if given_tokens = [] \<and> q_clean \<noteq> [] then filter (search_word 3) (words_of q_clean)
                             else given_tokens)
        in add_fts fp fts d (take 8 search_tokens) cap results)"

definition get_arbitration_candidates ::
  "(pyval \<Rightarrow> string) \<Rightarrow> (ustr \<Rightarrow> rat) \<Rightarrow> fts_index \<Rightarrow> string \<Rightarrow> pyval \<Rightarrow> int \<Rightarrow> db \<Rightarrow> (string, state_dict) dict" where
  "get_arbitration_candidates rp fp fts key value limit d =
     (let cap = nat (max 1 (min limit 200));
          found = exact_row fp d key;
          root = (if CHR '':'' \<in> set key then py_split CHR '':'' key ! 0 else key);
          results = (if root \<noteq> [] \<and> 2 \<le> py_len root
                     then add_rows (\<lambda>_. True) (like_rows fp d (root @ '':%'') cap) found else found);
          tokens = filter (search_word 4) (words_of (key @ '' '' @ py_str rp (py_or value (VStr []))))
      in add_fts fp fts d (take 6 tokens) cap results)"

definition get_arbitration_candidates_sync ::
  "(pyval \<Rightarrow> string) \<Rightarrow> (ustr \<Rightarrow> rat) \<Rightarrow> fts_index \<Rightarrow> string \<Rightarrow> pyval \<Rightarrow> int \<Rightarrow> kv \<Rightarrow> kv_error + (string, state_dict) dict" where
  "get_arbitration_candidates_sync rp fp fts key value limit s =
     (if conn_open s then Inr (get_arbitration_candidates rp fp fts key value limit (kdb s)) else Inl ConnectionClosed)"

section \<open>What a search answers\<close>

text \<open>Every pair is a row of the table under its own key.\<close>

definition rows_of :: "(ustr \<Rightarrow> rat) \<Rightarrow> db \<Rightarrow> (string, state_dict) dict \<Rightarrow> bool" where
  "rows_of fp d res \<longleftrightarrow>
     (\<forall>(k, r) \<in> set res. \<exists>row. dget (state_vars d) k = Some row \<and> r = row_to_state_dict fp k row)"

named_theorems search_simps \<open>results that are rows of the table\<close>

lemma rows_of_rows_to_dict:
  "(\<And>k row. (k, row) \<in> set rows \<Longrightarrow> dget (state_vars d) k = Some row) \<Longrightarrow> rows_of fp d (rows_to_dict fp rows)"
  by (force simp: rows_of_def rows_to_dict_def)

lemma rows_of_exact [search_simps]: "rows_of fp d (exact_row fp d key)"
  by (cases "dget (state_vars d) key") (auto simp: rows_of_def exact_row_def)

lemma wf_exact [search_simps]: "wf_dict (exact_row fp d key)"
  by (simp add: exact_row_def wf_dict_def split: option.split)

lemma rows_of_like [search_simps]:
  assumes "wf_dict (state_vars d)"
  shows "rows_of fp d (like_rows fp d pat cap)"
  unfolding like_rows_def
  by (rule rows_of_rows_to_dict) (use assms in \<open>auto simp: wf_dict_def dest!: in_set_takeD\<close>)

lemma rows_of_fts [search_simps]: "rows_of fp d (fts_rows fp fts d q cap)"
proof (cases "fts d q cap")
  case (Some ks)
  show ?thesis unfolding fts_rows_def Some option.case
    by (rule rows_of_rows_to_dict) (auto simp: List.map_filter_def dest!: in_set_takeD)
qed (simp add: fts_rows_def rows_of_def)

lemma add_rows_in: "p \<in> set (add_rows room rows res) \<Longrightarrow> p \<in> set rows \<or> p \<in> set res"
proof (induction room rows res rule: add_rows.induct)
  case (2 room k r rows results)
  have "set (dset k r results) \<subseteq> insert (k, r) (set results)" if "k \<notin> set (dkeys results)"
    using that by (induction results) auto
  with 2 show ?case by (auto split: if_split_asm)
qed simp

lemma rows_of_add [search_simps]: "rows_of fp d rows \<Longrightarrow> rows_of fp d res \<Longrightarrow> rows_of fp d (add_rows room rows res)"
  by (auto simp: rows_of_def dest!: add_rows_in)

lemma add_rows_keeps: "dget res k = Some r \<Longrightarrow> dget (add_rows room rows res) k = Some r"
proof (induction room rows res rule: add_rows.induct)
  case (2 room k' r' rows results)
  then show ?case by (cases "k' = k") (auto dest: dget_in_keys)
qed simp

lemma wf_add_rows [search_simps]: "wf_dict res \<Longrightarrow> wf_dict (add_rows room rows res)"
  by (induction room rows res rule: add_rows.induct) (auto simp: wf_dict_dset)

lemma length_add_rows_room: "length res \<le> cap \<Longrightarrow> length (add_rows (\<lambda>n. n < cap) rows res) \<le> cap"
  by (induction "\<lambda>n. n < cap" rows res rule: add_rows.induct) (auto simp: length_dset)

lemma length_add_rows: "length (add_rows room rows res) \<le> length rows + length res"
  by (induction room rows res rule: add_rows.induct) (auto simp: length_dset intro: le_SucI le_trans)

lemma length_exact: "length (exact_row fp d key) \<le> 1"
  by (simp add: exact_row_def split: option.split)

lemma add_fts_facts:
  shows "rows_of fp d res \<Longrightarrow> rows_of fp d (add_fts fp fts d ts cap res)"
    and "dget res k = Some r \<Longrightarrow> dget (add_fts fp fts d ts cap res) k = Some r"
    and "wf_dict res \<Longrightarrow> wf_dict (add_fts fp fts d ts cap res)"
    and "length res \<le> n \<Longrightarrow> cap \<le> n \<Longrightarrow> length (add_fts fp fts d ts cap res) \<le> n"
  using length_add_rows_room [of res cap "fts_rows fp fts d (fts_query ts) cap"]
  by (auto simp: add_fts_def search_simps add_rows_keeps)

lemma arbitration_candidates_empty:
  assumes "state_vars d = []"
  shows "get_arbitration_candidates rp fp fts key value limit d = []"
proof -
  have "like_rows fp d pat cap = []" "fts_rows fp fts d q cap = []" "exact_row fp d key = []" for pat cap q
    using assms by (auto simp: like_rows_def fts_rows_def exact_row_def rows_to_dict_def List.map_filter_def split: option.split)
  then show ?thesis by (simp add: get_arbitration_candidates_def add_fts_def Let_def)
qed

text \<open>
  What the arbiter gets to see: every candidate is a stored row under its own key, read back by the store; the record of the
  written key is among them whenever it is stored, whatever the full-text index answers; no key comes twice, and there are at most
  one more than the limit (itself capped at 200).
\<close>

theorem arbitration_candidates_are_stored:
  assumes "wf_dict (state_vars d)" "get_arbitration_candidates rp fp fts key value limit d = res"
  shows "(\<forall>(k, r) \<in> set res. \<exists>row. dget (state_vars d) k = Some row \<and> r = row_to_state_dict fp k row)
    \<and> dget res key = map_option (row_to_state_dict fp key) (dget (state_vars d) key)
    \<and> distinct (dkeys res) \<and> length res \<le> Suc (nat (max 1 (min limit 200)))"
proof -
  define cap where "cap = nat (max 1 (min limit 200))"
  define root where "root = (if CHR '':'' \<in> set key then py_split CHR '':'' key ! 0 else key)"
  define base where "base = (if root \<noteq> [] \<and> 2 \<le> py_len root
    then add_rows (\<lambda>_. True) (like_rows fp d (root @ '':%'') cap) (exact_row fp d key) else exact_row fp d key)"
  have res: "res = add_fts fp fts d (take 6 (filter (search_word 4) (words_of (key @ '' '' @ py_str rp (py_or value (VStr [])))))) cap base"
    by (simp only: assms(2) [symmetric] get_arbitration_candidates_def Let_def cap_def root_def base_def)
  have wf: "wf_dict base" and rows: "rows_of fp d base"
    using assms(1) by (simp_all add: base_def search_simps)
  have len: "length base \<le> Suc cap"
  proof -
    have "length (like_rows fp d (root @ '':%'') cap) \<le> cap" by (simp add: like_rows_def rows_to_dict_def)
    with length_add_rows [of "\<lambda>_. True" "like_rows fp d (root @ '':%'') cap" "exact_row fp d key"] length_exact [of fp d key]
    show ?thesis by (auto simp: base_def)
  qed
  have found: "dget base key = Some (row_to_state_dict fp key row)" if "dget (state_vars d) key = Some row" for row
    using that by (simp add: base_def exact_row_def add_rows_keeps)
  note facts = add_fts_facts(1) [OF rows] add_fts_facts(2) [OF found] add_fts_facts(3) [OF wf] add_fts_facts(4) [OF len]
  from facts(1) have r: "rows_of fp d res" unfolding res .
  have "dget res key = map_option (row_to_state_dict fp key) (dget (state_vars d) key)"
  proof (cases "dget (state_vars d) key")
    case None
    with r have "key \<notin> set (dkeys res)" by (force simp: rows_of_def)
    then have "dget res key = None" by (simp only: dget_None_iff not_False_eq_True)
    with None show ?thesis by simp
  next
    case (Some row)
    from facts(2) [OF this] Some show ?thesis unfolding res by simp
  qed
  with r facts(3,4) show ?thesis unfolding res by (simp add: rows_of_def wf_dict_def cap_def)
qed

definition two_rows :: db where
  "two_rows = empty_db\<lparr>state_vars :=
     [(''svc:port'', \<lparr>s_value = ''1'', s_confidence = 1, s_timestamp = 0, s_metadata = None, s_value_hash = None\<rparr>),
      (''svc:host'', \<lparr>s_value = ''2'', s_confidence = 1, s_timestamp = 0, s_metadata = None, s_value_hash = None\<rparr>)]\<rparr>"

theorem arbitration_candidates_are_stored_witness:
  "dget (get_arbitration_candidates (\<lambda>_. []) (\<lambda>_. 0) (\<lambda>_ _ _. None) ''svc:host'' VNone 5 two_rows) ''svc:host'' \<noteq> None"
  using arbitration_candidates_are_stored [of two_rows "\<lambda>_. []" "\<lambda>_. 0" "\<lambda>_ _ _. None" "''svc:host''" VNone 5]
  by (simp add: two_rows_def wf_dict_def)

end
