(* ===== verification/Lexicon.thy ===== *)
theory Lexicon
  imports Regex
begin

text \<open>
  \<open>cognitive/lexicon.py\<close>: the vocabulary of the conflict arbiter, its stemmer for Polish, and how it takes tokens,
  prohibited terms, exclusive targets and actions out of a text.

  The nine Polish letters are two bytes each in UTF-8; \<open>pl\<close> writes them as a slash and their base letter
  (\<open>/x\<close> is z with acute, \<open>/z\<close> z with dot). Lower case is that of ASCII and of these letters. A text is cut into its code
  points (\<open>cps\<close>); a greedy class of at least three characters matches exactly the maximal runs of that length.

  The stop words (resource files and spaCy) and the tools of the domain profiles are data outside the code, the
  fields of \<open>lexicon\<close>. The order in which CPython iterates a set of texts is unspecified, so sets are sets.
\<close>

section \<open>Texts in Polish\<close>

definition polish_lower :: "(char \<times> string) list" where
  "polish_lower =
     [(CHR ''a'', [CHR 0xC4, CHR 0x85]), (CHR ''c'', [CHR 0xC4, CHR 0x87]), (CHR ''e'', [CHR 0xC4, CHR 0x99]),
      (CHR ''l'', [CHR 0xC5, CHR 0x82]), (CHR ''n'', [CHR 0xC5, CHR 0x84]), (CHR ''o'', [CHR 0xC3, CHR 0xB3]),
      (CHR ''s'', [CHR 0xC5, CHR 0x9B]), (CHR ''x'', [CHR 0xC5, CHR 0xBA]), (CHR ''z'', [CHR 0xC5, CHR 0xBC])]"

definition polish_upper :: "(string \<times> string) list" where
  "polish_upper =
     [([CHR 0xC4, CHR 0x84], [CHR 0xC4, CHR 0x85]), ([CHR 0xC4, CHR 0x86], [CHR 0xC4, CHR 0x87]),
      ([CHR 0xC4, CHR 0x98], [CHR 0xC4, CHR 0x99]), ([CHR 0xC5, CHR 0x81], [CHR 0xC5, CHR 0x82]),
      ([CHR 0xC5, CHR 0x83], [CHR 0xC5, CHR 0x84]), ([CHR 0xC3, CHR 0x93], [CHR 0xC3, CHR 0xB3]),
      ([CHR 0xC5, CHR 0x9A], [CHR 0xC5, CHR 0x9B]), ([CHR 0xC5, CHR 0xB9], [CHR 0xC5, CHR 0xBA]),
      ([CHR 0xC5, CHR 0xBB], [CHR 0xC5, CHR 0xBC])]"

fun pl :: "string \<Rightarrow> string" where
  "pl [] = []"
| "pl [c] = [c]"
| "pl (c # d # s) =
     (if c = CHR ''/'' then (case map_of polish_lower d of Some u \<Rightarrow> u | None \<Rightarrow> [d]) @ pl s else c # pl (d # s))"

text \<open>The code points of a text, each as its bytes.\<close>

fun cps :: "string \<Rightarrow> string list" where
  "cps [] = []"
| "cps (c # s) =
     (case cps s of
        [] \<Rightarrow> [[c]]
      | u # us \<Rightarrow> if u \<noteq> [] \<and> is_continuation_byte (hd u) then (c # u) # us else [c] # u # us)"

definition lower_cp :: "string \<Rightarrow> string" where
  "lower_cp u =
     (if length u = 1 then map lower_char u else case map_of polish_upper u of Some v \<Rightarrow> v | None \<Rightarrow> u)"

definition lower_pl :: "string \<Rightarrow> string" where
  "lower_pl s = concat (map lower_cp (cps s))"

definition is_alnum :: "char \<Rightarrow> bool" where
  "is_alnum c = (let n = of_char c :: nat in (48 \<le> n \<and> n \<le> 57) \<or> (65 \<le> n \<and> n \<le> 90) \<or> (97 \<le> n \<and> n \<le> 122))"

definition polish_cps :: "string list" where
  "polish_cps = map snd polish_lower @ map fst polish_upper"

definition is_word_cp :: "string \<Rightarrow> bool" where
  "is_word_cp u = (case u of [c] \<Rightarrow> is_alnum c | _ \<Rightarrow> u \<in> set polish_cps)"

function runs :: "('a \<Rightarrow> bool) \<Rightarrow> 'a list \<Rightarrow> 'a list list" where
  "runs P [] = []"
| "runs P (x # xs) = (if P x then (x # takeWhile P xs) # runs P (dropWhile P xs) else runs P xs)"
  by pat_completeness auto
termination
  by (relation "measure (\<lambda>(P, xs). length xs)") (auto simp: length_dropWhile_le le_imp_less_Suc)

fun split_on :: "('a \<Rightarrow> bool) \<Rightarrow> 'a list \<Rightarrow> 'a list list" where
  "split_on P [] = [[]]"
| "split_on P (x # xs) =
     (if P x then [] # split_on P xs
      else case split_on P xs of [] \<Rightarrow> [[x]] | y # ys \<Rightarrow> (x # y) # ys)"

text \<open>\<open>re.findall('[a-zA-Z0-9\<close> and the Polish letters \<open>]{3,}', s)\<close>.\<close>

definition find_words :: "string \<Rightarrow> string list" where
  "find_words s = map concat (filter (\<lambda>r. 3 \<le> length r) (runs is_word_cp (cps s)))"

section \<open>Vocabulary\<close>

record lexicon =
  lx_stop :: "string \<Rightarrow> bool"
  lx_tools :: "string list"

definition exclusivity_words :: "string list" where
  "exclusivity_words = map pl [''wy/l/acznie'', ''tylko'', ''jedynie'', ''sole'', ''solely'', ''exclusively'', ''only'']"

definition prohibition_words :: "string list" where
  "prohibition_words = map pl [''nie'', ''not'', ''brak'', ''never'', ''nigdy'', ''zabronione'', ''zabroni/l'', ''zabrania'', ''zakaz'',
     ''zakazane'', ''odrzucona'', ''bypasses'', ''usuni/ety'', ''forbid'', ''forbidden'', ''prohibited'',
     ''disallow'', ''disallowed'', ''bez'', ''zabrania/c'', ''zabroniony'']"

definition affirmative_words :: "string list" where
  "affirmative_words = map pl [''uses'', ''u/zywa'', ''u/zywa/c'', ''u/zywamy'', ''is'', ''jest'', ''requires'', ''enabled'', ''active'',
     ''zawsze'', ''always'', ''allow'', ''allowed'', ''wykonujemy'', ''zezwala'', ''pozwala'', ''zezw/ol'',
     ''stosujemy'', ''stosuje'', ''stosowa/c'', ''dozwolone'', ''dozwolony'', ''dozwolona'', ''wykonaj'']"

definition control_words :: "string set" where
  "control_words = set exclusivity_words \<union> set prohibition_words \<union> set affirmative_words"

definition stop_word :: "lexicon \<Rightarrow> string \<Rightarrow> bool" where
  "stop_word L w \<longleftrightarrow> lx_stop L w \<and> w \<notin> set exclusivity_words \<union> set prohibition_words"

definition generic_words :: "string list" where
  "generic_words = map pl [''narz/edzia'', ''narz/edzie'', ''narz/edzi'', ''tool'', ''tools'', ''funkcja'', ''funkcji'', ''metoda'',
     ''metody'', ''spos/ob'', ''sposobu'', ''kod'', ''kodu'', ''rzecz'', ''rzeczy'', ''rule'', ''state'',
     ''fact'', ''config'', ''system'', ''memory'', ''atlas'', ''test'', ''variable'', ''item'', ''default'',
     ''warto/s/c'', ''parametr'', ''opcja'', ''u/zytkownika'', ''action'', ''task'', ''preference'',
     ''sensor'', ''architecture'']"

definition developer_tools :: "lexicon \<Rightarrow> string set" where
  "developer_tools L =
     (if lx_tools L \<noteq> [] then set (lx_tools L)
      else set [''git'', ''python'', ''pytest'', ''bash'', ''sh'', ''zsh'', ''npm'', ''cargo'', ''docker'', ''pip'',
        ''pixi'', ''node'', ''linux'', ''sqlite'', ''redis'', ''postgres'', ''postgresql'', ''mysql'',
        ''qdrant'', ''kuzu'', ''hermes'', ''github'', ''gitlab'', ''conda'', ''vscode'', ''react'', ''fastapi''])"

definition action_prefixes :: "string list" where
  "action_prefixes = map pl [''wdra/z'', ''deploy'', ''instal'', ''urucham'', ''commit'', ''push'', ''merge'', ''budow'', ''build'',
     ''test'', ''zapis'', ''sync'', ''read'', ''writ'', ''zarz/adz'', ''edycj'', ''logow'', ''pobier'',
     ''usuw'', ''dost/ep'', ''access'', ''stor'']"

definition environment_tokens :: "string list" where
  "environment_tokens = [''staging'', ''prod'', ''production'', ''dev'', ''development'', ''test'', ''testing'', ''local'']"

definition functional_slots :: "string list" where
  "functional_slots = [''port'', ''ip'', ''status'', ''version'', ''email'', ''role'', ''active'', ''engine'', ''host'',
     ''state'', ''mode'', ''protocol'', ''timeout'', ''ttl'', ''temperature'', ''speed'', ''name'',
     ''license'', ''branch_strategy'', ''file_ops'', ''auth'']"

definition known_namespaces :: "string list" where
  "known_namespaces = [''fact'', ''rule'', ''temp'', ''user'', ''system'', ''config'', ''session'', ''agent'', ''state'',
     ''service'', ''preference'', ''constraint'', ''metric'', ''observation'', ''incident'', ''probe'',
     ''sop'', ''atlas'', ''action'', ''architecture'']"

section \<open>Stems and tokens\<close>

definition stem_suffixes :: "string list" where
  "stem_suffixes = map pl [''owania'', ''owanie'', ''owaniu'', ''owaniach'', ''owaniami'', ''alno/sci'', ''alno/s/c'',
     ''alno/sci/a'', ''o/sciach'', ''o/sciami'', ''o/sciom'', ''no/sci/a'', ''no/sci'', ''no/s/c'', ''owemu'',
     ''owych'', ''owymi'', ''owego'', ''owej'', ''owym'', ''iach'', ''iami'', ''iom'', ''ach'', ''ami'',
     ''om'', ''cja'', ''cj/e'', ''cji'', ''cj/a'', ''cje'', ''cjo'', ''ego'', ''emu'', ''ych'', ''ymi'',
     ''ym'', ''em'', ''am'', ''om'', ''ie'', ''ej'', ''ze'', ''a'', ''e'', ''y'', ''i'', ''o'', ''u'', ''/e'',
     ''/a'']"

fun strip_suffix :: "string \<Rightarrow> string list \<Rightarrow> string" where
  "strip_suffix w [] = w"
| "strip_suffix w (suf # sufs) =
     (if ends_with w suf \<and> py_len suf + 4 \<le> py_len w then take (length w - length suf) w else strip_suffix w sufs)"

definition polish_stem :: "string \<Rightarrow> string" where
  "polish_stem word =
     (let w = lower_pl word in
      if starts_with w (pl ''zewn/atrz'') \<or> starts_with w (pl ''zewn/etrz'') then pl ''zewn/atrz''
      else if py_len w \<le> 4 then w
      else strip_suffix w stem_suffixes)"

definition extract_tokens :: "lexicon \<Rightarrow> string \<Rightarrow> string set" where
  "extract_tokens L text = set (filter (\<lambda>t. \<not> stop_word L t) (find_words (lower_pl text)))"

definition extract_stems :: "string set \<Rightarrow> string set" where
  "extract_stems tokens = polish_stem ` tokens"

section \<open>Prohibitions, exclusive targets, actions\<close>

text \<open>The delimiters of clauses; the two dashes are three bytes each.\<close>

definition is_clause_delim :: "string \<Rightarrow> bool" where
  "is_clause_delim u \<longleftrightarrow> u \<in> set [''.'', '';'', '','', [CHR 0x0A], ''|'', [CHR 0xE2, CHR 0x80, CHR 0x94],
     [CHR 0xE2, CHR 0x80, CHR 0x93], ''('', '')'']"

definition explicit_prohib :: "string list" where
  "explicit_prohib = map pl [''zakaz'', ''zakazane'', ''zabronione'', ''zabrania'', ''zabroni/l'', ''nigdy'', ''never'', ''forbid'',
     ''forbidden'', ''prohibited'', ''disallow'', ''disallowed'', ''zabrania/c'', ''zabroniony'']"

definition negated_verbs :: "string list" where
  "negated_verbs = map pl [''wolno'', ''zezwala'', ''pozwala'', ''nale/zy'', ''u/zywa'', ''u/zywa/c'', ''u/zywaj'', ''loguj'',
     ''uruchamiaj'']"

definition is_prohib_at :: "string list \<Rightarrow> nat \<Rightarrow> bool" where
  "is_prohib_at ws i \<longleftrightarrow> ws ! i \<in> set explicit_prohib
     \<or> (ws ! i \<in> {''nie'', ''not''} \<and> i + 1 < length ws \<and> ws ! (i + 1) \<in> set negated_verbs)"

definition governed_at :: "lexicon \<Rightarrow> string list \<Rightarrow> nat \<Rightarrow> string list" where
  "governed_at L ws i =
     (let start_offset = (if ws ! i \<in> {''nie'', ''not''} then 2 else 1)
      in filter (\<lambda>w. \<not> stop_word L w \<and> w \<notin> set prohibition_words \<and> w \<notin> set generic_words)
           (take 5 (drop (i + start_offset) ws)))"

definition clause_prohibited :: "lexicon \<Rightarrow> string list \<Rightarrow> string set" where
  "clause_prohibited L ws = set (concat (map (governed_at L ws) (filter (is_prohib_at ws) [0..<length ws])))"

definition extract_prohibited_terms :: "lexicon \<Rightarrow> string \<Rightarrow> string set" where
  "extract_prohibited_terms L text =
     \<Union> (set (map (\<lambda>clause. clause_prohibited L (find_words (lower_pl (concat clause))))
       (split_on is_clause_delim (cps text))))"

text \<open>\<open>re.finditer\<close> for a prefix followed by one group: the texts of the group.\<close>

fun find_groups :: "re \<Rightarrow> re \<Rightarrow> string \<Rightarrow> nat \<Rightarrow> nat \<Rightarrow> string list" where
  "find_groups p g s 0 i = []"
| "find_groups p g s (Suc k) i =
     (case concat (map (\<lambda>j. map (Pair j) (ends g s j)) (ends p s i)) of
        [] \<Rightarrow> if length s \<le> i then [] else find_groups p g s k (Suc i)
      | (j, e) # _ \<Rightarrow> take (e - j) (drop j s) # (if e \<le> i then find_groups p g s k (Suc i) else find_groups p g s k e))"

definition spaces_re :: "nat \<Rightarrow> re" where
  "spaces_re lo = Rep lo None (Chr is_space)"

definition target_prefix_re :: re where
  "target_prefix_re =
     Seq (lits [pl ''wy/l/acznie'', ''tylko'', ''jedynie'', ''solely'', ''exclusively'', ''only''])
       (Seq (spaces_re 1)
         (Seq (Rep 0 (Some 1)
             (foldr Alt [lit ''przez'', Seq (lit ''za'') (Seq (spaces_re 1) (lit (pl ''pomoc/a''))), lit ''via'', lit ''through'',
                lit ''in'', Seq (lit ''w'') (Seq (spaces_re 1) (lit (pl ''j/ezyku''))), lit ''w'', lit ''jako''] (lit ''dla'')))
           (spaces_re 0)))"

definition target_re :: re where
  "target_re = Rep 3 (Some 35)
     (foldr Alt (map lit polish_cps) (Chr (\<lambda>c. is_alnum c \<or> is_space c)))"

definition context_delims_re :: re where
  "context_delims_re =
     Alt (Seq WordB (Seq (lits [''w'', ''we'', ''na'', ''dla'', ''z'', ''ze'', ''od'', ''do'', ''podczas'', ''przed'', ''po'', ''oraz'',
            ''i'', ''a'', ''ale'', ''gdy'']) WordB))
       (Chr (\<lambda>c. c \<in> set '';,.:()'' \<or> c = CHR 0x22 \<or> c = CHR 0x27))"

text \<open>\<open>context_delims.split(s, maxsplit=1)[0]\<close>: the text before the first match.\<close>

definition before_delim :: "string \<Rightarrow> string" where
  "before_delim s =
     (case filter (\<lambda>i. ends context_delims_re s i \<noteq> []) [0..<Suc (length s)] of [] \<Rightarrow> s | i # _ \<Rightarrow> take i s)"

definition target_tokens :: "lexicon \<Rightarrow> string \<Rightarrow> string set" where
  "target_tokens L phrase =
     (let head_part = py_strip (before_delim phrase)
      in extract_tokens L (if head_part \<noteq> [] then head_part else phrase) - control_words - set generic_words)"

definition extract_exclusive_target :: "lexicon \<Rightarrow> string \<Rightarrow> string set" where
  "extract_exclusive_target L text =
     (let s = lower_pl text
      in \<Union> (set (map (target_tokens L) (find_groups target_prefix_re target_re s (Suc (length s)) 0))))"

definition extract_governed_action :: "string set \<Rightarrow> string set" where
  "extract_governed_action tokens = Set.filter (\<lambda>t. \<exists>p \<in> set action_prefixes. starts_with (polish_stem t) p) tokens"

section \<open>What stems and tokens are\<close>

lemma concat_cps: "concat (cps s) = s"
  by (induction s) (auto split: list.splits)

lemma ends_with_suffix: "ends_with w s \<longleftrightarrow> (\<exists>u. w = u @ s)"
  by (metis ends_with_def starts_with_iff_prefix suffix_def suffix_to_prefix)

lemma py_len_append [simp]: "py_len (s @ t) = py_len s + py_len t"
  by (simp add: py_len_def)

lemma strip_suffix_spec:
  "\<exists>suf. w = strip_suffix w sufs @ suf \<and> (suf = [] \<or> suf \<in> set sufs \<and> 4 \<le> py_len (strip_suffix w sufs))"
proof (induction w sufs rule: strip_suffix.induct)
  case (2 w suf sufs)
  show ?case
  proof (cases "ends_with w suf \<and> py_len suf + 4 \<le> py_len w")
    case True
    then obtain u where "w = u @ suf" by (auto simp: ends_with_suffix)
    with True show ?thesis by auto
  next
    case False
    with 2 show ?thesis by auto
  qed
qed simp

text \<open>
  The stemmer only cuts: the stem of a word is its lower-case form less one of the listed endings, with at least four
  letters left if anything was cut; words of four letters and the word for outside are exceptions.
\<close>

theorem polish_stem_cuts_an_ending:
  "polish_stem w = pl ''zewn/atrz''
   \<or> (\<exists>suf. lower_pl w = polish_stem w @ suf \<and> (suf = [] \<or> suf \<in> set stem_suffixes \<and> 4 \<le> py_len (polish_stem w)))"
  using strip_suffix_spec [of "lower_pl w" stem_suffixes] by (auto simp: polish_stem_def Let_def)

lemma runs_props: "r \<in> set (runs P xs) \<Longrightarrow> r \<noteq> [] \<and> (\<forall>x \<in> set r. P x) \<and> (\<exists>u v. xs = u @ r @ v)"
proof (induction P xs rule: runs.induct)
  case (2 P x xs)
  show ?case
  proof (cases "P x")
    case True
    then consider "r = x # takeWhile P xs" | "r \<in> set (runs P (dropWhile P xs))" using 2(3) by auto
    then show ?thesis
    proof cases
      case 1
      have "x # xs = [] @ r @ dropWhile P xs" by (simp add: 1)
      moreover have "r \<noteq> []" "\<forall>x \<in> set r. P x" using 1 True by (auto dest: set_takeWhileD)
      ultimately show ?thesis by blast
    next
      case 2
      with "2.IH"(1) [OF True] obtain u v where "r \<noteq> []" "\<forall>x \<in> set r. P x" "dropWhile P xs = u @ r @ v" by blast
      moreover from this(3) have "x # xs = (x # takeWhile P xs @ u) @ r @ v" by (metis append.assoc append_Cons takeWhile_dropWhile_id)
      ultimately show ?thesis by blast
    qed
  next
    case False
    with 2 obtain u v where "r \<noteq> []" "\<forall>x \<in> set r. P x" "xs = u @ r @ v" by auto
    then show ?thesis by (metis append_Cons)
  qed
qed simp

lemma extract_tokens_keep_polarity:
  "w \<in> set (find_words (lower_pl text)) \<Longrightarrow> w \<in> set exclusivity_words \<union> set prohibition_words \<Longrightarrow>
   w \<in> extract_tokens L text"
  by (auto simp: extract_tokens_def stop_word_def)

lemma finite_extract_tokens [simp]: "finite (extract_tokens L text)"
  by (simp add: extract_tokens_def)

end
