(* ===== verification/ConflictArbiter.thy ===== *)
theory ConflictArbiter
  imports Lexicon RecordText
begin

text \<open>
  \<open>cognitive/conflict_arbiter.py\<close>: whether an incoming write contradicts, revises or leaves alone what the store
  holds. Keys are read as coordinates (namespace, entity, slot); every stored item is compared with the write and
  gives at most one scored candidate; the decision kernel judges the best one.

  \<open>arbiter\<close> is the object: its thresholds, and \<open>is_entity_critical\<close> of its sensing engine if it has one.
  \<open>arb_env\<close> collects the parameters: the vocabulary data, \<open>repr\<close> of containers, the text of a float and
  \<open>float(text)\<close>. Stored items are dictionaries, as the store returns them. An exception is the left of a sum:
  metadata that is no dictionary, a confidence that is no number, or one outside \<open>[0, 1]\<close>, which the Pydantic
  model of a candidate refuses. Collections of terms are sets: their order in the code is the hash order.
\<close>

section \<open>Coordinates of keys\<close>

record coord =
  co_ns :: string
  co_entity :: string
  co_slot :: string
  co_functional :: bool
  co_raw :: string

definition coord_root :: "coord \<Rightarrow> string" where
  "coord_root c =
     (if CHR '':'' \<notin> set (co_raw c) then co_raw c
      else
        let parts = py_split CHR '':'' (co_raw c) in
        if parts ! 0 = ''hermes'' \<and> 3 \<le> length parts then py_join '':'' (take 3 parts)
        else if (parts ! 0 \<in> set known_namespaces \<or> 3 \<le> length parts) \<and> 2 \<le> length parts
        then py_join '':'' (take 2 parts)
        else parts ! 0)"

definition from_key :: "string \<Rightarrow> coord" where
  "from_key key =
     (let clean = py_strip key in
      if CHR '':'' \<notin> set clean then
        \<lparr>co_ns = ''fact'', co_entity = clean, co_slot = ''value'',
         co_functional = lower_pl clean \<in> set functional_slots, co_raw = clean\<rparr>
      else
        let parts = py_split CHR '':'' clean; ns = lower_pl (parts ! 0) in
        if ns = ''hermes'' \<and> 3 \<le> length parts then
          \<lparr>co_ns = ''hermes'', co_entity = parts ! 1, co_slot = py_join '':'' (drop 2 parts),
           co_functional = True, co_raw = clean\<rparr>
        else if length parts = 2 then
          (let slot = (if parts ! 1 \<in> set functional_slots then parts ! 1 else ''value'') in
           \<lparr>co_ns = ns, co_entity = (if slot = ''value'' then parts ! 1 else parts ! 0), co_slot = slot,
            co_functional = slot \<in> set functional_slots, co_raw = clean\<rparr>)
        else
          (let p1 = parts ! 1; p2 = parts ! 2;
               rest = (if 3 < length parts then py_join '':'' (drop 3 parts) else []);
               with_rest = (\<lambda>p. if rest \<noteq> [] then p @ '':'' @ rest else p)
           in if p1 \<in> set functional_slots \<and> p2 \<notin> set functional_slots then
                \<lparr>co_ns = ns, co_entity = with_rest p2, co_slot = p1, co_functional = True, co_raw = clean\<rparr>
              else
                \<lparr>co_ns = ns, co_entity = p1, co_slot = with_rest p2,
                 co_functional = p2 \<in> set functional_slots \<or> with_rest p2 \<in> set functional_slots, co_raw = clean\<rparr>))"

definition key_root :: "string \<Rightarrow> string" where
  "key_root key = coord_root (from_key key)"

definition multi_valued_slots :: "string list" where
  "multi_valued_slots = [''tags'', ''tag'', ''allowed_users'', ''users'', ''members'', ''roles'', ''items'',
     ''dependencies'', ''plugins'', ''features'', ''scopes'', ''permissions'']"

section \<open>The decision kernel\<close>

definition is_multi_valued_slot :: "coord \<Rightarrow> bool" where
  "is_multi_valued_slot c =
     (let slot_tokens = set (py_split CHR ''_'' (map (\<lambda>x. if x = CHR '':'' then CHR ''_'' else x) (lower_pl (co_slot c))))
            \<union> {lower_pl (co_slot c), lower_pl (co_entity c)}
      in slot_tokens \<inter> set multi_valued_slots \<noteq> {})"

definition can_supersede :: "string \<Rightarrow> string \<Rightarrow> bool \<Rightarrow> bool" where
  "can_supersede incoming_key existing_key is_explicit_supersede =
     (if is_explicit_supersede \<or> incoming_key = existing_key then True
      else
        let coord_in = from_key incoming_key; coord_ex = from_key existing_key in
        if coord_root coord_in \<noteq> coord_root coord_ex then False
        else if is_multi_valued_slot coord_in \<or> is_multi_valued_slot coord_ex then False
        else True)"

datatype action = Supersede | Accept | WarnConflict

definition decide ::
  "string \<Rightarrow> string \<Rightarrow> bool \<Rightarrow> rat \<Rightarrow> rat \<Rightarrow> rat \<Rightarrow> rat \<Rightarrow> string \<Rightarrow> bool \<Rightarrow> bool \<Rightarrow> action" where
  "decide incoming_key existing_key is_user_explicit incoming_conf existing_conf conf_threshold best_score reason
      is_explicit_supersede is_rule_melted =
     (if incoming_key \<noteq> existing_key
          \<and> (is_multi_valued_slot (from_key incoming_key) \<or> is_multi_valued_slot (from_key existing_key))
      then Accept
      else
        let can_auto = can_supersede incoming_key existing_key is_explicit_supersede;
            has_topic_match = (35 \<le> best_score \<or> incoming_key = existing_key);
            is_rule_melted_supersede =
              (is_rule_melted \<and> can_auto \<and> 7 / 10 \<le> incoming_conf \<and> (has_topic_match \<or> incoming_key = existing_key))
        in if is_explicit_supersede \<or> is_rule_melted_supersede
               \<or> (is_user_explicit \<and> conf_threshold \<le> incoming_conf \<and> existing_conf \<le> incoming_conf \<and> can_auto
                  \<and> (incoming_key = existing_key
                     \<or> (has_topic_match
                        \<and> reason \<in> {''exclusivity_collision'', ''exclusivity_violation'', ''semantic_contradiction'',
                                    ''prohibition_contradiction'', ''functional_slot_revision''})))
           then Supersede
           else if reason = ''confidence_inversion'' \<or> 35 \<le> best_score then WarnConflict
           else Accept)"

section \<open>Candidates and items\<close>

datatype arb_error = BadMetadata | BadConfidence | ConfidenceRange

record arb_env =
  ae_lex :: lexicon
  ae_repr :: "pyval \<Rightarrow> string"
  ae_fr :: "rat \<Rightarrow> string"
  ae_float :: "string \<Rightarrow> rat option"

record arbiter =
  ar_conf :: rat
  ar_high :: rat
  ar_critical :: "(string \<Rightarrow> bool) option"

record cand =
  c_key :: string
  c_score :: rat
  c_reason :: string
  c_type :: string
  c_fact :: string
  c_claim :: string
  c_terms :: "string set"
  c_message :: string
  c_conf :: rat
  c_meta :: meta

text \<open>The constructor of \<open>ArbitrationCandidate\<close> with its bounds on the confidence.\<close>

definition mk_cand :: "cand \<Rightarrow> arb_error + cand" where
  "mk_cand c = (if 0 \<le> c_conf c \<and> c_conf c \<le> 1 then Inr c else Inl ConfidenceRange)"

text \<open>\<open>_parse_existing_item\<close>: \<open>None\<close> for a superseded record.\<close>

definition parse_existing_item :: "arb_env \<Rightarrow> meta \<Rightarrow> arb_error + (string \<times> rat \<times> meta) option" where
  "parse_existing_item E item =
     (case py_or (meta_get item ''metadata'') (VDict []) of
        VDict ex_meta \<Rightarrow>
          if dget item ''is_superseded'' = Some (VBool True) \<or> dget ex_meta ''is_superseded'' = Some (VBool True)
             \<or> dget ex_meta ''superseded'' = Some (VBool True)
          then Inr None
          else
            let ex_val = py_str (ae_repr E) (py_or (py_or (py_or (meta_get item ''value'') (meta_get item ''val''))
                  (meta_get item ''object'')) (VStr []))
            in (case to_float (ae_float E) (dget_default item ''confidence'' (VFloat 1)) of
                  None \<Rightarrow> Inl BadConfidence
                | Some ex_conf \<Rightarrow> Inr (Some (ex_val, ex_conf, ex_meta)))
      | _ \<Rightarrow> Inl BadMetadata)"

section \<open>Profiles\<close>

record profile =
  p_tokens :: "string set"
  p_topic :: "string set"
  p_topic_stems :: "string set"
  p_specific :: "string set"
  p_specific_stems :: "string set"
  p_excl :: bool
  p_prohib :: bool
  p_aff :: bool
  p_prohibited :: "string set"
  p_prohib_stems :: "string set"
  p_targets :: "string set"
  p_actions :: "string set"
  p_tools :: "string set"
  p_env :: "string set"

text \<open>\<open>_incoming_profile\<close> and \<open>_existing_profile\<close> compute the same fields of a key and a lowered value.\<close>

definition key_profile :: "lexicon \<Rightarrow> string \<Rightarrow> string \<Rightarrow> profile" where
  "key_profile L key val =
     (let text = key @ '' '' @ val;
          tokens = extract_tokens L text;
          topic = tokens - control_words;
          topic_stems = extract_stems topic;
          general = set generic_words \<union> developer_tools L;
          prohibited = extract_prohibited_terms L text
      in \<lparr>p_tokens = tokens, p_topic = topic, p_topic_stems = topic_stems,
          p_specific = topic - set generic_words - developer_tools L,
          p_specific_stems = topic_stems - polish_stem ` general,
          p_excl = (tokens \<inter> set exclusivity_words \<noteq> {}), p_prohib = (tokens \<inter> set prohibition_words \<noteq> {}),
          p_aff = (tokens \<inter> set affirmative_words \<noteq> {}),
          p_prohibited = prohibited, p_prohib_stems = extract_stems prohibited,
          p_targets = extract_exclusive_target L text, p_actions = extract_governed_action topic,
          p_tools = tokens \<inter> developer_tools L,
          p_env = (set (py_split CHR '':'' key) \<inter> set environment_tokens) \<union> (tokens \<inter> set environment_tokens)\<rparr>)"

definition source_type :: "arb_env \<Rightarrow> meta \<Rightarrow> string" where
  "source_type E metadata =
     py_str (ae_repr E) (py_or (py_or (meta_get metadata ''source_type'') (meta_get metadata ''source'')) (VStr ''user_explicit''))"

definition user_explicit :: "arb_env \<Rightarrow> arbiter \<Rightarrow> rat \<Rightarrow> meta \<Rightarrow> bool" where
  "user_explicit E A confidence metadata =
     (source_type E metadata = ''user_explicit''
      \<or> (ar_conf A \<le> confidence \<and> source_type E metadata \<noteq> ''agent_inference''))"

section \<open>Comparing with one item\<close>

definition explicit_marker_candidate :: "arb_env \<Rightarrow> string \<Rightarrow> pyval \<Rightarrow> string \<Rightarrow> rat \<Rightarrow> cand" where
  "explicit_marker_candidate E key val val_str confidence =
     \<lparr>c_key = key, c_score = 100, c_reason = ''explicit_conflict_marker'', c_type = ''explicit_conflict_marker'',
      c_fact = val_str, c_claim = py_str (ae_repr E) val, c_terms = {key},
      c_message = ''Epistemic conflict detected for marked key '' @ [CHR 0x27] @ key @ [CHR 0x27] @ ''.'',
      c_conf = confidence, c_meta = [(''is_explicit'', VBool True)]\<rparr>"

definition confidence_inversion_candidate ::
  "arb_env \<Rightarrow> string \<Rightarrow> string \<Rightarrow> rat \<Rightarrow> meta \<Rightarrow> pyval \<Rightarrow> rat \<Rightarrow> bool \<Rightarrow> cand option" where
  "confidence_inversion_candidate E ex_k ex_val ex_conf ex_meta val confidence same_value =
     (let ex_source = py_str (ae_repr E) (py_or (py_or (meta_get ex_meta ''source_type'') (meta_get ex_meta ''source'')) (VStr []));
          min_drop = (if same_value then 1 / 5 else 0)
      in if (9 / 10 \<le> ex_conf \<or> ex_source = ''user_explicit'') \<and> min_drop < ex_conf - confidence then
           Some \<lparr>c_key = ex_k, c_score = 90, c_reason = ''confidence_inversion'', c_type = ''confidence_inversion'',
             c_fact = ex_val, c_claim = py_str (ae_repr E) val, c_terms = {ex_k},
             c_message = ''Incoming write has lower confidence ('' @ ae_fr E confidence
               @ '') than established fact ('' @ ae_fr E ex_conf @ '').'',
             c_conf = ex_conf, c_meta = ex_meta\<rparr>
         else None)"

definition rule_prefixes :: "string list" where
  "rule_prefixes = [''rule:'', ''user_rule:'', ''preference:'', ''constraint:'']"

definition is_rule_key :: "string \<Rightarrow> bool" where
  "is_rule_key k \<longleftrightarrow> (\<exists>p \<in> set rule_prefixes. starts_with k p)"

text \<open>A stored rule melts when the sensing engine calls its entity or its key critical.\<close>

definition rule_melted :: "arbiter \<Rightarrow> string \<Rightarrow> bool" where
  "rule_melted A ex_k \<longleftrightarrow>
     is_rule_key ex_k \<and> (case ar_critical A of None \<Rightarrow> False | Some crit \<Rightarrow> crit (co_entity (from_key ex_k)) \<or> crit ex_k)"

definition mark_melted :: "bool \<Rightarrow> meta \<Rightarrow> meta" where
  "mark_melted melted ex_meta = (if melted then dset ''is_rule_melted'' (VBool True) ex_meta else ex_meta)"

definition quoted :: "string \<Rightarrow> string" where
  "quoted s = [CHR 0x27] @ s @ [CHR 0x27]"

text \<open>\<open>_evaluate_same_key\<close>: whether the case is settled here, and the candidate.\<close>

definition evaluate_same_key ::
  "arb_env \<Rightarrow> arbiter \<Rightarrow> string \<Rightarrow> string \<Rightarrow> rat \<Rightarrow> meta \<Rightarrow> string \<Rightarrow> pyval \<Rightarrow> string \<Rightarrow> rat \<Rightarrow> bool \<Rightarrow> bool \<times> cand option" where
  "evaluate_same_key E A ex_k ex_val ex_conf ex_meta key val val_str confidence is_user_explicit =
     (if lower_pl ex_val = val_str then
        (True, confidence_inversion_candidate E ex_k ex_val ex_conf ex_meta val confidence True)
      else
        let is_rule_melted = rule_melted A ex_k in
        if (is_user_explicit \<and> ar_conf A \<le> confidence \<and> ex_conf \<le> confidence) \<or> (is_rule_melted \<and> 7 / 10 \<le> confidence) then
          (True, Some \<lparr>c_key = ex_k, c_score = 95, c_reason = ''belief_revision'', c_type = ''belief_revision'',
             c_fact = ex_val, c_claim = py_str (ae_repr E) val, c_terms = {key},
             c_message = (if is_rule_melted then ''Belief revision: melted rule '' @ quoted key @ '' superseded under OOD drift.''
                          else ''Belief revision: user updated value for key '' @ quoted key @ ''.''),
             c_conf = ex_conf, c_meta = mark_melted is_rule_melted ex_meta\<rparr>)
        else
          (case confidence_inversion_candidate E ex_k ex_val ex_conf ex_meta val confidence False of
             Some c \<Rightarrow> (True, Some c)
           | None \<Rightarrow> (False, None)))"

definition skip_episodic :: "string \<Rightarrow> bool" where
  "skip_episodic ex_k \<longleftrightarrow>
     (\<exists>p \<in> set [''mnemosyne:mnemosyne_working_memory:'', ''mnemosyne:mnemosyne_episodic_memory:'', ''conversation'',
        ''fact:conversation'']. starts_with ex_k p) \<or> ends_with ex_k '':episodic_event''"

definition orthogonal :: "string set \<Rightarrow> string set \<Rightarrow> bool" where
  "orthogonal a b \<longleftrightarrow> a \<noteq> {} \<and> b \<noteq> {} \<and> a \<inter> b = {}"

definition same_namespace :: "string \<Rightarrow> string \<Rightarrow> bool" where
  "same_namespace key ex_k =
     (let specific = (\<lambda>k. filter (\<lambda>p. p \<notin> set generic_words) (butlast (py_split CHR '':'' k)));
          coord_in = from_key key; coord_ex = from_key ex_k
      in (co_ns coord_in = co_ns coord_ex \<and> co_entity coord_in = co_entity coord_ex)
         \<or> (1 \<le> length (specific key) \<and> specific key = specific ex_k))"

record overlap =
  ov_token :: "string set"
  ov_stem :: "string set"
  ov_specific :: "string set"
  ov_specific_stem :: "string set"
  ov_count :: nat
  ov_density :: rat

definition overlap_measures :: "profile \<Rightarrow> profile \<Rightarrow> overlap" where
  "overlap_measures incoming ep =
     (let specific = p_specific incoming \<inter> p_specific ep;
          specific_stem = p_specific_stems incoming \<inter> p_specific_stems ep;
          shorter_len = max 1 (min (card (p_specific incoming \<union> p_specific_stems incoming)) (card (p_specific ep \<union> p_specific_stems ep)));
          overlap_count = card (specific \<union> specific_stem)
      in \<lparr>ov_token = (p_topic incoming \<inter> p_topic ep) - set generic_words,
          ov_stem = (p_topic_stems incoming \<inter> p_topic_stems ep) - polish_stem ` set generic_words,
          ov_specific = specific, ov_specific_stem = specific_stem,
          ov_count = overlap_count, ov_density = of_nat overlap_count / of_nat shorter_len\<rparr>)"

definition has_topic_overlap :: "overlap \<Rightarrow> bool \<Rightarrow> bool" where
  "has_topic_overlap ov same_ns =
     (let left = (same_ns \<and> (1 \<le> card (ov_token ov) \<or> 1 \<le> card (ov_stem ov)));
          mid = (2 \<le> card (ov_specific ov) \<or> 2 \<le> card (ov_specific_stem ov)
                 \<or> (2 \<le> card (ov_token ov) \<and> 1 \<le> card (ov_specific ov)));
          right = (same_ns \<or> 1 / 4 \<le> ov_density ov \<or> 4 \<le> ov_count ov)
      in left \<or> (mid \<and> right))"

definition action_polarity_fallback :: "profile \<Rightarrow> profile \<Rightarrow> bool" where
  "action_polarity_fallback incoming ep \<longleftrightarrow>
     p_actions incoming \<inter> p_actions ep \<noteq> {} \<and> (p_excl incoming \<or> p_excl ep \<or> p_prohib incoming \<or> p_prohib ep)"

definition base_cross_score :: "arbiter \<Rightarrow> string \<Rightarrow> string \<Rightarrow> bool \<Rightarrow> overlap \<Rightarrow> rat \<Rightarrow> rat" where
  "base_cross_score A key ex_k same_ns ov ex_conf =
     (let is_rule_melted = rule_melted A ex_k;
          is_ex_rule = (is_rule_key ex_k \<and> \<not> is_rule_melted)
      in (if same_ns then 50 else 0)
         + (if is_rule_key key \<and> is_ex_rule then 35 else if is_ex_rule then 15 else if is_rule_melted then 25 else 0)
         - (if starts_with ex_k ''mnemosyne:'' then 40 else 0)
         + 15 * of_nat (card (ov_specific ov)) + 10 * of_nat (card (ov_specific_stem ov))
         + 5 * of_nat (card (ov_token ov)) + ex_conf * 5)"

section \<open>Detectors\<close>

text \<open>What a detector finds: reason, type, terms, message and the bonus to the score.\<close>

record finding =
  f_reason :: string
  f_type :: string
  f_terms :: "string set"
  f_message :: string
  f_bonus :: rat

record cross =
  x_key :: string
  x_ex_k :: string
  x_same_ns :: bool
  x_ex_rule :: bool
  x_ov :: overlap
  x_shared :: "string set"
  x_in :: profile
  x_ex :: profile

definition set_or :: "'a set \<Rightarrow> 'a set \<Rightarrow> 'a set" where
  "set_or a b = (if a \<noteq> {} then a else b)"

definition detect_exclusivity_collision :: "cross \<Rightarrow> finding option" where
  "detect_exclusivity_collision x =
     (let i = x_in x; e = x_ex x; ov = x_ov x in
      if \<not> (p_excl i \<and> p_excl e) then None
      else
        let actions_match = (p_actions i \<inter> p_actions e \<noteq> {});
            targets_differ = orthogonal (p_targets i) (p_targets e);
            differing = (p_specific i - p_specific e) \<union> (p_specific e - p_specific i);
            near = (x_same_ns x \<or> 1 \<le> card (ov_specific ov) \<or> 1 \<le> card (ov_stem ov))
        in if (actions_match \<and> targets_differ) \<or> (differing \<noteq> {} \<and> near) then
             Some \<lparr>f_reason = ''exclusivity_collision'', f_type = ''exclusivity_collision'',
               f_terms = set_or (set_or (ov_token ov) (ov_stem ov)) (p_targets i),
               f_message = ''Incoming exclusivity assertion contradicts established exclusivity rule '' @ quoted (x_ex_k x) @ ''.'',
               f_bonus = 40\<rparr>
           else None)"

definition action_words :: "string list" where
  "action_words = map pl [''push'', ''commit'', ''zapis'', ''edit'', ''edycja'', ''bezpo/srednio'', ''bezpo/sredni'', ''delete'',
     ''remove'', ''drop'', ''root'', ''has/lo'', ''has/la'', ''secret'', ''secrets'']"

definition prohibited_overlap :: "profile \<Rightarrow> profile \<Rightarrow> string set \<Rightarrow> string set" where
  "prohibited_overlap asserting prohibiting shared =
     ((p_specific asserting \<inter> p_prohibited prohibiting)
      \<union> Set.filter (\<lambda>t. polish_stem t \<in> p_prohib_stems prohibiting) (p_specific asserting)) - shared"

definition detect_prohibition_contradiction :: "cross \<Rightarrow> finding option" where
  "detect_prohibition_contradiction x =
     (let i = x_in x; e = x_ex x in
      if \<not> (p_prohib e \<and> \<not> p_prohib i) then None
      else
        let overlap = prohibited_overlap i e (x_shared x);
            near = (2 \<le> card overlap \<or> (\<exists>t \<in> set action_words. t \<in> overlap) \<or> x_same_ns x)
        in if overlap \<noteq> {} \<and> near then
             Some \<lparr>f_reason = ''semantic_contradiction'', f_type = ''prohibition_contradiction'', f_terms = overlap,
               f_message = ''Incoming write asserts action prohibited by established memory '' @ quoted (x_ex_k x) @ ''.'',
               f_bonus = 35\<rparr>
           else None)"

definition detect_capability_conflict :: "cross \<Rightarrow> finding option" where
  "detect_capability_conflict x =
     (let i = x_in x; e = x_ex x in
      if \<not> (p_prohib i \<and> \<not> p_prohib e \<and> p_aff e) then None
      else
        let overlap = prohibited_overlap e i (x_shared x);
            near = (x_ex_rule x \<or> 1 \<le> card (ov_specific (x_ov x)) \<or> x_same_ns x)
        in if overlap \<noteq> {} \<and> near then
             Some \<lparr>f_reason = ''semantic_contradiction'', f_type = ''prohibition_contradiction'', f_terms = overlap,
               f_message = ''Incoming write prohibits capability established in memory '' @ quoted (x_ex_k x) @ ''.'',
               f_bonus = 30\<rparr>
           else None)"

definition without_stems :: "string set \<Rightarrow> string set \<Rightarrow> string set" where
  "without_stems ts stems = Set.filter (\<lambda>t. polish_stem t \<notin> stems) ts"

definition detect_exclusivity_violation :: "cross \<Rightarrow> finding option" where
  "detect_exclusivity_violation x =
     (let i = x_in x; e = x_ex x; ov = x_ov x in
      if \<not> (p_excl e \<and> \<not> p_excl i) then None
      else
        let near = (p_actions i \<inter> p_actions e \<noteq> {} \<or> (x_same_ns x \<and> 1 \<le> card (ov_specific ov))) in
        if \<not> near then None
        else
          let authorized_targets = without_stems (p_topic e) (ov_stem ov) - p_prohibited e;
              incoming_targets = without_stems (p_tokens i) (ov_stem ov);
              violates = ((incoming_targets \<noteq> {} \<and> incoming_targets \<inter> authorized_targets = {})
                          \<or> p_tokens i \<inter> p_prohibited e \<noteq> {})
          in if violates then
               Some \<lparr>f_reason = ''exclusivity_violation'', f_type = ''exclusivity_violation'',
                 f_terms = set_or (ov_token ov) (ov_stem ov),
                 f_message = ''Incoming assertion violates established exclusive rule '' @ quoted (x_ex_k x) @ ''.'',
                 f_bonus = 35\<rparr>
             else None)"

definition detect_polarity_contradiction :: "cross \<Rightarrow> finding option" where
  "detect_polarity_contradiction x =
     (let i = x_in x; e = x_ex x; ov = x_ov x;
          negates_established = (p_prohib i \<and> p_aff e \<and> \<not> p_prohib e);
          negates_incoming = (p_aff i \<and> p_prohib e \<and> \<not> p_prohib i)
      in if \<not> (negates_established \<or> negates_incoming) then None
         else if 2 \<le> card (ov_specific ov) \<or> (x_same_ns x \<and> 2 \<le> card (ov_token ov)) then
           Some \<lparr>f_reason = ''semantic_contradiction'', f_type = ''semantic_contradiction'',
             f_terms = set_or (ov_token ov) (ov_stem ov),
             f_message = ''Incoming write contradicts established memory '' @ quoted (x_ex_k x) @ ''.'',
             f_bonus = 25\<rparr>
         else None)"

text \<open>The detectors in their order; the first that finds something decides.\<close>

fun first_found :: "('a \<Rightarrow> 'b option) list \<Rightarrow> 'a \<Rightarrow> 'b option" where
  "first_found [] x = None"
| "first_found (d # ds) x = (case d x of None \<Rightarrow> first_found ds x | Some f \<Rightarrow> Some f)"

definition first_semantic_conflict :: "cross \<Rightarrow> finding option" where
  "first_semantic_conflict =
     first_found [detect_exclusivity_collision, detect_prohibition_contradiction, detect_capability_conflict,
       detect_exclusivity_violation, detect_polarity_contradiction]"

section \<open>Arbitration\<close>

definition scan_cross_key ::
  "arb_env \<Rightarrow> arbiter \<Rightarrow> string \<Rightarrow> string \<Rightarrow> rat \<Rightarrow> meta \<Rightarrow> string \<Rightarrow> pyval \<Rightarrow> profile \<Rightarrow> arb_error + cand option" where
  "scan_cross_key E A ex_k ex_val ex_conf ex_meta key val incoming =
     (if skip_episodic ex_k then Inr None
      else
        let ep = key_profile (ae_lex E) ex_k (lower_pl ex_val) in
        if orthogonal (p_env incoming) (p_env ep) then Inr None
        else if ex_k \<noteq> key \<and> (is_multi_valued_slot (from_key key) \<or> is_multi_valued_slot (from_key ex_k)) then Inr None
        else
          let same_ns = same_namespace key ex_k in
          if orthogonal (p_tools incoming) (p_tools ep) \<and> \<not> same_ns then Inr None
          else
            let ov = overlap_measures incoming ep;
                shared_prohib = (p_prohibited incoming \<inter> p_prohibited ep)
                  \<union> Set.filter (\<lambda>t. polish_stem t \<in> p_prohib_stems ep) (p_prohibited incoming)
            in if p_prohib incoming \<and> p_prohib ep \<and> shared_prohib \<noteq> {} then Inr None
               else if \<not> has_topic_overlap ov same_ns \<and> \<not> action_polarity_fallback incoming ep then Inr None
               else
                 (case first_semantic_conflict
                    \<lparr>x_key = key, x_ex_k = ex_k, x_same_ns = same_ns, x_ex_rule = (is_rule_key ex_k \<and> \<not> rule_melted A ex_k),
                     x_ov = ov, x_shared = shared_prohib, x_in = incoming, x_ex = ep\<rparr> of
                    None \<Rightarrow> Inr None
                  | Some f \<Rightarrow>
                      (case mk_cand \<lparr>c_key = ex_k, c_score = base_cross_score A key ex_k same_ns ov ex_conf + f_bonus f,
                          c_reason = f_reason f, c_type = f_type f, c_fact = ex_val, c_claim = py_str (ae_repr E) val,
                          c_terms = f_terms f, c_message = f_message f, c_conf = ex_conf,
                          c_meta = mark_melted (rule_melted A ex_k) ex_meta\<rparr> of
                         Inl err \<Rightarrow> Inl err
                       | Inr c \<Rightarrow> Inr (Some c))))"

definition lift_cand :: "cand option \<Rightarrow> arb_error + cand option" where
  "lift_cand co = (case co of None \<Rightarrow> Inr None | Some c \<Rightarrow> (case mk_cand c of Inl e \<Rightarrow> Inl e | Inr c \<Rightarrow> Inr (Some c)))"

definition scan_existing_item ::
  "arb_env \<Rightarrow> arbiter \<Rightarrow> string \<Rightarrow> meta \<Rightarrow> string \<Rightarrow> pyval \<Rightarrow> string \<Rightarrow> rat \<Rightarrow> meta \<Rightarrow> profile \<Rightarrow> arb_error + cand option" where
  "scan_existing_item E A ex_k item key val val_str confidence metadata incoming =
     (case parse_existing_item E item of
        Inl err \<Rightarrow> Inl err
      | Inr None \<Rightarrow> Inr None
      | Inr (Some (ex_val, ex_conf, ex_meta)) \<Rightarrow>
          if dget metadata ''supersedes'' = Some (VStr ex_k) then
            lift_cand (Some \<lparr>c_key = ex_k, c_score = 100, c_reason = ''belief_revision'', c_type = ''belief_revision'',
              c_fact = ex_val, c_claim = py_str (ae_repr E) val, c_terms = {ex_k},
              c_message = ''Explicit belief revision: write supersedes '' @ quoted ex_k @ ''.'',
              c_conf = ex_conf, c_meta = ex_meta\<rparr>)
          else
            (case (if ex_k = key
                   then evaluate_same_key E A ex_k ex_val ex_conf ex_meta key val val_str confidence
                          (user_explicit E A confidence metadata)
                   else (False, None)) of
               (True, co) \<Rightarrow> lift_cand co
             | (False, _) \<Rightarrow> scan_cross_key E A ex_k ex_val ex_conf ex_meta key val incoming))"

fun scan_items ::
  "arb_env \<Rightarrow> arbiter \<Rightarrow> (string, meta) dict \<Rightarrow> string \<Rightarrow> pyval \<Rightarrow> string \<Rightarrow> rat \<Rightarrow> meta \<Rightarrow> profile \<Rightarrow> arb_error + cand list" where
  "scan_items E A [] key val val_str confidence metadata incoming = Inr []"
| "scan_items E A ((ex_k, item) # items) key val val_str confidence metadata incoming =
     (case scan_existing_item E A ex_k item key val val_str confidence metadata incoming of
        Inl err \<Rightarrow> Inl err
      | Inr co \<Rightarrow>
          (case scan_items E A items key val val_str confidence metadata incoming of
             Inl err \<Rightarrow> Inl err
           | Inr cs \<Rightarrow> Inr ((case co of None \<Rightarrow> [] | Some c \<Rightarrow> [c]) @ cs)))"

definition has_conflict_marker :: "string \<Rightarrow> meta \<Rightarrow> bool" where
  "has_conflict_marker key metadata \<longleftrightarrow> contains_str (lower_pl key) ''conflict'' \<or> meta_flag metadata ''is_conflict_test''
     \<or> dget metadata ''test_type'' = Some (VStr ''conflict'')"

definition by_score :: "cand list \<Rightarrow> cand list" where
  "by_score cs = sort_key (\<lambda>c. - c_score c) cs"

definition generate_candidates ::
  "arb_env \<Rightarrow> arbiter \<Rightarrow> string \<Rightarrow> pyval \<Rightarrow> rat \<Rightarrow> meta \<Rightarrow> (string, meta) dict \<Rightarrow> arb_error + cand list" where
  "generate_candidates E A key val confidence metadata existing_items =
     (let val_str = (if val = VNone then [] else lower_pl (py_str (ae_repr E) val));
          incoming = key_profile (ae_lex E) key val_str
      in case (if has_conflict_marker key metadata
               then map_sum id (\<lambda>c. [c]) (mk_cand (explicit_marker_candidate E key val val_str confidence))
               else Inr []) of
           Inl err \<Rightarrow> Inl err
         | Inr marked \<Rightarrow>
             (case scan_items E A existing_items key val val_str confidence metadata incoming of
                Inl err \<Rightarrow> Inl err
              | Inr cs \<Rightarrow> Inr (by_score (marked @ cs))))"

text \<open>
  The result. \<open>r_details\<close> is the dictionary \<open>conflict_details\<close>: reason, type, confidences for an inversion or the
  score otherwise, with key, fact, claim, terms and message taken from the best candidate.
\<close>

datatype details =
    InversionDetails cand rat
  | ConflictDetails cand rat

datatype result_meta = OwnMeta meta | ConflictCandidates "cand list"

record arb_result =
  r_is_conflict :: bool
  r_is_revision :: bool
  r_action :: action
  r_superseded :: "string option"
  r_conflicting :: "string option"
  r_reason :: "string option"
  r_message :: string
  r_warning :: "string option"
  r_details :: "details option"
  r_cands :: "cand list"
  r_best :: "cand option"
  r_score :: rat
  r_meta :: result_meta

definition explicit_supersede :: "meta \<Rightarrow> cand \<Rightarrow> bool" where
  "explicit_supersede m best \<longleftrightarrow>
     c_reason best = ''belief_revision'' \<or> dget m ''supersedes'' = Some (VStr (c_key best))
     \<or> dget m ''is_belief_revision'' = Some (VBool True) \<or> dget m ''action'' = Some (VStr ''supersede'')"

definition judge :: "arb_env \<Rightarrow> arbiter \<Rightarrow> string \<Rightarrow> rat \<Rightarrow> meta \<Rightarrow> cand \<Rightarrow> action" where
  "judge E A key confidence m best =
     decide key (c_key best) (user_explicit E A confidence m) confidence (c_conf best) (ar_conf A) (c_score best)
       (c_reason best) (explicit_supersede m best) (meta_flag (c_meta best) ''is_rule_melted'' \<or> meta_flag m ''is_rule_melted'')"

definition arb_accept :: "meta \<Rightarrow> arb_result" where
  "arb_accept m =
     \<lparr>r_is_conflict = False, r_is_revision = False, r_action = Accept, r_superseded = None, r_conflicting = None,
      r_reason = None, r_message = ''No conflict detected.'', r_warning = None, r_details = None, r_cands = [],
      r_best = None, r_score = 0, r_meta = OwnMeta m\<rparr>"

definition arbitrate_best :: "arb_env \<Rightarrow> arbiter \<Rightarrow> string \<Rightarrow> rat \<Rightarrow> meta \<Rightarrow> cand \<Rightarrow> cand list \<Rightarrow> arb_result" where
  "arbitrate_best E A key confidence m best cands =
     (let res = \<lparr>r_is_conflict = False, r_is_revision = False, r_action = Accept, r_superseded = None, r_conflicting = None,
            r_reason = Some (c_reason best),
            r_message = ''Moderate candidate overlap retained in metadata without warning.'', r_warning = None,
            r_details = None, r_cands = cands, r_best = Some best, r_score = c_score best, r_meta = ConflictCandidates cands\<rparr>;
          warn = res\<lparr>r_is_conflict := True, r_action := WarnConflict, r_conflicting := Some (c_key best),
            r_message := c_message best, r_warning := Some ''epistemic_conflict''\<rparr>
      in if judge E A key confidence m best = Supersede then
           res\<lparr>r_is_revision := True, r_action := Supersede, r_superseded := Some (c_key best), r_conflicting := Some (c_key best),
             r_reason := Some ''belief_revision'',
             r_message := ''Incoming write supersedes established belief '' @ quoted (c_key best) @ ''.''\<rparr>
         else if c_reason best = ''confidence_inversion'' then warn\<lparr>r_details := Some (InversionDetails best confidence)\<rparr>
         else if ar_high A \<le> c_score best \<or> c_reason best \<in> {''explicit_conflict_marker'', ''exclusivity_collision''}
         then warn\<lparr>r_details := Some (ConflictDetails best (c_score best))\<rparr>
         else res)"

definition arbitrate ::
  "arb_env \<Rightarrow> arbiter \<Rightarrow> string \<Rightarrow> pyval \<Rightarrow> rat \<Rightarrow> meta \<Rightarrow> (string, meta) dict \<Rightarrow> arb_error + arb_result" where
  "arbitrate E A key val confidence metadata existing_items =
     (case generate_candidates E A key val confidence metadata existing_items of
        Inl err \<Rightarrow> Inl err
      | Inr [] \<Rightarrow> Inr (arb_accept metadata)
      | Inr (best # cs) \<Rightarrow> Inr (arbitrate_best E A key confidence metadata best (best # cs)))"

section \<open>Candidates\<close>

lemma first_found_Some: "first_found ds x = Some f \<Longrightarrow> \<exists>d \<in> set ds. d x = Some f"
  by (induction ds) (auto split: option.splits)

lemma detector_reasons:
  "detect_exclusivity_collision x = Some f \<Longrightarrow> f_reason f = ''exclusivity_collision''"
  "detect_prohibition_contradiction x = Some f \<Longrightarrow> f_reason f = ''semantic_contradiction''"
  "detect_capability_conflict x = Some f \<Longrightarrow> f_reason f = ''semantic_contradiction''"
  "detect_exclusivity_violation x = Some f \<Longrightarrow> f_reason f = ''exclusivity_violation''"
  "detect_polarity_contradiction x = Some f \<Longrightarrow> f_reason f = ''semantic_contradiction''"
  unfolding detect_exclusivity_collision_def detect_prohibition_contradiction_def detect_capability_conflict_def
    detect_exclusivity_violation_def detect_polarity_contradiction_def Let_def
  by (auto split: if_split_asm)

definition semantic_reasons :: "string set" where
  "semantic_reasons = {''exclusivity_collision'', ''semantic_contradiction'', ''exclusivity_violation''}"

lemma first_semantic_conflict_reason: "first_semantic_conflict x = Some f \<Longrightarrow> f_reason f \<in> semantic_reasons"
  unfolding first_semantic_conflict_def
  by (drule first_found_Some) (auto dest: detector_reasons simp: semantic_reasons_def)

lemma mk_cand_Inr: "mk_cand c = Inr d \<longleftrightarrow> d = c \<and> 0 \<le> c_conf c \<and> c_conf c \<le> 1"
  by (auto simp: mk_cand_def)

lemma scan_cross_key_cand:
  assumes "scan_cross_key E A ex_k ex_val ex_conf ex_meta key val incoming = Inr (Some c)"
  shows "c_key c = ex_k \<and> c_conf c = ex_conf \<and> c_reason c \<in> semantic_reasons"
proof -
  obtain ov same x f where
    f: "first_semantic_conflict x = Some f"
    and c: "mk_cand \<lparr>c_key = ex_k, c_score = base_cross_score A key ex_k same ov ex_conf + f_bonus f,
        c_reason = f_reason f, c_type = f_type f, c_fact = ex_val, c_claim = py_str (ae_repr E) val,
        c_terms = f_terms f, c_message = f_message f, c_conf = ex_conf,
        c_meta = mark_melted (rule_melted A ex_k) ex_meta\<rparr> = Inr c"
    using assms unfolding scan_cross_key_def Let_def
    by (simp split: if_split_asm option.split_asm sum.split_asm)
  from c have "c_reason c = f_reason f" "c_key c = ex_k" "c_conf c = ex_conf" unfolding mk_cand_Inr by auto
  with first_semantic_conflict_reason [OF f] show ?thesis by simp
qed

lemma lift_cand_Inr: "lift_cand co = Inr co' \<longleftrightarrow> co' = co \<and> (case co of None \<Rightarrow> True | Some c \<Rightarrow> 0 \<le> c_conf c \<and> c_conf c \<le> 1)"
  by (auto simp: lift_cand_def mk_cand_def split: option.splits sum.splits)

lemma inversion_cand:
  "confidence_inversion_candidate E ex_k ex_val ex_conf ex_meta val confidence same = Some c \<Longrightarrow>
   c_key c = ex_k \<and> c_conf c = ex_conf \<and> c_reason c = ''confidence_inversion'' \<and> c_score c = 90 \<and> confidence < ex_conf"
  by (auto simp: confidence_inversion_candidate_def Let_def split: if_splits)

lemma same_key_cand:
  "evaluate_same_key E A ex_k ex_val ex_conf ex_meta key val val_str confidence user = (b, Some c) \<Longrightarrow>
   c_key c = ex_k \<and> c_conf c = ex_conf \<and> c_reason c \<in> {''confidence_inversion'', ''belief_revision''}"
  using inversion_cand [of E ex_k ex_val ex_conf ex_meta val confidence _ c]
  by (auto simp: evaluate_same_key_def Let_def split: if_splits option.splits)

text \<open>What a candidate of an item is, and that a superseded item gives none.\<close>

lemma scan_existing_item_cand:
  assumes "scan_existing_item E A ex_k item key val val_str confidence metadata incoming = Inr (Some c)"
  shows "\<exists>ex_val ex_meta. parse_existing_item E item = Inr (Some (ex_val, c_conf c, ex_meta)) \<and> c_key c = ex_k
    \<and> (c_reason c = ''belief_revision'' \<longrightarrow> ex_k = key \<or> dget metadata ''supersedes'' = Some (VStr ex_k))
    \<and> c_reason c \<in> insert ''belief_revision'' (insert ''confidence_inversion'' semantic_reasons)"
proof -
  have sem: "''belief_revision'' \<notin> semantic_reasons" by (simp add: semantic_reasons_def)
  from assms obtain ex_val ex_conf ex_meta where
    p: "parse_existing_item E item = Inr (Some (ex_val, ex_conf, ex_meta))"
    by (auto simp: scan_existing_item_def split: sum.split_asm option.split_asm)
  have "c_key c = ex_k \<and> c_conf c = ex_conf
      \<and> (c_reason c = ''belief_revision'' \<longrightarrow> ex_k = key \<or> dget metadata ''supersedes'' = Some (VStr ex_k))
      \<and> c_reason c \<in> insert ''belief_revision'' (insert ''confidence_inversion'' semantic_reasons)"
  proof (cases "dget metadata ''supersedes'' = Some (VStr ex_k)")
    case True
    with assms p show ?thesis by (auto simp: scan_existing_item_def lift_cand_Inr)
  next
    case False
    show ?thesis
    proof (cases "ex_k = key \<and> fst (evaluate_same_key E A ex_k ex_val ex_conf ex_meta key val val_str confidence (user_explicit E A confidence metadata))")
      case True
      with assms p False have
        "evaluate_same_key E A ex_k ex_val ex_conf ex_meta key val val_str confidence (user_explicit E A confidence metadata) = (True, Some c)"
        by (auto simp: scan_existing_item_def lift_cand_Inr split: prod.split_asm bool.split_asm)
      from same_key_cand [OF this] True show ?thesis by auto
    next
      case nf: False
      with assms p False have "scan_cross_key E A ex_k ex_val ex_conf ex_meta key val incoming = Inr (Some c)"
        by (auto simp: scan_existing_item_def split: prod.split_asm bool.split_asm if_split_asm)
      from scan_cross_key_cand [OF this] sem show ?thesis by auto
    qed
  qed
  with p show ?thesis by auto
qed

lemma scan_items_cand:
  "scan_items E A items key val val_str confidence metadata incoming = Inr cs \<Longrightarrow> c \<in> set cs \<Longrightarrow>
   \<exists>ex_k item. (ex_k, item) \<in> set items
     \<and> scan_existing_item E A ex_k item key val val_str confidence metadata incoming = Inr (Some c)"
proof (induction items arbitrary: cs)
  case (Cons p items)
  obtain ex_k item where p: "p = (ex_k, item)" by (cases p)
  from Cons.prems(1) p obtain co cs' where co: "scan_existing_item E A ex_k item key val val_str confidence metadata incoming = Inr co"
    and cs': "scan_items E A items key val val_str confidence metadata incoming = Inr cs'"
    and cs: "cs = (case co of None \<Rightarrow> [] | Some c \<Rightarrow> [c]) @ cs'"
    by (auto split: sum.split_asm)
  from cs Cons.prems(2) consider "co = Some c" | "c \<in> set cs'" by (auto split: option.split_asm)
  then show ?case
  proof cases
    case 1
    with co p show ?thesis by auto
  next
    case 2
    from Cons.IH [OF cs' 2] p show ?thesis by auto
  qed
qed simp

lemma scan_items_complete:
  "scan_items E A items key val val_str confidence metadata incoming = Inr cs \<Longrightarrow> (ex_k, item) \<in> set items \<Longrightarrow>
   scan_existing_item E A ex_k item key val val_str confidence metadata incoming = Inr (Some c) \<Longrightarrow> c \<in> set cs"
  by (induction items arbitrary: cs) (auto split: sum.splits option.splits)

lemma scan_items_no_error:
  "scan_items E A items key val val_str confidence metadata incoming = Inr cs \<Longrightarrow> (ex_k, item) \<in> set items \<Longrightarrow>
   \<exists>co. scan_existing_item E A ex_k item key val val_str confidence metadata incoming = Inr co"
  by (induction items arbitrary: cs) (auto split: sum.splits)

lemma scan_items_filter:
  "(\<And>p. p \<in> set items \<Longrightarrow> \<not> keep p \<Longrightarrow> parse_existing_item E (snd p) = Inr None) \<Longrightarrow>
   scan_items E A (filter keep items) key val val_str confidence metadata incoming =
   scan_items E A items key val val_str confidence metadata incoming"
proof (induction items)
  case (Cons p items)
  obtain ex_k item where p: "p = (ex_k, item)" by (cases p)
  have IH: "scan_items E A (filter keep items) key val val_str confidence metadata incoming =
      scan_items E A items key val val_str confidence metadata incoming"
    by (rule Cons.IH) (use Cons.prems in auto)
  show ?case
  proof (cases "keep p")
    case True
    with IH p show ?thesis by (simp split: sum.split)
  next
    case False
    with Cons.prems [of p] p have "scan_existing_item E A ex_k item key val val_str confidence metadata incoming = Inr None"
      by (simp add: scan_existing_item_def)
    with IH False p show ?thesis by (simp split: sum.split)
  qed
qed simp

lemma by_score_set [simp]: "set (by_score cs) = set cs"
  by (simp add: by_score_def)

lemma by_score_best: "by_score cs = best # rest \<Longrightarrow> c \<in> set cs \<Longrightarrow> c_score c \<le> c_score best"
proof -
  assume b: "by_score cs = best # rest" and c: "c \<in> set cs"
  have "sorted (map (\<lambda>c. - c_score c) (best # rest))" unfolding b [symmetric] by (simp add: by_score_def)
  moreover have "c \<in> set (best # rest)" using c by (metis b by_score_set)
  ultimately show ?thesis by auto
qed

text \<open>The candidates of a run: the marker's and those of the items.\<close>

definition incoming_text :: "arb_env \<Rightarrow> pyval \<Rightarrow> string" where
  "incoming_text E val = (if val = VNone then [] else lower_pl (py_str (ae_repr E) val))"

definition marker_cands :: "arb_env \<Rightarrow> string \<Rightarrow> pyval \<Rightarrow> rat \<Rightarrow> meta \<Rightarrow> cand list" where
  "marker_cands E key val confidence metadata =
     (if has_conflict_marker key metadata then [explicit_marker_candidate E key val (incoming_text E val) confidence] else [])"

lemma generate_candidates_Inr:
  assumes "generate_candidates E A key val confidence metadata items = Inr cs"
  obtains scanned where "cs = by_score (marker_cands E key val confidence metadata @ scanned)"
    "scan_items E A items key val (incoming_text E val) confidence metadata
      (key_profile (ae_lex E) key (incoming_text E val)) = Inr scanned"
  using assms unfolding generate_candidates_def Let_def incoming_text_def [symmetric] marker_cands_def
  by (auto simp: mk_cand_def explicit_marker_candidate_def split: sum.split_asm if_split_asm)

section \<open>Properties\<close>

lemma arbitrate_cases:
  assumes "arbitrate E A key val confidence metadata items = Inr r"
  shows "r = arb_accept metadata \<or>
    (\<exists>best cs. generate_candidates E A key val confidence metadata items = Inr (best # cs)
      \<and> r = arbitrate_best E A key confidence metadata best (best # cs))"
  using assms by (auto simp: arbitrate_def split: sum.split_asm list.split_asm)

lemma best_action:
  "r_action (arbitrate_best E A key confidence m best cs) =
     (if judge E A key confidence m best = Supersede then Supersede
      else if c_reason best = ''confidence_inversion'' \<or> ar_high A \<le> c_score best
        \<or> c_reason best \<in> {''explicit_conflict_marker'', ''exclusivity_collision''}
      then WarnConflict else Accept)"
  "r_superseded (arbitrate_best E A key confidence m best cs) =
     (if judge E A key confidence m best = Supersede then Some (c_key best) else None)"
  "r_is_conflict (arbitrate_best E A key confidence m best cs) \<longleftrightarrow>
     r_action (arbitrate_best E A key confidence m best cs) = WarnConflict"
  by (simp_all add: arbitrate_best_def Let_def)

text \<open>The kernel supersedes another key only inside one entity, or on an explicit order, and never a multi-valued slot.\<close>

lemma decide_supersede:
  "decide key ex_k user conf ex_conf thr score reason explicit melted = Supersede \<Longrightarrow> ex_k \<noteq> key \<Longrightarrow>
   \<not> is_multi_valued_slot (from_key key) \<and> \<not> is_multi_valued_slot (from_key ex_k)
   \<and> (explicit \<or> key_root ex_k = key_root key)"
  by (auto simp: decide_def can_supersede_def key_root_def Let_def split: if_split_asm)

lemma cand_origin:
  assumes "generate_candidates E A key val confidence metadata items = Inr cs" "c \<in> set cs"
  shows "c = explicit_marker_candidate E key val (incoming_text E val) confidence
    \<or> (\<exists>item. (c_key c, item) \<in> set items
        \<and> (c_reason c = ''belief_revision'' \<longrightarrow> c_key c = key \<or> dget metadata ''supersedes'' = Some (VStr (c_key c))))"
proof -
  obtain scanned where cs: "cs = by_score (marker_cands E key val confidence metadata @ scanned)"
    and s: "scan_items E A items key val (incoming_text E val) confidence metadata
        (key_profile (ae_lex E) key (incoming_text E val)) = Inr scanned"
    by (rule generate_candidates_Inr [OF assms(1)])
  from assms(2) cs consider "c = explicit_marker_candidate E key val (incoming_text E val) confidence" | "c \<in> set scanned"
    by (auto simp: marker_cands_def split: if_split_asm)
  then show ?thesis
  proof cases
    case 2
    from scan_items_cand [OF s 2] scan_existing_item_cand show ?thesis by blast
  qed simp
qed

text \<open>
  C39: The boundary of entities: if a write supersedes a stored key other than its own, then neither of the keys is a
  multi-valued slot, and both belong to the same entity, unless the write itself orders the supersession. What is
  superseded is one of the stored items.
\<close>

theorem supersession_respects_entities:
  assumes "arbitrate E A key val confidence metadata items = Inr r" "r_action r = Supersede"
  shows "\<exists>k. r_superseded r = Some k
    \<and> (k = key \<or> k \<in> set (dkeys items) \<and> \<not> is_multi_valued_slot (from_key key) \<and> \<not> is_multi_valued_slot (from_key k)
        \<and> (key_root k = key_root key \<or> dget metadata ''supersedes'' = Some (VStr k)
           \<or> dget metadata ''is_belief_revision'' = Some (VBool True) \<or> dget metadata ''action'' = Some (VStr ''supersede'')))"
proof -
  from arbitrate_cases [OF assms(1)] assms(2) obtain best cs where
    g: "generate_candidates E A key val confidence metadata items = Inr (best # cs)"
    and r: "r = arbitrate_best E A key confidence metadata best (best # cs)"
    by (auto simp: arb_accept_def)
  from assms(2) have j: "judge E A key confidence metadata best = Supersede"
    unfolding r best_action by (auto split: if_split_asm)
  then have s: "r_superseded r = Some (c_key best)" unfolding r best_action by simp
  show ?thesis
  proof (cases "c_key best = key")
    case True
    with s show ?thesis by blast
  next
    case False
    from cand_origin [OF g, of best] False obtain item where
      o: "(c_key best, item) \<in> set items"
        "c_reason best = ''belief_revision'' \<longrightarrow> dget metadata ''supersedes'' = Some (VStr (c_key best))"
      by (auto simp: explicit_marker_candidate_def)
    from decide_supersede [OF j [unfolded judge_def] False] o s show ?thesis
      by (force simp: explicit_supersede_def)
  qed
qed

text \<open>
  A stored record is retired when it, or its metadata, carries the flag \<open>True\<close>.
\<close>

definition retired :: "meta \<Rightarrow> bool" where
  "retired item =
     (case py_or (meta_get item ''metadata'') (VDict []) of
        VDict m \<Rightarrow> VBool True \<in> set (List.map_filter (\<lambda>(d, k). dget d k)
          [(item, ''is_superseded''), (m, ''is_superseded''), (m, ''superseded'')])
      | _ \<Rightarrow> False)"

lemma retired_parse: "retired item \<Longrightarrow> parse_existing_item E item = Inr None"
  by (auto simp: retired_def parse_existing_item_def List.map_filter_def Let_def split: pyval.split_asm option.split_asm if_split_asm)

text \<open>
  Retired knowledge has no say: arbitration gives the same result, or the same exception, whether or not the
  superseded records are among the items.
\<close>

theorem superseded_records_are_inert:
  "arbitrate E A key val confidence metadata (filter (\<lambda>(k, item). \<not> retired item) items) =
   arbitrate E A key val confidence metadata items"
  unfolding arbitrate_def generate_candidates_def Let_def
  by (subst scan_items_filter) (auto dest: retired_parse)

definition toy_arb_env :: arb_env where
  "toy_arb_env = \<lparr>ae_lex = \<lparr>lx_stop = (\<lambda>w. w \<in> {''the'', ''and''}), lx_tools = []\<rparr>, ae_repr = (\<lambda>_. []),
     ae_fr = (\<lambda>_. ''0.5''), ae_float = (\<lambda>_. None)\<rparr>"

definition toy_arbiter :: arbiter where
  "toy_arbiter = \<lparr>ar_conf = 95 / 100, ar_high = 35, ar_critical = None\<rparr>"

definition toy_item :: "string \<Rightarrow> rat \<Rightarrow> meta" where
  "toy_item v c = [(''value'', VStr v), (''confidence'', VFloat c)]"

lemma toy_item_parse [simp]: "v \<noteq> [] \<Longrightarrow> parse_existing_item E (toy_item v c) = Inr (Some (v, c, []))"
  by (simp add: parse_existing_item_def toy_item_def py_or_def meta_get_def dget_default_def)

theorem supersession_respects_entities_witness:
  "\<exists>r. arbitrate toy_arb_env toy_arbiter ''svc:host'' (VStr ''b'') 1 [(''supersedes'', VStr ''svc:addr'')]
      [(''svc:addr'', toy_item ''a'' 1)] = Inr r
    \<and> r_superseded r = Some ''svc:addr'' \<and> \<not> is_multi_valued_slot (from_key ''svc:addr'')"
proof -
  let ?m = "[(''supersedes'', VStr ''svc:addr'')]" and ?items = "[(''svc:addr'', toy_item ''a'' 1)]"
  have "\<not> has_conflict_marker ''svc:host'' ?m" by code_simp
  moreover have "\<not> is_multi_valued_slot (from_key ''svc:host'')" "\<not> is_multi_valued_slot (from_key ''svc:addr'')" by code_simp+
  ultimately obtain r where r: "arbitrate toy_arb_env toy_arbiter ''svc:host'' (VStr ''b'') 1 ?m ?items = Inr r"
      "r_action r = Supersede" "r_superseded r = Some ''svc:addr''"
    by (simp add: arbitrate_def generate_candidates_def scan_existing_item_def lift_cand_def mk_cand_def by_score_def
        best_action judge_def decide_def can_supersede_def explicit_supersede_def Let_def)
  from supersession_respects_entities [OF r(1,2)] r show ?thesis by auto
qed

lemma inversion_of_same_key:
  assumes "lower_pl ex_val \<noteq> incoming_text E val" "9 / 10 \<le> ex_conf" "confidence < ex_conf" "\<not> rule_melted A key"
  shows "\<exists>c. evaluate_same_key E A key ex_val ex_conf ex_meta key val (incoming_text E val) confidence user = (True, Some c)
    \<and> c_reason c = ''confidence_inversion'' \<and> c_key c = key \<and> c_score c = 90 \<and> c_conf c = ex_conf"
  using assms by (simp add: evaluate_same_key_def confidence_inversion_candidate_def Let_def)

lemma inversion_outcome:
  assumes "arbitrate E A key val confidence metadata items = Inr r" "ar_high A \<le> 90"
    and "(key, item) \<in> set items" "parse_existing_item E item = Inr (Some (ex_val, ex_conf, ex_meta))"
    and "9 / 10 \<le> ex_conf" "confidence < ex_conf" "lower_pl ex_val \<noteq> incoming_text E val"
    and "dget metadata ''supersedes'' \<noteq> Some (VStr key)" "\<not> rule_melted A key"
  shows "r_action r \<noteq> Accept \<and> (\<exists>c \<in> set (r_cands r). c_key c = key \<and> c_reason c = ''confidence_inversion'')"
    and "\<exists>best. r_best r = Some best \<and> 90 \<le> c_score best \<and> r = arbitrate_best E A key confidence metadata best (r_cands r)"
proof -
  let ?in = "key_profile (ae_lex E) key (incoming_text E val)"
  from inversion_of_same_key [OF assms(7,5,6,9)] obtain c where
    c: "evaluate_same_key E A key ex_val ex_conf ex_meta key val (incoming_text E val) confidence (user_explicit E A confidence metadata)
        = (True, Some c)" "c_reason c = ''confidence_inversion''" "c_key c = key" "c_score c = 90" "c_conf c = ex_conf" by blast
  have gen: "generate_candidates E A key val confidence metadata items \<noteq> Inl err" for err
    using assms(1) by (auto simp: arbitrate_def)
  then obtain cs where cs: "generate_candidates E A key val confidence metadata items = Inr cs"
    by (cases "generate_candidates E A key val confidence metadata items") auto
  obtain scanned where sc: "cs = by_score (marker_cands E key val confidence metadata @ scanned)"
    "scan_items E A items key val (incoming_text E val) confidence metadata ?in = Inr scanned"
    by (rule generate_candidates_Inr [OF cs])
  have item: "scan_existing_item E A key item key val (incoming_text E val) confidence metadata ?in = lift_cand (Some c)"
    using assms(4,8) c(1) by (simp add: scan_existing_item_def)
  have "lift_cand (Some c) = Inr (Some c)"
    using item scan_items_no_error [OF sc(2) assms(3)] by (auto simp: lift_cand_def mk_cand_def split: if_splits)
  with item have "c \<in> set scanned" using scan_items_complete [OF sc(2) assms(3)] by simp
  then have mem: "c \<in> set cs" by (simp add: sc(1))
  then obtain best rest where b: "cs = best # rest" by (cases cs) auto
  have "90 \<le> c_score best"
    using by_score_best [of "marker_cands E key val confidence metadata @ scanned" best rest c] sc(1) b \<open>c \<in> set scanned\<close> c(4) by simp
  moreover have r: "r = arbitrate_best E A key confidence metadata best (best # rest)"
    using assms(1) by (simp add: arbitrate_def cs b)
  ultimately have "r_action r \<noteq> Accept" and rc: "r_cands r = cs" and "r_best r = Some best" "90 \<le> c_score best"
    using assms(2) b by (auto simp: best_action arbitrate_best_def Let_def)
  with mem c r b show "r_action r \<noteq> Accept \<and> (\<exists>c \<in> set (r_cands r). c_key c = key \<and> c_reason c = ''confidence_inversion'')"
    and "\<exists>best. r_best r = Some best \<and> 90 \<le> c_score best \<and> r = arbitrate_best E A key confidence metadata best (r_cands r)"
    by auto
qed



end
