(* ===== verification/Linguistics.thy ===== *)
theory Linguistics
  imports RecordText Lexicon
begin

text \<open>
  \<open>core/linguistics.py\<close> and the text predicates of \<open>core/models.py\<close>: stop words, the stemmer for Polish and English,
  what counts as an entity of the graph, as garbage of a discourse, as a conversational turn or as personal data.

  spaCy and the resource files are outside the code: \<open>ling_env\<close> gives the first token of a word's analysis by the
  pipeline without parser (\<open>li_fast\<close>) and by the full one (\<open>li_full\<close>), \<open>None\<close> where there is no pipeline, an empty document
  or an exception, all of which the code treats alike. The cache of \<open>LanguageAssetManager\<close> is a dictionary; the
  memoisation of the stemmers has no trace. The theorems show that the cache never changes an answer, that the deontic words
  are never stop words, and what the heuristic stemmer leaves of a word.
\<close>

section \<open>Data\<close>

definition namespace_schema_tokens :: "string list" where
  "namespace_schema_tokens = [''hermes'', ''config'', ''fact'', ''rule'', ''preference'', ''constraint'', ''system'', ''service'',
     ''user_md'', ''memory_md'', ''stated_memory'', ''working_fact'', ''episodic_event'', ''canonical_spec'',
     ''user'', ''agent'', ''default'']"

definition query_meta_stopwords :: "string list" where
  "query_meta_stopwords = map pl [''jest'', ''s/a'', ''by/l'', ''by/la'', ''by/lo'', ''byli'', ''b/edzie'', ''b/ed/a'', ''by/c'', ''gdzie'',
     ''kiedy'', ''dlaczego'', ''sk/ad'', ''dok/ad'', ''jaki'', ''jaka'', ''jakie'', ''jakiego'', ''jakiej'',
     ''jakim'', ''jakich'', ''kt/ory'', ''kt/ora'', ''kt/ore'', ''kt/orego'', ''czy'', ''oraz'', ''albo'',
     ''wi/ec'', ''/zeby'', ''gdyby'', ''gdyby/s'', ''je/sli'', ''je/zeli'', ''m/oj'', ''moja'', ''moje'',
     ''moich'', ''moim'', ''tw/oj'', ''twoja'', ''twoje'', ''twoich'', ''nasz'', ''nasza'', ''nasze'',
     ''naszych'', ''sw/oj'', ''swoje'', ''swoich'', ''pami/etasz'', ''pami/etam'', ''wiadomo'', ''wiesz'',
     ''powiedz'', ''opisz'', ''wyja/snij'', ''podaj'', ''poka/z'', ''znajd/x'', ''sprawd/x'', ''odno/snie'',
     ''dotycz/ace'', ''dotycz/a'', ''kwestii'', ''temat'', ''ustalenia'', ''notatkach'', ''notatek'']"

definition query_meta_stopstems :: "string list" where
  "query_meta_stopstems = [''bic'', ''gdzi'', ''kied'', ''dlacz'', ''skad'', ''jak'', ''ktor'', ''gdibi'', ''jesl'', ''moj'',
     ''twoj'', ''nasz'', ''swoj'', ''wiado'', ''wiedz'', ''powie'', ''opic'', ''wyjas'', ''nie'', ''czy'',
     ''cz'']"

definition discourse_garbage_extra_stems :: "string list" where
  "discourse_garbage_extra_stems = [''obecni'', ''wart'', ''ktori'', ''ktory'', ''z'']"

definition discourse_garbage_pos :: "string list" where
  "discourse_garbage_pos = [''PRON'', ''SCONJ'', ''INTJ'', ''DET'', ''AUX'']"

definition protected_english_roots :: "string list" where
  "protected_english_roots = [''node'', ''code'', ''cache'', ''base'', ''pipeline'', ''cookie'', ''zombie'', ''calorie'', ''movie'',
     ''rookie'', ''queue'', ''state'', ''engine'', ''scope'', ''table'', ''file'', ''rule'', ''mode'',
     ''core'', ''type'', ''gate'', ''route'', ''service'', ''database'', ''message'', ''trace'', ''interface'',
     ''profile'', ''storage'', ''source'', ''module'', ''time'', ''rate'', ''device'', ''price'', ''space'',
     ''phase'', ''case'', ''size'', ''line'', ''site'', ''side'', ''name'', ''guideline'', ''outline'',
     ''baseline'', ''timeline'', ''share'', ''software'', ''hardware'', ''client'', ''server'', ''cluster'',
     ''vector'', ''tensor'']"

definition excluded_ie_words :: "string list" where
  "excluded_ie_words = [''cookie'', ''cookies'', ''zombie'', ''zombies'', ''calorie'', ''calories'', ''movie'', ''movies'',
     ''rookie'', ''rookies'', ''selfie'', ''selfies'', ''prairie'', ''hippie'']"

definition graph_noise_entities :: "string list" where
  "graph_noise_entities = map pl [''w'', ''z'', ''na'', ''do'', ''i'', ''o'', ''to'', ''nie'', ''si/e'', ''sie'', ''jest'', ''by/c'',
     ''byc'', ''dla'', ''oraz'', ''ale'', ''jak'', ''jaki'', ''jaka'', ''jakie'', ''gdzie'', ''kiedy'',
     ''czy'', ''/ze'', ''ze'', ''co'', ''po'', ''za'', ''od'', ''przez'', ''przy'', ''nad'', ''pod'',
     ''przed'', ''przecie/z'', ''przeciez'', ''ale_jak'', ''ma'', ''mam'', ''masz'', ''maj/a'', ''ten'',
     ''ta'', ''te'', ''tym'', ''tego'', ''tej'', ''tych'', ''tylko'', ''ju/z'', ''juz'', ''jeszcze'',
     ''bardzo'', ''fact'', ''working'', ''working_fact'', ''stated_memory'', ''episodic_event'',
     ''canonical_spec'', ''set'', ''is_set'', ''implemented'', ''is_implemented'', ''true'', ''false'',
     ''none'', ''null'', ''user'', ''assistant'', ''conversation'', ''default'', ''unknown'', ''test'', ''ok'']"

definition fallback_stopwords_pl :: "string list" where
  "fallback_stopwords_pl = map pl [''w'', ''z'', ''na'', ''do'', ''i'', ''o'', ''to'', ''nie'', ''si/e'', ''jest'', ''dla'', ''oraz'',
     ''ale'', ''jak'', ''/ze'', ''co'', ''po'', ''za'', ''ze'', ''od'']"

definition fallback_stopwords_en :: "string list" where
  "fallback_stopwords_en = [''the'', ''and'', ''for'', ''with'', ''this'', ''that'', ''from'', ''into'', ''over'', ''is'', ''at'',
     ''by'', ''on'', ''in'']"

definition deontic_protected :: "string list" where
  "deontic_protected = map pl [''zawsze'', ''nigdy'', ''tylko'', ''wy/l/acznie'', ''wylacznie'', ''musi'', ''zakaz'', ''always'',
     ''never'', ''only'', ''must'', ''forbidden'']"

definition heuristic_suffixes :: "string list" where
  "heuristic_suffixes = [''ach'', ''ami'', ''owi'', ''em'', ''om'', ''ow'', ''a'', ''e'', ''i'', ''o'', ''u'']"

definition whitelisted_domain_terms :: "string list" where
  "whitelisted_domain_terms = [''token'', ''tokens'', ''token_budget'', ''tokenizer'', ''max_tokens'', ''shared_secret'']"

section \<open>Parameters and small helpers\<close>

record nlp_token =
  tk_lemma :: string
  tk_pos :: string
  tk_stop :: bool

record ling_env =
  li_fast :: "string \<Rightarrow> nlp_token option"
  li_full :: "string \<Rightarrow> nlp_token option"
  li_tagger :: bool
  li_spacy_stop :: "string \<Rightarrow> string list"
  li_file :: "string \<Rightarrow> string option"

text \<open>\<open>s.strip(chars)\<close>, \<open>s.split()\<close>, \<open>s.splitlines()\<close> up to empty lines, and \<open>s.replace(a, b)\<close> for characters.\<close>

definition strip_chars :: "(char \<Rightarrow> bool) \<Rightarrow> string \<Rightarrow> string" where
  "strip_chars P s = rev (dropWhile P (rev (dropWhile P s)))"

definition py_words :: "string \<Rightarrow> string list" where
  "py_words s = runs (\<lambda>c. \<not> is_space c) s"

definition is_line_end :: "char \<Rightarrow> bool" where
  "is_line_end c = (let n = of_char c :: nat in (10 \<le> n \<and> n \<le> 13) \<or> (28 \<le> n \<and> n \<le> 30))"

definition py_lines :: "string \<Rightarrow> string list" where
  "py_lines s = runs (\<lambda>c. \<not> is_line_end c) s"

definition subst_char :: "char \<Rightarrow> char \<Rightarrow> string \<Rightarrow> string" where
  "subst_char a b s = map (\<lambda>c. if c = a then b else c) s"

section \<open>Stop words\<close>

definition load_stopwords :: "ling_env \<Rightarrow> string \<Rightarrow> string set" where
  "load_stopwords E lang =
     (let words = lower_pl ` set (li_spacy_stop E lang)
            \<union> (case li_file E lang of
                  None \<Rightarrow> {}
                | Some content \<Rightarrow>
                    (\<lambda>l. lower_pl (py_strip l)) ` set (filter (\<lambda>l. py_strip l \<noteq> [] \<and> \<not> starts_with l ''#'') (py_lines content)));
          words' = (if words = {} then set (if lang = ''pl'' then fallback_stopwords_pl else fallback_stopwords_en) else words)
      in words' - set deontic_protected)"

type_synonym stop_cache = "(string, string set) dict"

definition get_stopwords :: "ling_env \<Rightarrow> string \<Rightarrow> stop_cache \<Rightarrow> stop_cache \<times> string set" where
  "get_stopwords E lang cache =
     (let l = lower_pl lang in
      case dget cache l of
        Some words \<Rightarrow> (cache, words)
      | None \<Rightarrow> (let words = load_stopwords E l in (dset l words cache, words)))"

fun join_stopwords :: "ling_env \<Rightarrow> string list \<Rightarrow> string set \<Rightarrow> stop_cache \<Rightarrow> stop_cache \<times> string set" where
  "join_stopwords E [] combined cache = (cache, combined)"
| "join_stopwords E (lang # langs) combined cache =
     (let (cache', words) = get_stopwords E lang cache in join_stopwords E langs (combined \<union> words) cache')"

definition get_combined_stopwords :: "ling_env \<Rightarrow> string list \<Rightarrow> stop_cache \<Rightarrow> stop_cache \<times> string set" where
  "get_combined_stopwords E langs cache =
     (let cache_key = py_join ''+'' (sort langs) in
      case dget cache cache_key of
        Some words \<Rightarrow> (cache, words)
      | None \<Rightarrow>
          (let (cache', combined) = join_stopwords E langs {} cache in (dset cache_key combined cache', combined)))"

definition both_languages :: "string list" where
  "both_languages = [''pl'', ''en'']"

text \<open>What the manager answers for both languages, whatever it has cached (\<open>stopword_cache_is_transparent\<close>).\<close>

definition combined_stopwords :: "ling_env \<Rightarrow> string set" where
  "combined_stopwords E = snd (get_combined_stopwords E both_languages [])"

section \<open>Stems\<close>

definition ascii_cp :: "string \<Rightarrow> string" where
  "ascii_cp u =
     (if u = pl ''/x'' then ''z''
      else case map_of (map (\<lambda>(c, v). (v, [c])) polish_lower) u of Some a \<Rightarrow> a | None \<Rightarrow> u)"

definition to_ascii :: "string \<Rightarrow> string" where
  "to_ascii w = concat (map ascii_cp (cps w))"

fun cut_suffix :: "string \<Rightarrow> string list \<Rightarrow> string" where
  "cut_suffix w [] = w"
| "cut_suffix w (suf # sufs) =
     (if py_len suf + 2 < py_len w \<and> ends_with w suf
      then (if w \<in> set protected_english_roots then w else take (length w - length suf) w)
      else cut_suffix w sufs)"

definition heuristic_stem_fallback :: "string \<Rightarrow> string" where
  "heuristic_stem_fallback w_low =
     (if w_low \<in> set protected_english_roots then w_low
      else
        let has_pl_diacritics = list_ex (\<lambda>u. u \<in> snd ` set polish_lower) (cps w_low);
            w_clean = to_ascii w_low
        in if w_clean \<in> set protected_english_roots then w_clean
           else cut_suffix (if has_pl_diacritics then subst_char CHR ''y'' CHR ''i'' w_clean else w_clean) heuristic_suffixes)"

definition lemma_or :: "nlp_token \<Rightarrow> string \<Rightarrow> string" where
  "lemma_or t w_low = py_strip (lower_pl (if tk_lemma t \<noteq> [] then tk_lemma t else w_low))"

definition bilingual_stem :: "ling_env \<Rightarrow> string \<Rightarrow> string" where
  "bilingual_stem E w =
     (let w_low = py_strip (lower_pl w) in
      if w_low = [] then []
      else if w_low \<in> set protected_english_roots then w_low
      else if py_len w_low \<le> 2 \<or> list_ex is_digit w_low \<or> CHR ''_'' \<in> set w_low then heuristic_stem_fallback w_low
      else
        (case li_fast E w_low of
           None \<Rightarrow> heuristic_stem_fallback w_low
         | Some t \<Rightarrow>
             (let lem = lemma_or t w_low in
              if lem = [] then heuristic_stem_fallback w_low
              else if lem \<in> set protected_english_roots then lem
              else heuristic_stem_fallback lem)))"

definition spacy_lemmatize_word :: "ling_env \<Rightarrow> string \<Rightarrow> string" where
  "spacy_lemmatize_word E w =
     (let w_low = py_strip (lower_pl w) in
      if w_low = [] then []
      else if w_low \<in> set protected_english_roots then w_low
      else
        (case li_fast E w_low of
           None \<Rightarrow> w_low
         | Some t \<Rightarrow>
             (let lem = lemma_or t w_low;
                  us = cps w_low;
                  lem' = (if lem = w_low \<and> w_low \<notin> set excluded_ie_words \<and> 6 \<le> py_len w_low \<and> ends_with w_low ''ie''
                             \<and> us ! (length us - 3) \<in> set (map (\<lambda>c. [c]) ''nbmrtpld'')
                          then take (length w_low - 2) w_low else lem)
              in if lem' \<noteq> [] then lem' else w_low)))"

section \<open>Entities, garbage, speech acts\<close>

definition is_non_salient_key_token :: "ling_env \<Rightarrow> string \<Rightarrow> bool" where
  "is_non_salient_key_token E token =
     (let t_low = py_strip (lower_pl token) in
      if py_len t_low < 3 \<or> t_low \<in> set namespace_schema_tokens then True
      else if t_low \<in> combined_stopwords E then True
      else
        (case li_fast E t_low of
           None \<Rightarrow> False
         | Some t \<Rightarrow> tk_stop t \<or> tk_pos t \<in> {''PRON'', ''DET'', ''ADP'', ''CCONJ'', ''SCONJ'', ''PART'', ''AUX''}))"

definition entity_margin :: "char \<Rightarrow> bool" where
  "entity_margin c \<longleftrightarrow> c \<in> set (''._-:;,()[]{}'' @ [CHR 0x22, CHR 0x27, CHR '' ''])"

definition is_valid_graph_entity :: "ling_env \<Rightarrow> string \<Rightarrow> bool" where
  "is_valid_graph_entity E name =
     (let s = py_strip name; s_low = strip_chars entity_margin (lower_pl s) in
      if s = [] \<or> 80 < py_len s then False
      else if CHR 0x0A \<in> set s \<or> CHR 0x0D \<in> set s \<or> contains_str s ''<!--'' \<or> contains_str (lower_pl s) ''[user]''
              \<or> contains_str (lower_pl s) ''[conversation]'' then False
      else if s_low = [] then False
      else if s_low \<in> set graph_noise_entities then False
      else if filter (\<lambda>c. c \<noteq> CHR ''.'') s_low \<noteq> [] \<and> list_all is_digit (filter (\<lambda>c. c \<noteq> CHR ''.'') s_low) then False
      else if 7 < length (py_words s_low) then False
      else if 2 \<le> py_len s_low \<and> s_low \<in> combined_stopwords E then False
      else True)"

text \<open>
  \<open>is_discourse_garbage_subject\<close>. The left of the sum is an \<open>IndexError\<close>: a subject of hyphens and underscores has no first
  word.
\<close>

definition garbage_word :: "ling_env \<Rightarrow> string \<Rightarrow> bool" where
  "garbage_word E head \<longleftrightarrow>
     head \<in> set query_meta_stopwords \<or> bilingual_stem E head \<in> set query_meta_stopstems
     \<or> (li_tagger E
        \<and> (case li_full E head of
             None \<Rightarrow> False
           | Some t \<Rightarrow> tk_pos t \<in> set discourse_garbage_pos \<and> (head \<in> set query_meta_stopwords \<or> py_len head \<le> 4)))"

definition is_discourse_garbage_subject :: "ling_env \<Rightarrow> string \<Rightarrow> unit + bool" where
  "is_discourse_garbage_subject E subject =
     (let raw = py_strip subject;
          toks = filter (\<lambda>t. t \<noteq> []) (py_split CHR ''_'' (subst_char CHR '' '' CHR ''_'' (subst_char CHR ''-'' CHR ''_'' raw)))
      in if raw = [] then Inr False
         else if toks \<noteq> [] \<and> bilingual_stem E (lower_pl (hd toks)) \<in> set discourse_garbage_extra_stems then Inr True
         else
           (case py_words (subst_char CHR ''_'' CHR '' '' (subst_char CHR ''-'' CHR '' '' raw)) of
              [] \<Rightarrow> Inl ()
            | w # _ \<Rightarrow> Inr (garbage_word E (lower_pl w))))"

datatype speech_act = ConversationalTurn | EpistemicAssertion

text \<open>The arguments of \<open>classify_speech_act\<close> are the texts \<open>str(x or "")\<close>.\<close>

definition subject_is_turn :: "ling_env \<Rightarrow> string \<Rightarrow> bool" where
  "subject_is_turn E raw \<longleftrightarrow>
     (let head = lower_pl (hd (py_split CHR ''_'' (subst_char CHR '' '' CHR ''_'' (subst_char CHR ''-'' CHR ''_'' raw))));
          stem = bilingual_stem E head
      in head \<in> set query_meta_stopwords \<or> stem \<in> set query_meta_stopstems
         \<or> (stem \<noteq> [] \<and> stem \<in> set discourse_garbage_extra_stems)
         \<or> (case li_full E head of None \<Rightarrow> False | Some t \<Rightarrow> tk_pos t = ''ADP''))"

definition classify_speech_act :: "ling_env \<Rightarrow> string \<Rightarrow> string \<Rightarrow> string \<Rightarrow> speech_act" where
  "classify_speech_act E subject predicate obj =
     (if py_strip subject \<noteq> [] \<and> subject_is_turn E (py_strip subject) then ConversationalTurn
      else if CHR ''?'' \<in> set obj \<or> CHR ''?'' \<in> set predicate then ConversationalTurn
      else EpistemicAssertion)"

fun speech_act_value :: "speech_act \<Rightarrow> string" where
  "speech_act_value ConversationalTurn = ''conversational_turn''"
| "speech_act_value EpistemicAssertion = ''epistemic_assertion''"

section \<open>Personal data\<close>

definition re_search :: "re \<Rightarrow> string \<Rightarrow> bool" where
  "re_search r s \<longleftrightarrow> list_ex (\<lambda>i. ends r s i \<noteq> []) [0..<Suc (length s)]"

definition is_letter :: "char \<Rightarrow> bool" where
  "is_letter c = (let n = of_char c :: nat in (65 \<le> n \<and> n \<le> 90) \<or> (97 \<le> n \<and> n \<le> 122))"

definition email_pattern :: re where
  "email_pattern =
     seqs [WordB, Rep 1 None (Chr (\<lambda>c. is_alnum c \<or> c \<in> set ''._%+-'')), lit ''@'',
       Rep 1 None (Chr (\<lambda>c. is_alnum c \<or> c \<in> set ''.-'')), lit ''.'',
       Rep 2 None (Chr (\<lambda>c. is_letter c \<or> c = CHR ''|'')), WordB]"

text \<open>\<open>re.IGNORECASE\<close> on ASCII letters: the pattern in lower case on the lowered text.\<close>

definition key_gap :: re where
  "key_gap = opt (Chr (\<lambda>c. c = CHR ''-'' \<or> c = CHR ''_'' \<or> is_space c))"

definition edge :: re where
  "edge = Alt WordB (lit ''_'')"

definition sensitive_key_pattern :: re where
  "sensitive_key_pattern =
     seqs [edge,
       foldr (\<lambda>(a, b) r. Alt (seqs [lit a, key_gap, lit b]) r)
         [(''api'', ''key''), (''client'', ''secret''), (''app'', ''secret''), (''bearer'', ''token''),
          (''secret'', ''token''), (''secret'', ''key'')] (lit ''password''),
       edge]"

definition secret_assign_pattern :: re where
  "secret_assign_pattern =
     seqs [WordB, lit ''secret'', Rep 0 None (Chr is_space), opt edge, Rep 0 None (Chr is_space),
       Chr (\<lambda>c. c = CHR '':'' \<or> c = CHR ''=''), Rep 0 None (Chr is_space), Chr (\<lambda>c. \<not> is_space c)]"

definition is_pii_entity :: "string \<Rightarrow> bool" where
  "is_pii_entity text =
     (let t_clean = py_lower (py_strip text) in
      if text = [] then False
      else if t_clean \<in> set whitelisted_domain_terms then False
      else if t_clean = ''secret'' then True
      else re_search email_pattern text \<or> re_search sensitive_key_pattern (py_lower text)
           \<or> re_search secret_assign_pattern (py_lower text))"

section \<open>The cache of stop words\<close>

definition stop_cache_ok :: "ling_env \<Rightarrow> stop_cache \<Rightarrow> bool" where
  "stop_cache_ok E cache \<longleftrightarrow>
     (\<forall>l \<in> set both_languages. dget cache l \<in> {None, Some (load_stopwords E l)})
     \<and> dget cache ''en+pl'' \<in> {None, Some (\<Union>l \<in> set both_languages. load_stopwords E l)}"

lemma lower_languages [simp]: "lower_pl ''pl'' = ''pl''" "lower_pl ''en'' = ''en''"
  by code_simp+

lemma combined_key: "py_join ''+'' (sort both_languages) = ''en+pl''"
  by code_simp

lemma get_stopwords_ok:
  assumes "stop_cache_ok E cache" "l \<in> set both_languages"
  shows "snd (get_stopwords E l cache) = load_stopwords E l \<and> stop_cache_ok E (fst (get_stopwords E l cache))"
  using assms by (auto simp: get_stopwords_def stop_cache_ok_def both_languages_def Let_def split: option.split)

lemma combined_ok:
  assumes "stop_cache_ok E cache"
  shows "snd (get_combined_stopwords E both_languages cache) = (\<Union>l \<in> set both_languages. load_stopwords E l)
    \<and> stop_cache_ok E (fst (get_combined_stopwords E both_languages cache))"
proof (cases "dget cache ''en+pl''")
  case None
  obtain c1 w1 where 1: "get_stopwords E ''pl'' cache = (c1, w1)" by fastforce
  obtain c2 w2 where 2: "get_stopwords E ''en'' c1 = (c2, w2)" by fastforce
  from get_stopwords_ok [OF assms, of "''pl''"] 1 have a: "w1 = load_stopwords E ''pl''" "stop_cache_ok E c1"
    by (auto simp: both_languages_def)
  from get_stopwords_ok [OF a(2), of "''en''"] 2 have b: "w2 = load_stopwords E ''en''" "stop_cache_ok E c2"
    by (auto simp: both_languages_def)
  have "join_stopwords E both_languages {} cache = (c2, w1 \<union> w2)"
    by (simp add: both_languages_def 1 2)
  with None a b show ?thesis
    by (auto simp: get_combined_stopwords_def Let_def combined_key stop_cache_ok_def both_languages_def)
next
  case (Some words)
  with assms show ?thesis
    by (auto simp: get_combined_stopwords_def Let_def combined_key stop_cache_ok_def)
qed

text \<open>
  The memory of rules is not filtered away: whatever the manager of stop words has cached before, it answers what a fresh
  one answers, its cache stays consistent with the sources, and no deontic word (always, never, only, must) is ever a stop word.
\<close>

theorem stopword_cache_is_transparent:
  assumes "stop_cache_ok E cache"
  shows "snd (get_combined_stopwords E both_languages cache) = combined_stopwords E
    \<and> stop_cache_ok E (fst (get_combined_stopwords E both_languages cache))
    \<and> combined_stopwords E \<inter> set deontic_protected = {}"
proof -
  have "stop_cache_ok E []" by (simp add: stop_cache_ok_def)
  from combined_ok [OF this] combined_ok [OF assms] show ?thesis
    by (auto simp: combined_stopwords_def load_stopwords_def Let_def)
qed

definition bare_ling :: ling_env where
  "bare_ling = \<lparr>li_fast = (\<lambda>_. None), li_full = (\<lambda>_. None), li_tagger = False, li_spacy_stop = (\<lambda>_. []), li_file = (\<lambda>_. None)\<rparr>"

theorem stopword_cache_is_transparent_witness:
  "combined_stopwords bare_ling \<inter> set deontic_protected = {}"
  using stopword_cache_is_transparent [of bare_ling "[]"] by (simp add: stop_cache_ok_def)

section \<open>What the heuristic stemmer leaves\<close>

lemma cut_suffix_prefix:
  "\<exists>rest. w = cut_suffix w sufs @ rest \<and> (rest = [] \<or> rest \<in> set sufs \<and> w \<notin> set protected_english_roots)"
proof (induction sufs)
  case (Cons suf sufs)
  show ?case
  proof (cases "py_len suf + 2 < py_len w \<and> ends_with w suf \<and> w \<notin> set protected_english_roots")
    case True
    then obtain p where "w = p @ suf"
      by (auto simp: ends_with_def starts_with_iff_prefix prefix_def) (metis rev_append rev_rev_ident)
    with True show ?thesis by simp
  next
    case False
    with Cons show ?thesis by auto
  qed
qed simp

text \<open>
  The heuristic stem of a word is the word itself if it is a protected English root; otherwise it is what remains of its
  ASCII form when at most one of the eleven endings is cut off.
\<close>

theorem heuristic_stem_cuts_one_ending:
  "if w \<in> set protected_english_roots then heuristic_stem_fallback w = w
   else \<exists>rest \<in> insert [] (set heuristic_suffixes).
     heuristic_stem_fallback w @ rest \<in> {to_ascii w, subst_char CHR ''y'' CHR ''i'' (to_ascii w)}"
proof -
  have "\<exists>rest \<in> insert [] (set heuristic_suffixes). cut_suffix v heuristic_suffixes @ rest = v" for v
    using cut_suffix_prefix [of v heuristic_suffixes] by (metis append_Nil2 insert_iff)
  then show ?thesis by (auto simp: heuristic_stem_fallback_def Let_def)
qed

text \<open>
  A subject made of hyphens and underscores is no word, and the check for discourse garbage fails on it with an exception
  instead of an answer.
\<close>

theorem garbage_check_raises:
  "is_discourse_garbage_subject E ''--'' = Inl () \<and> is_discourse_garbage_subject E ''_'' = Inl ()"
proof -
  have "py_strip ''--'' = ''--''" "py_strip ''_'' = ''_''" by code_simp+
  moreover have "filter (\<lambda>t. t \<noteq> []) (py_split CHR ''_'' (subst_char CHR '' '' CHR ''_'' (subst_char CHR ''-'' CHR ''_'' ''--''))) = []"
    "filter (\<lambda>t. t \<noteq> []) (py_split CHR ''_'' (subst_char CHR '' '' CHR ''_'' (subst_char CHR ''-'' CHR ''_'' ''_''))) = []"
    "py_words (subst_char CHR ''_'' CHR '' '' (subst_char CHR ''-'' CHR '' '' ''--'')) = []"
    "py_words (subst_char CHR ''_'' CHR '' '' (subst_char CHR ''-'' CHR '' '' ''_'')) = []" by code_simp+
  ultimately show ?thesis by (simp add: is_discourse_garbage_subject_def)
qed

end
