(* ===== verification/WritePath.thy ===== *)
theory WritePath
  imports StateSearch HotBuffer ConflictArbiter Linguistics
begin

text \<open>
  \<open>cognitive/write_path.py\<close>: the choke point of every write. A write passes the gates (speech act, lexical grounding,
  replay), is arbitrated against what the store and the hot buffer hold, supersedes what it revises, and is then carried
  through store, vector index, hot buffer and graph as a saga that is compensated when a step fails.

  The store is that of \<open>KvStore\<close>, the buffer that of \<open>HotBuffer\<close>, the arbiter that of \<open>ConflictArbiter\<close>. The graph and
  the vector index are other programs' state \<open>'g\<close> and \<open>'v\<close> with the operations of \<open>graph_api\<close> and \<open>vector_api\<close>, which
  answer the next state with a result or an exception; the extraction of relations from running text is one of them.
  A write happens at one instant \<open>now\<close>. The checkpoints of the numeric layers L0 and L1 are left out: nothing in a write
  changes what they save. Logging is left out. The guarantees are in \<open>WriteSaga\<close>.
\<close>

section \<open>Grounding of entities\<close>

definition noise_tokens :: "string list" where
  "noise_tokens = map pl [''cztli'', ''czyli'', ''albo'', ''poniewaz'', ''poniewa/z'', ''jakby'', ''oraz'', ''lecz'', ''wiec'',
     ''wi/ec'', ''zeby'', ''/zeby'', ''jezeli'', ''je/zeli'', ''jesli'', ''je/sli'', ''gdy'', ''wtedy'',
     ''dlaczego'', ''kiedy'', ''gdzie'', ''skad'', ''sk/ad'', ''dokad'', ''dok/ad'', ''jak'', ''co'', ''kto'',
     ''czy'', ''oto'', ''otoz'', ''ot/o/z'', ''takze'', ''tak/ze'', ''rowniez'', ''r/ownie/z'', ''chociaz'',
     ''chocia/z'', ''choc'', ''cho/c'', ''jednak'', ''natomiast'', ''zatem'', ''przeciez'', ''przecie/z'',
     ''chyba'', ''moze'', ''mo/ze'', ''raczej'', ''tam'', ''tu'', ''tutaj'', ''teraz'', ''b/ad/x'', ''badz'',
     ''ani'', ''zar/owno'', ''zarowno'', ''aczkolwiek'', ''wszak/ze'', ''wszakze'', ''which'', ''what'',
     ''where'', ''when'', ''why'', ''how'', ''who'', ''whom'', ''whose'', ''that'', ''this'', ''these'',
     ''those'', ''then'', ''than'', ''thus'', ''also'', ''and'', ''or'', ''but'', ''so'', ''because'',
     ''although'', ''since'', ''unless'', ''either'', ''neither'', ''nor'', ''if'', ''whether'', ''well'',
     ''actually'', ''basically'']"

fun one_insertion :: "'a list \<Rightarrow> 'a list \<Rightarrow> nat \<Rightarrow> bool" where
  "one_insertion (a # s) (b # t) n =
     (if a = b then one_insertion s t n
      else if 1 < n + 1 then False
      else one_insertion (a # s) t (n + 1))"
| "one_insertion s t n = True"

definition levenshtein_le_1 :: "string \<Rightarrow> string \<Rightarrow> bool" where
  "levenshtein_le_1 s1 s2 =
     (let a = cps s1; b = cps s2 in
      if s1 = s2 then True
      else if length a + 1 < length b \<or> length b + 1 < length a then False
      else if length a = length b then length (filter (\<lambda>(x, y). x \<noteq> y) (zip a b)) \<le> 1
      else if length b < length a then one_insertion b a 0
      else one_insertion a b 0)"

text \<open>
  The reason that goes with the answer. For a typo the code names one of the similar tokens, whichever the iteration of
  the set meets first.
\<close>

datatype grounding =
    EmptyKey | NamespacedEntity | NoiseToken string | NoiseTypo string "string list" | ShortToken string
  | Affirmation string string | Grounded

definition all_digits :: "string \<Rightarrow> bool" where
  "all_digits s \<longleftrightarrow> s \<noteq> [] \<and> list_all is_digit s"

definition similar_noise :: "string \<Rightarrow> string list" where
  "similar_noise clean = filter (\<lambda>noise. 4 \<le> py_len noise \<and> levenshtein_le_1 clean noise) noise_tokens"

definition is_lexically_grounded_entity :: "(pyval \<Rightarrow> string) \<Rightarrow> string \<Rightarrow> pyval \<Rightarrow> meta \<Rightarrow> bool \<times> grounding" where
  "is_lexically_grounded_entity rp key val metadata =
     (let key_str = py_strip key; clean = lower_pl key_str;
          val_clean = lower_pl (strip_chars (\<lambda>c. c = CHR 0x22 \<or> c = CHR 0x27) (py_strip (py_str rp (py_or val (VStr [])))));
          has_predicate = truthy (py_or (meta_get metadata ''predicate'') (meta_get metadata ''relation''))
      in if key_str = [] then (False, EmptyKey)
         else if list_ex (\<lambda>c. c \<in> set '':/.'') key_str \<and> 1 < py_len (py_split CHR '':'' key_str ! 0) then (True, NamespacedEntity)
         else if clean \<in> set noise_tokens then (False, NoiseToken clean)
         else if 4 \<le> py_len clean \<and> \<not> all_digits clean \<and> similar_noise clean \<noteq> []
         then (False, NoiseTypo clean (similar_noise clean))
         else if py_len clean < 3 \<and> \<not> all_digits clean then (False, ShortToken clean)
         else if val_clean \<in> {''nie'', ''tak'', ''no'', ''yes'', ''true'', ''false'', ''ok''} \<and> \<not> has_predicate
         then (False, Affirmation clean val_clean)
         else (True, Grounded))"

section \<open>The stores beside the key-value store\<close>

datatype graph_error = GraphTypeError | GraphError string

record dual_args =
  du_key :: string
  du_text :: string
  du_ingest :: string
  du_gist :: string
  du_entities :: "pyval list option"
  du_synonyms :: "pyval list option"
  du_speech :: string

record 'g dual_api =
  du_has :: "string \<Rightarrow> 'g \<Rightarrow> graph_error + bool"
  du_index :: "dual_args \<Rightarrow> 'g \<Rightarrow> 'g \<times> (graph_error + int)"
  du_rollback :: "string \<Rightarrow> 'g \<Rightarrow> 'g"

text \<open>\<open>add_relation\<close> with a confidence and further arguments, or with neither; the text extractor of the ingest engine.\<close>

record 'g graph_api =
  ga_add :: "string \<Rightarrow> string \<Rightarrow> string \<Rightarrow> rat option \<Rightarrow> meta \<Rightarrow> 'g \<Rightarrow> 'g \<times> (graph_error + unit)"
  ga_remove :: "string \<Rightarrow> string \<Rightarrow> string \<Rightarrow> 'g \<Rightarrow> 'g"
  ga_extract :: "string \<Rightarrow> string \<Rightarrow> 'g \<Rightarrow> 'g \<times> (graph_error + int)"
  ga_dual :: "'g dual_api option"

text \<open>The second component tells whether the call returned.\<close>

record ('v, 'r) vector_api =
  va_insert :: "'r \<Rightarrow> string \<Rightarrow> string \<Rightarrow> 'v \<Rightarrow> 'v \<times> bool"
  va_delete :: "string \<Rightarrow> 'v \<Rightarrow> 'v \<times> bool"

record ('g, 'v, 'r) wp_env =
  we_arb :: arb_env
  we_ling :: ling_env
  we_fr :: "rat \<Rightarrow> string"
  we_fp :: "ustr \<Rightarrow> rat"
  we_fts :: fts_index
  we_int :: "string \<Rightarrow> int option"
  we_iso :: "rat \<Rightarrow> string"
  we_order :: "string set \<Rightarrow> string list"
  we_graph :: "'g graph_api"
  we_vector :: "('v, 'r) vector_api"

abbreviation we_str :: "('g, 'v, 'r) wp_env \<Rightarrow> pyval \<Rightarrow> string" where
  "we_str E \<equiv> py_str (ae_repr (we_arb E))"

record ('g, 'v) wp =
  w_kv :: "kv option"
  w_graph :: "'g option"
  w_hot :: hot_buffer
  w_arbiter :: arbiter
  w_vector :: "'v option"
  w_touched :: "(string, string set) dict"
  w_audit :: "(string \<times> pyval) list"

datatype write_error =
    KeyRequired | BadInput | BadRevisionCount | StoreFailure kv_error | ArbiterFailure arb_error | VectorFailure
  | HotFailure hot_error | GraphFailure graph_error

section \<open>Relations\<close>

definition prose_predicates :: "string list" where
  "prose_predicates = [''stated_memory'', ''raw_content'', ''documentation'', ''source_doc'']"

definition is_prose_object :: "string \<Rightarrow> bool" where
  "is_prose_object obj \<longleftrightarrow>
     6 < length (filter (\<lambda>c. c = CHR '' '') (py_strip obj)) \<and> list_ex (\<lambda>c. c \<in> set ''.,;!?'') obj"

definition refused_relation :: "(pyval \<Rightarrow> string) \<Rightarrow> string \<Rightarrow> string \<Rightarrow> string \<Rightarrow> bool" where
  "refused_relation rp subj predicate obj \<longleftrightarrow>
     lower_pl (py_strip predicate) \<in> set prose_predicates \<or> is_prose_object obj
     \<or> is_pii_entity subj \<or> is_pii_entity predicate \<or> is_pii_entity obj
     \<or> py_strip subj = py_strip obj
     \<or> \<not> fst (is_lexically_grounded_entity rp subj VNone []) \<or> \<not> fst (is_lexically_grounded_entity rp obj VNone [])"

text \<open>The call with all arguments; on a \<open>TypeError\<close> with the confidence only, then with none.\<close>

definition add_with_fallback ::
  "'g graph_api \<Rightarrow> string \<Rightarrow> string \<Rightarrow> string \<Rightarrow> rat \<Rightarrow> meta \<Rightarrow> 'g \<Rightarrow> 'g \<times> (graph_error + bool)" where
  "add_with_fallback G s p ob conf kwargs g =
     (case ga_add G s p ob (Some conf) kwargs g of
        (g1, Inr _) \<Rightarrow> (g1, Inr True)
      | (g1, Inl GraphTypeError) \<Rightarrow>
          (case ga_add G s p ob (Some conf) [] g1 of
             (g2, Inr _) \<Rightarrow> (g2, Inr True)
           | (g2, Inl GraphTypeError) \<Rightarrow>
               (case ga_add G s p ob None [] g2 of (g3, Inr _) \<Rightarrow> (g3, Inr True) | (g3, Inl err) \<Rightarrow> (g3, Inl err))
           | (g2, Inl err) \<Rightarrow> (g2, Inl err))
      | (g1, Inl err) \<Rightarrow> (g1, Inl err))"

definition commit_edge ::
  "('g, 'v, 'r) wp_env \<Rightarrow> string \<Rightarrow> string \<Rightarrow> string \<Rightarrow> float_arg \<Rightarrow> meta \<Rightarrow> 'g \<Rightarrow> 'g \<times> (graph_error + bool)" where
  "commit_edge E subj predicate obj confidence kwargs g =
     (if refused_relation (ae_repr (we_arb E)) subj predicate obj then (g, Inr False)
      else add_with_fallback (we_graph E) (py_strip subj) (py_strip predicate) (py_strip obj) (clamp_conf confidence) kwargs g)"

definition commit_relation ::
  "('g, 'v, 'r) wp_env \<Rightarrow> string \<Rightarrow> string \<Rightarrow> string \<Rightarrow> float_arg \<Rightarrow> string option \<Rightarrow> rat option \<Rightarrow> meta \<Rightarrow>
     ('g, 'v) wp \<Rightarrow> ('g, 'v) wp \<times> (graph_error + bool)" where
  "commit_relation E subj predicate obj confidence session_id timestamp kwargs w =
     (let k1 = (case session_id of None \<Rightarrow> kwargs | Some s \<Rightarrow> dset ''session_id'' (VStr s) kwargs);
          k2 = (case timestamp of None \<Rightarrow> k1 | Some t \<Rightarrow> dset ''timestamp'' (VFloat t) k1)
      in case w_graph w of
           None \<Rightarrow> (w, Inr False)
         | Some g \<Rightarrow> (let (g', r) = commit_edge E subj predicate obj confidence k2 g in (w\<lparr>w_graph := Some g'\<rparr>, r)))"

section \<open>Edges of a value\<close>

text \<open>The arrows \<open>->\<close>, \<open>=>\<close> and the code point of the right arrow; \<open>re.split\<close> at them.\<close>

definition arrows :: "string list" where
  "arrows = [''->'', [CHR 0xE2, CHR 0x86, CHR 0x92], ''=>'']"

definition has_arrow :: "string \<Rightarrow> bool" where
  "has_arrow s \<longleftrightarrow> list_ex (contains_str s) arrows"

function split_arrows :: "string \<Rightarrow> string \<Rightarrow> string list" where
  "split_arrows acc [] = [rev acc]"
| "split_arrows acc (c # s) =
     (case find (starts_with (c # s)) arrows of
        Some a \<Rightarrow> rev acc # split_arrows [] (drop (length a - 1) s)
      | None \<Rightarrow> split_arrows (c # acc) s)"
  by pat_completeness auto
termination
  by (relation "measure (\<lambda>(acc, s). length s)") auto

text \<open>\<open>re.fullmatch([\d\W_]+, p)\<close> for a text that is not empty.\<close>

definition no_letters :: "string \<Rightarrow> bool" where
  "no_letters p \<longleftrightarrow> list_all (\<lambda>c. is_digit c \<or> \<not> is_word_char c \<or> c = CHR ''_'') p"

definition chain_part :: "string \<Rightarrow> bool" where
  "chain_part p \<longleftrightarrow> 2 \<le> py_len p \<and> py_len p \<le> 64 \<and> length (py_words p) \<le> 6 \<and> \<not> no_letters p"

definition symbolic_chain :: "string \<Rightarrow> string list option" where
  "symbolic_chain val =
     (let raw_parts = (if has_arrow val then filter (\<lambda>p. p \<noteq> []) (map py_strip (split_arrows [] val)) else [])
      in if 2 \<le> length raw_parts \<and> py_len (py_strip val) \<le> 160 \<and> list_all chain_part raw_parts then Some raw_parts else None)"

fun chain_edges :: "string list \<Rightarrow> (string \<times> string \<times> string) list" where
  "chain_edges (a # b # ps) = (a, ''leads_to'', b) # chain_edges (b # ps)"
| "chain_edges _ = []"

text \<open>What a text without predicate contributes: edges, or its extraction by the ingest engine.\<close>

datatype text_plan = Edges "(string \<times> string \<times> string) list" | Extract string

definition plan_text :: "string \<Rightarrow> string \<Rightarrow> text_plan" where
  "plan_text sub val =
     (case symbolic_chain val of
        Some parts \<Rightarrow> Edges ((if sub \<noteq> hd parts then [(sub, ''leads_to'', hd parts)] else []) @ chain_edges parts)
      | None \<Rightarrow>
          if starts_with val ''test:'' \<or> (py_len (py_strip val) < 64 \<and> CHR '' '' \<notin> set (py_strip val) \<and> CHR '':'' \<in> set val)
          then Edges [(sub, ''relates_to'', py_strip val)]
          else if 25 \<le> py_len (py_strip val) \<or> list_ex (contains_str (py_strip val)) ([''('', '')'', '':''] @ arrows)
          then Extract val
          else Edges [])"

definition plan_edges :: "('g, 'v, 'r) wp_env \<Rightarrow> string \<Rightarrow> pyval \<Rightarrow> meta \<Rightarrow> text_plan" where
  "plan_edges E key val metadata =
     (let sub = we_str E (py_or (meta_get metadata ''subject'') (VStr key));
          pred = py_or (meta_get metadata ''predicate'') (meta_get metadata ''relation'');
          obj = py_or (meta_get metadata ''object'') (meta_get metadata ''target'')
      in case val of
           VDict d \<Rightarrow> Edges (map (\<lambda>(k, v). (sub, k, we_str E v)) d)
         | _ \<Rightarrow>
             if truthy pred \<and> truthy obj then Edges [(sub, we_str E pred, we_str E obj)]
             else
               (case val of
                  VStr s \<Rightarrow>
                    if truthy pred then
                      (let v = py_strip s in
                       Edges (if v \<noteq> [] \<and> CHR '' '' \<notin> set v \<and> py_len v \<le> 64 \<and> \<not> has_arrow v
                              then [(sub, we_str E pred, v)] else []))
                    else plan_text sub s
                | _ \<Rightarrow> Edges []))"

fun commit_edges ::
  "('g, 'v, 'r) wp_env \<Rightarrow> rat \<Rightarrow> (string \<times> string \<times> string) list \<Rightarrow> 'g \<Rightarrow>
     'g \<times> (string \<times> string \<times> string) list \<times> (graph_error + int)" where
  "commit_edges E confidence [] g = (g, [], Inr 0)"
| "commit_edges E confidence ((s, p, ob) # es) g =
     (case commit_edge E s p ob (FNum confidence) [] g of
        (g1, Inl err) \<Rightarrow> (g1, [], Inl err)
      | (g1, Inr added) \<Rightarrow>
          (let (g2, inserted, r) = commit_edges E confidence es g1 in
           (g2, (if added then (s, p, ob) # inserted else inserted),
            map_sum id (\<lambda>n. if added then n + 1 else n) r)))"

definition pyval_list :: "pyval \<Rightarrow> pyval list option" where
  "pyval_list v = (case v of VList xs \<Rightarrow> Some xs | _ \<Rightarrow> None)"

definition dual_of :: "('g, 'v, 'r) wp_env \<Rightarrow> rat \<Rightarrow> string \<Rightarrow> string \<Rightarrow> meta \<Rightarrow> dual_args" where
  "dual_of E now skey txt metadata =
     (let raw_ing = meta_get metadata ''ingest_at''; ing = py_strip (we_str E raw_ing) in
      \<lparr>du_key = skey, du_text = txt, du_ingest = (if raw_ing \<noteq> VNone \<and> ing \<noteq> [] then ing else we_iso E now),
       du_gist = we_str E (py_or (meta_get metadata ''gist'') (VStr [])),
       du_entities = pyval_list (meta_get metadata ''entities''),
       du_synonyms = pyval_list (meta_get metadata ''synonyms''),
       du_speech = we_str E (py_or (meta_get metadata ''speech_act'') (VStr []))\<rparr>)"

text \<open>\<open>_auto_insert_graph_edges\<close>: the next graph, the edges it inserted itself, and their number or the exception.\<close>

definition auto_insert_graph_edges ::
  "('g, 'v, 'r) wp_env \<Rightarrow> rat \<Rightarrow> string \<Rightarrow> pyval \<Rightarrow> meta \<Rightarrow> rat \<Rightarrow> 'g \<Rightarrow>
     'g \<times> (string \<times> string \<times> string) list \<times> (graph_error + int)" where
  "auto_insert_graph_edges E now key val metadata confidence g =
     (let sub = we_str E (py_or (meta_get metadata ''subject'') (VStr key));
          (g1, inserted, r1) =
            (case plan_edges E key val metadata of
               Edges es \<Rightarrow> commit_edges E confidence es g
             | Extract txt \<Rightarrow>
                 (case ga_extract (we_graph E) sub txt g of
                    (g', Inr n) \<Rightarrow> (g', [], Inr n)
                  | (g', Inl _) \<Rightarrow> (g', [], Inr 0)));
          skey = py_strip key; txt = py_strip (we_str E val)
      in case r1 of
           Inl err \<Rightarrow> (g1, inserted, Inl err)
         | Inr n \<Rightarrow>
             (case ga_dual (we_graph E) of
                None \<Rightarrow> (g1, inserted, Inr n)
              | Some D \<Rightarrow>
                  if skey \<noteq> [] \<and> txt \<noteq> [] then
                    (let (g2, r2) = du_index D (dual_of E now skey txt metadata) g1 in
                     (g2, inserted, map_sum id (\<lambda>m. n + m) r2))
                  else (g1, inserted, Inr n)))"

section \<open>Input\<close>

datatype write_key = KeyRecord meta | KeyValue pyval

record 'r write_args =
  in_key :: write_key
  in_value :: pyval
  in_conf :: float_arg
  in_meta :: meta
  in_source :: string
  in_reason :: string
  in_session :: "string option"
  in_vector :: "'r option"
  in_replay_at :: pyval
  in_replay :: bool

text \<open>\<open>list(x)\<close>.\<close>

fun py_list :: "pyval \<Rightarrow> pyval list option" where
  "py_list (VList xs) = Some xs"
| "py_list (VStr s) = Some (map VStr (cps s))"
| "py_list (VDict d) = Some (map VStr (dkeys d))"
| "py_list _ = None"

text \<open>The fields of a record: value, confidence, metadata; \<open>None\<close> for a \<open>TypeError\<close> or \<open>ValueError\<close>.\<close>

definition record_conf :: "('g, 'v, 'r) wp_env \<Rightarrow> meta \<Rightarrow> float_arg \<Rightarrow> float_arg option" where
  "record_conf E rec confidence =
     (case dget rec ''confidence'' of
        None \<Rightarrow> (if confidence \<in> {FNone, FInvalid} then None else Some confidence)
      | Some v \<Rightarrow> map_option FNum (to_float (ae_float (we_arb E)) v))"

definition list_field :: "string \<Rightarrow> meta \<Rightarrow> meta \<Rightarrow> meta option" where
  "list_field f rec m =
     (case dget rec f of None \<Rightarrow> Some m | Some v \<Rightarrow> map_option (\<lambda>xs. dset f (VList xs) m) (py_list v))"

definition record_meta :: "meta \<Rightarrow> meta \<Rightarrow> meta option" where
  "record_meta rec metadata =
     (case py_or (py_or (meta_get rec ''metadata'') (VDict metadata)) (VDict []) of
        VDict m \<Rightarrow>
          (case list_field ''entities'' rec m of None \<Rightarrow> None | Some m1 \<Rightarrow> list_field ''synonyms'' rec m1)
      | _ \<Rightarrow> None)"

definition stamp_replay :: "('g, 'v, 'r) wp_env \<Rightarrow> pyval \<Rightarrow> meta \<Rightarrow> meta" where
  "stamp_replay E replay_at m = (if replay_at = VNone then m else dset ''ingest_at'' (VStr (we_str E replay_at)) m)"

definition normalize_write_input ::
  "('g, 'v, 'r) wp_env \<Rightarrow> 'r write_args \<Rightarrow> write_error + string \<times> pyval \<times> float_arg \<times> meta \<times> pyval" where
  "normalize_write_input E a =
     (case in_key a of
        KeyRecord rec \<Rightarrow>
          (let key = py_strip (we_str E (py_or (py_or (py_or (meta_get rec ''source_key'') (meta_get rec ''key''))
                 (meta_get rec ''subject'')) (VStr [])));
               val = (case dget rec ''text'' of Some v \<Rightarrow> v | None \<Rightarrow> dget_default rec ''value'' (in_value a));
               replay_at = (if in_replay_at a \<noteq> VNone then in_replay_at a else meta_get rec ''replay_at'')
           in case (record_conf E rec (in_conf a), record_meta rec (in_meta a)) of
                (Some conf, Some m) \<Rightarrow>
                  (if key = [] then Inl KeyRequired else Inr (key, val, conf, stamp_replay E replay_at m, replay_at))
              | _ \<Rightarrow> Inl BadInput)
      | KeyValue k \<Rightarrow>
          (let key = py_strip (we_str E (py_or k (VStr []))) in
           if key = [] then Inl KeyRequired
           else Inr (key, in_value a, in_conf a, stamp_replay E (in_replay_at a) (in_meta a), in_replay_at a)))"

section \<open>What the arbiter compares with\<close>

definition item_of_state :: "state_dict \<Rightarrow> meta" where
  "item_of_state r =
     [(''key'', VStr (sd_key r)), (''value'', sd_value r), (''confidence'', VFloat (sd_confidence r)),
      (''timestamp'', VFloat (sd_timestamp r)), (''metadata'', VDict (sd_metadata r))]
     @ (case sd_value_hash r of None \<Rightarrow> [] | Some h \<Rightarrow> [(''value_hash'', VStr h)])
     @ (if sd_tampered r then [(''tampered'', VBool True)] else [])"

definition item_of_hot :: "hot_entry \<Rightarrow> meta" where
  "item_of_hot e =
     [(''key'', VStr (e_key e)), (''value'', e_value e), (''confidence'', VFloat (e_confidence e)),
      (''metadata'', VDict (e_metadata e)), (''source_type'', VStr (e_source_type e)), (''timestamp'', VFloat (e_timestamp e))]"

text \<open>Items come from the two functions above, so that these fields are always numbers and dictionaries.\<close>

definition item_time :: "meta \<Rightarrow> rat" where
  "item_time it = (case dget it ''timestamp'' of Some (VFloat t) \<Rightarrow> t | _ \<Rightarrow> 0)"

definition item_conf :: "meta \<Rightarrow> float_arg" where
  "item_conf it = (case dget it ''confidence'' of Some (VFloat c) \<Rightarrow> FNum c | _ \<Rightarrow> FNum 1)"

definition item_meta :: "meta \<Rightarrow> meta" where
  "item_meta it = (case dget it ''metadata'' of Some (VDict m) \<Rightarrow> m | _ \<Rightarrow> [])"

definition merge_hot :: "(string, meta) dict \<Rightarrow> hot_entry \<Rightarrow> (string, meta) dict" where
  "merge_hot items e =
     (if e_key e = [] then items
      else case dget items (e_key e) of
          None \<Rightarrow> dset (e_key e) (item_of_hot e) items
        | Some it \<Rightarrow> (if item_time it \<le> e_timestamp e then dset (e_key e) (item_of_hot e) items else items))"

definition stored_items :: "('g, 'v, 'r) wp_env \<Rightarrow> string \<Rightarrow> pyval \<Rightarrow> meta \<Rightarrow> kv \<Rightarrow> (string, meta) dict" where
  "stored_items E key val m s =
     (let items = (case get_arbitration_candidates_sync (ae_repr (we_arb E)) (we_fp E) (we_fts E) key val 100 s of
                     Inl _ \<Rightarrow> [] | Inr d \<Rightarrow> map (\<lambda>(k, r). (k, item_of_state r)) d);
          sup = meta_get m ''supersedes''; sup_k = we_str E sup
      in if truthy sup \<and> sup_k \<notin> set (dkeys items) then
           (case get_sync (we_fp E) sup_k s of
              Inr (Some r) \<Rightarrow> dset sup_k (item_of_state r) items
            | _ \<Rightarrow> items)
         else items)"

definition existing_items ::
  "('g, 'v, 'r) wp_env \<Rightarrow> rat \<Rightarrow> string \<Rightarrow> pyval \<Rightarrow> meta \<Rightarrow> string option \<Rightarrow> ('g, 'v) wp \<Rightarrow> (string, meta) dict" where
  "existing_items E now key val m session_id w =
     foldl merge_hot (case w_kv w of None \<Rightarrow> [] | Some s \<Rightarrow> stored_items E key val m s)
       (get_active (ae_repr (we_arb E)) now session_id None (w_hot w))"

section \<open>Superseding\<close>

text \<open>Calls whose exceptions are swallowed; what they changed before they raised stays.\<close>

definition try_set ::
  "('g, 'v, 'r) wp_env \<Rightarrow> rat \<Rightarrow> string \<Rightarrow> pyval \<Rightarrow> float_arg \<Rightarrow> meta \<Rightarrow> string \<Rightarrow> ('g, 'v) wp \<Rightarrow> ('g, 'v) wp" where
  "try_set E now key val conf m reason w =
     w\<lparr>w_kv := map_option (\<lambda>s. fst (set_sync (we_fr E) now key val conf m reason None s)) (w_kv w)\<rparr>"

definition try_edge ::
  "('g, 'v, 'r) wp_env \<Rightarrow> string \<Rightarrow> string \<Rightarrow> string \<Rightarrow> rat \<Rightarrow> ('g, 'v) wp \<Rightarrow> ('g, 'v) wp" where
  "try_edge E s p ob confidence w =
     w\<lparr>w_graph := map_option (\<lambda>g. fst (ga_add (we_graph E) s p ob (Some confidence) [] g)) (w_graph w)\<rparr>"

text \<open>\<open>arb_res.superseded_key or meta.get("supersedes") or key\<close>.\<close>

definition old_key_of :: "('g, 'v, 'r) wp_env \<Rightarrow> arb_result \<Rightarrow> meta \<Rightarrow> string \<Rightarrow> string" where
  "old_key_of E r m key =
     (let sup = meta_get m ''supersedes''; alt = (if truthy sup then we_str E sup else key) in
      case r_superseded r of None \<Rightarrow> alt | Some k \<Rightarrow> (if k \<noteq> [] then k else alt))"

definition mark_old :: "rat \<Rightarrow> string \<Rightarrow> meta \<Rightarrow> meta" where
  "mark_old now key m =
     dset ''superseded_at'' (VFloat now) (dset ''superseded_by'' (VStr key) (dset ''is_superseded'' (VBool True) m))"

fun purge_vectors :: "('g, 'v, 'r) wp_env \<Rightarrow> string list \<Rightarrow> 'v \<Rightarrow> 'v \<times> bool" where
  "purge_vectors E [] v = (v, True)"
| "purge_vectors E (k # ks) v =
     (case va_delete (we_vector E) k v of
        (v', True) \<Rightarrow> purge_vectors E ks v'
      | (v', False) \<Rightarrow> (v', False))"

definition purge_keys :: "string \<Rightarrow> string list" where
  "purge_keys old_key = [old_key, if starts_with old_key ''kv:'' then drop 3 old_key else ''kv:'' @ old_key]"

definition set_tombstone :: "('g, 'v, 'r) wp_env \<Rightarrow> rat \<Rightarrow> string \<Rightarrow> ('g, 'v) wp \<Rightarrow> ('g, 'v) wp" where
  "set_tombstone E now old_key w =
     (case map_option (get_sync (we_fp E) old_key) (w_kv w) of
        Some (Inr (Some r)) \<Rightarrow>
          try_set E now old_key (sd_value r) (FNum (sd_confidence r))
            (dset ''is_superseded'' (VBool True) (dset ''vector_tombstone_pending'' (VBool True) (sd_metadata r)))
            ''vector_tombstone_pending'' w
      | _ \<Rightarrow> w)"

definition purge_old_vectors ::
  "('g, 'v, 'r) wp_env \<Rightarrow> rat \<Rightarrow> string \<Rightarrow> ('g, 'v) wp \<Rightarrow> meta \<Rightarrow> ('g, 'v) wp \<times> meta" where
  "purge_old_vectors E now old_key w m =
     (case w_vector w of
        None \<Rightarrow> (w, m)
      | Some v \<Rightarrow>
          (let (v', ok) = purge_vectors E (purge_keys old_key) v; w' = w\<lparr>w_vector := Some v'\<rparr> in
           if ok then (w', m) else (set_tombstone E now old_key w', dset ''vector_tombstone_pending'' (VBool True) m)))"

text \<open>The old record is marked in the store, linked in the graph, and purged from buffer and vector index.\<close>

definition supersede ::
  "('g, 'v, 'r) wp_env \<Rightarrow> rat \<Rightarrow> string \<Rightarrow> rat \<Rightarrow> arb_result \<Rightarrow> (string, meta) dict \<Rightarrow> meta \<Rightarrow> ('g, 'v) wp \<Rightarrow>
     ('g, 'v) wp \<times> meta \<times> (string \<times> meta) option" where
  "supersede E now key confidence r items m w =
     (if \<not> r_is_revision r then (w, m, None)
      else
        let old_key = old_key_of E r m key;
            m1 = dset ''superseded_key'' (VStr old_key) (dset ''is_belief_revision'' (VBool True) m);
            old = dget items old_key;
            w1 = (case old of
                    None \<Rightarrow> w
                  | Some it \<Rightarrow> try_set E now old_key (dget_default it ''value'' (VStr [])) (item_conf it)
                      (mark_old now key (item_meta it)) ''superseded_by_belief_revision'' w);
            w2 = (if old_key \<noteq> key then try_edge E old_key ''SUPERSEDED_BY'' key confidence w1 else w1);
            w3 = w2\<lparr>w_hot := fst (purge old_key (w_hot w2))\<rparr>;
            (w4, m2) = (if old_key \<noteq> key then purge_old_vectors E now old_key w3 m1 else (w3, m1))
        in (w4, m2, map_option (Pair old_key) old))"

section \<open>Revisions of one key\<close>

fun to_int :: "('g, 'v, 'r) wp_env \<Rightarrow> pyval \<Rightarrow> int option" where
  "to_int E (VInt i) = Some i"
| "to_int E (VBool b) = Some (if b then 1 else 0)"
| "to_int E (VFloat x) = Some (if 0 \<le> x then floor x else ceiling x)"
| "to_int E (VStr s) = we_int E s"
| "to_int E _ = None"

definition version_edges :: "('g, 'v, 'r) wp_env \<Rightarrow> string \<Rightarrow> string \<Rightarrow> string \<Rightarrow> rat \<Rightarrow> 'g \<Rightarrow> 'g" where
  "version_edges E key prior val confidence g =
     (case ga_add (we_graph E) key ''REVISED_FROM'' prior (Some confidence) [] g of
        (g1, Inl _) \<Rightarrow> g1
      | (g1, Inr _) \<Rightarrow> fst (ga_add (we_graph E) prior ''TRANSITIONED_TO'' val (Some confidence) [] g1))"

definition track_revision ::
  "('g, 'v, 'r) wp_env \<Rightarrow> string \<Rightarrow> pyval \<Rightarrow> rat \<Rightarrow> (string, meta) dict \<Rightarrow> meta \<Rightarrow> ('g, 'v) wp \<Rightarrow>
     ('g, 'v) wp \<times> (write_error + meta)" where
  "track_revision E key val confidence items m w =
     (case dget items key of
        None \<Rightarrow> (w, Inr m)
      | Some it \<Rightarrow>
          (let prior = we_str E (dget_default it ''value'' (VStr [])) in
           if prior = we_str E val then (w, Inr m)
           else case to_int E (dget_default (item_meta it) ''revision_count'' (VInt 0)) of
               None \<Rightarrow> (w, Inl BadRevisionCount)
             | Some n \<Rightarrow>
                 (w\<lparr>w_graph := map_option (version_edges E key prior (we_str E val) confidence) (w_graph w)\<rparr>,
                  Inr (dset ''revision_count'' (VInt (n + 1)) (dset ''prior_value'' (VStr prior) m)))))"

section \<open>The saga\<close>

definition saga :: string where
  "saga = ''saga_tx''"

text \<open>The new record goes to the store: whether it was persisted, and whether the savepoint is open.\<close>

definition persist ::
  "('g, 'v, 'r) wp_env \<Rightarrow> rat \<Rightarrow> string \<Rightarrow> pyval \<Rightarrow> rat \<Rightarrow> meta \<Rightarrow> string \<Rightarrow> ('g, 'v) wp \<Rightarrow>
     ('g, 'v) wp \<times> (write_error + bool \<times> bool)" where
  "persist E now key val confidence m reason w =
     (case w_kv w of
        None \<Rightarrow> (w, Inr (False, False))
      | Some s \<Rightarrow>
          (let (s1, sp) = savepoint saga s in
           case set_sync (we_fr E) now key val (FNum confidence) m reason None s1 of
             (s2, Inl err) \<Rightarrow> (w\<lparr>w_kv := Some s2\<rparr>, Inl (StoreFailure err))
           | (s2, Inr _) \<Rightarrow> (w\<lparr>w_kv := Some s2\<rparr>, Inr (True, sp = Inr ()))))"

text \<open>\<open>json.dumps(value, ensure_ascii=False)\<close>.\<close>

definition raw_escape :: "char \<Rightarrow> string" where
  "raw_escape c = (let n = of_char c :: nat in if n < 32 \<or> n = 34 \<or> n = 92 then json_escape_char n else [c])"

definition raw_quote :: "string \<Rightarrow> string" where
  "raw_quote s = [CHR 0x22] @ concat (map raw_escape s) @ [CHR 0x22]"

fun json_raw :: "(rat \<Rightarrow> string) \<Rightarrow> pyval \<Rightarrow> string" where
  "json_raw fr (VStr s) = raw_quote s"
| "json_raw fr (VList xs) = ''['' @ py_join '', '' (map (json_raw fr) xs) @ '']''"
| "json_raw fr (VDict d) = ''{'' @ py_join '', '' (map (\<lambda>(k, v). raw_quote k @ '': '' @ json_raw fr v) d) @ ''}''"
| "json_raw fr v = json_dumps fr v"

definition raw_text :: "('g, 'v, 'r) wp_env \<Rightarrow> pyval \<Rightarrow> string" where
  "raw_text E val = (case val of VStr s \<Rightarrow> s | v \<Rightarrow> json_raw (we_fr E) v)"

definition index_vector ::
  "('g, 'v, 'r) wp_env \<Rightarrow> string \<Rightarrow> pyval \<Rightarrow> 'r option \<Rightarrow> bool \<Rightarrow> ('g, 'v) wp \<Rightarrow> ('g, 'v) wp \<times> bool" where
  "index_vector E key val vec persisted w =
     (case (w_vector w, vec) of
        (Some v, Some r) \<Rightarrow>
          if persisted then
            (let (v', ok) = va_insert (we_vector E) r (raw_text E val) (normalize_upsert_key key) v in (w\<lparr>w_vector := Some v'\<rparr>, ok))
          else (w, True)
      | _ \<Rightarrow> (w, True))"

text \<open>A source type that is no text is refused by the model of the entry.\<close>

definition update_hot ::
  "rat \<Rightarrow> string \<Rightarrow> pyval \<Rightarrow> rat \<Rightarrow> meta \<Rightarrow> ('g, 'v) wp \<Rightarrow> ('g, 'v) wp \<times> (write_error + unit)" where
  "update_hot now key val confidence m w =
     (case dget_default m ''source_type'' (VStr ''user_explicit'') of
        VStr st \<Rightarrow>
          (let (b, r) = update now key val confidence m st None (w_hot w) in
           (w\<lparr>w_hot := b\<rparr>, map_sum HotFailure (\<lambda>_. ()) r))
      | _ \<Rightarrow>
          (if meta_flag m ''is_superseded''
           then w\<lparr>w_hot := (w_hot w)\<lparr>superseded_history := insert key (superseded_history (w_hot w))\<rparr>\<rparr> else w,
           Inl (HotFailure ValidationError)))"

definition insert_graph ::
  "('g, 'v, 'r) wp_env \<Rightarrow> rat \<Rightarrow> string \<Rightarrow> pyval \<Rightarrow> meta \<Rightarrow> rat \<Rightarrow> ('g, 'v) wp \<Rightarrow>
     ('g, 'v) wp \<times> (string \<times> string \<times> string) list \<times> (graph_error + int)" where
  "insert_graph E now key val m confidence w =
     (case w_graph w of
        None \<Rightarrow> (w, [], Inr 0)
      | Some g \<Rightarrow> (let (g', inserted, r) = auto_insert_graph_edges E now key val m confidence g in (w\<lparr>w_graph := Some g'\<rparr>, inserted, r)))"

section \<open>Compensation\<close>

text \<open>What the saga remembers to undo its steps.\<close>

record undo =
  u_key :: string
  u_backup :: "meta option"
  u_old :: "(string \<times> meta) option"
  u_hot_target :: "hot_entry option"
  u_hot_old :: "hot_entry option"
  u_active :: bool

definition last_entry :: "(hot_entry \<Rightarrow> bool) \<Rightarrow> hot_entry list \<Rightarrow> hot_entry option" where
  "last_entry P es = (case filter P es of [] \<Rightarrow> None | xs \<Rightarrow> Some (last xs))"

definition append_opt :: "hot_entry option \<Rightarrow> hot_buffer \<Rightarrow> hot_buffer" where
  "append_opt e b = (case e of None \<Rightarrow> b | Some x \<Rightarrow> append_entry x b)"

definition restore_item ::
  "('g, 'v, 'r) wp_env \<Rightarrow> rat \<Rightarrow> string \<Rightarrow> string \<Rightarrow> meta \<Rightarrow> ('g, 'v) wp \<Rightarrow> ('g, 'v) wp" where
  "restore_item E now reason k it w = try_set E now k (meta_get it ''value'') (item_conf it) (item_meta it) reason w"

text \<open>The store goes back to the savepoint, or the old record is written again; whether the savepoint is still open.\<close>

definition undo_store ::
  "('g, 'v, 'r) wp_env \<Rightarrow> rat \<Rightarrow> string \<Rightarrow> undo \<Rightarrow> ('g, 'v) wp \<Rightarrow> ('g, 'v) wp \<times> bool" where
  "undo_store E now reason u w =
     (case w_kv w of
        None \<Rightarrow> (w, u_active u)
      | Some s \<Rightarrow>
          if u_active u then (let (s', r) = rollback_savepoint saga s in (w\<lparr>w_kv := Some s'\<rparr>, r \<noteq> Inr ()))
          else (case u_backup u of
                  Some it \<Rightarrow> (restore_item E now reason (u_key u) it w, False)
                | None \<Rightarrow> (w\<lparr>w_kv := Some (fst (delete_sync (we_fr E) now (u_key u) s))\<rparr>, False)))"

definition restore_old ::
  "('g, 'v, 'r) wp_env \<Rightarrow> rat \<Rightarrow> string \<Rightarrow> (string \<times> meta) option \<Rightarrow> ('g, 'v) wp \<Rightarrow> ('g, 'v) wp" where
  "restore_old E now reason old w =
     (case old of None \<Rightarrow> w | Some (k, it) \<Rightarrow> (if k = [] then w else restore_item E now reason k it w))"

definition undo_vector_failure :: "('g, 'v, 'r) wp_env \<Rightarrow> rat \<Rightarrow> undo \<Rightarrow> ('g, 'v) wp \<Rightarrow> ('g, 'v) wp" where
  "undo_vector_failure E now u w =
     (let (w1, active) = undo_store E now ''rollback_vector_failure'' u w;
          w2 = (if active then w1 else restore_old E now ''rollback_vector_failure'' (u_old u) w1)
      in w2\<lparr>w_hot := append_opt (u_hot_target u) (append_opt (u_hot_old u) (w_hot w2))\<rparr>)"

definition undo_graph ::
  "('g, 'v, 'r) wp_env \<Rightarrow> string \<Rightarrow> (string \<times> string \<times> string) list \<Rightarrow> 'g \<Rightarrow> 'g" where
  "undo_graph E key inserted g =
     (let g1 = foldl (\<lambda>g (s, p, ob). ga_remove (we_graph E) s p ob g) g inserted in
      case ga_dual (we_graph E) of
        None \<Rightarrow> g1
      | Some D \<Rightarrow> (case du_has D key g1 of Inr True \<Rightarrow> du_rollback D key g1 | _ \<Rightarrow> g1))"

definition undo_graph_failure ::
  "('g, 'v, 'r) wp_env \<Rightarrow> rat \<Rightarrow> undo \<Rightarrow> (string \<times> string \<times> string) list \<Rightarrow> ('g, 'v) wp \<Rightarrow> ('g, 'v) wp" where
  "undo_graph_failure E now u inserted w =
     (let k_canon = normalize_upsert_key (u_key u);
          w1 = w\<lparr>w_graph := map_option (undo_graph E (u_key u) inserted) (w_graph w),
                 w_vector := map_option (\<lambda>v. fst (purge_vectors E [k_canon, ''kv:'' @ k_canon] v)) (w_vector w)\<rparr>;
          w2 = fst (undo_store E now ''rollback_graph_failure'' u w1);
          w3 = (if map_option fst (u_old u) = Some (u_key u) then w2 else restore_old E now ''rollback_restore'' (u_old u) w2)
      in w3\<lparr>w_hot := append_opt (u_hot_old u) (append_opt (u_hot_target u) (fst (purge (u_key u) (w_hot w3))))\<rparr>)"

definition release_saga :: "bool \<Rightarrow> ('g, 'v) wp \<Rightarrow> ('g, 'v) wp" where
  "release_saga active w =
     (if active then w\<lparr>w_kv := map_option (\<lambda>s. fst (release_savepoint saga s)) (w_kv w)\<rparr> else w)"

text \<open>Steps 4 to 6 of \<open>write\<close>: store, vector index, hot buffer, graph.\<close>

definition run_saga ::
  "('g, 'v, 'r) wp_env \<Rightarrow> rat \<Rightarrow> string \<Rightarrow> pyval \<Rightarrow> rat \<Rightarrow> meta \<Rightarrow> string \<Rightarrow> 'r option \<Rightarrow> undo \<Rightarrow> ('g, 'v) wp \<Rightarrow>
     ('g, 'v) wp \<times> (write_error + bool \<times> int)" where
  "run_saga E now key val confidence m reason vec u w =
     (case persist E now key val confidence m reason w of
        (w1, Inl err) \<Rightarrow> (w1, Inl err)
      | (w1, Inr (persisted, active)) \<Rightarrow>
          (case index_vector E key val vec persisted w1 of
             (w2, False) \<Rightarrow> (undo_vector_failure E now (u\<lparr>u_active := active\<rparr>) w2, Inl VectorFailure)
           | (w2, True) \<Rightarrow>
               (case update_hot now key val confidence m w2 of
                  (w3, Inl err) \<Rightarrow> (w3, Inl err)
                | (w3, Inr _) \<Rightarrow>
                    (case insert_graph E now key val m confidence w3 of
                       (w4, inserted, Inl err) \<Rightarrow>
                         (undo_graph_failure E now (u\<lparr>u_active := active\<rparr>) inserted w4, Inl (GraphFailure err))
                     | (w4, _, Inr n) \<Rightarrow> (release_saga active w4, Inr (persisted, n))))))"

section \<open>Writing\<close>

text \<open>
  The answer: the dictionaries of the rejections, of the replay, and of a write that went through (key, persisted,
  arbitration, revision count, number of edges).
\<close>

datatype response =
    RejectedTurn string
  | RejectedUngrounded string grounding
  | RejectedConflict string arb_result
  | ReplayNoOp string
  | Written string bool arb_result pyval int

definition details_val :: "('g, 'v, 'r) wp_env \<Rightarrow> details \<Rightarrow> pyval" where
  "details_val E d =
     (case d of
        InversionDetails c conf \<Rightarrow>
          VDict [(''reason'', VStr ''confidence_inversion''), (''conflicting_key'', VStr (c_key c)),
            (''existing_value'', VStr (c_fact c)), (''existing_confidence'', VFloat (c_conf c)),
            (''incoming_confidence'', VFloat conf), (''message'', VStr (c_message c))]
      | ConflictDetails c score \<Rightarrow>
          VDict [(''reason'', VStr (c_reason c)), (''conflict_type'', VStr (if c_type c \<noteq> [] then c_type c else c_reason c)),
            (''conflicting_key'', VStr (c_key c)), (''conflicting_fact'', VStr (c_fact c)),
            (''incoming_claim'', VStr (c_claim c)), (''overlapping_terms'', VList (map VStr (we_order E (c_terms c)))),
            (''message'', VStr (c_message c)), (''score'', VFloat score)])"

definition is_blocked :: "arb_result \<Rightarrow> bool" where
  "is_blocked r \<longleftrightarrow> r_is_conflict r \<and> r_reason r = Some ''confidence_inversion''"

definition conflict_meta :: "('g, 'v, 'r) wp_env \<Rightarrow> arb_result \<Rightarrow> meta \<Rightarrow> meta" where
  "conflict_meta E r m =
     (if r_is_conflict r \<and> \<not> r_is_revision r then
        (case r_details r of
           None \<Rightarrow> dset ''conflict_warning'' (VBool True) m
         | Some d \<Rightarrow> dset ''conflict_details'' (details_val E d) (dset ''conflict_warning'' (VBool True) m))
      else m)"

definition new_undo ::
  "('g, 'v, 'r) wp_env \<Rightarrow> string \<Rightarrow> arb_result \<Rightarrow> (string, meta) dict \<Rightarrow> meta \<Rightarrow> ('g, 'v) wp \<Rightarrow> undo" where
  "new_undo E key r items m w =
     \<lparr>u_key = key, u_backup = dget items key, u_old = None,
      u_hot_target = last_entry (\<lambda>e. e_key e = key) (buffer (w_hot w)),
      u_hot_old = last_entry (\<lambda>e. e_key e \<noteq> key \<and> r_is_revision r \<and> e_key e = old_key_of E r m key) (buffer (w_hot w)),
      u_active = False\<rparr>"

definition commit_write ::
  "('g, 'v, 'r) wp_env \<Rightarrow> rat \<Rightarrow> string \<Rightarrow> pyval \<Rightarrow> rat \<Rightarrow> meta \<Rightarrow> string \<Rightarrow> 'r option \<Rightarrow> arb_result \<Rightarrow> (string, meta) dict \<Rightarrow>
     ('g, 'v) wp \<Rightarrow> ('g, 'v) wp \<times> (write_error + response)" where
  "commit_write E now key val confidence m reason vec r items w =
     (let m1 = conflict_meta E r m;
          u = new_undo E key r items m1 w;
          (w1, m2, old) = supersede E now key confidence r items m1 w
      in case track_revision E key val confidence items m2 w1 of
           (w2, Inl err) \<Rightarrow> (w2, Inl err)
         | (w2, Inr m3) \<Rightarrow>
             (case run_saga E now key val confidence m3 reason vec (u\<lparr>u_old := old\<rparr>) w2 of
                (w3, Inl err) \<Rightarrow> (w3, Inl err)
              | (w3, Inr (persisted, n)) \<Rightarrow>
                  (w3, Inr (Written key persisted r (dget_default m3 ''revision_count'' (VInt 0)) n))))"

definition arbitrated_write ::
  "('g, 'v, 'r) wp_env \<Rightarrow> rat \<Rightarrow> string \<Rightarrow> pyval \<Rightarrow> rat \<Rightarrow> meta \<Rightarrow> string \<Rightarrow> string option \<Rightarrow> 'r option \<Rightarrow>
     ('g, 'v) wp \<Rightarrow> ('g, 'v) wp \<times> (write_error + response)" where
  "arbitrated_write E now key val confidence m reason session_id vec w =
     (let items = existing_items E now key val m session_id w in
      case arbitrate (we_arb E) (w_arbiter w) key val confidence m items of
        Inl err \<Rightarrow> (w, Inl (ArbiterFailure err))
      | Inr r \<Rightarrow>
          if is_blocked r then (w, Inr (RejectedConflict key r))
          else commit_write E now key val confidence m reason vec r items w)"

text \<open>The metadata of the write, and the keys that a session has touched.\<close>

definition write_meta :: "'r write_args \<Rightarrow> rat \<Rightarrow> meta \<Rightarrow> meta" where
  "write_meta a confidence m =
     (let m1 = (if in_source a \<noteq> [] then dset ''source_type'' (VStr (in_source a)) m
                else if ''source_type'' \<in> set (dkeys m) then m
                else dset ''source_type'' (VStr ''user_explicit'') m);
          m2 = dset ''confidence'' (VFloat confidence) m1
      in case in_session a of
           None \<Rightarrow> m2
         | Some s \<Rightarrow> (if s = [] then m2 else dset ''session_id'' (VStr s) m2))"

definition touch_session :: "string option \<Rightarrow> string \<Rightarrow> ('g, 'v) wp \<Rightarrow> ('g, 'v) wp" where
  "touch_session session_id key w =
     (let sess_key = (case session_id of None \<Rightarrow> ''default'' | Some s \<Rightarrow> if s = [] then ''default'' else s) in
      w\<lparr>w_touched := dset sess_key (insert key (dget_default (w_touched w) sess_key {})) (w_touched w)\<rparr>)"

text \<open>A replay of a passage that the graph has only touches the store. \<open>None\<close>: the write goes on.\<close>

definition replay_no_op ::
  "('g, 'v, 'r) wp_env \<Rightarrow> rat \<Rightarrow> string \<Rightarrow> pyval \<Rightarrow> float_arg \<Rightarrow> meta \<Rightarrow> bool \<Rightarrow> ('g, 'v) wp \<Rightarrow>
     (('g, 'v) wp \<times> (write_error + response)) option" where
  "replay_no_op E now key val conf m replaying w =
     (case (w_graph w, ga_dual (we_graph E)) of
        (Some g, Some D) \<Rightarrow>
          if \<not> replaying then None
          else (case du_has D key g of
                  Inl err \<Rightarrow> Some (w, Inl (GraphFailure err))
                | Inr False \<Rightarrow> None
                | Inr True \<Rightarrow>
                    Some (try_set E now key val (FNum (clamp_conf conf)) m ''replay_no_op''
                            (w\<lparr>w_audit := w_audit w @ [(key, meta_get m ''ingest_at'')]\<rparr>), Inr (ReplayNoOp key)))
      | _ \<Rightarrow> None)"

definition wp_write ::
  "('g, 'v, 'r) wp_env \<Rightarrow> rat \<Rightarrow> 'r write_args \<Rightarrow> ('g, 'v) wp \<Rightarrow> ('g, 'v) wp \<times> (write_error + response)" where
  "wp_write E now a w =
     (case normalize_write_input E a of
        Inl err \<Rightarrow> (w, Inl err)
      | Inr (key, val, conf, m0, replay_at) \<Rightarrow>
          (let act = classify_speech_act (we_ling E) key (we_str E (py_or (meta_get m0 ''predicate'') (VStr [])))
                 (we_str E (py_or val (VStr [])));
               m = (if ''speech_act'' \<in> set (dkeys m0) then m0 else dset ''speech_act'' (VStr (speech_act_value act)) m0);
               (grounded, why) = is_lexically_grounded_entity (ae_repr (we_arb E)) key val m;
               confidence = clamp_conf conf
           in if act = ConversationalTurn then (w, Inr (RejectedTurn key))
              else if \<not> grounded then (w, Inr (RejectedUngrounded key why))
              else case replay_no_op E now key val conf m (in_replay a \<or> replay_at \<noteq> VNone) w of
                  Some answer \<Rightarrow> answer
                | None \<Rightarrow>
                    arbitrated_write E now key val confidence (write_meta a confidence m) (in_reason a) (in_session a) (in_vector a)
                      (touch_session (in_session a) key w)))"

section \<open>The typo test\<close>

text \<open>Two lists differ by at most one edit: one element inserted, deleted or replaced.\<close>

definition one_edit :: "'a list \<Rightarrow> 'a list \<Rightarrow> bool" where
  "one_edit s t \<longleftrightarrow> (\<exists>p u v q. s = p @ u @ q \<and> t = p @ v @ q \<and> length u \<le> 1 \<and> length v \<le> 1)"

lemma short_cases: "length u \<le> Suc 0 \<longleftrightarrow> u = [] \<or> (\<exists>x. u = [x])"
  by (cases u) auto

lemma one_edit_refl: "one_edit s s"
  unfolding one_edit_def by (rule exI [of _ s], rule exI [of _ "[]"], rule exI [of _ "[]"], rule exI [of _ "[]"]) simp

lemma one_edit_Cons: "one_edit (a # s) (a # t) \<longleftrightarrow> one_edit s t"
proof
  assume "one_edit s t"
  then obtain p u v q where "s = p @ u @ q" "t = p @ v @ q" "length u \<le> 1" "length v \<le> 1" by (auto simp: one_edit_def)
  then show "one_edit (a # s) (a # t)" unfolding one_edit_def by (intro exI [of _ "a # p"] exI [of _ u] exI [of _ v] exI [of _ q]) simp
next
  assume "one_edit (a # s) (a # t)"
  then obtain p u v q where e: "a # s = p @ u @ q" "a # t = p @ v @ q" "length u \<le> Suc 0" "length v \<le> Suc 0" by (auto simp: one_edit_def)
  show "one_edit s t"
  proof (cases p)
    case (Cons c p')
    with e show ?thesis unfolding one_edit_def by (intro exI [of _ p'] exI [of _ u] exI [of _ v] exI [of _ q]) simp
  next
    case Nil
    with e have "s = t \<or> t = a # s \<or> s = a # t" by (auto simp: short_cases)
    then consider "s = t" | "t = a # s" | "s = a # t" by blast
    then show ?thesis
    proof cases
      case 2
      then show ?thesis unfolding one_edit_def by (intro exI [of _ "[]"] exI [of _ "[]"] exI [of _ "[a]"] exI [of _ s]) simp
    next
      case 3
      then show ?thesis unfolding one_edit_def by (intro exI [of _ "[]"] exI [of _ "[a]"] exI [of _ "[]"] exI [of _ t]) simp
    qed (simp add: one_edit_refl)
  qed
qed

lemma one_edit_differ:
  assumes "a \<noteq> b"
  shows "one_edit (a # s) (b # t) \<longleftrightarrow> s = t \<or> t = a # s \<or> s = b # t"
proof
  assume "one_edit (a # s) (b # t)"
  then obtain p u v q where e: "a # s = p @ u @ q" "b # t = p @ v @ q" "length u \<le> Suc 0" "length v \<le> Suc 0" by (auto simp: one_edit_def)
  with assms have "p = []" by (cases p) auto
  with e assms show "s = t \<or> t = a # s \<or> s = b # t" by (auto simp: short_cases)
next
  assume "s = t \<or> t = a # s \<or> s = b # t"
  then show "one_edit (a # s) (b # t)"
  proof (elim disjE)
    assume "s = t"
    then show ?thesis unfolding one_edit_def by (intro exI [of _ "[]"] exI [of _ "[a]"] exI [of _ "[b]"] exI [of _ s]) simp
  next
    assume "t = a # s"
    then show ?thesis unfolding one_edit_def by (intro exI [of _ "[]"] exI [of _ "[]"] exI [of _ "[b]"] exI [of _ "a # s"]) simp
  next
    assume "s = b # t"
    then show ?thesis unfolding one_edit_def by (intro exI [of _ "[]"] exI [of _ "[a]"] exI [of _ "[]"] exI [of _ "b # t"]) simp
  qed
qed

lemma one_edit_sym: "one_edit s t \<Longrightarrow> one_edit t s"
  unfolding one_edit_def by blast

lemma one_edit_length: "one_edit s t \<Longrightarrow> length s \<le> length t + 1"
  by (auto simp: one_edit_def)

lemma replaced_once: "length s = length t \<Longrightarrow> length (filter (\<lambda>(x, y). x \<noteq> y) (zip s t)) \<le> Suc 0 \<longleftrightarrow> one_edit s t"
proof (induction rule: list_induct2)
  case (Cons a s b t)
  have "filter (\<lambda>(x, y). x \<noteq> y) (zip s t) = [] \<longleftrightarrow> s = t" using Cons.hyps by (induction rule: list_induct2) auto
  with Cons show ?case by (cases "a = b") (auto simp: one_edit_Cons one_edit_differ)
qed (simp add: one_edit_refl)

lemma inserted_more: "length s = length t \<Longrightarrow> one_insertion s t (Suc 0) \<longleftrightarrow> s = t"
  by (induction rule: list_induct2) auto

lemma inserted_once: "length t = Suc (length s) \<Longrightarrow> one_insertion s t 0 \<longleftrightarrow> one_edit s t"
proof (induction s t "0 :: nat" rule: one_insertion.induct)
  case (1 a s b t)
  show ?case
  proof (cases "a = b")
    case True
    with 1 show ?thesis by (simp add: one_edit_Cons)
  next
    case False
    with 1 show ?thesis using inserted_more [of "a # s" t] by (auto simp: one_edit_differ)
  qed
qed (auto simp: one_edit_def length_Suc_conv intro!: exI [of _ "[]"])

text \<open>
  The optimised typo test of the write path answers what it promises: it accepts two texts if and only if one of them
  becomes the other by inserting, deleting or replacing at most one code point.
\<close>

theorem typo_test_is_one_edit: "levenshtein_le_1 s1 s2 \<longleftrightarrow> one_edit (cps s1) (cps s2)"
proof -
  let ?a = "cps s1" and ?b = "cps s2"
  consider "s1 = s2" | "length ?a = length ?b" "s1 \<noteq> s2" | "length ?b = Suc (length ?a)" "s1 \<noteq> s2"
    | "length ?a = Suc (length ?b)" "s1 \<noteq> s2" | "length ?a + 1 < length ?b \<or> length ?b + 1 < length ?a" by linarith
  then show ?thesis
  proof cases
    case 2
    then show ?thesis by (simp add: levenshtein_le_1_def Let_def replaced_once)
  next
    case 3
    then show ?thesis by (auto simp: levenshtein_le_1_def Let_def inserted_once)
  next
    case 4
    then show ?thesis using one_edit_sym by (auto simp: levenshtein_le_1_def Let_def inserted_once)
  next
    case 5
    then show ?thesis using one_edit_length [of ?a ?b] one_edit_length [of ?b ?a] one_edit_sym [of ?a ?b]
      by (auto simp: levenshtein_le_1_def Let_def)
  qed (simp add: levenshtein_le_1_def one_edit_refl)
qed

end
