(* ===== verification/WriteSaga.thy ===== *)
theory WriteSaga
  imports WritePath
begin

text \<open>
  What the write path of \<open>cognitive/write_path.py\<close> guarantees. The first sections follow its stages: what each leaves alone, how the
  store stays valid and the buffer within its bounds, where a saga, a commit and a write can end, what a failed saga restores, and
  what happens to the stack of savepoints. The properties and a small world with a list of edges as graph come last.
\<close>

section \<open>What each step leaves alone\<close>

named_theorems wp_simps \<open>fields of the write path after a step\<close>

lemma try_set_simps [wp_simps]:
  "w_hot (try_set E now k v c m rs w) = w_hot w" "w_graph (try_set E now k v c m rs w) = w_graph w"
  "w_vector (try_set E now k v c m rs w) = w_vector w"
  "w_kv (try_set E now k v c m rs w) = map_option (\<lambda>s. fst (set_sync (we_fr E) now k v c m rs None s)) (w_kv w)"
  by (simp_all add: try_set_def)

lemma try_edge_simps [wp_simps]:
  "w_kv (try_edge E s p ob c w) = w_kv w" "w_hot (try_edge E s p ob c w) = w_hot w"
  by (simp_all add: try_edge_def)

lemma set_tombstone_hot [wp_simps]: "w_hot (set_tombstone E now k w) = w_hot w"
  by (simp add: set_tombstone_def wp_simps split: option.split sum.split)

lemma purge_old_vectors_hot [wp_simps]: "w_hot (fst (purge_old_vectors E now k w m)) = w_hot w"
  by (simp add: purge_old_vectors_def Let_def case_prod_beta wp_simps split: option.split)

lemma track_revision_simps [wp_simps]:
  "w_kv (fst (track_revision E key val c items m w)) = w_kv w"
  "w_hot (fst (track_revision E key val c items m w)) = w_hot w"
  by (simp_all add: track_revision_def Let_def split: option.split)

lemma index_vector_simps [wp_simps]:
  "w_kv (fst (index_vector E key val vec p w)) = w_kv w" "w_hot (fst (index_vector E key val vec p w)) = w_hot w"
  by (simp_all add: index_vector_def Let_def case_prod_beta split: option.split)

lemma update_hot_kv [wp_simps]: "w_kv (fst (update_hot now key val c m w)) = w_kv w"
  by (simp add: update_hot_def Let_def case_prod_beta split: pyval.split)

lemma insert_graph_simps [wp_simps]:
  "w_kv (fst (insert_graph E now key val m c w)) = w_kv w" "w_hot (fst (insert_graph E now key val m c w)) = w_hot w"
  by (simp_all add: insert_graph_def Let_def case_prod_beta split: option.split)

lemma restore_item_hot [wp_simps]: "w_hot (restore_item E now rs k it w) = w_hot w"
  by (simp add: restore_item_def wp_simps)

lemma restore_old_hot [wp_simps]: "w_hot (restore_old E now rs old w) = w_hot w"
  by (simp add: restore_old_def wp_simps split: option.split)

lemma undo_store_hot [wp_simps]: "w_hot (fst (undo_store E now rs u w)) = w_hot w"
  by (simp add: undo_store_def Let_def case_prod_beta wp_simps split: option.split)

lemma release_saga_hot [wp_simps]: "w_hot (release_saga a w) = w_hot w"
  by (simp add: release_saga_def)

lemma persist_hot [wp_simps]: "w_hot (fst (persist E now key val c m rs w)) = w_hot w"
  by (simp add: persist_def Let_def case_prod_beta split: option.split sum.split)

lemma touch_session_simps [wp_simps]:
  "w_kv (touch_session sid key w) = w_kv w" "w_graph (touch_session sid key w) = w_graph w"
  "w_hot (touch_session sid key w) = w_hot w" "w_vector (touch_session sid key w) = w_vector w"
  "w_audit (touch_session sid key w) = w_audit w" "w_arbiter (touch_session sid key w) = w_arbiter w"
  by (simp_all add: touch_session_def Let_def)

section \<open>The store stays valid\<close>

definition store_ok :: "('g, 'v, 'r) wp_env \<Rightarrow> ('g, 'v) wp \<Rightarrow> bool" where
  "store_ok E w \<longleftrightarrow> (\<forall>s. w_kv w = Some s \<longrightarrow> kv_valid (we_fr E) s)"

lemma store_ok_try_set: "store_ok E w \<Longrightarrow> rs \<noteq> ''delete'' \<Longrightarrow> store_ok E (try_set E now k v c m rs w)"
  using set_sync_valid [of "we_fr E" _ rs now k v c m None] by (fastforce simp: store_ok_def wp_simps)

lemma store_ok_kv: "w_kv w' = w_kv w \<Longrightarrow> store_ok E w \<Longrightarrow> store_ok E w'"
  by (simp add: store_ok_def)

lemma store_ok_tombstone: "store_ok E w \<Longrightarrow> store_ok E (set_tombstone E now k w)"
  by (simp add: set_tombstone_def store_ok_try_set split: option.split sum.split)

lemma store_ok_purge_old: "store_ok E w \<Longrightarrow> store_ok E (fst (purge_old_vectors E now k w m))"
  by (auto simp: purge_old_vectors_def Let_def case_prod_beta split: option.split
      intro!: store_ok_tombstone intro: store_ok_kv [of _ w])

lemma store_ok_supersede: "store_ok E w \<Longrightarrow> store_ok E (fst (supersede E now key c r items m w))"
  unfolding supersede_def Let_def
  by (auto simp: case_prod_beta wp_simps split: option.split if_split
      intro!: store_ok_purge_old intro: store_ok_kv [OF _ store_ok_try_set] store_ok_kv)

lemma store_ok_restore: "store_ok E w \<Longrightarrow> rs \<noteq> ''delete'' \<Longrightarrow> store_ok E (restore_item E now rs k it w)"
  by (simp add: restore_item_def store_ok_try_set)

lemma store_ok_restore_old: "store_ok E w \<Longrightarrow> rs \<noteq> ''delete'' \<Longrightarrow> store_ok E (restore_old E now rs old w)"
  by (simp add: restore_old_def store_ok_restore split: option.split)

text \<open>
  Persisting writes inside the savepoint: the store is valid, and rolling back gives the tables and the tip of before.
\<close>

definition saga_open :: "kv \<Rightarrow> kv \<Rightarrow> bool" where
  "saga_open s s2 \<longleftrightarrow> conn_open s2 \<and> savepoints s2 = (saga, tables s) # savepoints s \<and> cols s2 = cols s
     \<and> saved_hashes s2 = dset saga (prev_hash s) (saved_hashes s)"

lemma persist_valid:
  assumes "kv_valid (we_fr E) s" "w_kv w = Some s" "rs \<noteq> ''delete''"
  obtains s2 where "persist E now key val c m rs w = (w\<lparr>w_kv := Some s2\<rparr>, Inr (True, True))"
    "kv_valid (we_fr E) s2" "saga_open s s2"
    "dget (state_vars (kdb s2)) key = Some \<lparr>s_value = json_dumps (we_fr E) val, s_confidence = clamp_conf (FNum c),
        s_timestamp = now, s_metadata = Some (json_dumps (we_fr E) (VDict m)),
        s_value_hash = Some (sha256 (json_dumps (we_fr E) val))\<rparr>"
proof -
  have o: "conn_open s" using assms(1) by (simp add: kv_valid_def)
  define s1 where "s1 = s\<lparr>savepoints := (saga, tables s) # savepoints s, saved_hashes := dset saga (prev_hash s) (saved_hashes s)\<rparr>"
  have sp: "savepoint saga s = (s1, Inr ())" using o by (simp add: savepoint_def s1_def)
  have v1: "kv_valid (we_fr E) s1" using assms(1) by (simp add: kv_valid_def s1_def)
  from set_sync_valid [OF v1 assms(3), of now key val "FNum c" m None] obtain s2 where
    s2: "set_sync (we_fr E) now key val (FNum c) m rs None s1 = (s2, Inr ())" "kv_valid (we_fr E) s2"
      "dget (state_vars (kdb s2)) key = Some \<lparr>s_value = json_dumps (we_fr E) val, s_confidence = clamp_conf (FNum c),
        s_timestamp = now, s_metadata = Some (json_dumps (we_fr E) (VDict (ttl_meta now None m))),
        s_value_hash = Some (sha256 (json_dumps (we_fr E) val))\<rparr>" by blast
  have "kv_frame s1 s2" using frame_set [of s1 "we_fr E" now key val "FNum c" m rs None] s2(1) by simp
  with o have "saga_open s s2" by (simp add: saga_open_def kv_frame_def s1_def)
  moreover have "persist E now key val c m rs w = (w\<lparr>w_kv := Some s2\<rparr>, Inr (True, True))"
    by (simp add: persist_def assms(2) sp s2(1))
  ultimately show ?thesis using s2(2,3) by (intro that) (simp_all add: ttl_meta_def)
qed

lemma rollback_open:
  assumes "saga_open s s2"
  obtains s3 where "rollback_savepoint saga s2 = (s3, Inr ())" "tables s3 = tables s" "prev_hash s3 = prev_hash s"
    "cols s3 = cols s" "conn_open s3" "savepoints s3 = savepoints s"
  using assms by (auto simp: saga_open_def rollback_savepoint_def find_savepoint_def)

lemma release_open:
  assumes "saga_open s s2" "kv_valid fr s2"
  obtains s3 where "release_savepoint saga s2 = (s3, Inr ())" "tables s3 = tables s2" "kv_valid fr s3"
    "savepoints s3 = savepoints s"
  using assms by (auto simp: saga_open_def release_savepoint_def find_savepoint_def kv_valid_def)

lemma rolled_back_valid:
  assumes "kv_valid fr s" "tables s3 = tables s" "prev_hash s3 = prev_hash s" "cols s3 = cols s" "conn_open s3"
  shows "kv_valid fr s3"
  using assms by (simp add: kv_valid_def)

lemma undo_store_open:
  assumes "w_kv w = Some s2" "saga_open s s2" "u_active u"
  obtains s3 where "undo_store E now rs u w = (w\<lparr>w_kv := Some s3\<rparr>, False)" "tables s3 = tables s" "prev_hash s3 = prev_hash s"
    "cols s3 = cols s" "conn_open s3" "savepoints s3 = savepoints s"
proof -
  from rollback_open [OF assms(2)] obtain s3 where
    "rollback_savepoint saga s2 = (s3, Inr ())" "tables s3 = tables s" "prev_hash s3 = prev_hash s"
    "cols s3 = cols s" "conn_open s3" "savepoints s3 = savepoints s" by blast
  with assms show ?thesis by (intro that [of s3]) (simp_all add: undo_store_def)
qed

lemma undo_store_none: "w_kv w = None \<Longrightarrow> undo_store E now rs u w = (w, u_active u)"
  by (simp add: undo_store_def)

text \<open>The outcomes of a saga.\<close>

lemma run_saga_cases:
  assumes "run_saga E now key val c m rs vec u w = (w', res)"
  obtains (persist) e w1 where "persist E now key val c m rs w = (w1, Inl e)" "w' = w1" "res = Inl e"
  | (vector) p a w1 w2 where "persist E now key val c m rs w = (w1, Inr (p, a))" "index_vector E key val vec p w1 = (w2, False)"
      "w' = undo_vector_failure E now (u\<lparr>u_active := a\<rparr>) w2" "res = Inl VectorFailure"
  | (hot) p a w1 w2 e where "persist E now key val c m rs w = (w1, Inr (p, a))" "index_vector E key val vec p w1 = (w2, True)"
      "update_hot now key val c m w2 = (w', Inl e)" "res = Inl e"
  | (graph) p a w1 w2 w3 w4 ins e where "persist E now key val c m rs w = (w1, Inr (p, a))"
      "index_vector E key val vec p w1 = (w2, True)" "update_hot now key val c m w2 = (w3, Inr ())"
      "insert_graph E now key val m c w3 = (w4, ins, Inl e)"
      "w' = undo_graph_failure E now (u\<lparr>u_active := a\<rparr>) ins w4" "res = Inl (GraphFailure e)"
  | (finish) p a w1 w2 w3 w4 ins n where "persist E now key val c m rs w = (w1, Inr (p, a))"
      "index_vector E key val vec p w1 = (w2, True)" "update_hot now key val c m w2 = (w3, Inr ())"
      "insert_graph E now key val m c w3 = (w4, ins, Inr n)" "w' = release_saga a w4" "res = Inr (p, n)"
proof -
  obtain w1 r1 where p: "persist E now key val c m rs w = (w1, r1)" by fastforce
  show ?thesis
  proof (cases r1)
    case (Inl e)
    show ?thesis by (rule persist [of w1 e]) (use assms p Inl in \<open>simp_all add: run_saga_def\<close>)
  next
    case (Inr pa)
    obtain pp a where pa: "pa = (pp, a)" by fastforce
    note p' = p [unfolded Inr pa]
    obtain w2 ok where v: "index_vector E key val vec pp w1 = (w2, ok)" by fastforce
    show ?thesis
    proof (cases ok)
      case False
      show ?thesis by (rule vector [of w1 pp a w2]) (use assms p' v False in \<open>simp_all add: run_saga_def\<close>)
    next
      case True
      note v' = v [unfolded True [THEN eqTrueI]]
      obtain w3 r3 where h: "update_hot now key val c m w2 = (w3, r3)" by fastforce
      show ?thesis
      proof (cases r3)
        case (Inl e)
        show ?thesis by (rule hot [of w1 pp a w2 e]) (use assms p' v' h Inl in \<open>simp_all add: run_saga_def\<close>)
      next
        case (Inr x)
        then have h': "update_hot now key val c m w2 = (w3, Inr ())" using h by simp
        obtain w4 ins r4 where g: "insert_graph E now key val m c w3 = (w4, ins, r4)" by (metis prod_cases3)
        show ?thesis
        proof (cases r4)
          case (Inl e)
          show ?thesis by (rule graph [of w1 pp a w2 w3 w4 ins e]) (use assms p' v' h' g Inl in \<open>simp_all add: run_saga_def\<close>)
        next
          case (Inr n)
          show ?thesis by (rule finish [of w1 pp a w2 w3 w4 ins n]) (use assms p' v' h' g Inr in \<open>simp_all add: run_saga_def\<close>)
        qed
      qed
    qed
  qed
qed

lemma undo_store_valid:
  assumes "w_kv w = Some s2" "saga_open s s2" "u_active u" "kv_valid (we_fr E) s"
  obtains s3 where "undo_store E now rs u w = (w\<lparr>w_kv := Some s3\<rparr>, False)" "kv_valid (we_fr E) s3"
proof -
  obtain s3 where 3: "undo_store E now rs u w = (w\<lparr>w_kv := Some s3\<rparr>, False)" "tables s3 = tables s"
    "prev_hash s3 = prev_hash s" "cols s3 = cols s" "conn_open s3"
    by (rule undo_store_open [OF assms(1-3)])
  show ?thesis by (rule that [OF 3(1) rolled_back_valid [OF assms(4) 3(2-5)]])
qed

lemma store_ok_undo_vector:
  assumes "store_ok E w" "w_kv w2 = w_kv w" "\<And>s2. w_kv w = Some s2 \<Longrightarrow> u_active u \<and> (\<exists>s. kv_valid (we_fr E) s \<and> saga_open s s2)"
  shows "store_ok E (undo_vector_failure E now u w2)"
proof (cases "w_kv w")
  case None
  with assms(2) show ?thesis
    by (auto simp: undo_vector_failure_def undo_store_none store_ok_def restore_old_def restore_item_def wp_simps Let_def
        split: option.split)
next
  case (Some s2)
  with assms(3) obtain s where s: "u_active u" "kv_valid (we_fr E) s" "saga_open s s2" by blast
  have kv: "w_kv w2 = Some s2" using Some assms(2) by simp
  obtain s3 where
    3: "undo_store E now ''rollback_vector_failure'' u w2 = (w2\<lparr>w_kv := Some s3\<rparr>, False)" "kv_valid (we_fr E) s3"
    by (rule undo_store_valid [OF kv s(3,1,2)])
  have "store_ok E (w2\<lparr>w_kv := Some s3\<rparr>)" using 3(2) by (simp add: store_ok_def)
  then have "store_ok E (restore_old E now ''rollback_vector_failure'' (u_old u) (w2\<lparr>w_kv := Some s3\<rparr>))"
    by (rule store_ok_restore_old) simp
  then show ?thesis by (simp add: undo_vector_failure_def 3(1) store_ok_def Let_def)
qed

lemma store_ok_undo_graph:
  assumes "store_ok E w" "w_kv w2 = w_kv w" "\<And>s2. w_kv w = Some s2 \<Longrightarrow> u_active u \<and> (\<exists>s. kv_valid (we_fr E) s \<and> saga_open s s2)"
  shows "store_ok E (undo_graph_failure E now u ins w2)"
proof -
  define k where "k = normalize_upsert_key (u_key u)"
  define w1 where "w1 = w2\<lparr>w_graph := map_option (undo_graph E (u_key u) ins) (w_graph w2),
    w_vector := map_option (\<lambda>v. fst (purge_vectors E [k, ''kv:'' @ k] v)) (w_vector w2)\<rparr>"
  have kv: "w_kv w1 = w_kv w" using assms(2) by (simp add: w1_def)
  have "store_ok E (fst (undo_store E now ''rollback_graph_failure'' u w1))"
  proof (cases "w_kv w")
    case None
    with kv show ?thesis by (simp add: undo_store_none store_ok_def)
  next
    case (Some s2)
    with assms(3) obtain s where s: "u_active u" "kv_valid (we_fr E) s" "saga_open s s2" by blast
    have kv2: "w_kv w1 = Some s2" using Some kv by simp
    obtain s3 where
      "undo_store E now ''rollback_graph_failure'' u w1 = (w1\<lparr>w_kv := Some s3\<rparr>, False)" "kv_valid (we_fr E) s3"
      by (rule undo_store_valid [OF kv2 s(3,1,2)])
    then show ?thesis by (simp add: store_ok_def)
  qed
  then have "store_ok E (if map_option fst (u_old u) = Some (u_key u) then fst (undo_store E now ''rollback_graph_failure'' u w1)
      else restore_old E now ''rollback_restore'' (u_old u) (fst (undo_store E now ''rollback_graph_failure'' u w1)))" (is "store_ok E ?w3")
    by (simp add: store_ok_restore_old)
  moreover have "w_kv (undo_graph_failure E now u ins w2) = w_kv ?w3"
    unfolding undo_graph_failure_def Let_def w1_def k_def by simp
  ultimately show ?thesis by (simp only: store_ok_def)
qed

lemma store_ok_run_saga:
  assumes "store_ok E w" "rs \<noteq> ''delete''" "run_saga E now key val c m rs vec u w = (w', res)"
  shows "store_ok E w'"
proof (cases "w_kv w")
  case None
  then have p: "persist E now key val c m rs w = (w, Inr (False, False))" by (simp add: persist_def)
  have none: "store_ok E x" if "w_kv x = None" for x :: "('a, 'b) wp" using that by (simp add: store_ok_def)
  from assms(3) show ?thesis
  proof (cases rule: run_saga_cases)
    case (vector p' a w1 w2)
    with p None index_vector_simps(1) [of E key val vec p' w1] show ?thesis
      by (auto intro!: store_ok_undo_vector [OF assms(1)])
  next
    case (hot p' a w1 w2 e)
    with p None index_vector_simps(1) [of E key val vec p' w1] update_hot_kv [of now key val c m w2] show ?thesis
      by (auto intro: none)
  next
    case (graph p' a w1 w2 w3 w4 ins e)
    with p None index_vector_simps(1) [of E key val vec p' w1] update_hot_kv [of now key val c m w2]
      insert_graph_simps(1) [of E now key val m c w3] show ?thesis
      by (auto intro!: store_ok_undo_graph [OF assms(1)])
  next
    case (finish p' a w1 w2 w3 w4 ins n)
    with p None index_vector_simps(1) [of E key val vec p' w1] update_hot_kv [of now key val c m w2]
      insert_graph_simps(1) [of E now key val m c w3] show ?thesis
      by (auto simp: release_saga_def intro: none)
  qed (use p in simp)
next
  case (Some s)
  with assms(1) have v: "kv_valid (we_fr E) s" by (simp add: store_ok_def)
  from persist_valid [OF v Some assms(2), of now key val c m] obtain s2 where
    p: "persist E now key val c m rs w = (w\<lparr>w_kv := Some s2\<rparr>, Inr (True, True))" "kv_valid (we_fr E) s2" "saga_open s s2" by blast
  have ok: "store_ok E (w\<lparr>w_kv := Some s2\<rparr>)" using p(2) by (simp add: store_ok_def)
  have open2: "u_active (u\<lparr>u_active := True\<rparr>) \<and> (\<exists>s. kv_valid (we_fr E) s \<and> saga_open s t)"
    if "w_kv (w\<lparr>w_kv := Some s2\<rparr>) = Some t" for t using that p(3) v by auto
  from assms(3) show ?thesis
  proof (cases rule: run_saga_cases)
    case (vector p' a w1 w2)
    with p index_vector_simps(1) [of E key val vec p' w1] show ?thesis
      by (auto intro!: store_ok_undo_vector [OF ok _ open2])
  next
    case (hot p' a w1 w2 e)
    with p index_vector_simps(1) [of E key val vec p' w1] update_hot_kv [of now key val c m w2] show ?thesis
      by (auto simp: store_ok_def)
  next
    case (graph p' a w1 w2 w3 w4 ins e)
    with p index_vector_simps(1) [of E key val vec p' w1] update_hot_kv [of now key val c m w2]
      insert_graph_simps(1) [of E now key val m c w3] show ?thesis
      by (auto intro!: store_ok_undo_graph [OF ok _ open2])
  next
    case (finish p' a w1 w2 w3 w4 ins n)
    from release_open [OF p(3,2)] obtain s3 where "release_savepoint saga s2 = (s3, Inr ())" "kv_valid (we_fr E) s3" by blast
    with finish p index_vector_simps(1) [of E key val vec p' w1] update_hot_kv [of now key val c m w2]
      insert_graph_simps(1) [of E now key val m c w3] show ?thesis
      by (auto simp: release_saga_def store_ok_def)
  qed (use p in simp)
qed

section \<open>The buffer stays within its bounds\<close>

lemma hot_inv_supersede:
  "hot_inv n ttl (w_hot w) \<Longrightarrow> hot_inv n ttl (w_hot (fst (supersede E now key c r items m w)))"
  unfolding supersede_def Let_def
  by (simp add: case_prod_beta wp_simps hot_inv_purge split: option.split if_split)

lemma hot_inv_update_hot:
  "hot_inv n ttl (w_hot w) \<Longrightarrow> hot_inv n ttl (w_hot (fst (update_hot now key val c m w)))"
  by (simp add: update_hot_def Let_def case_prod_beta hot_inv_update hot_inv_history split: pyval.split)

definition entry_ok :: "hot_entry option \<Rightarrow> bool" where
  "entry_ok e \<longleftrightarrow> (\<forall>x. e = Some x \<longrightarrow> 0 \<le> e_confidence x \<and> e_confidence x \<le> 1)"

lemma hot_inv_append_opt: "hot_inv n ttl b \<Longrightarrow> entry_ok e \<Longrightarrow> hot_inv n ttl (append_opt e b)"
  by (simp add: append_opt_def entry_ok_def hot_inv_append split: option.split)

lemma last_entry_Some: "last_entry P es = Some x \<Longrightarrow> x \<in> set es \<and> P x"
proof -
  assume "last_entry P es = Some x"
  then have "filter P es \<noteq> []" "x = last (filter P es)" by (auto simp: last_entry_def split: list.split_asm)
  then have "x \<in> set (filter P es)" by (metis last_in_set)
  then show ?thesis by simp
qed

lemma last_entry_ok: "hot_inv n ttl b \<Longrightarrow> entry_ok (last_entry P (buffer b))"
  by (auto simp: entry_ok_def hot_inv_def dest!: last_entry_Some)

lemma hot_inv_undo:
  assumes "hot_inv n ttl (w_hot w)" "entry_ok (u_hot_target u)" "entry_ok (u_hot_old u)"
  shows "hot_inv n ttl (w_hot (undo_vector_failure E now u w))" "hot_inv n ttl (w_hot (undo_graph_failure E now u ins w))"
  using assms by (simp_all add: undo_vector_failure_def undo_graph_failure_def Let_def case_prod_beta wp_simps
      hot_inv_append_opt hot_inv_purge)

lemma hot_inv_run_saga:
  assumes "hot_inv n ttl (w_hot w)" "entry_ok (u_hot_target u)" "entry_ok (u_hot_old u)"
    and "run_saga E now key val c m rs vec u w = (w', res)"
  shows "hot_inv n ttl (w_hot w')"
proof -
  have 1: "w_hot w1 = w_hot w" if "persist E now key val c m rs w = (w1, x)" for w1 x
    using persist_hot [of E now key val c m rs w] that by simp
  have 2: "w_hot w2 = w_hot w1" if "index_vector E key val vec p w1 = (w2, x)" for p w1 w2 x
    using index_vector_simps(2) [of E key val vec p w1] that by simp
  have 3: "hot_inv n ttl (w_hot w3)" if "update_hot now key val c m w2 = (w3, x)" "hot_inv n ttl (w_hot w2)" for w2 w3 x
    using hot_inv_update_hot [OF that(2), of now key val c m] that(1) by simp
  have 4: "w_hot w4 = w_hot w3" if "insert_graph E now key val m c w3 = (w4, ins, x)" for w3 w4 ins x
    using insert_graph_simps(2) [of E now key val m c w3] that by simp
  from assms(4) show ?thesis
  proof (cases rule: run_saga_cases)
    case (graph p a w1 w2 w3 w4 ins e)
    have "hot_inv n ttl (w_hot w4)" using 1 [OF graph(1)] 2 [OF graph(2)] 3 [OF graph(3)] 4 [OF graph(4)] assms(1) by simp
    with graph(5) assms(2,3) show ?thesis by (simp add: hot_inv_undo)
  next
    case (vector p a w1 w2)
    with 1 2 assms show ?thesis by (simp add: hot_inv_undo)
  next
    case (finish p a w1 w2 w3 w4 ins n)
    have "hot_inv n ttl (w_hot w4)" if "hot_inv n ttl (w_hot w2)" for n ttl
      using hot_inv_update_hot [OF that, of now key val c m] finish(3) 4 [OF finish(4)] by simp
    with 1 [OF finish(1)] 2 [OF finish(2)] finish(5) assms(1) show ?thesis by (simp add: wp_simps)
  next
    case (hot p a w1 w2 e)
    have "hot_inv n ttl (w_hot w2)" using 1 [OF hot(1)] 2 [OF hot(2)] assms(1) by simp
    from 3 [OF hot(3) this] show ?thesis .
  qed (use 1 assms(1) in auto)
qed

text \<open>The invariant of the write path: a valid store and a buffer within its bounds.\<close>

definition wp_ok :: "('g, 'v, 'r) wp_env \<Rightarrow> nat \<Rightarrow> rat \<Rightarrow> ('g, 'v) wp \<Rightarrow> bool" where
  "wp_ok E n ttl w \<longleftrightarrow> store_ok E w \<and> hot_inv n ttl (w_hot w)"

lemma wp_ok_commit_write:
  assumes "wp_ok E n ttl w" "rs \<noteq> ''delete''"
  shows "wp_ok E n ttl (fst (commit_write E now key val c m rs vec r items w))"
proof -
  define m1 where "m1 = conflict_meta E r m"
  define u where "u = new_undo E key r items m1 w"
  obtain w1 m2 old where s: "supersede E now key c r items m1 w = (w1, m2, old)" by (metis prod_cases3)
  obtain w2 x where t: "track_revision E key val c items m2 w1 = (w2, x)" by fastforce
  have "store_ok E w1" "hot_inv n ttl (w_hot w1)"
    using store_ok_supersede [of E w now key c r items m1] hot_inv_supersede [of n ttl w E now key c r items m1] assms(1) s
    by (simp_all add: wp_ok_def)
  then have 2: "store_ok E w2" "hot_inv n ttl (w_hot w2)"
    using track_revision_simps [of E key val c items m2 w1] t by (simp_all add: store_ok_def)
  have u: "entry_ok (u_hot_target u)" "entry_ok (u_hot_old u)"
    using last_entry_ok [of n ttl "w_hot w"] assms(1) by (auto simp: u_def new_undo_def wp_ok_def)
  show ?thesis
  proof (cases x)
    case (Inl e)
    with 2 s t show ?thesis by (simp add: commit_write_def m1_def [symmetric] u_def [symmetric] wp_ok_def)
  next
    case (Inr m3)
    obtain w3 y where run: "run_saga E now key val c m3 rs vec (u\<lparr>u_old := old\<rparr>) w2 = (w3, y)" by fastforce
    have "wp_ok E n ttl w3"
      using store_ok_run_saga [OF 2(1) assms(2) run] hot_inv_run_saga [OF 2(2) _ _ run] u by (simp add: wp_ok_def)
    moreover have "fst (commit_write E now key val c m rs vec r items w) = w3"
      using s t run Inr
      by (simp add: commit_write_def m1_def [symmetric] u_def [symmetric] split: sum.split prod.split)
    ultimately show ?thesis by simp
  qed
qed

text \<open>Where a write can end.\<close>

definition saga_step ::
  "('g, 'v, 'r) wp_env \<Rightarrow> rat \<Rightarrow> 'r write_args \<Rightarrow> string \<Rightarrow> pyval \<Rightarrow> float_arg \<Rightarrow> meta \<Rightarrow> ('g, 'v) wp \<Rightarrow>
     ('g, 'v) wp \<times> (write_error + response)" where
  "saga_step E now a key val conf m w =
     arbitrated_write E now key val (clamp_conf conf) (write_meta a (clamp_conf conf) m) (in_reason a) (in_session a) (in_vector a)
       (touch_session (in_session a) key w)"

lemma wp_write_cases:
  assumes "wp_write E now a w = (w', res)"
  obtains (input) e where "normalize_write_input E a = Inl e" "w' = w" "res = Inl e"
  | (turn) key val conf m rp where "normalize_write_input E a = Inr (key, val, conf, m, rp)" "w' = w" "res = Inr (RejectedTurn key)"
  | (ungrounded) key val conf m rp why where "normalize_write_input E a = Inr (key, val, conf, m, rp)" "w' = w"
      "res = Inr (RejectedUngrounded key why)"
  | (replay) key val conf m b where "replay_no_op E now key val conf m b w = Some (w', res)"
  | (arbitrated) key val conf m0 m rp where "normalize_write_input E a = Inr (key, val, conf, m0, rp)"
      "m = m0 \<or> (\<exists>v. m = dset ''speech_act'' v m0)" "saga_step E now a key val conf m w = (w', res)"
proof (cases "normalize_write_input E a")
  case (Inl e)
  with assms show ?thesis by (intro input [of e]) (simp_all add: wp_write_def)
next
  case (Inr x)
  obtain key val conf m0 rp where x: "x = (key, val, conf, m0, rp)" by (metis prod.collapse)
  define act where "act = classify_speech_act (we_ling E) key (we_str E (py_or (meta_get m0 ''predicate'') (VStr [])))
    (we_str E (py_or val (VStr [])))"
  define m where "m = (if ''speech_act'' \<in> set (dkeys m0) then m0 else dset ''speech_act'' (VStr (speech_act_value act)) m0)"
  obtain grounded why where g: "is_lexically_grounded_entity (ae_repr (we_arb E)) key val m = (grounded, why)" by fastforce
  have w: "wp_write E now a w =
      (if act = ConversationalTurn then (w, Inr (RejectedTurn key))
       else if \<not> grounded then (w, Inr (RejectedUngrounded key why))
       else case replay_no_op E now key val conf m (in_replay a \<or> rp \<noteq> VNone) w of
           Some answer \<Rightarrow> answer
         | None \<Rightarrow> saga_step E now a key val conf m w)"
    unfolding wp_write_def Inr x sum.case prod.case Let_def act_def [symmetric] m_def [symmetric] g saga_step_def ..
  note norm = Inr [unfolded x]
  show ?thesis
  proof (cases "act = ConversationalTurn")
    case True
    with assms w show ?thesis by (intro turn [OF norm]) simp_all
  next
    case act: False
    show ?thesis
    proof (cases grounded)
      case False
      with assms w act show ?thesis by (intro ungrounded [OF norm, of why]) simp_all
    next
      case True
      show ?thesis
      proof (cases "replay_no_op E now key val conf m (in_replay a \<or> rp \<noteq> VNone) w")
        case None
        with assms w act True have "saga_step E now a key val conf m w = (w', res)" by simp
        then show ?thesis by (rule arbitrated [OF norm, rotated]) (auto simp: m_def)
      next
        case (Some answer)
        with assms w act True show ?thesis by (intro replay) simp
      qed
    qed
  qed
qed

lemma replay_no_op_cases:
  assumes "replay_no_op E now key val conf m b w = Some (w', res)"
  shows "(w' = w \<and> (\<exists>e. res = Inl (GraphFailure e)))
    \<or> (w' = try_set E now key val (FNum (clamp_conf conf)) m ''replay_no_op'' (w\<lparr>w_audit := w_audit w @ [(key, meta_get m ''ingest_at'')]\<rparr>)
       \<and> res = Inr (ReplayNoOp key))"
  using assms by (auto simp: replay_no_op_def split: option.split_asm if_split_asm sum.split_asm bool.split_asm)

lemma wp_ok_touch: "wp_ok E n ttl w \<Longrightarrow> wp_ok E n ttl (touch_session sid key w)"
  by (simp add: wp_ok_def store_ok_def wp_simps)

lemma wp_ok_saga_step:
  assumes "wp_ok E n ttl w" "in_reason a \<noteq> ''delete''"
  shows "wp_ok E n ttl (fst (saga_step E now a key val conf m w))"
  using wp_ok_touch [OF assms(1)] wp_ok_commit_write [OF wp_ok_touch [OF assms(1)] assms(2)]
  by (simp add: saga_step_def arbitrated_write_def Let_def split: sum.split)

lemma wp_ok_write:
  assumes "wp_ok E n ttl w" "in_reason a \<noteq> ''delete''"
  shows "wp_ok E n ttl (fst (wp_write E now a w))"
proof -
  obtain w' res where r: "wp_write E now a w = (w', res)" by fastforce
  from r show ?thesis
  proof (cases rule: wp_write_cases)
    case (replay key val conf m b)
    have "wp_ok E n ttl (w\<lparr>w_audit := z\<rparr>)" for z using assms(1) by (simp add: wp_ok_def store_ok_def)
    then have "wp_ok E n ttl (try_set E now key val c m ''replay_no_op'' (w\<lparr>w_audit := z\<rparr>))" for c z
      by (simp add: wp_ok_def store_ok_try_set wp_simps)
    with replay_no_op_cases [OF replay] assms(1) r show ?thesis by auto
  next
    case (arbitrated key val conf m0 m rp)
    with wp_ok_saga_step [OF assms, of now key val conf m] r show ?thesis by simp
  qed (use r assms(1) in simp_all)
qed

section \<open>What a saga leaves\<close>

text \<open>A step that keeps the savepoints of the store.\<close>

definition kv_frames :: "('g, 'v) wp \<Rightarrow> ('g, 'v) wp \<Rightarrow> bool" where
  "kv_frames w w' \<longleftrightarrow> rel_option kv_frame (w_kv w) (w_kv w')"

lemma kv_frames_same: "w_kv w' = w_kv w \<Longrightarrow> kv_frames w w'"
  by (cases "w_kv w") (simp_all add: kv_frames_def)

lemma kv_frames_trans: "kv_frames w w' \<Longrightarrow> kv_frames w' w'' \<Longrightarrow> kv_frames w w''"
  unfolding kv_frames_def
  by (cases "w_kv w"; cases "w_kv w'"; cases "w_kv w''") (auto intro: kv_frame_trans)

lemma kv_frames_try_set: "kv_frames w (try_set E now k v c m rs w)"
  by (cases "w_kv w") (simp_all add: kv_frames_def wp_simps frame_set)

lemma kv_frames_supersede: "kv_frames w (fst (supersede E now key c r items m w))"
proof -
  have tomb: "kv_frames w (set_tombstone E now k w)" for k and w :: "('a, 'b) wp"
    by (simp add: set_tombstone_def kv_frames_try_set kv_frames_same split: option.split sum.split)
  have purge: "kv_frames w (fst (purge_old_vectors E now k w m))" for k m and w :: "('a, 'b) wp"
    unfolding purge_old_vectors_def Let_def case_prod_beta
    by (auto simp: kv_frames_same split: option.split intro: kv_frames_trans [OF kv_frames_same tomb])
  show ?thesis
    unfolding supersede_def Let_def case_prod_beta
    by (auto simp: kv_frames_same wp_simps split: option.split if_split
        intro: kv_frames_trans [OF kv_frames_same purge] kv_frames_trans [OF kv_frames_trans [OF kv_frames_try_set kv_frames_same] purge]
          kv_frames_trans [OF kv_frames_try_set kv_frames_same])
qed

lemma update_snoc:
  assumes "update now key val c m st None b = (b', Inr e)"
  obtains xs where "buffer b' = keep_last (maxlen b) (xs @ [e])" "e_key e = key" "e_value e = val" "e_confidence e = c"
proof -
  from assms have "b' = push e (fst (purge key b)) \<or> b' = push e (fst (purge key (b\<lparr>superseded_history := insert key (superseded_history b)\<rparr>)))"
    "e_key e = key" "e_value e = val" "e_confidence e = c"
    by (auto simp: update_def Let_def make_entry_def split: if_split_asm)
  then show ?thesis by (intro that [of "buffer (fst (purge key b))"]) (auto simp: hot_simps)
qed

lemma update_last:
  assumes "update_hot now key val c m w = (w', Inr ())" "0 < maxlen (w_hot w)"
  shows "buffer (w_hot w') \<noteq> [] \<and> e_key (last (buffer (w_hot w'))) = key \<and> e_value (last (buffer (w_hot w'))) = val
    \<and> e_confidence (last (buffer (w_hot w'))) = c"
proof -
  obtain st where st: "dget_default m ''source_type'' (VStr ''user_explicit'') = VStr st"
    using assms(1) by (auto simp: update_hot_def split: pyval.split_asm)
  obtain b r where u: "update now key val c m st None (w_hot w) = (b, r)" by fastforce
  with assms(1) st have b: "w' = w\<lparr>w_hot := b\<rparr>" "map_sum HotFailure (\<lambda>_. ()) r = Inr ()" by (simp_all add: update_hot_def)
  then obtain e where "r = Inr e" by (cases r) auto
  with u obtain xs where "buffer b = keep_last (maxlen (w_hot w)) (xs @ [e])" "e_key e = key" "e_value e = val" "e_confidence e = c"
    by (auto elim: update_snoc)
  then show ?thesis using assms(2) b(1) by (simp add: keep_last_snoc)
qed

lemma run_saga_done:
  assumes "run_saga E now key val c m rs vec u w = (w', Inr (p, n))" "wp_ok E k ttl w" "rs \<noteq> ''delete''" "0 < k"
  shows "p = (w_kv w \<noteq> None)"
    and "buffer (w_hot w') \<noteq> [] \<and> e_key (last (buffer (w_hot w'))) = key \<and> e_value (last (buffer (w_hot w'))) = val
      \<and> e_confidence (last (buffer (w_hot w'))) = c"
    and "w_kv w = Some s \<Longrightarrow> \<exists>s' row. w_kv w' = Some s' \<and> kv_valid (we_fr E) s' \<and> savepoints s' = savepoints s
      \<and> dget (state_vars (kdb s')) key = Some row \<and> s_value row = json_dumps (we_fr E) val
      \<and> s_confidence row = clamp_conf (FNum c) \<and> s_metadata row = Some (json_dumps (we_fr E) (VDict m))"
proof -
  from assms(1) obtain a w1 w2 w3 w4 ins where r: "persist E now key val c m rs w = (w1, Inr (p, a))"
      "index_vector E key val vec p w1 = (w2, True)" "update_hot now key val c m w2 = (w3, Inr ())"
      "insert_graph E now key val m c w3 = (w4, ins, Inr n)" "w' = release_saga a w4"
    by (cases rule: run_saga_cases) auto
  have kv: "w_kv w2 = w_kv w1" "w_kv w3 = w_kv w2" "w_kv w4 = w_kv w3"
    and hot: "w_hot w2 = w_hot w1" "w_hot w1 = w_hot w" "w_hot w' = w_hot w3"
    using index_vector_simps [of E key val vec p w1] update_hot_kv [of now key val c m w2] insert_graph_simps [of E now key val m c w3]
      persist_hot [of E now key val c m rs w] r by (simp_all add: wp_simps)
  have "0 < maxlen (w_hot w2)" using assms(2,4) hot by (simp add: wp_ok_def hot_inv_def)
  from update_last [OF r(3) this] hot(3)
  show "buffer (w_hot w') \<noteq> [] \<and> e_key (last (buffer (w_hot w'))) = key \<and> e_value (last (buffer (w_hot w'))) = val
      \<and> e_confidence (last (buffer (w_hot w'))) = c" by simp
  have v: "kv_valid (we_fr E) s" if "w_kv w = Some s" for s using assms(2) that by (simp add: wp_ok_def store_ok_def)
  show "p = (w_kv w \<noteq> None)"
  proof (cases "w_kv w")
    case None
    with r(1) show ?thesis by (simp add: persist_def)
  next
    case (Some s)
    from persist_valid [OF v [OF Some] Some assms(3), of now key val c m] r(1) Some show ?thesis by auto
  qed
  assume s: "w_kv w = Some s"
  obtain s2 where s2: "persist E now key val c m rs w = (w\<lparr>w_kv := Some s2\<rparr>, Inr (True, True))" "kv_valid (we_fr E) s2" "saga_open s s2"
      "dget (state_vars (kdb s2)) key = Some \<lparr>s_value = json_dumps (we_fr E) val, s_confidence = clamp_conf (FNum c),
        s_timestamp = now, s_metadata = Some (json_dumps (we_fr E) (VDict m)),
        s_value_hash = Some (sha256 (json_dumps (we_fr E) val))\<rparr>"
    by (rule persist_valid [OF v [OF s] s assms(3)])
  obtain s3 where s3: "release_savepoint saga s2 = (s3, Inr ())" "tables s3 = tables s2" "kv_valid (we_fr E) s3"
      "savepoints s3 = savepoints s" by (rule release_open [OF s2(3,2)])
  have "w1 = w\<lparr>w_kv := Some s2\<rparr>" "a" using r(1) s2(1) by auto
  then have "w_kv w' = Some s3" using r(5) s3(1) kv by (simp add: release_saga_def)
  with s3 s2(4) show "\<exists>s' row. w_kv w' = Some s' \<and> kv_valid (we_fr E) s' \<and> savepoints s' = savepoints s
      \<and> dget (state_vars (kdb s')) key = Some row \<and> s_value row = json_dumps (we_fr E) val
      \<and> s_confidence row = clamp_conf (FNum c) \<and> s_metadata row = Some (json_dumps (we_fr E) (VDict m))" by simp
qed

lemma arbitrated_write_cases:
  assumes "arbitrated_write E now key val c m rs sid vec w = (w', res)"
  obtains (error) e where "arbitrate (we_arb E) (w_arbiter w) key val c m (existing_items E now key val m sid w) = Inl e"
      "w' = w" "res = Inl (ArbiterFailure e)"
  | (blocked) r where "arbitrate (we_arb E) (w_arbiter w) key val c m (existing_items E now key val m sid w) = Inr r"
      "is_blocked r" "w' = w" "res = Inr (RejectedConflict key r)"
  | (commit) r where "arbitrate (we_arb E) (w_arbiter w) key val c m (existing_items E now key val m sid w) = Inr r"
      "\<not> is_blocked r" "commit_write E now key val c m rs vec r (existing_items E now key val m sid w) w = (w', res)"
  using assms by (auto simp: arbitrated_write_def Let_def split: sum.split_asm if_split_asm)

text \<open>The stages before the saga, in one step.\<close>

lemma commit_write_cases:
  assumes "commit_write E now key val c m rs vec r items w = (w', res)" "wp_ok E k ttl w"
  obtains (count) w2 where "res = Inl BadRevisionCount"
  | (saga) w2 m3 u old where "run_saga E now key val c m3 rs vec u w2 = (w', map_sum id
        (\<lambda>_. case res of Inr (Written _ p _ _ n) \<Rightarrow> (p, n) | _ \<Rightarrow> (False, 0)) res)"
      "kv_frames w w2" "wp_ok E k ttl w2" "u_old u = old" "u_key u = key" "entry_ok (u_hot_target u)" "entry_ok (u_hot_old u)"
      "u_hot_target u = last_entry (\<lambda>e. e_key e = key) (buffer (w_hot w))"
      "\<not> r_is_revision r \<Longrightarrow> w_kv w2 = w_kv w \<and> w_hot w2 = w_hot w \<and> old = None \<and> u_hot_old u = None"
      "\<forall>x. res = Inr x \<longrightarrow> (\<exists>p v n. x = Written key p r v n)"
proof -
  define m1 where "m1 = conflict_meta E r m"
  define u where "u = new_undo E key r items m1 w"
  obtain w1 m2 old where s: "supersede E now key c r items m1 w = (w1, m2, old)" by (metis prod_cases3)
  obtain w2 x where t: "track_revision E key val c items m2 w1 = (w2, x)" by fastforce
  have 1: "store_ok E w1" "hot_inv k ttl (w_hot w1)" "kv_frames w w1"
    using store_ok_supersede [of E w now key c r items m1] hot_inv_supersede [of k ttl w E now key c r items m1] assms(2) s
      kv_frames_supersede [of w E now key c r items m1] by (simp_all add: wp_ok_def)
  have tr: "w_kv w2 = w_kv w1" "w_hot w2 = w_hot w1" using track_revision_simps [of E key val c items m2 w1] t by simp_all
  have 2: "wp_ok E k ttl w2" "kv_frames w w2" using 1 tr by (simp_all add: wp_ok_def store_ok_def kv_frames_def)
  have u: "entry_ok (u_hot_target u)" "entry_ok (u_hot_old u)"
    using last_entry_ok [of k ttl "w_hot w"] assms(2) by (auto simp: u_def new_undo_def wp_ok_def)
  show ?thesis
  proof (cases x)
    case (Inl e)
    with t have "e = BadRevisionCount"
      by (auto simp: track_revision_def Let_def split: option.split_asm if_split_asm)
    with assms(1) s t Inl show ?thesis by (intro count) (simp add: commit_write_def m1_def [symmetric])
  next
    case (Inr m3)
    obtain w3 y where run: "run_saga E now key val c m3 rs vec (u\<lparr>u_old := old\<rparr>) w2 = (w3, y)" by fastforce
    have c: "commit_write E now key val c m rs vec r items w =
        (case (w3, y) of (w3, Inl err) \<Rightarrow> (w3, Inl err)
         | (w3, Inr (p, n)) \<Rightarrow> (w3, Inr (Written key p r (dget_default m3 ''revision_count'' (VInt 0)) n)))"
      using s t run Inr by (simp add: commit_write_def m1_def [symmetric] u_def [symmetric])
    have res: "w3 = w'" "res = map_sum id (\<lambda>(p, n). Written key p r (dget_default m3 ''revision_count'' (VInt 0)) n) y"
      using assms(1) c by (cases y; auto)+
    show ?thesis
    proof (rule saga [of m3 "u\<lparr>u_old := old\<rparr>" w2 old])
      show "run_saga E now key val c m3 rs vec (u\<lparr>u_old := old\<rparr>) w2 = (w', map_sum id
          (\<lambda>_. case res of Inr (Written _ p _ _ n) \<Rightarrow> (p, n) | _ \<Rightarrow> (False, 0)) res)"
        using run res by (cases y) (auto split: prod.split)
      show "w_kv w2 = w_kv w \<and> w_hot w2 = w_hot w \<and> old = None \<and> u_hot_old (u\<lparr>u_old := old\<rparr>) = None" if "\<not> r_is_revision r"
        using s tr that by (auto simp: supersede_def u_def new_undo_def last_entry_def)
      show "\<forall>x. res = Inr x \<longrightarrow> (\<exists>p v n. x = Written key p r v n)" using res by (cases y) auto
    qed (use 2 u in \<open>simp_all add: u_def new_undo_def\<close>)
  qed
qed

section \<open>What a failed write leaves\<close>

definition entries_of :: "string \<Rightarrow> hot_buffer \<Rightarrow> hot_entry list" where
  "entries_of key b = filter (\<lambda>e. e_key e = key) (buffer b)"

lemma entries_of_append:
  "0 < maxlen b \<Longrightarrow> entries_of (e_key x) (append_entry x b) = [x]"
proof -
  assume n: "0 < maxlen b"
  have "filter (\<lambda>e. e_key e = e_key x) (keep_last m (keep_last k (filter (\<lambda>e. e_key e \<noteq> e_key x) ys))) = []" for m k and ys :: "hot_entry list"
    by (auto simp: filter_empty_conv dest!: set_keep_last)
  with n show ?thesis by (simp add: entries_of_def append_entry_def Let_def hot_simps keep_last_snoc)
qed

lemma entries_of_purge: "entries_of k (fst (purge k b)) = []"
  by (auto simp: entries_of_def hot_simps filter_empty_conv dest!: set_keep_last)

lemma entries_of_last:
  assumes "hot_inv n ttl b"
  shows "entries_of k b = (case last_entry (\<lambda>e. e_key e = k) (buffer b) of None \<Rightarrow> [] | Some x \<Rightarrow> [x])"
proof -
  have "distinct (map e_key (entries_of k b))" "set (map e_key (entries_of k b)) \<subseteq> {k}"
    using assms by (auto simp: hot_inv_def entries_of_def distinct_map_filter)
  then have "length (entries_of k b) \<le> 1"
    by (metis card_mono distinct_card finite.emptyI finite_insert is_singletonI is_singleton_altdef length_map)
  then show ?thesis by (cases "entries_of k b") (auto simp: entries_of_def last_entry_def)
qed

lemma entries_of_restored:
  assumes "hot_inv n ttl b" "0 < maxlen b'" "x = last_entry (\<lambda>e. e_key e = k) (buffer b)" "x = None \<Longrightarrow> entries_of k b' = []"
  shows "entries_of k (append_opt x b') = entries_of k b"
proof (cases x)
  case None
  with assms(3,4) show ?thesis by (simp add: entries_of_last [OF assms(1)] append_opt_def)
next
  case (Some y)
  with assms(3) last_entry_Some [of "\<lambda>e. e_key e = k" "buffer b" y] have "e_key y = k" by simp
  with Some assms(3) entries_of_append [OF assms(2), of y] show ?thesis
    by (simp add: entries_of_last [OF assms(1)] append_opt_def)
qed

lemma append_none [wp_simps]: "append_opt None b = b"
  by (simp add: append_opt_def)

definition same_store :: "kv \<Rightarrow> kv \<Rightarrow> bool" where
  "same_store s s' \<longleftrightarrow> tables s' = tables s \<and> prev_hash s' = prev_hash s \<and> savepoints s' = savepoints s"

lemma undo_store_restores:
  assumes "persist E now key val c m rs w = (w1, Inr (p, a))" "store_ok E w" "rs \<noteq> ''delete''" "w_kv w2 = w_kv w1" "u_active u = a"
  shows "rel_option same_store (w_kv w) (w_kv (fst (undo_store E now rs' u w2))) \<and> \<not> snd (undo_store E now rs' u w2)"
proof (cases "w_kv w")
  case None
  with assms(1) have "w_kv w1 = None" "\<not> a" by (auto simp: persist_def)
  with None assms(4,5) show ?thesis by (simp add: undo_store_none)
next
  case (Some s)
  with assms(2) have v: "kv_valid (we_fr E) s" by (simp add: store_ok_def)
  obtain s2 where s2: "persist E now key val c m rs w = (w\<lparr>w_kv := Some s2\<rparr>, Inr (True, True))" "saga_open s s2"
    by (rule persist_valid [OF v Some assms(3)])
  with assms(1,4,5) have "w_kv w2 = Some s2" "u_active u" by auto
  then obtain s3 where "undo_store E now rs' u w2 = (w2\<lparr>w_kv := Some s3\<rparr>, False)" "tables s3 = tables s" "prev_hash s3 = prev_hash s"
      "savepoints s3 = savepoints s"
    using undo_store_open [OF _ s2(2)] by metis
  with Some show ?thesis by (simp add: same_store_def)
qed

lemma update_hot_error: "update_hot now key val c m w = (w', Inl e) \<Longrightarrow> \<exists>x. e = HotFailure x"
proof -
  assume "update_hot now key val c m w = (w', Inl e)"
  moreover have "map_sum HotFailure f r = Inl e \<Longrightarrow> \<exists>x. e = HotFailure x" for r and f :: "hot_entry \<Rightarrow> unit" by (cases r) auto
  ultimately show ?thesis by (auto simp: update_hot_def Let_def case_prod_beta split: pyval.split_asm)
qed

lemma graph_failure_store:
  assumes "run_saga E now key val c m rs vec u w = (w', Inl (GraphFailure x))" "store_ok E w" "rs \<noteq> ''delete''"
    and "u_old u = None \<or> map_option fst (u_old u) = Some (u_key u)"
  shows "rel_option same_store (w_kv w) (w_kv w')"
  using assms(1)
proof (cases rule: run_saga_cases)
  case (persist e w1)
  then show ?thesis by (auto simp: persist_def Let_def case_prod_beta split: option.split_asm sum.split_asm)
next
  case (hot p a w1 w2 e)
  with update_hot_error [OF hot(3)] show ?thesis by auto
next
  case (graph p a w1 w2 w3 w4 ins x)
  have f: "w_kv w4 = w_kv w1"
    using index_vector_simps [of E key val vec p w1] update_hot_kv [of now key val c m w2]
      insert_graph_simps [of E now key val m c w3] graph by simp
  let ?k = "normalize_upsert_key (u_key u)"
  let ?w1 = "w4\<lparr>w_graph := map_option (undo_graph E (u_key u) ins) (w_graph w4),
               w_vector := map_option (\<lambda>v. fst (purge_vectors E [?k, ''kv:'' @ ?k] v)) (w_vector w4)\<rparr>"
  have "w_kv w' = w_kv (fst (undo_store E now ''rollback_graph_failure'' (u\<lparr>u_active := a\<rparr>) ?w1))"
    using graph(5) assms(4) by (auto simp: undo_graph_failure_def restore_old_def Let_def)
  with undo_store_restores [OF graph(1) assms(2,3), of ?w1 "u\<lparr>u_active := a\<rparr>" "''rollback_graph_failure''"] f
  show ?thesis by simp
qed simp_all

lemma run_saga_undone:
  assumes "run_saga E now key val c m rs vec u w = (w', Inl e)" "wp_ok E k ttl w" "rs \<noteq> ''delete''" "0 < k"
    and "u_old u = None" "u_hot_old u = None" "u_key u = key" "u_hot_target u = last_entry (\<lambda>e. e_key e = key) (buffer (w_hot w))"
    and "e = VectorFailure \<or> (\<exists>x. e = GraphFailure x)"
  shows "rel_option same_store (w_kv w) (w_kv w') \<and> entries_of key (w_hot w') = entries_of key (w_hot w)"
proof -
  have ok: "store_ok E w" and inv: "hot_inv k ttl (w_hot w)" using assms(2) by (simp_all add: wp_ok_def)
  from assms(1) show ?thesis
  proof (cases rule: run_saga_cases)
    case (persist e' w1)
    with assms(9) show ?thesis by (auto simp: persist_def Let_def case_prod_beta split: option.split_asm sum.split_asm)
  next
    case (vector p a w1 w2)
    note undo = undo_store_restores [OF vector(1) ok assms(3), of w2 "u\<lparr>u_active := a\<rparr>" "''rollback_vector_failure''"]
    have "w_hot w2 = w_hot w" "w_kv w2 = w_kv w1"
      using index_vector_simps [of E key val vec p w1] persist_hot [of E now key val c m rs w] vector by simp_all
    then have hot: "w_hot w' = append_opt (u_hot_target u) (w_hot w)" and kv: "rel_option same_store (w_kv w) (w_kv w')"
      using vector(3) undo assms(5,6)
      by (simp_all add: undo_vector_failure_def restore_old_def case_prod_beta Let_def wp_simps)
    have "entries_of key (append_opt (u_hot_target u) (w_hot w)) = entries_of key (w_hot w)"
      by (rule entries_of_restored [OF inv _ assms(8)])
        (use inv assms(4,8) entries_of_last [OF inv, of key] in \<open>simp_all add: hot_inv_def\<close>)
    with hot kv show ?thesis by simp
  next
    case (hot p a w1 w2 e')
    with assms(9) update_hot_error [OF hot(3)] show ?thesis by auto
  next
    case (graph p a w1 w2 w3 w4 ins x)
    have f: "w_hot w2 = w_hot w" "w_hot w4 = w_hot w3"
      using index_vector_simps [of E key val vec p w1] persist_hot [of E now key val c m rs w] update_hot_kv [of now key val c m w2]
        insert_graph_simps [of E now key val m c w3] graph by simp_all
    have inv4: "hot_inv k ttl (w_hot w4)" using hot_inv_update_hot [of k ttl w2 now key val c m] inv f graph(3) by simp
    have hot: "w_hot w' = append_opt (u_hot_target u) (fst (purge key (w_hot w4)))"
      using graph(5) assms(5-7) by (simp add: undo_graph_failure_def restore_old_def Let_def wp_simps)
    have kv: "rel_option same_store (w_kv w) (w_kv w')"
      using graph_failure_store [OF assms(1) [unfolded graph(6)] ok assms(3)] assms(5) by simp
    have "entries_of key (append_opt (u_hot_target u) (fst (purge key (w_hot w4)))) = entries_of key (w_hot w)"
      by (rule entries_of_restored [OF inv _ assms(8)])
        (use inv4 assms(4) entries_of_purge in \<open>simp_all add: hot_inv_def hot_simps\<close>)
    with hot kv show ?thesis by simp
  qed (use assms in simp)
qed

section \<open>A savepoint that stays open\<close>

text \<open>What writes do to the stack of savepoints: it only grows on top, the oldest one stays.\<close>

definition stack_grows :: "kv \<Rightarrow> kv \<Rightarrow> bool" where
  "stack_grows s s' \<longleftrightarrow> conn_open s' = conn_open s \<and> (\<exists>ps. savepoints s' = ps @ savepoints s)"

definition stacks_grow :: "('g, 'v) wp \<Rightarrow> ('g, 'v) wp \<Rightarrow> bool" where
  "stacks_grow w w' \<longleftrightarrow> rel_option stack_grows (w_kv w) (w_kv w')"

lemma stack_grows_trans: "stack_grows s s' \<Longrightarrow> stack_grows s' s'' \<Longrightarrow> stack_grows s s''"
  by (auto simp: stack_grows_def)

lemma stacks_grow_trans: "stacks_grow w w' \<Longrightarrow> stacks_grow w' w'' \<Longrightarrow> stacks_grow w w''"
  unfolding stacks_grow_def
  by (cases "w_kv w"; cases "w_kv w'"; cases "w_kv w''") (auto intro: stack_grows_trans)

lemma stacks_grow_frames: "kv_frames w w' \<Longrightarrow> stacks_grow w w'"
  unfolding stacks_grow_def kv_frames_def
  by (cases "w_kv w"; cases "w_kv w'") (auto simp: stack_grows_def kv_frame_def)

lemma stacks_grow_same: "w_kv w' = w_kv w \<Longrightarrow> stacks_grow w w'"
  by (rule stacks_grow_frames [OF kv_frames_same])

lemma kv_frames_restore_old: "kv_frames w (restore_old E now rs old w)"
  by (auto simp: restore_old_def restore_item_def kv_frames_same kv_frames_try_set split: option.split)

lemma kv_frames_eq: "w_kv w' = w_kv w'' \<Longrightarrow> kv_frames w w'' \<Longrightarrow> kv_frames w w'"
  by (simp add: kv_frames_def)

lemma kv_frames_from: "w_kv w' = w_kv w \<Longrightarrow> kv_frames w' w'' \<Longrightarrow> kv_frames w w''"
  by (simp add: kv_frames_def)

text \<open>Undoing the store inside the saga gives the stack from before it.\<close>

lemma undo_store_frames:
  assumes "persist E now key val c m rs w = (w1, Inr (p, a))" "store_ok E w" "rs \<noteq> ''delete''" "w_kv w2 = w_kv w1" "u_active u = a"
  shows "stacks_grow w (fst (undo_store E now rs' u w2))"
proof (cases "w_kv w")
  case None
  with assms(1) have "w_kv w1 = None" by (auto simp: persist_def)
  with None assms(4) show ?thesis by (simp add: undo_store_none stacks_grow_def)
next
  case (Some s)
  with assms(2) have v: "kv_valid (we_fr E) s" by (simp add: store_ok_def)
  obtain s2 where s2: "persist E now key val c m rs w = (w\<lparr>w_kv := Some s2\<rparr>, Inr (True, True))" "saga_open s s2"
    by (rule persist_valid [OF v Some assms(3)])
  with assms(1,4,5) have "w_kv w2 = Some s2" "u_active u" by auto
  then obtain s3 where "undo_store E now rs' u w2 = (w2\<lparr>w_kv := Some s3\<rparr>, False)" "conn_open s3" "savepoints s3 = savepoints s"
    using undo_store_open [OF _ s2(2)] by metis
  with Some v show ?thesis by (simp add: stacks_grow_def stack_grows_def kv_valid_def)
qed

lemma persist_grows:
  assumes "persist E now key val c m rs w = (w1, x)" "store_ok E w" "rs \<noteq> ''delete''"
  shows "stacks_grow w w1"
    and "w_kv w = Some s \<Longrightarrow> \<exists>s2 t. w_kv w1 = Some s2 \<and> kv_valid (we_fr E) s2 \<and> savepoints s2 = t # savepoints s"
    and "x = Inr (p, a) \<Longrightarrow> stacks_grow w (release_saga a w1)"
proof -
  have "stacks_grow w w1 \<and> (\<forall>s. w_kv w = Some s \<longrightarrow> (\<exists>s2 t. w_kv w1 = Some s2 \<and> kv_valid (we_fr E) s2 \<and> savepoints s2 = t # savepoints s))
      \<and> (\<forall>p a. x = Inr (p, a) \<longrightarrow> stacks_grow w (release_saga a w1))"
  proof (cases "w_kv w")
    case None
    with assms(1) show ?thesis by (auto simp: persist_def stacks_grow_same release_saga_def)
  next
    case (Some s)
    with assms(2) have v: "kv_valid (we_fr E) s" by (simp add: store_ok_def)
    obtain s2 where s2: "persist E now key val c m rs w = (w\<lparr>w_kv := Some s2\<rparr>, Inr (True, True))" "kv_valid (we_fr E) s2" "saga_open s s2"
      by (rule persist_valid [OF v Some assms(3)])
    obtain s3 where s3: "release_savepoint saga s2 = (s3, Inr ())" "kv_valid (we_fr E) s3" "savepoints s3 = savepoints s"
      by (rule release_open [OF s2(3,2)])
    have "w1 = w\<lparr>w_kv := Some s2\<rparr>" "x = Inr (True, True)" using assms(1) s2(1) by auto
    with Some v s2(2,3) s3 show ?thesis
      by (auto simp: stacks_grow_def stack_grows_def kv_valid_def saga_open_def release_saga_def)
  qed
  then show "stacks_grow w w1"
    and "w_kv w = Some s \<Longrightarrow> \<exists>s2 t. w_kv w1 = Some s2 \<and> kv_valid (we_fr E) s2 \<and> savepoints s2 = t # savepoints s"
    and "x = Inr (p, a) \<Longrightarrow> stacks_grow w (release_saga a w1)" by blast+
qed

lemma run_saga_grows:
  assumes "run_saga E now key val c m rs vec u w = (w', res)" "store_ok E w" "rs \<noteq> ''delete''"
  shows "stacks_grow w w'"
  using assms(1)
proof (cases rule: run_saga_cases)
  case (persist e w1)
  with persist_grows(1) [OF persist(1) assms(2,3)] show ?thesis by simp
next
  case (vector p a w1 w2)
  let ?u = "u\<lparr>u_active := a\<rparr>"
  have "w_kv w2 = w_kv w1" using index_vector_simps [of E key val vec p w1] vector by simp
  then have 1: "stacks_grow w (fst (undo_store E now ''rollback_vector_failure'' ?u w2))"
    by (rule undo_store_frames [OF vector(1) assms(2,3)]) simp
  have "kv_frames (fst (undo_store E now ''rollback_vector_failure'' ?u w2)) w'"
    unfolding vector(3) undo_vector_failure_def Let_def case_prod_beta
    by (rule kv_frames_eq [where w'' = "if snd (undo_store E now ''rollback_vector_failure'' ?u w2)
        then fst (undo_store E now ''rollback_vector_failure'' ?u w2)
        else restore_old E now ''rollback_vector_failure'' (u_old ?u) (fst (undo_store E now ''rollback_vector_failure'' ?u w2))"])
      (simp_all add: kv_frames_restore_old kv_frames_same)
  then show ?thesis by (rule stacks_grow_trans [OF 1 stacks_grow_frames])
next
  case (hot p a w1 w2 e)
  have "w_kv w' = w_kv w1" using index_vector_simps [of E key val vec p w1] update_hot_kv [of now key val c m w2] hot by simp
  then show ?thesis using persist_grows(1) [OF hot(1) assms(2,3)] by (simp add: stacks_grow_def)
next
  case (graph p a w1 w2 w3 w4 ins x)
  let ?u = "u\<lparr>u_active := a\<rparr>" and ?k = "normalize_upsert_key (u_key u)"
  let ?w1 = "w4\<lparr>w_graph := map_option (undo_graph E (u_key u) ins) (w_graph w4),
               w_vector := map_option (\<lambda>v. fst (purge_vectors E [?k, ''kv:'' @ ?k] v)) (w_vector w4)\<rparr>"
  have "w_kv ?w1 = w_kv w1"
    using index_vector_simps [of E key val vec p w1] update_hot_kv [of now key val c m w2]
      insert_graph_simps [of E now key val m c w3] graph by simp
  then have 1: "stacks_grow w (fst (undo_store E now ''rollback_graph_failure'' ?u ?w1))"
    by (rule undo_store_frames [OF graph(1) assms(2,3)]) simp
  have "kv_frames (fst (undo_store E now ''rollback_graph_failure'' ?u ?w1)) w'"
    unfolding graph(5) undo_graph_failure_def Let_def
    by (rule kv_frames_eq [where w'' = "if map_option fst (u_old ?u) = Some (u_key ?u)
        then fst (undo_store E now ''rollback_graph_failure'' ?u ?w1)
        else restore_old E now ''rollback_restore'' (u_old ?u) (fst (undo_store E now ''rollback_graph_failure'' ?u ?w1))"])
      (simp_all add: kv_frames_restore_old kv_frames_same)
  then show ?thesis by (rule stacks_grow_trans [OF 1 stacks_grow_frames])
next
  case (finish p a w1 w2 w3 w4 ins n)
  have "w_kv w4 = w_kv w1"
    using index_vector_simps [of E key val vec p w1] update_hot_kv [of now key val c m w2]
      insert_graph_simps [of E now key val m c w3] finish by simp
  then have "w_kv w' = w_kv (release_saga a w1)" by (simp add: finish(5) release_saga_def)
  then show ?thesis using persist_grows(3) [OF finish(1) assms(2,3)] by (simp add: stacks_grow_def)
qed

lemma commit_write_grows:
  assumes "wp_ok E k ttl w" "rs \<noteq> ''delete''"
  shows "stacks_grow w (fst (commit_write E now key val c m rs vec r items w))"
proof -
  define m1 where "m1 = conflict_meta E r m"
  obtain w1 m2 old where sup: "supersede E now key c r items m1 w = (w1, m2, old)" by (metis prod_cases3)
  obtain w2 y where t: "track_revision E key val c items m2 w1 = (w2, y)" by fastforce
  have "kv_frames w w1" "store_ok E w1"
    using kv_frames_supersede [of w E now key c r items m1] store_ok_supersede [of E w now key c r items m1] assms(1) sup
    by (simp_all add: wp_ok_def)
  then have 2: "stacks_grow w w2" "store_ok E w2"
    using track_revision_simps(1) [of E key val c items m2 w1] t
    by (simp_all add: stacks_grow_frames kv_frames_def store_ok_def)
  show ?thesis
  proof (cases y)
    case (Inl e)
    with sup t 2 show ?thesis by (simp add: commit_write_def m1_def [symmetric])
  next
    case (Inr m3)
    obtain w3 z where run: "run_saga E now key val c m3 rs vec ((new_undo E key r items m1 w)\<lparr>u_old := old\<rparr>) w2 = (w3, z)" by fastforce
    have "fst (commit_write E now key val c m rs vec r items w) = w3"
      using sup t run Inr by (simp add: commit_write_def m1_def [symmetric] split: sum.split prod.split)
    with stacks_grow_trans [OF 2(1) run_saga_grows [OF run 2(2) assms(2)]] show ?thesis by simp
  qed
qed

lemma wp_write_grows:
  assumes "wp_ok E k ttl w" "in_reason a \<noteq> ''delete''"
  shows "stacks_grow w (fst (wp_write E now a w))"
proof -
  obtain w' res where r: "wp_write E now a w = (w', res)" by fastforce
  from r show ?thesis
  proof (cases rule: wp_write_cases)
    case (replay key val conf m b)
    have "kv_frames w (try_set E now key val cf m ''replay_no_op'' (w\<lparr>w_audit := z\<rparr>))" for cf z
      by (rule kv_frames_from [OF _ kv_frames_try_set]) simp
    with replay_no_op_cases [OF replay] r show ?thesis by (auto intro: stacks_grow_frames stacks_grow_same)
  next
    case (arbitrated key val conf m0 m rp)
    let ?w = "touch_session (in_session a) key w"
    have kv: "w_kv ?w = w_kv w" by (simp add: wp_simps)
    from arbitrated(3) [unfolded saga_step_def] show ?thesis
    proof (cases rule: arbitrated_write_cases)
      case (commit r')
      have "stacks_grow ?w w'" using commit_write_grows [OF wp_ok_touch [OF assms(1)] assms(2)] commit(3) by (metis fst_conv)
      with kv r show ?thesis by (simp add: stacks_grow_def)
    qed (use r kv in \<open>simp_all add: stacks_grow_same\<close>)
  qed (use r in \<open>simp_all add: stacks_grow_same\<close>)
qed

text \<open>A write whose hot entry is refused leaves its savepoint on the stack.\<close>

lemma wp_write_hot_failure:
  assumes "wp_write E now a w = (w', Inl (HotFailure h))" "in_reason a \<noteq> ''delete''" "wp_ok E k ttl w" "w_kv w = Some s"
  shows "\<exists>s' t ps. w_kv w' = Some s' \<and> conn_open s' \<and> savepoints s' = ps @ t # savepoints s"
  using assms(1)
proof (cases rule: wp_write_cases)
  case (input e)
  have False if "normalize_write_input E a = Inl (HotFailure h)"
    using that by (auto simp: normalize_write_input_def Let_def split: write_key.split_asm option.split_asm if_split_asm)
  with input show ?thesis by simp
next
  case (replay key val conf m b)
  with replay_no_op_cases [OF replay] show ?thesis by auto
next
  case (arbitrated key val conf m0 m rp)
  let ?w = "touch_session (in_session a) key w"
  have ok: "wp_ok E k ttl ?w" by (rule wp_ok_touch [OF assms(3)])
  from arbitrated(3) [unfolded saga_step_def] obtain r items where
    c: "commit_write E now key val (clamp_conf conf) (write_meta a (clamp_conf conf) m) (in_reason a) (in_vector a) r items ?w
      = (w', Inl (HotFailure h))"
    by (cases rule: arbitrated_write_cases) auto
  from c ok show ?thesis
  proof (cases rule: commit_write_cases)
    case (saga w2 m3 u old)
    obtain s2 where s2: "w_kv w2 = Some s2" "savepoints s2 = savepoints s"
      using saga(2) assms(4) by (cases "w_kv w2") (auto simp: kv_frames_def kv_frame_def wp_simps)
    have ok2: "store_ok E w2" using saga(3) by (simp add: wp_ok_def)
    from saga(1) have "run_saga E now key val (clamp_conf conf) m3 (in_reason a) (in_vector a) u w2 = (w', Inl (HotFailure h))" by simp
    then show ?thesis
    proof (cases rule: run_saga_cases)
      case (persist e w1)
      then show ?thesis by (auto simp: persist_def Let_def case_prod_beta split: option.split_asm sum.split_asm)
    next
      case (hot p a' w1 w3 e)
      have "w_kv w' = w_kv w1"
        using index_vector_simps [of E key val "in_vector a" p w1] update_hot_kv [of now key val "clamp_conf conf" m3 w3] hot by simp
      with persist_grows(2) [OF hot(1) ok2 assms(2) s2(1)] s2(2) show ?thesis by (fastforce simp: kv_valid_def)
    qed simp_all
  qed simp
qed simp_all

section \<open>Properties\<close>

text \<open>A sequence of writes, each at its own time and with its own result.\<close>

inductive wp_reach :: "('g, 'v, 'r) wp_env \<Rightarrow> ('g, 'v) wp \<Rightarrow> ('g, 'v) wp \<Rightarrow> bool" for E w0 where
  reach_start: "wp_reach E w0 w0"
| reach_write: "wp_reach E w0 w \<Longrightarrow> in_reason a \<noteq> ''delete'' \<Longrightarrow> wp_reach E w0 (fst (wp_write E now a w))"

text \<open>
  C3: The choke point: whatever sequence of writes goes through the write path, none with the word \<open>delete\<close> as its reason, and however
  each of them ends (accepted, rejected, or raised and compensated, with a graph and a vector index that may fail at any call), a store
  that was valid keeps passing the deep verification of its ledger, and the hot buffer keeps its bound, one entry for a key, and
  confidences between 0 and 1. The reason of a call is free text; a write that gives \<open>delete\<close> does break the deep verification
  (\<open>delete_as_reason_breaks_verification\<close>).
\<close>

theorem write_path_invariant:
  assumes "wp_reach E w0 w" "\<forall>s. w_kv w0 = Some s \<longrightarrow> kv_valid (we_fr E) s" "hot_inv n ttl (w_hot w0)"
  shows "(\<forall>s. w_kv w = Some s \<longrightarrow> kv_valid (we_fr E) s) \<and> hot_inv n ttl (w_hot w)"
proof -
  from assms(1) have "wp_ok E n ttl w"
    by induction (use assms(2,3) in \<open>simp_all add: wp_ok_def store_ok_def wp_ok_write [unfolded wp_ok_def store_ok_def]\<close>)
  then show ?thesis by (simp add: wp_ok_def store_ok_def)
qed

fun is_rejection :: "response \<Rightarrow> bool" where
  "is_rejection (RejectedTurn _) = True"
| "is_rejection (RejectedUngrounded _ _) = True"
| "is_rejection (RejectedConflict _ _) = True"
| "is_rejection _ = False"

lemma commit_write_answers: "snd (commit_write E now key val c m rs vec r items w) = Inr x \<Longrightarrow> \<exists>p v n. x = Written key p r v n"
  by (auto simp: commit_write_def Let_def case_prod_beta split: sum.split_asm prod.split_asm)

text \<open>
  C11: A refused write leaves no trace: a conversational turn, an ungrounded key or a write that the arbiter blocks changes neither
  store, graph, vector index, hot buffer nor replay log.
\<close>

theorem rejected_writes_change_nothing:
  assumes "wp_write E now a w = (w', Inr x)" "is_rejection x"
  shows "w_kv w' = w_kv w \<and> w_graph w' = w_graph w \<and> w_vector w' = w_vector w \<and> w_hot w' = w_hot w \<and> w_audit w' = w_audit w"
  using assms(1)
proof (cases rule: wp_write_cases)
  case (replay key val conf m b)
  with assms(2) show ?thesis using replay_no_op_cases [OF replay] by auto
next
  case (arbitrated key val conf m0 m rp)
  note r = arbitrated(3) [unfolded saga_step_def]
  from r show ?thesis
  proof (cases rule: arbitrated_write_cases)
    case (commit r)
    with commit_write_answers [of E now key val "clamp_conf conf"] assms(2) show ?thesis by (metis is_rejection.simps(5) snd_conv)
  qed (simp_all add: wp_simps)
qed simp_all

section \<open>A small world\<close>

text \<open>A graph that is a list of edges and may be down, a vector index that does nothing, and empty stores.\<close>

definition toy_graph :: "bool \<Rightarrow> (string \<times> string \<times> string) list graph_api" where
  "toy_graph down = \<lparr>ga_add = (\<lambda>s p ob c kw g. if down then (g, Inl (GraphError ''down'')) else ((s, p, ob) # g, Inr ())),
     ga_remove = (\<lambda>s p ob g. removeAll (s, p, ob) g), ga_extract = (\<lambda>s t g. (g, Inr 0)), ga_dual = None\<rparr>"

definition toy_env :: "bool \<Rightarrow> ((string \<times> string \<times> string) list, unit, unit) wp_env" where
  "toy_env down = \<lparr>we_arb = toy_arb_env, we_ling = bare_ling, we_fr = rat_text, we_fp = (\<lambda>_. 0), we_fts = (\<lambda>_ _ _. None),
     we_int = (\<lambda>_. None), we_iso = (\<lambda>_. []), we_order = (\<lambda>_. []), we_graph = toy_graph down,
     we_vector = \<lparr>va_insert = (\<lambda>_ _ _ v. (v, True)), va_delete = (\<lambda>_ v. (v, True))\<rparr>\<rparr>"

definition toy_wp :: "((string \<times> string \<times> string) list, unit) wp" where
  "toy_wp = \<lparr>w_kv = Some new_kv, w_graph = None, w_hot = new_hot_buffer 5 900, w_arbiter = toy_arbiter, w_vector = None,
     w_touched = [], w_audit = []\<rparr>"

definition toy_args :: "string \<Rightarrow> unit write_args" where
  "toy_args v = \<lparr>in_key = KeyValue (VStr ''svc:port''), in_value = VStr v, in_conf = FNum 1, in_meta = [], in_source = [],
     in_reason = ''write_path'', in_session = None, in_vector = None, in_replay_at = VNone, in_replay = False\<rparr>"

lemma toy_norm: "normalize_write_input (toy_env d) (toy_args v) = Inr (''svc:port'', VStr v, FNum 1, [], VNone)"
proof -
  have "py_strip ''svc:port'' = ''svc:port''" by code_simp
  then show ?thesis by (simp add: normalize_write_input_def toy_args_def py_or_def stamp_replay_def)
qed

lemma toy_hot: "hot_inv 5 900 (w_hot toy_wp)"
  by (simp add: toy_wp_def hot_inv_def new_hot_buffer_def)

theorem write_path_invariant_witness:
  "pred_option (kv_valid rat_text) (w_kv (fst (wp_write (toy_env True) 0 (toy_args ''80'') toy_wp)))
   \<and> hot_inv 5 900 (w_hot (fst (wp_write (toy_env True) 0 (toy_args ''80'') toy_wp)))"
proof -
  have "wp_reach (toy_env True) toy_wp (fst (wp_write (toy_env True) 0 (toy_args ''80'') toy_wp))"
    by (rule reach_write [OF reach_start]) (simp add: toy_args_def)
  moreover have "\<forall>s. w_kv toy_wp = Some s \<longrightarrow> kv_valid (we_fr (toy_env True)) s" by (simp add: toy_wp_def new_kv_valid)
  ultimately have "(\<forall>s. w_kv (fst (wp_write (toy_env True) 0 (toy_args ''80'') toy_wp)) = Some s \<longrightarrow> kv_valid (we_fr (toy_env True)) s)
      \<and> hot_inv 5 900 (w_hot (fst (wp_write (toy_env True) 0 (toy_args ''80'') toy_wp)))"
    by (rule write_path_invariant [OF _ _ toy_hot])
  moreover have "we_fr (toy_env True) = rat_text" by (simp add: toy_env_def)
  ultimately show ?thesis by (simp add: option.pred_set)
qed

lemma toy_question: "wp_write (toy_env d) 0 (toy_args ''?'') toy_wp = (toy_wp, Inr (RejectedTurn ''svc:port''))"
  by (simp add: wp_write_def toy_norm classify_speech_act_def py_or_def case_prod_beta)

theorem rejected_writes_change_nothing_witness:
  "w_kv (fst (wp_write (toy_env False) 0 (toy_args ''?'') toy_wp)) = Some new_kv"
proof -
  have "wp_write (toy_env False) 0 (toy_args ''?'') toy_wp =
      (fst (wp_write (toy_env False) 0 (toy_args ''?'') toy_wp), Inr (RejectedTurn ''svc:port''))" by (simp add: toy_question)
  from rejected_writes_change_nothing [OF this] have "w_kv (fst (wp_write (toy_env False) 0 (toy_args ''?'') toy_wp)) = w_kv toy_wp"
    by simp
  also have "\<dots> = Some new_kv" by (simp add: toy_wp_def)
  finally show ?thesis .
qed

text \<open>
  C26: An accepted write is there, if its reason is not the word \<open>delete\<close>, the store verified before (or there is none) and the hot
  buffer has room for one entry: under the key and with the value of the input, the store holds the printed value with the clamped
  confidence, verifies, and has no savepoint left open; the newest entry of the hot buffer is the same record.
\<close>

theorem accepted_write_is_stored:
  assumes "wp_write E now a w = (w', Inr (Written key p r v n))" "in_reason a \<noteq> ''delete''"
    and "\<forall>s. w_kv w = Some s \<longrightarrow> kv_valid (we_fr E) s" "hot_inv k ttl (w_hot w)" "0 < k"
  shows "\<exists>val conf m rp. normalize_write_input E a = Inr (key, val, conf, m, rp)
    \<and> p = (w_kv w \<noteq> None)
    \<and> (\<forall>s. w_kv w = Some s \<longrightarrow> (\<exists>s' row. w_kv w' = Some s' \<and> kv_valid (we_fr E) s' \<and> savepoints s' = savepoints s
        \<and> dget (state_vars (kdb s')) key = Some row \<and> s_value row = json_dumps (we_fr E) val \<and> s_confidence row = clamp_conf conf))
    \<and> buffer (w_hot w') \<noteq> [] \<and> e_key (last (buffer (w_hot w'))) = key \<and> e_value (last (buffer (w_hot w'))) = val
    \<and> e_confidence (last (buffer (w_hot w'))) = clamp_conf conf"
  using assms(1)
proof (cases rule: wp_write_cases)
  case (replay key' val conf m b)
  with replay_no_op_cases [OF replay] show ?thesis by auto
next
  case (arbitrated key' val conf m0 m rp)
  have ok: "wp_ok E k ttl (touch_session (in_session a) key' w)"
    using assms(3,4) by (intro wp_ok_touch) (simp add: wp_ok_def store_ok_def)
  let ?w = "touch_session (in_session a) key' w"
  from arbitrated(3) [unfolded saga_step_def] obtain r' items where
    c: "commit_write E now key' val (clamp_conf conf) (write_meta a (clamp_conf conf) m) (in_reason a) (in_vector a) r' items ?w
      = (w', Inr (Written key p r v n))"
    by (cases rule: arbitrated_write_cases) auto
  from c ok show ?thesis
  proof (cases rule: commit_write_cases)
    case (saga w2 m3 u old)
    from saga(10) have key: "key' = key" by auto
    from saga(1) have run: "run_saga E now key' val (clamp_conf conf) m3 (in_reason a) (in_vector a) u w2 = (w', Inr (p, n))" by simp
    note d = run_saga_done [OF run saga(3) assms(2,5)]
    have kv: "w_kv ?w = w_kv w" by (simp add: wp_simps)
    have p: "p = (w_kv w \<noteq> None)" using d(1) saga(2) kv by (cases "w_kv w"; cases "w_kv w2") (auto simp: kv_frames_def)
    have s: "\<exists>s' row. w_kv w' = Some s' \<and> kv_valid (we_fr E) s' \<and> savepoints s' = savepoints s
        \<and> dget (state_vars (kdb s')) key = Some row \<and> s_value row = json_dumps (we_fr E) val \<and> s_confidence row = clamp_conf conf"
      if "w_kv w = Some s" for s
    proof -
      from that saga(2) kv obtain s2 where s2: "w_kv w2 = Some s2" "savepoints s2 = savepoints s"
        by (cases "w_kv w2") (auto simp: kv_frames_def kv_frame_def)
      from d(3) [OF s2(1)] s2(2) key show ?thesis by (auto simp: clamp_conf_idem simp del: clamp_conf.simps)
    qed
    show ?thesis using arbitrated(1) p s d(2) key by blast
  qed simp
qed simp_all

lemma run_saga_plain:
  assumes "w_graph w = None" "w_vector w = None" "w_kv w = Some s" "kv_valid (we_fr E) s" "rs \<noteq> ''delete''"
    and "dget_default m ''source_type'' (VStr ''user_explicit'') = VStr st" "0 \<le> c" "c \<le> 1"
  shows "\<exists>w'. run_saga E now key val c m rs vec u w = (w', Inr (True, 0))"
proof -
  obtain s2 where p: "persist E now key val c m rs w = (w\<lparr>w_kv := Some s2\<rparr>, Inr (True, True))"
    by (rule persist_valid [OF assms(4,3,5)])
  obtain b r where u: "update now key val c m st None (w_hot w) = (b, r)" by fastforce
  with assms(7,8) have "\<exists>e. r = Inr e" by (auto simp: update_def Let_def make_entry_def)
  with u obtain e where "update now key val c m st None (w_hot w) = (b, Inr e)" by blast
  then have "run_saga E now key val c m rs vec u w =
      (release_saga True (w\<lparr>w_kv := Some s2, w_hot := b\<rparr>), Inr (True, 0))"
    using assms(1,2,6) p by (simp add: run_saga_def index_vector_def update_hot_def insert_graph_def)
  then show ?thesis by blast
qed

lemma toy_gates:
  "classify_speech_act bare_ling ''svc:port'' [] ''80'' = EpistemicAssertion"
  "py_strip ''svc:port'' = ''svc:port''" "1 < py_len (py_split CHR '':'' ''svc:port'' ! 0)"
  "contains_str (lower_pl ''svc:port'') ''conflict'' = False"
  by code_simp+

text \<open>A write of the small world up to its saga, without metadata or with a source type that is no text.\<close>

definition toy_input :: "meta \<Rightarrow> unit write_args" where
  "toy_input mi = (toy_args ''80'')\<lparr>in_meta := mi\<rparr>"

definition bad_meta :: meta where
  "bad_meta = [(''source_type'', VInt 5)]"

definition toy_meta :: "meta \<Rightarrow> meta" where
  "toy_meta mi = write_meta (toy_input mi) 1 (mi @ [(''speech_act'', VStr ''epistemic_assertion'')])"

abbreviation toy_touched :: "((string \<times> string \<times> string) list, unit) wp" where
  "toy_touched \<equiv> touch_session None ''svc:port'' toy_wp"

lemma toy_steps:
  assumes "mi = [] \<or> mi = bad_meta"
  shows "wp_write (toy_env d) 0 (toy_input mi) toy_wp =
    (case run_saga (toy_env d) 0 ''svc:port'' (VStr ''80'') 1 (toy_meta mi) ''write_path'' None
        (new_undo (toy_env d) ''svc:port'' (arb_accept (toy_meta mi)) [] (toy_meta mi) toy_touched) toy_touched of
       (w', Inl e) \<Rightarrow> (w', Inl e)
     | (w', Inr (p, n)) \<Rightarrow> (w', Inr (Written ''svc:port'' p (arb_accept (toy_meta mi))
         (dget_default (toy_meta mi) ''revision_count'' (VInt 0)) n)))"
proof -
  let ?E = "toy_env d"
  let ?m = "toy_meta mi"
  have m: "\<not> has_conflict_marker ''svc:port'' ?m" "meta_get ?m ''supersedes'' = VNone"
    using assms by (auto simp: toy_meta_def bad_meta_def write_meta_def toy_input_def toy_args_def dget_default_def has_conflict_marker_def
        toy_gates(4) meta_flag_def meta_get_def)
  have w: "w_kv toy_touched = Some new_kv" "w_hot toy_touched = new_hot_buffer 5 900"
    by (simp_all add: wp_simps toy_wp_def)
  have items: "existing_items ?E 0 ''svc:port'' (VStr ''80'') ?m None toy_touched = []"
    by (simp add: existing_items_def w stored_items_def m(2) get_arbitration_candidates_sync_def arbitration_candidates_empty
        toy_env_def new_kv_def empty_db_def new_hot_buffer_def get_active_def)
  have r: "arbitrate (we_arb ?E) (w_arbiter toy_touched) ''svc:port'' (VStr ''80'') 1 ?m [] = Inr (arb_accept ?m)"
    using m(1) by (simp add: arbitrate_def generate_candidates_def by_score_def)
  have g: "fst (is_lexically_grounded_entity rp ''svc:port'' (VStr ''80'') x)" for rp x
    using toy_gates(2,3) by (simp add: is_lexically_grounded_entity_def)
  have norm: "normalize_write_input ?E (toy_input mi) = Inr (''svc:port'', VStr ''80'', FNum 1, mi, VNone)"
    using toy_gates(2) by (simp add: normalize_write_input_def toy_input_def toy_args_def py_or_def stamp_replay_def)
  have sa: "''speech_act'' \<notin> set (dkeys mi)" "dset ''speech_act'' (VStr ''epistemic_assertion'') mi
      = mi @ [(''speech_act'', VStr ''epistemic_assertion'')]" "meta_get mi ''predicate'' = VNone"
    using assms by (auto simp: bad_meta_def meta_get_def dget_default_def)
  have sel: "we_ling ?E = bare_ling" "w_graph toy_wp = None" "in_reason (toy_input mi) = ''write_path''"
      "in_session (toy_input mi) = None" "in_vector (toy_input mi) = None"
    by (simp_all add: toy_env_def toy_wp_def toy_input_def toy_args_def)
  have accepted: "conflict_meta ?E (arb_accept ?m) ?m = ?m" "supersede ?E 0 ''svc:port'' 1 (arb_accept ?m) [] ?m v = (v, ?m, None)"
      "track_revision ?E ''svc:port'' (VStr ''80'') 1 [] ?m v = (v, Inr ?m)"
      "(new_undo ?E ''svc:port'' (arb_accept ?m) [] ?m v)\<lparr>u_old := None\<rparr> = new_undo ?E ''svc:port'' (arb_accept ?m) [] ?m v" for v
    by (simp_all add: conflict_meta_def arb_accept_def supersede_def track_revision_def new_undo_def)
  have "wp_write ?E 0 (toy_input mi) toy_wp =
      arbitrated_write ?E 0 ''svc:port'' (VStr ''80'') 1 ?m ''write_path'' None None toy_touched"
    using g toy_gates(1) sel sa
    by (simp add: wp_write_def norm case_prod_beta py_or_def replay_no_op_def toy_meta_def Let_def)
  also have "\<dots> = commit_write ?E 0 ''svc:port'' (VStr ''80'') 1 ?m ''write_path'' None (arb_accept ?m) [] toy_touched"
    using r by (simp add: arbitrated_write_def items is_blocked_def arb_accept_def)
  also have "\<dots> = (case run_saga ?E 0 ''svc:port'' (VStr ''80'') 1 ?m ''write_path'' None
        (new_undo ?E ''svc:port'' (arb_accept ?m) [] ?m toy_touched) toy_touched of
       (w', Inl e) \<Rightarrow> (w', Inl e)
     | (w', Inr (p, n)) \<Rightarrow> (w', Inr (Written ''svc:port'' p (arb_accept ?m) (dget_default ?m ''revision_count'' (VInt 0)) n)))"
    by (simp add: commit_write_def accepted Let_def)
  finally show ?thesis .
qed

lemma toy_source: "dget_default (toy_meta []) ''source_type'' (VStr ''user_explicit'') = VStr ''user_explicit''"
  "dget_default (toy_meta bad_meta) ''source_type'' (VStr ''user_explicit'') = VInt 5"
  by (simp_all add: toy_meta_def bad_meta_def write_meta_def toy_input_def toy_args_def dget_default_def)

lemma toy_write: "\<exists>w' r v. wp_write (toy_env d) 0 (toy_args ''80'') toy_wp = (w', Inr (Written ''svc:port'' True r v 0))"
proof -
  have w: "w_kv toy_touched = Some new_kv" "w_graph toy_touched = None" "w_vector toy_touched = None"
    by (simp_all add: wp_simps toy_wp_def)
  have "toy_input [] = toy_args ''80''" by (simp add: toy_input_def toy_args_def)
  obtain w' where "run_saga (toy_env d) 0 ''svc:port'' (VStr ''80'') 1 (toy_meta []) ''write_path'' None
      (new_undo (toy_env d) ''svc:port'' (arb_accept (toy_meta [])) [] (toy_meta []) toy_touched) toy_touched = (w', Inr (True, 0))"
    using run_saga_plain [OF w(2,3,1) new_kv_valid, where rs = "''write_path''" and m = "toy_meta []" and st = "''user_explicit''" and c = 1]
      toy_source(1) by force
  with toy_steps [of "[]" d] \<open>toy_input [] = _\<close> show ?thesis by simp
qed

theorem accepted_write_is_stored_witness:
  "\<exists>s' row. w_kv (fst (wp_write (toy_env False) 0 (toy_args ''80'') toy_wp)) = Some s' \<and> kv_valid rat_text s' \<and> savepoints s' = []
    \<and> dget (state_vars (kdb s')) ''svc:port'' = Some row \<and> s_value row = json_dumps rat_text (VStr ''80'')"
proof -
  obtain w' r v where "wp_write (toy_env False) 0 (toy_args ''80'') toy_wp = (w', Inr (Written ''svc:port'' True r v 0))"
    using toy_write by blast
  note t = accepted_write_is_stored [OF this _ _ toy_hot]
  have "w_kv toy_wp = Some new_kv" "savepoints new_kv = []" "we_fr (toy_env False) = rat_text" "in_reason (toy_args ''80'') \<noteq> ''delete''"
    by (simp_all add: toy_wp_def new_kv_def toy_env_def toy_args_def)
  with t new_kv_valid [of rat_text] toy_norm [of False "''80''"]
  show ?thesis using \<open>wp_write _ _ _ _ = _\<close> by fastforce
qed

text \<open>
  C4: A failed write is undone: when the vector index or the graph fails during a write that revises nothing, the tables of the store,
  ledger included, its tip and its stack of savepoints are those of before the write, and so are the entries of the key in the
  hot buffer.
\<close>

theorem failed_write_is_undone:
  assumes "commit_write E now key val c m rs vec r items w = (w', Inl e)" "e = VectorFailure \<or> (\<exists>x. e = GraphFailure x)"
    and "\<not> r_is_revision r" "rs \<noteq> ''delete''" "\<forall>s. w_kv w = Some s \<longrightarrow> kv_valid (we_fr E) s" "hot_inv k ttl (w_hot w)" "0 < k"
  shows "rel_option same_store (w_kv w) (w_kv w') \<and> entries_of key (w_hot w') = entries_of key (w_hot w)"
proof -
  have ok: "wp_ok E k ttl w" using assms(5,6) by (simp add: wp_ok_def store_ok_def)
  from assms(1) ok show ?thesis
  proof (cases rule: commit_write_cases)
    case (saga w2 m3 u old)
    from saga(9) [OF assms(3)] have f: "w_kv w2 = w_kv w" "w_hot w2 = w_hot w" "old = None" "u_hot_old u = None" by simp_all
    from saga(1) have run: "run_saga E now key val c m3 rs vec u w2 = (w', Inl e)" by simp
    from run_saga_undone [OF run saga(3) assms(4,7) _ f(4) saga(5) _ assms(2)] saga(4,8) f show ?thesis by simp
  qed (use assms(2) in auto)
qed

section \<open>A world whose graph is down\<close>

definition toy_down :: "((string \<times> string \<times> string) list, unit) wp" where
  "toy_down = toy_wp\<lparr>w_graph := Some []\<rparr>"

lemma toy_texts:
  "symbolic_chain ''ab:cd'' = None" "py_strip ''ab:cd'' = ''ab:cd''" "py_len (py_strip ''ab:cd'') < 64"
  "refused_relation rp ''svc:port'' ''relates_to'' ''ab:cd'' = False"
proof -
  have "fst (is_lexically_grounded_entity rp s VNone [])" if "s = ''svc:port'' \<or> s = ''ab:cd''" for s
  proof -
    have "py_strip s = s" "1 < py_len (py_split CHR '':'' s ! 0)" using that by (elim disjE; simp; code_simp)+
    moreover have "list_ex (\<lambda>c. c \<in> set '':/.'') s" "s \<noteq> []" using that by auto
    ultimately show ?thesis by (simp add: is_lexically_grounded_entity_def)
  qed
  moreover have "lower_pl (py_strip ''relates_to'') \<notin> set prose_predicates" "\<not> is_prose_object ''ab:cd''" by code_simp+
  moreover have "\<not> is_pii_entity ''svc:port''" "\<not> is_pii_entity ''relates_to''" "\<not> is_pii_entity ''ab:cd''"
    "py_strip ''svc:port'' \<noteq> py_strip ''ab:cd''" by code_simp+
  ultimately show "refused_relation rp ''svc:port'' ''relates_to'' ''ab:cd'' = False"
    by (simp add: refused_relation_def)
qed (code_simp+)

lemma toy_edges:
  assumes "meta_get m ''subject'' = VNone" "meta_get m ''predicate'' = VNone" "meta_get m ''relation'' = VNone"
  shows "auto_insert_graph_edges (toy_env True) 0 ''svc:port'' (VStr ''ab:cd'') m c g = (g, [], Inl (GraphError ''down''))"
proof -
  have "plan_edges (toy_env True) ''svc:port'' (VStr ''ab:cd'') m = Edges [(''svc:port'', ''relates_to'', ''ab:cd'')]"
    using assms toy_texts(1-3) by (simp add: plan_edges_def plan_text_def py_or_def)
  then show ?thesis
    using toy_texts(4) by (simp add: auto_insert_graph_edges_def commit_edge_def add_with_fallback_def)
       (simp add: toy_env_def toy_graph_def)
qed

lemma run_saga_graph_down:
  assumes "w_vector w = None" "w_kv w = Some s" "kv_valid (we_fr E) s" "rs \<noteq> ''delete''" "w_graph w = Some g"
    and "dget_default m ''source_type'' (VStr ''user_explicit'') = VStr st" "0 \<le> c" "c \<le> 1"
    and "auto_insert_graph_edges E now key val m c g = (g', ins, Inl x)"
  shows "\<exists>w'. run_saga E now key val c m rs vec u w = (w', Inl (GraphFailure x))"
proof -
  obtain s2 where p: "persist E now key val c m rs w = (w\<lparr>w_kv := Some s2\<rparr>, Inr (True, True))"
    by (rule persist_valid [OF assms(3,2,4)])
  obtain b r where u: "update now key val c m st None (w_hot w) = (b, r)" by fastforce
  with assms(7,8) have "\<exists>e. r = Inr e" by (auto simp: update_def Let_def make_entry_def)
  with u obtain e where "update now key val c m st None (w_hot w) = (b, Inr e)" by blast
  with assms(1,5,6,9) p show ?thesis
    by (simp add: run_saga_def index_vector_def update_hot_def insert_graph_def)
qed

definition toy_revision :: arb_result where
  "toy_revision = (arb_accept [])\<lparr>r_is_revision := True, r_superseded := Some ''svc:port''\<rparr>"

definition toy_commit :: "arb_result \<Rightarrow> (string, meta) dict \<Rightarrow>
    ((string \<times> string \<times> string) list, unit) wp \<times> (write_error + response)" where
  "toy_commit r items =
     commit_write (toy_env True) 0 ''svc:port'' (VStr ''ab:cd'') 1 [] ''write_path'' None r items toy_down"

lemma toy_down_simps: "w_kv toy_down = Some new_kv" "w_graph toy_down = Some []" "w_vector toy_down = None" "w_hot toy_down = w_hot toy_wp"
  by (simp_all add: toy_down_def toy_wp_def)

lemma toy_fails: "\<exists>w'. toy_commit (arb_accept []) [] = (w', Inl (GraphFailure (GraphError ''down'')))"
proof -
  have k: "kv_valid (we_fr (toy_env True)) new_kv" by (simp add: new_kv_valid)
  have e: "auto_insert_graph_edges (toy_env True) 0 ''svc:port'' (VStr ''ab:cd'') [] 1 [] = ([], [], Inl (GraphError ''down''))"
    by (rule toy_edges) (simp_all add: meta_get_def dget_default_def)
  obtain w' where "run_saga (toy_env True) 0 ''svc:port'' (VStr ''ab:cd'') 1 [] ''write_path'' None
      (new_undo (toy_env True) ''svc:port'' (arb_accept []) [] [] toy_down) toy_down = (w', Inl (GraphFailure (GraphError ''down'')))"
    using run_saga_graph_down [OF toy_down_simps(3,1) k _ toy_down_simps(2) _ _ _ e, of "''write_path''" "''user_explicit''"]
    by (force simp: dget_default_def)
  then show ?thesis
    by (simp add: toy_commit_def commit_write_def conflict_meta_def arb_accept_def supersede_def track_revision_def new_undo_def)
qed

theorem failed_write_is_undone_witness:
  "rel_option same_store (Some new_kv) (w_kv (fst (toy_commit (arb_accept []) [])))"
proof -
  obtain w' where w': "toy_commit (arb_accept []) [] = (w', Inl (GraphFailure (GraphError ''down'')))" using toy_fails by blast
  from failed_write_is_undone [OF w' [unfolded toy_commit_def], of 5 900] toy_hot new_kv_valid w'
  show ?thesis by (simp add: toy_down_simps arb_accept_def)
qed

text \<open>
  C36: When the graph fails during a write that revises the record of its own key, the compensation brings the old value back as
  retired: the stored record keeps the mark of having been superseded by itself.
\<close>

theorem graph_failure_retires_revised_record:
  assumes "commit_write E now key val c m rs vec r items w = (w', Inl (GraphFailure x))"
    and "r_is_revision r" "r_superseded r = Some key" "key \<noteq> []" "dget items key = Some it"
    and "w_kv w = Some s" "kv_valid (we_fr E) s" "rs \<noteq> ''delete''"
  shows "\<exists>s' row. w_kv w' = Some s' \<and> dget (state_vars (kdb s')) key = Some row
    \<and> s_value row = json_dumps (we_fr E) (dget_default it ''value'' (VStr []))
    \<and> s_metadata row = Some (json_dumps (we_fr E) (VDict (mark_old now key (item_meta it))))"
proof -
  define m1 where "m1 = conflict_meta E r m"
  obtain w1 m2 old where sup: "supersede E now key c r items m1 w = (w1, m2, old)" by (metis prod_cases3)
  obtain w2 y where t: "track_revision E key val c items m2 w1 = (w2, y)" by fastforce
  from assms(1) sup t obtain m3 where y: "y = Inr m3"
    by (auto simp: commit_write_def m1_def [symmetric] track_revision_def Let_def split: sum.split_asm option.split_asm if_split_asm)
  have old: "old_key_of E r m1 key = key" using assms(3,4) by (simp add: old_key_of_def Let_def)
  have w1: "old = Some (key, it)" "w_kv w1 = w_kv (try_set E now key (dget_default it ''value'' (VStr [])) (item_conf it)
      (mark_old now key (item_meta it)) ''superseded_by_belief_revision'' w)"
    using sup assms(2,5) by (auto simp: supersede_def old Let_def)
  have w2: "w_kv w2 = w_kv w1" using track_revision_simps(1) [of E key val c items m2 w1] t by simp
  obtain s1 row where s1: "w_kv w1 = Some s1" "kv_valid (we_fr E) s1" "dget (state_vars (kdb s1)) key = Some row"
      "s_value row = json_dumps (we_fr E) (dget_default it ''value'' (VStr []))"
      "s_metadata row = Some (json_dumps (we_fr E) (VDict (mark_old now key (item_meta it))))"
    using set_sync_valid [OF assms(7), of "''superseded_by_belief_revision''" now key "dget_default it ''value'' (VStr [])"
        "item_conf it" "mark_old now key (item_meta it)" None] w1(2) assms(6)
    by (auto simp: wp_simps ttl_meta_def)
  define u where "u = (new_undo E key r items m1 w)\<lparr>u_old := old\<rparr>"
  obtain w3 z where run: "run_saga E now key val c m3 rs vec u w2 = (w3, z)" by fastforce
  with assms(1) sup t y have "w3 = w'" "z = Inl (GraphFailure x)"
    by (auto simp: commit_write_def m1_def [symmetric] u_def [symmetric] split: sum.split_asm)
  with run have run: "run_saga E now key val c m3 rs vec u w2 = (w', Inl (GraphFailure x))" by simp
  have "store_ok E w2" using s1 w2 by (simp add: store_ok_def)
  from graph_failure_store [OF run this assms(8)] w1(1) have "rel_option same_store (w_kv w2) (w_kv w')"
    by (simp add: u_def new_undo_def)
  with s1 w2 show ?thesis by (cases "w_kv w'") (auto simp: same_store_def)
qed

lemma toy_fails_revision:
  "\<exists>w'. toy_commit toy_revision [(''svc:port'', [(''value'', VStr ''80'')])] = (w', Inl (GraphFailure (GraphError ''down'')))"
proof -
  let ?E = "toy_env True"
  let ?items = "[(''svc:port'', [(''value'', VStr ''80'')])] :: (string, meta) dict"
  obtain w1 m2 old where sup: "supersede ?E 0 ''svc:port'' 1 toy_revision ?items [] toy_down = (w1, m2, old)" by (metis prod_cases3)
  have "store_ok ?E toy_down" by (simp add: store_ok_def toy_down_simps new_kv_valid)
  from store_ok_supersede [OF this] sup have ok: "store_ok ?E w1" by (metis fst_conv)
  have key: "old_key_of ?E toy_revision [] ''svc:port'' = ''svc:port''" by (simp add: old_key_of_def toy_revision_def Let_def)
  have rev: "r_is_revision toy_revision" by (simp add: toy_revision_def)
  from sup have w1: "w_graph w1 = Some []" "w_vector w1 = None" "\<exists>s. w_kv w1 = Some s"
      "m2 = [(''is_belief_revision'', VBool True), (''superseded_key'', VStr ''svc:port'')]"
    by (auto simp: supersede_def key rev toy_down_simps wp_simps Let_def)
  then obtain s where s: "w_kv w1 = Some s" by blast
  with ok have k: "kv_valid (we_fr ?E) s" by (simp add: store_ok_def)
  let ?m = "dset ''revision_count'' (VInt 1) (dset ''prior_value'' (VStr ''80'') m2)"
  have t: "\<exists>w2. track_revision ?E ''svc:port'' (VStr ''ab:cd'') 1 ?items m2 w1 = (w2, Inr ?m) \<and> w_graph w2 = Some []
      \<and> w_vector w2 = None \<and> w_kv w2 = Some s"
    using w1 s by (simp add: track_revision_def item_meta_def dget_default_def version_edges_def)
      (simp add: toy_env_def toy_graph_def)
  then obtain w2 where w2: "track_revision ?E ''svc:port'' (VStr ''ab:cd'') 1 ?items m2 w1 = (w2, Inr ?m)" "w_graph w2 = Some []"
      "w_vector w2 = None" "w_kv w2 = Some s" by blast
  have e: "auto_insert_graph_edges ?E 0 ''svc:port'' (VStr ''ab:cd'') ?m 1 [] = ([], [], Inl (GraphError ''down''))"
    by (rule toy_edges) (simp_all add: w1 meta_get_def dget_default_def)
  from run_saga_graph_down [OF w2(3,4) k _ w2(2) _ _ _ e, of "''write_path''" "''user_explicit''" None
      "(new_undo ?E ''svc:port'' toy_revision ?items [] toy_down)\<lparr>u_old := old\<rparr>"]
  show ?thesis using sup w2(1)
    by (auto simp: toy_commit_def commit_write_def conflict_meta_def toy_revision_def arb_accept_def dget_default_def w1(4))
qed

theorem graph_failure_retires_revised_record_witness:
  "\<exists>s' row. w_kv (fst (toy_commit toy_revision [(''svc:port'', [(''value'', VStr ''80'')])])) = Some s'
    \<and> dget (state_vars (kdb s')) ''svc:port'' = Some row \<and> s_value row = json_dumps rat_text (VStr ''80'')
    \<and> s_metadata row = Some (json_dumps rat_text (VDict (mark_old 0 ''svc:port'' [])))"
proof -
  obtain w' where w': "toy_commit toy_revision [(''svc:port'', [(''value'', VStr ''80'')])] = (w', Inl (GraphFailure (GraphError ''down'')))"
    using toy_fails_revision by blast
  have fr: "we_fr (toy_env True) = rat_text" by (simp add: toy_env_def)
  from graph_failure_retires_revised_record [OF w' [unfolded toy_commit_def] _ _ _ _ toy_down_simps(1) new_kv_valid] w'
  show ?thesis by (simp add: toy_revision_def item_meta_def dget_default_def fr)
qed

lemma run_saga_refused:
  assumes "w_vector w = None" "w_kv w = Some s" "kv_valid (we_fr E) s" "rs \<noteq> ''delete''"
    and "dget_default m ''source_type'' (VStr ''user_explicit'') = VInt i"
  shows "\<exists>w'. run_saga E now key val c m rs vec u w = (w', Inl (HotFailure ValidationError))"
proof -
  obtain s2 where p: "persist E now key val c m rs w = (w\<lparr>w_kv := Some s2\<rparr>, Inr (True, True))"
    by (rule persist_valid [OF assms(3,2,4)])
  with assms(1,5) show ?thesis by (simp add: run_saga_def index_vector_def update_hot_def)
qed

lemma toy_refused: "\<exists>w1. wp_write (toy_env d) 0 (toy_input bad_meta) toy_wp = (w1, Inl (HotFailure ValidationError))"
proof -
  have w: "w_kv toy_touched = Some new_kv" "w_vector toy_touched = None"
    by (simp_all add: wp_simps toy_wp_def)
  obtain w' where "run_saga (toy_env d) 0 ''svc:port'' (VStr ''80'') 1 (toy_meta bad_meta) ''write_path'' None
      (new_undo (toy_env d) ''svc:port'' (arb_accept (toy_meta bad_meta)) [] (toy_meta bad_meta) toy_touched) toy_touched
      = (w', Inl (HotFailure ValidationError))"
    using run_saga_refused [OF w(2,1) new_kv_valid, where rs = "''write_path''" and m = "toy_meta bad_meta" and i = 5]
      toy_source(2) by force
  with toy_steps [of bad_meta d] show ?thesis by simp
qed

text \<open>
  C35: A write whose entry the hot buffer refuses (a source type that is no text) opens the savepoint of its saga and never closes it.
  From then on nothing is durable: whatever later writes are answered, closing the store leaves the tables that closing
  it right after the failure would have left.
\<close>

theorem refused_entry_loses_later_writes:
  assumes "wp_write E now a w = (w1, Inl (HotFailure h))" "in_reason a \<noteq> ''delete''" "w_kv w = Some s" "kv_valid (we_fr E) s"
    and "hot_inv k ttl (w_hot w)" "wp_reach E w1 w2"
  shows "\<exists>s1 s2. w_kv w1 = Some s1 \<and> w_kv w2 = Some s2 \<and> tables (close_sync s2) = tables (close_sync s1)"
proof -
  have ok: "wp_ok E k ttl w" using assms(3-5) by (simp add: wp_ok_def store_ok_def)
  from wp_write_hot_failure [OF assms(1,2) ok assms(3)] obtain s1 t ps where
    s1: "w_kv w1 = Some s1" "conn_open s1" "savepoints s1 = ps @ t # savepoints s" by blast
  have ok1: "wp_ok E k ttl w1" using wp_ok_write [OF ok assms(2), of now] assms(1) by simp
  from assms(6) have "stacks_grow w1 w2 \<and> wp_ok E k ttl w2"
  proof induction
    case (reach_write w3 a' now')
    then show ?case by (auto intro: stacks_grow_trans wp_write_grows wp_ok_write)
  qed (use ok1 stacks_grow_same in auto)
  then obtain s2 qs where s2: "w_kv w2 = Some s2" "conn_open s2" "savepoints s2 = qs @ savepoints s1"
    using s1 by (cases "w_kv w2") (auto simp: stacks_grow_def stack_grows_def)
  with s1 show ?thesis by (simp add: close_sync_def)
qed

theorem refused_entry_loses_later_writes_witness:
  "\<exists>s1 s2. w_kv (fst (wp_write (toy_env False) 0 (toy_input bad_meta) toy_wp)) = Some s1
    \<and> w_kv (fst (wp_write (toy_env False) 1 (toy_args ''90'') (fst (wp_write (toy_env False) 0 (toy_input bad_meta) toy_wp)))) = Some s2
    \<and> tables (close_sync s2) = tables (close_sync s1)"
proof -
  obtain w1 where w1: "wp_write (toy_env False) 0 (toy_input bad_meta) toy_wp = (w1, Inl (HotFailure ValidationError))"
    using toy_refused by blast
  have "wp_reach (toy_env False) w1 (fst (wp_write (toy_env False) 1 (toy_args ''90'') w1))"
    by (rule reach_write [OF reach_start]) (simp add: toy_args_def)
  from refused_entry_loses_later_writes [OF w1 _ _ new_kv_valid toy_hot this] w1
  show ?thesis by (simp add: toy_input_def toy_args_def toy_wp_def)
qed

end
