(* ===== verification/Precision.thy ===== *)
theory Precision
  imports Prelude
begin

text \<open>
  \<open>cognitive/precision.py\<close>: the tensor of channel precisions, by which arbitration, packing and annealing weigh what
  a source says. A channel is the text of its \<open>EpistemicSource\<close>.
\<close>

record tensor =
  pt_alpha :: rat
  pt_sigma :: rat
  pt_precisions :: "(string, rat) dict"

definition default_precisions :: "(string, rat) dict" where
  "default_precisions = [(''user_explicit'', 5/2), (''tool_output'', 3/2), (''external_doc'', 6/5), (''agent_inference'', 1)]"

definition dict_update :: "('k, 'v) dict \<Rightarrow> ('k, 'v) dict \<Rightarrow> ('k, 'v) dict" where
  "dict_update d e = fold (\<lambda>(k, v). dset k v) e d"

definition new_tensor :: "rat \<Rightarrow> rat \<Rightarrow> (string, rat) dict option \<Rightarrow> tensor" where
  "new_tensor alpha sigma_0_sq precisions =
     \<lparr>pt_alpha = alpha, pt_sigma = sigma_0_sq,
      pt_precisions = (case precisions of None \<Rightarrow> default_precisions | Some ps \<Rightarrow> dict_update default_precisions ps)\<rparr>"

abbreviation default_tensor :: tensor where
  "default_tensor \<equiv> new_tensor (17/20) (1/25) None"

definition get_precision :: "tensor \<Rightarrow> string \<Rightarrow> rat" where
  "get_precision t ch = dget_default (pt_precisions t) ch 1"

text \<open>
  \<open>max(0.0, float(error_magnitude))\<close>: \<open>Inl\<close> for the exception of \<open>float\<close>, \<open>None\<close> for an infinite error. The maximum with a
  NaN is 0.
\<close>

fun error_size :: "float_arg \<Rightarrow> unit + rat option" where
  "error_size (FNum r) = Inr (Some (max 0 r))"
| "error_size FPosInf = Inr None"
| "error_size FNegInf = Inr (Some 0)"
| "error_size FNaN = Inr (Some 0)"
| "error_size FNone = Inl ()"
| "error_size FInvalid = Inl ()"

text \<open>\<open>1.0 / (err ** 2 + sigma_0_sq)\<close>, which raises for a zero divisor.\<close>

definition sensory_precision :: "rat \<Rightarrow> rat option \<Rightarrow> rat option" where
  "sensory_precision sigma err =
     (case err of
        None \<Rightarrow> Some 0
      | Some e \<Rightarrow> if e\<^sup>2 + sigma = 0 then None else Some (1 / (e\<^sup>2 + sigma)))"

definition clamp_precision :: "rat \<Rightarrow> rat" where
  "clamp_precision new_pi = max (1/20) (min 10 new_pi)"

definition record_sensory_observation :: "string \<Rightarrow> float_arg \<Rightarrow> tensor \<Rightarrow> tensor \<times> (unit + rat)" where
  "record_sensory_observation ch error_magnitude t =
     (case error_size error_magnitude of
        Inl _ \<Rightarrow> (t, Inl ())
      | Inr err \<Rightarrow>
          (case sensory_precision (pt_sigma t) err of
             None \<Rightarrow> (t, Inl ())
           | Some sp \<Rightarrow>
               (let new_pi = clamp_precision (pt_alpha t * get_precision t ch + (1 - pt_alpha t) * sp)
                in (t\<lparr>pt_precisions := dset ch new_pi (pt_precisions t)\<rparr>, Inr new_pi))))"

definition compute_lambda :: "tensor \<Rightarrow> string \<Rightarrow> float_arg \<Rightarrow> rat" where
  "compute_lambda t ch confidence = get_precision t ch * clamp_conf confidence"

section \<open>Bounds\<close>

lemma clamp_precision_bounds: "1/20 \<le> clamp_precision p" "clamp_precision p \<le> 10"
  unfolding clamp_precision_def by (rule max.cobounded1) (simp add: max_def)

lemma clamp_precision_mono: "p \<le> q \<Longrightarrow> clamp_precision p \<le> clamp_precision q"
  unfolding clamp_precision_def by (intro max.mono min.mono) auto

definition precise_ok :: "tensor \<Rightarrow> bool" where
  "precise_ok t \<longleftrightarrow> (\<forall>ch. 1/20 \<le> get_precision t ch \<and> get_precision t ch \<le> 10)"

lemma default_tensor_ok: "precise_ok default_tensor"
  by (auto simp: precise_ok_def new_tensor_def default_precisions_def get_precision_def dget_default_def)

lemma get_precision_put:
  "get_precision (t\<lparr>pt_precisions := dset ch p (pt_precisions t)\<rparr>) ch' = (if ch' = ch then p else get_precision t ch')"
  by (simp add: get_precision_def dget_default_def)

lemma observation_keeps_ok: "precise_ok t \<Longrightarrow> precise_ok (fst (record_sensory_observation ch err t))"
  using clamp_precision_bounds
  by (auto simp: record_sensory_observation_def Let_def precise_ok_def get_precision_put split: sum.split option.split)

lemma observations_keep_ok:
  "precise_ok t \<Longrightarrow> precise_ok (foldl (\<lambda>t (ch, err). fst (record_sensory_observation ch err t)) t obs)"
  by (induction obs arbitrary: t) (auto intro: observation_keeps_ok)

lemma observation_is_local:
  "ch' \<noteq> ch \<Longrightarrow> get_precision (fst (record_sensory_observation ch err t)) ch' = get_precision t ch'"
  by (simp add: record_sensory_observation_def Let_def get_precision_put split: sum.split option.split)

lemma observation_returns:
  "0 < pt_sigma t \<Longrightarrow> 0 \<le> d \<Longrightarrow> snd (record_sensory_observation ch (FNum d) t)
     = Inr (clamp_precision (pt_alpha t * get_precision t ch + (1 - pt_alpha t) * (1 / (d\<^sup>2 + pt_sigma t))))"
  by (simp add: record_sensory_observation_def sensory_precision_def Let_def add_nonneg_pos [THEN less_imp_neq, symmetric])

lemma sensory_precision_antimono:
  fixes d e sigma :: rat
  assumes "0 < sigma" "0 \<le> d" "d \<le> e"
  shows "1 / (e\<^sup>2 + sigma) \<le> 1 / (d\<^sup>2 + sigma)"
proof -
  from assms have "d\<^sup>2 \<le> e\<^sup>2" by (simp add: power_mono)
  with assms show ?thesis by (intro divide_left_mono) (auto intro!: mult_pos_pos add_nonneg_pos)
qed

text \<open>
  Trust is bounded and follows the evidence: whatever errors the channels report, all precisions stay between 0.05 and
  10; an observation changes the precision of its own channel only; and of two observations the one with the greater error
  never leaves the channel more trusted.
\<close>

theorem trust_follows_evidence:
  assumes "precise_ok t" and "0 < pt_sigma t" and "pt_alpha t \<le> 1" and "0 \<le> d" and "d \<le> e"
  shows "precise_ok (foldl (\<lambda>t (ch, err). fst (record_sensory_observation ch err t)) t obs)
    \<and> (\<forall>ch' err. ch' \<noteq> ch \<longrightarrow> get_precision (fst (record_sensory_observation ch err t)) ch' = get_precision t ch')
    \<and> (\<exists>p q. snd (record_sensory_observation ch (FNum d) t) = Inr p
         \<and> snd (record_sensory_observation ch (FNum e) t) = Inr q \<and> q \<le> p)"
proof -
  have "(1 - pt_alpha t) * (1 / (e\<^sup>2 + pt_sigma t)) \<le> (1 - pt_alpha t) * (1 / (d\<^sup>2 + pt_sigma t))"
    using assms by (intro mult_left_mono sensory_precision_antimono) auto
  then show ?thesis
    using assms by (auto simp: observation_returns observation_is_local intro: observations_keep_ok clamp_precision_mono)
qed

theorem trust_follows_evidence_witness:
  "\<exists>p q. snd (record_sensory_observation ''tool_output'' (FNum 0) default_tensor) = Inr p
     \<and> snd (record_sensory_observation ''tool_output'' (FNum 1) default_tensor) = Inr q \<and> q \<le> p"
  using trust_follows_evidence [OF default_tensor_ok, of 0 1 "[]" "''tool_output''"] by (simp add: new_tensor_def)

end
