(* ===== verification/Energy.thy ===== *)
theory Energy
  imports Precision Lexicon
begin

text \<open>
  \<open>causal/energy_module.py\<close> and the edge of \<open>causal/models.py\<close>: what an edge of the causal graph costs (how badly its source
  predicted, how volatile its relation is), how critical the node it leads to is, and the energy of its confidence with the
  derivative. \<open>round(x, n)\<close> rounds half to even. All values are finite, so the guards \<open>math.isfinite\<close> have no branch.

  The sensing engine is its error history, pairs of entity and discrepancy; the risk assessor is \<open>em_volatile\<close>, \<open>None\<close> when
  it raises; the graph client is the relations it answers for a node, \<open>None\<close> when it raises.
\<close>

section \<open>Rounding\<close>

definition round_even :: "rat \<Rightarrow> int" where
  "round_even x =
     (let f = \<lfloor>x\<rfloor>; r = x - of_int f
      in if r < 1/2 then f else if 1/2 < r then f + 1 else if even f then f else f + 1)"

definition py_round :: "nat \<Rightarrow> rat \<Rightarrow> rat" where
  "py_round n x = of_int (round_even (x * 10 ^ n)) / 10 ^ n"

lemma round_even_ge: "of_int i \<le> x \<Longrightarrow> i \<le> round_even x"
  using le_floor_iff [of i x] by (auto simp: round_even_def Let_def)

lemma round_even_le: "x \<le> of_int i \<Longrightarrow> round_even x \<le> i"
proof -
  assume le: "x \<le> of_int i"
  show ?thesis
  proof (cases "\<lfloor>x\<rfloor> < i")
    case True
    then show ?thesis by (simp add: round_even_def Let_def)
  next
    case False
    then have "i \<le> \<lfloor>x\<rfloor>" by simp
    then have "of_int i \<le> x" by (simp add: le_floor_iff)
    with le have "x = of_int i" by simp
    then show ?thesis by (simp add: round_even_def)
  qed
qed

lemma py_round_unit: "0 \<le> x \<Longrightarrow> x \<le> 1 \<Longrightarrow> 0 \<le> py_round n x \<and> py_round n x \<le> 1"
  using round_even_ge [of 0 "x * 10 ^ n"] round_even_le [of "x * 10 ^ n" "10 ^ n"]
  by (auto simp: py_round_def divide_le_eq)

section \<open>Edges\<close>

record causal_edge =
  ce_source :: string
  ce_predicate :: string
  ce_target :: string
  ce_conf :: rat
  ce_impact :: string
  ce_meta :: meta

text \<open>The validation of the model: non-empty texts and a confidence in the unit interval.\<close>

definition edge_ok :: "causal_edge \<Rightarrow> bool" where
  "edge_ok e \<longleftrightarrow> ce_source e \<noteq> [] \<and> ce_predicate e \<noteq> [] \<and> ce_target e \<noteq> [] \<and> 0 \<le> ce_conf e \<and> ce_conf e \<le> 1"

definition new_edge :: "string \<Rightarrow> string \<Rightarrow> string \<Rightarrow> rat \<Rightarrow> string \<Rightarrow> causal_edge option" where
  "new_edge source predicate target confidence impact =
     (let e = \<lparr>ce_source = source, ce_predicate = predicate, ce_target = target, ce_conf = confidence,
               ce_impact = impact, ce_meta = []\<rparr>
      in if edge_ok e then Some e else None)"

definition with_conf :: "rat \<Rightarrow> causal_edge \<Rightarrow> causal_edge" where
  "with_conf w e = e\<lparr>ce_conf := w\<rparr>"

section \<open>Costs\<close>

record energy_module =
  em_sensing :: "(string \<times> rat) list option"
  em_client :: "(string \<Rightarrow> meta list option) option"
  em_penalties :: "(string, rat) dict"
  em_volatile :: "string \<Rightarrow> bool option"
  em_repr :: "pyval \<Rightarrow> string"
  em_float :: "pyval \<Rightarrow> rat option"

definition critical_predicates :: "string list" where
  "critical_predicates =
     [''depends_on'', ''relies_on'', ''hosted_on'', ''hosts'', ''powers'', ''routes_to'', ''critical_for'', ''requires'',
      ''authenticates'', ''mounts'', ''databases'']"

definition volatile_actions :: "string list" where
  "volatile_actions =
     [''restart'', ''reboot'', ''delete'', ''drop'', ''modify'', ''stop'', ''kill'', ''terminate'', ''alter'', ''truncate'',
      ''poweroff'', ''flush'', ''destroy'']"

definition common_non_volatile :: "string list" where
  "common_non_volatile =
     [''triggers'', ''depends_on'', ''relies_on'', ''hosts'', ''hosted_on'', ''powers'', ''routes_to'', ''critical_for'',
      ''requires'', ''authenticates'', ''mounts'', ''databases'', ''causes'', ''specifies'', ''leads_to'', ''stated_memory'',
      ''read'', ''query'', ''observe'', ''inspect'', ''get'', ''view'', ''check'', ''status'']"

definition clamp01 :: "rat \<Rightarrow> rat" where
  "clamp01 x = max 0 (min 1 x)"

lemma clamp01_unit: "0 \<le> clamp01 x \<and> clamp01 x \<le> 1"
  by (auto simp: clamp01_def)

definition penalty_key :: "string \<Rightarrow> string \<Rightarrow> string" where
  "penalty_key state action = state @ ''::'' @ action"

definition register_prediction_error :: "string \<Rightarrow> string \<Rightarrow> rat \<Rightarrow> energy_module \<Rightarrow> energy_module" where
  "register_prediction_error state action discrepancy_score M =
     M\<lparr>em_penalties := dset (penalty_key state action) (clamp01 discrepancy_score) (em_penalties M)\<rparr>"

definition action_is_volatile :: "energy_module \<Rightarrow> string \<Rightarrow> bool" where
  "action_is_volatile M action =
     (let act_lower = lower_pl action in
      if list_ex (contains_str act_lower) volatile_actions then True
      else if act_lower \<in> set common_non_volatile then False
      else (case em_volatile M act_lower of None \<Rightarrow> False | Some b \<Rightarrow> b))"

definition base_cost :: "energy_module \<Rightarrow> string \<Rightarrow> string \<Rightarrow> rat" where
  "base_cost M state action =
     (case dget (em_penalties M) (penalty_key state action) of
        Some p \<Rightarrow> p
      | None \<Rightarrow>
          (case em_sensing M of
             Some history \<Rightarrow>
               (let relevant = map snd (filter (\<lambda>(ent, _). ent = state) history)
                in if relevant \<noteq> [] then Max (set relevant) else 1/10)
           | None \<Rightarrow> if action_is_volatile M action then 1/2 else 1/10))"

text \<open>The cost of a confidence: a high base cost grows with it, a low one falls.\<close>

definition cost_at :: "rat \<Rightarrow> rat \<Rightarrow> rat" where
  "cost_at bc conf =
     (if 2/5 < bc then min 1 (bc * (4/5 + 2/5 * conf)) else max 0 (bc * (6/5 - 2/5 * conf)))"

definition intrinsic_cost :: "energy_module \<Rightarrow> string \<Rightarrow> string \<Rightarrow> float_arg option \<Rightarrow> rat" where
  "intrinsic_cost M state action current_confidence =
     (let bc = base_cost M state action;
          cost = (case current_confidence of None \<Rightarrow> bc | Some c \<Rightarrow> cost_at bc (clamp_conf c))
      in py_round 6 (clamp01 cost))"

section \<open>Criticality of a node\<close>

datatype edge_context = NoContext | ContextDict "(string, causal_edge list) dict" | ContextList "causal_edge list"

definition client_edge :: "energy_module \<Rightarrow> string \<Rightarrow> meta \<Rightarrow> causal_edge option" where
  "client_edge M state r =
     (case em_float M (dget_default r ''confidence'' (VFloat 1)) of
        None \<Rightarrow> None
      | Some c \<Rightarrow>
          new_edge state (py_str (em_repr M) (dget_default r ''predicate'' (VStr [])))
            (py_str (em_repr M) (dget_default r ''object'' (VStr []))) c ''dependency'')"

definition relevant_edges :: "energy_module \<Rightarrow> string \<Rightarrow> edge_context \<Rightarrow> causal_edge list" where
  "relevant_edges M state edges =
     (case edges of
        ContextDict d \<Rightarrow> dget_default d state []
      | ContextList es \<Rightarrow> filter (\<lambda>e. ce_source e = state) es
      | NoContext \<Rightarrow>
          (case em_client M of
             None \<Rightarrow> []
           | Some client \<Rightarrow>
               (case client state of
                  None \<Rightarrow> []
                | Some relations \<Rightarrow>
                    (case those (map (client_edge M state) (filter (\<lambda>r. meta_get r ''subject'' = VStr state) relations)) of
                       None \<Rightarrow> []
                     | Some es \<Rightarrow> es))))"

definition is_critical_edge :: "causal_edge \<Rightarrow> bool" where
  "is_critical_edge e \<longleftrightarrow> lower_pl (ce_predicate e) \<in> set critical_predicates \<or> ce_impact e = ''critical_dependency''"

definition known_nodes_count :: "edge_context \<Rightarrow> nat \<Rightarrow> nat" where
  "known_nodes_count edges num_outgoing =
     (case edges of ContextDict d \<Rightarrow> length d | ContextList es \<Rightarrow> length es | NoContext \<Rightarrow> max 1 num_outgoing)"

definition trainable_critic :: "energy_module \<Rightarrow> string \<Rightarrow> edge_context \<Rightarrow> rat" where
  "trainable_critic M state edges =
     (let relevant = relevant_edges M state edges in
      if relevant = [] then 0
      else
        (let num_outgoing = length relevant;
             critical_conf_sum = sum_list (map ce_conf (filter is_critical_edge relevant));
             total_conf_sum = sum_list (map ce_conf relevant);
             reachability_impact = min 1 (of_nat num_outgoing / max 1 (of_nat (known_nodes_count edges num_outgoing)));
             critical_ratio =
               (if 0 < total_conf_sum then min 1 (max 0 (critical_conf_sum / max (1/100000) total_conf_sum)) else 0);
             raw_risk = max reachability_impact (critical_ratio * min 1 (of_nat num_outgoing / 2))
         in py_round 6 (clamp01 raw_risk)))"

section \<open>Energy and gradient\<close>

text \<open>The cost of a confidence \<open>w\<close> and its derivative.\<close>

definition cost_slope :: "rat \<Rightarrow> rat \<Rightarrow> rat \<times> rat" where
  "cost_slope bc w =
     (if 2/5 < bc then
        (let raw_cost = bc * (4/5 + 2/5 * w) in (min 1 raw_cost, if raw_cost < 1 then 2/5 * bc else 0))
      else
        (let raw_cost = bc * (6/5 - 2/5 * w) in (max 0 raw_cost, if 0 < raw_cost then - (2/5) * bc else 0)))"

definition energy_of :: "rat \<Rightarrow> rat \<Rightarrow> rat \<Rightarrow> rat \<Rightarrow> rat \<times> rat" where
  "energy_of bc critic lambda_reg w =
     (let (cost, dc_dw) = cost_slope bc w;
          c_cost = clamp01 cost;
          k = 1 - critic;
          align_term = w * c_cost + (1 - w) * (1 - c_cost) * k;
          reg_term = lambda_reg * (w - 1/2)\<^sup>2;
          grad = c_cost - (1 - c_cost) * k + 2 * lambda_reg * (w - 1/2) + dc_dw * (w - (1 - w) * k)
      in (align_term + reg_term, grad))"

definition compute_edge_energy_and_gradient ::
  "energy_module \<Rightarrow> causal_edge \<Rightarrow> edge_context \<Rightarrow> rat \<Rightarrow> rat \<times> rat" where
  "compute_edge_energy_and_gradient M e edges_context lambda_reg =
     (let bc = intrinsic_cost M (ce_source e) (ce_predicate e) None;
          w = clamp_conf (FNum (ce_conf e));
          critic = trainable_critic M (ce_target e) edges_context
      in energy_of bc critic lambda_reg w)"

section \<open>Bounds and meaning\<close>

lemma intrinsic_cost_unit: "0 \<le> intrinsic_cost M s a c \<and> intrinsic_cost M s a c \<le> 1"
  unfolding intrinsic_cost_def Let_def by (intro py_round_unit) (simp_all add: clamp01_unit)

lemma trainable_critic_unit: "0 \<le> trainable_critic M s es \<and> trainable_critic M s es \<le> 1"
proof -
  have "0 \<le> py_round 6 (clamp01 x) \<and> py_round 6 (clamp01 x) \<le> 1" for x
    by (intro py_round_unit) (simp_all add: clamp01_unit)
  then show ?thesis unfolding trainable_critic_def Let_def by auto
qed

text \<open>
  The gradient that steers the annealing is the derivative of the energy it is meant to lower: between two confidences on
  the same side of the saturation of the cost, the energy is the quadratic with that slope.
\<close>

theorem gradient_is_derivative:
  assumes "0 \<le> bc" "bc \<le> 1" "0 \<le> w" "w \<le> 1" "0 \<le> v" "v \<le> 1"
    and "2/5 < bc \<Longrightarrow> bc * (4/5 + 2/5 * w) < 1 \<and> bc * (4/5 + 2/5 * v) < 1"
  shows "fst (energy_of bc critic lambda_reg v) = fst (energy_of bc critic lambda_reg w)
    + snd (energy_of bc critic lambda_reg w) * (v - w)
    + (snd (cost_slope bc w) * (2 - critic) + lambda_reg) * (v - w)\<^sup>2"
proof -
  obtain a d where lin: "cost_slope bc w = (a + d * w, d)" "cost_slope bc v = (a + d * v, d)"
    and range: "0 \<le> a + d * w" "a + d * w \<le> 1" "0 \<le> a + d * v" "a + d * v \<le> 1"
  proof (cases "2/5 < bc")
    case True
    with assms(7) have "bc * (4/5 + 2/5 * w) < 1" "bc * (4/5 + 2/5 * v) < 1" by auto
    moreover have "0 \<le> bc * (4/5 + 2/5 * w)" "0 \<le> bc * (4/5 + 2/5 * v)" using assms by auto
    ultimately show ?thesis
      using True by (intro that [of "4/5 * bc" "2/5 * bc"]) (auto simp: cost_slope_def Let_def algebra_simps)
  next
    case False
    have le: "bc * (6/5 - 2/5 * x) \<le> 1" if "0 \<le> x" for x
    proof -
      have "bc * (6/5 - 2/5 * x) \<le> bc * (6/5)" using assms(1) that by (intro mult_left_mono) auto
      also have "\<dots> \<le> 1" using False by auto
      finally show ?thesis .
    qed
    have pos: "0 \<le> bc * (6/5 - 2/5 * x)" "0 < bc * (6/5 - 2/5 * x) \<or> bc = 0" if "x \<le> 1" for x
      using assms(1) that by (auto simp: zero_less_mult_iff)
    from False pos(2) [OF assms(4)] pos(2) [OF assms(6)] pos(1) [OF assms(4)] pos(1) [OF assms(6)] le [OF assms(3)] le [OF assms(5)]
    show ?thesis
      by (intro that [of "6/5 * bc" "- (2/5) * bc"]) (auto simp: cost_slope_def Let_def algebra_simps)
  qed
  then have "clamp01 (a + d * w) = a + d * w" "clamp01 (a + d * v) = a + d * v" by (auto simp: clamp01_def)
  with lin show ?thesis
    by (simp add: energy_of_def Let_def power2_eq_square algebra_simps)
qed

text \<open>The hypotheses hold: at confidences 1/4 and 3/4 of a volatile edge whose target is half critical.\<close>

theorem gradient_is_derivative_witness:
  "fst (energy_of (1/2) (1/2) (1/10) (3/4)) = fst (energy_of (1/2) (1/2) (1/10) (1/4))
    + snd (energy_of (1/2) (1/2) (1/10) (1/4)) * (1/2)
    + (snd (cost_slope (1/2) (1/4)) * (3/2) + 1/10) * (1/4)"
  using gradient_is_derivative [of "1/2" "1/4" "3/4" "1/2" "1/10"] by (simp add: power2_eq_square)

end
