(* ===== verification/Annealer.thy ===== *)
theory Annealer
  imports Energy
begin

text \<open>
  \<open>causal/annealer.py\<close>: simulated annealing of the confidences of causal edges, in its two kernels. The reference kernel asks
  the energy module for every edge; the array kernel keeps the weights and, per node, the out-degree and the sums of weights,
  which it updates as edges change.

  \<open>math.sqrt\<close> and \<open>math.exp\<close> are parameters, and so is the generator \<open>random.Random\<close>, a state \<open>'r\<close> with its two draws. The
  infinity that the last energy starts from is \<open>None\<close>. The duration is left out, and so are the checks \<open>math.isfinite\<close>:
  every value is a number.
\<close>

record 'r random_api =
  ra_gauss :: "'r \<Rightarrow> rat \<times> 'r"
  ra_random :: "'r \<Rightarrow> rat \<times> 'r"
  ra_sqrt :: "rat \<Rightarrow> rat"
  ra_exp :: "rat \<Rightarrow> rat"

record anneal_result =
  ar_edges :: "causal_edge list"
  ar_trace :: "rat list"
  ar_iterations :: nat
  ar_converged :: bool
  ar_temperature :: rat

text \<open>The validation of \<open>AnnealingResult\<close>.\<close>

definition new_result :: "causal_edge list \<Rightarrow> rat list \<Rightarrow> nat \<Rightarrow> bool \<Rightarrow> rat \<Rightarrow> anneal_result option" where
  "new_result es trace n converged temp =
     (if 0 \<le> temp \<and> temp \<le> 1
      then Some \<lparr>ar_edges = es, ar_trace = trace, ar_iterations = n, ar_converged = converged, ar_temperature = temp\<rparr>
      else None)"

text \<open>The precision of an edge's channel, read from its metadata.\<close>

definition edge_channel :: "(pyval \<Rightarrow> string) \<Rightarrow> causal_edge \<Rightarrow> string" where
  "edge_channel rp e = py_str rp (dget_default (ce_meta e) ''source_type'' (VStr ''agent_inference''))"

definition edge_precision :: "(pyval \<Rightarrow> string) \<Rightarrow> tensor option \<Rightarrow> causal_edge \<Rightarrow> rat" where
  "edge_precision rp pt e = (case pt of None \<Rightarrow> 1 | Some t \<Rightarrow> max (1/20) (get_precision t (edge_channel rp e)))"

text \<open>The Metropolis test; a random number is drawn only for a rise of the energy at a temperature that is not frozen.\<close>

definition metropolis :: "'r random_api \<Rightarrow> rat \<Rightarrow> rat \<Rightarrow> 'r \<Rightarrow> bool \<times> 'r" where
  "metropolis A temperature dE r =
     (if dE \<le> 0 then (True, r)
      else if temperature < 1 / 10 ^ 8 then (False, r)
      else
        (let x = - dE / temperature;
             p_accept = (if x < -700 then 0 else if 700 < x then 1 else ra_exp A x);
             (u, r') = ra_random A r
         in (u < p_accept, r')))"

definition propose :: "'r random_api \<Rightarrow> rat \<Rightarrow> rat \<Rightarrow> rat \<Rightarrow> rat \<Rightarrow> 'r \<Rightarrow> rat \<times> 'r" where
  "propose A temperature prec w grad r =
     (let sigma = ra_sqrt A (2 * temperature / prec); (epsilon, r') = ra_gauss A r
      in (clamp_conf (FNum (w - temperature * grad + sigma * epsilon)), r'))"

section \<open>The loop over temperatures\<close>

text \<open>Both kernels run their sweep \<open>sw\<close>, from a temperature and a state to the next state and its energy, in this loop.\<close>

fun anneal_loop ::
  "(rat \<Rightarrow> 's \<Rightarrow> 's \<times> rat) \<Rightarrow> rat \<Rightarrow> rat \<Rightarrow> nat \<Rightarrow> rat \<Rightarrow> rat option \<Rightarrow> nat \<Rightarrow> rat list \<Rightarrow> 's \<Rightarrow>
     's \<times> rat list \<times> nat \<times> bool \<times> rat" where
  "anneal_loop sw T_min decay 0 temperature prev iterations trace s = (s, trace, iterations, False, temperature)"
| "anneal_loop sw T_min decay (Suc left) temperature prev iterations trace s =
     (let (s', total_energy) = sw temperature s;
          iterations' = iterations + 1;
          trace' = trace @ [total_energy]
      in if (case prev of None \<Rightarrow> False | Some p \<Rightarrow> \<bar>total_energy - p\<bar> < 1 / 10 ^ 6)
         then (s', trace', iterations', True, temperature)
         else if temperature \<le> T_min then (s', trace', iterations', False, T_min)
         else anneal_loop sw T_min decay left (temperature * decay) (Some total_energy) iterations' trace' s')"

section \<open>The reference kernel\<close>

text \<open>
  The index maps a source to references to its edges; a reference is an object with its identity, the slot of \<open>working\<close> the
  object was made for.
\<close>

type_synonym edge_index = "(string, (nat \<times> causal_edge) list) dict"

record 'r ref_state =
  rs_working :: "causal_edge list"
  rs_index :: edge_index
  rs_rng :: 'r

fun build_index :: "nat \<Rightarrow> causal_edge list \<Rightarrow> edge_index \<Rightarrow> edge_index" where
  "build_index i [] idx = idx"
| "build_index i (e # es) idx =
     build_index (Suc i) es (dset (ce_source e) (dget_default idx (ce_source e) [] @ [(i, e)]) idx)"

fun replace_ref :: "nat \<Rightarrow> causal_edge \<Rightarrow> (nat \<times> causal_edge) list \<Rightarrow> (nat \<times> causal_edge) list" where
  "replace_ref i cand [] = []"
| "replace_ref i cand ((j, e) # refs) = (if j = i then (i, cand) # refs else (j, e) # replace_ref i cand refs)"

definition index_context :: "edge_index \<Rightarrow> edge_context" where
  "index_context idx = ContextDict (map (\<lambda>(n, refs). (n, map snd refs)) idx)"

definition ref_step ::
  "'r random_api \<Rightarrow> energy_module \<Rightarrow> tensor option \<Rightarrow> rat \<Rightarrow> rat \<Rightarrow> nat \<Rightarrow> 'r ref_state \<times> rat \<Rightarrow> 'r ref_state \<times> rat" where
  "ref_step A M pt lambda_reg temperature i = (\<lambda>(s, total_energy).
     (let e = rs_working s ! i;
          (energy, grad) = compute_edge_energy_and_gradient M e (index_context (rs_index s)) lambda_reg;
          (proposed_w, r1) = propose A temperature (edge_precision (em_repr M) pt e) (ce_conf e) grad (rs_rng s);
          cand = with_conf proposed_w e;
          (cand_energy, _) = compute_edge_energy_and_gradient M cand (index_context (rs_index s)) lambda_reg;
          (accept, r2) = metropolis A temperature (cand_energy - energy) r1
      in if accept
         then (s\<lparr>rs_working := (rs_working s)[i := cand],
                 rs_index := (case dget (rs_index s) (ce_source cand) of
                                None \<Rightarrow> rs_index s
                              | Some refs \<Rightarrow> dset (ce_source cand) (replace_ref i cand refs) (rs_index s)),
                 rs_rng := r2\<rparr>, total_energy + cand_energy)
         else (s\<lparr>rs_rng := r2\<rparr>, total_energy + energy)))"

definition ref_sweep ::
  "'r random_api \<Rightarrow> energy_module \<Rightarrow> tensor option \<Rightarrow> rat \<Rightarrow> nat \<Rightarrow> rat \<Rightarrow> 'r ref_state \<Rightarrow> 'r ref_state \<times> rat" where
  "ref_sweep A M pt lambda_reg n temperature s = fold (ref_step A M pt lambda_reg temperature) [0..<n] (s, 0)"

definition run_reference_scalar ::
  "'r random_api \<Rightarrow> energy_module \<Rightarrow> causal_edge list \<Rightarrow> rat \<Rightarrow> rat \<Rightarrow> rat \<Rightarrow> nat \<Rightarrow> rat \<Rightarrow> tensor option \<Rightarrow> 'r \<Rightarrow>
     anneal_result option \<times> 'r" where
  "run_reference_scalar A M graph T_init T_min decay max_iter lambda_reg pt r =
     (let s0 = \<lparr>rs_working = graph, rs_index = build_index 0 graph [], rs_rng = r\<rparr>;
          (s, trace, n, converged, temperature) =
            anneal_loop (ref_sweep A M pt lambda_reg (length graph)) T_min decay max_iter (max T_min T_init) None 0 [] s0
      in (new_result (rs_working s) trace n converged (py_round 6 temperature), rs_rng s))"

section \<open>The array kernel\<close>

record kernel =
  k_sources :: "nat list"
  k_targets :: "nat list"
  k_critical :: "bool list"
  k_costs :: "rat list"
  k_precisions :: "rat list"
  k_degree :: "rat list"

record 'r arr_state =
  as_w :: "rat list"
  as_total :: "rat list"
  as_crit :: "rat list"
  as_rng :: 'r

definition node_id :: "string \<Rightarrow> (string, nat) dict \<Rightarrow> (string, nat) dict" where
  "node_id n ids = (if n \<in> set (dkeys ids) then ids else dset n (length ids) ids)"

definition node_ids :: "causal_edge list \<Rightarrow> (string, nat) dict" where
  "node_ids graph = fold (\<lambda>e ids. node_id (ce_target e) (node_id (ce_source e) ids)) graph []"

definition id_of :: "(string, nat) dict \<Rightarrow> string \<Rightarrow> nat" where
  "id_of ids n = dget_default ids n 0"

text \<open>\<open>np.add.at(a, ids, vs)\<close>.\<close>

definition add_at :: "nat list \<Rightarrow> rat list \<Rightarrow> rat list \<Rightarrow> rat list" where
  "add_at ids vs a = fold (\<lambda>(i, v) a. a[i := a ! i + v]) (zip ids vs) a"

definition build_kernel :: "energy_module \<Rightarrow> tensor option \<Rightarrow> causal_edge list \<Rightarrow> kernel" where
  "build_kernel M pt graph =
     (let ids = node_ids graph; src = map (\<lambda>e. id_of ids (ce_source e)) graph
      in \<lparr>k_sources = src, k_targets = map (\<lambda>e. id_of ids (ce_target e)) graph,
          k_critical = map is_critical_edge graph,
          k_costs = map (\<lambda>e. intrinsic_cost M (ce_source e) (ce_predicate e) None) graph,
          k_precisions = map (edge_precision (em_repr M) pt) graph,
          k_degree = add_at src (replicate (length graph) 1) (replicate (length ids) 0)\<rparr>)"

definition crit_part :: "bool \<Rightarrow> rat \<Rightarrow> rat" where
  "crit_part c w = w * (if c then 1 else 0)"

definition build_arrays :: "kernel \<Rightarrow> causal_edge list \<Rightarrow> 'r \<Rightarrow> 'r arr_state" where
  "build_arrays K graph r =
     (let w = map (\<lambda>e. clamp_conf (FNum (ce_conf e))) graph; zeros = replicate (length (k_degree K)) 0
      in \<lparr>as_w = w, as_total = add_at (k_sources K) w zeros,
          as_crit = add_at (k_sources K) (map2 crit_part (k_critical K) w) zeros, as_rng = r\<rparr>)"

definition critic_for_node :: "kernel \<Rightarrow> 'r arr_state \<Rightarrow> nat \<Rightarrow> rat" where
  "critic_for_node K s nid =
     (let deg = k_degree K ! nid in
      if deg \<le> 0 then 0
      else
        (let reachability_impact = min 1 (deg / max 1 (of_nat (length (k_degree K))));
             t_sum = as_total s ! nid; c_sum = as_crit s ! nid;
             c_ratio = (if 0 < t_sum then min 1 (max 0 (c_sum / max (1/100000) t_sum)) else 0);
             raw_risk = max reachability_impact (c_ratio * min 1 (deg / 2))
         in py_round 6 (clamp01 raw_risk)))"

definition edge_energy_and_grad :: "kernel \<Rightarrow> rat \<Rightarrow> 'r arr_state \<Rightarrow> nat \<Rightarrow> rat \<Rightarrow> rat \<times> rat" where
  "edge_energy_and_grad K lambda_reg s idx w_val =
     energy_of (k_costs K ! idx) (critic_for_node K s (k_targets K ! idx)) lambda_reg (clamp_conf (FNum w_val))"

definition arr_step ::
  "'r random_api \<Rightarrow> kernel \<Rightarrow> rat \<Rightarrow> rat \<Rightarrow> nat \<Rightarrow> 'r arr_state \<times> rat \<Rightarrow> 'r arr_state \<times> rat" where
  "arr_step A K lambda_reg temperature i = (\<lambda>(s, total_energy).
     (let old_w = as_w s ! i;
          (energy, grad) = edge_energy_and_grad K lambda_reg s i old_w;
          (proposed_w, r1) = propose A temperature (k_precisions K ! i) old_w grad (as_rng s);
          (cand_energy, _) = edge_energy_and_grad K lambda_reg s i proposed_w;
          (accept, r2) = metropolis A temperature (cand_energy - energy) r1
      in if accept
         then (let delta_w = proposed_w - old_w; s_id = k_sources K ! i in
               (s\<lparr>as_w := (as_w s)[i := proposed_w],
                  as_total := (as_total s)[s_id := as_total s ! s_id + delta_w],
                  as_crit := (if k_critical K ! i then (as_crit s)[s_id := as_crit s ! s_id + delta_w] else as_crit s),
                  as_rng := r2\<rparr>, total_energy + cand_energy))
         else (s\<lparr>as_rng := r2\<rparr>, total_energy + energy)))"

definition arr_sweep ::
  "'r random_api \<Rightarrow> kernel \<Rightarrow> rat \<Rightarrow> nat \<Rightarrow> rat \<Rightarrow> 'r arr_state \<Rightarrow> 'r arr_state \<times> rat" where
  "arr_sweep A K lambda_reg n temperature s = fold (arr_step A K lambda_reg temperature) [0..<n] (s, 0)"

definition run_vectorized_numpy ::
  "'r random_api \<Rightarrow> energy_module \<Rightarrow> causal_edge list \<Rightarrow> rat \<Rightarrow> rat \<Rightarrow> rat \<Rightarrow> nat \<Rightarrow> rat \<Rightarrow> tensor option \<Rightarrow> 'r \<Rightarrow>
     anneal_result option \<times> 'r" where
  "run_vectorized_numpy A M graph T_init T_min decay max_iter lambda_reg pt r =
     (let K = build_kernel M pt graph;
          (s, trace, n, converged, temperature) =
            anneal_loop (arr_sweep A K lambda_reg (length graph)) T_min decay max_iter (max T_min T_init) None 0 []
              (build_arrays K graph r)
      in (new_result (map2 with_conf (as_w s) graph) trace n converged (py_round 6 temperature), as_rng s))"

section \<open>Running\<close>

text \<open>
  \<open>sensing\<close> is the temperature that the sensing engine gives an entity, \<open>None\<close> when there is no engine. \<open>vectorised\<close> tells
  that the energy module is of the class itself; otherwise it is of a subclass, which the model takes to override nothing.
\<close>

definition effective_temperature :: "rat \<Rightarrow> rat option \<Rightarrow> rat \<Rightarrow> rat" where
  "effective_temperature t_cogn T_init T_min =
     (if 0 < t_cogn then max T_min t_cogn
      else case T_init of Some t \<Rightarrow> max T_min t | None \<Rightarrow> T_min)"

definition effective_decay :: "rat option \<Rightarrow> rat \<Rightarrow> rat \<Rightarrow> rat" where
  "effective_decay decay eff_T_init T_min =
     (let d = (case decay of Some d \<Rightarrow> d | None \<Rightarrow> if T_min < eff_T_init then 19/20 else 1)
      in max (1/100) (min 1 d))"

record run_args =
  ru_T_init :: "rat option"
  ru_T_min :: rat
  ru_decay :: "rat option"
  ru_max_iter :: int
  ru_lambda :: rat
  ru_entity :: "string option"

definition default_run :: run_args where
  "default_run = \<lparr>ru_T_init = None, ru_T_min = 1/100, ru_decay = None, ru_max_iter = 500, ru_lambda = 1/10, ru_entity = None\<rparr>"

definition run_target :: "run_args \<Rightarrow> causal_edge list \<Rightarrow> string" where
  "run_target args graph = (case ru_entity args of Some (c # s) \<Rightarrow> c # s | _ \<Rightarrow> ce_source (hd graph))"

definition start_temperature :: "(string \<Rightarrow> rat) option \<Rightarrow> run_args \<Rightarrow> causal_edge list \<Rightarrow> rat \<Rightarrow> rat" where
  "start_temperature sensing args graph T_min =
     effective_temperature (case sensing of None \<Rightarrow> 0 | Some f \<Rightarrow> f (run_target args graph)) (ru_T_init args) T_min"

definition floor_temperature :: "run_args \<Rightarrow> rat" where
  "floor_temperature args = max (1 / 10 ^ 8) (ru_T_min args)"

definition run ::
  "'r random_api \<Rightarrow> energy_module \<Rightarrow> bool \<Rightarrow> (string \<Rightarrow> rat) option \<Rightarrow> tensor option \<Rightarrow> run_args \<Rightarrow> causal_edge list \<Rightarrow> 'r \<Rightarrow>
     anneal_result option \<times> 'r" where
  "run A M vectorised sensing pt args graph r =
     (let T_min = floor_temperature args; max_iter = nat (max 1 (ru_max_iter args)) in
      if graph = [] then (new_result [] [] 1 True T_min, r)
      else
        (let eff_T_init = start_temperature sensing args graph T_min;
             eff_decay = effective_decay (ru_decay args) eff_T_init T_min
         in (if vectorised then run_vectorized_numpy else run_reference_scalar)
              A M graph eff_T_init T_min eff_decay max_iter (ru_lambda args)
              (Some (case pt of None \<Rightarrow> default_tensor | Some t \<Rightarrow> t)) r))"

section \<open>The loop\<close>

lemma anneal_loop_bounds:
  "anneal_loop sw T_min decay left temperature prev iterations trace s = (s', trace', n, converged, t) \<Longrightarrow>
     iterations \<le> n \<and> n \<le> iterations + left \<and> (0 < left \<longrightarrow> iterations < n) \<and> length trace' + iterations = length trace + n"
proof (induction sw T_min decay left temperature prev iterations trace s rule: anneal_loop.induct)
  case (2 sw T_min decay left temperature prev iterations trace s)
  obtain s1 e where sw: "sw temperature s = (s1, e)" by fastforce
  from 2(2) show ?case
    using 2(1) [OF sw [symmetric] refl refl refl] by (auto simp: sw Let_def split: if_splits)
qed simp

lemma anneal_loop_invariant:
  assumes "\<And>t s. P s \<Longrightarrow> P (fst (sw t s))"
  shows "P s \<Longrightarrow> P (fst (anneal_loop sw T_min decay left temperature prev iterations trace s))"
proof (induction left arbitrary: temperature prev iterations trace s)
  case (Suc left)
  obtain s1 e where sw: "sw temperature s = (s1, e)" by fastforce
  with assms [OF Suc.prems, of temperature] have "P s1" by simp
  with Suc.IH show ?case by (simp add: sw Let_def)
qed simp

lemma anneal_loop_temperature:
  "0 < T_min \<Longrightarrow> 0 < temperature \<Longrightarrow> 0 < decay \<Longrightarrow> decay \<le> 1 \<Longrightarrow>
   anneal_loop sw T_min decay left temperature prev iterations trace s = (s', trace', n, converged, t) \<Longrightarrow>
     0 < t \<and> t \<le> max T_min temperature"
proof (induction left arbitrary: temperature prev iterations trace s)
  case (Suc left)
  obtain s1 e where sw: "sw temperature s = (s1, e)" by fastforce
  from Suc.prems have pos: "0 < temperature * decay" "temperature * decay \<le> temperature"
    by (auto simp: mult_le_cancel_left1)
  note IH = Suc.IH [OF Suc.prems(1) pos(1) Suc.prems(3,4)]
  have "t \<le> temperature" if "t \<le> max T_min (temperature * decay)" "\<not> temperature \<le> T_min"
    using that pos(2) by (auto simp: max_def split: if_splits)
  with Suc.prems show ?case
    by (auto simp: sw Let_def split: if_splits dest!: IH)
qed simp

text \<open>With \<open>k\<close> coolings to the minimal temperature the loop is over after \<open>k + 1\<close> sweeps.\<close>

lemma anneal_loop_cools:
  "0 < decay \<Longrightarrow> temperature * decay ^ k \<le> T_min \<Longrightarrow>
   anneal_loop sw T_min decay left temperature prev iterations trace s = (s', trace', n, converged, t) \<Longrightarrow>
     n \<le> iterations + Suc k"
proof (induction left arbitrary: temperature prev iterations trace s k)
  case (Suc left)
  obtain s1 e where sw: "sw temperature s = (s1, e)" by fastforce
  show ?case
  proof (cases k)
    case 0
    with Suc.prems show ?thesis by (auto simp: sw Let_def split: if_splits)
  next
    case (Suc m)
    with Suc.prems(2) have "temperature * decay * decay ^ m \<le> T_min" by (simp add: mult.assoc)
    note IH = Suc.IH [OF Suc.prems(1) this]
    from Suc.prems(3) Suc show ?thesis
      by (auto simp: sw Let_def split: if_splits dest!: IH)
  qed
qed simp

text \<open>Two sweeps that simulate each other give the same loop.\<close>

lemma anneal_loop_sim:
  assumes "\<And>t s a. R s a \<Longrightarrow> R (fst (sw1 t s)) (fst (sw2 t a)) \<and> snd (sw1 t s) = snd (sw2 t a)"
  shows "R s a \<Longrightarrow>
     R (fst (anneal_loop sw1 T_min decay left temperature prev iterations trace s))
       (fst (anneal_loop sw2 T_min decay left temperature prev iterations trace a))
     \<and> snd (anneal_loop sw1 T_min decay left temperature prev iterations trace s)
       = snd (anneal_loop sw2 T_min decay left temperature prev iterations trace a)"
proof (induction left arbitrary: temperature prev iterations trace s a)
  case (Suc left)
  obtain s1 e1 where 1: "sw1 temperature s = (s1, e1)" by fastforce
  obtain a1 e2 where 2: "sw2 temperature a = (a1, e2)" by fastforce
  from assms [OF Suc.prems, of temperature] 1 2 have "R s1 a1" "e1 = e2" by auto
  with Suc.IH show ?case by (simp add: 1 2 Let_def)
qed simp

section \<open>What a step keeps\<close>

lemma propose_unit: "propose A temp prec w grad r = (p, r') \<Longrightarrow> 0 \<le> p \<and> p \<le> 1"
  using clamp_conf_range by (auto simp: propose_def Let_def split: prod.splits)

definition reweighted :: "causal_edge list \<Rightarrow> causal_edge list \<Rightarrow> bool" where
  "reweighted graph es \<longleftrightarrow> list_all2 (\<lambda>e e'. \<exists>w. 0 \<le> w \<and> w \<le> 1 \<and> e' = with_conf w e) graph es"

lemma fold_range_invariant:
  assumes "\<And>i x. i < n \<Longrightarrow> P x \<Longrightarrow> P (f i x)" and "P x"
  shows "P (fold f [0..<n] x)"
proof -
  have "m \<le> n \<Longrightarrow> P (fold f [0..<m] x)" for m
    by (induction m) (auto simp: assms)
  then show ?thesis by simp
qed

lemma reweighted_update:
  "reweighted graph es \<Longrightarrow> i < length graph \<Longrightarrow> 0 \<le> w \<Longrightarrow> w \<le> 1 \<Longrightarrow> reweighted graph (es[i := with_conf w (es ! i)])"
  unfolding reweighted_def list_all2_conv_all_nth
  by (auto simp: nth_list_update with_conf_def) (metis causal_edge.surjective causal_edge.update_convs(4))+

lemma ref_step_keeps:
  "i < length graph \<Longrightarrow> reweighted graph (rs_working s) \<Longrightarrow>
     reweighted graph (rs_working (fst (ref_step A M pt l t i (s, tot))))"
  by (auto simp: ref_step_def Let_def split: prod.split dest!: propose_unit intro!: reweighted_update)

lemma ref_sweep_keeps:
  "reweighted graph (rs_working s) \<Longrightarrow> reweighted graph (rs_working (fst (ref_sweep A M pt l (length graph) t s)))"
  unfolding ref_sweep_def
  by (rule fold_range_invariant [where P = "\<lambda>x. reweighted graph (rs_working (fst x))"]) (auto intro: ref_step_keeps)

definition unit_weights :: "nat \<Rightarrow> rat list \<Rightarrow> bool" where
  "unit_weights n ws \<longleftrightarrow> length ws = n \<and> (\<forall>w \<in> set ws. 0 \<le> w \<and> w \<le> 1)"

lemma arr_step_keeps:
  "i < n \<Longrightarrow> unit_weights n (as_w s) \<Longrightarrow> unit_weights n (as_w (fst (arr_step A K l t i (s, tot))))"
  by (auto simp: arr_step_def Let_def unit_weights_def split: prod.split dest!: propose_unit set_update_subset_insert [THEN subsetD])

lemma arr_sweep_keeps: "unit_weights n (as_w s) \<Longrightarrow> unit_weights n (as_w (fst (arr_sweep A K l n t s)))"
  unfolding arr_sweep_def
  by (rule fold_range_invariant [where P = "\<lambda>x. unit_weights n (as_w (fst x))"]) (auto intro: arr_step_keeps)

lemma unit_weights_reweighted:
  "unit_weights (length graph) ws \<Longrightarrow> reweighted graph (map2 with_conf ws graph)"
  by (auto simp: unit_weights_def reweighted_def list_all2_conv_all_nth)


section \<open>Runs\<close>

lemma run_temperatures:
  shows "0 < floor_temperature args" and "floor_temperature args \<le> start_temperature sensing args graph (floor_temperature args)"
    and "0 < effective_decay d T T'" and "effective_decay d T T' \<le> 1"
  by (auto simp: floor_temperature_def start_temperature_def effective_temperature_def effective_decay_def Let_def
      less_max_iff_disj split: option.splits)

lemma new_result_Some:
  "0 \<le> t \<Longrightarrow> t \<le> 1 \<Longrightarrow> new_result es trace n c t
     = Some \<lparr>ar_edges = es, ar_trace = trace, ar_iterations = n, ar_converged = c, ar_temperature = t\<rparr>"
  by (simp add: new_result_def)

text \<open>What a kernel returns, once its sweep keeps an invariant \<open>P\<close> under which its edges are reweighted ones.\<close>

definition sound_result :: "causal_edge list \<Rightarrow> nat \<Rightarrow> anneal_result option \<Rightarrow> bool" where
  "sound_result graph max_iter res \<longleftrightarrow>
     (case res of
        None \<Rightarrow> False
      | Some q \<Rightarrow> reweighted graph (ar_edges q) \<and> 1 \<le> ar_iterations q \<and> ar_iterations q \<le> max_iter
          \<and> length (ar_trace q) = ar_iterations q)"

text \<open>
  The contract of a kernel: its sweep keeps an invariant under which the edges it holds are those of the graph with other
  confidences. Both kernels provide it, and what a run returns follows from it alone.
\<close>

locale annealing_kernel =
  fixes graph :: "causal_edge list"
    and sw :: "rat \<Rightarrow> 's \<Rightarrow> 's \<times> rat"
    and inv :: "'s \<Rightarrow> bool"
    and out :: "'s \<Rightarrow> causal_edge list"
  assumes keeps: "inv s \<Longrightarrow> inv (fst (sw t s))"
    and reweights: "inv s \<Longrightarrow> reweighted graph (out s)"
begin

lemma loop_reweights:
  "inv s0 \<Longrightarrow> anneal_loop sw T_min decay n T prev m trace0 s0 = (s, res) \<Longrightarrow> reweighted graph (out s)"
  using anneal_loop_invariant [where P = inv and sw = sw, OF keeps, of s0 T_min decay n T prev m trace0] reweights by simp

lemma loop_sound:
  assumes init: "inv s0" and iter: "0 < max_iter" and T: "0 < T_min" "T_min \<le> T" "T \<le> 1" "0 < decay" "decay \<le> 1"
    and loop: "anneal_loop sw T_min decay max_iter T None 0 [] s0 = (s, trace, n, c, t)"
  shows "sound_result graph max_iter (new_result (out s) trace n c (py_round 6 t))"
proof -
  from anneal_loop_temperature [OF T(1) _ T(4,5) loop] T have "0 \<le> t" "t \<le> 1" by auto
  then have "0 \<le> py_round 6 t" "py_round 6 t \<le> 1" using py_round_unit by blast+
  then show ?thesis
    using anneal_loop_bounds [OF loop] iter loop_reweights [OF init loop] by (simp add: new_result_Some sound_result_def)
qed

end

interpretation reference: annealing_kernel graph "ref_sweep A M pt l (length graph)" "\<lambda>s. reweighted graph (rs_working s)" rs_working
  for graph A M pt l
  by unfold_locales (auto intro: ref_sweep_keeps)

interpretation arrays: annealing_kernel graph "arr_sweep A K l (length graph)" "\<lambda>s. unit_weights (length graph) (as_w s)"
    "\<lambda>s. map2 with_conf (as_w s) graph"
  for graph A K l
  by unfold_locales (auto intro: arr_sweep_keeps unit_weights_reweighted)

lemma reweighted_self: "list_all edge_ok graph \<Longrightarrow> reweighted graph graph"
  by (auto simp: reweighted_def list_all2_conv_all_nth list_all_length edge_ok_def with_conf_def
      intro!: exI [of _ "ce_conf (graph ! _)"])

lemma reference_sound:
  assumes "list_all edge_ok graph" "0 < max_iter" "0 < T_min" "T_min \<le> T" "T \<le> 1" "0 < decay" "decay \<le> 1"
  shows "sound_result graph max_iter (fst (run_reference_scalar A M graph T T_min decay max_iter l pt r))"
proof -
  let ?s0 = "\<lparr>rs_working = graph, rs_index = build_index 0 graph [], rs_rng = r\<rparr>"
  obtain s trace n c t where loop:
    "anneal_loop (ref_sweep A M pt l (length graph)) T_min decay max_iter T None 0 [] ?s0 = (s, trace, n, c, t)"
    by (metis prod_cases5)
  have "reweighted graph graph" using assms(1) by (rule reweighted_self)
  then have "sound_result graph max_iter (new_result (rs_working s) trace n c (py_round 6 t))"
    using reference.loop_sound [OF _ assms(2-) loop] by simp
  with loop assms(4) show ?thesis by (simp add: run_reference_scalar_def max_absorb2)
qed

lemma vectorized_sound:
  assumes "0 < max_iter" "0 < T_min" "T_min \<le> T" "T \<le> 1" "0 < decay" "decay \<le> 1"
  shows "sound_result graph max_iter (fst (run_vectorized_numpy A M graph T T_min decay max_iter l pt r))"
proof -
  let ?K = "build_kernel M pt graph"
  obtain s trace n c t where loop:
    "anneal_loop (arr_sweep A ?K l (length graph)) T_min decay max_iter T None 0 [] (build_arrays ?K graph r) = (s, trace, n, c, t)"
    by (metis prod_cases5)
  have "unit_weights (length graph) (as_w (build_arrays ?K graph r))"
    using clamp_conf_range by (auto simp: build_arrays_def Let_def unit_weights_def)
  then have "sound_result graph max_iter (new_result (map2 with_conf (as_w s) graph) trace n c (py_round 6 t))"
    using arrays.loop_sound [OF _ assms loop] by simp
  with loop assms(3) show ?thesis by (simp add: run_vectorized_numpy_def Let_def max_absorb2)
qed


text \<open>Whatever the temperatures, a result has the edges of the graph.\<close>

lemma run_reweights:
  assumes "graph \<noteq> []" "list_all edge_ok graph" "fst (run A M vectorised sensing pt args graph r) = Some q"
  shows "reweighted graph (ar_edges q)"
proof -
  have "reweighted graph (ar_edges q)"
    if "fst (run_vectorized_numpy A M graph T T_min decay n l pt r) = Some q" for T T_min decay n l pt
  proof -
    let ?K = "build_kernel M pt graph"
    obtain s out where loop: "anneal_loop (arr_sweep A ?K l (length graph)) T_min decay n (max T_min T) None 0 [] (build_arrays ?K graph r) = (s, out)"
      by (meson surj_pair)
    have "unit_weights (length graph) (as_w (build_arrays ?K graph r))"
      using clamp_conf_range by (auto simp: build_arrays_def Let_def unit_weights_def)
    from arrays.loop_reweights [OF this loop] that loop show ?thesis
      by (auto simp: run_vectorized_numpy_def Let_def new_result_def split: prod.splits if_splits)
  qed
  moreover have "reweighted graph (ar_edges q)"
    if "fst (run_reference_scalar A M graph T T_min decay n l pt r) = Some q" for T T_min decay n l pt
  proof -
    let ?s0 = "\<lparr>rs_working = graph, rs_index = build_index 0 graph [], rs_rng = r\<rparr>"
    obtain s out where loop: "anneal_loop (ref_sweep A M pt l (length graph)) T_min decay n (max T_min T) None 0 [] ?s0 = (s, out)"
      by (meson surj_pair)
    have "reweighted graph (rs_working ?s0)" using reweighted_self [OF assms(2)] by simp
    from reference.loop_reweights [OF this loop] that loop show ?thesis
      by (auto simp: run_reference_scalar_def Let_def new_result_def split: prod.splits if_splits)
  qed
  ultimately show ?thesis
    using assms(1,3) by (auto simp: run_def Let_def split: if_splits)
qed

text \<open>
  Annealing moves confidences and nothing else: from valid edges and a start temperature of at most 1, either kernel
  returns, after at least one and at most the allowed number of sweeps and one energy per sweep, the same edges in the same
  order, each with a confidence in the unit interval.
\<close>

theorem annealing_moves_confidences_only:
  assumes "graph \<noteq> []" "list_all edge_ok graph" "start_temperature sensing args graph (floor_temperature args) \<le> 1"
  shows "\<exists>q. fst (run A M vectorised sensing pt args graph r) = Some q
    \<and> list_all2 (\<lambda>e e'. \<exists>w. 0 \<le> w \<and> w \<le> 1 \<and> e' = with_conf w e) graph (ar_edges q)
    \<and> 1 \<le> ar_iterations q \<and> int (ar_iterations q) \<le> max 1 (ru_max_iter args)
    \<and> length (ar_trace q) = ar_iterations q"
proof -
  have "sound_result graph (nat (max 1 (ru_max_iter args))) (fst (run A M vectorised sensing pt args graph r))"
    unfolding run_def Let_def using assms run_temperatures
    by (auto intro!: reference_sound vectorized_sound)
  then show ?thesis
    by (auto simp: sound_result_def reweighted_def split: option.splits)
qed

text \<open>The energy module and the random numbers of the examples.\<close>

definition plain_energy :: energy_module where
  "plain_energy = \<lparr>em_sensing = None, em_client = None, em_penalties = [], em_volatile = (\<lambda>_. None), em_repr = (\<lambda>_. []),
     em_float = (\<lambda>_. None)\<rparr>"

definition quiet_random :: "nat random_api" where
  "quiet_random = \<lparr>ra_gauss = (\<lambda>n. (0, Suc n)), ra_random = (\<lambda>n. (1/2, Suc n)), ra_sqrt = (\<lambda>_. 0), ra_exp = (\<lambda>_. 0)\<rparr>"

definition plain_edge :: "string \<Rightarrow> string \<Rightarrow> causal_edge" where
  "plain_edge a b = \<lparr>ce_source = a, ce_predicate = ''leads_to'', ce_target = b, ce_conf = 1, ce_impact = ''dependency'', ce_meta = []\<rparr>"

theorem annealing_moves_confidences_only_witness:
  "\<exists>q. fst (run quiet_random plain_energy True None None (default_run\<lparr>ru_T_init := Some 1\<rparr>) [plain_edge ''a'' ''b''] 0) = Some q
    \<and> length (ar_trace q) = ar_iterations q"
proof -
  have "list_all edge_ok [plain_edge ''a'' ''b'']" by (simp add: plain_edge_def edge_ok_def)
  moreover have "start_temperature None (default_run\<lparr>ru_T_init := Some 1\<rparr>) [plain_edge ''a'' ''b'']
      (floor_temperature (default_run\<lparr>ru_T_init := Some 1\<rparr>)) \<le> 1"
    by (simp add: start_temperature_def floor_temperature_def effective_temperature_def default_run_def)
  ultimately show ?thesis
    using annealing_moves_confidences_only [of "[plain_edge ''a'' ''b'']" None "default_run\<lparr>ru_T_init := Some 1\<rparr>"
        quiet_random plain_energy True None 0] by blast
qed

section \<open>How long a run takes\<close>

lemma loop_cools:
  "0 < decay \<Longrightarrow> T * decay ^ k \<le> T_min \<Longrightarrow>
   anneal_loop sw T_min decay max_iter T None 0 [] s0 = (s, trace, n, c, t) \<Longrightarrow> n \<le> Suc k"
  using anneal_loop_cools [of decay T k T_min sw max_iter None 0 "[]"] by simp

lemma reference_cools:
  "0 < decay \<Longrightarrow> T * decay ^ k \<le> T_min \<Longrightarrow> T_min \<le> T \<Longrightarrow>
   fst (run_reference_scalar A M graph T T_min decay max_iter l pt r) = Some q \<Longrightarrow> ar_iterations q \<le> Suc k"
  by (auto simp: run_reference_scalar_def Let_def new_result_def max_absorb2 split: if_splits prod.splits dest: loop_cools)

lemma vectorized_cools:
  "0 < decay \<Longrightarrow> T * decay ^ k \<le> T_min \<Longrightarrow> T_min \<le> T \<Longrightarrow>
   fst (run_vectorized_numpy A M graph T T_min decay max_iter l pt r) = Some q \<Longrightarrow> ar_iterations q \<le> Suc k"
  by (auto simp: run_vectorized_numpy_def Let_def new_result_def max_absorb2 split: if_splits prod.splits dest: loop_cools)

lemma run_cools:
  assumes "graph \<noteq> []" "fst (run A M vectorised sensing pt args graph r) = Some q"
    and T: "T = start_temperature sensing args graph (floor_temperature args)"
    and cool: "T * effective_decay (ru_decay args) T (floor_temperature args) ^ k \<le> floor_temperature args"
  shows "ar_iterations q \<le> Suc k"
proof -
  have le: "floor_temperature args \<le> T" unfolding T by (rule run_temperatures(2))
  show ?thesis
    using assms(1,2) reference_cools [OF run_temperatures(3) cool le] vectorized_cools [OF run_temperatures(3) cool le]
    by (cases vectorised) (simp_all add: run_def Let_def T)
qed

text \<open>
  C34: Cooling ends the run: when \<open>k\<close> coolings bring the start temperature down to the minimal one, a run that returns a result has
  made at most \<open>k + 1\<close> sweeps, however many iterations it was given; and it does return one if the start temperature is at most 1. A
  hotter run may end in a validation error instead (\<open>hot_run_has_no_result\<close>).
\<close>

theorem cooling_ends_the_run:
  assumes "graph \<noteq> []" "list_all edge_ok graph" "T = start_temperature sensing args graph (floor_temperature args)"
    and "T * effective_decay (ru_decay args) T (floor_temperature args) ^ k \<le> floor_temperature args"
  shows "(\<forall>q. fst (run A M vectorised sensing pt args graph r) = Some q \<longrightarrow> ar_iterations q \<le> Suc k)
    \<and> (T \<le> 1 \<longrightarrow> (\<exists>q. fst (run A M vectorised sensing pt args graph r) = Some q))"
proof (intro conjI allI impI)
  fix q assume "fst (run A M vectorised sensing pt args graph r) = Some q"
  from run_cools [OF assms(1) this assms(3,4)] show "ar_iterations q \<le> Suc k" .
next
  assume "T \<le> 1"
  then have "sound_result graph (nat (max 1 (ru_max_iter args))) (fst (run A M vectorised sensing pt args graph r))"
    unfolding run_def Let_def using assms run_temperatures
    by (auto intro!: reference_sound vectorized_sound)
  then show "\<exists>q. fst (run A M vectorised sensing pt args graph r) = Some q"
    by (auto simp: sound_result_def split: option.splits)
qed

theorem cooling_ends_the_run_witness:
  "\<exists>q. fst (run quiet_random plain_energy False None None (default_run\<lparr>ru_T_init := Some (1/2), ru_decay := Some (1/2)\<rparr>)
      [plain_edge ''a'' ''b''] 0) = Some q \<and> ar_iterations q \<le> 7"
proof -
  let ?args = "default_run\<lparr>ru_T_init := Some (1/2), ru_decay := Some (1/2)\<rparr>"
  have temp: "floor_temperature ?args = 1/100" "start_temperature None ?args [plain_edge ''a'' ''b''] (1/100) = 1/2"
    "effective_decay (ru_decay ?args) (1/2) (1/100) = 1/2"
    by (simp_all add: start_temperature_def floor_temperature_def effective_temperature_def effective_decay_def default_run_def max_def)
  have "(\<forall>q. fst (run quiet_random plain_energy False None None ?args [plain_edge ''a'' ''b''] 0) = Some q \<longrightarrow> ar_iterations q \<le> Suc 6)
      \<and> ((1/2 :: rat) \<le> 1 \<longrightarrow> (\<exists>q. fst (run quiet_random plain_energy False None None ?args [plain_edge ''a'' ''b''] 0) = Some q))"
  proof (rule cooling_ends_the_run [where T = "1/2"])
    show "1/2 = start_temperature None ?args [plain_edge ''a'' ''b''] (floor_temperature ?args)" unfolding temp by simp
    show "1/2 * effective_decay (ru_decay ?args) (1/2) (floor_temperature ?args) ^ 6 \<le> floor_temperature ?args"
      unfolding temp by (simp add: power_divide)
  qed (simp_all add: plain_edge_def edge_ok_def)
  then show ?thesis by auto
qed

text \<open>
  Where nothing was sensed and no start temperature is given, as in every recalibration of the graph without prediction errors,
  one sweep is all: the 500 iterations allowed play no part, and the run never counts as converged.
\<close>

theorem default_run_is_one_sweep:
  assumes "graph \<noteq> []" "list_all edge_ok graph" "1 \<le> max_iter"
  shows "\<exists>q. fst (run A M vectorised (Some (\<lambda>_. 0)) pt (default_run\<lparr>ru_max_iter := max_iter\<rparr>) graph r) = Some q
    \<and> ar_iterations q = 1 \<and> \<not> ar_converged q"
proof -
  let ?args = "default_run\<lparr>ru_max_iter := max_iter\<rparr>"
  have temp: "floor_temperature ?args = 1/100" "start_temperature (Some (\<lambda>_. 0)) ?args graph (1/100) = 1/100"
    by (simp_all add: start_temperature_def floor_temperature_def effective_temperature_def default_run_def max_def)
  obtain n where n: "nat (max 1 max_iter) = Suc n" using assms(3) by (cases "nat (max 1 max_iter)") auto
  have once: "anneal_loop sw (1/100) d (Suc n) (1/100) None 0 [] s = (fst (sw (1/100) s), [snd (sw (1/100) s)], 1, False, 1/100)"
    for sw :: "rat \<Rightarrow> 's \<Rightarrow> 's \<times> rat" and d s
    by (simp add: Let_def split: prod.split)
  have "0 \<le> py_round 6 (1/100)" "py_round 6 (1/100) \<le> 1" using py_round_unit [of "1/100" 6] by auto
  then show ?thesis
    using assms(1) by (simp add: run_def run_reference_scalar_def run_vectorized_numpy_def Let_def temp n once new_result_Some
        del: anneal_loop.simps)
qed

text \<open>
  The start temperature is not bounded, the one reported is: a run from temperature 2 whose iterations are used up while
  it is still hotter than 1 loses its result to the validation of \<open>AnnealingResult\<close>.
\<close>

theorem hot_run_has_no_result:
  assumes "graph \<noteq> []"
  shows "fst (run A M vectorised None pt (default_run\<lparr>ru_T_init := Some 2, ru_max_iter := 1\<rparr>) graph r) = None"
proof -
  let ?args = "default_run\<lparr>ru_T_init := Some 2, ru_max_iter := 1\<rparr>"
  have temp: "floor_temperature ?args = 1/100" "start_temperature None ?args graph (1/100) = 2"
    "effective_decay None 2 (1/100) = 19/20"
    by (simp_all add: start_temperature_def floor_temperature_def effective_temperature_def effective_decay_def default_run_def max_def)
  have once: "anneal_loop sw (1/100) (19/20) (Suc 0) 2 None 0 [] s = (fst (sw 2 s), [snd (sw 2 s)], 1, False, 19/10)"
    for sw :: "rat \<Rightarrow> 's \<Rightarrow> 's \<times> rat" and s
    by (simp add: Let_def split: prod.split)
  have none: "new_result es trace n c (py_round 6 (19/10)) = None" for es trace n c
    by (simp add: new_result_def py_round_def round_even_def)
  then show ?thesis
    using assms by (simp add: run_def run_reference_scalar_def run_vectorized_numpy_def Let_def temp(1,2) once
        del: anneal_loop.simps) (simp add: default_run_def temp(3) once none Let_def del: anneal_loop.simps)
qed

end
