(* ===== verification/AnnealKernels.thy ===== *)
theory AnnealKernels
  imports Annealer
begin

text \<open>
  The two kernels of the annealer compared. The array kernel keeps per node what the reference kernel recomputes from its index,
  and both are the same machine where they count the nodes alike: the reference counts the nodes that are the source of an
  edge, the arrays count all nodes.
\<close>

section \<open>Sums over the edges of a node\<close>

definition src_sum :: "(causal_edge \<Rightarrow> rat) \<Rightarrow> causal_edge list \<Rightarrow> string \<Rightarrow> rat" where
  "src_sum f es n = sum_list (map f (filter (\<lambda>e. ce_source e = n) es))"

definition crit_weight :: "causal_edge \<Rightarrow> rat" where
  "crit_weight e = crit_part (is_critical_edge e) (ce_conf e)"

lemma src_sum_update:
  "i < length es \<Longrightarrow> ce_source e = ce_source (es ! i) \<Longrightarrow>
     src_sum f (es[i := e]) n = src_sum f es n + (if n = ce_source e then f e - f (es ! i) else 0)"
proof (induction es arbitrary: i)
  case (Cons a es)
  then show ?case by (cases i) (auto simp: src_sum_def)
qed simp

lemma src_sum_crit:
  "src_sum crit_weight es n = sum_list (map ce_conf (filter is_critical_edge (filter (\<lambda>e. ce_source e = n) es)))"
  by (induction es) (auto simp: src_sum_def crit_weight_def crit_part_def)

lemma add_at_length [simp]: "length (add_at ids vs a) = length a"
proof -
  have "length (fold (\<lambda>(i, v) a. a[i := a ! i + v]) ps a) = length a" for ps :: "(nat \<times> rat) list"
    by (induction ps arbitrary: a) auto
  then show ?thesis by (simp add: add_at_def)
qed

lemma add_at_nth:
  "j < length a \<Longrightarrow> add_at ids vs a ! j = a ! j + sum_list (map snd (filter (\<lambda>(i, v). i = j) (zip ids vs)))"
proof -
  have "j < length a \<Longrightarrow> fold (\<lambda>(i, v) a. a[i := a ! i + v]) ps a ! j = a ! j + sum_list (map snd (filter (\<lambda>(i, v). i = j) ps))"
    for ps :: "(nat \<times> rat) list"
  proof (induction ps arbitrary: a)
    case (Cons p ps)
    then show ?case by (cases p) (auto simp: nth_list_update)
  qed simp
  then show "j < length a \<Longrightarrow> ?thesis" by (simp add: add_at_def)
qed

section \<open>Numbers of nodes\<close>

definition nodes_of :: "causal_edge list \<Rightarrow> string set" where
  "nodes_of graph = ce_source ` set graph \<union> ce_target ` set graph"

definition ids_ok :: "(string, nat) dict \<Rightarrow> bool" where
  "ids_ok ids \<longleftrightarrow> wf_dict ids \<and> map snd ids = [0..<length ids]"

lemma node_id_ok: "ids_ok ids \<Longrightarrow> ids_ok (node_id n ids) \<and> set (dkeys (node_id n ids)) = insert n (set (dkeys ids))"
proof (cases "n \<in> set (dkeys ids)")
  case False
  then have "dset n v ids = ids @ [(n, v)]" for v
    by (induction ids) auto
  with False show "ids_ok ids \<Longrightarrow> ?thesis" by (auto simp: ids_ok_def node_id_def wf_dict_def)
qed (auto simp: node_id_def)

lemma node_ids_ok: "ids_ok (node_ids graph) \<and> set (dkeys (node_ids graph)) = nodes_of graph"
proof -
  have "ids_ok ids \<Longrightarrow> ids_ok (fold (\<lambda>e ids. node_id (ce_target e) (node_id (ce_source e) ids)) graph ids)
      \<and> set (dkeys (fold (\<lambda>e ids. node_id (ce_target e) (node_id (ce_source e) ids)) graph ids)) = set (dkeys ids) \<union> nodes_of graph"
    for ids
  proof (induction graph arbitrary: ids)
    case (Cons e es)
    with node_id_ok [of ids "ce_source e"] node_id_ok [of "node_id (ce_source e) ids" "ce_target e"] show ?case
      by (auto simp: nodes_of_def)
  qed (simp add: nodes_of_def)
  from this [of "[]"] show ?thesis by (simp add: node_ids_def ids_ok_def)
qed

lemma id_of_nth: "ids_ok ids \<Longrightarrow> n \<in> set (dkeys ids) \<Longrightarrow> id_of ids n < length ids \<and> dkeys ids ! id_of ids n = n"
proof -
  assume ok: "ids_ok ids" and n: "n \<in> set (dkeys ids)"
  then obtain i where i: "i < length ids" "dkeys ids ! i = n" by (metis in_set_conv_nth length_map)
  with ok have "snd (ids ! i) = i" unfolding ids_ok_def by (metis nth_map nth_upt add_0)
  with i have "(n, i) \<in> set ids" by (metis nth_map nth_mem prod.collapse)
  with ok have "dget ids n = Some i" by (simp add: ids_ok_def wf_dict_def)
  with i show ?thesis by (simp add: id_of_def dget_default_def)
qed

lemma id_of_inject:
  "ids_ok ids \<Longrightarrow> m \<in> set (dkeys ids) \<Longrightarrow> n \<in> set (dkeys ids) \<Longrightarrow> id_of ids m = id_of ids n \<longleftrightarrow> m = n"
  by (metis id_of_nth)

lemma length_node_ids: "length (node_ids graph) = card (nodes_of graph)"
  using node_ids_ok [of graph] by (metis distinct_card ids_ok_def length_map wf_dict_def)

text \<open>Adding values at the numbers of the sources sums them per source.\<close>

lemma add_at_sources:
  assumes "n \<in> nodes_of graph"
  shows "add_at (map (\<lambda>e. id_of (node_ids graph) (ce_source e)) graph) (map f graph) (replicate (length (node_ids graph)) 0)
     ! id_of (node_ids graph) n = src_sum f graph n"
proof -
  have ok: "ids_ok (node_ids graph)" "set (dkeys (node_ids graph)) = nodes_of graph" using node_ids_ok by auto
  let ?id = "id_of (node_ids graph)"
  have "sum_list (map snd (filter (\<lambda>(i, v). i = ?id n) (zip (map (\<lambda>e. ?id (ce_source e)) es) (map f es)))) = src_sum f es n"
    if "set es \<subseteq> set graph" for es
    using that
  proof (induction es)
    case (Cons e es)
    then have "?id (ce_source e) = ?id n \<longleftrightarrow> ce_source e = n"
      using assms by (intro id_of_inject [OF ok(1)]) (auto simp: ok(2) nodes_of_def simp del: set_map)
    with Cons show ?case by (simp add: src_sum_def)
  qed (simp add: src_sum_def)
  moreover have "?id n < length (node_ids graph)" using id_of_nth [OF ok(1)] assms ok(2) by simp
  ultimately show ?thesis by (simp add: add_at_nth)
qed

section \<open>The index of references\<close>

lemmas keys_dset = set_dset [unfolded set_map]

definition refs_of :: "causal_edge list \<Rightarrow> string \<Rightarrow> (nat \<times> causal_edge) list" where
  "refs_of es n = map (\<lambda>i. (i, es ! i)) (filter (\<lambda>i. ce_source (es ! i) = n) [0..<length es])"

definition index_ok :: "edge_index \<Rightarrow> causal_edge list \<Rightarrow> bool" where
  "index_ok idx es \<longleftrightarrow> wf_dict idx \<and> set (dkeys idx) = ce_source ` set es
     \<and> (\<forall>n \<in> ce_source ` set es. dget idx n = Some (refs_of es n))"

lemma refs_of_snoc:
  "refs_of (es @ [e]) n = refs_of es n @ (if ce_source e = n then [(length es, e)] else [])"
proof -
  have "filter (\<lambda>i. ce_source ((es @ [e]) ! i) = n) [0..<length es] = filter (\<lambda>i. ce_source (es ! i) = n) [0..<length es]"
    by (rule filter_cong) (auto simp: nth_append)
  then show ?thesis by (auto simp: refs_of_def nth_append)
qed

lemma refs_of_none: "n \<notin> ce_source ` set es \<Longrightarrow> refs_of es n = []"
  by (force simp: refs_of_def filter_empty_conv)

lemma map_snd_refs_of: "map snd (refs_of es n) = filter (\<lambda>e. ce_source e = n) es"
proof (induction es rule: rev_induct)
  case (snoc e es)
  then show ?case by (simp add: refs_of_snoc)
qed (simp add: refs_of_def)

lemma build_index_ok: "index_ok idx pre \<Longrightarrow> index_ok (build_index (length pre) es idx) (pre @ es)"
proof (induction es arbitrary: pre idx)
  case (Cons e es)
  let ?idx = "dset (ce_source e) (dget_default idx (ce_source e) [] @ [(length pre, e)]) idx"
  have "dget_default idx (ce_source e) [] = refs_of pre (ce_source e)"
    using Cons.prems by (cases "ce_source e \<in> ce_source ` set pre")
      (auto simp: index_ok_def dget_default_def refs_of_none dget_None_iff [THEN iffD2] split: option.splits)
  with Cons.prems have "index_ok ?idx (pre @ [e])"
    by (auto simp: index_ok_def keys_dset refs_of_snoc refs_of_none)
  from Cons.IH [OF this] show ?case by simp
qed simp

lemma built_index_ok: "index_ok (build_index 0 graph []) graph"
  using build_index_ok [of "[]" "[]" graph] by (simp add: index_ok_def)

lemma replace_ref_map:
  "distinct js \<Longrightarrow> i \<in> set js \<Longrightarrow> replace_ref i c (map (\<lambda>j. (j, f j)) js) = map (\<lambda>j. (j, if j = i then c else f j)) js"
  by (induction js) auto

lemma index_ok_update:
  assumes ok: "index_ok idx es" and i: "i < length es" and src: "ce_source c = ce_source (es ! i)"
  shows "index_ok (case dget idx (ce_source c) of None \<Rightarrow> idx | Some refs \<Rightarrow> dset (ce_source c) (replace_ref i c refs) idx) (es[i := c])"
proof -
  have srcs: "ce_source (es[i := c] ! j) = ce_source (es ! j)" for j
    using i src by (cases "j = i") auto
  have set: "ce_source ` set (es[i := c]) = ce_source ` set es"
  proof -
    have "map ce_source (es[i := c]) = map ce_source es" by (rule nth_equalityI) (auto simp: srcs)
    then show ?thesis by (metis set_map)
  qed
  have refs: "refs_of (es[i := c]) n = map (\<lambda>j. (j, if j = i then c else es ! j)) (filter (\<lambda>j. ce_source (es ! j) = n) [0..<length es])" for n
    using i by (auto simp: refs_of_def srcs)
  have in_keys: "ce_source c \<in> ce_source ` set es" using i src by auto
  then have get: "dget idx (ce_source c) = Some (refs_of es (ce_source c))" using ok unfolding index_ok_def by blast
  have here: "replace_ref i c (refs_of es (ce_source c)) = refs_of (es[i := c]) (ce_source c)"
    unfolding refs unfolding refs_of_def by (rule replace_ref_map) (use i src in auto)
  have other: "refs_of (es[i := c]) n = refs_of es n" if "n \<noteq> ce_source c" for n
    unfolding refs unfolding refs_of_def using that src by auto
  show ?thesis
    using ok in_keys by (auto simp: index_ok_def get set here other keys_dset insert_absorb)
qed

lemma length_index: "index_ok idx es \<Longrightarrow> length idx = card (ce_source ` set es)"
  by (metis distinct_card index_ok_def length_map wf_dict_def)


section \<open>The simulation\<close>

definition counts_alike :: "causal_edge list \<Rightarrow> bool" where
  "counts_alike graph \<longleftrightarrow>
     ce_target ` set graph \<subseteq> ce_source ` set graph \<or> ce_target ` set graph \<inter> ce_source ` set graph = {}"

definition same_state :: "causal_edge list \<Rightarrow> 'r ref_state \<Rightarrow> 'r arr_state \<Rightarrow> bool" where
  "same_state graph s a \<longleftrightarrow>
     rs_working s = map2 with_conf (as_w a) graph \<and> unit_weights (length graph) (as_w a) \<and> rs_rng s = as_rng a
     \<and> index_ok (rs_index s) (rs_working s)
     \<and> length (as_total a) = length (node_ids graph) \<and> length (as_crit a) = length (node_ids graph)
     \<and> (\<forall>n \<in> nodes_of graph.
          as_total a ! id_of (node_ids graph) n = src_sum ce_conf (rs_working s) n
          \<and> as_crit a ! id_of (node_ids graph) n = src_sum crit_weight (rs_working s) n)"

lemma with_conf_simps [simp]:
  "ce_source (with_conf w e) = ce_source e" "ce_predicate (with_conf w e) = ce_predicate e"
  "ce_target (with_conf w e) = ce_target e" "ce_conf (with_conf w e) = w" "ce_impact (with_conf w e) = ce_impact e"
  "ce_meta (with_conf w e) = ce_meta e" "with_conf v (with_conf w e) = with_conf v e"
  "is_critical_edge (with_conf w e) = is_critical_edge e" "edge_precision rp pt (with_conf w e) = edge_precision rp pt e"
  by (simp_all add: with_conf_def is_critical_edge_def edge_precision_def edge_channel_def cong: option.case_cong)

lemma same_sources:
  "length ws = length graph \<Longrightarrow> ce_source ` set (map2 with_conf ws graph) = ce_source ` set graph"
proof -
  assume "length ws = length graph"
  then have "map ce_source (map2 with_conf ws graph) = map ce_source graph" by (intro nth_equalityI) auto
  then show ?thesis by (metis set_map)
qed

lemma same_degree:
  "length ws = length graph \<Longrightarrow>
     length (filter (\<lambda>e. ce_source e = n) (map2 with_conf ws graph)) = length (filter (\<lambda>e. ce_source e = n) graph)"
  by (induction ws graph rule: list_induct2) auto

lemma degree_sum: "src_sum (\<lambda>_. 1) es n = of_nat (length (filter (\<lambda>e. ce_source e = n) es))"
  by (induction es) (auto simp: src_sum_def)

lemma kernel_degree:
  assumes "n \<in> nodes_of graph"
  shows "k_degree (build_kernel M pt graph) ! id_of (node_ids graph) n = of_nat (length (filter (\<lambda>e. ce_source e = n) graph))"
  using add_at_sources [OF assms, of "\<lambda>_. 1"]
  by (simp add: build_kernel_def Let_def degree_sum map_replicate_const)

lemma kernel_size: "length (k_degree (build_kernel M pt graph)) = length (node_ids graph)"
  by (simp add: build_kernel_def Let_def)

lemma critic_agrees:
  assumes R: "same_state graph s a" and n: "n \<in> nodes_of graph"
    and alike: "n \<in> ce_source ` set graph \<Longrightarrow> ce_source ` set graph = nodes_of graph"
  shows "critic_for_node (build_kernel M pt graph) a (id_of (node_ids graph) n) = trainable_critic M n (index_context (rs_index s))"
proof -
  let ?W = "rs_working s" and ?rel = "filter (\<lambda>e. ce_source e = n) (rs_working s)"
  have len: "length (as_w a) = length graph" and W: "?W = map2 with_conf (as_w a) graph" and idx: "index_ok (rs_index s) ?W"
    using R by (auto simp: same_state_def unit_weights_def)
  have srcs: "ce_source ` set ?W = ce_source ` set graph" unfolding W by (rule same_sources [OF len])
  have rel: "relevant_edges M n (index_context (rs_index s)) = ?rel"
  proof (cases "n \<in> ce_source ` set ?W")
    case True
    with idx have "dget (rs_index s) n = Some (refs_of ?W n)" unfolding index_ok_def by blast
    then show ?thesis by (simp add: relevant_edges_def index_context_def dget_default_def dget_map_val map_snd_refs_of)
  next
    case False
    with idx have "dget (rs_index s) n = None" unfolding index_ok_def dget_None_iff by blast
    moreover from False have "?rel = []" by (auto simp: filter_empty_conv)
    ultimately show ?thesis by (simp add: relevant_edges_def index_context_def dget_default_def dget_map_val)
  qed
  have deg: "k_degree (build_kernel M pt graph) ! id_of (node_ids graph) n = of_nat (length ?rel)"
    unfolding kernel_degree [OF n] W same_degree [OF len] ..
  have sums: "as_total a ! id_of (node_ids graph) n = sum_list (map ce_conf ?rel)"
    "as_crit a ! id_of (node_ids graph) n = sum_list (map ce_conf (filter is_critical_edge ?rel))"
    using R n by (auto simp: same_state_def src_sum_crit) (simp add: src_sum_def)
  show ?thesis
  proof (cases "?rel = []")
    case True
    then show ?thesis by (simp add: critic_for_node_def trainable_critic_def rel deg)
  next
    case False
    then have "n \<in> ce_source ` set ?W" by (auto simp: filter_empty_conv)
    with alike srcs have "ce_source ` set graph = nodes_of graph" by simp
    then have "length (rs_index s) = length (node_ids graph)"
      using length_index [OF idx] srcs by (simp add: length_node_ids)
    then have known: "known_nodes_count (index_context (rs_index s)) (length ?rel) = length (node_ids graph)"
      by (simp add: known_nodes_count_def index_context_def)
    from False have pos: "\<not> (of_nat (length ?rel) :: rat) \<le> 0" by simp
    show ?thesis
      by (simp only: critic_for_node_def trainable_critic_def rel deg sums kernel_size known pos False Let_def if_False)
  qed
qed

lemma energy_agrees:
  assumes R: "same_state graph s a" and i: "i < length graph" and alike: "counts_alike graph"
  shows "compute_edge_energy_and_gradient M (with_conf w (graph ! i)) (index_context (rs_index s)) l
    = edge_energy_and_grad (build_kernel M pt graph) l a i w"
proof -
  let ?n = "ce_target (graph ! i)"
  have "?n \<in> ce_target ` set graph" using i by simp
  then have n: "?n \<in> nodes_of graph" and al: "?n \<in> ce_source ` set graph \<Longrightarrow> ce_source ` set graph = nodes_of graph"
    using alike by (auto simp: nodes_of_def counts_alike_def)
  have k: "k_costs (build_kernel M pt graph) ! i = intrinsic_cost M (ce_source (graph ! i)) (ce_predicate (graph ! i)) None"
    "k_targets (build_kernel M pt graph) ! i = id_of (node_ids graph) ?n"
    using i by (simp_all add: build_kernel_def Let_def)
  show ?thesis
    by (simp add: edge_energy_and_grad_def compute_edge_energy_and_gradient_def k critic_agrees [OF R n al] Let_def)
qed

lemma step_agrees:
  assumes R: "same_state graph s a" and i: "i < length graph" and alike: "counts_alike graph"
    and K_def: "K = build_kernel M pt graph"
  shows "same_state graph (fst (ref_step A M pt l t i (s, tot))) (fst (arr_step A K l t i (a, tot)))
    \<and> snd (ref_step A M pt l t i (s, tot)) = snd (arr_step A K l t i (a, tot))"
proof -
  let ?e = "graph ! i" and ?w = "as_w a ! i" and ?n = "ce_source (graph ! i)"
  have len: "length (as_w a) = length graph" and W: "rs_working s = map2 with_conf (as_w a) graph"
    and idx: "index_ok (rs_index s) (rs_working s)"
    using R by (auto simp: same_state_def unit_weights_def)
  have at: "rs_working s ! i = with_conf ?w ?e" using len i by (simp add: W)
  have kp: "k_precisions K ! i = edge_precision (em_repr M) pt ?e" and kc: "k_critical K ! i = is_critical_edge ?e"
    and ks: "k_sources K ! i = id_of (node_ids graph) ?n"
    using i by (simp_all add: K_def build_kernel_def Let_def)
  have node: "?n \<in> nodes_of graph" using i by (auto simp: nodes_of_def)
  have accepted: "same_state graph
      (s\<lparr>rs_working := (rs_working s)[i := with_conf p ?e],
         rs_index := (case dget (rs_index s) ?n of None \<Rightarrow> rs_index s | Some refs \<Rightarrow> dset ?n (replace_ref i (with_conf p ?e) refs) (rs_index s)),
         rs_rng := r2\<rparr>)
      (a\<lparr>as_w := (as_w a)[i := p],
         as_total := (as_total a)[id_of (node_ids graph) ?n := as_total a ! id_of (node_ids graph) ?n + (p - ?w)],
         as_crit := (if is_critical_edge ?e then (as_crit a)[id_of (node_ids graph) ?n := as_crit a ! id_of (node_ids graph) ?n + (p - ?w)] else as_crit a),
         as_rng := r2\<rparr>)" if "0 \<le> p" "p \<le> 1" for p r2
  proof -
    let ?W = "(rs_working s)[i := with_conf p ?e]"
    have lenW: "i < length (rs_working s)" using len i by (simp add: W)
    have new: "?W = map2 with_conf ((as_w a)[i := p]) graph"
      using len i by (intro nth_equalityI) (auto simp: W nth_list_update)
    have unit: "unit_weights (length graph) ((as_w a)[i := p])"
      using R that by (auto simp: same_state_def unit_weights_def dest!: set_update_subset_insert [THEN subsetD])
    have index: "index_ok (case dget (rs_index s) ?n of None \<Rightarrow> rs_index s
        | Some refs \<Rightarrow> dset ?n (replace_ref i (with_conf p ?e) refs) (rs_index s)) ?W"
      using index_ok_update [OF idx lenW, of "with_conf p ?e"] at by (simp cong: option.case_cong)
    have id: "id_of (node_ids graph) ?n = id_of (node_ids graph) n \<longleftrightarrow> n = ?n"
      "id_of (node_ids graph) ?n < length (node_ids graph)" if "n \<in> nodes_of graph" for n
      using node_ids_ok [of graph] that node id_of_inject id_of_nth by blast+
    have sums: "src_sum ce_conf ?W n = src_sum ce_conf (rs_working s) n + (if n = ?n then p - ?w else 0)"
      "src_sum crit_weight ?W n = src_sum crit_weight (rs_working s) n + (if n = ?n \<and> is_critical_edge ?e then p - ?w else 0)" for n
      using lenW at by (simp_all add: src_sum_update crit_weight_def crit_part_def)
    have old: "as_total a ! id_of (node_ids graph) n = src_sum ce_conf (rs_working s) n"
      "as_crit a ! id_of (node_ids graph) n = src_sum crit_weight (rs_working s) n" if "n \<in> nodes_of graph" for n
      using R that by (simp_all add: same_state_def)
    have len2: "length (as_total a) = length (node_ids graph)" "length (as_crit a) = length (node_ids graph)"
      using R by (simp_all add: same_state_def)
    have tot: "(as_total a)[id_of (node_ids graph) ?n := as_total a ! id_of (node_ids graph) ?n + (p - ?w)] ! id_of (node_ids graph) n
        = src_sum ce_conf ?W n" if "n \<in> nodes_of graph" for n
      using that by (simp add: nth_list_update id len2 old node sums)
    have crit: "(if is_critical_edge ?e then (as_crit a)[id_of (node_ids graph) ?n := as_crit a ! id_of (node_ids graph) ?n + (p - ?w)]
        else as_crit a) ! id_of (node_ids graph) n = src_sum crit_weight ?W n" if "n \<in> nodes_of graph" for n
      using that by (simp add: nth_list_update id len2 old node sums)
    show ?thesis
      unfolding same_state_def using new unit index tot crit len2 by simp
  qed
  have rng: "rs_rng s = as_rng a" using R by (simp add: same_state_def)
  have rejected: "same_state graph (s\<lparr>rs_rng := r2\<rparr>) (a\<lparr>as_rng := r2\<rparr>)" for r2
    using R unfolding same_state_def by (elim conjE) simp
  obtain e g where en: "edge_energy_and_grad K l a i ?w = (e, g)" by fastforce
  obtain p r1 where pr: "propose A t (edge_precision (em_repr M) pt ?e) ?w g (as_rng a) = (p, r1)" by fastforce
  obtain ce cg where cen: "edge_energy_and_grad K l a i p = (ce, cg)" by fastforce
  obtain ok r2 where me: "metropolis A t (ce - e) r1 = (ok, r2)" by fastforce
  note energy = energy_agrees [OF R i alike, of M _ l pt, folded K_def]
  show ?thesis
    using accepted [OF conjunct1 [OF propose_unit [OF pr]] conjunct2 [OF propose_unit [OF pr]], of r2] rejected [of r2]
    by (simp add: ref_step_def arr_step_def at energy en cen pr me kp kc ks rng Let_def cong: option.case_cong)
qed


lemma sweep_agrees:
  assumes "same_state graph s a" "counts_alike graph" "K = build_kernel M pt graph"
  shows "same_state graph (fst (ref_sweep A M pt l (length graph) t s)) (fst (arr_sweep A K l (length graph) t a))
    \<and> snd (ref_sweep A M pt l (length graph) t s) = snd (arr_sweep A K l (length graph) t a)"
proof -
  have "same_state graph (fst (fold (ref_step A M pt l t) [0..<m] (s, 0))) (fst (fold (arr_step A K l t) [0..<m] (a, 0)))
    \<and> snd (fold (ref_step A M pt l t) [0..<m] (s, 0)) = snd (fold (arr_step A K l t) [0..<m] (a, 0))" if "m \<le> length graph" for m
    using that
  proof (induction m)
    case 0
    with assms(1) show ?case by simp
  next
    case (Suc m)
    obtain s1 e1 where 1: "fold (ref_step A M pt l t) [0..<m] (s, 0) = (s1, e1)" by fastforce
    obtain a1 e2 where 2: "fold (arr_step A K l t) [0..<m] (a, 0) = (a1, e2)" by fastforce
    from Suc have "same_state graph s1 a1" "e1 = e2" by (auto simp: 1 2)
    with step_agrees [OF this(1) _ assms(2,3), of m A l t e1] Suc.prems show ?case by (simp add: 1 2)
  qed
  then show ?thesis by (simp add: ref_sweep_def arr_sweep_def)
qed

lemma initial_agrees:
  assumes ok: "list_all edge_ok graph"
  shows "same_state graph \<lparr>rs_working = graph, rs_index = build_index 0 graph [], rs_rng = r\<rparr>
    (build_arrays (build_kernel M pt graph) graph r)"
proof -
  have clamp: "clamp_conf (FNum (ce_conf e)) = ce_conf e" if "e \<in> set graph" for e
    using ok that by (auto simp: list_all_iff edge_ok_def)
  then have w: "map (\<lambda>e. clamp_conf (FNum (ce_conf e))) graph = map ce_conf graph" by (intro map_cong) auto
  have self: "with_conf (ce_conf e) e = e" for e by (simp add: with_conf_def)
  have "graph = map2 with_conf (map ce_conf graph) graph" by (intro nth_equalityI) (auto simp: self)
  moreover have "unit_weights (length graph) (map ce_conf graph)"
    using ok by (auto simp: unit_weights_def list_all_iff edge_ok_def)
  moreover have "map2 crit_part (map is_critical_edge graph) (map ce_conf graph) = map crit_weight graph"
    by (intro nth_equalityI) (auto simp: crit_weight_def)
  ultimately show ?thesis
    unfolding same_state_def build_arrays_def Let_def w
    by (simp add: build_kernel_def Let_def built_index_ok add_at_sources)
qed

text \<open>
  C23: The array kernel is the reference kernel: on a valid graph in which every node is the source of an edge, or in which no
  edge leads to such a node, both return the same result, every edge, energy and temperature, and leave the generator of
  random numbers in the same state, whatever that generator draws.
\<close>

theorem array_kernel_refines_reference:
  assumes "list_all edge_ok graph" and "counts_alike graph"
  shows "run_vectorized_numpy A M graph T_init T_min decay max_iter lambda_reg pt r
    = run_reference_scalar A M graph T_init T_min decay max_iter lambda_reg pt r"
proof -
  let ?K = "build_kernel M pt graph" and ?n = "length graph"
  let ?s0 = "\<lparr>rs_working = graph, rs_index = build_index 0 graph [], rs_rng = r\<rparr>"
  let ?a0 = "build_arrays ?K graph r"
  obtain s out where 1: "anneal_loop (ref_sweep A M pt lambda_reg ?n) T_min decay max_iter (max T_min T_init) None 0 [] ?s0 = (s, out)"
    by (meson surj_pair)
  obtain a out' where 2: "anneal_loop (arr_sweep A ?K lambda_reg ?n) T_min decay max_iter (max T_min T_init) None 0 [] ?a0 = (a, out')"
    by (meson surj_pair)
  have "same_state graph s a \<and> out = out'"
    using anneal_loop_sim [of "same_state graph" "ref_sweep A M pt lambda_reg ?n" "arr_sweep A ?K lambda_reg ?n",
        OF sweep_agrees [OF _ assms(2) refl] initial_agrees [OF assms(1)],
        of T_min decay max_iter "max T_min T_init" None 0 "[]" r M pt] 1 2 by simp
  then show ?thesis
    by (cases out, cases "snd (snd out)") (simp add: run_vectorized_numpy_def run_reference_scalar_def 1 2 Let_def same_state_def split: prod.split)
qed


theorem array_kernel_refines_reference_witness:
  "run_vectorized_numpy quiet_random plain_energy [plain_edge ''a'' ''b'', plain_edge ''b'' ''a''] 1 (1/100) (1/2) 9 (1/10) None 0
    = run_reference_scalar quiet_random plain_energy [plain_edge ''a'' ''b'', plain_edge ''b'' ''a''] 1 (1/100) (1/2) 9 (1/10) None 0"
  using array_kernel_refines_reference [of "[plain_edge ''a'' ''b'', plain_edge ''b'' ''a'']"]
  by (simp add: plain_edge_def edge_ok_def counts_alike_def)

section \<open>Where the kernels part\<close>

definition x_edge :: "string \<Rightarrow> string \<Rightarrow> causal_edge" where
  "x_edge a b = \<lparr>ce_source = a, ce_predicate = ''x'', ce_target = b, ce_conf = 1/2, ce_impact = [], ce_meta = []\<rparr>"

definition chain_graph :: "causal_edge list" where
  "chain_graph = [x_edge ''a'' ''b'', x_edge ''b'' ''c'']"

abbreviation chain_kernel :: kernel where
  "chain_kernel \<equiv> build_kernel plain_energy None chain_graph"

abbreviation chain_refs :: "nat ref_state" where
  "chain_refs \<equiv> \<lparr>rs_working = chain_graph, rs_index = build_index 0 chain_graph [], rs_rng = 0\<rparr>"

lemma chain_critics:
  "trainable_critic plain_energy ''b'' (index_context (build_index 0 chain_graph [])) = 1/2"
  "critic_for_node chain_kernel (build_arrays chain_kernel chain_graph (0::nat)) (Suc 0) = 333333/1000000"
  by code_simp+

lemma chain_parts:
  "intrinsic_cost plain_energy ''a'' ''x'' None = 1/10" "k_costs chain_kernel = [1/10, 1/10]" "k_targets chain_kernel = [1, 2]"
  "k_precisions chain_kernel = [1, 1]" "as_w (build_arrays chain_kernel chain_graph (0::nat)) = [1/2, 1/2]"
  "as_rng (build_arrays chain_kernel chain_graph (0::nat)) = 0" "py_round 6 1 = 1"
  by code_simp+

lemma quiet_propose: "propose quiet_random 1 p w g r = (max 0 (min 1 (w - g)), Suc r)"
  by (simp add: propose_def quiet_random_def)

lemma accepted_fall: "dE \<le> 0 \<Longrightarrow> metropolis A t dE r = (True, r)"
  by (simp add: metropolis_def)

lemma chain_energies:
  "energy_of (1/10) (1/2) 0 (1/2) = (11/40, - (9/25))" "fst (energy_of (1/10) (1/2) 0 (43/50)) \<le> 11/40"
  "energy_of (1/10) (333333/1000000) 0 (1/2) = (7000003/20000000, - (6333337/12500000))" "fst (energy_of (1/10) (333333/1000000) 0 1) \<le> 7000003/20000000"
  by code_simp+

lemma later_step_keeps_head:
  "rs_working (fst (ref_step A M pt l t (Suc i) x)) ! 0 = rs_working (fst x) ! 0"
  "as_w (fst (arr_step A K l t (Suc i) y)) ! 0 = as_w (fst y) ! 0"
  by (cases x, cases y, simp add: ref_step_def arr_step_def Let_def split: prod.split)+

lemma chain_first_steps:
  "rs_working (fst (ref_step quiet_random plain_energy None 0 1 0 (chain_refs, 0))) ! 0 = with_conf (43/50) (x_edge ''a'' ''b'')"
  "as_w (fst (arr_step quiet_random chain_kernel 0 1 0 (build_arrays chain_kernel chain_graph (0::nat), 0))) ! 0 = 1"
proof -
  obtain ce cg where 1: "energy_of (1/10) (1/2) 0 (43/50) = (ce, cg)" by fastforce
  obtain de dg where 2: "energy_of (1/10) (333333/1000000) 0 1 = (de, dg)" by fastforce
  have le: "ce - 11/40 \<le> 0" "de - 7000003/20000000 \<le> 0" using chain_energies(2,4) by (simp_all add: 1 2)
  have e: "chain_graph ! 0 = x_edge ''a'' ''b''" "length chain_graph = 2" by (simp_all add: chain_graph_def)
  have x: "ce_source (x_edge a b) = a" "ce_predicate (x_edge a b) = ''x''" "ce_target (x_edge a b) = b" "ce_conf (x_edge a b) = 1/2" for a b
    by (simp_all add: x_edge_def)
  show "rs_working (fst (ref_step quiet_random plain_energy None 0 1 0 (chain_refs, 0))) ! 0 = with_conf (43/50) (x_edge ''a'' ''b'')"
    by (simp add: accepted_fall [OF le(1)] ref_step_def compute_edge_energy_and_gradient_def e x chain_critics chain_parts chain_energies 1 quiet_propose Let_def)
  show "as_w (fst (arr_step quiet_random chain_kernel 0 1 0 (build_arrays chain_kernel chain_graph (0::nat), 0))) ! 0 = 1"
    by (simp add: accepted_fall [OF le(2)] arr_step_def edge_energy_and_grad_def chain_critics chain_parts chain_energies 2 quiet_propose Let_def)
qed

text \<open>
  On a chain of two edges the kernels part: its last node is the source of no edge, so the reference counts two nodes where
  the arrays count three, takes the middle one for more critical, and one sweep of the same random numbers leaves different
  confidences behind.
\<close>

theorem kernels_differ_on_a_chain:
  "map_option (\<lambda>q. ce_conf (hd (ar_edges q))) (fst (run_reference_scalar quiet_random plain_energy chain_graph 1 1 1 1 0 None (0::nat)))
     = Some (43/50)
   \<and> map_option (\<lambda>q. ce_conf (hd (ar_edges q))) (fst (run_vectorized_numpy quiet_random plain_energy chain_graph 1 1 1 1 0 None (0::nat)))
     = Some 1"
proof -
  let ?s = "fst (ref_sweep quiet_random plain_energy None 0 (length chain_graph) 1 chain_refs)"
  let ?a = "fst (arr_sweep quiet_random chain_kernel 0 (length chain_graph) 1 (build_arrays chain_kernel chain_graph (0::nat)))"
  have two: "[0..<length chain_graph] = [0, Suc 0]" by (simp add: chain_graph_def)
  have r: "rs_working ?s ! 0 = with_conf (43/50) (x_edge ''a'' ''b'')" and a: "as_w ?a ! 0 = 1"
    by (simp_all add: ref_sweep_def arr_sweep_def two later_step_keeps_head chain_first_steps)
  have "reweighted chain_graph (rs_working ?s)"
    by (rule ref_sweep_keeps) (auto simp: reweighted_def chain_graph_def x_edge_def with_conf_def intro!: exI [of _ "1/2"])
  then have "length (rs_working ?s) = 2" by (auto simp: reweighted_def chain_graph_def dest: list_all2_lengthD)
  then have hr: "hd (rs_working ?s) = with_conf (43/50) (x_edge ''a'' ''b'')" using r by (cases "rs_working ?s") auto
  have "unit_weights (length chain_graph) (as_w (build_arrays chain_kernel chain_graph (0::nat)))"
    unfolding chain_parts unit_weights_def by (simp add: chain_graph_def)
  then have "unit_weights (length chain_graph) (as_w ?a)" by (rule arr_sweep_keeps)
  then have "length (as_w ?a) = 2" by (simp add: unit_weights_def chain_graph_def)
  then have ha: "hd (map2 with_conf (as_w ?a) chain_graph) = with_conf 1 (x_edge ''a'' ''b'')"
    using a by (cases "as_w ?a") (auto simp: chain_graph_def)
  have once: "anneal_loop sw 1 1 1 (max 1 1) None 0 [] s = (fst (sw 1 s), [snd (sw 1 s)], 1, False, 1)"
    for sw :: "rat \<Rightarrow> 's \<Rightarrow> 's \<times> rat" and s
    by (simp add: Let_def split: prod.split)
  show ?thesis
    by (simp only: run_reference_scalar_def run_vectorized_numpy_def once Let_def prod.case fst_conv chain_parts)
       (simp add: new_result_Some hr ha)
qed

end
