(* ===== verification/CausalRisk.thy ===== *)
theory CausalRisk
  imports Energy Linguistics
begin

text \<open>
  \<open>causal/risk_assessor.py\<close> and the risk of a path (\<open>causal/retro_causal_edge.py\<close>). The scores of the risk levels come from
  encoders and hashed word vectors and are a parameter, as are \<open>math.exp\<close> and the folding of a text to ASCII. A call that
  passes its own vector bypasses the cache; it is the parameter's business and not modelled.
\<close>

section \<open>Risk of an action\<close>

record risk_env =
  rk_scores :: "string \<Rightarrow> (string, rat) dict"
  rk_fold :: "string \<Rightarrow> string"
  rk_exp :: "rat \<Rightarrow> rat"
  rk_prototypes :: "string list"

type_synonym risk_cache = "(string, string \<times> rat) dict"

text \<open>\<open>max(d, key=d.get)\<close>: the first key with the greatest value.\<close>

fun best_key :: "string \<times> rat \<Rightarrow> (string, rat) dict \<Rightarrow> string \<times> rat" where
  "best_key b [] = b"
| "best_key b (p # ps) = best_key (if snd b < snd p then p else b) ps"

definition blank :: "string \<Rightarrow> bool" where
  "blank s \<longleftrightarrow> py_strip s = []"

text \<open>\<open>re.findall([a-z0-9]{2,}, s)\<close>.\<close>

definition short_words :: "string \<Rightarrow> string list" where
  "short_words s = re_findall (Rep 2 None (Chr (\<lambda>c. is_digit c \<or> CHR ''a'' \<le> c \<and> c \<le> CHR ''z''))) s"

definition risk_answer :: "risk_env \<Rightarrow> string \<Rightarrow> string \<times> rat" where
  "risk_answer E act =
     (let scores = rk_scores E act;
          (best_level, peak) = best_key (hd scores) (tl scores);
          has_overlap = list_ex (\<lambda>w. w \<in> set (rk_prototypes E)) (short_words (rk_fold E act));
          has_symbolic_script = list_ex (contains_str act) ['':(){'', ''|'', ''&'', '';''];
          exponentials = map (\<lambda>(l, v). (l, rk_exp E ((v - peak) / (1/20)))) scores;
          raw_conf = dget_default exponentials best_level 0 / sum_list (map snd exponentials)
      in (best_level, if \<not> has_overlap \<and> \<not> has_symbolic_script then min (3/10) raw_conf else raw_conf))"

definition cache_put :: "string \<Rightarrow> string \<times> rat \<Rightarrow> risk_cache \<Rightarrow> risk_cache" where
  "cache_put k v c =
     (let c1 = (if 4096 \<le> length c then fold ddel (take 1024 (dkeys c)) c else c) in dset k v c1)"

definition assess_action_risk :: "risk_env \<Rightarrow> string \<Rightarrow> risk_cache \<Rightarrow> risk_cache \<times> string \<times> rat" where
  "assess_action_risk E act c =
     (if act = [] \<or> blank act then (c, ''SAFE'', 0)
      else case dget c act of
             Some r \<Rightarrow> (c, r)
           | None \<Rightarrow> (let r = risk_answer E act in (cache_put act r c, r)))"

definition is_critical :: "risk_env \<Rightarrow> string \<Rightarrow> risk_cache \<Rightarrow> risk_cache \<times> bool" where
  "is_critical E act c =
     (if act = [] \<or> blank act then (c, False)
      else (let (c', level, conf) = assess_action_risk E act c in (c', level = ''CRITICAL'' \<and> 1/2 \<le> conf)))"

definition is_volatile :: "risk_env \<Rightarrow> string \<Rightarrow> risk_cache \<Rightarrow> risk_cache \<times> bool" where
  "is_volatile E act c =
     (if act = [] \<or> blank act then (c, False)
      else (let (c', level, conf) = assess_action_risk E act c
            in (c', level \<in> {''CRITICAL'', ''MODERATE''} \<and> 1/2 \<le> conf)))"

section \<open>The cache\<close>

definition risk_cache_ok :: "risk_env \<Rightarrow> risk_cache \<Rightarrow> bool" where
  "risk_cache_ok E c \<longleftrightarrow> wf_dict c \<and> length c \<le> 4096 \<and> (\<forall>k. dget c k \<in> {None, Some (risk_answer E k)})"

lemma fold_ddel_wf: "wf_dict c \<Longrightarrow> wf_dict (fold ddel ks c)"
  by (induction ks arbitrary: c) auto

lemma fold_ddel_get: "dget (fold ddel ks c) k \<in> {None, dget c k}"
proof (induction ks arbitrary: c)
  case (Cons k' ks)
  from this [of "ddel k' c"] show ?case by (auto split: if_splits)
qed simp

lemma length_fold_ddel:
  "wf_dict c \<Longrightarrow> distinct ks \<Longrightarrow> set ks \<subseteq> set (dkeys c) \<Longrightarrow> length (fold ddel ks c) + length ks = length c"
proof (induction ks arbitrary: c)
  case (Cons k ks)
  then have "set ks \<subseteq> set (dkeys (ddel k c))" by (auto simp: dkeys_ddel simp del: set_map)
  with Cons have "length (fold ddel ks (ddel k c)) + length ks = length (ddel k c)" by simp
  with length_ddel_in [of c k] Cons.prems show ?case by simp
qed simp

lemma cache_put_ok: "risk_cache_ok E c \<Longrightarrow> risk_cache_ok E (cache_put k (risk_answer E k) c)"
proof -
  assume ok: "risk_cache_ok E c"
  let ?c1 = "if 4096 \<le> length c then fold ddel (take 1024 (dkeys c)) c else c"
  have "set (take 1024 (dkeys c)) \<subseteq> set (dkeys c)" by (rule set_take_subset)
  then have "length (fold ddel (take 1024 (dkeys c)) c) + length (take 1024 (dkeys c)) = length c"
    using ok by (intro length_fold_ddel) (auto simp: risk_cache_ok_def wf_dict_def)
  then have "length ?c1 < 4096" using ok by (auto simp: risk_cache_ok_def)
  moreover have "wf_dict ?c1" using ok by (auto simp: risk_cache_ok_def fold_ddel_wf)
  moreover have "dget ?c1 k' \<in> {None, Some (risk_answer E k')}" for k'
    using ok fold_ddel_get [of "take 1024 (dkeys c)" c k'] by (auto simp: risk_cache_ok_def split: if_splits)
  ultimately show ?thesis
    by (auto simp: risk_cache_ok_def cache_put_def Let_def length_dset split: if_splits)
qed

definition fresh_answer :: "risk_env \<Rightarrow> string \<Rightarrow> string \<times> rat" where
  "fresh_answer E act = snd (assess_action_risk E act [])"

text \<open>
  The risk of an action does not depend on what was asked before: with every cache that earlier calls can leave, the
  assessor gives the answer of an empty one, and the cache stays consistent and within its 4096 entries.
\<close>

theorem risk_cache_is_transparent:
  assumes "risk_cache_ok E c"
  shows "snd (assess_action_risk E act c) = fresh_answer E act \<and> risk_cache_ok E (fst (assess_action_risk E act c))"
proof (cases "dget c act")
  case None
  with assms cache_put_ok [OF assms, of act] show ?thesis
    by (simp add: assess_action_risk_def fresh_answer_def Let_def)
next
  case (Some r)
  with assms have "r = risk_answer E act" unfolding risk_cache_ok_def by (metis insert_iff option.distinct(1) option.inject empty_iff)
  with Some assms show ?thesis by (simp add: assess_action_risk_def fresh_answer_def Let_def)
qed

definition bare_risk :: risk_env where
  "bare_risk = \<lparr>rk_scores = (\<lambda>_. [(''CRITICAL'', 1/2), (''MODERATE'', 0), (''SAFE'', 0)]), rk_fold = py_lower, rk_exp = (\<lambda>_. 1),
     rk_prototypes = [''delete'']\<rparr>"

theorem risk_cache_is_transparent_witness:
  "snd (assess_action_risk bare_risk ''stop'' [(''delete'', risk_answer bare_risk ''delete'')]) = fresh_answer bare_risk ''stop''"
  using risk_cache_is_transparent [of bare_risk "[(''delete'', risk_answer bare_risk ''delete'')]" "''stop''"]
  by (simp add: risk_cache_ok_def wf_dict_def)

end
