(* ===== verification/CausalGraph.thy ===== *)
theory CausalGraph
  imports CausalRisk "HOL-Library.Multiset"
begin

text \<open>
  \<open>causal/retro_causal_edge.py\<close>: the searches over the causal graph. \<open>detect_cpof\<close> finds the critical points of failure,
  \<open>causal_diffusion_analysis\<close> spreads an impact in layers, \<open>causal_what_if\<close> enumerates the paths of a simulated action.

  The relations around an entity come from the graph client and are arguments: texts, where a missing one is empty, and a
  confidence that is a number. Descriptions are left out. Python's order of a set is the parameter \<open>order\<close>. A validation error
  of a model is \<open>None\<close>.
\<close>

record relation =
  rl_subject :: string
  rl_predicate :: string
  rl_object :: string
  rl_conf :: rat

type_synonym adjacency = "(string, (string \<times> string \<times> rat) list) dict"

definition prose_relations :: "string list" where
  "prose_relations = [''stated_memory'', ''raw_content'', ''documentation'', ''source_doc'']"

definition build_adjacency :: "relation list \<Rightarrow> adjacency" where
  "build_adjacency rs =
     fold (\<lambda>r adj.
       if rl_predicate r \<in> set prose_relations \<or> is_pii_entity (rl_subject r) \<or> is_pii_entity (rl_object r) then adj
       else dset (rl_subject r) (dget_default adj (rl_subject r) [] @ [(rl_object r, rl_predicate r, rl_conf r)]) adj)
     rs []"

definition default_critical_predicates :: "string list" where
  "default_critical_predicates = critical_predicates @ [''causes'', ''breaks'', ''blocks'', ''restricted_by'', ''requires_condition'']"

definition impact_type :: "string list \<Rightarrow> string \<Rightarrow> string" where
  "impact_type crit pred = (if pred \<in> set crit then ''critical_dependency'' else ''general_dependency'')"

section \<open>Risk of a path\<close>

text \<open>\<open>None\<close> is an assessor that raises.\<close>

definition semantic_multiplier :: "risk_env option \<Rightarrow> string \<Rightarrow> string \<Rightarrow> rat" where
  "semantic_multiplier rk action target =
     (case rk of
        None \<Rightarrow> 1
      | Some E \<Rightarrow>
          (let (lvl, a_conf) = fresh_answer E action;
               critical = (\<lambda>t. snd (is_critical E t []));
               volatile = (\<lambda>t. snd (is_volatile E t []))
           in if critical action \<or> critical target then 3/2
              else if volatile action then 6/5
              else if lvl = ''SAFE'' \<and> 1/2 \<le> a_conf then 1/10 else 1))"

definition step_risk :: "string list \<Rightarrow> (string, rat) dict \<Rightarrow> causal_edge \<Rightarrow> rat" where
  "step_risk crit cpof s =
     ce_conf s * dget_default cpof (ce_target s) (if ce_predicate s \<in> set crit then 1/2 else 1/5)"

definition risk_level :: "rat \<Rightarrow> string" where
  "risk_level p =
     (if 7/10 \<le> p then ''CRITICAL'' else if 2/5 \<le> p then ''HIGH'' else if 3/20 \<le> p then ''MODERATE'' else ''LOW'')"

definition lift_potential :: "bool \<Rightarrow> rat \<Rightarrow> rat \<Rightarrow> rat \<Rightarrow> rat" where
  "lift_potential has_critical conf multiplier p =
     (if has_critical \<and> p < 2/5 \<and> 7/10 \<le> conf \<and> 1/2 < multiplier then max p (18/25)
      else if has_critical \<and> p < 1/5 \<and> 2/5 \<le> conf \<and> 1/2 < multiplier then max p (9/20)
      else p)"

definition assess_path_risk ::
  "string list \<Rightarrow> risk_env option \<Rightarrow> string \<Rightarrow> causal_edge list \<Rightarrow> string \<Rightarrow> rat \<Rightarrow> rat option \<Rightarrow> (string, rat) dict \<Rightarrow> string" where
  "assess_path_risk crit rk action steps target conf jepa_divergence cpof =
     (let accum = sum_list (map (step_risk crit cpof) steps);
          jepa = (case jepa_divergence of None \<Rightarrow> 1 | Some d \<Rightarrow> d);
          multiplier = semantic_multiplier rk action target;
          norm = accum / max 1 (of_nat (length steps));
          potential = jepa * norm * conf * multiplier
      in risk_level (lift_potential (list_ex (\<lambda>s. ce_predicate s \<in> set crit) steps) conf multiplier potential))"

section \<open>Critical points of failure\<close>

definition plain_adjacency :: "relation list \<Rightarrow> (string, string list) dict" where
  "plain_adjacency rs =
     fold (\<lambda>r adj. dset (rl_subject r) (dget_default adj (rl_subject r) [] @ [rl_object r]) adj) rs []"

text \<open>One node's neighbours: those not excluded and not reached yet are reached and pushed.\<close>

fun push_neighbors :: "string option \<Rightarrow> string list \<Rightarrow> string list \<times> string set \<Rightarrow> string list \<times> string set" where
  "push_neighbors excluded [] st = st"
| "push_neighbors excluded (n # ns) (stack, reachable) =
     (if Some n = excluded \<or> n \<in> reachable then push_neighbors excluded ns (stack, reachable)
      else push_neighbors excluded ns (n # stack, insert n reachable))"

definition targets :: "(string, string list) dict \<Rightarrow> string set" where
  "targets adj = \<Union> (set ` snd ` set adj)"

lemma push_neighbors_measure:
  "push_neighbors ex ns (stack, reach) = (stack', reach') \<Longrightarrow> set ns \<subseteq> T \<Longrightarrow> finite T \<Longrightarrow>
     reach \<subseteq> reach' \<and> 2 * card (T - reach') + length stack' \<le> 2 * card (T - reach) + length stack"
proof (induction ns arbitrary: stack reach)
  case (Cons n ns)
  show ?case
  proof (cases "Some n = ex \<or> n \<in> reach")
    case True
    with Cons show ?thesis by auto
  next
    case False
    with Cons.IH [of "n # stack" "insert n reach"] Cons.prems
    have IH: "insert n reach \<subseteq> reach'" "2 * card (T - reach') + length stack' \<le> 2 * card (T - insert n reach) + Suc (length stack)"
      by auto
    have "n \<in> T - reach" using False Cons.prems by auto
    then have "card (T - insert n reach) < card (T - reach)"
      using Cons.prems(3) by (intro psubset_card_mono) auto
    with IH show ?thesis by auto
  qed
qed simp

lemma finite_targets [simp]: "finite (targets adj)"
  by (simp add: targets_def)

lemma neighbors_targets: "set (dget_default adj v []) \<subseteq> targets adj"
  by (cases "dget adj v") (force simp: targets_def dget_default_def dest: map_of_SomeD)+

function reach_loop ::
  "(string, string list) dict \<Rightarrow> string option \<Rightarrow> string list \<times> string set \<Rightarrow> string set" where
  "reach_loop adj excluded ([], reachable) = reachable"
| "reach_loop adj excluded (u # stack, reachable) =
     reach_loop adj excluded (push_neighbors excluded (dget_default adj u []) (stack, reachable))"
  by pat_completeness auto
termination
proof (relation "measure (\<lambda>(adj, ex, stack, reach). 2 * card (targets adj - reach) + length stack)")
  fix adj :: "(string, string list) dict" and ex u stack reach
  obtain stack' reach' where p: "push_neighbors ex (dget_default adj u []) (stack, reach) = (stack', reach')" by fastforce
  from push_neighbors_measure [OF p neighbors_targets finite_targets]
  show "((adj, ex, push_neighbors ex (dget_default adj u []) (stack, reach)), adj, ex, u # stack, reach)
    \<in> measure (\<lambda>(adj, ex, stack, reach). 2 * card (targets adj - reach) + length stack)"
    by (simp add: p)
qed simp

definition get_reachable :: "(string, string list) dict \<Rightarrow> string \<Rightarrow> string option \<Rightarrow> string set" where
  "get_reachable adj start excluded = reach_loop adj excluded ([start], {})"

record cpof_node =
  cn_id :: string
  cn_severity :: rat
  cn_affected :: "string list"

definition affected_by :: "(string, string list) dict \<Rightarrow> string \<Rightarrow> string \<Rightarrow> string set" where
  "affected_by adj start c = get_reachable adj start None - get_reachable adj start (Some c)"

definition severity_of :: "(string, string list) dict \<Rightarrow> string \<Rightarrow> string \<Rightarrow> rat" where
  "severity_of adj start c = of_nat (card (affected_by adj start c)) / of_nat (card (get_reachable adj start None))"

definition cpof_of :: "(string, string list) dict \<Rightarrow> string \<Rightarrow> string \<Rightarrow> cpof_node" where
  "cpof_of adj start c =
     \<lparr>cn_id = c, cn_severity = py_round 4 (severity_of adj start c),
      cn_affected = sorted_list_of_set (affected_by adj start c)\<rparr>"

definition detect_cpof :: "(string set \<Rightarrow> string list) \<Rightarrow> relation list \<Rightarrow> string \<Rightarrow> cpof_node list option" where
  "detect_cpof order relations node_id =
     (if relations = [] then Some []
      else
        (let adj = plain_adjacency relations; all_reachable = get_reachable adj node_id None in
         if all_reachable = {} then Some []
         else
           (let critical = filter (\<lambda>c. 1/2 \<le> severity_of adj node_id c) (order all_reachable) in
            if [] \<in> set critical then None
            else Some (sort_key (\<lambda>n. - cn_severity n) (map (cpof_of adj node_id) critical)))))"

section \<open>What the search reaches\<close>

definition edges_of :: "(string, string list) dict \<Rightarrow> string option \<Rightarrow> (string \<times> string) set" where
  "edges_of adj excluded = {(u, v). v \<in> set (dget_default adj u []) \<and> Some v \<noteq> excluded}"

lemma push_neighbors_spec:
  "push_neighbors ex ns (stack, reach) = (stack', reach') \<Longrightarrow>
     reach' = reach \<union> {n \<in> set ns. Some n \<noteq> ex} \<and> set stack' = set stack \<union> (reach' - reach)"
proof (induction ns arbitrary: stack reach)
  case (Cons n ns)
  show ?case
  proof (cases "Some n = ex \<or> n \<in> reach")
    case True
    with Cons.IH [of stack reach] Cons.prems show ?thesis by auto
  next
    case False
    with Cons.IH [of "n # stack" "insert n reach"] Cons.prems show ?thesis by auto
  qed
qed auto

text \<open>What is reached stays reachable, and what is reached and off the stack has all its successors reached.\<close>

lemma reach_loop_spec:
  assumes "set stack \<subseteq> insert start reach" "reach \<subseteq> (edges_of adj ex)\<^sup>+ `` {start}"
    and "\<And>u v. u \<in> insert start reach \<Longrightarrow> u \<notin> set stack \<Longrightarrow> (u, v) \<in> edges_of adj ex \<Longrightarrow> v \<in> reach"
  shows "reach_loop adj ex (stack, reach) = (edges_of adj ex)\<^sup>+ `` {start}"
  using assms
proof (induction "(stack, reach)" arbitrary: stack reach rule: measure_induct_rule [where f = "\<lambda>(stack, reach). 2 * card (targets adj - reach) + length stack"])
  case (less stack reach)
  show ?case
  proof (cases stack)
    case Nil
    have "v \<in> reach" if "(start, v) \<in> (edges_of adj ex)\<^sup>+" for v
      using that
    proof (induction rule: trancl_induct)
      case (base v)
      with less.prems(3) Nil show ?case by auto
    next
      case (step u v)
      with less.prems(3) Nil show ?case by auto
    qed
    with less.prems(2) Nil show ?thesis by auto
  next
    case (Cons u st)
    obtain stack' reach' where p: "push_neighbors ex (dget_default adj u []) (st, reach) = (stack', reach')" by fastforce
    from push_neighbors_spec [OF p] have reach': "reach' = reach \<union> {n. (u, n) \<in> edges_of adj ex}"
      and stack': "set stack' = set st \<union> (reach' - reach)" by (auto simp: edges_of_def)
    have "2 * card (targets adj - reach') + length stack' < 2 * card (targets adj - reach) + length stack"
      using push_neighbors_measure [OF p neighbors_targets finite_targets] Cons by simp
    moreover have "set stack' \<subseteq> insert start reach'" using less.prems(1) Cons stack' reach' by auto
    moreover have "reach' \<subseteq> (edges_of adj ex)\<^sup>+ `` {start}"
    proof -
      have "(start, n) \<in> (edges_of adj ex)\<^sup>+" if "(u, n) \<in> edges_of adj ex" for n
        using less.prems(1,2) Cons that by (auto intro: trancl_into_trancl)
      with less.prems(2) show ?thesis by (auto simp: reach')
    qed
    moreover have "w \<in> reach'" if "v \<in> insert start reach'" "v \<notin> set stack'" "(v, w) \<in> edges_of adj ex" for v w
    proof (cases "v = u")
      case True
      with that(3) show ?thesis by (simp add: reach')
    next
      case False
      with that stack' have "v \<in> insert start reach" "v \<notin> set stack" using Cons by (auto simp: reach')
      with less.prems(3) that(3) show ?thesis by (auto simp: reach')
    qed
    ultimately show ?thesis
      using less.hyps [of stack' reach'] Cons p by simp
  qed
qed

lemma get_reachable_spec: "get_reachable adj start ex = (edges_of adj ex)\<^sup>+ `` {start}"
  unfolding get_reachable_def by (rule reach_loop_spec) auto


definition relation_edges :: "relation list \<Rightarrow> (string \<times> string) set" where
  "relation_edges rs = {(rl_subject r, rl_object r) | r. r \<in> set rs}"

definition avoiding :: "string \<Rightarrow> (string \<times> string) set \<Rightarrow> (string \<times> string) set" where
  "avoiding c E = {(u, v) \<in> E. v \<noteq> c}"

lemma plain_adjacency_edges:
  "v \<in> set (dget_default (plain_adjacency rs) u []) \<longleftrightarrow> (u, v) \<in> relation_edges rs"
proof -
  have "v \<in> set (dget_default (fold (\<lambda>r adj. dset (rl_subject r) (dget_default adj (rl_subject r) [] @ [rl_object r]) adj) rs adj) u [])
      \<longleftrightarrow> v \<in> set (dget_default adj u []) \<or> (u, v) \<in> relation_edges rs" for adj
    by (induction rs arbitrary: adj) (auto simp: relation_edges_def dget_default_def split: option.splits)
  from this [of "[]"] show ?thesis by (simp add: plain_adjacency_def dget_default_def)
qed

lemma reachable_edges:
  "get_reachable (plain_adjacency rs) v None = (relation_edges rs)\<^sup>+ `` {v}"
  "get_reachable (plain_adjacency rs) v (Some c) = (avoiding c (relation_edges rs))\<^sup>+ `` {v}"
  by (simp_all add: get_reachable_spec edges_of_def plain_adjacency_edges avoiding_def)

lemma finite_reachable: "finite ((relation_edges rs)\<^sup>+ `` {v})"
proof -
  have "relation_edges rs = (\<lambda>r. (rl_subject r, rl_object r)) ` set rs" by (auto simp: relation_edges_def)
  then have "finite ((relation_edges rs)\<^sup>+)" by simp
  then show ?thesis by (simp add: finite_Image)
qed

lemma reached_is_object: "(v, c) \<in> (relation_edges rs)\<^sup>+ \<Longrightarrow> c \<in> rl_object ` set rs"
  by (induction rule: trancl_induct) (auto simp: relation_edges_def)

lemma mset_map_sort: "mset (map f (sort_key g xs)) = mset (map f xs)"
  by simp

text \<open>
  C31: The critical points of failure of a node are the nodes it reaches without which it would lose at least half of what it
  reaches, the point itself counted: each is reported once, worst first, with exactly the nodes that every path enters only through
  it, and with the share they make up as its severity. This is what the code computes; its docstring says more than half, and
  ARCHITECTURE.md gives another formula for the severity.
\<close>

theorem critical_points_dominate_half:
  fixes node :: string and rs :: "relation list"
  defines "reached \<equiv> (relation_edges rs)\<^sup>+ `` {node}"
    and "lost \<equiv> \<lambda>c. (relation_edges rs)\<^sup>+ `` {node} - (avoiding c (relation_edges rs))\<^sup>+ `` {node}"
  assumes "lists_sets order" and "[] \<notin> rl_object ` set rs"
  shows "\<exists>ns. detect_cpof order rs node = Some ns
    \<and> cn_id ` set ns = {c \<in> reached. card reached \<le> 2 * card (lost c)} \<and> distinct (map cn_id ns)
    \<and> sorted (map (\<lambda>n. - cn_severity n) ns)
    \<and> (\<forall>n \<in> set ns. set (cn_affected n) = lost (cn_id n)
         \<and> cn_severity n = py_round 4 (of_nat (card (lost (cn_id n))) / of_nat (card reached)))"
proof (cases "reached = {}")
  case True
  then have "detect_cpof order rs node = Some []" by (simp add: detect_cpof_def Let_def reachable_edges reached_def)
  with True show ?thesis by auto
next
  case False
  let ?adj = "plain_adjacency rs"
  let ?crit = "filter (\<lambda>c. 1/2 \<le> severity_of ?adj node c) (order reached)"
  have fin: "finite reached" unfolding reached_def by (rule finite_reachable)
  have order: "set (order reached) = reached" "distinct (order reached)" using assms(3) fin by (auto simp: lists_sets_def)
  have affected: "affected_by ?adj node c = lost c" for c by (simp add: affected_by_def reachable_edges lost_def)
  have severity: "severity_of ?adj node c = of_nat (card (lost c)) / of_nat (card reached)" for c
    by (simp add: severity_of_def affected reachable_edges reached_def)
  have pos: "0 < card reached" using fin False by (simp add: card_gt_0_iff)
  have half: "1/2 \<le> severity_of ?adj node c \<longleftrightarrow> card reached \<le> 2 * card (lost c)" for c
  proof -
    have "1/2 \<le> severity_of ?adj node c \<longleftrightarrow> (of_nat (card reached) :: rat) \<le> of_nat (2 * card (lost c))"
      using pos by (simp add: severity field_simps)
    then show ?thesis by (simp only: of_nat_le_iff)
  qed
  have crit: "set ?crit = {c \<in> reached. card reached \<le> 2 * card (lost c)}" by (simp only: set_filter order half)
  have "[] \<notin> set ?crit"
    unfolding crit using assms(4) reached_is_object unfolding reached_def by blast
  moreover have "rs \<noteq> []" using False by (auto simp: reached_def relation_edges_def)
  ultimately have res: "detect_cpof order rs node = Some (sort_key (\<lambda>n. - cn_severity n) (map (cpof_of ?adj node) ?crit))"
    using False by (simp add: detect_cpof_def Let_def reachable_edges reached_def)
  have id: "cn_id (cpof_of ?adj node c) = c" for c by (simp add: cpof_of_def)
  have "mset (map cn_id (sort_key (\<lambda>n. - cn_severity n) (map (cpof_of ?adj node) ?crit))) = mset ?crit"
    by (simp only: mset_map_sort map_map comp_def id list.map_ident)
  then have "distinct (map cn_id (sort_key (\<lambda>n. - cn_severity n) (map (cpof_of ?adj node) ?crit)))"
    using order(2) by (metis distinct_filter mset_eq_imp_distinct_iff)
  moreover have "finite (lost c)" for c using fin unfolding lost_def reached_def by simp
  ultimately show ?thesis
    unfolding res using crit
    by (auto simp: id cpof_of_def affected severity image_image)
qed

theorem critical_points_dominate_half_witness:
  "\<exists>ns. detect_cpof sorted_list_of_set
     [\<lparr>rl_subject = ''a'', rl_predicate = ''hosts'', rl_object = ''b'', rl_conf = 1\<rparr>] ''a'' = Some ns \<and> distinct (map cn_id ns)"
  using critical_points_dominate_half [of sorted_list_of_set "[\<lparr>rl_subject = ''a'', rl_predicate = ''hosts'', rl_object = ''b'', rl_conf = 1\<rparr>]" "''a''"]
  by (auto simp: lists_sets_sorted)

definition hosting_step :: causal_edge where
  "hosting_step = \<lparr>ce_source = ''db'', ce_predicate = ''hosts'', ce_target = ''app'', ce_conf = 1, ce_impact = ''critical_dependency'', ce_meta = []\<rparr>"

text \<open>
  The risk of a path is not monotone in the severity of what it breaks: a dependency whose target is critical to 39 percent is
  CRITICAL, the same one with a target critical to 50 percent is only HIGH.
\<close>

theorem path_risk_is_not_monotone:
  "assess_path_risk default_critical_predicates None ''stop'' [hosting_step] ''app'' 1 None [(''app'', 39/100)] = ''CRITICAL''
   \<and> assess_path_risk default_critical_predicates None ''stop'' [hosting_step] ''app'' 1 None [(''app'', 1/2)] = ''HIGH''"
  by code_simp

end
