(* ===== verification/CausalPaths.thy ===== *)
theory CausalPaths
  imports CausalGraph "HOL-Library.Product_Lexorder"
begin

text \<open>
  The two propagations of \<open>causal/retro_causal_edge.py\<close>: \<open>causal_what_if\<close> follows the simple paths of a simulated action, and
  \<open>causal_diffusion_analysis\<close> spreads an impact layer by layer.
\<close>

text \<open>A loop whose body may raise.\<close>

fun fold_raising :: "('a \<Rightarrow> 's \<Rightarrow> 's option) \<Rightarrow> 'a list \<Rightarrow> 's \<Rightarrow> 's option" where
  "fold_raising f [] s = Some s"
| "fold_raising f (x # xs) s = (case f x s of None \<Rightarrow> None | Some s' \<Rightarrow> fold_raising f xs s')"

lemma fold_raising_append:
  "fold_raising f (xs @ ys) s = (case fold_raising f xs s of None \<Rightarrow> None | Some s' \<Rightarrow> fold_raising f ys s')"
  by (induction xs arbitrary: s) (auto split: option.split)

lemma fold_raising_invariant:
  "P s \<Longrightarrow> fold_raising f xs s = Some s' \<Longrightarrow> (\<And>x s s'. x \<in> set xs \<Longrightarrow> P s \<Longrightarrow> f x s = Some s' \<Longrightarrow> P s') \<Longrightarrow> P s'"
proof (induction xs arbitrary: s)
  case (Cons x xs)
  then obtain s1 where s1: "f x s = Some s1" "fold_raising f xs s1 = Some s'" by (auto split: option.splits)
  show ?case
    by (rule Cons.IH [OF Cons.prems(3) [OF _ Cons.prems(1) s1(1)] s1(2)]) (auto intro: Cons.prems(3))
qed simp

lemma fold_raising_returns:
  "P s \<Longrightarrow> (\<And>x s. x \<in> set xs \<Longrightarrow> P s \<Longrightarrow> \<exists>s'. f x s = Some s' \<and> P s') \<Longrightarrow> \<exists>s'. fold_raising f xs s = Some s' \<and> P s'"
proof (induction xs arbitrary: s)
  case (Cons x xs)
  then obtain s1 where s1: "f x s = Some s1" "P s1" by (meson list.set_intros(1))
  with Cons.IH [OF s1(2)] Cons.prems(2) show ?case by simp
qed simp

section \<open>What if\<close>

record causal_path =
  cp_source :: string
  cp_action :: string
  cp_steps :: "causal_edge list"
  cp_target :: string
  cp_conf :: rat
  cp_risk :: string
  cp_jepa :: "rat option"

definition path_ok :: "causal_path \<Rightarrow> bool" where
  "path_ok p \<longleftrightarrow> cp_source p \<noteq> [] \<and> cp_action p \<noteq> [] \<and> cp_target p \<noteq> [] \<and> 0 \<le> cp_conf p \<and> cp_conf p \<le> 1"

record what_env =
  wi_adj :: adjacency
  wi_action :: string
  wi_critical :: "string list"
  wi_assessor :: "risk_env option"
  wi_jepa :: "rat option"
  wi_cpof :: "(string, rat) dict"

definition step_text :: "causal_edge \<Rightarrow> string" where
  "step_text s = ce_source s @ ''-['' @ ce_predicate s @ '']->'' @ ce_target s"

definition signature :: "causal_edge list \<Rightarrow> string" where
  "signature steps = py_join ''->'' (map step_text steps)"

type_synonym what_state = "string set \<times> causal_path list"

definition make_path :: "what_env \<Rightarrow> string \<Rightarrow> causal_edge list \<Rightarrow> string \<Rightarrow> rat \<Rightarrow> causal_path" where
  "make_path W start steps tgt conf =
     \<lparr>cp_source = start, cp_action = wi_action W, cp_steps = steps, cp_target = tgt, cp_conf = conf,
      cp_risk = assess_path_risk (wi_critical W) (wi_assessor W) (wi_action W) steps tgt conf (wi_jepa W) (wi_cpof W),
      cp_jepa = wi_jepa W\<rparr>"

definition record_path :: "what_env \<Rightarrow> string \<Rightarrow> causal_edge list \<Rightarrow> string \<Rightarrow> rat \<Rightarrow> what_state \<Rightarrow> what_state option" where
  "record_path W start steps tgt conf = (\<lambda>(seen, paths).
     (let p = make_path W start steps tgt conf in
      if signature steps \<in> seen then Some (seen, paths)
      else if path_ok p then Some (insert (signature steps) seen, paths @ [p])
      else None))"

text \<open>The recursion is limited by the steps left; \<open>visited\<close> is restored when it returns.\<close>

fun dfs_traverse ::
  "what_env \<Rightarrow> string \<Rightarrow> nat \<Rightarrow> string \<Rightarrow> causal_edge list \<Rightarrow> rat \<Rightarrow> string set \<Rightarrow> what_state \<Rightarrow> what_state option" where
  "dfs_traverse W start 0 u steps conf visited st = Some st"
| "dfs_traverse W start (Suc n) u steps conf visited st =
     fold_raising (\<lambda>(tgt, pred, c) st.
         if is_pii_entity tgt \<or> tgt \<in> visited then Some st
         else
           (case new_edge u pred tgt c (impact_type (wi_critical W) pred) of
              None \<Rightarrow> None
            | Some step \<Rightarrow>
                (case record_path W start (steps @ [step]) tgt (py_round 4 (conf * c)) st of
                   None \<Rightarrow> None
                 | Some st' \<Rightarrow>
                     dfs_traverse W start n tgt (steps @ [step]) (py_round 4 (conf * c)) (insert tgt visited) st')))
       (dget_default (wi_adj W) u []) st"

definition path_rank :: "causal_path \<Rightarrow> int \<times> rat" where
  "path_rank p = (if cp_risk p = ''CRITICAL'' then - 2 else if cp_risk p = ''HIGH'' then - 1 else 0, - cp_conf p)"

definition causal_what_if ::
  "(string set \<Rightarrow> string list) \<Rightarrow> string list \<Rightarrow> risk_env option \<Rightarrow> rat option \<Rightarrow> relation list \<Rightarrow> string list \<Rightarrow> relation list \<Rightarrow>
     string \<Rightarrow> string \<Rightarrow> int \<Rightarrow> causal_path list option" where
  "causal_what_if order crit rk jepa relations active_roots cpof_relations ent action depth =
     (if relations = [] then Some []
      else
        (let roots = (if active_roots = [] then [ent] else active_roots) in
         case detect_cpof order cpof_relations ent of
           None \<Rightarrow> None
         | Some cpof_list \<Rightarrow>
             (let W = \<lparr>wi_adj = build_adjacency relations, wi_action = action, wi_critical = crit, wi_assessor = rk,
                       wi_jepa = jepa, wi_cpof = fold (\<lambda>n. dset (cn_id n) (cn_severity n)) cpof_list []\<rparr>
              in map_option (\<lambda>(seen, paths). sort_key path_rank paths)
                   (fold_raising (\<lambda>r. dfs_traverse W r (nat depth) r [] 1 {r}) roots ({}, [])))))"

section \<open>Diffusion\<close>

record node_stat =
  st_impact :: rat
  st_length :: nat
  st_conf :: rat

record diffusion =
  df_stats :: "(string, node_stat) dict"
  df_edges :: "causal_edge list"
  df_seen :: "(string \<times> string \<times> string) set"
  df_reached :: nat
  df_next :: "(string, rat) dict"

definition update_stat :: "nat \<Rightarrow> rat \<Rightarrow> rat \<Rightarrow> node_stat option \<Rightarrow> node_stat" where
  "update_stat d trans_conf step_impact old =
     (let s = (case old of
                 None \<Rightarrow> \<lparr>st_impact = 0, st_length = d, st_conf = min 1 trans_conf\<rparr>
               | Some s \<Rightarrow> s\<lparr>st_length := min (st_length s) d, st_conf := min 1 (max (st_conf s) trans_conf)\<rparr>)
      in s\<lparr>st_impact := st_impact s + step_impact\<rparr>)"

definition spread_edge ::
  "string list \<Rightarrow> rat \<Rightarrow> string \<Rightarrow> nat \<Rightarrow> string \<Rightarrow> rat \<Rightarrow> string \<times> string \<times> rat \<Rightarrow> diffusion \<Rightarrow> diffusion option" where
  "spread_edge crit decay start d u u_conf = (\<lambda>(tgt, pred, conf) D.
     if tgt = start \<or> tgt = u then Some D
     else
       (case (if (u, pred, tgt) \<in> df_seen D then Some D
              else map_option (\<lambda>e. D\<lparr>df_seen := insert (u, pred, tgt) (df_seen D), df_edges := df_edges D @ [e]\<rparr>)
                     (new_edge u pred tgt conf (impact_type crit pred))) of
          None \<Rightarrow> None
        | Some D' \<Rightarrow>
            (let trans_conf = u_conf * conf; step_impact = trans_conf * decay ^ d
             in Some (D'\<lparr>df_reached := max (df_reached D') d,
                         df_stats := dset tgt (update_stat d trans_conf step_impact (dget (df_stats D') tgt)) (df_stats D'),
                         df_next := dset tgt (min 1 (dget_default (df_next D') tgt 0 + trans_conf)) (df_next D')\<rparr>))))"

definition spread_layer ::
  "string list \<Rightarrow> rat \<Rightarrow> adjacency \<Rightarrow> string \<Rightarrow> nat \<Rightarrow> (string, rat) dict \<Rightarrow> diffusion \<Rightarrow> diffusion option" where
  "spread_layer crit decay adj start d layer D =
     fold_raising (\<lambda>(u, u_conf). fold_raising (spread_edge crit decay start d u u_conf) (dget_default adj u []))
       layer (D\<lparr>df_next := []\<rparr>)"

fun spread_layers ::
  "string list \<Rightarrow> rat \<Rightarrow> adjacency \<Rightarrow> string \<Rightarrow> nat \<Rightarrow> nat \<Rightarrow> (string, rat) dict \<Rightarrow> diffusion \<Rightarrow> diffusion option" where
  "spread_layers crit decay adj start 0 d layer D = Some D"
| "spread_layers crit decay adj start (Suc left) d layer D =
     (case spread_layer crit decay adj start d layer D of
        None \<Rightarrow> None
      | Some D' \<Rightarrow> if df_next D' = [] then Some D' else spread_layers crit decay adj start left (Suc d) (df_next D') D')"

record diffusion_node =
  dn_id :: string
  dn_impact :: rat
  dn_length :: nat
  dn_conf :: rat

definition build_diffusion_nodes :: "(string, node_stat) dict \<Rightarrow> diffusion_node list option" where
  "build_diffusion_nodes stats =
     (let ns = map (\<lambda>(nid, s). \<lparr>dn_id = nid, dn_impact = py_round 6 (st_impact s), dn_length = st_length s,
                                dn_conf = min 1 (max 0 (py_round 6 (st_conf s)))\<rparr>) stats
      in if list_all (\<lambda>n. dn_id n \<noteq> [] \<and> 0 \<le> dn_impact n) ns then Some ns else None)"

record diffusion_result =
  dr_nodes :: "diffusion_node list"
  dr_edges :: "causal_edge list"
  dr_total :: rat
  dr_depth :: nat

definition causal_diffusion_analysis ::
  "string list \<Rightarrow> relation list \<Rightarrow> string \<Rightarrow> int \<Rightarrow> rat \<Rightarrow> diffusion_result option" where
  "causal_diffusion_analysis crit relations start max_depth decay_factor =
     (if relations = [] then Some \<lparr>dr_nodes = [], dr_edges = [], dr_total = 0, dr_depth = 0\<rparr>
      else
        (let adj = build_adjacency relations;
             D0 = \<lparr>df_stats = [], df_edges = [], df_seen = {}, df_reached = 0, df_next = []\<rparr>
         in case spread_layers crit (clamp01 decay_factor) adj start (nat (max 1 max_depth)) 1 [(start, 1)] D0 of
              None \<Rightarrow> None
            | Some D \<Rightarrow>
                (case build_diffusion_nodes (df_stats D) of
                   None \<Rightarrow> None
                 | Some ns \<Rightarrow>
                     (let total = py_round 6 (sum_list (map dn_impact ns)) in
                      if 0 \<le> total
                      then Some \<lparr>dr_nodes = ns, dr_edges = df_edges D, dr_total = total, dr_depth = df_reached D\<rparr>
                      else None))))"


section \<open>Simple paths\<close>

text \<open>
  A walk from \<open>u\<close> that enters no node of \<open>visited\<close>, none twice and none with personal data, along entries of the adjacency.
\<close>

fun simple_walk :: "what_env \<Rightarrow> string set \<Rightarrow> string \<Rightarrow> causal_edge list \<Rightarrow> bool" where
  "simple_walk W visited u [] = True"
| "simple_walk W visited u (s # ss) \<longleftrightarrow>
     ce_source s = u \<and> (ce_target s, ce_predicate s, ce_conf s) \<in> set (dget_default (wi_adj W) u [])
     \<and> ce_impact s = impact_type (wi_critical W) (ce_predicate s) \<and> ce_meta s = [] \<and> edge_ok s
     \<and> ce_target s \<notin> visited \<and> \<not> is_pii_entity (ce_target s)
     \<and> simple_walk W (insert (ce_target s) visited) (ce_target s) ss"

definition walk_end :: "string \<Rightarrow> causal_edge list \<Rightarrow> string" where
  "walk_end u ss = (if ss = [] then u else ce_target (last ss))"

definition walk_conf :: "rat \<Rightarrow> causal_edge list \<Rightarrow> rat" where
  "walk_conf c ss = foldl (\<lambda>c s. py_round 4 (c * ce_conf s)) c ss"

lemma walk_end_snoc [simp]: "walk_end u (ss @ [s]) = ce_target s"
  by (simp add: walk_end_def)

lemma walk_conf_snoc [simp]: "walk_conf c (ss @ [s]) = py_round 4 (walk_conf c ss * ce_conf s)"
  by (simp add: walk_conf_def)

lemma simple_walk_append:
  "simple_walk W visited u (ss @ ts) \<longleftrightarrow>
     simple_walk W visited u ss \<and> simple_walk W (visited \<union> ce_target ` set ss) (walk_end u ss) ts"
proof (induction ss arbitrary: visited u)
  case (Cons s ss)
  have "walk_end u (s # ss) = walk_end (ce_target s) ss" by (simp add: walk_end_def)
  with Cons show ?case by (simp add: insert_commute)
qed (simp add: walk_end_def)

lemma simple_walk_conf: "simple_walk W visited u ss \<Longrightarrow> 0 \<le> c \<Longrightarrow> c \<le> 1 \<Longrightarrow> 0 \<le> walk_conf c ss \<and> walk_conf c ss \<le> 1"
proof (induction ss arbitrary: visited u c)
  case (Cons s ss)
  then have "0 \<le> c * ce_conf s" "c * ce_conf s \<le> 1" by (auto simp: edge_ok_def mult_le_one)
  then have "0 \<le> py_round 4 (c * ce_conf s)" "py_round 4 (c * ce_conf s) \<le> 1" using py_round_unit by blast+
  moreover have "walk_conf c (s # ss) = walk_conf (py_round 4 (c * ce_conf s)) ss" by (simp add: walk_conf_def)
  ultimately show ?case using Cons.IH [of "insert (ce_target s) visited" "ce_target s"] Cons.prems(1) by simp
qed (simp add: walk_conf_def)

lemma new_edge_Some:
  "new_edge u pred tgt c imp = Some e \<longleftrightarrow>
     e = \<lparr>ce_source = u, ce_predicate = pred, ce_target = tgt, ce_conf = c, ce_impact = imp, ce_meta = []\<rparr> \<and> edge_ok e"
  by (auto simp: new_edge_def Let_def)

section \<open>What the traversal lists\<close>

definition sigs :: "causal_path list \<Rightarrow> string list" where
  "sigs ps = map (signature \<circ> cp_steps) ps"

text \<open>The paths listed so far have different signatures, those seen, and each satisfies \<open>Q\<close>.\<close>

definition listed :: "(causal_path \<Rightarrow> bool) \<Rightarrow> what_state \<Rightarrow> bool" where
  "listed Q st \<longleftrightarrow> fst st = set (sigs (snd st)) \<and> distinct (sigs (snd st)) \<and> (\<forall>p \<in> set (snd st). Q p)"

lemma record_path_listed:
  "record_path W start ss tgt c st = Some st' \<Longrightarrow> listed Q st \<Longrightarrow> Q (make_path W start ss tgt c) \<Longrightarrow>
     listed Q st' \<and> fst st' = insert (signature ss) (fst st)"
  by (cases st) (auto simp: record_path_def listed_def sigs_def Let_def make_path_def insert_absorb split: if_splits)

definition walk_path :: "what_env \<Rightarrow> string \<Rightarrow> nat \<Rightarrow> causal_path \<Rightarrow> bool" where
  "walk_path W start n p \<longleftrightarrow>
     (\<exists>ss. ss \<noteq> [] \<and> length ss \<le> n \<and> simple_walk W {start} start ss
        \<and> p = make_path W start ss (walk_end start ss) (walk_conf 1 ss))"

lemma dfs_listed:
  assumes "dfs_traverse W start n u steps conf visited st = Some st'" "listed Q st"
    and "simple_walk W {start} start steps" "u = walk_end start steps" "visited = {start} \<union> ce_target ` set steps"
    and "conf = walk_conf 1 steps" and "\<And>p. walk_path W start (length steps + n) p \<Longrightarrow> Q p"
  shows "listed Q st' \<and> fst st \<subseteq> fst st'"
  using assms
proof (induction n arbitrary: u steps conf visited st st')
  case (Suc n)
  have step: "listed Q s' \<and> fst st \<subseteq> fst s'"
    if x: "(tgt, pred, c) \<in> set (dget_default (wi_adj W) u [])" and P: "listed Q s \<and> fst st \<subseteq> fst s"
      and new: "\<not> (is_pii_entity tgt \<or> tgt \<in> visited)"
      and e: "new_edge u pred tgt c (impact_type (wi_critical W) pred) = Some e"
      and r: "record_path W start (steps @ [e]) tgt (py_round 4 (conf * c)) s = Some s1"
      and rec: "dfs_traverse W start n tgt (steps @ [e]) (py_round 4 (conf * c)) (insert tgt visited) s1 = Some s'"
    for tgt pred c s s' e s1
  proof -
    from e have e': "ce_source e = u" "ce_predicate e = pred" "ce_target e = tgt" "ce_conf e = c"
      "ce_impact e = impact_type (wi_critical W) pred" "ce_meta e = []" "edge_ok e"
      by (auto simp: new_edge_Some)
    have walk: "simple_walk W {start} start (steps @ [e])"
      unfolding simple_walk_append using Suc.prems(3,4,5) x new e' by simp
    have conf: "py_round 4 (conf * c) = walk_conf 1 (steps @ [e])" using Suc.prems(6) e' by simp
    have "walk_path W start (length steps + Suc n) (make_path W start (steps @ [e]) tgt (py_round 4 (conf * c)))"
      unfolding walk_path_def using walk conf e'(3) by (intro exI [of _ "steps @ [e]"]) simp
    from record_path_listed [OF r conjunct1 [OF P] Suc.prems(7) [OF this]]
    have s1: "listed Q s1" "fst st \<subseteq> fst s1" using P by auto
    from Suc.IH [OF rec s1(1) walk _ _ conf] Suc.prems(5,7) e'(3) s1(2) show ?thesis by auto
  qed
  show ?case
  proof (rule fold_raising_invariant [OF _ Suc.prems(1) [unfolded dfs_traverse.simps], where P = "\<lambda>s. listed Q s \<and> fst st \<subseteq> fst s"])
    show "listed Q st \<and> fst st \<subseteq> fst st" using Suc.prems(2) by simp
  next
    fix x s s'
    assume x: "x \<in> set (dget_default (wi_adj W) u [])" and P: "listed Q s \<and> fst st \<subseteq> fst s"
      and f: "(case x of (tgt, pred, c) \<Rightarrow> \<lambda>st.
         if is_pii_entity tgt \<or> tgt \<in> visited then Some st
         else case new_edge u pred tgt c (impact_type (wi_critical W) pred) of None \<Rightarrow> None
           | Some step \<Rightarrow> (case record_path W start (steps @ [step]) tgt (py_round 4 (conf * c)) st of None \<Rightarrow> None
               | Some st' \<Rightarrow> dfs_traverse W start n tgt (steps @ [step]) (py_round 4 (conf * c)) (insert tgt visited) st')) s = Some s'"
    obtain tgt pred c where [simp]: "x = (tgt, pred, c)" by (cases x)
    show "listed Q s' \<and> fst st \<subseteq> fst s'"
    proof (cases "is_pii_entity tgt \<or> tgt \<in> visited")
      case True
      with f P show ?thesis by simp
    next
      case False
      with f obtain e s1 where "new_edge u pred tgt c (impact_type (wi_critical W) pred) = Some e"
        "record_path W start (steps @ [e]) tgt (py_round 4 (conf * c)) s = Some s1"
        "dfs_traverse W start n tgt (steps @ [e]) (py_round 4 (conf * c)) (insert tgt visited) s1 = Some s'"
        by (auto simp del: dfs_traverse.simps split: option.splits)
      with step [OF _ P False] x show ?thesis by simp
    qed
  qed
qed auto


text \<open>Every walk that can still be made is seen when the traversal returns.\<close>

lemma visit_splits:
  assumes "fold_raising f xs s = Some s'" "x \<in> set xs"
  obtains s1 s2 pre post where "xs = pre @ x # post" "fold_raising f pre s = Some s1" "f x s1 = Some s2" "fold_raising f post s2 = Some s'"
proof -
  from assms(2) obtain pre post where xs: "xs = pre @ x # post" by (meson split_list)
  with assms(1) obtain s1 where "fold_raising f pre s = Some s1" "fold_raising f (x # post) s1 = Some s'"
    by (auto simp: fold_raising_append simp del: fold_raising.simps split: option.splits)
  then obtain s2 where "f x s1 = Some s2" "fold_raising f post s2 = Some s'" by (auto split: option.splits)
  with that xs \<open>fold_raising f pre s = Some s1\<close> show thesis by blast
qed


lemma record_path_seen: "record_path W start ss tgt c st = Some st' \<Longrightarrow> fst st' = insert (signature ss) (fst st)"
  by (cases st) (auto simp: record_path_def Let_def insert_absorb split: if_splits)

lemma dfs_grows: "dfs_traverse W start n u steps conf visited st = Some st' \<Longrightarrow> fst st \<subseteq> fst st'"
proof (induction n arbitrary: u steps conf visited st st')
  case (Suc n)
  show ?case
    by (rule fold_raising_invariant [OF _ Suc.prems [unfolded dfs_traverse.simps], where P = "\<lambda>s. fst st \<subseteq> fst s"])
       (use Suc.IH in \<open>fastforce dest: record_path_seen split: if_splits option.splits\<close>)+
qed simp

lemma dfs_complete:
  "dfs_traverse W start n u steps conf visited st = Some st' \<Longrightarrow> ext \<noteq> [] \<Longrightarrow> length ext \<le> n \<Longrightarrow>
     simple_walk W visited u ext \<Longrightarrow> signature (steps @ ext) \<in> fst st'"
proof (induction n arbitrary: u steps conf visited st st' ext)
  case (Suc n)
  obtain s es where ext: "ext = s # es" using Suc.prems(2) by (cases ext) auto
  let ?tgt = "ce_target s" and ?pred = "ce_predicate s" and ?c = "ce_conf s"
  let ?conf = "py_round 4 (conf * ?c)"
  have s: "s = \<lparr>ce_source = u, ce_predicate = ?pred, ce_target = ?tgt, ce_conf = ?c,
      ce_impact = impact_type (wi_critical W) ?pred, ce_meta = []\<rparr>" "edge_ok s"
    and new: "?tgt \<notin> visited" "\<not> is_pii_entity ?tgt" and rest: "simple_walk W (insert ?tgt visited) ?tgt es"
    and entry: "(?tgt, ?pred, ?c) \<in> set (dget_default (wi_adj W) u [])"
    using Suc.prems(4) by (auto simp: ext intro: causal_edge.equality)
  then have edge: "new_edge u ?pred ?tgt ?c (impact_type (wi_critical W) ?pred) = Some s" by (simp add: new_edge_Some)
  let ?f = "\<lambda>(tgt, pred, c) st.
         if is_pii_entity tgt \<or> tgt \<in> visited then Some st
         else case new_edge u pred tgt c (impact_type (wi_critical W) pred) of None \<Rightarrow> None
           | Some step \<Rightarrow> (case record_path W start (steps @ [step]) tgt (py_round 4 (conf * c)) st of None \<Rightarrow> None
               | Some st' \<Rightarrow> dfs_traverse W start n tgt (steps @ [step]) (py_round 4 (conf * c)) (insert tgt visited) st')"
  obtain s1 s2 pre post where fx: "?f (?tgt, ?pred, ?c) s1 = Some s2" and post: "fold_raising ?f post s2 = Some st'"
    by (rule visit_splits [OF Suc.prems(1) [unfolded dfs_traverse.simps] entry])
  from fx new edge have f: "(case record_path W start (steps @ [s]) ?tgt ?conf s1 of None \<Rightarrow> None
        | Some st' \<Rightarrow> dfs_traverse W start n ?tgt (steps @ [s]) ?conf (insert ?tgt visited) st') = Some s2"
    by simp
  from f obtain s3 where s3: "record_path W start (steps @ [s]) ?tgt ?conf s1 = Some s3"
    "dfs_traverse W start n ?tgt (steps @ [s]) ?conf (insert ?tgt visited) s3 = Some s2"
    by (auto split: option.splits)
  have "signature (steps @ ext) \<in> fst s2"
  proof (cases "es = []")
    case True
    with record_path_seen [OF s3(1)] dfs_grows [OF s3(2)] show ?thesis by (auto simp: ext)
  next
    case False
    from Suc.IH [OF s3(2) False _ rest] Suc.prems(3) show ?thesis by (simp add: ext)
  qed
  moreover have "fst s2 \<subseteq> fst st'"
    by (rule fold_raising_invariant [OF _ post, where P = "\<lambda>s. fst s2 \<subseteq> fst s"])
       (use dfs_grows in \<open>fastforce dest: record_path_seen split: if_splits option.splits\<close>)+
  ultimately show ?case by auto
qed simp

definition entries_ok :: "adjacency \<Rightarrow> bool" where
  "entries_ok adj \<longleftrightarrow>
     (\<forall>u. \<forall>(tgt, pred, c) \<in> set (dget_default adj u []). u \<noteq> [] \<and> pred \<noteq> [] \<and> tgt \<noteq> [] \<and> 0 \<le> c \<and> c \<le> 1)"

lemma dfs_returns:
  assumes "entries_ok (wi_adj W)" "wi_action W \<noteq> []" "start \<noteq> []" "0 \<le> conf" "conf \<le> 1"
  shows "\<exists>st'. dfs_traverse W start n u steps conf visited st = Some st'"
  using assms(4,5)
proof (induction n arbitrary: u steps conf visited st)
  case (Suc n)
  have "\<exists>s'. (\<lambda>(tgt, pred, c) st.
         if is_pii_entity tgt \<or> tgt \<in> visited then Some st
         else case new_edge u pred tgt c (impact_type (wi_critical W) pred) of None \<Rightarrow> None
           | Some step \<Rightarrow> (case record_path W start (steps @ [step]) tgt (py_round 4 (conf * c)) st of None \<Rightarrow> None
               | Some st' \<Rightarrow> dfs_traverse W start n tgt (steps @ [step]) (py_round 4 (conf * c)) (insert tgt visited) st')) x s = Some s' \<and> True"
    if "x \<in> set (dget_default (wi_adj W) u [])" for x s
  proof -
    obtain tgt pred c where x: "x = (tgt, pred, c)" by (cases x)
    with assms(1) that have ok: "u \<noteq> []" "pred \<noteq> []" "tgt \<noteq> []" "0 \<le> c" "c \<le> 1" unfolding entries_ok_def by fastforce+
    then obtain e where e: "new_edge u pred tgt c (impact_type (wi_critical W) pred) = Some e"
      by (simp add: new_edge_def Let_def edge_ok_def)
    have "0 \<le> conf * c" "conf * c \<le> 1" using Suc.prems ok by (auto intro: mult_le_one)
    then have conf: "0 \<le> py_round 4 (conf * c)" "py_round 4 (conf * c) \<le> 1" using py_round_unit by blast+
    then have "path_ok (make_path W start (steps @ [e]) tgt (py_round 4 (conf * c)))"
      using assms(2,3) ok(3) by (simp add: make_path_def path_ok_def)
    then have "record_path W start (steps @ [e]) tgt (py_round 4 (conf * c)) s \<noteq> None"
      by (cases s) (simp add: record_path_def Let_def)
    then obtain s1 where "record_path W start (steps @ [e]) tgt (py_round 4 (conf * c)) s = Some s1" by blast
    with Suc.IH [OF conf] e show ?thesis by (simp add: x)
  qed
  from fold_raising_returns [of "\<lambda>_. True", OF TrueI this] show ?case by simp
qed simp


section \<open>The paths of an action\<close>

definition relation_ok :: "relation \<Rightarrow> bool" where
  "relation_ok r \<longleftrightarrow> rl_subject r \<noteq> [] \<and> rl_predicate r \<noteq> [] \<and> rl_object r \<noteq> [] \<and> 0 \<le> rl_conf r \<and> rl_conf r \<le> 1"

definition causal_relation :: "relation \<Rightarrow> bool" where
  "causal_relation r \<longleftrightarrow>
     rl_predicate r \<notin> set prose_relations \<and> \<not> is_pii_entity (rl_subject r) \<and> \<not> is_pii_entity (rl_object r)"

definition step_of :: "string list \<Rightarrow> relation \<Rightarrow> causal_edge" where
  "step_of crit r =
     \<lparr>ce_source = rl_subject r, ce_predicate = rl_predicate r, ce_target = rl_object r, ce_conf = rl_conf r,
      ce_impact = impact_type crit (rl_predicate r), ce_meta = []\<rparr>"

text \<open>The steps follow causal relations from \<open>u\<close> and enter no node twice.\<close>

fun follows :: "string list \<Rightarrow> relation list \<Rightarrow> string set \<Rightarrow> string \<Rightarrow> causal_edge list \<Rightarrow> bool" where
  "follows crit rs visited u [] = True"
| "follows crit rs visited u (s # ss) \<longleftrightarrow>
     (\<exists>r \<in> set rs. causal_relation r \<and> s = step_of crit r) \<and> ce_source s = u \<and> ce_target s \<notin> visited
     \<and> follows crit rs (insert (ce_target s) visited) (ce_target s) ss"

lemma adjacency_entries:
  "(tgt, pred, c) \<in> set (dget_default (build_adjacency rs) u []) \<longleftrightarrow>
     (\<exists>r \<in> set rs. causal_relation r \<and> rl_subject r = u \<and> rl_object r = tgt \<and> rl_predicate r = pred \<and> rl_conf r = c)"
proof -
  let ?f = "\<lambda>r adj. if rl_predicate r \<in> set prose_relations \<or> is_pii_entity (rl_subject r) \<or> is_pii_entity (rl_object r) then adj
       else dset (rl_subject r) (dget_default adj (rl_subject r) [] @ [(rl_object r, rl_predicate r, rl_conf r)]) adj"
  have "(tgt, pred, c) \<in> set (dget_default (fold ?f rs adj) u []) \<longleftrightarrow>
      (tgt, pred, c) \<in> set (dget_default adj u [])
      \<or> (\<exists>r \<in> set rs. causal_relation r \<and> rl_subject r = u \<and> rl_object r = tgt \<and> rl_predicate r = pred \<and> rl_conf r = c)" for adj
  proof (induction rs arbitrary: adj)
    case (Cons r rs)
    show ?case
    proof (cases "causal_relation r")
      case True
      then have f: "?f r adj = dset (rl_subject r) (dget_default adj (rl_subject r) [] @ [(rl_object r, rl_predicate r, rl_conf r)]) adj"
        by (simp add: causal_relation_def)
      have "(tgt, pred, c) \<in> set (dget_default (?f r adj) u []) \<longleftrightarrow> (tgt, pred, c) \<in> set (dget_default adj u [])
          \<or> (rl_subject r = u \<and> rl_object r = tgt \<and> rl_predicate r = pred \<and> rl_conf r = c)"
        unfolding f by (auto simp: dget_default_def)
      with Cons.IH [of "?f r adj"] True show ?thesis by auto
    next
      case False
      then have "?f r adj = adj" by (auto simp: causal_relation_def)
      with Cons.IH [of adj] False show ?thesis by simp
    qed
  qed simp
  from this [of "[]"] show ?thesis by (simp add: build_adjacency_def dget_default_def)
qed

lemma simple_walk_follows:
  assumes "list_all relation_ok rs" "wi_adj W = build_adjacency rs" "wi_critical W = crit"
  shows "simple_walk W visited u ss \<longleftrightarrow> follows crit rs visited u ss"
proof (induction ss arbitrary: visited u)
  case (Cons s ss)
  have "(ce_source s = u \<and> (ce_target s, ce_predicate s, ce_conf s) \<in> set (dget_default (wi_adj W) u [])
     \<and> ce_impact s = impact_type (wi_critical W) (ce_predicate s) \<and> ce_meta s = [] \<and> edge_ok s \<and> \<not> is_pii_entity (ce_target s))
    \<longleftrightarrow> (\<exists>r \<in> set rs. causal_relation r \<and> s = step_of crit r) \<and> ce_source s = u" (is "?l \<longleftrightarrow> ?r")
  proof
    assume ?l
    then obtain r where "r \<in> set rs" "causal_relation r" "rl_subject r = u" "rl_object r = ce_target s"
      "rl_predicate r = ce_predicate s" "rl_conf r = ce_conf s"
      unfolding assms(2) adjacency_entries by blast
    moreover from this \<open>?l\<close> have "s = step_of crit r" by (simp add: step_of_def assms(3))
    ultimately show ?r using \<open>?l\<close> by blast
  next
    assume ?r
    then obtain r where r: "r \<in> set rs" "causal_relation r" "s = step_of crit r" "rl_subject r = u" by (auto simp: step_of_def)
    with assms(1) have "relation_ok r" by (simp add: list_all_iff)
    with r show ?l
      unfolding assms(2) adjacency_entries by (auto simp: step_of_def edge_ok_def relation_ok_def causal_relation_def assms(3))
  qed
  with Cons.IH show ?case by auto
qed simp

lemma relations_entries_ok: "list_all relation_ok rs \<Longrightarrow> entries_ok (build_adjacency rs)"
  by (auto simp: entries_ok_def adjacency_entries list_all_iff relation_ok_def)

lemma detect_cpof_returns:
  "lists_sets order \<Longrightarrow> list_all relation_ok rs \<Longrightarrow> \<exists>ns. detect_cpof order rs v = Some ns"
proof -
  assume order: "lists_sets order" and "list_all relation_ok rs"
  then have names: "c \<noteq> []" if "(v, c) \<in> (relation_edges rs)\<^sup>+" for c
    using reached_is_object [OF that] by (auto simp: list_all_iff relation_ok_def)
  have "set (order (get_reachable (plain_adjacency rs) v None)) = (relation_edges rs)\<^sup>+ `` {v}"
    using order finite_reachable [of rs v] by (simp add: lists_sets_def reachable_edges)
  with names show ?thesis by (auto simp: detect_cpof_def Let_def)
qed

text \<open>
  C24: A simulated action lists exactly its consequences: on valid relations it returns, and what it lists are the paths of at most
  \<open>depth\<close> causal relations from a root that enter no node twice, none missing and none listed twice (paths with the same
  signature count as one), each with the rounded product of its confidences, critical ones first.
\<close>

theorem what_if_lists_the_simple_paths:
  assumes "lists_sets order" "list_all relation_ok rs" "list_all relation_ok cpof_rs" "rs \<noteq> []" "action \<noteq> []" "ent \<noteq> []"
    and "[] \<notin> set active" and "roots = (if active = [] then [ent] else active)"
  shows "\<exists>paths. causal_what_if order crit rk jepa rs active cpof_rs ent action depth = Some paths
    \<and> (\<forall>p \<in> set paths. \<exists>r \<in> set roots. \<exists>ss. ss \<noteq> [] \<and> length ss \<le> nat depth \<and> follows crit rs {r} r ss
         \<and> cp_source p = r \<and> cp_steps p = ss \<and> cp_target p = ce_target (last ss) \<and> cp_conf p = walk_conf 1 ss)
    \<and> (\<forall>r \<in> set roots. \<forall>ss. ss \<noteq> [] \<and> length ss \<le> nat depth \<and> follows crit rs {r} r ss \<longrightarrow>
         signature ss \<in> signature ` cp_steps ` set paths)
    \<and> distinct (map (\<lambda>p. signature (cp_steps p)) paths) \<and> sorted (map path_rank paths)"
proof -
  from detect_cpof_returns [OF assms(1,3)] obtain ns where ns: "detect_cpof order cpof_rs ent = Some ns" by blast
  define W where "W = \<lparr>wi_adj = build_adjacency rs, wi_action = action, wi_critical = crit, wi_assessor = rk,
    wi_jepa = jepa, wi_cpof = fold (\<lambda>n. dset (cn_id n) (cn_severity n)) ns []\<rparr>"
  let ?f = "\<lambda>r. dfs_traverse W r (nat depth) r [] 1 {r}"
  have W: "wi_adj W = build_adjacency rs" "wi_critical W = crit" by (simp_all add: W_def)
  note walks = simple_walk_follows [OF assms(2) W]
  let ?Q = "\<lambda>p. \<exists>r \<in> set roots. walk_path W r (nat depth) p"
  have ok: "entries_ok (wi_adj W)" "wi_action W \<noteq> []" "\<And>r. r \<in> set roots \<Longrightarrow> r \<noteq> []"
    using assms(5-8) relations_entries_ok [OF assms(2)] by (auto simp: W_def split: if_splits)
  have "\<exists>st. fold_raising ?f roots ({}, []) = Some st \<and> listed ?Q st"
  proof (rule fold_raising_returns [where P = "listed ?Q"])
    show "listed ?Q ({}, [])" by (simp add: listed_def sigs_def)
  next
    fix r s assume r: "r \<in> set roots" and P: "listed ?Q s"
    from dfs_returns [OF ok(1,2) ok(3) [OF r], of 1 "nat depth" r "[]" "{r}" s] obtain s' where s': "?f r s = Some s'" by auto
    have "listed ?Q s'"
      using dfs_listed [OF s' P, of] r by (auto simp: walk_end_def walk_conf_def)
    with s' show "\<exists>s'. ?f r s = Some s' \<and> listed ?Q s'" by blast
  qed
  then obtain seen paths where st: "fold_raising ?f roots ({}, []) = Some (seen, paths)" "listed ?Q (seen, paths)" by auto
  have res: "causal_what_if order crit rk jepa rs active cpof_rs ent action depth = Some (sort_key path_rank paths)"
    using st(1) assms(4,8) by (simp add: causal_what_if_def ns W_def Let_def)
  have complete: "signature ss \<in> seen"
    if "r \<in> set roots" "ss \<noteq> []" "length ss \<le> nat depth" "follows crit rs {r} r ss" for r ss
  proof -
    note root_in = that(1)
    obtain s1 s2 pre post where s2: "?f r s1 = Some s2" and post: "fold_raising ?f post s2 = Some (seen, paths)"
      by (rule visit_splits [OF st(1) root_in])
    have "signature ss \<in> fst s2" using dfs_complete [OF s2 that(2,3)] that(4) walks by simp
    moreover have "fst s2 \<subseteq> fst (seen, paths)"
      by (rule fold_raising_invariant [OF _ post, where P = "\<lambda>s. fst s2 \<subseteq> fst s"]) (auto dest: dfs_grows)
    ultimately show ?thesis by auto
  qed
  have "mset (map (\<lambda>p. signature (cp_steps p)) (sort_key path_rank paths)) = mset (sigs paths)"
    unfolding sigs_def comp_def by (rule mset_map_sort)
  then have dist: "distinct (map (\<lambda>p. signature (cp_steps p)) (sort_key path_rank paths))"
    using st(2) by (metis listed_def mset_eq_imp_distinct_iff snd_conv)
  have seen: "seen = signature ` cp_steps ` set (sort_key path_rank paths)"
    using st(2) by (simp add: listed_def sigs_def image_comp)
  have each: "\<exists>r \<in> set roots. \<exists>ss. ss \<noteq> [] \<and> length ss \<le> nat depth \<and> follows crit rs {r} r ss
         \<and> cp_source p = r \<and> cp_steps p = ss \<and> cp_target p = ce_target (last ss) \<and> cp_conf p = walk_conf 1 ss"
    if p: "p \<in> set (sort_key path_rank paths)" for p
  proof -
    from st(2) p have "?Q p" by (simp add: listed_def)
    then obtain r ss where "r \<in> set roots" "ss \<noteq> []" "length ss \<le> nat depth" "simple_walk W {r} r ss"
      "p = make_path W r ss (walk_end r ss) (walk_conf 1 ss)" unfolding walk_path_def by blast
    then show ?thesis using walks by (intro bexI [of _ r] exI [of _ ss]) (auto simp: make_path_def walk_end_def)
  qed
  show ?thesis
    unfolding res
  proof (intro exI conjI ballI allI impI)
    fix r ss
    assume "r \<in> set roots" "ss \<noteq> [] \<and> length ss \<le> nat depth \<and> follows crit rs {r} r ss"
    then show "signature ss \<in> signature ` cp_steps ` set (sort_key path_rank paths)"
      using complete seen by blast
  qed (use each dist in auto)
qed

definition small_relations :: "relation list" where
  "small_relations =
     [\<lparr>rl_subject = ''db'', rl_predicate = ''hosts'', rl_object = ''app'', rl_conf = 1\<rparr>,
      \<lparr>rl_subject = ''app'', rl_predicate = ''causes'', rl_object = ''ui'', rl_conf = 1/2\<rparr>]"

lemma small_relations_ok: "list_all relation_ok small_relations" "small_relations \<noteq> []"
  by (simp_all add: small_relations_def relation_ok_def)

theorem what_if_lists_the_simple_paths_witness:
  "\<exists>paths. causal_what_if sorted_list_of_set default_critical_predicates None None small_relations [] small_relations
      ''db'' ''stop'' 2 = Some paths \<and> sorted (map path_rank paths)"
  using what_if_lists_the_simple_paths [OF lists_sets_sorted small_relations_ok(1) small_relations_ok(1) small_relations_ok(2),
    of "''stop''" "''db''" "[]" "[''db'']" default_critical_predicates None None 2]
  by auto

end
