(* ===== verification/CausalDiffusion.thy ===== *)
theory CausalDiffusion
  imports CausalPaths
begin

text \<open>
  What the layered propagation of \<open>causal_diffusion_analysis\<close> computes: the nodes it reports are those within the depth, each
  with its distance from the start.
\<close>

text \<open>The nodes that walks of length \<open>k\<close> reach which never return to the start and never stay.\<close>

fun layer :: "relation list \<Rightarrow> string \<Rightarrow> nat \<Rightarrow> string set" where
  "layer rs start 0 = {start}"
| "layer rs start (Suc k) =
     {rl_object r | r. r \<in> set rs \<and> causal_relation r \<and> rl_subject r \<in> layer rs start k
        \<and> rl_object r \<noteq> start \<and> rl_object r \<noteq> rl_subject r}"

definition stat_ok :: "relation list \<Rightarrow> string \<Rightarrow> string \<Rightarrow> node_stat \<Rightarrow> bool" where
  "stat_ok rs start t s \<longleftrightarrow> 1 \<le> st_length s \<and> t \<in> layer rs start (st_length s)
     \<and> (\<forall>k. 1 \<le> k \<and> k < st_length s \<longrightarrow> t \<notin> layer rs start k) \<and> 0 \<le> st_impact s \<and> 0 \<le> st_conf s \<and> st_conf s \<le> 1"

text \<open>In layer \<open>d\<close>, with the nodes \<open>N\<close> already entered.\<close>

definition spread_inv :: "relation list \<Rightarrow> string \<Rightarrow> nat \<Rightarrow> string set \<Rightarrow> diffusion \<Rightarrow> bool" where
  "spread_inv rs start d N D \<longleftrightarrow>
     wf_dict (df_stats D) \<and> set (dkeys (df_stats D)) = (\<Union>k \<in> {1..<d}. layer rs start k) \<union> N
     \<and> (\<forall>t s. dget (df_stats D) t = Some s \<longrightarrow> stat_ok rs start t s \<and> st_length s \<le> d)
     \<and> wf_dict (df_next D) \<and> set (dkeys (df_next D)) = N
     \<and> (\<forall>t c. dget (df_next D) t = Some c \<longrightarrow> 0 \<le> c \<and> c \<le> 1) \<and> df_reached D \<le> d"

lemma spread_edge_inv:
  assumes inv: "spread_inv rs start d N D" and u: "u \<in> layer rs start (d - 1)" and d: "1 \<le> d"
    and entry: "(tgt, pred, c) \<in> set (dget_default (build_adjacency rs) u [])" and ok: "list_all relation_ok rs"
    and uc: "0 \<le> uc" "uc \<le> 1" and decay: "0 \<le> decay" "decay \<le> 1"
  shows "\<exists>D'. spread_edge crit decay start d u uc (tgt, pred, c) D = Some D'
    \<and> spread_inv rs start d (N \<union> (if tgt = start \<or> tgt = u then {} else {tgt})) D'"
proof (cases "tgt = start \<or> tgt = u")
  case True
  with inv show ?thesis by (simp add: spread_edge_def)
next
  case False
  from entry obtain r where r: "r \<in> set rs" "causal_relation r" "rl_subject r = u" "rl_object r = tgt" "rl_predicate r = pred" "rl_conf r = c"
    unfolding adjacency_entries by blast
  then have rok: "relation_ok r" using ok by (simp add: list_all_iff)
  with r have c: "0 \<le> c" "c \<le> 1" by (auto simp: relation_ok_def)
  have "tgt \<in> layer rs start (Suc (d - 1))" using r u False by auto
  then have tgt: "tgt \<in> layer rs start d" using d by simp
  obtain e where e: "new_edge u pred tgt c (impact_type crit pred) = Some e"
    using r rok by (auto simp: new_edge_def Let_def edge_ok_def relation_ok_def)
  define D1 where "D1 = (if (u, pred, tgt) \<in> df_seen D then D
      else D\<lparr>df_seen := insert (u, pred, tgt) (df_seen D), df_edges := df_edges D @ [e]\<rparr>)"
  have same: "df_stats D1 = df_stats D" "df_next D1 = df_next D" "df_reached D1 = df_reached D" by (simp_all add: D1_def)
  let ?t = "uc * c" and ?i = "uc * c * decay ^ d"
  let ?s = "update_stat d ?t ?i (dget (df_stats D) tgt)"
  let ?n = "min 1 (dget_default (df_next D) tgt 0 + ?t)"
  have res: "spread_edge crit decay start d u uc (tgt, pred, c) D = Some (D1\<lparr>df_reached := max (df_reached D1) d,
      df_stats := dset tgt ?s (df_stats D), df_next := dset tgt ?n (df_next D)\<rparr>)"
    using False by (simp add: spread_edge_def e D1_def same Let_def)
  have t: "0 \<le> ?t" "?t \<le> 1" using uc c by (auto intro: mult_le_one)
  have i: "0 \<le> ?i" using t decay by simp
  have stat: "stat_ok rs start tgt ?s \<and> st_length ?s \<le> d"
  proof (cases "dget (df_stats D) tgt")
    case None
    then have "tgt \<notin> set (dkeys (df_stats D))" by (rule dget_None_iff [THEN iffD1])
    then have "tgt \<notin> layer rs start k" if "1 \<le> k" "k < d" for k using inv that by (auto simp: spread_inv_def)
    with None tgt d t i show ?thesis by (auto simp: update_stat_def stat_ok_def Let_def)
  next
    case (Some s)
    with inv have "stat_ok rs start tgt s" "st_length s \<le> d" unfolding spread_inv_def by blast+
    with Some t i show ?thesis by (auto simp: update_stat_def stat_ok_def Let_def min_def max_def)
  qed
  have n: "0 \<le> ?n" "?n \<le> 1"
    using inv t unfolding spread_inv_def by (auto simp: dget_default_def min_def split: option.split)
  show ?thesis
    unfolding res using inv stat n False
    by (intro exI conjI refl) (auto simp: spread_inv_def same set_dset simp del: set_map split: if_splits)
qed

lemma fold_raising_collects:
  assumes "\<And>x s N. x \<in> set xs \<Longrightarrow> P N s \<Longrightarrow> \<exists>s'. f x s = Some s' \<and> P (N \<union> g x) s'"
  shows "P N s \<Longrightarrow> \<exists>s'. fold_raising f xs s = Some s' \<and> P (N \<union> (\<Union>x \<in> set xs. g x)) s'"
  using assms
proof (induction xs arbitrary: N s)
  case (Cons x xs)
  from Cons.prems(2) [OF _ Cons.prems(1), of x] obtain s1 where s1: "f x s = Some s1" "P (N \<union> g x) s1" by auto
  from Cons.IH [OF s1(2)] Cons.prems(2) have "\<exists>s'. fold_raising f xs s1 = Some s' \<and> P (N \<union> g x \<union> (\<Union>x \<in> set xs. g x)) s'"
    by simp
  with s1(1) show ?case by (simp add: Un_assoc)
qed simp

lemma spread_layer_inv:
  assumes inv: "spread_inv rs start d {} (D\<lparr>df_next := []\<rparr>)" and d: "1 \<le> d" and ok: "list_all relation_ok rs"
    and layer: "fst ` set L = layer rs start (d - 1)" "\<And>u c. (u, c) \<in> set L \<Longrightarrow> 0 \<le> c \<and> c \<le> 1"
    and decay: "0 \<le> decay" "decay \<le> 1"
  shows "\<exists>D'. spread_layer crit decay (build_adjacency rs) start d L D = Some D' \<and> spread_inv rs start d (layer rs start d) D'"
proof -
  let ?adj = "build_adjacency rs"
  let ?g = "\<lambda>u (tgt, pred, c). if tgt = start \<or> tgt = u then {} else {tgt}"
  have inner: "\<exists>s'. fold_raising (spread_edge crit decay start d u uc) (dget_default ?adj u []) s = Some s'
      \<and> spread_inv rs start d (N \<union> (\<Union>x \<in> set (dget_default ?adj u []). ?g u x)) s'"
    if "(u, uc) \<in> set L" "spread_inv rs start d N s" for u uc s N
  proof (rule fold_raising_collects [where P = "spread_inv rs start d" and g = "?g u"])
    show "spread_inv rs start d N s" by (rule that(2))
  next
    fix x s N assume x: "x \<in> set (dget_default ?adj u [])" and P: "spread_inv rs start d N s"
    obtain tgt pred c where [simp]: "x = (tgt, pred, c)" by (cases x)
    have "u \<in> layer rs start (d - 1)" using that(1) layer(1) by force
    from spread_edge_inv [where tgt = tgt and pred = pred and c = c and crit = crit and uc = uc, OF P this d _ ok _ _ decay] x layer(2) [OF that(1)]
    show "\<exists>s'. spread_edge crit decay start d u uc x s = Some s' \<and> spread_inv rs start d (N \<union> ?g u x) s'" by simp
  qed
  have "\<exists>s'. fold_raising (\<lambda>(u, uc). fold_raising (spread_edge crit decay start d u uc) (dget_default ?adj u [])) L (D\<lparr>df_next := []\<rparr>) = Some s'
      \<and> spread_inv rs start d ({} \<union> (\<Union>p \<in> set L. case p of (u, uc) \<Rightarrow> \<Union>x \<in> set (dget_default ?adj u []). ?g u x)) s'"
    by (rule fold_raising_collects [where P = "spread_inv rs start d"]) (use inv inner in auto)
  moreover have "(\<Union>p \<in> set L. case p of (u, uc) \<Rightarrow> \<Union>x \<in> set (dget_default ?adj u []). ?g u x) = layer rs start d"
  proof -
    obtain d' where d': "d = Suc d'" using d by (cases d) auto
    then have "t \<in> layer rs start d \<longleftrightarrow> (\<exists>u \<in> fst ` set L. \<exists>pred c. (t, pred, c) \<in> set (dget_default ?adj u []) \<and> t \<noteq> start \<and> t \<noteq> u)" for t
      unfolding layer(1) adjacency_entries d' by auto
    then show ?thesis by (fastforce split: if_splits)
  qed
  ultimately show ?thesis by (simp add: spread_layer_def)
qed

lemma empty_layers: "layer rs start d = {} \<Longrightarrow> d \<le> k \<Longrightarrow> layer rs start k = {}"
  by (induction k) (auto simp: le_Suc_eq)

lemma spread_layers_inv:
  assumes ok: "list_all relation_ok rs" and decay: "0 \<le> decay" "decay \<le> 1"
  shows "1 \<le> d \<Longrightarrow> spread_inv rs start d {} (D\<lparr>df_next := []\<rparr>) \<Longrightarrow> fst ` set L = layer rs start (d - 1) \<Longrightarrow>
    (\<And>u c. (u, c) \<in> set L \<Longrightarrow> 0 \<le> c \<and> c \<le> 1) \<Longrightarrow>
    \<exists>D'. spread_layers crit decay (build_adjacency rs) start left d L D = Some D' \<and> wf_dict (df_stats D')
      \<and> set (dkeys (df_stats D')) = (\<Union>k \<in> {1..<d + left}. layer rs start k)
      \<and> (\<forall>t s. dget (df_stats D') t = Some s \<longrightarrow> stat_ok rs start t s)"
proof (induction left arbitrary: d L D)
  case 0
  then show ?case by (simp add: spread_inv_def)
next
  case (Suc left)
  have "\<exists>D1. spread_layer crit decay (build_adjacency rs) start d L D = Some D1 \<and> spread_inv rs start d (layer rs start d) D1"
    by (rule spread_layer_inv [OF Suc.prems(2,1) ok Suc.prems(3) _ decay]) (rule Suc.prems(4))
  then obtain D1 where
    D1: "spread_layer crit decay (build_adjacency rs) start d L D = Some D1" "spread_inv rs start d (layer rs start d) D1" by blast
  have union: "(\<Union>k \<in> {1..<d}. layer rs start k) \<union> layer rs start d = (\<Union>k \<in> {1..<Suc d}. layer rs start k)"
    using Suc.prems(1) by (auto simp: less_Suc_eq)
  show ?case
  proof (cases "df_next D1 = []")
    case True
    with D1(2) have "layer rs start d = {}" by (simp add: spread_inv_def)
    then have none: "layer rs start k = {}" if "d \<le> k" for k using empty_layers that by blast
    have range: "t \<in> layer rs start k \<Longrightarrow> k < d" for t k using none [of k] by (cases "d \<le> k") auto
    have "(\<Union>k \<in> {1..<d + Suc left}. layer rs start k) = (\<Union>k \<in> {1..<Suc d}. layer rs start k)"
      by (intro set_eqI) (fastforce dest: range)
    with True D1 union show ?thesis unfolding spread_inv_def by simp
  next
    case False
    have "spread_inv rs start (Suc d) {} (D1\<lparr>df_next := []\<rparr>)"
      using D1(2) union by (auto simp: spread_inv_def le_SucI)
    moreover have "fst ` set (df_next D1) = layer rs start (Suc d - 1)" using D1(2) by (simp add: spread_inv_def)
    moreover have "0 \<le> c \<and> c \<le> 1" if "(u, c) \<in> set (df_next D1)" for u c
      using D1(2) that unfolding spread_inv_def wf_dict_def by (metis map_of_eq_Some_iff)
    ultimately show ?thesis using Suc.IH [of "Suc d" D1 "df_next D1"] D1(1) False by simp
  qed
qed


text \<open>
  C32: The wave of consequences reaches what it should: on valid relations the analysis returns, and it reports, each once, the nodes
  that causal walks of at most \<open>max_depth\<close> relations reach from the start without coming back to it; the path length of a node is
  the length of the shortest such walk, its confidence is in the unit interval and its impact is not negative.
\<close>

theorem diffusion_reports_distances:
  assumes ok: "list_all relation_ok rs" and "rs \<noteq> []"
  shows "\<exists>q. causal_diffusion_analysis crit rs start max_depth decay_factor = Some q
    \<and> distinct (map dn_id (dr_nodes q))
    \<and> dn_id ` set (dr_nodes q) = (\<Union>k \<in> {1..nat (max 1 max_depth)}. layer rs start k)
    \<and> (\<forall>n \<in> set (dr_nodes q). 1 \<le> dn_length n \<and> dn_id n \<in> layer rs start (dn_length n)
         \<and> (\<forall>k. 1 \<le> k \<and> k < dn_length n \<longrightarrow> dn_id n \<notin> layer rs start k)
         \<and> 0 \<le> dn_conf n \<and> dn_conf n \<le> 1 \<and> 0 \<le> dn_impact n)"
proof -
  let ?D0 = "\<lparr>df_stats = [], df_edges = [], df_seen = {}, df_reached = 0, df_next = []\<rparr>"
  let ?m = "nat (max 1 max_depth)"
  have "spread_inv rs start 1 {} (?D0\<lparr>df_next := []\<rparr>)" by (simp add: spread_inv_def)
  then have "\<exists>D. spread_layers crit (clamp01 decay_factor) (build_adjacency rs) start ?m 1 [(start, 1)] ?D0 = Some D \<and> wf_dict (df_stats D)
      \<and> set (dkeys (df_stats D)) = (\<Union>k \<in> {1..<1 + ?m}. layer rs start k)
      \<and> (\<forall>t s. dget (df_stats D) t = Some s \<longrightarrow> stat_ok rs start t s)"
    using clamp01_unit by (intro spread_layers_inv [OF ok]) auto
  then obtain D where D: "spread_layers crit (clamp01 decay_factor) (build_adjacency rs) start ?m 1 [(start, 1)] ?D0 = Some D"
    "wf_dict (df_stats D)" "set (dkeys (df_stats D)) = (\<Union>k \<in> {1..<1 + ?m}. layer rs start k)"
    "\<And>t s. dget (df_stats D) t = Some s \<Longrightarrow> stat_ok rs start t s" by blast
  have stat: "stat_ok rs start t s" if "(t, s) \<in> set (df_stats D)" for t s
    using D(2,4) that by (simp add: wf_dict_def)
  let ?node = "\<lambda>(nid, s). \<lparr>dn_id = nid, dn_impact = py_round 6 (st_impact s), dn_length = st_length s,
      dn_conf = min 1 (max 0 (py_round 6 (st_conf s)))\<rparr>"
  have "t \<noteq> []" if "t \<in> layer rs start k" "1 \<le> k" for t k
    using that ok by (cases k) (auto simp: list_all_iff relation_ok_def)
  moreover have round: "0 \<le> py_round 6 x" if "0 \<le> x" for x
    using round_even_ge [of 0 "x * 10 ^ 6"] that by (simp add: py_round_def)
  ultimately have "list_all (\<lambda>n. dn_id n \<noteq> [] \<and> 0 \<le> dn_impact n) (map ?node (df_stats D))"
    using stat by (fastforce simp: list_all_iff stat_ok_def)
  then have nodes: "build_diffusion_nodes (df_stats D) = Some (map ?node (df_stats D))" by (simp add: build_diffusion_nodes_def Let_def)
  have "0 \<le> sum_list (map dn_impact (map ?node (df_stats D)))"
    by (rule sum_list_nonneg) (use stat round in \<open>auto simp: stat_ok_def\<close>)
  then have "0 \<le> py_round 6 (sum_list (map dn_impact (map ?node (df_stats D))))" by (rule round)
  then obtain q where q: "causal_diffusion_analysis crit rs start max_depth decay_factor = Some q" "dr_nodes q = map ?node (df_stats D)"
    using D(1) nodes assms(2) by (simp add: causal_diffusion_analysis_def Let_def)
  have ids: "map dn_id (map ?node (df_stats D)) = dkeys (df_stats D)" by auto
  have "distinct (map dn_id (dr_nodes q))" unfolding q(2) ids using D(2) by (simp add: wf_dict_def)
  moreover have "dn_id ` set (dr_nodes q) = (\<Union>k \<in> {1..?m}. layer rs start k)"
  proof -
    have "dn_id ` set (dr_nodes q) = set (dkeys (df_stats D))" unfolding q(2) by (metis ids set_map)
    moreover have "{1..<1 + ?m} = {1..?m}" by auto
    ultimately show ?thesis using D(3) by simp
  qed
  moreover have "1 \<le> dn_length n \<and> dn_id n \<in> layer rs start (dn_length n)
         \<and> (\<forall>k. 1 \<le> k \<and> k < dn_length n \<longrightarrow> dn_id n \<notin> layer rs start k)
         \<and> 0 \<le> dn_conf n \<and> dn_conf n \<le> 1 \<and> 0 \<le> dn_impact n" if "n \<in> set (dr_nodes q)" for n
    using that stat round unfolding q(2) by (auto simp: stat_ok_def)
  ultimately show ?thesis using q(1) by blast
qed

theorem diffusion_reports_distances_witness:
  "\<exists>q. causal_diffusion_analysis default_critical_predicates small_relations ''db'' 3 (7/10) = Some q
    \<and> distinct (map dn_id (dr_nodes q))"
  using diffusion_reports_distances [OF small_relations_ok] by blast

end
