(* ===== verification/Recalibration.thy ===== *)
theory Recalibration
  imports Annealer CausalDiffusion WriteSaga
begin

text \<open>
  \<open>recalibrate_graph_with_annealer\<close> of \<open>causal/retro_causal_edge.py\<close>: the relations around an entity become causal edges, the
  annealer moves their confidences, and the write path commits them again. The write path is one that only has the graph, so
  only its graph changes. The status of the answer is its text.
\<close>

record recalibration =
  rc_status :: string
  rc_iterations :: nat
  rc_converged :: bool
  rc_updated :: nat

definition skipped :: "string \<Rightarrow> recalibration" where
  "skipped status = \<lparr>rc_status = status, rc_iterations = 0, rc_converged = False, rc_updated = 0\<rparr>"

text \<open>The relations of the whole graph stand in when nothing was asked for in particular.\<close>

definition relations_to_anneal :: "string \<Rightarrow> relation list \<Rightarrow> relation list \<Rightarrow> relation list" where
  "relations_to_anneal target relations all_relations =
     (if relations \<noteq> [] then relations
      else if target \<noteq> [] \<and> target \<noteq> ''Root'' then [] else all_relations)"

definition edges_to_anneal :: "string list \<Rightarrow> relation list \<Rightarrow> causal_edge list option" where
  "edges_to_anneal crit relations =
     those (map (\<lambda>r. new_edge (rl_subject r) (rl_predicate r) (rl_object r) (rl_conf r) (impact_type crit (rl_predicate r)))
       (filter (\<lambda>r. rl_subject r \<noteq> [] \<and> rl_object r \<noteq> [] \<and> rl_predicate r \<noteq> []) relations))"

text \<open>An exception of a commit is logged, and the loop goes on.\<close>

fun commit_edges_back :: "('g, 'v, 'r) wp_env \<Rightarrow> causal_edge list \<Rightarrow> ('g, 'v) wp \<Rightarrow> nat \<Rightarrow> ('g, 'v) wp \<times> nat" where
  "commit_edges_back E [] w n = (w, n)"
| "commit_edges_back E (e # es) w n =
     (case commit_relation E (ce_source e) (ce_predicate e) (ce_target e) (FNum (ce_conf e)) None None [] w of
        (w', Inr True) \<Rightarrow> commit_edges_back E es w' (n + 1)
      | (w', _) \<Rightarrow> commit_edges_back E es w' n)"

definition recalibrate_graph_with_annealer ::
  "('g, 'v, 'x) wp_env \<Rightarrow> 'r random_api \<Rightarrow> energy_module \<Rightarrow> (string \<Rightarrow> rat) option \<Rightarrow> string list \<Rightarrow> relation list \<Rightarrow> relation list \<Rightarrow>
     string \<Rightarrow> int option \<Rightarrow> ('g, 'v) wp \<Rightarrow> 'r \<Rightarrow> recalibration option \<times> ('g, 'v) wp \<times> 'r" where
  "recalibrate_graph_with_annealer E A M sensing crit relations all_relations target max_iter w r =
     (if w_graph w = None then (Some (skipped ''no_graph''), w, r)
      else
        (let rels = relations_to_anneal target relations all_relations in
         if rels = [] then (Some (skipped ''no_relations''), w, r)
         else
           (case edges_to_anneal crit rels of
              None \<Rightarrow> (None, w, r)
            | Some [] \<Rightarrow> (Some (skipped ''empty_edges''), w, r)
            | Some (e # es) \<Rightarrow>
                (let n = (case max_iter of None \<Rightarrow> 500 | Some n \<Rightarrow> n);
                     (res, r') = run A M True sensing None (default_run\<lparr>ru_max_iter := n\<rparr>) (e # es) r
                 in case res of
                      None \<Rightarrow> (None, w, r')
                    | Some q \<Rightarrow>
                        (let (w', updated) = commit_edges_back E (ar_edges q) w 0 in
                         (Some \<lparr>rc_status = ''ok'', rc_iterations = ar_iterations q, rc_converged = ar_converged q,
                                rc_updated = updated\<rparr>, w', r'))))))"

section \<open>What it may write\<close>

text \<open>The graph after calls of its insertion with allowed arguments.\<close>

inductive added_by ::
  "'g graph_api \<Rightarrow> (string \<Rightarrow> string \<Rightarrow> string \<Rightarrow> rat option \<Rightarrow> bool) \<Rightarrow> 'g \<Rightarrow> 'g \<Rightarrow> bool"
  for G allowed g where
  unchanged: "added_by G allowed g g"
| added: "added_by G allowed g g' \<Longrightarrow> allowed s p ob c \<Longrightarrow> added_by G allowed g (fst (ga_add G s p ob c [] g'))"

inductive_cases added_byE: "added_by G allowed g g'"

definition may_add :: "('g, 'v, 'r) wp_env \<Rightarrow> relation list \<Rightarrow> string \<Rightarrow> string \<Rightarrow> string \<Rightarrow> rat option \<Rightarrow> bool" where
  "may_add E rels s p ob c \<longleftrightarrow>
     (\<exists>r \<in> set rels. s = py_strip (rl_subject r) \<and> p = py_strip (rl_predicate r) \<and> ob = py_strip (rl_object r)
        \<and> \<not> refused_relation (ae_repr (we_arb E)) (rl_subject r) (rl_predicate r) (rl_object r))
     \<and> (case c of None \<Rightarrow> True | Some x \<Rightarrow> 0 \<le> x \<and> x \<le> 1)"

lemma added_call:
  "ga_add G s p ob c [] g = (g', res) \<Longrightarrow> added_by G al g0 g \<Longrightarrow> al s p ob c \<Longrightarrow> added_by G al g0 g'"
  by (metis added_by.added fst_conv)

lemma fallback_adds:
  assumes "add_with_fallback G s p ob c [] g = (g', res)" "added_by G al g0 g" "al s p ob (Some c)" "al s p ob None"
  shows "added_by G al g0 g'"
proof -
  obtain g1 r1 where 1: "ga_add G s p ob (Some c) [] g = (g1, r1)" by fastforce
  obtain g2 r2 where 2: "ga_add G s p ob (Some c) [] g1 = (g2, r2)" by fastforce
  obtain g3 r3 where 3: "ga_add G s p ob None [] g2 = (g3, r3)" by fastforce
  note a1 = added_call [where al = al, OF 1 assms(2,3)]
  note a2 = added_call [where al = al, OF 2 a1 assms(3)]
  note a3 = added_call [where al = al, OF 3 a2 assms(4)]
  from assms(1) have "g' \<in> {g1, g2, g3}"
    by (auto simp: add_with_fallback_def 1 2 3 split: sum.splits graph_error.splits)
  with a1 a2 a3 show ?thesis by blast
qed

lemma commit_relation_adds:
  assumes g: "w_graph w = Some g" "added_by (we_graph E) (may_add E rels) g0 g"
    and r: "r \<in> set rels"
    and commit: "commit_relation E (rl_subject r) (rl_predicate r) (rl_object r) (FNum x) None None [] w = (w', res)"
  shows "\<exists>g'. w' = w\<lparr>w_graph := Some g'\<rparr> \<and> added_by (we_graph E) (may_add E rels) g0 g'"
proof (cases "refused_relation (ae_repr (we_arb E)) (rl_subject r) (rl_predicate r) (rl_object r)")
  case True
  with g commit show ?thesis by (auto simp: commit_relation_def commit_edge_def)
next
  case False
  let ?s = "py_strip (rl_subject r)" and ?p = "py_strip (rl_predicate r)" and ?o = "py_strip (rl_object r)"
  have may: "may_add E rels ?s ?p ?o None" "may_add E rels ?s ?p ?o (Some (clamp_conf (FNum x)))"
    using False r clamp_conf_range [of "FNum x"] by (auto simp: may_add_def simp del: clamp_conf.simps)
  obtain g' res' where f: "add_with_fallback (we_graph E) ?s ?p ?o (clamp_conf (FNum x)) [] g = (g', res')" by fastforce
  from False g commit f have "w' = w\<lparr>w_graph := Some g'\<rparr>"
    by (simp add: commit_relation_def commit_edge_def Let_def del: clamp_conf.simps)
  with fallback_adds [OF f g(2) may(2,1)] show ?thesis by blast
qed

lemma commit_edges_back_adds:
  assumes "w_graph w = Some g" "added_by (we_graph E) (may_add E rels) g0 g"
    and "\<forall>e \<in> set es. \<exists>r \<in> set rels. ce_source e = rl_subject r \<and> ce_predicate e = rl_predicate r \<and> ce_target e = rl_object r"
  shows "\<exists>g'. fst (commit_edges_back E es w n) = w\<lparr>w_graph := Some g'\<rparr> \<and> added_by (we_graph E) (may_add E rels) g0 g'"
  using assms
proof (induction es arbitrary: w g n)
  case Nil
  then show ?case by (auto intro!: exI [of _ g])
next
  case (Cons e es)
  from Cons.prems(3) obtain r where r: "r \<in> set rels" "ce_source e = rl_subject r" "ce_predicate e = rl_predicate r" "ce_target e = rl_object r"
    by auto
  obtain w1 res where c: "commit_relation E (rl_subject r) (rl_predicate r) (rl_object r) (FNum (ce_conf e)) None None [] w = (w1, res)"
    by fastforce
  from commit_relation_adds [OF Cons.prems(1,2) r(1) c] obtain g1 where
    g1: "w1 = w\<lparr>w_graph := Some g1\<rparr>" "added_by (we_graph E) (may_add E rels) g0 g1" by blast
  have rest: "\<exists>g'. fst (commit_edges_back E es w1 m) = w1\<lparr>w_graph := Some g'\<rparr> \<and> added_by (we_graph E) (may_add E rels) g0 g'" for m
    using Cons.IH [of w1 g1 m] g1 Cons.prems(3) by simp
  have "fst (commit_edges_back E (e # es) w n) \<in> {fst (commit_edges_back E es w1 n), fst (commit_edges_back E es w1 (n + 1))}"
    by (auto simp: r c split: sum.split bool.split)
  then show ?case using rest [of n] rest [of "n + 1"] by (auto simp: g1(1))
qed

lemma edges_to_anneal_parts:
  assumes "edges_to_anneal crit rels = Some es"
  shows "list_all edge_ok es"
    and "\<forall>e \<in> set es. \<exists>r \<in> set rels. ce_source e = rl_subject r \<and> ce_predicate e = rl_predicate r \<and> ce_target e = rl_object r"
proof -
  have "those (map f xs) = Some ys \<Longrightarrow> \<forall>y \<in> set ys. \<exists>x \<in> set xs. f x = Some y" for f :: "relation \<Rightarrow> causal_edge option" and xs ys
    by (induction xs arbitrary: ys) (fastforce split: option.splits)+
  from this [OF assms [unfolded edges_to_anneal_def]]
  have made: "\<forall>e \<in> set es. \<exists>r \<in> set rels.
      new_edge (rl_subject r) (rl_predicate r) (rl_object r) (rl_conf r) (impact_type crit (rl_predicate r)) = Some e" by auto
  have "edge_ok e \<and> ce_source e = rl_subject r \<and> ce_predicate e = rl_predicate r \<and> ce_target e = rl_object r"
    if "new_edge (rl_subject r) (rl_predicate r) (rl_object r) c i = Some e" for r c i e
    using that by (auto simp: new_edge_def Let_def split: if_splits)
  with made show "list_all edge_ok es"
    "\<forall>e \<in> set es. \<exists>r \<in> set rels. ce_source e = rl_subject r \<and> ce_predicate e = rl_predicate r \<and> ce_target e = rl_object r"
    unfolding list_all_iff by blast+
qed

text \<open>
  C33: Recalibration keeps to the choke point: whatever the annealer and the graph do, it changes nothing but the graph, and the graph
  only by insertions of relations that were annealed, that the write path does not refuse (no prose, no personal data, no self
  loop, grounded at both ends), with a confidence in the unit interval.
\<close>

theorem recalibration_keeps_to_the_choke_point:
  assumes "w_graph w = Some g"
  shows "\<exists>g'. fst (snd (recalibrate_graph_with_annealer E A M sensing crit relations all_relations target max_iter w r))
      = w\<lparr>w_graph := Some g'\<rparr>
    \<and> added_by (we_graph E) (may_add E (relations_to_anneal target relations all_relations)) g g'"
proof -
  let ?rels = "relations_to_anneal target relations all_relations"
  let ?out = "recalibrate_graph_with_annealer E A M sensing crit relations all_relations target max_iter w r"
  have same: ?thesis if "fst (snd ?out) = w"
    using that assms by (intro exI [of _ g]) (auto intro: added_by.unchanged)
  show ?thesis
  proof (cases "?rels = [] \<or> edges_to_anneal crit ?rels = None \<or> edges_to_anneal crit ?rels = Some []")
    case True
    with assms show ?thesis by (intro same) (auto simp: recalibrate_graph_with_annealer_def Let_def)
  next
    case False
    then obtain e es where es: "edges_to_anneal crit ?rels = Some (e # es)" by (metis neq_Nil_conv not_Some_eq)
    obtain res r' where run: "run A M True sensing None (default_run\<lparr>ru_max_iter := (case max_iter of None \<Rightarrow> 500 | Some n \<Rightarrow> n)\<rparr>) (e # es) r = (res, r')"
      by fastforce
    show ?thesis
    proof (cases res)
      case None
      with assms False es run show ?thesis by (intro same) (simp add: recalibrate_graph_with_annealer_def Let_def)
    next
      case (Some q)
      with run have run_Some: "fst (run A M True sensing None
          (default_run\<lparr>ru_max_iter := (case max_iter of None \<Rightarrow> 500 | Some n \<Rightarrow> n)\<rparr>) (e # es) r) = Some q" by simp
      have "list_all2 (\<lambda>e e'. ce_source e' = ce_source e \<and> ce_predicate e' = ce_predicate e \<and> ce_target e' = ce_target e) (e # es) (ar_edges q)"
        by (rule list_all2_mono [OF run_reweights [OF _ edges_to_anneal_parts(1) [OF es] run_Some, unfolded reweighted_def]])
           (auto simp: with_conf_def)
      then have "\<exists>e0 \<in> set (e # es). ce_source e' = ce_source e0 \<and> ce_predicate e' = ce_predicate e0 \<and> ce_target e' = ce_target e0"
        if "e' \<in> set (ar_edges q)" for e'
        using that unfolding list_all2_conv_all_nth by (metis in_set_conv_nth)
      with edges_to_anneal_parts(2) [OF es] have "\<forall>e' \<in> set (ar_edges q). \<exists>r \<in> set ?rels.
          ce_source e' = rl_subject r \<and> ce_predicate e' = rl_predicate r \<and> ce_target e' = rl_object r" by metis
      from commit_edges_back_adds [where n = 0, OF assms added_by.unchanged this] obtain g' where
        "fst (commit_edges_back E (ar_edges q) w 0) = w\<lparr>w_graph := Some g'\<rparr>" "added_by (we_graph E) (may_add E ?rels) g g'" by blast
      moreover have "fst (snd ?out) = fst (commit_edges_back E (ar_edges q) w 0)"
        using assms False es run Some by (simp add: recalibrate_graph_with_annealer_def Let_def split: prod.split)
      ultimately show ?thesis by auto
    qed
  qed
qed

text \<open>The hypothesis holds of the write path of the examples, whose graph is the list of its edges.\<close>

theorem recalibration_keeps_to_the_choke_point_witness:
  "\<exists>g'. fst (snd (recalibrate_graph_with_annealer (toy_env False) quiet_random plain_energy None default_critical_predicates
        small_relations [] ''db'' None toy_down 0)) = toy_down\<lparr>w_graph := Some g'\<rparr>
    \<and> added_by (we_graph (toy_env False)) (may_add (toy_env False) (relations_to_anneal ''db'' small_relations [])) [] g'"
  by (rule recalibration_keeps_to_the_choke_point) (simp add: toy_down_def)

end
