(* ===== verification/Candidates.thy ===== *)
theory Candidates
  imports HotBuffer StateSearch Linguistics
begin

text \<open>
  \<open>cognitive/retrieval/candidates.py\<close> and the adapters of \<open>core/protocols.py\<close>: the pool of candidates of a query, gathered from
  the hot buffer, the key-value store, the vector index and the graph. What a projection answers is checked against the store:
  keys of vector hits have to be live there, and graph records must not stand on a retired one.

  A record of the pool is the dictionary that \<open>_build_record\<close> makes. The vector index, the personalised PageRank and the reads of the
  graph are parameters, each of which may raise (\<open>None\<close>). \<open>rd_order\<close> is the order in which a set is iterated. The set
  \<open>seen_keys\<close> of the code always holds the keys of the pool and is left out.
\<close>

section \<open>Records of the pool\<close>

record candidate =
  cd_key :: "string option"
  cd_subject :: string
  cd_predicate :: pyval
  cd_object :: string
  cd_content :: string
  cd_source :: string
  cd_vector_score :: rat
  cd_importance :: "rat option"
  cd_confidence :: rat
  cd_source_type :: string
  cd_meta :: meta
  cd_timestamp :: "rat option"
  cd_vector :: "pyval option"
  cd_graph_score :: "rat option"
  cd_graph_hit :: "bool option"
  cd_exact :: bool

type_synonym pool = "(string, candidate) dict"

record graph_edge =
  ge_subject :: string
  ge_predicate :: pyval
  ge_object :: string
  ge_confidence :: pyval
  ge_timestamp :: pyval
  ge_session :: pyval

record graph_reader =
  gr_resolve :: "string list \<Rightarrow> string \<Rightarrow> string list"
  gr_relations :: "string \<Rightarrow> graph_edge list option"
  gr_ppr :: "string \<Rightarrow> int \<Rightarrow> meta list option"

record read_env =
  rd_render :: render_env
  rd_ling :: ling_env
  rd_fts :: fts_index
  rd_fp :: "ustr \<Rightarrow> rat"
  rd_order :: "string set \<Rightarrow> string list"
  rd_hippo :: bool

record stores =
  st_hot :: "hot_buffer option"
  st_kv :: "kv option"
  st_vector :: "(string \<Rightarrow> int \<Rightarrow> string option \<Rightarrow> meta list option) option"
  st_graph :: "graph_reader option"

abbreviation rd_repr :: "read_env \<Rightarrow> pyval \<Rightarrow> string" where
  "rd_repr E \<equiv> r_repr (rd_render E)"

abbreviation rd_float :: "read_env \<Rightarrow> pyval \<Rightarrow> rat option" where
  "rd_float E \<equiv> to_float (r_float (rd_render E))"

abbreviation rd_str :: "read_env \<Rightarrow> pyval \<Rightarrow> string" where
  "rd_str E \<equiv> py_str (r_repr (rd_render E))"

definition is_symbolic_or_identifier :: "string \<Rightarrow> bool" where
  "is_symbolic_or_identifier q =
     (let q_clean = py_strip q;
          structured = (\<lambda>s. list_ex (\<lambda>ch. ch \<in> set s) [CHR '':'', CHR ''_'', CHR ''-'']);
          tokens = py_words q_clean; first_tok = hd tokens
      in if q = [] then False
         else if list_ex (starts_with q_clean) [''[IMPORTANT:'', ''[SYSTEM'', ''<system'', ''<SYSTEM'', ''[Message] timestamp='']
         then False
         else if CHR '' '' \<notin> set q_clean then 3 < py_len q_clean \<or> structured q_clean
         else if structured first_tok \<and> \<not> ends_with first_tok '':'' then True
         else length tokens \<le> 3 \<and> \<not> ends_with q_clean ''?'' \<and> structured q_clean)"

text \<open>\<open>m.get("metadata") or {}\<close>, on which \<open>dict\<close> or a method is called: \<open>None\<close> if it is no dictionary.\<close>

definition as_dict :: "pyval \<Rightarrow> meta option" where
  "as_dict v = (case v of VDict d \<Rightarrow> Some d | _ \<Rightarrow> if truthy v then None else Some [])"

definition meta_retired :: "meta \<Rightarrow> bool" where
  "meta_retired m \<longleftrightarrow> meta_flag m ''is_superseded'' \<or> meta_flag m ''superseded'' \<or> meta_flag m ''vector_tombstone_pending''"

definition noise_key :: "string \<Rightarrow> string \<Rightarrow> bool" where
  "noise_key key val \<longleftrightarrow>
     list_ex (starts_with (py_lower key)) [''agi:test:'', ''test:agi:''] \<or> is_conversational_churn key val
     \<or> list_ex (starts_with (py_lower key)) [''fact:conversation'', ''conversation:'']"

definition is_filtered :: "(pyval \<Rightarrow> string) \<Rightarrow> string \<Rightarrow> string \<Rightarrow> meta \<Rightarrow> string option \<Rightarrow> bool" where
  "is_filtered rp key val m sess =
     (if noise_key key val then True
      else meta_retired m \<or> \<not> is_session_accessible (extract_effective_session rp key m) sess)"

definition copy_severity :: "read_env \<Rightarrow> meta \<Rightarrow> meta \<Rightarrow> meta option" where
  "copy_severity E data m =
     (case dget data ''cpof_severity'' of
        None \<Rightarrow> Some m
      | Some sev \<Rightarrow>
          if ''cpof_severity'' \<in> set (dkeys m) then Some m
          else map_option (\<lambda>q. dset ''cpof_severity'' (VFloat q) m) (rd_float E sev))"

definition build_record :: "read_env \<Rightarrow> string \<Rightarrow> pyval \<Rightarrow> string \<Rightarrow> meta \<Rightarrow> rat \<Rightarrow> candidate option" where
  "build_record E k v src data vec_score =
     (case as_dict (meta_get data ''metadata'') of
        None \<Rightarrow> None
      | Some m0 \<Rightarrow>
          (case copy_severity E data m0 of
             None \<Rightarrow> None
           | Some m \<Rightarrow>
               (case (rd_float E (py_or (dget_default data ''confidence'' (VFloat 1)) (dget_default data ''veracity'' (VFloat 1))),
                      rd_float E (py_or (dget_default data ''timestamp'' (VFloat 0)) (dget_default m ''timestamp'' (VFloat 0)))) of
                  (Some conf, Some ts) \<Rightarrow>
                    Some \<lparr>cd_key = Some k, cd_subject = k, cd_predicate = dget_default data ''predicate'' (VStr ''stated_memory''),
                      cd_object = rd_str E v, cd_content = rd_str E (py_or (meta_get data ''content'') v), cd_source = src,
                      cd_vector_score = vec_score, cd_importance = Some (if 1 \<le> vec_score then 1 else vec_score),
                      cd_confidence = conf,
                      cd_source_type = rd_str E (py_or (meta_get data ''source_type'')
                        (dget_default m ''source_type'' (VStr ''user_explicit''))),
                      cd_meta = m, cd_timestamp = Some ts,
                      cd_vector = (if meta_get data ''vector'' = VNone then None else dget data ''vector''),
                      cd_graph_score = None, cd_graph_hit = None, cd_exact = False\<rparr>
                | _ \<Rightarrow> None)))"

section \<open>Words of a query\<close>

definition word_edge :: "char \<Rightarrow> bool" where
  "word_edge c \<longleftrightarrow> c \<in> set (''.,!?:;()[]{}'' @ [CHR 0x22, CHR 0x27])"

definition query_words :: "read_env \<Rightarrow> string \<Rightarrow> string list" where
  "query_words E q_clean =
     (let raw_words = map (\<lambda>w. strip_chars word_edge (lower_pl w)) (filter (\<lambda>w. 3 \<le> py_len w) (py_words q_clean));
          words = filter (\<lambda>w. w \<notin> set query_meta_stopwords \<and> bilingual_stem (rd_ling E) w \<notin> set query_meta_stopstems) raw_words
      in if words = [] then raw_words else words)"

definition word_prefixes :: "string list \<Rightarrow> string list" where
  "word_prefixes ws = map (py_take 6) (filter (\<lambda>w. 4 \<le> py_len w) ws)"

definition query_bilingual :: "read_env \<Rightarrow> string list \<Rightarrow> string list" where
  "query_bilingual E ws = map (bilingual_stem (rd_ling E)) (filter (\<lambda>w. 3 \<le> py_len w) ws)"

section \<open>The hot buffer\<close>

text \<open>\<open>fetch_hot_buffer_items\<close> makes a dictionary of each entry, from which the record is built.\<close>

definition hot_data :: "hot_entry \<Rightarrow> meta" where
  "hot_data e =
     [(''metadata'', VDict (e_metadata e)), (''confidence'', VFloat (e_confidence e)), (''source_type'', VStr (e_source_type e)),
      (''predicate'', VStr ''active_working_memory''), (''timestamp'', VFloat (e_timestamp e))]"

definition add_hot :: "read_env \<Rightarrow> string option \<Rightarrow> hot_entry \<Rightarrow> pool \<Rightarrow> pool option" where
  "add_hot E sess e cs =
     (let k = e_key e; v = rd_str E (e_value e) in
      if k \<noteq> [] \<and> k \<notin> set (dkeys cs) \<and> \<not> is_filtered (rd_repr E) k v (e_metadata e) sess
      then map_option (\<lambda>r. dset k r cs) (build_record E k (VStr v) ''hot_buffer'' (hot_data e) 0)
      else Some cs)"

fun fold_opt :: "('a \<Rightarrow> 's \<Rightarrow> 's option) \<Rightarrow> 'a list \<Rightarrow> 's \<Rightarrow> 's option" where
  "fold_opt f [] s = Some s"
| "fold_opt f (x # xs) s = (case f x s of None \<Rightarrow> None | Some s' \<Rightarrow> fold_opt f xs s')"

definition hot_stage :: "read_env \<Rightarrow> stores \<Rightarrow> rat \<Rightarrow> string option \<Rightarrow> pool option" where
  "hot_stage E S now sess =
     (case st_hot S of
        None \<Rightarrow> Some []
      | Some hb \<Rightarrow> fold_opt (add_hot E sess) (rev (get_active (rd_repr E) now sess None hb)) [])"

section \<open>The key-value store\<close>

definition meta_of_state :: "state_dict \<Rightarrow> meta" where
  "meta_of_state sd =
     [(''key'', VStr (sd_key sd)), (''value'', sd_value sd), (''confidence'', VFloat (sd_confidence sd)),
      (''timestamp'', VFloat (sd_timestamp sd)), (''metadata'', VDict (sd_metadata sd))]
     @ (case sd_value_hash sd of None \<Rightarrow> [] | Some h \<Rightarrow> [(''value_hash'', VStr h)])
     @ (if sd_tampered sd then [(''tampered'', VBool True)] else [])"

text \<open>The search, and the first page of the whole table when it finds nothing or raises. \<open>None\<close>: the page raises.\<close>

definition search_kv_candidates ::
  "read_env \<Rightarrow> kv option \<Rightarrow> string \<Rightarrow> string list \<Rightarrow> string list \<Rightarrow> int \<Rightarrow> (string, state_dict) dict option" where
  "search_kv_candidates E kv_store query words stems limit =
     (case kv_store of
        None \<Rightarrow> Some []
      | Some s \<Rightarrow>
          if query = [] then Some []
          else
            (let found = (if conn_open s then search_candidates (rd_fp E) (rd_fts E) query limit words stems (kdb s) else []) in
             if found \<noteq> [] then Some found
             else case get_all_sync (rd_fp E) limit 0 True s of Inl _ \<Rightarrow> None | Inr rows \<Rightarrow> Some rows))"

definition mark_exact :: "candidate \<Rightarrow> candidate" where
  "mark_exact c = c\<lparr>cd_importance := Some 1, cd_exact := True\<rparr>"

definition add_kv :: "read_env \<Rightarrow> string option \<Rightarrow> string \<Rightarrow> string \<times> state_dict \<Rightarrow> pool \<Rightarrow> pool option" where
  "add_kv E sess q_clean = (\<lambda>(k, it) cs.
     (let val = rd_str E (sd_value it); is_exact = (lower_pl k = lower_pl q_clean);
          mark = (if is_exact then mark_exact else (\<lambda>c. c))
      in if is_filtered (rd_repr E) k val (sd_metadata it) sess then Some cs
         else case dget cs k of
             Some c \<Rightarrow> Some (dset k (mark c) cs)
           | None \<Rightarrow> map_option (\<lambda>r. dset k (mark r) cs) (build_record E k (VStr val) ''kv'' (meta_of_state it) 0)))"

text \<open>A loop inside \<open>try\<close>: what was done before it raised stays.\<close>

fun fold_until :: "('a \<Rightarrow> 's \<Rightarrow> 's option) \<Rightarrow> 'a list \<Rightarrow> 's \<Rightarrow> 's \<times> bool" where
  "fold_until f [] s = (s, True)"
| "fold_until f (x # xs) s = (case f x s of None \<Rightarrow> (s, False) | Some s' \<Rightarrow> fold_until f xs s')"

definition kv_stage ::
  "read_env \<Rightarrow> stores \<Rightarrow> string option \<Rightarrow> string \<Rightarrow> string list \<Rightarrow> string list \<Rightarrow> pool \<Rightarrow> pool \<times> (string, state_dict) dict" where
  "kv_stage E S sess q_clean words stems cs =
     (if st_kv S = None \<or> q_clean = [] then (cs, [])
      else case search_kv_candidates E (st_kv S) q_clean words stems 100 of
          None \<Rightarrow> (cs, [])
        | Some raw_kv \<Rightarrow> (fst (fold_until (add_kv E sess q_clean) raw_kv cs), raw_kv))"

section \<open>The vector index\<close>

definition resolve_calibrated_threshold :: "(bool \<Rightarrow> rat \<Rightarrow> rat) option \<Rightarrow> bool \<Rightarrow> bool \<Rightarrow> rat" where
  "resolve_calibrated_threshold cal enabled is_symbolic =
     (let default_thr = (if is_symbolic then 7/10 else 7/20) in
      case cal of Some th \<Rightarrow> if enabled then th is_symbolic default_thr else default_thr | None \<Rightarrow> default_thr)"

record vec_hit =
  vh_key :: string
  vh_value :: string
  vh_meta :: meta
  vh_score :: rat
  vh_via_sparse :: bool
  vh_via_dense :: bool
  vh_sparse_score :: "rat option"
  vh_superseded :: bool
  vh_pending :: bool
  vh_vector :: pyval

definition strip_kv :: "string \<Rightarrow> string" where
  "strip_kv k = (if starts_with k ''kv:'' then drop 3 k else k)"

definition normalize_vector_hit :: "read_env \<Rightarrow> meta \<Rightarrow> vec_hit option" where
  "normalize_vector_hit E hit =
     (case as_dict (meta_get hit ''record'') of
        None \<Rightarrow> None
      | Some r \<Rightarrow>
          (case (as_dict (py_or (meta_get r ''metadata'') (meta_get hit ''metadata'')),
                 rd_float E (py_or (dget_default hit ''score'' (VFloat 0)) (VFloat 0)),
                 (if meta_get hit ''sparse_score'' = VNone then Some None
                  else map_option Some (rd_float E (meta_get hit ''sparse_score'')))) of
             (Some m, Some score, Some sparse) \<Rightarrow>
               Some \<lparr>vh_key = strip_kv (rd_str E (foldr py_or
                        [meta_get m ''kv_key'', meta_get hit ''kv_key'', meta_get hit ''upsert_key'', meta_get hit ''key'',
                         meta_get r ''subject'', meta_get hit ''id''] (VStr []))),
                     vh_value = rd_str E (py_or (meta_get r ''object'') (py_or (meta_get hit ''text'') (VStr []))),
                     vh_meta = m, vh_score = score,
                     vh_via_sparse = meta_flag hit ''via_sparse'', vh_via_dense = meta_flag hit ''via_dense'',
                     vh_sparse_score = sparse,
                     vh_superseded = (meta_flag m ''is_superseded'' \<or> meta_flag m ''superseded''
                       \<or> meta_flag hit ''is_superseded'' \<or> meta_flag hit ''superseded''),
                     vh_pending = (meta_flag m ''vector_tombstone_pending'' \<or> meta_flag hit ''vector_tombstone_pending''),
                     vh_vector = py_or (meta_get hit ''vector'') (meta_get r ''vector'')\<rparr>
           | _ \<Rightarrow> None))"

definition has_lex_hint :: "read_env \<Rightarrow> string list \<Rightarrow> string list \<Rightarrow> string list \<Rightarrow> string \<Rightarrow> bool" where
  "has_lex_hint E words stems bstems cand_text \<longleftrightarrow>
     list_ex (\<lambda>w. 3 \<le> py_len w \<and> contains_str cand_text w) words \<or> list_ex (\<lambda>s. 4 \<le> py_len s \<and> contains_str cand_text s) stems
     \<or> (bstems \<noteq> [] \<and> list_ex (\<lambda>t. bilingual_stem (rd_ling E) t \<in> set bstems)
          (filter (\<lambda>w. 3 \<le> py_len w) (words_of cand_text)))"

definition hit_meta :: "read_env \<Rightarrow> string list \<Rightarrow> string list \<Rightarrow> string list \<Rightarrow> vec_hit \<Rightarrow> meta" where
  "hit_meta E words stems bstems h =
     (let m = vh_meta h; lex = has_lex_hint E words stems bstems (lower_pl (vh_key h @ '' '' @ vh_value h));
          m = (if rd_str E (py_or (meta_get m ''origin'') (VStr [])) = ''daemon_set'' \<and> \<not> lex
               then dset ''is_daemon_no_lex'' (VBool True) m else m);
          m = (if vh_via_sparse h then dset ''via_sparse'' (VBool True) m else m);
          m = (if vh_via_dense h then dset ''via_dense'' (VBool True) m else m)
      in (case vh_sparse_score h of None \<Rightarrow> m | Some q \<Rightarrow> dset ''sparse_score'' (VFloat q) m))"

definition hit_accepted :: "read_env \<Rightarrow> string option \<Rightarrow> rat \<Rightarrow> vec_hit \<Rightarrow> meta \<Rightarrow> bool" where
  "hit_accepted E sess min_vec h m \<longleftrightarrow>
     (vh_via_sparse h \<or> min_vec \<le> vh_score h) \<and> \<not> vh_superseded h \<and> \<not> vh_pending h
     \<and> \<not> is_filtered (rd_repr E) (vh_key h) (vh_value h) m sess \<and> vh_value h \<noteq> []"

text \<open>The store's answer for the keys that only the index knows. \<open>None\<close> is an exception.\<close>

definition live_state :: "state_dict \<Rightarrow> bool" where
  "live_state sd \<longleftrightarrow> \<not> meta_retired (sd_metadata sd)"

definition verify_kv_keys_batch :: "read_env \<Rightarrow> kv option \<Rightarrow> string set \<Rightarrow> string set option" where
  "verify_kv_keys_batch E kv_store missing =
     (if missing = {} then Some {}
      else case kv_store of
          None \<Rightarrow> Some missing
        | Some s \<Rightarrow>
            if \<not> conn_open s then None
            else
              (let existing = filter_existing_keys (kdb s) (rd_order E missing);
                   states = get_states (rd_fp E) (kdb s) (rd_order E existing)
               in Some (fst ` set (filter (\<lambda>(k, sd). live_state sd) states))))"

definition add_vector :: "read_env \<Rightarrow> vec_hit \<times> meta \<Rightarrow> pool \<Rightarrow> pool option" where
  "add_vector E = (\<lambda>(h, m) cs.
     (let k = vh_key h; score = vh_score h in
      case dget cs k of
        Some c \<Rightarrow>
          (let c = (if vh_vector h \<noteq> VNone \<and> cd_vector c = None then c\<lparr>cd_vector := Some (vh_vector h)\<rparr> else c);
               imp = (case cd_importance c of None \<Rightarrow> 0 | Some i \<Rightarrow> i);
               c = (if cd_vector_score c < score
                    then c\<lparr>cd_vector_score := score,
                           cd_importance := (if imp < 1 then Some (max imp score) else cd_importance c)\<rparr>
                    else c)
           in Some (dset k c cs))
      | None \<Rightarrow>
          map_option (\<lambda>r. dset k r cs)
            (build_record E k (VStr (vh_value h)) ''vector'' [(''metadata'', VDict m), (''vector'', vh_vector h)] score)))"

definition vector_stage ::
  "read_env \<Rightarrow> stores \<Rightarrow> rat \<Rightarrow> string option \<Rightarrow> string \<Rightarrow> int \<Rightarrow> string list \<Rightarrow> string list \<Rightarrow> (string, state_dict) dict \<Rightarrow> pool \<Rightarrow>
     pool option" where
  "vector_stage E S min_vec sess q_clean limit words stems raw_kv cs =
     (let hits = (case st_vector S of
                    None \<Rightarrow> []
                  | Some search \<Rightarrow> if q_clean = [] then [] else (case search q_clean limit sess of None \<Rightarrow> [] | Some hs \<Rightarrow> hs));
          bstems = query_bilingual E words
      in case those (map (normalize_vector_hit E) hits) of
           None \<Rightarrow> None
         | Some hs \<Rightarrow>
             (let accepted = filter (\<lambda>(h, m). hit_accepted E sess min_vec h m) (map (\<lambda>h. (h, hit_meta E words stems bstems h)) hs);
                  known = set (dkeys raw_kv) \<union> set (dkeys cs);
                  unverified = (\<lambda>(h, m). vh_key h) ` set accepted - known;
                  verified = known \<union> (case verify_kv_keys_batch E (st_kv S) unverified of None \<Rightarrow> unverified | Some ks \<Rightarrow> ks)
              in fold_opt (add_vector E) (filter (\<lambda>(h, m). vh_key h \<in> verified) accepted) cs))"

section \<open>The graph\<close>

definition add_ppr :: "read_env \<Rightarrow> string option \<Rightarrow> meta \<Rightarrow> pool \<Rightarrow> pool option" where
  "add_ppr E sess p cs =
     (let k = rd_str E (py_or (meta_get p ''key'') (py_or (meta_get p ''subject'') (VStr [])));
          val = rd_str E (py_or (meta_get p ''object'') (py_or (meta_get p ''value'') (VStr [])))
      in case rd_float E (py_or (dget_default p ''graph_score'' (VFloat 0)) (VFloat 0)) of
           None \<Rightarrow> None
         | Some gs \<Rightarrow>
             if k = [] \<or> val = [] then Some cs
             else case as_dict (meta_get p ''metadata'') of
                 None \<Rightarrow> if noise_key k val then Some cs else None
               | Some m \<Rightarrow>
                   if is_filtered (rd_repr E) k val m sess then Some cs
                   else case dget cs k of
                       Some c \<Rightarrow>
                         (let c = c\<lparr>cd_graph_score := Some (max (case cd_graph_score c of None \<Rightarrow> 0 | Some g \<Rightarrow> g) gs),
                                    cd_graph_hit := Some True\<rparr>;
                              sev = py_or (meta_get m ''cpof_severity'') (meta_get p ''cpof_severity'')
                          in if sev = VNone then Some (dset k c cs)
                             else map_option (\<lambda>q. dset k (c\<lparr>cd_meta := dset ''cpof_severity'' (VFloat q) (cd_meta c)\<rparr>) cs) (rd_float E sev))
                     | None \<Rightarrow>
                         map_option (\<lambda>r. dset k (r\<lparr>cd_graph_score := Some gs, cd_graph_hit := Some True\<rparr>) cs)
                           (build_record E k (VStr val) ''graph'' p 0))"

definition edge_data :: "graph_edge \<Rightarrow> meta" where
  "edge_data e =
     [(''subject'', VStr (ge_subject e)), (''predicate'', ge_predicate e), (''object'', VStr (ge_object e)),
      (''confidence'', ge_confidence e), (''timestamp'', ge_timestamp e), (''session_id'', ge_session e)]"

definition add_edge_record :: "read_env \<Rightarrow> string option \<Rightarrow> graph_edge \<Rightarrow> pool \<Rightarrow> pool option" where
  "add_edge_record E sess e cs =
     (let k = ge_subject e; val = ge_object e in
      if \<not> is_filtered (rd_repr E) k val (edge_data e) sess \<and> k \<notin> set (dkeys cs) \<and> val \<noteq> []
      then (case (build_record E k (VStr val) ''graph'' (edge_data e) 0,
                  rd_float E (py_or (ge_confidence e) (VFloat (1/2)))) of
              (Some r, Some g) \<Rightarrow> Some (dset k (r\<lparr>cd_graph_score := Some g, cd_graph_hit := Some True\<rparr>) cs)
            | _ \<Rightarrow> None)
      else Some cs)"

definition fetch_graph_relations_batch :: "graph_reader option \<Rightarrow> string list \<Rightarrow> string \<Rightarrow> graph_edge list" where
  "fetch_graph_relations_batch gs words query =
     (case gs of
        None \<Rightarrow> []
      | Some g \<Rightarrow>
          (let target_nodes = gr_resolve g words query;
               target_nodes = (if target_nodes = [] then take 3 words else target_nodes)
           in concat (List.map_filter (gr_relations g) (take 5 target_nodes))))"

text \<open>
  Relations are fetched at most once: beside the vector query, or here if that did not happen; either way only for a query that is
  not blank, and what raises leaves no relations.
\<close>

definition graph_stage ::
  "read_env \<Rightarrow> stores \<Rightarrow> bool \<Rightarrow> string option \<Rightarrow> string \<Rightarrow> int \<Rightarrow> string list \<Rightarrow> pool \<Rightarrow> pool option" where
  "graph_stage E S fallback sess q_clean limit words cs =
     (let merge_edges = (\<lambda>cs. fold_opt (add_edge_record E sess)
            (if q_clean = [] then [] else fetch_graph_relations_batch (st_graph S) words q_clean) cs)
      in if q_clean \<noteq> [] \<and> rd_hippo E then
           (case (case st_graph S of None \<Rightarrow> Some [] | Some g \<Rightarrow> gr_ppr g q_clean limit) of
              None \<Rightarrow> if fallback then merge_edges cs else None
            | Some ppr_cands \<Rightarrow>
                (case fold_until (add_ppr E sess) ppr_cands cs of
                   (cs', ok) \<Rightarrow> if ok then Some cs' else if fallback then merge_edges cs' else None))
         else if rd_hippo E then Some cs else merge_edges cs)"

section \<open>The truth of the store\<close>

definition add_probe :: "string \<Rightarrow> string list \<Rightarrow> string list" where
  "add_probe key probes = (let k = py_strip key in if k \<noteq> [] \<and> k \<notin> set probes then probes @ [k] else probes)"

definition kv_namespace_segments :: "string list" where
  "kv_namespace_segments = [''fact'', ''kv'', ''rule'', ''pref'', ''sop'']"

definition derive_kv_probe_keys :: "string \<Rightarrow> string list" where
  "derive_kv_probe_keys raw_key =
     (let canon = normalize_upsert_key raw_key in
      if canon = [] then []
      else
        (let parts = filter (\<lambda>p. p \<noteq> []) (py_split CHR '':'' canon);
             colon = py_join '':'';
             namespaced = (parts \<noteq> [] \<and> hd parts \<in> set kv_namespace_segments);
             slotted = (parts \<noteq> [] \<and> ends_with (last parts) ''_value'');
             base_parts = butlast parts;
             aliased = colon (base_parts @ [take (length (last parts) - 6) (last parts)]);
             p1 = add_probe canon [];
             p2 = (if namespaced then add_probe (''fact:'' @ colon (tl parts)) (add_probe (colon (tl parts)) p1)
                   else if parts \<noteq> [] then add_probe (''fact:'' @ canon) p1 else p1);
             p3 = (if 2 \<le> length parts \<and> slotted \<and> 6 < length (last parts)
                   then (let q = add_probe (colon base_parts) (add_probe aliased p2) in
                         if hd base_parts \<notin> set kv_namespace_segments
                         then add_probe (''fact:'' @ colon base_parts) (add_probe (''fact:'' @ aliased) q) else q)
                   else p2)
         in if 3 \<le> length parts \<and> slotted then add_probe (colon (butlast (tl parts))) p3 else p3))"

definition graph_channel :: "candidate \<Rightarrow> bool" where
  "graph_channel c \<longleftrightarrow> cd_source c = ''graph'' \<or> cd_graph_hit c = Some True"

definition probe_keys :: "candidate \<Rightarrow> string set" where
  "probe_keys c =
     (\<Union>raw \<in> set (filter (\<lambda>r. r \<noteq> []) [case cd_key c of None \<Rightarrow> [] | Some k \<Rightarrow> k, cd_subject c]). set (derive_kv_probe_keys raw))"

definition graph_channel_kv_truth_gate :: "read_env \<Rightarrow> kv option \<Rightarrow> pool \<Rightarrow> pool" where
  "graph_channel_kv_truth_gate E kv_store cs =
     (case kv_store of
        None \<Rightarrow> cs
      | Some s \<Rightarrow>
          if \<not> conn_open s then cs
          else
            (let all_probes = (\<Union>c \<in> set (filter graph_channel (map snd cs)). probe_keys c);
                 states = get_states (rd_fp E) (kdb s) (rd_order E all_probes);
                 tombstoned = (\<lambda>c. graph_channel c \<and>
                   (\<exists>pk \<in> probe_keys c. case dget states pk of None \<Rightarrow> False | Some sd \<Rightarrow> meta_retired (sd_metadata sd)))
             in filter (\<lambda>(k, c). \<not> tombstoned c) cs))"

section \<open>The pool\<close>

definition gather_candidates ::
  "read_env \<Rightarrow> stores \<Rightarrow> (bool \<Rightarrow> rat \<Rightarrow> rat) option \<Rightarrow> bool \<Rightarrow> bool \<Rightarrow> rat \<Rightarrow> string \<Rightarrow> string option \<Rightarrow> int \<Rightarrow> candidate list option" where
  "gather_candidates E S cal enabled fallback now query sess limit =
     (let q_clean = py_strip query; words = query_words E q_clean; stems = word_prefixes words in
      case hot_stage E S now sess of
        None \<Rightarrow> None
      | Some cs1 \<Rightarrow>
          (let (cs2, raw_kv) = kv_stage E S sess q_clean words stems cs1;
               min_vec = resolve_calibrated_threshold cal enabled (is_symbolic_or_identifier q_clean)
           in case vector_stage E S min_vec sess q_clean limit words stems raw_kv cs2 of
                None \<Rightarrow> None
              | Some cs3 \<Rightarrow>
                  (case graph_stage E S fallback sess q_clean limit words cs3 of
                     None \<Rightarrow> None
                   | Some cs4 \<Rightarrow> Some (map snd (graph_channel_kv_truth_gate E (st_kv S) cs4)))))"


section \<open>Clean records\<close>

named_theorems pool_intros \<open>stages that keep the pool clean\<close>

text \<open>\<open>V\<close> are the keys that may come from the vector index alone.\<close>

definition clean :: "read_env \<Rightarrow> string option \<Rightarrow> string set \<Rightarrow> string \<Rightarrow> candidate \<Rightarrow> bool" where
  "clean E sess V k c \<longleftrightarrow> cd_key c = Some k \<and> cd_subject c = k
     \<and> \<not> is_filtered (rd_repr E) k (cd_object c) (cd_meta c) sess \<and> (cd_source c = ''vector'' \<longrightarrow> k \<in> V)"

definition pool_ok :: "(string \<Rightarrow> candidate \<Rightarrow> bool) \<Rightarrow> pool \<Rightarrow> bool" where
  "pool_ok P cs \<longleftrightarrow> wf_dict cs \<and> (\<forall>(k, c) \<in> set cs. P k c)"

lemma clean_update [simp]:
  "clean E sess V k (c\<lparr>cd_vector := v\<rparr>) = clean E sess V k c"
  "clean E sess V k (c\<lparr>cd_vector_score := q\<rparr>) = clean E sess V k c"
  "clean E sess V k (c\<lparr>cd_importance := i\<rparr>) = clean E sess V k c"
  "clean E sess V k (c\<lparr>cd_exact := b\<rparr>) = clean E sess V k c"
  "clean E sess V k (c\<lparr>cd_graph_score := i\<rparr>) = clean E sess V k c"
  "clean E sess V k (c\<lparr>cd_graph_hit := h\<rparr>) = clean E sess V k c"
  by (simp_all add: clean_def)

lemma pool_ok_Nil [pool_intros]: "pool_ok P []"
  by (simp add: pool_ok_def)

lemma pool_ok_dget: "pool_ok P cs \<Longrightarrow> dget cs k = Some c \<Longrightarrow> P k c"
  by (auto simp: pool_ok_def dest: map_of_SomeD)

lemma pool_ok_iff: "pool_ok P cs \<longleftrightarrow> wf_dict cs \<and> (\<forall>k c. dget cs k = Some c \<longrightarrow> P k c)"
  by (auto simp: pool_ok_def wf_dict_def intro: map_of_is_SomeI dest: map_of_SomeD)

lemma pool_ok_dset [pool_intros]: "pool_ok P cs \<Longrightarrow> P k c \<Longrightarrow> pool_ok P (dset k c cs)"
  by (auto simp: pool_ok_iff)

lemma pool_ok_filter: "pool_ok P cs \<Longrightarrow> pool_ok P (filter Q cs)"
  by (auto simp: pool_ok_def)

lemma fold_opt_inv: "fold_opt f xs s = Some s' \<Longrightarrow> I s \<Longrightarrow> (\<And>x s s'. x \<in> set xs \<Longrightarrow> f x s = Some s' \<Longrightarrow> I s \<Longrightarrow> I s') \<Longrightarrow> I s'"
proof (induction xs arbitrary: s)
  case (Cons x xs)
  then obtain s1 where s1: "f x s = Some s1" "fold_opt f xs s1 = Some s'" by (auto split: option.splits)
  from Cons.IH [OF s1(2)] Cons.prems(2,3) s1(1) show ?case by auto
qed simp

lemma fold_until_inv: "I s \<Longrightarrow> (\<And>x s s'. x \<in> set xs \<Longrightarrow> f x s = Some s' \<Longrightarrow> I s \<Longrightarrow> I s') \<Longrightarrow> I (fst (fold_until f xs s))"
proof (induction xs arbitrary: s)
  case (Cons x xs)
  then show ?case by (cases "f x s") auto
qed simp

lemma retired_dset [simp]: "meta_retired (dset ''cpof_severity'' v m) = meta_retired m"
  by (simp add: meta_retired_def)

lemma meta_get_dset: "meta_get (dset k v m) k' = (if k = k' then v else meta_get m k')"
  by (simp add: meta_get_def dget_default_def)

lemma session_dset [simp]:
  "extract_effective_session rp k (dset ''cpof_severity'' v m) = extract_effective_session rp k m"
  by (simp add: extract_effective_session_def meta_get_dset Let_def)

lemma is_filtered_dset [simp]: "is_filtered rp k v (dset ''cpof_severity'' x m) sess = is_filtered rp k v m sess"
  by (simp add: is_filtered_def)

text \<open>Metadata can only add reasons to drop a record.\<close>

lemma is_filtered_Nil: "is_filtered rp k v [] sess \<Longrightarrow> is_filtered rp k v m sess"
proof -
  assume f: "is_filtered rp k v [] sess"
  have "extract_effective_session rp k m = extract_effective_session rp k [] \<or> extract_effective_session rp k [] = None"
    unfolding extract_effective_session_def Let_def by (simp add: meta_get_def dget_default_def py_or_def)
  moreover have "\<not> meta_retired []" "is_session_accessible None sess"
    by (simp_all add: meta_retired_def meta_flag_def is_session_accessible_def)
  ultimately show ?thesis using f by (auto simp: is_filtered_def split: if_splits)
qed

text \<open>What a built record takes from its data.\<close>

lemma copy_severity_cases: "copy_severity E data m0 = Some m \<Longrightarrow> m = m0 \<or> (\<exists>x. m = dset ''cpof_severity'' x m0)"
  by (auto simp: copy_severity_def split: option.splits if_splits)

lemma build_record_facts:
  assumes "build_record E k v src data q = Some c"
  shows "\<exists>m0. as_dict (meta_get data ''metadata'') = Some m0 \<and> copy_severity E data m0 = Some (cd_meta c) \<and> cd_key c = Some k
    \<and> cd_subject c = k \<and> cd_object c = rd_str E v \<and> cd_source c = src \<and> cd_graph_hit c = None"
  using assms unfolding build_record_def by (auto split: option.splits)

lemma build_record_clean:
  assumes "build_record E k (VStr v) src data q = Some c" "as_dict (meta_get data ''metadata'') = Some m"
    and "\<not> is_filtered (rd_repr E) k v m sess" "src \<noteq> ''vector'' \<or> k \<in> V"
  shows "clean E sess V k c"
  using build_record_facts [OF assms(1)] assms(2,3,4) copy_severity_cases unfolding clean_def by fastforce

definition keeps :: "(string \<Rightarrow> candidate \<Rightarrow> bool) \<Rightarrow> (pool \<Rightarrow> pool option) \<Rightarrow> bool" where
  "keeps P f \<longleftrightarrow> (\<forall>cs cs'. pool_ok P cs \<longrightarrow> f cs = Some cs' \<longrightarrow> pool_ok P cs')"

lemma keepsD: "keeps P f \<Longrightarrow> pool_ok P cs \<Longrightarrow> f cs = Some cs' \<Longrightarrow> pool_ok P cs'"
  by (simp add: keeps_def)

lemma keeps_fold_opt: "(\<And>x. x \<in> set xs \<Longrightarrow> keeps P (f x)) \<Longrightarrow> keeps P (fold_opt f xs)"
  unfolding keeps_def using fold_opt_inv [of f xs _ _ "pool_ok P"] by blast

lemma keeps_fold_until: "(\<And>x. x \<in> set xs \<Longrightarrow> keeps P (f x)) \<Longrightarrow> pool_ok P cs \<Longrightarrow> pool_ok P (fst (fold_until f xs cs))"
  unfolding keeps_def by (rule fold_until_inv) blast+

lemma keeps_hot: "keeps (clean E sess V) (add_hot E sess e)"
proof -
  have "as_dict (meta_get (hot_data e) ''metadata'') = Some (e_metadata e)"
    by (simp add: hot_data_def meta_get_def dget_default_def as_dict_def)
  then show ?thesis
    by (auto simp: keeps_def add_hot_def Let_def intro: pool_ok_dset build_record_clean split: if_splits)
qed

lemma keeps_kv: "keeps (clean E sess V) (add_kv E sess q row)"
proof -
  obtain k it where row: "row = (k, it)" by (cases row)
  have m: "as_dict (meta_get (meta_of_state it) ''metadata'') = Some (sd_metadata it)"
    by (simp add: meta_of_state_def meta_get_def dget_default_def as_dict_def)
  show ?thesis unfolding row
    using m by (auto simp: keeps_def add_kv_def mark_exact_def Let_def intro!: pool_ok_dset intro: build_record_clean pool_ok_dget
        split: if_splits option.splits)
qed

lemma keeps_vector: "hit_accepted E sess q h m \<Longrightarrow> vh_key h \<in> V \<Longrightarrow> keeps (clean E sess V) (add_vector E (h, m))"
proof -
  assume acc: "hit_accepted E sess q h m" and V: "vh_key h \<in> V"
  from acc have ok: "\<not> is_filtered (rd_repr E) (vh_key h) (vh_value h) m sess" by (simp add: hit_accepted_def)
  have "as_dict (meta_get [(''metadata'', VDict m), (''vector'', vh_vector h)] ''metadata'') = Some m"
    by (simp add: meta_get_def dget_default_def as_dict_def)
  from build_record_clean [OF _ this ok] have new: "build_record E (vh_key h) (VStr (vh_value h)) ''vector''
      [(''metadata'', VDict m), (''vector'', vh_vector h)] (vh_score h) = Some c \<Longrightarrow> clean E sess V (vh_key h) c" for c
    using V by simp
  show ?thesis
    unfolding keeps_def
  proof (intro allI impI)
    fix cs cs'
    assume P: "pool_ok (clean E sess V) cs" and f: "add_vector E (h, m) cs = Some cs'"
    show "pool_ok (clean E sess V) cs'"
    proof (cases "dget cs (vh_key h)")
      case None
      with f P new show ?thesis by (auto simp: add_vector_def Let_def intro: pool_ok_dset)
    next
      case (Some c)
      from pool_ok_dget [OF P Some] have "clean E sess V (vh_key h) c" .
      with f P Some show ?thesis by (auto simp: add_vector_def Let_def intro!: pool_ok_dset split: if_splits)
    qed
  qed
qed

lemma keeps_ppr: "keeps (clean E sess V) (add_ppr E sess p)"
  unfolding keeps_def
proof (intro allI impI)
  fix cs cs'
  assume P: "pool_ok (clean E sess V) cs" and f: "add_ppr E sess p cs = Some cs'"
  define k where "k = rd_str E (py_or (meta_get p ''key'') (py_or (meta_get p ''subject'') (VStr [])))"
  define val where "val = rd_str E (py_or (meta_get p ''object'') (py_or (meta_get p ''value'') (VStr [])))"
  have sev: "clean E sess V k (c\<lparr>cd_graph_score := g, cd_graph_hit := b, cd_meta := dset ''cpof_severity'' x (cd_meta c)\<rparr>)"
    if "clean E sess V k c" for c g b x using that by (simp add: clean_def)
  show "pool_ok (clean E sess V) cs'"
  proof (cases "cs' = cs")
    case False
    with f obtain m where m: "as_dict (meta_get p ''metadata'') = Some m" "\<not> is_filtered (rd_repr E) k val m sess"
      by (auto simp: add_ppr_def Let_def k_def val_def split: option.splits if_splits)
    note new = build_record_clean [OF _ m]
    have f: "(case dget cs k of
          Some c \<Rightarrow>
            (let c = c\<lparr>cd_graph_score := Some (max (case cd_graph_score c of None \<Rightarrow> 0 | Some g \<Rightarrow> g) gs), cd_graph_hit := Some True\<rparr>;
                 sev = py_or (meta_get m ''cpof_severity'') (meta_get p ''cpof_severity'')
             in if sev = VNone then Some (dset k c cs)
                else map_option (\<lambda>q. dset k (c\<lparr>cd_meta := dset ''cpof_severity'' (VFloat q) (cd_meta c)\<rparr>) cs) (rd_float E sev))
        | None \<Rightarrow> map_option (\<lambda>r. dset k (r\<lparr>cd_graph_score := Some gs, cd_graph_hit := Some True\<rparr>) cs)
              (build_record E k (VStr val) ''graph'' p 0)) = Some cs'"
      if "rd_float E (py_or (dget_default p ''graph_score'' (VFloat 0)) (VFloat 0)) = Some gs" for gs
      using f False m that by (simp add: add_ppr_def Let_def k_def [symmetric] val_def [symmetric] split: if_splits)
    obtain gs where "rd_float E (py_or (dget_default p ''graph_score'' (VFloat 0)) (VFloat 0)) = Some gs"
      using \<open>add_ppr E sess p cs = Some cs'\<close> by (auto simp: add_ppr_def Let_def split: option.splits)
    note f = f [OF this]
    show ?thesis
    proof (cases "dget cs k")
      case None
      with f P show ?thesis by (auto intro!: pool_ok_dset dest: new)
    next
      case (Some c)
      from pool_ok_dget [OF P Some] have "clean E sess V k c" .
      with f P Some sev show ?thesis by (auto simp: Let_def intro!: pool_ok_dset split: if_splits)
    qed
  qed (use P in simp)
qed

lemma keeps_edge: "keeps (clean E sess V) (add_edge_record E sess e)"
proof -
  have "as_dict (meta_get (edge_data e) ''metadata'') = Some []"
    by (simp add: edge_data_def meta_get_def dget_default_def as_dict_def)
  note new = build_record_clean [OF _ this contrapos_nn [OF _ is_filtered_Nil]]
  show ?thesis
    by (auto simp: keeps_def add_edge_record_def Let_def intro!: pool_ok_dset dest: new split: option.splits if_splits prod.splits)
qed


lemma hot_stage_clean: "hot_stage E S now sess = Some cs \<Longrightarrow> pool_ok (clean E sess V) cs"
proof -
  assume h: "hot_stage E S now sess = Some cs"
  have "keeps (clean E sess V) (fold_opt (add_hot E sess) es)" for es by (rule keeps_fold_opt) (rule keeps_hot)
  from keepsD [OF this pool_ok_Nil] h show ?thesis by (auto simp: hot_stage_def pool_ok_Nil split: option.splits)
qed

lemma kv_stage_clean: "pool_ok (clean E sess V) cs \<Longrightarrow> pool_ok (clean E sess V) (fst (kv_stage E S sess q ws ss cs))"
  by (simp add: kv_stage_def keeps_fold_until keeps_kv split: option.split)

lemma graph_stage_clean:
  assumes "graph_stage E S fb sess q limit ws cs = Some cs'" "pool_ok (clean E sess V) cs"
  shows "pool_ok (clean E sess V) cs'"
proof -
  have edges: "fold_opt (add_edge_record E sess) es x = Some cs' \<Longrightarrow> pool_ok (clean E sess V) x \<Longrightarrow> ?thesis" for es x
    using keeps_fold_opt [of es "clean E sess V" "add_edge_record E sess"] keeps_edge unfolding keeps_def by blast
  have ppr: "pool_ok (clean E sess V) (fst (fold_until (add_ppr E sess) ps cs))" for ps
    using assms(2) by (rule keeps_fold_until [OF keeps_ppr])
  show ?thesis
  proof (cases "q \<noteq> [] \<and> rd_hippo E")
    case True
    show ?thesis
    proof (cases "case st_graph S of None \<Rightarrow> Some [] | Some g \<Rightarrow> gr_ppr g q limit")
      case None
      with True assms(1) have "fold_opt (add_edge_record E sess) (fetch_graph_relations_batch (st_graph S) ws q) cs = Some cs'"
        by (simp add: graph_stage_def split: if_splits)
      then show ?thesis using assms(2) by (rule edges)
    next
      case (Some ps)
      obtain x ok where x: "fold_until (add_ppr E sess) ps cs = (x, ok)" by fastforce
      with ppr [of ps] have xok: "pool_ok (clean E sess V) x" by simp
      from True Some x assms(1) have "x = cs' \<or> fold_opt (add_edge_record E sess) (fetch_graph_relations_batch (st_graph S) ws q) x = Some cs'"
        by (simp add: graph_stage_def split: if_splits)
      with xok show ?thesis using edges by blast
    qed
  next
    case False
    with assms(1) have "cs = cs' \<or> (\<exists>es. fold_opt (add_edge_record E sess) es cs = Some cs')"
      by (auto simp: graph_stage_def Let_def split: if_splits)
    with assms(2) show ?thesis using edges by blast
  qed
qed

text \<open>What the vector index contributes is known to the store, or was in the pool before.\<close>

definition vouched :: "read_env \<Rightarrow> stores \<Rightarrow> (string, state_dict) dict \<Rightarrow> string set \<Rightarrow> bool" where
  "vouched E S raw_kv V \<longleftrightarrow>
     (\<forall>s. st_kv S = Some s \<longrightarrow> conn_open s \<longrightarrow>
        (\<forall>k \<in> V. k \<in> set (dkeys raw_kv) \<or>
           (\<exists>ks sd. (k, sd) \<in> set (get_states (rd_fp E) (kdb s) ks) \<and> live_state sd)))"

lemma vector_stage_clean:
  assumes "vector_stage E S mv sess q limit ws ss raw_kv cs = Some cs'" "\<And>V. pool_ok (clean E sess V) cs"
  shows "\<exists>V. vouched E S raw_kv V \<and> pool_ok (clean E sess V) cs'"
proof -
  define accepted where "accepted hs = filter (\<lambda>(h, m). hit_accepted E sess mv h m)
      (map (\<lambda>h. (h, hit_meta E ws ss (query_bilingual E ws) h)) hs)" for hs
  define unverified where "unverified hs =
      (\<lambda>(h, m). vh_key h) ` set (accepted hs) - (set (dkeys raw_kv) \<union> set (dkeys cs))" for hs
  define V where "V hs = set (dkeys raw_kv)
      \<union> (case verify_kv_keys_batch E (st_kv S) (unverified hs) of None \<Rightarrow> unverified hs | Some ks \<Rightarrow> ks)" for hs
  from assms(1) obtain hs where
    f: "fold_opt (add_vector E) (filter (\<lambda>(h, m). vh_key h \<in> V hs \<union> set (dkeys cs)) (accepted hs)) cs = Some cs'"
    unfolding vector_stage_def Let_def accepted_def [symmetric] unverified_def [symmetric]
    by (auto simp: V_def Un_ac split: option.splits)
  have vouch: "vouched E S raw_kv (V hs)"
    unfolding vouched_def
  proof (intro allI impI ballI)
    fix s k assume "st_kv S = Some s" "conn_open s" "k \<in> V hs"
    then show "k \<in> set (dkeys raw_kv) \<or> (\<exists>ks sd. (k, sd) \<in> set (get_states (rd_fp E) (kdb s) ks) \<and> live_state sd)"
      by (auto simp: V_def verify_kv_keys_batch_def Let_def split: if_splits)
  qed
  have "pool_ok (clean E sess (V hs)) cs' \<and> set (dkeys cs) \<subseteq> set (dkeys cs')"
  proof (rule fold_opt_inv [OF f, where I = "\<lambda>x. pool_ok (clean E sess (V hs)) x \<and> set (dkeys cs) \<subseteq> set (dkeys x)"])
    show "pool_ok (clean E sess (V hs)) cs \<and> set (dkeys cs) \<subseteq> set (dkeys cs)" using assms(2) by simp
  next
    fix hm x x'
    assume hm: "hm \<in> set (filter (\<lambda>(h, m). vh_key h \<in> V hs \<union> set (dkeys cs)) (accepted hs))"
      and step: "add_vector E hm x = Some x'" and I: "pool_ok (clean E sess (V hs)) x \<and> set (dkeys cs) \<subseteq> set (dkeys x)"
    obtain h m where [simp]: "hm = (h, m)" by (cases hm)
    from hm have acc: "hit_accepted E sess mv h m" and k: "vh_key h \<in> V hs \<union> set (dkeys cs)"
      by (auto simp: accepted_def)
    have "\<exists>c. x' = dset (vh_key h) c x"
      using step by (auto simp: add_vector_def Let_def split: option.splits)
    then have grow: "set (dkeys x) \<subseteq> set (dkeys x')" by (auto simp: set_dset simp del: set_map)
    show "pool_ok (clean E sess (V hs)) x' \<and> set (dkeys cs) \<subseteq> set (dkeys x')"
    proof (cases "vh_key h \<in> V hs")
      case True
      with keeps_vector [OF acc True] step I grow show ?thesis unfolding keeps_def by (simp del: set_map) blast
    next
      case False
      with k I obtain c where c: "dget x (vh_key h) = Some c" by (metis UnE dget_None_iff not_None_eq subsetD)
      with I have "clean E sess (V hs) (vh_key h) c" using pool_ok_dget [of "clean E sess (V hs)"] by blast
      with step c I have "pool_ok (clean E sess (V hs)) x'"
        by (auto simp: add_vector_def Let_def intro!: pool_ok_dset split: if_splits)
      with I grow show ?thesis by blast
    qed
  qed
  with vouch show ?thesis by blast
qed

lemma get_states_rows:
  assumes "wf_dict (state_vars d)" "(k, sd) \<in> set (get_states fp d ks)"
  shows "\<exists>row. dget (state_vars d) k = Some row \<and> sd = row_to_state_dict fp k row"
proof -
  have row: "(k, sd) \<in> set (rows_to_dict fp (filter P (state_vars d))) \<Longrightarrow> ?thesis" for P
    using assms(1) by (auto simp: rows_to_dict_def wf_dict_def)
  have join: "(k, sd) \<in> set (dict_join a b) \<Longrightarrow> (k, sd) \<in> set a \<or> (k, sd) \<in> set b" for a b
  proof (induction a b rule: dict_join.induct)
    case (2 d k' v e)
    have "set (dset k' v d) \<subseteq> insert (k', v) (set d)" by (induction d) auto
    with 2 show ?case by auto
  qed simp
  from assms(2) show ?thesis
    unfolding get_states_def Let_def by (auto split: if_splits dest!: join intro: row)
qed

lemma get_states_finds:
  assumes "wf_dict (state_vars d)" "dget (state_vars d) k = Some row" "k \<in> set ks"
  shows "dget (get_states fp d ks) k = Some (row_to_state_dict fp k row)"
proof -
  have row: "dget (rows_to_dict fp (filter (\<lambda>(k, _). P k) (state_vars d))) k' =
      (case dget (state_vars d) k' of None \<Rightarrow> None | Some r \<Rightarrow> if P k' then Some (row_to_state_dict fp k' r) else None)" for P k'
  proof -
    have "dget (rows_to_dict fp xs) k' = map_option (row_to_state_dict fp k') (dget xs k')" for xs
      by (induction xs) (auto simp: rows_to_dict_def)
    then show ?thesis
      using dget_filter_val [OF assms(1), of "\<lambda>k _. P k" k'] by (auto split: option.splits)
  qed
  have join: "dget (dict_join a b) k = (case dget (rev b) k of None \<Rightarrow> dget a k | Some v \<Rightarrow> Some v)" for a b :: "(string, state_dict) dict"
    by (induction a b rule: dict_join.induct) (auto simp: map_add_def split: option.splits)
  have "dget (rev (rows_to_dict fp xs)) k = None \<or> dget (rev (rows_to_dict fp xs)) k = Some (row_to_state_dict fp k row)"
    if "set xs \<subseteq> set (state_vars d)" for xs
  proof (cases "dget (rev (rows_to_dict fp xs)) k")
    case (Some v)
    then have "(k, v) \<in> set (rows_to_dict fp xs)" by (auto dest: map_of_SomeD)
    then obtain r where "(k, r) \<in> set xs" "v = row_to_state_dict fp k r" by (auto simp: rows_to_dict_def)
    with that have "dget (state_vars d) k = Some r" using assms(1) by (auto simp: wf_dict_def)
    with assms(2) Some \<open>v = _\<close> show ?thesis by simp
  qed simp
  note added = this
  have extra: "dget (dict_join (rows_to_dict fp (filter (\<lambda>(k, _). k \<in> set ks) (state_vars d)))
      (rows_to_dict fp (filter (\<lambda>(k, _). P k) (state_vars d)))) k = Some (row_to_state_dict fp k row)" for P
    using assms(2,3) added [of "filter (\<lambda>(k, _). P k) (state_vars d)"] by (auto simp: join row split: option.split)
  have "ks \<noteq> []" using assms(3) by auto
  then show ?thesis
    using assms(2,3) by (simp add: get_states_def Let_def extra row)
qed


section \<open>What the pool holds\<close>

lemma finite_probe_keys: "finite (probe_keys c)"
  by (simp add: probe_keys_def)

text \<open>The state that a row of the store holds, and whether it is retired.\<close>

definition row_retired :: "read_env \<Rightarrow> kv \<Rightarrow> string \<Rightarrow> state_row \<Rightarrow> bool" where
  "row_retired E s k row \<longleftrightarrow> meta_retired (sd_metadata (row_to_state_dict (rd_fp E) k row))"

definition live_row :: "read_env \<Rightarrow> kv \<Rightarrow> string \<Rightarrow> bool" where
  "live_row E s k \<longleftrightarrow> (case dget (state_vars (kdb s)) k of None \<Rightarrow> False | Some row \<Rightarrow> \<not> row_retired E s k row)"

definition dead_row :: "read_env \<Rightarrow> kv \<Rightarrow> string \<Rightarrow> bool" where
  "dead_row E s k \<longleftrightarrow> (case dget (state_vars (kdb s)) k of None \<Rightarrow> False | Some row \<Rightarrow> row_retired E s k row)"

lemma truth_gate_rejects:
  assumes "(k, c) \<in> set (graph_channel_kv_truth_gate E (Some s) cs)" "conn_open s" "wf_dict (state_vars (kdb s))"
    and "lists_sets (rd_order E)" and "graph_channel c" "pk \<in> probe_keys c"
  shows "\<not> dead_row E s pk"
proof
  assume "dead_row E s pk"
  then obtain row where row: "dget (state_vars (kdb s)) pk = Some row" "row_retired E s pk row" by (auto simp: dead_row_def split: option.splits)
  let ?all = "\<Union>c \<in> set (filter graph_channel (map snd cs)). probe_keys c"
  from assms(1,2) have kc: "(k, c) \<in> set cs" unfolding graph_channel_kv_truth_gate_def Let_def by simp
  then have "c \<in> set (map snd cs)" using image_eqI [of c snd "(k, c)"] by simp
  with assms(5,6) have "pk \<in> ?all" by (simp only: set_filter) blast
  moreover have "finite ?all" using finite_probe_keys by (intro finite_UN_I) simp_all
  then have "set (rd_order E ?all) = ?all" using assms(4) by (simp only: lists_sets_def)
  ultimately have "pk \<in> set (rd_order E ?all)" by blast
  from get_states_finds [OF assms(3) row(1) this, of "rd_fp E"] row(2)
  have "\<exists>pk \<in> probe_keys c. case dget (get_states (rd_fp E) (kdb s) (rd_order E ?all)) pk of None \<Rightarrow> False
      | Some sd \<Rightarrow> meta_retired (sd_metadata sd)"
    using assms(6) by (intro bexI [of _ pk]) (simp_all add: row_retired_def)
  with assms(1,2,5) show False unfolding graph_channel_kv_truth_gate_def Let_def by simp
qed

text \<open>What the search of the store answers for the query.\<close>

definition store_rows :: "read_env \<Rightarrow> stores \<Rightarrow> string \<Rightarrow> (string, state_dict) dict" where
  "store_rows E S query =
     (let q = py_strip query; words = query_words E q in
      if q = [] then []
      else case search_kv_candidates E (st_kv S) q words (word_prefixes words) 100 of None \<Rightarrow> [] | Some rows \<Rightarrow> rows)"

lemma snd_kv_stage: "snd (kv_stage E S sess (py_strip query) (query_words E (py_strip query))
    (word_prefixes (query_words E (py_strip query))) cs) = store_rows E S query"
  by (auto simp: kv_stage_def store_rows_def Let_def search_kv_candidates_def split: option.split)

lemma gather_clean:
  assumes "gather_candidates E S cal enabled fallback now query sess limit = Some pool"
  obtains V gate where "pool = map snd gate" "wf_dict gate" "\<And>k c. (k, c) \<in> set gate \<Longrightarrow> clean E sess V k c"
    "vouched E S (store_rows E S query) V"
    "\<exists>cs. gate = graph_channel_kv_truth_gate E (st_kv S) cs"
proof -
  define q where "q = py_strip query"
  define ws where "ws = query_words E q"
  define ss where "ss = word_prefixes ws"
  obtain cs1 where cs1: "hot_stage E S now sess = Some cs1"
    using assms by (auto simp: gather_candidates_def Let_def split: option.splits)
  obtain cs2 raw where cs2: "kv_stage E S sess q ws ss cs1 = (cs2, raw)" by fastforce
  have raw: "raw = store_rows E S query"
    using snd_kv_stage [of E S sess query cs1] cs2 by (simp add: q_def ws_def ss_def)
  obtain mv cs3 cs4 where cs3: "vector_stage E S mv sess q limit ws ss raw cs2 = Some cs3"
    and cs4: "graph_stage E S fallback sess q limit ws cs3 = Some cs4"
    and pool: "pool = map snd (graph_channel_kv_truth_gate E (st_kv S) cs4)"
    using assms cs1 cs2 unfolding gather_candidates_def Let_def q_def [symmetric] ws_def [symmetric] ss_def [symmetric]
    by (auto split: option.splits)
  have "pool_ok (clean E sess V) cs2" for V
    using kv_stage_clean [OF hot_stage_clean [OF cs1], where V = V and q = q and ws = ws and ss = ss] cs2 by (metis fst_conv)
  from vector_stage_clean [OF cs3 this] obtain V where V: "vouched E S raw V" "pool_ok (clean E sess V) cs3" by blast
  have "pool_ok (clean E sess V) (graph_channel_kv_truth_gate E (st_kv S) cs4)"
    using graph_stage_clean [OF cs4 V(2)]
    by (auto simp: graph_channel_kv_truth_gate_def Let_def pool_ok_filter split: option.split)
  with that [OF pool _ _ V(1) [unfolded raw]] show ?thesis unfolding pool_ok_def by blast
qed

text \<open>
  C7: The pool holds only what may be shown: whatever the stores answer, every record of the pool has its own key, belongs to the
  asking session, is not marked as retired, and is neither a probe nor conversational noise. With the store open, a record that only
  the vector index knows has a key with a live row, unless the search had found its row; and for no record of the graph channel one
  of the keys that the truth gate probes (\<open>probe_keys\<close>: those derived from its key and its subject, as exact texts) is the key of a
  retired row. The probes miss a retired row whose key differs in case (\<open>truth_gate_is_case_sensitive\<close>).
\<close>

theorem pool_holds_what_may_be_shown:
  assumes "gather_candidates E S cal enabled fallback now query sess limit = Some pool" and "lists_sets (rd_order E)"
    and "\<And>s. st_kv S = Some s \<Longrightarrow> wf_dict (state_vars (kdb s))"
  shows "distinct (map cd_key pool) \<and> (\<forall>c \<in> set pool. \<exists>k. cd_key c = Some k \<and> cd_subject c = k
      \<and> \<not> meta_retired (cd_meta c) \<and> \<not> noise_key k (cd_object c)
      \<and> is_session_accessible (extract_effective_session (rd_repr E) k (cd_meta c)) sess
      \<and> (\<forall>s. st_kv S = Some s \<and> conn_open s \<longrightarrow>
           (cd_source c = ''vector'' \<longrightarrow> live_row E s k \<or> k \<in> set (dkeys (store_rows E S query)))
           \<and> (graph_channel c \<longrightarrow> (\<forall>pk \<in> probe_keys c. \<not> dead_row E s pk))))"
proof -
  obtain V gate where pool: "pool = map snd gate" and wf: "wf_dict gate" and ok: "\<And>k c. (k, c) \<in> set gate \<Longrightarrow> clean E sess V k c"
    and V: "vouched E S (store_rows E S query) V" and gt: "\<exists>cs. gate = graph_channel_kv_truth_gate E (st_kv S) cs"
    using gather_clean [OF assms(1)] by metis
  have keys: "map cd_key pool = map Some (dkeys gate)" unfolding pool using ok by (auto simp: clean_def)
  have vec: "live_row E s k \<or> k \<in> set (dkeys (store_rows E S query))" if "k \<in> V" "st_kv S = Some s" "conn_open s" for k s
    using V that get_states_rows [OF assms(3) [OF that(2)]]
    unfolding vouched_def live_state_def live_row_def row_retired_def by fastforce
  have gate: "\<not> dead_row E s pk"
    if "(k, c) \<in> set gate" "st_kv S = Some s" "conn_open s" "graph_channel c" "pk \<in> probe_keys c" for k c s pk
    using gt that assms(2) assms(3) [OF that(2)] truth_gate_rejects by metis
  show ?thesis
  proof (intro conjI ballI)
    show "distinct (map cd_key pool)" unfolding keys using wf by (simp add: wf_dict_def distinct_map inj_on_def)
  next
    fix c assume "c \<in> set pool"
    then obtain k where kc: "(k, c) \<in> set gate" unfolding pool by force
    with ok have c: "clean E sess V k c" by blast
    then have "\<not> meta_retired (cd_meta c)" "\<not> noise_key k (cd_object c)"
      "is_session_accessible (extract_effective_session (rd_repr E) k (cd_meta c)) sess"
      by (auto simp: clean_def is_filtered_def split: if_splits)
    with c gate [OF kc] vec [of k] show "\<exists>k. cd_key c = Some k \<and> cd_subject c = k
      \<and> \<not> meta_retired (cd_meta c) \<and> \<not> noise_key k (cd_object c)
      \<and> is_session_accessible (extract_effective_session (rd_repr E) k (cd_meta c)) sess
      \<and> (\<forall>s. st_kv S = Some s \<and> conn_open s \<longrightarrow>
           (cd_source c = ''vector'' \<longrightarrow> live_row E s k \<or> k \<in> set (dkeys (store_rows E S query)))
           \<and> (graph_channel c \<longrightarrow> (\<forall>pk \<in> probe_keys c. \<not> dead_row E s pk)))"
      unfolding clean_def by (intro exI [of _ k]) blast
  qed
qed


definition toy_read :: read_env where
  "toy_read = \<lparr>rd_render = \<lparr>r_repr = (\<lambda>_. []), r_float = (\<lambda>_. None), r_sqrt = (\<lambda>q. q), r_exp = (\<lambda>q. q),
       r_stem = (\<lambda>s. []), r_rank = (\<lambda>_. 1), r_slot = (\<lambda>_ j. j), r_dedup_sim = 1, r_now = 0\<rparr>,
     rd_ling = bare_ling, rd_fts = (\<lambda>_ _ _. None), rd_fp = (\<lambda>_. 0), rd_order = sorted_list_of_set, rd_hippo = False\<rparr>"

text \<open>The row of the key \<open>port\<close> is retired; the vector index still answers its old text.\<close>

definition retired_port :: kv where
  "retired_port = new_kv\<lparr>tables := (tables new_kv)\<lparr>base := empty_db\<lparr>state_vars :=
     [(''port'', \<lparr>s_value = ''8080'', s_confidence = 1, s_timestamp = 1,
        s_metadata = Some (''{'' @ [CHR 0x22] @ ''is_superseded'' @ [CHR 0x22] @ '': true}''), s_value_hash = None\<rparr>)]\<rparr>\<rparr>\<rparr>"

definition stale_stores :: stores where
  "stale_stores = \<lparr>st_hot = None, st_kv = Some retired_port,
     st_vector = Some (\<lambda>_ _ _. Some [[(''key'', VStr ''port''), (''text'', VStr ''8080''), (''score'', VFloat (9/10))]]),
     st_graph = None\<rparr>"

lemma stale_pool_size: "map_option length (gather_candidates toy_read stale_stores None True True 10 ''port'' (Some ''s1'') 5) = Some 1"
  by code_simp

theorem pool_holds_what_may_be_shown_witness:
  "\<exists>c. gather_candidates toy_read stale_stores None True True 10 ''port'' (Some ''s1'') 5 = Some [c] \<and> \<not> meta_retired (cd_meta c)"
proof -
  obtain c where c: "gather_candidates toy_read stale_stores None True True 10 ''port'' (Some ''s1'') 5 = Some [c]"
    using stale_pool_size by (auto simp: length_Suc_conv)
  have "wf_dict (state_vars (kdb s))" if "st_kv stale_stores = Some s" for s
    using that by (auto simp: stale_stores_def retired_port_def wf_dict_def)
  from pool_holds_what_may_be_shown [OF c _ this] c show ?thesis
    by (auto simp: toy_read_def lists_sets_def)
qed

text \<open>
  The check of vector hits against the store can be bypassed: a key whose row the search returned counts as verified although the
  row itself is dropped as retired, so the stale text of the vector index reaches the pool under the key of a retired row.
\<close>

theorem retired_row_vouches_for_stale_vector:
  "map_option (map (\<lambda>c. (cd_key c, cd_object c, cd_source c))) (gather_candidates toy_read stale_stores None True True 10 ''port'' (Some ''s1'') 5)
     = Some [(Some ''port'', ''8080'', ''vector'')]
   \<and> dead_row toy_read retired_port ''port''"
  by code_simp

definition case_stores :: stores where
  "case_stores = \<lparr>st_hot = None, st_kv = Some retired_port, st_vector = None,
     st_graph = Some \<lparr>gr_resolve = (\<lambda>_ _. [''Port'']),
       gr_relations = (\<lambda>n. Some [\<lparr>ge_subject = n, ge_predicate = VStr ''listens_on'', ge_object = ''8080'', ge_confidence = VFloat 1,
         ge_timestamp = VFloat 1, ge_session = VNone\<rparr>]), gr_ppr = (\<lambda>_ _. None)\<rparr>\<rparr>"

text \<open>
  The truth gate misses a retired row whose key differs in case: the store answers the probe with the row of the other spelling, and
  the gate looks the answer up under the spelling it asked for.
\<close>

theorem truth_gate_is_case_sensitive:
  "map_option (map (\<lambda>c. (cd_key c, cd_object c))) (gather_candidates toy_read case_stores None True True 10 ''Port'' (Some ''s1'') 5)
     = Some [(Some ''Port'', ''8080'')]
   \<and> map (meta_retired \<circ> sd_metadata \<circ> snd) (get_states (rd_fp toy_read) (kdb retired_port) [''Port'']) = [True]"
  by code_simp

text \<open>A row of confidence zero enters the pool with confidence one.\<close>

theorem zero_confidence_reads_as_certain:
  "map_option cd_confidence (build_record toy_read ''a'' (VStr ''x'') ''kv''
     (meta_of_state \<lparr>sd_key = ''a'', sd_value = VStr ''x'', sd_confidence = 0, sd_timestamp = 1, sd_metadata = [],
        sd_value_hash = None, sd_tampered = False\<rparr>) 0) = Some 1"
  by code_simp

end
