(* ===== verification/Scoring.thy ===== *)
theory Scoring
  imports Candidates Energy "HOL-Library.Product_Lexorder" "HOL-Library.Multiset" "HOL-Library.Sublist"
begin

text \<open>
  The scoring of the pool (\<open>cognitive/retrieval/strategies\<close>): deduplication by content, the three signals (cosine, BM25, graph), their
  fusion by \<open>StaticAnchorDbsfFusion\<close> or reciprocal ranks, and the entropy filter.

  Scores are rational numbers; \<open>math.exp\<close> and \<open>math.log\<close> are the parameters \<open>sv_exp\<close> and \<open>sv_log\<close>, the text of a number with two
  digits is \<open>sv_fmt\<close>, and \<open>sv_id\<close> the text of the identity of a record. The features of a candidate are a record of their own
  instead of the dictionary's temporary keys.
\<close>

record score_env =
  sv_read :: read_env
  sv_exp :: "rat \<Rightarrow> rat"
  sv_log :: "rat \<Rightarrow> rat"
  sv_fmt :: "rat \<Rightarrow> string"
  sv_id :: "nat \<Rightarrow> string"
  sv_time :: rat
  sv_strategy :: string

abbreviation sv_ling :: "score_env \<Rightarrow> ling_env" where
  "sv_ling V \<equiv> rd_ling (sv_read V)"

section \<open>Content\<close>

text \<open>\<open>zlib.crc32\<close> on bytes, and its eight hexadecimal digits.\<close>

fun crc_bits :: "nat \<Rightarrow> 32 word \<Rightarrow> 32 word" where
  "crc_bits 0 c = c"
| "crc_bits (Suc n) c = crc_bits n (if odd (uint c) then (drop_bit 1 c) XOR 0xEDB88320 else drop_bit 1 c)"

definition crc32 :: "string \<Rightarrow> 32 word" where
  "crc32 s = (foldl (\<lambda>c b. crc_bits 8 (c XOR of_nat (of_char b))) 0xFFFFFFFF s) XOR 0xFFFFFFFF"

definition crc_text :: "string \<Rightarrow> string" where
  "crc_text s = hex_digits 8 (uint (crc32 s))"

fun lit_ci :: "string \<Rightarrow> re" where
  "lit_ci [] = Eps"
| "lit_ci (c # s) = Seq (Chr (\<lambda>x. lower_char x = c)) (lit_ci s)"

definition compute_content_fingerprint :: "string \<Rightarrow> string" where
  "compute_content_fingerprint text0 =
     (let t = py_strip text0;
          t = (if CHR '':'' \<in> set t \<and> length (py_words (py_split_max CHR '':'' 1 t ! 0)) \<le> 3
               then py_strip (py_split_max CHR '':'' 1 t ! 1) else t);
          t = re_sub (Seq (lit_ci '':stated_memory'') WordB) [] t;
          t_clean = re_sub (Rep 1 None (Chr is_space)) '' '' (lower_pl (py_strip t));
          tokens = filter (\<lambda>w. 3 \<le> py_len w \<or> list_all is_digit w) (words_of t_clean);
          prefix = py_join ''_'' (take 8 tokens)
      in if prefix \<noteq> [] then prefix @ ''::'' @ crc_text t_clean else crc_text t_clean)"

section \<open>Authority\<close>

definition rule_key_prefixes :: "string list" where
  "rule_key_prefixes = [''rule:'', ''user_rule:'', ''user:rule:'', ''preference:'', ''constraint:'']"

definition is_rule :: "string \<Rightarrow> bool" where
  "is_rule s \<longleftrightarrow> list_ex (starts_with s) rule_key_prefixes \<or> contains_str s '':rule:''"

definition get_record_authority_score :: "string \<Rightarrow> int" where
  "get_record_authority_score subj =
     (let s = lower_pl subj in
      if is_rule s then 110
      else if list_ex (starts_with s) [''hermes:user_md:'', ''hermes:memory_md:''] then 100
      else if starts_with s ''mnemosyne:canonical_facts:'' then 70
      else if starts_with s ''mnemosyne:mnemosyne_working_memory:'' then 30
      else if starts_with s ''fact:'' then 80
      else if starts_with s ''database_'' \<or> CHR '':'' \<notin> set s then 90 else 50)"

definition get_authority_score :: "string \<Rightarrow> rat" where
  "get_authority_score subj =
     (let s = lower_pl subj in
      if is_rule s then 11/10
      else if list_ex (starts_with s) [''hermes:user_md:'', ''hermes:memory_md:''] then 1
      else if starts_with s ''fact:'' then 7/10 else 1/2)"

definition source_weight :: "string \<Rightarrow> rat" where
  "source_weight st = (case map_of [(''user_explicit'', 1), (''tool_output'', 17/20), (''external_doc'', 13/20), (''agent_inference'', 1/2)] st of
     None \<Rightarrow> 1/2 | Some w \<Rightarrow> w)"

text \<open>The rank of a record without a score; \<open>None\<close> is the exception of \<open>float\<close> or of metadata that is no dictionary.\<close>

definition compute_record_rank :: "score_env \<Rightarrow> rat \<Rightarrow> meta \<Rightarrow> rat option" where
  "compute_record_rank V current_time record =
     (let E = sv_read V;
          st = lower_pl (rd_str E (dget_default record ''source_type'' (VStr ''user_explicit'')));
          vw = source_weight st; subj = rd_str E (dget_default record ''subject'' (VStr [])); s_low = lower_pl subj
      in case (if meta_flag record ''is_superseded'' then Some True
               else case dget_default record ''metadata'' (VDict []) of
                   VDict m \<Rightarrow> Some (meta_flag m ''is_superseded'') | _ \<Rightarrow> None) of
           None \<Rightarrow> None
         | Some True \<Rightarrow> Some (- 5)
         | Some False \<Rightarrow>
             (case (rd_float E (dget_default record ''confidence'' (VFloat 1)), rd_float E (dget_default record ''timestamp'' (VFloat 0))) of
                (Some c, Some ts) \<Rightarrow>
                  (let age = (if 0 < ts then max 0 (current_time - ts) else 0);
                       rank = 2/5 * (vw * c) + 1/4 * get_authority_score subj
                   in Some (py_round 4 (rank +
                        (if is_rule s_low \<and> (st = ''user_explicit'' \<or> 99/100 \<le> c)
                         then 1 / (1 + 3/20 * sv_log V (1 + age / 86400))
                         else (1/5 * (vw * c)) / (1 + 1/20 * (age / 3600))))))
              | _ \<Rightarrow> None))"

section \<open>Deduplication\<close>

definition or_zero :: "rat option \<Rightarrow> rat" where
  "or_zero x = (case x of None \<Rightarrow> 0 | Some q \<Rightarrow> q)"

definition dedup_rank_key :: "candidate \<Rightarrow> int \<times> rat \<times> rat" where
  "dedup_rank_key c = (get_record_authority_score (cd_subject c), or_zero (cd_graph_score c), cd_vector_score c)"

text \<open>Records of the pool always have a \<open>source\<close>, so the branch for raw candidates does not arise.\<close>

definition cand_fingerprint :: "score_env \<Rightarrow> nat \<Rightarrow> candidate \<Rightarrow> string" where
  "cand_fingerprint V i c =
     (let cand_key = py_strip (case cd_key c of Some (x # k) \<Rightarrow> x # k | _ \<Rightarrow> if cd_subject c \<noteq> [] then cd_subject c else sv_id V i);
          obj_val = py_strip (cd_object c);
          fp_content = compute_content_fingerprint obj_val;
          is_atomic_value = (py_len obj_val \<le> 16 \<or> length (py_words obj_val) \<le> 2)
      in if is_atomic_value \<and> cand_key \<noteq> [] \<and> \<not> starts_with cand_key ''<''
         then (if fp_content \<noteq> [] then cand_key @ ''::'' @ fp_content else cand_key)
         else if fp_content \<noteq> [] then fp_content else cand_key)"

definition merge_cands :: "candidate \<Rightarrow> candidate \<Rightarrow> candidate" where
  "merge_cands prev c =
     (let merged_vec = max (cd_vector_score prev) (cd_vector_score c);
          merged_graph = max (or_zero (cd_graph_score prev)) (or_zero (cd_graph_score c));
          merged_ghit = (cd_graph_hit prev = Some True \<or> cd_graph_hit c = Some True \<or> 0 < merged_graph);
          target = (if dedup_rank_key prev < dedup_rank_key c then c else prev)
      in target\<lparr>cd_vector_score := merged_vec, cd_graph_score := Some merged_graph, cd_graph_hit := Some merged_ghit\<rparr>)"

fun dedup_into :: "score_env \<Rightarrow> nat \<Rightarrow> candidate list \<Rightarrow> (string, candidate) dict \<Rightarrow> (string, candidate) dict" where
  "dedup_into V i [] d = d"
| "dedup_into V i (c # cs) d =
     (let fp = cand_fingerprint V i c in
      dedup_into V (Suc i) cs (dset fp (case dget d fp of None \<Rightarrow> c | Some prev \<Rightarrow> merge_cands prev c) d))"

definition dedup_candidates :: "score_env \<Rightarrow> candidate list \<Rightarrow> candidate list" where
  "dedup_candidates V cs = map snd (dedup_into V 0 cs [])"

section \<open>The lexical signal\<close>

definition is_name_char :: "char \<Rightarrow> bool" where
  "is_name_char c \<longleftrightarrow> is_word_char c \<and> c \<noteq> CHR ''_''"

definition name_tokens :: "string \<Rightarrow> string list" where
  "name_tokens s = re_findall (Rep 1 None (Chr is_name_char)) s"

definition spaced_out :: "string \<Rightarrow> string" where
  "spaced_out s = subst_char CHR ''-'' CHR '' '' (subst_char CHR '':'' CHR '' '' (subst_char CHR ''_'' CHR '' '' s))"

definition stems_of :: "score_env \<Rightarrow> string \<Rightarrow> string list" where
  "stems_of V s = map (bilingual_stem (sv_ling V)) (filter (\<lambda>w. 3 \<le> py_len w) (name_tokens s))"

definition query_stems :: "score_env \<Rightarrow> string \<Rightarrow> string list" where
  "query_stems V query =
     (let polish_stopwords = load_stopwords (sv_ling V) ''pl'';
          raw_words = map lower_pl (filter (\<lambda>w. 3 \<le> py_len w) (name_tokens query));
          stem = bilingual_stem (sv_ling V);
          q_words = filter (\<lambda>w. w \<notin> polish_stopwords \<and> w \<notin> set query_meta_stopwords
                       \<and> stem w \<notin> polish_stopwords \<and> stem w \<notin> set query_meta_stopstems) raw_words
      in map stem (if q_words = [] then raw_words else q_words))"

definition tokenize_candidates :: "score_env \<Rightarrow> candidate list \<Rightarrow> string list list" where
  "tokenize_candidates V cs = map (\<lambda>c. stems_of V (spaced_out (lower_pl (cd_subject c) @ '' '' @ lower_pl (cd_object c)))) cs"

definition doc_freq :: "string list list \<Rightarrow> string \<Rightarrow> nat" where
  "doc_freq docs qt = length (filter (\<lambda>terms. qt \<in> set terms) docs)"

definition bm25_idf :: "score_env \<Rightarrow> string list list \<Rightarrow> string \<Rightarrow> rat" where
  "bm25_idf V docs qt = (let nq = of_nat (doc_freq docs qt) in sv_log V (1 + (of_nat (length docs) - nq + 1/2) / (nq + 1/2)))"

text \<open>Okapi BM25 with \<open>k1 = 1.2\<close> and \<open>b = 0\<close>.\<close>

definition calculate_scores :: "score_env \<Rightarrow> string list \<Rightarrow> string list list \<Rightarrow> rat list" where
  "calculate_scores V q_stems docs =
     map (\<lambda>terms. \<Sum>qt \<leftarrow> filter (\<lambda>qt. 0 < doc_freq docs qt) q_stems.
            (let tf = of_nat (count_list terms qt) in bm25_idf V docs qt * (tf * (11/5)) / (tf + 6/5))) docs"

definition phrase_hit :: "string \<Rightarrow> candidate \<Rightarrow> bool" where
  "phrase_hit q_lower c \<longleftrightarrow>
     q_lower \<noteq> [] \<and> (contains_str (lower_pl (cd_subject c)) q_lower \<or> contains_str (lower_pl (cd_object c)) q_lower)"

definition apply_phrase_boost :: "string \<Rightarrow> candidate list \<Rightarrow> rat list \<Rightarrow> rat list" where
  "apply_phrase_boost q_lower cs raw = map2 (\<lambda>c r. if phrase_hit q_lower c then r + 1 else r) cs raw"

record features =
  ft_vec :: rat
  ft_lex :: rat
  ft_graph :: rat
  ft_raw :: rat
  ft_tokens :: "string list"

definition make_features :: "candidate \<Rightarrow> rat \<Rightarrow> rat \<Rightarrow> string list \<Rightarrow> rat \<Rightarrow> features" where
  "make_features c max_bm25 r toks g =
     \<lparr>ft_vec = cd_vector_score c, ft_lex = py_round 4 (if 0 < max_bm25 then r / max_bm25 else 0), ft_graph = max 0 (min 1 g),
      ft_raw = r, ft_tokens = toks\<rparr>"

definition attach_scoring_features :: "score_env \<Rightarrow> candidate list \<Rightarrow> rat list \<Rightarrow> string list list \<Rightarrow> features list option" where
  "attach_scoring_features V cs raw docs =
     (let max_bm25 = foldr max raw 0 in
      those (map (\<lambda>(c, r, toks).
        map_option (make_features c max_bm25 r toks)
          (case cd_graph_score c of
             Some g \<Rightarrow> Some g
           | None \<Rightarrow> rd_float (sv_read V) (py_or (dget_default (cd_meta c) ''graph_score'' (VFloat 0)) (VFloat 0))))
        (zip cs (zip raw docs))))"


section \<open>Trust and tie breaks\<close>

definition key_entities :: "score_env \<Rightarrow> string \<Rightarrow> string list" where
  "key_entities V s_cand =
     filter (\<lambda>p. \<not> is_non_salient_key_token (sv_ling V) p)
       (re_findall (Rep 1 None (Chr (\<lambda>c. is_lower_letter c \<or> is_digit c))) s_cand)"

definition is_trusted_lexical_match :: "score_env \<Rightarrow> string \<Rightarrow> candidate \<Rightarrow> string list \<Rightarrow> string list \<Rightarrow> bool" where
  "is_trusted_lexical_match V query c q_stems doc_tokens =
     (let s_cand = lower_pl (cd_subject c); o_cand = lower_pl (cd_object c); q_lower = py_strip (lower_pl query);
          entities = key_entities V s_cand;
          tot = card (set q_stems); matched = card (set q_stems \<inter> set doc_tokens)
      in if q_lower \<noteq> [] \<and> (contains_str s_cand q_lower \<or> contains_str o_cand q_lower) then True
         else if cd_source c = ''graph'' then True
         else if s_cand = q_lower \<or> (starts_with q_lower s_cand \<and> 4 \<le> py_len s_cand) then True
         else if list_ex (contains_str q_lower) entities then True
         else if list_ex (\<lambda>e. bilingual_stem (sv_ling V) e \<in> set q_stems) entities then True
         else if (if 0 < tot then of_nat matched / of_nat tot else 0) \<ge> (1/2 :: rat) \<and> 2 \<le> tot then True
         else tot = 1 \<and> matched = 1)"

definition compute_tiebreaks :: "candidate \<Rightarrow> rat \<times> rat \<times> rat" where
  "compute_tiebreaks c =
     (let vw = source_weight (lower_pl (if cd_source_type c = [] then ''user_explicit'' else cd_source_type c));
          auth = of_int (get_record_authority_score (cd_subject c)) / 100
      in (auth, 1/100 * (auth / (11/10)), 1/200 * (vw * cd_confidence c)))"

text \<open>A candidate of the graph without a graph score counts as one half.\<close>

definition graph_cand :: "candidate \<Rightarrow> rat \<Rightarrow> bool" where
  "graph_cand c gs \<longleftrightarrow> 0 < gs \<or> cd_graph_hit c = Some True \<or> cd_source c = ''graph''"

definition eff_graph :: "candidate \<Rightarrow> rat \<Rightarrow> rat" where
  "eff_graph c gs = (if graph_cand c gs \<and> gs \<le> 0 then 1/2 else gs)"

record scored_cand =
  sc_cand :: candidate
  sc_score :: rat
  sc_rrf :: rat
  sc_dense :: rat
  sc_sparse :: rat
  sc_reason :: string
  sc_damped :: "string option"
  sc_prob :: "rat option"

text \<open>The record with the scores written into it, and into its metadata.\<close>

definition with_scores :: "candidate \<Rightarrow> rat \<Rightarrow> rat \<Rightarrow> rat \<Rightarrow> rat \<Rightarrow> rat \<Rightarrow> bool \<Rightarrow> string \<Rightarrow> string option \<Rightarrow> scored_cand" where
  "with_scores c score rrf dense sparse gs hit reason damped =
     \<lparr>sc_cand = c\<lparr>cd_graph_score := Some gs, cd_graph_hit := Some hit,
        cd_meta := dset ''graph_hit'' (VBool hit) (dset ''graph_score'' (VFloat gs) (dset ''sparse_score'' (VFloat sparse)
          (dset ''dense_score'' (VFloat dense) (dset ''relevance_reason'' (VStr reason) (dset ''score'' (VFloat score) (cd_meta c))))))\<rparr>,
      sc_score = score, sc_rrf = rrf, sc_dense = dense, sc_sparse = sparse, sc_reason = reason, sc_damped = damped, sc_prob = None\<rparr>"

definition zero_signal :: "candidate \<Rightarrow> scored_cand" where
  "zero_signal c =
     \<lparr>sc_cand = c\<lparr>cd_graph_score := Some 0, cd_graph_hit := Some False\<rparr>, sc_score = 0, sc_rrf = 0, sc_dense = 0, sc_sparse = 0,
      sc_reason = ''no_match(sim=0.0)'', sc_damped = None, sc_prob = None\<rparr>"

section \<open>Reciprocal ranks\<close>

definition rrf_score :: "rat \<Rightarrow> rat \<Rightarrow> rat \<Rightarrow> bool \<Rightarrow> nat \<Rightarrow> nat \<Rightarrow> rat" where
  "rrf_score vs ls gs is_trusted rank_vec_id rank_lex_id =
     (let rv_norm = (if 0 < vs then 61 / (60 + of_nat rank_vec_id) else 0);
          rb_norm = (if 0 < ls then 61 / (60 + of_nat rank_lex_id) else 0);
          rrf = (if 0 < vs \<and> 0 < ls then 1/2 * (vs * rv_norm + min 1 ls * rb_norm) + 1/50
                 else if 0 < vs then vs * rv_norm
                 else if is_trusted then min 1 ls * rb_norm else 3/20 * min 1 ls * rb_norm)
      in if 0 < gs then min 1 (rrf + 1/10 * gs) else rrf)"

definition rrf_assemble :: "score_env \<Rightarrow> candidate \<Rightarrow> rat \<Rightarrow> rat \<Rightarrow> rat \<Rightarrow> bool \<Rightarrow> nat \<Rightarrow> nat \<Rightarrow> scored_cand" where
  "rrf_assemble V c vs ls gs is_trusted rank_vec_id rank_lex_id =
     (let (auth, auth_tiebreak, conf_tiebreak) = compute_tiebreaks c;
          rrf = rrf_score vs ls gs is_trusted rank_vec_id rank_lex_id;
          rule_tiebreak = (if 1 \<le> auth \<and> (13/20 \<le> vs \<or> (1/4 \<le> ls \<and> (0 < vs \<or> is_trusted))) then 7/200 else 0)
      in with_scores c (py_round 4 (min 1 (rrf + auth_tiebreak + conf_tiebreak + rule_tiebreak))) (py_round 4 rrf)
           (py_round 4 vs) (py_round 4 ls) (py_round 4 gs) (graph_cand c gs)
           (''dense(rank='' @ int_str (int rank_vec_id) @ '',sim='' @ sv_fmt V vs @ '')+bm25(rank='' @ int_str (int rank_lex_id)
             @ '',sim='' @ sv_fmt V ls @ '')+graph('' @ sv_fmt V gs @ '')'') None)"

definition score_stems :: "score_env \<Rightarrow> string \<Rightarrow> string list" where
  "score_stems V query = stems_of V (spaced_out (lower_pl (py_strip query)))"

definition no_signal :: "candidate \<Rightarrow> features \<Rightarrow> bool" where
  "no_signal c f \<longleftrightarrow> ft_vec f \<le> 0 \<and> ft_lex f \<le> 0 \<and> eff_graph c (ft_graph f) \<le> 0"

definition rrf_one :: "score_env \<Rightarrow> string \<Rightarrow> nat \<Rightarrow> nat \<Rightarrow> candidate \<Rightarrow> features \<Rightarrow> scored_cand" where
  "rrf_one V query rank_vec_id rank_lex_id c f =
     (if no_signal c f then zero_signal c
      else rrf_assemble V c (ft_vec f) (ft_lex f) (eff_graph c (ft_graph f))
             (is_trusted_lexical_match V query c (score_stems V query) (ft_tokens f)) rank_vec_id rank_lex_id)"

section \<open>Static-anchor fusion\<close>

definition sigma :: "score_env \<Rightarrow> rat \<Rightarrow> rat" where
  "sigma V z = (if 40 \<le> z then 1 else if z \<le> - 40 then 0 else 1 / (1 + sv_exp V (- z)))"

definition normalize_dense :: "score_env \<Rightarrow> rat \<Rightarrow> rat" where
  "normalize_dense V vs =
     (if vs \<le> 0 then 0
      else (let s_val = sigma V (12 * (min 1 vs - 1/2)); s_zero = sigma V (- 12 * (1/2)); denom = 1 - s_zero in
            if denom \<le> 0 then 0 else max 0 (min 1 ((s_val - s_zero) / denom))))"

definition generic_key_parts :: "string list" where
  "generic_key_parts = [''hermes'', ''config'', ''fact'', ''rule'', ''preference'', ''constraint'', ''system'', ''service'',
     ''user_md'', ''memory_md'', ''stated_memory'', ''working_fact'', ''episodic_event'', ''canonical_spec'', ''user'', ''agent'', ''default'']"

definition is_ungrounded_scoped_entity :: "string \<Rightarrow> string list \<Rightarrow> nat \<Rightarrow> rat \<Rightarrow> bool \<Rightarrow> rat \<Rightarrow> bool" where
  "is_ungrounded_scoped_entity s_cand_low q_stems matched_stems ls is_trusted gs \<longleftrightarrow>
     CHR '':'' \<in> set s_cand_low
     \<and> list_ex (\<lambda>p. 3 \<le> py_len p \<and> p \<notin> set generic_key_parts)
         (re_findall (Rep 1 None (Chr (\<lambda>c. is_lower_letter c \<or> is_digit c))) s_cand_low)
     \<and> q_stems \<noteq> [] \<and> matched_stems = 0 \<and> ls \<le> 0 \<and> \<not> is_trusted \<and> gs \<le> 0"

definition lex_norm :: "string list \<Rightarrow> nat \<Rightarrow> rat \<Rightarrow> rat \<Rightarrow> rat \<Rightarrow> rat" where
  "lex_norm q_stems matched_stems n_dense ls raw_bm25 =
     (let n = of_nat (length q_stems); query_cov = (if q_stems = [] then 1 else of_nat matched_stems / max 1 n);
          raw_lex_norm = raw_bm25 / max 6 (n * 6)
      in if 3 \<le> length q_stems \<and> matched_stems \<le> 1 \<and> n_dense < 7/25 then min 1 (max ls raw_lex_norm * query_cov)
         else min 1 (max (ls * query_cov) raw_lex_norm))"

definition smoothstep :: "rat \<Rightarrow> rat" where
  "smoothstep t = 3 * t\<^sup>2 - 2 * t ^ 3"

definition daemon_gamma :: "score_env \<Rightarrow> rat \<Rightarrow> rat" where
  "daemon_gamma V vs = 1 / (1 + sv_exp V (- max (- 40) (min 40 ((vs - 3/4) / (1/25)))))"

definition combine_base_fused ::
  "score_env \<Rightarrow> rat \<Rightarrow> rat \<Rightarrow> rat \<Rightarrow> rat \<Rightarrow> rat \<Rightarrow> bool \<Rightarrow> bool \<Rightarrow> nat \<Rightarrow> string list \<Rightarrow> bool \<Rightarrow> rat" where
  "combine_base_fused V vs ls n_dense n_lex eff_alpha is_trusted ungrounded matched_stems q_stems daemon =
     (let damp = (\<lambda>x. if daemon then x * daemon_gamma V vs else x) in
      if 0 < vs \<and> 0 < ls then
        (let base_fused = eff_alpha * n_dense + (1 - eff_alpha) * n_lex; s_blend = smoothstep ((vs - 37/50) / (1/25)) in
         damp (if is_trusted then
                 (if 39/50 \<le> vs then max base_fused n_dense
                  else if vs \<le> 37/50 then base_fused
                  else (1 - s_blend) * base_fused + s_blend * max base_fused n_dense)
               else base_fused))
      else if 0 < vs then
        (let w_dense = eff_alpha + (1 - eff_alpha) * smoothstep ((vs - 3/5) / (1/5)) in
         damp (if ungrounded then 3/20 * n_dense
               else if matched_stems = 0 \<and> \<not> is_trusted \<and> 2 \<le> length q_stems then eff_alpha * n_dense
               else if vs \<le> 3/5 then eff_alpha * n_dense
               else if 4/5 \<le> vs then n_dense
               else w_dense * n_dense))
      else if is_trusted then n_lex else (1 - eff_alpha) * n_lex)"

text \<open>The fused score with the graph signal, and the mark of a damped candidate.\<close>

definition apply_graph_synergy ::
  "rat \<Rightarrow> rat \<Rightarrow> rat \<Rightarrow> rat \<Rightarrow> rat \<Rightarrow> rat \<Rightarrow> nat \<Rightarrow> string list \<Rightarrow> bool \<Rightarrow> bool \<Rightarrow> rat \<Rightarrow> rat \<times> string option" where
  "apply_graph_synergy fused vs ls gs n_dense n_lex matched_stems q_stems is_sym is_trusted eff_alpha =
     (if gs \<le> 0 then (fused, None)
      else
        (let weak = (matched_stems = 0 \<or> (3 \<le> length q_stems \<and> matched_stems \<le> 1 \<and> \<not> is_sym) \<or> (n_lex < 11/50 \<and> \<not> is_sym));
             only_graph = (if \<not> is_sym then min (11/50) (3/10 * gs) else (13/20 + 1/10) * gs);
             all_signals = (1 - 1/10) * fused + 1/10 * max gs fused + 1/50 * gs;
             damped_val = min (9/50) (1/5 * gs + 1/2 * n_lex);
             full_val = min 1 (if vs \<le> 0 \<and> ls \<le> 0 then only_graph
                               else if vs \<le> 0 then (1 - eff_alpha) * n_lex + 2 * (1/10) * gs
                               else all_signals);
             s_ramp = smoothstep ((n_dense - 1/10) / (3/50))
         in if weak then
              (if n_dense \<le> 1/10 then (damped_val, Some ''ungrounded_graph'')
               else if 4/25 \<le> n_dense then (full_val, None)
               else ((1 - s_ramp) * damped_val + s_ramp * full_val, Some ''ungrounded_graph_ramped''))
            else
              (min 1 (if vs \<le> 0 \<and> ls \<le> 0 then only_graph
                      else if vs \<le> 0 then
                        (if is_sym \<and> is_trusted then max fused (1/4 * n_lex + (13/20 + 1/10) * gs)
                         else max fused ((1 - eff_alpha) * n_lex + 2 * (1/10) * gs))
                      else all_signals), None)))"

definition dbsf_rule_tiebreak :: "rat \<Rightarrow> rat \<Rightarrow> rat \<Rightarrow> rat \<Rightarrow> bool \<Rightarrow> bool \<Rightarrow> rat" where
  "dbsf_rule_tiebreak auth vs ls gs is_trusted ungrounded =
     (if ungrounded \<and> gs < 7/10 then 0
      else if 1 \<le> auth \<and> (13/20 \<le> vs \<or> 7/10 \<le> gs \<or> (0 < ls \<and> (0 < vs \<or> 0 < gs \<or> is_trusted))) then 7/200 else 0)"


text \<open>
  Days since 1970 of a date, \<open>None\<close> for a day that the month does not have (\<open>datetime\<close> raises, which the code ignores).
\<close>

definition leap_year :: "int \<Rightarrow> bool" where
  "leap_year y \<longleftrightarrow> y mod 4 = 0 \<and> (y mod 100 \<noteq> 0 \<or> y mod 400 = 0)"

definition month_days :: "int \<Rightarrow> int list" where
  "month_days y = [31, if leap_year y then 29 else 28, 31, 30, 31, 30, 31, 31, 30, 31, 30, 31]"

definition epoch_days :: "int \<Rightarrow> nat \<Rightarrow> int \<Rightarrow> int option" where
  "epoch_days y m d =
     (if d \<le> month_days y ! (m - 1)
      then Some (365 * (y - 1970) + ((y - 1) div 4 - (y - 1) div 100 + (y - 1) div 400 - 477)
                 + sum_list (take (m - 1) (month_days y)) + d - 1)
      else None)"

definition char_in :: "string \<Rightarrow> re" where
  "char_in cs = Chr (\<lambda>c. c \<in> set cs)"

definition date_re :: re where
  "date_re = seqs [lit ''202'', char_in ''456789'', char_in ''-_'',
     Alt (Seq (lit ''0'') (char_in ''123456789'')) (Seq (lit ''1'') (char_in ''012'')), char_in ''-_'',
     Alt (Seq (lit ''0'') (char_in ''123456789'')) (Alt (Seq (char_in ''12'') (Chr is_digit)) (Seq (lit ''3'') (char_in ''01'')))]"

definition named_date :: "string \<Rightarrow> int option" where
  "named_date s =
     (case re_findall date_re s of
        [] \<Rightarrow> None
      | m # _ \<Rightarrow> epoch_days (int (digits_val (take 4 m))) (digits_val (take 2 (drop 5 m))) (int (digits_val (take 2 (drop 8 m)))))"

definition is_episodic :: "string \<Rightarrow> bool" where
  "is_episodic s_cand_low \<longleftrightarrow>
     list_ex (ends_with s_cand_low) ['':episodic_event'', '':working_fact'', '':episodic'']
     \<or> list_ex (starts_with s_cand_low) [''fact:task__'', ''fact:conversation'']"

definition age_factor :: "score_env \<Rightarrow> rat \<Rightarrow> rat" where
  "age_factor V age_days = (if 3 < age_days then max (9/20) (sv_exp V (- 7/200 * (age_days - 3))) else 1)"

definition stored_time :: "score_env \<Rightarrow> candidate \<Rightarrow> rat option" where
  "stored_time V c =
     (if or_zero (cd_timestamp c) \<noteq> 0 then Some (or_zero (cd_timestamp c))
      else rd_float (sv_read V) (py_or (dget_default (cd_meta c) ''timestamp'' (VFloat 0)) (VFloat 0)))"

definition age_in_days :: "score_env \<Rightarrow> string \<Rightarrow> candidate \<Rightarrow> rat \<Rightarrow> rat" where
  "age_in_days V s_cand_low c ts_val =
     (let age = (if 100000000 < ts_val then max 0 ((sv_time V - ts_val) / 86400) else 0) in
      case named_date (s_cand_low @ '' '' @ py_take 120 (cd_object c)) of
        None \<Rightarrow> age
      | Some d \<Rightarrow> max age (max 0 ((sv_time V - of_int (86400 * d)) / 86400)))"

definition weak_factor :: "nat \<Rightarrow> string list \<Rightarrow> rat \<Rightarrow> rat \<Rightarrow> rat" where
  "weak_factor matched_stems q_stems n_dense gs =
     (if 3 \<le> length q_stems \<and> matched_stems \<le> 1 \<and> n_dense < 7/25 \<and> gs \<le> 0 then 11/20 else 1)"

definition compute_ttl_factor :: "score_env \<Rightarrow> string \<Rightarrow> candidate \<Rightarrow> nat \<Rightarrow> string list \<Rightarrow> rat \<Rightarrow> rat \<Rightarrow> rat option" where
  "compute_ttl_factor V s_cand_low c matched_stems q_stems n_dense gs =
     (let weak = weak_factor matched_stems q_stems n_dense gs in
      if is_episodic s_cand_low
      then map_option (\<lambda>ts_val. age_factor V (age_in_days V s_cand_low c ts_val) * weak) (stored_time V c)
      else Some weak)"

definition dbsf_one :: "score_env \<Rightarrow> string \<Rightarrow> candidate \<Rightarrow> features \<Rightarrow> scored_cand option" where
  "dbsf_one V query c f =
     (if no_signal c f then Some (zero_signal c)
      else
        (let q_stems = score_stems V query; vs = ft_vec f; ls = ft_lex f; gs = eff_graph c (ft_graph f);
             is_trusted = is_trusted_lexical_match V query c q_stems (ft_tokens f);
             (auth, auth_tiebreak, conf_tiebreak) = compute_tiebreaks c;
             is_sym = is_symbolic_or_identifier query; eff_alpha = (if is_sym then 3/10 else 7/20);
             matched_stems = length (filter (\<lambda>qs. qs \<in> set (ft_tokens f)) q_stems);
             n_dense = normalize_dense V vs; n_lex = lex_norm q_stems matched_stems n_dense ls (ft_raw f);
             s_cand_low = lower_pl (cd_subject c);
             ungrounded = is_ungrounded_scoped_entity s_cand_low q_stems matched_stems ls is_trusted gs;
             base = combine_base_fused V vs ls n_dense n_lex eff_alpha is_trusted ungrounded matched_stems q_stems
                      (meta_flag (cd_meta c) ''is_daemon_no_lex'');
             (fused, damped) = apply_graph_synergy base vs ls gs n_dense n_lex matched_stems q_stems is_sym is_trusted eff_alpha;
             rule_tiebreak = dbsf_rule_tiebreak auth vs ls gs is_trusted ungrounded
         in map_option (\<lambda>ttl.
              with_scores c (py_round 4 (min 1 (fused * ttl + auth_tiebreak + conf_tiebreak + rule_tiebreak))) (py_round 4 (fused * ttl))
                (py_round 4 n_dense) (py_round 4 n_lex) (py_round 4 gs) (graph_cand c gs)
                (''dbsf(dense='' @ sv_fmt V n_dense @ '',lex='' @ sv_fmt V n_lex @ '',graph='' @ sv_fmt V gs @ '',sim='' @ sv_fmt V vs @ '')'')
                damped)
              (compute_ttl_factor V s_cand_low c matched_stems q_stems n_dense gs)))"

section \<open>The pipeline\<close>

text \<open>\<open>sorted(candidates, key=f, reverse=True)\<close> is stable: the rank of the \<open>i\<close>-th candidate counts those before it.\<close>

definition rank_of :: "rat list \<Rightarrow> nat \<Rightarrow> nat" where
  "rank_of xs i = 1 + length (filter (\<lambda>j. xs ! i < xs ! j \<or> (xs ! j = xs ! i \<and> j < i)) [0..<length xs])"

definition score_pipeline :: "score_env \<Rightarrow> string \<Rightarrow> string \<Rightarrow> candidate list \<Rightarrow> scored_cand list option" where
  "score_pipeline V query strategy candidates =
     (if candidates = [] then Some []
      else
        (let deduped = dedup_candidates V candidates; q_stems = query_stems V query; q_lower = py_strip (lower_pl query);
             docs = tokenize_candidates V deduped;
             raw = apply_phrase_boost q_lower deduped (calculate_scores V q_stems docs)
         in case attach_scoring_features V deduped raw docs of
              None \<Rightarrow> None
            | Some fs \<Rightarrow>
                map_option (sort_key (\<lambda>x. - sc_score x))
                  (those (map (\<lambda>(i, c, f).
                       if strategy = ''rrf'' then Some (rrf_one V query (rank_of (map ft_vec fs) i) (rank_of (map ft_lex fs) i) c f)
                       else dbsf_one V query c f)
                     (zip [0..<length deduped] (zip deduped fs))))))"

definition score_candidates :: "score_env \<Rightarrow> string \<Rightarrow> string \<Rightarrow> candidate list \<Rightarrow> scored_cand list option" where
  "score_candidates V query fusion_strategy candidates =
     score_pipeline V query
       (py_strip (lower_pl (if fusion_strategy \<noteq> [] then fusion_strategy else sv_strategy V))) candidates"

section \<open>The entropy filter\<close>

definition positive_scores :: "scored_cand list \<Rightarrow> rat list" where
  "positive_scores xs = filter (\<lambda>s. 1/1000000 < s) (map sc_score xs)"

definition compute_normalized_entropy :: "score_env \<Rightarrow> rat list \<Rightarrow> rat" where
  "compute_normalized_entropy V pos =
     (let k = length pos; total = sum_list pos; max_h = sv_log V (of_nat k);
          h = foldl (\<lambda>h s. let p = s / total in if 0 < p then h - p * sv_log V p else h) 0 pos
      in if k < 2 \<or> total \<le> 0 \<or> max_h \<le> 0 then 0 else min 1 (max 0 (h / max_h)))"

definition is_protected_rule :: "scored_cand \<Rightarrow> bool" where
  "is_protected_rule x \<longleftrightarrow> is_rule (lower_pl (cd_subject (sc_cand x)))"

definition max_score_of :: "scored_cand list \<Rightarrow> rat" where
  "max_score_of xs = (case xs of [] \<Rightarrow> 0 | x # _ \<Rightarrow> foldl max (sc_score x) (map sc_score xs))"

definition entropy_threshold :: "score_env \<Rightarrow> rat \<Rightarrow> scored_cand list \<Rightarrow> rat" where
  "entropy_threshold V eff_base xs =
     (let k = length (positive_scores xs); h_norm = compute_normalized_entropy V (positive_scores xs);
          w = 3 / of_nat (k + 3);
          h_eff = (if k = 2 \<or> k = 3 then h_norm else if 4 \<le> k then (1 - w) * h_norm + w * (1/2) else 0)
      in if 4 \<le> k \<and> 17/20 \<le> h_eff then max eff_base (11/20 * max_score_of xs)
         else if 4 \<le> k \<and> 7/10 \<le> h_eff then max eff_base (2/5 * max_score_of xs)
         else eff_base)"

definition weak_graph :: "rat \<Rightarrow> rat \<Rightarrow> scored_cand \<Rightarrow> bool" where
  "weak_graph eff_threshold cliff x \<longleftrightarrow>
     \<not> is_protected_rule x \<and> 0 < or_zero (cd_graph_score (sc_cand x)) \<and> sc_dense x < 3/25 \<and> sc_sparse x < 2/25
     \<and> (sc_score x < cliff \<or> sc_score x < max eff_threshold (7/25))"

definition entropy_filter :: "score_env \<Rightarrow> rat \<Rightarrow> scored_cand list \<Rightarrow> scored_cand list \<times> rat" where
  "entropy_filter V eff_base xs =
     (if xs = [] then ([], eff_base)
      else
        (let eff_threshold = entropy_threshold V eff_base xs;
             cliff = (if 4 \<le> length (positive_scores xs) then 1/2 * max_score_of xs else 0)
         in (filter (\<lambda>x. eff_threshold \<le> sc_score x \<and> \<not> weak_graph eff_threshold cliff x) xs, py_round 4 eff_threshold)))"


section \<open>Records keep their identity\<close>

definition score_keys :: "string set" where
  "score_keys = {''score'', ''relevance_reason'', ''dense_score'', ''sparse_score'', ''graph_score'', ''graph_hit'', ''calibrated_prob''}"

text \<open>Scoring changes the signals of a record and writes scores into its metadata, nothing else.\<close>

definition same_record :: "candidate \<Rightarrow> candidate \<Rightarrow> bool" where
  "same_record c c' \<longleftrightarrow>
     cd_key c' = cd_key c \<and> cd_subject c' = cd_subject c \<and> cd_predicate c' = cd_predicate c \<and> cd_object c' = cd_object c
     \<and> cd_source c' = cd_source c \<and> cd_confidence c' = cd_confidence c \<and> cd_source_type c' = cd_source_type c
     \<and> cd_timestamp c' = cd_timestamp c \<and> (\<forall>k. k \<notin> score_keys \<longrightarrow> dget (cd_meta c') k = dget (cd_meta c) k)"

lemma same_record_refl [simp]: "same_record c c"
  by (simp add: same_record_def)

lemma same_record_trans: "same_record a b \<Longrightarrow> same_record b c \<Longrightarrow> same_record a c"
  by (simp add: same_record_def)

lemma same_record_with_scores [simp]: "same_record c (sc_cand (with_scores c a b d e g h r k))"
  by (auto simp: same_record_def with_scores_def score_keys_def)

lemma same_record_zero [simp]: "same_record c (sc_cand (zero_signal c))"
  by (simp add: same_record_def zero_signal_def)

lemma rrf_one_same: "same_record c (sc_cand (rrf_one V q i j c f))"
  by (simp add: rrf_one_def rrf_assemble_def Let_def split: prod.split)

lemma dbsf_one_same: "dbsf_one V q c f = Some x \<Longrightarrow> same_record c (sc_cand x)"
  by (auto simp: dbsf_one_def Let_def split: if_splits prod.splits)

lemma those_Some: "those xs = Some ys \<longleftrightarrow> xs = map Some ys"
  by (induction xs arbitrary: ys) (auto split: option.splits)

lemma those_map: "those (map f xs) = Some ys \<longleftrightarrow> list_all2 (\<lambda>x y. f x = Some y) xs ys"
  unfolding those_Some by (auto simp: list_all2_conv_all_nth list_eq_iff_nth_eq)

section \<open>Deduplication loses no fact\<close>

definition stands_for :: "candidate \<Rightarrow> candidate \<Rightarrow> bool" where
  "stands_for c' c \<longleftrightarrow> cd_vector_score c \<le> cd_vector_score c' \<and> or_zero (cd_graph_score c) \<le> or_zero (cd_graph_score c')
     \<and> get_record_authority_score (cd_subject c) \<le> get_record_authority_score (cd_subject c')
     \<and> (cd_graph_hit c = Some True \<longrightarrow> cd_graph_hit c' = Some True)"

lemma stands_for_refl [simp]: "stands_for c c"
  by (simp add: stands_for_def)

lemma stands_for_trans: "stands_for a b \<Longrightarrow> stands_for b c \<Longrightarrow> stands_for a c"
  by (auto simp: stands_for_def)

lemma merge_cands_same: "same_record prev (merge_cands prev c) \<or> same_record c (merge_cands prev c)"
  by (simp add: merge_cands_def Let_def same_record_def)

lemma merge_cands_stands: "stands_for (merge_cands prev c) prev \<and> stands_for (merge_cands prev c) c"
proof -
  have "get_record_authority_score (cd_subject a) \<le> get_record_authority_score (cd_subject b)"
    if "dedup_rank_key a \<le> dedup_rank_key b" for a b
    using that by (auto simp: dedup_rank_key_def less_eq_prod_def)
  then show ?thesis
    by (auto simp: merge_cands_def Let_def stands_for_def or_zero_def)
qed

text \<open>Every record so far has one of its fingerprint in the dictionary, and every record there comes from the pool.\<close>

definition dedup_inv :: "score_env \<Rightarrow> candidate list \<Rightarrow> nat \<Rightarrow> (string, candidate) dict \<Rightarrow> bool" where
  "dedup_inv V cs n d \<longleftrightarrow> wf_dict d
     \<and> (\<forall>j < n. \<exists>c'. dget d (cand_fingerprint V j (cs ! j)) = Some c' \<and> stands_for c' (cs ! j))
     \<and> (\<forall>fp c'. dget d fp = Some c' \<longrightarrow> (\<exists>j < n. fp = cand_fingerprint V j (cs ! j) \<and> same_record (cs ! j) c'))"

lemma dedup_invD:
  assumes "dedup_inv V cs n d"
  shows "wf_dict d"
    and "j < n \<Longrightarrow> \<exists>c'. dget d (cand_fingerprint V j (cs ! j)) = Some c' \<and> stands_for c' (cs ! j)"
    and "dget d fp = Some c' \<Longrightarrow> \<exists>j < n. fp = cand_fingerprint V j (cs ! j) \<and> same_record (cs ! j) c'"
  using assms unfolding dedup_inv_def by blast+

lemma dedup_inv_step:
  assumes "dedup_inv V cs n d" "n < length cs"
  shows "dedup_inv V cs (Suc n) (let fp = cand_fingerprint V n (cs ! n) in
    dset fp (case dget d fp of None \<Rightarrow> cs ! n | Some prev \<Rightarrow> merge_cands prev (cs ! n)) d)"
proof -
  let ?fp = "cand_fingerprint V n (cs ! n)"
  let ?new = "case dget d ?fp of None \<Rightarrow> cs ! n | Some prev \<Rightarrow> merge_cands prev (cs ! n)"
  have new: "stands_for ?new (cs ! n) \<and> (\<forall>prev. dget d ?fp = Some prev \<longrightarrow> stands_for ?new prev)"
    using merge_cands_stands by (auto split: option.split)
  have orig: "\<exists>j < Suc n. ?fp = cand_fingerprint V j (cs ! j) \<and> same_record (cs ! j) ?new"
  proof (cases "dget d ?fp")
    case None
    then show ?thesis by (intro exI [of _ n]) simp
  next
    case (Some prev)
    with dedup_invD(3) [OF assms(1)] obtain j where j: "j < n" "?fp = cand_fingerprint V j (cs ! j)" "same_record (cs ! j) prev"
      by blast
    from merge_cands_same [of prev "cs ! n"] show ?thesis
    proof
      assume "same_record prev (merge_cands prev (cs ! n))"
      with j Some show ?thesis by (intro exI [of _ j]) (auto intro: same_record_trans)
    next
      assume "same_record (cs ! n) (merge_cands prev (cs ! n))"
      with Some show ?thesis by (intro exI [of _ n]) simp
    qed
  qed
  show ?thesis
    unfolding dedup_inv_def Let_def
  proof (intro conjI allI impI)
    show "wf_dict (dset ?fp ?new d)" using assms(1) by (simp add: dedup_inv_def wf_dict_dset)
  next
    fix j assume "j < Suc n"
    then consider "j = n" | "j < n" by linarith
    then show "\<exists>c'. dget (dset ?fp ?new d) (cand_fingerprint V j (cs ! j)) = Some c' \<and> stands_for c' (cs ! j)"
    proof cases
      case 1
      then show ?thesis using new by simp
    next
      case 2
      with dedup_invD(2) [OF assms(1)] obtain c' where "dget d (cand_fingerprint V j (cs ! j)) = Some c'" "stands_for c' (cs ! j)"
        by blast
      then show ?thesis using new stands_for_trans by (cases "?fp = cand_fingerprint V j (cs ! j)") auto
    qed
  next
    fix fp c' assume "dget (dset ?fp ?new d) fp = Some c'"
    then show "\<exists>j < Suc n. fp = cand_fingerprint V j (cs ! j) \<and> same_record (cs ! j) c'"
      using orig dedup_invD(3) [OF assms(1), of fp c'] by (cases "?fp = fp") (auto simp: less_Suc_eq)
  qed
qed

lemma dedup_into_inv:
  "dedup_inv V cs n d \<Longrightarrow> n \<le> length cs \<Longrightarrow> dedup_inv V cs (length cs) (dedup_into V n (drop n cs) d)"
proof (induction "length cs - n" arbitrary: n d)
  case 0
  then show ?case by simp
next
  case (Suc x)
  then have n: "n < length cs" by simp
  have "dedup_inv V cs (length cs) (dedup_into V (Suc n) (drop (Suc n) cs) (let fp = cand_fingerprint V n (cs ! n) in
      dset fp (case dget d fp of None \<Rightarrow> cs ! n | Some prev \<Rightarrow> merge_cands prev (cs ! n)) d))"
    by (rule Suc.hyps(1)) (use Suc.hyps(2) n dedup_inv_step [OF Suc.prems(1) n] in auto)
  then show ?case by (simp add: Cons_nth_drop_Suc [OF n, symmetric] Let_def)
qed

lemma dedup_inv_all: "dedup_inv V cs (length cs) (dedup_into V 0 cs [])"
  using dedup_into_inv [of V cs 0 "[]"] by (simp add: dedup_inv_def)


lemma length_dedup: "length (dedup_candidates V cs) = card ((\<lambda>j. cand_fingerprint V j (cs ! j)) ` {..<length cs})"
proof -
  let ?d = "dedup_into V 0 cs []"
  have inv: "dedup_inv V cs (length cs) ?d" by (rule dedup_inv_all)
  have "set (dkeys ?d) = (\<lambda>j. cand_fingerprint V j (cs ! j)) ` {..<length cs}"
  proof (intro set_eqI iffI)
    fix fp assume "fp \<in> set (dkeys ?d)"
    then obtain c' where "dget ?d fp = Some c'" by (metis dget_None_iff not_None_eq)
    with dedup_invD(3) [OF inv] show "fp \<in> (\<lambda>j. cand_fingerprint V j (cs ! j)) ` {..<length cs}" by blast
  next
    fix fp assume "fp \<in> (\<lambda>j. cand_fingerprint V j (cs ! j)) ` {..<length cs}"
    then obtain j where "j < length cs" "fp = cand_fingerprint V j (cs ! j)" by blast
    with dedup_invD(2) [OF inv] show "fp \<in> set (dkeys ?d)" using dget_in_keys by metis
  qed
  moreover have "distinct (dkeys ?d)" using inv by (simp add: dedup_inv_def wf_dict_def)
  ultimately show ?thesis by (metis dedup_candidates_def distinct_card length_map)
qed

lemma length_attach: "attach_scoring_features V cs raw docs = Some fs \<Longrightarrow> length raw = length cs \<Longrightarrow> length docs = length cs \<Longrightarrow>
    length fs = length cs"
  by (auto simp: attach_scoring_features_def Let_def those_map dest: list_all2_lengthD)

lemma score_pipeline_records:
  assumes "score_pipeline V query strategy cs = Some xs"
  shows "\<exists>ys. mset xs = mset ys \<and> list_all2 (\<lambda>c x. same_record c (sc_cand x)) (dedup_candidates V cs) ys
    \<and> sorted (map (\<lambda>x. - sc_score x) xs)"
proof (cases "cs = []")
  case True
  with assms show ?thesis by (simp add: score_pipeline_def dedup_candidates_def)
next
  case False
  let ?d = "dedup_candidates V cs"
  obtain raw docs fs ys where fs: "attach_scoring_features V ?d raw docs = Some fs" "length raw = length ?d" "length docs = length ?d"
    and ys: "those (map (\<lambda>(i, c, f). if strategy = ''rrf'' then Some (rrf_one V query (rank_of (map ft_vec fs) i) (rank_of (map ft_lex fs) i) c f)
                       else dbsf_one V query c f) (zip [0..<length ?d] (zip ?d fs))) = Some ys"
    and xs: "xs = sort_key (\<lambda>x. - sc_score x) ys"
    using assms False unfolding score_pipeline_def Let_def
    by (fastforce simp: apply_phrase_boost_def calculate_scores_def tokenize_candidates_def split: option.splits)
  have len: "length fs = length ?d" by (rule length_attach [OF fs])
  have "list_all2 (\<lambda>c x. same_record c (sc_cand x)) ?d ys"
    unfolding list_all2_conv_all_nth
  proof (intro conjI allI impI)
    from ys show "length ?d = length ys" using len by (auto simp: those_map dest: list_all2_lengthD)
  next
    fix i assume i: "i < length ?d"
    with ys len have "(if strategy = ''rrf'' then Some (rrf_one V query (rank_of (map ft_vec fs) i) (rank_of (map ft_lex fs) i) (?d ! i) (fs ! i))
                       else dbsf_one V query (?d ! i) (fs ! i)) = Some (ys ! i)"
      by (auto simp: those_map list_all2_conv_all_nth)
    then show "same_record (?d ! i) (sc_cand (ys ! i))"
      using rrf_one_same dbsf_one_same by (metis option.inject)
  qed
  with xs show ?thesis by (intro exI [of _ ys]) simp
qed

lemma scored_from_pool:
  assumes "score_candidates V query strategy cs = Some xs" "x \<in> set xs"
  shows "\<exists>c \<in> set cs. same_record c (sc_cand x)"
proof -
  from score_pipeline_records [OF assms(1) [unfolded score_candidates_def]] obtain ys where
    ys: "mset xs = mset ys" "list_all2 (\<lambda>c x. same_record c (sc_cand x)) (dedup_candidates V cs) ys" by blast
  have inv: "dedup_inv V cs (length cs) (dedup_into V 0 cs [])" by (rule dedup_inv_all)
  have "x \<in> set ys" using assms(2) mset_eq_setD [OF ys(1)] by simp
  then obtain c' where c': "c' \<in> set (dedup_candidates V cs)" "same_record c' (sc_cand x)"
    using ys(2) by (metis in_set_conv_nth list_all2_conv_all_nth)
  then obtain fp where "(fp, c') \<in> set (dedup_into V 0 cs [])" by (auto simp: dedup_candidates_def)
  then have "dget (dedup_into V 0 cs []) fp = Some c'" using dedup_invD(1) [OF inv] by (simp add: wf_dict_def)
  with dedup_invD(3) [OF inv] obtain j where "j < length cs" "same_record (cs ! j) c'" by blast
  with c'(2) show ?thesis by (meson nth_mem same_record_trans)
qed

text \<open>
  C15: Ranking neither invents nor loses a fact: the result is sorted by score, has exactly one record for every content fingerprint
  that occurs in the pool, each of them a record of the pool up to its scores; and every record of the pool is represented by one of
  its fingerprint and of at least its authority.
\<close>

theorem ranking_keeps_every_fact:
  assumes "score_candidates V query strategy cs = Some xs"
  shows "sorted (map (\<lambda>x. - sc_score x) xs)
    \<and> length xs = card ((\<lambda>j. cand_fingerprint V j (cs ! j)) ` {..<length cs})
    \<and> (\<forall>x \<in> set xs. \<exists>c \<in> set cs. same_record c (sc_cand x))
    \<and> (\<forall>j < length cs. \<exists>x \<in> set xs. \<exists>i < length cs. same_record (cs ! i) (sc_cand x)
         \<and> cand_fingerprint V i (cs ! i) = cand_fingerprint V j (cs ! j)
         \<and> get_record_authority_score (cd_subject (cs ! j)) \<le> get_record_authority_score (cd_subject (sc_cand x)))"
proof -
  let ?d = "dedup_into V 0 cs []"
  have inv: "dedup_inv V cs (length cs) ?d" by (rule dedup_inv_all)
  from score_pipeline_records [OF assms [unfolded score_candidates_def]] obtain ys where
    ys: "mset xs = mset ys" "list_all2 (\<lambda>c x. same_record c (sc_cand x)) (dedup_candidates V cs) ys"
    and sorted: "sorted (map (\<lambda>x. - sc_score x) xs)" by blast
  have set: "set xs = set ys" using ys(1) by (rule mset_eq_setD)
  have len: "length xs = length (dedup_candidates V cs)" using ys by (metis list_all2_lengthD size_mset)
  have from_pool: "\<exists>c \<in> set cs. same_record c (sc_cand x)" if "x \<in> set xs" for x
    using scored_from_pool [OF assms that] .
  have represented: "\<exists>x \<in> set xs. \<exists>i < length cs. same_record (cs ! i) (sc_cand x)
         \<and> cand_fingerprint V i (cs ! i) = cand_fingerprint V j (cs ! j)
         \<and> get_record_authority_score (cd_subject (cs ! j)) \<le> get_record_authority_score (cd_subject (sc_cand x))"
    if j: "j < length cs" for j
  proof -
    from dedup_invD(2) [OF inv j] obtain c' where c': "dget ?d (cand_fingerprint V j (cs ! j)) = Some c'" "stands_for c' (cs ! j)"
      by blast
    from dedup_invD(3) [OF inv c'(1)] obtain i where
      i: "i < length cs" "cand_fingerprint V j (cs ! j) = cand_fingerprint V i (cs ! i)" "same_record (cs ! i) c'" by blast
    have "c' \<in> set (dedup_candidates V cs)" using c'(1) by (force simp: dedup_candidates_def dest: map_of_SomeD)
    then obtain x where x: "x \<in> set xs" "same_record c' (sc_cand x)"
      using ys(2) unfolding set by (metis in_set_conv_nth list_all2_conv_all_nth)
    have "cd_subject (sc_cand x) = cd_subject c'" using x(2) by (simp add: same_record_def)
    with x i c'(2) show ?thesis by (metis same_record_trans stands_for_def)
  qed
  show ?thesis
  proof (intro conjI ballI allI impI)
    show "length xs = card ((\<lambda>j. cand_fingerprint V j (cs ! j)) ` {..<length cs})" using len length_dedup by simp
  qed (use sorted from_pool represented in blast)+
qed


section \<open>Bounds\<close>

text \<open>What the scores rely on of \<open>math.exp\<close> and \<open>math.log\<close>.\<close>

definition math_ok :: "score_env \<Rightarrow> bool" where
  "math_ok V \<longleftrightarrow> (\<forall>x. 0 < sv_exp V x) \<and> (\<forall>x \<le> 0. sv_exp V x \<le> 1) \<and> (\<forall>x \<ge> 1. 0 \<le> sv_log V x)"

abbreviation unit_rat :: "rat \<Rightarrow> bool" where
  "unit_rat x \<equiv> 0 \<le> x \<and> x \<le> 1"

lemma smoothstep_unit: "0 \<le> t \<Longrightarrow> t \<le> 1 \<Longrightarrow> unit_rat (smoothstep t)"
proof -
  assume t: "0 \<le> t" "t \<le> 1"
  have "smoothstep t = t\<^sup>2 * (3 - 2 * t)" "1 - smoothstep t = (1 - t)\<^sup>2 * (1 + 2 * t)"
    by (simp_all add: smoothstep_def power2_eq_square power3_eq_cube algebra_simps)
  moreover have "0 \<le> t\<^sup>2 * (3 - 2 * t)" "0 \<le> (1 - t)\<^sup>2 * (1 + 2 * t)" using t by (simp_all)
  ultimately show ?thesis by linarith
qed

lemma convex_unit: "unit_rat a \<Longrightarrow> unit_rat x \<Longrightarrow> unit_rat y \<Longrightarrow> unit_rat (a * x + (1 - a) * y)"
proof -
  assume u: "unit_rat a" "unit_rat x" "unit_rat y"
  then have "a * x \<le> a * 1" "(1 - a) * y \<le> (1 - a) * 1" by (intro mult_left_mono; simp)+
  with u show ?thesis by simp
qed

lemma mult_unit: "unit_rat x \<Longrightarrow> unit_rat y \<Longrightarrow> unit_rat (x * y)"
  using mult_le_one by auto

lemma normalize_dense_unit: "unit_rat (normalize_dense V vs)"
  by (simp add: normalize_dense_def Let_def)

lemma lex_norm_unit: "0 \<le> ls \<Longrightarrow> 0 \<le> raw \<Longrightarrow> unit_rat (lex_norm qs m nd ls raw)"
proof -
  assume l: "0 \<le> ls" "0 \<le> raw"
  have d: "0 \<le> raw / max 6 (of_nat (length qs) * 6)" "0 \<le> (if qs = [] then 1 else of_nat m / max 1 (of_nat (length qs)) :: rat)"
    using l by auto
  with l show ?thesis unfolding lex_norm_def Let_def by (auto intro: mult_nonneg_nonneg le_max_iff_disj [THEN iffD2])
qed

lemma daemon_gamma_unit: "math_ok V \<Longrightarrow> unit_rat (daemon_gamma V vs)"
proof -
  assume "math_ok V"
  then have "0 < sv_exp V x" for x by (simp add: math_ok_def)
  then have "0 < sv_exp V (- max (- 40) (min 40 ((vs - 3/4) / (1/25))))" .
  then show ?thesis unfolding daemon_gamma_def by simp
qed

lemma combine_unit:
  assumes "math_ok V" "unit_rat nd" "unit_rat nl" "unit_rat a"
  shows "unit_rat (combine_base_fused V vs ls nd nl a tr ug m qs dm)"
proof -
  have base: "unit_rat (a * nd + (1 - a) * nl)" using convex_unit assms(2-4) by blast
  have blend: "unit_rat (smoothstep ((vs - 37/50) / (1/25)))" if "37/50 < vs" "vs < 39/50"
    using that by (intro smoothstep_unit) auto
  have curve: "unit_rat (smoothstep ((vs - 3/5) / (1/5)))" if "3/5 < vs" "vs < 4/5"
    using that by (intro smoothstep_unit) auto
  have mixed: "unit_rat ((1 - s) * (a * nd + (1 - a) * nl) + s * max (a * nd + (1 - a) * nl) nd)" if "unit_rat s" for s
  proof -
    have "unit_rat (max (a * nd + (1 - a) * nl) nd)" using base assms(2) by (auto simp: le_max_iff_disj)
    from convex_unit [OF that this base] show ?thesis by (simp add: add.commute)
  qed
  have weight: "unit_rat ((a + (1 - a) * s) * nd)" if "unit_rat s" for s
    using convex_unit [OF assms(4), of 1 s] that assms(2) by (intro mult_unit) auto
  have damp: "unit_rat x \<Longrightarrow> unit_rat (if dm then x * daemon_gamma V vs else x)" for x
    using mult_unit daemon_gamma_unit [OF assms(1)] by simp
  have small: "unit_rat (3/20 * nd)" "unit_rat (a * nd)" "unit_rat ((1 - a) * nl)"
    using assms(2-4) by (intro mult_unit; simp)+
  show ?thesis
    unfolding combine_base_fused_def Let_def
    using base blend curve mixed weight small assms(2,3) damp
    by (simp only: if_distrib [where f = unit_rat]) auto
qed


lemma synergy_unit:
  assumes "unit_rat fused" "unit_rat gs" "unit_rat nd" "unit_rat nl" "unit_rat a"
  shows "unit_rat (fst (apply_graph_synergy fused vs ls gs nd nl m qs symb tr a))"
proof -
  define G where "G = (if \<not> symb then min (11/50) (3/10 * gs) else (13/20 + 1/10) * gs)"
  define A where "A = (1 - 1/10) * fused + 1/10 * max gs fused + 1/50 * gs"
  define L where "L = (1 - a) * nl + 2 * (1/10) * gs"
  define D where "D = min (9/50) (1/5 * gs + 1/2 * nl)"
  define F where "F = min 1 (if vs \<le> 0 \<and> ls \<le> 0 then G else if vs \<le> 0 then L else A)"
  define N where "N = min 1 (if vs \<le> 0 \<and> ls \<le> 0 then G else if vs \<le> 0 then
      (if symb \<and> tr then max fused (1/4 * nl + (13/20 + 1/10) * gs) else max fused L) else A)"
  define s where "s = smoothstep ((nd - 1/10) / (3/50))"
  have "0 \<le> (1 - a) * nl" using assms(4,5) by simp
  then have pos: "0 \<le> G" "0 \<le> L" "0 \<le> A" using assms(1,2) by (simp_all add: G_def A_def L_def le_max_iff_disj)
  then have N: "unit_rat N" and F: "unit_rat F" using assms(1) by (simp_all add: N_def F_def le_max_iff_disj)
  have D: "unit_rat D" using assms(2,4) by (auto simp: D_def)
  have ramp: "unit_rat s" if "1/10 < nd" "nd < 4/25" unfolding s_def using that by (intro smoothstep_unit) auto
  have mixed: "unit_rat ((1 - s) * D + s * F)" if "unit_rat s" using convex_unit [OF that F D] by (simp add: add.commute)
  obtain w where "fst (apply_graph_synergy fused vs ls gs nd nl m qs symb tr a) =
      (if gs \<le> 0 then fused else if w then (if nd \<le> 1/10 then D else if 4/25 \<le> nd then F else (1 - s) * D + s * F) else N)"
    unfolding apply_graph_synergy_def Let_def G_def [symmetric] A_def [symmetric] L_def [symmetric] D_def [symmetric]
      F_def [symmetric] N_def [symmetric] s_def [symmetric]
    by (simp add: if_distrib [of fst] cong: if_cong)
  then show ?thesis using assms(1) N F D ramp mixed by (auto split: if_splits)
qed

lemma ttl_unit: "math_ok V \<Longrightarrow> compute_ttl_factor V s c m qs nd gs = Some t \<Longrightarrow> unit_rat t"
proof -
  assume ok: "math_ok V" and t: "compute_ttl_factor V s c m qs nd gs = Some t"
  have age: "unit_rat (age_factor V d)" for d using ok by (auto simp: math_ok_def age_factor_def)
  have "unit_rat (weak_factor m qs nd gs)" by (simp add: weak_factor_def)
  with t mult_unit [OF age] show ?thesis by (auto simp: compute_ttl_factor_def Let_def split: if_splits)
qed

lemma bm25_nonneg:
  assumes "math_ok V"
  shows "\<forall>r \<in> set (calculate_scores V qs docs). 0 \<le> r"
proof -
  have "0 \<le> bm25_idf V docs qt" for qt
  proof -
    have "doc_freq docs qt \<le> length docs" by (simp add: doc_freq_def)
    then have "0 \<le> (of_nat (length docs) - of_nat (doc_freq docs qt) + 1/2 :: rat) / (of_nat (doc_freq docs qt) + 1/2)" by simp
    then show ?thesis using assms by (simp add: bm25_idf_def Let_def math_ok_def)
  qed
  then show ?thesis unfolding calculate_scores_def Let_def by (auto intro!: sum_list_nonneg)
qed

lemma boost_nonneg: "\<forall>r \<in> set raw. 0 \<le> r \<Longrightarrow> \<forall>r \<in> set (apply_phrase_boost q cs raw). 0 \<le> r"
  by (auto simp: apply_phrase_boost_def dest: set_zip_rightD)

lemma foldr_max_ge: "r \<in> set raw \<Longrightarrow> r \<le> foldr max raw (0::rat)"
  by (induction raw) (auto simp: le_max_iff_disj)

definition good_features :: "features \<Rightarrow> bool" where
  "good_features f \<longleftrightarrow> unit_rat (ft_lex f) \<and> unit_rat (ft_graph f) \<and> 0 \<le> ft_raw f"

lemma attach_good:
  assumes "attach_scoring_features V cs raw docs = Some fs" "\<forall>r \<in> set raw. 0 \<le> r"
  shows "\<forall>f \<in> set fs. good_features f"
proof
  fix f assume "f \<in> set fs"
  then obtain i where i: "i < length fs" "f = fs ! i" by (metis in_set_conv_nth)
  have len: "length fs = length (zip cs (zip raw docs))"
    using assms(1) by (auto simp: attach_scoring_features_def Let_def those_map dest: list_all2_lengthD)
  define r where "r = raw ! i"
  have ri: "zip cs (zip raw docs) ! i = (cs ! i, r, docs ! i)" and r: "r \<in> set raw" using i len by (auto simp: r_def)
  have "\<exists>g. make_features (cs ! i) (foldr max raw 0) r (docs ! i) g = fs ! i"
    using assms(1) [unfolded attach_scoring_features_def Let_def those_map list_all2_conv_all_nth, THEN conjunct2, rule_format, of i] i len
    by (auto simp: ri)
  then obtain g where f: "f = make_features (cs ! i) (foldr max raw 0) r (docs ! i) g" using i by metis
  have "unit_rat (if 0 < foldr max raw 0 then r / foldr max raw 0 else 0)"
    using assms(2) r foldr_max_ge [OF r] by (auto simp: divide_le_eq)
  from py_round_unit [OF conjunct1 [OF this] conjunct2 [OF this], of 4] assms(2) r show "good_features f"
    by (simp add: good_features_def f make_features_def)
qed

lemma eff_graph_unit: "unit_rat g \<Longrightarrow> unit_rat (eff_graph c g)"
  by (simp add: eff_graph_def)

lemma tiebreaks_nonneg: "compute_tiebreaks c = (a, b, d) \<Longrightarrow> 0 \<le> cd_confidence c \<Longrightarrow> 0 \<le> b \<and> 0 \<le> d"
proof -
  assume tb: "compute_tiebreaks c = (a, b, d)" and conf: "0 \<le> cd_confidence c"
  have w: "0 \<le> source_weight st" for st by (simp add: source_weight_def)
  have r: "0 \<le> get_record_authority_score s" for s by (simp add: get_record_authority_score_def Let_def)
  have "0 \<le> fst (snd (compute_tiebreaks c)) \<and> 0 \<le> snd (snd (compute_tiebreaks c))"
    using w r conf by (simp add: compute_tiebreaks_def Let_def)
  with tb show ?thesis by simp
qed

lemma dbsf_unit:
  assumes "math_ok V" "good_features f" "0 \<le> cd_confidence c" "dbsf_one V q c f = Some x"
  shows "unit_rat (sc_score x) \<and> unit_rat (sc_rrf x) \<and> unit_rat (sc_dense x) \<and> unit_rat (sc_sparse x)"
proof (cases "no_signal c f")
  case True
  with assms(4) show ?thesis by (auto simp: dbsf_one_def zero_signal_def)
next
  case False
  let ?gs = "eff_graph c (ft_graph f)"
  obtain a b d where tb: "compute_tiebreaks c = (a, b, d)" by (metis prod_cases3)
  define m where "m = length (filter (\<lambda>qs. qs \<in> set (ft_tokens f)) (score_stems V q))"
  define symb where "symb = is_symbolic_or_identifier q"
  define tr where "tr = is_trusted_lexical_match V q c (score_stems V q) (ft_tokens f)"
  let ?nd = "normalize_dense V (ft_vec f)" and ?al = "if symb then 3/10 else 7/20 :: rat"
  let ?nl = "lex_norm (score_stems V q) m ?nd (ft_lex f) (ft_raw f)"
  define ug where "ug = is_ungrounded_scoped_entity (lower_pl (cd_subject c)) (score_stems V q) m (ft_lex f) tr ?gs"
  define base where "base = combine_base_fused V (ft_vec f) (ft_lex f) ?nd ?nl ?al tr ug m (score_stems V q)
      (meta_flag (cd_meta c) ''is_daemon_no_lex'')"
  obtain fused damped where fused: "apply_graph_synergy base (ft_vec f) (ft_lex f) ?gs ?nd ?nl m (score_stems V q) symb tr ?al
      = (fused, damped)" by fastforce
  define rt where "rt = dbsf_rule_tiebreak a (ft_vec f) (ft_lex f) ?gs tr ug"
  obtain reason where step: "dbsf_one V q c f = map_option (\<lambda>ttl. with_scores c (py_round 4 (min 1 (fused * ttl + b + d + rt)))
         (py_round 4 (fused * ttl)) (py_round 4 ?nd) (py_round 4 ?nl) (py_round 4 ?gs) (graph_cand c ?gs) reason damped)
         (compute_ttl_factor V (lower_pl (cd_subject c)) c m (score_stems V q) ?nd ?gs)"
    unfolding dbsf_one_def Let_def tb prod.case m_def [symmetric] symb_def [symmetric] tr_def [symmetric] ug_def [symmetric]
      base_def [symmetric] fused rt_def [symmetric] using False by (simp only: if_False)
  with assms(4) obtain ttl where ttl: "compute_ttl_factor V (lower_pl (cd_subject c)) c m (score_stems V q) ?nd ?gs = Some ttl"
    and x: "x = with_scores c (py_round 4 (min 1 (fused * ttl + b + d + rt))) (py_round 4 (fused * ttl)) (py_round 4 ?nd) (py_round 4 ?nl)
         (py_round 4 ?gs) (graph_cand c ?gs) reason damped" by auto
  have nd: "unit_rat (normalize_dense V (ft_vec f))" by (rule normalize_dense_unit)
  have nl: "unit_rat (lex_norm (score_stems V q) m (normalize_dense V (ft_vec f)) (ft_lex f) (ft_raw f))"
    using assms(2) by (intro lex_norm_unit) (auto simp: good_features_def)
  have gs: "unit_rat ?gs" using assms(2) by (intro eff_graph_unit) (simp add: good_features_def)
  have al: "unit_rat (if symb then 3/10 else 7/20)" by simp
  have "unit_rat base" unfolding base_def by (rule combine_unit [OF assms(1) nd nl al])
  from synergy_unit [OF this gs nd nl al] have "unit_rat fused" by (metis fst_conv fused)
  then have ft: "unit_rat (fused * ttl)" using mult_unit ttl_unit [OF assms(1) ttl] by blast
  have "0 \<le> rt" by (simp add: rt_def dbsf_rule_tiebreak_def)
  with ft tiebreaks_nonneg [OF tb assms(3)] have "unit_rat (min 1 (fused * ttl + b + d + rt))" by simp
  with ft nd nl show ?thesis
    unfolding x by (simp add: with_scores_def py_round_unit)
qed

lemma rrf_unit:
  assumes "good_features f" "0 \<le> cd_confidence c"
  shows "unit_rat (sc_score (rrf_one V q i j c f))"
proof (cases "no_signal c f")
  case True
  then show ?thesis by (simp add: rrf_one_def zero_signal_def)
next
  case False
  obtain a b d where tb: "compute_tiebreaks c = (a, b, d)" by (metis prod_cases3)
  have lex: "0 \<le> ft_lex f" and gs: "0 \<le> eff_graph c (ft_graph f)"
    using assms(1) eff_graph_unit [of "ft_graph f" c] by (auto simp: good_features_def)
  have "0 \<le> rrf_score vs (ft_lex f) (eff_graph c (ft_graph f)) tr i j" for vs tr
    using lex gs by (simp add: rrf_score_def Let_def)
  with tiebreaks_nonneg [OF tb assms(2)] have "unit_rat (min 1 (rrf_score vs (ft_lex f) (eff_graph c (ft_graph f)) tr i j + b + d + (if p then 7/200 else 0)))"
    for vs tr p by (simp add: add_nonneg_nonneg)
  with False show ?thesis
    by (simp add: rrf_one_def rrf_assemble_def Let_def tb with_scores_def py_round_unit)
qed

text \<open>
  C16: Scores are normalised: whatever the signals are, with confidences that are not negative every score that the scoring returns
  lies between 0 and 1, under either fusion, because the fused score is capped at 1 after the tie breaks. A comment of the calibration
  engine says that scores reach about 1.05, and its grid of thresholds goes to 1.10: no score reaches the thresholds above 1.
\<close>

theorem scores_are_normalized:
  assumes "math_ok V" "\<forall>c \<in> set cs. 0 \<le> cd_confidence c" "score_candidates V query strategy cs = Some xs"
  shows "\<forall>x \<in> set xs. 0 \<le> sc_score x \<and> sc_score x \<le> 1"
proof (cases "cs = []")
  case True
  with assms(3) show ?thesis by (simp add: score_candidates_def score_pipeline_def)
next
  case False
  let ?d = "dedup_candidates V cs"
  define docs where "docs = tokenize_candidates V ?d"
  define raw where "raw = apply_phrase_boost (py_strip (lower_pl query)) ?d (calculate_scores V (query_stems V query) docs)"
  have raw: "\<forall>r \<in> set raw. 0 \<le> r" unfolding raw_def by (rule boost_nonneg [OF bm25_nonneg [OF assms(1)]])
  have conf: "0 \<le> cd_confidence c" if "c \<in> set ?d" for c
  proof -
    from that obtain fp where "(fp, c) \<in> set (dedup_into V 0 cs [])" by (auto simp: dedup_candidates_def)
    then have "dget (dedup_into V 0 cs []) fp = Some c" using dedup_invD(1) [OF dedup_inv_all] by (simp add: wf_dict_def)
    from dedup_invD(3) [OF dedup_inv_all this] assms(2) show ?thesis by (auto simp: same_record_def)
  qed
  obtain fs ys st where fs: "attach_scoring_features V ?d raw docs = Some fs"
    and ys: "those (map (\<lambda>(i, c, f). if st = ''rrf'' then Some (rrf_one V query (rank_of (map ft_vec fs) i) (rank_of (map ft_lex fs) i) c f)
                       else dbsf_one V query c f) (zip [0..<length ?d] (zip ?d fs))) = Some ys" and xs: "set xs = set ys"
    using assms(3) False unfolding score_candidates_def score_pipeline_def Let_def raw_def docs_def
    by (auto split: option.splits)
  have good: "good_features f" if "f \<in> set fs" for f using attach_good [OF fs raw] that by blast
  show ?thesis
  proof
    fix x assume "x \<in> set xs"
    then obtain i where iy: "i < length ys" "x = ys ! i" unfolding xs by (metis in_set_conv_nth)
    note all = ys [unfolded those_map list_all2_conv_all_nth]
    have id: "i < length ?d" "i < length fs" using all iy(1) by auto
    from all [THEN conjunct2, rule_format, of i] iy id have i: "i < length ?d" "i < length fs" "(if st = ''rrf'' then Some (rrf_one V query (rank_of (map ft_vec fs) i) (rank_of (map ft_lex fs) i) (?d ! i) (fs ! i))
        else dbsf_one V query (?d ! i) (fs ! i)) = Some x"
      by auto
    note fc = good [OF nth_mem [OF i(2)]] conf [OF nth_mem [OF i(1)]]
    show "unit_rat (sc_score x)"
    proof (cases "st = ''rrf''")
      case True
      with i(3) rrf_unit [OF fc] show ?thesis by auto
    next
      case False
      with i(3) dbsf_unit [OF assms(1) fc] show ?thesis by simp
    qed
  qed
qed

section \<open>A concrete pool\<close>

definition toy_score :: score_env where
  "toy_score = \<lparr>sv_read = toy_read, sv_exp = (\<lambda>x. if x \<le> 0 then 1 / (1 - x) else 1 + x), sv_log = (\<lambda>x. x - 1),
     sv_fmt = (\<lambda>_. []), sv_id = (\<lambda>_. []), sv_time = 1000, sv_strategy = ''dbsf''\<rparr>"

definition toy_cand :: "string \<Rightarrow> string \<Rightarrow> string \<Rightarrow> rat \<Rightarrow> candidate" where
  "toy_cand k v src vs = \<lparr>cd_key = Some k, cd_subject = k, cd_predicate = VStr ''is'', cd_object = v, cd_content = v, cd_source = src,
     cd_vector_score = vs, cd_importance = None, cd_confidence = 1, cd_source_type = ''user_explicit'', cd_meta = [], cd_timestamp = None,
     cd_vector = None, cd_graph_score = None, cd_graph_hit = None, cd_exact = False\<rparr>"

text \<open>The same fact under two keys, and another fact.\<close>

definition toy_pool :: "candidate list" where
  "toy_pool = [toy_cand ''note:1'' ''the gateway listens on port'' ''kv'' 0, toy_cand ''rule:port'' ''the gateway listens on port'' ''vector'' (4/5),
     toy_cand ''note:2'' ''backups run_calls every night at two'' ''vector'' (1/2)]"

section \<open>Scoring does not fail\<close>

text \<open>A record whose metadata has no score of the graph and no time that is not a number.\<close>

definition scorable :: "score_env \<Rightarrow> candidate \<Rightarrow> bool" where
  "scorable V c \<longleftrightarrow> stored_time V c \<noteq> None
     \<and> (cd_graph_score c = None \<longrightarrow> rd_float (sv_read V) (py_or (dget_default (cd_meta c) ''graph_score'' (VFloat 0)) (VFloat 0)) \<noteq> None)"

lemma scorable_merge: "scorable V prev \<Longrightarrow> scorable V c \<Longrightarrow> scorable V (merge_cands prev c)"
  by (auto simp: scorable_def merge_cands_def Let_def stored_time_def)

lemma set_dset_subset: "set (dset k v d) \<subseteq> insert (k, v) (set d)"
  by (induction d) (auto split: if_splits)

lemma scorable_dedup_into: "\<forall>c \<in> set cs. scorable V c \<Longrightarrow> \<forall>(k, c) \<in> set d. scorable V c \<Longrightarrow> \<forall>(k, c) \<in> set (dedup_into V i cs d). scorable V c"
proof (induction cs arbitrary: i d)
  case Nil
  then show ?case by simp
next
  case (Cons c cs)
  let ?fp = "cand_fingerprint V i c"
  have "scorable V (case dget d ?fp of None \<Rightarrow> c | Some prev \<Rightarrow> merge_cands prev c)"
    using Cons.prems scorable_merge by (auto split: option.split dest!: map_of_SomeD)
  then have "\<forall>(k, c) \<in> set (dset ?fp (case dget d ?fp of None \<Rightarrow> c | Some prev \<Rightarrow> merge_cands prev c) d). scorable V c"
    using Cons.prems(2) set_dset_subset [of ?fp _ d] by fast
  from Cons.IH [OF _ this] Cons.prems(1) show ?case by (simp add: Let_def)
qed

lemma those_total: "\<forall>x \<in> set xs. f x \<noteq> None \<Longrightarrow> \<exists>ys. those (map f xs) = Some ys"
  by (induction xs) auto

lemma zip3_mid: "(i, c, f) \<in> set (zip xs (zip cs fs)) \<Longrightarrow> c \<in> set cs"
  by (meson set_zip_leftD set_zip_rightD)

lemma dbsf_one_total: "scorable V c \<Longrightarrow> dbsf_one V q c f \<noteq> None"
  by (auto simp: dbsf_one_def Let_def compute_ttl_factor_def scorable_def split: prod.split)

lemma attach_total: "\<forall>c \<in> set cs. scorable V c \<Longrightarrow> \<exists>fs. attach_scoring_features V cs raw docs = Some fs"
  unfolding attach_scoring_features_def Let_def
  by (rule those_total) (auto simp: scorable_def split: option.split dest!: set_zip_leftD)

text \<open>Unless the metadata of a record carries a graph score or a time that is not a number, every pool is ranked, under either fusion.\<close>

lemma scoring_total:
  assumes "\<forall>c \<in> set cs. scorable V c"
  shows "\<exists>xs. score_candidates V query strategy cs = Some xs"
proof -
  let ?d = "dedup_candidates V cs"
  have d: "\<forall>c \<in> set ?d. scorable V c" using scorable_dedup_into [OF assms, of "[]" 0] by (auto simp: dedup_candidates_def)
  have "\<exists>ys. those (map (\<lambda>(i, c, f). if st = ''rrf'' then Some (rrf_one V query (rank_of (map ft_vec fs) i) (rank_of (map ft_lex fs) i) c f)
                       else dbsf_one V query c f) (zip [0..<length ?d] (zip ?d fs))) = Some ys" for st fs
    by (rule those_total) (use d dbsf_one_total in \<open>fastforce dest: zip3_mid\<close>)
  note scored_cand = this
  show ?thesis
  proof (cases "cs = []")
    case True
    then show ?thesis by (simp add: score_candidates_def score_pipeline_def)
  next
    case False
    let ?st = "py_strip (lower_pl (if strategy \<noteq> [] then strategy else sv_strategy V))"
    let ?docs = "tokenize_candidates V ?d"
    obtain fs where fs: "attach_scoring_features V ?d (apply_phrase_boost (py_strip (lower_pl query)) ?d
        (calculate_scores V (query_stems V query) ?docs)) ?docs = Some fs" using attach_total [OF d] by blast
    obtain ys where "those (map (\<lambda>(i, c, f). if ?st = ''rrf'' then Some (rrf_one V query (rank_of (map ft_vec fs) i) (rank_of (map ft_lex fs) i) c f)
                       else dbsf_one V query c f) (zip [0..<length ?d] (zip ?d fs))) = Some ys" using scored_cand by blast
    with fs False show ?thesis by (simp only: score_candidates_def score_pipeline_def Let_def if_False option.case option.map) blast
  qed
qed

lemma toy_scorable: "\<forall>c \<in> set toy_pool. scorable toy_score c"
  by (simp add: toy_pool_def toy_cand_def scorable_def stored_time_def or_zero_def toy_score_def toy_read_def py_or_def dget_default_def)

lemma toy_ranking: "\<exists>xs. score_candidates toy_score ''gateway port'' [] toy_pool = Some xs"
  by (rule scoring_total [OF toy_scorable])

theorem ranking_keeps_every_fact_witness:
  "\<exists>xs. score_candidates toy_score ''gateway port'' [] toy_pool = Some xs \<and> sorted (map (\<lambda>x. - sc_score x) xs)"
proof -
  obtain xs where xs: "score_candidates toy_score ''gateway port'' [] toy_pool = Some xs" using toy_ranking ..
  from ranking_keeps_every_fact [OF xs] xs show ?thesis by blast
qed

lemma toy_math: "math_ok toy_score"
  by (auto simp: math_ok_def toy_score_def)

theorem scores_are_normalized_witness:
  "\<exists>xs. score_candidates toy_score ''gateway port'' [] toy_pool = Some xs \<and> (\<forall>x \<in> set xs. sc_score x \<le> 1)"
proof -
  obtain xs where xs: "score_candidates toy_score ''gateway port'' [] toy_pool = Some xs" using toy_ranking ..
  have "\<forall>c \<in> set toy_pool. 0 \<le> cd_confidence c" by (simp add: toy_pool_def toy_cand_def)
  from scores_are_normalized [OF toy_math this xs] xs show ?thesis by blast
qed

section \<open>What the filter keeps\<close>

lemma entropy_threshold_bounds:
  "b \<le> entropy_threshold V b xs" "entropy_threshold V b xs \<le> max b (11/20 * max 0 (max_score_of xs))"
  by (auto simp: entropy_threshold_def Let_def le_max_iff_disj)

text \<open>
  The entropy filter only narrows the selection: its result is a subsequence of the ranking, nothing below the threshold of the
  gate passes, and nothing that scores at least 55 percent of the best score and the threshold is lost, unless it rests on the
  graph alone and is no standing rule.
\<close>

theorem entropy_filter_keeps_the_salient:
  "subseq (fst (entropy_filter V b xs)) xs
   \<and> (\<forall>x \<in> set (fst (entropy_filter V b xs)). b \<le> sc_score x)
   \<and> {x \<in> set xs. max b (11/20 * max 0 (max_score_of xs)) \<le> sc_score x
        \<and> (is_protected_rule x \<or> or_zero (cd_graph_score (sc_cand x)) \<le> 0 \<or> 3/25 \<le> sc_dense x \<or> 2/25 \<le> sc_sparse x)}
      \<subseteq> set (fst (entropy_filter V b xs))"
proof -
  have 1: "subseq (fst (entropy_filter V b xs)) xs" by (simp add: entropy_filter_def Let_def)
  have 2: "b \<le> sc_score x" if "x \<in> set (fst (entropy_filter V b xs))" for x
    using that order_trans [OF entropy_threshold_bounds(1)] by (auto simp: entropy_filter_def Let_def split: if_splits)
  have "x \<in> set (fst (entropy_filter V b xs))"
    if "x \<in> set xs" "max b (11/20 * max 0 (max_score_of xs)) \<le> sc_score x"
      "is_protected_rule x \<or> or_zero (cd_graph_score (sc_cand x)) \<le> 0 \<or> 3/25 \<le> sc_dense x \<or> 2/25 \<le> sc_sparse x" for x
    using that order_trans [OF entropy_threshold_bounds(2) [of V b xs] that(2)] by (auto simp: entropy_filter_def Let_def weak_graph_def)
  with 1 2 show ?thesis by blast
qed

end
