(* ===== verification/Isotonic.thy ===== *)
theory Isotonic
  imports Energy
begin

text \<open>
  The numeric part of \<open>cognitive/calibration_engine.py\<close>: isotonic regression by pooling adjacent violators, the scores by which a
  calibration is judged, the two-sample Kolmogorov-Smirnov distance and the piecewise linear curve of a calibrator.

  Arrays are lists of rational numbers, of equal length where the code combines two of them (\<open>numpy\<close> raises otherwise). The mean of
  no values is a NaN: \<open>None\<close>.
\<close>

section \<open>Pooling adjacent violators\<close>

type_synonym block = "rat \<times> rat \<times> nat"

text \<open>
  The three stacks \<open>weights\<close>, \<open>values\<close> and \<open>counts\<close> are one list of triples, the top first. The division is guarded by
  \<open>max(1e-12, w)\<close>.
\<close>

definition join_blocks :: "block \<Rightarrow> block \<Rightarrow> block" where
  "join_blocks b0 b1 =
     (case (b0, b1) of ((w0, v0, c0), (w1, v1, c1)) \<Rightarrow>
        (w0 + w1, (w0 * v0 + w1 * v1) / max (1 / 10 ^ 12) (w0 + w1), c0 + c1))"

fun pava_merge :: "block list \<Rightarrow> block list" where
  "pava_merge (b1 # b0 # st) = (if fst (snd b1) < fst (snd b0) then pava_merge (join_blocks b0 b1 # st) else b1 # b0 # st)"
| "pava_merge st = st"

definition pava_push :: "block list \<Rightarrow> rat \<times> rat \<Rightarrow> block list" where
  "pava_push st vw = pava_merge ((snd vw, fst vw, 1) # st)"

definition pava_expand :: "block list \<Rightarrow> rat list" where
  "pava_expand st = concat (map (\<lambda>(w, v, c). replicate c v) (rev st))"

definition pava :: "rat list \<Rightarrow> rat list option \<Rightarrow> rat list" where
  "pava y w = pava_expand (foldl pava_push [] (zip y (case w of None \<Rightarrow> replicate (length y) 1 | Some ws \<Rightarrow> ws)))"

section \<open>Scores of a calibration\<close>

definition mean :: "rat list \<Rightarrow> rat option" where
  "mean xs = (if xs = [] then None else Some (sum_list xs / of_nat (length xs)))"

definition brier_score :: "rat list \<Rightarrow> rat list \<Rightarrow> rat option" where
  "brier_score y_true y_prob = mean (map2 (\<lambda>t p. (p - t)\<^sup>2) y_true y_prob)"

text \<open>The pairs whose probability falls into bin \<open>i\<close> of \<open>n_bins\<close>; the last bin is closed.\<close>

definition in_bin :: "nat \<Rightarrow> nat \<Rightarrow> rat \<Rightarrow> bool" where
  "in_bin n_bins i p \<longleftrightarrow> of_nat i / of_nat n_bins \<le> p
     \<and> (if i = n_bins - 1 then p \<le> of_nat (Suc i) / of_nat n_bins else p < of_nat (Suc i) / of_nat n_bins)"

definition avg :: "rat list \<Rightarrow> rat" where
  "avg xs = sum_list xs / of_nat (length xs)"

definition expected_calibration_error :: "nat \<Rightarrow> rat list \<Rightarrow> rat list \<Rightarrow> rat" where
  "expected_calibration_error n_bins y_true y_prob =
     (let n = length y_true in
      if n = 0 then 0
      else (\<Sum>i \<leftarrow> [0..<n_bins].
              (let hit = filter (\<lambda>(t, p). in_bin n_bins i p) (zip y_true y_prob) in
               if hit = [] then 0
               else of_nat (length hit) / of_nat n * \<bar>avg (map fst hit) - avg (map snd hit)\<bar>)))"

text \<open>Conversion to \<open>int32\<close> truncates towards zero.\<close>

definition int_label :: "rat \<Rightarrow> int" where
  "int_label x = (if 0 \<le> x then \<lfloor>x\<rfloor> else \<lceil>x\<rceil>)"

definition scores_labelled :: "int \<Rightarrow> rat list \<Rightarrow> rat list \<Rightarrow> rat list" where
  "scores_labelled l y_true y_score = map snd (filter (\<lambda>(t, s). int_label t = l) (zip y_true y_score))"

definition win_count :: "rat list \<Rightarrow> rat \<Rightarrow> rat" where
  "win_count neg p = of_nat (length (filter (\<lambda>q. q < p) neg)) + 1/2 * of_nat (length (filter (\<lambda>q. q = p) neg))"

definition roc_auc_score :: "rat list \<Rightarrow> rat list \<Rightarrow> rat" where
  "roc_auc_score y_true y_score =
     (let pos = scores_labelled 1 y_true y_score; neg = scores_labelled 0 y_true y_score in
      if pos = [] \<or> neg = [] then 1
      else sum_list (map (win_count neg) pos) / of_nat (length pos * length neg))"

section \<open>Drift\<close>

text \<open>
  \<open>np.searchsorted(s, x, side="right") / len(s)\<close> on the sorted sample. \<open>scipy\<close> is tried first: its answer is the parameter
  \<open>scipy\<close>, \<open>None\<close> when it cannot be imported or raises.
\<close>

definition cdf :: "rat list \<Rightarrow> rat \<Rightarrow> rat" where
  "cdf s x = of_nat (length (filter (\<lambda>a. a \<le> x) s)) / of_nat (length s)"

definition ks_distance :: "rat list \<Rightarrow> rat list \<Rightarrow> rat" where
  "ks_distance s1 s2 = (case map (\<lambda>x. \<bar>cdf s1 x - cdf s2 x\<bar>) (sort s1 @ sort s2) of [] \<Rightarrow> 0 | d # ds \<Rightarrow> foldl max d ds)"

fun ks_series :: "(rat \<Rightarrow> rat) \<Rightarrow> rat \<Rightarrow> nat \<Rightarrow> nat \<Rightarrow> rat \<Rightarrow> rat" where
  "ks_series ex lam 0 k p_val = p_val"
| "ks_series ex lam (Suc n) k p_val =
     (let term = 2 * (- 1) ^ (k - 1) * ex (- 2 * (of_nat k * lam)\<^sup>2) in
      if \<bar>term\<bar> < 1 / 10 ^ 8 then p_val + term else ks_series ex lam n (Suc k) (p_val + term))"

definition ks_2sample :: "(rat list \<Rightarrow> rat list \<Rightarrow> (rat \<times> rat) option) \<Rightarrow> (rat \<Rightarrow> rat) \<Rightarrow> (rat \<Rightarrow> rat)
    \<Rightarrow> rat list \<Rightarrow> rat list \<Rightarrow> rat \<times> rat" where
  "ks_2sample scipy sq ex sample1 sample2 =
     (let s1 = sort sample1; s2 = sort sample2 in
      if s1 = [] \<or> s2 = [] then (0, 1)
      else case scipy s1 s2 of
             Some r \<Rightarrow> r
           | None \<Rightarrow>
               (let d_stat = ks_distance s1 s2; n1 = of_nat (length s1); n2 = of_nat (length s2);
                    en = sq ((n1 * n2) / (n1 + n2)); lam = (en + 3/25 + 11/100 / en) * d_stat
                in (d_stat, max 0 (min 1 (ks_series ex lam 100 1 0)))))"

section \<open>The calibrated curve\<close>

text \<open>\<open>bisect_right\<close> on a sorted list is the number of elements that are not greater.\<close>

definition bisect_right :: "rat list \<Rightarrow> rat \<Rightarrow> nat" where
  "bisect_right xs v = length (takeWhile (\<lambda>x. x \<le> v) xs)"

definition clip01 :: "rat \<Rightarrow> rat" where
  "clip01 x = max 0 (min 1 x)"

definition iso_point :: "rat list \<Rightarrow> rat list \<Rightarrow> rat \<Rightarrow> rat" where
  "iso_point knots_x knots_y v =
     (if knots_x = [] \<or> knots_y = [] then clip01 v
      else if v \<le> hd knots_x then clip01 (hd knots_y)
      else if last knots_x \<le> v then clip01 (last knots_y)
      else (let i = bisect_right knots_x v; x0 = knots_x ! (i - 1); x1 = knots_x ! i; y0 = knots_y ! (i - 1); y1 = knots_y ! i
            in clip01 (if x1 = x0 then y0 else y0 + (v - x0) * (y1 - y0) / (x1 - x0))))"

section \<open>Pooling is the least-squares isotonic fit\<close>

text \<open>
  A block stands for its stretch of the data when its value is the weighted mean and no non-decreasing change of the stretch
  correlates with the residuals.
\<close>

definition wdot :: "(rat \<times> rat) list \<Rightarrow> rat \<Rightarrow> rat list \<Rightarrow> rat" where
  "wdot d v z = sum_list (map2 (\<lambda>(y, w) zi. w * (y - v) * zi) d z)"

definition stands_for_block :: "block \<Rightarrow> (rat \<times> rat) list \<Rightarrow> bool" where
  "stands_for_block b d \<longleftrightarrow>
     (case b of (w, v, c) \<Rightarrow> length d = c \<and> w = sum_list (map snd d) \<and> 1 / 10 ^ 12 \<le> w \<and> (\<forall>p \<in> set d. 0 \<le> snd p)
        \<and> w * v = sum_list (map (\<lambda>(y, w). w * y) d)
        \<and> (\<forall>z. length z = length d \<longrightarrow> sorted z \<longrightarrow> wdot d v z \<le> 0))"

fun covers :: "block list \<Rightarrow> (rat \<times> rat) list \<Rightarrow> bool" where
  "covers [] d = (d = [])"
| "covers (b # st) d = (\<exists>d1 d2. d = d1 @ d2 \<and> stands_for_block b d2 \<and> covers st d1)"

definition falling :: "block list \<Rightarrow> bool" where
  "falling st \<longleftrightarrow> sorted (rev (map (fst \<circ> snd) st))"

lemma pava_merge_falling: "falling (tl st) \<Longrightarrow> falling (pava_merge st)"
proof (induction st rule: pava_merge.induct)
  case (1 b1 b0 st)
  show ?case
  proof (cases "fst (snd b1) < fst (snd b0)")
    case True
    have "falling st" using 1(2) by (simp add: falling_def sorted_append)
    with True 1(1) show ?thesis by simp
  next
    case False
    then show ?thesis using 1(2) by (auto simp: falling_def sorted_append)
  qed
qed (auto simp: falling_def)

lemma wdot_append: "length z1 = length d1 \<Longrightarrow> wdot (d1 @ d2) v (z1 @ z2) = wdot d1 v z1 + wdot d2 v z2"
  by (simp add: wdot_def)

lemma wdot_shift: "length z = length d \<Longrightarrow> wdot d v z = wdot d u z + (u - v) * sum_list (map2 (\<lambda>(y, w) zi. w * zi) d z)"
  by (induction d z rule: list_induct2') (auto simp: wdot_def algebra_simps)

lemma wsum_le: "length z = length d \<Longrightarrow> \<forall>p \<in> set d. 0 \<le> snd p \<Longrightarrow> \<forall>x \<in> set z. x \<le> m \<Longrightarrow>
    sum_list (map2 (\<lambda>(y, w) zi. w * zi) d z) \<le> sum_list (map snd d) * (m :: rat)"
  by (induction d z rule: list_induct2') (auto simp: algebra_simps intro!: add_mono mult_left_mono)

lemma wsum_ge: "length z = length d \<Longrightarrow> \<forall>p \<in> set d. 0 \<le> snd p \<Longrightarrow> \<forall>x \<in> set z. m \<le> x \<Longrightarrow>
    sum_list (map snd d) * (m :: rat) \<le> sum_list (map2 (\<lambda>(y, w) zi. w * zi) d z)"
  by (induction d z rule: list_induct2') (auto simp: algebra_simps intro!: add_mono mult_left_mono)

lemma join_stands:
  assumes "stands_for_block (w0, v0, c0) d0" "stands_for_block (w1, v1, c1) d1" "v1 < v0"
  shows "stands_for_block (join_blocks (w0, v0, c0) (w1, v1, c1)) (d0 @ d1)"
proof -
  let ?w = "w0 + w1"
  define v where "v = (w0 * v0 + w1 * v1) / ?w"
  have w: "1 / 10 ^ 12 \<le> w0" "1 / 10 ^ 12 \<le> w1" using assms(1,2) by (simp_all add: stands_for_block_def)
  have "0 < (1 :: rat) / 10 ^ 12" by simp
  with w have pos: "0 < w0" "0 < w1" by (auto intro: less_le_trans)
  have join: "join_blocks (w0, v0, c0) (w1, v1, c1) = (?w, v, c0 + c1)"
    using w pos by (auto simp: join_blocks_def v_def max_def)
  have wv: "?w * v = w0 * v0 + w1 * v1" using pos by (simp add: v_def)
  have "?w * (v0 - v) = w1 * (v0 - v1)" "?w * (v - v1) = w0 * (v0 - v1)" using wv by (simp_all add: algebra_simps)
  then have between: "0 \<le> v0 - v" "0 \<le> v - v1"
    using pos assms(3) by (metis add_pos_pos diff_gt_0_iff_gt less_eq_rat_def mult_pos_pos zero_less_mult_pos)+
  have "wdot (d0 @ d1) v z \<le> 0" if z: "length z = length (d0 @ d1)" "sorted z" for z
  proof (cases "d0 = []")
    case True
    then show ?thesis using assms(1) w(1) by (simp add: stands_for_block_def)
  next
    case False
    define z0 where "z0 = take (length d0) z"
    define z1 where "z1 = drop (length d0) z"
    have zs: "z = z0 @ z1" "length z0 = length d0" "length z1 = length d1" using z by (simp_all add: z0_def z1_def)
    define m where "m = last z0"
    have z0ne: "z0 \<noteq> []" using zs(2) False by auto
    have srt: "sorted z0" "sorted z1" "\<forall>a \<in> set z0. \<forall>b \<in> set z1. a \<le> b" using z(2) unfolding zs(1) by (auto simp: sorted_append)
    have "sorted (butlast z0 @ [m])" using srt(1) z0ne by (simp add: m_def)
    then have "\<forall>x \<in> set (butlast z0 @ [m]). x \<le> m" by (simp add: sorted_append)
    then have le: "\<forall>x \<in> set z0. x \<le> m" using z0ne by (simp add: m_def)
    have ge: "\<forall>x \<in> set z1. m \<le> x" using srt(3) z0ne by (simp add: m_def)
    have s: "w0 = sum_list (map snd d0)" "w1 = sum_list (map snd d1)" "\<forall>p \<in> set d0. 0 \<le> snd p" "\<forall>p \<in> set d1. 0 \<le> snd p"
      and o: "wdot d0 v0 z0 \<le> 0" "wdot d1 v1 z1 \<le> 0"
      using assms(1,2) srt zs(2,3) by (auto simp: stands_for_block_def)
    have "(v0 - v) * sum_list (map2 (\<lambda>(y, w) zi. w * zi) d0 z0) \<le> (v0 - v) * (w0 * m)"
      using wsum_le [OF zs(2) s(3) le] between(1) s(1) by (simp add: mult_left_mono)
    moreover have "(v1 - v) * sum_list (map2 (\<lambda>(y, w) zi. w * zi) d1 z1) \<le> (v1 - v) * (w1 * m)"
      using wsum_ge [OF zs(3) s(4) ge] between(2) s(2) by (simp add: mult_left_mono_neg)
    moreover have "(v0 - v) * (w0 * m) + (v1 - v) * (w1 * m) = 0" 
    proof -
      have "(v0 - v) * (w0 * m) + (v1 - v) * (w1 * m) = m * (w0 * v0 + w1 * v1 - ?w * v)" by (simp add: algebra_simps)
      then show ?thesis by (simp add: wv)
    qed
    ultimately show ?thesis
      unfolding zs(1) wdot_append [OF zs(2)] wdot_shift [OF zs(2), of v v0] wdot_shift [OF zs(3), of v v1] using o by linarith
  qed
  then show ?thesis
    using assms(1,2) wv unfolding join stands_for_block_def prod.case by auto
qed

lemma pava_merge_covers: "covers st d \<Longrightarrow> covers (pava_merge st) d"
proof (induction st arbitrary: d rule: pava_merge.induct)
  case (1 b1 b0 st)
  show ?case
  proof (cases "fst (snd b1) < fst (snd b0)")
    case True
    from 1(2) obtain d' d0 d1 where d: "d = (d' @ d0) @ d1" "stands_for_block b1 d1" "stands_for_block b0 d0" "covers st d'" by auto
    have "stands_for_block (join_blocks b0 b1) (d0 @ d1)"
      using join_stands d(2,3) True by (cases b0; cases b1) auto
    with d have "covers (join_blocks b0 b1 # st) d" by auto
    with True 1(1) show ?thesis by simp
  next
    case False
    then show ?thesis using 1(2) by simp
  qed
qed simp_all

lemma pava_push_covers: "1 / 10 ^ 12 \<le> w \<Longrightarrow> covers st d \<Longrightarrow> covers (pava_push st (y, w)) (d @ [(y, w)])"
proof -
  assume w: "1 / 10 ^ 12 \<le> w" and d: "covers st d"
  have "0 < (1 :: rat) / 10 ^ 12" by simp
  with w have "0 \<le> w" by linarith
  with w have "stands_for_block (w, y, 1) [(y, w)]"
    by (auto simp: stands_for_block_def wdot_def length_Suc_conv)
  with d have "covers ((w, y, 1) # st) (d @ [(y, w)])" by auto
  then show ?thesis by (simp add: pava_push_def pava_merge_covers)
qed

lemma pava_covers: "\<forall>p \<in> set d. 1 / 10 ^ 12 \<le> snd p \<Longrightarrow> covers (foldl pava_push [] d) d"
  by (induction d rule: rev_induct) (auto intro: pava_push_covers)

lemma pava_falling: "falling (foldl pava_push [] d)"
  by (induction d rule: rev_induct) (auto simp: pava_push_def falling_def [of "[]"] intro!: pava_merge_falling)

lemma pava_expand_Cons: "pava_expand ((w, v, c) # st) = pava_expand st @ replicate c v"
  by (simp add: pava_expand_def)

lemma set_pava_expand: "set (pava_expand st) \<subseteq> (fst \<circ> snd) ` set st"
  by (auto simp: pava_expand_def split: if_splits) (metis comp_apply fst_conv image_eqI snd_conv)

lemma sorted_pava_expand: "falling st \<Longrightarrow> sorted (pava_expand st)"
proof (induction st)
  case Nil
  then show ?case by (simp add: pava_expand_def)
next
  case (Cons b st)
  obtain w v c where b: "b = (w, v, c)" by (cases b)
  have f: "falling st" "\<forall>x \<in> set st. fst (snd x) \<le> v" using Cons.prems by (auto simp: falling_def sorted_append b)
  then have "\<forall>x \<in> set (pava_expand st). x \<le> v" using set_pava_expand [of st] by fastforce
  with Cons.IH [OF f(1)] show ?case by (simp add: b pava_expand_Cons sorted_append)
qed

lemma length_pava_expand: "covers st d \<Longrightarrow> length (pava_expand st) = length d"
proof (induction st arbitrary: d)
  case Nil
  then show ?case by (simp add: pava_expand_def)
next
  case (Cons b st)
  then show ?case by (cases b) (auto simp: pava_expand_Cons stands_for_block_def)
qed

text \<open>The weighted error of a curve, and the correlation of its residuals with the way to another curve.\<close>

definition weighted_error :: "rat list \<Rightarrow> rat list \<Rightarrow> rat list \<Rightarrow> rat" where
  "weighted_error y ws z = sum_list (map2 (\<lambda>(yi, w) zi. w * (yi - zi)\<^sup>2) (zip y ws) z)"

definition descent :: "(rat \<times> rat) list \<Rightarrow> rat list \<Rightarrow> rat list \<Rightarrow> rat" where
  "descent d h z = sum_list (map2 (\<lambda>(y, w) (hi, zi). w * (y - hi) * (zi - hi)) d (zip h z))"

lemma descent_block: "length z = length d \<Longrightarrow>
    descent d (replicate (length d) v) z = wdot d v z - v * (sum_list (map (\<lambda>(y, w). w * y) d) - v * sum_list (map snd d))"
  by (induction d z rule: list_induct2') (auto simp: descent_def wdot_def algebra_simps)

lemma descent_append: "length h1 = length d1 \<Longrightarrow> length z1 = length d1 \<Longrightarrow>
    descent (d1 @ d2) (h1 @ h2) (z1 @ z2) = descent d1 h1 z1 + descent d2 h2 z2"
  by (simp add: descent_def)

lemma descent_pava: "covers st d \<Longrightarrow> length z = length d \<Longrightarrow> sorted z \<Longrightarrow> descent d (pava_expand st) z \<le> 0"
proof (induction st arbitrary: d z)
  case Nil
  then show ?case by (simp add: descent_def)
next
  case (Cons b st)
  obtain w v c where b: "b = (w, v, c)" by (cases b)
  from Cons.prems(1) obtain d1 d2 where d: "d = d1 @ d2" "stands_for_block b d2" "covers st d1" by auto
  define z1 where "z1 = take (length d1) z"
  define z2 where "z2 = drop (length d1) z"
  have z: "z = z1 @ z2" "length z1 = length d1" "length z2 = length d2" using Cons.prems(2) d(1) by (simp_all add: z1_def z2_def)
  with Cons.prems(3) have srt: "sorted z1" "sorted z2" by (simp_all add: sorted_append)
  have blk: "length d2 = c" "w = sum_list (map snd d2)" "w * v = sum_list (map (\<lambda>(y, w). w * y) d2)" "wdot d2 v z2 \<le> 0"
    using d(2) srt(2) z(3) by (auto simp: b stands_for_block_def)
  have "descent d2 (replicate c v) z2 \<le> 0"
    using descent_block [OF z(3), of v] blk by (simp add: mult.commute)
  with Cons.IH [OF d(3) z(2) srt(1)] show ?case
    by (simp add: b d(1) z(1) pava_expand_Cons descent_append [OF length_pava_expand [OF d(3)] z(2)])
qed

lemma error_split: "length h = length d \<Longrightarrow> length z = length d \<Longrightarrow>
    sum_list (map2 (\<lambda>(yi, w) zi. w * (yi - zi)\<^sup>2) d z)
    = sum_list (map2 (\<lambda>(yi, w) hi. w * (yi - hi)\<^sup>2) d h) + sum_list (map2 (\<lambda>(yi, w) (hi, zi). w * (zi - hi)\<^sup>2) d (zip h z)) - 2 * descent d h z"
proof (induction d arbitrary: h z)
  case Nil
  then show ?case by (simp add: descent_def)
next
  case (Cons p d)
  obtain y w hi h' zi z' where p: "p = (y, w)" and h: "h = hi # h'" "length h' = length d" and z: "z = zi # z'" "length z' = length d"
    using Cons.prems by (cases p; cases h; cases z) auto
  have "w * (y - zi)\<^sup>2 = w * (y - hi)\<^sup>2 + w * (zi - hi)\<^sup>2 - 2 * (w * (y - hi) * (zi - hi))"
    by (simp add: power2_eq_square algebra_simps)
  with Cons.IH [OF h(2) z(2)] show ?case by (simp add: p h(1) z(1) descent_def)
qed

text \<open>
  C8: Pooling is isotonic regression: with weights of at least \<open>1e-12\<close> the result has the length of the data, does not decrease, and
  among all non-decreasing sequences it has the least weighted squared error.
\<close>

theorem pava_is_least_squares:
  assumes "length ws = length y" "\<forall>w \<in> set ws. 1 / 10 ^ 12 \<le> w"
  shows "length (pava y (Some ws)) = length y \<and> sorted (pava y (Some ws))
    \<and> (\<forall>z. length z = length y \<longrightarrow> sorted z \<longrightarrow> weighted_error y ws (pava y (Some ws)) \<le> weighted_error y ws z)"
proof -
  let ?d = "zip y ws" and ?st = "foldl pava_push [] (zip y ws)"
  have pava: "pava y (Some ws) = pava_expand ?st" by (simp add: pava_def)
  have w: "\<forall>p \<in> set ?d. 1 / 10 ^ 12 \<le> snd p" using assms(2) by (auto dest: set_zip_rightD)
  note cov = pava_covers [OF w]
  have len: "length (pava_expand ?st) = length ?d" by (rule length_pava_expand [OF cov])
  have "weighted_error y ws (pava_expand ?st) \<le> weighted_error y ws z" if z: "length z = length y" "sorted z" for z
  proof -
    have zl: "length z = length ?d" using z(1) assms(1) by simp
    have "0 < (1 :: rat) / 10 ^ 12" by simp
    with w have pos: "\<forall>p \<in> set ?d. 0 \<le> snd p" by (auto intro: order_trans [OF less_imp_le])
    have "0 \<le> sum_list (map2 (\<lambda>(yi, w) (hi, zi). w * (zi - hi)\<^sup>2) ?d (zip (pava_expand ?st) z))"
      using pos by (intro sum_list_nonneg) (fastforce dest: set_zip_leftD)
    with descent_pava [OF cov zl z(2)] show ?thesis
      unfolding weighted_error_def error_split [OF len zl] by simp
  qed
  with len assms(1) show ?thesis by (simp add: pava sorted_pava_expand [OF pava_falling])
qed

theorem pava_is_least_squares_witness:
  "sorted (pava [1/10, 9/10, 3/10, 8/10] (Some [1, 2, 1, 1]))
   \<and> weighted_error [1/10, 9/10, 3/10, 8/10] [1, 2, 1, 1] (pava [1/10, 9/10, 3/10, 8/10] (Some [1, 2, 1, 1]))
       \<le> weighted_error [1/10, 9/10, 3/10, 8/10] [1, 2, 1, 1] [1/10, 7/10, 7/10, 7/10]"
  using pava_is_least_squares [of "[1, 2, 1, 1]" "[1/10, 9/10, 3/10, 8/10]"] by simp

text \<open>
  Below that weight the guard of the division breaks the fit: two violators of weight \<open>1e-13\<close> are pooled at a tenth of their
  mean, and the error is larger than that of a constant.
\<close>

theorem tiny_weights_break_the_pooling:
  "pava [1, 0] (Some [1 / 10 ^ 13, 1 / 10 ^ 13]) = [1/10, 1/10]
   \<and> weighted_error [1, 0] [1 / 10 ^ 13, 1 / 10 ^ 13] [1/2, 1/2]
       < weighted_error [1, 0] [1 / 10 ^ 13, 1 / 10 ^ 13] (pava [1, 0] (Some [1 / 10 ^ 13, 1 / 10 ^ 13]))"
  by code_simp

section \<open>Ranking quality\<close>

lemma win_count_Nil [simp]: "win_count [] p = 0"
  by (simp add: win_count_def)

lemma win_count_Cons [simp]: "win_count (q # neg) p = (if q < p then 1 else if q = p then 1/2 else 0) + win_count neg p"
  by (simp add: win_count_def add_divide_distrib)

lemma win_count_nonneg: "0 \<le> win_count neg p"
  by (simp add: win_count_def)

lemma win_count_mono: "strict_mono f \<Longrightarrow> win_count (map f neg) (f p) = win_count neg p"
  by (induction neg) (simp_all add: strict_mono_less strict_mono_eq)

lemma labelled_map: "scores_labelled l y (map f s) = map f (scores_labelled l y s)"
  by (induction y s rule: list_induct2') (auto simp: scores_labelled_def)

lemma auc_mono: "strict_mono f \<Longrightarrow> roc_auc_score y (map f s) = roc_auc_score y s"
  by (simp add: roc_auc_score_def Let_def labelled_map comp_def win_count_mono)

lemma wins_split: "sum_list (map (win_count neg) pos) + sum_list (map (win_count pos) neg) = of_nat (length pos * length neg)"
proof (induction pos)
  case Nil
  then show ?case by (induction neg) auto
next
  case (Cons p pos)
  have "win_count neg p + sum_list (map (win_count [p]) neg) = of_nat (length neg)"
    by (induction neg) auto
  moreover have "sum_list (map (win_count (p # pos)) neg) = sum_list (map (win_count [p]) neg) + sum_list (map (win_count pos) neg)"
    by (induction neg) auto
  ultimately show ?case using Cons by (simp add: algebra_simps del: win_count_Cons)
qed

lemma labelled_negate: "scores_labelled l (map (\<lambda>t. 1 - t) y) s = scores_labelled (1 - l) y s" if "\<forall>t \<in> set y. t = 0 \<or> t = 1"
  using that by (induction y s rule: list_induct2') (auto simp: scores_labelled_def int_label_def)

text \<open>
  The ROC score ranks: it lies between 0 and 1, depends on the order of the scores only, and with labels 0 and 1 that both
  occur, exchanging the labels complements it.
\<close>

theorem roc_auc_is_a_rank_statistic:
  assumes "strict_mono f" "\<forall>t \<in> set y. t = 0 \<or> t = 1" "scores_labelled 0 y s \<noteq> []" "scores_labelled 1 y s \<noteq> []"
  shows "0 \<le> roc_auc_score y s \<and> roc_auc_score y s \<le> 1 \<and> roc_auc_score y (map f s) = roc_auc_score y s
    \<and> roc_auc_score (map (\<lambda>t. 1 - t) y) s = 1 - roc_auc_score y s"
proof -
  let ?p = "scores_labelled 1 y s" and ?n = "scores_labelled 0 y s"
  define a where "a = sum_list (map (win_count ?n) ?p)"
  define b where "b = sum_list (map (win_count ?p) ?n)"
  define m where "m = (of_nat (length ?p * length ?n) :: rat)"
  have m: "0 < m" using assms(3,4) by (simp add: m_def)
  have ab: "a + b = m" unfolding a_def b_def m_def by (rule wins_split)
  have nn: "0 \<le> a" "0 \<le> b" by (auto simp: a_def b_def win_count_nonneg intro!: sum_list_nonneg)
  have auc: "roc_auc_score y s = a / m" using assms(3,4) by (simp add: roc_auc_score_def a_def m_def Let_def)
  have "roc_auc_score (map (\<lambda>t. 1 - t) y) s = b / m"
    using assms(3,4) labelled_negate [OF assms(2), of 1 s] labelled_negate [OF assms(2), of 0 s]
    by (simp add: roc_auc_score_def b_def m_def mult.commute Let_def)
  moreover have "b / m = 1 - a / m" "0 \<le> a / m" "0 \<le> b / m" using ab m nn by (simp_all add: field_simps)
  ultimately show ?thesis using auc auc_mono [OF assms(1)] by simp
qed

theorem roc_auc_is_a_rank_statistic_witness:
  "roc_auc_score [1, 0, 1, 0] (map (\<lambda>x. 2 * x) [9/10, 2/10, 4/10, 5/10]) = roc_auc_score [1, 0, 1, 0] [9/10, 2/10, 4/10, 5/10]"
  using roc_auc_is_a_rank_statistic [of "\<lambda>x. 2 * x" "[1, 0, 1, 0]" "[9/10, 2/10, 4/10, 5/10]"]
  by (simp add: strict_mono_def scores_labelled_def int_label_def)

text \<open>
  The calibration error does not see what no bin holds: two predictions of 1.05 for events that did not happen count as
  perfectly calibrated, although the grid of thresholds expects scores up to 1.1.
\<close>

theorem calibration_error_ignores_scores_above_one:
  "expected_calibration_error 10 [0, 0] [21/20, 21/20] = 0 \<and> brier_score [0, 0] [21/20, 21/20] = Some (441/400)"
  by code_simp

section \<open>The drift statistic\<close>

lemma cdf_mono: "x \<le> y \<Longrightarrow> cdf s x \<le> cdf s y"
proof -
  assume xy: "x \<le> y"
  have "length (filter (\<lambda>a. a \<le> x) s) \<le> length (filter (\<lambda>a. a \<le> y) s)"
    using xy by (induction s) auto
  then show ?thesis by (simp add: cdf_def divide_right_mono)
qed

lemma cdf_unit: "0 \<le> cdf s x \<and> cdf s x \<le> 1"
  by (auto simp: cdf_def divide_le_eq)

lemma filter_le_last: "\<forall>a \<in> set s. a \<le> (x :: rat) \<longrightarrow> a \<le> m \<Longrightarrow> m \<le> x \<Longrightarrow> filter (\<lambda>a. a \<le> x) s = filter (\<lambda>a. a \<le> m) s"
  by (rule filter_cong) (auto intro: order_trans)

lemma foldl_max_eq: "foldl max d ds = Max (set (d # ds))" for d :: rat
  by (simp only: list.set Max.set_eq_fold foldl_conv_fold) (simp add: Max.set_eq_fold [symmetric] max.commute)

lemma ks_distance_Max: "s1 \<noteq> [] \<Longrightarrow> ks_distance s1 s2 = Max ((\<lambda>x. \<bar>cdf s1 x - cdf s2 x\<bar>) ` set (s1 @ s2))"
proof -
  assume "s1 \<noteq> []"
  then have "map (\<lambda>x. \<bar>cdf s1 x - cdf s2 x\<bar>) (sort s1 @ sort s2) \<noteq> []" by (simp flip: set_empty)
  then obtain d ds where d: "map (\<lambda>x. \<bar>cdf s1 x - cdf s2 x\<bar>) (sort s1 @ sort s2) = d # ds"
    by (meson list.exhaust)
  then have "set (d # ds) = (\<lambda>x. \<bar>cdf s1 x - cdf s2 x\<bar>) ` set (s1 @ s2)" unfolding d [symmetric] by (simp add: image_Un)
  then show ?thesis using d by (simp add: ks_distance_def foldl_max_eq)
qed

text \<open>
  Without \<open>scipy\<close> the drift statistic is the Kolmogorov-Smirnov distance of the samples: the largest difference of their
  distribution functions over all scores, not only over those of the samples; it is attained.
\<close>

theorem drift_statistic_is_the_supremum:
  assumes "s1 \<noteq> []" "s2 \<noteq> []"
  shows "(\<forall>x. \<bar>cdf s1 x - cdf s2 x\<bar> \<le> fst (ks_2sample (\<lambda>_ _. None) sq ex s1 s2))
    \<and> (\<exists>x \<in> set (s1 @ s2). fst (ks_2sample (\<lambda>_ _. None) sq ex s1 s2) = \<bar>cdf s1 x - cdf s2 x\<bar>)"
proof -
  let ?f = "\<lambda>x. \<bar>cdf s1 x - cdf s2 x\<bar>"
  have sort: "cdf (sort s) = cdf s" for s :: "rat list"
    by (rule ext) (simp add: cdf_def filter_sort)
  have "fst (ks_2sample (\<lambda>_ _. None) sq ex s1 s2) = ks_distance (sort s1) (sort s2)"
    using assms by (simp add: ks_2sample_def Let_def flip: set_empty)
  also have "\<dots> = Max (?f ` set (s1 @ s2))"
    using assms ks_distance_Max [of "sort s1" "sort s2"] by (simp add: sort flip: set_empty)
  finally have ks: "fst (ks_2sample (\<lambda>_ _. None) sq ex s1 s2) = Max (?f ` set (s1 @ s2))" .
  have fin: "finite (?f ` set (s1 @ s2))" "?f ` set (s1 @ s2) \<noteq> {}" using assms by auto
  have "?f x \<le> Max (?f ` set (s1 @ s2))" for x
  proof (cases "\<exists>a \<in> set (s1 @ s2). a \<le> x")
    case True
    define m where "m = Max {a \<in> set (s1 @ s2). a \<le> x}"
    have m: "m \<in> {a \<in> set (s1 @ s2). a \<le> x}" unfolding m_def using True by (intro Max_in) auto
    have "a \<le> m" if "a \<in> set (s1 @ s2)" "a \<le> x" for a unfolding m_def using that by (intro Max_ge) auto
    then have "?f x = ?f m" using m by (simp add: cdf_def filter_le_last [of _ x m])
    moreover have "?f m \<le> Max (?f ` set (s1 @ s2))" using m fin(1) by (intro Max_ge) auto
    ultimately show ?thesis by simp
  next
    case False
    then have "?f x = 0" by (auto simp: cdf_def filter_empty_conv)
    moreover obtain a where a: "a \<in> set s1" using assms(1) by (meson last_in_set)
    then have "?f a \<le> Max (?f ` set (s1 @ s2))" using fin(1) by (intro Max_ge) auto
    ultimately show ?thesis by (metis abs_ge_zero order_trans)
  qed
  moreover have "\<exists>x \<in> set (s1 @ s2). Max (?f ` set (s1 @ s2)) = ?f x" using Max_in [OF fin] by blast
  ultimately show ?thesis unfolding ks by blast
qed

theorem drift_statistic_is_the_supremum_witness:
  "\<bar>cdf [1/10, 1/2] (1/4) - cdf [3/10, 9/10] (1/4)\<bar> \<le> fst (ks_2sample (\<lambda>_ _. None) id id [1/10, 1/2] [3/10, 9/10])"
  using drift_statistic_is_the_supremum [of "[1/10, 1/2]" "[3/10, 9/10]" id id] by simp

section \<open>The curve is monotone\<close>

lemma bisect_right_bounds:
  assumes "sorted xs" "hd xs < v" "v < last xs" "xs \<noteq> []"
  shows "0 < bisect_right xs v" "bisect_right xs v < length xs" "xs ! (bisect_right xs v - 1) \<le> v" "v < xs ! bisect_right xs v"
proof -
  let ?i = "bisect_right xs v"
  show pos: "0 < ?i" using assms(2,4) by (cases xs) (auto simp: bisect_right_def)
  show lt: "?i < length xs"
  proof (rule ccontr)
    assume "\<not> ?i < length xs"
    then have "takeWhile (\<lambda>x. x \<le> v) xs = xs" by (metis bisect_right_def length_takeWhile_le linorder_not_less order_antisym takeWhile_eq_take take_all)
    then have "\<forall>x \<in> set xs. x \<le> v" by (simp add: takeWhile_eq_all_conv)
    then show False using assms(3,4) by (metis last_in_set linorder_not_less)
  qed
  have "takeWhile (\<lambda>x. x \<le> v) xs ! (?i - 1) = xs ! (?i - 1)" using pos by (simp add: bisect_right_def takeWhile_nth)
  moreover have "takeWhile (\<lambda>x. x \<le> v) xs ! (?i - 1) \<in> set (takeWhile (\<lambda>x. x \<le> v) xs)" using pos by (simp add: bisect_right_def)
  ultimately show "xs ! (?i - 1) \<le> v" by (auto dest: set_takeWhileD)
  show "v < xs ! ?i" using nth_length_takeWhile [of "\<lambda>x. x \<le> v" xs] lt by (simp add: bisect_right_def)
qed

lemma clip01_mono: "x \<le> y \<Longrightarrow> clip01 x \<le> clip01 y"
  by (auto simp: clip01_def)

text \<open>The curve before clipping.\<close>

definition iso_raw :: "rat list \<Rightarrow> rat list \<Rightarrow> rat \<Rightarrow> rat" where
  "iso_raw xs ys v =
     (if v \<le> hd xs then hd ys else if last xs \<le> v then last ys
      else (let i = bisect_right xs v in ys ! (i - 1) + (v - xs ! (i - 1)) * (ys ! i - ys ! (i - 1)) / (xs ! i - xs ! (i - 1))))"

lemma iso_point_raw: "sorted xs \<Longrightarrow> xs \<noteq> [] \<Longrightarrow> ys \<noteq> [] \<Longrightarrow> iso_point xs ys v = clip01 (iso_raw xs ys v)"
  using bisect_right_bounds [of xs v] by (auto simp: iso_point_def iso_raw_def Let_def not_le)

lemma segment_bounds:
  assumes "x0 \<le> v" "v < x1" "y0 \<le> (y1 :: rat)"
  shows "y0 \<le> y0 + (v - x0) * (y1 - y0) / (x1 - x0)" "y0 + (v - x0) * (y1 - y0) / (x1 - x0) \<le> y1"
proof -
  have d: "0 < x1 - x0" "0 \<le> v - x0" "v - x0 \<le> x1 - x0" using assms(1,2) by simp_all
  then have "(v - x0) * (y1 - y0) \<le> (x1 - x0) * (y1 - y0)" using assms(3) by (intro mult_right_mono) simp_all
  then have "(v - x0) * (y1 - y0) / (x1 - x0) \<le> y1 - y0" using d(1) by (simp add: divide_le_eq mult.commute)
  then show "y0 + (v - x0) * (y1 - y0) / (x1 - x0) \<le> y1" by simp
  show "y0 \<le> y0 + (v - x0) * (y1 - y0) / (x1 - x0)" using d(1,2) assms(3) by simp
qed

lemma iso_raw_mono:
  assumes "sorted xs" "sorted ys" "length xs = length ys" "xs \<noteq> []" "u \<le> v"
  shows "iso_raw xs ys u \<le> iso_raw xs ys v"
proof -
  have ysne: "ys \<noteq> []" using assms(3,4) by auto
  have nth: "ys ! i \<le> ys ! j" if "i \<le> j" "j < length ys" for i j using assms(2) that by (rule sorted_nth_mono)
  have hl: "hd ys \<le> last ys" using nth [of 0 "length ys - 1"] ysne by (simp add: hd_conv_nth last_conv_nth)
  have seg: "ys ! (bisect_right xs w - 1) \<le> iso_raw xs ys w" "iso_raw xs ys w \<le> ys ! bisect_right xs w"
    "hd ys \<le> iso_raw xs ys w" "iso_raw xs ys w \<le> last ys"
    if w: "hd xs < w" "w < last xs" for w
  proof -
    note b = bisect_right_bounds [OF assms(1) w assms(4)]
    let ?i = "bisect_right xs w"
    have y: "ys ! (?i - 1) \<le> ys ! ?i" using nth [of "?i - 1" ?i] b(2) assms(3) by simp
    have raw: "iso_raw xs ys w = ys ! (?i - 1) + (w - xs ! (?i - 1)) * (ys ! ?i - ys ! (?i - 1)) / (xs ! ?i - xs ! (?i - 1))"
      using w by (simp add: iso_raw_def Let_def not_le [symmetric])
    note s = segment_bounds [OF b(3,4) y]
    show lo: "ys ! (?i - 1) \<le> iso_raw xs ys w" and hi: "iso_raw xs ys w \<le> ys ! ?i" using s raw by simp_all
    have "hd ys \<le> ys ! (?i - 1)" "ys ! ?i \<le> last ys"
      using nth [of 0 "?i - 1"] nth [of ?i "length ys - 1"] b(2) assms(3) ysne by (simp_all add: hd_conv_nth last_conv_nth)
    with lo hi show "hd ys \<le> iso_raw xs ys w" "iso_raw xs ys w \<le> last ys" by linarith+
  qed
  consider (low) "u \<le> hd xs" | (high) "last xs \<le> v" | (mid) "hd xs < u" "v < last xs" by linarith
  then show ?thesis
  proof cases
    case low
    then have "iso_raw xs ys u = hd ys" by (simp add: iso_raw_def)
    moreover have "hd ys \<le> iso_raw xs ys v"
      using hl seg(3) [of v] by (cases "hd xs < v \<and> v < last xs") (auto simp: iso_raw_def)
    ultimately show ?thesis by simp
  next
    case high
    have "iso_raw xs ys v = (if v \<le> hd xs then hd ys else last ys)" using high by (simp add: iso_raw_def)
    moreover have "iso_raw xs ys u \<le> last ys"
      using hl seg(4) [of u] by (cases "hd xs < u \<and> u < last xs") (auto simp: iso_raw_def)
    moreover have "iso_raw xs ys u = hd ys" if "v \<le> hd xs" using that assms(5) by (simp add: iso_raw_def)
    ultimately show ?thesis by auto
  next
    case mid
    then have u: "hd xs < u" "u < last xs" and v: "hd xs < v" "v < last xs" using assms(5) by auto
    note bu = bisect_right_bounds [OF assms(1) u assms(4)] and bv = bisect_right_bounds [OF assms(1) v assms(4)]
    let ?i = "bisect_right xs u" and ?j = "bisect_right xs v"
    have ij: "?i \<le> ?j"
    proof (rule ccontr)
      assume "\<not> ?i \<le> ?j"
      then have "xs ! ?j \<le> xs ! (?i - 1)" using assms(1) bu(2) by (intro sorted_nth_mono) auto
      with bu(3) bv(4) assms(5) show False by linarith
    qed
    show ?thesis
    proof (cases "?i = ?j")
      case True
      have y: "0 \<le> ys ! ?j - ys ! (?j - 1)" using nth [of "?j - 1" ?j] bv(2) assms(3) by simp
      have "0 < xs ! ?j - xs ! (?j - 1)" using bv(3,4) by linarith
      with y assms(5) show ?thesis
        using u v by (simp add: iso_raw_def Let_def True not_le [symmetric] divide_right_mono mult_right_mono)
    next
      case False
      with ij have "ys ! ?i \<le> ys ! (?j - 1)" using nth [of ?i "?j - 1"] bv(2) assms(3) by simp
      with seg(2) [OF u] seg(1) [OF v] show ?thesis by linarith
    qed
  qed
qed

lemma iso_point_mono:
  assumes "sorted xs" "sorted ys" "length xs = length ys" "u \<le> v"
  shows "iso_point xs ys u \<le> iso_point xs ys v"
proof (cases "xs = []")
  case True
  then show ?thesis using assms(4) by (simp add: iso_point_def clip01_mono)
next
  case False
  with assms have "ys \<noteq> []" by auto
  with False assms show ?thesis by (simp add: iso_point_raw clip01_mono iso_raw_mono)
qed

lemma iso_point_unit: "0 \<le> iso_point xs ys v \<and> iso_point xs ys v \<le> 1"
  by (simp add: iso_point_def clip01_def Let_def)

end
