(* ===== verification/Calibration.thy ===== *)
theory Calibration
  imports Isotonic
begin

text \<open>
  The calibrator and its manager (\<open>IsotonicCalibrator\<close>, \<open>CalibrationEngine\<close> of \<open>cognitive/calibration_engine.py\<close>): fitting a curve
  and an acceptance threshold, the rule for publishing a threshold per query type, loading an artifact, and the decision to replace
  a calibrator when the scores drift.

  Parameters (\<open>cal_env\<close>): \<open>np.quantile\<close>, \<open>np.percentile\<close> and \<open>np.interp\<close>, the index draws of the seeded random generator, \<open>scipy\<close>,
  \<open>math.exp\<close>, \<open>math.sqrt\<close> and the clock. The digest of the artifact and its file are left out.
\<close>

record cal_env =
  cl_quantile :: "rat list \<Rightarrow> rat list \<Rightarrow> rat list"
  cl_percentile :: "rat list \<Rightarrow> rat \<Rightarrow> rat"
  cl_interp :: "rat list \<Rightarrow> rat list \<Rightarrow> rat \<Rightarrow> rat"
  cl_draws :: "nat \<Rightarrow> nat list list"
  cl_scipy :: "rat list \<Rightarrow> rat list \<Rightarrow> (rat \<times> rat) option"
  cl_exp :: "rat \<Rightarrow> rat"
  cl_sqrt :: "rat \<Rightarrow> rat"
  cl_time :: rat

section \<open>State\<close>

record type_cfg =
  tc_knots_x :: "rat list"
  tc_knots_y :: "rat list"
  tc_threshold :: "rat option"
  tc_candidate_threshold :: "rat option"
  tc_margin :: "rat option"
  tc_candidate_margin :: "rat option"
  tc_threshold_reason :: "string option"
  tc_margin_reason :: "string option"
  tc_published :: bool
  tc_rejection :: "string option"
  tc_metrics :: "(string, rat option) dict"
  tc_negatives :: nat
  tc_positives :: nat
  tc_reference :: "rat list"

text \<open>The multivariate prior: its numbers by name, and the list of weights when it has one.\<close>

record prior =
  pr_nums :: "(string, rat) dict"
  pr_weights :: "rat list option"

record calibrator =
  ic_knots_x :: "rat list"
  ic_knots_y :: "rat list"
  ic_reference :: "rat list"
  ic_threshold :: "rat option"
  ic_margin :: "rat option"
  ic_threshold_reason :: "string option"
  ic_margin_reason :: "string option"
  ic_min_precision :: rat
  ic_cost_fp :: rat
  ic_cost_fn :: rat
  ic_version :: string
  ic_metrics :: "(string, rat option) dict"
  ic_by_type :: "(string, type_cfg) dict"
  ic_prior :: prior

definition learned :: "rat option \<Rightarrow> string option" where
  "learned x = Some (if x \<noteq> None then ''learned'' else ''no_candidate_fallback'')"

text \<open>\<open>IsotonicCalibrator(min_precision_target=...)\<close>, with the reasons of \<open>__post_init__\<close>.\<close>

definition new_calibrator :: "rat \<Rightarrow> calibrator" where
  "new_calibrator target =
     \<lparr>ic_knots_x = [], ic_knots_y = [], ic_reference = [], ic_threshold = None, ic_margin = None,
      ic_threshold_reason = learned None, ic_margin_reason = learned None, ic_min_precision = target, ic_cost_fp = 1, ic_cost_fn = 1,
      ic_version = ''pava'', ic_metrics = [], ic_by_type = [], ic_prior = \<lparr>pr_nums = [], pr_weights = None\<rparr>\<rparr>"

section \<open>Fitting\<close>

definition linspace01 :: "nat \<Rightarrow> rat list" where
  "linspace01 n = map (\<lambda>i. of_nat i / of_nat (n - 1)) [0..<n]"

text \<open>\<open>np.unique\<close>\<close>

definition unique :: "rat list \<Rightarrow> rat list" where
  "unique xs = sort (remdups xs)"

definition in_edge_bin :: "rat list \<Rightarrow> nat \<Rightarrow> rat \<Rightarrow> bool" where
  "in_edge_bin edges i s \<longleftrightarrow> edges ! i \<le> s \<and> (if i = length edges - 2 then s \<le> edges ! Suc i else s < edges ! Suc i)"

text \<open>The knot of a bin of triples (score, label, weight): its mean score, mean label and weight.\<close>

definition bin_knot :: "bool \<Rightarrow> (rat \<times> rat \<times> rat) list \<Rightarrow> rat \<times> rat \<times> rat" where
  "bin_knot weighted rows =
     (let w = sum_list (map (snd \<circ> snd) rows) in
      (avg (map fst rows),
       if weighted \<and> 0 < w then (sum_list (map (\<lambda>(s, l, w). l * w) rows) / w, w)
       else (avg (map (fst \<circ> snd) rows), of_nat (length rows))))"

definition fit_knots :: "bool \<Rightarrow> rat list \<Rightarrow> (rat \<times> rat \<times> rat) list \<Rightarrow> (rat \<times> rat \<times> rat) list" where
  "fit_knots weighted edges rows =
     map (bin_knot weighted)
       (filter (\<lambda>b. b \<noteq> []) (map (\<lambda>i. filter (\<lambda>r. in_edge_bin edges i (fst r)) rows) [0..<length edges - 1]))"

text \<open>True positives, false positives and false negatives of accepting from \<open>t\<close> on.\<close>

definition confusion :: "rat \<Rightarrow> (rat \<times> rat) list \<Rightarrow> nat \<times> nat \<times> nat" where
  "confusion t rows =
     (length (filter (\<lambda>(s, l). t \<le> s \<and> 1/2 \<le> l) rows), length (filter (\<lambda>(s, l). t \<le> s \<and> l < 1/2) rows),
      length (filter (\<lambda>(s, l). s < t \<and> 1/2 \<le> l) rows))"

definition precision_of :: "nat \<times> nat \<times> nat \<Rightarrow> rat" where
  "precision_of c = (case c of (tp, fp, fn) \<Rightarrow> if 0 < tp + fp then of_nat tp / of_nat (max 1 (tp + fp)) else 0)"

definition recall_of :: "nat \<times> nat \<times> nat \<Rightarrow> rat" where
  "recall_of c = (case c of (tp, fp, fn) \<Rightarrow> of_nat tp / of_nat (max 1 (tp + fn)))"

definition admissible :: "rat \<Rightarrow> nat \<times> nat \<times> nat \<Rightarrow> bool" where
  "admissible target c \<longleftrightarrow> 0 < fst c \<and> target < precision_of c"

definition decision_cost :: "calibrator \<Rightarrow> nat \<times> nat \<times> nat \<Rightarrow> rat" where
  "decision_cost cal c = (case c of (tp, fp, fn) \<Rightarrow> of_nat fp * ic_cost_fp cal + of_nat fn * ic_cost_fn cal)"

text \<open>The grid 0.05, 0.06, ..., 1.10.\<close>

definition threshold_grid :: "rat list" where
  "threshold_grid = map (\<lambda>i. 1/20 + of_nat i / 100) [0..<106]"

text \<open>The state of the loop: the best threshold with its cost and recall, \<open>None\<close> for the infinite initial cost.\<close>

definition threshold_step :: "calibrator \<Rightarrow> (rat \<times> rat) list \<Rightarrow> (rat \<times> rat \<times> rat) option \<Rightarrow> rat \<Rightarrow> (rat \<times> rat \<times> rat) option" where
  "threshold_step cal rows best t =
     (let c = confusion t rows; cost = decision_cost cal c; rec = recall_of c in
      if admissible (ic_min_precision cal) c
         \<and> (case best of None \<Rightarrow> True | Some (_, min_cost, best_recall) \<Rightarrow> cost < min_cost \<or> (cost = min_cost \<and> best_recall < rec))
      then Some (t, cost, rec) else best)"

definition select_threshold :: "calibrator \<Rightarrow> (rat \<times> rat) list \<Rightarrow> rat option" where
  "select_threshold cal rows = map_option fst (foldl (threshold_step cal rows) None threshold_grid)"

definition f1_of :: "nat \<times> nat \<times> nat \<Rightarrow> rat" where
  "f1_of c = 2 * precision_of c * recall_of c / max (1 / 10 ^ 6) (precision_of c + recall_of c)"

definition margin_step :: "calibrator \<Rightarrow> (rat \<times> rat) list \<Rightarrow> rat option \<times> rat \<Rightarrow> rat \<Rightarrow> rat option \<times> rat" where
  "margin_step cal rows best m =
     (let c = confusion m rows in
      if admissible (ic_min_precision cal) c \<and> snd best < f1_of c then (Some (py_round 4 m), f1_of c) else best)"

definition select_margin :: "calibrator \<Rightarrow> (rat \<times> rat) list \<Rightarrow> rat option" where
  "select_margin cal rows = fst (foldl (margin_step cal rows) (None, 0) (map (\<lambda>i. of_nat (Suc i) / 100) [0..<24]))"

definition predict_array :: "cal_env \<Rightarrow> rat list \<Rightarrow> rat list \<Rightarrow> rat list \<Rightarrow> rat list" where
  "predict_array E knots_x knots_y scores =
     map (\<lambda>s. if knots_x = [] \<or> knots_y = [] then clip01 s else clip01 (cl_interp E knots_x knots_y s)) scores"

definition fit_metrics :: "cal_env \<Rightarrow> rat list \<Rightarrow> rat list \<Rightarrow> calibrator \<Rightarrow> (string, rat option) dict" where
  "fit_metrics E scores labels cal =
     (let p_train = predict_array E (ic_knots_x cal) (ic_knots_y cal) scores;
          labels_eval = map (\<lambda>l. if 1/2 \<le> l then 1 else 0) labels; r4 = map_option (py_round 4)
      in [(''n_train'', Some (of_nat (length scores))),
          (''brier_raw'', r4 (brier_score labels_eval scores)), (''brier_calibrated'', r4 (brier_score labels_eval p_train)),
          (''ece_raw'', r4 (Some (expected_calibration_error 10 labels_eval scores))),
          (''ece_calibrated'', r4 (Some (expected_calibration_error 10 labels_eval p_train))),
          (''auc_raw'', r4 (Some (roc_auc_score labels_eval scores))), (''auc_calibrated'', r4 (Some (roc_auc_score labels_eval p_train))),
          (''optimal_threshold'', ic_threshold cal), (''optimal_margin'', ic_margin cal)])"

definition fit :: "cal_env \<Rightarrow> nat \<Rightarrow> rat list \<Rightarrow> rat list \<Rightarrow> rat list option \<Rightarrow> rat list option \<Rightarrow> calibrator \<Rightarrow> calibrator" where
  "fit E n_bins scores labels margins weights cal =
     (let margins_arr = (case margins of None \<Rightarrow> map (\<lambda>_. 0) scores | Some m \<Rightarrow> m);
          w = (case weights of None \<Rightarrow> map (\<lambda>_. 0) scores | Some w \<Rightarrow> w);
          edges = unique (cl_quantile E scores (linspace01 (n_bins + 1)));
          knots = fit_knots (weights \<noteq> None) edges (zip scores (zip labels w));
          t = select_threshold cal (zip scores labels); m = select_margin cal (zip margins_arr labels);
          cal' = cal\<lparr>ic_knots_x := map (py_round 4 \<circ> fst) knots,
             ic_knots_y := map (py_round 4) (pava (map (fst \<circ> snd) knots) (Some (map (snd \<circ> snd) knots))),
             ic_threshold := t, ic_threshold_reason := learned t, ic_margin := m, ic_margin_reason := learned m,
             ic_version := ''pava_'' @ int_str \<lfloor>cl_time E\<rfloor>,
             ic_reference := map (py_round 4) (cl_quantile E scores (linspace01 50))\<rparr>
      in cal'\<lparr>ic_metrics := fit_metrics E scores labels cal'\<rparr>)"

section \<open>Fitting per query type\<close>

definition bootstrap_auc_ci :: "cal_env \<Rightarrow> rat list \<Rightarrow> rat list \<Rightarrow> rat \<times> rat" where
  "bootstrap_auc_ci E y_true y_score =
     (let yt = map int_label y_true; both = (\<lambda>ys. 2 \<le> card (set ys)) in
      if yt = [] \<or> \<not> both yt then (1/2, 1/2)
      else
        (let aucs = map (\<lambda>idx. roc_auc_score (map (\<lambda>i. of_int (yt ! i)) idx) (map (\<lambda>i. y_score ! i) idx))
                      (filter (\<lambda>idx. both (map (\<lambda>i. yt ! i) idx)) (cl_draws E (length yt)))
         in if aucs = [] then (1/2, 1/2) else (cl_percentile E aucs (5/2), cl_percentile E aucs (195/2))))"

record type_data =
  td_scores :: "rat list"
  td_labels :: "rat list"
  td_margins :: "rat list option"
  td_weight :: "rat list option"

definition rejection_reason :: "bool \<Rightarrow> nat \<Rightarrow> rat \<times> rat \<Rightarrow> string option" where
  "rejection_reason has_learned neg_count ci =
     (if \<not> has_learned then Some ''no_candidate_fallback''
      else if neg_count < 30 then Some ''insufficient_negatives''
      else if fst ci \<le> 1/2 then Some (if 1/2 \<le> snd ci then ''auc_ci_includes_0.5'' else ''auc_sub_random_below_0.5'')
      else None)"

definition type_fit :: "cal_env \<Rightarrow> nat \<Rightarrow> rat \<Rightarrow> type_data \<Rightarrow> calibrator" where
  "type_fit E n_bins target td =
     fit E n_bins (td_scores td) (td_labels td)
       (Some (case td_margins td of None \<Rightarrow> map (\<lambda>_. 0) (td_scores td) | Some m \<Rightarrow> m)) (td_weight td) (new_calibrator target)"

definition eval_data :: "(string, type_data) dict option \<Rightarrow> string \<Rightarrow> type_data \<Rightarrow> rat list \<times> rat list" where
  "eval_data test q_type td =
     (case test of None \<Rightarrow> (td_scores td, td_labels td)
      | Some d \<Rightarrow> (case dget d q_type of None \<Rightarrow> (td_scores td, td_labels td) | Some te \<Rightarrow> (td_scores te, td_labels te)))"

definition count_label :: "rat \<Rightarrow> rat list \<Rightarrow> nat" where
  "count_label l y = length (filter (\<lambda>x. x = l) y)"

definition can_publish :: "cal_env \<Rightarrow> calibrator \<Rightarrow> rat list \<Rightarrow> rat list \<Rightarrow> bool" where
  "can_publish E sub s_te y_te \<longleftrightarrow>
     \<not> fst (bootstrap_auc_ci E y_te s_te) \<le> 1/2 \<and> \<not> count_label 0 y_te < 30 \<and> ic_threshold sub \<noteq> None"

definition type_entry :: "cal_env \<Rightarrow> nat \<Rightarrow> rat \<Rightarrow> (string, type_data) dict option \<Rightarrow> string \<Rightarrow> type_data \<Rightarrow> type_cfg" where
  "type_entry E n_bins target test q_type td =
     (let sub = type_fit E n_bins target td; (s_te, y_te) = eval_data test q_type td;
          p_te = predict_array E (ic_knots_x sub) (ic_knots_y sub) s_te; ci = bootstrap_auc_ci E y_te s_te;
          pub = can_publish E sub s_te y_te; r4 = map_option (py_round 4)
      in \<lparr>tc_knots_x = ic_knots_x sub, tc_knots_y = ic_knots_y sub,
          tc_threshold = (if pub then ic_threshold sub else None), tc_candidate_threshold = ic_threshold sub,
          tc_margin = (if pub then ic_margin sub else None), tc_candidate_margin = ic_margin sub,
          tc_threshold_reason = ic_threshold_reason sub, tc_margin_reason = ic_margin_reason sub,
          tc_published = pub, tc_rejection = rejection_reason (ic_threshold sub \<noteq> None) (count_label 0 y_te) ci,
          tc_metrics = [(''auc_raw'', r4 (Some (roc_auc_score y_te s_te))), (''auc_calibrated'', r4 (Some (roc_auc_score y_te p_te))),
            (''auc_95ci_lower'', r4 (Some (fst ci))), (''auc_95ci_upper'', r4 (Some (snd ci))),
            (''brier_raw'', r4 (brier_score y_te s_te)), (''brier_calibrated'', r4 (brier_score y_te p_te)),
            (''ece_raw'', r4 (Some (expected_calibration_error 10 y_te s_te))),
            (''ece_calibrated'', r4 (Some (expected_calibration_error 10 y_te p_te)))],
          tc_negatives = count_label 0 y_te, tc_positives = count_label 1 y_te, tc_reference = ic_reference sub\<rparr>)"

definition type_entries :: "cal_env \<Rightarrow> nat \<Rightarrow> rat \<Rightarrow> (string, type_data) dict option \<Rightarrow> (string, type_data) dict \<Rightarrow> (string, type_cfg) dict" where
  "type_entries E n_bins target test train =
     concat (map (\<lambda>q. case dget train q of
                        None \<Rightarrow> []
                      | Some td \<Rightarrow> if td_scores td = [] then [] else [(q, type_entry E n_bins target test q td)])
       [''symbolic'', ''prose''])"

definition fit_by_type :: "cal_env \<Rightarrow> nat \<Rightarrow> (string, type_data) dict \<Rightarrow> (string, type_data) dict option \<Rightarrow> calibrator \<Rightarrow> calibrator" where
  "fit_by_type E n_bins train test cal =
     (let bt = type_entries E n_bins (ic_min_precision cal) test train;
          prose_ref = (case dget bt ''prose'' of None \<Rightarrow> [] | Some c \<Rightarrow> tc_reference c)
      in cal\<lparr>ic_by_type := bt,
           ic_reference := (if prose_ref \<noteq> [] then prose_ref
                            else case bt of [] \<Rightarrow> ic_reference cal | (_, c) # _ \<Rightarrow> tc_reference c),
           ic_version := ''pava_dual_'' @ int_str \<lfloor>cl_time E\<rfloor>\<rparr>)"

section \<open>Using a calibrator\<close>

definition fallback_threshold :: "string option \<Rightarrow> rat \<Rightarrow> rat option \<Rightarrow> rat" where
  "fallback_threshold query_type other dflt =
     (case dflt of Some d \<Rightarrow> d
      | None \<Rightarrow> if query_type = Some ''symbolic'' then 7/10 else if query_type = Some ''prose'' then 7/20 else other)"

definition ic_get_threshold :: "calibrator \<Rightarrow> string option \<Rightarrow> rat option \<Rightarrow> rat" where
  "ic_get_threshold cal query_type dflt =
     (let fallback = fallback_threshold query_type (7/20) dflt;
          global_t = (case ic_threshold cal of
              Some t \<Rightarrow> if 0 < t \<and> ic_threshold_reason cal = Some ''learned'' then t else fallback | None \<Rightarrow> fallback)
      in case query_type of
           None \<Rightarrow> global_t
         | Some q \<Rightarrow>
             (if q = [] then global_t
              else case dget (ic_by_type cal) q of
                None \<Rightarrow> global_t
              | Some cfg \<Rightarrow>
                  (if tc_published cfg \<and> tc_threshold_reason cfg = Some ''learned''
                   then (case tc_threshold cfg of Some t \<Rightarrow> t | None \<Rightarrow> fallback) else fallback)))"

definition prior_set :: "prior \<Rightarrow> bool" where
  "prior_set p \<longleftrightarrow> pr_nums p \<noteq> [] \<or> pr_weights p \<noteq> None"

definition prior_weights :: "prior \<Rightarrow> rat list" where
  "prior_weights p =
     (case pr_weights p of Some ws \<Rightarrow> ws
      | None \<Rightarrow> map (\<lambda>k. dget_default (pr_nums p) k 0) [''w_dense'', ''w_sparse'', ''w_margin'', ''w_len''])"

definition prior_bias :: "prior \<Rightarrow> rat" where
  "prior_bias p =
     (case pr_weights p of Some _ \<Rightarrow> dget_default (pr_nums p) ''bias'' 0
      | None \<Rightarrow> dget_default (pr_nums p) ''b'' (dget_default (pr_nums p) ''bias'' 0))"

definition knots_for :: "calibrator \<Rightarrow> string option \<Rightarrow> rat list \<times> rat list" where
  "knots_for cal query_type =
     (case query_type of
        None \<Rightarrow> (ic_knots_x cal, ic_knots_y cal)
      | Some q \<Rightarrow>
          (case (if q = [] then None else dget (ic_by_type cal) q) of
             None \<Rightarrow> (ic_knots_x cal, ic_knots_y cal)
           | Some cfg \<Rightarrow> (if tc_knots_x cfg = [] then ic_knots_x cal else tc_knots_x cfg,
                          if tc_knots_y cfg = [] then ic_knots_y cal else tc_knots_y cfg)))"

definition ic_predict_proba :: "cal_env \<Rightarrow> calibrator \<Rightarrow> rat \<Rightarrow> string option \<Rightarrow> rat list option \<Rightarrow> rat" where
  "ic_predict_proba E cal score query_type x_multivariate =
     (let (knots_x, knots_y) = knots_for cal query_type; p_iso = iso_point knots_x knots_y score; p = ic_prior cal in
      case x_multivariate of
        None \<Rightarrow> p_iso
      | Some x \<Rightarrow>
          (let alpha = dget_default (pr_nums p) ''alpha'' (7/10); weights = prior_weights p;
               z = max (- 30) (min 30 (sum_list (map2 (*) x weights) + prior_bias p)); p_multi = 1 / (1 + cl_exp E (- z))
           in if prior_set p \<and> length weights = length x then clip01 (alpha * p_iso + (1 - alpha) * p_multi) else p_iso))"

definition should_accept :: "calibrator \<Rightarrow> rat \<Rightarrow> rat option \<Rightarrow> bool \<Rightarrow> bool" where
  "should_accept cal score margin use_margin \<longleftrightarrow>
     \<not> (case ic_threshold cal of Some t \<Rightarrow> score < t | None \<Rightarrow> False)
     \<and> \<not> (use_margin \<and> (case (margin, ic_margin cal) of (Some m, Some t) \<Rightarrow> m < t | _ \<Rightarrow> False))"

section \<open>Loading an artifact\<close>

text \<open>
  \<open>from_dict\<close> on the parsed object, a missing key already replaced by its default: an acceptance threshold or margin survives only
  with the reason \<open>learned\<close>.
\<close>

definition known_reason :: "string option \<Rightarrow> string option" where
  "known_reason r = (if r = Some ''learned'' \<or> r = Some ''no_candidate_fallback'' then r else Some ''no_candidate_fallback'')"

definition clean_choice :: "rat option \<Rightarrow> string option \<Rightarrow> rat option \<times> string option" where
  "clean_choice raw reason =
     (if raw = None then (None, known_reason reason)
      else if reason = Some ''learned'' then (raw, reason) else (None, Some ''no_candidate_fallback''))"

definition clean_type :: "type_cfg \<Rightarrow> type_cfg" where
  "clean_type cfg =
     (let tr = known_reason (tc_threshold_reason cfg); mr = known_reason (tc_margin_reason cfg) in
      cfg\<lparr>tc_threshold_reason := tr, tc_threshold := (if tr \<noteq> Some ''learned'' then None else tc_threshold cfg),
          tc_margin_reason := mr, tc_margin := (if mr \<noteq> Some ''learned'' then None else tc_margin cfg)\<rparr>)"

definition from_dict :: "calibrator \<Rightarrow> calibrator" where
  "from_dict data =
     (let (t, tr) = clean_choice (ic_threshold data) (ic_threshold_reason data);
          (m, mr) = clean_choice (ic_margin data) (ic_margin_reason data)
      in data\<lparr>ic_threshold := t, ic_threshold_reason := tr, ic_margin := m, ic_margin_reason := mr,
           ic_by_type := map (\<lambda>(q, cfg). (q, clean_type cfg)) (ic_by_type data)\<rparr>)"

section \<open>The manager\<close>

record cal_engine =
  cg_enabled :: bool
  cg_ks :: rat
  cg_min_brier :: rat
  cg_calibrator :: "calibrator option"

text \<open>The calibrator that is in force: none when the engine is disabled or has loaded no artifact.\<close>

definition active_calibrator :: "cal_engine \<Rightarrow> calibrator option" where
  "active_calibrator g = (if cg_enabled g then cg_calibrator g else None)"

text \<open>The artifact is \<open>None\<close> when there is no path, no file, or loading raises.\<close>

definition new_engine :: "calibrator option \<Rightarrow> bool \<Rightarrow> rat \<Rightarrow> rat \<Rightarrow> cal_engine" where
  "new_engine artifact enabled ks brier =
     \<lparr>cg_enabled = enabled, cg_ks = ks, cg_min_brier = brier, cg_calibrator = map_option from_dict artifact\<rparr>"

definition get_threshold :: "cal_engine \<Rightarrow> string option \<Rightarrow> rat option \<Rightarrow> rat" where
  "get_threshold g query_type dflt =
     (let fallback = fallback_threshold query_type (7/10) dflt in
      case active_calibrator g of None \<Rightarrow> fallback | Some cal \<Rightarrow> ic_get_threshold cal query_type (Some fallback))"

definition get_margin :: "cal_engine \<Rightarrow> rat \<Rightarrow> rat" where
  "get_margin g dflt =
     (case active_calibrator g of None \<Rightarrow> dflt | Some cal \<Rightarrow> (case ic_margin cal of None \<Rightarrow> dflt | Some m \<Rightarrow> m))"

definition predict_proba :: "cal_env \<Rightarrow> cal_engine \<Rightarrow> rat \<Rightarrow> string option \<Rightarrow> rat list option \<Rightarrow> rat" where
  "predict_proba E g score query_type x =
     (case active_calibrator g of None \<Rightarrow> score | Some cal \<Rightarrow> ic_predict_proba E cal score query_type x)"

text \<open>\<open>v93\<close>: the environment variable \<open>ATLAS_CALIB_V93\<close> is \<open>"1"\<close>.\<close>

definition should_accept_retrieval ::
  "cal_env \<Rightarrow> bool \<Rightarrow> cal_engine \<Rightarrow> rat \<Rightarrow> rat option \<Rightarrow> string option \<Rightarrow> rat option \<Rightarrow> rat list option \<Rightarrow> bool" where
  "should_accept_retrieval E v93 g score margin query_type fallback x =
     (let eff_fallback = fallback_threshold query_type (7/10) fallback in
      case active_calibrator g of
        None \<Rightarrow> eff_fallback \<le> score
      | Some cal \<Rightarrow>
          (let thresh = get_threshold g query_type (Some eff_fallback);
               measured = (if v93 \<and> x \<noteq> None then predict_proba E g score query_type x else score)
           in \<not> measured < thresh \<and> \<not> (case (margin, ic_margin cal) of (Some m, Some t) \<Rightarrow> m < t | _ \<Rightarrow> False)))"

datatype refit_verdict =
    Initial_fit
  | No_drift rat
  | Too_little_gain rat rat
  | Refit_approved rat "rat option"

text \<open>
  The verdict stands for the texts. The Brier score of an empty hold-out set is a NaN, which no comparison finds smaller:
  \<open>improvement < min\<close> is then false.
\<close>

definition evaluate_drift_and_refit ::
  "cal_env \<Rightarrow> cal_engine \<Rightarrow> rat list \<Rightarrow> rat list \<Rightarrow> rat list option \<Rightarrow> rat list \<Rightarrow> rat list \<Rightarrow> bool \<times> refit_verdict \<times> calibrator option" where
  "evaluate_drift_and_refit E g new_scores new_labels new_margins holdout_scores holdout_labels =
     (let candidate = fit E 12 new_scores new_labels new_margins None (new_calibrator (1/2)) in
      case cg_calibrator g of
        None \<Rightarrow> (True, Initial_fit, Some candidate)
      | Some cal \<Rightarrow>
          (if ic_knots_x cal = [] then (True, Initial_fit, Some candidate)
           else
             (let ref = (if ic_reference cal \<noteq> [] then ic_reference cal else ic_knots_x cal);
                  ks = fst (ks_2sample (cl_scipy E) (cl_sqrt E) (cl_exp E) new_scores ref)
              in if ks < cg_ks g then (False, No_drift ks, None)
                 else
                   (let current_brier = brier_score holdout_labels (predict_array E (ic_knots_x cal) (ic_knots_y cal) holdout_scores);
                        candidate_brier = brier_score holdout_labels
                          (predict_array E (ic_knots_x candidate) (ic_knots_y candidate) holdout_scores)
                    in case (current_brier, candidate_brier) of
                         (Some a, Some b) \<Rightarrow>
                           (if a - b < cg_min_brier g then (False, Too_little_gain ks (a - b), None)
                            else (True, Refit_approved ks (Some (a - b)), Some candidate))
                       | _ \<Rightarrow> (True, Refit_approved ks None, Some candidate)))))"

section \<open>The selected threshold is the cheapest\<close>

definition cheaper :: "rat \<times> rat \<Rightarrow> rat \<times> rat \<Rightarrow> bool" where
  "cheaper a b \<longleftrightarrow> fst a < fst b \<or> (fst a = fst b \<and> snd b < snd a)"

definition outcome :: "calibrator \<Rightarrow> (rat \<times> rat) list \<Rightarrow> rat \<Rightarrow> rat \<times> rat" where
  "outcome cal rows t = (decision_cost cal (confusion t rows), recall_of (confusion t rows))"

definition best_of :: "calibrator \<Rightarrow> (rat \<times> rat) list \<Rightarrow> rat list \<Rightarrow> (rat \<times> rat \<times> rat) option \<Rightarrow> bool" where
  "best_of cal rows ts best \<longleftrightarrow>
     (case best of
        None \<Rightarrow> \<forall>t \<in> set ts. \<not> admissible (ic_min_precision cal) (confusion t rows)
      | Some (b, c, r) \<Rightarrow> b \<in> set ts \<and> (c, r) = outcome cal rows b \<and> admissible (ic_min_precision cal) (confusion b rows)
          \<and> (\<forall>t \<in> set ts. admissible (ic_min_precision cal) (confusion t rows) \<longrightarrow> \<not> cheaper (outcome cal rows t) (c, r)))"

lemma cheaper_trans: "\<not> cheaper a b \<Longrightarrow> cheaper c b \<Longrightarrow> \<not> cheaper a c"
  by (auto simp: cheaper_def)

lemma threshold_step_best: "best_of cal rows ts best \<Longrightarrow> best_of cal rows (ts @ [t]) (threshold_step cal rows best t)"
proof (cases "admissible (ic_min_precision cal) (confusion t rows)")
  case False
  then show "best_of cal rows ts best \<Longrightarrow> ?thesis"
    by (auto simp: threshold_step_def best_of_def split: option.splits)
next
  case True
  assume b: "best_of cal rows ts best"
  show ?thesis
  proof (cases best)
    case None
    with b True show ?thesis by (auto simp: threshold_step_def best_of_def outcome_def cheaper_def Let_def)
  next
    case (Some x)
    obtain u c r where x: "x = (u, c, r)" by (cases x)
    show ?thesis
    proof (cases "cheaper (outcome cal rows t) (c, r)")
      case new: True
      then have "threshold_step cal rows best t = Some (t, outcome cal rows t)"
        using True by (auto simp: threshold_step_def Some x outcome_def cheaper_def Let_def)
      moreover have "\<not> cheaper (outcome cal rows s) (outcome cal rows t)"
        if "s \<in> set ts" "admissible (ic_min_precision cal) (confusion s rows)" for s
      proof -
        have "\<not> cheaper (outcome cal rows s) (c, r)" using b that by (auto simp: best_of_def Some x)
        then show ?thesis by (rule cheaper_trans [OF _ new])
      qed
      ultimately show ?thesis using True by (cases "outcome cal rows t") (auto simp: best_of_def cheaper_def)
    next
      case old: False
      then have "threshold_step cal rows best t = best"
        by (auto simp: threshold_step_def Some x outcome_def cheaper_def Let_def)
      with b old show ?thesis by (auto simp: best_of_def Some x)
    qed
  qed
qed

lemma best_of_grid: "best_of cal rows ts (foldl (threshold_step cal rows) None ts)"
  by (induction ts rule: rev_induct) (auto simp: best_of_def [of _ _ "[]"] intro: threshold_step_best)

lemma select_threshold_cases:
  "case select_threshold cal rows of
     None \<Rightarrow> \<forall>t \<in> set threshold_grid. \<not> admissible (ic_min_precision cal) (confusion t rows)
   | Some b \<Rightarrow> b \<in> set threshold_grid \<and> admissible (ic_min_precision cal) (confusion b rows)
       \<and> (\<forall>t \<in> set threshold_grid. admissible (ic_min_precision cal) (confusion t rows) \<longrightarrow> \<not> cheaper (outcome cal rows t) (outcome cal rows b))"
  using best_of_grid [of cal rows threshold_grid]
  by (auto simp: select_threshold_def best_of_def split: option.splits)

section \<open>The fitted curve is monotone\<close>

lemma round_even_mono: "x \<le> y \<Longrightarrow> round_even x \<le> round_even y"
proof -
  assume xy: "x \<le> y"
  have near: "\<lfloor>z\<rfloor> \<le> round_even z \<and> round_even z \<le> \<lfloor>z\<rfloor> + 1" for z by (simp add: round_even_def Let_def)
  show ?thesis
  proof (cases "\<lfloor>x\<rfloor> = \<lfloor>y\<rfloor>")
    case True
    then have "x - of_int \<lfloor>x\<rfloor> \<le> y - of_int \<lfloor>y\<rfloor>" using xy by simp
    then show ?thesis using True by (simp add: round_even_def Let_def)
  next
    case False
    with floor_mono [OF xy] have "\<lfloor>x\<rfloor> + 1 \<le> \<lfloor>y\<rfloor>" by simp
    with near [of x] near [of y] show ?thesis by linarith
  qed
qed

lemma py_round_mono: "x \<le> y \<Longrightarrow> py_round n x \<le> py_round n y"
  unfolding py_round_def by (intro divide_right_mono) (simp_all add: round_even_mono mult_right_mono)

lemma sorted_map_round: "sorted xs \<Longrightarrow> sorted (map (py_round n) xs)"
  by (simp add: sorted_wrt_map py_round_mono sorted_wrt_mono_rel [of _ "(\<le>)"])

lemma avg_bounds: "xs \<noteq> [] \<Longrightarrow> \<forall>x \<in> set xs. a \<le> x \<and> x \<le> b \<Longrightarrow> a \<le> avg xs \<and> avg xs \<le> b"
proof -
  assume ne: "xs \<noteq> []" and ab: "\<forall>x \<in> set xs. a \<le> x \<and> x \<le> b"
  from ab have "of_nat (length xs) * a \<le> sum_list xs \<and> sum_list xs \<le> of_nat (length xs) * b"
    by (induction xs) (auto simp: algebra_simps)
  then show ?thesis using ne by (simp add: avg_def field_simps)
qed

lemma sorted_fit_knots: "sorted edges \<Longrightarrow> sorted (map fst (fit_knots w edges rows))"
proof -
  assume edges: "sorted edges"
  define bin where "bin i = filter (\<lambda>r. in_edge_bin edges i (fst r)) rows" for i
  let ?R = "\<lambda>b b'. b \<noteq> [] \<longrightarrow> b' \<noteq> [] \<longrightarrow> avg (map fst b) \<le> avg (map fst b')"
  have within: "edges ! i \<le> avg (map fst (bin i)) \<and> avg (map fst (bin i)) \<le> edges ! Suc i" if "bin i \<noteq> []" for i
    using that by (intro avg_bounds) (auto simp: bin_def in_edge_bin_def split: if_splits)
  have "?R (bin i) (bin j)" if "i < j" "j < length edges - 1" for i j
  proof (intro impI)
    assume ne: "bin i \<noteq> []" "bin j \<noteq> []"
    have "edges ! Suc i \<le> edges ! j" using edges that by (intro sorted_nth_mono) auto
    with within [OF ne(1)] within [OF ne(2)] show "avg (map fst (bin i)) \<le> avg (map fst (bin j))" by linarith
  qed
  then have "sorted_wrt ?R (map bin [0..<length edges - 1])" by (simp add: sorted_wrt_iff_nth_less)
  then have "sorted_wrt ?R (filter (\<lambda>b. b \<noteq> []) (map bin [0..<length edges - 1]))" by (rule sorted_wrt_filter)
  then have "sorted_wrt (\<lambda>b b'. avg (map fst b) \<le> avg (map fst b')) (filter (\<lambda>b. b \<noteq> []) (map bin [0..<length edges - 1]))"
    by (rule sorted_wrt_mono_rel [rotated]) auto
  then show ?thesis by (simp add: fit_knots_def bin_def [symmetric] bin_knot_def Let_def sorted_wrt_map comp_def)
qed

lemma length_expand: "length (pava_expand st) = sum_list (map (snd \<circ> snd) st)"
  by (induction st) (auto simp: pava_expand_Cons pava_expand_def [of "[]"])

lemma length_merge: "length (pava_expand (pava_merge st)) = length (pava_expand st)"
  by (induction st rule: pava_merge.induct) (auto simp: length_expand join_blocks_def split: prod.splits)

lemma length_push: "length (pava_expand (pava_push st x)) = Suc (length (pava_expand st))"
  by (simp add: pava_push_def length_merge pava_expand_Cons)

lemma length_pava: "length ws = length y \<Longrightarrow> length (pava y (Some ws)) = length y"
proof -
  have "length (pava_expand (foldl pava_push [] d)) = length d" for d
    by (induction d rule: rev_induct) (simp_all add: length_push, simp add: pava_expand_def)
  then show "length ws = length y \<Longrightarrow> ?thesis" by (simp add: pava_def)
qed

lemma sorted_pava: "sorted (pava y w)"
  by (simp add: pava_def sorted_pava_expand pava_falling)

lemma fit_fields:
  "ic_knots_x (fit E n scores labels margins weights cal)
     = map (py_round 4 \<circ> fst) (fit_knots (weights \<noteq> None) (unique (cl_quantile E scores (linspace01 (n + 1))))
         (zip scores (zip labels (case weights of None \<Rightarrow> map (\<lambda>_. 0) scores | Some w \<Rightarrow> w))))"
  "ic_knots_y (fit E n scores labels margins weights cal)
     = (let ks = fit_knots (weights \<noteq> None) (unique (cl_quantile E scores (linspace01 (n + 1))))
         (zip scores (zip labels (case weights of None \<Rightarrow> map (\<lambda>_. 0) scores | Some w \<Rightarrow> w)))
        in map (py_round 4) (pava (map (fst \<circ> snd) ks) (Some (map (snd \<circ> snd) ks))))"
  "ic_threshold (fit E n scores labels margins weights cal) = select_threshold cal (zip scores labels)"
  "ic_threshold_reason (fit E n scores labels margins weights cal) = learned (select_threshold cal (zip scores labels))"
  "ic_margin_reason (fit E n scores labels margins weights cal) = learned (ic_margin (fit E n scores labels margins weights cal))"
  "ic_min_precision (fit E n scores labels margins weights cal) = ic_min_precision cal"
  "ic_by_type (fit E n scores labels margins weights cal) = ic_by_type cal"
  by (simp_all add: fit_def Let_def)

lemma fit_curve:
  "sorted (ic_knots_x (fit E n scores labels margins weights cal))"
  "sorted (ic_knots_y (fit E n scores labels margins weights cal))"
  "length (ic_knots_x (fit E n scores labels margins weights cal)) = length (ic_knots_y (fit E n scores labels margins weights cal))"
proof -
  have "sorted (unique xs)" for xs by (simp add: unique_def)
  then have "sorted (map (py_round 4) (map fst (fit_knots w (unique xs) rows)))" for w xs rows
    by (intro sorted_map_round sorted_fit_knots)
  then show "sorted (ic_knots_x (fit E n scores labels margins weights cal))" by (simp add: fit_fields)
  show "sorted (ic_knots_y (fit E n scores labels margins weights cal))"
    by (simp add: fit_fields Let_def sorted_map_round sorted_pava del: sorted_map)
  show "length (ic_knots_x (fit E n scores labels margins weights cal)) = length (ic_knots_y (fit E n scores labels margins weights cal))"
    by (simp add: fit_fields Let_def length_pava)
qed

text \<open>
  Calibration keeps the order of the evidence: after fitting, whatever the training data and \<open>numpy\<close>'s quantiles are, the
  probability of a hit lies between 0 and 1 and does not decrease with the score.
\<close>

theorem fitted_probability_is_monotone:
  assumes "u \<le> v" "ic_by_type cal = []"
  shows "0 \<le> ic_predict_proba E (fit E n scores labels margins weights cal) u qt None
    \<and> ic_predict_proba E (fit E n scores labels margins weights cal) u qt None
        \<le> ic_predict_proba E (fit E n scores labels margins weights cal) v qt None
    \<and> ic_predict_proba E (fit E n scores labels margins weights cal) v qt None \<le> 1"
proof -
  let ?c = "fit E n scores labels margins weights cal"
  have "knots_for ?c qt = (ic_knots_x ?c, ic_knots_y ?c)"
    using assms(2) by (simp add: knots_for_def fit_fields split: option.split)
  with iso_point_unit iso_point_mono [OF fit_curve assms(1)] show ?thesis
    by (simp add: ic_predict_proba_def)
qed

lemma type_entries_at:
  assumes "dget train q = Some td" "td_scores td \<noteq> []"
  shows "q \<in> {''symbolic'', ''prose''} \<Longrightarrow>
    dget (type_entries E n target test train) q = Some (type_entry E n target test q td)"
  using assms by (cases "dget train ''symbolic''") (auto simp: type_entries_def)

lemma type_entries_none:
  assumes "\<forall>td. dget train q = Some td \<longrightarrow> td_scores td = []"
  shows "dget (type_entries E n target test train) q = None"
proof -
  have "q \<notin> fst ` set (type_entries E n target test train)"
    using assms by (auto simp: type_entries_def split: option.splits if_splits)
  then show ?thesis by (metis domIff dom_map_of_conv_image_fst)
qed

text \<open>
  C14: A threshold other than the default that is served for a query type after fitting by type is earned. If the type has training
  scores, the evaluation data (the test set of the type if one is given, else, as the code falls back, the training data themselves)
  have at least 30 negatives and a bootstrap interval of the ROC score above one half, and the threshold is a point of the grid whose
  precision on the training data exceeds the target and for which no other such point costs less. If the type has no training scores,
  it is the learned, positive global threshold of the calibrator.
\<close>

theorem served_threshold_is_earned:
  assumes "q \<in> {''symbolic'', ''prose''}" "ic_get_threshold (fit_by_type E n train test cal) (Some q) (Some d) = t" "t \<noteq> d"
  shows "(\<exists>td s_te y_te. dget train q = Some td \<and> td_scores td \<noteq> [] \<and> eval_data test q td = (s_te, y_te)
      \<and> 30 \<le> count_label 0 y_te \<and> 1/2 < fst (bootstrap_auc_ci E y_te s_te)
      \<and> (let rows = zip (td_scores td) (td_labels td); ref = new_calibrator (ic_min_precision cal) in
          t \<in> set threshold_grid \<and> 0 < fst (confusion t rows) \<and> ic_min_precision cal < precision_of (confusion t rows)
          \<and> (\<forall>t' \<in> set threshold_grid. admissible (ic_min_precision cal) (confusion t' rows) \<longrightarrow>
               decision_cost ref (confusion t rows) \<le> decision_cost ref (confusion t' rows))))
    \<or> ((\<forall>td. dget train q = Some td \<longrightarrow> td_scores td = [])
      \<and> ic_threshold cal = Some t \<and> 0 < t \<and> ic_threshold_reason cal = Some ''learned'')"
proof (cases "\<exists>td. dget train q = Some td \<and> td_scores td \<noteq> []")
  case False
  then have "dget (ic_by_type (fit_by_type E n train test cal)) q = None"
    using type_entries_none [of train q] by (simp add: fit_by_type_def Let_def)
  moreover have "ic_threshold (fit_by_type E n train test cal) = ic_threshold cal"
      "ic_threshold_reason (fit_by_type E n train test cal) = ic_threshold_reason cal" by (simp_all add: fit_by_type_def Let_def)
  ultimately show ?thesis using assms False
    by (auto simp: ic_get_threshold_def fallback_threshold_def Let_def split: if_splits option.splits)
next
  case True
  then obtain td where td: "dget train q = Some td" "td_scores td \<noteq> []" by blast
  let ?ref = "new_calibrator (ic_min_precision cal)" and ?e = "type_entry E n (ic_min_precision cal) test q td"
  obtain s_te y_te where te: "eval_data test q td = (s_te, y_te)" by fastforce
  have "dget (type_entries E n (ic_min_precision cal) test train) q = Some ?e"
    using assms(1) type_entries_at [OF td] by blast
  then have bt: "dget (ic_by_type (fit_by_type E n train test cal)) q = Some ?e" by (simp add: fit_by_type_def Let_def)
  have "q \<noteq> []" using assms(1) by auto
  with assms(2,3) bt have pub: "tc_published ?e" "tc_threshold ?e = Some t"
    by (auto simp: ic_get_threshold_def fallback_threshold_def Let_def split: if_splits option.splits)
  have e: "tc_published ?e = can_publish E (type_fit E n (ic_min_precision cal) td) s_te y_te"
    "tc_threshold ?e = (if tc_published ?e then ic_threshold (type_fit E n (ic_min_precision cal) td) else None)"
    by (simp_all add: type_entry_def te Let_def)
  have sel: "select_threshold ?ref (zip (td_scores td) (td_labels td)) = Some t"
    using pub e by (simp add: type_fit_def fit_fields)
  have cp: "30 \<le> count_label 0 y_te" "1/2 < fst (bootstrap_auc_ci E y_te s_te)"
    using pub(1) e(1) by (simp_all add: can_publish_def not_le not_less)
  have "ic_min_precision ?ref = ic_min_precision cal" by (simp add: new_calibrator_def)
  with select_threshold_cases [of ?ref "zip (td_scores td) (td_labels td)"] sel cp td te show ?thesis
    by (intro disjI1 exI [of _ td] exI [of _ s_te] exI [of _ y_te])
      (auto simp: Let_def admissible_def cheaper_def outcome_def not_less split: prod.splits)
qed

lemma kept_choice: "(x \<noteq> None \<longrightarrow> r = l) \<Longrightarrow> (if r \<noteq> l then None else x) = x"
  by (cases x) auto

lemma type_entry_fields:
  "tc_threshold (type_entry E n t test q td) = (if tc_published (type_entry E n t test q td) then ic_threshold (type_fit E n t td) else None)"
  "tc_margin (type_entry E n t test q td) = (if tc_published (type_entry E n t test q td) then ic_margin (type_fit E n t td) else None)"
  "tc_threshold_reason (type_entry E n t test q td) = ic_threshold_reason (type_fit E n t td)"
  "tc_margin_reason (type_entry E n t test q td) = ic_margin_reason (type_fit E n t td)"
  by (simp_all add: type_entry_def Let_def split: prod.split)

section \<open>Replacing a calibrator\<close>

text \<open>
  C18: A calibrator in force is replaced only on evidence: on a hold-out set, the verdict grants a new one only when the drift
  statistic has reached the limit and the new curve lowers the Brier score by the required amount; what it grants is the curve
  fitted to the new data, and what it refuses it does not return.
\<close>

theorem refit_needs_drift_and_gain:
  assumes "cg_calibrator g = Some cal" "ic_knots_x cal \<noteq> []" "holdout_scores \<noteq> []" "length holdout_labels = length holdout_scores"
    and "evaluate_drift_and_refit E g new_scores new_labels new_margins holdout_scores holdout_labels = (granted, verdict, new)"
  shows "(new = (if granted then Some (fit E 12 new_scores new_labels new_margins None (new_calibrator (1/2))) else None))
    \<and> (granted \<longrightarrow>
        cg_ks g \<le> fst (ks_2sample (cl_scipy E) (cl_sqrt E) (cl_exp E) new_scores (if ic_reference cal \<noteq> [] then ic_reference cal else ic_knots_x cal))
        \<and> (\<exists>a b. brier_score holdout_labels (predict_array E (ic_knots_x cal) (ic_knots_y cal) holdout_scores) = Some a
             \<and> brier_score holdout_labels (predict_array E (ic_knots_x (the new)) (ic_knots_y (the new)) holdout_scores) = Some b
             \<and> b + cg_min_brier g \<le> a))"
proof -
  have ne: "brier_score holdout_labels (predict_array E xs ys holdout_scores) \<noteq> None" for xs ys
    using assms(3,4) by (auto simp: brier_score_def mean_def predict_array_def)
  obtain a where a: "brier_score holdout_labels (predict_array E (ic_knots_x cal) (ic_knots_y cal) holdout_scores) = Some a"
    using ne by blast
  let ?c = "fit E 12 new_scores new_labels new_margins None (new_calibrator (1/2))"
  obtain b where b: "brier_score holdout_labels (predict_array E (ic_knots_x ?c) (ic_knots_y ?c) holdout_scores) = Some b"
    using ne by blast
  define ks where "ks = fst (ks_2sample (cl_scipy E) (cl_sqrt E) (cl_exp E) new_scores (if ic_reference cal \<noteq> [] then ic_reference cal else ic_knots_x cal))"
  from assms(5) have "(granted, verdict, new) =
      (if ks < cg_ks g then (False, No_drift ks, None)
       else if a - b < cg_min_brier g then (False, Too_little_gain ks (a - b), None) else (True, Refit_approved ks (Some (a - b)), Some ?c))"
    unfolding evaluate_drift_and_refit_def Let_def assms(1) option.case ks_def [symmetric] using assms(2) by (simp add: a b cong: if_cong)
  then show ?thesis unfolding ks_def [symmetric] using a b by (auto split: if_splits)
qed

text \<open>
  Without a hold-out set the guard is void: the Brier scores are NaN, no comparison rejects them, and after a drift the new curve
  is approved unmeasured.
\<close>

theorem empty_holdout_approves_any_refit:
  assumes "cg_calibrator g = Some cal" "ic_knots_x cal \<noteq> []"
    and "cg_ks g \<le> fst (ks_2sample (cl_scipy E) (cl_sqrt E) (cl_exp E) new_scores (if ic_reference cal \<noteq> [] then ic_reference cal else ic_knots_x cal))"
  shows "\<exists>ks. evaluate_drift_and_refit E g new_scores new_labels new_margins [] []
    = (True, Refit_approved ks None, Some (fit E 12 new_scores new_labels new_margins None (new_calibrator (1/2))))"
  using assms by (auto simp: evaluate_drift_and_refit_def Let_def brier_score_def mean_def predict_array_def)

text \<open>
  Loading trusts nothing that was not learned: whatever the artifact holds, a threshold or margin of the loaded calibrator, global
  or of a type, has the reason \<open>learned\<close>; loading twice changes nothing, and a calibrator that was fitted, globally or by type, is
  loaded as it was saved.
\<close>

theorem loading_keeps_only_what_was_learned:
  "(\<forall>data. let c = from_dict data in
      (ic_threshold c \<noteq> None \<longrightarrow> ic_threshold_reason c = Some ''learned'') \<and> (ic_margin c \<noteq> None \<longrightarrow> ic_margin_reason c = Some ''learned'')
      \<and> (\<forall>(q, cfg) \<in> set (ic_by_type c). (tc_threshold cfg \<noteq> None \<longrightarrow> tc_threshold_reason cfg = Some ''learned'')
           \<and> (tc_margin cfg \<noteq> None \<longrightarrow> tc_margin_reason cfg = Some ''learned''))
      \<and> from_dict c = c)
   \<and> from_dict (fit_by_type E n train test (fit E n' scores labels margins weights (new_calibrator target)))
       = fit_by_type E n train test (fit E n' scores labels margins weights (new_calibrator target))"
proof -
  let ?ok = "\<lambda>x r. (x \<noteq> None \<longrightarrow> r = Some ''learned'') \<and> (r = Some ''learned'' \<or> r = Some ''no_candidate_fallback'')"
  have choice: "clean_choice x r = (x', r') \<Longrightarrow> ?ok x' r'" for x r x' r'
    by (auto simp: clean_choice_def known_reason_def split: if_splits)
  have fixed: "?ok x r \<Longrightarrow> clean_choice x r = (x, r)" for x r
    by (auto simp: clean_choice_def known_reason_def)
  have ok_type: "?ok (tc_threshold (clean_type cfg)) (tc_threshold_reason (clean_type cfg))
      \<and> ?ok (tc_margin (clean_type cfg)) (tc_margin_reason (clean_type cfg))" for cfg
    by (simp add: clean_type_def known_reason_def Let_def)
  have fixed_type: "clean_type cfg = cfg" if "?ok (tc_threshold cfg) (tc_threshold_reason cfg)" "?ok (tc_margin cfg) (tc_margin_reason cfg)" for cfg
  proof -
    have "known_reason (tc_threshold_reason cfg) = tc_threshold_reason cfg" "known_reason (tc_margin_reason cfg) = tc_margin_reason cfg"
      using that by (simp_all only: known_reason_def if_True)
    moreover have "(if tc_threshold_reason cfg \<noteq> Some ''learned'' then None else tc_threshold cfg) = tc_threshold cfg"
      "(if tc_margin_reason cfg \<noteq> Some ''learned'' then None else tc_margin cfg) = tc_margin cfg" 
      by (rule kept_choice, rule conjunct1 [OF that(1)], rule kept_choice, rule conjunct1 [OF that(2)])
    ultimately show ?thesis by (simp only: clean_type_def Let_def) simp
  qed
  have fixed_cal: "from_dict c = c" if "?ok (ic_threshold c) (ic_threshold_reason c)" "?ok (ic_margin c) (ic_margin_reason c)"
    "\<forall>(q, cfg) \<in> set (ic_by_type c). clean_type cfg = cfg" for c
  proof -
    have "map (\<lambda>(q, cfg). (q, clean_type cfg)) (ic_by_type c) = ic_by_type c"
      using that(3) by (intro map_idI) auto
    with fixed [OF that(1)] fixed [OF that(2)] show ?thesis by (simp add: from_dict_def)
  qed
  have cal: "?ok (ic_threshold (from_dict data)) (ic_threshold_reason (from_dict data))
      \<and> ?ok (ic_margin (from_dict data)) (ic_margin_reason (from_dict data))" for data
    using choice by (auto simp: from_dict_def split: prod.split)
  have types: "ic_by_type (from_dict data) = map (\<lambda>(q, cfg). (q, clean_type cfg)) (ic_by_type data)" for data
    by (simp add: from_dict_def split: prod.split)
  have idem: "from_dict (from_dict data) = from_dict data" for data
    using cal [of data] ok_type by (intro fixed_cal) (auto simp: types intro!: fixed_type)
  have lrn: "?ok x (learned x)" for x by (simp add: learned_def)
  have ok_fit: "?ok (ic_threshold (fit E n s l m w c)) (ic_threshold_reason (fit E n s l m w c))
      \<and> ?ok (ic_margin (fit E n s l m w c)) (ic_margin_reason (fit E n s l m w c))" for n s l m w c
    using lrn by (simp add: fit_fields)
  have entry: "clean_type (type_entry E n t test q td) = type_entry E n t test q td" for n t q td
  proof (rule fixed_type)
    have "?ok (ic_threshold (type_fit E n t td)) (ic_threshold_reason (type_fit E n t td))
        \<and> ?ok (ic_margin (type_fit E n t td)) (ic_margin_reason (type_fit E n t td))" unfolding type_fit_def by (rule ok_fit)
    then show "?ok (tc_threshold (type_entry E n t test q td)) (tc_threshold_reason (type_entry E n t test q td))"
      "?ok (tc_margin (type_entry E n t test q td)) (tc_margin_reason (type_entry E n t test q td))"
      by (simp_all only: type_entry_fields split: if_split) blast+
  qed
  have "\<forall>(q, cfg) \<in> set (type_entries E n t test train). clean_type cfg = cfg" for t
    using entry by (auto simp: type_entries_def split: option.splits if_splits)
  then have "from_dict (fit_by_type E n train test c) = fit_by_type E n train test c"
    if "?ok (ic_threshold c) (ic_threshold_reason c)" "?ok (ic_margin c) (ic_margin_reason c)" for c
    using that by (intro fixed_cal) (simp_all add: fit_by_type_def Let_def)
  from this [OF conjunct1 [OF ok_fit] conjunct2 [OF ok_fit]] idem cal ok_type show ?thesis
    by (auto simp: Let_def types)
qed

section \<open>A concrete calibration\<close>

definition toy_cal_env :: cal_env where
  "toy_cal_env = \<lparr>cl_quantile = (\<lambda>xs ps. xs), cl_percentile = (\<lambda>xs p. hd xs), cl_interp = iso_point, cl_draws = (\<lambda>n. [[0, n - 1]]),
     cl_scipy = (\<lambda>_ _. None), cl_exp = (\<lambda>x. 1 + max 0 x), cl_sqrt = (\<lambda>x. x), cl_time = 0\<rparr>"

definition toy_train :: type_data where
  "toy_train = \<lparr>td_scores = replicate 30 (1/5) @ [9/10], td_labels = replicate 30 0 @ [1], td_margins = None, td_weight = None\<rparr>"

lemma toy_selected: "\<exists>t > 0. ic_threshold (type_fit toy_cal_env 12 (1/2) toy_train) = Some t"
proof -
  let ?rows = "zip (td_scores toy_train) (td_labels toy_train)"
  have adm: "admissible (1/2) (confusion (9/10) ?rows)" by code_simp
  have "(9/10 :: rat) = 1/20 + of_nat 85 / 100" by simp
  then have grid: "9/10 \<in> set threshold_grid" unfolding threshold_grid_def by (auto intro!: image_eqI [of _ _ 85])
  have pos: "0 < t" if "t \<in> set threshold_grid" for t using that by (auto simp: threshold_grid_def intro!: add_pos_nonneg)
  have target: "ic_min_precision (new_calibrator (1/2)) = 1/2" by (simp add: new_calibrator_def)
  have "select_threshold (new_calibrator (1/2)) ?rows \<noteq> None"
    using select_threshold_cases [of "new_calibrator (1/2)" ?rows] adm grid unfolding target by (auto split: option.splits)
  then obtain t where "select_threshold (new_calibrator (1/2)) ?rows = Some t" by blast
  with pos select_threshold_cases [of "new_calibrator (1/2)" ?rows] show ?thesis by (simp add: type_fit_def fit_fields)
qed

text \<open>A test set of its own for the type, with as many negatives as publication asks for.\<close>

definition toy_test :: type_data where
  "toy_test = \<lparr>td_scores = replicate 31 (1/10) @ [3/5], td_labels = replicate 31 0 @ [1], td_margins = None, td_weight = None\<rparr>"

lemma toy_published: "tc_published (type_entry toy_cal_env 12 (1/2) (Some [(''prose'', toy_test)]) ''prose'' toy_train)"
proof -
  have "bootstrap_auc_ci toy_cal_env (td_labels toy_test) (td_scores toy_test) = (1, 1)" by code_simp
  moreover have "count_label 0 (td_labels toy_test) = 31" by code_simp
  ultimately show ?thesis using toy_selected by (auto simp: type_entry_def eval_data_def can_publish_def Let_def)
qed

theorem served_threshold_is_earned_witness:
  "\<exists>t. ic_get_threshold (fit_by_type toy_cal_env 12 [(''prose'', toy_train)] (Some [(''prose'', toy_test)]) (new_calibrator (1/2)))
       (Some ''prose'') (Some (- 1)) = t
     \<and> 1/2 < precision_of (confusion t (zip (td_scores toy_train) (td_labels toy_train)))"
proof -
  let ?cal = "new_calibrator (1/2)" and ?test = "Some [(''prose'', toy_test)]"
  let ?e = "type_entry toy_cal_env 12 (1/2) ?test ''prose'' toy_train"
  obtain t where t: "0 < t" "ic_threshold (type_fit toy_cal_env 12 (1/2) toy_train) = Some t" using toy_selected by blast
  have target: "ic_min_precision ?cal = 1/2" "ic_threshold ?cal = None" by (simp_all add: new_calibrator_def)
  have ne: "td_scores toy_train \<noteq> []" by (simp add: toy_train_def)
  have e: "tc_threshold ?e = Some t" "tc_threshold_reason ?e = Some ''learned''"
    using toy_published t by (auto simp: type_entry_def eval_data_def Let_def type_fit_def fit_fields learned_def)
  have served: "ic_get_threshold (fit_by_type toy_cal_env 12 [(''prose'', toy_train)] ?test ?cal) (Some ''prose'') (Some (- 1)) = t"
    using type_entries_at [of "[(''prose'', toy_train)]" "''prose''" toy_train toy_cal_env 12 "1/2" ?test] ne e toy_published
    by (simp add: ic_get_threshold_def fit_by_type_def Let_def target)
  from served_threshold_is_earned [OF _ served] t(1) served target show ?thesis
    by (auto simp: Let_def)
qed

theorem fitted_probability_is_monotone_witness:
  "ic_predict_proba toy_cal_env (fit toy_cal_env 12 [1/5, 9/10] [0, 1] None None (new_calibrator (1/2))) (1/4) None None
     \<le> ic_predict_proba toy_cal_env (fit toy_cal_env 12 [1/5, 9/10] [0, 1] None None (new_calibrator (1/2))) (1/2) None None"
  using fitted_probability_is_monotone [of "1/4" "1/2" "new_calibrator (1/2)" toy_cal_env 12 "[1/5, 9/10]" "[0, 1]" None None None]
  by (simp add: new_calibrator_def)

definition toy_engine :: cal_engine where
  "toy_engine = \<lparr>cg_enabled = True, cg_ks = 3/20, cg_min_brier = 1/100,
     cg_calibrator = Some ((new_calibrator (1/2))\<lparr>ic_knots_x := [1/10, 2/10], ic_knots_y := [0, 1]\<rparr>)\<rparr>"

lemma toy_drift: "cg_ks toy_engine \<le> fst (ks_2sample (cl_scipy toy_cal_env) (cl_sqrt toy_cal_env) (cl_exp toy_cal_env) [9/10] [1/10, 2/10])"
  by (simp add: toy_engine_def toy_cal_env_def ks_2sample_def ks_distance_def cdf_def Let_def)

theorem empty_holdout_approves_any_refit_witness:
  "\<exists>ks. fst (snd (evaluate_drift_and_refit toy_cal_env toy_engine [9/10] [1] None [] [])) = Refit_approved ks None"
  using empty_holdout_approves_any_refit [of toy_engine _ toy_cal_env "[9/10]" "[1]" None] toy_drift
  by (force simp: toy_engine_def new_calibrator_def)

theorem refit_needs_drift_and_gain_witness:
  "\<exists>granted verdict new. evaluate_drift_and_refit toy_cal_env toy_engine [9/10] [1] None [1/2] [1] = (granted, verdict, new)
     \<and> (new = None \<longleftrightarrow> \<not> granted)"
proof -
  obtain granted verdict new where ev: "evaluate_drift_and_refit toy_cal_env toy_engine [9/10] [1] None [1/2] [1] = (granted, verdict, new)"
    by (metis prod_cases3)
  have "cg_calibrator toy_engine = Some ((new_calibrator (1/2))\<lparr>ic_knots_x := [1/10, 2/10], ic_knots_y := [0, 1]\<rparr>)"
    by (simp add: toy_engine_def)
  from refit_needs_drift_and_gain [OF this _ _ _ ev] have "(new = None \<longleftrightarrow> \<not> granted)" by simp
  with ev show ?thesis by blast
qed

end
