(* ===== verification/Gate.thy ===== *)
theory Gate
  imports Scoring Calibration
begin

text \<open>
  The gate of retrieval (\<open>cognitive/retrieval/gate.py\<close>): whether a query deserves memory at all, and whether the ranked pool is good
  enough to be shown. The token tables come from resource files: \<open>loaded\<close> is the parsed file, \<open>None\<close> when it is missing or not a
  dictionary of lists (\<open>core/linguistics.py\<close>).
\<close>

section \<open>Token tables\<close>

definition clean_token :: "string \<Rightarrow> string" where
  "clean_token x = py_strip (lower_pl x)"

definition fallback_trivial :: "string list" where
  "fallback_trivial = map pl [''cze/s/c'', ''czesc'', ''siema'', ''hej'', ''witaj'', ''hello'', ''hi'', ''dzi/eki'', ''dzieki'', ''super'',
     ''ok'', ''dobrze'', ''jasne'', ''thanks'']"

definition fallback_continuation :: "string list" where
  "fallback_continuation = map pl [''kontynuuj'', ''kontynuacja'', ''dalej'', ''nastepny'', ''nast/epny'', ''continue'', ''next'', ''more'']"

definition fallback_intent :: "string list" where
  "fallback_intent = map pl [''chain'', ''hop'', ''fakt'', ''dawka'', ''port'', ''token'', ''rule'', ''config'', ''szukaj'', ''znajd/x'',
     ''poka/z'', ''sprawd/x'', ''notat'', ''obsidian'', ''peptyd'', ''skrypt'', ''baza'', ''model'', ''protok/o/l'', ''badani'', ''raport'',
     ''informac'', ''pami/e/c'', ''wiedza'']"

definition lang_table :: "(string, string list) dict option \<Rightarrow> string \<Rightarrow> string list" where
  "lang_table loaded k = (case loaded of None \<Rightarrow> [] | Some d \<Rightarrow> dget_default d k [])"

definition or_fallback :: "string list \<Rightarrow> string list \<Rightarrow> string list" where
  "or_fallback xs fb = (if xs = [] then fb else xs)"

definition get_phatic_tokens :: "(string, string list) dict option \<Rightarrow> string list \<times> string list" where
  "get_phatic_tokens loaded =
     (or_fallback (map clean_token (lang_table loaded ''trivial'')) fallback_trivial,
      or_fallback (map clean_token (lang_table loaded ''continuation'')) fallback_continuation)"

definition get_intent_keywords :: "(string, string list) dict option \<Rightarrow> string list" where
  "get_intent_keywords loaded =
     or_fallback (map clean_token (filter (\<lambda>x. py_strip x \<noteq> []) (lang_table loaded ''intent_keywords''))) fallback_intent"

record gate_lang =
  gl_trivial :: "string list"
  gl_continuation :: "string list"
  gl_intent :: "string list"

definition load_gate_lang :: "(string, string list) dict option \<Rightarrow> (string, string list) dict option \<Rightarrow> gate_lang" where
  "load_gate_lang phatic intent =
     \<lparr>gl_trivial = fst (get_phatic_tokens phatic), gl_continuation = snd (get_phatic_tokens phatic), gl_intent = get_intent_keywords intent\<rparr>"

section \<open>Queries\<close>

definition opens_with :: "string \<Rightarrow> string \<Rightarrow> bool" where
  "opens_with s x \<longleftrightarrow> s = x \<or> starts_with s (x @ '' '')"

definition is_continuation_query :: "gate_lang \<Rightarrow> string \<Rightarrow> bool" where
  "is_continuation_query L query \<longleftrightarrow> list_ex (opens_with (py_strip (lower_pl query))) (gl_continuation L)"

definition bare_text :: "string \<Rightarrow> string" where
  "bare_text query = py_strip (re_sub (Chr (\<lambda>c. \<not> is_word_char c \<and> \<not> is_space c)) [] (lower_pl query))"

definition is_trivial_prompt :: "gate_lang \<Rightarrow> string \<Rightarrow> bool" where
  "is_trivial_prompt L query =
     (let c = bare_text query; ws = py_words c in
      if list_ex (opens_with c) (gl_trivial L) then True
      else ws \<noteq> [] \<and> list_ex (\<lambda>x. x \<in> set (gl_trivial L)) (take 2 ws) \<and> length ws \<le> 4)"

definition add_new :: "string list \<Rightarrow> string \<Rightarrow> string list" where
  "add_new xs x = (if x \<in> set xs then xs else xs @ [x])"

definition key_char :: "char \<Rightarrow> bool" where
  "key_char c \<longleftrightarrow> is_alnum c \<or> c = CHR ''_'' \<or> c = CHR ''-''"

definition entity_key_re :: re where
  "entity_key_re = seqs [WordB, Rep 1 None (Chr key_char), lit '':'', Rep 1 None (Chr (\<lambda>c. key_char c \<or> c = CHR '':'')), WordB]"

definition node_name_re :: re where
  "node_name_re = seqs [WordB, Rep 1 None (Chr is_letter), Rep 1 None (Chr is_digit), WordB]"

text \<open>\<open>canonicalizer\<close> is the object's \<open>canonicalize_list\<close>, if it has one; \<open>rp\<close> the text of a list of names.\<close>

definition should_retrieve_query ::
  "gate_lang \<Rightarrow> (string list \<Rightarrow> string) \<Rightarrow> string \<Rightarrow> string list \<Rightarrow> (string list \<Rightarrow> string list) option \<Rightarrow> bool \<times> string list \<times> string" where
  "should_retrieve_query L rp query explicit_entities canonicalizer =
     (if is_trivial_prompt L query then (False, [], ''conversational_turn_no_entity'')
      else
        (let given = (if explicit_entities = [] then []
                      else case canonicalizer of Some f \<Rightarrow> f explicit_entities | None \<Rightarrow> explicit_entities);
             d1 = foldl add_new given (re_findall entity_key_re query);
             d2 = foldl add_new d1 (re_findall node_name_re query);
             detected = foldl add_new d2 (filter (contains_str (py_strip (lower_pl query))) (gl_intent L))
         in if detected \<noteq> [] then (True, detected, ''entity_match: '' @ rp detected) else (True, [], ''semantic_turn'')))"

section \<open>The decision\<close>

record gate_decision =
  gd_retrieve :: bool
  gd_reason :: string
  gd_threshold :: rat
  gd_selection :: string

definition gate_says :: "bool \<Rightarrow> string \<Rightarrow> rat \<Rightarrow> string \<Rightarrow> gate_decision" where
  "gate_says b reason t sel = \<lparr>gd_retrieve = b, gd_reason = reason, gd_threshold = t, gd_selection = sel\<rparr>"

definition system_notification_prefixes :: "string list" where
  "system_notification_prefixes = [''[important: background process'', ''[system:'', ''<system_message>'', ''<system-reminder>'',
     ''[message] timestamp='']"

definition is_system_notification :: "string \<Rightarrow> bool" where
  "is_system_notification query \<longleftrightarrow> list_ex (starts_with (py_strip (lower_pl query))) system_notification_prefixes"

text \<open>Working memory: from the hot buffer, and not under a persistent key.\<close>

definition is_hot :: "scored_cand \<Rightarrow> bool" where
  "is_hot x \<longleftrightarrow> cd_source (sc_cand x) = ''hot_buffer''
     \<and> \<not> list_ex (starts_with (lower_pl (cd_subject (sc_cand x)))) persistent_key_prefixes"

definition continuation_min_score :: rat where
  "continuation_min_score = 9/50"

definition query_type :: "string \<Rightarrow> string" where
  "query_type q = (if is_symbolic_or_identifier q then ''symbolic'' else ''prose'')"

definition gate_base :: "cal_engine option \<Rightarrow> string \<Rightarrow> rat \<times> string" where
  "gate_base cal q =
     (let dflt = (if is_symbolic_or_identifier q then 1/2 else 1/4) in
      case cal of
        None \<Rightarrow> (dflt, ''no_candidate_fallback'')
      | Some g \<Rightarrow> (if active_calibrator g = None then (dflt, ''no_candidate_fallback'')
                  else (get_threshold g (Some (query_type q)) (Some dflt), ''learned'')))"

definition strong_graph_hit :: "scored_cand list \<Rightarrow> bool" where
  "strong_graph_hit xs \<longleftrightarrow> list_ex (\<lambda>x. 7/10 \<le> or_zero (cd_graph_score (sc_cand x))) xs"

definition evaluate_gate :: "gate_lang \<Rightarrow> cal_engine option \<Rightarrow> string \<Rightarrow> scored_cand list \<Rightarrow> gate_decision" where
  "evaluate_gate L cal query xs =
     (let q = py_strip query; hot_all = filter is_hot xs in
      if list_ex (starts_with (lower_pl q)) system_notification_prefixes then gate_says False ''system_notification'' 0 ''policy_skip''
      else if q = [] then
        gate_says (hot_all \<noteq> []) (if hot_all \<noteq> [] then ''empty_query_hot'' else ''empty_query'') 0 ''no_candidate_fallback''
      else if is_trivial_prompt L q then gate_says False ''casual_greeting'' 0 ''no_candidate_fallback''
      else if is_continuation_query L q then
        (if hot_all = [] then gate_says False ''continuation_prompt'' 0 ''no_candidate_fallback''
         else if filter (\<lambda>x. continuation_min_score \<le> sc_score x) hot_all = []
         then gate_says False ''continuation_below_threshold'' continuation_min_score ''no_candidate_fallback''
         else gate_says True ''continuation'' continuation_min_score ''no_candidate_fallback'')
      else
        (let (thresh, reason) = gate_base cal q; strong = strong_graph_hit xs;
             eff = (if strong then min thresh (1/5) else thresh)
         in if xs = [] then gate_says False ''empty_pool'' thresh reason
            else if max_score_of xs < eff then gate_says False ''below_threshold'' eff reason
            else gate_says True (if strong \<and> max_score_of xs < thresh then ''graph_hit'' else ''accepted'') eff reason))"

section \<open>When the gate opens\<close>

lemma max_score_of_Max: "xs \<noteq> [] \<Longrightarrow> max_score_of xs = Max (sc_score ` set xs)"
proof -
  assume "xs \<noteq> []"
  then obtain x ys where xs: "xs = x # ys" by (cases xs) auto
  have "max_score_of xs = Max (set (sc_score x # map sc_score xs))"
    by (simp add: max_score_of_def xs foldl_max_eq)
  then show ?thesis by (simp add: xs)
qed

lemma max_score_of_le: "xs \<noteq> [] \<Longrightarrow> t \<le> max_score_of xs \<longleftrightarrow> (\<exists>x \<in> set xs. t \<le> sc_score x)"
  by (auto simp: max_score_of_Max Max_ge_iff)

text \<open>
  C17: The gate opens exactly on evidence: for a query that is neither a notification nor a greeting, an empty query needs working
  memory, a continuation needs working memory that scores at least 0.18, and any other query a record that reaches the threshold
  of its kind, lowered to 0.2 when the graph is sure of some record.
\<close>

theorem gate_opens_on_evidence:
  "gd_retrieve (evaluate_gate L cal query xs) \<longleftrightarrow>
     (let q = py_strip query in
      \<not> list_ex (starts_with (lower_pl q)) system_notification_prefixes
      \<and> (if q = [] then \<exists>x \<in> set xs. is_hot x
         else \<not> is_trivial_prompt L q
           \<and> (if is_continuation_query L q then \<exists>x \<in> set xs. is_hot x \<and> 9/50 \<le> sc_score x
              else \<exists>x \<in> set xs. (if \<exists>g \<in> set xs. 7/10 \<le> or_zero (cd_graph_score (sc_cand g))
                                  then min (fst (gate_base cal q)) (1/5) else fst (gate_base cal q)) \<le> sc_score x)))"
proof -
  have strong: "strong_graph_hit xs = (\<exists>g \<in> set xs. 7/10 \<le> or_zero (cd_graph_score (sc_cand g)))"
    by (auto simp: strong_graph_hit_def list_ex_iff)
  obtain t s where gb: "gate_base cal (py_strip query) = (t, s)" by fastforce
  define eff where "eff = (if strong_graph_hit xs then min t (1/5) else t)"
  have open_iff: "xs \<noteq> [] \<and> \<not> max_score_of xs < eff \<longleftrightarrow> (\<exists>x \<in> set xs. eff \<le> sc_score x)"
    using max_score_of_le [of xs eff] by (cases "xs = []") (simp_all add: not_less)
  have hot: "filter is_hot xs \<noteq> [] \<longleftrightarrow> (\<exists>x \<in> set xs. is_hot x)"
    "filter (\<lambda>x. continuation_min_score \<le> sc_score x) (filter is_hot xs) \<noteq> [] \<longleftrightarrow> (\<exists>x \<in> set xs. is_hot x \<and> 9/50 \<le> sc_score x)"
    by (auto simp: filter_empty_conv continuation_min_score_def)
  show ?thesis
    unfolding evaluate_gate_def Let_def gb prod.case fst_conv strong [symmetric] eff_def [symmetric]
    using hot open_iff by (auto simp: gate_says_def)
qed

text \<open>
  A question that opens with a greeting is a greeting, however long it is: the memory stays closed, whatever the pool holds.
\<close>

theorem greeting_hides_the_question:
  "\<not> gd_retrieve (evaluate_gate (load_gate_lang None None) cal ''hello, which port does the backup gateway listen on?'' xs)"
proof -
  have "\<not> list_ex (starts_with (lower_pl (py_strip ''hello, which port does the backup gateway listen on?''))) system_notification_prefixes"
    "is_trivial_prompt (load_gate_lang None None) (py_strip ''hello, which port does the backup gateway listen on?'')"
    "py_strip ''hello, which port does the backup gateway listen on?'' \<noteq> []"
    by code_simp+
  then show ?thesis by (simp add: evaluate_gate_def Let_def gate_says_def)
qed

end
