(* ===== verification/Prefetch.thy ===== *)
theory Prefetch
  imports Gate Knapsack ContextBlock
begin

text \<open>
  The retrieval of memory for a prompt (\<open>cognitive/retrieval/prefetch.py\<close>): the whole of \<open>PrefetchEngine.execute\<close>, from the
  parameters over the buffer of recent answers, the policies, the pool, the ranking, the gate, the selection and the packing to the
  context block.

  The engine's state is its buffer of answers. Everything a call reads from outside is its environment: the stores, the clocks (\<open>t_in\<close>
  and \<open>t_out\<close> are \<open>time.monotonic()\<close> at the check and at the store), the calibration engine, and the orchestrator, whose policy and
  fallback recall are functions. An exception that leaves \<open>execute\<close> is \<open>None\<close>. Logging and the callback for the synchronisation leave
  no trace.
\<close>

section \<open>State and environment\<close>

record recall =
  rc_records :: "meta list"
  rc_block :: string
  rc_query :: string
  rc_count :: nat
  rc_skipped :: bool
  rc_reason :: string
  rc_threshold :: rat
  rc_selection :: string
  rc_dedup_hit :: bool

text \<open>An answer in the buffer: its time, the answer, and whether the graph walk was enabled.\<close>

type_synonym answer_buffer = "(string, rat \<times> recall \<times> bool) dict"

record prefetch =
  pf_limit :: int
  pf_budget :: int
  pf_cache :: answer_buffer

text \<open>What \<open>should_retrieve\<close> of the orchestrator returns: a tuple with a verdict and a reason, a boolean, anything else, or it raises.\<close>

datatype policy_answer = Verdict bool string | Plain bool | Unknown | Raises

record orchestrator =
  or_should :: "(string \<Rightarrow> policy_answer) option"
  or_recall :: "(string \<Rightarrow> string option \<Rightarrow> meta list option) option"

record prefetch_env =
  px_score :: score_env
  px_lang :: gate_lang
  px_cal_env :: cal_env
  px_cal :: "cal_engine option"
  px_orch :: "orchestrator option"
  px_v93 :: bool
  px_enabled :: bool
  px_strategy :: string
  px_int :: "string \<Rightarrow> int option"

abbreviation px_read :: "prefetch_env \<Rightarrow> read_env" where
  "px_read X \<equiv> sv_read (px_score X)"

section \<open>Parameters\<close>

fun int_arg :: "(string \<Rightarrow> int option) \<Rightarrow> pyval \<Rightarrow> int option" where
  "int_arg f (VInt i) = Some i"
| "int_arg f (VFloat q) = Some (if 0 \<le> q then \<lfloor>q\<rfloor> else \<lceil>q\<rceil>)"
| "int_arg f (VBool b) = Some (if b then 1 else 0)"
| "int_arg f (VStr s) = f s"
| "int_arg f _ = None"

record request =
  rq_query :: string
  rq_session :: "string option"
  rq_limit :: int
  rq_budget :: int
  rq_force :: bool
  rq_enabled :: bool
  rq_strategy :: string

text \<open>A session is a text; any other value counts as none.\<close>

definition session_of :: "meta \<Rightarrow> string option" where
  "session_of params = (case meta_get params ''session_id'' of VStr s \<Rightarrow> Some s | _ \<Rightarrow> None)"

definition resolve_context :: "prefetch_env \<Rightarrow> prefetch \<Rightarrow> meta \<Rightarrow> request option" where
  "resolve_context X pe params =
     (let E = px_read X; get = meta_get params in
      case (int_arg (px_int X) (py_or (get ''limit'') (VInt (pf_limit pe))),
            int_arg (px_int X) (py_or (get ''token_budget'') (py_or (get ''budget'') (py_or (get ''max_tokens'') (VInt (pf_budget pe)))))) of
        (Some limit, Some budget) \<Rightarrow>
          Some \<lparr>rq_query = py_strip (rd_str E (py_or (get ''query'') (VStr []))),
            rq_session = session_of params,
            rq_limit = limit, rq_budget = budget, rq_force = meta_flag params ''force'',
            rq_enabled = (case dget params ''enable_calibrated_thresholds'' of None \<Rightarrow> px_enabled X | Some v \<Rightarrow> truthy v),
            rq_strategy = py_strip (rd_str E (py_or (get ''fusion_strategy'') (VStr (px_strategy X))))\<rparr>
      | _ \<Rightarrow> None)"

section \<open>The buffer of answers\<close>

definition session_text :: "string option \<Rightarrow> string" where
  "session_text s = (case s of None \<Rightarrow> [] | Some x \<Rightarrow> x)"

definition dedup_key :: "request \<Rightarrow> string" where
  "dedup_key q = py_strip (rq_query q) @ ''||'' @ session_text (rq_session q) @ ''||'' @ int_str (rq_limit q) @ ''||'' @ int_str (rq_budget q)"

definition dedup_ttl_seconds :: rat where
  "dedup_ttl_seconds = 3/2"

definition check_dedup :: "bool \<Rightarrow> rat \<Rightarrow> request \<Rightarrow> prefetch \<Rightarrow> recall option" where
  "check_dedup hippo now q pe =
     (if rq_force q \<or> rq_query q = [] then None
      else case dget (pf_cache pe) (dedup_key q) of
          None \<Rightarrow> None
        | Some (t, res, h) \<Rightarrow>
            (if h \<noteq> hippo then None
             else if now - t < dedup_ttl_seconds then Some (res\<lparr>rc_dedup_hit := True\<rparr>) else None))"

definition store_dedup :: "bool \<Rightarrow> rat \<Rightarrow> request \<Rightarrow> recall \<Rightarrow> prefetch \<Rightarrow> prefetch" where
  "store_dedup hippo now q res pe =
     (if \<not> rq_force q \<and> rq_query q \<noteq> [] then
        (let c = dset (dedup_key q) (now, res, hippo) (pf_cache pe) in
         pe\<lparr>pf_cache := (if 200 < length c then filter (\<lambda>(k, v). now - 10 \<le> fst v) c else c)\<rparr>)
      else pe)"

section \<open>Policies\<close>

definition skip_answer :: "string \<Rightarrow> string \<Rightarrow> rat \<Rightarrow> string \<Rightarrow> recall" where
  "skip_answer query reason t sel =
     \<lparr>rc_records = [], rc_block = [], rc_query = query, rc_count = 0, rc_skipped = True, rc_reason = reason, rc_threshold = t,
      rc_selection = sel, rc_dedup_hit = False\<rparr>"

definition policy_reason :: "policy_answer \<Rightarrow> string option" where
  "policy_reason a =
     (case a of Verdict b r \<Rightarrow> if b then None else Some r | Plain b \<Rightarrow> if b then None else Some ''orchestrator_policy''
      | Unknown \<Rightarrow> None | Raises \<Rightarrow> None)"

definition orchestrator_policy_skip :: "orchestrator option \<Rightarrow> request \<Rightarrow> recall option" where
  "orchestrator_policy_skip orch q =
     (case orch of
        None \<Rightarrow> None
      | Some o' \<Rightarrow>
          (case or_should o' of
             None \<Rightarrow> None
           | Some f \<Rightarrow>
               if rq_force q then None
               else map_option (\<lambda>r. skip_answer (rq_query q) r 0 ''orchestrator_policy_gate'') (policy_reason (f (rq_query q)))))"

definition fast_policy_skip :: "request \<Rightarrow> recall option" where
  "fast_policy_skip q =
     (if \<not> rq_force q \<and> list_ex (starts_with (py_strip (lower_pl (rq_query q)))) system_notification_prefixes
      then Some (skip_answer (rq_query q) ''system_notification'' 0 ''policy_gate_fast_exit'') else None)"

section \<open>The pool\<close>

text \<open>The engine is the one whose stores the call reads, so its attributes are those of \<open>stores\<close>.\<close>

definition has_real_storage :: "stores \<Rightarrow> bool" where
  "has_real_storage S \<longleftrightarrow> st_kv S \<noteq> None \<or> st_vector S \<noteq> None"

definition orchestrator_recall_record :: "read_env \<Rightarrow> meta \<Rightarrow> candidate option" where
  "orchestrator_recall_record E d =
     (let k = rd_str E (py_or (meta_get d ''subject'') (py_or (meta_get d ''id'') (VStr ''orchestrator:rec'')));
          val = rd_str E (py_or (meta_get d ''object'') (py_or (meta_get d ''content'') (py_or (meta_get d ''text'') (VStr []))))
      in case (rd_float E (dget_default d ''vector_score'' (VFloat 0)), rd_float E (dget_default d ''score'' (VFloat 0)),
               rd_float E (py_or (dget_default d ''confidence'' (VFloat 1)) (dget_default d ''veracity'' (VFloat 1))),
               as_dict (meta_get d ''metadata'')) of
           (Some vs, Some _, Some conf, Some m) \<Rightarrow>
             Some \<lparr>cd_key = None, cd_subject = k, cd_predicate = dget_default d ''predicate'' (VStr ''stated_memory''), cd_object = val,
               cd_content = rd_str E (py_or (meta_get d ''content'') (VStr val)), cd_source = ''orchestrator'', cd_vector_score = vs,
               cd_importance = None, cd_confidence = conf,
               cd_source_type = rd_str E (dget_default d ''source_type'' (VStr ''user_explicit'')), cd_meta = m, cd_timestamp = None,
               cd_vector = None, cd_graph_score = None, cd_graph_hit = None, cd_exact = False\<rparr>
         | _ \<Rightarrow> None)"

text \<open>The loop stops at the first record that raises; those before it stay.\<close>

fun recall_loop :: "read_env \<Rightarrow> meta list \<Rightarrow> candidate list" where
  "recall_loop E [] = []"
| "recall_loop E (d # ds) = (case orchestrator_recall_record E d of None \<Rightarrow> [] | Some c \<Rightarrow> c # recall_loop E ds)"

definition orchestrator_fallback_recall :: "read_env \<Rightarrow> stores \<Rightarrow> orchestrator option \<Rightarrow> request \<Rightarrow> candidate list \<Rightarrow> candidate list" where
  "orchestrator_fallback_recall E S orch q pool =
     (if pool = [] \<and> \<not> has_real_storage S then
        (case orch of
           None \<Rightarrow> pool
         | Some o' \<Rightarrow>
             (case or_recall o' of
                None \<Rightarrow> pool
              | Some f \<Rightarrow> (case f (rq_query q) (rq_session q) of None \<Rightarrow> pool | Some ds \<Rightarrow> recall_loop E ds)))
      else pool)"

text \<open>The calibration engine as the collection of candidates asks it.\<close>

definition cal_reader :: "cal_engine option \<Rightarrow> (bool \<Rightarrow> rat \<Rightarrow> rat) option" where
  "cal_reader cal = map_option (\<lambda>g is_sym d. get_threshold g (Some (if is_sym then ''symbolic'' else ''prose'')) (Some d)) cal"

section \<open>Scores and probabilities\<close>

definition median :: "rat list \<Rightarrow> rat" where
  "median xs =
     (let s = sort xs; n = length s in
      if n = 0 then 0 else if odd n then s ! (n div 2) else (s ! (n div 2 - 1) + s ! (n div 2)) / 2)"

definition with_prob :: "rat \<Rightarrow> scored_cand \<Rightarrow> scored_cand" where
  "with_prob p x =
     x\<lparr>sc_prob := Some p, sc_cand := (sc_cand x)\<lparr>cd_meta := dset ''calibrated_prob'' (VFloat p) (cd_meta (sc_cand x))\<rparr>\<rparr>"

definition apply_calibrated_probs :: "prefetch_env \<Rightarrow> string \<Rightarrow> scored_cand list \<Rightarrow> scored_cand list" where
  "apply_calibrated_probs X query xs =
     (case px_cal X of
        None \<Rightarrow> xs
      | Some g \<Rightarrow>
          (if active_calibrator g = None then xs
           else
             (let med = median (map sc_score xs); log_q_len = sv_log (px_score X) (of_nat (max 1 (length (py_words query)))) in
              map (\<lambda>x. with_prob (py_round 4 (predict_proba (px_cal_env X) g (sc_score x) (Some (query_type query))
                       (Some [sc_dense x, sc_sparse x, sc_score x - med, log_q_len]))) x) xs)))"

definition score_pool :: "prefetch_env \<Rightarrow> request \<Rightarrow> candidate list \<Rightarrow> scored_cand list option" where
  "score_pool X q pool =
     map_option (apply_calibrated_probs X (rq_query q)) (score_candidates (px_score X) (rq_query q) (rq_strategy q) pool)"

section \<open>Selection\<close>

text \<open>\<open>xs[:limit]\<close>\<close>

definition py_prefix :: "int \<Rightarrow> 'a list \<Rightarrow> 'a list" where
  "py_prefix limit xs = (if 0 \<le> limit then take (nat limit) xs else take (length xs - nat (- limit)) xs)"

definition assemble_selection :: "prefetch_env \<Rightarrow> request \<Rightarrow> gate_decision \<Rightarrow> scored_cand list \<Rightarrow> recall + scored_cand list" where
  "assemble_selection X q gate xs =
     (if starts_with (gd_reason gate) ''continuation'' \<or> starts_with (gd_reason gate) ''empty_query_hot'' then
        (let min_thresh = (if starts_with (gd_reason gate) ''continuation'' then gd_threshold gate else 0);
             selected = py_prefix (rq_limit q) (filter (\<lambda>x. is_hot x \<and> min_thresh \<le> sc_score x) xs)
         in if selected = [] \<and> \<not> rq_force q
            then Inl (skip_answer (rq_query q) ''continuation_prompt'' 0 ''no_active_session_working_memory'')
            else Inr selected)
      else if \<not> rq_force q then
        (let salient = fst (entropy_filter (px_score X) (gd_threshold gate) xs) in
         Inr (py_prefix (rq_limit q)
           (if px_v93 X \<and> (case px_cal X of None \<Rightarrow> False | Some g \<Rightarrow> cg_enabled g)
            then filter (\<lambda>x. gd_threshold gate \<le> (case sc_prob x of Some p \<Rightarrow> p | None \<Rightarrow> sc_score x)) salient
            else salient)))
      else Inr (py_prefix (rq_limit q) xs))"

text \<open>The scored candidate as the dictionary that is packed, rendered and returned.\<close>

definition to_meta :: "scored_cand \<Rightarrow> meta" where
  "to_meta x =
     (let c = sc_cand x; opt_field = (\<lambda>k v. case v of None \<Rightarrow> [] | Some u \<Rightarrow> [(k, u)]) in
      opt_field ''key'' (map_option VStr (cd_key c))
      @ [(''subject'', VStr (cd_subject c)), (''predicate'', cd_predicate c), (''object'', VStr (cd_object c)),
         (''content'', VStr (cd_content c)), (''source'', VStr (cd_source c)), (''vector_score'', VFloat (cd_vector_score c))]
      @ opt_field ''importance_score'' (map_option VFloat (cd_importance c))
      @ [(''confidence'', VFloat (cd_confidence c)), (''source_type'', VStr (cd_source_type c)), (''metadata'', VDict (cd_meta c))]
      @ opt_field ''timestamp'' (map_option VFloat (cd_timestamp c)) @ opt_field ''vector'' (cd_vector c)
      @ (if cd_exact c then [(''exact_kv_hit'', VBool True)] else [])
      @ [(''score'', VFloat (sc_score x)), (''rrf_score'', VFloat (sc_rrf x)), (''dense_score'', VFloat (sc_dense x)),
         (''sparse_score'', VFloat (sc_sparse x)), (''graph_score'', VFloat (or_zero (cd_graph_score c))),
         (''graph_hit'', VBool (cd_graph_hit c = Some True)), (''relevance_reason'', VStr (sc_reason x))]
      @ opt_field ''_guard_damped'' (map_option VStr (sc_damped x)) @ opt_field ''calibrated_prob'' (map_option VFloat (sc_prob x)))"

definition trim_by_token_budget :: "render_env \<Rightarrow> int \<Rightarrow> scored_cand list \<Rightarrow> meta list option" where
  "trim_by_token_budget R budget selected =
     (if selected = [] \<or> budget \<le> 0 then Some [] else pack_knapsack_01 R False budget (map to_meta selected))"

definition emit_accepted :: "render_env \<Rightarrow> request \<Rightarrow> gate_decision \<Rightarrow> meta list \<Rightarrow> recall option" where
  "emit_accepted R q gate selected =
     map_option (\<lambda>block.
       \<lparr>rc_records = selected, rc_block = block, rc_query = rq_query q, rc_count = length selected, rc_skipped = False,
        rc_reason = (if gd_reason gate = ''accepted'' \<and> selected = [] then ''no_results'' else gd_reason gate),
        rc_threshold = gd_threshold gate, rc_selection = gd_selection gate, rc_dedup_hit = False\<rparr>)
       (render_context_block R 1200 (max 4000 (rq_budget q * 4)) False selected)"

section \<open>The call\<close>

text \<open>The answer of a call that is not served from the buffer.\<close>

definition fetch :: "prefetch_env \<Rightarrow> stores \<Rightarrow> rat \<Rightarrow> request \<Rightarrow> recall option" where
  "fetch X S now q =
     (let E = px_read X; R = rd_render E in
      case orchestrator_policy_skip (px_orch X) q of
        Some skip \<Rightarrow> Some skip
      | None \<Rightarrow>
        (case fast_policy_skip q of
           Some skip \<Rightarrow> Some skip
         | None \<Rightarrow>
           (case gather_candidates E S (cal_reader (px_cal X)) (rq_enabled q) True now (rq_query q) (rq_session q) (rq_limit q) of
              None \<Rightarrow> None
            | Some pool0 \<Rightarrow>
              (case score_pool X q (orchestrator_fallback_recall E S (px_orch X) q pool0) of
                 None \<Rightarrow> None
               | Some xs \<Rightarrow>
                 (let gate = evaluate_gate (px_lang X) (px_cal X) (rq_query q) xs in
                  if \<not> gd_retrieve gate \<and> \<not> rq_force q
                  then Some (skip_answer (rq_query q) (gd_reason gate) (gd_threshold gate) (gd_selection gate))
                  else (case assemble_selection X q gate xs of
                          Inl skip \<Rightarrow> Some skip
                        | Inr selected \<Rightarrow>
                            (case trim_by_token_budget R (rq_budget q) selected of
                               None \<Rightarrow> None
                             | Some budgeted \<Rightarrow> emit_accepted R q gate budgeted)))))))"

record call =
  ca_params :: meta
  ca_stores :: stores
  ca_now :: rat
  ca_in :: rat
  ca_out :: rat

definition execute :: "prefetch_env \<Rightarrow> call \<Rightarrow> prefetch \<Rightarrow> prefetch \<times> recall option" where
  "execute X c pe =
     (case resolve_context X pe (ca_params c) of
        None \<Rightarrow> (pe, None)
      | Some q \<Rightarrow>
          (case check_dedup (rd_hippo (px_read X)) (ca_in c) q pe of
             Some hit \<Rightarrow> (pe, Some hit)
           | None \<Rightarrow>
               (case fetch X (ca_stores c) (ca_now c) q of
                  None \<Rightarrow> (pe, None)
                | Some res \<Rightarrow> (store_dedup (rd_hippo (px_read X)) (ca_out c) q res pe, Some res))))"

fun run_calls :: "prefetch_env \<Rightarrow> call list \<Rightarrow> prefetch \<Rightarrow> prefetch" where
  "run_calls X [] pe = pe"
| "run_calls X (c # cs) pe = run_calls X cs (fst (execute X c pe))"

definition new_prefetch :: "int \<Rightarrow> int \<Rightarrow> prefetch" where
  "new_prefetch default_limit default_token_budget = \<lparr>pf_limit = default_limit, pf_budget = default_token_budget, pf_cache = []\<rparr>"

section \<open>What a record may show\<close>

text \<open>
  A record that the session may see: it came from the orchestrator, or it is not retired and belongs to the session.
\<close>

definition may_see :: "(pyval \<Rightarrow> string) \<Rightarrow> string option \<Rightarrow> string \<Rightarrow> string \<Rightarrow> meta \<Rightarrow> bool" where
  "may_see rp sess source key m \<longleftrightarrow>
     source = ''orchestrator'' \<or> (\<not> meta_retired m \<and> is_session_accessible (extract_effective_session rp key m) sess)"

definition shown_to :: "(pyval \<Rightarrow> string) \<Rightarrow> string option \<Rightarrow> meta \<Rightarrow> bool" where
  "shown_to rp sess rec \<longleftrightarrow>
     (\<exists>src k m. dget rec ''source'' = Some (VStr src) \<and> dget rec ''subject'' = Some (VStr k) \<and> dget rec ''metadata'' = Some (VDict m)
        \<and> may_see rp sess src k m)"

lemma may_see_agree:
  assumes "\<forall>k. k \<notin> score_keys \<longrightarrow> dget m' k = dget m k"
  shows "may_see rp sess src key m' = may_see rp sess src key m"
proof -
  have g: "dget m' ''is_superseded'' = dget m ''is_superseded''" "dget m' ''superseded'' = dget m ''superseded''"
    "dget m' ''vector_tombstone_pending'' = dget m ''vector_tombstone_pending''"
    "dget m' ''session_id'' = dget m ''session_id''" "dget m' ''source_session_id'' = dget m ''source_session_id''"
    using assms by (simp_all add: score_keys_def)
  show ?thesis
    by (simp only: may_see_def meta_retired_def meta_flag_def meta_get_def dget_default_def extract_effective_session_def g)
qed

definition cand_shown :: "(pyval \<Rightarrow> string) \<Rightarrow> string option \<Rightarrow> candidate \<Rightarrow> bool" where
  "cand_shown rp sess c \<longleftrightarrow> may_see rp sess (cd_source c) (cd_subject c) (cd_meta c)"

lemma cand_shown_same: "same_record c c' \<Longrightarrow> cand_shown rp sess c \<Longrightarrow> cand_shown rp sess c'"
  using may_see_agree [of "cd_meta c'" "cd_meta c"] by (simp add: same_record_def cand_shown_def)

lemma to_meta_fields:
  "dget (to_meta x) ''source'' = Some (VStr (cd_source (sc_cand x)))"
  "dget (to_meta x) ''subject'' = Some (VStr (cd_subject (sc_cand x)))"
  "dget (to_meta x) ''metadata'' = Some (VDict (cd_meta (sc_cand x)))"
  by (simp_all add: to_meta_def Let_def map_add_def split: option.split)

lemma shown_to_meta: "cand_shown rp sess (sc_cand x) \<Longrightarrow> shown_to rp sess (to_meta x)"
  by (simp add: shown_to_def to_meta_fields cand_shown_def)

section \<open>What each stage keeps\<close>

lemma pool_shown:
  assumes "gather_candidates E S cal enabled fallback now query sess limit = Some pool"
  shows "\<forall>c \<in> set pool. cand_shown (rd_repr E) sess c"
proof -
  obtain V gate where pool: "pool = map snd gate" and ok: "\<And>k c. (k, c) \<in> set gate \<Longrightarrow> clean E sess V k c"
    using gather_clean [OF assms] by metis
  show ?thesis
  proof
    fix c assume "c \<in> set pool"
    then obtain k where "(k, c) \<in> set gate" unfolding pool by force
    from ok [OF this] show "cand_shown (rd_repr E) sess c"
      by (auto simp: clean_def is_filtered_def cand_shown_def may_see_def split: if_splits)
  qed
qed

lemma recall_loop_orchestrator: "c \<in> set (recall_loop E ds) \<Longrightarrow> cd_source c = ''orchestrator''"
  by (induction ds) (auto simp: orchestrator_recall_record_def Let_def split: option.splits)

lemma fallback_shown:
  "\<forall>c \<in> set pool. cand_shown rp sess c \<Longrightarrow> \<forall>c \<in> set (orchestrator_fallback_recall E S orch q pool). cand_shown rp sess c"
  by (auto simp: orchestrator_fallback_recall_def cand_shown_def may_see_def dest: recall_loop_orchestrator split: option.splits)

lemma with_prob_same: "same_record c (sc_cand x) \<Longrightarrow> same_record c (sc_cand (with_prob p x))"
  by (auto simp: same_record_def with_prob_def score_keys_def)

lemma probs_same: "x \<in> set (apply_calibrated_probs X query xs) \<Longrightarrow> \<exists>y \<in> set xs. \<forall>c. same_record c (sc_cand y) \<longrightarrow> same_record c (sc_cand x)"
  using with_prob_same by (auto simp: apply_calibrated_probs_def Let_def split: option.splits if_splits)

lemma score_pool_shown:
  assumes "score_pool X q pool = Some xs" "\<forall>c \<in> set pool. cand_shown rp sess c"
  shows "\<forall>x \<in> set xs. cand_shown rp sess (sc_cand x)"
proof
  fix x assume x: "x \<in> set xs"
  from assms(1) obtain ys where ys: "score_candidates (px_score X) (rq_query q) (rq_strategy q) pool = Some ys"
    and xs: "xs = apply_calibrated_probs X (rq_query q) ys" by (auto simp: score_pool_def)
  from x [unfolded xs] obtain y where y: "y \<in> set ys" "\<And>c. same_record c (sc_cand y) \<Longrightarrow> same_record c (sc_cand x)"
    using probs_same by blast
  from scored_from_pool [OF ys y(1)] y(2) assms(2) cand_shown_same show "cand_shown rp sess (sc_cand x)" by blast
qed

lemma set_py_prefix: "set (py_prefix limit xs) \<subseteq> set xs"
  by (auto simp: py_prefix_def dest: in_set_takeD)

lemma length_py_prefix: "0 \<le> limit \<Longrightarrow> int (length (py_prefix limit xs)) \<le> limit"
  by (simp add: py_prefix_def)

lemma selection_subset: "assemble_selection X q gate xs = Inr ys \<Longrightarrow> set ys \<subseteq> set xs \<and> (0 \<le> rq_limit q \<longrightarrow> int (length ys) \<le> rq_limit q)"
proof -
  assume a: "assemble_selection X q gate xs = Inr ys"
  have e: "set (fst (entropy_filter V b xs)) \<subseteq> set xs" for V b by (auto simp: entropy_filter_def Let_def)
  from a obtain zs where "ys = py_prefix (rq_limit q) zs" "set zs \<subseteq> set xs"
    unfolding assemble_selection_def Let_def using e by (fastforce split: if_splits)
  with set_py_prefix [of "rq_limit q" zs] length_py_prefix [of "rq_limit q" zs] show ?thesis by blast
qed

lemma mset_filter_nth: "mset (map ((!) docs) (filter P [0..<length docs])) \<subseteq># mset docs"
proof -
  have "mset (map ((!) docs) (filter P [0..<length docs])) \<subseteq># mset (map ((!) docs) [0..<length docs])"
    unfolding mset_map mset_filter by (intro image_mset_subseteq_mono multiset_filter_subset)
  then show ?thesis by (simp add: map_nth)
qed

lemma dedup_subset: "knapsack_semantic_dedup E sim docs = Some rs \<Longrightarrow> mset rs \<subseteq># mset docs"
  using mset_filter_nth [of docs] by (auto simp: knapsack_semantic_dedup_def Let_def split: if_splits option.splits)

lemma competing_subset: "mset (candidates E False budget docs) \<subseteq># mset docs"
proof (cases "knapsack_semantic_dedup E None docs")
  case None
  then show ?thesis by (simp add: candidates_def)
next
  case (Some rs)
  have "mset (filter (\<lambda>r. 0 \<le> the (rank E r)) rs) \<subseteq># mset rs" unfolding mset_filter by (rule multiset_filter_subset)
  then have "mset (candidates E False budget docs) \<subseteq># mset rs" by (simp add: candidates_def Some eff_records_def)
  from subset_mset.order_trans [OF this dedup_subset [OF Some]] show ?thesis .
qed

lemma trim_spec:
  assumes "trim_by_token_budget R budget selected = Some ms"
  shows "mset ms \<subseteq># mset (map to_meta selected)
    \<and> ((\<Sum>r \<leftarrow> ms. estimate_tokens R r) \<le> budget \<or> ms = [] \<or> length ms = 1 \<and> 0 < budget)"
proof (cases "selected = [] \<or> budget \<le> 0")
  case True
  with assms show ?thesis by (auto simp: trim_by_token_budget_def)
next
  case False
  with assms have p: "pack_knapsack_01 R False budget (map to_meta selected) = Some ms" by (simp add: trim_by_token_budget_def)
  from pack_spec [OF p] obtain packed where packed: "ms = sort_key (\<lambda>r. - the (rank R r)) packed"
    "mset packed \<subseteq># mset (candidates R False budget (map to_meta selected))"
    "(\<Sum>r \<leftarrow> packed. estimate_tokens R r) \<le> budget \<or> packed = [] \<or> (\<exists>x. packed = [x])" by blast
  from packed(3) False have fits: "(\<Sum>r \<leftarrow> packed. estimate_tokens R r) \<le> budget \<or> packed = [] \<or> length packed = 1 \<and> 0 < budget" by auto
  have m: "mset ms = mset packed" using packed(1) by simp
  then have "(\<Sum>r \<leftarrow> ms. estimate_tokens R r) = (\<Sum>r \<leftarrow> packed. estimate_tokens R r)" by (metis mset_map sum_mset_sum_list)
  moreover have "length ms = length packed" "ms = [] \<longleftrightarrow> packed = []" using m by (metis size_mset, metis mset_zero_iff)
  moreover have "mset ms \<subseteq># mset (map to_meta selected)" using m packed(2) competing_subset by (metis subset_mset.order_trans)
  ultimately show ?thesis using fits by auto
qed

text \<open>What holds of a fresh answer.\<close>

definition answer_ok :: "prefetch_env \<Rightarrow> request \<Rightarrow> recall \<Rightarrow> bool" where
  "answer_ok X q r \<longleftrightarrow>
     (\<forall>rec \<in> set (rc_records r). shown_to (rd_repr (px_read X)) (rq_session q) rec)
     \<and> rc_count r = length (rc_records r) \<and> rc_query r = rq_query q
     \<and> (0 \<le> rq_limit q \<longrightarrow> int (rc_count r) \<le> rq_limit q)
     \<and> ((\<Sum>rec \<leftarrow> rc_records r. estimate_tokens (rd_render (px_read X)) rec) \<le> max 0 (rq_budget q) \<or> rc_count r = 1)
     \<and> int (py_len (rc_block r)) \<le> max 4000 (4 * rq_budget q)"

lemma skip_ok: "answer_ok X q (skip_answer (rq_query q) reason t sel)"
  by (simp add: answer_ok_def skip_answer_def py_len_def le_max_iff_disj)

lemma block_length: "render_context_block R mo mx pr rs = Some b \<Longrightarrow> 0 < mx \<Longrightarrow> int (py_len b) \<le> mx"
  using cut_block_spec by (auto simp: render_context_block_def py_len_def split: if_splits)

lemma fetch_cases:
  assumes "fetch X S now q = Some r"
  shows "(\<exists>reason t sel. r = skip_answer (rq_query q) reason t sel)
    \<or> (\<exists>pool0 xs gate selected ms.
        gather_candidates (px_read X) S (cal_reader (px_cal X)) (rq_enabled q) True now (rq_query q) (rq_session q) (rq_limit q) = Some pool0
        \<and> score_pool X q (orchestrator_fallback_recall (px_read X) S (px_orch X) q pool0) = Some xs
        \<and> assemble_selection X q gate xs = Inr selected \<and> trim_by_token_budget (rd_render (px_read X)) (rq_budget q) selected = Some ms
        \<and> emit_accepted (rd_render (px_read X)) q gate ms = Some r)"
proof (cases "orchestrator_policy_skip (px_orch X) q")
  case (Some sk)
  then have "\<exists>reason t sel. sk = skip_answer (rq_query q) reason t sel"
    by (auto simp: orchestrator_policy_skip_def split: option.splits if_splits)
  with assms Some show ?thesis by (simp add: fetch_def)
next
  case no_policy: None
  show ?thesis
  proof (cases "fast_policy_skip q")
    case (Some sk)
    then have "\<exists>reason t sel. sk = skip_answer (rq_query q) reason t sel" by (auto simp: fast_policy_skip_def split: if_splits)
    with assms no_policy Some show ?thesis by (simp add: fetch_def)
  next
    case None
    note f = assms [unfolded fetch_def Let_def no_policy None option.case]
    then obtain pool0 where pool0:
      "gather_candidates (px_read X) S (cal_reader (px_cal X)) (rq_enabled q) True now (rq_query q) (rq_session q) (rq_limit q) = Some pool0"
      by (cases "gather_candidates (px_read X) S (cal_reader (px_cal X)) (rq_enabled q) True now (rq_query q) (rq_session q) (rq_limit q)") auto
    note f = f [unfolded pool0 option.case]
    then obtain xs where xs: "score_pool X q (orchestrator_fallback_recall (px_read X) S (px_orch X) q pool0) = Some xs"
      by (cases "score_pool X q (orchestrator_fallback_recall (px_read X) S (px_orch X) q pool0)") auto
    define gate where "gate = evaluate_gate (px_lang X) (px_cal X) (rq_query q) xs"
    note f = f [unfolded xs option.case, folded gate_def]
    show ?thesis
    proof (cases "\<not> gd_retrieve gate \<and> \<not> rq_force q")
      case True
      with f show ?thesis by auto
    next
      case False
      show ?thesis
      proof (cases "assemble_selection X q gate xs")
        case (Inl sk)
        then have "\<exists>reason t sel. sk = skip_answer (rq_query q) reason t sel"
          by (auto simp: assemble_selection_def Let_def split: if_splits)
        with f False Inl show ?thesis by auto
      next
        case (Inr selected)
        note f = f [unfolded Inr sum.case]
        with False obtain ms where "trim_by_token_budget (rd_render (px_read X)) (rq_budget q) selected = Some ms"
          "emit_accepted (rd_render (px_read X)) q gate ms = Some r"
          by (cases "trim_by_token_budget (rd_render (px_read X)) (rq_budget q) selected") auto
        with pool0 xs Inr show ?thesis by blast
      qed
    qed
  qed
qed

lemma fetch_ok:
  assumes "fetch X S now q = Some r"
  shows "answer_ok X q r"
proof -
  let ?E = "px_read X"
  consider (skip) reason t sel where "r = skip_answer (rq_query q) reason t sel"
    | (emit) pool0 xs gate selected ms where
        "gather_candidates ?E S (cal_reader (px_cal X)) (rq_enabled q) True now (rq_query q) (rq_session q) (rq_limit q) = Some pool0"
        "score_pool X q (orchestrator_fallback_recall ?E S (px_orch X) q pool0) = Some xs"
        "assemble_selection X q gate xs = Inr selected" "trim_by_token_budget (rd_render ?E) (rq_budget q) selected = Some ms"
        "emit_accepted (rd_render ?E) q gate ms = Some r"
    using fetch_cases [OF assms] by blast
  then show ?thesis
  proof cases
    case skip
    then show ?thesis by (simp add: skip_ok)
  next
    case emit
    have xs: "\<forall>x \<in> set xs. cand_shown (rd_repr ?E) (rq_session q) (sc_cand x)"
      by (rule score_pool_shown [OF emit(2)] fallback_shown pool_shown [OF emit(1)])+
    note sel = selection_subset [OF emit(3)] and tr = trim_spec [OF emit(4)]
    have ms: "\<forall>m \<in> set ms. shown_to (rd_repr ?E) (rq_session q) m"
      using tr xs sel shown_to_meta by (fastforce dest!: conjunct1 dest: mset_subset_eqD simp flip: set_mset_mset)
    have "length ms \<le> length selected" using size_mset_mono [OF conjunct1 [OF tr]] by simp
    then have cnt: "0 \<le> rq_limit q \<longrightarrow> int (length ms) \<le> rq_limit q" using sel by auto
    obtain block where block: "render_context_block (rd_render ?E) 1200 (max 4000 (rq_budget q * 4)) False ms = Some block"
      and r: "rc_records r = ms" "rc_block r = block" "rc_query r = rq_query q" "rc_count r = length ms"
      using emit(5) by (auto simp: emit_accepted_def)
    have "int (py_len block) \<le> max 4000 (4 * rq_budget q)"
      using block_length [OF block] by (simp add: mult.commute)
    with ms cnt tr r show ?thesis by (auto simp: answer_ok_def)
  qed
qed

section \<open>The key of an answer\<close>

lemma last_bar:
  assumes "a @ ''||'' @ b = a' @ ''||'' @ b'" "CHR ''|'' \<notin> set b" "CHR ''|'' \<notin> set b'"
  shows "a = a' \<and> b = b'"
proof -
  have tail: "takeWhile (\<lambda>c. c \<noteq> CHR ''|'') (rev (x @ ''||'' @ y)) = rev y" if "CHR ''|'' \<notin> set y" for x y
    using that by (simp add: takeWhile_append2 [of "rev y" "\<lambda>c. c \<noteq> CHR ''|''"] takeWhile_tail) (auto intro: takeWhile_append2)
  from tail [OF assms(2), of a] tail [OF assms(3), of a'] assms(1) have "rev b = rev b'" by metis
  with assms(1) show ?thesis by simp
qed

lemma no_bar_in_int: "CHR ''|'' \<notin> set (int_str i)"
  using nat_digits_are_digits [of "nat i"] nat_digits_are_digits [of "nat (- i)"] by (auto simp: int_str_def is_digit_def)

lemma dedup_key_inject:
  assumes "dedup_key q = dedup_key q'"
  shows "rq_limit q = rq_limit q' \<and> rq_budget q = rq_budget q'"
    and "CHR ''|'' \<notin> set (session_text (rq_session q)) \<Longrightarrow> CHR ''|'' \<notin> set (session_text (rq_session q')) \<Longrightarrow>
      session_text (rq_session q) = session_text (rq_session q') \<and> py_strip (rq_query q) = py_strip (rq_query q')"
proof -
  have 1: "(py_strip (rq_query q) @ ''||'' @ session_text (rq_session q) @ ''||'' @ int_str (rq_limit q)) @ ''||'' @ int_str (rq_budget q)
      = (py_strip (rq_query q') @ ''||'' @ session_text (rq_session q') @ ''||'' @ int_str (rq_limit q')) @ ''||'' @ int_str (rq_budget q')"
    using assms by (simp add: dedup_key_def)
  note b = last_bar [OF 1 no_bar_in_int no_bar_in_int]
  then have 2: "(py_strip (rq_query q) @ ''||'' @ session_text (rq_session q)) @ ''||'' @ int_str (rq_limit q)
      = (py_strip (rq_query q') @ ''||'' @ session_text (rq_session q')) @ ''||'' @ int_str (rq_limit q')" by simp
  note l = last_bar [OF 2 no_bar_in_int no_bar_in_int]
  show "rq_limit q = rq_limit q' \<and> rq_budget q = rq_budget q'" using b l int_str_inject by blast
  show "session_text (rq_session q) = session_text (rq_session q') \<and> py_strip (rq_query q) = py_strip (rq_query q')"
    if "CHR ''|'' \<notin> set (session_text (rq_session q))" "CHR ''|'' \<notin> set (session_text (rq_session q'))"
    using l that last_bar [of "py_strip (rq_query q)" "session_text (rq_session q)" "py_strip (rq_query q')" "session_text (rq_session q')"]
    by simp
qed

lemma clean_session_Nil: "clean_session [] = []"
  by code_simp

lemma session_text_same: "session_text s = session_text s' \<Longrightarrow> is_session_accessible e s = is_session_accessible e s'"
  by (auto simp: session_text_def is_session_accessible_def clean_session_Nil Let_def split: option.splits)

section \<open>Where an answer comes from\<close>

lemma resolve_session: "resolve_context X pe p = Some q \<Longrightarrow> rq_session q = session_of p"
  by (auto simp: resolve_context_def Let_def split: option.splits)

text \<open>The answers of the buffer were fetched by earlier calls, at the time and under the key that the buffer names.\<close>

definition buffer_ok :: "prefetch_env \<Rightarrow> prefetch \<Rightarrow> call list \<Rightarrow> prefetch \<Rightarrow> bool" where
  "buffer_ok X pe0 cs pe \<longleftrightarrow>
     pf_limit pe = pf_limit pe0 \<and> pf_budget pe = pf_budget pe0 \<and> wf_dict (pf_cache pe)
     \<and> (\<forall>k t res h. dget (pf_cache pe) k = Some (t, res, h) \<longrightarrow>
          (\<exists>c \<in> set cs. \<exists>q. resolve_context X pe0 (ca_params c) = Some q \<and> dedup_key q = k \<and> t = ca_out c
             \<and> fetch X (ca_stores c) (ca_now c) q = Some res))"

lemma buffer_okD: "buffer_ok X pe0 cs pe \<Longrightarrow> dget (pf_cache pe) k = Some (t, res, h) \<Longrightarrow>
    \<exists>c \<in> set cs. \<exists>q. resolve_context X pe0 (ca_params c) = Some q \<and> dedup_key q = k \<and> t = ca_out c
      \<and> fetch X (ca_stores c) (ca_now c) q = Some res"
  unfolding buffer_ok_def by blast

lemma buffer_ok_mono: "buffer_ok X pe0 cs pe \<Longrightarrow> set cs \<subseteq> set cs' \<Longrightarrow> buffer_ok X pe0 cs' pe"
  unfolding buffer_ok_def by blast

lemma resolve_same: "pf_limit pe = pf_limit pe0 \<Longrightarrow> pf_budget pe = pf_budget pe0 \<Longrightarrow> resolve_context X pe p = resolve_context X pe0 p"
  by (simp add: resolve_context_def)

lemma dget_filter: "wf_dict d \<Longrightarrow> dget (filter P d) k = Some v \<Longrightarrow> dget d k = Some v"
  unfolding wf_dict_def by (metis map_of_SomeD map_of_is_SomeI filter_is_subset subsetD)

lemma store_ok:
  assumes "buffer_ok X pe0 cs pe" "resolve_context X pe0 (ca_params c) = Some q" "fetch X (ca_stores c) (ca_now c) q = Some res"
  shows "buffer_ok X pe0 (cs @ [c]) (store_dedup h (ca_out c) q res pe)"
proof -
  let ?d = "dset (dedup_key q) (ca_out c, res, h) (pf_cache pe)"
  have wf: "wf_dict ?d" using assms(1) by (simp add: buffer_ok_def wf_dict_dset)
  have origin: "\<exists>c0 \<in> set (cs @ [c]). \<exists>q0. resolve_context X pe0 (ca_params c0) = Some q0 \<and> dedup_key q0 = k \<and> t = ca_out c0
      \<and> fetch X (ca_stores c0) (ca_now c0) q0 = Some r" if "dget ?d k = Some (t, r, b)" for k t r b
    using that assms(2,3) buffer_okD [OF assms(1), of k t r b] by (auto split: if_splits)
  show ?thesis
  proof (cases "\<not> rq_force q \<and> rq_query q \<noteq> []")
    case True
    define d' where "d' = (if 200 < length ?d then filter (\<lambda>(k, v). ca_out c - 10 \<le> fst v) ?d else ?d)"
    have d': "wf_dict d'" unfolding d'_def using wf wf_dict_filter [OF wf] by (cases "200 < length ?d") (simp_all only: if_True if_False)
    have d'_get: "dget ?d k = Some v" if "dget d' k = Some v" for k v
      using that unfolding d'_def by (cases "200 < length ?d") (auto simp del: dget_dset intro: dget_filter [OF wf])
    have "store_dedup h (ca_out c) q res pe = pe\<lparr>pf_cache := d'\<rparr>" using True by (simp add: store_dedup_def Let_def d'_def)
    with assms(1) d' origin [OF d'_get] show ?thesis by (simp add: buffer_ok_def)
  next
    case False
    then have "store_dedup h (ca_out c) q res pe = pe" by (auto simp: store_dedup_def)
    with buffer_ok_mono [OF assms(1), of "cs @ [c]"] show ?thesis by auto
  qed
qed

lemma execute_ok: "buffer_ok X pe0 cs pe \<Longrightarrow> buffer_ok X pe0 (cs @ [c]) (fst (execute X c pe))"
proof -
  assume ok: "buffer_ok X pe0 cs pe"
  have mono: "buffer_ok X pe0 (cs @ [c]) pe" by (rule buffer_ok_mono [OF ok]) auto
  have res: "resolve_context X pe p = resolve_context X pe0 p" for p
    using ok by (intro resolve_same) (simp_all add: buffer_ok_def)
  show ?thesis
    using mono store_ok [OF ok] by (auto simp: execute_def res split: option.split)
qed

lemma run_ok: "buffer_ok X pe0 cs0 pe \<Longrightarrow> buffer_ok X pe0 (cs0 @ cs) (run_calls X cs pe)"
proof (induction cs arbitrary: cs0 pe)
  case (Cons c cs)
  from Cons.IH [OF execute_ok [OF Cons.prems]] show ?case by simp
qed simp

lemma run_from_start: "buffer_ok X (new_prefetch dl db) cs (run_calls X cs (new_prefetch dl db))"
  using run_ok [of X "new_prefetch dl db" "[]" "new_prefetch dl db" cs] by (simp add: buffer_ok_def new_prefetch_def)

text \<open>The request of a call, and what it may be answered with: a fresh answer, or one fetched for the same key within the window.\<close>

lemma answer_origin:
  assumes "execute X c (run_calls X cs (new_prefetch dl db)) = (pe', Some r)"
  obtains q c0 q0 r0 where "resolve_context X (new_prefetch dl db) (ca_params c) = Some q"
    "resolve_context X (new_prefetch dl db) (ca_params c0) = Some q0" "fetch X (ca_stores c0) (ca_now c0) q0 = Some r0"
    "r = r0 \<or> r = r0\<lparr>rc_dedup_hit := True\<rparr>"
    "c0 = c \<and> q0 = q \<or> c0 \<in> set cs \<and> dedup_key q0 = dedup_key q \<and> ca_in c - ca_out c0 < dedup_ttl_seconds \<and> \<not> rq_force q"
proof -
  let ?pe = "run_calls X cs (new_prefetch dl db)"
  note ok = run_from_start [of X dl db cs]
  then have res: "resolve_context X ?pe p = resolve_context X (new_prefetch dl db) p" for p
    by (intro resolve_same) (simp_all add: buffer_ok_def)
  obtain q where q: "resolve_context X (new_prefetch dl db) (ca_params c) = Some q"
    using assms by (cases "resolve_context X (new_prefetch dl db) (ca_params c)") (auto simp: execute_def res)
  show ?thesis
  proof (cases "check_dedup (rd_hippo (px_read X)) (ca_in c) q ?pe")
    case None
    with assms q have "fetch X (ca_stores c) (ca_now c) q = Some r"
      by (auto simp: execute_def res split: option.splits)
    with q that show ?thesis by blast
  next
    case (Some hit)
    with assms q have r: "r = hit" by (simp add: execute_def res)
    from Some obtain t res0 h where e: "dget (pf_cache ?pe) (dedup_key q) = Some (t, res0, h)" "ca_in c - t < dedup_ttl_seconds"
      "hit = res0\<lparr>rc_dedup_hit := True\<rparr>" "\<not> rq_force q"
      by (auto simp: check_dedup_def split: if_splits option.splits)
    from buffer_okD [OF ok e(1)] obtain c0 q0 where "c0 \<in> set cs" "resolve_context X (new_prefetch dl db) (ca_params c0) = Some q0"
      "dedup_key q0 = dedup_key q" "t = ca_out c0" "fetch X (ca_stores c0) (ca_now c0) q0 = Some res0" by blast
    with q e r that show ?thesis by blast
  qed
qed

lemma answer_ok_hit [simp]: "answer_ok X q (r\<lparr>rc_dedup_hit := True\<rparr>) = answer_ok X q r"
  by (simp add: answer_ok_def)

section \<open>Properties\<close>

text \<open>
  C5: Recall stays in its session: after any sequence of calls, with any contents of the stores at each of them, every record that a
  call returns, fresh or from the buffer, comes from the orchestrator, or it is not marked as retired and is accessible to the
  session that asks; provided no session identifier contains a bar.
\<close>

theorem recall_stays_in_session:
  assumes "execute X c (run_calls X cs (new_prefetch dl db)) = (pe', Some r)"
    and "\<forall>c' \<in> set (c # cs). CHR ''|'' \<notin> set (session_text (session_of (ca_params c')))"
  shows "\<forall>rec \<in> set (rc_records r). shown_to (rd_repr (px_read X)) (session_of (ca_params c)) rec"
proof -
  obtain q c0 q0 r0 where q: "resolve_context X (new_prefetch dl db) (ca_params c) = Some q"
    "resolve_context X (new_prefetch dl db) (ca_params c0) = Some q0" and f: "fetch X (ca_stores c0) (ca_now c0) q0 = Some r0"
    and r: "r = r0 \<or> r = r0\<lparr>rc_dedup_hit := True\<rparr>" and o: "c0 = c \<and> q0 = q \<or> c0 \<in> set cs \<and> dedup_key q0 = dedup_key q"
    using answer_origin [OF assms(1)] by metis
  note s = resolve_session [OF q(1)] resolve_session [OF q(2)]
  have "session_text (rq_session q0) = session_text (rq_session q)"
    using o dedup_key_inject(2) [of q0 q] assms(2) s by auto
  then have "is_session_accessible e (rq_session q0) = is_session_accessible e (rq_session q)" for e by (rule session_text_same)
  then have "shown_to rp (rq_session q0) rec = shown_to rp (rq_session q) rec" for rp rec by (simp add: shown_to_def may_see_def)
  moreover have "rc_records r = rc_records r0" using r by auto
  ultimately show ?thesis using fetch_ok [OF f] s by (simp add: answer_ok_def)
qed

text \<open>
  C6: Recall keeps its limits: whatever happened before, an answer, fresh or buffered, has at most \<open>limit\<close> records, costs at most the
  token budget unless it is a single record, and its context block has at most the larger of 4000 and four times the budget
  characters, all by the limits of the call itself.
\<close>

theorem recall_keeps_its_limits:
  assumes "execute X c (run_calls X cs (new_prefetch dl db)) = (pe', Some r)"
  shows "\<exists>q. resolve_context X (new_prefetch dl db) (ca_params c) = Some q \<and> rc_count r = length (rc_records r)
    \<and> (0 \<le> rq_limit q \<longrightarrow> int (rc_count r) \<le> rq_limit q)
    \<and> ((\<Sum>rec \<leftarrow> rc_records r. estimate_tokens (rd_render (px_read X)) rec) \<le> max 0 (rq_budget q) \<or> rc_count r = 1)
    \<and> int (py_len (rc_block r)) \<le> max 4000 (4 * rq_budget q)"
proof -
  obtain q c0 q0 r0 where q: "resolve_context X (new_prefetch dl db) (ca_params c) = Some q"
    and f: "fetch X (ca_stores c0) (ca_now c0) q0 = Some r0" and r: "r = r0 \<or> r = r0\<lparr>rc_dedup_hit := True\<rparr>"
    and "resolve_context X (new_prefetch dl db) (ca_params c0) = Some q0"
    and o: "c0 = c \<and> q0 = q \<or> c0 \<in> set cs \<and> dedup_key q0 = dedup_key q \<and> ca_in c - ca_out c0 < dedup_ttl_seconds \<and> \<not> rq_force q"
    by (rule answer_origin [OF assms])
  have "rq_limit q0 = rq_limit q" "rq_budget q0 = rq_budget q" using o dedup_key_inject(1) [of q0 q] by auto
  with fetch_ok [OF f] q r show ?thesis by (auto simp: answer_ok_def)
qed

text \<open>
  C30: What is served from the buffer is recent and was asked for: an answer is the result of running the retrieval pipeline on the
  stores of this call, or of one earlier call with the same key that ended less than 1.5 seconds before, and then the call is not
  forced.
\<close>

theorem answers_are_recent:
  assumes "execute X c (run_calls X cs (new_prefetch dl db)) = (pe', Some r)"
  shows "\<exists>c0 q q0 r0. resolve_context X (new_prefetch dl db) (ca_params c) = Some q
    \<and> resolve_context X (new_prefetch dl db) (ca_params c0) = Some q0 \<and> fetch X (ca_stores c0) (ca_now c0) q0 = Some r0
    \<and> (r = r0 \<or> r = r0\<lparr>rc_dedup_hit := True\<rparr>)
    \<and> (c0 = c \<and> q0 = q \<or> c0 \<in> set cs \<and> dedup_key q0 = dedup_key q \<and> ca_in c - ca_out c0 < 3/2 \<and> \<not> rq_force q)"
proof -
  obtain q c0 q0 r0 where "resolve_context X (new_prefetch dl db) (ca_params c) = Some q"
    "resolve_context X (new_prefetch dl db) (ca_params c0) = Some q0" "fetch X (ca_stores c0) (ca_now c0) q0 = Some r0"
    "r = r0 \<or> r = r0\<lparr>rc_dedup_hit := True\<rparr>"
    "c0 = c \<and> q0 = q \<or> c0 \<in> set cs \<and> dedup_key q0 = dedup_key q \<and> ca_in c - ca_out c0 < dedup_ttl_seconds \<and> \<not> rq_force q"
    using answer_origin [OF assms] .
  note origin = this [unfolded dedup_ttl_seconds_def]
  show ?thesis by (rule exI [of _ c0], rule exI [of _ q], rule exI [of _ q0], rule exI [of _ r0]) (intro conjI origin)
qed

section \<open>What the key of an answer leaves out\<close>

definition plain_request :: "string \<Rightarrow> string option \<Rightarrow> request" where
  "plain_request query session =
     \<lparr>rq_query = query, rq_session = session, rq_limit = 50, rq_budget = 1500, rq_force = False, rq_enabled = True, rq_strategy = []\<rparr>"

lemma dget_filter_kept: "dget d k = Some v \<Longrightarrow> P (k, v) \<Longrightarrow> dget (filter P d) k = Some v"
  by (induction d) (auto split: if_splits)

lemma stored_answer:
  "\<not> rq_force q \<Longrightarrow> rq_query q \<noteq> [] \<Longrightarrow> dget (pf_cache (store_dedup h t q res pe)) (dedup_key q) = Some (t, res, h)"
  by (auto simp: store_dedup_def Let_def intro!: dget_filter_kept)

lemma plain_call:
  assumes "ca_params c = [(''query'', VStr u), (''session_id'', VStr s)]"
  shows "resolve_context X pe (ca_params c) = Some \<lparr>rq_query = py_strip u, rq_session = Some s, rq_limit = pf_limit pe,
     rq_budget = pf_budget pe, rq_force = False, rq_enabled = px_enabled X,
     rq_strategy = py_strip (rd_str (px_read X) (py_or VNone (VStr (px_strategy X))))\<rparr>"
  by (cases u) (simp_all add: assms resolve_context_def Let_def meta_get_def dget_default_def py_or_def session_of_def meta_flag_def)


text \<open>
  The fusion strategy and the switch for calibrated thresholds are not part of the key: a call that asks for another fusion within
  the window is answered with the ranking of the first.
\<close>

theorem buffer_ignores_the_strategy:
  assumes "rq_query q \<noteq> []" "\<not> rq_force q" "now - t < 3/2"
  shows "check_dedup h now (q\<lparr>rq_strategy := strategy, rq_enabled := enabled\<rparr>) (store_dedup h t q res (new_prefetch dl db))
    = Some (res\<lparr>rc_dedup_hit := True\<rparr>)"
  using assms by (simp add: check_dedup_def store_dedup_def Let_def new_prefetch_def dedup_ttl_seconds_def dedup_key_def)

theorem buffer_ignores_the_strategy_witness:
  "check_dedup True 1 ((plain_request ''port'' None)\<lparr>rq_strategy := ''rrf'', rq_enabled := False\<rparr>)
    (store_dedup True 0 (plain_request ''port'' None) (skip_answer ''x'' ''y'' 0 ''z'') (new_prefetch 50 1500))
   = Some ((skip_answer ''x'' ''y'' 0 ''z'')\<lparr>rc_dedup_hit := True\<rparr>)"
  by (rule buffer_ignores_the_strategy) (simp_all add: plain_request_def)

section \<open>Two concrete calls\<close>

definition toy_px :: prefetch_env where
  "toy_px = \<lparr>px_score = toy_score, px_lang = load_gate_lang None None, px_cal_env = toy_cal_env, px_cal = None, px_orch = None,
     px_v93 = False, px_enabled = True, px_strategy = [], px_int = (\<lambda>_. None)\<rparr>"

definition toy_call :: "rat \<Rightarrow> call" where
  "toy_call t = \<lparr>ca_params = [(''query'', VStr ''gateway port''), (''session_id'', VStr ''s1'')],
     ca_stores = \<lparr>st_hot = None, st_kv = None, st_vector = None, st_graph = None\<rparr>, ca_now = 10, ca_in = t, ca_out = t\<rparr>"

lemma toy_answer:
  "map_option rc_reason (snd (execute toy_px (toy_call 1) (run_calls toy_px [toy_call 0] (new_prefetch 50 1500)))) = Some ''empty_pool''
   \<and> map_option rc_dedup_hit (snd (execute toy_px (toy_call 1) (run_calls toy_px [toy_call 0] (new_prefetch 50 1500)))) = Some True"
  by code_simp

text \<open>The answer to \<open>alice\<close> is given to the session \<open>guest||alice\<close>, whose own stores are not asked.\<close>

definition barred_call :: "string \<Rightarrow> string \<Rightarrow> rat \<Rightarrow> call" where
  "barred_call query session t = (toy_call t)\<lparr>ca_params := [(''query'', VStr query), (''session_id'', VStr session)]\<rparr>"


theorem recall_stays_in_session_witness:
  "\<exists>pe' r. execute toy_px (toy_call 1) (run_calls toy_px [toy_call 0] (new_prefetch 50 1500)) = (pe', Some r)
    \<and> (\<forall>rec \<in> set (rc_records r). shown_to (rd_repr (px_read toy_px)) (Some ''s1'') rec)"
proof -
  obtain pe' r where e: "execute toy_px (toy_call 1) (run_calls toy_px [toy_call 0] (new_prefetch 50 1500)) = (pe', Some r)"
    using toy_answer by (cases "execute toy_px (toy_call 1) (run_calls toy_px [toy_call 0] (new_prefetch 50 1500))") auto
  have "session_of (ca_params (toy_call t)) = Some ''s1''" for t
    by (simp add: toy_call_def session_of_def meta_get_def dget_default_def)
  with recall_stays_in_session [OF e] e show ?thesis by (auto simp: session_text_def)
qed

theorem recall_keeps_its_limits_witness:
  "\<exists>pe' r. execute toy_px (toy_call 1) (run_calls toy_px [toy_call 0] (new_prefetch 50 1500)) = (pe', Some r)
    \<and> rc_count r = length (rc_records r)"
proof -
  obtain pe' r where e: "execute toy_px (toy_call 1) (run_calls toy_px [toy_call 0] (new_prefetch 50 1500)) = (pe', Some r)"
    using toy_answer by (cases "execute toy_px (toy_call 1) (run_calls toy_px [toy_call 0] (new_prefetch 50 1500))") auto
  from recall_keeps_its_limits [OF e] e show ?thesis by blast
qed

theorem answers_are_recent_witness:
  "\<exists>pe' r q. execute toy_px (toy_call 1) (run_calls toy_px [toy_call 0] (new_prefetch 50 1500)) = (pe', Some r)
    \<and> resolve_context toy_px (new_prefetch 50 1500) (ca_params (toy_call 1)) = Some q"
proof -
  obtain pe' r where e: "execute toy_px (toy_call 1) (run_calls toy_px [toy_call 0] (new_prefetch 50 1500)) = (pe', Some r)"
    using toy_answer by (cases "execute toy_px (toy_call 1) (run_calls toy_px [toy_call 0] (new_prefetch 50 1500))") auto
  from answers_are_recent [OF e] e show ?thesis by blast
qed

end
