(* ===== verification/SessionTracker.thy ===== *)
theory SessionTracker
  imports WriteSaga Trajectory "HOL-Library.Multiset"
begin

text \<open>
  The life cycle of a session (\<open>l1_working/session_tracker.py\<close>): the prefix of the system prompt, the start of a session, the keys it
  touched, and its end, which consolidates and reconciles the working memory with the durable stores.

  The engine is the state of the write path, the trajectory buffer, the procedures of the sleep baker and the layers that are reset
  (\<open>en_layers\<close>). Parameters: the reset of the layers, the sleep cycle of the auditor (\<open>None\<close>: it raises), the entities of the
  domain registry, and marking a node of the graph. Compiling a skill writes files and catches every exception, so it leaves no trace
  here; durations are left out.
\<close>

section \<open>The immutable prefix\<close>

text \<open>\<open>json.dumps(v, ensure_ascii=False)\<close>: only quotes, backslashes and control characters are escaped.\<close>

definition plain_escape :: "char \<Rightarrow> string" where
  "plain_escape c = (let n = of_char c :: nat in if n < 32 \<or> n = 34 \<or> n = 92 then json_escape_char n else [c])"

definition plain_quote :: "string \<Rightarrow> string" where
  "plain_quote s = [CHR 0x22] @ concat (map plain_escape s) @ [CHR 0x22]"

fun plain_dumps :: "(rat \<Rightarrow> string) \<Rightarrow> pyval \<Rightarrow> string"
  and plain_items :: "(rat \<Rightarrow> string) \<Rightarrow> pyval list \<Rightarrow> string list"
  and plain_members :: "(rat \<Rightarrow> string) \<Rightarrow> (string \<times> pyval) list \<Rightarrow> string list" where
  "plain_dumps fr VNone = ''null''"
| "plain_dumps fr (VBool b) = (if b then ''true'' else ''false'')"
| "plain_dumps fr (VInt i) = int_str i"
| "plain_dumps fr (VFloat r) = fr r"
| "plain_dumps fr (VStr s) = plain_quote s"
| "plain_dumps fr (VList xs) = ''['' @ py_join '', '' (plain_items fr xs) @ '']''"
| "plain_dumps fr (VDict d) = ''{'' @ py_join '', '' (plain_members fr d) @ ''}''"
| "plain_items fr [] = []"
| "plain_items fr (x # xs) = plain_dumps fr x # plain_items fr xs"
| "plain_members fr [] = []"
| "plain_members fr ((k, v) # d) = (plain_quote k @ '': '' @ plain_dumps fr v) # plain_members fr d"

record base_entity =
  be_id :: "string option"
  be_name :: "string option"
  be_aliases :: "string list"

definition or_none :: "string option \<Rightarrow> string" where
  "or_none x = (case x of None \<Rightarrow> ''None'' | Some s \<Rightarrow> s)"

definition rule_lines :: "string list \<Rightarrow> string list" where
  "rule_lines rules = (if rules = [] then [] else ''## System Constraints:'' # map (\<lambda>r. ''- '' @ r) (sort rules))"

definition state_lines :: "(rat \<Rightarrow> string) \<Rightarrow> (string, state_dict) dict \<Rightarrow> string list" where
  "state_lines fr states =
     (if states = [] then [] else ''## Verified Source-of-Truth State:'' #
        map (\<lambda>k. ''- '' @ k @ '': '' @ plain_dumps fr (case dget states k of None \<Rightarrow> VNone | Some v \<Rightarrow> sd_value v)) (sort (dkeys states)))"

definition entity_lines :: "base_entity list \<Rightarrow> string list" where
  "entity_lines ents =
     (if ents = [] then [] else ''## Registered Canonical Entities:'' #
        map (\<lambda>e. ''- '' @ or_none (be_id e) @ '': '' @ or_none (be_name e) @ '' (aliases: '' @ py_join '', '' (sort (be_aliases e)) @ '')'')
          (sort_key (\<lambda>e. case be_id e of None \<Rightarrow> [] | Some i \<Rightarrow> i) ents))"

definition build_immutable_prefix :: "(rat \<Rightarrow> string) \<Rightarrow> (string, state_dict) dict \<Rightarrow> string list \<Rightarrow> base_entity list \<Rightarrow> string" where
  "build_immutable_prefix fr states rules ents =
     py_join [CHR 0x0A]
       ([''# === HERMES AGENT IMMUTABLE KERNEL STATE ==='',
         ''<!-- KV-CACHE-PREFIX-GUARD: DO NOT MODIFY DURING SESSION -->'']
        @ rule_lines rules @ state_lines fr states @ entity_lines ents
        @ [''# === END OF IMMUTABLE KERNEL STATE ==='' @ [CHR 0x0A]])"

section \<open>State\<close>

record procedure =
  pc_id :: string
  pc_success :: rat
  pc_invocations :: int

record ('g, 'v, 'l) engine =
  en_wp :: "('g, 'v) wp"
  en_steps :: tbuf
  en_baked :: "(string, procedure) dict"
  en_layers :: 'l

record session_meta =
  sn_start :: rat
  sn_entities :: "string list"
  sn_prefix :: string
  sn_touched :: "string set option"

record session_hook =
  hk_active :: "(string, session_meta) dict"
  hk_proposed :: "string set"
  hk_consolidated :: "string set"

definition new_hook :: session_hook where
  "new_hook = \<lparr>hk_active = [], hk_proposed = {}, hk_consolidated = {}\<rparr>"

record stats =
  cs_status :: string
  cs_records :: int
  cs_superseded :: int
  cs_proposed :: "string list"

definition new_stats :: stats where
  "new_stats = \<lparr>cs_status = ''ok'', cs_records = 0, cs_superseded = 0, cs_proposed = []\<rparr>"

record ('g, 'v, 'r, 'l) session_env =
  so_wp :: "('g, 'v, 'r) wp_env"
  so_reset :: "'l \<Rightarrow> 'l"
  so_registry :: "string list"
  so_sleep :: "string set \<Rightarrow> ('g, 'v, 'l) engine \<Rightarrow> ('g, 'v, 'l) engine \<times> stats option"
  so_mark :: "string \<Rightarrow> 'g \<Rightarrow> 'g option"

section \<open>Start of a session\<close>

definition cleanup_stale_sessions :: "rat \<Rightarrow> rat \<Rightarrow> session_hook \<Rightarrow> session_hook \<times> nat" where
  "cleanup_stale_sessions now ttl h =
     (let stale = filter (\<lambda>(sid, m). ttl < now - sn_start m) (hk_active h)
      in (h\<lparr>hk_active := fold ddel (dkeys stale) (hk_active h)\<rparr>, length stale))"

definition default_rules :: "string list" where
  "default_rules = [''Deterministic execution required'', ''Use search_memory for dynamic relations'']"

definition on_session_start ::
  "('g, 'v, 'r, 'l) session_env \<Rightarrow> rat \<Rightarrow> string \<Rightarrow> string list option \<Rightarrow> string list \<Rightarrow> session_hook \<times> ('g, 'v, 'l) engine \<Rightarrow>
     (session_hook \<times> ('g, 'v, 'l) engine) \<times> (string \<times> (string, state_dict) dict) option" where
  "on_session_start E now sid entities rules st =
     (let (h, en) = st;
          h1 = fst (cleanup_stale_sessions now 7200 h);
          h2 = h1\<lparr>hk_consolidated := hk_consolidated h1 - {sid}\<rparr>;
          en2 = en\<lparr>en_layers := so_reset E (en_layers en)\<rparr>;
          ents = (case entities of None \<Rightarrow> so_registry E | Some es \<Rightarrow> es)
      in case w_kv (en_wp en) of
           None \<Rightarrow> ((h2, en2), None)
         | Some s \<Rightarrow>
             (if \<not> conn_open s then ((h2, en2), None)
              else
                (let states = get_states (we_fp (so_wp E)) (kdb s) ents;
                     prefix = build_immutable_prefix (we_fr (so_wp E)) states (if rules = [] then default_rules else rules) [];
                     meta = \<lparr>sn_start = now, sn_entities = ents, sn_prefix = prefix, sn_touched = None\<rparr>
                 in ((h2\<lparr>hk_active := dset sid meta (hk_active h2)\<rparr>, en2), Some (prefix, states)))))"

section \<open>What a session did\<close>

abbreviation hot_repr :: "('g, 'v, 'r, 'l) session_env \<Rightarrow> pyval \<Rightarrow> string" where
  "hot_repr E \<equiv> ae_repr (we_arb (so_wp E))"
definition touched_in :: "('g, 'v) wp \<Rightarrow> string \<Rightarrow> string set" where
  "touched_in w sid = dget_default (w_touched w) sid {}"

definition unproposed :: "string set \<Rightarrow> string \<Rightarrow> procedure \<Rightarrow> bool" where
  "unproposed proposed i p \<longleftrightarrow> i \<notin> proposed \<and> 9/10 \<le> pc_success p \<and> 5 \<le> pc_invocations p"

definition has_session_activity ::
  "('g, 'v, 'r, 'l) session_env \<Rightarrow> string \<Rightarrow> session_hook \<Rightarrow> ('g, 'v, 'l) engine \<Rightarrow> bool option" where
  "has_session_activity E sid h en =
     (let w = en_wp en in
      if touched_in w sid \<noteq> {} then Some True
      else if sid \<noteq> ''idle_sess'' \<and> touched_in w ''default'' \<noteq> {} then Some True
      else if (case dget (hk_active h) sid of None \<Rightarrow> False | Some m \<Rightarrow> sn_touched m \<noteq> None \<and> sn_touched m \<noteq> Some {}) then Some True
      else case get_session_entries (hot_repr E) (Some sid) (w_hot w) of
          Inl _ \<Rightarrow> None
        | Inr es \<Rightarrow>
            (if es \<noteq> [] then Some True
             else if sid \<in> hk_consolidated h then Some False
             else if sid \<in> set (t_sess (en_steps en)) then Some True
             else Some (list_ex (\<lambda>(i, p). unproposed (hk_proposed h) i p) (en_baked en))))"

definition pop_touched :: "string \<Rightarrow> ('g, 'v) wp \<Rightarrow> ('g, 'v) wp \<times> string set" where
  "pop_touched sid w = (w\<lparr>w_touched := ddel sid (w_touched w)\<rparr>, touched_in w sid)"

definition get_touched_keys ::
  "('g, 'v, 'r, 'l) session_env \<Rightarrow> string \<Rightarrow> session_hook \<Rightarrow> ('g, 'v, 'l) engine \<Rightarrow> ('g, 'v, 'l) engine \<times> string set option" where
  "get_touched_keys E sid h en =
     (let (w1, ks1) = pop_touched sid (en_wp en);
          (w2, ks2) = (if sid \<noteq> ''idle_sess'' then pop_touched ''default'' w1 else (w1, {}));
          ks3 = (case dget (hk_active h) sid of None \<Rightarrow> {} | Some m \<Rightarrow> (case sn_touched m of None \<Rightarrow> {} | Some t \<Rightarrow> t))
      in (en\<lparr>en_wp := w2\<rparr>,
          case get_session_entries (hot_repr E) (Some sid) (w_hot w2) of
            Inl _ \<Rightarrow> None
          | Inr es \<Rightarrow> Some (ks1 \<union> ks2 \<union> ks3 \<union> {k \<in> e_key ` set es. k \<noteq> []})))"

section \<open>Reconciliation\<close>

definition retired_in_store :: "('g, 'v, 'r, 'l) session_env \<Rightarrow> string set \<Rightarrow> ('g, 'v) wp \<Rightarrow> string set" where
  "retired_in_store E touched w =
     (case w_kv w of
        None \<Rightarrow> {}
      | Some s \<Rightarrow>
          (if touched = {} then {}
           else case get_all_sync (we_fp (so_wp E)) 1000 0 True s of
               Inl _ \<Rightarrow> {}
             | Inr all \<Rightarrow>
                 (let roots = key_root ` touched - {[]} in
                  fst ` set (filter (\<lambda>(k, sd). meta_flag (sd_metadata sd) ''is_superseded'' \<and> (k \<in> touched \<or> key_root k \<in> roots)) all))))"

definition superseded_keys :: "('g, 'v, 'r, 'l) session_env \<Rightarrow> string set \<Rightarrow> ('g, 'v) wp \<Rightarrow> string set" where
  "superseded_keys E touched w =
     retired_in_store E touched w \<union> superseded_history (w_hot w) \<union> e_key ` set (filter superseded_entry (buffer (w_hot w)))"

text \<open>
  The set \<open>l2_consolidated_sessions\<close> of an entry is a list of its members; a value that is neither a list nor a set has no
  \<open>add\<close> and raises (\<open>None\<close>).
\<close>

definition mark_entry :: "string \<Rightarrow> hot_entry \<Rightarrow> hot_entry option" where
  "mark_entry sid e =
     (let m = e_metadata e; flag = dset ''l2_consolidated'' (VBool True) in
      case dget m ''l2_consolidated_sessions'' of
        None \<Rightarrow> Some (e\<lparr>e_metadata := flag (dset ''l2_consolidated_sessions'' (VList (if sid = [] then [] else [VStr sid])) m)\<rparr>)
      | Some (VList xs) \<Rightarrow>
          Some (e\<lparr>e_metadata := flag (dset ''l2_consolidated_sessions''
                    (VList (if sid = [] \<or> VStr sid \<in> set xs then xs else xs @ [VStr sid])) m)\<rparr>)
      | Some v \<Rightarrow> (if sid = [] then Some (e\<lparr>e_metadata := flag m\<rparr>) else None))"

fun mark_loop :: "string \<Rightarrow> (hot_entry \<Rightarrow> bool) \<Rightarrow> hot_entry list \<Rightarrow> hot_entry list \<times> nat option" where
  "mark_loop sid chosen [] = ([], Some 0)"
| "mark_loop sid chosen (e # es) =
     (if chosen e then
        (case mark_entry sid e of
           None \<Rightarrow> (e # es, None)
         | Some e' \<Rightarrow> (let (es', n) = mark_loop sid chosen es in (e' # es', map_option Suc n)))
      else (let (es', n) = mark_loop sid chosen es in (e # es', n)))"

text \<open>
  \<open>kv.set_state(key=\<dots>, value=\<dots>, metadata=\<dots>, source_type=\<dots>)\<close>: an argument that the method does not have raises \<open>TypeError\<close>,
  which is caught.
\<close>

definition set_state_parameters :: "string list" where
  "set_state_parameters = [''key'', ''value'', ''confidence'', ''metadata'', ''reason'', ''ttl'']"

definition retire_arguments :: "string list" where
  "retire_arguments = [''key'', ''value'', ''metadata'', ''source_type'']"

definition retire_row :: "('g, 'v, 'r, 'l) session_env \<Rightarrow> rat \<Rightarrow> string \<Rightarrow> kv \<Rightarrow> kv" where
  "retire_row E now sk s =
     (case get_sync (we_fp (so_wp E)) sk s of
        Inr (Some sd) \<Rightarrow>
          (if meta_flag (sd_metadata sd) ''is_superseded'' then s
           else
             (let m = dset ''superseded_at'' (VFloat now) (dset ''is_superseded'' (VBool True) (sd_metadata sd)) in
              if set retire_arguments \<subseteq> set set_state_parameters
              then fst (set_sync (we_fr (so_wp E)) now sk (sd_value sd) (FNum 1) m ''update'' None s) else s))
      | _ \<Rightarrow> s)"

definition evict_key :: "('g, 'v, 'r, 'l) session_env \<Rightarrow> rat \<Rightarrow> string \<Rightarrow> ('g, 'v) wp \<Rightarrow> ('g, 'v) wp" where
  "evict_key E now sk w =
     w\<lparr>w_kv := map_option (retire_row E now sk) (w_kv w),
       w_vector := map_option (\<lambda>v. fst (va_delete (we_vector (so_wp E)) sk v)) (w_vector w),
       w_graph := map_option (\<lambda>g. case so_mark E sk g of None \<Rightarrow> g | Some g' \<Rightarrow> g') (w_graph w)\<rparr>"

definition reconcile_l1_to_l2 ::
  "('g, 'v, 'r, 'l) session_env \<Rightarrow> rat \<Rightarrow> string \<Rightarrow> string set \<Rightarrow> stats \<Rightarrow> ('g, 'v, 'l) engine \<Rightarrow> ('g, 'v, 'l) engine \<times> stats option" where
  "reconcile_l1_to_l2 E now sid touched st en =
     (let w = en_wp en; K = superseded_keys E touched w;
          hot1 = (if K = {} then w_hot w else fst (reconcile_superseded (we_order (so_wp E) K) (w_hot w)))
      in case get_session_entries (hot_repr E) (Some sid) hot1 of
           Inl _ \<Rightarrow> (en\<lparr>en_wp := w\<lparr>w_hot := hot1\<rparr>\<rparr>, None)
         | Inr es \<Rightarrow>
             (let (buf, promoted) = mark_loop sid (\<lambda>e. e \<in> set es \<and> e_key e \<notin> K) (buffer hot1);
                  w1 = w\<lparr>w_hot := hot1\<lparr>buffer := buf\<rparr>\<rparr>
              in case promoted of
                   None \<Rightarrow> (en\<lparr>en_wp := w1\<rparr>, None)
                 | Some n \<Rightarrow>
                     (let w2 = fold (evict_key E now) (we_order (so_wp E) K) w1;
                          sup = (if K = {} then cs_superseded st else max (cs_superseded st) (int (card K)))
                      in (en\<lparr>en_wp := w2\<rparr>,
                          Some (st\<lparr>cs_superseded := sup, cs_records := max (cs_records st) (sup + int n)\<rparr>)))))"

section \<open>End of a session\<close>

fun propose :: "procedure list \<Rightarrow> string set \<Rightarrow> string set \<times> string list" where
  "propose [] done_ids = (done_ids, [])"
| "propose (p # ps) done_ids =
     (if unproposed done_ids (pc_id p) p
      then (let (ids, out) = propose ps (insert (pc_id p) done_ids) in (ids, pc_id p # out))
      else propose ps done_ids)"

definition sleep_phase ::
  "('g, 'v, 'r, 'l) session_env \<Rightarrow> rat \<Rightarrow> string \<Rightarrow> session_hook \<times> ('g, 'v, 'l) engine \<Rightarrow> (session_hook \<times> ('g, 'v, 'l) engine) \<times> stats option" where
  "sleep_phase E now sid st =
     (let (h, en) = st; (en1, touched) = get_touched_keys E sid h en in
      case touched of
        None \<Rightarrow> ((h, en1), None)
      | Some T \<Rightarrow>
          (let (en2, r) =
             (if T = {} then (en1, Some (new_stats\<lparr>cs_status := ''consolidation_deferred''\<rparr>))
              else (case so_sleep E T en1 of
                      (en2, None) \<Rightarrow> (en2, None)
                    | (en2, Some cs) \<Rightarrow> reconcile_l1_to_l2 E now sid T cs en2))
           in case r of
                None \<Rightarrow> ((h, en2), None)
              | Some cs \<Rightarrow>
                  (let (ids, proposed) = propose (map snd (en_baked en2)) (hk_proposed h)
                   in ((h\<lparr>hk_proposed := ids\<rparr>, en2), Some (cs\<lparr>cs_proposed := proposed\<rparr>)))))"

definition close_session ::
  "('g, 'v, 'r, 'l) session_env \<Rightarrow> string \<Rightarrow> session_hook \<times> ('g, 'v, 'l) engine \<Rightarrow> session_hook \<times> ('g, 'v, 'l) engine" where
  "close_session E sid st =
     (let (h, en) = st in
      (h\<lparr>hk_active := ddel sid (hk_active h), hk_consolidated := insert sid (hk_consolidated h)\<rparr>,
       en\<lparr>en_layers := so_reset E (en_layers en)\<rparr>))"

definition on_session_end ::
  "('g, 'v, 'r, 'l) session_env \<Rightarrow> rat \<Rightarrow> string \<Rightarrow> bool \<Rightarrow> session_hook \<times> ('g, 'v, 'l) engine \<Rightarrow>
     (session_hook \<times> ('g, 'v, 'l) engine) \<times> stats option" where
  "on_session_end E now sid trigger st =
     (case has_session_activity E sid (fst st) (snd st) of
        None \<Rightarrow> (st, None)
      | Some False \<Rightarrow>
          (((fst st)\<lparr>hk_active := ddel sid (hk_active (fst st))\<rparr>, snd st), Some (new_stats\<lparr>cs_status := ''idempotent_noop''\<rparr>))
      | Some True \<Rightarrow>
          (case (if trigger then sleep_phase E now sid st else (st, Some new_stats)) of
             (st1, None) \<Rightarrow> (st1, None)
           | (st1, Some cs) \<Rightarrow> (close_session E sid st1, Some cs)))"
section \<open>The working memory after a session\<close>

lemma session_loop_cases:
  assumes "session_loop rp sid es = Inr out" "e \<in> set es"
  shows "superseded_entry e \<or> consolidated_for sid e = Inr True
    \<or> (consolidated_for sid e = Inr False \<and> (belongs_to_session rp sid e \<longrightarrow> e \<in> set out))"
  using assms by (induction es arbitrary: out) (auto split: if_splits sum.splits bool.splits)

lemma session_loop_chosen: "session_loop rp sid es = Inr out \<Longrightarrow> set out \<subseteq> {e \<in> set es. \<not> superseded_entry e}"
  by (induction es arbitrary: out) (auto split: if_splits sum.splits bool.splits)

lemma session_loop_Nil:
  "\<forall>e \<in> set es. superseded_entry e \<or> consolidated_for sid e = Inr True
      \<or> (consolidated_for sid e = Inr False \<and> \<not> belongs_to_session rp sid e) \<Longrightarrow> session_loop rp sid es = Inr []"
  by (induction es) auto

lemma mark_loop_map:
  "mark_loop sid chosen es = (buf, Some n) \<Longrightarrow>
   buf = map (\<lambda>e. if chosen e then the (mark_entry sid e) else e) es \<and> (\<forall>e \<in> set es. chosen e \<longrightarrow> mark_entry sid e \<noteq> None)"
proof (induction es arbitrary: buf n)
  case (Cons e es)
  then show ?case
    by (cases "mark_loop sid chosen es") (auto split: if_splits option.splits)
qed simp

lemma marked_metadata:
  assumes "mark_entry sid e = Some e'"
  obtains m where "e' = e\<lparr>e_metadata := dset ''l2_consolidated'' (VBool True) m\<rparr>"
    "\<And>k. k \<noteq> ''l2_consolidated_sessions'' \<Longrightarrow> dget m k = dget (e_metadata e) k"
    "sid \<noteq> [] \<Longrightarrow> \<exists>xs. dget m ''l2_consolidated_sessions'' = Some (VList xs) \<and> VStr sid \<in> set xs"
proof (cases "dget (e_metadata e) ''l2_consolidated_sessions''")
  case None
  show thesis
    by (rule that [of "dset ''l2_consolidated_sessions'' (VList (if sid = [] then [] else [VStr sid])) (e_metadata e)"])
      (use assms None in \<open>auto simp: mark_entry_def Let_def\<close>)
next
  case (Some v)
  show thesis
  proof (cases v)
    case (VList xs)
    show thesis
      by (rule that [of "dset ''l2_consolidated_sessions'' (VList (if sid = [] \<or> VStr sid \<in> set xs then xs else xs @ [VStr sid])) (e_metadata e)"])
        (use assms Some VList in \<open>auto simp: mark_entry_def Let_def\<close>)
  qed (rule that [of "e_metadata e"]; use assms Some in \<open>auto simp: mark_entry_def Let_def split: if_splits\<close>)+
qed

lemma marked_entry:
  assumes "mark_entry sid e = Some e'"
  shows "e_key e' = e_key e" "superseded_entry e' = superseded_entry e"
    "sid \<noteq> [] \<Longrightarrow> consolidated_for (Some sid) e' = Inr True"
proof -
  obtain m where m: "e' = e\<lparr>e_metadata := dset ''l2_consolidated'' (VBool True) m\<rparr>"
    "\<And>k. k \<noteq> ''l2_consolidated_sessions'' \<Longrightarrow> dget m k = dget (e_metadata e) k"
    "sid \<noteq> [] \<Longrightarrow> \<exists>xs. dget m ''l2_consolidated_sessions'' = Some (VList xs) \<and> VStr sid \<in> set xs"
    using marked_metadata [OF assms] by blast
  show "e_key e' = e_key e" by (simp add: m(1))
  show "superseded_entry e' = superseded_entry e"
    by (simp add: m(1,2) superseded_entry_def meta_flag_def)
  show "consolidated_for (Some sid) e' = Inr True" if "sid \<noteq> []"
    using m(3) [OF that] that by (auto simp: m(1) consolidated_for_def Let_def meta_get_def dget_default_def)
qed

lemma evict_key_hot [simp]: "w_hot (evict_key E now k w) = w_hot w" "w_touched (evict_key E now k w) = w_touched w"
  by (simp_all add: evict_key_def)

lemma fold_evict_hot [simp]:
  "w_hot (fold (evict_key E now) ks w) = w_hot w" "w_touched (fold (evict_key E now) ks w) = w_touched w"
  by (induction ks arbitrary: w) simp_all

lemma retire_row_id: "retire_row E now k s = s"
  by (simp add: retire_row_def set_state_parameters_def retire_arguments_def Let_def split: sum.splits option.splits)

lemma fold_evict_kv [simp]: "w_kv (fold (evict_key E now) ks w) = w_kv w"
proof (induction ks arbitrary: w)
  case (Cons k ks)
  have "map_option (retire_row E now k) (w_kv w) = w_kv w" by (cases "w_kv w") (simp_all add: retire_row_id)
  then show ?case by (simp add: Cons.IH) (simp add: evict_key_def)
qed simp

lemma finite_superseded: "finite (superseded_history (w_hot w)) \<Longrightarrow> finite (superseded_keys E T w)"
  by (auto simp: superseded_keys_def retired_in_store_def Let_def split: option.splits sum.splits)

lemma reconciled_hot:
  assumes "lists_sets (we_order (so_wp E))" "finite (superseded_history (w_hot w))" "length (buffer (w_hot w)) \<le> maxlen (w_hot w)"
    and K: "K = superseded_keys E T w"
  shows "buffer (if K = {} then w_hot w else fst (reconcile_superseded (we_order (so_wp E) K) (w_hot w)))
     = filter (\<lambda>e. e_key e \<notin> K \<or> e_key e = []) (buffer (w_hot w))"
proof (cases "K = {}")
  case False
  have "set (we_order (so_wp E) K) = K"
    using assms(1) finite_superseded [OF assms(2), of E T] by (simp add: lists_sets_def K)
  with False show ?thesis using reconcile_buffer [OF assms(3)] by simp
qed simp

lemma reconcile_result:
  assumes "reconcile_l1_to_l2 E now sid T st en = (en', Some cs)"
    and "lists_sets (we_order (so_wp E))" "finite (superseded_history (w_hot (en_wp en)))"
    and "length (buffer (w_hot (en_wp en))) \<le> maxlen (w_hot (en_wp en))"
  defines "K \<equiv> superseded_keys E T (en_wp en)"
  defines "kept \<equiv> filter (\<lambda>e. e_key e \<notin> K \<or> e_key e = []) (buffer (w_hot (en_wp en)))"
  obtains es where "session_loop (hot_repr E) (Some sid) kept = Inr es"
    "buffer (w_hot (en_wp en')) = map (\<lambda>e. if e \<in> set es \<and> e_key e \<notin> K then the (mark_entry sid e) else e) kept"
    "\<forall>e \<in> set kept. e \<in> set es \<and> e_key e \<notin> K \<longrightarrow> mark_entry sid e \<noteq> None"
    "w_touched (en_wp en') = w_touched (en_wp en)" "en_steps en' = en_steps en" "en_baked en' = en_baked en"
    "w_kv (en_wp en') = w_kv (en_wp en)"
proof -
  let ?hot = "if K = {} then w_hot (en_wp en) else fst (reconcile_superseded (we_order (so_wp E) K) (w_hot (en_wp en)))"
  have buf: "buffer ?hot = kept"
    unfolding kept_def by (rule reconciled_hot [OF assms(2-4)]) (simp add: K_def)
  note eq = assms(1) [unfolded reconcile_l1_to_l2_def Let_def get_session_entries_def, folded K_def, unfolded buf]
  from eq obtain es where es: "session_loop (hot_repr E) (Some sid) kept = Inr es" by (auto split: sum.splits)
  obtain b n where m: "mark_loop sid (\<lambda>e. e \<in> set es \<and> e_key e \<notin> K) kept = (b, n)" by fastforce
  from eq obtain n' where n': "n = Some n'" by (cases n) (simp_all add: es m)
  from eq have "en' = en\<lparr>en_wp := fold (evict_key E now) (we_order (so_wp E) K) ((en_wp en)\<lparr>w_hot := ?hot\<lparr>buffer := b\<rparr>\<rparr>)\<rparr>"
    by (simp add: es m n')
  with that [OF es] mark_loop_map [OF m [unfolded n']] show thesis by simp
qed

lemma no_entries_left:
  assumes "session_loop rp (Some sid) kept = Inr es" "sid \<noteq> []"
    and "\<forall>e \<in> set kept. e_key e \<notin> K" "\<forall>e \<in> set kept. e \<in> set es \<and> e_key e \<notin> K \<longrightarrow> mark_entry sid e \<noteq> None"
  shows "session_loop rp (Some sid) (map (\<lambda>e. if e \<in> set es \<and> e_key e \<notin> K then the (mark_entry sid e) else e) kept) = Inr []"
proof (rule session_loop_Nil, intro ballI)
  fix x assume "x \<in> set (map (\<lambda>e. if e \<in> set es \<and> e_key e \<notin> K then the (mark_entry sid e) else e) kept)"
  then obtain e where e: "e \<in> set kept" "x = (if e \<in> set es \<and> e_key e \<notin> K then the (mark_entry sid e) else e)" by auto
  show "superseded_entry x \<or> consolidated_for (Some sid) x = Inr True
      \<or> consolidated_for (Some sid) x = Inr False \<and> \<not> belongs_to_session rp (Some sid) x"
    using session_loop_cases [OF assms(1) e(1)] e assms(2-4) marked_entry(3) [of sid e] by auto
qed

lemma touched_popped:
  assumes "get_touched_keys E sid h en = (en1, r)"
  shows "touched_in (en_wp en1) sid = {}" "sid \<noteq> ''idle_sess'' \<Longrightarrow> touched_in (en_wp en1) ''default'' = {}"
    "w_hot (en_wp en1) = w_hot (en_wp en)" "en_steps en1 = en_steps en" "w_kv (en_wp en1) = w_kv (en_wp en)"
  using assms by (auto simp: get_touched_keys_def pop_touched_def touched_in_def dget_default_def Let_def split: if_splits)

lemma no_activity:
  assumes "touched_in (en_wp en) sid = {}" "sid \<noteq> ''idle_sess'' \<Longrightarrow> touched_in (en_wp en) ''default'' = {}"
    and "session_loop (hot_repr E) (Some sid) (buffer (w_hot (en_wp en))) = Inr []"
    and "dget (hk_active h) sid = None" "sid \<in> hk_consolidated h"
  shows "has_session_activity E sid h en = Some False"
  using assms by (auto simp: has_session_activity_def Let_def get_session_entries_def)

text \<open>
  C19: A session ends once: after a session end that ran the sleep phase, ending the same session again, at any time and in either
  mode, finds nothing to do and changes nothing, when the sleep cycle of the auditor leaves the hot buffer and the record of touched
  keys alone.
\<close>

theorem session_ends_once:
  assumes "on_session_end E now sid True (h, en) = (st', Some cs)" and "sid \<noteq> []" "lists_sets (we_order (so_wp E))"
    and "hot_reach n ttl (w_hot (en_wp en))" "finite (superseded_history (w_hot (en_wp en)))" "\<forall>e \<in> set (buffer (w_hot (en_wp en))). e_key e \<noteq> []"
    and sleep: "\<And>T en. w_hot (en_wp (fst (so_sleep E T en))) = w_hot (en_wp en) \<and> w_touched (en_wp (fst (so_sleep E T en))) = w_touched (en_wp en)"
  shows "on_session_end E now' sid trigger st' = (st', Some (new_stats\<lparr>cs_status := ''idempotent_noop''\<rparr>))"
proof -
  have short: "length (buffer (w_hot (en_wp en))) \<le> maxlen (w_hot (en_wp en))"
    using hot_inv_reach [OF assms(4)] by (simp add: hot_inv_def)
  have "has_session_activity E sid (fst st') (snd st') = Some False \<and> (\<exists>d. hk_active (fst st') = ddel sid d)"
  proof (cases "has_session_activity E sid h en")
    case None
    with assms(1) show ?thesis by (simp add: on_session_end_def)
  next
    case (Some act)
    show ?thesis
    proof (cases act)
      case False
      with Some assms(1) have st: "st' = (h\<lparr>hk_active := ddel sid (hk_active h)\<rparr>, en)" by (simp add: on_session_end_def)
      from Some False show ?thesis
        by (auto simp: st has_session_activity_def Let_def split: if_splits option.splits sum.splits)
    next
      case True
      with Some assms(1) obtain st1 where s1: "sleep_phase E now sid (h, en) = (st1, Some cs)" and st: "st' = close_session E sid st1"
        by (auto simp: on_session_end_def split: prod.splits option.splits)
      obtain en1 r where g: "get_touched_keys E sid h en = (en1, r)" by fastforce
      note popped = touched_popped [OF g]
      from s1 g obtain T where T: "r = Some T" by (cases r) (simp_all add: sleep_phase_def)
      have left: "touched_in (en_wp (snd st1)) sid = {}
          \<and> (sid \<noteq> ''idle_sess'' \<longrightarrow> touched_in (en_wp (snd st1)) ''default'' = {})
          \<and> session_loop (hot_repr E) (Some sid) (buffer (w_hot (en_wp (snd st1)))) = Inr []"
      proof (cases "T = {}")
        case True
        with s1 g T have "snd st1 = en1" by (auto simp: sleep_phase_def Let_def split: prod.splits)
        moreover from g T True obtain es where es: "session_loop (hot_repr E) (Some sid) (buffer (w_hot (en_wp en1))) = Inr es"
            "{k \<in> e_key ` set es. k \<noteq> []} = {}"
          by (auto simp: get_touched_keys_def get_session_entries_def pop_touched_def Let_def split: if_splits sum.splits)
        moreover from es have "es = []"
          using session_loop_chosen [OF es(1)] assms(6) popped(3) by (cases es) auto
        ultimately show ?thesis using popped by simp
      next
        case False
        obtain en2 r2 where sl: "so_sleep E T en1 = (en2, r2)" by fastforce
        with s1 g T False obtain cs2 where "r2 = Some cs2" by (cases r2) (simp_all add: sleep_phase_def)
        with s1 g T False sl obtain en3 cs3 where rec: "reconcile_l1_to_l2 E now sid T cs2 en2 = (en3, Some cs3)" and st1: "snd st1 = en3"
          by (auto simp: sleep_phase_def Let_def split: prod.splits option.splits)
        have en2: "w_hot (en_wp en2) = w_hot (en_wp en)" "w_touched (en_wp en2) = w_touched (en_wp en1)"
          using sleep [of T en1] popped(3) by (simp_all add: sl)
        let ?K = "superseded_keys E T (en_wp en2)"
        let ?kept = "filter (\<lambda>e. e_key e \<notin> ?K \<or> e_key e = []) (buffer (w_hot (en_wp en2)))"
        have fin: "finite (superseded_history (w_hot (en_wp en2)))" "length (buffer (w_hot (en_wp en2))) \<le> maxlen (w_hot (en_wp en2))"
          using assms(5) short by (simp_all add: en2)
        obtain es where es: "session_loop (hot_repr E) (Some sid) ?kept = Inr es"
          "buffer (w_hot (en_wp en3)) = map (\<lambda>e. if e \<in> set es \<and> e_key e \<notin> ?K then the (mark_entry sid e) else e) ?kept"
          "\<forall>e \<in> set ?kept. e \<in> set es \<and> e_key e \<notin> ?K \<longrightarrow> mark_entry sid e \<noteq> None"
          "w_touched (en_wp en3) = w_touched (en_wp en2)"
          "en_steps en3 = en_steps en2" "en_baked en3 = en_baked en2" "w_kv (en_wp en3) = w_kv (en_wp en2)"
          by (rule reconcile_result [OF rec assms(3) fin])
        have "\<forall>e \<in> set ?kept. e_key e \<notin> ?K" using assms(6) by (auto simp: en2)
        from no_entries_left [OF es(1) assms(2) this es(3)] popped es(2,4) en2(2)
        show ?thesis by (auto simp: st1 touched_in_def)
      qed
      obtain h1 en3 where p: "st1 = (h1, en3)" by fastforce
      show ?thesis
        using left by (auto simp: st p close_session_def intro!: no_activity)
    qed
  qed
  then show ?thesis by (cases st') (auto simp: on_session_end_def delete_idem)
qed

text \<open>
  What the store has retired leaves the working memory, and nothing else does: after the reconciliation the hot buffer has exactly
  the entries it had, in order, less those with a superseded key, and a key is superseded when the buffer remembers it, an entry says
  so, or the store marks it within the touched entities.
\<close>

theorem retired_keys_leave_working_memory:
  assumes "reconcile_l1_to_l2 E now sid T st en = (en', Some cs)" "lists_sets (we_order (so_wp E))"
    and "hot_reach n ttl (w_hot (en_wp en))" "finite (superseded_history (w_hot (en_wp en)))"
  shows "map e_key (buffer (w_hot (en_wp en'))) =
      filter (\<lambda>k. k = [] \<or> k \<notin> superseded_keys E T (en_wp en)) (map e_key (buffer (w_hot (en_wp en))))
    \<and> w_touched (en_wp en') = w_touched (en_wp en) \<and> int (card (superseded_keys E T (en_wp en))) \<le> max 0 (cs_superseded cs)"
proof -
  let ?K = "superseded_keys E T (en_wp en)"
  have short: "length (buffer (w_hot (en_wp en))) \<le> maxlen (w_hot (en_wp en))"
    using hot_inv_reach [OF assms(3)] by (simp add: hot_inv_def)
  obtain es where es: "session_loop (hot_repr E) (Some sid) (filter (\<lambda>e. e_key e \<notin> ?K \<or> e_key e = []) (buffer (w_hot (en_wp en)))) = Inr es"
    "buffer (w_hot (en_wp en')) = map (\<lambda>e. if e \<in> set es \<and> e_key e \<notin> ?K then the (mark_entry sid e) else e)
       (filter (\<lambda>e. e_key e \<notin> ?K \<or> e_key e = []) (buffer (w_hot (en_wp en))))"
    "\<forall>e \<in> set (filter (\<lambda>e. e_key e \<notin> ?K \<or> e_key e = []) (buffer (w_hot (en_wp en)))).
       e \<in> set es \<and> e_key e \<notin> ?K \<longrightarrow> mark_entry sid e \<noteq> None"
    "w_touched (en_wp en') = w_touched (en_wp en)" "en_steps en' = en_steps en" "en_baked en' = en_baked en"
    "w_kv (en_wp en') = w_kv (en_wp en)"
    by (rule reconcile_result [OF assms(1,2,4) short])
  have "map e_key (buffer (w_hot (en_wp en'))) = map e_key (filter (\<lambda>e. e_key e \<notin> ?K \<or> e_key e = []) (buffer (w_hot (en_wp en))))"
    unfolding es(2) map_map by (rule map_cong [OF refl]) (use es(3) marked_entry(1) [of sid] in fastforce)
  moreover have "int (card ?K) \<le> max 0 (cs_superseded cs)"
    using assms(1) by (auto simp: reconcile_l1_to_l2_def Let_def split: sum.splits prod.splits option.splits)
  ultimately show ?thesis using es(4) by (simp add: filter_map comp_def disj_commute)
qed

text \<open>
  The reconciliation never retires a record of the store: the call that should mark it passes an argument that \<open>set_state\<close> does
  not have, and the \<open>TypeError\<close> is caught. Whatever the buffer knows to be superseded, the store stays as it was.
\<close>

theorem reconciliation_never_retires:
  "w_kv (en_wp (fst (reconcile_l1_to_l2 E now sid T st en))) = w_kv (en_wp en)"
  by (auto simp: reconcile_l1_to_l2_def Let_def split: sum.splits prod.splits option.splits)

text \<open>
  The prefix is a function of the state: neither the order of the rules, nor that of the states and entities in their collections
  changes a character of it.
\<close>

theorem prefix_is_deterministic:
  assumes "mset rules = mset rules'" "wf_dict states" "wf_dict states'" "\<And>k. dget states k = dget states' k"
    and "mset ents = mset ents'" "inj_on (\<lambda>e. case be_id e of None \<Rightarrow> [] | Some i \<Rightarrow> i) (set ents)"
  shows "build_immutable_prefix fr states rules ents = build_immutable_prefix fr states' rules' ents'"
proof -
  have "set (dkeys states) = set (dkeys states')"
    using assms(4) by (metis (no_types, lifting) dom_map_of_conv_image_fst domIff subsetI subset_antisym list.set_map)
  then have "mset (dkeys states) = mset (dkeys states')"
    using assms(2,3) unfolding wf_dict_def by (metis set_eq_iff_mset_eq_distinct)
  then have keys: "sort (dkeys states) = sort (dkeys states')"
    by (metis mset_sort properties_for_sort sorted_sort)
  then have "states = [] \<longleftrightarrow> states' = []"
    by (metis length_0_conv length_map length_sort)
  with keys assms(4) have "state_lines fr states = state_lines fr states'" by (simp add: state_lines_def)
  moreover have "sort rules = sort rules'" using assms(1) by (metis mset_sort properties_for_sort sorted_sort)
  moreover have "rules = [] \<longleftrightarrow> rules' = []" using assms(1) by (metis mset_zero_iff)
  moreover have "sort_key (\<lambda>e. case be_id e of None \<Rightarrow> [] | Some i \<Rightarrow> i) ents = sort_key (\<lambda>e. case be_id e of None \<Rightarrow> [] | Some i \<Rightarrow> i) ents'"
    using assms(5,6) by (intro sort_key_inj_key_eq) simp_all
  moreover have "ents = [] \<longleftrightarrow> ents' = []" using assms(5) by (metis mset_zero_iff)
  ultimately show ?thesis by (simp add: build_immutable_prefix_def rule_lines_def entity_lines_def)
qed

section \<open>The history of superseded keys\<close>

text \<open>A key enters the history of the buffer and leaves it by \<open>clear\<close> only.\<close>

inductive history_run :: "hot_buffer \<Rightarrow> hot_buffer \<Rightarrow> bool" for b0 where
  run_here: "history_run b0 b0"
| run_step: "history_run b0 b \<Longrightarrow> hot_step b b' \<Longrightarrow> b' \<noteq> clear b \<Longrightarrow> history_run b0 b'"

definition remembers :: "hot_buffer \<Rightarrow> hot_buffer \<Rightarrow> bool" where
  "remembers b b' \<longleftrightarrow> superseded_history b \<subseteq> superseded_history b' \<and> finite (superseded_history b' - superseded_history b)"

lemma remembers_refl [simp]: "remembers b b"
  by (simp add: remembers_def)

lemma remembers_trans: "remembers b b' \<Longrightarrow> remembers b' b'' \<Longrightarrow> remembers b b''"
proof -
  assume r: "remembers b b'" "remembers b' b''"
  then have "superseded_history b'' - superseded_history b
      \<subseteq> (superseded_history b' - superseded_history b) \<union> (superseded_history b'' - superseded_history b')" by blast
  with r show ?thesis unfolding remembers_def by (meson finite_UnI finite_subset subset_trans)
qed

lemma remembers_same: "superseded_history b' = superseded_history b \<Longrightarrow> remembers b b'"
  by (simp add: remembers_def)

lemma remembers_insert: "superseded_history b' = insert k (superseded_history b) \<Longrightarrow> remembers b b'"
  by (auto simp: remembers_def insert_Diff_if)

lemma remembers_append: "remembers b (append_entry e b)"
  by (cases "e_is_superseded e")
    (auto simp: append_entry_def hot_simps Let_def intro: remembers_same remembers_insert)

lemma remembers_append_dict: "append_dict now d b = Inr b' \<Longrightarrow> remembers b b'"
  by (auto simp: append_dict_def remembers_append split: sum.split_asm)

lemma remembers_seed: "remembers b (fst (seed_loop now items b n))"
proof (induction now items b n rule: seed_loop.induct)
  case (2 now it its b seeded)
  let ?m = "or_default (d_metadata it) []"
  show ?case
  proof (cases "meta_flag ?m ''is_superseded''")
    case True
    with 2(1) [OF refl True] show ?thesis by (simp add: Let_def)
  next
    case False
    show ?thesis
    proof (cases "append_seed now it ?m b")
      case (Inr b')
      then have "remembers b b'"
        by (auto simp: append_seed_def intro: remembers_append_dict split: option.split_asm pyval.split_asm if_split_asm)
      with 2(2) [OF refl False Inr] show ?thesis
        by (simp add: Let_def False Inr) (rule remembers_trans)
    qed (simp add: Let_def False)
  qed
qed simp

lemma remembers_update: "remembers b (fst (update now k v c md st ts b))"
  by (cases "meta_flag md ''is_superseded''")
    (auto simp: update_def hot_simps Let_def intro: remembers_same remembers_insert split: sum.split)

lemma remembers_reconcile: "remembers b (fst (reconcile_superseded ks b))"
proof (induction ks arbitrary: b)
  case (Cons k ks)
  have "remembers b (fst (mark_superseded k (b\<lparr>superseded_history := insert k (superseded_history b)\<rparr>)))"
    by (rule remembers_insert) (simp add: hot_simps)
  with Cons.IH show ?case by (auto simp: Let_def case_prod_beta intro: remembers_trans)
qed simp

lemma remembers_step: "hot_step b b' \<Longrightarrow> b' = clear b \<or> remembers b b'"
  by (erule hot_step.cases)
    (auto simp: hot_simps seed_from_kv_def remembers_seed split: option.split
      intro: remembers_append remembers_append_dict remembers_update remembers_reconcile remembers_same remembers_insert)

lemma remembers_run: "history_run b0 b \<Longrightarrow> remembers b0 b"
  by (induction rule: history_run.induct) (auto dest: remembers_step intro: remembers_trans)

lemma reach_run: "history_run b0 b \<Longrightarrow> hot_reach n ttl b0 \<Longrightarrow> hot_reach n ttl b"
  by (induction rule: history_run.induct) (auto intro: reach_step)

lemma finite_history: "hot_reach n ttl b \<Longrightarrow> finite (superseded_history b)"
proof (induction rule: hot_reach.induct)
  case (reach_step b b')
  from remembers_step [OF reach_step(2)] show ?case
  proof
    assume "remembers b b'"
    then have "superseded_history b' = superseded_history b \<union> (superseded_history b' - superseded_history b)"
      "finite (superseded_history b' - superseded_history b)" by (auto simp: remembers_def)
    with reach_step(3) show ?thesis by (metis finite_UnI)
  qed (simp add: clear_def)
qed (simp add: new_hot_buffer_def)

lemma fold_evict_vector: "w_vector (fold (evict_key E now) ks w)
    = map_option (fold (\<lambda>k v. fst (va_delete (we_vector (so_wp E)) k v)) ks) (w_vector w)"
  by (induction ks arbitrary: w) (simp_all add: evict_key_def option.map_comp comp_def option.map_ident option.map_id)

text \<open>What the reconciliation leaves of the vector index and the history.\<close>

lemma reconcile_evicts:
  assumes "reconcile_l1_to_l2 E now sid T st en = (en', Some cs)"
    and "lists_sets (we_order (so_wp E))" "finite (superseded_history (w_hot (en_wp en)))"
    and "length (buffer (w_hot (en_wp en))) \<le> maxlen (w_hot (en_wp en))"
  defines "K \<equiv> superseded_keys E T (en_wp en)"
  shows "w_vector (en_wp en') = map_option (fold (\<lambda>k v. fst (va_delete (we_vector (so_wp E)) k v)) (we_order (so_wp E) K)) (w_vector (en_wp en))"
    and "superseded_history (w_hot (en_wp en)) \<subseteq> superseded_history (w_hot (en_wp en'))"
    and "set (we_order (so_wp E) K) = K"
    and "\<forall>e \<in> set (buffer (w_hot (en_wp en'))). e_key e \<notin> K \<or> e_key e = []"
proof -
  let ?hot = "if K = {} then w_hot (en_wp en) else fst (reconcile_superseded (we_order (so_wp E) K) (w_hot (en_wp en)))"
  note eq = assms(1) [unfolded reconcile_l1_to_l2_def Let_def, folded K_def]
  from eq obtain es where es: "get_session_entries (hot_repr E) (Some sid) ?hot = Inr es" by (auto split: sum.splits)
  obtain b n where m: "mark_loop sid (\<lambda>e. e \<in> set es \<and> e_key e \<notin> K) (buffer ?hot) = (b, n)" by fastforce
  from eq obtain n' where n': "n = Some n'" by (cases n) (simp_all add: es m)
  from eq have en': "en' = en\<lparr>en_wp := fold (evict_key E now) (we_order (so_wp E) K) ((en_wp en)\<lparr>w_hot := ?hot\<lparr>buffer := b\<rparr>\<rparr>)\<rparr>"
    by (simp add: es m n')
  show "w_vector (en_wp en') = map_option (fold (\<lambda>k v. fst (va_delete (we_vector (so_wp E)) k v)) (we_order (so_wp E) K)) (w_vector (en_wp en))"
    by (simp add: en' fold_evict_vector)
  have "remembers (w_hot (en_wp en)) ?hot" by (simp add: remembers_reconcile)
  then show "superseded_history (w_hot (en_wp en)) \<subseteq> superseded_history (w_hot (en_wp en'))"
    by (simp add: en' remembers_def)
  have "finite K" unfolding K_def by (rule finite_superseded [OF assms(3)])
  then show "set (we_order (so_wp E) K) = K" using assms(2) by (simp add: lists_sets_def)
  obtain es' where es': "buffer (w_hot (en_wp en')) = map (\<lambda>e. if e \<in> set es' \<and> e_key e \<notin> K then the (mark_entry sid e) else e)
       (filter (\<lambda>e. e_key e \<notin> K \<or> e_key e = []) (buffer (w_hot (en_wp en))))"
    "\<forall>e \<in> set (filter (\<lambda>e. e_key e \<notin> K \<or> e_key e = []) (buffer (w_hot (en_wp en)))).
       e \<in> set es' \<and> e_key e \<notin> K \<longrightarrow> mark_entry sid e \<noteq> None"
    by (rule reconcile_result [OF assms(1-4), folded K_def])
  show "\<forall>e \<in> set (buffer (w_hot (en_wp en'))). e_key e \<notin> K \<or> e_key e = []"
  proof
    fix e assume "e \<in> set (buffer (w_hot (en_wp en')))"
    then obtain f where f: "e = (if f \<in> set es' \<and> e_key f \<notin> K then the (mark_entry sid f) else f)"
      "f \<in> set (filter (\<lambda>e. e_key e \<notin> K \<or> e_key e = []) (buffer (w_hot (en_wp en))))" unfolding es'(1) set_map by (rule imageE)
    with es'(2) marked_entry(1) [of sid f] show "e_key e \<notin> K \<or> e_key e = []" by (auto split: if_splits)
  qed
qed


lemma touched_activity:
  assumes "get_touched_keys E sid h en = (en1, Some T)" "T \<noteq> {}"
  shows "has_session_activity E sid h en = Some True"
proof -
  let ?w = "en_wp en" and ?m = "dget (hk_active h) sid"
  let ?k3 = "case ?m of None \<Rightarrow> {} | Some m \<Rightarrow> (case sn_touched m of None \<Rightarrow> {} | Some t \<Rightarrow> t)"
  obtain es where es: "get_session_entries (hot_repr E) (Some sid) (w_hot ?w) = Inr es"
    and T: "T \<subseteq> touched_in ?w sid \<union> (if sid \<noteq> ''idle_sess'' then touched_in ?w ''default'' else {}) \<union> ?k3 \<union> e_key ` set es"
    using assms(1) by (auto simp: get_touched_keys_def pop_touched_def touched_in_def dget_default_def Let_def
        split: sum.split_asm if_split_asm option.split_asm)
  show ?thesis
  proof (cases "touched_in ?w sid \<noteq> {} \<or> sid \<noteq> ''idle_sess'' \<and> touched_in ?w ''default'' \<noteq> {} \<or> ?k3 \<noteq> {}")
    case True
    then show ?thesis by (auto simp: has_session_activity_def Let_def split: option.splits)
  next
    case False
    with T assms(2) have "es \<noteq> []" by (auto split: if_splits)
    with es show ?thesis by (auto simp: has_session_activity_def Let_def)
  qed
qed

text \<open>
  C37: A key that was superseded once is lost at every later session end that has something to consolidate: whatever the hot buffer did
  since (short of being cleared), and although the entry that is there now need not be superseded, the session end purges every entry
  of the key from the working memory and deletes the key from the vector index, and the key stays in the history, so that the next
  session end does the same; when the sleep cycle of the auditor leaves the hot buffer alone.
\<close>

theorem revived_key_is_evicted:
  assumes "key \<in> superseded_history b0" "key \<noteq> []" "hot_reach n ttl b0" "history_run b0 (w_hot (en_wp en))"
    and "on_session_end E now sid True (h, en) = ((h', en'), Some cs)"
    and "get_touched_keys E sid h en = (en1, Some T)" "T \<noteq> {}" "lists_sets (we_order (so_wp E))"
    and sleep: "\<And>T en. w_hot (en_wp (fst (so_sleep E T en))) = w_hot (en_wp en)"
  shows "key \<notin> e_key ` set (buffer (w_hot (en_wp en'))) \<and> key \<in> superseded_history (w_hot (en_wp en'))
    \<and> (\<exists>ks. key \<in> set ks \<and> w_vector (en_wp en') =
          map_option (fold (\<lambda>k v. fst (va_delete (we_vector (so_wp E)) k v)) ks) (w_vector (en_wp (fst (so_sleep E T en1)))))"
proof -
  have reach: "hot_reach n ttl (w_hot (en_wp en))" by (rule reach_run [OF assms(4,3)])
  have key: "key \<in> superseded_history (w_hot (en_wp en))"
    using remembers_run [OF assms(4)] assms(1) by (auto simp: remembers_def)
  from assms(5) touched_activity [OF assms(6,7)] obtain st1 where
    s1: "sleep_phase E now sid (h, en) = (st1, Some cs)" and st: "(h', en') = close_session E sid st1"
    by (auto simp: on_session_end_def split: prod.splits option.splits)
  obtain en2 r2 where sl: "so_sleep E T en1 = (en2, r2)" by fastforce
  with s1 assms(6,7) obtain cs2 where "r2 = Some cs2" by (cases r2) (simp_all add: sleep_phase_def)
  with s1 assms(6,7) sl obtain en3 cs3 where rec: "reconcile_l1_to_l2 E now sid T cs2 en2 = (en3, Some cs3)" and st1: "snd st1 = en3"
    by (auto simp: sleep_phase_def Let_def split: prod.splits option.splits)
  have wp: "en_wp en' = en_wp en3" using st st1 by (auto simp: close_session_def case_prod_beta)
  have hot: "w_hot (en_wp en2) = w_hot (en_wp en)"
    using sleep [of T en1] touched_popped(3) [OF assms(6)] by (simp add: sl)
  have short: "length (buffer (w_hot (en_wp en2))) \<le> maxlen (w_hot (en_wp en2))"
    using hot_inv_reach [OF reach] by (simp add: hot hot_inv_def)
  note rec = reconcile_evicts [OF rec assms(8) _ short, unfolded hot, OF finite_history [OF reach]]
  have "key \<in> superseded_keys E T (en_wp en2)" using key by (simp add: superseded_keys_def hot)
  with rec assms(2) key show ?thesis by (fastforce simp: wp sl)
qed

section \<open>Witnesses\<close>

definition toy_session :: "(unit, string list, unit, nat) session_env" where
  "toy_session = \<lparr>so_wp = \<lparr>we_arb = toy_arb_env, we_ling = bare_ling, we_fr = rat_text, we_fp = (\<lambda>_. 0), we_fts = (\<lambda>_ _ _. None),
       we_int = (\<lambda>_. None), we_iso = (\<lambda>_. []), we_order = sorted_list_of_set,
       we_graph = \<lparr>ga_add = (\<lambda>_ _ _ _ _ g. (g, Inr ())), ga_remove = (\<lambda>_ _ _ g. g), ga_extract = (\<lambda>_ _ g. (g, Inr 0)), ga_dual = None\<rparr>,
       we_vector = \<lparr>va_insert = (\<lambda>_ k _ v. (k # v, True)), va_delete = (\<lambda>k v. (removeAll k v, True))\<rparr>\<rparr>,
     so_reset = Suc, so_registry = [], so_sleep = (\<lambda>_ en. (en, Some new_stats)), so_mark = (\<lambda>_ g. Some g)\<rparr>"

definition port_entry :: "string \<Rightarrow> meta \<Rightarrow> hot_buffer \<Rightarrow> hot_buffer" where
  "port_entry v m b = fst (update 0 ''svc:port'' (VStr v) 1 m ''user_explicit'' None b)"

definition toy_engine :: "hot_buffer \<Rightarrow> (unit, string list, nat) engine" where
  "toy_engine b = \<lparr>en_wp = \<lparr>w_kv = None, w_graph = None, w_hot = b, w_arbiter = toy_arbiter, w_vector = Some [''svc:port''],
     w_touched = [(''s1'', {''svc:port''})], w_audit = []\<rparr>, 
     en_steps = \<lparr>t_dim = 1, t_cap = 0, t_lat = [], t_steps = [], t_times = [], t_sess = [], t_acts = [], t_rews = [], t_uncs = [], t_metas = [],
       t_table = None\<rparr>, en_baked = [], en_layers = 0\<rparr>"

lemma toy_ends: "map_option cs_status (snd (on_session_end toy_session 0 ''s1'' True (new_hook, toy_engine (port_entry ''80'' [] (new_hot_buffer 5 900))))) = Some ''ok''"
  by code_simp

lemma toy_session_simps: "we_order (so_wp toy_session) = sorted_list_of_set" "so_sleep toy_session T en = (en, Some new_stats)"
  by (simp_all add: toy_session_def)

lemma port_reach: "hot_reach n ttl b \<Longrightarrow> hot_reach n ttl (port_entry v m b)"
  unfolding port_entry_def by (erule reach_step) (rule step_update)

theorem session_ends_once_witness:
  "snd (on_session_end toy_session 7 ''s1'' False
     (fst (on_session_end toy_session 0 ''s1'' True (new_hook, toy_engine (port_entry ''80'' [] (new_hot_buffer 5 900))))))
   = Some (new_stats\<lparr>cs_status := ''idempotent_noop''\<rparr>)"
proof -
  let ?b = "port_entry ''80'' [] (new_hot_buffer 5 900)"
  obtain st' cs where e: "on_session_end toy_session 0 ''s1'' True (new_hook, toy_engine ?b) = (st', Some cs)"
    using toy_ends by (cases "on_session_end toy_session 0 ''s1'' True (new_hook, toy_engine ?b)") auto
  have "on_session_end toy_session 7 ''s1'' False st' = (st', Some (new_stats\<lparr>cs_status := ''idempotent_noop''\<rparr>))"
  proof (rule session_ends_once [OF e])
    show "lists_sets (we_order (so_wp toy_session))" by (simp add: toy_session_simps lists_sets_sorted)
    show "hot_reach 5 900 (w_hot (en_wp (toy_engine ?b)))" by (simp add: toy_engine_def port_reach reach_new)
    show "finite (superseded_history (w_hot (en_wp (toy_engine ?b))))"
      by (simp add: toy_engine_def port_entry_def update_def push_def purge_def new_hot_buffer_def Let_def split: sum.split)
    show "\<forall>e \<in> set (buffer (w_hot (en_wp (toy_engine ?b)))). e_key e \<noteq> []" by (simp add: toy_engine_def) code_simp
  qed (simp_all add: toy_session_simps)
  then show ?thesis by (simp add: e)
qed

lemma port_step: "hot_step b (port_entry v m b)"
  unfolding port_entry_def by (rule step_update)

theorem revived_key_is_evicted_witness:
  "let b0 = port_entry ''80'' [(''is_superseded'', VBool True)] (new_hot_buffer 5 900); b = port_entry ''443'' [] b0;
       en' = snd (fst (on_session_end toy_session 0 ''s1'' True (new_hook, toy_engine b)))
   in map e_value (get_active (\<lambda>_. []) 0 (Some ''s1'') None b) = [VStr ''443'']
      \<and> ''svc:port'' \<notin> e_key ` set (buffer (w_hot (en_wp en'))) \<and> ''svc:port'' \<in> superseded_history (w_hot (en_wp en'))"
proof -
  let ?start = "port_entry ''80'' [(''is_superseded'', VBool True)] (new_hot_buffer 5 900)" and ?b = "port_entry ''443'' []
    (port_entry ''80'' [(''is_superseded'', VBool True)] (new_hot_buffer 5 900))"
  let ?e = "on_session_end toy_session 0 ''s1'' True (new_hook, toy_engine ?b)"
  let ?t = "get_touched_keys toy_session ''s1'' new_hook (toy_engine ?b)"
  have active: "map e_value (get_active (\<lambda>_. []) 0 (Some ''s1'') None ?b) = [VStr ''443'']" by code_simp
  have "snd ?e \<noteq> None" by code_simp
  then obtain h' en' cs where e: "?e = ((h', en'), Some cs)" by (cases ?e) auto
  have "snd ?t \<noteq> None \<and> snd ?t \<noteq> Some {}" by code_simp
  then obtain en1 T where t: "?t = (en1, Some T)" "T \<noteq> {}" by (cases ?t) auto
  have "buffer ?b \<noteq> []" by code_simp
  moreover have "buffer (clear ?start) = []" by (simp add: clear_def)
  ultimately have "?b \<noteq> clear ?start" by metis
  moreover have "hot_step ?start ?b" by (rule port_step)
  ultimately have "history_run ?start ?b" by (intro run_step [OF run_here])
  then have "''svc:port'' \<notin> e_key ` set (buffer (w_hot (en_wp en'))) \<and> ''svc:port'' \<in> superseded_history (w_hot (en_wp en'))"
    by (intro revived_key_is_evicted [OF _ _ port_reach [OF reach_new] _ e t, THEN conjunct1]
        revived_key_is_evicted [OF _ _ port_reach [OF reach_new] _ e t, THEN conjunct2, THEN conjunct1] conjI)
      (simp_all add: toy_session_simps lists_sets_sorted, simp_all add: toy_engine_def, code_simp+)
  with active e show ?thesis by (simp add: Let_def)
qed

theorem retired_keys_leave_working_memory_witness:
  "map e_key (buffer (w_hot (en_wp (fst (reconcile_l1_to_l2 toy_session 0 ''s1'' {''svc:port''} new_stats
     (toy_engine (port_entry ''443'' [] (port_entry ''80'' [(''is_superseded'', VBool True)] (new_hot_buffer 5 900))))))))) = []"
proof -
  let ?b = "port_entry ''443'' [] (port_entry ''80'' [(''is_superseded'', VBool True)] (new_hot_buffer 5 900))"
  let ?r = "reconcile_l1_to_l2 toy_session 0 ''s1'' {''svc:port''} new_stats (toy_engine ?b)"
  have "snd ?r \<noteq> None" by code_simp
  then obtain en' cs where r: "?r = (en', Some cs)" by (cases ?r) auto
  have "superseded_keys toy_session {''svc:port''} (en_wp (toy_engine ?b)) = {''svc:port''}" by code_simp
  moreover have "map e_key (buffer (w_hot (en_wp (toy_engine ?b)))) = [''svc:port'']" by code_simp
  moreover have "map e_key (buffer (w_hot (en_wp en'))) = filter (\<lambda>k. k = [] \<or> k \<notin> superseded_keys toy_session {''svc:port''} (en_wp (toy_engine ?b)))
      (map e_key (buffer (w_hot (en_wp (toy_engine ?b)))))"
  proof (rule retired_keys_leave_working_memory [OF r, THEN conjunct1])
    show "lists_sets (we_order (so_wp toy_session))" by (simp add: toy_session_simps lists_sets_sorted)
    show "hot_reach 5 900 (w_hot (en_wp (toy_engine ?b)))" by (simp add: toy_engine_def port_reach reach_new)
    show "finite (superseded_history (w_hot (en_wp (toy_engine ?b))))"
      by (simp add: toy_engine_def port_entry_def update_def push_def purge_def new_hot_buffer_def Let_def split: sum.split)
  qed
  ultimately show ?thesis by (simp add: r)
qed

theorem prefix_is_deterministic_witness:
  "build_immutable_prefix rat_text [] [''b'', ''a''] [] = build_immutable_prefix rat_text [] [''a'', ''b''] []"
  by (rule prefix_is_deterministic) (simp_all add: add_mset_commute)

end
