(* ===== verification/RamGraph.thy ===== *)
theory RamGraph
  imports Candidates "HOL-Library.Multiset" "HOL-Library.Product_Lexorder"
begin

text \<open>
  The graph in memory (\<open>l2_semantic/kuzu/ram_multigraph.py\<close>): the indices that \<open>AtlasMultiDiGraph\<close> keeps over the multigraph of
  \<open>networkx\<close>, the resolution of the entities of a query, and the hydration from the graph database, page by page.

  The multigraph itself is a parameter (\<open>nx_api\<close>); \<open>nx_ok\<close> states what \<open>networkx\<close> documents of it: adding keeps what is there and
  updates the attributes of what is added. Node names are texts. The database is a parameter too: what a query returns at an offset and
  a limit at its n-th execution, \<open>None\<close> when it raises. Locks and logging leave no trace. \<open>add_edges_from\<close> and \<open>remove_edges_from\<close>
  call back into the class from within \<open>networkx\<close> and are left out, like the asynchronous wrappers.
\<close>

section \<open>The multigraph\<close>

datatype node_attr = Typed string | Passage string string

record edge_attr =
  ed_predicate :: string
  ed_confidence :: rat
  ed_timestamp :: rat
  ed_session :: "string option"

record 'g nx_api =
  nx_nodes :: "'g \<Rightarrow> string set"
  nx_add_node :: "string \<Rightarrow> node_attr option \<Rightarrow> 'g \<Rightarrow> 'g"
  nx_edge :: "string \<Rightarrow> string \<Rightarrow> string \<Rightarrow> 'g \<Rightarrow> edge_attr option"
  nx_add_edge :: "string \<Rightarrow> string \<Rightarrow> string \<Rightarrow> edge_attr \<Rightarrow> 'g \<Rightarrow> 'g"
  nx_remove_edge :: "string \<Rightarrow> string \<Rightarrow> string option \<Rightarrow> 'g \<Rightarrow> 'g option"
  nx_remove_node :: "string \<Rightarrow> 'g \<Rightarrow> 'g option"
  nx_number_of_edges :: "'g \<Rightarrow> nat"
  nx_clear :: "'g \<Rightarrow> 'g"
  nx_clear_edges :: "'g \<Rightarrow> 'g"

definition nx_ok :: "'g nx_api \<Rightarrow> bool" where
  "nx_ok X \<longleftrightarrow>
     (\<forall>n a g. nx_nodes X (nx_add_node X n a g) = insert n (nx_nodes X g))
   \<and> (\<forall>u v k a g. nx_nodes X (nx_add_edge X u v k a g) = {u, v} \<union> nx_nodes X g)
   \<and> (\<forall>u v k g g'. nx_remove_edge X u v k g = Some g' \<longrightarrow> nx_nodes X g' = nx_nodes X g)
   \<and> (\<forall>n g g'. nx_remove_node X n g = Some g' \<longrightarrow> nx_nodes X g' = nx_nodes X g - {n})
   \<and> (\<forall>g. nx_nodes X (nx_clear X g) = {} \<and> nx_nodes X (nx_clear_edges X g) = nx_nodes X g)
   \<and> (\<forall>g. nx_number_of_edges X (nx_clear X g) = 0 \<and> nx_number_of_edges X (nx_clear_edges X g) = 0)
   \<and> (\<forall>n a g. nx_number_of_edges X (nx_add_node X n a g) = nx_number_of_edges X g)
   \<and> (\<forall>n a g u v k. nx_edge X u v k (nx_add_node X n a g) = nx_edge X u v k g)
   \<and> (\<forall>u v k a g u' v' k'. nx_edge X u' v' k' (nx_add_edge X u v k a g) = (if (u', v', k') = (u, v, k) then Some a else nx_edge X u' v' k' g))
   \<and> (\<forall>u v k a b g. nx_add_edge X u v k a (nx_add_edge X u v k b g) = nx_add_edge X u v k a g)
   \<and> (\<forall>u v k a g. nx_edge X u v k g = Some a \<longrightarrow> nx_add_edge X u v k a g = g)"

section \<open>The indices\<close>

record 'g ram =
  rm_graph :: 'g
  rm_count :: "nat option"
  rm_revision :: nat
  rm_canonical :: "(string, string) dict"
  rm_index :: "(string, string) dict"
  rm_lemmas :: "(string, string set) dict"

definition new_ram :: "'g \<Rightarrow> 'g ram" where
  "new_ram g = \<lparr>rm_graph = g, rm_count = Some 0, rm_revision = 0, rm_canonical = [], rm_index = [], rm_lemmas = []\<rparr>"

definition fast_lemma :: "ling_env \<Rightarrow> string \<Rightarrow> string" where
  "fast_lemma L w =
     (let clean = lower_pl (py_strip w) in
      if clean = [] \<or> py_len clean < 3 \<or> list_ex is_digit clean then clean
      else case li_fast L clean of
          Some t \<Rightarrow> (if tk_lemma t \<noteq> [] then py_strip (lower_pl (tk_lemma t)) else (let s = bilingual_stem L clean in if s \<noteq> [] then s else clean))
        | None \<Rightarrow> (let s = bilingual_stem L clean in if s \<noteq> [] then s else clean))"

definition name_parts :: "string \<Rightarrow> string list" where
  "name_parts s_low =
     filter (\<lambda>w. 3 \<le> py_len w \<and> \<not> list_ex is_digit w)
       (py_words (map (\<lambda>c. if c \<in> {CHR '':'', CHR ''_'', CHR ''-''} then CHR '' '' else c) s_low))"

definition add_lemma :: "string \<Rightarrow> string \<Rightarrow> (string, string set) dict \<Rightarrow> (string, string set) dict" where
  "add_lemma l s d = dset l (insert s (dget_default d l {})) d"

definition index_node_entry :: "ling_env \<Rightarrow> string \<Rightarrow> 'g ram \<Rightarrow> 'g ram" where
  "index_node_entry L n r =
     (let s = py_strip n; s_low = lower_pl s in
      if s = [] then r
      else r\<lparr>rm_canonical := dset s_low s (rm_canonical r), rm_index := dset s_low s (rm_index r),
             rm_lemmas := fold (\<lambda>p d. add_lemma p s (if fast_lemma L p \<noteq> [] then add_lemma (fast_lemma L p) s d else d))
                            (name_parts s_low) (rm_lemmas r)\<rparr>)"

definition bump_revision :: "'g ram \<Rightarrow> 'g ram" where
  "bump_revision r = r\<lparr>rm_revision := Suc (rm_revision r)\<rparr>"

definition add_node :: "'g nx_api \<Rightarrow> ling_env \<Rightarrow> string \<Rightarrow> node_attr option \<Rightarrow> 'g ram \<Rightarrow> 'g ram" where
  "add_node X L n a r = index_node_entry L n ((bump_revision r)\<lparr>rm_graph := nx_add_node X n a (rm_graph r)\<rparr>)"

definition add_nodes_from :: "'g nx_api \<Rightarrow> ling_env \<Rightarrow> string list \<Rightarrow> 'g ram \<Rightarrow> 'g ram" where
  "add_nodes_from X L ns r =
     fold (index_node_entry L) ns ((bump_revision r)\<lparr>rm_graph := fold (\<lambda>n. nx_add_node X n None) ns (rm_graph r)\<rparr>)"

definition add_edge :: "'g nx_api \<Rightarrow> string \<Rightarrow> string \<Rightarrow> string \<Rightarrow> edge_attr \<Rightarrow> 'g ram \<Rightarrow> 'g ram" where
  "add_edge X u v k a r = (bump_revision r)\<lparr>rm_count := None, rm_graph := nx_add_edge X u v k a (rm_graph r)\<rparr>"

text \<open>A removal that raises has already dropped the count, and that of a node its entry in the index.\<close>

definition remove_edge :: "'g nx_api \<Rightarrow> string \<Rightarrow> string \<Rightarrow> string option \<Rightarrow> 'g ram \<Rightarrow> 'g ram \<times> bool" where
  "remove_edge X u v k r =
     (let r1 = (bump_revision r)\<lparr>rm_count := None\<rparr> in
      case nx_remove_edge X u v k (rm_graph r) of None \<Rightarrow> (r1, False) | Some g \<Rightarrow> (r1\<lparr>rm_graph := g\<rparr>, True))"

definition drop_index :: "string \<Rightarrow> 'g ram \<Rightarrow> 'g ram" where
  "drop_index n r =
     (let s_low = lower_pl (py_strip n)
      in r\<lparr>rm_canonical := ddel s_low (rm_canonical r), rm_index := ddel s_low (rm_index r)\<rparr>)"

definition remove_node :: "'g nx_api \<Rightarrow> string \<Rightarrow> 'g ram \<Rightarrow> 'g ram \<times> bool" where
  "remove_node X n r =
     (let r1 = drop_index n ((bump_revision r)\<lparr>rm_count := None\<rparr>) in
      case nx_remove_node X n (rm_graph r) of None \<Rightarrow> (r1, False) | Some g \<Rightarrow> (r1\<lparr>rm_graph := g\<rparr>, True))"

text \<open>\<open>networkx\<close> passes over nodes that are not there.\<close>

definition remove_nodes_from :: "'g nx_api \<Rightarrow> string list \<Rightarrow> 'g ram \<Rightarrow> 'g ram" where
  "remove_nodes_from X ns r =
     (let r1 = fold drop_index ns ((bump_revision r)\<lparr>rm_count := None\<rparr>)
      in r1\<lparr>rm_graph := fold (\<lambda>n g. case nx_remove_node X n g of None \<Rightarrow> g | Some g' \<Rightarrow> g') ns (rm_graph r)\<rparr>)"

definition clear_ram :: "'g nx_api \<Rightarrow> 'g ram \<Rightarrow> 'g ram" where
  "clear_ram X r =
     (bump_revision r)\<lparr>rm_count := Some 0, rm_canonical := [], rm_index := [], rm_lemmas := [], rm_graph := nx_clear X (rm_graph r)\<rparr>"

definition clear_edges :: "'g nx_api \<Rightarrow> 'g ram \<Rightarrow> 'g ram" where
  "clear_edges X r = r\<lparr>rm_count := Some 0, rm_graph := nx_clear_edges X (rm_graph r)\<rparr>"

definition number_of_edges :: "'g nx_api \<Rightarrow> 'g ram \<Rightarrow> 'g ram \<times> nat" where
  "number_of_edges X r =
     (case rm_count r of
        Some n \<Rightarrow> (r, n)
      | None \<Rightarrow> (r\<lparr>rm_count := Some (nx_number_of_edges X (rm_graph r))\<rparr>, nx_number_of_edges X (rm_graph r)))"

definition has_node :: "'g nx_api \<Rightarrow> string \<Rightarrow> 'g ram \<Rightarrow> bool" where
  "has_node X n r \<longleftrightarrow> n \<in> nx_nodes X (rm_graph r)"

definition resolve_canonical_node :: "'g nx_api \<Rightarrow> string \<Rightarrow> 'g ram \<Rightarrow> string option" where
  "resolve_canonical_node X term r =
     (if has_node X term r then Some term else dget (rm_canonical r) (py_strip (lower_pl term)))"

definition resolve_nodes_by_lemma :: "'g nx_api \<Rightarrow> string \<Rightarrow> 'g ram \<Rightarrow> string set" where
  "resolve_nodes_by_lemma X lemma r = {n \<in> dget_default (rm_lemmas r) (py_strip (lower_pl lemma)) {}. has_node X n r}"

section \<open>The entities of a query\<close>

definition add_entity :: "'g nx_api \<Rightarrow> 'g ram \<Rightarrow> string option \<Rightarrow> string list \<Rightarrow> string list" where
  "add_entity X r cand resolved =
     (case cand of
        None \<Rightarrow> resolved
      | Some c \<Rightarrow> (if c \<noteq> [] \<and> has_node X c r \<and> c \<notin> set resolved then resolved @ [c] else resolved))"

definition ngrams :: "nat \<Rightarrow> string list \<Rightarrow> string list" where
  "ngrams n toks = map (\<lambda>i. lower_pl (py_join '' '' (take n (drop i toks)))) [0..<length toks + 1 - n]"

definition add_phrases :: "'g nx_api \<Rightarrow> 'g ram \<Rightarrow> string \<Rightarrow> string list \<Rightarrow> string list" where
  "add_phrases X r query resolved =
     (let toks = filter (\<lambda>t. t \<noteq> []) (map (strip_chars word_edge) (py_words (py_strip query)))
      in fold (\<lambda>p. add_entity X r (dget (rm_canonical r) p)) (ngrams 3 toks @ ngrams 2 toks) resolved)"

definition add_word :: "'g nx_api \<Rightarrow> 'g ram \<Rightarrow> string \<Rightarrow> string list \<Rightarrow> string list" where
  "add_word X r w resolved =
     (let s = strip_chars word_edge w in
      if s = [] then resolved
      else add_entity X r (dget (rm_canonical r) (lower_pl s)) (if has_node X s r then add_entity X r (Some s) resolved else resolved))"

definition add_inflected :: "'g nx_api \<Rightarrow> ling_env \<Rightarrow> (string set \<Rightarrow> string list) \<Rightarrow> 'g ram \<Rightarrow> string \<Rightarrow> string list \<Rightarrow> string list" where
  "add_inflected X L order r w resolved =
     (let c = strip_chars word_edge (lower_pl w) in
      if c = [] \<or> py_len c < 3 \<or> fast_lemma L c = [] then resolved
      else fold (\<lambda>n. add_entity X r (Some n)) (order (resolve_nodes_by_lemma X (fast_lemma L c) r)) resolved)"

definition resolve_query_entities ::
  "'g nx_api \<Rightarrow> ling_env \<Rightarrow> (string set \<Rightarrow> string list) \<Rightarrow> string list \<Rightarrow> string \<Rightarrow> 'g ram \<Rightarrow> string list" where
  "resolve_query_entities X L order ws query r =
     fold (add_inflected X L order r) ws (fold (add_word X r) ws (add_phrases X r query []))"

section \<open>Hydration\<close>

definition as_float :: "(string \<Rightarrow> rat option) \<Rightarrow> pyval \<Rightarrow> rat \<Rightarrow> rat" where
  "as_float fl v d = (if v = VNone then d else case to_float fl v of None \<Rightarrow> d | Some x \<Rightarrow> x)"

text \<open>\<open>q i offset limit\<close> is the answer to the i-th execution of a statement.\<close>

partial_function (option) paged_loop ::
  "(nat \<Rightarrow> nat \<Rightarrow> nat \<Rightarrow> 'a list option) \<Rightarrow> nat \<Rightarrow> nat \<Rightarrow> nat \<Rightarrow> 'a list \<Rightarrow> 'a list option option" where
  "paged_loop q i offset limit rows =
     (case q i offset limit of
        None \<Rightarrow> (if limit \<le> 64 then Some None else paged_loop q (Suc i) offset (max 64 (limit div 2)) rows)
      | Some got \<Rightarrow>
          (if length got < limit then Some (Some (rows @ got)) else paged_loop q (Suc i) (offset + length got) limit (rows @ got)))"

definition hydrate_paged :: "(nat \<Rightarrow> nat \<Rightarrow> nat \<Rightarrow> 'a list option) \<Rightarrow> nat \<Rightarrow> 'a list option option" where
  "hydrate_paged q page = paged_loop q 0 0 (max 64 page) []"

type_synonym node_row = "string option \<times> string option"
type_synonym rel_row = "string option \<times> string option \<times> string option \<times> pyval \<times> pyval"

record graph_db =
  gd_nodes :: "nat \<Rightarrow> nat \<Rightarrow> nat \<Rightarrow> node_row list option"
  gd_relations :: "nat \<Rightarrow> nat \<Rightarrow> nat \<Rightarrow> rel_row list option"
  gd_passages :: "nat \<Rightarrow> nat \<Rightarrow> nat \<Rightarrow> (string option \<times> string option \<times> string option) list option"
  gd_contains :: "nat \<Rightarrow> nat \<Rightarrow> nat \<Rightarrow> (string option \<times> string option \<times> pyval) list option"
  gd_synonyms :: "nat \<Rightarrow> nat \<Rightarrow> nat \<Rightarrow> (string option \<times> string option \<times> pyval) list option"

record 'g hyd_env =
  he_nx :: "'g nx_api"
  he_ling :: ling_env
  he_float :: "string \<Rightarrow> rat option"

record 'g hydration =
  hy_ram :: "'g ram"
  hy_loaded_nodes :: nat
  hy_loaded_edges :: nat
  hy_nodes :: nat
  hy_edges :: nat
  hy_pairs :: nat
  hy_partial :: bool
  hy_invalid :: "string set"

definition new_hydration :: "'g ram \<Rightarrow> 'g hydration" where
  "new_hydration r = \<lparr>hy_ram = r, hy_loaded_nodes = 0, hy_loaded_edges = 0, hy_nodes = 0, hy_edges = 0, hy_pairs = 0,
     hy_partial = False, hy_invalid = {}\<rparr>"

text \<open>\<open>if n not in graph: add_node(n, \<dots>); loaded += 1\<close>\<close>

definition ensure_node :: "'g hyd_env \<Rightarrow> string \<Rightarrow> node_attr \<Rightarrow> 'g hydration \<Rightarrow> 'g hydration" where
  "ensure_node E n a h =
     (if has_node (he_nx E) n (hy_ram h) then h
      else h\<lparr>hy_ram := add_node (he_nx E) (he_ling E) n (Some a) (hy_ram h), hy_loaded_nodes := Suc (hy_loaded_nodes h)\<rparr>)"

definition put_edge :: "'g hyd_env \<Rightarrow> string \<Rightarrow> string \<Rightarrow> string \<Rightarrow> edge_attr \<Rightarrow> 'g hydration \<Rightarrow> 'g hydration" where
  "put_edge E u v k a h = h\<lparr>hy_ram := add_edge (he_nx E) u v k a (hy_ram h)\<rparr>"

definition reject_entity :: "string \<Rightarrow> 'g hydration \<Rightarrow> 'g hydration" where
  "reject_entity n h = h\<lparr>hy_invalid := insert n (hy_invalid h)\<rparr>"

definition node_step :: "'g hyd_env \<Rightarrow> node_row \<Rightarrow> 'g hydration \<Rightarrow> 'g hydration" where
  "node_step E row h =
     (case fst row of
        None \<Rightarrow> h
      | Some n \<Rightarrow>
          (if n = [] then h
           else if \<not> is_valid_graph_entity (he_ling E) n then reject_entity n h
           else ensure_node E n (Typed (case snd row of None \<Rightarrow> ''entity'' | Some t \<Rightarrow> t)) (h\<lparr>hy_nodes := Suc (hy_nodes h)\<rparr>)))"

definition rel_key :: "rel_row \<Rightarrow> string \<times> string \<times> string" where
  "rel_key row =
     (case row of (a, b, p, _) \<Rightarrow>
        (case a of None \<Rightarrow> ''None'' | Some x \<Rightarrow> x, case b of None \<Rightarrow> ''None'' | Some x \<Rightarrow> x, case p of None \<Rightarrow> [] | Some x \<Rightarrow> x))"

definition rel_valid :: "ling_env \<Rightarrow> rel_row \<Rightarrow> bool" where
  "rel_valid L row =
     (case row of (Some a, Some b, _) \<Rightarrow> is_valid_graph_entity L a \<and> is_valid_graph_entity L b | _ \<Rightarrow> False)"

definition rel_invalid :: "ling_env \<Rightarrow> rel_row \<Rightarrow> string set" where
  "rel_invalid L row =
     (case row of (Some a, Some b, _) \<Rightarrow>
        (if \<not> is_valid_graph_entity L a then {a} else if \<not> is_valid_graph_entity L b then {b} else {}) | _ \<Rightarrow> {})"

definition merge_edge :: "edge_attr option \<Rightarrow> string \<Rightarrow> rat \<Rightarrow> rat \<Rightarrow> edge_attr" where
  "merge_edge prev predicate confidence stamp =
     (case prev of
        None \<Rightarrow> \<lparr>ed_predicate = predicate, ed_confidence = confidence, ed_timestamp = stamp, ed_session = None\<rparr>
      | Some e \<Rightarrow> \<lparr>ed_predicate = predicate, ed_confidence = max (ed_confidence e) confidence,
          ed_timestamp = max (ed_timestamp e) stamp, ed_session = ed_session e\<rparr>)"

definition rel_predicate :: "string option \<Rightarrow> string" where
  "rel_predicate p = (case p of None \<Rightarrow> ''related_to'' | Some x \<Rightarrow> (if x = [] then ''related_to'' else x))"

definition merge_relation :: "'g hyd_env \<Rightarrow> string \<Rightarrow> string \<Rightarrow> string \<Rightarrow> rat \<Rightarrow> rat \<Rightarrow> 'g hydration \<Rightarrow> 'g hydration" where
  "merge_relation E a b p c t h =
     (let h1 = ensure_node E b (Typed ''entity_or_value'') (ensure_node E a (Typed ''entity'') (h\<lparr>hy_edges := Suc (hy_edges h)\<rparr>));
          prev = nx_edge (he_nx E) a b p (rm_graph (hy_ram h1));
          h2 = put_edge E a b p (merge_edge prev p c t) h1
      in if prev = None then h2\<lparr>hy_loaded_edges := Suc (hy_loaded_edges h2)\<rparr> else h2)"

definition rel_step :: "'g hyd_env \<Rightarrow> rel_row \<Rightarrow> 'g hydration \<Rightarrow> 'g hydration" where
  "rel_step E row h =
     (case row of
        (Some a, Some b, p, conf, ts) \<Rightarrow> merge_relation E a b (rel_predicate p) (as_float (he_float E) conf 1) (as_float (he_float E) ts 0) h
      | _ \<Rightarrow> h)"

definition merge_relations :: "'g hyd_env \<Rightarrow> rel_row list \<Rightarrow> 'g hydration \<Rightarrow> 'g hydration" where
  "merge_relations E rows h =
     (let rel_rows = sort_key rel_key rows; valid = filter (rel_valid (he_ling E)) rel_rows
      in fold (rel_step E) valid
           (h\<lparr>hy_invalid := hy_invalid h \<union> \<Union> (rel_invalid (he_ling E) ` set rel_rows),
              hy_pairs := card ((\<lambda>r. (fst r, fst (snd r))) ` set valid)\<rparr>))"

definition passage_step :: "'g hyd_env \<Rightarrow> string option \<times> string option \<times> string option \<Rightarrow> 'g hydration \<Rightarrow> 'g hydration" where
  "passage_step E row h =
     (case row of (pid, skey, txt) \<Rightarrow>
        (case pid of
           None \<Rightarrow> h
         | Some p \<Rightarrow>
             (if p = [] then h
              else
                (let source = (case skey of None \<Rightarrow> p | Some k \<Rightarrow> if k = [] then p else k);
                     body = (case txt of None \<Rightarrow> [] | Some t \<Rightarrow> t);
                     h1 = h\<lparr>hy_ram := add_node (he_nx E) (he_ling E) p (Some (Passage source body)) (hy_ram h)\<rparr>
                 in if has_node (he_nx E) p (hy_ram h) then h1 else h1\<lparr>hy_loaded_nodes := Suc (hy_loaded_nodes h1)\<rparr>))))"

definition link_edge :: "string \<Rightarrow> rat \<Rightarrow> edge_attr" where
  "link_edge p w = \<lparr>ed_predicate = p, ed_confidence = w, ed_timestamp = 0, ed_session = None\<rparr>"

definition contains_step :: "'g hyd_env \<Rightarrow> string option \<times> string option \<times> pyval \<Rightarrow> 'g hydration \<Rightarrow> 'g hydration" where
  "contains_step E row h =
     (case row of
        (Some p, Some e, w) \<Rightarrow>
          (if \<not> is_valid_graph_entity (he_ling E) e then reject_entity e h
           else
             (let h1 = ensure_node E e (Typed ''entity'') (ensure_node E p (Passage p []) h);
                  h2 = put_edge E p e ''CONTAINS'' (link_edge ''CONTAINS'' (as_float (he_float E) w 1)) h1
              in h2\<lparr>hy_loaded_edges := Suc (hy_loaded_edges h2)\<rparr>))
      | _ \<Rightarrow> h)"

definition synonym_step :: "'g hyd_env \<Rightarrow> string option \<times> string option \<times> pyval \<Rightarrow> 'g hydration \<Rightarrow> 'g hydration" where
  "synonym_step E row h =
     (case row of
        (Some a, Some b, s) \<Rightarrow>
          (if \<not> is_valid_graph_entity (he_ling E) a \<or> \<not> is_valid_graph_entity (he_ling E) b then h
           else
             (let h1 = ensure_node E b (Typed ''entity'') (ensure_node E a (Typed ''entity'') h);
                  h2 = put_edge E a b ''SYNONYM'' (link_edge ''SYNONYM'' (as_float (he_float E) s (17/20))) h1
              in h2\<lparr>hy_loaded_edges := Suc (hy_loaded_edges h2)\<rparr>))
      | _ \<Rightarrow> h)"

text \<open>A stage: its scan, and its rows when the scan did not raise; the first two stages mark the hydration as partial when it did.\<close>

definition stage :: "(nat \<Rightarrow> nat \<Rightarrow> nat \<Rightarrow> 'a list option) \<Rightarrow> ('a list \<Rightarrow> 'g hydration \<Rightarrow> 'g hydration) \<Rightarrow> bool \<Rightarrow> 'g hydration \<Rightarrow> 'g hydration option" where
  "stage q body required h =
     map_option (\<lambda>rows. case rows of None \<Rightarrow> (if required then h\<lparr>hy_partial := True\<rparr> else h) | Some rs \<Rightarrow> body rs h) (hydrate_paged q 512)"

definition hydrate_from_disk_sync :: "'g hyd_env \<Rightarrow> graph_db option \<Rightarrow> 'g ram \<Rightarrow> 'g hydration option" where
  "hydrate_from_disk_sync E conn r =
     (case conn of
        None \<Rightarrow> Some (new_hydration r)
      | Some db \<Rightarrow>
          Option.bind (stage (gd_nodes db) (fold (node_step E)) True (new_hydration r))
            (\<lambda>h1. Option.bind (stage (gd_relations db) (merge_relations E) True h1)
            (\<lambda>h2. Option.bind (stage (gd_passages db) (fold (passage_step E)) False h2)
            (\<lambda>h3. Option.bind (stage (gd_contains db) (fold (contains_step E)) False h3)
            (stage (gd_synonyms db) (fold (synonym_step E)) False)))))"

section \<open>Scanning by pages\<close>

lemma paged_loop_complete:
  assumes "\<And>i j l. q i j l = None \<or> q i j l = Some (take l (drop j T))" "64 \<le> limit" "offset \<le> length T" "rows = take offset T"
  shows "paged_loop q i offset limit rows \<in> {Some None, Some (Some T)}
    \<and> ((\<forall>i j. q i j 64 \<noteq> None) \<longrightarrow> paged_loop q i offset limit rows = Some (Some T))"
  using assms(2-4)
proof (induction "length T - offset + limit" arbitrary: i offset limit rows rule: less_induct)
  case less
  show ?case
  proof (cases "q i offset limit")
    case None
    show ?thesis
    proof (cases "limit \<le> 64")
      case True
      with less.prems(1) have "limit = 64" by simp
      with None show ?thesis by (subst (1 2) paged_loop.simps) auto
    next
      case False
      then have "length T - offset + max 64 (limit div 2) < length T - offset + limit" by linarith
      from less.hyps [OF this _ less.prems(2,3), of "Suc i"] None False show ?thesis
        by (subst (1 2) paged_loop.simps) simp
    qed
  next
    case (Some got)
    then have got: "got = take limit (drop offset T)" using assms(1) [of i offset limit] by simp
    show ?thesis
    proof (cases "length got < limit")
      case True
      then have "got = drop offset T" unfolding got by simp
      with Some True less.prems(3) show ?thesis by (subst (1 2) paged_loop.simps) simp
    next
      case False
      then have len: "length got = limit" "offset + limit \<le> length T" using got less.prems(1,2) by auto
      then have "length T - (offset + length got) + limit < length T - offset + limit" using less.prems(1) by linarith
      from less.hyps [OF this less.prems(1), of "rows @ got" "Suc i"] len Some less.prems(3) show ?thesis
        by (subst (1 2) paged_loop.simps) (simp add: got take_add)
    qed
  qed
qed

text \<open>
  A scan by pages ends and is complete: when every execution of the statement either raises or answers the rows from the offset up
  to the limit, the scan returns, whatever fails in between, and what it returns are all rows once and in order, unless it gives up; it
  never gives up when pages of 64 rows do not fail.
\<close>

theorem paged_scan_is_complete:
  assumes "\<And>i j l. q i j l = None \<or> q i j l = Some (take l (drop j T))"
  shows "hydrate_paged q page \<in> {Some None, Some (Some T)} \<and> ((\<forall>i j. q i j 64 \<noteq> None) \<longrightarrow> hydrate_paged q page = Some (Some T))"
  unfolding hydrate_paged_def by (rule paged_loop_complete [OF assms]) simp_all

theorem paged_scan_is_complete_witness:
  "hydrate_paged (\<lambda>i j l. if l = 512 then None else Some (take l (drop j [1, 2, 3 :: nat]))) 512 = Some (Some [1, 2, 3])"
  by (rule paged_scan_is_complete [THEN conjunct2, THEN mp]) auto

section \<open>Merging relations\<close>

lemma index_graph [simp]: "rm_graph (index_node_entry L n r) = rm_graph r" "rm_count (index_node_entry L n r) = rm_count r"
    "rm_revision (index_node_entry L n r) = rm_revision r"
  by (simp_all add: index_node_entry_def Let_def)

lemma ram_graphs [simp]:
  "rm_graph (add_node X L n a r) = nx_add_node X n a (rm_graph r)" "rm_graph (add_edge X u v k e r) = nx_add_edge X u v k e (rm_graph r)"
  by (simp_all add: add_node_def add_edge_def bump_revision_def)

lemma ensure_node_simps [simp]:
  assumes "nx_ok (he_nx E)"
  shows "nx_nodes (he_nx E) (rm_graph (hy_ram (ensure_node E n a h))) = insert n (nx_nodes (he_nx E) (rm_graph (hy_ram h)))"
    "nx_edge (he_nx E) u v k (rm_graph (hy_ram (ensure_node E n a h))) = nx_edge (he_nx E) u v k (rm_graph (hy_ram h))"
  using assms by (auto simp: ensure_node_def has_node_def nx_ok_def)

lemma ensure_node_present: "n \<in> nx_nodes (he_nx E) (rm_graph (hy_ram h)) \<Longrightarrow> ensure_node E n a h = h"
  by (simp add: ensure_node_def has_node_def)

lemma ensure_node_edges: "ensure_node E n a (h\<lparr>hy_edges := x\<rparr>) = (ensure_node E n a h)\<lparr>hy_edges := x\<rparr>"
  "ensure_node E n a (h\<lparr>hy_loaded_edges := x\<rparr>) = (ensure_node E n a h)\<lparr>hy_loaded_edges := x\<rparr>"
  "hy_edges (ensure_node E n a h) = hy_edges h" "hy_loaded_edges (ensure_node E n a h) = hy_loaded_edges h"
  by (simp_all add: ensure_node_def)

lemma merge_merge: "merge_edge (Some (merge_edge prev p c t)) p c' t' = merge_edge (Some (merge_edge prev p c' t')) p c t"
  by (simp add: merge_edge_def max.assoc max.commute max.left_commute split: option.split)

lemma merge_relation_present:
  assumes "a \<in> nx_nodes (he_nx E) (rm_graph (hy_ram h))" "b \<in> nx_nodes (he_nx E) (rm_graph (hy_ram h))"
    and "nx_edge (he_nx E) a b p (rm_graph (hy_ram h)) = Some e"
  shows "merge_relation E a b p c t h =
    h\<lparr>hy_edges := Suc (hy_edges h), hy_ram := add_edge (he_nx E) a b p (merge_edge (Some e) p c t) (hy_ram h)\<rparr>"
  using assms by (simp add: merge_relation_def Let_def ensure_node_present put_edge_def)

lemma merge_relation_twice:
  fixes E :: "'g hyd_env" and a b :: string
  assumes "nx_ok (he_nx E)"
  defines "both \<equiv> \<lambda>h. ensure_node E b (Typed ''entity_or_value'') (ensure_node E a (Typed ''entity'') h)"
  shows "merge_relation E a b p c' t' (merge_relation E a b p c t h) =
    (let h0 = both h; prev = nx_edge (he_nx E) a b p (rm_graph (hy_ram h)) in
     h0\<lparr>hy_edges := Suc (Suc (hy_edges h)),
        hy_loaded_edges := (if prev = None then Suc (hy_loaded_edges h) else hy_loaded_edges h),
        hy_ram := (hy_ram h0)\<lparr>rm_revision := Suc (Suc (rm_revision (hy_ram h0))), rm_count := None,
          rm_graph := nx_add_edge (he_nx E) a b p (merge_edge (Some (merge_edge prev p c t)) p c' t') (rm_graph (hy_ram h0))\<rparr>\<rparr>)"
proof -
  let ?X = "he_nx E" and ?h0 = "both h"
  let ?prev = "nx_edge ?X a b p (rm_graph (hy_ram h))"
  let ?h1 = "merge_relation E a b p c t h"
  have prev: "nx_edge ?X a b p (rm_graph (hy_ram ?h0)) = ?prev" by (simp add: both_def assms(1))
  have ends: "ensure_node E b (Typed ''entity_or_value'') (ensure_node E a (Typed ''entity'') (h\<lparr>hy_edges := x\<rparr>)) = ?h0\<lparr>hy_edges := x\<rparr>" for x
    by (simp add: both_def ensure_node_edges)
  have loaded: "hy_loaded_edges ?h0 = hy_loaded_edges h" by (simp add: both_def ensure_node_edges)
  have h1: "?h1 = ?h0\<lparr>hy_edges := Suc (hy_edges h),
      hy_loaded_edges := (if ?prev = None then Suc (hy_loaded_edges h) else hy_loaded_edges h),
      hy_ram := add_edge ?X a b p (merge_edge ?prev p c t) (hy_ram ?h0)\<rparr>"
    by (cases "?prev = None") (simp_all add: merge_relation_def Let_def ends loaded prev put_edge_def)
  have nodes: "a \<in> nx_nodes ?X (rm_graph (hy_ram ?h1))" "b \<in> nx_nodes ?X (rm_graph (hy_ram ?h1))"
    using assms(1) by (simp_all add: h1 nx_ok_def)
  have edge: "nx_edge ?X a b p (rm_graph (hy_ram ?h1)) = Some (merge_edge ?prev p c t)"
    using assms(1) by (simp add: h1 nx_ok_def)
  have "merge_relation E a b p c' t' ?h1 =
      ?h1\<lparr>hy_edges := Suc (hy_edges ?h1), hy_ram := add_edge ?X a b p (merge_edge (Some (merge_edge ?prev p c t)) p c' t') (hy_ram ?h1)\<rparr>"
    by (rule merge_relation_present [OF nodes edge])
  also have "\<dots> = ?h0\<lparr>hy_edges := Suc (Suc (hy_edges h)),
        hy_loaded_edges := (if ?prev = None then Suc (hy_loaded_edges h) else hy_loaded_edges h),
        hy_ram := (hy_ram ?h0)\<lparr>rm_revision := Suc (Suc (rm_revision (hy_ram ?h0))), rm_count := None,
          rm_graph := nx_add_edge ?X a b p (merge_edge (Some (merge_edge ?prev p c t)) p c' t') (rm_graph (hy_ram ?h0))\<rparr>\<rparr>"
    using assms(1) by (simp add: h1 add_edge_def bump_revision_def nx_ok_def)
  finally show ?thesis by (simp add: Let_def)
qed

lemma merge_relation_commute:
  "nx_ok (he_nx E) \<Longrightarrow>
   merge_relation E a b p c' t' (merge_relation E a b p c t h) = merge_relation E a b p c t (merge_relation E a b p c' t' h)"
  by (simp add: merge_relation_twice Let_def merge_merge)

lemma rel_step_commute:
  assumes "nx_ok (he_nx E)" "rel_key r = rel_key r'" "rel_valid (he_ling E) r" "rel_valid (he_ling E) r'"
  shows "rel_step E r' (rel_step E r h) = rel_step E r (rel_step E r' h)"
proof -
  obtain a b p c t where r: "r = (Some a, Some b, p, c, t)"
    using assms(3) by (cases r) (auto simp: rel_valid_def split: option.splits)
  obtain a' b' p' c' t' where r': "r' = (Some a', Some b', p', c', t')"
    using assms(4) by (cases r') (auto simp: rel_valid_def split: option.splits)
  from assms(2) r r' have "a' = a" "b' = b" "rel_predicate p' = rel_predicate p"
    by (auto simp: rel_key_def rel_predicate_def split: option.splits)
  with assms(1) show ?thesis by (simp add: r r' rel_step_def merge_relation_commute)
qed

text \<open>Two sortings of the same rows differ in the order of rows with equal keys only.\<close>

lemma fold_commute_prefix:
  assumes "\<forall>y \<in> set ys. \<forall>s. f x (f y s) = f y (f x s)"
  shows "fold f (ys @ x # zs) s = fold f (x # ys @ zs) s"
  using assms by (induction ys arbitrary: s) auto

lemma fold_sorted_mset:
  assumes "mset xs = mset ys" "sorted (map k xs)" "sorted (map k ys)"
    and "\<And>x y s. x \<in> set xs \<Longrightarrow> y \<in> set xs \<Longrightarrow> k x = k y \<Longrightarrow> f x (f y s) = f y (f x s)"
  shows "fold f xs s = fold f ys s"
  using assms
proof (induction xs arbitrary: ys s)
  case (Cons x xs)
  have "x \<in> set ys" using Cons.prems(1) by (metis list.set_intros(1) set_mset_mset)
  then obtain us vs where ys: "ys = us @ x # vs" by (meson split_list)
  have same: "set ys = set (x # xs)" using Cons.prems(1) by (metis set_mset_mset)
  have eq: "k u = k x" if "u \<in> set us" for u
  proof (rule antisym)
    show "k u \<le> k x" using Cons.prems(3) that by (auto simp: ys sorted_append)
    have "u \<in> set (x # xs)" using same that by (auto simp: ys)
    then show "k x \<le> k u" using Cons.prems(2) by auto
  qed
  have "\<forall>u \<in> set us. \<forall>s. f x (f u s) = f u (f x s)"
  proof (intro ballI allI)
    fix u s assume u: "u \<in> set us"
    then have "u \<in> set (x # xs)" using same by (auto simp: ys)
    then show "f x (f u s) = f u (f x s)" using eq [OF u] by (intro Cons.prems(4)) simp_all
  qed
  then have "fold f ys s = fold f (x # us @ vs) s" unfolding ys by (rule fold_commute_prefix)
  moreover have "fold f xs (f x s) = fold f (us @ vs) (f x s)"
  proof (rule Cons.IH)
    show "mset xs = mset (us @ vs)" using Cons.prems(1) by (simp add: ys)
    show "sorted (map k xs)" using Cons.prems(2) by simp
    show "sorted (map k (us @ vs))" using Cons.prems(3) by (simp add: ys sorted_append)
  qed (use Cons.prems(4) in auto)
  ultimately show ?case by simp
qed simp

text \<open>
  C20: Hydration does not depend on the order in which the database lists its relations: any permutation of the rows, duplicates of a
  triple included, gives the same graph, the same indices and the same report.
\<close>

theorem hydration_ignores_scan_order:
  assumes "nx_ok (he_nx E)" "mset rows = mset rows'"
  shows "merge_relations E rows h = merge_relations E rows' h"
proof -
  let ?v = "rel_valid (he_ling E)"
  let ?xs = "filter ?v (sort_key rel_key rows)" and ?ys = "filter ?v (sort_key rel_key rows')"
  have "fold (rel_step E) ?xs s = fold (rel_step E) ?ys s" for s
  proof (rule fold_sorted_mset [where k = rel_key])
    show "mset ?xs = mset ?ys" using assms(2) by (simp add: mset_filter)
    show "sorted (map rel_key ?xs)" "sorted (map rel_key ?ys)" by (simp_all add: sorted_filter)
  qed (use rel_step_commute [OF assms(1)] in auto)
  moreover have "set ?xs = set ?ys" "set (sort_key rel_key rows) = set (sort_key rel_key rows')"
    using assms(2) by (metis mset_filter mset_sort set_mset_mset)+
  ultimately show ?thesis by (simp add: merge_relations_def Let_def)
qed

definition settled :: "'g hyd_env \<Rightarrow> rel_row \<Rightarrow> 'g \<Rightarrow> bool" where
  "settled E row g \<longleftrightarrow>
     (case row of
        (Some a, Some b, p, c, t) \<Rightarrow>
          {a, b} \<subseteq> nx_nodes (he_nx E) g
          \<and> (\<exists>e. nx_edge (he_nx E) a b (rel_predicate p) g = Some e \<and> ed_predicate e = rel_predicate p
                \<and> as_float (he_float E) c 1 \<le> ed_confidence e \<and> as_float (he_float E) t 0 \<le> ed_timestamp e)
      | _ \<Rightarrow> True)"

lemma merge_relation_graph:
  fixes h :: "'g hydration"
  assumes "nx_ok (he_nx E)"
  defines "g \<equiv> rm_graph (hy_ram h)"
  shows "nx_nodes (he_nx E) (rm_graph (hy_ram (merge_relation E a b p c t h))) = {a, b} \<union> nx_nodes (he_nx E) g"
    "nx_edge (he_nx E) u v k (rm_graph (hy_ram (merge_relation E a b p c t h))) =
       (if (u, v, k) = (a, b, p) then Some (merge_edge (nx_edge (he_nx E) a b p g) p c t) else nx_edge (he_nx E) u v k g)"
proof -
  have add: "nx_nodes (he_nx E) (nx_add_edge (he_nx E) a b p e g') = {a, b} \<union> nx_nodes (he_nx E) g'"
    "nx_edge (he_nx E) u v k (nx_add_edge (he_nx E) a b p e g') = (if (u, v, k) = (a, b, p) then Some e else nx_edge (he_nx E) u v k g')"
    for u v k e g' using assms(1) by (simp_all add: nx_ok_def)
  show "nx_nodes (he_nx E) (rm_graph (hy_ram (merge_relation E a b p c t h))) = {a, b} \<union> nx_nodes (he_nx E) g"
    using assms(1) by (auto simp: merge_relation_def Let_def put_edge_def add g_def)
  show "nx_edge (he_nx E) u v k (rm_graph (hy_ram (merge_relation E a b p c t h))) =
       (if (u, v, k) = (a, b, p) then Some (merge_edge (nx_edge (he_nx E) a b p g) p c t) else nx_edge (he_nx E) u v k g)"
    using assms(1) by (auto simp: merge_relation_def Let_def put_edge_def add g_def)
qed

lemma rel_row_cases:
  obtains (triple) a b p c t where "row = (Some a, Some b, p, c, t)"
  | (other) "rel_step E row = id" "\<And>g. settled E row g"
proof (cases "\<exists>a b p c t. row = (Some a, Some b, p, c, t)")
  case False
  then have "rel_step E row h = h" "settled E row g" for h g
    by (auto simp: rel_step_def settled_def split: option.splits prod.splits)
  then show thesis using other by fastforce
qed (use triple in blast)

lemma settled_after_step:
  assumes "nx_ok (he_nx E)"
  shows "settled E row (rm_graph (hy_ram (rel_step E row h)))"
    "settled E row' (rm_graph (hy_ram h)) \<Longrightarrow> settled E row' (rm_graph (hy_ram (rel_step E row h)))"
proof -
  note graph = merge_relation_graph [OF assms]
  have self: "settled E (Some a, Some b, p, c, t) (rm_graph (hy_ram (rel_step E (Some a, Some b, p, c, t) h)))" for a b p c t
    by (simp add: settled_def rel_step_def graph merge_edge_def split: option.split)
  have keep: "settled E (Some a', Some b', p', c', t') (rm_graph (hy_ram (rel_step E (Some a, Some b, p, c, t) h)))"
    if "settled E (Some a', Some b', p', c', t') (rm_graph (hy_ram h))" for a b p c t a' b' p' c' t'
    using that by (auto simp: settled_def rel_step_def graph merge_edge_def le_max_iff_disj)
  show "settled E row (rm_graph (hy_ram (rel_step E row h)))"
    by (cases row rule: rel_row_cases [where E = E]) (simp_all only: self)
  show "settled E row' (rm_graph (hy_ram (rel_step E row h)))" if "settled E row' (rm_graph (hy_ram h))"
  proof (cases row rule: rel_row_cases [where E = E])
    case other
    with that show ?thesis by simp
  next
    case row: (triple a b p c t)
    show ?thesis
      by (cases row' rule: rel_row_cases [where E = E]) (use that keep row in auto)
  qed
qed

lemma fold_settled_keep:
  assumes "nx_ok (he_nx E)" "settled E row (rm_graph (hy_ram h))"
  shows "settled E row (rm_graph (hy_ram (fold (rel_step E) rows h)))"
  using assms(2) by (induction rows arbitrary: h) (simp_all add: settled_after_step [OF assms(1)])

lemma fold_settled:
  assumes "nx_ok (he_nx E)" "row \<in> set rows"
  shows "settled E row (rm_graph (hy_ram (fold (rel_step E) rows h)))"
  using assms(2)
  by (induction rows arbitrary: h) (auto simp: settled_after_step [OF assms(1)] fold_settled_keep [OF assms(1)])

lemma settled_step:
  assumes "nx_ok (he_nx E)" "settled E row (rm_graph (hy_ram h))"
  shows "rm_graph (hy_ram (rel_step E row h)) = rm_graph (hy_ram h) \<and> rm_canonical (hy_ram (rel_step E row h)) = rm_canonical (hy_ram h)
    \<and> hy_loaded_nodes (rel_step E row h) = hy_loaded_nodes h \<and> hy_loaded_edges (rel_step E row h) = hy_loaded_edges h"
proof (cases row rule: rel_row_cases [where E = E])
  case row: (triple a b p c t)
  let ?c = "as_float (he_float E) c 1" and ?t = "as_float (he_float E) t 0"
  from assms(2) obtain e where e: "nx_edge (he_nx E) a b (rel_predicate p) (rm_graph (hy_ram h)) = Some e"
    "ed_predicate e = rel_predicate p" "?c \<le> ed_confidence e" "?t \<le> ed_timestamp e"
    and ab: "a \<in> nx_nodes (he_nx E) (rm_graph (hy_ram h))" "b \<in> nx_nodes (he_nx E) (rm_graph (hy_ram h))"
    by (auto simp: settled_def row)
  have "merge_edge (Some e) (rel_predicate p) ?c ?t = e"
    using e(2-4) by (simp add: merge_edge_def max_def)
  then have "rel_step E row h = h\<lparr>hy_edges := Suc (hy_edges h), hy_ram := add_edge (he_nx E) a b (rel_predicate p) e (hy_ram h)\<rparr>"
    by (simp add: row rel_step_def merge_relation_present [OF ab e(1)])
  moreover have "nx_add_edge (he_nx E) a b (rel_predicate p) e (rm_graph (hy_ram h)) = rm_graph (hy_ram h)"
    using assms(1) e(1) by (simp add: nx_ok_def)
  ultimately show ?thesis by (simp add: add_edge_def bump_revision_def)
qed simp

lemma fold_settled_same:
  assumes "nx_ok (he_nx E)" "\<forall>row \<in> set rows. settled E row (rm_graph (hy_ram h))"
  shows "rm_graph (hy_ram (fold (rel_step E) rows h)) = rm_graph (hy_ram h)
    \<and> rm_canonical (hy_ram (fold (rel_step E) rows h)) = rm_canonical (hy_ram h)
    \<and> hy_loaded_nodes (fold (rel_step E) rows h) = hy_loaded_nodes h \<and> hy_loaded_edges (fold (rel_step E) rows h) = hy_loaded_edges h"
  using assms(2)
proof (induction rows arbitrary: h)
  case (Cons row rows)
  note s = settled_step [OF assms(1), of row h]
  from Cons.IH [of "rel_step E row h"] Cons.prems s show ?case by simp
qed simp

text \<open>
  Hydrating relations again changes nothing: a second pass over the same rows leaves the graph and its index as they are and reports
  no new node and no new edge.
\<close>

theorem rehydration_changes_nothing:
  assumes "nx_ok (he_nx E)"
  shows "let r1 = hy_ram (merge_relations E rows h); h2 = merge_relations E rows (new_hydration r1)
         in rm_graph (hy_ram h2) = rm_graph r1 \<and> rm_canonical (hy_ram h2) = rm_canonical r1
            \<and> hy_loaded_nodes h2 = 0 \<and> hy_loaded_edges h2 = 0"
proof -
  let ?valid = "filter (rel_valid (he_ling E)) (sort_key rel_key rows)"
  let ?r1 = "hy_ram (merge_relations E rows h)"
  have "\<forall>row \<in> set ?valid. settled E row (rm_graph ?r1)"
    using fold_settled [OF assms, of _ ?valid] by (simp add: merge_relations_def Let_def)
  then show ?thesis
    using fold_settled_same [OF assms, of ?valid] by (simp add: merge_relations_def Let_def new_hydration_def)
qed

section \<open>The indices stay sound\<close>

inductive ram_reach :: "'g nx_api \<Rightarrow> ling_env \<Rightarrow> 'g ram \<Rightarrow> bool" for X L where
  reach_new_ram: "ram_reach X L (new_ram g)" if "nx_nodes X g = {}" "nx_number_of_edges X g = 0"
| reach_add_node: "ram_reach X L (add_node X L n a r)" if "ram_reach X L r" "py_strip n = n"
| reach_add_nodes: "ram_reach X L (add_nodes_from X L ns r)" if "ram_reach X L r" "\<forall>n \<in> set ns. py_strip n = n"
| reach_add_edge: "ram_reach X L (add_edge X u v k e r)" if "ram_reach X L r"
| reach_remove_edge: "ram_reach X L (fst (remove_edge X u v k' r))" if "ram_reach X L r"
| reach_remove_node: "ram_reach X L (fst (remove_node X n r))" if "ram_reach X L r"
| reach_remove_nodes: "ram_reach X L (remove_nodes_from X ns r)" if "ram_reach X L r"
| reach_clear: "ram_reach X L (clear_ram X r)" if "ram_reach X L r"
| reach_clear_edges: "ram_reach X L (clear_edges X r)" if "ram_reach X L r"
| reach_count: "ram_reach X L (fst (number_of_edges X r))" if "ram_reach X L r"

definition index_sound :: "'g nx_api \<Rightarrow> 'g ram \<Rightarrow> bool" where
  "index_sound X r \<longleftrightarrow>
     (\<forall>k m. dget (rm_canonical r) k = Some m \<longrightarrow> m \<in> nx_nodes X (rm_graph r) \<and> lower_pl m = k \<and> py_strip m = m)"

definition count_sound :: "'g nx_api \<Rightarrow> 'g ram \<Rightarrow> bool" where
  "count_sound X r \<longleftrightarrow> (\<forall>n. rm_count r = Some n \<longrightarrow> n = nx_number_of_edges X (rm_graph r))"

lemma index_entry_sound:
  assumes "index_sound X r" "py_strip n = n" "n \<in> nx_nodes X (rm_graph r)"
  shows "index_sound X (index_node_entry L n r)"
  using assms by (auto simp: index_sound_def index_node_entry_def Let_def split: if_splits)

lemma index_sound_mono:
  assumes "index_sound X r" "rm_canonical r' = rm_canonical r" "nx_nodes X (rm_graph r) \<subseteq> nx_nodes X (rm_graph r')"
  shows "index_sound X r'"
  using assms by (auto simp: index_sound_def)

lemma fold_index_sound:
  assumes "index_sound X r" "\<forall>n \<in> set ns. py_strip n = n \<and> n \<in> nx_nodes X (rm_graph r)"
  shows "index_sound X (fold (index_node_entry L) ns r)"
  using assms by (induction ns arbitrary: r) (simp_all add: index_entry_sound)

lemma fold_add_nodes:
  assumes "nx_ok X"
  shows "nx_nodes X (fold (\<lambda>n. nx_add_node X n None) ns g) = set ns \<union> nx_nodes X g"
    "nx_number_of_edges X (fold (\<lambda>n. nx_add_node X n None) ns g) = nx_number_of_edges X g"
  using assms by (induction ns arbitrary: g) (auto simp: nx_ok_def)

lemma fold_index_graph:
  "rm_graph (fold (index_node_entry L) ns r) = rm_graph r" "rm_count (fold (index_node_entry L) ns r) = rm_count r"
  by (induction ns arbitrary: r) simp_all

lemma drop_index_simps [simp]:
  "rm_graph (drop_index n r) = rm_graph r" "rm_count (drop_index n r) = rm_count r"
  "dget (rm_canonical (drop_index n r)) k = (if k = lower_pl (py_strip n) then None else dget (rm_canonical r) k)"
  by (auto simp: drop_index_def Let_def)

lemma fold_drop_index:
  "rm_graph (fold drop_index ns r) = rm_graph r" "rm_count (fold drop_index ns r) = rm_count r"
  "dget (rm_canonical (fold drop_index ns r)) k = (if \<exists>n \<in> set ns. k = lower_pl (py_strip n) then None else dget (rm_canonical r) k)"
  by (induction ns arbitrary: r) auto

lemma fold_remove_nodes:
  assumes "nx_ok X"
  shows "nx_nodes X g - set ns \<subseteq> nx_nodes X (fold (\<lambda>n g. case nx_remove_node X n g of None \<Rightarrow> g | Some g' \<Rightarrow> g') ns g)"
proof (induction ns arbitrary: g)
  case (Cons n ns)
  have "nx_nodes X g - {n} \<subseteq> nx_nodes X (case nx_remove_node X n g of None \<Rightarrow> g | Some g' \<Rightarrow> g')"
    using assms by (auto simp: nx_ok_def split: option.splits)
  with Cons.IH [of "case nx_remove_node X n g of None \<Rightarrow> g | Some g' \<Rightarrow> g'"] show ?case by auto
qed simp

lemma ram_reach_sound:
  assumes "ram_reach X L r" "nx_ok X"
  shows "index_sound X r \<and> count_sound X r"
  using assms(1)
proof (induction rule: ram_reach.induct)
  case (reach_new_ram g)
  then show ?case by (simp add: new_ram_def index_sound_def count_sound_def)
next
  case (reach_add_node r n a)
  let ?r = "(bump_revision r)\<lparr>rm_graph := nx_add_node X n a (rm_graph r)\<rparr>"
  have nodes: "nx_nodes X (rm_graph ?r) = insert n (nx_nodes X (rm_graph r))" using assms(2) by (simp add: nx_ok_def)
  have "index_sound X ?r"
    by (rule index_sound_mono [where r = r]) (use reach_add_node nodes in \<open>auto simp: bump_revision_def\<close>)
  then have "index_sound X (add_node X L n a r)"
    unfolding add_node_def by (rule index_entry_sound) (use reach_add_node nodes in auto)
  then show ?case
    using reach_add_node assms(2) by (simp add: count_sound_def add_node_def bump_revision_def nx_ok_def)
next
  case (reach_add_nodes r ns)
  let ?r = "(bump_revision r)\<lparr>rm_graph := fold (\<lambda>n. nx_add_node X n None) ns (rm_graph r)\<rparr>"
  have "index_sound X ?r"
    by (rule index_sound_mono [where r = r]) (use reach_add_nodes fold_add_nodes [OF assms(2)] in \<open>auto simp: bump_revision_def\<close>)
  then have "index_sound X (add_nodes_from X L ns r)"
    unfolding add_nodes_from_def by (rule fold_index_sound) (use reach_add_nodes fold_add_nodes [OF assms(2)] in auto)
  then show ?case
    using reach_add_nodes fold_add_nodes [OF assms(2)]
    by (simp add: count_sound_def add_nodes_from_def fold_index_graph bump_revision_def)
next
  case (reach_add_edge r u v k e)
  have "nx_nodes X (nx_add_edge X u v k e (rm_graph r)) = {u, v} \<union> nx_nodes X (rm_graph r)"
    using assms(2) by (simp add: nx_ok_def)
  with reach_add_edge show ?case
    by (auto simp: index_sound_def count_sound_def add_edge_def bump_revision_def)
next
  case (reach_remove_edge r u v k')
  have "nx_remove_edge X u v k' (rm_graph r) = Some g' \<Longrightarrow> nx_nodes X g' = nx_nodes X (rm_graph r)" for g'
    using assms(2) by (simp add: nx_ok_def)
  with reach_remove_edge show ?case
    by (auto simp: index_sound_def count_sound_def remove_edge_def bump_revision_def Let_def split: option.splits)
next
  case (reach_remove_node r n)
  have del: "nx_remove_node X n (rm_graph r) = Some g' \<Longrightarrow> nx_nodes X g' = nx_nodes X (rm_graph r) - {n}" for g'
    using assms(2) by (simp add: nx_ok_def)
  have "index_sound X (fst (remove_node X n r))"
    unfolding index_sound_def
  proof (intro allI impI)
    fix k m assume m: "dget (rm_canonical (fst (remove_node X n r))) k = Some m"
    then have k: "k \<noteq> lower_pl (py_strip n)" and old: "dget (rm_canonical r) k = Some m"
      by (auto simp: remove_node_def Let_def bump_revision_def split: option.splits if_splits)
    with reach_remove_node have sound: "m \<in> nx_nodes X (rm_graph r)" "lower_pl m = k" "py_strip m = m"
      by (auto simp: index_sound_def)
    then have "m \<noteq> n" using k by auto
    with sound del show "m \<in> nx_nodes X (rm_graph (fst (remove_node X n r))) \<and> lower_pl m = k \<and> py_strip m = m"
      by (auto simp: remove_node_def Let_def bump_revision_def split: option.splits)
  qed
  then show ?case by (simp add: count_sound_def remove_node_def Let_def bump_revision_def split: option.splits)
next
  case (reach_remove_nodes r ns)
  have "index_sound X (remove_nodes_from X ns r)"
    unfolding index_sound_def
  proof (intro allI impI)
    fix k m assume "dget (rm_canonical (remove_nodes_from X ns r)) k = Some m"
    then have k: "\<forall>n \<in> set ns. k \<noteq> lower_pl (py_strip n)" and old: "dget (rm_canonical r) k = Some m"
      by (auto simp: remove_nodes_from_def Let_def fold_drop_index bump_revision_def split: if_splits)
    with reach_remove_nodes have sound: "m \<in> nx_nodes X (rm_graph r)" "lower_pl m = k" "py_strip m = m"
      by (auto simp: index_sound_def)
    then have "m \<notin> set ns" using k by auto
    with sound fold_remove_nodes [OF assms(2), of "rm_graph r" ns]
    show "m \<in> nx_nodes X (rm_graph (remove_nodes_from X ns r)) \<and> lower_pl m = k \<and> py_strip m = m"
      by (auto simp: remove_nodes_from_def Let_def)
  qed
  then show ?case by (simp add: count_sound_def remove_nodes_from_def Let_def fold_drop_index)
next
  case (reach_clear r)
  show ?case using assms(2) by (simp add: index_sound_def count_sound_def clear_ram_def bump_revision_def nx_ok_def)
next
  case (reach_clear_edges r)
  then show ?case using assms(2) by (simp add: index_sound_def count_sound_def clear_edges_def nx_ok_def)
next
  case (reach_count r)
  then show ?case by (auto simp: index_sound_def count_sound_def number_of_edges_def split: option.splits)
qed

text \<open>
  C21: The indices of the graph never lie: whatever sequence of additions, removals and clearings went before, failed ones included, a
  name that is resolved is a node and differs from the query in case and outer blanks only, and the cached number of edges is the
  number of edges, when nodes are added under names without outer blanks.
\<close>

theorem indices_are_sound:
  assumes "ram_reach X L r" "nx_ok X"
  shows "(\<forall>t m. resolve_canonical_node X t r = Some m \<longrightarrow> has_node X m r \<and> (m = t \<or> lower_pl m = py_strip (lower_pl t)))
    \<and> snd (number_of_edges X r) = nx_number_of_edges X (rm_graph r)"
  using ram_reach_sound [OF assms]
  by (auto simp: resolve_canonical_node_def index_sound_def count_sound_def number_of_edges_def has_node_def
      split: if_splits option.splits)

lemma add_entity_simps:
  "distinct es \<Longrightarrow> distinct (add_entity X r c es)"
  "set (add_entity X r c es) = set es \<union> {x. c = Some x \<and> x \<noteq> [] \<and> has_node X x r}"
  by (auto simp: add_entity_def split: option.splits)

lemma fold_grows:
  assumes "\<And>x es. P es \<Longrightarrow> P (f x es)" "\<And>x es. set es \<subseteq> set (f x es)"
  shows "P es \<Longrightarrow> P (fold f xs es)" "set es \<subseteq> set (fold f xs es)"
proof -
  show "P es \<Longrightarrow> P (fold f xs es)" by (induction xs arbitrary: es) (simp_all add: assms(1))
  show "set es \<subseteq> set (fold f xs es)"
    by (induction xs arbitrary: es) (simp, metis (no_types) assms(2) fold_simps(2) subset_trans)
qed

definition found_nodes :: "'g nx_api \<Rightarrow> 'g ram \<Rightarrow> string list \<Rightarrow> bool" where
  "found_nodes X r es \<longleftrightarrow> distinct es \<and> (\<forall>x \<in> set es. has_node X x r)"

lemma add_entity_found: "found_nodes X r es \<Longrightarrow> found_nodes X r (add_entity X r c es)" "set es \<subseteq> set (add_entity X r c es)"
  by (auto simp: found_nodes_def add_entity_simps)

lemma add_word_found: "found_nodes X r es \<Longrightarrow> found_nodes X r (add_word X r w es)" "set es \<subseteq> set (add_word X r w es)"
  by (auto simp: add_word_def Let_def add_entity_found(1)) (auto simp: add_entity_simps)

lemma add_inflected_found:
  "found_nodes X r es \<Longrightarrow> found_nodes X r (add_inflected X L order r w es)" "set es \<subseteq> set (add_inflected X L order r w es)"
proof -
  show "found_nodes X r es \<Longrightarrow> found_nodes X r (add_inflected X L order r w es)"
    unfolding add_inflected_def Let_def by (auto intro!: fold_grows(1) [where P = "found_nodes X r"] add_entity_found)
  show "set es \<subseteq> set (add_inflected X L order r w es)"
    unfolding add_inflected_def Let_def
    using fold_grows(2) [where P = "\<lambda>_. True" and f = "\<lambda>n. add_entity X r (Some n)", OF _ add_entity_found(2)] by auto
qed

text \<open>
  Entities of a query are nodes: the resolution lists nodes of the graph only, each once, and misses no node that a word of the
  query names exactly.
\<close>

theorem query_entities_are_nodes:
  "let es = resolve_query_entities X L order ws query r in
     distinct es \<and> (\<forall>x \<in> set es. has_node X x r)
     \<and> {s \<in> strip_chars word_edge ` set ws. s \<noteq> [] \<and> has_node X s r} \<subseteq> set es"
proof -
  let ?es0 = "add_phrases X r query []" and ?words = "fold (add_word X r) ws"
  have "found_nodes X r ?es0"
    unfolding add_phrases_def Let_def
    by (rule fold_grows(1) [where P = "found_nodes X r"]) (simp_all add: add_entity_found found_nodes_def [of X r "[]"])
  then have "found_nodes X r (?words ?es0)"
    by (rule fold_grows(1) [rotated 2]) (simp_all add: add_word_found)
  then have all: "found_nodes X r (resolve_query_entities X L order ws query r)"
    unfolding resolve_query_entities_def by (rule fold_grows(1) [rotated 2]) (simp_all add: add_inflected_found)
  have named: "strip_chars word_edge w \<in> set (?words es)"
    if "w \<in> set ws" "strip_chars word_edge w \<noteq> []" "has_node X (strip_chars word_edge w) r" for w es
    using that(1)
  proof (induction ws arbitrary: es)
    case (Cons v vs)
    have "strip_chars word_edge v \<in> set (add_word X r v es)" if "v = w"
      using that \<open>strip_chars word_edge w \<noteq> []\<close> \<open>has_node X (strip_chars word_edge w) r\<close>
      by (auto simp: add_word_def Let_def add_entity_simps)
    with Cons show ?case
      using fold_grows(2) [where P = "\<lambda>_. True" and f = "add_word X r", OF _ add_word_found(2)] by auto
  qed simp
  have "set (?words ?es0) \<subseteq> set (resolve_query_entities X L order ws query r)"
    unfolding resolve_query_entities_def
    by (rule fold_grows(2) [where P = "\<lambda>_. True"]) (simp_all add: add_inflected_found(2))
  with all named show ?thesis by (auto simp: Let_def found_nodes_def)
qed

section \<open>Witnesses\<close>

text \<open>A multigraph of a list of names and a dictionary of edges.\<close>

type_synonym toy_graph_state = "string list \<times> (string \<times> string \<times> string, edge_attr) dict"

definition toy_nodes :: "toy_graph_state \<Rightarrow> string list" where
  "toy_nodes g = fst g @ concat (map (\<lambda>((u, v, k), a). [u, v]) (snd g))"

definition toy_nx :: "toy_graph_state nx_api" where
  "toy_nx = \<lparr>nx_nodes = (\<lambda>g. set (toy_nodes g)), nx_add_node = (\<lambda>n a g. (List.insert n (fst g), snd g)),
     nx_edge = (\<lambda>u v k g. dget (snd g) (u, v, k)), nx_add_edge = (\<lambda>u v k a g. (fst g, dset (u, v, k) a (snd g))),
     nx_remove_edge = (\<lambda>u v k g. case k of None \<Rightarrow> None | Some k' \<Rightarrow>
        (if dget (snd g) (u, v, k') = None then None else Some (toy_nodes g, ddel (u, v, k') (snd g)))),
     nx_remove_node = (\<lambda>n g. if n \<in> set (toy_nodes g)
        then Some (removeAll n (toy_nodes g), filter (\<lambda>((u, v, k), a). u \<noteq> n \<and> v \<noteq> n) (snd g)) else None),
     nx_number_of_edges = (\<lambda>g. length (snd g)), nx_clear = (\<lambda>g. ([], [])), nx_clear_edges = (\<lambda>g. (toy_nodes g, []))\<rparr>"

lemma dset_dset: "dset k a (dset k b d) = dset k a d"
  by (induction d) auto

lemma dset_same: "dget d k = Some a \<Longrightarrow> dset k a d = d"
  by (induction d) auto

lemma toy_ends_dset:
  "set (concat (map (\<lambda>((u, v, k), a). [u, v]) (dset (u', v', k') a' d))) = {u', v'} \<union> set (concat (map (\<lambda>((u, v, k), a). [u, v]) d))"
  by (induction d) auto

lemma toy_ends_ddel: "set (concat (map (\<lambda>((u, v, k), a). [u, v]) (ddel key d))) \<subseteq> set (concat (map (\<lambda>((u, v, k), a). [u, v]) d))"
  by (auto simp: AList.delete_eq)

lemma toy_nx_ok: "nx_ok toy_nx"
  unfolding nx_ok_def
proof (intro conjI allI impI)
  fix u v k a and g :: toy_graph_state
  show "nx_nodes toy_nx (nx_add_edge toy_nx u v k a g) = {u, v} \<union> nx_nodes toy_nx g"
    using toy_ends_dset [of u v k a "snd g"] by (auto simp: toy_nx_def toy_nodes_def)
next
  fix u v k and g g' :: toy_graph_state assume "nx_remove_edge toy_nx u v k g = Some g'"
  then obtain key where g': "g' = (toy_nodes g, ddel key (snd g))" by (auto simp: toy_nx_def split: option.splits if_splits)
  have "set (concat (map (\<lambda>((u, v, k), a). [u, v]) (ddel key (snd g)))) \<subseteq> set (toy_nodes g)"
    using toy_ends_ddel [of key "snd g"] by (auto simp only: toy_nodes_def set_append)
  moreover have "nx_nodes toy_nx h = set (toy_nodes h)" for h by (simp add: toy_nx_def)
  moreover have "set (toy_nodes g') = set (toy_nodes g) \<union> set (concat (map (\<lambda>((u, v, k), a). [u, v]) (ddel key (snd g))))"
    by (simp only: g' toy_nodes_def [of "(toy_nodes g, ddel key (snd g))"] fst_conv snd_conv set_append)
  ultimately show "nx_nodes toy_nx g' = nx_nodes toy_nx g" by blast
next
  fix n and g g' :: toy_graph_state assume "nx_remove_node toy_nx n g = Some g'"
  then have g': "g' = (removeAll n (toy_nodes g), filter (\<lambda>((u, v, k), a). u \<noteq> n \<and> v \<noteq> n) (snd g))"
    by (simp add: toy_nx_def split: if_splits)
  have "set (concat (map (\<lambda>((u, v, k), a). [u, v]) (filter (\<lambda>((u, v, k), a). u \<noteq> n \<and> v \<noteq> n) (snd g)))) \<subseteq> set (toy_nodes g) - {n}"
    by (auto simp: toy_nodes_def)
  moreover have "nx_nodes toy_nx h = set (toy_nodes h)" for h by (simp add: toy_nx_def)
  moreover have "set (toy_nodes g') = set (toy_nodes g) - {n}
      \<union> set (concat (map (\<lambda>((u, v, k), a). [u, v]) (filter (\<lambda>((u, v, k), a). u \<noteq> n \<and> v \<noteq> n) (snd g))))"
    by (simp only: g' toy_nodes_def [of "(removeAll n (toy_nodes g), filter (\<lambda>((u, v, k), a). u \<noteq> n \<and> v \<noteq> n) (snd g))"]
        fst_conv snd_conv set_append set_removeAll)
  ultimately show "nx_nodes toy_nx g' = nx_nodes toy_nx g - {n}" by blast
next
  fix n a u v k and g :: toy_graph_state
  show "nx_nodes toy_nx (nx_add_node toy_nx n a g) = insert n (nx_nodes toy_nx g)" by (auto simp: toy_nx_def toy_nodes_def)
next
  fix u v k u' v' k' a and g :: toy_graph_state
  show "nx_edge toy_nx u' v' k' (nx_add_edge toy_nx u v k a g) = (if (u', v', k') = (u, v, k) then Some a else nx_edge toy_nx u' v' k' g)"
    by (auto simp: toy_nx_def)
qed (simp_all add: toy_nx_def toy_nodes_def dset_dset dset_same)

definition toy_hyd :: "toy_graph_state hyd_env" where
  "toy_hyd = \<lparr>he_nx = toy_nx, he_ling = bare_ling, he_float = (\<lambda>_. None)\<rparr>"

theorem hydration_ignores_scan_order_witness:
  "merge_relations toy_hyd [(Some ''gateway'', Some ''redis'', None, VFloat 1, VNone), (Some ''gateway'', Some ''redis'', Some [], VInt 0, VInt 5)]
     (new_hydration (new_ram ([], [])))
   = merge_relations toy_hyd [(Some ''gateway'', Some ''redis'', Some [], VInt 0, VInt 5), (Some ''gateway'', Some ''redis'', None, VFloat 1, VNone)]
     (new_hydration (new_ram ([], [])))"
  by (rule hydration_ignores_scan_order) (simp_all add: toy_hyd_def toy_nx_ok add_mset_commute)

theorem rehydration_changes_nothing_witness:
  "hy_loaded_edges (merge_relations toy_hyd [(Some ''gateway'', Some ''redis'', None, VFloat 1, VNone)]
     (new_hydration (hy_ram (merge_relations toy_hyd [(Some ''gateway'', Some ''redis'', None, VFloat 1, VNone)]
        (new_hydration (new_ram ([], []))))))) = 0"
proof -
  have "nx_ok (he_nx toy_hyd)" by (simp add: toy_hyd_def toy_nx_ok)
  from rehydration_changes_nothing [OF this] show ?thesis by (simp add: Let_def)
qed

theorem indices_are_sound_witness:
  "resolve_canonical_node toy_nx '' GATEWAY '' (add_node toy_nx bare_ling ''Gateway'' None (new_ram ([], []))) = Some ''Gateway''
   \<and> has_node toy_nx ''Gateway'' (add_node toy_nx bare_ling ''Gateway'' None (new_ram ([], [])))"
proof -
  let ?r = "add_node toy_nx bare_ling ''Gateway'' None (new_ram ([], []))"
  have "ram_reach toy_nx bare_ling ?r"
    by (rule reach_add_node [OF reach_new_ram]) (simp_all add: toy_nx_def toy_nodes_def, code_simp)
  note sound = indices_are_sound [OF this toy_nx_ok, THEN conjunct1, rule_format]
  have "resolve_canonical_node toy_nx '' GATEWAY '' ?r = Some ''Gateway''" by code_simp
  with sound [OF this] show ?thesis by simp
qed

text \<open>
  A removal that fails loses the node from the index: removing a node under another spelling raises, and the node, which is still
  there, is no longer found under any other spelling than its own.
\<close>

theorem failed_removal_loses_index:
  "let r = add_node toy_nx bare_ling ''Gateway'' None (new_ram ([], [])); (r', ok) = remove_node toy_nx ''gateway'' r
   in \<not> ok \<and> has_node toy_nx ''Gateway'' r' \<and> resolve_canonical_node toy_nx ''GATEWAY'' r = Some ''Gateway''
      \<and> resolve_canonical_node toy_nx ''GATEWAY'' r' = None"
  by code_simp

definition linked_db :: graph_db where
  "linked_db = \<lparr>gd_nodes = (\<lambda>i j l. Some []), gd_relations = (\<lambda>i j l. Some []), gd_passages = (\<lambda>i j l. Some []),
     gd_contains = (\<lambda>i j l. Some [(Some ''p1'', Some ''gateway'', VFloat 1)]), gd_synonyms = (\<lambda>i j l. Some [])\<rparr>"

lemma one_page: "length xs < 512 \<Longrightarrow> hydrate_paged (\<lambda>i j l. Some xs) 512 = Some (Some xs)"
  by (simp add: hydrate_paged_def paged_loop.simps)

lemma linked_hydration:
  "hydrate_from_disk_sync E (Some linked_db) r =
     Some (contains_step E (Some ''p1'', Some ''gateway'', VFloat 1) (merge_relations E [] (new_hydration r)))"
  by (simp add: hydrate_from_disk_sync_def linked_db_def stage_def one_page)

text \<open>
  Links are counted as loaded every time: hydrating twice from a database with one passage, one entity and one link reports a new
  edge in both reports.
\<close>

theorem links_count_as_loaded_again:
  "let h1 = hydrate_from_disk_sync toy_hyd (Some linked_db) (new_ram ([], []));
       h2 = Option.bind h1 (\<lambda>h. hydrate_from_disk_sync toy_hyd (Some linked_db) (hy_ram h))
   in map_option hy_loaded_edges h1 = Some 1 \<and> map_option hy_loaded_edges h2 = Some 1
      \<and> map_option (rm_graph \<circ> hy_ram) h2 = map_option (rm_graph \<circ> hy_ram) h1"
  unfolding linked_hydration Let_def Option.bind.simps option.map comp_def by (intro conjI; code_simp)

end
