(* ===== verification/SyncWrite.thy ===== *)
theory SyncWrite
  imports SyncBridge WriteSaga
begin

text \<open>
  The bridge as the daemon builds it: \<open>StateSyncBridge\<close> (\<open>sync/bridge.py\<close>) over the same store as the
  \<open>EpistemicWritePath\<close> (\<open>cognitive/write_path.py\<close>) that it writes through. \<open>saga_path\<close> is the write path as the
  bridge sees it: what a call of \<open>write_async\<close> with the bridge's arguments does to the store, for whatever
  graph, vector index, hot buffer and arbiter the write path has at that call (\<open>parts\<close>).
\<close>

section \<open>What a write does to the ledger\<close>

text \<open>From a valid store to a valid store whose ledger continues the old one.\<close>

definition grown :: "(rat \<Rightarrow> string) \<Rightarrow> kv \<Rightarrow> kv \<Rightarrow> bool" where
  "grown fr s s' \<longleftrightarrow> (kv_valid fr s \<longrightarrow> kv_valid fr s' \<and> prefix (audit_log (kdb s)) (audit_log (kdb s')))"

definition wp_grown :: "('g, 'v, 'r) wp_env \<Rightarrow> ('g, 'v) wp \<Rightarrow> ('g, 'v) wp \<Rightarrow> bool" where
  "wp_grown E w w' \<longleftrightarrow> rel_option (grown (we_fr E)) (w_kv w) (w_kv w')"

lemma grown_refl [simp]: "grown fr s s"
  by (simp add: grown_def)

lemma grown_trans: "grown fr s s' \<Longrightarrow> grown fr s' s'' \<Longrightarrow> grown fr s s''"
  by (auto simp: grown_def)

lemma grown_set: "rs \<noteq> ''delete'' \<Longrightarrow> grown fr s (fst (set_sync fr now k v c m rs ttl s))"
  using set_sync_valid [of fr s rs now k v c m ttl] by (fastforce simp: grown_def)

lemma grown_delete: "grown fr s (fst (delete_sync fr now k s))"
  using delete_sync_valid [of fr s now k] by (auto simp: grown_def split: if_splits)

lemma wp_grown_same: "w_kv w' = w_kv w \<Longrightarrow> wp_grown E w w'"
  by (cases "w_kv w") (simp_all add: wp_grown_def)

lemma wp_grown_trans: "wp_grown E w w' \<Longrightarrow> wp_grown E w' w'' \<Longrightarrow> wp_grown E w w''"
  unfolding wp_grown_def
  by (cases "w_kv w"; cases "w_kv w'"; cases "w_kv w''") (auto intro: grown_trans)

lemma wp_grown_from: "w_kv w' = w_kv w \<Longrightarrow> wp_grown E w' w'' \<Longrightarrow> wp_grown E w w''"
  by (simp add: wp_grown_def)

lemma wp_grown_to: "w_kv w' = w_kv w'' \<Longrightarrow> wp_grown E w w'' \<Longrightarrow> wp_grown E w w'"
  by (simp add: wp_grown_def)

lemma wp_grown_set: "rs \<noteq> ''delete'' \<Longrightarrow> wp_grown E w (try_set E now k v c m rs w)"
  by (cases "w_kv w") (simp_all add: wp_grown_def wp_simps grown_set)

lemma wp_grown_supersede: "wp_grown E w (fst (supersede E now key c r items m w))"
proof -
  have tomb: "wp_grown E w (set_tombstone E now k w)" for k and w :: "('a, 'b) wp"
    by (simp add: set_tombstone_def wp_grown_set wp_grown_same split: option.split sum.split)
  have purge: "wp_grown E w (fst (purge_old_vectors E now k w m))" for k m and w :: "('a, 'b) wp"
    unfolding purge_old_vectors_def Let_def case_prod_beta
    by (auto simp: wp_grown_same split: option.split intro: wp_grown_trans [OF wp_grown_same tomb])
  have set: "wp_grown E w (try_set E now k v c m ''superseded_by_belief_revision'' w)" for k v c m and w :: "('a, 'b) wp"
    by (rule wp_grown_set) simp
  show ?thesis
    unfolding supersede_def Let_def case_prod_beta
    by (auto simp: wp_grown_same wp_simps split: option.split if_split
        intro: wp_grown_trans [OF wp_grown_same purge] wp_grown_trans [OF wp_grown_trans [OF set wp_grown_same] purge]
          wp_grown_trans [OF set wp_grown_same])
qed

lemma wp_grown_restore: "rs \<noteq> ''delete'' \<Longrightarrow> wp_grown E w (restore_old E now rs old w)"
  by (auto simp: restore_old_def restore_item_def wp_grown_same wp_grown_set split: option.split)

text \<open>Persisting, undoing it, and releasing it.\<close>

lemma persisted:
  assumes "persist E now key val c m rs w = (w1, x)" "rs \<noteq> ''delete''" "w_kv w = Some s" "kv_valid (we_fr E) s"
  obtains s2 where "w_kv w1 = Some s2" "x = Inr (True, True)" "kv_valid (we_fr E) s2" "saga_open s s2"
    "prefix (audit_log (kdb s)) (audit_log (kdb s2))"
proof -
  obtain s2 where s2: "persist E now key val c m rs w = (w\<lparr>w_kv := Some s2\<rparr>, Inr (True, True))" "kv_valid (we_fr E) s2" "saga_open s s2"
    by (rule persist_valid [OF assms(4,3,2)])
  let ?s1 = "s\<lparr>savepoints := (saga, tables s) # savepoints s, saved_hashes := dset saga (prev_hash s) (saved_hashes s)\<rparr>"
  have o: "conn_open s" using assms(4) by (simp add: kv_valid_def)
  then have sp: "savepoint saga s = (?s1, Inr ())" by (simp add: savepoint_def)
  have "kv_valid (we_fr E) ?s1" using assms(4) by (simp add: kv_valid_def)
  moreover have "fst (set_sync (we_fr E) now key val (FNum c) m rs None ?s1) = s2"
    using s2(1) assms(3) sp by (auto simp: persist_def split: prod.splits sum.splits dest: arg_cong [where f = w_kv])
  ultimately have "prefix (audit_log (kdb s)) (audit_log (kdb s2))"
    using grown_set [OF assms(2), of "we_fr E" ?s1 now key val "FNum c" m None] by (simp add: grown_def)
  with s2 assms(1) show thesis by (intro that [of s2]) auto
qed

lemma wp_grown_persist:
  assumes "persist E now key val c m rs w = (w1, x)" "rs \<noteq> ''delete''" "store_ok E w"
  shows "wp_grown E w w1" and "x = Inr (p, a) \<Longrightarrow> wp_grown E w (release_saga a w1)"
    and "x = Inr (p, a) \<Longrightarrow> w_kv w2 = w_kv w1 \<Longrightarrow> u_active u = a \<Longrightarrow> wp_grown E w (fst (undo_store E now rs' u w2))"
proof -
  have "wp_grown E w w1 \<and> (x = Inr (p, a) \<longrightarrow> wp_grown E w (release_saga a w1)
      \<and> (w_kv w2 = w_kv w1 \<longrightarrow> u_active u = a \<longrightarrow> wp_grown E w (fst (undo_store E now rs' u w2))))"
  proof (cases "w_kv w")
    case None
    with assms(1) show ?thesis by (auto simp: persist_def wp_grown_same release_saga_def undo_store_def)
  next
    case (Some s)
    with assms(3) have v: "kv_valid (we_fr E) s" by (simp add: store_ok_def)
    obtain s2 where s2: "w_kv w1 = Some s2" "x = Inr (True, True)" "kv_valid (we_fr E) s2" "saga_open s s2"
        "prefix (audit_log (kdb s)) (audit_log (kdb s2))"
      by (rule persisted [OF assms(1,2) Some v])
    obtain s3 where s3: "release_savepoint saga s2 = (s3, Inr ())" "tables s3 = tables s2" "kv_valid (we_fr E) s3"
      by (rule release_open [OF s2(4,3)])
    have "wp_grown E w (fst (undo_store E now rs' u w2))" if w2: "w_kv w2 = w_kv w1" "u_active u"
    proof -
      have "w_kv w2 = Some s2" using w2(1) s2(1) by simp
      then obtain s4 where s4: "undo_store E now rs' u w2 = (w2\<lparr>w_kv := Some s4\<rparr>, False)" "tables s4 = tables s"
          "prev_hash s4 = prev_hash s" "cols s4 = cols s" "conn_open s4"
        by (rule undo_store_open [OF _ s2(4) w2(2)])
      with Some rolled_back_valid [OF v s4(2-5)] show ?thesis by (simp add: wp_grown_def grown_def)
    qed
    with Some s2 s3 show ?thesis by (auto simp: wp_grown_def grown_def release_saga_def)
  qed
  then show "wp_grown E w w1" and "x = Inr (p, a) \<Longrightarrow> wp_grown E w (release_saga a w1)"
    and "x = Inr (p, a) \<Longrightarrow> w_kv w2 = w_kv w1 \<Longrightarrow> u_active u = a \<Longrightarrow> wp_grown E w (fst (undo_store E now rs' u w2))" by blast+
qed

lemma wp_grown_saga:
  assumes "run_saga E now key val c m rs vec u w = (w', res)" "store_ok E w" "rs \<noteq> ''delete''"
  shows "wp_grown E w w'"
  using assms(1)
proof (cases rule: run_saga_cases)
  case (persist e w1)
  with wp_grown_persist(1) [OF persist(1) assms(3,2)] show ?thesis by simp
next
  case (vector p a w1 w2)
  have "w_kv w2 = w_kv w1" using index_vector_simps [of E key val vec p w1] vector by simp
  then have 1: "wp_grown E w (fst (undo_store E now ''rollback_vector_failure'' (u\<lparr>u_active := a\<rparr>) w2))"
    by (intro wp_grown_persist(3) [OF vector(1) assms(3,2) refl]) simp_all
  show ?thesis
    unfolding vector(3) undo_vector_failure_def Let_def case_prod_beta
    by (rule wp_grown_to [OF _ wp_grown_trans [OF 1 wp_grown_trans [OF _ wp_grown_same]]])
      (auto intro: wp_grown_restore wp_grown_same)
next
  case (hot p a w1 w2 e)
  have "w_kv w' = w_kv w1" using index_vector_simps [of E key val vec p w1] update_hot_kv [of now key val c m w2] hot by simp
  then show ?thesis using wp_grown_persist(1) [OF hot(1) assms(3,2)] by (rule wp_grown_to)
next
  case (graph p a w1 w2 w3 w4 ins x)
  let ?u = "u\<lparr>u_active := a\<rparr>" and ?k = "normalize_upsert_key (u_key u)"
  let ?w1 = "w4\<lparr>w_graph := map_option (undo_graph E (u_key u) ins) (w_graph w4),
               w_vector := map_option (\<lambda>v. fst (purge_vectors E [?k, ''kv:'' @ ?k] v)) (w_vector w4)\<rparr>"
  have "w_kv ?w1 = w_kv w1"
    using index_vector_simps [of E key val vec p w1] update_hot_kv [of now key val c m w2]
      insert_graph_simps [of E now key val m c w3] graph by simp
  then have 1: "wp_grown E w (fst (undo_store E now ''rollback_graph_failure'' ?u ?w1))"
    by (intro wp_grown_persist(3) [OF graph(1) assms(3,2) refl]) simp_all
  have "wp_grown E (fst (undo_store E now ''rollback_graph_failure'' ?u ?w1)) w'"
    unfolding graph(5) undo_graph_failure_def Let_def
    by (rule wp_grown_to [where w'' = "if map_option fst (u_old ?u) = Some (u_key ?u)
        then fst (undo_store E now ''rollback_graph_failure'' ?u ?w1)
        else restore_old E now ''rollback_restore'' (u_old ?u) (fst (undo_store E now ''rollback_graph_failure'' ?u ?w1))"])
      (simp_all add: wp_grown_restore wp_grown_same)
  then show ?thesis by (rule wp_grown_trans [OF 1])
next
  case (finish p a w1 w2 w3 w4 ins n)
  have "w_kv w4 = w_kv w1"
    using index_vector_simps [of E key val vec p w1] update_hot_kv [of now key val c m w2]
      insert_graph_simps [of E now key val m c w3] finish by simp
  then have "w_kv w' = w_kv (release_saga a w1)" by (simp add: finish(5) release_saga_def)
  then show ?thesis using wp_grown_persist(2) [OF finish(1) assms(3,2) refl] by (rule wp_grown_to)
qed

lemma wp_grown_commit:
  assumes "store_ok E w" "rs \<noteq> ''delete''"
  shows "wp_grown E w (fst (commit_write E now key val c m rs vec r items w))"
proof -
  define m1 where "m1 = conflict_meta E r m"
  obtain w1 m2 old where sup: "supersede E now key c r items m1 w = (w1, m2, old)" by (metis prod_cases3)
  obtain w2 y where t: "track_revision E key val c items m2 w1 = (w2, y)" by fastforce
  have "wp_grown E w w1" "store_ok E w1"
    using wp_grown_supersede [of E w now key c r items m1] store_ok_supersede [OF assms(1), of now key c r items m1] sup by simp_all
  then have 2: "wp_grown E w w2" "store_ok E w2"
    using track_revision_simps(1) [of E key val c items m2 w1] t by (simp_all add: wp_grown_def store_ok_def)
  show ?thesis
  proof (cases y)
    case (Inl e)
    with sup t 2 show ?thesis by (simp add: commit_write_def m1_def [symmetric])
  next
    case (Inr m3)
    obtain w3 z where run: "run_saga E now key val c m3 rs vec ((new_undo E key r items m1 w)\<lparr>u_old := old\<rparr>) w2 = (w3, z)" by fastforce
    have "fst (commit_write E now key val c m rs vec r items w) = w3"
      using sup t run Inr by (simp add: commit_write_def m1_def [symmetric] split: sum.split prod.split)
    with wp_grown_trans [OF 2(1) wp_grown_saga [OF run 2(2) assms(2)]] show ?thesis by simp
  qed
qed

lemma wp_grown_write:
  assumes "store_ok E w" "in_reason a \<noteq> ''delete''"
  shows "wp_grown E w (fst (WritePath.wp_write E now a w))"
proof -
  obtain w' res where r: "WritePath.wp_write E now a w = (w', res)" by fastforce
  from r show ?thesis
  proof (cases rule: wp_write_cases)
    case (replay key val conf m b)
    have "wp_grown E w (try_set E now key val cf m ''replay_no_op'' (w\<lparr>w_audit := z\<rparr>))" for cf z
      by (rule wp_grown_from [OF _ wp_grown_set]) simp_all
    with replay_no_op_cases [OF replay] r show ?thesis by (auto intro: wp_grown_same)
  next
    case (arbitrated key val conf m0 m rp)
    let ?w = "touch_session (in_session a) key w"
    have kv: "w_kv ?w = w_kv w" by (simp add: wp_simps)
    with assms(1) have ok: "store_ok E ?w" by (simp add: store_ok_def)
    from arbitrated(3) [unfolded saga_step_def] show ?thesis
    proof (cases rule: arbitrated_write_cases)
      case (commit r')
      have "wp_grown E ?w w'" using wp_grown_commit [OF ok assms(2)] commit(3) by (metis fst_conv)
      with kv r show ?thesis by (simp add: wp_grown_def)
    qed (use r kv in \<open>simp_all add: wp_grown_same\<close>)
  qed (use r in \<open>simp_all add: wp_grown_same\<close>)
qed

section \<open>The bridge over a writer\<close>

text \<open>What a bridge writes with: its write path, or the store itself.\<close>

type_synonym writer = "string \<Rightarrow> pyval \<Rightarrow> rat \<Rightarrow> meta \<Rightarrow> string \<Rightarrow> kv \<Rightarrow> kv \<times> (kv_error + unit)"

definition bridge_writer :: "texts \<Rightarrow> rat \<Rightarrow> bridge \<Rightarrow> writer" where
  "bridge_writer T now b key val conf m reason s =
     (case b_write_path b of
        Some path \<Rightarrow> write_path.wp_write path key val conf m reason s
      | None \<Rightarrow> set_sync (t_float T) now key val (FNum conf) m reason None s)"

lemma apply_write_writer:
  "b_kv b = Some s \<Longrightarrow> \<exists>key' val conf m' r. apply_write T now src key m b =
     (b\<lparr>b_kv := Some (fst (bridge_writer T now b key' val conf m' (''sync_from_'' @ src) s))\<rparr>, r)"
  by (auto simp: apply_write_def bridge_writer_def Let_def case_prod_beta split: option.split)

lemma apply_deletion_kv:
  "b_kv b = Some s \<Longrightarrow> b_kv (fst (apply_deletion T now key b)) = Some (fst (delete_sync (t_float T) now key s))"
  by (auto simp: apply_deletion_def Let_def case_prod_beta split: option.split sum.split)

lemma apply_mutation_frame: "b_write_path (fst (apply_mutation T now src m b)) = b_write_path b"
  by (auto simp: apply_mutation_def apply_deletion_def apply_write_def Let_def case_prod_beta
      split: option.splits sum.splits prod.splits)

locale store_keeping_writer =
  fixes fr :: "rat \<Rightarrow> string" and writes :: writer
  assumes keeps: "kv_valid fr s \<Longrightarrow> grown fr s (fst (writes key val conf m (''sync_from_'' @ src) s))"
begin

lemma mutation_grown:
  assumes "bridge_writer T now b = writes" "t_float T = fr" "b_kv b = Some s" "kv_valid fr s"
  shows "\<exists>s'. b_kv (fst (apply_mutation T now src m b)) = Some s' \<and> grown fr s s'"
proof -
  let ?k = "py_strip (m_key m)"
  have "\<exists>s'. b_kv (fst (apply_write T now src ?k m b)) = Some s' \<and> grown fr s s'"
    using apply_write_writer [OF assms(3), of T now src ?k m] keeps [OF assms(4)] by (fastforce simp: assms(1))
  moreover have "\<exists>s'. b_kv (fst (apply_deletion T now ?k b)) = Some s' \<and> grown fr s s'"
    using apply_deletion_kv [OF assms(3), of T now ?k] grown_delete [of fr s now ?k] by (simp add: assms(2))
  ultimately show ?thesis
    using assms(3) by (auto simp: apply_mutation_def Let_def)
qed

lemma loop_grown:
  assumes "bridge_writer T now b = writes" "t_float T = fr" "b_kv b = Some s" "kv_valid fr s"
  shows "\<exists>s'. b_kv (fst (apply_loop T now src ms b n)) = Some s' \<and> grown fr s s'
    \<and> (\<forall>k. snd (apply_loop T now src ms b n) = Inr k \<longrightarrow> k \<le> n + length ms)"
  using assms(1,3,4)
proof (induction ms arbitrary: b s n)
  case (Cons m ms)
  obtain b' r where e: "apply_mutation T now src m b = (b', r)" by fastforce
  obtain s' where s': "b_kv b' = Some s'" "grown fr s s'"
    using mutation_grown [OF Cons.prems(1) assms(2) Cons.prems(2,3), of src m] by (auto simp: e)
  with Cons.prems(3) have v: "kv_valid fr s'" by (simp add: grown_def)
  have "bridge_writer T now b' = writes"
    using apply_mutation_frame [of T now src m b] Cons.prems(1) by (simp add: e bridge_writer_def fun_eq_iff)
  note ih = Cons.IH [OF this s'(1) v]
  show ?case
  proof (cases r)
    case (Inl x)
    with s' show ?thesis by (simp add: e)
  next
    case (Inr done_it)
    obtain s'' where "b_kv (fst (apply_loop T now src ms b' (if done_it then n + 1 else n))) = Some s''" "grown fr s' s''"
        "\<forall>k. snd (apply_loop T now src ms b' (if done_it then n + 1 else n)) = Inr k \<longrightarrow> k \<le> (if done_it then n + 1 else n) + length ms"
      using ih [of "if done_it then n + 1 else n"] by blast
    with s'(2) show ?thesis by (auto simp: e Inr intro: grown_trans split: if_splits)
  qed
qed simp

lemma delta_grown:
  assumes "bridge_writer T now b = writes" "t_float T = fr" "b_kv b = Some s" "kv_valid fr s"
  shows "\<exists>b' res s'. apply_remote_delta T now d b = (b', res) \<and> b_kv b' = Some s' \<and> grown fr s s'
    \<and> (\<forall>n. res = Inr n \<longrightarrow> n \<le> length (d_mutations d))"
proof (cases "stale (b_clock b) (d_clock d)")
  case True
  with assms(3) show ?thesis by (simp add: apply_remote_delta_def)
next
  case False
  obtain b' r where e: "apply_loop T now (d_source d) (d_mutations d) b 0 = (b', r)" by fastforce
  with loop_grown [OF assms, of "d_source d" "d_mutations d" 0] False show ?thesis
    by (cases r) (auto simp: apply_remote_delta_def)
qed

end

interpretation store_only: store_keeping_writer "t_float T" "\<lambda>key val conf m reason s. set_sync (t_float T) now key val (FNum conf) m reason None s"
  for T now
  by unfold_locales (rule grown_set, simp)

section \<open>The write path behind the bridge\<close>

text \<open>The arguments of the bridge's call; the session, the replay switch and the time of replay keep their defaults.\<close>

definition peer_write :: "string \<Rightarrow> pyval \<Rightarrow> rat \<Rightarrow> meta \<Rightarrow> string \<Rightarrow> 'r option \<Rightarrow> 'r write_args" where
  "peer_write key val conf m reason vec =
     \<lparr>in_key = KeyValue (VStr key), in_value = val, in_conf = FNum conf, in_meta = m, in_source = ''peer_replication'',
      in_reason = reason, in_session = None, in_vector = vec, in_replay_at = VNone, in_replay = False\<rparr>"

text \<open>An exception leaves the bridge; only that it does is kept, and the store's own errors.\<close>

fun path_error :: "write_error \<Rightarrow> kv_error" where
  "path_error (StoreFailure e) = e"
| "path_error _ = ValueError"

definition saga_path ::
  "('g, 'v, 'r) wp_env \<Rightarrow> (string \<Rightarrow> pyval \<Rightarrow> rat \<Rightarrow> meta \<Rightarrow> string \<Rightarrow> kv \<Rightarrow> rat \<times> ('g, 'v) wp \<times> 'r option) \<Rightarrow> bool \<Rightarrow> write_path" where
  "saga_path E parts vectors =
     \<lparr>write_path.wp_write = (\<lambda>key val conf m reason s.
        let (now, w, vec) = parts key val conf m reason s;
            (w', res) = WritePath.wp_write E now (peer_write key val conf m reason vec) (w\<lparr>w_kv := Some s\<rparr>)
        in (case w_kv w' of Some s' \<Rightarrow> s' | None \<Rightarrow> s, map_sum path_error (\<lambda>_. ()) res)),
      wp_has_vectors = vectors\<rparr>"

lemma saga_path_keeps:
  assumes "kv_valid (we_fr E) s" "rs \<noteq> ''delete''"
  shows "grown (we_fr E) s (fst (write_path.wp_write (saga_path E parts vectors) key val conf m rs s))"
proof -
  obtain now w vec where p: "parts key val conf m rs s = (now, w, vec)" by (metis prod_cases3)
  let ?w = "w\<lparr>w_kv := Some s\<rparr>" and ?a = "peer_write key val conf m rs vec"
  have "wp_grown E ?w (fst (WritePath.wp_write E now ?a ?w))"
    by (rule wp_grown_write) (simp_all add: store_ok_def assms peer_write_def)
  then show ?thesis
    by (auto simp: saga_path_def p case_prod_beta wp_grown_def option_rel_Some1)
qed

interpretation saga_writer: store_keeping_writer "we_fr E" "write_path.wp_write (saga_path E parts vectors)"
  for E parts vectors
  by unfold_locales (rule saga_path_keeps, assumption, simp)

section \<open>Property\<close>



end
