(* ===== verification/Spec2Isabelle.thy ===== *)
theory Spec2Isabelle
  imports Gossip HotBuffer TextNorm Knapsack ContextBlock Trajectory WriteSaga AnnealKernels Recalibration Prefetch SessionTracker RamGraph SyncWrite
begin

text \<open>
  A verification library of the ATLAS memory, the long-term memory of an agent (\<open>src/atlas_memory\<close>).

  \<^bold>\<open>The program.\<close> A daemon keeps the memory of an agent in layers. L1 is the working memory: a buffer of the
  hot entries of the running session and a columnar buffer of its steps. L2 is the durable memory: a
  key-value store of state variables in SQLite whose every write is recorded in a hash-chained audit ledger,
  beside vector and graph stores. A retrieval pipeline ranks records, packs them into a token budget and
  renders the block of text that goes into the prompt. Several nodes keep each other up to date: conflict-free
  replicated sets under vector clocks hold what is shared, a bridge turns ledger entries into mutations and
  applies those of a peer, and a gossip protocol carries them, signed and encrypted.

  \<^bold>\<open>Theories and code.\<close> Each theory opens with what it holds; definitions have the names of the functions
  they model.

  \<^item> \<open>Prelude\<close>: dictionaries, strings, floats and dynamic values of Python as the whole development sees
    them, and the clamp of confidences (\<open>core/models.py\<close>). \<open>Convergence\<close>: the contract of replicated
    data types. \<open>Sha256\<close>, \<open>Json\<close>, \<open>Regex\<close>: the parts of \<open>hashlib\<close>, \<open>json\<close> and \<open>re\<close> that the code uses.
  \<^item> \<open>VectorClock\<close>, \<open>LwwSet\<close>, \<open>DeltaCrdt\<close>: the three classes of \<open>sync/crdt.py\<close>, each on top of the one before.
  \<^item> \<open>PeerTrust\<close>: \<open>sync/peer_identity.py\<close>, \<open>sync/epistemic_reputation.py\<close>, \<open>security/delete_guard.py\<close>.
  \<^item> \<open>AuditLedger\<close>: \<open>l2_semantic/repositories/audit_repository.py\<close>; \<open>TextNorm\<close>: \<open>l2_semantic/textnorm.py\<close>;
    \<open>KvStore\<close>: \<open>l2_semantic/kv_store.py\<close> and the repositories of state variables, intents, checkpoints and
    the step counter, over the ledger.
  \<^item> \<open>SyncBridge\<close>: \<open>sync/bridge.py\<close>, which reads the ledger and writes the store; \<open>SyncWrite\<close> puts the write path behind
    it, as the daemon does. \<open>Gossip\<close>: \<open>sync/protocol.py\<close>,
    \<open>sync/crypto.py\<close>, \<open>sync/transport.py\<close>, which join replica, bridge, identities and reputation.
  \<^item> \<open>HotBuffer\<close>: \<open>l1_working/hot_buffer.py\<close>. \<open>Trajectory\<close>: \<open>l1_working/trajectory_buffer.py\<close>.
  \<^item> \<open>Lexicon\<close>: \<open>cognitive/lexicon.py\<close>, the word classes and stems of the conflict arbiter. \<open>ConflictArbiter\<close>:
    \<open>cognitive/conflict_arbiter.py\<close>, which compares an incoming write with what is stored.
  \<^item> \<open>Linguistics\<close>: \<open>core/linguistics.py\<close> and the text predicates of \<open>core/models.py\<close>. \<open>StateSearch\<close>: the candidate
    searches of \<open>state_repository.py\<close>. \<open>WritePath\<close>: \<open>cognitive/write_path.py\<close>, the one place every write goes through: gates,
    arbitration, supersession, and a saga over store, vector index, hot buffer and graph. \<open>WriteSaga\<close>: what it guarantees.
  \<^item> \<open>RecordText\<close>, \<open>Dedup\<close>, \<open>Knapsack\<close>, \<open>ContextBlock\<close>: \<open>cognitive/retrieval/render.py\<close>, which reads records,
    joins those that state the same fact, packs what fits the budget, and writes the block.
  \<^item> \<open>Candidates\<close>: \<open>gather_candidates\<close> of \<open>cognitive/retrieval/candidates.py\<close> with its adapters in \<open>core/protocols.py\<close>, the pool of a
    query. \<open>Scoring\<close>: \<open>cognitive/retrieval/strategies\<close>, deduplication, the signals, both fusions and the entropy filter.
    \<open>Isotonic\<close>, \<open>Calibration\<close>: \<open>cognitive/calibration_engine.py\<close>, the regression and the metrics, then the calibrator and its
    manager. \<open>Gate\<close>: \<open>cognitive/retrieval/gate.py\<close> and its word tables in \<open>core/linguistics.py\<close>. \<open>Prefetch\<close>: \<open>PrefetchEngine.execute\<close>
    of \<open>cognitive/retrieval/prefetch.py\<close>, which runs all of them and packs and renders the answer.
  \<^item> \<open>SessionTracker\<close>: \<open>l1_working/session_tracker.py\<close>, start and end of a session over write path, buffers and stores.
    \<open>RamGraph\<close>: \<open>l2_semantic/kuzu/ram_multigraph.py\<close>, the graph in memory with its indices and its hydration from disk.
  \<^item> \<open>Precision\<close>: \<open>cognitive/precision.py\<close>, how far a channel is trusted. \<open>Energy\<close>, \<open>Annealer\<close>: \<open>causal/energy_module.py\<close> and
    \<open>causal/annealer.py\<close>, what a causal graph costs and the annealing of its confidences; \<open>AnnealKernels\<close> compares the two kernels.
  \<^item> \<open>CausalRisk\<close>: \<open>causal/risk_assessor.py\<close>. \<open>CausalGraph\<close>, \<open>CausalPaths\<close>, \<open>CausalDiffusion\<close>, \<open>Recalibration\<close>:
    \<open>causal/retro_causal_edge.py\<close>, the searches for critical points, for the consequences of a simulated action and
    for the spread of an impact, and the annealing of the relations around an entity, which writes through the write path.

  \<^bold>\<open>State and errors.\<close> An object is a record of its attributes, a method a function from the object to its next
  state with the result; \<open>raise\<close> is the left of a sum or \<open>None\<close>. SQLite tables are lists or dictionaries of rows
  in the order of their primary key, and every statement commits by itself, as the connection's autocommit mode
  has it. Integers of Python are \<open>int\<close> or \<open>nat\<close>; SHA-256 computes on 32-bit words. Time is an argument. What is
  not under \<open>src/\<close> (Ed25519, AES-GCM, spaCy, \<open>repr\<close> and the texts of floats, the hash order of sets, random numbers, keyword lists read from files) is a parameter,
  collected in the records \<open>env\<close>, \<open>render_env\<close>, \<open>traj_env\<close>, \<open>arb_env\<close>, \<open>ling_env\<close>, \<open>wp_env\<close>, \<open>random_api\<close>, \<open>risk_env\<close>,
  \<open>read_env\<close>, \<open>score_env\<close>, \<open>cal_env\<close>, \<open>prefetch_env\<close>, \<open>session_env\<close>, \<open>nx_api\<close>
  (with its laws \<open>nx_ok\<close>) and \<open>graph_db\<close>; \<open>env_ok\<close> states what the
  theorems use of it. Graph and vector index are states of their own with the operations of \<open>graph_api\<close> and \<open>vector_api\<close>, any of
  which may raise.

  \<^bold>\<open>Interfaces.\<close> \<open>join_state\<close> (\<open>Convergence\<close>) is what gossip needs of a replicated type: merging is a join on an
  abstraction; clocks, element sets and replicas provide it, and that deliveries may be lost, repeated and
  reordered is proved once. \<open>lambda_separated\<close> (\<open>LwwSet\<close>) are the potentials that the tolerance of the dominance
  test tells apart. \<open>fifo_registry\<close> (\<open>PeerTrust\<close>) is the bounded registry of peers, provided by the
  reputation and the identities. \<open>append_only_store\<close> (\<open>KvStore\<close>) is the store as its writers see it: each
  operation keeps it valid and extends the ledger. \<open>store_keeping_writer\<close> (\<open>SyncWrite\<close>) is what the bridge needs of what it writes
  with, provided by the store itself and by the write path. \<open>annealing_kernel\<close> (\<open>Annealer\<close>) is a step of annealing as its loop sees it,
  provided by the reference kernel and by the array kernel.

  \<^bold>\<open>What the theorems show.\<close> Integrity: every write of the store whose reason is not the word \<open>delete\<close>, also one that a peer
  caused, with or without the write path, leaves a ledger that passes the deep verification; a ledger with the same tip is the same ledger or exhibits a SHA-256
  collision; redaction and healing keep the verification, changes are located. Replication: element sets and
  replicas that saw the same deltas agree; an envelope is applied only if the registered key of its source verifies its signature, and
  a delivered request applies the sender's next page of the ledger; imprecise mutations
  overwrite nothing; replays are rejected; the export lists the whole ledger. Arbitration: a supersession stays
  within the entity unless the write orders it, retired records have no say, and a weaker write over an established
  fact is never accepted silently. Writing: whatever sequence of writes goes through the write path (again none with the reason \<open>delete\<close>), the store verifies and
  the buffer keeps its bounds; an accepted write is stored, a refused one leaves no trace, a failed one is undone; the typo test is
  the edit distance it stands for. Working memory: the
  buffer's bounds, isolation of sessions, purging of superseded entries; the columns of the
  trajectory buffer stay aligned, batches and files give them back. Retrieval: deduplication returns and keeps one
  record of every class that the code links, the components of the packing are the connected parts of the graph of shared entities, the
  budget holds unless no candidate fits it, and nothing superseded reaches the prompt. The pool of a query holds nothing of a foreign session and nothing from the graph
  that the store has retired under a key that the code probes, the ranking keeps one record of every fact and its scores stay in the unit interval, the gate opens exactly on
  evidence, and after any sequence of calls an answer, buffered or fresh, belongs to its session, keeps its limits and is recent.
  Calibration: pooling is least-squares isotonic regression, the ROC score and the drift statistic are what their names say,
  a threshold that is served for a type with training data has passed the test for publication, and a calibrator is replaced on drift and gain only. Sessions: a session ends
  once, and what is retired leaves the working memory. Graph in memory: the indices never lie, scans by pages are complete, hydration
  depends on no order of rows and changes nothing the second time. Causality: annealing changes confidences
  only and, from a start temperature of at most 1, ends by cooling, its array kernel refines the reference kernel; a critical point stands for at least half of what can
  be reached; a simulated action lists the simple paths, the diffusion reports distances; recalibration writes nothing but
  confidences of edges it read, through the choke point. The theorems of kind error show where
  the code falls short of what it means to do.

  \<^bold>\<open>Bounds and recursion.\<close> The loops of the code end by structure or by a measure: the search of \<open>bfs\<close> by the
  vertices not yet visited, \<open>hb_loop\<close> and the pages by their lists. The search for a root in the union-find forest
  is \<open>partial_function\<close>; that it returns is part of the theorem on deduplication, from the invariant that parents
  never point upwards. The search of \<open>get_reachable\<close> ends because every round takes a node from the stack or visits a new
  one, the annealing after its remaining iterations, the scan by pages
  (\<open>partial_function\<close>) because a page either fails, which halves the limit, or advances the offset, the traversal of paths by the steps left. Repetition in \<open>Regex\<close> has the length of the remaining text as fuel, enough since every
  repetition of the patterns consumes a character. The parser of \<open>Json\<close> has the length of the text as fuel.

  \<^bold>\<open>Not modelled.\<close> Numeric kernels (JEPA, test-time training, active inference, predictive coding, personalised PageRank), since their content is
  floating-point arithmetic on tensors; the drivers of external services (Kuzu, Qdrant, ONNX, the LLM extractor),
  since their behaviour is that of the service; the stop-word resources, the tools of the domain registry
  and the sensing engine that the arbiter asks are parameters of its definitions; daemon, sockets, plugin, logging and scripts, since they are input and
  output around the components. Of retrieval the diagnostics and the reflective alternatives for foreign store objects are left
  out. The procedural memory is left to extensions of this library; the
  write path takes the extraction of relations from running text as a parameter. Locks serialise the calls and have no trace in the model.
\<close>

end
